(* ===== verification/Pico_Prelude.thy ===== *)
theory Pico_Prelude
  imports Main "HOL-Library.Word"
begin

text \<open>
  Shared vocabulary of the development: the machine integers of the Rust sources, the
  results of a transport poll, the values that cross the boundary to the \<open>hibana\<close> crate
  (a port, an outgoing message, a received frame), the little- and big-endian byte images of
  integers, and the in-place slice copy \<open>out[a..b].copy_from_slice(src)\<close>.

  Rust's \<open>usize\<close> is \<open>nat\<close>: every length and index of the modelled code is bounded by a
  constant far below the machine limit. Fixed-width integers are words of their width.
\<close>

unbundle bit_operations_syntax

type_synonym u8 = "8 word"
type_synonym u16 = "16 word"
type_synonym u32 = "32 word"
type_synonym u64 = "64 word"

text \<open>\<open>i16\<close> shares its bits with \<open>u16\<close>; \<open>sint\<close> reads it as two's complement.\<close>

type_synonym i16 = "16 word"
type_synonym bytes = "u8 list"

named_theorems wire_simps \<open>unfolding rules for the wire codecs\<close>
named_theorems guard_simps \<open>unfolding rules for the guards of the transports\<close>
named_theorems inv_intros \<open>introduction rules: each operation keeps its component's invariant\<close>

section \<open>Results\<close>

text \<open>\<open>core::task::Poll\<close>, and the transport errors the sources construct.\<close>

datatype 'a poll = Pending | Ready 'a

datatype transport_error = Failed | Capacity | Deadline

type_synonym 'a transport_result = "transport_error + 'a"

text \<open>Code that may panic returns \<open>Panic\<close> on the panicking branch.\<close>

datatype 'a outcome = Done 'a | Panic

fun is_done :: "'a outcome \<Rightarrow> bool" where
  "is_done (Done _) = True"
| "is_done Panic = False"

definition bind_outcome :: "'a outcome \<Rightarrow> ('a \<Rightarrow> 'b outcome) \<Rightarrow> 'b outcome" where
  "bind_outcome m f = (case m of Done x \<Rightarrow> f x | Panic \<Rightarrow> Panic)"

lemma bind_outcome_simps [simp]:
  "bind_outcome (Done x) f = f x" "bind_outcome Panic f = Panic"
  by (simp_all add: bind_outcome_def)

lemma bind_outcome_Done_iff [simp]:
  "bind_outcome m f = Done y \<longleftrightarrow> (\<exists>x. m = Done x \<and> f x = Done y)"
  by (cases m) auto

section \<open>The boundary to the hibana crate\<close>

text \<open>
  The fields the sources read from \<open>PortOpen\<close> and \<open>Outgoing\<close>, and the two parts of a
  \<open>ReceivedFrame\<close>: the eight header bytes given to \<open>FrameHeader::from_bytes\<close> and the
  payload bytes.
\<close>

record port_open =
  port_role :: u8
  port_session :: u32
  port_lane :: u8

record outgoing =
  out_target :: u8
  out_lane :: u8
  out_label :: u8
  out_payload :: bytes

record received =
  recv_header :: bytes
  recv_payload :: bytes

section \<open>Byte images of integers\<close>

definition le_bytes16 :: "u16 \<Rightarrow> bytes" where
  "le_bytes16 w = [ucast w, ucast (drop_bit 8 w)]"

definition of_le_bytes16 :: "u8 \<Rightarrow> u8 \<Rightarrow> u16" where
  "of_le_bytes16 a b = ucast a OR push_bit 8 (ucast b)"

definition le_bytes32 :: "u32 \<Rightarrow> bytes" where
  "le_bytes32 w =
     [ucast w, ucast (drop_bit 8 w), ucast (drop_bit 16 w), ucast (drop_bit 24 w)]"

definition of_le_bytes32 :: "u8 \<Rightarrow> u8 \<Rightarrow> u8 \<Rightarrow> u8 \<Rightarrow> u32" where
  "of_le_bytes32 a b c d =
     ucast a OR push_bit 8 (ucast b) OR push_bit 16 (ucast c) OR push_bit 24 (ucast d)"

definition be_bytes32 :: "u32 \<Rightarrow> bytes" where
  "be_bytes32 w = rev (le_bytes32 w)"

lemma length_le_bytes16 [simp]: "length (le_bytes16 w) = 2"
  by (simp add: le_bytes16_def)

lemma length_le_bytes32 [simp]: "length (le_bytes32 w) = 4"
  by (simp add: le_bytes32_def)

lemma length_be_bytes32 [simp]: "length (be_bytes32 w) = 4"
  by (simp add: be_bytes32_def)

lemma u8_bit_high [simp]: "8 \<le> n \<Longrightarrow> \<not> bit (a :: u8) n"
  using bit_imp_le_length [of a n] by auto

lemmas byte_bits =
  bit_or_iff bit_push_bit_iff bit_ucast_iff bit_drop_bit_eq not_le not_less

lemma of_le_bytes16_to [simp]: "of_le_bytes16 (ucast w) (ucast (drop_bit 8 w)) = w"
  unfolding of_le_bytes16_def by (rule bit_word_eqI) (auto simp: byte_bits)

lemma le_bytes16_of [simp]: "le_bytes16 (of_le_bytes16 a b) = [a, b]"
  unfolding le_bytes16_def of_le_bytes16_def
  by (auto intro!: bit_word_eqI simp: byte_bits)

lemma of_le_bytes32_to [simp]:
  "of_le_bytes32 (ucast w) (ucast (drop_bit 8 w)) (ucast (drop_bit 16 w))
     (ucast (drop_bit 24 w)) = w"
  unfolding of_le_bytes32_def
proof (rule bit_word_eqI, goal_cases)
  case (1 n)
  then consider "n < 8" | "8 \<le> n" "n < 16" | "16 \<le> n" "n < 24" | "24 \<le> n" "n < 32"
    by fastforce
  then show ?case by cases (auto simp: byte_bits)
qed

lemma le_bytes32_of [simp]: "le_bytes32 (of_le_bytes32 a b c d) = [a, b, c, d]"
  unfolding le_bytes32_def of_le_bytes32_def
  by (auto intro!: bit_word_eqI simp: byte_bits)

lemma of_le_bytes32_nth [simp]:
  "of_le_bytes32 (le_bytes32 w ! 0) (le_bytes32 w ! 1) (le_bytes32 w ! 2) (le_bytes32 w ! 3) = w"
  by (simp add: le_bytes32_def)

lemma le_bytes32_inj [simp]: "le_bytes32 v = le_bytes32 w \<longleftrightarrow> v = w"
proof
  assume eq: "le_bytes32 v = le_bytes32 w"
  have "v = of_le_bytes32 (le_bytes32 v ! 0) (le_bytes32 v ! 1) (le_bytes32 v ! 2) (le_bytes32 v ! 3)"
    by (rule of_le_bytes32_nth [symmetric])
  also have "\<dots> = w" unfolding eq by (rule of_le_bytes32_nth)
  finally show "v = w" .
qed simp

lemma be_bytes32_inj [simp]: "be_bytes32 v = be_bytes32 w \<longleftrightarrow> v = w"
  by (simp add: be_bytes32_def)

section \<open>Copying into a fixed array\<close>

text \<open>
  \<open>dst[off..off + src.len()].copy_from_slice(src)\<close>. Rust panics when the range passes the
  end of \<open>dst\<close>; every caller below checks the length first, and the invariants of the
  components show it.
\<close>

text \<open>The bytes of a \<open>b"..."\<close> literal.\<close>

definition ascii :: "string \<Rightarrow> bytes" where
  "ascii s = map of_char s"

lemma length_ascii [simp]: "length (ascii s) = length s"
  by (simp add: ascii_def)

definition blit :: "nat \<Rightarrow> 'a list \<Rightarrow> 'a list \<Rightarrow> 'a list" where
  "blit off src dst = take off dst @ src @ drop (off + length src) dst"

lemma length_blit [simp]:
  "off + length src \<le> length dst \<Longrightarrow> length (blit off src dst) = length dst"
  by (simp add: blit_def)

lemma take_blit_0 [simp]: "take (length src) (blit 0 src dst) = src"
  by (simp add: blit_def)

lemma take_blit_0_le: "n \<le> length src \<Longrightarrow> take n (blit 0 src dst) = take n src"
  by (simp add: blit_def)

lemma blit_0: "blit 0 src dst = src @ drop (length src) dst"
  by (simp add: blit_def)

lemma blit_append:
  "length pre = off \<Longrightarrow> blit off src (pre @ rest) = pre @ src @ drop (length src) rest"
  by (simp add: blit_def)

section \<open>Words as lengths\<close>

lemma unat_of_nat_u8 [simp]: "n < 256 \<Longrightarrow> unat (of_nat n :: u8) = n"
  by (simp add: unat_of_nat)

lemma unat_u8_less [simp]: "unat (w :: u8) < 256"
  using unsigned_less [of w] by simp

lemma xor_cancel_word: "(a :: 'a::len word) XOR b = a XOR c \<longleftrightarrow> b = c"
  by (metis xor.left_neutral xor.assoc xor_self_eq)

text \<open>\<open>saturating_add(1)\<close> on the counters of sent frames.\<close>

definition sat_inc16 :: "u16 \<Rightarrow> u16" where
  "sat_inc16 n = (if n = 0xffff then n else n + 1)"

end
