(* ===== verification/Wire_Protocol.thy ===== *)
theory Wire_Protocol
  imports Pico_Prelude
begin

text \<open>
  The Uno Q payload codecs of \<open>examples/uno-q-heterogeneous/src/protocol.rs\<close>: the face
  frame, the human input text and the Pico 2 W sensor sample, each with its constructor, its
  encoder, its validator and its decoder. A decoder runs on validated payloads only and
  panics otherwise, so it returns an \<open>outcome\<close>. The locale \<open>wire_codec\<close> states what the
  hibana transport relies on in a payload type; the three codecs are interpretations of it.
\<close>

text \<open>The roles of the choreography.\<close>

definition ROLE_WASI_LLM_CELL :: u8 where "ROLE_WASI_LLM_CELL = 1"
definition ROLE_M33_LED_KERNEL :: u8 where [simp]: "ROLE_M33_LED_KERNEL = 0"
definition ROLE_LOCAL_LLM :: u8 where "ROLE_LOCAL_LLM = 2"
definition ROLE_HUMAN_INPUT :: u8 where "ROLE_HUMAN_INPUT = 3"
definition ROLE_PICO2W_SENSOR :: u8 where "ROLE_PICO2W_SENSOR = 4"

datatype codec_error = Truncated | Malformed

datatype protocol_error =
  InvalidEmotion | HumanInputTooLong | HumanInputInvalidUtf8 | InvalidPico2wSensorStatus

text \<open>The length an encoder reports and the buffer it leaves behind, or its error.\<close>

type_synonym encode_result = "codec_error + nat \<times> bytes"

fun map_err :: "('e \<Rightarrow> 'f) \<Rightarrow> 'e + 'a \<Rightarrow> 'f + 'a" where
  "map_err f (Inl e) = Inl (f e)"
| "map_err f (Inr x) = Inr x"

fun discard_ok :: "'e + 'a \<Rightarrow> 'e + unit" where
  "discard_ok (Inl e) = Inl e"
| "discard_ok (Inr _) = Inr ()"

text \<open>\<open>match r { Ok(v) => v, Err(_) => panic!(..) }\<close>\<close>

fun ok_or_panic :: "'e + 'a \<Rightarrow> 'a outcome" where
  "ok_or_panic (Inl _) = Panic"
| "ok_or_panic (Inr v) = Done v"

section \<open>The codec interface\<close>

text \<open>
  \<open>wire v\<close> is the byte image of \<open>v\<close>; \<open>wf v\<close> holds of the values the constructors
  can build.
\<close>

locale wire_codec =
  fixes wf :: "'a \<Rightarrow> bool"
    and wire :: "'a \<Rightarrow> bytes"
    and encode_into :: "'a \<Rightarrow> bytes \<Rightarrow> encode_result"
    and validate_payload :: "bytes \<Rightarrow> codec_error + unit"
    and decode_validated :: "bytes \<Rightarrow> 'a outcome"
  assumes encode_fits:
      "wf v \<Longrightarrow> length (wire v) \<le> length out \<Longrightarrow>
         encode_into v out = Inr (length (wire v), blit 0 (wire v) out)"
    and encode_short:
      "wf v \<Longrightarrow> length out < length (wire v) \<Longrightarrow> encode_into v out = Inl Truncated"
    and validate_wire: "wf v \<Longrightarrow> validate_payload (wire v) = Inr ()"
    and decode_wire: "wf v \<Longrightarrow> decode_validated (wire v) = Done v"
    and validate_sound:
      "validate_payload bs = Inr () \<Longrightarrow> \<exists>v. wf v \<and> wire v = bs"
begin

lemma encode_error_iff:
  "wf v \<Longrightarrow> encode_into v out = Inl Truncated \<longleftrightarrow> length out < length (wire v)"
  by (cases "length out < length (wire v)") (auto simp: encode_short encode_fits)

lemma roundtrip:
  assumes "wf v" and "encode_into v out = Inr (n, out')"
  shows "validate_payload (take n out') = Inr () \<and> decode_validated (take n out') = Done v
    \<and> length out' = length out \<and> drop n out' = drop n out"
proof -
  have fits: "length (wire v) \<le> length out"
    using encode_short [OF assms(1), of out] assms(2) by (cases "length out < length (wire v)") auto
  then have "n = length (wire v)" "out' = blit 0 (wire v) out"
    using assms encode_fits by auto
  with assms fits show ?thesis
    by (auto simp: validate_wire decode_wire) (simp add: blit_0)
qed

lemma decode_total:
  assumes "validate_payload bs = Inr ()"
  shows "\<exists>v. wf v \<and> decode_validated bs = Done v \<and> wire v = bs"
  using validate_sound [OF assms] decode_wire by auto

lemma canonical:
  assumes "validate_payload bs = Inr ()" and "length bs \<le> length out"
  shows "\<exists>v. decode_validated bs = Done v \<and> encode_into v out = Inr (length bs, blit 0 bs out)"
  using decode_total [OF assms(1)] assms(2) encode_fits by blast

lemma wire_inj: "wf v \<Longrightarrow> wf w \<Longrightarrow> wire v = wire w \<Longrightarrow> v = w"
  by (metis decode_wire outcome.inject)

end

section \<open>Face frames\<close>

definition FACE_NEUTRAL :: u8 where [simp]: "FACE_NEUTRAL = 0"
definition FACE_HAPPY :: u8 where [simp]: "FACE_HAPPY = 1"
definition FACE_SAD :: u8 where [simp]: "FACE_SAD = 2"
definition FACE_ANGRY :: u8 where [simp]: "FACE_ANGRY = 3"
definition FACE_SURPRISED :: u8 where [simp]: "FACE_SURPRISED = 4"
definition FACE_THINKING :: u8 where [simp]: "FACE_THINKING = 5"
definition FACE_SPEAKING :: u8 where [simp]: "FACE_SPEAKING = 6"
definition FACE_MOUTH_CLOSED :: u8 where [simp]: "FACE_MOUTH_CLOSED = 16"
definition FACE_MOUTH_SMALL :: u8 where [simp]: "FACE_MOUTH_SMALL = 17"
definition FACE_MOUTH_WIDE :: u8 where [simp]: "FACE_MOUTH_WIDE = 18"
definition FACE_MOUTH_ROUND :: u8 where [simp]: "FACE_MOUTH_ROUND = 19"

definition validate_display_face :: "u8 \<Rightarrow> protocol_error + unit" where
  "validate_display_face face =
     (if face = FACE_NEUTRAL \<or> face = FACE_HAPPY \<or> face = FACE_SAD \<or> face = FACE_ANGRY
        \<or> face = FACE_SURPRISED \<or> face = FACE_THINKING \<or> face = FACE_SPEAKING
        \<or> face = FACE_MOUTH_CLOSED \<or> face = FACE_MOUTH_SMALL \<or> face = FACE_MOUTH_WIDE
        \<or> face = FACE_MOUTH_ROUND
      then Inr () else Inl InvalidEmotion)"

record face_frame =
  ff_face :: u8
  ff_ordinal :: u8

definition face_frame_new :: "u8 \<Rightarrow> u8 \<Rightarrow> protocol_error + face_frame" where
  "face_frame_new face ordinal =
     (case validate_display_face face of
        Inl e \<Rightarrow> Inl e
      | Inr _ \<Rightarrow> Inr \<lparr>ff_face = face, ff_ordinal = ordinal\<rparr>)"

definition face_frame_encode_into :: "face_frame \<Rightarrow> bytes \<Rightarrow> encode_result" where
  "face_frame_encode_into f out =
     (if length out < 2 then Inl Truncated
      else Inr (2, out[0 := ff_face f, 1 := ff_ordinal f]))"

definition face_frame_validate :: "bytes \<Rightarrow> codec_error + unit" where
  "face_frame_validate bs =
     (if length bs \<noteq> 2 then Inl Malformed
      else map_err (\<lambda>_. Malformed) (discard_ok (face_frame_new (bs ! 0) (bs ! 1))))"

definition face_frame_decode_validated :: "bytes \<Rightarrow> face_frame outcome" where
  "face_frame_decode_validated bs =
     (if length bs < 2 then Panic else ok_or_panic (face_frame_new (bs ! 0) (bs ! 1)))"

definition face_frame_wf :: "face_frame \<Rightarrow> bool" where
  "face_frame_wf f \<longleftrightarrow> validate_display_face (ff_face f) = Inr ()"

definition face_frame_wire :: "face_frame \<Rightarrow> bytes" where
  "face_frame_wire f = [ff_face f, ff_ordinal f]"

lemma blit_pair: "2 \<le> length out \<Longrightarrow> out[0 := a, Suc 0 := b] = blit 0 [a, b] out"
  by (cases out; cases "tl out") (auto simp: blit_def)

lemma length_2: "length xs = 2 \<longleftrightarrow> (\<exists>a b. xs = [a, b])"
  by (auto simp: numeral_2_eq_2 length_Suc_conv)

lemmas face_frame_defs [wire_simps] =
  face_frame_new_def face_frame_encode_into_def face_frame_validate_def
  face_frame_decode_validated_def face_frame_wf_def face_frame_wire_def

lemma validate_display_face_cases:
  "validate_display_face a = Inr () \<or> validate_display_face a = Inl InvalidEmotion"
  by (simp add: validate_display_face_def)

interpretation face_codec: wire_codec face_frame_wf face_frame_wire face_frame_encode_into
  face_frame_validate face_frame_decode_validated
proof (unfold_locales, goal_cases)
  case (5 bs)
  then obtain a b where "bs = [a, b]"
    by (auto simp: wire_simps length_2 split: if_splits)
  with 5 have "face_frame_wf \<lparr>ff_face = a, ff_ordinal = b\<rparr>"
    using validate_display_face_cases [of a] by (auto simp: wire_simps)
  with \<open>bs = [a, b]\<close> show ?case
    by (intro exI [of _ "\<lparr>ff_face = a, ff_ordinal = b\<rparr>"]) (simp add: wire_simps)
qed (auto simp: wire_simps blit_pair)

section \<open>Human input text\<close>

definition HUMAN_INPUT_TEXT_BYTES :: nat where [simp]: "HUMAN_INPUT_TEXT_BYTES = 96"

text \<open>
  \<open>core::str::from_utf8\<close> of the standard library accepts exactly the well-formed byte
  sequences of the Unicode standard: no overlong form, no surrogate, nothing past U+10FFFF.
\<close>

definition utf8_cont :: "u8 \<Rightarrow> bool" where
  "utf8_cont b \<longleftrightarrow> 0x80 \<le> b \<and> b \<le> 0xBF"

fun utf8_second :: "u8 \<Rightarrow> u8 \<Rightarrow> bool" where
  "utf8_second a b =
     (if a = 0xE0 then 0xA0 \<le> b \<and> b \<le> 0xBF
      else if a = 0xED then 0x80 \<le> b \<and> b \<le> 0x9F
      else if a = 0xF0 then 0x90 \<le> b \<and> b \<le> 0xBF
      else if a = 0xF4 then 0x80 \<le> b \<and> b \<le> 0x8F
      else utf8_cont b)"

definition utf8_width :: "u8 \<Rightarrow> nat" where
  "utf8_width a =
     (if a \<le> 0x7F then 1
      else if 0xC2 \<le> a \<and> a \<le> 0xDF then 2
      else if 0xE0 \<le> a \<and> a \<le> 0xEF then 3
      else if 0xF0 \<le> a \<and> a \<le> 0xF4 then 4
      else 0)"

fun utf8_valid :: "bytes \<Rightarrow> bool" where
  "utf8_valid [] = True"
| "utf8_valid (a # bs) =
     (if utf8_width a = 1 then utf8_valid bs
      else if utf8_width a = 2 then
        (case bs of b # r \<Rightarrow> utf8_second a b \<and> utf8_valid r | _ \<Rightarrow> False)
      else if utf8_width a = 3 then
        (case bs of b # c # r \<Rightarrow> utf8_second a b \<and> utf8_cont c \<and> utf8_valid r | _ \<Rightarrow> False)
      else if utf8_width a = 4 then
        (case bs of b # c # d # r \<Rightarrow>
           utf8_second a b \<and> utf8_cont c \<and> utf8_cont d \<and> utf8_valid r | _ \<Rightarrow> False)
      else False)"

record human_input_text =
  hit_len :: u8
  hit_bytes :: bytes

definition human_input_empty :: human_input_text where
  "human_input_empty = \<lparr>hit_len = 0, hit_bytes = replicate HUMAN_INPUT_TEXT_BYTES 0\<rparr>"

definition human_input_from_bytes :: "bytes \<Rightarrow> protocol_error + human_input_text" where
  "human_input_from_bytes input =
     (if length input > HUMAN_INPUT_TEXT_BYTES then Inl HumanInputTooLong
      else if \<not> utf8_valid input then Inl HumanInputInvalidUtf8
      else Inr \<lparr>hit_len = of_nat (length input),
                hit_bytes = blit 0 input (replicate HUMAN_INPUT_TEXT_BYTES 0)\<rparr>)"

definition human_input_length :: "human_input_text \<Rightarrow> nat" where
  "human_input_length t = unat (hit_len t)"

definition human_input_is_empty :: "human_input_text \<Rightarrow> bool" where
  "human_input_is_empty t \<longleftrightarrow> hit_len t = 0"

definition human_input_as_bytes :: "human_input_text \<Rightarrow> bytes" where
  "human_input_as_bytes t = take (human_input_length t) (hit_bytes t)"

definition human_input_as_str :: "human_input_text \<Rightarrow> protocol_error + bytes" where
  "human_input_as_str t =
     (if utf8_valid (human_input_as_bytes t) then Inr (human_input_as_bytes t)
      else Inl HumanInputInvalidUtf8)"

definition human_input_encode_into :: "human_input_text \<Rightarrow> bytes \<Rightarrow> encode_result" where
  "human_input_encode_into t out =
     (let len = human_input_length t in
      if length out < 1 + len then Inl Truncated
      else Inr (1 + len, blit 1 (human_input_as_bytes t) (out[0 := hit_len t])))"

definition human_input_validate :: "bytes \<Rightarrow> codec_error + unit" where
  "human_input_validate bs =
     (case bs of
        [] \<Rightarrow> Inl Malformed
      | l # rest \<Rightarrow>
          let len = unat l in
          if len > HUMAN_INPUT_TEXT_BYTES then Inl Malformed
          else if length rest \<noteq> len then Inl Malformed
          else map_err (\<lambda>_. Malformed) (discard_ok (human_input_from_bytes rest)))"

definition human_input_decode_validated :: "bytes \<Rightarrow> human_input_text outcome" where
  "human_input_decode_validated bs =
     (case bs of
        [] \<Rightarrow> Panic
      | l # rest \<Rightarrow>
          let len = unat l in
          if length rest < len then Panic
          else ok_or_panic (human_input_from_bytes (take len rest)))"

definition human_input_wf :: "human_input_text \<Rightarrow> bool" where
  "human_input_wf t \<longleftrightarrow> (\<exists>s. human_input_from_bytes s = Inr t)"

definition human_input_wire :: "human_input_text \<Rightarrow> bytes" where
  "human_input_wire t = hit_len t # human_input_as_bytes t"

lemmas human_input_defs [wire_simps] =
  human_input_from_bytes_def human_input_encode_into_def human_input_validate_def
  human_input_decode_validated_def human_input_wire_def human_input_length_def
  human_input_as_bytes_def

text \<open>A text built by the constructor gives back the bytes it was built from.\<close>

lemma human_input_from_bytesE:
  assumes "human_input_from_bytes s = Inr t"
  obtains "length s \<le> 96" "utf8_valid s" "unat (hit_len t) = length s"
    "hit_len t = of_nat (length s)" "human_input_as_bytes t = s" "length (hit_bytes t) = 96"
  using assms that by (auto simp: wire_simps split: if_splits)

lemma human_input_wf_wire:
  assumes "human_input_wf t"
  obtains s where "human_input_from_bytes s = Inr t" "length s \<le> 96"
    "human_input_wire t = of_nat (length s) # s" "human_input_as_bytes t = s"
    "human_input_length t = length s"
proof -
  from assms obtain s where s: "human_input_from_bytes s = Inr t"
    unfolding human_input_wf_def by blast
  then show thesis
    by (rule human_input_from_bytesE) (use s in \<open>auto intro!: that
        simp: human_input_wire_def human_input_length_def\<close>)
qed

lemma blit_cons: "Suc n \<le> length out \<Longrightarrow> blit (Suc 0) s (out[0 := a]) = blit 0 (a # s) out"
  by (cases out) (auto simp: blit_def)

interpretation human_codec: wire_codec human_input_wf human_input_wire human_input_encode_into
  human_input_validate human_input_decode_validated
proof (unfold_locales, goal_cases)
  case (1 v out)
  then show ?case
    by (elim human_input_wf_wire) (auto simp: human_input_encode_into_def Let_def blit_cons
        human_input_wire_def human_input_length_def)
next
  case (2 v out)
  then show ?case
    by (elim human_input_wf_wire) (auto simp: human_input_encode_into_def)
next
  case (3 v)
  then show ?case
    by (elim human_input_wf_wire) (simp add: human_input_validate_def)
next
  case (4 v)
  then show ?case
    by (elim human_input_wf_wire) (simp add: human_input_decode_validated_def)
next
  case (5 bs)
  then obtain l rest where bs: "bs = l # rest" "length rest = unat l"
    by (auto simp: human_input_validate_def Let_def split: list.splits if_splits)
  with 5 obtain t where t: "human_input_from_bytes rest = Inr t"
    by (cases "human_input_from_bytes rest")
      (auto simp: human_input_validate_def Let_def split: if_splits)
  then have "human_input_wire t = bs"
    by (elim human_input_from_bytesE) (simp add: human_input_wire_def bs)
  with t show ?case unfolding human_input_wf_def by blast
qed

section \<open>Pico 2 W sensor samples\<close>

definition PICO2W_SENSOR_SAMPLE_BYTES :: nat where [simp]: "PICO2W_SENSOR_SAMPLE_BYTES = 9"
definition PICO2W_SENSOR_UDP_ACK_BYTES :: nat where [simp]: "PICO2W_SENSOR_UDP_ACK_BYTES = 2"
definition PICO2W_SENSOR_STATUS_FRESH :: u8 where [simp]: "PICO2W_SENSOR_STATUS_FRESH = 0"
definition PICO2W_SENSOR_STATUS_PENDING :: u8 where [simp]: "PICO2W_SENSOR_STATUS_PENDING = 1"
definition PICO2W_SENSOR_STATUS_STALE :: u8 where [simp]: "PICO2W_SENSOR_STATUS_STALE = 2"

definition validate_pico2w_sensor_status :: "u8 \<Rightarrow> protocol_error + unit" where
  "validate_pico2w_sensor_status status =
     (if status = PICO2W_SENSOR_STATUS_FRESH \<or> status = PICO2W_SENSOR_STATUS_PENDING
        \<or> status = PICO2W_SENSOR_STATUS_STALE
      then Inr () else Inl InvalidPico2wSensorStatus)"

record sensor_sample =
  ps_status :: u8
  ps_temperature_c_x10 :: i16
  ps_humidity_pct_x10 :: u16
  ps_light_raw :: u16
  ps_seq :: u16

definition sensor_sample_new ::
    "u8 \<Rightarrow> i16 \<Rightarrow> u16 \<Rightarrow> u16 \<Rightarrow> u16 \<Rightarrow> protocol_error + sensor_sample" where
  "sensor_sample_new status temperature humidity light seq =
     (case validate_pico2w_sensor_status status of
        Inl e \<Rightarrow> Inl e
      | Inr _ \<Rightarrow> Inr \<lparr>ps_status = status, ps_temperature_c_x10 = temperature,
                    ps_humidity_pct_x10 = humidity, ps_light_raw = light, ps_seq = seq\<rparr>)"

definition sensor_sample_pending :: "u16 \<Rightarrow> sensor_sample" where
  "sensor_sample_pending seq =
     \<lparr>ps_status = PICO2W_SENSOR_STATUS_PENDING, ps_temperature_c_x10 = 0,
      ps_humidity_pct_x10 = 0, ps_light_raw = 0, ps_seq = seq\<rparr>"

definition with_status_and_seq ::
    "sensor_sample \<Rightarrow> u8 \<Rightarrow> u16 \<Rightarrow> protocol_error + sensor_sample" where
  "with_status_and_seq p status seq =
     sensor_sample_new status (ps_temperature_c_x10 p) (ps_humidity_pct_x10 p)
       (ps_light_raw p) seq"

definition pico2w_sensor_udp_ack :: "u16 \<Rightarrow> bytes" where
  "pico2w_sensor_udp_ack seq = le_bytes16 seq"

definition decode_pico2w_sensor_udp_ack :: "bytes \<Rightarrow> u16 option" where
  "decode_pico2w_sensor_udp_ack input =
     (if length input \<noteq> PICO2W_SENSOR_UDP_ACK_BYTES then None
      else Some (of_le_bytes16 (input ! 0) (input ! 1)))"

definition sensor_sample_encode_into :: "sensor_sample \<Rightarrow> bytes \<Rightarrow> encode_result" where
  "sensor_sample_encode_into p out =
     (if length out < PICO2W_SENSOR_SAMPLE_BYTES then Inl Truncated
      else
        let out = out[0 := ps_status p];
            out = blit 1 (le_bytes16 (ps_temperature_c_x10 p)) out;
            out = blit 3 (le_bytes16 (ps_humidity_pct_x10 p)) out;
            out = blit 5 (le_bytes16 (ps_light_raw p)) out;
            out = blit 7 (le_bytes16 (ps_seq p)) out
        in Inr (PICO2W_SENSOR_SAMPLE_BYTES, out))"

definition sensor_sample_validate :: "bytes \<Rightarrow> codec_error + unit" where
  "sensor_sample_validate bs =
     (if length bs \<noteq> PICO2W_SENSOR_SAMPLE_BYTES then Inl Malformed
      else map_err (\<lambda>_. Malformed) (validate_pico2w_sensor_status (bs ! 0)))"

definition sensor_sample_decode_validated :: "bytes \<Rightarrow> sensor_sample outcome" where
  "sensor_sample_decode_validated bs =
     (if length bs < PICO2W_SENSOR_SAMPLE_BYTES then Panic
      else ok_or_panic (sensor_sample_new (bs ! 0)
             (of_le_bytes16 (bs ! 1) (bs ! 2)) (of_le_bytes16 (bs ! 3) (bs ! 4))
             (of_le_bytes16 (bs ! 5) (bs ! 6)) (of_le_bytes16 (bs ! 7) (bs ! 8))))"

definition sensor_sample_wf :: "sensor_sample \<Rightarrow> bool" where
  "sensor_sample_wf p \<longleftrightarrow> validate_pico2w_sensor_status (ps_status p) = Inr ()"

definition sensor_sample_wire :: "sensor_sample \<Rightarrow> bytes" where
  "sensor_sample_wire p =
     ps_status p # le_bytes16 (ps_temperature_c_x10 p) @ le_bytes16 (ps_humidity_pct_x10 p)
       @ le_bytes16 (ps_light_raw p) @ le_bytes16 (ps_seq p)"

lemmas sensor_sample_defs [wire_simps] =
  sensor_sample_new_def sensor_sample_encode_into_def sensor_sample_validate_def
  sensor_sample_decode_validated_def sensor_sample_wf_def sensor_sample_wire_def

lemma length_9:
  "length xs = 9 \<longleftrightarrow> (\<exists>a b c d e f g h i. xs = [a, b, c, d, e, f, g, h, i])"
  by (auto simp: eval_nat_numeral length_Suc_conv)

lemma ge_9E:
  assumes "9 \<le> length xs"
  obtains a b c d e f g h i r where "xs = a # b # c # d # e # f # g # h # i # r"
proof -
  have "length (take 9 xs) = 9" using assms by simp
  then obtain a b c d e f g h i where "take 9 xs = [a, b, c, d, e, f, g, h, i]"
    unfolding length_9 by blast
  then have "xs = [a, b, c, d, e, f, g, h, i] @ drop 9 xs"
    using append_take_drop_id [of 9 xs] by simp
  with that show thesis by simp
qed

interpretation sensor_codec: wire_codec sensor_sample_wf sensor_sample_wire
  sensor_sample_encode_into sensor_sample_validate sensor_sample_decode_validated
proof (unfold_locales, goal_cases)
  case (1 v out)
  then have "9 \<le> length out" by (simp add: wire_simps)
  then show ?case
    by (elim ge_9E) (simp add: wire_simps Let_def blit_def le_bytes16_def)
next
  case (5 bs)
  then obtain a b c d e f g h i where bs: "bs = [a, b, c, d, e, f, g, h, i]"
    by (auto simp: wire_simps length_9 split: if_splits)
  let ?v = "\<lparr>ps_status = a, ps_temperature_c_x10 = of_le_bytes16 b c,
    ps_humidity_pct_x10 = of_le_bytes16 d e, ps_light_raw = of_le_bytes16 f g,
    ps_seq = of_le_bytes16 h i\<rparr>"
  from 5 have "sensor_sample_wf ?v"
    by (cases "validate_pico2w_sensor_status a") (auto simp: bs wire_simps)
  then show ?case
    by (intro exI [of _ ?v]) (simp add: bs sensor_sample_wire_def)
qed (auto simp: wire_simps le_bytes16_def nth_append)

section \<open>Properties\<close>

lemma face_frame_new_wf: "face_frame_new face ordinal = Inr f \<Longrightarrow> face_frame_wf f"
  by (auto simp: face_frame_new_def face_frame_wf_def split: sum.splits)

lemma sensor_sample_new_wf: "sensor_sample_new s t h l q = Inr p \<Longrightarrow> sensor_sample_wf p"
  by (auto simp: sensor_sample_new_def sensor_sample_wf_def split: sum.splits)

lemma sensor_sample_pending_wf [simp]: "sensor_sample_wf (sensor_sample_pending q)"
  by (simp add: sensor_sample_wf_def sensor_sample_pending_def validate_pico2w_sensor_status_def)

text \<open>Whatever buffer it is given, a face frame the constructor accepts is either
  refused because the buffer is shorter than two bytes, or written so that the two bytes the
  encoder reports validate and decode to the same frame, the rest of the buffer untouched.\<close>

theorem face_frame_roundtrip:
  assumes "face_frame_new face ordinal = Inr f"
    and "face_frame_encode_into f out = Inr (n, out')"
  shows "face_frame_validate (take n out') = Inr ()
    \<and> face_frame_decode_validated (take n out') = Done f
    \<and> length out' = length out \<and> drop n out' = drop n out"
  by (rule face_codec.roundtrip [OF face_frame_new_wf [OF assms(1)] assms(2)])

theorem face_frame_roundtrip_witness:
  "face_frame_validate (take 2 [3, 7, 0]) = Inr ()
    \<and> face_frame_decode_validated (take 2 [3, 7, 0]) = Done \<lparr>ff_face = 3, ff_ordinal = 7\<rparr>"
  using face_frame_roundtrip [of 3 7 "\<lparr>ff_face = 3, ff_ordinal = 7\<rparr>" "[1, 1, 0]" 2 "[3, 7, 0]"]
  by (simp add: wire_simps validate_display_face_def)

text \<open>A human input of at most 96 bytes of valid UTF-8 survives the wire: the
  constructor accepts it, its encoding in any buffer of at least its length plus one
  validates, the decoder returns the same value without panicking, and the text read back
  from that value is the original text.\<close>

theorem human_input_roundtrip:
  assumes "length s \<le> 96" and "utf8_valid s" and "length s < length out"
  shows "\<exists>t out'. human_input_from_bytes s = Inr t
    \<and> human_input_encode_into t out = Inr (1 + length s, out')
    \<and> human_input_validate (take (1 + length s) out') = Inr ()
    \<and> human_input_decode_validated (take (1 + length s) out') = Done t
    \<and> human_input_as_str t = Inr s"
proof -
  from assms obtain t where t: "human_input_from_bytes s = Inr t"
    by (simp add: human_input_from_bytes_def)
  then have wf: "human_input_wf t" unfolding human_input_wf_def by blast
  from t have as: "human_input_as_bytes t = s"
    by (elim human_input_from_bytesE)
  then have "length (human_input_wire t) = 1 + length s"
    by (simp add: human_input_wire_def)
  then obtain out' where enc: "human_input_encode_into t out = Inr (1 + length s, out')"
    using human_codec.encode_fits [OF wf] assms(3) by force
  from human_codec.roundtrip [OF wf enc] t enc show ?thesis
    using assms(2) as by (auto simp: human_input_as_str_def)
qed

theorem human_input_roundtrip_witness:
  "\<exists>t out'. human_input_from_bytes [0x68, 0xC3, 0xA9] = Inr t
    \<and> human_input_encode_into t [0, 0, 0, 0] = Inr (1 + length [0x68, 0xC3, 0xA9 :: u8], out')
    \<and> human_input_as_str t = Inr [0x68, 0xC3, 0xA9]"
  using human_input_roundtrip [of "[0x68, 0xC3, 0xA9]" "[0, 0, 0, 0]"]
  by (auto simp: utf8_width_def utf8_cont_def)

text \<open>Validation of a sensor payload is exactly what the decoder needs and the encoding
  is canonical: a payload that validates decodes without panicking to a sample whose status
  is one of the three known ones, and encoding that sample writes the same nine bytes back.\<close>

theorem sensor_sample_canonical:
  assumes "sensor_sample_validate bs = Inr ()" and "9 \<le> length out"
  shows "\<exists>p. sensor_sample_decode_validated bs = Done p
    \<and> ps_status p \<in> {PICO2W_SENSOR_STATUS_FRESH, PICO2W_SENSOR_STATUS_PENDING,
         PICO2W_SENSOR_STATUS_STALE}
    \<and> sensor_sample_encode_into p out = Inr (9, blit 0 bs out)"
proof -
  have len: "length bs = 9"
    using assms(1) by (auto simp: sensor_sample_validate_def split: if_splits)
  from sensor_codec.decode_total [OF assms(1)] obtain p where
    p: "sensor_sample_wf p" "sensor_sample_decode_validated bs = Done p" "sensor_sample_wire p = bs"
    by blast
  moreover have "sensor_sample_encode_into p out = Inr (9, blit 0 bs out)"
    using sensor_codec.encode_fits [OF p(1), of out] assms(2) by (simp add: p(3) len)
  moreover from p(1) have "ps_status p \<in> {0, 1, 2}"
    by (auto simp: sensor_sample_wf_def validate_pico2w_sensor_status_def split: if_splits)
  ultimately show ?thesis by auto
qed

theorem sensor_sample_canonical_witness:
  "\<exists>p. sensor_sample_decode_validated [2, 0xF6, 0xFF, 1, 2, 3, 4, 5, 6] = Done p
    \<and> sensor_sample_encode_into p (replicate 9 0)
        = Inr (9, [2, 0xF6, 0xFF, 1, 2, 3, 4, 5, 6])"
  using sensor_sample_canonical [of "[2, 0xF6, 0xFF, 1, 2, 3, 4, 5, 6]" "replicate 9 0"]
  by (auto simp: sensor_sample_validate_def validate_pico2w_sensor_status_def blit_def)

text \<open>The acknowledgement a receiver sends carries the sequence number it answers.\<close>

lemma udp_ack_roundtrip: "decode_pico2w_sensor_udp_ack (pico2w_sensor_udp_ack seq) = Some seq"
  by (simp add: decode_pico2w_sensor_udp_ack_def pico2w_sensor_udp_ack_def le_bytes16_def)

end
