(* ===== verification/Lane_Queue.thy ===== *)
theory Lane_Queue
  imports Pico_Prelude
begin

text \<open>
  The per-role receive queue of the Uno Q carriers, \<open>ProofQueue\<close> of
  \<open>examples/uno-q-heterogeneous/src/lib.rs\<close>: a ring of 24 fixed frames with a push at the
  back, a push at the front for a requeued frame, and a pop that takes the oldest frame of one
  lane out of the middle of the ring by shifting the younger ones down. The locale
  \<open>lane_queue\<close> is the contract the carriers use; the ring is proved to implement it, with a
  plain list of entries as the abstraction.
\<close>

section \<open>Entries and the abstract queue\<close>

record lane_entry =
  le_lane :: u8
  le_source :: u8
  le_label :: u8
  le_payload :: bytes

text \<open>The oldest entry of a lane, and the queue without it.\<close>

fun extract_lane :: "u8 \<Rightarrow> lane_entry list \<Rightarrow> (lane_entry \<times> lane_entry list) option" where
  "extract_lane l [] = None"
| "extract_lane l (x # xs) =
     (if le_lane x = l then Some (x, xs)
      else map_option (\<lambda>(y, ys). (y, x # ys)) (extract_lane l xs))"

lemma extract_lane_None_iff: "extract_lane l xs = None \<longleftrightarrow> (\<forall>x \<in> set xs. le_lane x \<noteq> l)"
  by (induction xs) auto

lemma extract_lane_Some:
  "extract_lane l xs = Some (y, ys) \<Longrightarrow>
     le_lane y = l
     \<and> filter (\<lambda>x. le_lane x = l) xs = y # filter (\<lambda>x. le_lane x = l) ys
     \<and> filter (\<lambda>x. le_lane x \<noteq> l) xs = filter (\<lambda>x. le_lane x \<noteq> l) ys
     \<and> length xs = Suc (length ys) \<and> set xs = insert y (set ys)"
  by (induction xs arbitrary: y ys) (auto split: if_splits)

lemma extract_lane_first:
  assumes "k < length xs" and "le_lane (xs ! k) = l" and "\<And>i. i < k \<Longrightarrow> le_lane (xs ! i) \<noteq> l"
  shows "extract_lane l xs = Some (xs ! k, take k xs @ drop (Suc k) xs)"
  using assms
proof (induction xs arbitrary: k)
  case (Cons x xs)
  show ?case
  proof (cases k)
    case (Suc m)
    have "le_lane x \<noteq> l" using Cons.prems(3) [of 0] Suc by simp
    moreover have "extract_lane l xs = Some (xs ! m, take m xs @ drop (Suc m) xs)"
      using Cons.prems Suc by (intro Cons.IH) (fastforce dest: Cons.prems(3) [of "Suc _"])+
    ultimately show ?thesis by (simp add: Suc)
  qed (use Cons.prems in simp)
qed simp

text \<open>A run of pushes, and repeated pops of one lane.\<close>

primrec push_all ::
    "('q \<Rightarrow> lane_entry \<Rightarrow> unit transport_result \<times> 'q) \<Rightarrow> 'q \<Rightarrow> lane_entry list \<Rightarrow> 'q" where
  "push_all push q [] = q"
| "push_all push q (e # es) = push_all push (snd (push q e)) es"

primrec pop_n ::
    "('q \<Rightarrow> u8 \<Rightarrow> lane_entry option \<times> 'q) \<Rightarrow> nat \<Rightarrow> 'q \<Rightarrow> u8 \<Rightarrow> lane_entry option list" where
  "pop_n pop 0 q l = []"
| "pop_n pop (Suc n) q l = fst (pop q l) # pop_n pop n (snd (pop q l)) l"

section \<open>The contract\<close>

text \<open>
  \<open>entries\<close> abstracts a queue to its contents, oldest first. A push that does not fit or
  finds the queue full changes nothing; only the push at the back reports it.
\<close>

locale lane_queue =
  fixes empty :: 'q
    and push_back :: "'q \<Rightarrow> lane_entry \<Rightarrow> unit transport_result \<times> 'q"
    and push_front :: "'q \<Rightarrow> lane_entry \<Rightarrow> 'q"
    and pop_front :: "'q \<Rightarrow> u8 \<Rightarrow> lane_entry option \<times> 'q"
    and entries :: "'q \<Rightarrow> lane_entry list"
    and inv :: "'q \<Rightarrow> bool"
    and depth :: nat
    and frame_bytes :: nat
  assumes inv_empty: "inv empty"
    and entries_empty: "entries empty = []"
    and inv_push_back: "inv q \<Longrightarrow> inv (snd (push_back q e))"
    and inv_push_front: "inv q \<Longrightarrow> inv (push_front q e)"
    and inv_pop_front: "inv q \<Longrightarrow> inv (snd (pop_front q l))"
    and push_back_ok:
      "inv q \<Longrightarrow> length (le_payload e) \<le> frame_bytes \<Longrightarrow> length (entries q) < depth \<Longrightarrow>
         fst (push_back q e) = Inr () \<and> entries (snd (push_back q e)) = entries q @ [e]"
    and push_back_full:
      "inv q \<Longrightarrow> length (le_payload e) > frame_bytes \<or> length (entries q) = depth \<Longrightarrow>
         push_back q e = (Inl Failed, q)"
    and push_front_ok:
      "inv q \<Longrightarrow> length (le_payload e) \<le> frame_bytes \<Longrightarrow> length (entries q) < depth \<Longrightarrow>
         entries (push_front q e) = e # entries q"
    and push_front_full:
      "inv q \<Longrightarrow> length (le_payload e) > frame_bytes \<or> length (entries q) = depth \<Longrightarrow>
         push_front q e = q"
    and pop_front_None:
      "inv q \<Longrightarrow> extract_lane l (entries q) = None \<Longrightarrow> pop_front q l = (None, q)"
    and pop_front_Some:
      "inv q \<Longrightarrow> extract_lane l (entries q) = Some (y, ys) \<Longrightarrow>
         fst (pop_front q l) = Some y \<and> entries (snd (pop_front q l)) = ys"
    and bounded: "inv q \<Longrightarrow> length (entries q) \<le> depth"
    and fitting: "inv q \<Longrightarrow> e \<in> set (entries q) \<Longrightarrow> length (le_payload e) \<le> frame_bytes"
begin

lemma push_back_cases:
  assumes "inv q"
  obtains "push_back q e = (Inl Failed, q)"
      "length (le_payload e) > frame_bytes \<or> length (entries q) = depth"
  | "fst (push_back q e) = Inr ()" "entries (snd (push_back q e)) = entries q @ [e]"
      "length (le_payload e) \<le> frame_bytes" "length (entries q) < depth"
proof (cases "length (le_payload e) > frame_bytes \<or> length (entries q) = depth")
  case True
  with that(1) push_back_full [OF assms] show thesis by blast
next
  case False
  then have "length (le_payload e) \<le> frame_bytes" "length (entries q) < depth"
    using bounded [OF assms] by auto
  with push_back_ok [OF assms] that(2) show thesis by blast
qed

lemma push_all_entries:
  assumes "inv q" and "\<forall>e \<in> set es. length (le_payload e) \<le> frame_bytes"
    and "length (entries q) + length es \<le> depth"
  shows "inv (push_all push_back q es) \<and> entries (push_all push_back q es) = entries q @ es"
  using assms
proof (induction es arbitrary: q)
  case (Cons e es)
  have e: "entries (snd (push_back q e)) = entries q @ [e]"
    using Cons.prems by (intro push_back_ok [THEN conjunct2]) auto
  have "inv (push_all push_back (snd (push_back q e)) es)
    \<and> entries (push_all push_back (snd (push_back q e)) es) = entries (snd (push_back q e)) @ es"
    using Cons.prems by (intro Cons.IH) (auto simp: inv_push_back e)
  then show ?case by (simp add: e)
qed simp

lemma pop_lane:
  assumes "inv q"
  shows "filter (\<lambda>x. le_lane x = l) (entries q) =
      (case fst (pop_front q l) of None \<Rightarrow> []
       | Some y \<Rightarrow> y # filter (\<lambda>x. le_lane x = l) (entries (snd (pop_front q l))))"
    and "filter (\<lambda>x. le_lane x \<noteq> l) (entries (snd (pop_front q l)))
      = filter (\<lambda>x. le_lane x \<noteq> l) (entries q)"
proof -
  show "filter (\<lambda>x. le_lane x = l) (entries q) =
      (case fst (pop_front q l) of None \<Rightarrow> []
       | Some y \<Rightarrow> y # filter (\<lambda>x. le_lane x = l) (entries (snd (pop_front q l))))"
  proof (cases "extract_lane l (entries q)")
    case None
    then show ?thesis
      using pop_front_None [OF assms None] by (auto simp: extract_lane_None_iff filter_empty_conv)
  next
    case (Some p)
    then obtain y ys where p: "extract_lane l (entries q) = Some (y, ys)" by (cases p) auto
    show ?thesis
      using pop_front_Some [OF assms p] extract_lane_Some [OF p] by simp
  qed
  show "filter (\<lambda>x. le_lane x \<noteq> l) (entries (snd (pop_front q l)))
      = filter (\<lambda>x. le_lane x \<noteq> l) (entries q)"
  proof (cases "extract_lane l (entries q)")
    case None
    then show ?thesis using pop_front_None [OF assms None] by simp
  next
    case (Some p)
    then obtain y ys where p: "extract_lane l (entries q) = Some (y, ys)" by (cases p) auto
    show ?thesis
      using pop_front_Some [OF assms p] extract_lane_Some [OF p] by simp
  qed
qed

lemma pop_n_lane:
  assumes "inv q" and "n \<le> length (filter (\<lambda>x. le_lane x = l) (entries q))"
  shows "pop_n pop_front n q l = map Some (take n (filter (\<lambda>x. le_lane x = l) (entries q)))"
  using assms
proof (induction n arbitrary: q)
  case (Suc n)
  from Suc.prems obtain y where y: "fst (pop_front q l) = Some y"
    "filter (\<lambda>x. le_lane x = l) (entries q)
       = y # filter (\<lambda>x. le_lane x = l) (entries (snd (pop_front q l)))"
    using pop_lane(1) [of q l] by (cases "fst (pop_front q l)") auto
  with Suc.prems have "pop_n pop_front n (snd (pop_front q l)) l
    = map Some (take n (filter (\<lambda>x. le_lane x = l) (entries (snd (pop_front q l)))))"
    by (intro Suc.IH) (auto simp: inv_pop_front)
  with y show ?case by simp
qed simp

lemma fifo_per_lane:
  assumes "\<forall>e \<in> set es. length (le_payload e) \<le> frame_bytes" and "length es \<le> depth"
  shows "pop_n pop_front (length (filter (\<lambda>x. le_lane x = l) es)) (push_all push_back empty es) l
    = map Some (filter (\<lambda>x. le_lane x = l) es)"
proof -
  have "inv (push_all push_back empty es) \<and> entries (push_all push_back empty es) = es"
    using push_all_entries [OF inv_empty assms(1)] assms(2) by (simp add: entries_empty)
  then show ?thesis
    using pop_n_lane [of "push_all push_back empty es" "length (filter (\<lambda>x. le_lane x = l) es)" l] by simp
qed

lemma requeue_pop:
  assumes "inv q" and "fst (pop_front q l) = Some y"
  shows "entries (push_front (snd (pop_front q l)) y)
      = y # entries (snd (pop_front q l))
    \<and> fst (pop_front (push_front (snd (pop_front q l)) y) l) = Some y
    \<and> entries (snd (pop_front (push_front (snd (pop_front q l)) y) l))
      = entries (snd (pop_front q l))"
proof -
  obtain ys where p: "extract_lane l (entries q) = Some (y, ys)"
    using assms(2) pop_front_None [OF assms(1)] pop_front_Some [OF assms(1)]
    by (cases "extract_lane l (entries q)") fastforce+
  have ys: "entries (snd (pop_front q l)) = ys"
    using pop_front_Some [OF assms(1) p] by simp
  have inv': "inv (snd (pop_front q l))" by (rule inv_pop_front [OF assms(1)])
  have "length ys < depth" "length (le_payload y) \<le> frame_bytes"
    using bounded [OF assms(1)] fitting [OF assms(1)] extract_lane_Some [OF p] by auto
  then have e: "entries (push_front (snd (pop_front q l)) y) = y # ys"
    using push_front_ok [OF inv'] ys by simp
  then have "extract_lane l (entries (push_front (snd (pop_front q l)) y)) = Some (y, ys)"
    using extract_lane_Some [OF p] by simp
  from pop_front_Some [OF inv_push_front [OF inv'] this] e ys show ?thesis by simp
qed

end

end
