(* ===== verification/Proof_Queue.thy ===== *)
theory Proof_Queue
  imports Lane_Queue
begin

text \<open>
  The ring \<open>ProofQueue\<close> itself, field by field, and the proof that it implements the
  contract \<open>lane_queue\<close>.
\<close>

section \<open>Frames and rings\<close>

definition PROOF_CARRIER_ROLES :: nat where [simp]: "PROOF_CARRIER_ROLES = 5"
definition PROOF_CARRIER_QUEUE_DEPTH :: nat where [simp]: "PROOF_CARRIER_QUEUE_DEPTH = 24"
definition PROOF_CARRIER_FRAME_BYTES :: nat where [simp]: "PROOF_CARRIER_FRAME_BYTES = 128"

record proof_frame =
  pf_occupied :: bool
  pf_lane :: u8
  pf_source :: u8
  pf_label :: u8
  pf_len :: nat
  pf_bytes :: bytes

definition proof_frame_empty :: proof_frame where
  "proof_frame_empty = \<lparr>pf_occupied = False, pf_lane = 0, pf_source = 0, pf_label = 0,
     pf_len = 0, pf_bytes = replicate PROOF_CARRIER_FRAME_BYTES 0\<rparr>"

record proof_queue =
  pq_frames :: "proof_frame list"
  pq_head :: nat
  pq_len :: nat

definition proof_queue_empty :: proof_queue where
  "proof_queue_empty = \<lparr>pq_frames = replicate PROOF_CARRIER_QUEUE_DEPTH proof_frame_empty,
     pq_head = 0, pq_len = 0\<rparr>"

text \<open>The writes both pushes make into the slot they chose.\<close>

definition write_frame :: "u8 \<Rightarrow> u8 \<Rightarrow> u8 \<Rightarrow> bytes \<Rightarrow> proof_frame \<Rightarrow> proof_frame" where
  "write_frame lane source frame_label bytes f =
     f\<lparr>pf_occupied := True, pf_lane := lane, pf_source := source, pf_label := frame_label,
       pf_len := length bytes, pf_bytes := blit 0 bytes (pf_bytes f)\<rparr>"

definition pq_push_back ::
    "proof_queue \<Rightarrow> u8 \<Rightarrow> u8 \<Rightarrow> u8 \<Rightarrow> bytes \<Rightarrow> unit transport_result \<times> proof_queue" where
  "pq_push_back q lane source frame_label bytes =
     (if length bytes > PROOF_CARRIER_FRAME_BYTES \<or> pq_len q = PROOF_CARRIER_QUEUE_DEPTH
      then (Inl Failed, q)
      else
        let idx = (pq_head q + pq_len q) mod PROOF_CARRIER_QUEUE_DEPTH in
        (Inr (), q\<lparr>pq_frames := (pq_frames q)
                    [idx := write_frame lane source frame_label bytes (pq_frames q ! idx)],
                  pq_len := pq_len q + 1\<rparr>))"

definition pq_push_front :: "proof_queue \<Rightarrow> u8 \<Rightarrow> u8 \<Rightarrow> u8 \<Rightarrow> bytes \<Rightarrow> proof_queue" where
  "pq_push_front q lane source frame_label bytes =
     (if length bytes > PROOF_CARRIER_FRAME_BYTES \<or> pq_len q = PROOF_CARRIER_QUEUE_DEPTH
      then q
      else
        let head = (if pq_head q = 0 then PROOF_CARRIER_QUEUE_DEPTH - 1 else pq_head q - 1) in
        q\<lparr>pq_head := head,
          pq_frames := (pq_frames q)
            [head := write_frame lane source frame_label bytes (pq_frames q ! head)],
          pq_len := pq_len q + 1\<rparr>)"

text \<open>The search loop of \<open>pop_front\<close>, from \<open>offset\<close> on.\<close>

function find_lane :: "proof_queue \<Rightarrow> u8 \<Rightarrow> nat \<Rightarrow> nat option" where
  "find_lane q lane offset =
     (if offset < pq_len q then
        let idx = (pq_head q + offset) mod PROOF_CARRIER_QUEUE_DEPTH in
        if pf_occupied (pq_frames q ! idx) \<and> pf_lane (pq_frames q ! idx) = lane
        then Some idx else find_lane q lane (offset + 1)
      else None)"
  by pat_completeness auto
termination by (relation "measure (\<lambda>(q, lane, offset). pq_len q - offset)") auto

declare find_lane.simps [simp del]

text \<open>
  The loop \<open>while cursor != tail\<close> that shifts the younger frames down by one. Both indices
  are residues modulo the depth, so the distance from \<open>cursor\<close> to \<open>tail\<close> around the ring
  decreases; on other arguments, which the caller never passes, the function stops.
\<close>

function shift_down :: "proof_frame list \<Rightarrow> nat \<Rightarrow> nat \<Rightarrow> proof_frame list" where
  "shift_down frames cursor tail =
     (if cursor = tail \<or> \<not> cursor < PROOF_CARRIER_QUEUE_DEPTH
        \<or> \<not> tail < PROOF_CARRIER_QUEUE_DEPTH
      then frames
      else
        let nxt = (cursor + 1) mod PROOF_CARRIER_QUEUE_DEPTH in
        shift_down (frames[cursor := frames ! nxt]) nxt tail)"
  by pat_completeness auto
termination
proof (relation "measure (\<lambda>(frames, cursor, tail). (tail + 24 - cursor) mod 24)", goal_cases)
  case (2 frames cursor tail x)
  then show ?case
    by (cases "cursor = 23"; cases "cursor < tail") (auto simp: mod_if)
qed simp

declare shift_down.simps [simp del]

definition pq_pop_front :: "proof_queue \<Rightarrow> u8 \<Rightarrow> proof_frame option \<times> proof_queue" where
  "pq_pop_front q lane =
     (if pq_len q = 0 then (None, q)
      else case find_lane q lane 0 of
        None \<Rightarrow> (None, q)
      | Some idx \<Rightarrow>
          let frame = pq_frames q ! idx;
              tail = (pq_head q + pq_len q - 1) mod PROOF_CARRIER_QUEUE_DEPTH;
              frames = (shift_down (pq_frames q) idx tail)[tail := proof_frame_empty];
              len = pq_len q - 1;
              q' = q\<lparr>pq_frames := frames, pq_len := len,
                     pq_head := (if len = 0 then 0 else pq_head q)\<rparr>
          in (if pf_occupied frame then Some frame else None, q'))"

section \<open>Abstraction and invariant\<close>

definition entry_of :: "proof_frame \<Rightarrow> lane_entry" where
  "entry_of f = \<lparr>le_lane = pf_lane f, le_source = pf_source f, le_label = pf_label f,
     le_payload = take (pf_len f) (pf_bytes f)\<rparr>"

text \<open>The frame at logical position \<open>i\<close> of a ring that starts at \<open>h\<close>.\<close>

definition ring_at :: "proof_frame list \<Rightarrow> nat \<Rightarrow> nat \<Rightarrow> proof_frame" where
  "ring_at fs h i = fs ! ((h + i) mod PROOF_CARRIER_QUEUE_DEPTH)"

definition pq_entries :: "proof_queue \<Rightarrow> lane_entry list" where
  "pq_entries q = map (\<lambda>i. entry_of (ring_at (pq_frames q) (pq_head q) i)) [0..<pq_len q]"

definition frame_ok :: "proof_frame \<Rightarrow> bool" where
  "frame_ok f \<longleftrightarrow> length (pf_bytes f) = PROOF_CARRIER_FRAME_BYTES
     \<and> pf_len f \<le> PROOF_CARRIER_FRAME_BYTES"

definition pq_inv :: "proof_queue \<Rightarrow> bool" where
  "pq_inv q \<longleftrightarrow> length (pq_frames q) = PROOF_CARRIER_QUEUE_DEPTH
     \<and> pq_head q < PROOF_CARRIER_QUEUE_DEPTH \<and> pq_len q \<le> PROOF_CARRIER_QUEUE_DEPTH
     \<and> (\<forall>f \<in> set (pq_frames q). frame_ok f)
     \<and> (\<forall>i < pq_len q. pf_occupied (ring_at (pq_frames q) (pq_head q) i))"

lemma pq_invD:
  assumes "pq_inv q"
  shows "length (pq_frames q) = 24" "pq_head q < 24" "pq_len q \<le> 24"
    "\<And>f. f \<in> set (pq_frames q) \<Longrightarrow> frame_ok f"
    "\<And>i. i < pq_len q \<Longrightarrow> pf_occupied (ring_at (pq_frames q) (pq_head q) i)"
  using assms by (auto simp: pq_inv_def)

lemma length_pq_entries [simp]: "length (pq_entries q) = pq_len q"
  by (simp add: pq_entries_def)

lemma nth_pq_entries:
  "i < pq_len q \<Longrightarrow> pq_entries q ! i = entry_of (ring_at (pq_frames q) (pq_head q) i)"
  by (simp add: pq_entries_def)

lemma ring_inj:
  assumes "i < 24" "j < 24"
  shows "(h + i) mod 24 = (h + j) mod 24 \<longleftrightarrow> i = (j::nat)"
proof
  assume "(h + i) mod 24 = (h + j) mod 24"
  then obtain a b where "h + i + 24 * a = h + j + 24 * b"
    unfolding nat_mod_eq_iff by blast
  then have "i + 24 * a = j + 24 * b" by simp
  then have "(i + 24 * a) mod 24 = (j + 24 * b) mod 24" by (rule arg_cong)
  then show "i = j" using assms by simp
qed simp

lemma ring_at_update:
  assumes "length fs = 24" "i < 24" "j < 24"
  shows "ring_at (fs[(h + j) mod 24 := f]) h i = (if i = j then f else ring_at fs h i)"
  using assms ring_inj [of j i h] by (simp add: ring_at_def nth_list_update)

lemma ring_at_ok: "pq_inv q \<Longrightarrow> frame_ok (ring_at (pq_frames q) h i)"
  by (rule pq_invD(4)) (auto simp: ring_at_def pq_inv_def intro!: nth_mem)

lemma write_frame_entry [simp]:
  "frame_ok f \<Longrightarrow> length b \<le> 128 \<Longrightarrow>
     entry_of (write_frame l s lab b f)
       = \<lparr>le_lane = l, le_source = s, le_label = lab, le_payload = b\<rparr>"
  by (simp add: write_frame_def entry_of_def)

lemma write_frame_ok [simp]:
  "frame_ok f \<Longrightarrow> length b \<le> 128 \<Longrightarrow> frame_ok (write_frame l s lab b f)"
  by (simp add: write_frame_def frame_ok_def)

lemma write_frame_occupied [simp]: "pf_occupied (write_frame l s lab b f)"
  by (simp add: write_frame_def)

lemma frame_ok_empty [simp]: "frame_ok proof_frame_empty"
  by (simp add: frame_ok_def proof_frame_empty_def)

section \<open>The ring implements the contract\<close>

lemma shift_down_at:
  assumes "length fs = 24" "k \<le> n" "n < 24"
  shows "length (shift_down fs ((h + k) mod 24) ((h + n) mod 24)) = 24
    \<and> (\<forall>i < 24. ring_at (shift_down fs ((h + k) mod 24) ((h + n) mod 24)) h i
        = (if k \<le> i \<and> i < n then ring_at fs h (Suc i) else ring_at fs h i))"
  using assms
proof (induction "n - k" arbitrary: k fs)
  case 0
  then have "n = k" by simp
  with 0 show ?case by (auto simp: shift_down.simps)
next
  case (Suc d)
  let ?fs = "fs[(h + k) mod 24 := ring_at fs h (Suc k)]"
  from Suc.hyps(2) Suc.prems have kn: "k < n" "k < 24" by auto
  then have "(h + k) mod 24 \<noteq> (h + n) mod 24" using Suc.prems ring_inj by simp
  moreover have "((h + k) mod 24 + 1) mod 24 = (h + Suc k) mod 24" by presburger
  ultimately have step: "shift_down fs ((h + k) mod 24) ((h + n) mod 24)
      = shift_down ?fs ((h + Suc k) mod 24) ((h + n) mod 24)"
    by (subst shift_down.simps) (simp add: Let_def ring_at_def)
  have "length (shift_down ?fs ((h + Suc k) mod 24) ((h + n) mod 24)) = 24
    \<and> (\<forall>i < 24. ring_at (shift_down ?fs ((h + Suc k) mod 24) ((h + n) mod 24)) h i
        = (if Suc k \<le> i \<and> i < n then ring_at ?fs h (Suc i) else ring_at ?fs h i))"
    using Suc.hyps(2) Suc.prems kn by (intro Suc.hyps(1)) auto
  with Suc.prems kn show ?case unfolding step by (auto simp: ring_at_update)
qed

lemma shift_down_set:
  "length fs = 24 \<Longrightarrow> set (shift_down fs c t) \<subseteq> set fs"
proof (induction fs c t rule: shift_down.induct)
  case (1 fs c t)
  show ?case
  proof (cases "c = t \<or> \<not> c < 24 \<or> \<not> t < 24")
    case True
    then show ?thesis by (subst shift_down.simps) auto
  next
    case False
    let ?n = "(c + 1) mod 24"
    have "set (shift_down (fs[c := fs ! ?n]) ?n t) \<subseteq> set (fs[c := fs ! ?n])"
      using False "1.prems" by (intro "1.IH") auto
    also have "\<dots> \<subseteq> set fs"
      using "1.prems" by (intro set_update_subsetI) (auto intro!: nth_mem)
    finally show ?thesis using False by (subst shift_down.simps) (simp add: Let_def)
  qed
qed

lemma find_lane_spec:
  assumes "pq_inv q" "off \<le> pq_len q"
  shows "(\<exists>k. off \<le> k \<and> k < pq_len q \<and> find_lane q l off = Some ((pq_head q + k) mod 24)
        \<and> le_lane (pq_entries q ! k) = l
        \<and> (\<forall>i. off \<le> i \<and> i < k \<longrightarrow> le_lane (pq_entries q ! i) \<noteq> l))
    \<or> (find_lane q l off = None
        \<and> (\<forall>i. off \<le> i \<and> i < pq_len q \<longrightarrow> le_lane (pq_entries q ! i) \<noteq> l))"
  using assms(2)
proof (induction "pq_len q - off" arbitrary: off)
  case 0
  then show ?case by (auto simp: find_lane.simps)
next
  case (Suc d)
  then have lt: "off < pq_len q" by simp
  have occ: "pf_occupied (pq_frames q ! ((pq_head q + off) mod 24))"
    using pq_invD(5) [OF assms(1) lt] by (simp add: ring_at_def)
  have lane: "le_lane (pq_entries q ! off)
      = pf_lane (pq_frames q ! ((pq_head q + off) mod 24))"
    using lt by (simp add: nth_pq_entries entry_of_def ring_at_def)
  show ?case
  proof (cases "le_lane (pq_entries q ! off) = l")
    case True
    then have "find_lane q l off = Some ((pq_head q + off) mod 24)"
      using lt occ lane by (subst find_lane.simps) (simp add: Let_def)
    with True lt show ?thesis by auto
  next
    case False
    then have step: "find_lane q l off = find_lane q l (Suc off)"
      using lt occ lane by (subst find_lane.simps) (simp add: Let_def)
    from Suc.hyps(2) lt have "d = pq_len q - Suc off" "Suc off \<le> pq_len q" by auto
    from Suc.hyps(1) [OF this] False show ?thesis
      unfolding step by (metis Suc_leD Suc_leI le_neq_implies_less)
  qed
qed

text \<open>What a successful pop leaves behind, by logical position.\<close>

lemma pq_pop_front_at:
  assumes inv: "pq_inv q" and k: "k < pq_len q"
    and find: "find_lane q l 0 = Some ((pq_head q + k) mod 24)"
  obtains q' where "pq_pop_front q l = (Some (ring_at (pq_frames q) (pq_head q) k), q')"
    "pq_inv q'" "pq_entries q' = take k (pq_entries q) @ drop (Suc k) (pq_entries q)"
proof -
  note I = pq_invD [OF inv]
  obtain n where len: "pq_len q = Suc n" using k by (cases "pq_len q") auto
  let ?h = "pq_head q" and ?t = "(pq_head q + n) mod 24"
  define gs where "gs = shift_down (pq_frames q) ((?h + k) mod 24) ?t"
  let ?fs = "gs[?t := proof_frame_empty]"
  let ?q' = "q\<lparr>pq_frames := ?fs, pq_len := n, pq_head := (if n = 0 then 0 else ?h)\<rparr>"
  have n: "k \<le> n" "n < 24" using k I(3) len by auto
  have gs: "length gs = 24"
    "\<And>i. i < 24 \<Longrightarrow> ring_at gs ?h i
        = (if k \<le> i \<and> i < n then ring_at (pq_frames q) ?h (Suc i) else ring_at (pq_frames q) ?h i)"
    using shift_down_at [OF I(1) n, of ?h] unfolding gs_def by auto
  have fs: "ring_at ?fs ?h i
      = (if k \<le> i then ring_at (pq_frames q) ?h (Suc i) else ring_at (pq_frames q) ?h i)"
    if "i < n" for i
    using that n gs by (auto simp: ring_at_update)
  have sets: "frame_ok f" if "f \<in> set ?fs" for f
  proof -
    from that have "f = proof_frame_empty \<or> f \<in> set gs"
      using set_update_subset_insert by fastforce
    then show ?thesis
      using shift_down_set [OF I(1)] I(4) unfolding gs_def by auto
  qed
  have occ: "pf_occupied (ring_at (pq_frames q) ?h k)" by (rule I(5) [OF k])
  have pop: "pq_pop_front q l = (Some (ring_at (pq_frames q) ?h k), ?q')"
    using find occ by (simp add: pq_pop_front_def Let_def ring_at_def len gs_def)
  have occ': "pf_occupied (ring_at ?fs ?h i)" if "i < n" for i
    using fs [OF that] I(5) that len by auto
  have inv': "pq_inv ?q'"
    unfolding pq_inv_def using sets gs(1) n I(2) occ' by auto
  have entries: "pq_entries ?q' = take k (pq_entries q) @ drop (Suc k) (pq_entries q)"
    (is "?a = ?b")
  proof (rule nth_equalityI)
    show "length ?a = length ?b" using k len by simp
    fix i assume "i < length ?a"
    then have "i < n" by simp
    then show "?a ! i = ?b ! i"
      using fs k n len by (auto simp: nth_pq_entries nth_append min_def)
  qed
  from that [OF pop inv' entries] show thesis .
qed

section \<open>The interpretation\<close>

definition pq_push_back_entry :: "proof_queue \<Rightarrow> lane_entry \<Rightarrow> unit transport_result \<times> proof_queue" where
  "pq_push_back_entry q e = pq_push_back q (le_lane e) (le_source e) (le_label e) (le_payload e)"

definition pq_push_front_entry :: "proof_queue \<Rightarrow> lane_entry \<Rightarrow> proof_queue" where
  "pq_push_front_entry q e = pq_push_front q (le_lane e) (le_source e) (le_label e) (le_payload e)"

definition pq_pop_front_entry :: "proof_queue \<Rightarrow> u8 \<Rightarrow> lane_entry option \<times> proof_queue" where
  "pq_pop_front_entry q l = apfst (map_option entry_of) (pq_pop_front q l)"

lemma pq_push_back_ok:
  assumes inv: "pq_inv q" and "length b \<le> 128" "pq_len q < 24"
  obtains q' where "pq_push_back q l s lab b = (Inr (), q')" "pq_inv q'"
    "pq_entries q' = pq_entries q @ [\<lparr>le_lane = l, le_source = s, le_label = lab, le_payload = b\<rparr>]"
proof -
  note I = pq_invD [OF inv]
  let ?i = "(pq_head q + pq_len q) mod 24"
  let ?f = "write_frame l s lab b (pq_frames q ! ?i)"
  let ?q' = "q\<lparr>pq_frames := (pq_frames q)[?i := ?f], pq_len := pq_len q + 1\<rparr>"
  have fi: "frame_ok (pq_frames q ! ?i)"
    using ring_at_ok [OF inv, of "pq_head q" "pq_len q"] by (simp add: ring_at_def)
  have at: "ring_at ((pq_frames q)[?i := ?f]) (pq_head q) i
      = (if i = pq_len q then ?f else ring_at (pq_frames q) (pq_head q) i)" if "i \<le> pq_len q" for i
    using that assms I by (auto simp: ring_at_update)
  have "pq_push_back q l s lab b = (Inr (), ?q')"
    using assms by (simp add: pq_push_back_def Let_def)
  moreover have "pq_inv ?q'"
    unfolding pq_inv_def using I assms fi at
    by (auto dest!: set_update_subset_insert [THEN subsetD])
  moreover have "pq_entries ?q' = pq_entries q
      @ [\<lparr>le_lane = l, le_source = s, le_label = lab, le_payload = b\<rparr>]" (is "?a = ?b")
  proof (rule nth_equalityI)
    fix i assume "i < length ?a"
    then show "?a ! i = ?b ! i"
      using at fi assms by (auto simp: nth_pq_entries nth_append less_Suc_eq_le)
  qed simp
  ultimately show thesis by (rule that)
qed

lemma pq_push_front_ok:
  assumes inv: "pq_inv q" and "length b \<le> 128" "pq_len q < 24"
  obtains q' where "pq_push_front q l s lab b = q'" "pq_inv q'"
    "pq_entries q' = \<lparr>le_lane = l, le_source = s, le_label = lab, le_payload = b\<rparr> # pq_entries q"
proof -
  note I = pq_invD [OF inv]
  let ?h = "if pq_head q = 0 then 23 else pq_head q - 1"
  let ?f = "write_frame l s lab b (pq_frames q ! ?h)"
  let ?q' = "q\<lparr>pq_head := ?h, pq_frames := (pq_frames q)[?h := ?f], pq_len := pq_len q + 1\<rparr>"
  have h: "?h < 24" using I(2) by auto
  then have fi: "frame_ok (pq_frames q ! ?h)" using I(1,4) by (intro I(4) nth_mem) auto
  have suc: "(?h + Suc i) mod 24 = (pq_head q + i) mod 24" for i by (auto simp: mod_if)
  have at0: "ring_at ((pq_frames q)[?h := ?f]) ?h 0 = ?f"
    using h I(1) by (simp add: ring_at_def)
  have at: "ring_at ((pq_frames q)[?h := ?f]) ?h (Suc i) = ring_at (pq_frames q) (pq_head q) i"
    if "i < pq_len q" for i
    using ring_at_update [of "pq_frames q" "Suc i" 0 ?h ?f] that assms(3) I(1) h suc [of i]
    by (simp add: ring_at_def)
  have "pq_push_front q l s lab b = ?q'"
    using assms by (simp add: pq_push_front_def Let_def)
  moreover have "pq_inv ?q'"
  proof -
    have "pf_occupied (ring_at ((pq_frames q)[?h := ?f]) ?h i)" if "i < pq_len q + 1" for i
      using that at0 at I(5) by (cases i) auto
    moreover have "frame_ok f" if "f \<in> set ((pq_frames q)[?h := ?f])" for f
      using that set_update_subset_insert [of "pq_frames q" ?h ?f] I(4) fi assms(2)
        write_frame_ok [OF fi] by blast
    ultimately show ?thesis unfolding pq_inv_def using I(1,3) h assms(3) by auto
  qed
  moreover have "pq_entries ?q' = \<lparr>le_lane = l, le_source = s, le_label = lab, le_payload = b\<rparr>
      # pq_entries q" (is "?a = ?b")
  proof (rule nth_equalityI)
    fix i assume "i < length ?a"
    then show "?a ! i = ?b ! i"
      using at0 at fi assms(2) by (cases i) (auto simp: nth_pq_entries)
  qed simp
  ultimately show thesis by (rule that)
qed

lemma pq_pop_front_spec:
  assumes inv: "pq_inv q"
  shows "case extract_lane l (pq_entries q) of
      None \<Rightarrow> pq_pop_front q l = (None, q)
    | Some (y, ys) \<Rightarrow> \<exists>f q'. pq_pop_front q l = (Some f, q') \<and> entry_of f = y \<and> frame_ok f
        \<and> pq_inv q' \<and> pq_entries q' = ys"
  using find_lane_spec [OF inv le0, of l]
proof (elim disjE exE conjE, goal_cases)
  case (1 k)
  then obtain q' where "pq_pop_front q l = (Some (ring_at (pq_frames q) (pq_head q) k), q')"
    "pq_inv q'" "pq_entries q' = take k (pq_entries q) @ drop (Suc k) (pq_entries q)"
    using pq_pop_front_at [OF inv] by metis
  moreover have "extract_lane l (pq_entries q)
      = Some (pq_entries q ! k, take k (pq_entries q) @ drop (Suc k) (pq_entries q))"
    using 1 by (intro extract_lane_first) auto
  ultimately show ?case
    using 1 ring_at_ok [OF inv] by (auto simp: nth_pq_entries)
next
  case 2
  then have "extract_lane l (pq_entries q) = None"
    by (auto simp: extract_lane_None_iff in_set_conv_nth)
  with 2 show ?case by (simp add: pq_pop_front_def)
qed

lemma pq_empty_inv [simp]: "pq_inv proof_queue_empty"
  by (simp add: pq_inv_def proof_queue_empty_def)

lemma pq_entries_empty [simp]: "pq_entries proof_queue_empty = []"
  by (simp add: pq_entries_def proof_queue_empty_def)

lemmas pq_entry_defs =
  pq_push_back_entry_def pq_push_front_entry_def pq_pop_front_entry_def

lemma pq_push_back_inv [inv_intros]:
  assumes "pq_inv q" shows "pq_inv (snd (pq_push_back q l s lab b))"
proof (cases "length b > 128 \<or> pq_len q = 24")
  case False
  then have "length b \<le> 128" "pq_len q < 24" using pq_invD(3) [OF assms] by auto
  then show ?thesis by (rule pq_push_back_ok [OF assms, of b l s lab]) simp
qed (use assms in \<open>auto simp: pq_push_back_def\<close>)

lemma pq_push_front_inv [inv_intros]:
  assumes "pq_inv q" shows "pq_inv (pq_push_front q l s lab b)"
proof (cases "length b > 128 \<or> pq_len q = 24")
  case False
  then have "length b \<le> 128" "pq_len q < 24" using pq_invD(3) [OF assms] by auto
  then show ?thesis by (rule pq_push_front_ok [OF assms, of b l s lab]) simp
qed (use assms in \<open>auto simp: pq_push_front_def\<close>)

lemma pq_pop_front_inv [inv_intros]:
  assumes "pq_inv q" shows "pq_inv (snd (pq_pop_front q l))"
  using pq_pop_front_spec [OF assms, of l] assms
  by (auto split: option.splits)

interpretation pq: lane_queue proof_queue_empty pq_push_back_entry pq_push_front_entry
  pq_pop_front_entry pq_entries pq_inv 24 128
proof (unfold_locales, goal_cases)
  case (3 q e)
  then show ?case by (simp add: pq_push_back_entry_def inv_intros)
next
  case (4 q e)
  then show ?case by (simp add: pq_push_front_entry_def inv_intros)
next
  case (6 q e)
  then have "length (le_payload e) \<le> 128" "pq_len q < 24" by auto
  from pq_push_back_ok [OF 6(1) this] show ?case
    by (metis pq_push_back_entry_def fst_conv snd_conv lane_entry.surjective old.unit.exhaust)
next
  case (8 q e)
  then have "length (le_payload e) \<le> 128" "pq_len q < 24" by auto
  from pq_push_front_ok [OF 8(1) this] show ?case
    by (metis pq_push_front_entry_def lane_entry.surjective old.unit.exhaust)
next
  case (10 q l)
  then show ?case using pq_pop_front_spec [OF 10(1), of l] by (simp add: pq_entry_defs)
next
  case (11 q l y ys)
  then show ?case using pq_pop_front_spec [OF 11(1), of l] by (auto simp: pq_entry_defs)
next
  case (13 q e)
  then obtain i where "e = entry_of (ring_at (pq_frames q) (pq_head q) i)"
    by (auto simp: pq_entries_def)
  then show ?case
    using ring_at_ok [OF 13(1), of "pq_head q" i] by (simp add: entry_of_def frame_ok_def)
qed (auto simp: pq_entry_defs pq_push_back_def pq_push_front_def
      intro: inv_intros dest: pq_invD(3))

section \<open>Properties\<close>

text \<open>C19: taking a frame of a lane out of the ring implements the list operation that
  removes the oldest entry of that lane: when the ring holds none the ring is unchanged,
  otherwise the frame returned is that entry and the ring then holds the other entries in
  their order, for every position of the head and every gap the shift has to close.\<close>

theorem pop_front_refines_extract_lane:
  assumes "pq_inv q"
  shows "case extract_lane lane (pq_entries q) of
      None \<Rightarrow> pq_pop_front q lane = (None, q)
    | Some (e, rest) \<Rightarrow> \<exists>f q'. pq_pop_front q lane = (Some f, q') \<and> entry_of f = e
        \<and> pq_inv q' \<and> pq_entries q' = rest"
  using pq_pop_front_spec [OF assms, of lane] by (auto split: option.splits)

definition pq_sample :: proof_queue where
  "pq_sample = snd (pq_push_back (snd (pq_push_back proof_queue_empty 1 0 7 [10])) 2 0 8 [20])"

lemma pq_sample_inv: "pq_inv pq_sample"
  unfolding pq_sample_def by (intro pq_push_back_inv pq_empty_inv)

theorem pop_front_refines_extract_lane_witness:
  "case extract_lane 2 (pq_entries pq_sample) of
      None \<Rightarrow> pq_pop_front pq_sample 2 = (None, pq_sample)
    | Some (e, rest) \<Rightarrow> \<exists>f q'. pq_pop_front pq_sample 2 = (Some f, q') \<and> entry_of f = e
        \<and> pq_inv q' \<and> pq_entries q' = rest"
  by (rule pop_front_refines_extract_lane [OF pq_sample_inv])

text \<open>Delivery is first in, first out on every lane, whatever the interleaving of the
  lanes: when at most 24 frames of at most 128 bytes are pushed, popping a lane as often as
  frames were pushed on it returns exactly these frames, in the order of their pushes.\<close>

theorem proof_queue_fifo_per_lane:
  assumes "\<forall>e \<in> set es. length (le_payload e) \<le> 128" and "length es \<le> 24"
  shows "pop_n pq_pop_front_entry (length (filter (\<lambda>e. le_lane e = lane) es))
      (push_all pq_push_back_entry proof_queue_empty es) lane
    = map Some (filter (\<lambda>e. le_lane e = lane) es)"
  using assms by (rule pq.fifo_per_lane)

definition sample_entries :: "lane_entry list" where
  "sample_entries =
     [\<lparr>le_lane = 1, le_source = 0, le_label = 7, le_payload = [10]\<rparr>,
      \<lparr>le_lane = 2, le_source = 0, le_label = 8, le_payload = [20]\<rparr>,
      \<lparr>le_lane = 1, le_source = 3, le_label = 9, le_payload = []\<rparr>]"

theorem proof_queue_fifo_per_lane_witness:
  "pop_n pq_pop_front_entry 2 (push_all pq_push_back_entry proof_queue_empty sample_entries) 1
    = map Some [\<lparr>le_lane = 1, le_source = 0, le_label = 7, le_payload = [10]\<rparr>,
        \<lparr>le_lane = 1, le_source = 3, le_label = 9, le_payload = []\<rparr>]"
  using proof_queue_fifo_per_lane [of sample_entries 1]
  by (simp add: sample_entries_def numeral_2_eq_2)

text \<open>A frame that was popped and then pushed back at the front is the next one popped
  on its lane, and that second pop leaves the same entries as the first did.\<close>

theorem proof_queue_requeue_pop:
  assumes "pq_inv q" and "fst (pq_pop_front_entry q lane) = Some e"
  shows "fst (pq_pop_front_entry (pq_push_front_entry (snd (pq_pop_front_entry q lane)) e) lane)
      = Some e
    \<and> pq_entries (snd (pq_pop_front_entry
          (pq_push_front_entry (snd (pq_pop_front_entry q lane)) e) lane))
      = pq_entries (snd (pq_pop_front_entry q lane))"
  using pq.requeue_pop [OF assms] by blast

lemma pq_sample_entries:
  "pq_entries pq_sample
    = [\<lparr>le_lane = 1, le_source = 0, le_label = 7, le_payload = [10]\<rparr>,
       \<lparr>le_lane = 2, le_source = 0, le_label = 8, le_payload = [20]\<rparr>]"
  using pq.push_all_entries [of proof_queue_empty "take 2 sample_entries"]
  by (simp add: sample_entries_def pq_sample_def pq_push_back_entry_def)

theorem proof_queue_requeue_pop_witness:
  "\<exists>e. fst (pq_pop_front_entry pq_sample 2) = Some e
    \<and> fst (pq_pop_front_entry (pq_push_front_entry (snd (pq_pop_front_entry pq_sample 2)) e) 2)
      = Some e"
proof -
  have "fst (pq_pop_front_entry pq_sample 2)
      = Some \<lparr>le_lane = 2, le_source = 0, le_label = 8, le_payload = [20]\<rparr>"
    using pq.pop_front_Some [OF pq_sample_inv, of 2] by (simp add: pq_sample_entries)
  with proof_queue_requeue_pop [OF pq_sample_inv this] show ?thesis by blast
qed

end
