(* ===== verification/Proof_Carrier.thy ===== *)
theory Proof_Carrier
  imports Proof_Queue
begin

text \<open>
  The in-memory carrier \<open>ProofCarrier\<close> of \<open>examples/uno-q-heterogeneous/src/lib.rs\<close>: one
  \<open>ProofQueue\<close> per role, and the four transport operations open, send, receive and requeue.
  A poll returns its result, whether it woke the task, and the changed state. The receive
  state of the other two carriers of the file has the same fields and shares the definitions
  here. The locale \<open>role_carrier\<close> states what one role relies on when it sends to another.
\<close>

section \<open>Port state\<close>

record proof_tx =
  ptx_role :: u8
  ptx_session :: u32
  ptx_lane :: u8

record proof_rx =
  prx_role :: u8
  prx_session :: u32
  prx_lane :: u8
  prx_source :: u8
  prx_label :: "u8 option"
  prx_hint :: "u8 option"
  prx_len :: nat
  prx_bytes :: bytes

type_synonym proof_queues = "proof_queue list"

definition proof_queues_empty :: proof_queues where
  "proof_queues_empty = replicate PROOF_CARRIER_ROLES proof_queue_empty"

definition proof_frame_header :: "u32 \<Rightarrow> u8 \<Rightarrow> u8 \<Rightarrow> u8 \<Rightarrow> u8 \<Rightarrow> bytes" where
  "proof_frame_header session_id lane source_role peer_role frame_label =
     be_bytes32 session_id @ [lane, source_role, peer_role, frame_label]"

definition proof_received_frame :: "u32 \<Rightarrow> u8 \<Rightarrow> u8 \<Rightarrow> u8 \<Rightarrow> u8 \<Rightarrow> bytes \<Rightarrow> received" where
  "proof_received_frame session_id lane source_role peer_role frame_label bytes =
     \<lparr>recv_header = proof_frame_header session_id lane source_role peer_role frame_label,
      recv_payload = bytes\<rparr>"

section \<open>The operations\<close>

definition proof_open :: "port_open \<Rightarrow> proof_tx \<times> proof_rx" where
  "proof_open port =
     (\<lparr>ptx_role = port_role port, ptx_session = port_session port, ptx_lane = port_lane port\<rparr>,
      \<lparr>prx_role = port_role port, prx_session = port_session port, prx_lane = port_lane port,
       prx_source = 0, prx_label = None, prx_hint = None, prx_len = 0,
       prx_bytes = replicate PROOF_CARRIER_FRAME_BYTES 0\<rparr>)"

text \<open>The guard all three carriers of the file share.\<close>

definition send_refused :: "'a proof_tx_scheme \<Rightarrow> outgoing \<Rightarrow> bool" where
  "send_refused tx out \<longleftrightarrow> ptx_session tx = 0 \<or> out_target out = ptx_role tx
     \<or> out_lane out \<noteq> ptx_lane tx"

definition proof_poll_send ::
    "proof_queues \<Rightarrow> proof_tx \<Rightarrow> outgoing \<Rightarrow> unit transport_result poll \<times> bool \<times> proof_queues" where
  "proof_poll_send qs tx out =
     (if send_refused tx out then (Ready (Inl Failed), False, qs)
      else
        let peer = unat (out_target out) in
        if peer \<ge> PROOF_CARRIER_ROLES then (Ready (Inl Failed), False, qs)
        else
          case pq_push_back (qs ! peer) (out_lane out) (ptx_role tx) (out_label out)
                 (out_payload out) of
            (Inl e, q) \<Rightarrow> (Ready (Inl e), False, qs[peer := q])
          | (Inr _, q) \<Rightarrow> (Ready (Inr ()), True, qs[peer := q]))"

text \<open>Storing a popped frame in the receive state, and the view of it that is handed out.\<close>

definition rx_store :: "'a proof_rx_scheme \<Rightarrow> proof_frame \<Rightarrow> 'a proof_rx_scheme" where
  "rx_store rx frame =
     rx\<lparr>prx_label := Some (pf_label frame), prx_source := pf_source frame,
        prx_hint := Some (pf_label frame), prx_len := pf_len frame,
        prx_bytes := blit 0 (take (pf_len frame) (pf_bytes frame)) (prx_bytes rx)\<rparr>"

definition rx_frame :: "'a proof_rx_scheme \<Rightarrow> proof_frame \<Rightarrow> received" where
  "rx_frame rx frame =
     proof_received_frame (prx_session rx) (prx_lane rx) (pf_source frame) (prx_role rx)
       (pf_label frame) (take (prx_len rx) (prx_bytes rx))"

definition proof_poll_recv ::
    "proof_queues \<Rightarrow> proof_rx \<Rightarrow>
       received transport_result poll \<times> bool \<times> proof_rx \<times> proof_queues" where
  "proof_poll_recv qs rx =
     (if prx_session rx = 0 then (Ready (Inl Failed), False, rx, qs)
      else
        let local_role = unat (prx_role rx) in
        if local_role \<ge> PROOF_CARRIER_ROLES then (Ready (Inl Failed), False, rx, qs)
        else
          case pq_pop_front (qs ! local_role) (prx_lane rx) of
            (None, q) \<Rightarrow> (Pending, False, rx, qs[local_role := q])
          | (Some frame, q) \<Rightarrow>
              let rx = rx_store rx frame in
              (Ready (Inr (rx_frame rx frame)), True, rx, qs[local_role := q]))"

definition proof_requeue ::
    "proof_queues \<Rightarrow> 'a proof_rx_scheme \<Rightarrow>
       unit transport_result \<times> 'a proof_rx_scheme \<times> proof_queues" where
  "proof_requeue qs rx =
     (case prx_label rx of
        None \<Rightarrow> (Inr (), rx\<lparr>prx_hint := None\<rparr>, qs)
      | Some frame_label \<Rightarrow>
          let rx = rx\<lparr>prx_label := None\<rparr>;
              local_role = unat (prx_role rx);
              qs = (if local_role < PROOF_CARRIER_ROLES
                    then qs[local_role := pq_push_front (qs ! local_role) (prx_lane rx)
                              (prx_source rx) frame_label (take (prx_len rx) (prx_bytes rx))]
                    else qs)
          in (Inr (), rx\<lparr>prx_hint := None\<rparr>, qs))"

section \<open>Invariants\<close>

definition proof_queues_inv :: "proof_queues \<Rightarrow> bool" where
  "proof_queues_inv qs \<longleftrightarrow> length qs = 5 \<and> (\<forall>q \<in> set qs. pq_inv q)"

definition proof_rx_ok :: "'a proof_rx_scheme \<Rightarrow> bool" where
  "proof_rx_ok rx \<longleftrightarrow> length (prx_bytes rx) = 128 \<and> prx_len rx \<le> 128"

text \<open>What the queue of a role holds; roles outside the table hold nothing.\<close>

definition role_entries :: "proof_queues \<Rightarrow> u8 \<Rightarrow> lane_entry list" where
  "role_entries qs r = (if unat r < 5 then pq_entries (qs ! unat r) else [])"

lemma proof_queues_empty_inv [simp]: "proof_queues_inv proof_queues_empty"
  by (simp add: proof_queues_inv_def proof_queues_empty_def)

lemma role_entries_empty [simp]: "role_entries proof_queues_empty r = []"
  by (simp add: role_entries_def proof_queues_empty_def)

lemma proof_open_rx_ok [simp]: "proof_rx_ok (snd (proof_open port))"
  by (simp add: proof_rx_ok_def proof_open_def)

lemma proof_queues_invD:
  assumes "proof_queues_inv qs"
  shows "length qs = 5" "r < 5 \<Longrightarrow> pq_inv (qs ! r)"
  using assms by (auto simp: proof_queues_inv_def)

lemma proof_queues_update [inv_intros]:
  "proof_queues_inv qs \<Longrightarrow> pq_inv q \<Longrightarrow> proof_queues_inv (qs[r := q])"
  by (auto simp: proof_queues_inv_def dest!: set_update_subset_insert [THEN subsetD])

lemma role_entries_update:
  assumes "proof_queues_inv qs" and "unat r < 5"
  shows "role_entries (qs[unat r := q]) r' = (if r' = r then pq_entries q else role_entries qs r')"
  using assms
  by (cases "r' = r") (auto simp: role_entries_def proof_queues_invD(1) word_unat_eq_iff)

lemma entry_of_payload [simp]: "le_payload (entry_of f) = take (pf_len f) (pf_bytes f)"
  and entry_of_fields [simp]: "le_lane (entry_of f) = pf_lane f"
    "le_source (entry_of f) = pf_source f" "le_label (entry_of f) = pf_label f"
  by (simp_all add: entry_of_def)

lemma rx_store_ok [inv_intros]: "proof_rx_ok rx \<Longrightarrow> frame_ok f \<Longrightarrow> proof_rx_ok (rx_store rx f)"
  by (simp add: proof_rx_ok_def rx_store_def frame_ok_def)

lemma rx_store_payload:
  "proof_rx_ok rx \<Longrightarrow> frame_ok f \<Longrightarrow>
     take (prx_len (rx_store rx f)) (prx_bytes (rx_store rx f)) = take (pf_len f) (pf_bytes f)"
  by (simp add: proof_rx_ok_def rx_store_def frame_ok_def take_blit_0_le)

section \<open>What the operations do to the abstract queues\<close>

definition sent_entry :: "u8 \<Rightarrow> outgoing \<Rightarrow> lane_entry" where
  "sent_entry source out = \<lparr>le_lane = out_lane out, le_source = source, le_label = out_label out,
     le_payload = out_payload out\<rparr>"

definition send_accepted :: "proof_queues \<Rightarrow> 'a proof_tx_scheme \<Rightarrow> outgoing \<Rightarrow> bool" where
  "send_accepted qs tx out \<longleftrightarrow> \<not> send_refused tx out \<and> unat (out_target out) < 5
     \<and> length (out_payload out) \<le> 128 \<and> length (role_entries qs (out_target out)) < 24"

lemma pq_push_back_refused:
  "length b > 128 \<or> pq_len q = 24 \<Longrightarrow> pq_push_back q l s lab b = (Inl Failed, q)"
  by (auto simp: pq_push_back_def)

lemma proof_poll_send_spec:
  assumes "proof_queues_inv qs"
  shows "if send_accepted qs tx out
    then \<exists>qs'. proof_poll_send qs tx out = (Ready (Inr ()), True, qs') \<and> proof_queues_inv qs'
      \<and> (\<forall>r. role_entries qs' r = role_entries qs r
           @ (if r = out_target out then [sent_entry (ptx_role tx) out] else []))
    else proof_poll_send qs tx out = (Ready (Inl Failed), False, qs)"
proof (cases "send_refused tx out \<or> unat (out_target out) \<ge> 5")
  case True
  then show ?thesis by (auto simp: send_accepted_def proof_poll_send_def)
next
  case False
  let ?r = "out_target out" and ?q = "qs ! unat (out_target out)"
  have inv: "pq_inv ?q" using proof_queues_invD(2) [OF assms] False by simp
  show ?thesis
  proof (cases "length (out_payload out) > 128 \<or> pq_len ?q = 24")
    case True
    with False pq_push_back_refused [OF True] show ?thesis
      by (auto simp: send_accepted_def proof_poll_send_def role_entries_def)
  next
    case room: False
    then have "length (out_payload out) \<le> 128" "pq_len ?q < 24" using pq_invD(3) [OF inv] by auto
    from pq_push_back_ok [OF inv this, of "out_lane out" "ptx_role tx" "out_label out"]
    obtain q' where q': "pq_push_back ?q (out_lane out) (ptx_role tx) (out_label out)
        (out_payload out) = (Inr (), q')" "pq_inv q'"
      "pq_entries q' = pq_entries ?q @ [sent_entry (ptx_role tx) out]"
      by (metis sent_entry_def)
    have "send_accepted qs tx out"
      using False room pq_invD(3) [OF inv] by (auto simp: send_accepted_def role_entries_def)
    moreover have "proof_poll_send qs tx out = (Ready (Inr ()), True, qs[unat ?r := q'])"
      using False q'(1) by (simp add: proof_poll_send_def Let_def)
    moreover have "role_entries (qs[unat ?r := q']) r = role_entries qs r
        @ (if r = ?r then [sent_entry (ptx_role tx) out] else [])" for r
      using role_entries_update [OF assms, of ?r q' r] False q'(3)
      by (auto simp: role_entries_def)
    ultimately show ?thesis using proof_queues_update [OF assms q'(2)] by simp
  qed
qed

lemma extract_lane_lane: "extract_lane l xs = Some (e, ys) \<Longrightarrow> le_lane e = l"
  using extract_lane_Some by blast

lemma extract_lane_filter:
  "extract_lane l xs = Some (e, ys) \<Longrightarrow>
     filter (\<lambda>x. le_lane x = l') xs
       = (if le_lane e = l' then [e] else []) @ filter (\<lambda>x. le_lane x = l') ys"
  by (induction xs arbitrary: ys) (auto split: if_splits dest: extract_lane_lane)

text \<open>The receive state after a frame with entry \<open>e\<close> was stored in it.\<close>

definition rx_holds :: "'a proof_rx_scheme \<Rightarrow> lane_entry \<Rightarrow> bool" where
  "rx_holds rx e \<longleftrightarrow> proof_rx_ok rx \<and> prx_label rx = Some (le_label e) \<and> prx_lane rx = le_lane e
     \<and> prx_source rx = le_source e \<and> prx_hint rx = Some (le_label e)
     \<and> take (prx_len rx) (prx_bytes rx) = le_payload e"

lemma rx_store_holds:
  assumes "proof_rx_ok rx" "frame_ok f" "pf_lane f = prx_lane rx"
  shows "rx_holds (rx_store rx f) (entry_of f)"
  using assms rx_store_payload [OF assms(1,2)] rx_store_ok [OF assms(1,2)]
  by (simp add: rx_holds_def) (simp add: rx_store_def)

lemma rx_store_same [simp]:
  "prx_role (rx_store rx f) = prx_role rx" "prx_session (rx_store rx f) = prx_session rx"
  "prx_lane (rx_store rx f) = prx_lane rx"
  by (simp_all add: rx_store_def)

text \<open>Popping one role's queue and storing the frame, as all three carriers do it.\<close>

lemma pop_store_spec:
  assumes inv: "proof_queues_inv qs" and ok: "proof_rx_ok rx" and r: "unat (prx_role rx) < 5"
  shows "case extract_lane (prx_lane rx) (role_entries qs (prx_role rx)) of
      None \<Rightarrow> pq_pop_front (qs ! unat (prx_role rx)) (prx_lane rx)
        = (None, qs ! unat (prx_role rx))
    | Some (e, rest) \<Rightarrow> \<exists>f q'. pq_pop_front (qs ! unat (prx_role rx)) (prx_lane rx) = (Some f, q')
        \<and> entry_of f = e \<and> frame_ok f \<and> proof_queues_inv (qs[unat (prx_role rx) := q'])
        \<and> (\<forall>r. role_entries (qs[unat (prx_role rx) := q']) r
             = (if r = prx_role rx then rest else role_entries qs r))
        \<and> rx_holds (rx_store rx f) e
        \<and> rx_frame (rx_store rx f) f = proof_received_frame (prx_session rx) (prx_lane rx)
            (le_source e) (prx_role rx) (le_label e) (le_payload e)"
proof -
  let ?q = "qs ! unat (prx_role rx)"
  have qinv: "pq_inv ?q" using proof_queues_invD(2) [OF inv] r by simp
  have ents: "role_entries qs (prx_role rx) = pq_entries ?q" using r by (simp add: role_entries_def)
  show ?thesis
  proof (cases "extract_lane (prx_lane rx) (pq_entries ?q)")
    case None
    with pq_pop_front_spec [OF qinv, of "prx_lane rx"] show ?thesis by (simp add: ents)
  next
    case (Some p)
    obtain e rest where p: "p = (e, rest)" by (cases p)
    from pq_pop_front_spec [OF qinv, of "prx_lane rx"] Some p obtain f q' where
      f: "pq_pop_front ?q (prx_lane rx) = (Some f, q')" "entry_of f = e" "frame_ok f"
        "pq_inv q'" "pq_entries q' = rest" by auto
    have lane: "pf_lane f = prx_lane rx"
      using extract_lane_lane [of "prx_lane rx" "pq_entries ?q" e rest] Some p f(2) by auto
    have "rx_frame (rx_store rx f) f = proof_received_frame (prx_session rx) (prx_lane rx)
        (le_source e) (prx_role rx) (le_label e) (le_payload e)"
      using rx_store_payload [OF ok f(3)] f(2) by (auto simp: rx_frame_def)
    moreover have "role_entries (qs[unat (prx_role rx) := q']) r'
        = (if r' = prx_role rx then rest else role_entries qs r')" for r'
      using role_entries_update [OF inv r, of q' r'] f(5) by simp
    ultimately show ?thesis
      using f rx_store_holds [OF ok f(3) lane] proof_queues_update [OF inv f(4)]
      by (simp add: ents Some p)
  qed
qed

lemma proof_poll_recv_spec:
  assumes inv: "proof_queues_inv qs" and ok: "proof_rx_ok rx"
  shows "if prx_session rx = 0 \<or> unat (prx_role rx) \<ge> 5
    then proof_poll_recv qs rx = (Ready (Inl Failed), False, rx, qs)
    else case extract_lane (prx_lane rx) (role_entries qs (prx_role rx)) of
      None \<Rightarrow> proof_poll_recv qs rx = (Pending, False, rx, qs)
    | Some (e, rest) \<Rightarrow> \<exists>rx' qs'.
        proof_poll_recv qs rx
          = (Ready (Inr (proof_received_frame (prx_session rx) (prx_lane rx) (le_source e)
               (prx_role rx) (le_label e) (le_payload e))), True, rx', qs')
        \<and> proof_queues_inv qs' \<and> rx_holds rx' e \<and> prx_role rx' = prx_role rx
        \<and> prx_session rx' = prx_session rx
        \<and> (\<forall>r. role_entries qs' r = (if r = prx_role rx then rest else role_entries qs r))"
proof (cases "prx_session rx = 0 \<or> unat (prx_role rx) \<ge> 5")
  case True
  then show ?thesis by (auto simp: proof_poll_recv_def)
next
  case False
  then have r: "unat (prx_role rx) < 5" "prx_session rx \<noteq> 0" by auto
  note P = pop_store_spec [OF inv ok r(1)]
  show ?thesis
  proof (cases "extract_lane (prx_lane rx) (role_entries qs (prx_role rx))")
    case None
    with P r show ?thesis by (simp add: proof_poll_recv_def Let_def)
  next
    case (Some p)
    obtain e rest where p: "p = (e, rest)" by (cases p)
    from P Some p obtain f q' where
      f: "pq_pop_front (qs ! unat (prx_role rx)) (prx_lane rx) = (Some f, q')"
        "proof_queues_inv (qs[unat (prx_role rx) := q'])"
        "\<forall>r. role_entries (qs[unat (prx_role rx) := q']) r
             = (if r = prx_role rx then rest else role_entries qs r)"
        "rx_holds (rx_store rx f) e"
        "rx_frame (rx_store rx f) f = proof_received_frame (prx_session rx) (prx_lane rx)
            (le_source e) (prx_role rx) (le_label e) (le_payload e)"
      by auto
    then have "proof_poll_recv qs rx
        = (Ready (Inr (proof_received_frame (prx_session rx) (prx_lane rx) (le_source e)
             (prx_role rx) (le_label e) (le_payload e))), True, rx_store rx f,
           qs[unat (prx_role rx) := q'])"
      using r by (simp add: proof_poll_recv_def Let_def)
    with f Some p r show ?thesis by auto
  qed
qed

lemma proof_requeue_spec:
  assumes inv: "proof_queues_inv qs" and h: "rx_holds rx e" and r: "unat (prx_role rx) < 5"
  shows "\<exists>qs'. proof_requeue qs rx = (Inr (), rx\<lparr>prx_label := None, prx_hint := None\<rparr>, qs')
    \<and> proof_queues_inv qs'
    \<and> (\<forall>r. role_entries qs' r =
         (if r = prx_role rx \<and> length (role_entries qs r) < 24 then e # role_entries qs r
          else role_entries qs r))"
proof -
  let ?r = "prx_role rx" and ?q = "qs ! unat (prx_role rx)"
  have q: "pq_inv ?q" using proof_queues_invD(2) [OF inv] r by simp
  let ?q' = "pq_push_front ?q (le_lane e) (le_source e) (le_label e) (le_payload e)"
  have len: "length (le_payload e) \<le> 128"
    using h by (auto simp: rx_holds_def proof_rx_ok_def dest!: arg_cong [where f = length])
  have "pq_entries ?q' = (if length (role_entries qs ?r) < 24 then e # role_entries qs ?r
      else role_entries qs ?r)"
  proof (cases "pq_len ?q < 24")
    case True
    then show ?thesis
      using pq_push_front_ok [OF q len True, of "le_lane e" "le_source e" "le_label e"] r
      by (metis length_pq_entries lane_entry.surjective old.unit.exhaust role_entries_def)
  next
    case False
    then have "pq_len ?q = 24" using pq_invD(3) [OF q] by simp
    then have "?q' = ?q" by (simp add: pq_push_front_def)
    with False r show ?thesis by (simp add: role_entries_def)
  qed
  then have "role_entries (qs[unat ?r := ?q']) r' =
      (if r' = ?r \<and> length (role_entries qs r') < 24 then e # role_entries qs r'
       else role_entries qs r')" for r'
    using role_entries_update [OF inv r, of ?q' r'] by auto
  moreover have "proof_requeue qs rx
      = (Inr (), rx\<lparr>prx_label := None, prx_hint := None\<rparr>, qs[unat ?r := ?q'])"
    using h r by (simp add: rx_holds_def proof_requeue_def Let_def)
  ultimately show ?thesis
    using proof_queues_update [OF inv pq_push_front_inv [OF q]] by auto
qed

section \<open>The contract of a carrier between roles\<close>

text \<open>
  A run is a list of sends and receives; its trace records, per role, the entries that were
  accepted and the entries that were delivered.
\<close>

datatype carrier_op = Op_Send u8 outgoing | Op_Recv u8 u8

fun run_ops ::
    "('s \<Rightarrow> u8 \<Rightarrow> outgoing \<Rightarrow> bool \<times> 's) \<Rightarrow> ('s \<Rightarrow> u8 \<Rightarrow> u8 \<Rightarrow> lane_entry option \<times> 's) \<Rightarrow>
       's \<Rightarrow> carrier_op list \<Rightarrow> (u8 \<times> lane_entry) list \<times> (u8 \<times> lane_entry) list \<times> 's" where
  "run_ops snd_op rcv_op s [] = ([], [], s)"
| "run_ops snd_op rcv_op s (Op_Send source out # ops) =
     (case snd_op s source out of (ok, s') \<Rightarrow>
        (case run_ops snd_op rcv_op s' ops of (sent, got, s'') \<Rightarrow>
           ((if ok then [(out_target out, sent_entry source out)] else []) @ sent, got, s'')))"
| "run_ops snd_op rcv_op s (Op_Recv r l # ops) =
     (case rcv_op s r l of (e, s') \<Rightarrow>
        (case run_ops snd_op rcv_op s' ops of (sent, got, s'') \<Rightarrow>
           (sent, (case e of None \<Rightarrow> [] | Some e \<Rightarrow> [(r, e)]) @ got, s'')))"

definition on_lane :: "u8 \<Rightarrow> u8 \<Rightarrow> (u8 \<times> lane_entry) list \<Rightarrow> lane_entry list" where
  "on_lane r l h = filter (\<lambda>e. le_lane e = l) (map snd (filter (\<lambda>p. fst p = r) h))"

lemma on_lane_simps [simp]:
  "on_lane r l [] = []"
  "on_lane r l ((r', e) # h) = (if r' = r \<and> le_lane e = l then e # on_lane r l h else on_lane r l h)"
  "on_lane r l (h @ h') = on_lane r l h @ on_lane r l h'"
  by (simp_all add: on_lane_def)

locale role_carrier =
  fixes snd_op :: "'s \<Rightarrow> u8 \<Rightarrow> outgoing \<Rightarrow> bool \<times> 's"
    and rcv_op :: "'s \<Rightarrow> u8 \<Rightarrow> u8 \<Rightarrow> lane_entry option \<times> 's"
    and held :: "'s \<Rightarrow> u8 \<Rightarrow> lane_entry list"
    and inv :: "'s \<Rightarrow> bool"
  assumes snd_inv: "inv s \<Longrightarrow> inv (snd (snd_op s source out))"
    and snd_held: "inv s \<Longrightarrow> held (snd (snd_op s source out)) r = held s r
      @ (if fst (snd_op s source out) \<and> r = out_target out then [sent_entry source out] else [])"
    and rcv_inv: "inv s \<Longrightarrow> inv (snd (rcv_op s role lane))"
    and rcv_None: "inv s \<Longrightarrow> extract_lane lane (held s role) = None \<Longrightarrow>
      fst (rcv_op s role lane) = None \<and> held (snd (rcv_op s role lane)) r = held s r"
    and rcv_Some: "inv s \<Longrightarrow> extract_lane lane (held s role) = Some (e, rest) \<Longrightarrow>
      fst (rcv_op s role lane) = Some e
      \<and> held (snd (rcv_op s role lane)) r = (if r = role then rest else held s r)"
begin

lemma run_inv: "inv s \<Longrightarrow> inv (snd (snd (run_ops snd_op rcv_op s ops)))"
proof (induction ops arbitrary: s)
  case (Cons op ops)
  show ?case
  proof (cases op)
    case (Op_Send source out)
    then show ?thesis using Cons.IH [OF snd_inv [OF Cons.prems], of source out]
      by (cases "snd_op s source out") (auto simp: Op_Send split: prod.split)
  next
    case (Op_Recv r l)
    then show ?thesis using Cons.IH [OF rcv_inv [OF Cons.prems], of r l]
      by (cases "rcv_op s r l") (auto simp: Op_Recv split: prod.split)
  qed
qed simp

text \<open>No frame of a lane is lost, duplicated, reordered or invented.\<close>

lemma run_history:
  assumes "inv s" and "run_ops snd_op rcv_op s ops = (sent, got, s')"
  shows "filter (\<lambda>e. le_lane e = l) (held s r) @ on_lane r l sent
    = on_lane r l got @ filter (\<lambda>e. le_lane e = l) (held s' r)"
  using assms
proof (induction ops arbitrary: s sent got)
  case (Cons op ops)
  show ?case
  proof (cases op)
    case (Op_Send source out)
    obtain ok s1 where s1: "snd_op s source out = (ok, s1)" by (cases "snd_op s source out")
    obtain sent1 got1 where t: "run_ops snd_op rcv_op s1 ops = (sent1, got1, s')"
      "got = got1"
      "sent = (if ok then [(out_target out, sent_entry source out)] else []) @ sent1"
      using Cons.prems(2) s1 by (auto simp: Op_Send split: prod.splits)
    have "inv s1" using snd_inv [OF Cons.prems(1), of source out] s1 by simp
    from Cons.IH [OF this t(1)] show ?thesis
      using snd_held [OF Cons.prems(1), of source out r] s1 t by (auto split: if_splits)
  next
    case (Op_Recv r1 l1)
    obtain e s1 where s1: "rcv_op s r1 l1 = (e, s1)" by (cases "rcv_op s r1 l1")
    obtain sent1 got1 where t: "run_ops snd_op rcv_op s1 ops = (sent1, got1, s')"
      "sent = sent1" "got = (case e of None \<Rightarrow> [] | Some e \<Rightarrow> [(r1, e)]) @ got1"
      using Cons.prems(2) s1 by (auto simp: Op_Recv split: prod.splits)
    have "inv s1" using rcv_inv [OF Cons.prems(1), of r1 l1] s1 by simp
    note IH = Cons.IH [OF this t(1)]
    show ?thesis
    proof (cases "extract_lane l1 (held s r1)")
      case None
      from rcv_None [OF Cons.prems(1) None, of r] show ?thesis using IH s1 t by simp
    next
      case (Some p)
      obtain x rest where p: "p = (x, rest)" by (cases p)
      from rcv_Some [OF Cons.prems(1) Some [unfolded p], of r]
      have "e = Some x" "held s1 r = (if r = r1 then rest else held s r)" using s1 by auto
      moreover note extract_lane_Some [OF Some [unfolded p]] extract_lane_filter [OF Some [unfolded p]]
      ultimately show ?thesis using IH t by (auto split: if_splits)
    qed
  qed
qed simp

end

section \<open>The interpretation\<close>

text \<open>Sends and receives through freshly opened ports of the default session.\<close>

definition APPKIT_DEFAULT_SESSION_ID :: u32 where [simp]: "APPKIT_DEFAULT_SESSION_ID = 1"

definition session_port :: "u8 \<Rightarrow> u8 \<Rightarrow> port_open" where
  "session_port role lane =
     \<lparr>port_role = role, port_session = APPKIT_DEFAULT_SESSION_ID, port_lane = lane\<rparr>"

text \<open>The message a receiver reads off a received frame.\<close>

definition received_entry :: "received \<Rightarrow> lane_entry" where
  "received_entry f = \<lparr>le_lane = recv_header f ! 4, le_source = recv_header f ! 5,
     le_label = recv_header f ! 7, le_payload = recv_payload f\<rparr>"

definition proof_send_op :: "proof_queues \<Rightarrow> u8 \<Rightarrow> outgoing \<Rightarrow> bool \<times> proof_queues" where
  "proof_send_op qs source out =
     (case proof_poll_send qs (fst (proof_open (session_port source (out_lane out)))) out of
        (res, _, qs') \<Rightarrow> (res = Ready (Inr ()), qs'))"

definition proof_recv_op :: "proof_queues \<Rightarrow> u8 \<Rightarrow> u8 \<Rightarrow> lane_entry option \<times> proof_queues" where
  "proof_recv_op qs role lane =
     (case proof_poll_recv qs (snd (proof_open (session_port role lane))) of
        (Ready (Inr f), _, _, qs') \<Rightarrow> (Some (received_entry f), qs')
      | (_, _, _, qs') \<Rightarrow> (None, qs'))"

lemma received_entry_frame:
  "received_entry (proof_received_frame sid l s r lab b)
    = \<lparr>le_lane = l, le_source = s, le_label = lab, le_payload = b\<rparr>"
  by (simp add: received_entry_def proof_received_frame_def proof_frame_header_def be_bytes32_def
      le_bytes32_def)

lemma proof_open_fields [simp]:
  "ptx_role (fst (proof_open p)) = port_role p"
  "prx_role (snd (proof_open p)) = port_role p" "prx_lane (snd (proof_open p)) = port_lane p"
  "prx_session (snd (proof_open p)) = port_session p"
  by (simp_all add: proof_open_def)

lemma session_port_fields [simp]:
  "port_role (session_port r l) = r" "port_lane (session_port r l) = l"
  "port_session (session_port r l) = 1"
  by (simp_all add: session_port_def)

lemma proof_send_op_spec:
  assumes "proof_queues_inv qs"
  shows "proof_queues_inv (snd (proof_send_op qs source out))
    \<and> role_entries (snd (proof_send_op qs source out)) r = role_entries qs r
      @ (if fst (proof_send_op qs source out) \<and> r = out_target out
         then [sent_entry source out] else [])"
proof -
  let ?tx = "fst (proof_open (session_port source (out_lane out)))"
  from proof_poll_send_spec [OF assms, of ?tx out]
  show ?thesis
    by (cases "send_accepted qs ?tx out") (auto simp: proof_send_op_def assms)
qed

lemma proof_recv_op_spec:
  assumes "proof_queues_inv qs"
  shows "proof_queues_inv (snd (proof_recv_op qs role lane))
    \<and> (case extract_lane lane (role_entries qs role) of
        None \<Rightarrow> proof_recv_op qs role lane = (None, qs)
      | Some (e, rest) \<Rightarrow> fst (proof_recv_op qs role lane) = Some e
          \<and> role_entries (snd (proof_recv_op qs role lane)) r
            = (if r = role then rest else role_entries qs r))"
proof -
  let ?rx = "snd (proof_open (session_port role lane))"
  note S = proof_poll_recv_spec [OF assms proof_open_rx_ok, of "session_port role lane"]
  show ?thesis
  proof (cases "unat role \<ge> 5")
    case True
    with S have "proof_recv_op qs role lane = (None, qs)" by (simp add: proof_recv_op_def)
    moreover have "role_entries qs role = []" using True by (simp add: role_entries_def)
    ultimately show ?thesis using assms by simp
  next
    case False
    show ?thesis
    proof (cases "extract_lane lane (role_entries qs role)")
      case None
      with S False have "proof_recv_op qs role lane = (None, qs)" by (simp add: proof_recv_op_def)
      with None assms show ?thesis by simp
    next
      case (Some p)
      obtain e rest where p: "p = (e, rest)" by (cases p)
      have "le_lane e = lane" using extract_lane_lane Some p by blast
      with S False Some p show ?thesis
        by (auto simp: proof_recv_op_def received_entry_frame)
    qed
  qed
qed

interpretation proof_net: role_carrier proof_send_op proof_recv_op role_entries proof_queues_inv
proof (unfold_locales, goal_cases)
  case (4 s lane role r)
  then show ?case using proof_recv_op_spec [OF 4(1), of role lane r] by simp
next
  case (5 s lane role e rest r)
  then show ?case using proof_recv_op_spec [OF 5(1), of role lane r] by simp
qed (use proof_send_op_spec proof_recv_op_spec in blast)+

section \<open>Properties\<close>

text \<open>C1: whatever sends and receives the roles make on the carrier, in whatever order and on
  whatever lanes, the messages delivered to a role on a lane followed by those still queued for it
  are exactly the messages accepted for it, in the order they were sent: nothing is lost,
  duplicated, reordered, invented, or delivered to another role or lane.\<close>

theorem proof_carrier_delivery:
  assumes "run_ops proof_send_op proof_recv_op proof_queues_empty ops = (sent, got, qs)"
  shows "on_lane role lane sent
    = on_lane role lane got @ filter (\<lambda>e. le_lane e = lane) (role_entries qs role)"
  using proof_net.run_history [OF proof_queues_empty_inv assms] by simp

definition hello :: outgoing where
  "hello = \<lparr>out_target = 2, out_lane = 1, out_label = 151, out_payload = [104, 105]\<rparr>"

theorem proof_carrier_delivery_witness:
  "on_lane 2 1 (fst (run_ops proof_send_op proof_recv_op proof_queues_empty
      [Op_Send 0 hello, Op_Recv 2 1]))
    = on_lane 2 1 (fst (snd (run_ops proof_send_op proof_recv_op proof_queues_empty
      [Op_Send 0 hello, Op_Recv 2 1])))
    @ filter (\<lambda>e. le_lane e = 1) (role_entries (snd (snd (run_ops proof_send_op proof_recv_op
      proof_queues_empty [Op_Send 0 hello, Op_Recv 2 1]))) 2)"
  by (rule proof_carrier_delivery, simp only: prod.collapse)

text \<open>A send is accepted exactly when the session is open, the target is another role inside
  the table, the lane is the port's own, the payload fits a frame and the target's queue has room;
  then the message becomes the youngest entry of the target's queue alone and the task is woken.
  In every other case the send fails and no queue changes.\<close>

theorem proof_carrier_send:
  assumes "proof_queues_inv qs"
  shows "if ptx_session tx \<noteq> 0 \<and> out_target out \<noteq> ptx_role tx \<and> out_lane out = ptx_lane tx
      \<and> unat (out_target out) < 5 \<and> length (out_payload out) \<le> 128
      \<and> length (role_entries qs (out_target out)) < 24
    then \<exists>qs'. proof_poll_send qs tx out = (Ready (Inr ()), True, qs') \<and> proof_queues_inv qs'
      \<and> (\<forall>r. role_entries qs' r = role_entries qs r
           @ (if r = out_target out then [sent_entry (ptx_role tx) out] else []))
    else proof_poll_send qs tx out = (Ready (Inl Failed), False, qs)"
  using proof_poll_send_spec [OF assms, of tx out]
  unfolding send_accepted_def send_refused_def by (simp add: conj_assoc)

theorem proof_carrier_send_witness:
  "\<exists>qs'. proof_poll_send proof_queues_empty (fst (proof_open (session_port 0 1))) hello
      = (Ready (Inr ()), True, qs')
    \<and> role_entries qs' 2 = [sent_entry 0 hello]"
  using proof_carrier_send [OF proof_queues_empty_inv, of "fst (proof_open (session_port 0 1))" hello]
  by (auto simp: hello_def proof_open_def)

text \<open>Requeueing a received frame makes it the next one on its lane as long as the queue has
  room, whatever was queued in between; when the queue has filled up meanwhile the requeue still
  reports success, but the frame is gone.\<close>

theorem proof_carrier_requeue:
  assumes "proof_queues_inv qs" and "rx_holds rx e" and "unat (prx_role rx) < 5"
  shows "\<exists>rx' qs'. proof_requeue qs rx = (Inr (), rx', qs') \<and> proof_queues_inv qs'
    \<and> (if length (role_entries qs (prx_role rx)) < 24
       then extract_lane (le_lane e) (role_entries qs' (prx_role rx))
         = Some (e, role_entries qs (prx_role rx))
       else \<forall>r. role_entries qs' r = role_entries qs r)"
proof -
  from proof_requeue_spec [OF assms] obtain qs' where
    "proof_requeue qs rx = (Inr (), rx\<lparr>prx_label := None, prx_hint := None\<rparr>, qs')"
    "proof_queues_inv qs'"
    "\<forall>r. role_entries qs' r =
         (if r = prx_role rx \<and> length (role_entries qs r) < 24 then e # role_entries qs r
          else role_entries qs r)" by blast
  then show ?thesis by auto
qed

definition hello_rx :: proof_rx where
  "hello_rx = \<lparr>prx_role = 2, prx_session = 1, prx_lane = 1, prx_source = 0, prx_label = Some 151,
     prx_hint = Some 151, prx_len = 2, prx_bytes = [104, 105] @ replicate 126 0\<rparr>"

theorem proof_carrier_requeue_witness:
  "\<exists>rx' qs'. proof_requeue proof_queues_empty hello_rx = (Inr (), rx', qs')
    \<and> extract_lane 1 (role_entries qs' 2) = Some (sent_entry 0 hello, [])"
proof -
  have "rx_holds hello_rx (sent_entry 0 hello)"
    by (simp add: rx_holds_def proof_rx_ok_def hello_rx_def sent_entry_def hello_def)
  from proof_carrier_requeue [OF proof_queues_empty_inv this] show ?thesis
    by (auto simp: hello_rx_def sent_entry_def hello_def)
qed

end
