(* ===== verification/Stream_Codec.thy ===== *)
theory Stream_Codec
  imports Pico_Prelude
begin

text \<open>
  What a receiver that takes its input one unit at a time owes to a sender: fed the units of one
  message from rest, it yields exactly that message's frame and is at rest again. The UART parser
  (bytes) and the accumulator of the inter-core FIFO (32-bit words) both provide this contract.
\<close>

fun feed :: "('s \<Rightarrow> 'w \<Rightarrow> 'f option \<times> 's) \<Rightarrow> 's \<Rightarrow> 'w list \<Rightarrow> 'f list \<times> 's" where
  "feed push s [] = ([], s)"
| "feed push s (w # ws) =
     (case push s w of
        (None, s') \<Rightarrow> feed push s' ws
      | (Some f, s') \<Rightarrow> apfst (Cons f) (feed push s' ws))"

lemma apfst_append_Nil [simp]: "apfst (append []) x = x"
  by (cases x) simp

lemma apfst_append_append [simp]:
  "apfst (append gs) (apfst (append hs) x) = apfst (append (gs @ hs)) x"
  by (cases x) simp

lemma apfst_Cons_append: "apfst (Cons f) x = apfst (append [f]) x"
  by (cases x) simp

lemma feed_Cons:
  "feed push s (w # ws) = (case push s w of (f, s') \<Rightarrow>
     apfst (append (case f of None \<Rightarrow> [] | Some x \<Rightarrow> [x])) (feed push s' ws))"
  by (cases "push s w") (auto simp: apfst_Cons_append split: option.splits)

lemma feed_append:
  "feed push s (xs @ ys) = (case feed push s xs of (fs, s') \<Rightarrow> apfst (append fs) (feed push s' ys))"
  by (induction xs arbitrary: s)
    (simp_all add: feed_Cons del: feed.simps(2) split: prod.split)

locale stream_codec =
  fixes ok :: "'m \<Rightarrow> bool"
    and wire :: "'m \<Rightarrow> 'w list"
    and frame :: "'m \<Rightarrow> 'f"
    and push :: "'s \<Rightarrow> 'w \<Rightarrow> 'f option \<times> 's"
    and rest :: "'s \<Rightarrow> bool"
  assumes wire_feed: "rest s \<Longrightarrow> ok m \<Longrightarrow> \<exists>s'. rest s' \<and> feed push s (wire m) = ([frame m], s')"
begin

lemma stream_feed:
  assumes "rest s" and "\<forall>m \<in> set ms. ok m"
  shows "\<exists>s'. rest s' \<and> feed push s (concat (map wire ms)) = (map frame ms, s')"
  using assms
proof (induction ms arbitrary: s)
  case (Cons m ms)
  then obtain s1 where s1: "rest s1" "feed push s (wire m) = ([frame m], s1)"
    using wire_feed by (metis list.set_intros(1))
  from Cons.IH [OF s1(1)] Cons.prems(2) obtain s2 where
    "rest s2" "feed push s1 (concat (map wire ms)) = (map frame ms, s2)" by auto
  with s1 show ?case by (auto simp: feed_append)
qed simp

lemma stream_lossless:
  assumes "rest s" and "\<forall>m \<in> set ms. ok m" and "\<forall>m \<in> set ms'. ok m"
    and "inj_on frame {m. ok m}"
    and "fst (feed push s (concat (map wire ms))) = fst (feed push s (concat (map wire ms')))"
  shows "ms = ms'"
proof -
  have "map frame ms = map frame ms'"
    using stream_feed [OF assms(1,2)] stream_feed [OF assms(1,3)] assms(5) by auto
  moreover have "inj_on frame (set ms \<union> set ms')"
    using assms(2-4) by (auto intro: inj_on_subset)
  ultimately show ?thesis by (rule map_inj_on)
qed

end

end
