(* ===== verification/Uart_Frame.thy ===== *)
theory Uart_Frame
  imports Proof_Queue Stream_Codec
begin

text \<open>
  The framing of the Uno Q serial carrier in \<open>examples/uno-q-heterogeneous/src/lib.rs\<close>:
  \<open>encode_uart_frame\<close>, the byte-at-a-time parser \<open>UartFrameParser::push\<close> and the XOR
  checksum. The content of the parser is the prefix of the buffer below its length; a byte
  list is \<open>uart_framed\<close> when the parser would take it as one frame, whatever its checksum.
\<close>

section \<open>Frames, encoder and parser\<close>

definition UART_CARRIER_MAGIC :: bytes where
  "UART_CARRIER_MAGIC = [0x48, 0x42, 0x55, 0x31]"
definition UART_CARRIER_CHECK :: u8 where [simp]: "UART_CARRIER_CHECK = 0xa7"
definition UART_CARRIER_HEADER_BYTES :: nat where [simp]: "UART_CARRIER_HEADER_BYTES = 13"
definition UART_CARRIER_FRAME_BYTES :: nat where [simp]:
  "UART_CARRIER_FRAME_BYTES = UART_CARRIER_HEADER_BYTES + PROOF_CARRIER_FRAME_BYTES + 1"

record uart_carrier_frame =
  ucf_session_id :: u32
  ucf_lane :: u8
  ucf_source :: u8
  ucf_peer :: u8
  ucf_frame_label :: u8
  ucf_len :: nat
  ucf_bytes :: bytes

record uart_frame_parser =
  up_buffer :: bytes
  up_len :: nat

definition uart_parser_new :: uart_frame_parser where
  "uart_parser_new = \<lparr>up_buffer = replicate UART_CARRIER_FRAME_BYTES 0, up_len = 0\<rparr>"

definition uart_frame_checksum :: "bytes \<Rightarrow> u8" where
  "uart_frame_checksum bs = foldl (\<lambda>check byte. check XOR byte) UART_CARRIER_CHECK bs"

text \<open>\<open>xs[i..j]\<close>\<close>

definition slice :: "nat \<Rightarrow> nat \<Rightarrow> 'a list \<Rightarrow> 'a list" where
  "slice i j xs = take (j - i) (drop i xs)"

definition uart_parser_push ::
    "uart_frame_parser \<Rightarrow> u8 \<Rightarrow> uart_carrier_frame option \<times> uart_frame_parser" where
  "uart_parser_push p byte =
     (if up_len p < length UART_CARRIER_MAGIC \<and> byte \<noteq> UART_CARRIER_MAGIC ! up_len p
      then (None, p\<lparr>up_len := 0\<rparr>)
      else if up_len p = length (up_buffer p) then (None, p\<lparr>up_len := 0\<rparr>)
      else
        let buffer = (up_buffer p)[up_len p := byte];
            len = up_len p + 1;
            p = p\<lparr>up_buffer := buffer, up_len := len\<rparr>
        in
        if len < UART_CARRIER_HEADER_BYTES then (None, p)
        else
          let payload_len = unat (buffer ! 12) in
          if payload_len > PROOF_CARRIER_FRAME_BYTES then (None, p\<lparr>up_len := 0\<rparr>)
          else
            let total_len = UART_CARRIER_HEADER_BYTES + payload_len + 1 in
            if len < total_len then (None, p)
            else
              let p = p\<lparr>up_len := 0\<rparr>;
                  expected = uart_frame_checksum
                    (slice 4 (UART_CARRIER_HEADER_BYTES + payload_len) buffer)
              in
              if buffer ! (UART_CARRIER_HEADER_BYTES + payload_len) \<noteq> expected then (None, p)
              else
                (Some \<lparr>ucf_session_id =
                         of_le_bytes32 (buffer ! 4) (buffer ! 5) (buffer ! 6) (buffer ! 7),
                       ucf_lane = buffer ! 8, ucf_source = buffer ! 9, ucf_peer = buffer ! 10,
                       ucf_frame_label = buffer ! 11, ucf_len = payload_len,
                       ucf_bytes = blit 0
                         (slice UART_CARRIER_HEADER_BYTES
                            (UART_CARRIER_HEADER_BYTES + payload_len) buffer)
                         (replicate PROOF_CARRIER_FRAME_BYTES 0)\<rparr>, p))"

text \<open>The encoder writes into a buffer of 142 bytes and returns the length of the frame.\<close>

definition encode_uart_frame ::
    "bytes \<Rightarrow> u32 \<Rightarrow> u8 \<Rightarrow> u8 \<Rightarrow> u8 \<Rightarrow> u8 \<Rightarrow> bytes \<Rightarrow> nat transport_result \<times> bytes" where
  "encode_uart_frame out session_id lane source peer frame_label payload =
     (if length payload > PROOF_CARRIER_FRAME_BYTES then (Inl Failed, out)
      else
        let out = blit 0 UART_CARRIER_MAGIC out;
            out = blit 4 (le_bytes32 session_id) out;
            out = out[8 := lane, 9 := source, 10 := peer, 11 := frame_label,
                      12 := of_nat (length payload)];
            out = blit UART_CARRIER_HEADER_BYTES payload out;
            checksum = uart_frame_checksum
              (slice 4 (UART_CARRIER_HEADER_BYTES + length payload) out);
            out = out[UART_CARRIER_HEADER_BYTES + length payload := checksum]
        in (Inr (UART_CARRIER_HEADER_BYTES + length payload + 1), out))"

text \<open>The parser run over a stream: the frames it yields, oldest first.\<close>

fun uart_feed ::
    "uart_frame_parser \<Rightarrow> bytes \<Rightarrow> uart_carrier_frame list \<times> uart_frame_parser" where
  "uart_feed p [] = ([], p)"
| "uart_feed p (b # bs) =
     (case uart_parser_push p b of
        (None, p') \<Rightarrow> uart_feed p' bs
      | (Some f, p') \<Rightarrow> apfst (Cons f) (uart_feed p' bs))"

section \<open>Framed byte lists\<close>

definition uart_framed :: "bytes \<Rightarrow> bool" where
  "uart_framed w \<longleftrightarrow> 14 \<le> length w \<and> take 4 w = UART_CARRIER_MAGIC \<and> unat (w ! 12) \<le> 128
     \<and> length w = 14 + unat (w ! 12)"

definition uart_checked :: "bytes \<Rightarrow> bool" where
  "uart_checked w \<longleftrightarrow> last w = uart_frame_checksum (drop 4 (butlast w))"

definition uart_frame_of :: "bytes \<Rightarrow> uart_carrier_frame" where
  "uart_frame_of w = \<lparr>ucf_session_id = of_le_bytes32 (w ! 4) (w ! 5) (w ! 6) (w ! 7),
     ucf_lane = w ! 8, ucf_source = w ! 9, ucf_peer = w ! 10, ucf_frame_label = w ! 11,
     ucf_len = unat (w ! 12),
     ucf_bytes = blit 0 (drop 13 (butlast w)) (replicate 128 0)\<rparr>"

text \<open>The bytes of a frame as the encoder lays them out.\<close>

definition uart_body :: "u32 \<Rightarrow> u8 \<Rightarrow> u8 \<Rightarrow> u8 \<Rightarrow> u8 \<Rightarrow> bytes \<Rightarrow> bytes" where
  "uart_body session_id lane source peer frame_label payload =
     le_bytes32 session_id @ [lane, source, peer, frame_label, of_nat (length payload)] @ payload"

definition uart_bytes :: "u32 \<Rightarrow> u8 \<Rightarrow> u8 \<Rightarrow> u8 \<Rightarrow> u8 \<Rightarrow> bytes \<Rightarrow> bytes" where
  "uart_bytes session_id lane source peer frame_label payload =
     UART_CARRIER_MAGIC @ uart_body session_id lane source peer frame_label payload
       @ [uart_frame_checksum (uart_body session_id lane source peer frame_label payload)]"

definition uart_inv :: "uart_frame_parser \<Rightarrow> bool" where
  "uart_inv p \<longleftrightarrow> length (up_buffer p) = 142 \<and> up_len p < 142
     \<and> take (up_len p) (take 4 (up_buffer p)) = take (up_len p) UART_CARRIER_MAGIC
     \<and> (13 \<le> up_len p \<longrightarrow> unat (up_buffer p ! 12) \<le> 128
          \<and> up_len p < 14 + unat (up_buffer p ! 12))"

definition uart_content :: "uart_frame_parser \<Rightarrow> bytes" where
  "uart_content p = take (up_len p) (up_buffer p)"

lemma length_magic [simp]: "length UART_CARRIER_MAGIC = 4"
  by (simp add: UART_CARRIER_MAGIC_def)

lemma uart_new_inv [simp]: "uart_inv uart_parser_new"
  by (simp add: uart_inv_def uart_parser_new_def)

lemma take_Suc_update: "n < length xs \<Longrightarrow> take (Suc n) (xs[n := x]) = take n xs @ [x]"
  by (simp add: take_Suc_conv_app_nth)

lemma encode_uart_frame_bytes:
  assumes "length out = 142" "length payload \<le> 128"
  obtains out' where
    "encode_uart_frame out sid lane src peer lab payload = (Inr (14 + length payload), out')"
    "length out' = 142"
    "take (14 + length payload) out' = uart_bytes sid lane src peer lab payload"
proof -
  let ?n = "length payload"
  let ?body = "uart_body sid lane src peer lab payload"
  let ?h = "UART_CARRIER_MAGIC @ ?body"
  have lenh: "length ?h = 13 + ?n" by (simp add: uart_body_def)
  have len13: "length (drop 13 out) = 129" using assms by simp
  let ?o1 = "blit 4 (le_bytes32 sid) (blit 0 UART_CARRIER_MAGIC out)"
  let ?o2 = "?o1[8 := lane, 9 := src, 10 := peer, 11 := lab, 12 := of_nat ?n]"
  have o1: "?o1 = UART_CARRIER_MAGIC @ le_bytes32 sid @ drop 8 out"
    by (simp add: blit_def UART_CARRIER_MAGIC_def)
  have d8: "drop 8 out = [out ! 8, out ! 9, out ! 10, out ! 11, out ! 12] @ drop 13 out"
    using assms by (simp add: Cons_nth_drop_Suc [symmetric])
  have o2: "?o2 = UART_CARRIER_MAGIC @ le_bytes32 sid @ [lane, src, peer, lab, of_nat ?n]
      @ drop 13 out"
    unfolding o1 d8 by (simp add: UART_CARRIER_MAGIC_def le_bytes32_def)
  have o3: "blit 13 payload ?o2 = ?h @ drop (13 + ?n) out"
    unfolding o2
    using blit_append [of "UART_CARRIER_MAGIC @ le_bytes32 sid @ [lane, src, peer, lab, of_nat ?n]"
        13 payload "drop 13 out"]
    by (simp add: uart_body_def add.commute)
  obtain x xs where rest: "drop (13 + ?n) out = x # xs"
    using assms by (cases "drop (13 + ?n) out") auto
  have sl: "slice 4 (13 + ?n) (?h @ x # xs) = ?body"
    using lenh by (simp add: slice_def)
  have "encode_uart_frame out sid lane src peer lab payload = (Inr (14 + ?n),
      ?h @ uart_frame_checksum ?body # xs)"
    using assms lenh unfolding encode_uart_frame_def Let_def
    by (simp add: o3 [simplified] rest sl [simplified] list_update_append)
  moreover have "length (?h @ uart_frame_checksum ?body # xs) = 142"
    using lenh arg_cong [OF rest, of length] assms by simp
  moreover have "take (14 + ?n) (?h @ uart_frame_checksum ?body # xs)
      = uart_bytes sid lane src peer lab payload"
    using lenh by (simp add: uart_bytes_def)
  ultimately show thesis by (rule that)
qed

section \<open>The parser on framed input\<close>

lemma slice_drop_take: "slice i j xs = drop i (take j xs)"
  by (simp add: slice_def drop_take)

lemma take_eq_nth: "take n xs = take n ys \<Longrightarrow> i < n \<Longrightarrow> xs ! i = ys ! i"
  by (metis nth_take)

lemma uart_framedD:
  assumes "uart_framed w"
  shows "take 4 w = UART_CARRIER_MAGIC" "unat (w ! 12) \<le> 128" "length w = 14 + unat (w ! 12)"
    "\<And>i. i < 4 \<Longrightarrow> w ! i = UART_CARRIER_MAGIC ! i"
proof -
  fix i :: nat assume "i < 4"
  with assms show "w ! i = UART_CARRIER_MAGIC ! i"
    unfolding uart_framed_def by (metis nth_take)
qed (use assms in \<open>auto simp: uart_framed_def\<close>)

lemma uart_push_framed:
  assumes inv: "uart_inv p" and w: "uart_framed w" and k: "up_len p = k" "k < length w"
    and c: "take k (up_buffer p) = take k w"
  shows "if Suc k < length w
    then \<exists>p'. uart_parser_push p (w ! k) = (None, p') \<and> uart_inv p' \<and> up_len p' = Suc k
        \<and> take (Suc k) (up_buffer p') = take (Suc k) w
    else \<exists>p'. uart_parser_push p (w ! k)
          = (if uart_checked w then Some (uart_frame_of w) else None, p')
        \<and> uart_inv p' \<and> up_len p' = 0"
proof -
  note W = uart_framedD [OF w]
  let ?b = "(up_buffer p)[k := w ! k]"
  have len: "length (up_buffer p) = 142" "k < 142" using inv k(1) by (auto simp: uart_inv_def)
  have b: "take (Suc k) ?b = take (Suc k) w"
    using len k c by (simp add: take_Suc_update take_Suc_conv_app_nth)
  then have nth: "?b ! i = w ! i" if "i \<le> k" for i
    using take_eq_nth [OF b] that by simp
  have magic: "take (min 4 (Suc k)) ?b = take (Suc k) UART_CARRIER_MAGIC"
    using arg_cong [OF b, of "take 4"] W(1) by (metis take_take min.commute)
  have pre: "\<not> (k < length UART_CARRIER_MAGIC \<and> w ! k \<noteq> UART_CARRIER_MAGIC ! k)"
    using W(4) by simp
  show ?thesis
  proof (cases "Suc k < length w")
    case True
    let ?p = "p\<lparr>up_buffer := ?b, up_len := Suc k\<rparr>"
    have "uart_parser_push p (w ! k) = (None, ?p)"
    proof (cases "Suc k < 13")
      case False
      then have "?b ! 12 = w ! 12" by (intro nth) simp
      with False True W(2,3) pre len k(1) show ?thesis
        by (simp add: uart_parser_push_def Let_def)
    qed (use pre len k(1) in \<open>auto simp: uart_parser_push_def Let_def\<close>)
    moreover have "uart_inv ?p"
      unfolding uart_inv_def using len magic True W(2,3) nth [of 12]
      by (auto simp: min.commute)
    ultimately show ?thesis using True b by auto
  next
    case False
    then have kl: "Suc k = length w" using k(2) by simp
    then have k13: "k = 13 + unat (w ! 12)" using W(3) by simp
    have b12: "?b ! 12 = w ! 12" and bk: "?b ! k = w ! k" by (rule nth, simp add: k13)+
    have tk: "take k ?b = butlast w"
      using c by (simp add: butlast_conv_take kl [symmetric])
    have last: "w ! k = last w" using kl by (metis diff_Suc_1 last_conv_nth length_0_conv nat.simps(3))
    let ?p = "p\<lparr>up_buffer := ?b, up_len := 0\<rparr>"
    have ob: "up_buffer p ! i = w ! i" if "i \<le> 12" for i
      using take_eq_nth [OF c, of i] that k13 by simp
    have "uart_parser_push p (w ! k)
        = (if uart_checked w then Some (uart_frame_of w) else None, ?p)"
      using pre len k13 b12 bk W(2) tk last k(1)
      by (simp add: uart_parser_push_def Let_def slice_drop_take uart_checked_def
          uart_frame_of_def ob)
    moreover have "uart_inv ?p" using len by (simp add: uart_inv_def)
    ultimately show ?thesis using False by auto
  qed
qed

lemma uart_feed_Cons:
  "uart_feed p (b # bs) = (case uart_parser_push p b of (f, p') \<Rightarrow>
     apfst (append (case f of None \<Rightarrow> [] | Some x \<Rightarrow> [x])) (uart_feed p' bs))"
proof (cases "uart_parser_push p b")
  case (Pair f p')
  have "(#) x = (@) [x]" for x :: uart_carrier_frame by auto
  then show ?thesis by (cases f) (simp_all add: Pair)
qed

lemma uart_feed_framed_from:
  assumes "uart_inv p" "uart_framed w" "up_len p = k" "k < length w"
    and "take k (up_buffer p) = take k w"
  shows "\<exists>p'. uart_feed p (drop k w @ rest)
      = apfst (append (if uart_checked w then [uart_frame_of w] else [])) (uart_feed p' rest)
    \<and> uart_inv p' \<and> up_len p' = 0"
  using assms
proof (induction "length w - Suc k" arbitrary: k p)
  case 0
  then have d: "drop k w = [w ! k]" by (simp add: Cons_nth_drop_Suc [symmetric])
  from uart_push_framed [OF 0(2-6)] 0(1) obtain p' where
    "uart_parser_push p (w ! k) = (if uart_checked w then Some (uart_frame_of w) else None, p')"
    "uart_inv p'" "up_len p' = 0"
    by (auto split: if_splits)
  then show ?case by (intro exI [of _ p']) (simp add: d uart_feed_Cons)
next
  case (Suc d)
  from uart_push_framed [OF Suc(3-7)] Suc(2) obtain p' where
    p': "uart_parser_push p (w ! k) = (None, p')" "uart_inv p'" "up_len p' = Suc k"
      "take (Suc k) (up_buffer p') = take (Suc k) w"
    by (auto split: if_splits)
  have "drop k w = w ! k # drop (Suc k) w"
    using Suc.prems by (simp add: Cons_nth_drop_Suc)
  with Suc.hyps(1) [of "Suc k" p'] Suc.hyps(2) Suc.prems p' show ?case
    by auto
qed

lemma uart_feed_framed:
  assumes "uart_inv p" "up_len p = 0" "uart_framed w"
  shows "\<exists>p'. uart_feed p (w @ rest)
      = apfst (append (if uart_checked w then [uart_frame_of w] else [])) (uart_feed p' rest)
    \<and> uart_inv p' \<and> up_len p' = 0"
  using uart_feed_framed_from [OF assms(1,3,2)] assms(3) by (force simp: uart_framed_def)

lemma uart_bytes_framed:
  assumes "length payload \<le> 128" and w_def: "w = uart_bytes sid lane src peer lab payload"
  shows "uart_framed w" "uart_checked w" "length w = 14 + length payload"
    "uart_frame_of w = \<lparr>ucf_session_id = sid, ucf_lane = lane, ucf_source = src, ucf_peer = peer,
       ucf_frame_label = lab, ucf_len = length payload,
       ucf_bytes = blit 0 payload (replicate 128 0)\<rparr>"
proof -
  have w: "w = [0x48, 0x42, 0x55, 0x31] @ le_bytes32 sid
      @ [lane, src, peer, lab, of_nat (length payload)] @ payload
      @ [uart_frame_checksum (uart_body sid lane src peer lab payload)]"
    by (simp add: w_def uart_bytes_def uart_body_def UART_CARRIER_MAGIC_def)
  have n: "unat (of_nat (length payload) :: u8) = length payload" using assms(1) by simp
  show "length w = 14 + length payload" by (simp add: w)
  then show "uart_framed w"
    using assms(1) n by (simp add: uart_framed_def w UART_CARRIER_MAGIC_def le_bytes32_def)
  show "uart_checked w"
    by (simp add: uart_checked_def w uart_body_def butlast_append)
  show "uart_frame_of w = \<lparr>ucf_session_id = sid, ucf_lane = lane, ucf_source = src,
      ucf_peer = peer, ucf_frame_label = lab, ucf_len = length payload,
      ucf_bytes = blit 0 payload (replicate 128 0)\<rparr>"
    using n by (simp add: uart_frame_of_def w le_bytes32_def butlast_append)
qed

section \<open>Invariant and soundness of the parser\<close>

lemma uart_inv_reset: "uart_inv p \<Longrightarrow> uart_inv (p\<lparr>up_len := 0\<rparr>)"
  by (simp add: uart_inv_def)

text \<open>
  Every push keeps the invariant, and a frame comes out only when the content followed by the
  pushed byte is a framed byte list whose checksum matches.
\<close>

lemma uart_push_sound:
  assumes inv: "uart_inv p"
  shows "uart_inv (snd (uart_parser_push p b))
    \<and> (case fst (uart_parser_push p b) of
         None \<Rightarrow> up_len (snd (uart_parser_push p b)) = 0
           \<or> uart_content (snd (uart_parser_push p b)) = uart_content p @ [b]
       | Some f \<Rightarrow> up_len (snd (uart_parser_push p b)) = 0
           \<and> uart_framed (uart_content p @ [b]) \<and> uart_checked (uart_content p @ [b])
           \<and> f = uart_frame_of (uart_content p @ [b]))"
proof -
  let ?k = "up_len p" and ?b = "(up_buffer p)[up_len p := b]"
  let ?w = "uart_content p @ [b]"
  have I: "length (up_buffer p) = 142" "?k < 142"
    "take ?k (take 4 (up_buffer p)) = take ?k UART_CARRIER_MAGIC"
    "13 \<le> ?k \<Longrightarrow> unat (up_buffer p ! 12) \<le> 128"
    "13 \<le> ?k \<Longrightarrow> ?k < 14 + unat (up_buffer p ! 12)"
    using inv by (auto simp: uart_inv_def)
  have w: "take (Suc ?k) ?b = ?w" and lw: "length ?w = Suc ?k"
    using I(1,2) by (simp_all add: take_Suc_update uart_content_def)
  have nth: "?b ! i = ?w ! i" if "i \<le> ?k" for i
    using w that by (metis le_imp_less_Suc nth_take)
  show ?thesis
  proof (cases "?k < 4 \<and> b \<noteq> UART_CARRIER_MAGIC ! ?k")
    case True
    with inv show ?thesis by (simp add: uart_parser_push_def uart_inv_reset)
  next
    case False
    have magic: "take (Suc ?k) (take 4 ?b) = take (Suc ?k) UART_CARRIER_MAGIC"
    proof (cases "?k < 4")
      case True
      then have "take ?k (up_buffer p) = take ?k UART_CARRIER_MAGIC"
        using I(3) by (simp add: min_def)
      with True False I(1) show ?thesis
        by (simp add: min_def take_Suc_update take_Suc_conv_app_nth [of ?k UART_CARRIER_MAGIC])
    qed (use I(3) in \<open>auto simp: min_def take_update_cancel split: if_splits\<close>)
    show ?thesis
    proof (cases "Suc ?k < 13")
      case True
      with False I magic show ?thesis
        by (auto simp: uart_parser_push_def uart_inv_def uart_content_def take_Suc_update Let_def)
    next
      case k13: False
      then have b12: "?b ! 12 = ?w ! 12" by (intro nth) simp
      show ?thesis
      proof (cases "unat (?b ! 12) > 128")
        case True
        with False I k13 show ?thesis
          by (auto simp: uart_parser_push_def uart_inv_def Let_def)
      next
        case len: False
        show ?thesis
        proof (cases "Suc ?k < 14 + unat (?b ! 12)")
          case True
          with False I magic k13 len show ?thesis
            by (auto simp: uart_parser_push_def uart_inv_def uart_content_def take_Suc_update
                Let_def)
        next
          case fin: False
          have bound: "Suc ?k \<le> 14 + unat (?b ! 12)"
          proof (cases "13 \<le> ?k")
            case True
            then have "?b ! 12 = up_buffer p ! 12" by simp
            with I(5) [OF True] show ?thesis by simp
          qed simp
          with fin have full: "?k = 13 + unat (?b ! 12)" by linarith
          have "take 4 ?w = take 4 ?b" unfolding w [symmetric] using full by (simp add: min_def)
          also have "\<dots> = take (Suc ?k) (take 4 ?b)" using full by (simp add: min_def)
          also have "\<dots> = UART_CARRIER_MAGIC" unfolding magic using full by simp
          finally have t4: "take 4 ?w = UART_CARRIER_MAGIC" .
          have n: "?k = 13 + unat (?w ! 12)" using full unfolding b12 .
          have n2: "unat (?w ! 12) \<le> 128" using len unfolding b12 by (rule leI)
          have framed: "uart_framed ?w"
            unfolding uart_framed_def by (intro conjI t4 n2) (use n lw in linarith)+
          have lc: "length (uart_content p) = ?k" using lw by simp
          then have wk: "?w ! ?k = b" by (metis nth_append_length)
          have c: "take ?k (up_buffer p) = take ?k ?w"
            using lc by (simp add: uart_content_def)
          have lt: "?k < length ?w" and nl: "(Suc ?k < length ?w) = False" using lw by simp_all
          from uart_push_framed [OF inv framed refl lt c]
          obtain p' where p': "uart_parser_push p b
              = (if uart_checked ?w then Some (uart_frame_of ?w) else None, p')"
            "uart_inv p'" "up_len p' = 0"
            unfolding wk nl if_False by blast
          show ?thesis
            by (cases "uart_checked ?w") (simp_all only: p' framed if_True if_False fst_conv
                snd_conv option.case simp_thms)
        qed
      qed
    qed
  qed
qed

lemma uart_feed_inv: "uart_inv p \<Longrightarrow> uart_inv (snd (uart_feed p bs))"
proof (induction bs arbitrary: p)
  case (Cons b bs)
  then show ?case
    using uart_push_sound [OF Cons.prems, of b, THEN conjunct1]
    by (cases "uart_parser_push p b") (auto split: option.splits)
qed simp

lemma uart_feed_sound:
  assumes "uart_inv p" and "f \<in> set (fst (uart_feed p bs))"
  shows "\<exists>pre w post. uart_content p @ bs = pre @ w @ post \<and> uart_framed w \<and> uart_checked w
    \<and> f = uart_frame_of w"
  using assms
proof (induction bs arbitrary: p)
  case (Cons b bs)
  obtain o1 p' where push: "uart_parser_push p b = (o1, p')" by (cases "uart_parser_push p b")
  from uart_push_sound [OF Cons.prems(1), of b] push have inv': "uart_inv p'" by simp
  show ?case
  proof (cases "o1 = Some f")
    case True
    with uart_push_sound [OF Cons.prems(1), of b] push
    have "uart_framed (uart_content p @ [b])" "uart_checked (uart_content p @ [b])"
      "f = uart_frame_of (uart_content p @ [b])" by auto
    then show ?thesis
      by (intro exI [of _ "[]"] exI [of _ "uart_content p @ [b]"] exI [of _ bs]) simp
  next
    case False
    with Cons.prems(2) push have "f \<in> set (fst (uart_feed p' bs))"
      by (auto simp: uart_feed_Cons split: option.splits)
    from Cons.IH [OF inv' this] obtain pre w post where
      w: "uart_content p' @ bs = pre @ w @ post" "uart_framed w" "uart_checked w"
        "f = uart_frame_of w" by blast
    have "up_len p' = 0 \<or> uart_content p' = uart_content p @ [b]"
      using uart_push_sound [OF Cons.prems(1), of b] push by (auto split: option.splits)
    then have "\<exists>pre. uart_content p @ b # bs = pre @ w @ post"
    proof
      assume "up_len p' = 0"
      then have "bs = pre @ w @ post" using w(1) by (simp add: uart_content_def)
      then show ?thesis by (intro exI [of _ "uart_content p @ b # pre"]) simp
    next
      assume "uart_content p' = uart_content p @ [b]"
      then show ?thesis using w(1) by (intro exI [of _ pre]) simp
    qed
    with w show ?thesis by blast
  qed
qed simp

section \<open>Checksum\<close>

lemma foldl_xor_shift:
  "foldl (\<lambda>c b. c XOR b) (a XOR d) bs = foldl (\<lambda>c b. c XOR b) a bs XOR (d :: u8)"
proof (induction bs arbitrary: a)
  case (Cons b bs)
  have "(a XOR d) XOR b = (a XOR b) XOR d" by (simp only: xor.assoc xor.commute [of d b])
  then show ?case using Cons.IH [of "a XOR b"] by (simp only: foldl.simps)
qed simp

lemma checksum_middle:
  "uart_frame_checksum (xs @ x # ys) = uart_frame_checksum (xs @ ys) XOR x"
  by (simp add: uart_frame_checksum_def foldl_xor_shift)

lemma checksum_update:
  assumes "i < length bs" and "b \<noteq> bs ! i"
  shows "uart_frame_checksum (bs[i := b]) \<noteq> uart_frame_checksum bs"
  using assms checksum_middle [of "take i bs" b "drop (Suc i) bs"]
    checksum_middle [of "take i bs" "bs ! i" "drop (Suc i) bs"]
  by (auto simp: upd_conv_take_nth_drop id_take_nth_drop [symmetric] xor_cancel_word)

lemma framed_update:
  assumes "uart_framed w" "4 \<le> j" "j < length w" "j \<noteq> 12"
  shows "uart_framed (w[j := b])"
  using assms by (simp add: uart_framed_def)

lemma checked_update:
  assumes w: "uart_framed w" "uart_checked w" and j: "4 \<le> j" "j < length w" and b: "b \<noteq> w ! j"
  shows "\<not> uart_checked (w[j := b])"
proof (cases "j = length w - 1")
  case True
  have "w \<noteq> []" using w(1) by (auto simp: uart_framed_def)
  then have "butlast (w[j := b]) = butlast w" "last (w[j := b]) = b" "last w = w ! j"
    using True by (simp_all add: butlast_list_update last_list_update last_conv_nth)
  with w(2) b show ?thesis by (auto simp: uart_checked_def)
next
  case False
  then have lt: "j - 4 < length (drop 4 (butlast w))" using j by auto
  have "w \<noteq> []" using j by auto
  have "butlast (w[j := b]) = (butlast w)[j := b]" "last (w[j := b]) = last w"
    using False \<open>w \<noteq> []\<close> by (simp_all add: butlast_list_update last_list_update)
  moreover have "drop 4 ((butlast w)[j := b]) = (drop 4 (butlast w))[j - 4 := b]"
    using j by (simp add: drop_update_swap)
  moreover have "uart_frame_checksum ((drop 4 (butlast w))[j - 4 := b])
      \<noteq> uart_frame_checksum (drop 4 (butlast w))"
    using lt j b False by (intro checksum_update) (simp_all add: nth_butlast)
  ultimately show ?thesis using w(2) by (simp add: uart_checked_def)
qed

section \<open>Properties\<close>

type_synonym uart_message = "u32 \<times> u8 \<times> u8 \<times> u8 \<times> u8 \<times> bytes"

text \<open>The bytes a sender puts on the line for one message: the prefix of its zeroed
  142-byte buffer that the encoder reports, as in \<open>poll_send\<close>.\<close>

definition uart_wire :: "uart_message \<Rightarrow> bytes" where
  "uart_wire m = (case m of (sid, lane, src, peer, lab, payload) \<Rightarrow>
     (case encode_uart_frame (replicate UART_CARRIER_FRAME_BYTES 0) sid lane src peer lab payload of
        (Inl _, _) \<Rightarrow> []
      | (Inr n, out) \<Rightarrow> take n out))"

definition uart_message_ok :: "uart_message \<Rightarrow> bool" where
  "uart_message_ok m = (case m of (_, _, _, _, _, payload) \<Rightarrow>
     length payload \<le> PROOF_CARRIER_FRAME_BYTES)"

definition uart_message_frame :: "uart_message \<Rightarrow> uart_carrier_frame" where
  "uart_message_frame m = (case m of (sid, lane, src, peer, lab, payload) \<Rightarrow>
     \<lparr>ucf_session_id = sid, ucf_lane = lane, ucf_source = src, ucf_peer = peer,
      ucf_frame_label = lab, ucf_len = length payload,
      ucf_bytes = blit 0 payload (replicate PROOF_CARRIER_FRAME_BYTES 0)\<rparr>)"

lemma uart_wire_bytes:
  assumes "length payload \<le> 128"
  shows "uart_wire (sid, lane, src, peer, lab, payload) = uart_bytes sid lane src peer lab payload"
proof -
  have "length (replicate 142 0 :: bytes) = 142" by simp
  from encode_uart_frame_bytes [OF this assms, of sid lane src peer lab]
  obtain out' where
    "encode_uart_frame (replicate 142 0) sid lane src peer lab payload
      = (Inr (14 + length payload), out')"
    "take (14 + length payload) out' = uart_bytes sid lane src peer lab payload"
    by blast
  then show ?thesis by (simp add: uart_wire_def)
qed

lemma uart_wire_framed:
  assumes "uart_message_ok m"
  shows "uart_framed (uart_wire m)" "uart_checked (uart_wire m)"
    "uart_frame_of (uart_wire m) = uart_message_frame m"
proof -
  obtain sid lane src peer lab payload where m: "m = (sid, lane, src, peer, lab, payload)"
    by (cases m) auto
  have len: "length payload \<le> 128" using assms by (simp add: m uart_message_ok_def)
  from uart_bytes_framed [OF len uart_wire_bytes [OF len, of sid lane src peer lab]]
  show "uart_framed (uart_wire m)" "uart_checked (uart_wire m)"
    "uart_frame_of (uart_wire m) = uart_message_frame m"
    by (simp_all add: m uart_message_frame_def)
qed

lemma uart_feed_eq: "uart_feed p bs = feed uart_parser_push p bs"
  by (induction p bs rule: uart_feed.induct) (auto split: prod.split option.split)

interpretation uart_codec: stream_codec uart_message_ok uart_wire uart_message_frame
  uart_parser_push "\<lambda>p. uart_inv p \<and> up_len p = 0"
proof (unfold_locales, goal_cases)
  case (1 p m)
  from uart_feed_framed [OF _ _ uart_wire_framed(1) [OF 1(2)], of p "[]"] 1
  show ?case using uart_wire_framed [OF 1(2)] by (auto simp: uart_feed_eq)
qed

lemma uart_feed_messages:
  assumes "\<forall>m \<in> set ms. uart_message_ok m" "uart_inv p" "up_len p = 0"
  shows "fst (uart_feed p (concat (map uart_wire ms))) = map uart_message_frame ms"
  using uart_codec.stream_feed [of p ms] assms by (auto simp: uart_feed_eq)

lemma uart_feed_append:
  "uart_feed p (xs @ ys) = (case uart_feed p xs of (fs, p') \<Rightarrow>
     apfst (append fs) (uart_feed p' ys))"
proof (induction xs arbitrary: p)
  case (Cons b bs)
  then show ?case by (simp add: uart_feed_Cons del: uart_feed.simps(2) split: prod.split)
qed simp

lemma uart_feed_messages_idle:
  assumes "\<forall>m \<in> set ms. uart_message_ok m" "uart_inv p" "up_len p = 0"
  shows "uart_inv (snd (uart_feed p (concat (map uart_wire ms))))
    \<and> up_len (snd (uart_feed p (concat (map uart_wire ms)))) = 0"
  using uart_codec.stream_feed [of p ms] assms by (auto simp: uart_feed_eq)

text \<open>Outside a frame every byte other than the first magic byte is skipped.\<close>

lemma uart_feed_noise:
  assumes "uart_inv p" "up_len p = 0" "0x48 \<notin> set noise"
  shows "uart_feed p (noise @ rest) = uart_feed p rest"
  using assms
proof (induction noise)
  case (Cons b bs)
  then have "uart_parser_push p b = (None, p\<lparr>up_len := 0\<rparr>)"
    by (auto simp: uart_parser_push_def UART_CARRIER_MAGIC_def)
  moreover have "p\<lparr>up_len := 0\<rparr> = p" using Cons.prems(2) by simp
  ultimately show ?case using Cons by (simp add: uart_feed_Cons)
qed simp

lemma uart_push_stray_magic:
  assumes "uart_inv p" "up_len p = 0"
  shows "uart_parser_push p 0x48 = (None, p\<lparr>up_buffer := (up_buffer p)[0 := 0x48], up_len := 1\<rparr>)"
    and "uart_parser_push (p\<lparr>up_buffer := xs, up_len := 1\<rparr>) 0x48
      = (None, p\<lparr>up_buffer := xs, up_len := 0\<rparr>)"
  using assms by (simp_all add: uart_parser_push_def UART_CARRIER_MAGIC_def uart_inv_def Let_def)

definition uart_sample :: uart_message where
  "uart_sample = (0x12345678, 2, 1, 0, 7, [10, 20, 30])"

lemma uart_message_ok_sample: "uart_message_ok uart_sample"
  by (simp add: uart_message_ok_def uart_sample_def)

lemma uart_sample_wire:
  "uart_wire uart_sample = [0x48, 0x42, 0x55, 0x31, 0x78, 0x56, 0x34, 0x12, 2, 1, 0, 7, 3,
     10, 20, 30, 0xa8]"
  by (simp add: uart_sample_def uart_wire_bytes uart_bytes_def uart_body_def le_bytes32_def
      UART_CARRIER_MAGIC_def uart_frame_checksum_def)

text \<open>C2: any sequence of messages whose payloads fit a carrier frame, encoded one after the
  other on the serial line, is decoded by the parser to exactly those messages in order: session,
  lane, source, peer, label and payload are preserved and no frame is lost, added or split.\<close>

theorem uart_stream_roundtrip:
  assumes "\<forall>m \<in> set ms. uart_message_ok m"
  shows "fst (uart_feed uart_parser_new (concat (map uart_wire ms))) = map uart_message_frame ms"
  by (rule uart_feed_messages [OF assms]) (simp_all add: uart_parser_new_def uart_inv_def)

theorem uart_stream_roundtrip_witness:
  "fst (uart_feed uart_parser_new (concat (map uart_wire [uart_sample, uart_sample])))
    = [uart_message_frame uart_sample, uart_message_frame uart_sample]"
  by (subst uart_stream_roundtrip) (simp_all add: uart_message_ok_def uart_sample_def)

text \<open>On any byte stream whatever the parser emits a frame only for a contiguous part of the
  stream that starts with the magic, has the length its length byte announces (at most 128 bytes of
  payload) and carries the right checksum; the frame holds the fields of exactly that part.\<close>

theorem uart_parser_sound:
  assumes "f \<in> set (fst (uart_feed uart_parser_new bs))"
  shows "\<exists>pre w post. bs = pre @ w @ post \<and> uart_framed w \<and> uart_checked w \<and> f = uart_frame_of w"
  using uart_feed_sound [OF uart_new_inv assms] by (simp add: uart_content_def uart_parser_new_def)

theorem uart_parser_sound_witness:
  "\<exists>pre w post. uart_wire uart_sample = pre @ w @ post \<and> uart_framed w \<and> uart_checked w
    \<and> uart_message_frame uart_sample = uart_frame_of w"
proof (rule uart_parser_sound)
  have "fst (uart_feed uart_parser_new (concat (map uart_wire [uart_sample])))
      = [uart_message_frame uart_sample]"
    using uart_feed_messages [of "[uart_sample]" uart_parser_new]
    by (simp add: uart_message_ok_def uart_sample_def uart_parser_new_def uart_inv_def)
  then show "uart_message_frame uart_sample
      \<in> set (fst (uart_feed uart_parser_new (uart_wire uart_sample)))" by simp
qed

text \<open>C15: a message with one damaged byte after the magic and other than the length byte is
  dropped, and only that message is: the messages before and after it on the line are all decoded,
  so the parser is in step again at the very next frame. Damage to the four magic bytes and to the
  length byte is not covered; with a wrong length the parser can take the next frame for payload.\<close>

theorem uart_corruption_contained:
  assumes "\<forall>m \<in> set (ms @ m # ms'). uart_message_ok m"
    and "4 \<le> j" "j < length (uart_wire m)" "j \<noteq> 12" "b \<noteq> uart_wire m ! j"
  shows "fst (uart_feed uart_parser_new
      (concat (map uart_wire ms) @ (uart_wire m)[j := b] @ concat (map uart_wire ms')))
    = map uart_message_frame ms @ map uart_message_frame ms'"
proof -
  let ?w = "(uart_wire m)[j := b]" and ?rest = "concat (map uart_wire ms')"
  have new: "uart_inv uart_parser_new" "up_len uart_parser_new = 0"
    by (simp_all add: uart_parser_new_def uart_inv_def)
  have ok: "\<forall>m \<in> set ms. uart_message_ok m" "uart_message_ok m" "\<forall>m \<in> set ms'. uart_message_ok m"
    using assms(1) by auto
  obtain p where p: "uart_feed uart_parser_new (concat (map uart_wire ms))
      = (map uart_message_frame ms, p)" "uart_inv p" "up_len p = 0"
    using uart_feed_messages [OF ok(1) new] uart_feed_messages_idle [OF ok(1) new]
    by (metis prod.collapse)
  have w: "uart_framed ?w" "\<not> uart_checked ?w"
    using framed_update checked_update uart_wire_framed(1,2) [OF ok(2)] assms(2-5) by blast+
  then obtain q where q: "uart_feed p (?w @ ?rest) = uart_feed q ?rest" "uart_inv q" "up_len q = 0"
    using uart_feed_framed [OF p(2,3) w(1), of ?rest] by auto
  show ?thesis
    using p q uart_feed_messages [OF ok(3) q(2,3)]
    by (simp add: uart_feed_append [of _ "concat (map uart_wire ms)"])
qed

theorem uart_corruption_contained_witness:
  "fst (uart_feed uart_parser_new
      (uart_wire uart_sample @ (uart_wire uart_sample)[13 := 11] @ uart_wire uart_sample))
    = [uart_message_frame uart_sample, uart_message_frame uart_sample]"
  using uart_corruption_contained [of "[uart_sample]" uart_sample "[uart_sample]" 13 11]
  by (simp add: uart_message_ok_sample uart_sample_wire)

text \<open>Line noise that contains no first magic byte is skipped without effect, but a single
  stray first magic byte right before a frame makes the parser lose that frame (when no further
  such byte occurs in it): the byte that breaks the match is dropped without being tried as the
  start of a new magic.\<close>

theorem uart_noise_and_stray_magic:
  assumes "\<forall>m \<in> set ms. uart_message_ok m" and "0x48 \<notin> set noise"
    and "uart_message_ok m" "0x48 \<notin> set (tl (uart_wire m))"
  shows "fst (uart_feed uart_parser_new (noise @ concat (map uart_wire ms)))
      = map uart_message_frame ms
    \<and> fst (uart_feed uart_parser_new (0x48 # uart_wire m)) = []"
proof -
  have new: "uart_inv uart_parser_new" "up_len uart_parser_new = 0"
    by (simp_all add: uart_parser_new_def uart_inv_def)
  have noise: "fst (uart_feed uart_parser_new (noise @ concat (map uart_wire ms)))
      = map uart_message_frame ms"
    using uart_feed_noise [OF new assms(2)] uart_feed_messages [OF assms(1) new] by simp
  have "uart_framed (uart_wire m)" by (rule uart_wire_framed [OF assms(3)])
  from uart_framedD(3) [OF this] uart_framedD(4) [OF this, of 0] have "uart_wire m ! 0 = 0x48" "0 < length (uart_wire m)"
    by (simp_all add: UART_CARRIER_MAGIC_def)
  then obtain ws where w: "uart_wire m = 0x48 # ws" by (cases "uart_wire m") auto
  let ?p = "uart_parser_new\<lparr>up_buffer := (up_buffer uart_parser_new)[0 := 0x48], up_len := 0\<rparr>"
  have "uart_feed uart_parser_new (0x48 # 0x48 # ws) = uart_feed ?p ws"
    using uart_push_stray_magic [OF new] new(2) by simp
  moreover have "uart_inv ?p" "up_len ?p = 0"
    using new by (simp_all add: uart_inv_def)
  then have "uart_feed ?p (ws @ []) = uart_feed ?p []"
    using assms(4) by (intro uart_feed_noise) (simp_all add: w)
  ultimately show ?thesis
    using noise by (simp add: w)
qed

theorem uart_noise_and_stray_magic_witness:
  "fst (uart_feed uart_parser_new ([1, 2, 3] @ uart_wire uart_sample))
      = [uart_message_frame uart_sample]
    \<and> fst (uart_feed uart_parser_new (0x48 # uart_wire uart_sample)) = []"
  using uart_noise_and_stray_magic [of "[uart_sample]" "[1, 2, 3]" uart_sample]
  by (simp add: uart_message_ok_sample uart_sample_wire)

end
