(* ===== verification/Uno_Carrier.thy ===== *)
theory Uno_Carrier
  imports Proof_Carrier Uart_Frame Wire_Protocol
begin

text \<open>
  The two serial carriers of \<open>examples/uno-q-heterogeneous/src/lib.rs\<close>. \<open>UnoQUartCarrier\<close>
  runs on the M33: it drains the UART byte by byte into the frame parser and the role queues.
  \<open>HardwarePeerCarrier\<close> runs on the host: it delivers among the host roles through shared
  queues and reaches the M33 role over the serial device.

  The hardware is a parameter: the results of the successive calls of
  \<open>uno_q_m33_carrier_read\<close> are a list, the timer a function from the number of reads
  to the ticks read, and the calls that only tell the board something are recorded in a log.
  A drain that has not yet seen a negative read has no result. On the host the outcome of each
  device call is an argument; sleeps and trace output are left out, and the mutexes are never
  poisoned because nothing that holds one can panic.
\<close>

section \<open>The M33 carrier: state\<close>

datatype uno_event =
  Ev_Board_Poll
| Ev_Write u8
| Ev_Open u8 u8 u32
| Ev_Parsed u32 u8 u8 u8 u8
| Ev_Reject u8 u32 u32 u8 u8 u8 u8
| Ev_Frame u8 u8 u8 u8
| Ev_Payload u8 u8 u8 u8
| Ev_Tx u8 u8 u8
| Ev_Deadline u8 u8 u8 u32

record uno_carrier =
  uq_queues :: proof_queues
  uq_parser :: uart_frame_parser
  uq_reads :: "i16 list"
  uq_clock :: "nat \<Rightarrow> u32"
  uq_ticks :: nat
  uq_log :: "uno_event list"

record uart_tx = proof_tx +
  utx_deadline :: u32

record uart_rx = proof_rx +
  urx_deadline :: u32

definition UNO_Q_M33_UART_OPERATIONAL_DEADLINE_TICKS :: u32 where [simp]:
  "UNO_Q_M33_UART_OPERATIONAL_DEADLINE_TICKS = 1000000000"

definition uno_carrier_new :: "i16 list \<Rightarrow> (nat \<Rightarrow> u32) \<Rightarrow> uno_carrier" where
  "uno_carrier_new reads clock =
     \<lparr>uq_queues = proof_queues_empty, uq_parser = uart_parser_new, uq_reads = reads,
      uq_clock = clock, uq_ticks = 0, uq_log = []\<rparr>"

definition emit :: "uno_event \<Rightarrow> uno_carrier \<Rightarrow> uno_carrier" where
  "emit ev c = c\<lparr>uq_log := uq_log c @ [ev]\<rparr>"

definition service_board :: "uno_carrier \<Rightarrow> uno_carrier" where
  "service_board c = emit Ev_Board_Poll c"

definition timer_ticks :: "uno_carrier \<Rightarrow> u32 \<times> uno_carrier" where
  "timer_ticks c = (uq_clock c (uq_ticks c), c\<lparr>uq_ticks := uq_ticks c + 1\<rparr>)"

definition deadline_elapsed :: "u32 \<Rightarrow> uno_carrier \<Rightarrow> u32 option \<times> uno_carrier" where
  "deadline_elapsed start_ticks c =
     (case timer_ticks c of (ticks, c) \<Rightarrow>
        let elapsed = ticks - start_ticks in
        (if elapsed \<ge> UNO_Q_M33_UART_OPERATIONAL_DEADLINE_TICKS then Some elapsed else None, c))"

section \<open>Draining the UART\<close>

definition reject_reason :: "u32 \<Rightarrow> uart_carrier_frame \<Rightarrow> u8 option" where
  "reject_reason session_id frame =
     (if ucf_session_id frame \<noteq> session_id then Some 1
      else if unat (ucf_peer frame) \<ge> PROOF_CARRIER_ROLES then Some 2
      else if unat (ucf_source frame) \<ge> PROOF_CARRIER_ROLES then Some 3
      else if ucf_source frame = ucf_peer frame then Some 4
      else None)"

definition uart_enqueue ::
    "proof_queues \<Rightarrow> uart_carrier_frame \<Rightarrow> unit transport_result \<times> proof_queues" where
  "uart_enqueue qs frame =
     (case pq_push_back (qs ! unat (ucf_peer frame)) (ucf_lane frame) (ucf_source frame)
             (ucf_frame_label frame) (take (ucf_len frame) (ucf_bytes frame)) of
        (r, q) \<Rightarrow> (r, qs[unat (ucf_peer frame) := q]))"

definition uart_receive :: "u32 \<Rightarrow> u8 \<Rightarrow> uno_carrier \<Rightarrow> uno_carrier" where
  "uart_receive session_id byte c =
     (case uart_parser_push (uq_parser c) byte of
        (None, p) \<Rightarrow> c\<lparr>uq_parser := p\<rparr>
      | (Some frame, p) \<Rightarrow>
          let c = emit (Ev_Parsed (ucf_session_id frame) (ucf_source frame) (ucf_peer frame)
                    (ucf_frame_label frame) (of_nat (ucf_len frame))) (c\<lparr>uq_parser := p\<rparr>) in
          (case reject_reason session_id frame of
             Some reason \<Rightarrow>
               emit (Ev_Reject reason session_id (ucf_session_id frame) (ucf_source frame)
                 (ucf_peer frame) (ucf_frame_label frame) (of_nat (ucf_len frame))) c
           | None \<Rightarrow>
               let c = emit (Ev_Frame (ucf_source frame) (ucf_peer frame) (ucf_frame_label frame)
                         (of_nat (ucf_len frame))) c in
               c\<lparr>uq_queues := snd (uart_enqueue (uq_queues c) frame)\<rparr>))"

fun drain_reads :: "u32 \<Rightarrow> i16 list \<Rightarrow> uno_carrier \<Rightarrow> uno_carrier option" where
  "drain_reads session_id [] c = None"
| "drain_reads session_id (b # bs) c =
     (let c = service_board c in
      if sint b < 0 then Some (c\<lparr>uq_reads := bs\<rparr>)
      else drain_reads session_id bs (uart_receive session_id (ucast b) c))"

definition drain_uart :: "u32 \<Rightarrow> uno_carrier \<Rightarrow> uno_carrier option" where
  "drain_uart session_id c = drain_reads session_id (uq_reads c) c"

section \<open>The transport operations\<close>

definition uno_open :: "port_open \<Rightarrow> uno_carrier \<Rightarrow> (uart_tx \<times> uart_rx) \<times> uno_carrier" where
  "uno_open port c =
     (case timer_ticks c of (start, c) \<Rightarrow>
        let c = emit (Ev_Open (port_role port) (port_lane port) (port_session port)) c in
        ((\<lparr>ptx_role = port_role port, ptx_session = port_session port, ptx_lane = port_lane port,
           utx_deadline = start\<rparr>,
          \<lparr>prx_role = port_role port, prx_session = port_session port, prx_lane = port_lane port,
           prx_source = 0, prx_label = None, prx_hint = None, prx_len = 0,
           prx_bytes = replicate PROOF_CARRIER_FRAME_BYTES 0, urx_deadline = start\<rparr>), c))"

text \<open>The byte loop of a send; \<open>False\<close> when the deadline passed.\<close>

fun uart_write_bytes :: "uart_tx \<Rightarrow> bytes \<Rightarrow> uno_carrier \<Rightarrow> bool \<times> uno_carrier" where
  "uart_write_bytes tx [] c = (True, c)"
| "uart_write_bytes tx (byte # bs) c =
     (case deadline_elapsed (utx_deadline tx) (emit (Ev_Write byte) c) of
        (Some elapsed, c) \<Rightarrow> (False, emit (Ev_Deadline 1 (ptx_role tx) (ptx_lane tx) elapsed) c)
      | (None, c) \<Rightarrow> uart_write_bytes tx bs c)"

definition uno_poll_send ::
    "uno_carrier \<Rightarrow> uart_tx \<Rightarrow> outgoing \<Rightarrow>
       unit transport_result poll \<times> bool \<times> uart_tx \<times> uno_carrier" where
  "uno_poll_send c tx out =
     (let c = service_board c in
      if send_refused tx out then (Ready (Inl Failed), False, tx, c)
      else
        case encode_uart_frame (replicate UART_CARRIER_FRAME_BYTES 0) (ptx_session tx)
               (out_lane out) (ptx_role tx) (out_target out) (out_label out) (out_payload out) of
          (Inl e, _) \<Rightarrow> (Ready (Inl e), False, tx, c)
        | (Inr len, frame) \<Rightarrow>
            let c = emit (Ev_Tx (out_target out) (out_label out)
                      (of_nat (length (out_payload out)))) c in
            (case uart_write_bytes tx (take len frame) c of
               (False, c) \<Rightarrow> (Ready (Inl Failed), False, tx, c)
             | (True, c) \<Rightarrow>
                 (case timer_ticks c of (now, c) \<Rightarrow>
                    (Ready (Inr ()), True, tx\<lparr>utx_deadline := now\<rparr>, c))))"

definition uno_poll_recv ::
    "uno_carrier \<Rightarrow> uart_rx \<Rightarrow>
       (received transport_result poll \<times> bool \<times> uart_rx \<times> uno_carrier) option" where
  "uno_poll_recv c rx =
     (case drain_uart (prx_session rx) c of
        None \<Rightarrow> None
      | Some c \<Rightarrow>
          let local_role = unat (prx_role rx) in
          if local_role \<ge> PROOF_CARRIER_ROLES then Some (Ready (Inl Failed), False, rx, c)
          else
            (case pq_pop_front (uq_queues c ! local_role) (prx_lane rx) of
              (None, q) \<Rightarrow>
                (case deadline_elapsed (urx_deadline rx)
                        (c\<lparr>uq_queues := (uq_queues c)[local_role := q]\<rparr>) of
                   (Some elapsed, c) \<Rightarrow>
                     Some (Ready (Inl Failed), False, rx,
                       emit (Ev_Deadline 2 (prx_role rx) (prx_lane rx) elapsed) c)
                 | (None, c) \<Rightarrow> Some (Pending, True, rx, c))
            | (Some frame, q) \<Rightarrow>
                (case timer_ticks (c\<lparr>uq_queues := (uq_queues c)[local_role := q]\<rparr>) of
                   (now, c) \<Rightarrow>
                     let rx = rx_store (rx\<lparr>urx_deadline := now\<rparr>) frame;
                         byte0 = (if prx_len rx > 0 then prx_bytes rx ! 0 else 0);
                         byte1 = (if prx_len rx > 1 then prx_bytes rx ! 1 else 0);
                         c = emit (Ev_Payload (pf_label frame) (of_nat (pf_len frame)) byte0 byte1) c
                     in Some (Ready (Inr (rx_frame rx frame)), True, rx, c))))"

definition uno_requeue ::
    "uno_carrier \<Rightarrow> uart_rx \<Rightarrow> unit transport_result \<times> uart_rx \<times> uno_carrier" where
  "uno_requeue c rx =
     (case proof_requeue (uq_queues c) rx of (r, rx, qs) \<Rightarrow> (r, rx, c\<lparr>uq_queues := qs\<rparr>))"

section \<open>The host carrier\<close>

record hardware_peer =
  hp_queues :: proof_queues
  hp_parser :: uart_frame_parser

datatype serial_read = Read_Bytes bytes | Read_Would_Block | Read_Error

record serial_writer =
  sw_open_ok :: bool
  sw_modem_ok :: bool
  sw_byte_ok :: "nat \<Rightarrow> bool"

text \<open>A push that fails ends the drain at once, with the rest of the chunk unread.\<close>

fun hp_receive_bytes ::
    "u32 \<Rightarrow> bytes \<Rightarrow> hardware_peer \<Rightarrow> unit transport_result \<times> hardware_peer" where
  "hp_receive_bytes session_id [] c = (Inr (), c)"
| "hp_receive_bytes session_id (byte # bs) c =
     (case uart_parser_push (hp_parser c) byte of
        (None, p) \<Rightarrow> hp_receive_bytes session_id bs (c\<lparr>hp_parser := p\<rparr>)
      | (Some frame, p) \<Rightarrow>
          let c = c\<lparr>hp_parser := p\<rparr> in
          if reject_reason session_id frame \<noteq> None then hp_receive_bytes session_id bs c
          else
            (case uart_enqueue (hp_queues c) frame of
              (Inl e, qs) \<Rightarrow> (Inl e, c\<lparr>hp_queues := qs\<rparr>)
            | (Inr _, qs) \<Rightarrow> hp_receive_bytes session_id bs (c\<lparr>hp_queues := qs\<rparr>)))"

definition drain_serial ::
    "u32 \<Rightarrow> serial_read \<Rightarrow> hardware_peer \<Rightarrow> unit transport_result \<times> hardware_peer" where
  "drain_serial session_id rd c =
     (case rd of
        Read_Error \<Rightarrow> (Inl Failed, c)
      | Read_Would_Block \<Rightarrow> (Inr (), c)
      | Read_Bytes bs \<Rightarrow> hp_receive_bytes session_id (take 64 bs) c)"

text \<open>Whether write, flush and drain of every byte succeeded, and the bytes of which they did.\<close>

fun hp_write_bytes :: "serial_writer \<Rightarrow> nat \<Rightarrow> bytes \<Rightarrow> bool \<times> bytes" where
  "hp_write_bytes w i [] = (True, [])"
| "hp_write_bytes w i (byte # bs) =
     (if sw_byte_ok w i then apsnd (Cons byte) (hp_write_bytes w (Suc i) bs) else (False, []))"

definition hp_poll_send ::
    "serial_writer \<Rightarrow> hardware_peer \<Rightarrow> proof_tx \<Rightarrow> outgoing \<Rightarrow>
       unit transport_result poll \<times> bool \<times> bytes \<times> hardware_peer" where
  "hp_poll_send w c tx out =
     (if send_refused tx out then (Ready (Inl Failed), False, [], c)
      else if out_target out = ROLE_M33_LED_KERNEL then
        (case encode_uart_frame (replicate UART_CARRIER_FRAME_BYTES 0) (ptx_session tx)
                (out_lane out) (ptx_role tx) (out_target out) (out_label out) (out_payload out) of
           (Inl e, _) \<Rightarrow> (Ready (Inl e), False, [], c)
         | (Inr len, frame) \<Rightarrow>
             if \<not> sw_open_ok w \<or> \<not> sw_modem_ok w then (Ready (Inl Failed), False, [], c)
             else
               (case hp_write_bytes w 0 (take len frame) of
                 (False, written) \<Rightarrow> (Ready (Inl Failed), False, written, c)
               | (True, written) \<Rightarrow> (Ready (Inr ()), True, written, c)))
      else
        let peer = unat (out_target out) in
        if peer \<ge> PROOF_CARRIER_ROLES then (Ready (Inl Failed), False, [], c)
        else
          case pq_push_back (hp_queues c ! peer) (out_lane out) (ptx_role tx) (out_label out)
                 (out_payload out) of
            (Inl e, q) \<Rightarrow> (Ready (Inl e), False, [], c\<lparr>hp_queues := (hp_queues c)[peer := q]\<rparr>)
          | (Inr _, q) \<Rightarrow> (Ready (Inr ()), True, [], c\<lparr>hp_queues := (hp_queues c)[peer := q]\<rparr>))"

definition hp_poll_recv ::
    "serial_read \<Rightarrow> hardware_peer \<Rightarrow> proof_rx \<Rightarrow>
       received transport_result poll \<times> bool \<times> proof_rx \<times> hardware_peer" where
  "hp_poll_recv rd c rx =
     (let local_role = unat (prx_role rx) in
      if local_role \<ge> PROOF_CARRIER_ROLES then (Ready (Inl Failed), False, rx, c)
      else
        case pq_pop_front (hp_queues c ! local_role) (prx_lane rx) of
          (Some frame, q) \<Rightarrow>
            let rx = rx_store rx frame in
            (Ready (Inr (rx_frame rx frame)), True, rx,
             c\<lparr>hp_queues := (hp_queues c)[local_role := q]\<rparr>)
        | (None, q) \<Rightarrow>
            (case drain_serial (prx_session rx) rd
                    (c\<lparr>hp_queues := (hp_queues c)[local_role := q]\<rparr>) of
               (Inl e, c) \<Rightarrow> (Ready (Inl e), False, rx, c)
             | (Inr _, c) \<Rightarrow>
                 (case pq_pop_front (hp_queues c ! local_role) (prx_lane rx) of
                    (None, q) \<Rightarrow>
                      (Pending, True, rx, c\<lparr>hp_queues := (hp_queues c)[local_role := q]\<rparr>)
                  | (Some frame, q) \<Rightarrow>
                      let rx = rx_store rx frame in
                      (Ready (Inr (rx_frame rx frame)), True, rx,
                       c\<lparr>hp_queues := (hp_queues c)[local_role := q]\<rparr>))))"

definition hp_requeue ::
    "hardware_peer \<Rightarrow> proof_rx \<Rightarrow> unit transport_result \<times> proof_rx \<times> hardware_peer" where
  "hp_requeue c rx =
     (case proof_requeue (hp_queues c) rx of (r, rx, qs) \<Rightarrow> (r, rx, c\<lparr>hp_queues := qs\<rparr>))"

section \<open>What a drain does to the queues\<close>

lemma uart_new_len [simp]: "up_len uart_parser_new = 0"
  by (simp add: uart_parser_new_def)

definition uart_frame_ok :: "uart_carrier_frame \<Rightarrow> bool" where
  "uart_frame_ok f \<longleftrightarrow> length (ucf_bytes f) = 128 \<and> ucf_len f \<le> 128"

definition uart_entry :: "uart_carrier_frame \<Rightarrow> lane_entry" where
  "uart_entry f = \<lparr>le_lane = ucf_lane f, le_source = ucf_source f, le_label = ucf_frame_label f,
     le_payload = take (ucf_len f) (ucf_bytes f)\<rparr>"

definition admitted :: "u32 \<Rightarrow> uart_carrier_frame \<Rightarrow> bool" where
  "admitted session_id f \<longleftrightarrow> reject_reason session_id f = None"

definition uart_accept :: "u32 \<Rightarrow> proof_queues \<Rightarrow> uart_carrier_frame \<Rightarrow> proof_queues" where
  "uart_accept session_id qs f = (if admitted session_id f then snd (uart_enqueue qs f) else qs)"

lemma admitted_iff:
  "admitted sid f \<longleftrightarrow> ucf_session_id f = sid \<and> unat (ucf_peer f) < 5 \<and> unat (ucf_source f) < 5
     \<and> ucf_source f \<noteq> ucf_peer f"
  by (auto simp: admitted_def reject_reason_def)

lemma uart_frame_of_ok: "uart_framed w \<Longrightarrow> uart_frame_ok (uart_frame_of w)"
  by (simp add: uart_framed_def uart_frame_ok_def uart_frame_of_def)

lemma uart_feed_ok: "uart_inv p \<Longrightarrow> f \<in> set (fst (uart_feed p bs)) \<Longrightarrow> uart_frame_ok f"
  using uart_feed_sound uart_frame_of_ok by blast

lemma uart_enqueue_spec:
  assumes inv: "proof_queues_inv qs" and ok: "uart_frame_ok f" and r: "unat (ucf_peer f) < 5"
  shows "if length (role_entries qs (ucf_peer f)) < 24
    then \<exists>qs'. uart_enqueue qs f = (Inr (), qs') \<and> proof_queues_inv qs'
      \<and> (\<forall>r. role_entries qs' r
           = role_entries qs r @ (if r = ucf_peer f then [uart_entry f] else []))
    else uart_enqueue qs f = (Inl Failed, qs)"
proof -
  let ?q = "qs ! unat (ucf_peer f)"
  have q: "pq_inv ?q" using proof_queues_invD(2) [OF inv] r by simp
  have len: "length (take (ucf_len f) (ucf_bytes f)) \<le> 128" using ok by (simp add: uart_frame_ok_def)
  show ?thesis
  proof (cases "pq_len ?q < 24")
    case True
    from pq_push_back_ok [OF q len True, of "ucf_lane f" "ucf_source f" "ucf_frame_label f"]
    obtain q' where q': "pq_push_back ?q (ucf_lane f) (ucf_source f) (ucf_frame_label f)
        (take (ucf_len f) (ucf_bytes f)) = (Inr (), q')" "pq_inv q'"
      "pq_entries q' = pq_entries ?q @ [uart_entry f]"
      by (metis uart_entry_def)
    have "role_entries (qs[unat (ucf_peer f) := q']) r'
        = role_entries qs r' @ (if r' = ucf_peer f then [uart_entry f] else [])" for r'
      using role_entries_update [OF inv r, of q' r'] q'(3) r by (auto simp: role_entries_def)
    with True q' proof_queues_update [OF inv q'(2)] r show ?thesis
      by (simp add: uart_enqueue_def role_entries_def)
  next
    case False
    then have "pq_len ?q = 24" using pq_invD(3) [OF q] by simp
    with r show ?thesis by (simp add: uart_enqueue_def role_entries_def pq_push_back_refused)
  qed
qed

lemma uart_accept_spec:
  assumes "proof_queues_inv qs" and "uart_frame_ok f"
  shows "proof_queues_inv (uart_accept sid qs f)
    \<and> role_entries (uart_accept sid qs f) r = role_entries qs r
      @ take (24 - length (role_entries qs r))
          (if admitted sid f \<and> ucf_peer f = r then [uart_entry f] else [])"
proof (cases "admitted sid f")
  case True
  then have "unat (ucf_peer f) < 5" by (simp add: admitted_iff)
  from uart_enqueue_spec [OF assms this] True assms(1) show ?thesis
    by (cases "length (role_entries qs (ucf_peer f)) < 24") (auto simp: uart_accept_def)
qed (use assms in \<open>simp add: uart_accept_def\<close>)

lemma take_append_room:
  "xs @ take (n - length xs) (ys @ zs)
    = (xs @ take (n - length xs) ys)
      @ take (n - length (xs @ take (n - length xs) ys)) zs"
  by (cases "length ys \<le> n - length xs") (simp_all add: min_def diff_diff_eq)

lemma uart_accept_all:
  assumes "proof_queues_inv qs" and "\<forall>f \<in> set fs. uart_frame_ok f"
  shows "proof_queues_inv (foldl (uart_accept sid) qs fs)
    \<and> role_entries (foldl (uart_accept sid) qs fs) r = role_entries qs r
      @ take (24 - length (role_entries qs r))
          (map uart_entry (filter (\<lambda>f. admitted sid f \<and> ucf_peer f = r) fs))"
  using assms
proof (induction fs arbitrary: qs)
  case (Cons f fs)
  have ok: "uart_frame_ok f" "\<forall>f \<in> set fs. uart_frame_ok f" using Cons.prems(2) by auto
  define a where "a = (if admitted sid f \<and> ucf_peer f = r then [uart_entry f] else [])"
  define b where "b = map uart_entry (filter (\<lambda>f. admitted sid f \<and> ucf_peer f = r) fs)"
  note A = uart_accept_spec [OF Cons.prems(1) ok(1), of sid r, folded a_def]
  note IH = Cons.IH [OF A [THEN conjunct1] ok(2), folded b_def]
  have "map uart_entry (filter (\<lambda>f. admitted sid f \<and> ucf_peer f = r) (f # fs)) = a @ b"
    by (simp add: a_def b_def)
  then show ?case
    using IH take_append_room [of "role_entries qs r" 24 a b]
    by (simp only: foldl.simps A [THEN conjunct2] simp_thms)
qed simp

lemma sint_ucast_u8 [simp]: "\<not> sint (ucast (b :: u8) :: i16) < 0"
proof -
  have "uint b < 256" using uint_lt2p [of b] by simp
  moreover have "sint (ucast b :: i16) = signed_take_bit 15 (uint b)"
    using \<open>uint b < 256\<close> by (simp add: sint_uint unsigned_ucast_eq take_bit_eq_mod)
  ultimately show ?thesis
    by (simp add: bit_iff_odd)
qed

lemma ucast_i16_u8 [simp]: "ucast (ucast (b :: u8) :: i16) = b"
  by (simp add: ucast_up_ucast_id is_up)

lemma uart_receive_effect:
  "uq_parser (uart_receive sid b c) = snd (uart_parser_push (uq_parser c) b)
   \<and> uq_queues (uart_receive sid b c)
      = foldl (uart_accept sid) (uq_queues c)
          (case fst (uart_parser_push (uq_parser c) b) of None \<Rightarrow> [] | Some f \<Rightarrow> [f])
   \<and> uq_clock (uart_receive sid b c) = uq_clock c \<and> uq_ticks (uart_receive sid b c) = uq_ticks c
   \<and> uq_reads (uart_receive sid b c) = uq_reads c"
  by (cases "uart_parser_push (uq_parser c) b")
    (auto simp: uart_receive_def emit_def Let_def uart_accept_def admitted_def split: option.splits)

lemma drain_reads_effect:
  assumes "sint stop < 0"
  shows "\<exists>c'. drain_reads sid (map ucast bs @ stop # rest) c = Some c'
    \<and> uq_parser c' = snd (uart_feed (uq_parser c) bs)
    \<and> uq_queues c' = foldl (uart_accept sid) (uq_queues c) (fst (uart_feed (uq_parser c) bs))
    \<and> uq_clock c' = uq_clock c \<and> uq_ticks c' = uq_ticks c \<and> uq_reads c' = rest"
proof (induction bs arbitrary: c)
  case Nil
  then show ?case using assms by (simp add: service_board_def emit_def Let_def)
next
  case (Cons b bs)
  note E = uart_receive_effect [of sid b "service_board c"]
  have "service_board c = c\<lparr>uq_log := uq_log c @ [Ev_Board_Poll]\<rparr>"
    by (simp add: service_board_def emit_def)
  with E Cons.IH [of "uart_receive sid b (service_board c)"] show ?case
    by (auto simp: Let_def uart_feed_Cons split: option.splits prod.splits)
qed

section \<open>What a send writes\<close>

definition uq_written :: "uno_carrier \<Rightarrow> bytes" where
  "uq_written c = concat (map (\<lambda>e. case e of Ev_Write b \<Rightarrow> [b] | _ \<Rightarrow> []) (uq_log c))"

text \<open>The \<open>k\<close>-th clock read from now is past the deadline of the port.\<close>

definition late :: "uart_tx \<Rightarrow> uno_carrier \<Rightarrow> nat \<Rightarrow> bool" where
  "late tx c k \<longleftrightarrow> uq_clock c (uq_ticks c + k) - utx_deadline tx \<ge> 1000000000"

definition tx_message :: "'a proof_tx_scheme \<Rightarrow> outgoing \<Rightarrow> uart_message" where
  "tx_message tx out = (ptx_session tx, out_lane out, ptx_role tx, out_target out, out_label out,
     out_payload out)"

lemma deadline_elapsed_simps:
  "deadline_elapsed start c =
     (if uq_clock c (uq_ticks c) - start \<ge> 1000000000
      then Some (uq_clock c (uq_ticks c) - start) else None, c\<lparr>uq_ticks := uq_ticks c + 1\<rparr>)"
  by (simp add: deadline_elapsed_def timer_ticks_def Let_def)

lemma uart_write_bytes_spec:
  "\<exists>n. n \<le> length bs
    \<and> uq_written (snd (uart_write_bytes tx bs c)) = uq_written c @ take n bs
    \<and> (if fst (uart_write_bytes tx bs c)
       then n = length bs \<and> (\<forall>k < n. \<not> late tx c k)
         \<and> uq_ticks (snd (uart_write_bytes tx bs c)) = uq_ticks c + n
       else 0 < n \<and> late tx c (n - 1) \<and> (\<forall>k < n - 1. \<not> late tx c k))
    \<and> uq_clock (snd (uart_write_bytes tx bs c)) = uq_clock c
    \<and> uq_queues (snd (uart_write_bytes tx bs c)) = uq_queues c"
proof (induction bs arbitrary: c)
  case (Cons b bs)
  show ?case
  proof (cases "late tx c 0")
    case True
    then show ?thesis
      by (intro exI [of _ 1])
        (auto simp: deadline_elapsed_simps emit_def late_def uq_written_def)
  next
    case False
    define d where "d = (emit (Ev_Write b) c)\<lparr>uq_ticks := uq_ticks c + 1\<rparr>"
    have step: "uart_write_bytes tx (b # bs) c = uart_write_bytes tx bs d"
      using False by (simp add: deadline_elapsed_simps emit_def late_def d_def)
    have c: "uq_written d = uq_written c @ [b]" "uq_clock d = uq_clock c"
      "uq_queues d = uq_queues c" "uq_ticks d = Suc (uq_ticks c)"
      by (simp_all add: uq_written_def emit_def d_def)
    have shift: "late tx d k = late tx c (Suc k)" for k by (simp add: late_def emit_def d_def)
    have all: "(\<forall>k < Suc m. \<not> late tx c k) \<longleftrightarrow> (\<forall>k < m. \<not> late tx d k)" for m
      using False unfolding shift by (auto simp: less_Suc_eq_0_disj)
    from Cons.IH [of d] obtain n where n: "n \<le> length bs"
      "uq_written (snd (uart_write_bytes tx bs d)) = uq_written d @ take n bs"
      "if fst (uart_write_bytes tx bs d)
       then n = length bs \<and> (\<forall>k < n. \<not> late tx d k)
         \<and> uq_ticks (snd (uart_write_bytes tx bs d)) = uq_ticks d + n
       else 0 < n \<and> late tx d (n - 1) \<and> (\<forall>k < n - 1. \<not> late tx d k)"
      "uq_clock (snd (uart_write_bytes tx bs d)) = uq_clock d"
      "uq_queues (snd (uart_write_bytes tx bs d)) = uq_queues d" by blast
    show ?thesis
    proof (intro exI [of _ "Suc n"] conjI)
      show "if fst (uart_write_bytes tx (b # bs) c)
        then Suc n = length (b # bs) \<and> (\<forall>k < Suc n. \<not> late tx c k)
          \<and> uq_ticks (snd (uart_write_bytes tx (b # bs) c)) = uq_ticks c + Suc n
        else 0 < Suc n \<and> late tx c (Suc n - 1) \<and> (\<forall>k < Suc n - 1. \<not> late tx c k)"
      proof (cases "fst (uart_write_bytes tx bs d)")
        case True
        with n(3) show ?thesis by (simp del: uart_write_bytes.simps add: step all c(4))
      next
        case no: False
        with n(3) obtain m where m: "n = Suc m" "late tx d m" "\<forall>k < m. \<not> late tx d k"
          by (cases n) auto
        then show ?thesis using no by (simp del: uart_write_bytes.simps add: step all shift [symmetric])
      qed
    qed (use n c in \<open>simp_all del: uart_write_bytes.simps add: step\<close>)
  qed
qed (simp add: uq_written_def)

section \<open>What a receive returns\<close>

lemma role_entries_uq [simp]: "role_entries (uq_queues (c\<lparr>uq_queues := qs\<rparr>)) r = role_entries qs r"
  by simp

lemma uno_poll_recv_spec:
  assumes inv: "proof_queues_inv (uq_queues c)" "uart_inv (uq_parser c)" and ok: "proof_rx_ok rx"
    and reads: "uq_reads c = map ucast bs @ stop # rest" "sint stop < 0"
    and qs: "qs = foldl (uart_accept (prx_session rx)) (uq_queues c) (fst (uart_feed (uq_parser c) bs))"
    and r: "unat (prx_role rx) < 5"
  shows "case extract_lane (prx_lane rx) (role_entries qs (prx_role rx)) of
      None \<Rightarrow> \<exists>c'. uno_poll_recv c rx
          = Some (if uq_clock c (uq_ticks c) - urx_deadline rx \<ge> 1000000000
              then (Ready (Inl Failed), False, rx, c') else (Pending, True, rx, c'))
        \<and> uq_queues c' = qs
    | Some (e, es) \<Rightarrow> \<exists>rx' c'. uno_poll_recv c rx
          = Some (Ready (Inr (proof_received_frame (prx_session rx) (prx_lane rx) (le_source e)
              (prx_role rx) (le_label e) (le_payload e))), True, rx', c')
        \<and> rx_holds rx' e \<and> urx_deadline rx' = uq_clock c (uq_ticks c)
        \<and> prx_role rx' = prx_role rx \<and> prx_session rx' = prx_session rx
        \<and> proof_queues_inv (uq_queues c')
        \<and> (\<forall>r. role_entries (uq_queues c') r = (if r = prx_role rx then es else role_entries qs r))"
proof -
  let ?r = "unat (prx_role rx)"
  from drain_reads_effect [OF reads(2), of "prx_session rx" bs rest c] obtain d where
    d: "drain_uart (prx_session rx) c = Some d" "uq_queues d = qs" "uq_clock d = uq_clock c"
      "uq_ticks d = uq_ticks c"
    by (auto simp: drain_uart_def reads(1) qs)
  have qinv: "proof_queues_inv qs"
    using uart_accept_all [OF inv(1)] uart_feed_ok [OF inv(2)] by (simp add: qs)
  let ?rx = "rx\<lparr>urx_deadline := uq_clock c (uq_ticks c)\<rparr>"
  have ok': "proof_rx_ok ?rx" "unat (prx_role ?rx) < 5" using ok r by (simp_all add: proof_rx_ok_def)
  note P = pop_store_spec [OF qinv ok']
  show ?thesis
  proof (cases "extract_lane (prx_lane rx) (role_entries qs (prx_role rx))")
    case None
    with P have "pq_pop_front (qs ! ?r) (prx_lane rx) = (None, qs ! ?r)" by simp
    with None d r show ?thesis
      by (simp add: uno_poll_recv_def Let_def deadline_elapsed_simps emit_def)
  next
    case (Some p)
    obtain e es where p: "p = (e, es)" by (cases p)
    from P Some p obtain f q' where
      f: "pq_pop_front (qs ! ?r) (prx_lane rx) = (Some f, q')"
        "proof_queues_inv (qs[?r := q'])"
        "\<forall>r. role_entries (qs[?r := q']) r = (if r = prx_role rx then es else role_entries qs r)"
        "rx_holds (rx_store ?rx f) e"
        "rx_frame (rx_store ?rx f) f = proof_received_frame (prx_session rx) (prx_lane rx)
            (le_source e) (prx_role rx) (le_label e) (le_payload e)"
      by auto
    with Some p d r show ?thesis
      by (simp add: uno_poll_recv_def Let_def timer_ticks_def emit_def)
        (simp add: rx_store_def)
  qed
qed

text \<open>A drain of the bytes of one admitted message, from an idle parser, queues that message.\<close>

lemma accept_one_message:
  assumes "uart_inv p" "up_len p = 0" "uart_message_ok m" "proof_queues_inv qs"
    and "admitted sid (uart_message_frame m)"
    and "length (role_entries qs (ucf_peer (uart_message_frame m))) < 24"
  shows "role_entries (foldl (uart_accept sid) qs (fst (uart_feed p (uart_wire m)))) r
    = role_entries qs r
      @ (if r = ucf_peer (uart_message_frame m) then [uart_entry (uart_message_frame m)] else [])"
proof -
  have fs: "fst (uart_feed p (uart_wire m)) = [uart_message_frame m]"
    using uart_feed_messages [of "[m]" p] assms(1-3) by simp
  then have "uart_frame_ok (uart_message_frame m)" using uart_feed_ok [OF assms(1), of _ "uart_wire m"] by simp
  from uart_accept_spec [OF assms(4) this, of sid r] show ?thesis
    using assms(5,6) by (auto simp: fs)
qed

lemma extract_lane_append:
  "extract_lane l xs = None \<Longrightarrow> le_lane e = l \<Longrightarrow> extract_lane l (xs @ [e]) = Some (e, xs)"
  by (induction xs) (auto split: if_splits option.splits)

lemma uno_receives_message:
  assumes "proof_queues_inv (uq_queues c)" "uart_inv (uq_parser c)" "up_len (uq_parser c) = 0"
    and "proof_rx_ok rx" "unat (prx_role rx) < 5"
    and "uq_reads c = map ucast (uart_wire m) @ stop # rest" "sint stop < 0"
    and m: "m = (prx_session rx, prx_lane rx, source, prx_role rx, label, payload)"
      "length payload \<le> 128"
    and "unat source < 5" "source \<noteq> prx_role rx"
    and "length (role_entries (uq_queues c) (prx_role rx)) < 24"
    and "extract_lane (prx_lane rx) (role_entries (uq_queues c) (prx_role rx)) = None"
  shows "\<exists>rx' c'. uno_poll_recv c rx
      = Some (Ready (Inr (proof_received_frame (prx_session rx) (prx_lane rx) source (prx_role rx)
          label payload)), True, rx', c')
    \<and> (\<forall>r. role_entries (uq_queues c') r = role_entries (uq_queues c) r)"
proof -
  let ?e = "\<lparr>le_lane = prx_lane rx, le_source = source, le_label = label, le_payload = payload\<rparr>"
  let ?qs = "foldl (uart_accept (prx_session rx)) (uq_queues c)
    (fst (uart_feed (uq_parser c) (uart_wire m)))"
  have ok: "uart_message_ok m" using m by (simp add: uart_message_ok_def)
  have fr: "ucf_peer (uart_message_frame m) = prx_role rx" "uart_entry (uart_message_frame m) = ?e"
    "admitted (prx_session rx) (uart_message_frame m)"
    using assms by (simp_all add: uart_message_frame_def uart_entry_def admitted_iff)
  have ents: "role_entries ?qs r
      = role_entries (uq_queues c) r @ (if r = prx_role rx then [?e] else [])" for r
    using accept_one_message [OF assms(2,3) ok assms(1) fr(3), of r] assms(12) by (simp add: fr)
  have "extract_lane (prx_lane rx) (role_entries ?qs (prx_role rx))
      = Some (?e, role_entries (uq_queues c) (prx_role rx))"
    using extract_lane_append [OF assms(13), of ?e] by (simp add: ents)
  with uno_poll_recv_spec [OF assms(1,2,4,6,7) refl assms(5)] ents show ?thesis by fastforce
qed

section \<open>The host carrier\<close>

lemma hp_receive_bytes_spec:
  assumes "proof_queues_inv (hp_queues c)" "uart_inv (hp_parser c)"
  shows "\<exists>bs1 bs2. bs = bs1 @ bs2
    \<and> hp_parser (snd (hp_receive_bytes sid bs c)) = snd (uart_feed (hp_parser c) bs1)
    \<and> hp_queues (snd (hp_receive_bytes sid bs c))
      = foldl (uart_accept sid) (hp_queues c) (fst (uart_feed (hp_parser c) bs1))
    \<and> (bs2 = [] \<and> fst (hp_receive_bytes sid bs c) = Inr () \<or> fst (hp_receive_bytes sid bs c) = Inl Failed)"
  using assms
proof (induction bs arbitrary: c)
  case (Cons b bs)
  obtain o1 p where push: "uart_parser_push (hp_parser c) b = (o1, p)"
    by (cases "uart_parser_push (hp_parser c) b")
  have pinv: "uart_inv p" using uart_push_sound [OF Cons.prems(2), of b] push by simp
  show ?case
  proof (cases o1)
    case None
    from Cons.IH [of "c\<lparr>hp_parser := p\<rparr>"] Cons.prems(1) pinv obtain bs1 bs2 where
      "bs = bs1 @ bs2"
      "hp_parser (snd (hp_receive_bytes sid bs (c\<lparr>hp_parser := p\<rparr>))) = snd (uart_feed p bs1)"
      "hp_queues (snd (hp_receive_bytes sid bs (c\<lparr>hp_parser := p\<rparr>)))
        = foldl (uart_accept sid) (hp_queues c) (fst (uart_feed p bs1))"
      "bs2 = [] \<and> fst (hp_receive_bytes sid bs (c\<lparr>hp_parser := p\<rparr>)) = Inr () \<or> fst (hp_receive_bytes sid bs (c\<lparr>hp_parser := p\<rparr>)) = Inl Failed"
      by auto
    then show ?thesis
      by - (rule exI [of _ "b # bs1"], rule exI [of _ bs2], simp add: push None)
  next
    case (Some f)
    have fok: "uart_frame_ok f"
      using uart_feed_ok [OF Cons.prems(2), of f "[b]"] push Some by simp
    let ?qs = "uart_accept sid (hp_queues c) f"
    have qinv: "proof_queues_inv ?qs"
      using uart_accept_spec [OF Cons.prems(1) fok, of sid 0] by blast
    let ?c = "c\<lparr>hp_parser := p, hp_queues := ?qs\<rparr>"
    show ?thesis
    proof (cases "admitted sid f \<and> fst (uart_enqueue (hp_queues c) f) \<noteq> Inr ()")
      case True
      then have "uart_enqueue (hp_queues c) f = (Inl Failed, hp_queues c)"
        using uart_enqueue_spec [OF Cons.prems(1) fok] by (auto simp: admitted_iff split: if_splits)
      with True show ?thesis
        by - (rule exI [of _ "[b]"], rule exI [of _ bs], simp add: push Some admitted_def uart_accept_def Let_def)
    next
      case False
      then have step: "hp_receive_bytes sid (b # bs) c = hp_receive_bytes sid bs ?c"
        by (cases "uart_enqueue (hp_queues c) f")
          (auto simp: push Some admitted_def uart_accept_def Let_def split: sum.splits)
      from Cons.IH [of ?c] qinv pinv obtain bs1 bs2 where
        "bs = bs1 @ bs2"
        "hp_parser (snd (hp_receive_bytes sid bs ?c)) = snd (uart_feed p bs1)"
        "hp_queues (snd (hp_receive_bytes sid bs ?c))
          = foldl (uart_accept sid) ?qs (fst (uart_feed p bs1))"
        "bs2 = [] \<and> fst (hp_receive_bytes sid bs ?c) = Inr () \<or> fst (hp_receive_bytes sid bs ?c) = Inl Failed"
        by auto
      then show ?thesis unfolding step
        by - (rule exI [of _ "b # bs1"], rule exI [of _ bs2], simp add: push Some)
    qed
  qed
qed simp

text \<open>With room for every admitted frame the whole chunk is taken.\<close>

definition fits :: "u32 \<Rightarrow> proof_queues \<Rightarrow> uart_carrier_frame list \<Rightarrow> bool" where
  "fits sid qs fs \<longleftrightarrow> (\<forall>r. length (role_entries qs r)
     + length (filter (\<lambda>f. admitted sid f \<and> ucf_peer f = r) fs) \<le> 24)"

lemma fits_Cons:
  assumes "proof_queues_inv qs" "uart_frame_ok f" "fits sid qs (f # fs)"
  shows "fits sid (uart_accept sid qs f) fs"
    and "admitted sid f \<Longrightarrow> \<exists>qs'. uart_enqueue qs f = (Inr (), qs')"
proof -
  show "fits sid (uart_accept sid qs f) fs"
    unfolding fits_def
  proof
    fix r
    from assms(3) have "length (role_entries qs r)
        + length (filter (\<lambda>f. admitted sid f \<and> ucf_peer f = r) (f # fs)) \<le> 24"
      by (simp only: fits_def)
    then show "length (role_entries (uart_accept sid qs f) r)
        + length (filter (\<lambda>f. admitted sid f \<and> ucf_peer f = r) fs) \<le> 24"
      using uart_accept_spec [OF assms(1,2), of sid r] by (auto split: if_splits)
  qed
  assume ad: "admitted sid f"
  from assms(3) have "length (role_entries qs (ucf_peer f))
      + length (filter (\<lambda>g. admitted sid g \<and> ucf_peer g = ucf_peer f) (f # fs)) \<le> 24"
    by (simp only: fits_def)
  with ad have "length (role_entries qs (ucf_peer f)) < 24" by simp
  with uart_enqueue_spec [OF assms(1,2)] ad show "\<exists>qs'. uart_enqueue qs f = (Inr (), qs')"
    by (auto simp: admitted_iff)
qed

lemma hp_receive_fits:
  assumes "proof_queues_inv (hp_queues c)" "uart_inv (hp_parser c)"
    and "fits sid (hp_queues c) (fst (uart_feed (hp_parser c) bs))"
  shows "hp_receive_bytes sid bs c = (Inr (), c\<lparr>hp_parser := snd (uart_feed (hp_parser c) bs),
    hp_queues := foldl (uart_accept sid) (hp_queues c) (fst (uart_feed (hp_parser c) bs))\<rparr>)"
  using assms
proof (induction bs arbitrary: c)
  case (Cons b bs)
  obtain o1 p where push: "uart_parser_push (hp_parser c) b = (o1, p)"
    by (cases "uart_parser_push (hp_parser c) b")
  have pinv: "uart_inv p" using uart_push_sound [OF Cons.prems(2), of b] push by simp
  show ?case
  proof (cases o1)
    case None
    then show ?thesis
      using Cons.IH [of "c\<lparr>hp_parser := p\<rparr>"] Cons.prems pinv push by simp
  next
    case (Some f)
    have fok: "uart_frame_ok f"
      using uart_feed_ok [OF Cons.prems(2), of f "[b]"] push Some by simp
    have fs: "fst (uart_feed (hp_parser c) (b # bs)) = f # fst (uart_feed p bs)"
      using push Some by simp
    note F = fits_Cons [OF Cons.prems(1) fok Cons.prems(3) [unfolded fs]]
    let ?qs = "uart_accept sid (hp_queues c) f"
    let ?c = "c\<lparr>hp_parser := p, hp_queues := ?qs\<rparr>"
    have "proof_queues_inv ?qs" using uart_accept_spec [OF Cons.prems(1) fok, of sid 0] by blast
    then have "hp_receive_bytes sid bs ?c = (Inr (), ?c\<lparr>hp_parser := snd (uart_feed p bs),
        hp_queues := foldl (uart_accept sid) ?qs (fst (uart_feed p bs))\<rparr>)"
      using Cons.IH [of ?c] pinv F(1) by simp
    moreover have "hp_receive_bytes sid (b # bs) c = hp_receive_bytes sid bs ?c"
      using F(2) by (cases "admitted sid f")
        (auto simp: push Some admitted_def uart_accept_def Let_def)
    ultimately show ?thesis by (simp add: push Some)
  qed
qed simp

text \<open>Successive reads of the device, each of at most 64 bytes.\<close>

fun drain_chunks :: "u32 \<Rightarrow> bytes list \<Rightarrow> hardware_peer \<Rightarrow> unit transport_result \<times> hardware_peer" where
  "drain_chunks session_id [] c = (Inr (), c)"
| "drain_chunks session_id (ch # chs) c =
     (case drain_serial session_id (Read_Bytes ch) c of
        (Inl e, c) \<Rightarrow> (Inl e, c)
      | (Inr _, c) \<Rightarrow> drain_chunks session_id chs c)"

lemma hp_receive_append:
  "hp_receive_bytes sid (xs @ ys) c = (case hp_receive_bytes sid xs c of
     (Inl e, c) \<Rightarrow> (Inl e, c) | (Inr _, c) \<Rightarrow> hp_receive_bytes sid ys c)"
  by (induction xs arbitrary: c) (auto simp: Let_def split: option.splits prod.splits sum.splits)

lemma drain_chunks_concat:
  "\<forall>ch \<in> set chs. length ch \<le> 64 \<Longrightarrow>
     drain_chunks sid chs c = hp_receive_bytes sid (concat chs) c"
  by (induction chs arbitrary: c)
    (auto simp: drain_serial_def hp_receive_append split: prod.splits sum.splits)

section \<open>The host carrier among the host roles\<close>

text \<open>Sends and receives while the serial device is unavailable and silent.\<close>

definition no_serial :: serial_writer where
  "no_serial = \<lparr>sw_open_ok = False, sw_modem_ok = False, sw_byte_ok = (\<lambda>_. False)\<rparr>"

definition hp_new :: hardware_peer where
  "hp_new = \<lparr>hp_queues = proof_queues_empty, hp_parser = uart_parser_new\<rparr>"

definition hp_send_op :: "hardware_peer \<Rightarrow> u8 \<Rightarrow> outgoing \<Rightarrow> bool \<times> hardware_peer" where
  "hp_send_op c source out =
     (case hp_poll_send no_serial c (fst (proof_open (session_port source (out_lane out)))) out of
        (res, _, _, c') \<Rightarrow> (res = Ready (Inr ()), c'))"

definition hp_recv_op :: "hardware_peer \<Rightarrow> u8 \<Rightarrow> u8 \<Rightarrow> lane_entry option \<times> hardware_peer" where
  "hp_recv_op c role lane =
     (case hp_poll_recv Read_Would_Block c (snd (proof_open (session_port role lane))) of
        (Ready (Inr f), _, _, c') \<Rightarrow> (Some (received_entry f), c')
      | (_, _, _, c') \<Rightarrow> (None, c'))"

definition hp_inv :: "hardware_peer \<Rightarrow> bool" where
  "hp_inv c \<longleftrightarrow> proof_queues_inv (hp_queues c) \<and> uart_inv (hp_parser c)"

text \<open>Away from the M33 role the host carrier does what the in-memory carrier does.\<close>

lemma hp_send_local:
  "out_target out \<noteq> 0 \<Longrightarrow> hp_poll_send w c tx out =
     (case proof_poll_send (hp_queues c) tx out of
        (res, woken, qs) \<Rightarrow> (res, woken, [], c\<lparr>hp_queues := qs\<rparr>))"
  by (simp add: hp_poll_send_def proof_poll_send_def Let_def split: prod.split sum.split)

lemma hp_send_no_serial:
  "out_target out = 0 \<Longrightarrow> hp_poll_send no_serial c tx out = (Ready (Inl Failed), False, [], c)"
  by (auto simp: hp_poll_send_def no_serial_def encode_uart_frame_def Let_def split: prod.splits
      sum.splits)

lemma hp_send_op_spec:
  assumes "hp_inv c"
  shows "hp_inv (snd (hp_send_op c source out))
    \<and> role_entries (hp_queues (snd (hp_send_op c source out))) r = role_entries (hp_queues c) r
      @ (if fst (hp_send_op c source out) \<and> r = out_target out
         then [sent_entry source out] else [])"
proof (cases "out_target out = 0")
  case True
  then show ?thesis using assms by (simp add: hp_send_op_def hp_send_no_serial)
next
  case False
  then have "fst (hp_send_op c source out) = fst (proof_send_op (hp_queues c) source out)"
    "snd (hp_send_op c source out)
      = c\<lparr>hp_queues := snd (proof_send_op (hp_queues c) source out)\<rparr>"
    by (simp_all add: hp_send_op_def proof_send_op_def hp_send_local split: prod.split)
  with proof_send_op_spec [of "hp_queues c" source out r] assms show ?thesis
    by (simp add: hp_inv_def)
qed

lemma hp_recv_silent:
  assumes "proof_queues_inv (hp_queues c)" "proof_rx_ok rx"
  shows "prx_session rx \<noteq> 0 \<Longrightarrow> case proof_poll_recv (hp_queues c) rx of
    (res, woken, rx', qs) \<Rightarrow> \<exists>woken'. hp_poll_recv Read_Would_Block c rx
      = (res, woken', rx', c\<lparr>hp_queues := qs\<rparr>)"
proof (cases "unat (prx_role rx) \<ge> 5")
  case True
  then show ?thesis by (auto simp: proof_poll_recv_def hp_poll_recv_def)
next
  case False
  assume s: "prx_session rx \<noteq> 0"
  from False have r: "unat (prx_role rx) < 5" by simp
  note P = pop_store_spec [OF assms r]
  show ?thesis
  proof (cases "extract_lane (prx_lane rx) (role_entries (hp_queues c) (prx_role rx))")
    case None
    with P s r show ?thesis
      by (auto simp: proof_poll_recv_def hp_poll_recv_def Let_def drain_serial_def)
  next
    case (Some p)
    with P obtain f q' where
      "pq_pop_front (hp_queues c ! unat (prx_role rx)) (prx_lane rx) = (Some f, q')"
      by (cases p) auto
    with s r show ?thesis by (auto simp: proof_poll_recv_def hp_poll_recv_def Let_def)
  qed
qed

lemma hp_recv_op_eq:
  assumes "hp_inv c"
  shows "fst (hp_recv_op c role lane) = fst (proof_recv_op (hp_queues c) role lane)
    \<and> snd (hp_recv_op c role lane)
      = c\<lparr>hp_queues := snd (proof_recv_op (hp_queues c) role lane)\<rparr>"
proof -
  let ?rx = "snd (proof_open (session_port role lane))"
  obtain res woken rx' qs where p: "proof_poll_recv (hp_queues c) ?rx = (res, woken, rx', qs)"
    by (cases "proof_poll_recv (hp_queues c) ?rx")
  with hp_recv_silent [of c ?rx] assms obtain woken' where
    "hp_poll_recv Read_Would_Block c ?rx = (res, woken', rx', c\<lparr>hp_queues := qs\<rparr>)"
    by (auto simp: hp_inv_def)
  with p show ?thesis
    by (simp add: hp_recv_op_def proof_recv_op_def split: poll.split sum.split)
qed

interpretation host_net: role_carrier hp_send_op hp_recv_op "\<lambda>c. role_entries (hp_queues c)" hp_inv
proof (unfold_locales, goal_cases)
  case (1 s source out)
  then show ?case using hp_send_op_spec by blast
next
  case (2 s source out r)
  then show ?case using hp_send_op_spec by blast
next
  case (3 s role lane)
  then show ?case
    using hp_recv_op_eq [OF 3] proof_recv_op_spec [of "hp_queues s" role lane 0]
    by (simp add: hp_inv_def)
next
  case (4 s lane role r)
  then show ?case
    using hp_recv_op_eq [OF 4(1)] proof_recv_op_spec [of "hp_queues s" role lane r]
    by (simp add: hp_inv_def)
next
  case (5 s lane role e rest r)
  then show ?case
    using hp_recv_op_eq [OF 5(1)] proof_recv_op_spec [of "hp_queues s" role lane r]
    by (simp add: hp_inv_def)
qed

lemma drain_reads_None:
  "drain_reads sid bs c = None \<longleftrightarrow> (\<forall>b \<in> set bs. \<not> sint b < 0)"
  by (induction bs arbitrary: c) (auto simp: Let_def)

lemma hp_write_bytes_all: "hp_write_bytes w i bs = (True, written) \<Longrightarrow> written = bs"
  by (induction bs arbitrary: i written) (auto split: if_splits prod.splits simp: apsnd_def map_prod_def)

lemma uno_send_spec:
  assumes "\<not> send_refused tx out" and "length (out_payload out) \<le> 128"
    and "uno_poll_send c tx out = (res, woken, tx', c')" and "w = uart_wire (tx_message tx out)"
  shows "\<exists>n. n \<le> length w \<and> uq_written c' = uq_written c @ take n w \<and> uq_queues c' = uq_queues c
    \<and> (res = Ready (Inr ()) \<and> woken \<and> n = length w \<and> (\<forall>k < n. \<not> late tx c k)
         \<and> tx' = tx\<lparr>utx_deadline := uq_clock c (uq_ticks c + n)\<rparr>
       \<or> res = Ready (Inl Failed) \<and> \<not> woken \<and> 0 < n \<and> late tx c (n - 1)
         \<and> (\<forall>k < n - 1. \<not> late tx c k) \<and> tx' = tx)"
proof -
  have "length (replicate 142 0 :: bytes) = 142" by simp
  from encode_uart_frame_bytes [OF this assms(2), of "ptx_session tx" "out_lane out" "ptx_role tx"
      "out_target out" "out_label out"]
  obtain frame where f: "encode_uart_frame (replicate 142 0) (ptx_session tx) (out_lane out)
      (ptx_role tx) (out_target out) (out_label out) (out_payload out)
        = (Inr (14 + length (out_payload out)), frame)"
    "take (14 + length (out_payload out)) frame = w"
    using assms(2,4) by (metis tx_message_def uart_wire_bytes)
  let ?c = "emit (Ev_Tx (out_target out) (out_label out) (of_nat (length (out_payload out))))
      (service_board c)"
  have c: "uq_written ?c = uq_written c" "uq_queues ?c = uq_queues c" "uq_clock ?c = uq_clock c"
    "uq_ticks ?c = uq_ticks c" and lt: "late tx ?c = late tx c"
    by (auto simp: uq_written_def service_board_def emit_def late_def)
  from uart_write_bytes_spec [of w tx ?c] obtain n where n: "n \<le> length w"
    "uq_written (snd (uart_write_bytes tx w ?c)) = uq_written ?c @ take n w"
    "if fst (uart_write_bytes tx w ?c)
       then n = length w \<and> (\<forall>k < n. \<not> late tx ?c k)
         \<and> uq_ticks (snd (uart_write_bytes tx w ?c)) = uq_ticks ?c + n
       else 0 < n \<and> late tx ?c (n - 1) \<and> (\<forall>k < n - 1. \<not> late tx ?c k)"
    "uq_clock (snd (uart_write_bytes tx w ?c)) = uq_clock ?c"
    "uq_queues (snd (uart_write_bytes tx w ?c)) = uq_queues ?c" by blast
  obtain ok d where d: "uart_write_bytes tx w ?c = (ok, d)" by (cases "uart_write_bytes tx w ?c")
  have poll: "uno_poll_send c tx out = (if ok
      then (Ready (Inr ()), True, tx\<lparr>utx_deadline := uq_clock d (uq_ticks d)\<rparr>,
            d\<lparr>uq_ticks := uq_ticks d + 1\<rparr>)
      else (Ready (Inl Failed), False, tx, d))"
    using assms(1) f d by (simp add: uno_poll_send_def Let_def timer_ticks_def)
  show ?thesis
    using n c lt poll d assms(3) by (intro exI [of _ n]) (cases ok; auto simp: uq_written_def)
qed

section \<open>Properties\<close>

text \<open>A send on the M33 puts on the line exactly the frame of its message, and reports
  success exactly when no clock read of the byte loop was past the deadline; otherwise it fails,
  having written the bytes up to and including the first one after which the deadline had passed.
  The role queues are untouched, and success restarts the port's deadline from the clock.\<close>

theorem uno_send_writes_frame:
  assumes "\<not> send_refused tx out" and "length (out_payload out) \<le> 128"
    and "uno_poll_send c tx out = (res, woken, tx', c')" and "w = uart_wire (tx_message tx out)"
  shows "\<exists>n. n \<le> length w \<and> uq_written c' = uq_written c @ take n w \<and> uq_queues c' = uq_queues c
    \<and> (res = Ready (Inr ()) \<and> woken \<and> n = length w \<and> (\<forall>k < n. \<not> late tx c k)
         \<and> tx' = tx\<lparr>utx_deadline := uq_clock c (uq_ticks c + n)\<rparr>
       \<or> res = Ready (Inl Failed) \<and> \<not> woken \<and> 0 < n \<and> late tx c (n - 1)
         \<and> (\<forall>k < n - 1. \<not> late tx c k) \<and> tx' = tx)"
  using uno_send_spec [OF assms] .

lemma uart_write_success:
  assumes "\<not> send_refused tx out" "length (out_payload out) \<le> 128"
    and "uno_poll_send c tx out = (res, woken, tx', c')" and "\<And>k. \<not> late tx c k"
  shows "res = Ready (Inr ()) \<and> uq_written c' = uq_written c @ uart_wire (tx_message tx out)"
  using uno_send_spec [OF assms(1-3) refl] assms(4) by auto

lemma hp_receive_full:
  assumes "fst (uart_feed p bs) = [f]" "admitted sid f" "uart_enqueue qs f = (Inl Failed, qs)"
  shows "\<exists>hp'. hp_receive_bytes sid (bs @ bs') \<lparr>hp_queues = qs, hp_parser = p\<rparr> = (Inl Failed, hp')
    \<and> hp_queues hp' = qs"
  using assms
proof (induction bs arbitrary: p)
  case (Cons b bs)
  then show ?case
    by (cases "uart_parser_push p b") (auto simp: admitted_def Let_def split: option.splits)
qed simp

definition hello_tx :: uart_tx where
  "hello_tx = \<lparr>ptx_role = 0, ptx_session = 1, ptx_lane = 1, utx_deadline = 0\<rparr>"

theorem uno_send_writes_frame_witness:
  "\<exists>res woken tx' c'. uno_poll_send (uno_carrier_new [] (\<lambda>_. 5)) hello_tx hello
      = (res, woken, tx', c')
    \<and> res = Ready (Inr ()) \<and> uq_written c' = uart_wire (tx_message hello_tx hello)"
proof -
  obtain res woken tx' c' where p: "uno_poll_send (uno_carrier_new [] (\<lambda>_. 5)) hello_tx hello
      = (res, woken, tx', c')" by (metis prod_cases4)
  have "\<not> send_refused hello_tx hello" "length (out_payload hello) \<le> 128"
    by (simp_all add: send_refused_def hello_tx_def hello_def)
  moreover have "\<not> late hello_tx (uno_carrier_new [] (\<lambda>_. 5)) k" for k
    by (simp add: late_def hello_tx_def uno_carrier_new_def)
  moreover have "uq_written (uno_carrier_new [] (\<lambda>_. 5)) = []"
    by (simp add: uq_written_def uno_carrier_new_def)
  ultimately have "res = Ready (Inr ()) \<and> uq_written c' = uart_wire (tx_message hello_tx hello)"
    using uno_send_writes_frame [OF _ _ p refl] by auto
  with p show ?thesis by blast
qed

text \<open>C22: draining the UART takes bytes until the first negative read and puts on each role's queue,
  in order, exactly the frames of this session that the stream carries for that role from a
  different valid role, up to the room the queue has; every other frame is rejected without effect
  on any queue. The bytes after the negative read are left for the next drain, and a drain whose
  reads never go negative does not return.\<close>

theorem uno_drain_admits:
  assumes "proof_queues_inv (uq_queues c)" and "uart_inv (uq_parser c)"
  shows "(drain_uart session_id c = None \<longleftrightarrow> (\<forall>b \<in> set (uq_reads c). \<not> sint b < 0))
    \<and> (\<forall>(bs :: bytes) stop rest. uq_reads c = map ucast bs @ stop # rest \<and> sint stop < 0 \<longrightarrow>
      (\<exists>c'. drain_uart session_id c = Some c' \<and> uq_reads c' = rest
        \<and> proof_queues_inv (uq_queues c') \<and> uart_inv (uq_parser c')
        \<and> (\<forall>r. role_entries (uq_queues c') r = role_entries (uq_queues c) r
             @ take (24 - length (role_entries (uq_queues c) r))
                 (map uart_entry
                   (filter (\<lambda>f. ucf_session_id f = session_id \<and> ucf_peer f = r \<and> unat r < 5
                        \<and> unat (ucf_source f) < 5 \<and> ucf_source f \<noteq> r)
                      (fst (uart_feed (uq_parser c) bs)))))))"
proof (intro conjI allI impI)
  show "drain_uart session_id c = None \<longleftrightarrow> (\<forall>b \<in> set (uq_reads c). \<not> sint b < 0)"
    by (simp add: drain_uart_def drain_reads_None)
  fix bs :: bytes and stop rest
  assume "uq_reads c = map ucast bs @ stop # rest \<and> sint stop < 0"
  then have stop: "sint stop < 0" "uq_reads c = map ucast bs @ stop # rest" by auto
  let ?fs = "fst (uart_feed (uq_parser c) bs)"
  from drain_reads_effect [OF stop(1), of session_id bs rest c] stop(2) obtain c' where
    c': "drain_uart session_id c = Some c'" "uq_parser c' = snd (uart_feed (uq_parser c) bs)"
      "uq_queues c' = foldl (uart_accept session_id) (uq_queues c) ?fs" "uq_reads c' = rest"
    by (auto simp: drain_uart_def)
  have "\<forall>f \<in> set ?fs. uart_frame_ok f" using uart_feed_ok [OF assms(2)] by blast
  note A = uart_accept_all [OF assms(1) this, of session_id]
  have "(\<lambda>f. admitted session_id f \<and> ucf_peer f = r)
      = (\<lambda>f. ucf_session_id f = session_id \<and> ucf_peer f = r \<and> unat r < 5
          \<and> unat (ucf_source f) < 5 \<and> ucf_source f \<noteq> r)" for r
    by (auto simp: admitted_iff)
  with A c' uart_feed_inv [OF assms(2)] show "\<exists>c'. drain_uart session_id c = Some c'
      \<and> uq_reads c' = rest \<and> proof_queues_inv (uq_queues c') \<and> uart_inv (uq_parser c')
      \<and> (\<forall>r. role_entries (uq_queues c') r = role_entries (uq_queues c) r
           @ take (24 - length (role_entries (uq_queues c) r))
               (map uart_entry
                 (filter (\<lambda>f. ucf_session_id f = session_id \<and> ucf_peer f = r \<and> unat r < 5
                      \<and> unat (ucf_source f) < 5 \<and> ucf_source f \<noteq> r) ?fs)))"
    by auto
qed

definition idle_carrier :: "bytes \<Rightarrow> uno_carrier" where
  "idle_carrier bs = uno_carrier_new (map ucast bs @ [- 1]) (\<lambda>_. 5)"

lemma idle_carrier_simps [simp]:
  "proof_queues_inv (uq_queues (idle_carrier bs))" "uart_inv (uq_parser (idle_carrier bs))"
  "up_len (uq_parser (idle_carrier bs)) = 0" "uq_reads (idle_carrier bs) = map ucast bs @ [- 1]"
  "role_entries (uq_queues (idle_carrier bs)) r = []"
  "uq_parser (idle_carrier bs) = uart_parser_new"
  by (simp_all add: idle_carrier_def uno_carrier_new_def)

theorem uno_drain_admits_witness:
  "\<exists>c'. drain_uart 0x12345678 (idle_carrier (uart_wire uart_sample)) = Some c'
    \<and> role_entries (uq_queues c') 0 = [uart_entry (uart_message_frame uart_sample)]"
proof -
  have fs: "fst (uart_feed uart_parser_new (uart_wire uart_sample)) = [uart_message_frame uart_sample]"
    using uart_feed_messages [of "[uart_sample]" uart_parser_new] uart_message_ok_sample
    by (simp add: uart_parser_new_def uart_inv_def)
  have "sint (- 1 :: i16) < 0" by simp
  with uno_drain_admits [of "idle_carrier (uart_wire uart_sample)" "0x12345678"]
  obtain c' where c': "drain_uart 0x12345678 (idle_carrier (uart_wire uart_sample)) = Some c'"
    "\<forall>r. role_entries (uq_queues c') r = take 24 (map uart_entry
       (filter (\<lambda>f. ucf_session_id f = 0x12345678 \<and> ucf_peer f = r \<and> unat r < 5
          \<and> unat (ucf_source f) < 5 \<and> ucf_source f \<noteq> r) [uart_message_frame uart_sample]))"
    by (fastforce simp: fs)
  then show ?thesis by (simp add: uart_message_frame_def uart_sample_def)
qed

text \<open>C10: a message the host carrier sends to the M33 role reaches it: when every device step
  succeeds the bytes written are one frame, and the M33 carrier, reading these bytes, returns from
  its receive on the message's lane a frame with the session, lane, source, label and payload that
  were sent.\<close>

theorem host_message_reaches_m33:
  assumes "hp_poll_send w hp tx out = (Ready (Inr ()), woken, written, hp')"
    and "out_target out = 0" "unat (ptx_role tx) < 5" "length (out_payload out) \<le> 128"
    and "proof_queues_inv (uq_queues c)" "uart_inv (uq_parser c)" "up_len (uq_parser c) = 0"
    and "uq_reads c = map ucast written @ stop # rest" "sint stop < 0"
    and "proof_rx_ok rx" "prx_role rx = 0" "prx_session rx = ptx_session tx"
      "prx_lane rx = out_lane out"
    and "length (role_entries (uq_queues c) 0) < 24"
      "extract_lane (out_lane out) (role_entries (uq_queues c) 0) = None"
  shows "\<exists>rx' c'. uno_poll_recv c rx = Some (Ready (Inr (proof_received_frame (ptx_session tx)
      (out_lane out) (ptx_role tx) 0 (out_label out) (out_payload out))), True, rx', c')"
proof -
  have ok: "\<not> send_refused tx out" using assms(1) by (auto simp: hp_poll_send_def split: if_splits)
  have "length (replicate 142 0 :: bytes) = 142" by simp
  from encode_uart_frame_bytes [OF this assms(4), of "ptx_session tx" "out_lane out" "ptx_role tx"
      "out_target out" "out_label out"]
  obtain frame where f: "encode_uart_frame (replicate 142 0) (ptx_session tx) (out_lane out)
      (ptx_role tx) (out_target out) (out_label out) (out_payload out)
        = (Inr (14 + length (out_payload out)), frame)"
    "take (14 + length (out_payload out)) frame = uart_wire (tx_message tx out)"
    using assms(4) by (metis tx_message_def uart_wire_bytes)
  have "written = uart_wire (tx_message tx out)"
    using assms(1,2) ok f by (auto simp: hp_poll_send_def dest!: hp_write_bytes_all
        split: if_splits prod.splits bool.splits)
  moreover have "tx_message tx out = (prx_session rx, prx_lane rx, ptx_role tx, prx_role rx,
      out_label out, out_payload out)"
    using assms by (simp add: tx_message_def)
  moreover have "ptx_role tx \<noteq> prx_role rx" using ok assms(2,11) by (auto simp: send_refused_def)
  ultimately show ?thesis
    using uno_receives_message [OF assms(5-7,10), of "tx_message tx out" stop rest "ptx_role tx"
        "out_label out" "out_payload out"] assms by auto
qed

definition hello_m33 :: outgoing where
  "hello_m33 = \<lparr>out_target = 0, out_lane = 1, out_label = 151, out_payload = [104, 105]\<rparr>"

definition good_serial :: serial_writer where
  "good_serial = \<lparr>sw_open_ok = True, sw_modem_ok = True, sw_byte_ok = (\<lambda>_. True)\<rparr>"

definition m33_rx :: uart_rx where
  "m33_rx = \<lparr>prx_role = 0, prx_session = 1, prx_lane = 1, prx_source = 0, prx_label = None,
     prx_hint = None, prx_len = 0, prx_bytes = replicate 128 0, urx_deadline = 0\<rparr>"

lemma hp_write_good: "hp_write_bytes good_serial i bs = (True, bs)"
  by (induction bs arbitrary: i) (auto simp: good_serial_def)

lemma hp_send_hello:
  "hp_poll_send good_serial hp_new (fst (proof_open (session_port 1 1))) hello_m33
    = (Ready (Inr ()), True, uart_wire (1, 1, 1, 0, 151, [104, 105]), hp_new)"
  by (simp add: hp_poll_send_def hello_m33_def send_refused_def proof_open_def session_port_def
      hp_write_good uart_wire_def encode_uart_frame_def Let_def)
    (simp add: good_serial_def)

theorem host_message_reaches_m33_witness:
  "\<exists>rx' c'. uno_poll_recv (idle_carrier (uart_wire (1, 1, 1, 0, 151, [104, 105]))) m33_rx
    = Some (Ready (Inr (proof_received_frame 1 1 1 0 151 [104, 105])), True, rx', c')"
  using host_message_reaches_m33 [OF hp_send_hello, of
      "idle_carrier (uart_wire (1, 1, 1, 0, 151, [104, 105]))" "- 1" "[]" m33_rx]
  by (simp add: hello_m33_def m33_rx_def proof_rx_ok_def proof_open_def session_port_def)

text \<open>C11: a message the M33 sends reaches the host in whatever chunks of at most 64 bytes the
  device hands its frame over: when the send succeeded and the addressed role's queue has room, the
  host's reads of the written bytes all succeed, leave the parser idle, and queue exactly that
  message for exactly that role.\<close>

theorem m33_message_reaches_host:
  assumes "uno_poll_send c tx out = (Ready (Inr ()), woken, tx', c')"
    and "length (out_payload out) \<le> 128" "unat (ptx_role tx) < 5" "unat (out_target out) < 5"
    and "uq_written c' = uq_written c @ concat chunks" "\<forall>ch \<in> set chunks. length ch \<le> 64"
    and "hp_inv hp" "up_len (hp_parser hp) = 0"
    and "length (role_entries (hp_queues hp) (out_target out)) < 24"
  shows "\<exists>hp'. drain_chunks (ptx_session tx) chunks hp = (Inr (), hp')
    \<and> hp_inv hp' \<and> up_len (hp_parser hp') = 0
    \<and> (\<forall>r. role_entries (hp_queues hp') r = role_entries (hp_queues hp) r
         @ (if r = out_target out then [sent_entry (ptx_role tx) out] else []))"
proof -
  let ?m = "tx_message tx out" and ?sid = "ptx_session tx"
  have ok: "\<not> send_refused tx out"
    using assms(1) by (auto simp: uno_poll_send_def Let_def split: if_splits)
  have wire: "concat chunks = uart_wire ?m"
    using uno_send_spec [OF ok assms(2,1) refl] assms(5) by auto
  have mok: "uart_message_ok ?m" using assms(2) by (simp add: tx_message_def uart_message_ok_def)
  have inv: "proof_queues_inv (hp_queues hp)" "uart_inv (hp_parser hp)"
    using assms(7) by (simp_all add: hp_inv_def)
  have fs: "fst (uart_feed (hp_parser hp) (concat chunks)) = [uart_message_frame ?m]"
    using uart_feed_messages [of "[?m]" "hp_parser hp"] inv(2) mok assms(8) by (simp add: wire)
  have fr: "ucf_peer (uart_message_frame ?m) = out_target out"
    "uart_entry (uart_message_frame ?m) = sent_entry (ptx_role tx) out"
    "admitted ?sid (uart_message_frame ?m)"
    using assms(3,4) ok by (auto simp: uart_message_frame_def tx_message_def uart_entry_def
        sent_entry_def admitted_iff send_refused_def)
  have len24: "length (role_entries (hp_queues hp) r) \<le> 24" for r
    using pq_invD(3) [OF proof_queues_invD(2) [OF inv(1)], of "unat r"]
    by (simp add: role_entries_def)
  have fit: "fits ?sid (hp_queues hp) (fst (uart_feed (hp_parser hp) (concat chunks)))"
    using assms(9) len24 by (auto simp: fits_def fs fr)
  let ?hp = "hp\<lparr>hp_parser := snd (uart_feed (hp_parser hp) (concat chunks)),
    hp_queues := foldl (uart_accept ?sid) (hp_queues hp)
      (fst (uart_feed (hp_parser hp) (concat chunks)))\<rparr>"
  have "drain_chunks ?sid chunks hp = (Inr (), ?hp)"
    using drain_chunks_concat [OF assms(6)] hp_receive_fits [OF inv fit] by simp
  moreover have "up_len (hp_parser ?hp) = 0"
    using uart_feed_messages_idle [of "[?m]" "hp_parser hp"] mok inv(2) assms(8) wire by simp
  moreover have "hp_inv ?hp"
    using uart_feed_inv [OF inv(2)] uart_accept_all [OF inv(1)] uart_feed_ok [OF inv(2)]
    by (simp add: hp_inv_def)
  moreover have "role_entries (hp_queues ?hp) r = role_entries (hp_queues hp) r
      @ (if r = out_target out then [sent_entry (ptx_role tx) out] else [])" for r
    using accept_one_message [OF inv(2) assms(8) mok inv(1) fr(3), of r] assms(9)
    by (simp add: wire fr)
  ultimately show ?thesis by blast
qed

theorem m33_message_reaches_host_witness:
  "\<exists>hp'. drain_chunks 1 [uart_wire (tx_message hello_tx hello)] hp_new = (Inr (), hp')
    \<and> role_entries (hp_queues hp') 2 = [sent_entry 0 hello]"
proof -
  obtain res woken tx' c' where p: "uno_poll_send (uno_carrier_new [] (\<lambda>_. 5)) hello_tx hello
      = (res, woken, tx', c')" by (metis prod_cases4)
  have h: "\<not> send_refused hello_tx hello" "length (out_payload hello) \<le> 128"
    by (simp_all add: send_refused_def hello_tx_def hello_def)
  moreover have "\<not> late hello_tx (uno_carrier_new [] (\<lambda>_. 5)) k" for k
    by (simp add: late_def hello_tx_def uno_carrier_new_def)
  ultimately have res: "res = Ready (Inr ())" "uq_written c' = uq_written (uno_carrier_new [] (\<lambda>_. 5))
      @ concat [uart_wire (tx_message hello_tx hello)]"
    using uart_write_success [OF _ _ p] by auto
  have "length (uart_wire (tx_message hello_tx hello)) \<le> 64"
    by (simp add: tx_message_def hello_tx_def hello_def uart_wire_bytes uart_bytes_def uart_body_def)
  then show ?thesis
    using m33_message_reaches_host [OF p [unfolded res(1)] h(2), of "[uart_wire (tx_message hello_tx hello)]" hp_new]
      res(2)
    by (auto simp: hello_tx_def hello_def hp_inv_def hp_new_def uart_parser_new_def uart_inv_def)
qed

text \<open>Among the host roles the host carrier delivers like the in-memory one: over any run of
  sends and receives with the serial device silent, what a role has received on a lane followed by
  what is queued for it is what was accepted for it, in order.\<close>

theorem host_carrier_delivery:
  assumes "run_ops hp_send_op hp_recv_op hp_new ops = (sent, got, c)"
  shows "on_lane role lane sent
    = on_lane role lane got @ filter (\<lambda>e. le_lane e = lane) (role_entries (hp_queues c) role)"
proof -
  have "hp_inv hp_new" by (simp add: hp_inv_def hp_new_def)
  from host_net.run_history [OF this assms, of lane role] show ?thesis by (simp add: hp_new_def)
qed

theorem host_carrier_delivery_witness:
  "on_lane 2 1 (fst (run_ops hp_send_op hp_recv_op hp_new [Op_Send 1 hello, Op_Recv 2 1]))
    = on_lane 2 1 (fst (snd (run_ops hp_send_op hp_recv_op hp_new [Op_Send 1 hello, Op_Recv 2 1])))
    @ filter (\<lambda>e. le_lane e = 1) (role_entries (hp_queues (snd (snd (run_ops hp_send_op hp_recv_op
        hp_new [Op_Send 1 hello, Op_Recv 2 1])))) 2)"
  by (rule host_carrier_delivery, simp only: prod.collapse)

text \<open>When the queue of a message's role is full, the two carriers differ on the messages that
  follow on the line: the M33 drops the one message and queues the next, the host fails the whole
  receive and the next message, already read from the device, is lost with it.\<close>

theorem full_queue_drops:
  assumes "uart_message_ok m" "uart_message_ok m'"
    and "admitted sid (uart_message_frame m)" "admitted sid (uart_message_frame m')"
    and "proof_queues_inv qs" "uart_inv p" "up_len p = 0"
    and "length (role_entries qs (ucf_peer (uart_message_frame m))) = 24"
    and "length (role_entries qs (ucf_peer (uart_message_frame m'))) < 24"
    and "length (uart_wire m @ uart_wire m') \<le> 64"
    and "uq_reads c = map ucast (uart_wire m @ uart_wire m') @ stop # rest" "sint stop < 0"
    and "uq_queues c = qs" "uq_parser c = p"
  shows "(\<exists>c'. drain_uart sid c = Some c' \<and> (\<forall>r. role_entries (uq_queues c') r = role_entries qs r
        @ (if r = ucf_peer (uart_message_frame m') then [uart_entry (uart_message_frame m')] else [])))
    \<and> (\<exists>hp'. drain_serial sid (Read_Bytes (uart_wire m @ uart_wire m'))
          \<lparr>hp_queues = qs, hp_parser = p\<rparr> = (Inl Failed, hp') \<and> hp_queues hp' = qs)"
proof
  let ?f = "uart_message_frame m" and ?g = "uart_message_frame m'"
  let ?bs = "uart_wire m @ uart_wire m'"
  have fs: "fst (uart_feed p ?bs) = [?f, ?g]"
    using uart_feed_messages [of "[m, m']" p] assms(1,2,6,7) by simp
  have fok: "uart_frame_ok ?f" "uart_frame_ok ?g"
    using uart_feed_ok [OF assms(6), of _ ?bs] by (simp_all add: fs)
  have full: "uart_enqueue qs ?f = (Inl Failed, qs)"
    using uart_enqueue_spec [OF assms(5) fok(1)] assms(3,8) by (simp add: admitted_iff)
  have "foldl (uart_accept sid) qs [?f, ?g] = uart_accept sid qs ?g"
    by (simp add: uart_accept_def full)
  moreover have "\<exists>c'. drain_uart sid c = Some c'
      \<and> uq_queues c' = foldl (uart_accept sid) qs (fst (uart_feed p ?bs))"
    using drain_reads_effect [OF assms(12), of sid ?bs rest c] assms(11,13,14)
    by (auto simp: drain_uart_def)
  ultimately show "\<exists>c'. drain_uart sid c = Some c' \<and> (\<forall>r. role_entries (uq_queues c') r
      = role_entries qs r @ (if r = ucf_peer ?g then [uart_entry ?g] else []))"
    using uart_accept_spec [OF assms(5) fok(2), of sid] assms(4,9) by (auto simp: fs)
  show "\<exists>hp'. drain_serial sid (Read_Bytes ?bs) \<lparr>hp_queues = qs, hp_parser = p\<rparr> = (Inl Failed, hp')
      \<and> hp_queues hp' = qs"
    using hp_receive_full [of p "uart_wire m" ?f sid qs "uart_wire m'"] assms fs
      uart_feed_messages [of "[m]" p]
    by (simp add: drain_serial_def admitted_def full)
qed

definition full_queue :: proof_queue where
  "full_queue = push_all pq_push_back_entry proof_queue_empty (replicate 24 (sent_entry 1 hello))"

definition jammed :: proof_queues where
  "jammed = proof_queues_empty[0 := full_queue]"

lemma full_queue: "pq_inv full_queue" "pq_entries full_queue = replicate 24 (sent_entry 1 hello)"
  using pq.push_all_entries [of proof_queue_empty "replicate 24 (sent_entry 1 hello)"]
  by (simp_all add: full_queue_def sent_entry_def hello_def)

lemma jammed: "proof_queues_inv jammed"
  "role_entries jammed r = (if r = 0 then replicate 24 (sent_entry 1 hello) else [])"
proof -
  show "proof_queues_inv jammed"
    unfolding jammed_def by (intro proof_queues_update proof_queues_empty_inv full_queue(1))
  show "role_entries jammed r = (if r = 0 then replicate 24 (sent_entry 1 hello) else [])"
    using role_entries_update [OF proof_queues_empty_inv, of 0 full_queue r]
    by (simp add: jammed_def full_queue(2))
qed

theorem full_queue_drops_witness:
  "\<exists>hp'. drain_serial 1 (Read_Bytes (uart_wire (1, 1, 2, 0, 7, [1]) @ uart_wire (1, 1, 2, 3, 7, [2])))
      \<lparr>hp_queues = jammed, hp_parser = uart_parser_new\<rparr> = (Inl Failed, hp')
    \<and> hp_queues hp' = jammed"
proof -
  let ?bs = "uart_wire (1, 1, 2, 0, 7, [1]) @ uart_wire (1, 1, 2, 3, 7, [2])"
  let ?c = "(idle_carrier ?bs)\<lparr>uq_queues := jammed\<rparr>"
  have "uq_reads ?c = map ucast ?bs @ - 1 # []" "sint (- 1 :: i16) < 0" "uq_queues ?c = jammed"
    "uq_parser ?c = uart_parser_new"
    by (simp_all add: idle_carrier_def uno_carrier_new_def)
  note C = this
  have "length ?bs \<le> 64"
    by (simp add: uart_wire_bytes uart_bytes_def uart_body_def)
  note L = this
  show ?thesis
    using full_queue_drops [OF _ _ _ _ jammed(1) uart_new_inv uart_new_len _ _ L C]
    by (simp add: uart_message_ok_def uart_message_frame_def admitted_iff jammed(2))
qed

end
