(* ===== verification/Sio_Words.thy ===== *)
theory Sio_Words
  imports Stream_Codec
begin

text \<open>
  The word format of the inter-core FIFO of \<open>examples/rp2w-firmware/src/lib.rs\<close>, module
  \<open>rp2350_sio\<close>: the metadata word, the packing of payload bytes into words, the words of a
  pending frame and the receive accumulator \<open>SioRxAccumulator\<close>. A word list is
  \<open>sio_framed\<close> when the accumulator takes it as exactly one frame.
\<close>

section \<open>Constants, metadata and payload words\<close>

definition SIO_FRAME_MAGIC :: u32 where [simp]: "SIO_FRAME_MAGIC = 0x48495301"
definition SIO_FRAME_BYTES :: nat where [simp]: "SIO_FRAME_BYTES = 128"
definition SIO_FRAME_HEADER_WORDS :: nat where [simp]: "SIO_FRAME_HEADER_WORDS = 4"
definition SIO_FRAME_PAYLOAD_WORDS :: nat where [simp]:
  "SIO_FRAME_PAYLOAD_WORDS = (SIO_FRAME_BYTES + 3) div 4"
definition SIO_FRAME_WORDS :: nat where [simp]:
  "SIO_FRAME_WORDS = SIO_FRAME_HEADER_WORDS + SIO_FRAME_PAYLOAD_WORDS"

definition encode_meta :: "u8 \<Rightarrow> u8 \<Rightarrow> u8 \<Rightarrow> nat \<Rightarrow> u32" where
  "encode_meta sender_role peer_role frame_label len =
     push_bit 24 (ucast frame_label) OR push_bit 16 (ucast peer_role)
       OR push_bit 8 (ucast sender_role) OR of_nat len"

definition decode_meta :: "u32 \<Rightarrow> u8 \<times> u8 \<times> u8 \<times> nat" where
  "decode_meta word =
     (let frame_label = ucast (drop_bit 24 word);
          peer_role = ucast (drop_bit 16 word AND 0xff);
          sender_role = ucast (drop_bit 8 word AND 0xff);
          len = unat (word AND 0xff)
      in (sender_role, peer_role, frame_label, len))"

definition payload_word_count :: "nat \<Rightarrow> nat" where
  "payload_word_count len = (len + 3) div 4"

definition pack_payload_word :: "bytes \<Rightarrow> nat \<Rightarrow> u32" where
  "pack_payload_word bytes offset =
     foldl (\<lambda>word idx. if offset + idx < length bytes
                       then word OR push_bit (idx * 8) (ucast (bytes ! (offset + idx)))
                       else word) 0 [0..<4]"

definition unpack_payload_word :: "u32 \<Rightarrow> bytes \<Rightarrow> nat \<Rightarrow> bytes" where
  "unpack_payload_word word bytes offset =
     foldl (\<lambda>bytes idx. if offset + idx < length bytes
                        then bytes[offset + idx := ucast (drop_bit (idx * 8) word AND 0xff)]
                        else bytes) bytes [0..<4]"

section \<open>Frames to send\<close>

record pending_tx_frame =
  ptf_peer_role :: u8
  ptf_frame_label :: u8
  ptf_lane :: u8
  ptf_len :: nat
  ptf_word_index :: nat
  ptf_bytes :: bytes

definition pending_tx_new :: "u8 \<Rightarrow> u8 \<Rightarrow> u8 \<Rightarrow> bytes \<Rightarrow> pending_tx_frame transport_result" where
  "pending_tx_new peer_role frame_label lane bytes =
     (if length bytes > SIO_FRAME_BYTES then Inl Capacity
      else Inr \<lparr>ptf_peer_role = peer_role, ptf_frame_label = frame_label, ptf_lane = lane,
                ptf_len = length bytes, ptf_word_index = 0,
                ptf_bytes = blit 0 bytes (replicate SIO_FRAME_BYTES 0)\<rparr>)"

definition total_words :: "pending_tx_frame \<Rightarrow> nat" where
  "total_words p = SIO_FRAME_HEADER_WORDS + payload_word_count (ptf_len p)"

definition tx_word :: "pending_tx_frame \<Rightarrow> u32 \<Rightarrow> u8 \<Rightarrow> nat \<Rightarrow> u32" where
  "tx_word p session_id local_role index =
     (if index = 0 then SIO_FRAME_MAGIC
      else if index = 1 then session_id
      else if index = 2 then encode_meta local_role (ptf_peer_role p) (ptf_frame_label p) (ptf_len p)
      else if index = 3 then ucast (ptf_lane p)
      else pack_payload_word (take (ptf_len p) (ptf_bytes p))
             ((index - SIO_FRAME_HEADER_WORDS) * 4))"

section \<open>The accumulator\<close>

record sio_frame =
  sf_session_id :: u32
  sf_sender_role :: u8
  sf_peer_role :: u8
  sf_frame_label :: u8
  sf_lane :: u8
  sf_len :: nat
  sf_bytes :: bytes

definition sio_frame_empty :: sio_frame where
  "sio_frame_empty = \<lparr>sf_session_id = 0, sf_sender_role = 0, sf_peer_role = 0,
     sf_frame_label = 0, sf_lane = 0, sf_len = 0, sf_bytes = replicate SIO_FRAME_BYTES 0\<rparr>"

record sio_acc =
  acc_words :: "u32 list"
  acc_word_count :: nat
  acc_expected_words :: nat

definition sio_acc_empty :: sio_acc where
  "sio_acc_empty = \<lparr>acc_words = replicate SIO_FRAME_WORDS 0, acc_word_count = 0,
     acc_expected_words = 0\<rparr>"

definition acc_reset :: "sio_acc \<Rightarrow> sio_acc" where
  "acc_reset a = a\<lparr>acc_word_count := 0, acc_expected_words := 0\<rparr>"

definition is_partial :: "sio_acc \<Rightarrow> bool" where
  "is_partial a \<longleftrightarrow> acc_word_count a \<noteq> 0"

text \<open>The loop that unpacks the payload words into the first \<open>len\<close> bytes.\<close>

function unpack_from :: "u32 list \<Rightarrow> nat \<Rightarrow> nat \<Rightarrow> bytes \<Rightarrow> bytes" where
  "unpack_from words len offset bytes =
     (if offset < len
      then unpack_from words len (offset + 4)
             (unpack_payload_word (words ! (SIO_FRAME_HEADER_WORDS + offset div 4)) bytes offset)
      else bytes)"
  by pat_completeness auto
termination by (relation "measure (\<lambda>(words, len, offset, bytes). len - offset)") auto

declare unpack_from.simps [simp del]

definition acc_frame :: "u32 list \<Rightarrow> sio_frame" where
  "acc_frame words =
     (case decode_meta (words ! 2) of (sender_role, peer_role, frame_label, len) \<Rightarrow>
        \<lparr>sf_session_id = words ! 1, sf_sender_role = sender_role, sf_peer_role = peer_role,
         sf_frame_label = frame_label, sf_lane = ucast (words ! 3), sf_len = len,
         sf_bytes = unpack_from words len 0 (take len (replicate SIO_FRAME_BYTES 0))
           @ drop len (replicate SIO_FRAME_BYTES 0)\<rparr>)"

definition acc_push_word ::
    "sio_acc \<Rightarrow> u32 \<Rightarrow> sio_frame option transport_result \<times> sio_acc" where
  "acc_push_word a word =
     (if acc_word_count a \<ge> SIO_FRAME_WORDS then (Inl Capacity, acc_reset a)
      else
        let a = a\<lparr>acc_words := (acc_words a)[acc_word_count a := word],
                  acc_word_count := acc_word_count a + 1\<rparr>
        in
        if acc_word_count a = 1 \<and> word \<noteq> SIO_FRAME_MAGIC then (Inl Failed, acc_reset a)
        else
          (case decode_meta (acc_words a ! 2) of (sender_role, peer_role, _, len) \<Rightarrow>
             if acc_word_count a = SIO_FRAME_HEADER_WORDS
                \<and> (peer_role = sender_role \<or> len > SIO_FRAME_BYTES)
             then (Inl (if len > SIO_FRAME_BYTES then Capacity else Failed), acc_reset a)
             else
               let a = (if acc_word_count a = SIO_FRAME_HEADER_WORDS
                        then a\<lparr>acc_expected_words := SIO_FRAME_HEADER_WORDS + payload_word_count len\<rparr>
                        else a)
               in
               if acc_expected_words a = 0 \<or> acc_word_count a < acc_expected_words a
               then (Inr None, a)
               else (Inr (Some (acc_frame (acc_words a))), acc_reset a)))"

section \<open>Metadata and payload round trips\<close>

lemma encode_meta_le:
  assumes "len < 256"
  shows "encode_meta s p l len = of_le_bytes32 (of_nat len) s p l"
proof -
  have "(of_nat len :: u32) = ucast (of_nat len :: u8)"
    using assms by (simp add: word_unat_eq_iff unat_of_nat unsigned_ucast_eq take_bit_eq_mod)
  then show ?thesis
    unfolding encode_meta_def of_le_bytes32_def by (simp only: or.commute or.left_commute or.assoc)
qed

lemma and_ff_take_bit: "v AND 0xff = take_bit 8 (v :: u32)"
  by (simp add: take_bit_eq_mask mask_eq_exp_minus_1)

lemma ucast_and_ff [simp]: "ucast (v AND 0xff :: u32) = (ucast v :: u8)"
  unfolding and_ff_take_bit by (rule bit_word_eqI) (auto simp: bit_ucast_iff bit_take_bit_iff)

lemma decode_meta_le:
  "decode_meta w = (le_bytes32 w ! 1, le_bytes32 w ! 2, le_bytes32 w ! 3, unat (le_bytes32 w ! 0))"
proof -
  have "unat (w AND 0xff) = unat (ucast w :: u8)"
    unfolding and_ff_take_bit by (simp add: unsigned_ucast_eq unsigned_take_bit_eq)
  then show ?thesis by (simp add: decode_meta_def le_bytes32_def Let_def)
qed

lemma decode_encode_meta [simp]: "len < 256 \<Longrightarrow> decode_meta (encode_meta s p l len) = (s, p, l, len)"
  by (simp add: encode_meta_le decode_meta_le)

lemma upt_4 [simp]: "[0..<4] = [0, 1, 2, 3]"
  by (simp add: upt_rec)

definition byte_or_0 :: "bytes \<Rightarrow> nat \<Rightarrow> u8" where
  "byte_or_0 bs i = (if i < length bs then bs ! i else 0)"

lemma pack_payload_word_le:
  "pack_payload_word bs off = of_le_bytes32 (byte_or_0 bs off) (byte_or_0 bs (off + 1))
     (byte_or_0 bs (off + 2)) (byte_or_0 bs (off + 3))"
  by (simp add: pack_payload_word_def of_le_bytes32_def byte_or_0_def or.assoc)

lemma length_unpack_payload_word [simp]:
  "length (unpack_payload_word w bs off) = length bs"
  by (simp add: unpack_payload_word_def)

lemma unpack_payload_word_nth:
  assumes "i < length bs"
  shows "unpack_payload_word w bs off ! i
    = (if off \<le> i \<and> i < off + 4 then le_bytes32 w ! (i - off) else bs ! i)"
proof -
  consider "i < off" | "i = off" | "i = off + 1" | "i = off + 2" | "i = off + 3" | "off + 4 \<le> i"
    by linarith
  then show ?thesis
    using assms by cases (simp_all add: unpack_payload_word_def le_bytes32_def nth_list_update
        numeral_2_eq_2 numeral_3_eq_3)
qed

lemma unpack_pack_nth:
  assumes "i < length bs" "length bs = length p"
  shows "unpack_payload_word (pack_payload_word p off) bs off ! i
    = (if off \<le> i \<and> i < off + 4 then p ! i else bs ! i)"
proof -
  consider "i < off" | "i = off" | "i = off + 1" | "i = off + 2" | "i = off + 3" | "off + 4 \<le> i"
    by linarith
  then show ?thesis
    using assms by cases (simp_all add: unpack_payload_word_nth pack_payload_word_le byte_or_0_def)
qed

lemma length_unpack_from [simp]: "length (unpack_from words len off bs) = length bs"
  by (induction words len off bs rule: unpack_from.induct) (subst unpack_from.simps, simp)

lemma word_count_bound: "off < len \<Longrightarrow> off div 4 < payload_word_count len"
  by (simp add: payload_word_count_def)

text \<open>The loop restores the packed bytes.\<close>

lemma unpack_from_packed:
  assumes "\<And>k. k < payload_word_count len \<Longrightarrow> words ! (4 + k) = pack_payload_word p (4 * k)"
    and "length p = len" "length bs = len" "off mod 4 = 0" "take off bs = take off p"
  shows "unpack_from words len off bs = p"
  using assms
proof (induction words len off bs rule: unpack_from.induct)
  case (1 words len off bs)
  show ?case
  proof (cases "off < len")
    case True
    let ?bs = "unpack_payload_word (words ! (4 + off div 4)) bs off"
    have w: "words ! (4 + off div 4) = pack_payload_word p off"
      using 1(2) [OF word_count_bound [OF True]] 1(5) by auto
    have "take (off + 4) ?bs = take (off + 4) p"
    proof (rule nth_equalityI)
      show "length (take (off + 4) ?bs) = length (take (off + 4) p)" using 1 by simp
      fix i assume "i < length (take (off + 4) ?bs)"
      then have i: "i < len" "i < off + 4" using 1(4) by auto
      have "bs ! i = p ! i" if "i < off" using 1(6) that by (metis nth_take)
      then show "take (off + 4) ?bs ! i = take (off + 4) p ! i"
        using i 1(3,4) by (simp add: w unpack_pack_nth)
    qed
    moreover have "(off + 4) mod 4 = 0" using 1(5) by simp
    ultimately have "unpack_from words len (off + 4) ?bs = p"
      using 1(1) [OF True] 1(2-4) by simp
    then show ?thesis using True by (subst unpack_from.simps) simp
  next
    case False
    then show ?thesis using 1 by (subst unpack_from.simps) simp
  qed
qed

lemma unpack_from_cong:
  assumes "\<And>k. k < payload_word_count len \<Longrightarrow> xs ! (4 + k) = ys ! (4 + k)"
  shows "unpack_from xs len off bs = unpack_from ys len off bs"
  using assms
proof (induction xs len off bs rule: unpack_from.induct)
  case (1 xs len off bs)
  then show ?case
    unfolding unpack_from.simps [of xs len off bs] unpack_from.simps [of ys len off bs]
    by (simp add: word_count_bound)
qed

section \<open>The accumulator on framed input\<close>

definition sio_framed :: "u32 list \<Rightarrow> bool" where
  "sio_framed ws \<longleftrightarrow> 4 \<le> length ws \<and> ws ! 0 = 0x48495301
     \<and> (case decode_meta (ws ! 2) of (s, p, _, len) \<Rightarrow>
          p \<noteq> s \<and> len \<le> 128 \<and> length ws = 4 + payload_word_count len)"

definition acc_inv :: "sio_acc \<Rightarrow> bool" where
  "acc_inv a \<longleftrightarrow> length (acc_words a) = 36 \<and> acc_word_count a < 36
     \<and> (acc_word_count a < 4 \<longrightarrow> acc_expected_words a = 0)
     \<and> (0 < acc_word_count a \<longrightarrow> acc_words a ! 0 = 0x48495301)
     \<and> (4 \<le> acc_word_count a \<longrightarrow>
          (case decode_meta (acc_words a ! 2) of (s, p, _, len) \<Rightarrow>
             p \<noteq> s \<and> len \<le> 128 \<and> acc_expected_words a = 4 + payload_word_count len
             \<and> acc_word_count a < acc_expected_words a))"

definition acc_content :: "sio_acc \<Rightarrow> u32 list" where
  "acc_content a = take (acc_word_count a) (acc_words a)"

lemma acc_empty_inv [simp]: "acc_inv sio_acc_empty"
  by (simp add: acc_inv_def sio_acc_empty_def)

lemma acc_reset_inv [simp]: "acc_inv (acc_reset a) \<longleftrightarrow> length (acc_words a) = 36"
  by (simp add: acc_inv_def acc_reset_def)

lemma acc_reset_count [simp]: "acc_word_count (acc_reset a) = 0"
  by (simp add: acc_reset_def)

lemma acc_frame_cong:
  assumes "sio_framed ws" "take (length ws) xs = ws"
  shows "acc_frame xs = acc_frame ws"
proof -
  obtain s p l len where m: "decode_meta (ws ! 2) = (s, p, l, len)"
    by (cases "decode_meta (ws ! 2)")
  have len: "4 \<le> length ws" "length ws = 4 + payload_word_count len"
    using assms(1) m by (auto simp: sio_framed_def)
  have nth: "xs ! i = ws ! i" if "i < length ws" for i
    using assms(2) that by (metis nth_take)
  have "unpack_from xs len 0 bs = unpack_from ws len 0 bs" for bs
    using len by (intro unpack_from_cong nth) simp
  moreover have "xs ! 1 = ws ! 1" "xs ! 2 = ws ! 2" "xs ! 3 = ws ! 3"
    using len by (simp_all add: nth)
  ultimately show ?thesis by (simp add: acc_frame_def m)
qed

text \<open>The push as a stream step: a rejected word is an output too.\<close>

definition acc_step :: "sio_acc \<Rightarrow> u32 \<Rightarrow> sio_frame transport_result option \<times> sio_acc" where
  "acc_step a w = (case acc_push_word a w of
     (Inl e, a') \<Rightarrow> (Some (Inl e), a')
   | (Inr None, a') \<Rightarrow> (None, a')
   | (Inr (Some f), a') \<Rightarrow> (Some (Inr f), a'))"

lemma acc_push_word_sound:
  assumes inv: "acc_inv a"
  shows "acc_inv (snd (acc_push_word a w))
    \<and> (case fst (acc_push_word a w) of
         Inl e \<Rightarrow> acc_word_count (snd (acc_push_word a w)) = 0
           \<and> (acc_word_count a = 0 \<and> w \<noteq> 0x48495301 \<and> e = Failed
             \<or> acc_word_count a = 3 \<and> (case decode_meta (acc_words a ! 2) of (s, p, _, len) \<Rightarrow>
                 e = Capacity \<and> len > 128 \<or> e = Failed \<and> len \<le> 128 \<and> p = s))
       | Inr None \<Rightarrow> acc_content (snd (acc_push_word a w)) = acc_content a @ [w]
           \<and> acc_word_count (snd (acc_push_word a w)) = Suc (acc_word_count a)
       | Inr (Some f) \<Rightarrow> acc_word_count (snd (acc_push_word a w)) = 0
           \<and> sio_framed (acc_content a @ [w]) \<and> f = acc_frame (acc_content a @ [w]))"
proof -
  let ?k = "acc_word_count a" and ?ws = "(acc_words a)[acc_word_count a := w]"
  have I: "length (acc_words a) = 36" "?k < 36" "?k < 4 \<Longrightarrow> acc_expected_words a = 0"
    "0 < ?k \<Longrightarrow> acc_words a ! 0 = 0x48495301"
    "4 \<le> ?k \<Longrightarrow> case decode_meta (acc_words a ! 2) of (s, p, _, len) \<Rightarrow>
       p \<noteq> s \<and> len \<le> 128 \<and> acc_expected_words a = 4 + payload_word_count len
       \<and> ?k < acc_expected_words a"
    using inv by (auto simp: acc_inv_def)
  let ?a = "a\<lparr>acc_words := ?ws, acc_word_count := Suc ?k\<rparr>"
  have take: "take (Suc ?k) ?ws = acc_content a @ [w]"
    using I(1,2) by (simp add: acc_content_def take_Suc_conv_app_nth)
  obtain s p l len where m: "decode_meta (?ws ! 2) = (s, p, l, len)" by (cases "decode_meta (?ws ! 2)")
  consider (magic) "?k = 0" "w \<noteq> 0x48495301" | (header) "?k = 0 \<and> w = 0x48495301 \<or> ?k = 1 \<or> ?k = 2"
    | (bad) "?k = 3" "p = s \<or> len > 128" | (meta) "?k = 3" "p \<noteq> s" "len \<le> 128" | (body) "4 \<le> ?k"
    by linarith
  then show ?thesis
  proof cases
    case magic
    then have "acc_push_word a w = (Inl Failed, acc_reset ?a)"
      using I by (simp add: acc_push_word_def Let_def)
    then show ?thesis using magic I by (simp add: acc_inv_def acc_reset_def)
  next
    case header
    then have "acc_push_word a w = (Inr None, ?a)"
      using I m by (auto simp: acc_push_word_def Let_def)
    then show ?thesis using header I take by (auto simp: acc_inv_def acc_content_def)
  next
    case bad
    then have "acc_push_word a w = (Inl (if len > 128 then Capacity else Failed), acc_reset ?a)"
      using I m by (simp add: acc_push_word_def Let_def)
    moreover have "decode_meta (acc_words a ! 2) = (s, p, l, len)" using m bad(1) by simp
    ultimately show ?thesis using bad I by (auto simp: acc_inv_def acc_reset_def)
  next
    case meta
    let ?b = "?a\<lparr>acc_expected_words := 4 + payload_word_count len\<rparr>"
    have pwc: "payload_word_count len \<le> 32" using meta(3) by (simp add: payload_word_count_def)
    have w0: "?ws ! 0 = 0x48495301" using I(4) meta(1) by simp
    show ?thesis
    proof (cases "len = 0")
      case True
      have push: "acc_push_word a w = (Inr (Some (acc_frame ?ws)), acc_reset ?b)"
        using I m meta True by (simp add: acc_push_word_def Let_def payload_word_count_def acc_reset_def)
      have c: "length (acc_content a @ [w]) = 4" "(acc_content a @ [w]) ! 0 = ?ws ! 0"
        "(acc_content a @ [w]) ! 2 = ?ws ! 2"
        unfolding take [symmetric] using I(1) meta(1) by simp_all
      from c have fr: "sio_framed (acc_content a @ [w])"
        using m meta True w0 unfolding sio_framed_def by (simp add: payload_word_count_def)
      have eq: "acc_frame ?ws = acc_frame (acc_content a @ [w])"
        by (rule acc_frame_cong [OF fr]) (use c(1) take meta(1) in simp)
      show ?thesis unfolding push eq using I(1) fr by simp
    next
      case False
      then have "0 < payload_word_count len" by (simp add: payload_word_count_def)
      then have "acc_push_word a w = (Inr None, ?b)"
        using I m meta by (simp add: acc_push_word_def Let_def)
      then show ?thesis
        using I m meta w0 take pwc \<open>0 < payload_word_count len\<close>
        by (auto simp: acc_inv_def acc_content_def)
    qed
  next
    case body
    then have ws: "?ws ! 0 = acc_words a ! 0" "?ws ! 2 = acc_words a ! 2" by simp_all
    from I(5) [OF body] m have e: "p \<noteq> s" "len \<le> 128"
      "acc_expected_words a = 4 + payload_word_count len" "?k < acc_expected_words a"
      unfolding ws by auto
    have pwc: "payload_word_count len \<le> 32" using e(2) by (simp add: payload_word_count_def)
    show ?thesis
    proof (cases "Suc ?k < acc_expected_words a")
      case True
      then have "acc_push_word a w = (Inr None, ?a)"
        using I m e body by (simp add: acc_push_word_def Let_def)
      then show ?thesis
        using I m e body ws take True pwc by (auto simp: acc_inv_def acc_content_def)
    next
      case False
      then have len: "Suc ?k = acc_expected_words a" using e(4) by simp
      have push: "acc_push_word a w = (Inr (Some (acc_frame ?ws)), acc_reset ?a)"
        using I m e body len by (simp add: acc_push_word_def Let_def)
      have c: "length (acc_content a @ [w]) = Suc ?k" "(acc_content a @ [w]) ! 0 = ?ws ! 0"
        "(acc_content a @ [w]) ! 2 = ?ws ! 2"
        unfolding take [symmetric] using I(1,2) body by simp_all
      from c have fr: "sio_framed (acc_content a @ [w])"
        using m e len body ws I(4) unfolding sio_framed_def by simp
      have eq: "acc_frame ?ws = acc_frame (acc_content a @ [w])"
        by (rule acc_frame_cong [OF fr]) (use c(1) take in simp)
      show ?thesis unfolding push eq using I(1) fr by simp
    qed
  qed
qed

lemma sio_framed_meta:
  assumes "sio_framed w"
  obtains s p l len where "decode_meta (w ! 2) = (s, p, l, len)" "p \<noteq> s" "len \<le> 128"
    "length w = 4 + payload_word_count len" "w ! 0 = 0x48495301"
  using assms by (cases "decode_meta (w ! 2)") (auto simp: sio_framed_def)

lemma acc_step_framed:
  assumes inv: "acc_inv a" and w: "sio_framed w" and k: "acc_word_count a = k" "k < length w"
    and c: "acc_content a = take k w"
  shows "\<exists>a'. acc_inv a' \<and> (if Suc k < length w
      then acc_step a (w ! k) = (None, a') \<and> acc_word_count a' = Suc k
        \<and> acc_content a' = take (Suc k) w
      else acc_step a (w ! k) = (Some (Inr (acc_frame w)), a') \<and> acc_word_count a' = 0)"
proof -
  from w obtain s p l len where m: "decode_meta (w ! 2) = (s, p, l, len)" "p \<noteq> s" "len \<le> 128"
    "length w = 4 + payload_word_count len" "w ! 0 = 0x48495301" by (rule sio_framed_meta)
  have len: "length (acc_words a) = 36" "k < 36" using inv k(1) by (auto simp: acc_inv_def)
  have nth: "acc_words a ! i = w ! i" if "i < k" for i
    using c that k by (metis acc_content_def nth_take)
  have snoc: "take k w @ [w ! k] = take (Suc k) w" using k(2) by (simp add: take_Suc_conv_app_nth)
  obtain r a' where push: "acc_push_word a (w ! k) = (r, a')" by (cases "acc_push_word a (w ! k)")
  note S = acc_push_word_sound [OF inv, of "w ! k", unfolded push fst_conv snd_conv c snoc k(1)]
  then have inv': "acc_inv a'" by blast
  show ?thesis
  proof (cases r)
    case (Inl e)
    with S m nth [of 2] show ?thesis by (auto split: if_splits)
  next
    case (Inr ro)
    show ?thesis
    proof (cases ro)
      case None
      with S Inr have cnt: "acc_content a' = take (Suc k) w" "acc_word_count a' = Suc k" by auto
      have "Suc k < length w"
      proof (cases "4 \<le> Suc k")
        case True
        have "acc_words a' ! 2 = w ! 2"
          using arg_cong [OF cnt(1), of "\<lambda>xs. xs ! 2"] cnt(2) True by (simp add: acc_content_def)
        then show ?thesis using inv' True m cnt(2) by (auto simp: acc_inv_def)
      qed (use m in simp)
      with cnt inv' push Inr None show ?thesis by (auto simp: acc_step_def)
    next
      case (Some f)
      with S Inr have f: "acc_word_count a' = 0" "sio_framed (take (Suc k) w)"
        "f = acc_frame (take (Suc k) w)" by auto
      have lt: "length (take (Suc k) w) = Suc k" using k(2) by simp
      from f(2) have "4 \<le> Suc k" unfolding sio_framed_def lt by blast
      then have "take (Suc k) w ! 2 = w ! 2" by simp
      with f(2) m have "Suc k = length w" unfolding sio_framed_def lt by simp
      with f inv' push Inr Some show ?thesis by (auto simp: acc_step_def)
    qed
  qed
qed

lemma feed_framed_from:
  assumes "acc_inv a" "sio_framed w" "acc_word_count a = k" "k < length w" "acc_content a = take k w"
  shows "\<exists>a'. acc_inv a' \<and> acc_word_count a' = 0
    \<and> feed acc_step a (drop k w) = ([Inr (acc_frame w)], a')"
  using assms
proof (induction "length w - Suc k" arbitrary: k a)
  case 0
  then have d: "drop k w = [w ! k]" by (simp add: Cons_nth_drop_Suc [symmetric])
  have "\<not> Suc k < length w" using 0(1) by simp
  with acc_step_framed [OF 0(2-6)] show ?case by (auto simp: d)
next
  case (Suc d)
  then have d: "drop k w = w ! k # drop (Suc k) w" "Suc k < length w"
    by (simp_all add: Cons_nth_drop_Suc)
  from acc_step_framed [OF Suc(3-7)] d(2) obtain a' where
    a': "acc_inv a'" "acc_step a (w ! k) = (None, a')" "acc_word_count a' = Suc k"
      "acc_content a' = take (Suc k) w" by auto
  have "d = length w - Suc (Suc k)" using Suc(2) by simp
  from Suc(1) [OF this a'(1) Suc(4) a'(3) d(2) a'(4)] a'(2) show ?case by (simp add: d(1))
qed

section \<open>The words of a sent frame\<close>

type_synonym sio_message = "u32 \<times> u8 \<times> pending_tx_frame"

definition sio_wire :: "sio_message \<Rightarrow> u32 list" where
  "sio_wire m = (case m of (session_id, local_role, p) \<Rightarrow>
     map (tx_word p session_id local_role) [0..<total_words p])"

definition sio_message_ok :: "sio_message \<Rightarrow> bool" where
  "sio_message_ok m = (case m of (_, local_role, p) \<Rightarrow>
     ptf_len p \<le> 128 \<and> length (ptf_bytes p) = 128 \<and> ptf_peer_role p \<noteq> local_role)"

definition sio_message_frame :: "sio_message \<Rightarrow> sio_frame" where
  "sio_message_frame m = (case m of (session_id, local_role, p) \<Rightarrow>
     \<lparr>sf_session_id = session_id, sf_sender_role = local_role, sf_peer_role = ptf_peer_role p,
      sf_frame_label = ptf_frame_label p, sf_lane = ptf_lane p, sf_len = ptf_len p,
      sf_bytes = take (ptf_len p) (ptf_bytes p) @ replicate (128 - ptf_len p) 0\<rparr>)"

lemma sio_wire_nth:
  "i < 4 + payload_word_count (ptf_len p) \<Longrightarrow> sio_wire (sid, r, p) ! i = tx_word p sid r i"
  by (simp add: sio_wire_def total_words_def)

lemma sio_wire_framed:
  assumes "sio_message_ok m"
  shows "sio_framed (sio_wire m)" "acc_frame (sio_wire m) = sio_message_frame m"
proof -
  obtain sid r p where m: "m = (sid, r, p)" by (cases m) auto
  have ok: "ptf_len p \<le> 128" "length (ptf_bytes p) = 128" "ptf_peer_role p \<noteq> r"
    using assms by (simp_all add: m sio_message_ok_def)
  have len: "length (sio_wire m) = 4 + payload_word_count (ptf_len p)"
    by (simp add: m sio_wire_def total_words_def)
  have h: "sio_wire m ! 0 = 0x48495301" "sio_wire m ! 1 = sid"
    "sio_wire m ! 2 = encode_meta r (ptf_peer_role p) (ptf_frame_label p) (ptf_len p)"
    "sio_wire m ! 3 = ucast (ptf_lane p)"
    by (simp_all add: m sio_wire_nth tx_word_def)
  show "sio_framed (sio_wire m)"
    using ok len by (simp add: sio_framed_def h [simplified])
  have un: "unpack_from (sio_wire m) (ptf_len p) 0 (take (ptf_len p) (replicate 128 0))
      = take (ptf_len p) (ptf_bytes p)"
  proof (rule unpack_from_packed)
    fix k assume "k < payload_word_count (ptf_len p)"
    then show "sio_wire m ! (4 + k) = pack_payload_word (take (ptf_len p) (ptf_bytes p)) (4 * k)"
      by (simp add: m sio_wire_nth tx_word_def mult.commute)
  qed (use ok in simp_all)
  have "ucast (ucast (ptf_lane p) :: u32) = ptf_lane p"
    by (simp add: ucast_up_ucast_id is_up)
  then have "acc_frame (sio_wire m) = sio_message_frame (sid, r, p)"
    using ok un by (simp add: acc_frame_def h [simplified] sio_message_frame_def min_def)
  then show "acc_frame (sio_wire m) = sio_message_frame m" by (simp add: m)
qed

interpretation sio_codec: stream_codec sio_message_ok sio_wire "\<lambda>m. Inr (sio_message_frame m)"
  acc_step "\<lambda>a. acc_inv a \<and> acc_word_count a = 0"
proof (unfold_locales, goal_cases)
  case (1 a m)
  have "0 < length (sio_wire m)" using sio_wire_framed(1) [OF 1(2)] by (auto simp: sio_framed_def)
  from feed_framed_from [OF _ sio_wire_framed(1) [OF 1(2)] _ this, of a] 1
  show ?case by (auto simp: acc_content_def sio_wire_framed(2))
qed

lemma acc_step_sound:
  assumes "acc_inv a"
  shows "acc_inv (snd (acc_step a w))
    \<and> (case fst (acc_step a w) of
         None \<Rightarrow> acc_content (snd (acc_step a w)) = acc_content a @ [w]
       | Some (Inl e) \<Rightarrow> acc_word_count (snd (acc_step a w)) = 0
       | Some (Inr f) \<Rightarrow> acc_word_count (snd (acc_step a w)) = 0
           \<and> sio_framed (acc_content a @ [w]) \<and> f = acc_frame (acc_content a @ [w]))"
  using acc_push_word_sound [OF assms, of w]
  by (cases "acc_push_word a w") (auto simp: acc_step_def split: sum.splits option.splits)

lemma acc_feed_sound:
  assumes "acc_inv a" and "Inr f \<in> set (fst (feed acc_step a ws))"
  shows "\<exists>pre w post. acc_content a @ ws = pre @ w @ post \<and> sio_framed w \<and> f = acc_frame w"
  using assms
proof (induction ws arbitrary: a)
  case (Cons v ws)
  obtain ev a' where step: "acc_step a v = (ev, a')" by (cases "acc_step a v")
  note S = acc_step_sound [OF Cons.prems(1), of v, unfolded step fst_conv snd_conv]
  show ?case
  proof (cases "ev = Some (Inr f)")
    case True
    with S have "sio_framed (acc_content a @ [v])" "f = acc_frame (acc_content a @ [v])" by auto
    then show ?thesis
      by (intro exI [of _ "[]"] exI [of _ "acc_content a @ [v]"] exI [of _ ws]) simp
  next
    case False
    with Cons.prems(2) step have "Inr f \<in> set (fst (feed acc_step a' ws))"
      by (auto split: option.splits)
    from Cons.IH [OF S [THEN conjunct1] this] obtain pre w post where
      w: "acc_content a' @ ws = pre @ w @ post" "sio_framed w" "f = acc_frame w" by blast
    have "acc_content a' = [] \<or> acc_content a' = acc_content a @ [v]"
      using S by (auto simp: acc_content_def split: option.splits sum.splits)
    then have "\<exists>pre. acc_content a @ v # ws = pre @ w @ post"
    proof
      assume "acc_content a' = []"
      then show ?thesis using w(1) by (intro exI [of _ "acc_content a @ v # pre"]) simp
    qed (use w(1) in auto)
    with w show ?thesis by blast
  qed
qed simp

section \<open>Frames as the transports hold and return them\<close>

definition sio_frame_ok :: "sio_frame \<Rightarrow> bool" where
  "sio_frame_ok f \<longleftrightarrow> length (sf_bytes f) = 128 \<and> sf_len f \<le> 128"

definition sio_frame_received :: "u8 \<Rightarrow> sio_frame \<Rightarrow> received" where
  "sio_frame_received role f =
     \<lparr>recv_header = be_bytes32 (sf_session_id f)
        @ [sf_lane f, sf_sender_role f, role, sf_frame_label f],
      recv_payload = take (sf_len f) (sf_bytes f)\<rparr>"

lemma acc_frame_ok:
  assumes "sio_framed w"
  shows "sio_frame_ok (acc_frame w)" "sf_peer_role (acc_frame w) \<noteq> sf_sender_role (acc_frame w)"
proof -
  from assms obtain s p l len where "decode_meta (w ! 2) = (s, p, l, len)" "p \<noteq> s" "len \<le> 128"
    by (rule sio_framed_meta)
  then show "sio_frame_ok (acc_frame w)" "sf_peer_role (acc_frame w) \<noteq> sf_sender_role (acc_frame w)"
    by (simp_all add: acc_frame_def sio_frame_ok_def min_def)
qed

text \<open>Both transports treat every core but 0 as core 1.\<close>

abbreviation same_core :: "u8 \<Rightarrow> u8 \<Rightarrow> bool" where
  "same_core c c' \<equiv> (c = 0) = (c' = 0)"

section \<open>Properties\<close>

text \<open>The words of any sequence of frames, pushed one after the other into an accumulator at
  rest, come out as exactly those frames in order, with no error, and the accumulator is at rest
  again: session, roles, label, lane and every payload byte survive the packing into words.\<close>

theorem sio_stream_roundtrip:
  assumes "\<forall>m \<in> set ms. sio_message_ok m"
  shows "\<exists>a. feed acc_step sio_acc_empty (concat (map sio_wire ms))
      = (map (\<lambda>m. Inr (sio_message_frame m)) ms, a) \<and> acc_word_count a = 0"
  using sio_codec.stream_feed [of sio_acc_empty ms] assms
  by (auto simp: sio_acc_empty_def acc_inv_def)

definition sio_sample :: sio_message where
  "sio_sample = (7, 0, \<lparr>ptf_peer_role = 1, ptf_frame_label = 33, ptf_lane = 2, ptf_len = 5,
     ptf_word_index = 0, ptf_bytes = [1, 2, 3, 4, 5] @ replicate 123 0\<rparr>)"

lemma sio_sample_ok: "sio_message_ok sio_sample"
  by (simp add: sio_message_ok_def sio_sample_def)

theorem sio_stream_roundtrip_witness:
  "\<exists>a. feed acc_step sio_acc_empty (sio_wire sio_sample @ sio_wire sio_sample)
      = ([Inr (sio_message_frame sio_sample), Inr (sio_message_frame sio_sample)], a)
    \<and> acc_word_count a = 0"
  using sio_stream_roundtrip [of "[sio_sample, sio_sample]"] sio_sample_ok by simp

text \<open>On any stream of words the accumulator yields a frame only for a contiguous part of the
  stream that starts with the magic word, names two different roles and a length of at most 128
  bytes in its metadata, and has exactly the words this length needs.\<close>

theorem sio_accumulator_sound:
  assumes "Inr f \<in> set (fst (feed acc_step sio_acc_empty ws))"
  shows "\<exists>pre w post. ws = pre @ w @ post \<and> sio_framed w \<and> f = acc_frame w"
  using acc_feed_sound [OF acc_empty_inv assms] by (simp add: acc_content_def sio_acc_empty_def)

theorem sio_accumulator_sound_witness:
  "\<exists>pre w post. sio_wire sio_sample = pre @ w @ post \<and> sio_framed w
    \<and> sio_message_frame sio_sample = acc_frame w"
proof (rule sio_accumulator_sound)
  have "\<exists>a. feed acc_step sio_acc_empty (concat (map sio_wire [sio_sample]))
      = (map (\<lambda>m. Inr (sio_message_frame m)) [sio_sample], a)"
    using sio_codec.stream_feed [of sio_acc_empty "[sio_sample]"] sio_sample_ok
    by (auto simp: sio_acc_empty_def acc_inv_def)
  then show "Inr (sio_message_frame sio_sample)
      \<in> set (fst (feed acc_step sio_acc_empty (sio_wire sio_sample)))" by auto
qed

text \<open>Every push keeps the accumulator within its buffer; a word is refused only as a wrong
  first word (failed), or when the fourth word completes a header with equal roles (failed) or a
  length over 128 bytes (capacity), and after a refusal the accumulator is at rest.\<close>

theorem sio_accumulator_errors:
  assumes "acc_inv a" and "acc_push_word a w = (r, a')"
  shows "acc_inv a'
    \<and> (\<forall>e. r = Inl e \<longrightarrow> acc_word_count a' = 0
        \<and> (acc_word_count a = 0 \<and> w \<noteq> SIO_FRAME_MAGIC \<and> e = Failed
          \<or> acc_word_count a = 3 \<and> (case decode_meta (acc_words a ! 2) of (sender, peer, _, len) \<Rightarrow>
              e = Capacity \<and> len > SIO_FRAME_BYTES
              \<or> e = Failed \<and> len \<le> SIO_FRAME_BYTES \<and> peer = sender)))
    \<and> (\<forall>f. r = Inr (Some f) \<longrightarrow> acc_word_count a' = 0)
    \<and> (r = Inr None \<longrightarrow> acc_word_count a' = Suc (acc_word_count a))"
  using acc_push_word_sound [OF assms(1), of w] unfolding assms(2)
  by (auto split: sum.splits option.splits)

theorem sio_accumulator_errors_witness:
  "\<exists>a'. acc_push_word sio_acc_empty 5 = (Inl Failed, a') \<and> acc_inv a' \<and> acc_word_count a' = 0"
proof -
  have "acc_push_word sio_acc_empty 5 = (Inl Failed, snd (acc_push_word sio_acc_empty 5))"
    by (simp add: acc_push_word_def sio_acc_empty_def Let_def)
  with sio_accumulator_errors [OF acc_empty_inv this] show ?thesis by blast
qed

end
