(* ===== verification/Frame_Stash.thy ===== *)
theory Frame_Stash
  imports Pico_Prelude
begin

text \<open>
  The contract of the one-place buffers of the transports. \<open>slot_store\<close> is all a run of puts
  and takes needs: an accepted put fills the empty place of its message, a take that returns a
  frame empties the place it names, and every other call leaves the places as they are.
  \<open>keyed_stash\<close> is the stricter contract of the stashes both inter-core transports keep for
  frames that arrived for somebody else, where the key alone decides the outcome of a call.
\<close>

datatype ('m, 'k) stash_op = Stash_Put 'm | Stash_Take 'k

text \<open>The messages accepted and the frames taken by a run, oldest first.\<close>

fun run_stash ::
    "('m \<Rightarrow> 's \<Rightarrow> unit transport_result \<times> 's) \<Rightarrow> ('k \<Rightarrow> 's \<Rightarrow> 'f option \<times> 's) \<Rightarrow> 's \<Rightarrow>
       ('m, 'k) stash_op list \<Rightarrow> 'm list \<times> ('k \<times> 'f) list \<times> 's" where
  "run_stash put_op take_op s [] = ([], [], s)"
| "run_stash put_op take_op s (Stash_Put f # ops) =
     (case put_op f s of (r, s1) \<Rightarrow>
        (case run_stash put_op take_op s1 ops of (put, got, s2) \<Rightarrow>
           (if r = Inr () then (f # put, got, s2) else (put, got, s2))))"
| "run_stash put_op take_op s (Stash_Take k # ops) =
     (case take_op k s of (r, s1) \<Rightarrow>
        (case run_stash put_op take_op s1 ops of (put, got, s2) \<Rightarrow>
           (case r of None \<Rightarrow> (put, got, s2) | Some f \<Rightarrow> (put, (k, f) # got, s2))))"

definition opt_list :: "'a option \<Rightarrow> 'a list" where
  "opt_list x = (case x of None \<Rightarrow> [] | Some a \<Rightarrow> [a])"

lemma opt_list_simps [simp]: "opt_list None = []" "opt_list (Some a) = [a]"
  by (simp_all add: opt_list_def)

locale slot_store =
  fixes put_op :: "'m \<Rightarrow> 's \<Rightarrow> unit transport_result \<times> 's"
    and take_op :: "'k \<Rightarrow> 's \<Rightarrow> 'f option \<times> 's"
    and held :: "'s \<Rightarrow> 'l \<Rightarrow> 'f option"
    and img :: "'m \<Rightarrow> 'f"
    and place :: "'m \<Rightarrow> 'l"
    and loc :: "'k \<Rightarrow> 'l"
    and inv :: "'s \<Rightarrow> bool"
    and ok :: "'m \<Rightarrow> bool"
  assumes put_done: "inv s \<Longrightarrow> ok m \<Longrightarrow> put_op m s = (Inr (), s') \<Longrightarrow> inv s' \<and> held s (place m) = None
      \<and> (\<forall>l. held s' l = (if l = place m then Some (img m) else held s l))"
    and put_error: "inv s \<Longrightarrow> ok m \<Longrightarrow> put_op m s = (Inl e, s') \<Longrightarrow> inv s' \<and> (\<forall>l. held s' l = held s l)"
    and take_done: "inv s \<Longrightarrow> take_op k s = (Some f, s') \<Longrightarrow> inv s' \<and> held s (loc k) = Some f
      \<and> (\<forall>l. held s' l = (if l = loc k then None else held s l))"
    and take_empty: "inv s \<Longrightarrow> take_op k s = (None, s') \<Longrightarrow> inv s' \<and> (\<forall>l. held s' l = held s l)"
begin

text \<open>Each place hands out what was put into it, in order, and holds at most the last frame.\<close>

lemma store_history:
  assumes "inv s" and "\<forall>m. Stash_Put m \<in> set ops \<longrightarrow> ok m"
    and "run_stash put_op take_op s ops = (put, got, s')"
  shows "inv s' \<and> opt_list (held s l) @ map img (filter (\<lambda>m. place m = l) put)
    = map snd (filter (\<lambda>p. loc (fst p) = l) got) @ opt_list (held s' l)"
  using assms
proof (induction ops arbitrary: s put got)
  case (Cons op ops)
  have oks: "\<forall>m. Stash_Put m \<in> set ops \<longrightarrow> ok m" using Cons.prems(2) by simp
  show ?case
  proof (cases op)
    case (Stash_Put m)
    have m: "ok m" using Cons.prems(2) Stash_Put by simp
    obtain r s1 where p: "put_op m s = (r, s1)" by (cases "put_op m s")
    obtain put1 got1 where t: "run_stash put_op take_op s1 ops = (put1, got1, s')"
      "got = got1" "put = (if r = Inr () then m # put1 else put1)"
      using Cons.prems(3) p by (auto simp: Stash_Put split: prod.splits if_splits)
    show ?thesis
    proof (cases r)
      case (Inl e)
      with put_error [OF Cons.prems(1) m] p have "inv s1" "\<forall>l. held s1 l = held s l" by auto
      with Cons.IH [OF _ oks t(1)] t Inl show ?thesis by simp
    next
      case (Inr u)
      with put_done [OF Cons.prems(1) m] p have "inv s1" "held s (place m) = None"
        "\<forall>l. held s1 l = (if l = place m then Some (img m) else held s l)" by auto
      with Cons.IH [OF _ oks t(1)] t Inr show ?thesis by (auto split: if_splits)
    qed
  next
    case (Stash_Take k)
    obtain r s1 where p: "take_op k s = (r, s1)" by (cases "take_op k s")
    obtain put1 got1 where t: "run_stash put_op take_op s1 ops = (put1, got1, s')"
      "put = put1" "got = (case r of None \<Rightarrow> got1 | Some f \<Rightarrow> (k, f) # got1)"
      using Cons.prems(3) p by (auto simp: Stash_Take split: prod.splits option.splits)
    show ?thesis
    proof (cases r)
      case None
      with take_empty [OF Cons.prems(1)] p have "inv s1" "\<forall>l. held s1 l = held s l" by auto
      with Cons.IH [OF _ oks t(1)] t None show ?thesis by simp
    next
      case (Some f)
      with take_done [OF Cons.prems(1)] p have "inv s1" "held s (loc k) = Some f"
        "\<forall>l. held s1 l = (if l = loc k then None else held s l)" by auto
      with Cons.IH [OF _ oks t(1)] t Some show ?thesis by auto
    qed
  qed
qed simp

end

locale keyed_stash =
  fixes put_op :: "'f \<Rightarrow> 's \<Rightarrow> unit transport_result \<times> 's"
    and take_op :: "'k \<Rightarrow> 's \<Rightarrow> 'f option \<times> 's"
    and held :: "'s \<Rightarrow> 'k \<Rightarrow> 'f option"
    and key :: "'f \<Rightarrow> 'k"
    and valid :: "'k \<Rightarrow> bool"
    and inv :: "'s \<Rightarrow> bool"
    and ok :: "'f \<Rightarrow> bool"
  assumes put_free: "inv s \<Longrightarrow> ok f \<Longrightarrow> valid (key f) \<Longrightarrow> held s (key f) = None \<Longrightarrow>
      \<exists>s'. put_op f s = (Inr (), s') \<and> inv s' \<and> (\<forall>k. held s' k = (if k = key f then Some f else held s k))"
    and put_refused: "inv s \<Longrightarrow> ok f \<Longrightarrow> \<not> (valid (key f) \<and> held s (key f) = None) \<Longrightarrow>
      \<exists>e. put_op f s = (Inl e, s)"
    and take_None: "inv s \<Longrightarrow> held s k = None \<Longrightarrow> take_op k s = (None, s)"
    and take_Some: "inv s \<Longrightarrow> held s k = Some f \<Longrightarrow>
      \<exists>s'. take_op k s = (Some f, s') \<and> inv s' \<and> (\<forall>k'. held s' k' = (if k' = k then None else held s k'))"
begin

text \<open>A frame that was put is the one the next take of its role returns.\<close>

lemma put_take:
  assumes "inv s" "ok f" "put_op f s = (Inr (), s')"
  shows "\<exists>s''. take_op (key f) s' = (Some f, s'') \<and> inv s'' \<and> (\<forall>k. held s'' k = held s k)"
proof -
  have "valid (key f) \<and> held s (key f) = None"
    using put_refused [OF assms(1,2)] assms(3) by fastforce
  with put_free [OF assms(1,2)] assms(3) have
    s': "inv s'" "\<forall>k. held s' k = (if k = key f then Some f else held s k)" "held s (key f) = None"
    by auto
  with take_Some [OF s'(1), of "key f" f] show ?thesis by auto
qed

end

sublocale keyed_stash \<subseteq> slot_store put_op take_op held "\<lambda>f. f" key "\<lambda>k. k" inv ok
proof unfold_locales
  fix s m s'
  assume h: "inv s" "ok m" "put_op m s = (Inr (), s')"
  then have "valid (key m) \<and> held s (key m) = None" using put_refused [OF h(1,2)] by fastforce
  with h put_free [OF h(1,2)]
  show "inv s' \<and> held s (key m) = None
      \<and> (\<forall>l. held s' l = (if l = key m then Some m else held s l))" by auto
next
  fix s m e s'
  assume h: "inv s" "ok m" "put_op m s = (Inl e, s')"
  with put_free [OF h(1,2)] put_refused [OF h(1,2)]
  show "inv s' \<and> (\<forall>l. held s' l = held s l)" by fastforce
next
  fix s k f s'
  assume h: "inv s" "take_op k s = (Some f, s')"
  then have "held s k = Some f"
    using take_None [OF h(1)] take_Some [OF h(1), of k] by (cases "held s k") auto
  with h take_Some [OF h(1)]
  show "inv s' \<and> held s k = Some f \<and> (\<forall>l. held s' l = (if l = k then None else held s l))"
    by fastforce
next
  fix s k s'
  assume h: "inv s" "take_op k s = (None, s')"
  then have "held s k = None" using take_Some [OF h(1), of k] by (cases "held s k") auto
  with h take_None [OF h(1)] show "inv s' \<and> (\<forall>l. held s' l = held s l)" by simp
qed

context keyed_stash
begin

lemma run_history:
  assumes "inv s" and "\<forall>f. Stash_Put f \<in> set ops \<longrightarrow> ok f"
    and "run_stash put_op take_op s ops = (put, got, s')"
  shows "inv s' \<and> opt_list (held s k) @ filter (\<lambda>f. key f = k) put
    = map snd (filter (\<lambda>p. fst p = k) got) @ opt_list (held s' k)"
  using store_history [OF assms, of k] by simp

end

end
