(* ===== verification/Sio_Rp2w.thy ===== *)
theory Sio_Rp2w
  imports Sio_Words Frame_Stash
begin

text \<open>
  The inter-core transport of the RP2350 firmware, \<open>rp2350_sio::SioTransport\<close> in
  \<open>examples/rp2w-firmware/src/lib.rs\<close>. The hardware FIFO is a parameter: a send is given the
  answers of its successive readiness checks, a receive the results of its successive pops, where
  \<open>None\<close> is an empty FIFO; past the end of either list the FIFO is full or empty. The value
  of the status register is an argument. Trace words, direction counters, the event signal to the
  other core and wake-ups are recorded in a log.
\<close>

section \<open>State\<close>

datatype sio_event =
  Sio_Trace u32
| Sio_Dir_Tx u8 u8
| Sio_Dir_Rx u8 u8
| Sio_Signal
| Sio_Poll_Seen
| Sio_Pending_Seen
| Sio_Ready_Seen
| Sio_Status u32
| Sio_Wake
| Sio_Clear_Errors

record sio_tx =
  stx_role :: u8
  stx_core :: u8
  stx_session :: u32
  stx_sent :: u16
  stx_pending :: "pending_tx_frame option"

record sio_rx =
  srx_role :: u8
  srx_core :: u8
  srx_lane :: u8
  srx_session :: u32
  srx_frame_session :: u32
  srx_frame_lane :: u8
  srx_requeued :: bool
  srx_delivered :: bool
  srx_pending_logged :: bool
  srx_pending_polls :: u32
  srx_sender :: u8
  srx_label :: "u8 option"
  srx_deadline :: u32
  srx_len :: nat
  srx_bytes :: bytes

record stashed_frame =
  st_occupied :: bool
  st_frame :: sio_frame

definition stashed_empty :: stashed_frame where
  "stashed_empty = \<lparr>st_occupied = False, st_frame = sio_frame_empty\<rparr>"

definition SIO_RX_STASH_ROLES :: nat where [simp]: "SIO_RX_STASH_ROLES = 16"

text \<open>The statics of the module, for both cores.\<close>

record sio_mem =
  sm_acc0 :: sio_acc
  sm_acc1 :: sio_acc
  sm_stash0 :: "stashed_frame list"
  sm_stash1 :: "stashed_frame list"
  sm_log :: "sio_event list"

definition sio_mem_empty :: sio_mem where
  "sio_mem_empty = \<lparr>sm_acc0 = sio_acc_empty, sm_acc1 = sio_acc_empty,
     sm_stash0 = replicate SIO_RX_STASH_ROLES stashed_empty,
     sm_stash1 = replicate SIO_RX_STASH_ROLES stashed_empty, sm_log = []\<rparr>"

definition logs :: "sio_event list \<Rightarrow> sio_mem \<Rightarrow> sio_mem" where
  "logs evs mem = mem\<lparr>sm_log := sm_log mem @ evs\<rparr>"

definition rx_accumulator :: "sio_mem \<Rightarrow> u8 \<Rightarrow> sio_acc" where
  "rx_accumulator mem core_id = (if core_id = 0 then sm_acc0 mem else sm_acc1 mem)"

definition put_accumulator :: "u8 \<Rightarrow> sio_acc \<Rightarrow> sio_mem \<Rightarrow> sio_mem" where
  "put_accumulator core_id a mem =
     (if core_id = 0 then mem\<lparr>sm_acc0 := a\<rparr> else mem\<lparr>sm_acc1 := a\<rparr>)"

definition rx_stash :: "sio_mem \<Rightarrow> u8 \<Rightarrow> stashed_frame list" where
  "rx_stash mem core_id = (if core_id = 0 then sm_stash0 mem else sm_stash1 mem)"

definition put_stash :: "u8 \<Rightarrow> nat \<Rightarrow> stashed_frame \<Rightarrow> sio_mem \<Rightarrow> sio_mem" where
  "put_stash core_id i s mem =
     (if core_id = 0 then mem\<lparr>sm_stash0 := (sm_stash0 mem)[i := s]\<rparr>
      else mem\<lparr>sm_stash1 := (sm_stash1 mem)[i := s]\<rparr>)"

definition stash_slot :: "u8 \<Rightarrow> nat option" where
  "stash_slot role = (if unat role < SIO_RX_STASH_ROLES then Some (unat role) else None)"

definition take_stashed_frame :: "u8 \<Rightarrow> u8 \<Rightarrow> sio_mem \<Rightarrow> sio_frame option \<times> sio_mem" where
  "take_stashed_frame core_id role mem =
     (case stash_slot role of
        None \<Rightarrow> (None, mem)
      | Some i \<Rightarrow>
          if \<not> st_occupied (rx_stash mem core_id ! i) then (None, mem)
          else (Some (st_frame (rx_stash mem core_id ! i)), put_stash core_id i stashed_empty mem))"

definition stash_frame :: "u8 \<Rightarrow> sio_frame \<Rightarrow> sio_mem \<Rightarrow> unit transport_result \<times> sio_mem" where
  "stash_frame core_id frame mem =
     (case stash_slot (sf_peer_role frame) of
        None \<Rightarrow> (Inl Capacity, mem)
      | Some i \<Rightarrow>
          if st_occupied (rx_stash mem core_id ! i) then (Inl Capacity, mem)
          else (Inr (), put_stash core_id i \<lparr>st_occupied = True, st_frame = frame\<rparr> mem))"

definition stage_frame :: "sio_rx \<Rightarrow> sio_frame \<Rightarrow> sio_rx" where
  "stage_frame rx frame =
     rx\<lparr>srx_frame_session := sf_session_id frame, srx_frame_lane := sf_lane frame,
        srx_label := Some (sf_frame_label frame), srx_sender := sf_sender_role frame,
        srx_len := sf_len frame, srx_delivered := True,
        srx_bytes := blit 0 (take (sf_len frame) (sf_bytes frame)) (srx_bytes rx)\<rparr>"

definition frame_targets_rx_lane :: "sio_frame \<Rightarrow> sio_rx \<Rightarrow> bool" where
  "frame_targets_rx_lane frame rx \<longleftrightarrow> sf_lane frame = srx_lane rx"

definition rp2w_role_core :: "u8 \<Rightarrow> u8 outcome" where
  "rp2w_role_core role =
     (if role = 0 \<or> role = 2 then Done 0 else if role = 1 then Done 1 else Panic)"

definition trace_frame :: "u8 \<Rightarrow> u8 \<Rightarrow> u8 \<Rightarrow> nat \<Rightarrow> u8 \<Rightarrow> u32" where
  "trace_frame event local_role peer_role len frame_label =
     0x50000000 OR push_bit 24 (ucast event) OR push_bit 20 (ucast local_role)
       OR push_bit 16 (ucast peer_role) OR push_bit 8 (of_nat len AND 0xff) OR ucast frame_label"

section \<open>Open and send\<close>

definition sio_rx_new :: "u8 \<Rightarrow> u32 \<Rightarrow> u8 \<Rightarrow> u32 \<Rightarrow> u8 \<Rightarrow> sio_rx" where
  "sio_rx_new local_role session_id lane deadline core_id =
     \<lparr>srx_role = local_role, srx_core = core_id, srx_lane = lane, srx_session = session_id,
      srx_frame_session = session_id, srx_frame_lane = lane, srx_requeued = False,
      srx_delivered = False, srx_pending_logged = False, srx_pending_polls = 0, srx_sender = 0,
      srx_label = None, srx_deadline = deadline, srx_len = 0,
      srx_bytes = replicate SIO_FRAME_BYTES 0\<rparr>"

definition open_with_tx_session_xor ::
    "u8 \<Rightarrow> port_open \<Rightarrow> u32 \<Rightarrow> u32 \<Rightarrow> sio_mem \<Rightarrow> (sio_tx \<times> sio_rx) \<times> sio_mem" where
  "open_with_tx_session_xor core_id port tx_session_xor deadline mem =
     ((\<lparr>stx_role = port_role port, stx_core = core_id,
        stx_session = port_session port XOR tx_session_xor, stx_sent = 0, stx_pending = None\<rparr>,
       sio_rx_new (port_role port) (port_session port) (port_lane port) deadline core_id),
      logs [Sio_Clear_Errors] mem)"

definition sio_open :: "u8 \<Rightarrow> port_open \<Rightarrow> sio_mem \<Rightarrow> (sio_tx \<times> sio_rx) \<times> sio_mem" where
  "sio_open core_id port mem =
     ((\<lparr>stx_role = port_role port, stx_core = core_id, stx_session = port_session port,
        stx_sent = 0, stx_pending = None\<rparr>,
       sio_rx_new (port_role port) (port_session port) (port_lane port) 0 core_id),
      logs [Sio_Clear_Errors] mem)"

text \<open>The loop that pushes the remaining words while the FIFO has room.\<close>

fun push_words :: "bool list \<Rightarrow> u32 \<Rightarrow> u8 \<Rightarrow> pending_tx_frame \<Rightarrow> bool \<times> pending_tx_frame \<times> u32 list" where
  "push_words ready session_id local_role p =
     (if ptf_word_index p \<ge> total_words p then (True, p, [])
      else case ready of
        [] \<Rightarrow> (False, p, [])
      | ok # ready' \<Rightarrow>
          if \<not> ok then (False, p, [])
          else
            let word = tx_word p session_id local_role (ptf_word_index p) in
            (case push_words ready' session_id local_role
                    (p\<lparr>ptf_word_index := ptf_word_index p + 1\<rparr>) of
               (completed, p', ws) \<Rightarrow> (completed, p', word # ws)))"

declare push_words.simps [simp del]

definition sio_poll_send ::
    "bool list \<Rightarrow> u32 \<Rightarrow> sio_tx \<Rightarrow> outgoing \<Rightarrow> sio_mem \<Rightarrow>
       (unit transport_result poll \<times> u32 list \<times> sio_tx \<times> sio_mem) outcome" where
  "sio_poll_send ready fifo_status tx out mem =
     (let bytes = out_payload out; target = out_target out; role = stx_role tx;
          len = length bytes; label = out_label out in
      if target = role then
        Done (Ready (Inr ()), [], tx\<lparr>stx_sent := sat_inc16 (stx_sent tx)\<rparr>,
              logs [Sio_Trace (trace_frame 6 role target len label)] mem)
      else if len > SIO_FRAME_BYTES then Done (Ready (Inl Capacity), [], tx, mem)
      else bind_outcome (rp2w_role_core target) (\<lambda>core.
        if core = stx_core tx then
          let frame = sio_frame_empty\<lparr>sf_session_id := stx_session tx, sf_sender_role := role,
                sf_peer_role := target, sf_frame_label := label, sf_lane := out_lane out,
                sf_len := len, sf_bytes := blit 0 bytes (sf_bytes sio_frame_empty)\<rparr> in
          (case stash_frame (stx_core tx) frame mem of
             (Inl e, mem) \<Rightarrow> Done (Ready (Inl e), [], tx, mem)
           | (Inr _, mem) \<Rightarrow>
               Done (Ready (Inr ()), [], tx\<lparr>stx_sent := sat_inc16 (stx_sent tx)\<rparr>,
                     logs [Sio_Trace (trace_frame 14 role target len label), Sio_Wake] mem))
        else
          let send = (\<lambda>p mem.
                case push_words ready (stx_session tx) role p of
                  (False, p', ws) \<Rightarrow>
                    Done (Pending, ws, tx\<lparr>stx_pending := Some p'\<rparr>, logs [Sio_Wake] mem)
                | (True, p', ws) \<Rightarrow>
                    Done (Ready (Inr ()), ws,
                          tx\<lparr>stx_pending := None, stx_sent := sat_inc16 (stx_sent tx)\<rparr>,
                          logs [Sio_Trace (trace_frame 8 role (ptf_peer_role p')
                                  (unat (fifo_status AND 0xff)) (ptf_frame_label p')),
                                Sio_Dir_Tx role (ptf_peer_role p'), Sio_Signal] mem)) in
          (case stx_pending tx of
             Some p \<Rightarrow> send p mem
           | None \<Rightarrow>
               let mem = logs [Sio_Trace (trace_frame 1 role target len label),
                     Sio_Trace (trace_frame 11 role target (unat (out_lane out)) label)] mem in
               (case pending_tx_new target label (out_lane out) bytes of
                  Inl e \<Rightarrow> Done (Ready (Inl e), [], tx, mem)
                | Inr p \<Rightarrow> send p mem))))"

definition sio_cancel_send :: "sio_tx \<Rightarrow> sio_tx" where
  "sio_cancel_send tx = tx\<lparr>stx_sent := 0, stx_pending := None\<rparr>"

section \<open>Receive\<close>

text \<open>The header and payload of the staged frame; a header without a label panics.\<close>

definition sio_received :: "sio_rx \<Rightarrow> received outcome" where
  "sio_received rx =
     (case srx_label rx of
        None \<Rightarrow> Panic
      | Some label \<Rightarrow> Done \<lparr>recv_header = be_bytes32 (srx_frame_session rx)
            @ [srx_frame_lane rx, srx_sender rx, srx_role rx, label],
          recv_payload = take (srx_len rx) (srx_bytes rx)\<rparr>)"

type_synonym sio_result = "received transport_result poll outcome"

definition deliver :: "sio_rx \<Rightarrow> sio_result" where
  "deliver rx = bind_outcome (sio_received rx) (\<lambda>f. Done (Ready (Inr f)))"

text \<open>What a pop that found the FIFO empty does before it waits or gives up.\<close>

definition recv_empty :: "u32 \<Rightarrow> sio_rx \<Rightarrow> sio_mem \<Rightarrow> sio_rx \<times> sio_mem" where
  "recv_empty fifo_status rx mem =
     (let rx = rx\<lparr>srx_pending_polls := srx_pending_polls rx + 1\<rparr>;
          role = srx_role rx;
          mem = (if role = 1 then logs [Sio_Pending_Seen, Sio_Status (0x54528000
                   OR push_bit 12 (fifo_status AND 0xff) OR (srx_pending_polls rx AND 0x0fff))] mem
                 else mem);
          mem = (if \<not> srx_pending_logged rx
                 then logs [Sio_Trace (trace_frame 7 role role (unat (srx_lane rx)) 0)] mem else mem);
          rx = rx\<lparr>srx_pending_logged := True\<rparr>;
          mem = (if is_partial (rx_accumulator mem (srx_core rx)) then logs [Sio_Wake] mem else mem)
      in (rx, mem))"

datatype recv_step = Recv_Continue sio_rx sio_mem | Recv_Return sio_result sio_rx sio_mem

text \<open>Putting a frame that is not for this receiver into the stash.\<close>

definition restash :: "u8 \<Rightarrow> sio_frame \<Rightarrow> u32 \<Rightarrow> sio_rx \<Rightarrow> sio_mem \<Rightarrow> recv_step" where
  "restash core_id frame trace rx mem =
     (case stash_frame core_id frame mem of
        (Inl e, mem) \<Rightarrow> Recv_Return (Done (Ready (Inl e))) rx mem
      | (Inr _, mem) \<Rightarrow> Recv_Continue rx (logs [Sio_Trace trace, Sio_Wake] mem))"

text \<open>What happens to a complete frame.\<close>

definition recv_frame :: "sio_frame \<Rightarrow> sio_rx \<Rightarrow> sio_mem \<Rightarrow> recv_step" where
  "recv_frame frame rx mem =
     (let role = srx_role rx in
      if sf_peer_role frame \<noteq> role then
        restash (srx_core rx) frame
          (trace_frame 12 role (sf_peer_role frame) (sf_len frame) (sf_frame_label frame)) rx mem
      else if \<not> frame_targets_rx_lane frame rx then
        restash (srx_core rx) frame
          (trace_frame 10 role (sf_sender_role frame) (unat (sf_lane frame))
             (sf_frame_label frame)) rx mem
      else
        let rx = stage_frame rx frame;
            mem = logs [Sio_Dir_Rx role (sf_sender_role frame),
              Sio_Trace (trace_frame 2 role (sf_sender_role frame) (sf_len frame)
                (sf_frame_label frame))] mem
        in Recv_Return (deliver rx) rx mem)"

definition recv_word :: "u32 \<Rightarrow> sio_rx \<Rightarrow> sio_mem \<Rightarrow> recv_step" where
  "recv_word word rx mem =
     (let mem = (if srx_role rx = 1 then logs [Sio_Ready_Seen] mem else mem);
          rx = rx\<lparr>srx_pending_logged := False, srx_pending_polls := 0\<rparr>
      in
      case acc_push_word (rx_accumulator mem (srx_core rx)) word of (res, acc) \<Rightarrow>
        let mem = put_accumulator (srx_core rx) acc mem in
        (case res of
           Inl e \<Rightarrow> Recv_Return (Done (Ready (Inl e))) rx mem
         | Inr None \<Rightarrow> Recv_Continue rx mem
         | Inr (Some frame) \<Rightarrow> recv_frame frame rx mem))"

fun recv_loop ::
    "u32 \<Rightarrow> u32 option list \<Rightarrow> sio_rx \<Rightarrow> sio_mem \<Rightarrow>
       sio_result \<times> sio_rx \<times> sio_mem \<times> u32 option list" where
  "recv_loop fs [] rx mem =
     (case recv_empty fs rx mem of (rx, mem) \<Rightarrow>
        (Done (if srx_deadline rx \<noteq> 0 then Ready (Inl Deadline) else Pending), rx, mem, []))"
| "recv_loop fs (Some word # pops) rx mem =
     (case recv_word word rx mem of
        Recv_Continue rx mem \<Rightarrow> recv_loop fs pops rx mem
      | Recv_Return res rx mem \<Rightarrow> (res, rx, mem, pops))"
| "recv_loop fs [None] rx mem =
     (case recv_empty fs rx mem of (rx, mem) \<Rightarrow>
        (Done (if srx_deadline rx \<noteq> 0 then Ready (Inl Deadline) else Pending), rx, mem, []))"
| "recv_loop fs (None # None # pops) rx mem =
     (case recv_empty fs rx mem of (rx, mem) \<Rightarrow>
        if srx_deadline rx \<noteq> 0 then (Done (Ready (Inl Deadline)), rx, mem, pops)
        else (Done Pending, rx, mem, None # pops))"
| "recv_loop fs (None # Some word # pops) rx mem =
     (case recv_empty fs rx mem of (rx, mem) \<Rightarrow>
        if srx_deadline rx \<noteq> 0 then
          (case recv_word word (rx\<lparr>srx_pending_logged := False, srx_pending_polls := 0\<rparr>) mem of
             Recv_Continue rx mem \<Rightarrow> recv_loop fs pops rx mem
           | Recv_Return res rx mem \<Rightarrow> (res, rx, mem, pops))
        else (Done Pending, rx, mem, Some word # pops))"

text \<open>A frame already handed out is dropped at the next poll.\<close>

definition drop_delivered :: "sio_rx \<Rightarrow> sio_rx" where
  "drop_delivered rx =
     (if srx_label rx \<noteq> None
      then rx\<lparr>srx_label := None, srx_delivered := False, srx_pending_logged := False,
              srx_pending_polls := 0, srx_len := 0, srx_frame_session := srx_session rx,
              srx_frame_lane := srx_lane rx\<rparr>
      else rx)"

definition sio_poll_recv ::
    "u32 \<Rightarrow> u32 option list \<Rightarrow> sio_rx \<Rightarrow> sio_mem \<Rightarrow>
       sio_result \<times> sio_rx \<times> sio_mem \<times> u32 option list" where
  "sio_poll_recv fs pops rx mem =
     (let role = srx_role rx;
          mem = (if role = 1 then logs [Sio_Poll_Seen] mem else mem) in
      if srx_label rx \<noteq> None \<and> (srx_requeued rx \<or> \<not> srx_delivered rx) then
        let rx = rx\<lparr>srx_requeued := False, srx_delivered := True, srx_pending_logged := False,
                    srx_pending_polls := 0\<rparr>;
            mem = logs [Sio_Trace (trace_frame 3 role role (srx_len rx) (the (srx_label rx)))] mem
        in (deliver rx, rx, mem, pops)
      else
        let rx = drop_delivered rx in
        (case take_stashed_frame (srx_core rx) role mem of
           (Some frame, mem) \<Rightarrow>
             if \<not> frame_targets_rx_lane frame rx then
               (case stash_frame (srx_core rx) frame mem of
                  (Inl e, mem) \<Rightarrow> (Done (Ready (Inl e)), rx, mem, pops)
                | (Inr _, mem) \<Rightarrow>
                    (Done Pending, rx,
                     logs [Sio_Trace (trace_frame 15 role (sf_sender_role frame)
                             (unat (sf_lane frame)) (sf_frame_label frame)), Sio_Wake] mem, pops))
             else
               let rx = stage_frame rx frame;
                   mem = logs [Sio_Dir_Rx role (sf_sender_role frame),
                     Sio_Trace (trace_frame 13 role (sf_sender_role frame) (sf_len frame)
                       (sf_frame_label frame))] mem
               in (deliver rx, rx, mem, pops)
         | (None, mem) \<Rightarrow> recv_loop fs pops rx mem))"

definition sio_requeue :: "sio_rx \<Rightarrow> sio_mem \<Rightarrow> unit transport_result \<times> sio_rx \<times> sio_mem" where
  "sio_requeue rx mem =
     (let rx = rx\<lparr>srx_requeued := srx_label rx \<noteq> None\<rparr> in
      if srx_requeued rx then
        (Inr (), rx\<lparr>srx_delivered := False\<rparr>,
         logs [Sio_Trace (trace_frame 4 (srx_role rx) (srx_role rx) (srx_len rx)
                 (the (srx_label rx)))] mem)
      else (Inr (), rx, mem))"

section \<open>Memory accessors\<close>

lemma sio_mem_access [simp]:
  "rx_stash (logs evs mem) c = rx_stash mem c"
  "rx_accumulator (logs evs mem) c = rx_accumulator mem c"
  "rx_stash (put_accumulator c a mem) c' = rx_stash mem c'"
  "rx_accumulator (put_accumulator c a mem) c' = (if same_core c c' then a else rx_accumulator mem c')"
  "rx_accumulator (put_stash c i s mem) c' = rx_accumulator mem c'"
  "rx_stash (put_stash c i s mem) c'
     = (if same_core c c' then (rx_stash mem c')[i := s] else rx_stash mem c')"
  by (auto simp: rx_stash_def logs_def rx_accumulator_def put_accumulator_def put_stash_def)

lemma logs_Nil [simp]: "logs [] mem = mem"
  by (simp add: logs_def)

definition sio_mem_inv :: "sio_mem \<Rightarrow> bool" where
  "sio_mem_inv mem \<longleftrightarrow> (\<forall>c. acc_inv (rx_accumulator mem c) \<and> length (rx_stash mem c) = 16
     \<and> (\<forall>s \<in> set (rx_stash mem c). sio_frame_ok (st_frame s)))"

definition srx_ok :: "sio_rx \<Rightarrow> bool" where
  "srx_ok rx \<longleftrightarrow> length (srx_bytes rx) = 128 \<and> srx_len rx \<le> 128"

text \<open>The frame a role finds in the stash of its core.\<close>

definition stashed :: "sio_mem \<Rightarrow> u8 \<Rightarrow> u8 \<Rightarrow> sio_frame option" where
  "stashed mem c role =
     (if unat role < 16 \<and> st_occupied (rx_stash mem c ! unat role)
      then Some (st_frame (rx_stash mem c ! unat role)) else None)"

lemma sio_mem_invD:
  assumes "sio_mem_inv mem"
  shows "acc_inv (rx_accumulator mem c)" "length (rx_stash mem c) = 16"
    "s \<in> set (rx_stash mem c) \<Longrightarrow> sio_frame_ok (st_frame s)"
  using assms by (auto simp: sio_mem_inv_def)

lemma sio_mem_empty_inv [simp]: "sio_mem_inv sio_mem_empty"
  by (auto simp: sio_mem_inv_def sio_mem_empty_def rx_accumulator_def rx_stash_def
      stashed_empty_def sio_frame_empty_def sio_frame_ok_def)

lemma stashed_empty_mem [simp]: "stashed sio_mem_empty c r = None"
  by (auto simp: stashed_def rx_stash_def sio_mem_empty_def stashed_empty_def)

lemma logs_inv [simp]: "sio_mem_inv (logs evs mem) = sio_mem_inv mem"
  by (simp add: sio_mem_inv_def)

lemma stashed_logs [simp]: "stashed (logs evs mem) c r = stashed mem c r"
  "stashed (put_accumulator c' a mem) c r = stashed mem c r"
  by (simp_all add: stashed_def)

lemma put_accumulator_inv [inv_intros]:
  "sio_mem_inv mem \<Longrightarrow> acc_inv a \<Longrightarrow> sio_mem_inv (put_accumulator c a mem)"
  by (simp add: sio_mem_inv_def)

lemma put_stash_inv [inv_intros]:
  "sio_mem_inv mem \<Longrightarrow> sio_frame_ok (st_frame s) \<Longrightarrow> sio_mem_inv (put_stash c i s mem)"
  by (auto simp: sio_mem_inv_def dest!: set_update_subset_insert [THEN subsetD])

lemma stashed_put_stash:
  assumes "sio_mem_inv mem" "unat role < 16"
  shows "stashed (put_stash c (unat role) s mem) c' r
    = (if same_core c c' \<and> r = role then (if st_occupied s then Some (st_frame s) else None)
       else stashed mem c' r)"
  using assms sio_mem_invD(2) [OF assms(1), of c']
  by (cases "r = role") (auto simp: stashed_def word_unat_eq_iff)

lemma take_stashed_spec:
  assumes "sio_mem_inv mem"
  shows "case stashed mem c role of
      None \<Rightarrow> take_stashed_frame c role mem = (None, mem)
    | Some f \<Rightarrow> \<exists>mem'. take_stashed_frame c role mem = (Some f, mem') \<and> sio_mem_inv mem'
        \<and> sio_frame_ok f \<and> (\<forall>c. rx_accumulator mem' c = rx_accumulator mem c)
        \<and> (\<forall>c' r. stashed mem' c' r
             = (if same_core c c' \<and> r = role then None else stashed mem c' r))"
proof (cases "unat role < 16 \<and> st_occupied (rx_stash mem c ! unat role)")
  case True
  then have r: "unat role < 16" "st_occupied (rx_stash mem c ! unat role)" by auto
  have ok: "sio_frame_ok (st_frame (rx_stash mem c ! unat role))"
    using sio_mem_invD(2,3) [OF assms] r(1) by (metis nth_mem)
  have e: "sio_frame_ok (st_frame stashed_empty)" "\<not> st_occupied stashed_empty"
    by (simp_all add: stashed_empty_def sio_frame_ok_def sio_frame_empty_def)
  have t: "take_stashed_frame c role mem = (Some (st_frame (rx_stash mem c ! unat role)),
      put_stash c (unat role) stashed_empty mem)"
    using r by (simp add: take_stashed_frame_def stash_slot_def)
  have s: "stashed mem c role = Some (st_frame (rx_stash mem c ! unat role))"
    using r by (simp add: stashed_def)
  show ?thesis
    using ok e stashed_put_stash [OF assms r(1), of c stashed_empty]
      put_stash_inv [OF assms e(1), of c "unat role"] by (simp add: s t)
next
  case False
  then show ?thesis by (auto simp: stashed_def take_stashed_frame_def stash_slot_def)
qed

lemma stash_frame_spec:
  assumes "sio_mem_inv mem" "sio_frame_ok f"
  shows "if unat (sf_peer_role f) < 16 \<and> stashed mem c (sf_peer_role f) = None
    then \<exists>mem'. stash_frame c f mem = (Inr (), mem') \<and> sio_mem_inv mem'
      \<and> (\<forall>c. rx_accumulator mem' c = rx_accumulator mem c)
      \<and> (\<forall>c' r. stashed mem' c' r
           = (if same_core c c' \<and> r = sf_peer_role f then Some f else stashed mem c' r))
    else stash_frame c f mem = (Inl Capacity, mem)"
proof (cases "unat (sf_peer_role f) < 16 \<and> stashed mem c (sf_peer_role f) = None")
  case True
  then have r: "unat (sf_peer_role f) < 16" "\<not> st_occupied (rx_stash mem c ! unat (sf_peer_role f))"
    by (auto simp: stashed_def)
  let ?s = "\<lparr>st_occupied = True, st_frame = f\<rparr>"
  have "stash_frame c f mem = (Inr (), put_stash c (unat (sf_peer_role f)) ?s mem)"
    using r by (simp add: stash_frame_def stash_slot_def)
  then show ?thesis
    using True stashed_put_stash [OF assms(1) r(1), of c ?s] put_stash_inv [OF assms(1), of ?s]
      assms(2) by simp
next
  case False
  then show ?thesis by (auto simp: stashed_def stash_frame_def stash_slot_def)
qed

text \<open>The stash of one core keeps the contract.\<close>

interpretation rp_stash: keyed_stash "stash_frame c" "take_stashed_frame c"
  "\<lambda>mem. stashed mem c" sf_peer_role "\<lambda>r. unat r < 16" sio_mem_inv sio_frame_ok
  for c
proof (unfold_locales, goal_cases)
  case (1 s f)
  then show ?case using stash_frame_spec [OF 1(1,2), of c] by auto
next
  case (2 s f)
  then show ?case using stash_frame_spec [OF 2(1,2), of c] by auto
next
  case (3 s k)
  then show ?case using take_stashed_spec [OF 3(1), of c k] by simp
next
  case (4 s k f)
  then show ?case using take_stashed_spec [OF 4(1), of c k] by auto
qed

section \<open>Sending\<close>

lemma push_words_spec:
  assumes "ptf_word_index p \<le> total_words p" and "push_words ready sid r p = (fin, p', ws)"
  shows "p' = p\<lparr>ptf_word_index := ptf_word_index p'\<rparr>
    \<and> ptf_word_index p \<le> ptf_word_index p' \<and> ptf_word_index p' \<le> total_words p
    \<and> ws = map (tx_word p sid r) [ptf_word_index p..<ptf_word_index p']
    \<and> fin = (ptf_word_index p' = total_words p)
    \<and> (\<not> fin \<longrightarrow> ready \<noteq> [] \<longrightarrow> hd ready \<longrightarrow> ptf_word_index p < ptf_word_index p')"
  using assms
proof (induction ready arbitrary: p fin p' ws)
  case Nil
  then show ?case by (auto simp: push_words.simps split: if_splits)
next
  case (Cons ok ready)
  show ?case
  proof (cases "ptf_word_index p = total_words p \<or> \<not> ok")
    case True
    then show ?thesis
      using Cons.prems by (auto simp: push_words.simps [of "ok # ready"] split: if_splits)
  next
    case False
    then have lt: "ptf_word_index p < total_words p" and ok using Cons.prems(1) by auto
    let ?p = "p\<lparr>ptf_word_index := ptf_word_index p + 1\<rparr>"
    obtain ws' where ws': "push_words ready sid r ?p = (fin, p', ws')"
      "ws = tx_word p sid r (ptf_word_index p) # ws'"
      using Cons.prems(2) lt \<open>ok\<close>
      by (auto simp: push_words.simps [of "True # ready"] Let_def split: prod.splits)
    have tot: "total_words ?p = total_words p" and word: "tx_word ?p = tx_word p"
      by (auto simp: total_words_def tx_word_def fun_eq_iff)
    have "ptf_word_index ?p \<le> total_words ?p" unfolding tot using lt by simp
    from Cons.IH [OF this ws'(1)] show ?thesis
      unfolding tot word ws'(2) using lt by (auto simp: upt_conv_Cons)
  qed
qed

text \<open>Repeated polls of one send until it is no longer pending.\<close>

fun send_polls ::
    "u32 \<Rightarrow> outgoing \<Rightarrow> bool list list \<Rightarrow> sio_tx \<Rightarrow> sio_mem \<Rightarrow>
       (unit transport_result poll \<times> u32 list \<times> sio_tx \<times> sio_mem) outcome" where
  "send_polls fs out [] tx mem = Done (Pending, [], tx, mem)"
| "send_polls fs out (ready # readies) tx mem =
     bind_outcome (sio_poll_send ready fs tx out mem) (\<lambda>(res, ws, tx, mem).
       case res of
         Ready r \<Rightarrow> Done (Ready r, ws, tx, mem)
       | Pending \<Rightarrow>
           bind_outcome (send_polls fs out readies tx mem)
             (\<lambda>(res, ws', tx, mem). Done (res, ws @ ws', tx, mem)))"

definition other_core :: "sio_tx \<Rightarrow> outgoing \<Rightarrow> bool" where
  "other_core tx out \<longleftrightarrow> out_target out \<noteq> stx_role tx \<and> length (out_payload out) \<le> 128
     \<and> (\<exists>c. rp2w_role_core (out_target out) = Done c \<and> c \<noteq> stx_core tx)"

definition new_pending :: "outgoing \<Rightarrow> pending_tx_frame" where
  "new_pending out = \<lparr>ptf_peer_role = out_target out, ptf_frame_label = out_label out,
     ptf_lane = out_lane out, ptf_len = length (out_payload out), ptf_word_index = 0,
     ptf_bytes = blit 0 (out_payload out) (replicate 128 0)\<rparr>"

definition tx_sio_message :: "sio_tx \<Rightarrow> outgoing \<Rightarrow> sio_message" where
  "tx_sio_message tx out = (stx_session tx, stx_role tx, new_pending out)"

text \<open>The send has \<open>i\<close> words of its frame on the FIFO.\<close>

definition sent_words :: "sio_tx \<Rightarrow> outgoing \<Rightarrow> nat \<Rightarrow> bool" where
  "sent_words tx out i \<longleftrightarrow> other_core tx out \<and> i \<le> total_words (new_pending out)
     \<and> (stx_pending tx = None \<and> i = 0
       \<or> stx_pending tx = Some ((new_pending out)\<lparr>ptf_word_index := i\<rparr>))"

lemma sio_poll_send_spec:
  assumes "sent_words tx out i"
  obtains ws j tx' mem' where
    "sio_poll_send ready fs tx out mem
      = Done (if j = total_words (new_pending out) then Ready (Inr ()) else Pending, ws, tx', mem')"
    "i \<le> j" "j \<le> total_words (new_pending out)"
    "ws = map (tx_word (new_pending out) (stx_session tx) (stx_role tx)) [i..<j]"
    "stx_session tx' = stx_session tx" "stx_role tx' = stx_role tx"
    "j < total_words (new_pending out) \<Longrightarrow> sent_words tx' out j"
    "j = total_words (new_pending out) \<Longrightarrow> stx_pending tx' = None"
    "ready \<noteq> [] \<Longrightarrow> hd ready \<Longrightarrow> j < total_words (new_pending out) \<Longrightarrow> i < j"
    "\<forall>c. rx_stash mem' c = rx_stash mem c"
proof -
  let ?n = "new_pending out"
  let ?p = "?n\<lparr>ptf_word_index := i\<rparr>"
  have oc: "other_core tx out" and i: "i \<le> total_words ?n" using assms by (auto simp: sent_words_def)
  have tot: "total_words ?p = total_words ?n" and word: "tx_word ?p = tx_word ?n"
    by (auto simp: total_words_def tx_word_def fun_eq_iff)
  obtain d p' ws where push: "push_words ready (stx_session tx) (stx_role tx) ?p = (d, p', ws)"
    by (cases "push_words ready (stx_session tx) (stx_role tx) ?p") auto
  have le: "ptf_word_index ?p \<le> total_words ?p" unfolding tot using i by simp
  note P = push_words_spec [OF le push, unfolded tot word]
  have p': "p' = ?n\<lparr>ptf_word_index := ptf_word_index p'\<rparr>"
    using P by (metis pending_tx_frame.update_convs(5) pending_tx_frame.surjective)
  obtain c where c: "rp2w_role_core (out_target out) = Done c" "c \<noteq> stx_core tx"
    "out_target out \<noteq> stx_role tx" "length (out_payload out) \<le> 128"
    using oc by (auto simp: other_core_def)
  obtain evs where poll: "sio_poll_send ready fs tx out mem
      = Done (if d then Ready (Inr ()) else Pending, ws,
          if d then tx\<lparr>stx_pending := None, stx_sent := sat_inc16 (stx_sent tx)\<rparr>
          else tx\<lparr>stx_pending := Some p'\<rparr>, logs evs mem)"
  proof (cases "stx_pending tx")
    case None
    then have "i = 0" using assms by (simp add: sent_words_def)
    then have "?p = ?n" by (simp add: new_pending_def)
    with push c None that show thesis
      by (cases d) (simp_all add: sio_poll_send_def Let_def pending_tx_new_def new_pending_def
          logs_def)
  next
    case (Some q)
    then have "q = ?p" using assms by (simp add: sent_words_def)
    with push c Some that show thesis
      by (cases d) (simp_all add: sio_poll_send_def Let_def)
  qed
  have d: "d = (ptf_word_index p' = total_words ?n)" using P by blast
  show thesis
  proof (rule that [of "ptf_word_index p'" ws _ "logs evs mem"])
    show "sio_poll_send ready fs tx out mem
      = Done (if ptf_word_index p' = total_words ?n then Ready (Inr ()) else Pending, ws,
          if d then tx\<lparr>stx_pending := None, stx_sent := sat_inc16 (stx_sent tx)\<rparr>
          else tx\<lparr>stx_pending := Some p'\<rparr>, logs evs mem)"
      unfolding poll d by simp
    show "ptf_word_index p' < total_words ?n \<Longrightarrow> sent_words
        (if d then tx\<lparr>stx_pending := None, stx_sent := sat_inc16 (stx_sent tx)\<rparr>
         else tx\<lparr>stx_pending := Some p'\<rparr>) out (ptf_word_index p')"
      using d p' oc by (simp add: sent_words_def other_core_def)
  qed (use P d in auto)
qed

lemma send_polls_spec:
  assumes "sent_words tx out i" and "i < total_words (new_pending out)"
  shows "\<exists>res j tx' mem'. send_polls fs out readies tx mem
      = Done (res, map (tx_word (new_pending out) (stx_session tx) (stx_role tx)) [i..<j], tx', mem')
    \<and> i \<le> j \<and> j \<le> total_words (new_pending out)
    \<and> (res = Ready (Inr ()) \<and> j = total_words (new_pending out) \<and> stx_pending tx' = None
      \<or> res = Pending \<and> j < total_words (new_pending out))
    \<and> ((\<forall>r \<in> set readies. r \<noteq> [] \<and> hd r) \<longrightarrow> total_words (new_pending out) \<le> i + length readies \<longrightarrow>
        res = Ready (Inr ()))"
  using assms
proof (induction readies arbitrary: tx mem i)
  case Nil
  then show ?case by auto
next
  case (Cons ready readies)
  let ?n = "new_pending out"
  obtain ws j tx' mem' where P: "sio_poll_send ready fs tx out mem
      = Done (if j = total_words ?n then Ready (Inr ()) else Pending, ws, tx', mem')"
    "i \<le> j" "j \<le> total_words ?n" "ws = map (tx_word ?n (stx_session tx) (stx_role tx)) [i..<j]"
    "stx_session tx' = stx_session tx" "stx_role tx' = stx_role tx"
    "j < total_words ?n \<Longrightarrow> sent_words tx' out j"
    "j = total_words ?n \<Longrightarrow> stx_pending tx' = None"
    "ready \<noteq> [] \<Longrightarrow> hd ready \<Longrightarrow> j < total_words ?n \<Longrightarrow> i < j"
    using sio_poll_send_spec [OF Cons.prems(1)] by metis
  show ?case
  proof (cases "j = total_words ?n")
    case True
    with P show ?thesis by simp
  next
    case False
    then have lt: "j < total_words ?n" using P(3) by simp
    from Cons.IH [OF P(7) [OF lt] lt, of mem'] obtain res k tx'' mem'' where
      K: "send_polls fs out readies tx' mem'
        = Done (res, map (tx_word ?n (stx_session tx') (stx_role tx')) [j..<k], tx'', mem'')"
      "j \<le> k" "k \<le> total_words ?n"
      "res = Ready (Inr ()) \<and> k = total_words ?n \<and> stx_pending tx'' = None
        \<or> res = Pending \<and> k < total_words ?n"
      "(\<forall>r \<in> set readies. r \<noteq> [] \<and> hd r) \<longrightarrow> total_words ?n \<le> j + length readies \<longrightarrow>
        res = Ready (Inr ())" by blast
    have "map (tx_word ?n (stx_session tx) (stx_role tx)) [i..<j]
        @ map (tx_word ?n (stx_session tx) (stx_role tx)) [j..<k]
        = map (tx_word ?n (stx_session tx) (stx_role tx)) [i..<k]"
      using P(2) K(2) by (metis le_Suc_ex map_append upt_add_eq_append)
    with P K False lt show ?thesis by fastforce
  qed
qed

section \<open>Receiving\<close>

definition quiet :: "sio_rx \<Rightarrow> sio_rx" where
  "quiet rx = rx\<lparr>srx_pending_logged := False, srx_pending_polls := 0\<rparr>"

text \<open>The loop over the words of one whole frame hands the frame to \<open>recv_frame\<close>, with the
  accumulator at rest and the stash as it was.\<close>

lemma recv_loop_frame:
  assumes "acc_inv (rx_accumulator mem (srx_core rx))" "sio_framed w"
    and "acc_word_count (rx_accumulator mem (srx_core rx)) = k" "k < length w"
    and "acc_content (rx_accumulator mem (srx_core rx)) = take k w"
  shows "\<exists>evs a'. acc_inv a' \<and> acc_word_count a' = 0
    \<and> recv_loop fs (map Some (drop k w) @ pops) rx mem =
      (case recv_frame (acc_frame w) (quiet rx)
              (put_accumulator (srx_core rx) a' (logs evs mem)) of
         Recv_Continue rx mem \<Rightarrow> recv_loop fs pops rx mem
       | Recv_Return res rx mem \<Rightarrow> (res, rx, mem, pops))"
  using assms
proof (induction "length w - Suc k" arbitrary: k rx mem)
  case 0
  then have d: "drop k w = [w ! k]" and last: "\<not> Suc k < length w"
    by (simp_all add: Cons_nth_drop_Suc [symmetric])
  obtain a' where a': "acc_inv a'" "acc_word_count a' = 0"
    "acc_push_word (rx_accumulator mem (srx_core rx)) (w ! k) = (Inr (Some (acc_frame w)), a')"
    using acc_step_framed [OF 0(2-6)] last
    by (auto simp: acc_step_def split: prod.splits sum.splits option.splits)
  let ?evs = "if srx_role rx = 1 then [Sio_Ready_Seen] else []"
  have "recv_word (w ! k) rx mem = recv_frame (acc_frame w) (quiet rx)
      (put_accumulator (srx_core rx) a' (logs ?evs mem))"
    using a'(3) by (simp add: recv_word_def Let_def quiet_def)
  then show ?case using a'(1,2) by (intro exI [of _ ?evs] exI [of _ a']) (simp add: d)
next
  case (Suc n)
  then have d: "drop k w = w ! k # drop (Suc k) w" and lt: "Suc k < length w"
    by (simp_all add: Cons_nth_drop_Suc)
  obtain a1 where a1: "acc_inv a1" "acc_word_count a1 = Suc k" "acc_content a1 = take (Suc k) w"
    "acc_push_word (rx_accumulator mem (srx_core rx)) (w ! k) = (Inr None, a1)"
    using acc_step_framed [OF Suc(3-7)] lt
    by (auto simp: acc_step_def split: prod.splits sum.splits option.splits)
  let ?evs = "if srx_role rx = 1 then [Sio_Ready_Seen] else []"
  let ?mem = "put_accumulator (srx_core rx) a1 (logs ?evs mem)"
  have step: "recv_word (w ! k) rx mem = Recv_Continue (quiet rx) ?mem"
    using a1(4) by (simp add: recv_word_def Let_def quiet_def)
  have core: "srx_core (quiet rx) = srx_core rx" by (simp add: quiet_def)
  have "n = length w - Suc (Suc k)" using Suc(2) by simp
  from Suc(1) [OF this, of ?mem "quiet rx"] a1 Suc(4) lt
  obtain evs a' where "acc_inv a'" "acc_word_count a' = 0"
    "recv_loop fs (map Some (drop (Suc k) w) @ pops) (quiet rx) ?mem =
      (case recv_frame (acc_frame w) (quiet (quiet rx))
              (put_accumulator (srx_core rx) a' (logs evs ?mem)) of
         Recv_Continue rx mem \<Rightarrow> recv_loop fs pops rx mem
       | Recv_Return res rx mem \<Rightarrow> (res, rx, mem, pops))"
    by (auto simp: core)
  moreover have "quiet (quiet rx) = quiet rx" by (simp add: quiet_def)
  moreover have "put_accumulator (srx_core rx) a' (logs evs ?mem)
      = put_accumulator (srx_core rx) a' (logs (?evs @ evs) mem)"
    by (simp add: put_accumulator_def logs_def)
  ultimately show ?case
    by (intro exI [of _ "?evs @ evs"] exI [of _ a']) (simp only: d list.map append_Cons recv_loop.simps
        step recv_step.case simp_thms)
qed

lemma deliver_staged:
  assumes "srx_ok rx" "sio_frame_ok f"
  shows "deliver (stage_frame rx f) = Done (Ready (Inr (sio_frame_received (srx_role rx) f)))"
  using assms by (simp add: deliver_def sio_received_def stage_frame_def sio_frame_received_def
      srx_ok_def sio_frame_ok_def take_blit_0_le)

lemma stage_frame_ok [inv_intros]: "srx_ok rx \<Longrightarrow> sio_frame_ok f \<Longrightarrow> srx_ok (stage_frame rx f)"
  by (simp add: srx_ok_def stage_frame_def sio_frame_ok_def)

lemma quiet_simps [simp]:
  "srx_role (quiet rx) = srx_role rx" "srx_core (quiet rx) = srx_core rx"
  "srx_lane (quiet rx) = srx_lane rx" "srx_label (quiet rx) = srx_label rx"
  "srx_deadline (quiet rx) = srx_deadline rx" "srx_ok (quiet rx) = srx_ok rx"
  by (simp_all add: quiet_def srx_ok_def)

lemma drop_delivered_simps [simp]:
  "srx_role (drop_delivered rx) = srx_role rx" "srx_core (drop_delivered rx) = srx_core rx"
  "srx_lane (drop_delivered rx) = srx_lane rx" "srx_deadline (drop_delivered rx) = srx_deadline rx"
  "srx_label (drop_delivered rx) = None" "srx_ok rx \<Longrightarrow> srx_ok (drop_delivered rx)"
  by (simp_all add: drop_delivered_def srx_ok_def)

definition hands_out_nothing :: "sio_rx \<Rightarrow> bool" where
  "hands_out_nothing rx \<longleftrightarrow> \<not> (srx_label rx \<noteq> None \<and> (srx_requeued rx \<or> \<not> srx_delivered rx))"

text \<open>A poll whose FIFO starts with the words of a frame for this receiver returns it.\<close>

lemma sio_poll_recv_frame:
  assumes "sio_mem_inv mem" "srx_ok rx" "hands_out_nothing rx"
    and "acc_word_count (rx_accumulator mem (srx_core rx)) = 0"
    and "stashed mem (srx_core rx) (srx_role rx) = None"
    and "sio_framed w" "acc_frame w = f" "sf_peer_role f = srx_role rx" "sf_lane f = srx_lane rx"
  shows "\<exists>rx' mem'. sio_poll_recv fs (map Some w @ pops) rx mem
      = (Done (Ready (Inr (sio_frame_received (srx_role rx) f))), rx', mem', pops)
    \<and> srx_label rx' = Some (sf_frame_label f) \<and> srx_delivered rx' \<and> srx_ok rx'
    \<and> acc_word_count (rx_accumulator mem' (srx_core rx)) = 0
    \<and> (\<forall>c r. stashed mem' c r = stashed mem c r)"
proof -
  let ?rx = "drop_delivered rx"
  let ?mem = "if srx_role rx = 1 then logs [Sio_Poll_Seen] mem else mem"
  have m: "sio_mem_inv ?mem" "rx_accumulator ?mem c = rx_accumulator mem c"
    "stashed ?mem c r = stashed mem c r" for c r using assms(1) by auto
  have w0: "0 < length w" using assms(6) by (auto simp: sio_framed_def)
  from take_stashed_spec [OF m(1), of "srx_core rx" "srx_role rx"] assms(5)
  have t: "take_stashed_frame (srx_core rx) (srx_role rx) ?mem = (None, ?mem)" by (simp add: m(3))
  have "acc_inv (rx_accumulator ?mem (srx_core ?rx))" by (rule sio_mem_invD(1) [OF m(1)])
  from recv_loop_frame [OF this assms(6) _ w0, of fs pops] assms(4) m(2)
  obtain evs a' where l: "acc_inv a'" "acc_word_count a' = 0"
    "recv_loop fs (map Some (drop 0 w) @ pops) ?rx ?mem =
      (case recv_frame (acc_frame w) (quiet ?rx)
              (put_accumulator (srx_core ?rx) a' (logs evs ?mem)) of
         Recv_Continue rx mem \<Rightarrow> recv_loop fs pops rx mem
       | Recv_Return res rx mem \<Rightarrow> (res, rx, mem, pops))"
    by (auto simp: acc_content_def)
  have ok: "srx_ok (quiet ?rx)" "sio_frame_ok f"
    using assms(2) acc_frame_ok [OF assms(6)] assms(7) by simp_all
  have "sio_poll_recv fs (map Some w @ pops) rx mem
      = recv_loop fs (map Some w @ pops) ?rx ?mem"
    using assms(3) t by (auto simp: sio_poll_recv_def Let_def hands_out_nothing_def)
  then show ?thesis
    using l ok assms(7-9) m stage_frame_ok [OF ok] deliver_staged [OF ok]
    by (simp add: recv_frame_def Let_def frame_targets_rx_lane_def del: m)
      (simp add: stage_frame_def)
qed

text \<open>A frame found in the stash, on the receiver's lane, is returned without popping.\<close>

lemma sio_poll_recv_stashed:
  assumes "sio_mem_inv mem" "srx_ok rx" "hands_out_nothing rx"
    and "stashed mem (srx_core rx) (srx_role rx) = Some f" "sf_lane f = srx_lane rx"
  shows "\<exists>rx' mem'. sio_poll_recv fs pops rx mem
      = (Done (Ready (Inr (sio_frame_received (srx_role rx) f))), rx', mem', pops)
    \<and> sio_mem_inv mem' \<and> stashed mem' (srx_core rx) (srx_role rx) = None"
proof -
  let ?mem = "if srx_role rx = 1 then logs [Sio_Poll_Seen] mem else mem"
  have m: "sio_mem_inv ?mem" "stashed ?mem (srx_core rx) (srx_role rx) = Some f"
    using assms(1,4) by auto
  from take_stashed_spec [OF m(1), of "srx_core rx" "srx_role rx"] m(2) obtain mem' where
    t: "take_stashed_frame (srx_core rx) (srx_role rx) ?mem = (Some f, mem')" "sio_mem_inv mem'"
      "sio_frame_ok f" "stashed mem' (srx_core rx) (srx_role rx) = None"
    by auto
  have ok: "srx_ok (drop_delivered rx)" using assms(2) by simp
  show ?thesis
    using t assms(3,5) deliver_staged [OF ok t(3)]
    by (auto simp: sio_poll_recv_def Let_def hands_out_nothing_def frame_targets_rx_lane_def)
qed

section \<open>Invariant of a receive\<close>

text \<open>A step or a poll ends well: no panic, and memory and receive state as they should be.\<close>

definition sio_good :: "sio_result \<Rightarrow> sio_rx \<Rightarrow> sio_mem \<Rightarrow> bool" where
  "sio_good res rx mem \<longleftrightarrow> is_done res \<and> srx_ok rx \<and> sio_mem_inv mem"

lemma deliver_good:
  "srx_ok rx \<Longrightarrow> sio_mem_inv mem \<Longrightarrow> srx_label rx \<noteq> None \<Longrightarrow> sio_good (deliver rx) rx mem"
  by (auto simp: sio_good_def deliver_def sio_received_def)

lemma stage_frame_label [simp]: "srx_label (stage_frame rx f) = Some (sf_frame_label f)"
  by (simp add: stage_frame_def)

fun step_good :: "recv_step \<Rightarrow> bool" where
  "step_good (Recv_Continue rx mem) = (srx_ok rx \<and> sio_mem_inv mem)"
| "step_good (Recv_Return res rx mem) = sio_good res rx mem"

lemma restash_good:
  assumes "srx_ok rx" "sio_mem_inv mem" "sio_frame_ok f"
  shows "step_good (restash c f t rx mem)"
  using stash_frame_spec [OF assms(2,3), of c] assms
  by (auto simp: restash_def sio_good_def split: if_splits)

lemma recv_frame_good:
  assumes "srx_ok rx" "sio_mem_inv mem" "sio_frame_ok f"
  shows "step_good (recv_frame f rx mem)"
  using restash_good [OF assms] deliver_good stage_frame_ok [OF assms(1,3)] assms
  by (auto simp: recv_frame_def Let_def)

lemma recv_word_good:
  assumes "srx_ok rx" "sio_mem_inv mem"
  shows "step_good (recv_word w rx mem)"
proof -
  let ?mem = "if srx_role rx = 1 then logs [Sio_Ready_Seen] mem else mem"
  let ?a = "rx_accumulator ?mem (srx_core rx)"
  have inv: "sio_mem_inv ?mem" using assms(2) by simp
  obtain r a' where push: "acc_push_word ?a w = (r, a')" by (cases "acc_push_word ?a w")
  note S = acc_push_word_sound [OF sio_mem_invD(1) [OF inv], of "srx_core rx" w, unfolded push]
  have inv': "sio_mem_inv (put_accumulator (srx_core rx) a' ?mem)"
    using S by (intro put_accumulator_inv inv) simp
  have q: "srx_ok (quiet rx)" using assms(1) by simp
  have "sio_frame_ok f" if "r = Inr (Some f)" for f
    using S that acc_frame_ok(1) by auto
  then show ?thesis
    using push inv' q recv_frame_good [OF q inv']
    by (auto simp: recv_word_def Let_def quiet_def [symmetric] sio_good_def
        split: sum.split option.split)
qed

lemma recv_empty_good:
  assumes "srx_ok rx" "sio_mem_inv mem" "recv_empty fs rx mem = (rx', mem')"
  shows "srx_ok rx' \<and> sio_mem_inv mem'"
proof -
  have "srx_ok (fst (recv_empty fs rx mem)) \<and> sio_mem_inv (snd (recv_empty fs rx mem))"
    using assms(1,2) by (simp add: recv_empty_def Let_def srx_ok_def)
  with assms(3) show ?thesis by simp
qed

lemma recv_loop_good:
  assumes "srx_ok rx" "sio_mem_inv mem" "recv_loop fs pops rx mem = (res, rx', mem', pops')"
  shows "sio_good res rx' mem'"
  using assms
proof (induction fs pops rx mem arbitrary: res rx' mem' pops' rule: recv_loop.induct)
  case (1 fs rx mem)
  then show ?case
    using recv_empty_good [OF 1(1,2)] by (auto simp: sio_good_def split: prod.splits)
next
  case (2 fs word pops rx mem)
  show ?case
  proof (cases "recv_word word rx mem")
    case (Recv_Continue rx1 mem1)
    with recv_word_good [OF 2(2,3), of word] 2 show ?thesis by simp
  next
    case (Recv_Return r rx1 mem1)
    with recv_word_good [OF 2(2,3), of word] 2(4) show ?thesis by simp
  qed
next
  case (3 fs rx mem)
  then show ?case
    using recv_empty_good [OF 3(1,2)] by (auto simp: sio_good_def split: prod.splits)
next
  case (4 fs pops rx mem)
  then show ?case
    using recv_empty_good [OF 4(1,2)] by (auto simp: sio_good_def split: prod.splits if_splits)
next
  case (5 fs word pops rx mem)
  obtain rx1 mem1 where e: "recv_empty fs rx mem = (rx1, mem1)" by (cases "recv_empty fs rx mem")
  from recv_empty_good [OF 5(2,3) e] have g: "srx_ok rx1" "sio_mem_inv mem1" by auto
  show ?case
  proof (cases "srx_deadline rx1 = 0")
    case True
    then show ?thesis using 5(4) e g by (auto simp: sio_good_def)
  next
    case False
    have q: "srx_ok (rx1\<lparr>srx_pending_logged := False, srx_pending_polls := 0\<rparr>)"
      using g(1) by (simp add: srx_ok_def)
    show ?thesis
    proof (cases "recv_word word (rx1\<lparr>srx_pending_logged := False, srx_pending_polls := 0\<rparr>) mem1")
      case (Recv_Continue rx2 mem2)
      with recv_word_good [OF q g(2), of word] 5(1) [OF e [symmetric] False Recv_Continue] 5(4) e False
      show ?thesis by simp
    next
      case (Recv_Return r rx2 mem2)
      with recv_word_good [OF q g(2), of word] 5(4) e False show ?thesis by simp
    qed
  qed
qed

section \<open>Properties\<close>

text \<open>C23: however the FIFO fills up and drains between polls, a send to a role on the other core
  pushes the words of exactly its frame, each once and in order: while it is pending a proper
  prefix, when it reports success all of them. If every poll finds room for at least one word it
  succeeds within as many polls as the frame has words.\<close>

theorem sio_resumable_send:
  assumes "other_core tx out" and "stx_pending tx = None"
  shows "\<exists>res ws tx' mem'. send_polls fs out readies tx mem = Done (res, ws, tx', mem')
    \<and> (res = Ready (Inr ()) \<and> ws = sio_wire (tx_sio_message tx out) \<and> stx_pending tx' = None
      \<or> res = Pending \<and> (\<exists>rest. rest \<noteq> [] \<and> sio_wire (tx_sio_message tx out) = ws @ rest))
    \<and> ((\<forall>r \<in> set readies. r \<noteq> [] \<and> hd r)
        \<longrightarrow> length (sio_wire (tx_sio_message tx out)) \<le> length readies \<longrightarrow> res = Ready (Inr ()))"
proof -
  let ?n = "new_pending out" and ?f = "tx_word (new_pending out) (stx_session tx) (stx_role tx)"
  have "sent_words tx out 0" "0 < total_words ?n"
    using assms by (simp_all add: sent_words_def total_words_def)
  from send_polls_spec [OF this, of fs readies mem] obtain res j tx' mem' where
    P: "send_polls fs out readies tx mem = Done (res, map ?f [0..<j], tx', mem')"
      "j \<le> total_words ?n"
      "res = Ready (Inr ()) \<and> j = total_words ?n \<and> stx_pending tx' = None
        \<or> res = Pending \<and> j < total_words ?n"
      "(\<forall>r \<in> set readies. r \<noteq> [] \<and> hd r) \<longrightarrow> total_words ?n \<le> 0 + length readies \<longrightarrow>
        res = Ready (Inr ())" by blast
  have wire: "sio_wire (tx_sio_message tx out) = map ?f [0..<total_words ?n]"
    by (simp add: sio_wire_def tx_sio_message_def)
  moreover have "map ?f [0..<total_words ?n] = map ?f [0..<j] @ map ?f [j..<total_words ?n]"
    using P(2) by (metis le_iff_add map_append plus_nat.add_0 upt_add_eq_append zero_le)
  ultimately show ?thesis using P
    by (auto intro!: exI [of _ "map ?f [j..<total_words ?n]"])
qed

lemma sio_send_polls_wire:
  assumes "other_core tx out" "stx_pending tx = None"
    and "send_polls fs out readies tx mem = Done (Ready (Inr ()), ws, tx', mem')"
  shows "ws = sio_wire (tx_sio_message tx out)"
proof -
  have "sent_words tx out 0" "0 < total_words (new_pending out)"
    using assms(1,2) by (simp_all add: sent_words_def total_words_def)
  from send_polls_spec [OF this, of fs readies mem] assms(3)
  show ?thesis by (auto simp: sio_wire_def tx_sio_message_def)
qed

lemma sio_send_polls_done:
  assumes "other_core tx out" "stx_pending tx = None" "\<forall>r \<in> set readies. r \<noteq> [] \<and> hd r"
    and "length (sio_wire (tx_sio_message tx out)) \<le> length readies"
  shows "\<exists>tx' mem'. send_polls fs out readies tx mem
    = Done (Ready (Inr ()), sio_wire (tx_sio_message tx out), tx', mem')"
proof -
  have "sent_words tx out 0" "0 < total_words (new_pending out)"
    using assms(1,2) by (simp_all add: sent_words_def total_words_def)
  from send_polls_spec [OF this, of fs readies mem] assms(3,4)
  show ?thesis by (auto simp: sio_wire_def tx_sio_message_def)
qed

definition core0_tx :: sio_tx where
  "core0_tx = \<lparr>stx_role = 0, stx_core = 0, stx_session = 7, stx_sent = 0, stx_pending = None\<rparr>"

definition sio_hello :: outgoing where
  "sio_hello = \<lparr>out_target = 1, out_lane = 2, out_label = 33, out_payload = [104, 105]\<rparr>"

lemma core0_hello: "other_core core0_tx sio_hello" "stx_pending core0_tx = None"
  by (simp_all add: other_core_def core0_tx_def sio_hello_def rp2w_role_core_def)

theorem sio_resumable_send_witness:
  "\<exists>ws tx' mem'. send_polls 0 sio_hello (replicate 5 [True]) core0_tx sio_mem_empty
      = Done (Ready (Inr ()), ws, tx', mem')
    \<and> ws = sio_wire (tx_sio_message core0_tx sio_hello)"
proof -
  have "length (sio_wire (tx_sio_message core0_tx sio_hello)) = 5"
    by (simp add: sio_wire_def tx_sio_message_def total_words_def new_pending_def sio_hello_def
        payload_word_count_def)
  with sio_resumable_send [OF core0_hello, of 0 "replicate 5 [True]" sio_mem_empty]
  show ?thesis by auto
qed

text \<open>C12: when a send to the other core has succeeded, over however many polls, the receiver of the
  target role that finds the pushed words in its FIFO returns from one poll a frame with exactly
  the session, lane, sender, label and payload of the send; the rest of the FIFO, the stash and the
  resting accumulator are left as they were.\<close>

theorem sio_end_to_end:
  assumes "other_core tx out" "stx_pending tx = None"
    and "send_polls fs out readies tx mem0 = Done (Ready (Inr ()), ws, tx', mem1)"
    and "sio_mem_inv mem" "srx_ok rx" "hands_out_nothing rx"
    and "acc_word_count (rx_accumulator mem (srx_core rx)) = 0"
    and "stashed mem (srx_core rx) (srx_role rx) = None"
    and "srx_role rx = out_target out" "srx_lane rx = out_lane out"
  shows "\<exists>rx' mem'. sio_poll_recv fs' (map Some ws @ pops) rx mem
      = (Done (Ready (Inr \<lparr>recv_header = be_bytes32 (stx_session tx)
            @ [out_lane out, stx_role tx, out_target out, out_label out],
          recv_payload = out_payload out\<rparr>)), rx', mem', pops)
    \<and> acc_word_count (rx_accumulator mem' (srx_core rx)) = 0
    \<and> (\<forall>c r. stashed mem' c r = stashed mem c r)"
proof -
  let ?m = "tx_sio_message tx out"
  have ws: "ws = sio_wire ?m" by (rule sio_send_polls_wire [OF assms(1-3)])
  have ok: "sio_message_ok ?m"
    using assms(1) by (simp add: sio_message_ok_def tx_sio_message_def other_core_def new_pending_def)
  have f: "sf_peer_role (sio_message_frame ?m) = srx_role rx"
    "sf_lane (sio_message_frame ?m) = srx_lane rx"
    "sio_frame_received (srx_role rx) (sio_message_frame ?m)
      = \<lparr>recv_header = be_bytes32 (stx_session tx)
            @ [out_lane out, stx_role tx, out_target out, out_label out],
          recv_payload = out_payload out\<rparr>"
    using assms(9,10) by (simp_all add: sio_message_frame_def tx_sio_message_def new_pending_def
        sio_frame_received_def)
  from sio_poll_recv_frame [OF assms(4-8) sio_wire_framed [OF ok] f(1,2), of fs' pops]
  show ?thesis unfolding ws f(3) by blast
qed

definition core1_rx :: sio_rx where
  "core1_rx = sio_rx_new 1 7 2 0 1"

lemma core1_rx: "srx_ok core1_rx" "hands_out_nothing core1_rx" "srx_core core1_rx = 1"
  "srx_role core1_rx = 1" "srx_lane core1_rx = 2"
  by (simp_all add: core1_rx_def sio_rx_new_def srx_ok_def hands_out_nothing_def)

theorem sio_end_to_end_witness:
  "\<exists>rx' mem'. sio_poll_recv 0 (map Some (sio_wire (tx_sio_message core0_tx sio_hello))) core1_rx
      sio_mem_empty
    = (Done (Ready (Inr \<lparr>recv_header = [0, 0, 0, 7, 2, 0, 1, 33], recv_payload = [104, 105]\<rparr>)),
       rx', mem', [])"
proof -
  have "length (sio_wire (tx_sio_message core0_tx sio_hello)) = 5"
    by (simp add: sio_wire_def tx_sio_message_def total_words_def new_pending_def sio_hello_def
        payload_word_count_def)
  then obtain tx' mem' where
    S: "send_polls 0 sio_hello (replicate 5 [True]) core0_tx sio_mem_empty
      = Done (Ready (Inr ()), sio_wire (tx_sio_message core0_tx sio_hello), tx', mem')"
    using sio_send_polls_done [OF core0_hello, of "replicate 5 [True]" 0 sio_mem_empty] by auto
  have a: "acc_word_count (rx_accumulator sio_mem_empty c) = 0" for c
    by (simp add: rx_accumulator_def sio_mem_empty_def sio_acc_empty_def)
  have h: "be_bytes32 (7 :: u32) = [0, 0, 0, 7]"
    by (simp add: be_bytes32_def le_bytes32_def)
  show ?thesis
    using sio_end_to_end [OF core0_hello S sio_mem_empty_inv core1_rx(1,2) a stashed_empty_mem,
        of 0 "[]"]
    by (auto simp: core1_rx sio_hello_def core0_tx_def h)
qed

text \<open>C25: a receive never panics, whatever words and gaps the FIFO delivers and whatever the state
  of the receiver: it keeps both accumulators within their buffers, every stashed frame within its
  128 bytes, and the receiver's own buffer and length.\<close>

theorem sio_recv_invariant:
  assumes "srx_ok rx" and "sio_mem_inv mem"
    and "sio_poll_recv fs pops rx mem = (res, rx', mem', pops')"
  shows "res \<noteq> Panic \<and> srx_ok rx' \<and> sio_mem_inv mem'"
proof -
  let ?mem = "if srx_role rx = 1 then logs [Sio_Poll_Seen] mem else mem"
  let ?rx = "drop_delivered rx"
  have m: "sio_mem_inv ?mem" and rx: "srx_ok ?rx" using assms(1,2) by auto
  have "sio_good res rx' mem'"
  proof (cases "hands_out_nothing rx")
    case False
    then have l: "srx_label rx \<noteq> None" "srx_requeued rx \<or> \<not> srx_delivered rx"
      by (auto simp: hands_out_nothing_def)
    let ?r = "rx\<lparr>srx_requeued := False, srx_delivered := True, srx_pending_logged := False,
        srx_pending_polls := 0\<rparr>"
    from l have "sio_good (deliver ?r) ?r ?mem"
      using assms(1) m by (intro deliver_good) (auto simp: srx_ok_def)
    then show ?thesis
      using l assms(3) by (auto simp: sio_poll_recv_def Let_def sio_good_def)
  next
    case True
    then have poll: "sio_poll_recv fs pops rx mem =
        (case take_stashed_frame (srx_core rx) (srx_role rx) ?mem of
           (Some frame, mem) \<Rightarrow>
             if \<not> frame_targets_rx_lane frame ?rx then
               (case stash_frame (srx_core rx) frame mem of
                  (Inl e, mem) \<Rightarrow> (Done (Ready (Inl e)), ?rx, mem, pops)
                | (Inr _, mem) \<Rightarrow>
                    (Done Pending, ?rx,
                     logs [Sio_Trace (trace_frame 15 (srx_role rx) (sf_sender_role frame)
                             (unat (sf_lane frame)) (sf_frame_label frame)), Sio_Wake] mem, pops))
             else
               (deliver (stage_frame ?rx frame), stage_frame ?rx frame,
                logs [Sio_Dir_Rx (srx_role rx) (sf_sender_role frame),
                     Sio_Trace (trace_frame 13 (srx_role rx) (sf_sender_role frame) (sf_len frame)
                       (sf_frame_label frame))] mem, pops)
         | (None, mem) \<Rightarrow> recv_loop fs pops ?rx mem)"
      by (auto simp: sio_poll_recv_def Let_def hands_out_nothing_def split: prod.split option.split)
    show ?thesis
    proof (cases "stashed ?mem (srx_core rx) (srx_role rx)")
      case None
      with take_stashed_spec [OF m, of "srx_core rx" "srx_role rx"] poll assms(3)
      have "recv_loop fs pops ?rx ?mem = (res, rx', mem', pops')" by simp
      from recv_loop_good [OF rx m this] show ?thesis .
    next
      case (Some f)
      with take_stashed_spec [OF m, of "srx_core rx" "srx_role rx"] obtain mem1 where
        t: "take_stashed_frame (srx_core rx) (srx_role rx) ?mem = (Some f, mem1)"
          "sio_mem_inv mem1" "sio_frame_ok f" by auto
      from stash_frame_spec [OF t(2,3), of "srx_core rx"]
      obtain r mem2 where st: "stash_frame (srx_core rx) f mem1 = (r, mem2)" "sio_mem_inv mem2"
        using t(2) by (auto split: if_splits)
      have "sio_good (deliver (stage_frame ?rx f)) (stage_frame ?rx f) mem1"
        using rx t(2,3) by (intro deliver_good stage_frame_ok) auto
      then show ?thesis
        using poll t st rx assms(3)
        by (cases r) (auto simp: sio_good_def split: if_splits)
    qed
  qed
  then show ?thesis by (auto simp: sio_good_def)
qed

theorem sio_recv_invariant_witness:
  "\<exists>res rx' mem' pops'. sio_poll_recv 0 [Some 3, None, Some 5] core1_rx sio_mem_empty
      = (res, rx', mem', pops')
    \<and> res \<noteq> Panic \<and> srx_ok rx' \<and> sio_mem_inv mem'"
proof -
  obtain res rx' mem' pops' where
    "sio_poll_recv 0 [Some 3, None, Some 5] core1_rx sio_mem_empty = (res, rx', mem', pops')"
    by (metis prod_cases4)
  with sio_recv_invariant [OF core1_rx(1) sio_mem_empty_inv this] show ?thesis by blast
qed

text \<open>A frame for another role on the same core that a receiver pops is kept, not lost: the poll
  stays pending, and a receiver of that other role on the frame's lane gets it from its next poll
  without popping. When that role's stash slot is still occupied the poll fails with a capacity
  error, the older frame stays, and the new one is gone.\<close>

theorem sio_relay:
  assumes "sio_mem_inv mem" "srx_ok rx" "hands_out_nothing rx" "srx_deadline rx = 0"
    and "acc_word_count (rx_accumulator mem (srx_core rx)) = 0"
    and "stashed mem (srx_core rx) (srx_role rx) = None"
    and "sio_message_ok m" and f: "sio_message_frame m = f"
    and "sf_peer_role f \<noteq> srx_role rx" "unat (sf_peer_role f) < 16"
    and "srx_ok rx2" "hands_out_nothing rx2" "srx_core rx2 = srx_core rx"
    and "srx_role rx2 = sf_peer_role f" "srx_lane rx2 = sf_lane f"
  shows "case stashed mem (srx_core rx) (sf_peer_role f) of
      None \<Rightarrow> \<exists>rx' mem' rx2' mem''.
        sio_poll_recv fs (map Some (sio_wire m)) rx mem = (Done Pending, rx', mem', [])
        \<and> sio_poll_recv fs' pops rx2 mem'
          = (Done (Ready (Inr (sio_frame_received (sf_peer_role f) f))), rx2', mem'', pops)
    | Some f0 \<Rightarrow> \<exists>rx' mem'.
        sio_poll_recv fs (map Some (sio_wire m)) rx mem = (Done (Ready (Inl Capacity)), rx', mem', [])
        \<and> (\<forall>c r. stashed mem' c r = stashed mem c r)"
proof -
  let ?rx = "drop_delivered rx"
  define M where "M = (if srx_role rx = 1 then logs [Sio_Poll_Seen] mem else mem)"
  let ?w = "sio_wire m" and ?p = "sf_peer_role f"
  note W = sio_wire_framed [OF assms(7), unfolded f]
  have m: "sio_mem_inv M" "rx_accumulator M c = rx_accumulator mem c"
    "stashed M c r = stashed mem c r" for c r using assms(1) by (auto simp: M_def)
  have w0: "0 < length ?w" using W(1) by (auto simp: sio_framed_def)
  from take_stashed_spec [OF m(1), of "srx_core rx" "srx_role rx"] assms(6)
  have t: "take_stashed_frame (srx_core rx) (srx_role rx) M = (None, M)" by (simp add: m(3))
  have "acc_inv (rx_accumulator M (srx_core ?rx))" by (rule sio_mem_invD(1) [OF m(1)])
  from recv_loop_frame [OF this W(1) _ w0, of fs "[]"] assms(5) m(2) obtain evs a' where
    l: "acc_inv a'" "acc_word_count a' = 0" "recv_loop fs (map Some ?w) ?rx M =
      (case recv_frame f (quiet ?rx) (put_accumulator (srx_core rx) a' (logs evs M)) of
         Recv_Continue rx mem \<Rightarrow> recv_loop fs [] rx mem
       | Recv_Return res rx mem \<Rightarrow> (res, rx, mem, []))"
    by (auto simp: acc_content_def W(2))
  define M1 where "M1 = put_accumulator (srx_core rx) a' (logs evs M)"
  have m1: "sio_mem_inv M1" "stashed M1 c r = stashed mem c r" for c r
    using put_accumulator_inv [of "logs evs M" a'] m l(1) by (auto simp: M1_def)
  have ok: "sio_frame_ok f" using acc_frame_ok [OF W(1)] by (simp add: W(2))
  have poll: "sio_poll_recv fs (map Some ?w) rx mem = recv_loop fs (map Some ?w) ?rx M"
    using assms(3) t by (auto simp: sio_poll_recv_def Let_def hands_out_nothing_def M_def)
  note l3 = l(3) [folded M1_def]
  note S = stash_frame_spec [OF m1(1) ok, of "srx_core rx"]
  show ?thesis
  proof (cases "stashed mem (srx_core rx) ?p")
    case None
    with S assms(10) obtain mem2 where s: "stash_frame (srx_core rx) f M1 = (Inr (), mem2)"
      "sio_mem_inv mem2" "stashed mem2 (srx_core rx) ?p = Some f" by (auto simp: m1(2))
    obtain rx' mem' where e: "recv_empty fs (quiet ?rx) (logs [Sio_Trace (trace_frame 12 (srx_role rx) ?p
        (sf_len f) (sf_frame_label f)), Sio_Wake] mem2) = (rx', mem')"
      "srx_deadline rx' = 0" "stashed mem' (srx_core rx) ?p = Some f" "sio_mem_inv mem'"
      using assms(4) s(2,3) by (simp add: recv_empty_def Let_def)
    have "sio_poll_recv fs (map Some ?w) rx mem = (Done Pending, rx', mem', [])"
      using l3 s(1) e assms(9) by (simp add: poll recv_frame_def restash_def Let_def)
    moreover from sio_poll_recv_stashed [OF e(4) assms(11,12), of f fs' pops] e(3) assms(13-15)
    obtain rx2' mem'' where "sio_poll_recv fs' pops rx2 mem'
        = (Done (Ready (Inr (sio_frame_received ?p f))), rx2', mem'', pops)" by auto
    ultimately show ?thesis by (simp add: None)
  next
    case (Some f0)
    with S have "stash_frame (srx_core rx) f M1 = (Inl Capacity, M1)" by (simp add: m1(2))
    with l3 assms(9) have "sio_poll_recv fs (map Some ?w) rx mem
        = (Done (Ready (Inl Capacity)), quiet ?rx, M1, [])"
      by (simp add: poll recv_frame_def restash_def Let_def)
    then show ?thesis using m1(2) by (simp add: Some)
  qed
qed

definition relay_sample :: sio_message where
  "relay_sample = (7, 1, \<lparr>ptf_peer_role = 2, ptf_frame_label = 33, ptf_lane = 2, ptf_len = 1,
     ptf_word_index = 0, ptf_bytes = 9 # replicate 127 0\<rparr>)"

theorem sio_relay_witness:
  "\<exists>rx' mem' rx2' mem''.
    sio_poll_recv 0 (map Some (sio_wire relay_sample)) (sio_rx_new 0 7 1 0 0) sio_mem_empty
      = (Done Pending, rx', mem', [])
    \<and> sio_poll_recv 0 [] (sio_rx_new 2 7 2 0 0) mem'
      = (Done (Ready (Inr (sio_frame_received 2 (sio_message_frame relay_sample)))), rx2', mem'', [])"
proof -
  have rx: "srx_ok (sio_rx_new r 7 l 0 0)" "hands_out_nothing (sio_rx_new r 7 l 0 0)" for r l
    by (simp_all add: sio_rx_new_def srx_ok_def hands_out_nothing_def)
  have "sio_message_ok relay_sample" by (simp add: sio_message_ok_def relay_sample_def)
  moreover have "sf_peer_role (sio_message_frame relay_sample) = 2"
    "sf_lane (sio_message_frame relay_sample) = 2"
    by (simp_all add: sio_message_frame_def relay_sample_def)
  moreover have "acc_word_count (rx_accumulator sio_mem_empty c) = 0" for c
    by (simp add: rx_accumulator_def sio_mem_empty_def sio_acc_empty_def)
  ultimately show ?thesis
    using sio_relay [OF sio_mem_empty_inv rx(1) rx(2), of 0 1 relay_sample _ "sio_rx_new 2 7 2 0 0" 0 0 "[]"]
      rx by (simp add: sio_rx_new_def)
qed

text \<open>Over any run of puts and takes on the stash of a core, what has been taken for a role
  followed by what is still stashed for it is exactly what the stash accepted for it, in order: an
  accepted frame is never overwritten, lost, given to another role or given out twice.\<close>

theorem sio_stash_delivery:
  assumes "\<forall>f. Stash_Put f \<in> set ops \<longrightarrow> sio_frame_ok f"
    and "run_stash (stash_frame c) (take_stashed_frame c) sio_mem_empty ops = (put, got, mem)"
  shows "filter (\<lambda>f. sf_peer_role f = role) put
    = map snd (filter (\<lambda>p. fst p = role) got) @ opt_list (stashed mem c role)"
  using rp_stash.run_history [OF sio_mem_empty_inv assms, of role] by simp

theorem sio_stash_delivery_witness:
  "filter (\<lambda>f. sf_peer_role f = 1) (fst (run_stash (stash_frame 0) (take_stashed_frame 0) sio_mem_empty
      [Stash_Put (sio_message_frame sio_sample), Stash_Take 1]))
    = map snd (filter (\<lambda>p. fst p = 1) (fst (snd (run_stash (stash_frame 0) (take_stashed_frame 0)
        sio_mem_empty [Stash_Put (sio_message_frame sio_sample), Stash_Take 1]))))
    @ opt_list (stashed (snd (snd (run_stash (stash_frame 0) (take_stashed_frame 0) sio_mem_empty
        [Stash_Put (sio_message_frame sio_sample), Stash_Take 1]))) 0 1)"
proof (rule sio_stash_delivery)
  show "\<forall>f. Stash_Put f \<in> set [Stash_Put (sio_message_frame sio_sample), Stash_Take (1 :: u8)]
      \<longrightarrow> sio_frame_ok f"
    by (simp add: sio_frame_ok_def sio_message_frame_def sio_sample_def)
qed (simp only: prod.collapse)

text \<open>The outcomes of a send that do not touch the FIFO: a send to the own role reports success
  though nothing is pushed or stashed for anyone; a payload over 128 bytes is a capacity error; a
  target other than the roles 0, 1 and 2 panics; and a send to a role on the same core stashes the
  message for it when its slot is free, from where that role's next poll on the lane returns it, and
  is a capacity error otherwise.\<close>

theorem sio_send_without_fifo:
  assumes "sio_mem_inv mem" and "srx_ok rx" "hands_out_nothing rx" "srx_core rx = stx_core tx"
    "srx_role rx = out_target out" "srx_lane rx = out_lane out"
  shows "if out_target out = stx_role tx then
      \<exists>mem'. sio_poll_send ready fs tx out mem
          = Done (Ready (Inr ()), [], tx\<lparr>stx_sent := sat_inc16 (stx_sent tx)\<rparr>, mem')
        \<and> (\<forall>c r. stashed mem' c r = stashed mem c r)
    else if length (out_payload out) > 128 then
      sio_poll_send ready fs tx out mem = Done (Ready (Inl Capacity), [], tx, mem)
    else if out_target out \<notin> {0, 1, 2} then sio_poll_send ready fs tx out mem = Panic
    else if rp2w_role_core (out_target out) = Done (stx_core tx) then
      if stashed mem (stx_core tx) (out_target out) = None then
        \<exists>tx' mem' rx' mem''. sio_poll_send ready fs tx out mem = Done (Ready (Inr ()), [], tx', mem')
          \<and> sio_poll_recv fs' pops rx mem'
            = (Done (Ready (Inr \<lparr>recv_header = be_bytes32 (stx_session tx)
                  @ [out_lane out, stx_role tx, out_target out, out_label out],
                recv_payload = out_payload out\<rparr>)), rx', mem'', pops)
      else sio_poll_send ready fs tx out mem = Done (Ready (Inl Capacity), [], tx, mem)
    else True"
proof -
  let ?b = "out_payload out" and ?t = "out_target out"
  consider (own) "?t = stx_role tx" | (long) "?t \<noteq> stx_role tx" "length ?b > 128"
    | (bad) "?t \<noteq> stx_role tx" "length ?b \<le> 128" "?t \<notin> {0, 1, 2}"
    | (far) "?t \<noteq> stx_role tx" "length ?b \<le> 128" "?t \<in> {0, 1, 2}"
        "rp2w_role_core ?t \<noteq> Done (stx_core tx)"
    | (near) "?t \<noteq> stx_role tx" "length ?b \<le> 128" "?t \<in> {0, 1, 2}"
        "rp2w_role_core ?t = Done (stx_core tx)"
    by linarith
  then show ?thesis
  proof cases
    case own
    then show ?thesis by (simp add: sio_poll_send_def Let_def)
  next
    case long
    then show ?thesis by (simp add: sio_poll_send_def Let_def)
  next
    case bad
    then show ?thesis by (simp add: sio_poll_send_def Let_def rp2w_role_core_def)
  next
    case far
    then show ?thesis by simp
  next
    case near
    let ?f = "sio_frame_empty\<lparr>sf_session_id := stx_session tx, sf_sender_role := stx_role tx,
      sf_peer_role := ?t, sf_frame_label := out_label out, sf_lane := out_lane out,
      sf_len := length ?b, sf_bytes := blit 0 ?b (sf_bytes sio_frame_empty)\<rparr>"
    have ok: "sio_frame_ok ?f" using near(2) by (simp add: sio_frame_ok_def sio_frame_empty_def)
    have t16: "unat ?t < 16" using near(3) by auto
    have poll: "sio_poll_send ready fs tx out mem =
        (case stash_frame (stx_core tx) ?f mem of
           (Inl e, mem) \<Rightarrow> Done (Ready (Inl e), [], tx, mem)
         | (Inr _, mem) \<Rightarrow>
             Done (Ready (Inr ()), [], tx\<lparr>stx_sent := sat_inc16 (stx_sent tx)\<rparr>,
               logs [Sio_Trace (trace_frame 14 (stx_role tx) ?t (length ?b) (out_label out)), Sio_Wake] mem))"
      using near by (simp add: sio_poll_send_def Let_def)
    note S = stash_frame_spec [OF assms(1) ok, of "stx_core tx"]
    show ?thesis
    proof (cases "stashed mem (stx_core tx) ?t")
      case None
      with S t16 obtain mem1 where s: "stash_frame (stx_core tx) ?f mem = (Inr (), mem1)"
        "sio_mem_inv mem1" "stashed mem1 (stx_core tx) ?t = Some ?f" by auto
      let ?mem = "logs [Sio_Trace (trace_frame 14 (stx_role tx) ?t (length ?b) (out_label out)),
        Sio_Wake] mem1"
      have m: "sio_mem_inv ?mem" "stashed ?mem (srx_core rx) (srx_role rx) = Some ?f"
        using s assms(4,5) by simp_all
      have l: "sf_lane ?f = srx_lane rx" using assms(6) by simp
      from sio_poll_recv_stashed [OF m(1) assms(2,3) m(2) l, of fs' pops] obtain rx' mem'' where
        "sio_poll_recv fs' pops rx ?mem
          = (Done (Ready (Inr (sio_frame_received (srx_role rx) ?f))), rx', mem'', pops)" by blast
      moreover have "sio_frame_received (srx_role rx) ?f = \<lparr>recv_header = be_bytes32 (stx_session tx)
                  @ [out_lane out, stx_role tx, ?t, out_label out], recv_payload = ?b\<rparr>"
        using assms(5) by (simp add: sio_frame_received_def)
      ultimately show ?thesis using near None poll s(1) by simp
    next
      case (Some f0)
      with S have "stash_frame (stx_core tx) ?f mem = (Inl Capacity, mem)" by simp
      with near Some poll show ?thesis by simp
    qed
  qed
qed

theorem sio_send_without_fifo_witness:
  "\<exists>tx' mem' rx' mem''. sio_poll_send [] 0 core0_tx (sio_hello\<lparr>out_target := 2\<rparr>) sio_mem_empty
      = Done (Ready (Inr ()), [], tx', mem')
    \<and> sio_poll_recv 0 [] (sio_rx_new 2 7 2 0 0) mem'
      = (Done (Ready (Inr \<lparr>recv_header = be_bytes32 7 @ [2, 0, 2, 33],
          recv_payload = [104, 105]\<rparr>)), rx', mem'', [])"
  using sio_send_without_fifo [OF sio_mem_empty_inv, of "sio_rx_new 2 7 2 0 0" core0_tx
      "sio_hello\<lparr>out_target := 2\<rparr>" "[]" 0 0 "[]"]
  by (simp add: sio_rx_new_def srx_ok_def hands_out_nothing_def core0_tx_def sio_hello_def
      rp2w_role_core_def)

text \<open>A frame that was returned and then requeued is returned again, identically, by the next
  poll, which pops nothing and leaves stash and accumulators alone; without a requeue the next poll
  forgets it.\<close>

theorem sio_requeue_returns_again:
  assumes "srx_label rx = Some label" "srx_delivered rx"
    and "sio_requeue rx mem = (r, rx1, mem1)"
  shows "r = Inr () \<and> (\<exists>rx2 mem2. sio_poll_recv fs pops rx1 mem1 = (deliver rx, rx2, mem2, pops)
      \<and> deliver rx2 = deliver rx \<and> hands_out_nothing rx2
      \<and> (\<forall>c. rx_stash mem2 c = rx_stash mem c \<and> rx_accumulator mem2 c = rx_accumulator mem c))"
proof -
  have rx1: "r = Inr ()" "rx1 = rx\<lparr>srx_requeued := True, srx_delivered := False\<rparr>"
    "\<forall>c. rx_stash mem1 c = rx_stash mem c \<and> rx_accumulator mem1 c = rx_accumulator mem c"
    using assms by (auto simp: sio_requeue_def Let_def)
  have d: "deliver (rx\<lparr>srx_requeued := q, srx_delivered := d, srx_pending_logged := l,
      srx_pending_polls := n\<rparr>) = deliver rx" for q d l n
    by (cases "srx_label rx") (simp_all add: deliver_def sio_received_def)
  let ?rx2 = "rx1\<lparr>srx_requeued := False, srx_delivered := True, srx_pending_logged := False,
    srx_pending_polls := 0\<rparr>"
  have "deliver ?rx2 = deliver rx" "hands_out_nothing ?rx2"
    using d by (simp_all add: rx1 hands_out_nothing_def)
  moreover obtain mem2 where "sio_poll_recv fs pops rx1 mem1 = (deliver ?rx2, ?rx2, mem2, pops)"
    "\<forall>c. rx_stash mem2 c = rx_stash mem1 c \<and> rx_accumulator mem2 c = rx_accumulator mem1 c"
    using assms(1) by (auto simp: sio_poll_recv_def Let_def rx1(2))
  ultimately show ?thesis using rx1 by metis
qed

theorem sio_requeue_returns_again_witness:
  "\<exists>rx2 mem2. sio_poll_recv 0 [Some 1]
      (fst (snd (sio_requeue (stage_frame core1_rx (sio_message_frame sio_sample)) sio_mem_empty)))
      (snd (snd (sio_requeue (stage_frame core1_rx (sio_message_frame sio_sample)) sio_mem_empty)))
    = (deliver (stage_frame core1_rx (sio_message_frame sio_sample)), rx2, mem2, [Some 1])"
proof -
  let ?rx = "stage_frame core1_rx (sio_message_frame sio_sample)"
  have "srx_delivered ?rx" by (simp add: stage_frame_def)
  from sio_requeue_returns_again [OF stage_frame_label this, of sio_mem_empty
      "fst (sio_requeue ?rx sio_mem_empty)" "fst (snd (sio_requeue ?rx sio_mem_empty))"
      "snd (snd (sio_requeue ?rx sio_mem_empty))" 0 "[Some 1]"]
  show ?thesis by simp metis
qed

lemma sio_poll_send_four:
  assumes "other_core tx out" "stx_pending tx = None" "1 \<le> length (out_payload out)"
    "length (out_payload out) \<le> 4"
  shows "\<exists>mem'. sio_poll_send [True, True, True, True] fs tx out mem = Done (Pending,
    map (tx_word (new_pending out) (stx_session tx) (stx_role tx)) [0..<4],
    tx\<lparr>stx_pending := Some ((new_pending out)\<lparr>ptf_word_index := 4\<rparr>)\<rparr>, mem')"
proof -
  let ?n = "new_pending out"
  have tot: "total_words ?n = 5"
    using assms(3,4) by (simp add: total_words_def new_pending_def payload_word_count_def)
  have "push_words [True, True, True, True] (stx_session tx) (stx_role tx) ?n
      = (False, ?n\<lparr>ptf_word_index := 4\<rparr>, map (tx_word ?n (stx_session tx) (stx_role tx)) [0..<4])"
    using tot by (simp add: push_words.simps total_words_def new_pending_def tx_word_def Let_def)
  then show ?thesis
    using assms(1,2)
    by (auto simp: sio_poll_send_def Let_def other_core_def pending_tx_new_def new_pending_def)
qed

text \<open>C39: cancelling a send whose words are already partly on the FIFO leaves them there: when the
  header of a message of one to four bytes has gone out before the cancel, the receiver takes the
  first word of the next message as the payload of the cancelled one and yields a frame that was
  never sent.\<close>

theorem sio_cancel_desync:
  assumes "other_core tx out" "stx_pending tx = None" "1 \<le> length (out_payload out)"
    "length (out_payload out) \<le> 4"
    and "sio_poll_send [True, True, True, True] fs tx out mem = Done (res, ws, tx1, mem1)"
    and "other_core tx out2"
    and "send_polls fs out2 readies (sio_cancel_send tx1) mem1 = Done (Ready (Inr ()), ws2, tx2, mem2)"
    and "acc_inv a" "acc_word_count a = 0"
  shows "res = Pending \<and> (\<exists>f evs. fst (feed acc_step a (ws @ ws2)) = Inr f # evs
      \<and> sf_session_id f = stx_session tx \<and> sf_sender_role f = stx_role tx
      \<and> sf_peer_role f = out_target out \<and> sf_frame_label f = out_label out
      \<and> sf_lane f = out_lane out \<and> sf_len f = length (out_payload out)
      \<and> take (sf_len f) (sf_bytes f) = take (sf_len f) [0x01, 0x53, 0x49, 0x48])"
proof -
  let ?n = "new_pending out" and ?m = "tx_sio_message tx out"
  have tot: "total_words ?n = 5"
    using assms(3,4) by (simp add: total_words_def new_pending_def payload_word_count_def)
  obtain mem' where four: "sio_poll_send [True, True, True, True] fs tx out mem = Done (Pending,
      map (tx_word ?n (stx_session tx) (stx_role tx)) [0..<4],
      tx\<lparr>stx_pending := Some (?n\<lparr>ptf_word_index := 4\<rparr>)\<rparr>, mem')"
    using sio_poll_send_four [OF assms(1-4)] by blast
  then have poll: "res = Pending" "ws = map (tx_word ?n (stx_session tx) (stx_role tx)) [0..<4]"
    "tx1 = tx\<lparr>stx_pending := Some (?n\<lparr>ptf_word_index := 4\<rparr>)\<rparr>"
    using assms(5) by simp_all
  let ?tx = "sio_cancel_send tx1"
  have tx: "other_core ?tx out2" "stx_pending ?tx = None"
    using assms(6) by (simp_all add: sio_cancel_send_def poll(3) other_core_def)
  have ws2: "ws2 = sio_wire (tx_sio_message ?tx out2)"
    using sio_send_polls_wire [OF tx assms(7)] .
  then obtain rest where ws2': "ws2 = 0x48495301 # rest"
    by (simp add: sio_wire_def tx_sio_message_def total_words_def upt_conv_Cons tx_word_def)
  let ?w = "ws @ [0x48495301]"
  have ws: "ws = [0x48495301, stx_session tx, encode_meta (stx_role tx) (out_target out) (out_label out)
      (length (out_payload out)), ucast (out_lane out)]"
    by (simp add: poll(2) tx_word_def new_pending_def)
  have len: "length (out_payload out) < 256" using assms(4) by simp
  have "payload_word_count (length (out_payload out)) = 1"
    using assms(3,4) by (simp add: payload_word_count_def)
  then have fr: "sio_framed ?w"
    using assms(1,4) len by (simp add: sio_framed_def ws other_core_def)
  have c: "acc_content a = take 0 ?w" using assms(9) by (simp add: acc_content_def)
  have "0 < length ?w" by simp
  from feed_framed_from [OF assms(8) fr assms(9) this c] obtain a' where
    a': "feed acc_step a ?w = ([Inr (acc_frame ?w)], a')" by auto
  have feed: "fst (feed acc_step a (ws @ ws2)) = Inr (acc_frame ?w) # fst (feed acc_step a' rest)"
    using feed_append [of acc_step a ?w rest] a' by (simp add: ws2')
  let ?L = "length (out_payload out)"
  have up: "ucast (ucast (out_lane out) :: u32) = out_lane out" by (simp add: ucast_up_ucast_id is_up)
  have once: "unpack_from ?w ?L 0 bs = unpack_payload_word 0x48495301 bs 0" for bs
  proof -
    have w4: "?w ! 4 = 0x48495301" by (simp add: ws)
    have "unpack_from ?w ?L 4 bs' = bs'" for bs'
      using assms(4) by (subst unpack_from.simps) simp
    moreover have "out_payload out \<noteq> []" using assms(3) by auto
    ultimately show ?thesis by (subst unpack_from.simps) (simp del: append.simps add: w4)
  qed
  consider "?L = 1" | "?L = 2" | "?L = 3" | "?L = 4" using assms(3,4) by linarith
  moreover have reps: "replicate 1 (0 :: u8) = [0]" "replicate 2 (0 :: u8) = [0, 0]"
    "replicate 3 (0 :: u8) = [0, 0, 0]" "replicate 4 (0 :: u8) = [0, 0, 0, 0]"
    by (simp_all add: eval_nat_numeral)
  ultimately have "unpack_payload_word 0x48495301 (replicate ?L 0) 0 = take ?L [0x01, 0x53, 0x49, 0x48]"
    by cases (simp_all only: reps, simp_all add: unpack_payload_word_def)
  then have bytes: "unpack_from ?w ?L 0 (replicate ?L 0) = take ?L [0x01, 0x53, 0x49, 0x48]"
    by (simp only: once)
  have "acc_frame ?w = \<lparr>sf_session_id = stx_session tx, sf_sender_role = stx_role tx,
      sf_peer_role = out_target out, sf_frame_label = out_label out, sf_lane = out_lane out,
      sf_len = ?L, sf_bytes = take ?L [0x01, 0x53, 0x49, 0x48] @ replicate (128 - ?L) 0\<rparr>"
    using len up bytes assms(4) by (simp add: acc_frame_def ws min_def)
  then show ?thesis using poll(1) feed assms(4) by simp
qed

definition short_hello :: outgoing where
  "short_hello = sio_hello\<lparr>out_payload := [104]\<rparr>"

theorem sio_cancel_desync_witness:
  "\<exists>res ws tx1 mem1 f evs. sio_poll_send [True, True, True, True] 0 core0_tx short_hello sio_mem_empty
      = Done (res, ws, tx1, mem1)
    \<and> fst (feed acc_step sio_acc_empty
        (ws @ sio_wire (tx_sio_message (sio_cancel_send tx1) sio_hello))) = Inr f # evs
    \<and> take (sf_len f) (sf_bytes f) = [0x01] \<and> out_payload short_hello = [104]"
proof -
  have oc: "other_core core0_tx short_hello" "stx_pending core0_tx = None"
    by (simp_all add: other_core_def core0_tx_def sio_hello_def short_hello_def rp2w_role_core_def)
  have l: "1 \<le> length (out_payload short_hello)" "length (out_payload short_hello) \<le> 4"
    by (simp_all add: short_hello_def)
  obtain ws tx1 mem1 where p: "sio_poll_send [True, True, True, True] 0 core0_tx short_hello
      sio_mem_empty = Done (Pending, ws, tx1, mem1)" "stx_role tx1 = 0" "stx_core tx1 = 0"
    using sio_poll_send_four [OF oc l, of 0 sio_mem_empty] by (auto simp: core0_tx_def)
  let ?tx = "sio_cancel_send tx1"
  have tx: "other_core ?tx sio_hello" "stx_pending ?tx = None"
    using p by (simp_all add: sio_cancel_send_def other_core_def sio_hello_def rp2w_role_core_def)
  have "length (sio_wire (tx_sio_message ?tx sio_hello)) = 5"
    by (simp add: sio_wire_def tx_sio_message_def total_words_def new_pending_def sio_hello_def
        payload_word_count_def)
  then obtain tx2 mem2 where s: "send_polls 0 sio_hello (replicate 5 [True]) ?tx mem1
      = Done (Ready (Inr ()), sio_wire (tx_sio_message ?tx sio_hello), tx2, mem2)"
    using sio_send_polls_done [OF tx, of "replicate 5 [True]" 0 mem1] by auto
  have a: "acc_inv sio_acc_empty" "acc_word_count sio_acc_empty = 0"
    by (simp, simp add: sio_acc_empty_def)
  from sio_cancel_desync [OF oc l p(1) _ s a] core0_hello(1) p(1) show ?thesis
    by (fastforce simp: short_hello_def)
qed

end
