(* ===== verification/Sio_Baker.thy ===== *)
theory Sio_Baker
  imports Sio_Words Frame_Stash
begin

text \<open>
  The inter-core transport of the RP2040 firmware, \<open>rp2040_sio::SioTransport\<close> in
  \<open>examples/baker-firmware/src/lib.rs\<close>. Unlike the RP2350 it passes whole frames through one
  mailbox slot per direction, and finds out at run time which roles live on which core and on which
  lane. A receive is given what the other core stores into the inbound mailbox before each of its
  looks (\<open>None\<close>: nothing); past the end of that list nothing more is stored and a running deadline
  fires. The timer is a function from the number of reads to the value read; every poll starts by
  adopting the core it runs on.
\<close>

section \<open>State\<close>

datatype bk_event =
  Bk_Trace u32
| Bk_Dir_Tx u8 u8
| Bk_Dir_Rx u8 u8
| Bk_Signal
| Bk_Wake
| Bk_Poll_Seen
| Bk_Pending_Seen
| Bk_Ready_Seen
| Bk_Status u32
| Bk_Rx_Wait u8 u32
| Bk_Tx_Wait u8 u32
| Bk_Tx_Poll u8 u32

definition SIO_RX_WAIT_IDLE :: u32 where "SIO_RX_WAIT_IDLE = - 1"

record bk_pending =
  bp_peer_role :: u8
  bp_frame_label :: u8
  bp_lane :: u8
  bp_len :: nat
  bp_published :: bool
  bp_bytes :: bytes

definition bk_pending_new :: "u8 \<Rightarrow> u8 \<Rightarrow> u8 \<Rightarrow> bytes \<Rightarrow> bk_pending transport_result" where
  "bk_pending_new peer_role frame_label lane bytes =
     (if length bytes > SIO_FRAME_BYTES then Inl Capacity
      else Inr \<lparr>bp_peer_role = peer_role, bp_frame_label = frame_label, bp_lane = lane,
                bp_len = length bytes, bp_published = False,
                bp_bytes = blit 0 bytes (replicate SIO_FRAME_BYTES 0)\<rparr>)"

record bk_tx =
  btx_role :: u8
  btx_core :: u8
  btx_lane :: u8
  btx_session :: u32
  btx_sent :: u16
  btx_wait :: u32
  btx_pending :: "bk_pending option"

record bk_rx =
  brx_role :: u8
  brx_core :: u8
  brx_lane :: u8
  brx_session :: u32
  brx_frame_session :: u32
  brx_frame_lane :: u8
  brx_requeued :: bool
  brx_delivered :: bool
  brx_pending_logged :: bool
  brx_pending_polls :: u32
  brx_wait :: u32
  brx_sender :: u8
  brx_label :: "u8 option"
  brx_deadline :: u32
  brx_len :: nat
  brx_bytes :: bytes

definition bk_rx_new :: "u8 \<Rightarrow> u32 \<Rightarrow> u8 \<Rightarrow> u32 \<Rightarrow> u8 \<Rightarrow> bk_rx" where
  "bk_rx_new local_role session_id lane deadline core_id =
     \<lparr>brx_role = local_role, brx_core = core_id, brx_lane = lane, brx_session = session_id,
      brx_frame_session = session_id, brx_frame_lane = lane, brx_requeued = False,
      brx_delivered = False, brx_pending_logged = False, brx_pending_polls = 0,
      brx_wait = SIO_RX_WAIT_IDLE, brx_sender = 0, brx_label = None, brx_deadline = deadline,
      brx_len = 0, brx_bytes = replicate SIO_FRAME_BYTES 0\<rparr>"

record bk_stashed =
  bst_occupied :: bool
  bst_frame :: sio_frame

definition bk_stashed_empty :: bk_stashed where
  "bk_stashed_empty = \<lparr>bst_occupied = False, bst_frame = sio_frame_empty\<rparr>"

definition BAKER_SIO_ROLE_SLOTS :: nat where [simp]: "BAKER_SIO_ROLE_SLOTS = 3"

record bk_slot =
  bs_occupied :: u32
  bs_session_id :: u32
  bs_sender_role :: u8
  bs_peer_role :: u8
  bs_frame_label :: u8
  bs_lane :: u8
  bs_len :: u8
  bs_bytes :: bytes

definition bk_slot_empty :: bk_slot where
  "bk_slot_empty = \<lparr>bs_occupied = 0, bs_session_id = 0, bs_sender_role = 0, bs_peer_role = 0,
     bs_frame_label = 0, bs_lane = 0, bs_len = 0, bs_bytes = replicate SIO_FRAME_BYTES 0\<rparr>"

text \<open>The statics of the module, with the timer and the log.\<close>

record bk_mem =
  bm_stash0 :: "bk_stashed list"
  bm_stash1 :: "bk_stashed list"
  bm_core_masks :: "u8 list"
  bm_lanes :: "u8 list"
  bm_box01 :: bk_slot
  bm_box10 :: bk_slot
  bm_clock :: "nat \<Rightarrow> u32"
  bm_ticks :: nat
  bm_log :: "bk_event list"

definition bk_mem_new :: "(nat \<Rightarrow> u32) \<Rightarrow> bk_mem" where
  "bk_mem_new clock =
     \<lparr>bm_stash0 = replicate BAKER_SIO_ROLE_SLOTS bk_stashed_empty,
      bm_stash1 = replicate BAKER_SIO_ROLE_SLOTS bk_stashed_empty,
      bm_core_masks = replicate BAKER_SIO_ROLE_SLOTS 0,
      bm_lanes = replicate (BAKER_SIO_ROLE_SLOTS * 2) 0,
      bm_box01 = bk_slot_empty, bm_box10 = bk_slot_empty, bm_clock = clock, bm_ticks = 0, bm_log = []\<rparr>"

definition bk_logs :: "bk_event list \<Rightarrow> bk_mem \<Rightarrow> bk_mem" where
  "bk_logs evs mem = mem\<lparr>bm_log := bm_log mem @ evs\<rparr>"

definition measurement_start :: "bk_mem \<Rightarrow> u32 \<times> bk_mem" where
  "measurement_start mem = (bm_clock mem (bm_ticks mem), mem\<lparr>bm_ticks := bm_ticks mem + 1\<rparr>)"

definition outbound_mailbox :: "u8 \<Rightarrow> bk_mem \<Rightarrow> bk_slot" where
  "outbound_mailbox core_id mem = (if core_id = 0 then bm_box01 mem else bm_box10 mem)"

definition put_outbound :: "u8 \<Rightarrow> bk_slot \<Rightarrow> bk_mem \<Rightarrow> bk_mem" where
  "put_outbound core_id s mem =
     (if core_id = 0 then mem\<lparr>bm_box01 := s\<rparr> else mem\<lparr>bm_box10 := s\<rparr>)"

definition inbound_mailbox :: "u8 \<Rightarrow> bk_mem \<Rightarrow> bk_slot" where
  "inbound_mailbox core_id mem = (if core_id = 0 then bm_box10 mem else bm_box01 mem)"

definition put_inbound :: "u8 \<Rightarrow> bk_slot \<Rightarrow> bk_mem \<Rightarrow> bk_mem" where
  "put_inbound core_id s mem =
     (if core_id = 0 then mem\<lparr>bm_box10 := s\<rparr> else mem\<lparr>bm_box01 := s\<rparr>)"

section \<open>The mailbox\<close>

text \<open>The copy loops of both directions write the first \<open>len\<close> bytes.\<close>

definition publish_mailbox_frame ::
    "u32 \<Rightarrow> u8 \<Rightarrow> bk_pending \<Rightarrow> bk_slot \<Rightarrow> bool \<times> bk_pending \<times> bk_slot" where
  "publish_mailbox_frame session_id local_role frame slot =
     (if bp_published frame then (True, frame, slot)
      else if bs_occupied slot \<noteq> 0 then (False, frame, slot)
      else
        (True, frame\<lparr>bp_published := True\<rparr>,
         slot\<lparr>bs_session_id := session_id, bs_sender_role := local_role,
              bs_peer_role := bp_peer_role frame, bs_frame_label := bp_frame_label frame,
              bs_lane := bp_lane frame, bs_len := of_nat (bp_len frame),
              bs_bytes := blit 0 (take (bp_len frame) (bp_bytes frame)) (bs_bytes slot),
              bs_occupied := 1\<rparr>))"

definition clear_slot :: "bk_slot \<Rightarrow> bk_slot" where
  "clear_slot slot = slot\<lparr>bs_occupied := 0\<rparr>"

text \<open>The result, the slot afterwards, and whether the other core is signalled.\<close>

definition take_mailbox_frame ::
    "bk_slot \<Rightarrow> sio_frame option transport_result \<times> bk_slot \<times> bk_event list" where
  "take_mailbox_frame slot =
     (if bs_occupied slot = 0 then (Inr None, slot, [])
      else
        let len = unat (bs_len slot) in
        if len > SIO_FRAME_BYTES then (Inl Capacity, clear_slot slot, [Bk_Signal])
        else if bs_sender_role slot = bs_peer_role slot then
          (Inl Failed, clear_slot slot, [Bk_Signal])
        else
          (Inr (Some \<lparr>sf_session_id = bs_session_id slot, sf_sender_role = bs_sender_role slot,
             sf_peer_role = bs_peer_role slot, sf_frame_label = bs_frame_label slot,
             sf_lane = bs_lane slot, sf_len = len,
             sf_bytes = blit 0 (take len (bs_bytes slot)) (replicate SIO_FRAME_BYTES 0)\<rparr>),
           clear_slot slot, [Bk_Signal]))"

section \<open>Roles, lanes and the stash\<close>

definition baker_role_stash_index :: "u8 \<Rightarrow> nat option" where
  "baker_role_stash_index role = (if role = 0 \<or> role = 1 \<or> role = 2 then Some (unat role) else None)"

definition core_mask :: "u8 \<Rightarrow> u8 outcome" where
  "core_mask core_id = (if core_id = 0 then Done 1 else if core_id = 1 then Done 2 else Panic)"

definition local_role_lane_slot :: "u8 \<Rightarrow> u8 \<Rightarrow> nat option outcome" where
  "local_role_lane_slot role core_id =
     (case baker_role_stash_index role of
        None \<Rightarrow> Done None
      | Some i \<Rightarrow> if core_id = 0 \<or> core_id = 1 then Done (Some (i * 2 + unat core_id)) else Panic)"

definition mark_local_role_attached :: "u8 \<Rightarrow> u8 \<Rightarrow> u8 \<Rightarrow> bk_mem \<Rightarrow> bk_mem outcome" where
  "mark_local_role_attached core_id role lane mem =
     (case baker_role_stash_index role of
        None \<Rightarrow> Panic
      | Some index \<Rightarrow>
          bind_outcome (local_role_lane_slot role core_id) (\<lambda>lane_slot.
            case lane_slot of
              None \<Rightarrow> Panic
            | Some lane_slot \<Rightarrow>
                bind_outcome (core_mask core_id) (\<lambda>mask.
                  Done (mem\<lparr>bm_core_masks := (bm_core_masks mem)
                              [index := (bm_core_masks mem ! index) OR mask],
                            bm_lanes := (bm_lanes mem)[lane_slot := lane]\<rparr>))))"

definition role_attached_on_core :: "u8 \<Rightarrow> u8 \<Rightarrow> bk_mem \<Rightarrow> bool outcome" where
  "role_attached_on_core role core_id mem =
     (case baker_role_stash_index role of
        None \<Rightarrow> Done False
      | Some index \<Rightarrow> bind_outcome (core_mask core_id) (\<lambda>mask.
          Done ((bm_core_masks mem ! index) AND mask \<noteq> 0)))"

definition role_lane_on_core :: "u8 \<Rightarrow> u8 \<Rightarrow> bk_mem \<Rightarrow> u8 option outcome" where
  "role_lane_on_core role core_id mem =
     bind_outcome (role_attached_on_core role core_id mem) (\<lambda>attached.
       if \<not> attached then Done None
       else bind_outcome (local_role_lane_slot role core_id) (\<lambda>lane_slot.
         Done (map_option (\<lambda>i. bm_lanes mem ! i) lane_slot)))"

definition bk_stash :: "u8 \<Rightarrow> bk_mem \<Rightarrow> bk_stashed list" where
  "bk_stash core_id mem = (if core_id = 0 then bm_stash0 mem else bm_stash1 mem)"

definition bk_put_stash :: "u8 \<Rightarrow> nat \<Rightarrow> bk_stashed \<Rightarrow> bk_mem \<Rightarrow> bk_mem" where
  "bk_put_stash core_id i s mem =
     (if core_id = 0 then mem\<lparr>bm_stash0 := (bm_stash0 mem)[i := s]\<rparr>
      else mem\<lparr>bm_stash1 := (bm_stash1 mem)[i := s]\<rparr>)"

definition bk_take_stashed :: "u8 \<Rightarrow> u8 \<Rightarrow> bk_mem \<Rightarrow> sio_frame option \<times> bk_mem" where
  "bk_take_stashed core_id role mem =
     (case baker_role_stash_index role of
        None \<Rightarrow> (None, mem)
      | Some i \<Rightarrow>
          if \<not> bst_occupied (bk_stash core_id mem ! i) then (None, mem)
          else (Some (bst_frame (bk_stash core_id mem ! i)),
                bk_put_stash core_id i bk_stashed_empty mem))"

definition bk_stash_frame :: "u8 \<Rightarrow> sio_frame \<Rightarrow> bk_mem \<Rightarrow> unit transport_result \<times> bk_mem" where
  "bk_stash_frame core_id frame mem =
     (case baker_role_stash_index (sf_peer_role frame) of
        None \<Rightarrow> (Inl Failed, mem)
      | Some i \<Rightarrow>
          if bst_occupied (bk_stash core_id mem ! i) then (Inl Capacity, mem)
          else (Inr (), bk_put_stash core_id i \<lparr>bst_occupied = True, bst_frame = frame\<rparr> mem))"

section \<open>Wait markers\<close>

definition begin_rx_wait :: "bk_rx \<Rightarrow> bk_mem \<Rightarrow> bk_rx \<times> bk_mem" where
  "begin_rx_wait rx mem =
     (if brx_wait rx = SIO_RX_WAIT_IDLE then
        (case measurement_start mem of (now, mem) \<Rightarrow> (rx\<lparr>brx_wait := now\<rparr>, mem))
      else (rx, mem))"

definition finish_rx_wait :: "bk_rx \<Rightarrow> bk_mem \<Rightarrow> bk_rx \<times> bk_mem" where
  "finish_rx_wait rx mem =
     (if brx_wait rx \<noteq> SIO_RX_WAIT_IDLE then
        (case measurement_start mem of (now, mem) \<Rightarrow>
           (rx\<lparr>brx_wait := SIO_RX_WAIT_IDLE\<rparr>, bk_logs [Bk_Rx_Wait (brx_role rx) (now - brx_wait rx)] mem))
      else (rx, mem))"

definition clear_rx_wait :: "bk_rx \<Rightarrow> bk_rx" where
  "clear_rx_wait rx = rx\<lparr>brx_wait := SIO_RX_WAIT_IDLE\<rparr>"

definition begin_tx_wait :: "bk_tx \<Rightarrow> bk_mem \<Rightarrow> bk_tx \<times> bk_mem" where
  "begin_tx_wait tx mem =
     (if btx_wait tx = SIO_RX_WAIT_IDLE then
        (case measurement_start mem of (now, mem) \<Rightarrow> (tx\<lparr>btx_wait := now\<rparr>, mem))
      else (tx, mem))"

definition finish_tx_wait :: "bk_tx \<Rightarrow> bk_mem \<Rightarrow> bk_tx \<times> bk_mem" where
  "finish_tx_wait tx mem =
     (if btx_wait tx \<noteq> SIO_RX_WAIT_IDLE then
        (case measurement_start mem of (now, mem) \<Rightarrow>
           (tx\<lparr>btx_wait := SIO_RX_WAIT_IDLE\<rparr>, bk_logs [Bk_Tx_Wait (btx_role tx) (now - btx_wait tx)] mem))
      else (tx, mem))"

definition finish_tx_poll :: "bk_tx \<Rightarrow> u32 \<Rightarrow> bk_mem \<Rightarrow> bk_mem" where
  "finish_tx_poll tx start_us mem =
     (case measurement_start mem of (now, mem) \<Rightarrow>
        bk_logs [Bk_Tx_Poll (btx_role tx) (now - start_us)] mem)"

section \<open>Open and send\<close>

definition bk_trace_frame :: "u8 \<Rightarrow> u8 \<Rightarrow> u8 \<Rightarrow> nat \<Rightarrow> u8 \<Rightarrow> u32" where
  "bk_trace_frame event local_role peer_role len frame_label =
     0x50000000 OR push_bit 24 (ucast event) OR push_bit 20 (ucast local_role)
       OR push_bit 16 (ucast peer_role) OR push_bit 8 (of_nat len AND 0xff) OR ucast frame_label"

definition bk_open_with_tx_session_xor :: "u8 \<Rightarrow> port_open \<Rightarrow> u32 \<Rightarrow> u32 \<Rightarrow> bk_tx \<times> bk_rx" where
  "bk_open_with_tx_session_xor core_id port tx_session_xor deadline =
     (\<lparr>btx_role = port_role port, btx_core = core_id, btx_lane = port_lane port,
       btx_session = port_session port XOR tx_session_xor, btx_sent = 0,
       btx_wait = SIO_RX_WAIT_IDLE, btx_pending = None\<rparr>,
      bk_rx_new (port_role port) (port_session port) (port_lane port) deadline core_id)"

definition bk_open :: "u8 \<Rightarrow> port_open \<Rightarrow> bk_mem \<Rightarrow> ((bk_tx \<times> bk_rx) \<times> bk_mem) outcome" where
  "bk_open core_id port mem =
     bind_outcome (mark_local_role_attached core_id (port_role port) (port_lane port) mem) (\<lambda>mem.
       Done ((\<lparr>btx_role = port_role port, btx_core = core_id, btx_lane = port_lane port,
               btx_session = port_session port, btx_sent = 0, btx_wait = SIO_RX_WAIT_IDLE,
               btx_pending = None\<rparr>,
              bk_rx_new (port_role port) (port_session port) (port_lane port) 0 core_id), mem))"

text \<open>The end of a send whose frame is pending: publish it, or wait for the slot.\<close>

definition bk_publish_pending ::
    "u32 \<Rightarrow> bk_pending \<Rightarrow> bk_tx \<Rightarrow> bk_mem \<Rightarrow> unit transport_result poll \<times> bk_tx \<times> bk_mem" where
  "bk_publish_pending poll_start p tx mem =
     (case publish_mailbox_frame (btx_session tx) (btx_role tx) p
             (outbound_mailbox (btx_core tx) mem) of
        (False, p, _) \<Rightarrow>
          (case begin_tx_wait (tx\<lparr>btx_pending := Some p\<rparr>) mem of (tx, mem) \<Rightarrow>
             (Pending, tx, finish_tx_poll tx poll_start (bk_logs [Bk_Signal] mem)))
      | (True, p, slot) \<Rightarrow>
          (case finish_tx_wait (tx\<lparr>btx_pending := Some p\<rparr>)
                  (put_outbound (btx_core tx) slot mem) of (tx, mem) \<Rightarrow>
             let mem = bk_logs [Bk_Signal,
                   Bk_Trace (bk_trace_frame 8 (btx_role tx) (bp_peer_role p) (bp_len p)
                     (bp_frame_label p)),
                   Bk_Dir_Tx (btx_role tx) (bp_peer_role p), Bk_Signal] mem;
                 tx = tx\<lparr>btx_pending := None, btx_sent := sat_inc16 (btx_sent tx)\<rparr>
             in (Ready (Inr ()), tx, finish_tx_poll tx poll_start mem)))"

definition bk_poll_send ::
    "u8 \<Rightarrow> bk_tx \<Rightarrow> outgoing \<Rightarrow> bk_mem \<Rightarrow>
       (unit transport_result poll \<times> bk_tx \<times> bk_mem) outcome" where
  "bk_poll_send core_id tx out mem =
     (case measurement_start mem of (poll_start, mem) \<Rightarrow>
      let bytes = out_payload out; target = out_target out; label = out_label out;
          role = btx_role tx; len = length bytes; tx = tx\<lparr>btx_core := core_id\<rparr> in
      bind_outcome (mark_local_role_attached (btx_core tx) role (btx_lane tx) mem) (\<lambda>mem.
        if target = role then
          Done (Ready (Inl Failed), tx, finish_tx_poll tx poll_start
                 (bk_logs [Bk_Trace (bk_trace_frame 6 role target len label)] mem))
        else if len > SIO_FRAME_BYTES then
          Done (Ready (Inl Capacity), tx, finish_tx_poll tx poll_start mem)
        else bind_outcome (role_lane_on_core target (btx_core tx) mem) (\<lambda>target_lane.
          case target_lane of
            Some lane \<Rightarrow>
              let frame = sio_frame_empty\<lparr>sf_session_id := btx_session tx, sf_sender_role := role,
                    sf_peer_role := target, sf_frame_label := label, sf_lane := lane,
                    sf_len := len, sf_bytes := blit 0 bytes (sf_bytes sio_frame_empty)\<rparr> in
              (case bk_stash_frame (btx_core tx) frame mem of
                 (Inl e, mem) \<Rightarrow> Done (Ready (Inl e), tx, finish_tx_poll tx poll_start mem)
               | (Inr _, mem) \<Rightarrow>
                   let mem = bk_logs [Bk_Trace (bk_trace_frame 14 role target len label), Bk_Wake,
                         Bk_Signal] mem;
                       tx = tx\<lparr>btx_sent := sat_inc16 (btx_sent tx)\<rparr>
                   in Done (Ready (Inr ()), tx, finish_tx_poll tx poll_start mem))
          | None \<Rightarrow>
              (case btx_pending tx of
                 Some p \<Rightarrow> Done (bk_publish_pending poll_start p tx mem)
               | None \<Rightarrow>
                   let mem = bk_logs [Bk_Trace (bk_trace_frame 1 role target len label),
                         Bk_Trace (bk_trace_frame 11 role target (unat (out_lane out)) label)] mem in
                   (case bk_pending_new target label (out_lane out) bytes of
                      Inl e \<Rightarrow> Done (Ready (Inl e), tx, finish_tx_poll tx poll_start mem)
                    | Inr p \<Rightarrow> Done (bk_publish_pending poll_start p tx mem))))))"

definition bk_cancel_send :: "bk_tx \<Rightarrow> bk_mem \<Rightarrow> bk_tx \<times> bk_mem" where
  "bk_cancel_send tx mem =
     (let mem = (case btx_pending tx of
            Some p \<Rightarrow>
              if bp_published p
              then bk_logs [Bk_Signal] (put_outbound (btx_core tx)
                     (clear_slot (outbound_mailbox (btx_core tx) mem)) mem)
              else mem
          | None \<Rightarrow> mem)
      in (tx\<lparr>btx_wait := SIO_RX_WAIT_IDLE, btx_sent := 0, btx_pending := None\<rparr>, mem))"

section \<open>Receive\<close>

definition bk_stage_frame :: "bk_rx \<Rightarrow> sio_frame \<Rightarrow> bk_mem \<Rightarrow> bk_rx \<times> bk_mem" where
  "bk_stage_frame rx frame mem =
     (case finish_rx_wait rx mem of (rx, mem) \<Rightarrow>
        (rx\<lparr>brx_frame_session := sf_session_id frame, brx_frame_lane := sf_lane frame,
            brx_label := Some (sf_frame_label frame), brx_sender := sf_sender_role frame,
            brx_len := sf_len frame, brx_delivered := True,
            brx_bytes := blit 0 (take (sf_len frame) (sf_bytes frame)) (brx_bytes rx)\<rparr>, mem))"

definition bk_frame_targets_rx_lane :: "sio_frame \<Rightarrow> bk_rx \<Rightarrow> bool" where
  "bk_frame_targets_rx_lane frame rx \<longleftrightarrow> sf_lane frame = brx_lane rx"

type_synonym bk_result = "received transport_result poll outcome"

definition bk_deliver :: "bk_rx \<Rightarrow> bk_result" where
  "bk_deliver rx =
     (case brx_label rx of
        None \<Rightarrow> Panic
      | Some label \<Rightarrow> Done (Ready (Inr \<lparr>recv_header = be_bytes32 (brx_frame_session rx)
            @ [brx_frame_lane rx, brx_sender rx, brx_role rx, label],
          recv_payload = take (brx_len rx) (brx_bytes rx)\<rparr>)))"

datatype bk_step = Bk_Continue bk_rx bk_mem | Bk_Return bk_result bk_rx bk_mem

definition bk_restash :: "sio_frame \<Rightarrow> u32 \<Rightarrow> bk_rx \<Rightarrow> bk_mem \<Rightarrow> bk_step" where
  "bk_restash frame trace rx mem =
     (case bk_stash_frame (brx_core rx) frame mem of
        (Inl e, mem) \<Rightarrow> Bk_Return (Done (Ready (Inl e))) rx mem
      | (Inr _, mem) \<Rightarrow> Bk_Continue rx (bk_logs [Bk_Trace trace, Bk_Wake] mem))"

text \<open>Staging and returning a frame; \<open>event\<close> tells the stash (13) from the mailbox (2).\<close>

definition bk_hand_out :: "u8 \<Rightarrow> sio_frame \<Rightarrow> bk_rx \<Rightarrow> bk_mem \<Rightarrow> bk_result \<times> bk_rx \<times> bk_mem" where
  "bk_hand_out event frame rx mem =
     (case bk_stage_frame rx frame mem of (rx, mem) \<Rightarrow>
        let mem = bk_logs [Bk_Dir_Rx (brx_role rx) (sf_sender_role frame),
              Bk_Trace (bk_trace_frame event (brx_role rx) (sf_sender_role frame) (sf_len frame)
                (sf_frame_label frame))] mem
        in (bk_deliver rx, rx, mem))"

definition bk_recv_frame :: "sio_frame \<Rightarrow> bk_rx \<Rightarrow> bk_mem \<Rightarrow> bk_step" where
  "bk_recv_frame frame rx mem =
     (let role = brx_role rx;
          mem = (if role = 1 then bk_logs [Bk_Ready_Seen] mem else mem);
          rx = rx\<lparr>brx_pending_logged := False, brx_pending_polls := 0\<rparr> in
      if sf_peer_role frame \<noteq> role then
        bk_restash frame
          (bk_trace_frame 12 role (sf_peer_role frame) (sf_len frame) (sf_frame_label frame)) rx mem
      else if \<not> bk_frame_targets_rx_lane frame rx then
        bk_restash frame
          (bk_trace_frame 10 role (sf_sender_role frame) (unat (sf_lane frame))
             (sf_frame_label frame)) rx mem
      else (case bk_hand_out 2 frame rx mem of (res, rx, mem) \<Rightarrow> Bk_Return res rx mem))"

text \<open>A look at the mailbox: \<open>None\<close> if it is empty.\<close>

definition bk_recv_slot :: "bk_rx \<Rightarrow> bk_mem \<Rightarrow> bk_step option" where
  "bk_recv_slot rx mem =
     (case take_mailbox_frame (inbound_mailbox (brx_core rx) mem) of (res, slot, evs) \<Rightarrow>
        let mem = bk_logs evs (put_inbound (brx_core rx) slot mem) in
        (case res of
           Inr None \<Rightarrow> None
         | Inl e \<Rightarrow> Some (Bk_Return (Done (Ready (Inl e))) rx mem)
         | Inr (Some frame) \<Rightarrow>
             (case finish_rx_wait rx mem of (rx, mem) \<Rightarrow> Some (bk_recv_frame frame rx mem))))"

definition bk_recv_empty :: "bk_rx \<Rightarrow> bk_mem \<Rightarrow> bk_rx \<times> bk_mem" where
  "bk_recv_empty rx mem =
     (case begin_rx_wait rx mem of (rx, mem) \<Rightarrow>
        let role = brx_role rx;
            rx = rx\<lparr>brx_pending_polls := brx_pending_polls rx + 1\<rparr>;
            mem = (if role = 1 then bk_logs [Bk_Pending_Seen, Bk_Status (0x54528000
                     OR push_bit 12 (ucast (brx_core rx)) OR (brx_pending_polls rx AND 0x0fff))] mem
                   else mem);
            mem = (if \<not> brx_pending_logged rx
                   then bk_logs [Bk_Trace (bk_trace_frame 7 role role (unat (brx_lane rx)) 0)] mem
                   else mem)
        in (rx\<lparr>brx_pending_logged := True\<rparr>, mem))"

definition bk_other_core :: "u8 \<Rightarrow> bk_slot option \<Rightarrow> bk_mem \<Rightarrow> bk_mem" where
  "bk_other_core core_id stored mem =
     (case stored of None \<Rightarrow> mem | Some slot \<Rightarrow> put_inbound core_id slot mem)"

text \<open>With a deadline the receive looks again until it finds a frame or the timer fires.\<close>

fun bk_wait_frame :: "u8 \<Rightarrow> bk_slot option list \<Rightarrow> bk_mem \<Rightarrow> bool \<times> bk_mem \<times> bk_slot option list" where
  "bk_wait_frame core_id [] mem = (False, mem, [])"
| "bk_wait_frame core_id (stored # arr) mem =
     (let mem = bk_other_core core_id stored mem in
      if bs_occupied (inbound_mailbox core_id mem) = 0 then bk_wait_frame core_id arr mem
      else (True, mem, arr))"

lemma bk_wait_frame_length:
  "bk_wait_frame c arr mem = (found, mem', arr') \<Longrightarrow> length arr' \<le> length arr
    \<and> (found \<longrightarrow> length arr' < length arr)"
  by (induction c arr mem rule: bk_wait_frame.induct) (fastforce simp: Let_def split: if_splits)+

lemma inbound_mailbox_simps [simp]:
  "inbound_mailbox c (bk_logs evs mem) = inbound_mailbox c mem"
  "inbound_mailbox c (bk_put_stash c' i st mem) = inbound_mailbox c mem"
  "inbound_mailbox c (put_inbound c s mem) = s"
  "inbound_mailbox c (mem\<lparr>bm_ticks := n\<rparr>) = inbound_mailbox c mem"
  by (simp_all add: inbound_mailbox_def bk_logs_def bk_put_stash_def put_inbound_def)

lemma take_mailbox_frame_None:
  "fst (take_mailbox_frame slot) = Inr None \<longleftrightarrow> bs_occupied slot = 0"
  by (simp add: take_mailbox_frame_def Let_def)

lemma take_mailbox_frame_clear: "bs_occupied (fst (snd (take_mailbox_frame slot))) = 0"
  by (simp add: take_mailbox_frame_def clear_slot_def Let_def)

lemma bk_restash_Continue:
  assumes "bk_restash f t rx mem = Bk_Continue rx' mem'"
  shows "rx' = rx \<and> inbound_mailbox c mem' = inbound_mailbox c mem"
  using assms
  by (auto simp: bk_restash_def bk_stash_frame_def split: prod.splits option.splits sum.splits if_splits)

lemma finish_rx_wait_frame [simp]:
  "finish_rx_wait rx mem = (rx', mem') \<Longrightarrow> brx_core rx' = brx_core rx
    \<and> inbound_mailbox c mem' = inbound_mailbox c mem"
  by (auto simp: finish_rx_wait_def measurement_start_def split: if_splits)

lemma bk_recv_frame_Continue:
  assumes "bk_recv_frame f rx mem = Bk_Continue rx' mem'"
  shows "brx_core rx' = brx_core rx \<and> inbound_mailbox c mem' = inbound_mailbox c mem"
proof -
  have "\<exists>t rx1 mem1. bk_restash f t rx1 mem1 = Bk_Continue rx' mem' \<and> brx_core rx1 = brx_core rx
      \<and> inbound_mailbox c mem1 = inbound_mailbox c mem"
    using assms by (force simp: bk_recv_frame_def Let_def split: if_splits prod.splits)
  then show ?thesis by (metis bk_restash_Continue)
qed

lemma bk_recv_slot_Continue:
  assumes "bk_recv_slot rx mem = Some (Bk_Continue rx' mem')"
  shows "brx_core rx' = brx_core rx \<and> bs_occupied (inbound_mailbox (brx_core rx) mem) \<noteq> 0
    \<and> bs_occupied (inbound_mailbox (brx_core rx) mem') = 0"
proof -
  obtain res slot evs where t: "take_mailbox_frame (inbound_mailbox (brx_core rx) mem) = (res, slot, evs)"
    by (metis prod_cases3)
  let ?mem = "bk_logs evs (put_inbound (brx_core rx) slot mem)"
  obtain f where "res = Inr (Some f)" "Some (bk_recv_frame f (fst (finish_rx_wait rx ?mem))
      (snd (finish_rx_wait rx ?mem))) = Some (Bk_Continue rx' mem')"
    using assms unfolding bk_recv_slot_def t Let_def
    by (auto split: sum.splits option.splits prod.splits)
  then show ?thesis
    using take_mailbox_frame_None [of "inbound_mailbox (brx_core rx) mem"]
      take_mailbox_frame_clear [of "inbound_mailbox (brx_core rx) mem"] t
      finish_rx_wait_frame [of rx ?mem, OF surjective_pairing]
      bk_recv_frame_Continue by (metis Inr_inject fst_conv inbound_mailbox_simps(1,3) option.inject
        option.discI snd_conv)
qed

lemma bk_recv_slot_None: "bk_recv_slot rx mem = None
    \<longleftrightarrow> bs_occupied (inbound_mailbox (brx_core rx) mem) = 0"
  using take_mailbox_frame_None [of "inbound_mailbox (brx_core rx) mem"]
  by (auto simp: bk_recv_slot_def Let_def split: prod.splits sum.splits option.splits)

lemma bk_recv_empty_frame:
  "bk_recv_empty rx mem = (rx', mem') \<Longrightarrow> brx_core rx' = brx_core rx
    \<and> inbound_mailbox c mem' = inbound_mailbox c mem"
  by (auto simp: bk_recv_empty_def begin_rx_wait_def measurement_start_def Let_def split: if_splits)

function bk_recv_loop ::
    "bk_slot option list \<Rightarrow> bk_rx \<Rightarrow> bk_mem \<Rightarrow> bk_result \<times> bk_rx \<times> bk_mem \<times> bk_slot option list" where
  "bk_recv_loop arr rx mem =
     (let mem = bk_other_core (brx_core rx) (case arr of [] \<Rightarrow> None | stored # _ \<Rightarrow> stored) mem in
      (case bk_recv_slot rx mem of
         Some (Bk_Return res rx mem) \<Rightarrow> (res, rx, mem, tl arr)
       | Some (Bk_Continue rx mem) \<Rightarrow> bk_recv_loop (tl arr) rx mem
       | None \<Rightarrow>
           (case bk_recv_empty rx mem of (rx, mem) \<Rightarrow>
              if brx_deadline rx = 0 then (Done Pending, rx, mem, tl arr)
              else
                (case bk_wait_frame (brx_core rx) (tl arr) mem of (_, mem, arr') \<Rightarrow>
                   (case bk_recv_slot rx mem of
                      None \<Rightarrow> (Done (Ready (Inl Deadline)), clear_rx_wait rx, mem, arr')
                    | Some (Bk_Continue rx mem) \<Rightarrow> bk_recv_loop arr' rx mem
                    | Some (Bk_Return res rx mem) \<Rightarrow> (res, rx, mem, arr'))))))"
  by pat_completeness blast
termination
proof (relation "measure (\<lambda>(arr, rx, mem). length arr
    + (if bs_occupied (inbound_mailbox (brx_core rx) mem) \<noteq> 0 then 1 else 0))", goal_cases)
  case 1
  show ?case by (rule wf_measure)
next
  case (2 arr rx mem mem1 rx2 y found y2 mem3 arr' x2 rx4 mem4)
  have c: "brx_core rx2 = brx_core rx" "inbound_mailbox c y = inbound_mailbox c mem1" for c
    using bk_recv_empty_frame [OF 2(3) [symmetric]] by simp_all
  have o: "bs_occupied (inbound_mailbox (brx_core rx) y) = 0"
    using 2(2) by (simp add: c(2) bk_recv_slot_None)
  have w: "bk_wait_frame (brx_core rx2) (tl arr) y = (found, mem3, arr')" using 2(5,6) by simp
  have "bk_recv_slot rx2 mem3 = Some (Bk_Continue rx4 mem4)" using 2(7,8) by simp
  note k = bk_recv_slot_Continue [OF this]
  have "arr \<noteq> []" using k w o c(1) by (cases arr) auto
  then show ?case using k bk_wait_frame_length [OF w] c(1) by (cases arr) auto
next
  case (3 arr rx mem mem1 x2 rx2 mem2)
  have "bk_recv_slot rx mem1 = Some (Bk_Continue rx2 mem2)" using 3(2,3) by simp
  note k = bk_recv_slot_Continue [OF this]
  show ?case using k 3(1) by (cases arr) (auto simp: bk_other_core_def)
qed

declare bk_recv_loop.simps [simp del]

definition bk_drop_delivered :: "bk_rx \<Rightarrow> bk_rx" where
  "bk_drop_delivered rx =
     (if brx_label rx \<noteq> None
      then rx\<lparr>brx_label := None, brx_delivered := False, brx_pending_logged := False,
              brx_pending_polls := 0, brx_wait := SIO_RX_WAIT_IDLE, brx_len := 0,
              brx_frame_session := brx_session rx, brx_frame_lane := brx_lane rx\<rparr>
      else rx)"

text \<open>A receive that has nothing to hand out again: first the stash, then the mailbox.\<close>

definition bk_recv_fresh ::
    "bk_slot option list \<Rightarrow> bk_rx \<Rightarrow> bk_mem \<Rightarrow> bk_result \<times> bk_rx \<times> bk_mem \<times> bk_slot option list" where
  "bk_recv_fresh arr rx mem =
     (case bk_take_stashed (brx_core rx) (brx_role rx) mem of
        (Some frame, mem) \<Rightarrow>
          if \<not> bk_frame_targets_rx_lane frame rx then
            (case bk_stash_frame (brx_core rx) frame mem of
               (Inl e, mem) \<Rightarrow> (Done (Ready (Inl e)), rx, mem, arr)
             | (Inr _, mem) \<Rightarrow>
                 (Done Pending, rx,
                  bk_logs [Bk_Trace (bk_trace_frame 15 (brx_role rx) (sf_sender_role frame)
                    (unat (sf_lane frame)) (sf_frame_label frame)), Bk_Wake] mem, arr))
          else
            (case bk_hand_out 13 frame rx mem of (res, rx, mem) \<Rightarrow> (res, rx, mem, arr))
      | (None, mem) \<Rightarrow> bk_recv_loop arr rx mem)"

definition bk_poll_recv ::
    "u8 \<Rightarrow> bk_slot option list \<Rightarrow> bk_rx \<Rightarrow> bk_mem \<Rightarrow>
       (bk_result \<times> bk_rx \<times> bk_mem \<times> bk_slot option list) outcome" where
  "bk_poll_recv core_id arr rx mem =
     (let rx = rx\<lparr>brx_core := core_id\<rparr>; role = brx_role rx in
      bind_outcome (mark_local_role_attached (brx_core rx) role (brx_lane rx) mem) (\<lambda>mem.
        let mem = (if role = 1 then bk_logs [Bk_Poll_Seen] mem else mem) in
        if brx_label rx \<noteq> None \<and> (brx_requeued rx \<or> \<not> brx_delivered rx) then
          let rx = clear_rx_wait (rx\<lparr>brx_requeued := False, brx_delivered := True,
                      brx_pending_logged := False, brx_pending_polls := 0\<rparr>);
              mem = bk_logs [Bk_Trace (bk_trace_frame 3 role role (brx_len rx) (the (brx_label rx)))]
                      mem
          in Done (bk_deliver rx, rx, mem, arr)
        else Done (bk_recv_fresh arr (bk_drop_delivered rx) mem)))"

definition bk_requeue :: "bk_rx \<Rightarrow> bk_mem \<Rightarrow> unit transport_result \<times> bk_rx \<times> bk_mem" where
  "bk_requeue rx mem =
     (let rx = rx\<lparr>brx_requeued := brx_label rx \<noteq> None\<rparr> in
      if brx_requeued rx then
        (Inr (), rx\<lparr>brx_delivered := False\<rparr>,
         bk_logs [Bk_Trace (bk_trace_frame 4 (brx_role rx) (brx_role rx) (brx_len rx)
                    (the (brx_label rx)))] mem)
      else (Inr (), rx, mem))"

section \<open>What operations leave alone\<close>

text \<open>The memory without timer reads and log.\<close>

definition bk_view :: "bk_mem \<Rightarrow> bk_mem" where
  "bk_view mem = mem\<lparr>bm_ticks := 0, bm_log := []\<rparr>"

lemma bk_view_simps [simp]:
  "bk_view (bk_logs evs mem) = bk_view mem" "bk_view (mem\<lparr>bm_ticks := n\<rparr>) = bk_view mem"
  "bk_view (finish_tx_poll tx us mem) = bk_view mem"
  by (simp_all add: bk_view_def bk_logs_def finish_tx_poll_def measurement_start_def)

lemma begin_rx_wait_view:
  "\<exists>w mem'. begin_rx_wait rx mem = (rx\<lparr>brx_wait := w\<rparr>, mem') \<and> bk_view mem' = bk_view mem"
proof (cases "brx_wait rx = SIO_RX_WAIT_IDLE")
  case True
  show ?thesis
    by (rule exI [of _ "bm_clock mem (bm_ticks mem)"]) (simp add: begin_rx_wait_def True measurement_start_def)
next
  case False
  show ?thesis
    by (rule exI [of _ "brx_wait rx"]) (simp add: begin_rx_wait_def False measurement_start_def)
qed

lemma finish_rx_wait_view:
  "\<exists>w mem'. finish_rx_wait rx mem = (rx\<lparr>brx_wait := w\<rparr>, mem') \<and> bk_view mem' = bk_view mem"
proof (cases "brx_wait rx = SIO_RX_WAIT_IDLE")
  case True
  have id: "rx\<lparr>brx_wait := brx_wait rx\<rparr> = rx" by simp
  have "finish_rx_wait rx mem = (rx, mem)" using True by (simp add: finish_rx_wait_def)
  then show ?thesis by (intro exI [of _ "brx_wait rx"] exI [of _ mem]) (unfold id, simp only: refl simp_thms)
next
  case False
  show ?thesis
    by (rule exI [of _ "SIO_RX_WAIT_IDLE"]) (simp add: finish_rx_wait_def False measurement_start_def)
qed

lemma begin_tx_wait_view:
  "\<exists>w mem'. begin_tx_wait tx mem = (tx\<lparr>btx_wait := w\<rparr>, mem') \<and> bk_view mem' = bk_view mem"
proof (cases "btx_wait tx = SIO_RX_WAIT_IDLE")
  case True
  show ?thesis
    by (rule exI [of _ "bm_clock mem (bm_ticks mem)"]) (simp add: begin_tx_wait_def True measurement_start_def)
next
  case False
  show ?thesis
    by (rule exI [of _ "btx_wait tx"]) (simp add: begin_tx_wait_def False measurement_start_def)
qed

lemma finish_tx_wait_view:
  "\<exists>w mem'. finish_tx_wait tx mem = (tx\<lparr>btx_wait := w\<rparr>, mem') \<and> bk_view mem' = bk_view mem"
proof (cases "btx_wait tx = SIO_RX_WAIT_IDLE")
  case True
  have id: "tx\<lparr>btx_wait := btx_wait tx\<rparr> = tx" by simp
  have "finish_tx_wait tx mem = (tx, mem)" using True by (simp add: finish_tx_wait_def)
  then show ?thesis by (intro exI [of _ "btx_wait tx"] exI [of _ mem]) (unfold id, simp only: refl simp_thms)
next
  case False
  show ?thesis
    by (rule exI [of _ "SIO_RX_WAIT_IDLE"]) (simp add: finish_tx_wait_def False measurement_start_def)
qed

definition bk_mem_inv :: "bk_mem \<Rightarrow> bool" where
  "bk_mem_inv mem \<longleftrightarrow> length (bm_core_masks mem) = 3 \<and> length (bm_lanes mem) = 6
     \<and> (\<forall>c. length (bk_stash c mem) = 3 \<and> (\<forall>s \<in> set (bk_stash c mem). sio_frame_ok (bst_frame s)))"

text \<open>The frame a role finds in the stash of a core.\<close>

definition bk_stashed :: "bk_mem \<Rightarrow> u8 \<Rightarrow> u8 \<Rightarrow> sio_frame option" where
  "bk_stashed mem c role =
     (if unat role < 3 \<and> bst_occupied (bk_stash c mem ! unat role)
      then Some (bst_frame (bk_stash c mem ! unat role)) else None)"

lemma role_lane_cong:
  assumes "bm_core_masks m = bm_core_masks m'" "bm_lanes m = bm_lanes m'"
  shows "role_lane_on_core r c m = role_lane_on_core r c m'"
  unfolding role_lane_on_core_def role_attached_on_core_def assms ..

lemma bk_view_reads [simp]:
  "bk_stash c (bk_view mem) = bk_stash c mem"
  "bk_mem_inv (bk_view mem) = bk_mem_inv mem"
  "bk_stashed (bk_view mem) c r = bk_stashed mem c r"
  "inbound_mailbox c (bk_view mem) = inbound_mailbox c mem"
  "outbound_mailbox c (bk_view mem) = outbound_mailbox c mem"
  "role_lane_on_core r c (bk_view mem) = role_lane_on_core r c mem"
  by (simp_all add: bk_view_def bk_stash_def bk_mem_inv_def bk_stashed_def inbound_mailbox_def
      outbound_mailbox_def role_lane_cong [of "mem\<lparr>bm_ticks := 0, bm_log := []\<rparr>" mem])

lemma bk_view_eq:
  assumes "bk_view mem' = bk_view mem"
  shows "bk_stash c mem' = bk_stash c mem" "bk_mem_inv mem' = bk_mem_inv mem"
    "bk_stashed mem' c r = bk_stashed mem c r" "inbound_mailbox c mem' = inbound_mailbox c mem"
    "outbound_mailbox c mem' = outbound_mailbox c mem"
    "role_lane_on_core r c mem' = role_lane_on_core r c mem"
  using assms bk_view_reads by metis+

lemma bk_logs_reads [simp]:
  "bk_stash c (bk_logs evs mem) = bk_stash c mem" "bk_mem_inv (bk_logs evs mem) = bk_mem_inv mem"
  "bk_stashed (bk_logs evs mem) c r = bk_stashed mem c r"
  "outbound_mailbox c (bk_logs evs mem) = outbound_mailbox c mem"
  "role_lane_on_core r c (bk_logs evs mem) = role_lane_on_core r c mem"
  by (rule bk_view_eq, simp)+

lemma finish_tx_poll_reads [simp]:
  "bk_stash c (finish_tx_poll tx us mem) = bk_stash c mem"
  "bk_mem_inv (finish_tx_poll tx us mem) = bk_mem_inv mem"
  "bk_stashed (finish_tx_poll tx us mem) c r = bk_stashed mem c r"
  "inbound_mailbox c (finish_tx_poll tx us mem) = inbound_mailbox c mem"
  "outbound_mailbox c (finish_tx_poll tx us mem) = outbound_mailbox c mem"
  "role_lane_on_core r c (finish_tx_poll tx us mem) = role_lane_on_core r c mem"
  by (rule bk_view_eq, simp)+

lemma put_box_reads [simp]:
  "bk_stash c (put_inbound c' s mem) = bk_stash c mem"
  "bk_mem_inv (put_inbound c' s mem) = bk_mem_inv mem"
  "bk_stashed (put_inbound c' s mem) c r = bk_stashed mem c r"
  "role_lane_on_core r c (put_inbound c' s mem) = role_lane_on_core r c mem"
  "bk_stash c (put_outbound c' s mem) = bk_stash c mem"
  "bk_mem_inv (put_outbound c' s mem) = bk_mem_inv mem"
  "bk_stashed (put_outbound c' s mem) c r = bk_stashed mem c r"
  "role_lane_on_core r c (put_outbound c' s mem) = role_lane_on_core r c mem"
  "outbound_mailbox c (put_outbound c s mem) = s"
  by (simp_all add: put_inbound_def put_outbound_def bk_stash_def bk_mem_inv_def bk_stashed_def
      outbound_mailbox_def) (auto intro: role_lane_cong)

lemma inbound_of_outbound:
  "same_core c c' = False \<Longrightarrow> inbound_mailbox c' mem = outbound_mailbox c mem"
  by (auto simp: inbound_mailbox_def outbound_mailbox_def)

section \<open>Stash and attachment\<close>

lemma baker_role_stash_index_iff:
  "baker_role_stash_index role = (if unat role < 3 then Some (unat role) else None)"
proof -
  have "unat role < 3 \<longleftrightarrow> unat role = 0 \<or> unat role = 1 \<or> unat role = 2" by linarith
  then have "unat role < 3 \<longleftrightarrow> role = 0 \<or> role = 1 \<or> role = 2"
    by (simp add: word_unat_eq_iff)
  then show ?thesis by (simp add: baker_role_stash_index_def)
qed

lemma bk_put_stash_reads [simp]:
  "bk_stash c' (bk_put_stash c i s mem)
     = (if same_core c c' then (bk_stash c' mem)[i := s] else bk_stash c' mem)"
  "outbound_mailbox c' (bk_put_stash c i s mem) = outbound_mailbox c' mem"
  "role_lane_on_core r c' (bk_put_stash c i s mem) = role_lane_on_core r c' mem"
  by (auto simp: bk_stash_def bk_put_stash_def outbound_mailbox_def intro: role_lane_cong)

lemma bk_mem_invD:
  assumes "bk_mem_inv mem"
  shows "length (bk_stash c mem) = 3" "s \<in> set (bk_stash c mem) \<Longrightarrow> sio_frame_ok (bst_frame s)"
  using assms by (auto simp: bk_mem_inv_def)

lemma bk_put_stash_inv [inv_intros]:
  "bk_mem_inv mem \<Longrightarrow> sio_frame_ok (bst_frame s) \<Longrightarrow> bk_mem_inv (bk_put_stash c i s mem)"
  unfolding bk_mem_inv_def bk_put_stash_reads
  by (auto simp: bk_put_stash_def dest!: set_update_subset_insert [THEN subsetD])

lemma bk_stashed_put:
  assumes "bk_mem_inv mem" "unat role < 3"
  shows "bk_stashed (bk_put_stash c (unat role) s mem) c' r
    = (if same_core c c' \<and> r = role then (if bst_occupied s then Some (bst_frame s) else None)
       else bk_stashed mem c' r)"
  using assms bk_mem_invD(1) [OF assms(1), of c']
  by (cases "r = role") (auto simp: bk_stashed_def word_unat_eq_iff)

lemma bk_take_stashed_spec:
  assumes "bk_mem_inv mem"
  shows "case bk_stashed mem c role of
      None \<Rightarrow> bk_take_stashed c role mem = (None, mem)
    | Some f \<Rightarrow> \<exists>mem'. bk_take_stashed c role mem = (Some f, mem') \<and> bk_mem_inv mem' \<and> sio_frame_ok f
        \<and> (\<forall>c. inbound_mailbox c mem' = inbound_mailbox c mem)
        \<and> (\<forall>c' r. bk_stashed mem' c' r
             = (if same_core c c' \<and> r = role then None else bk_stashed mem c' r))"
proof (cases "unat role < 3 \<and> bst_occupied (bk_stash c mem ! unat role)")
  case True
  then have r: "unat role < 3" "bst_occupied (bk_stash c mem ! unat role)" by auto
  have ok: "sio_frame_ok (bst_frame (bk_stash c mem ! unat role))"
    using bk_mem_invD [OF assms] r(1) by (metis nth_mem)
  have e: "sio_frame_ok (bst_frame bk_stashed_empty)" "\<not> bst_occupied bk_stashed_empty"
    by (simp_all add: bk_stashed_empty_def sio_frame_ok_def sio_frame_empty_def)
  have t: "bk_take_stashed c role mem = (Some (bst_frame (bk_stash c mem ! unat role)),
      bk_put_stash c (unat role) bk_stashed_empty mem)"
    using r by (simp add: bk_take_stashed_def baker_role_stash_index_iff)
  have s: "bk_stashed mem c role = Some (bst_frame (bk_stash c mem ! unat role))"
    using r by (simp add: bk_stashed_def)
  show ?thesis
    using ok e bk_stashed_put [OF assms r(1), of c bk_stashed_empty]
      bk_put_stash_inv [OF assms e(1), of c "unat role"] by (simp add: s t)
next
  case False
  then show ?thesis by (auto simp: bk_stashed_def bk_take_stashed_def baker_role_stash_index_iff)
qed

lemma bk_stash_frame_spec:
  assumes "bk_mem_inv mem" "sio_frame_ok f"
  shows "if unat (sf_peer_role f) < 3 \<and> bk_stashed mem c (sf_peer_role f) = None
    then \<exists>mem'. bk_stash_frame c f mem = (Inr (), mem') \<and> bk_mem_inv mem'
      \<and> (\<forall>c. inbound_mailbox c mem' = inbound_mailbox c mem)
      \<and> (\<forall>c' r. bk_stashed mem' c' r
           = (if same_core c c' \<and> r = sf_peer_role f then Some f else bk_stashed mem c' r))
    else bk_stash_frame c f mem = (Inl (if unat (sf_peer_role f) < 3 then Capacity else Failed), mem)"
proof (cases "unat (sf_peer_role f) < 3 \<and> bk_stashed mem c (sf_peer_role f) = None")
  case True
  then have r: "unat (sf_peer_role f) < 3" "\<not> bst_occupied (bk_stash c mem ! unat (sf_peer_role f))"
    by (auto simp: bk_stashed_def)
  let ?s = "\<lparr>bst_occupied = True, bst_frame = f\<rparr>"
  have "bk_stash_frame c f mem = (Inr (), bk_put_stash c (unat (sf_peer_role f)) ?s mem)"
    using r by (simp add: bk_stash_frame_def baker_role_stash_index_iff)
  then show ?thesis
    using True bk_stashed_put [OF assms(1) r(1), of c ?s] bk_put_stash_inv [OF assms(1), of ?s]
      assms(2) by simp
next
  case False
  then show ?thesis by (auto simp: bk_stashed_def bk_stash_frame_def baker_role_stash_index_iff)
qed

interpretation baker_stash: keyed_stash "bk_stash_frame c" "bk_take_stashed c"
  "\<lambda>mem. bk_stashed mem c" sf_peer_role "\<lambda>r. unat r < 3" bk_mem_inv sio_frame_ok
  for c
proof (unfold_locales, goal_cases)
  case (1 s f)
  then show ?case using bk_stash_frame_spec [OF 1(1,2), of c] by auto
next
  case (2 s f)
  then show ?case using bk_stash_frame_spec [OF 2(1,2), of c] by auto
next
  case (3 s k)
  then show ?case using bk_take_stashed_spec [OF 3(1), of c k] by simp
next
  case (4 s k f)
  then show ?case using bk_take_stashed_spec [OF 4(1), of c k] by auto
qed

definition bk_core :: "u8 \<Rightarrow> bool" where
  "bk_core c \<longleftrightarrow> c = 0 \<or> c = 1"

lemma role_lane_iff:
  assumes "bk_core c"
  shows "role_lane_on_core r c mem = Done
    (if unat r < 3 \<and> (bm_core_masks mem ! unat r) AND (if c = 0 then 1 else 2) \<noteq> 0
     then Some (bm_lanes mem ! (unat r * 2 + unat c)) else None)"
  using assms
  by (auto simp: role_lane_on_core_def role_attached_on_core_def core_mask_def local_role_lane_slot_def
      baker_role_stash_index_iff bk_core_def)

lemma or_and_0 [simp]: "(a OR b) AND c = 0 \<longleftrightarrow> a AND c = 0 \<and> b AND c = (0 :: u8)"
  by (simp add: bit.conj_disj_distrib2 or_eq_0_iff)

lemma mark_attached_spec:
  assumes "bk_mem_inv mem" "unat role < 3" "bk_core c"
  shows "\<exists>mem'. mark_local_role_attached c role lane mem = Done mem' \<and> bk_mem_inv mem'
    \<and> (\<forall>c r. bk_stashed mem' c r = bk_stashed mem c r)
    \<and> (\<forall>c. inbound_mailbox c mem' = inbound_mailbox c mem)
    \<and> (\<forall>c. outbound_mailbox c mem' = outbound_mailbox c mem)
    \<and> (\<forall>c' r. bk_core c' \<longrightarrow> role_lane_on_core r c' mem'
         = (if r = role \<and> c' = c then Done (Some lane) else role_lane_on_core r c' mem))"
proof -
  let ?m = "if c = 0 then 1 else 2 :: u8"
  let ?mem = "mem\<lparr>bm_core_masks := (bm_core_masks mem)[unat role := (bm_core_masks mem ! unat role) OR ?m],
      bm_lanes := (bm_lanes mem)[unat role * 2 + unat c := lane]\<rparr>"
  have len: "length (bm_core_masks mem) = 3" "length (bm_lanes mem) = 6"
    using assms(1) by (simp_all add: bk_mem_inv_def)
  have c01: "unat c = (if c = 0 then 0 else 1)" using assms(3) by (auto simp: bk_core_def)
  have "mark_local_role_attached c role lane mem = Done ?mem"
    using assms(2,3) by (auto simp: mark_local_role_attached_def baker_role_stash_index_iff
        local_role_lane_slot_def core_mask_def bk_core_def)
  moreover have "bk_stash c ?mem = bk_stash c mem" for c by (simp add: bk_stash_def)
  then have "bk_mem_inv ?mem" using assms(1) by (simp add: bk_mem_inv_def)
  moreover have "role_lane_on_core r c' ?mem
      = (if r = role \<and> c' = c then Done (Some lane) else role_lane_on_core r c' mem)"
    if c': "bk_core c'" for r c'
  proof (cases "r = role")
    case True
    then show ?thesis
      using assms(2,3) c' len unfolding role_lane_iff [OF c'] by (auto simp: bk_core_def)
  next
    case False
    have "unat c' < 2" "unat c < 2" using c' c01 by (auto simp: bk_core_def)
    moreover have "unat r \<noteq> unat role" using False by (simp add: word_unat_eq_iff)
    ultimately have "unat role * 2 + unat c \<noteq> unat r * 2 + unat c'" by linarith
    then show ?thesis
      using False \<open>unat r \<noteq> unat role\<close> unfolding role_lane_iff [OF c'] by simp
  qed
  ultimately show ?thesis
    by (intro exI [of _ ?mem])
      (simp add: bk_stashed_def bk_stash_def inbound_mailbox_def outbound_mailbox_def)
qed

section \<open>The mailbox carries a frame unchanged\<close>

lemma publish_free:
  assumes "bs_occupied slot = 0" "\<not> bp_published p"
  shows "\<exists>slot'. publish_mailbox_frame sid role p slot = (True, p\<lparr>bp_published := True\<rparr>, slot')
    \<and> bs_occupied slot' = 1"
  using assms by (simp add: publish_mailbox_frame_def)

lemma publish_occupied:
  assumes "bs_occupied slot \<noteq> 0" "\<not> bp_published p"
  shows "publish_mailbox_frame sid role p slot = (False, p, slot)"
  using assms by (simp add: publish_mailbox_frame_def)

text \<open>The frame a pending one becomes on the other side.\<close>

definition bk_pending_frame :: "u32 \<Rightarrow> u8 \<Rightarrow> bk_pending \<Rightarrow> sio_frame" where
  "bk_pending_frame sid role p =
     \<lparr>sf_session_id = sid, sf_sender_role = role, sf_peer_role = bp_peer_role p,
      sf_frame_label = bp_frame_label p, sf_lane = bp_lane p, sf_len = bp_len p,
      sf_bytes = blit 0 (take (bp_len p) (bp_bytes p)) (replicate SIO_FRAME_BYTES 0)\<rparr>"

definition bk_pending_ok :: "u8 \<Rightarrow> bk_pending \<Rightarrow> bool" where
  "bk_pending_ok role p \<longleftrightarrow> \<not> bp_published p \<and> bp_len p \<le> 128 \<and> length (bp_bytes p) = 128
     \<and> bp_peer_role p \<noteq> role"

lemma take_published:
  assumes "bk_pending_ok role p" and "publish_mailbox_frame sid role p slot = (True, p', slot')"
  shows "take_mailbox_frame slot'
    = (Inr (Some (bk_pending_frame sid role p)), clear_slot slot', [Bk_Signal])"
proof -
  have "slot' = slot\<lparr>bs_session_id := sid, bs_sender_role := role,
              bs_peer_role := bp_peer_role p, bs_frame_label := bp_frame_label p,
              bs_lane := bp_lane p, bs_len := of_nat (bp_len p),
              bs_bytes := blit 0 (take (bp_len p) (bp_bytes p)) (bs_bytes slot),
              bs_occupied := 1\<rparr>"
    using assms by (auto simp: publish_mailbox_frame_def bk_pending_ok_def split: if_splits)
  moreover have "take (bp_len p) (blit 0 (take (bp_len p) (bp_bytes p)) bs) = take (bp_len p) (bp_bytes p)"
    for bs using assms(1) by (simp add: take_blit_0_le bk_pending_ok_def)
  ultimately show ?thesis
    using assms(1) by (auto simp: take_mailbox_frame_def bk_pending_frame_def bk_pending_ok_def Let_def)
qed

lemma bk_pending_frame_ok: "bk_pending_ok role p \<Longrightarrow> sio_frame_ok (bk_pending_frame sid role p)"
  by (simp add: bk_pending_ok_def bk_pending_frame_def sio_frame_ok_def)

section \<open>Sending\<close>

lemma bk_publish_pending_spec:
  assumes "bk_pending_ok (btx_role tx) p"
  shows "\<exists>res tx' mem'. bk_publish_pending t p tx mem = (res, tx', mem')
    \<and> btx_role tx' = btx_role tx \<and> btx_core tx' = btx_core tx \<and> btx_lane tx' = btx_lane tx
    \<and> btx_session tx' = btx_session tx
    \<and> (if bs_occupied (outbound_mailbox (btx_core tx) mem) \<noteq> 0
       then res = Pending \<and> btx_pending tx' = Some p \<and> bk_view mem' = bk_view mem
       else res = Ready (Inr ()) \<and> btx_pending tx' = None
         \<and> (\<exists>slot'. bk_view mem' = bk_view (put_outbound (btx_core tx) slot' mem)
           \<and> take_mailbox_frame slot' = (Inr (Some (bk_pending_frame (btx_session tx) (btx_role tx) p)),
                clear_slot slot', [Bk_Signal])))"
proof (cases "bs_occupied (outbound_mailbox (btx_core tx) mem) = 0")
  case True
  obtain slot' where P: "publish_mailbox_frame (btx_session tx) (btx_role tx) p
      (outbound_mailbox (btx_core tx) mem) = (True, p\<lparr>bp_published := True\<rparr>, slot')"
    using publish_free [OF True, of p] assms by (auto simp: bk_pending_ok_def)
  obtain w mem1 where w: "finish_tx_wait (tx\<lparr>btx_pending := Some (p\<lparr>bp_published := True\<rparr>)\<rparr>)
      (put_outbound (btx_core tx) slot' mem)
      = (tx\<lparr>btx_pending := Some (p\<lparr>bp_published := True\<rparr>), btx_wait := w\<rparr>, mem1)"
    "bk_view mem1 = bk_view (put_outbound (btx_core tx) slot' mem)"
    using finish_tx_wait_view [of "tx\<lparr>btx_pending := Some (p\<lparr>bp_published := True\<rparr>)\<rparr>"
        "put_outbound (btx_core tx) slot' mem"] by auto
  show ?thesis
    using True w take_published [OF assms P] by (auto simp: bk_publish_pending_def P Let_def)
next
  case False
  have P: "publish_mailbox_frame (btx_session tx) (btx_role tx) p
      (outbound_mailbox (btx_core tx) mem) = (False, p, outbound_mailbox (btx_core tx) mem)"
    using publish_occupied [OF False] assms by (simp add: bk_pending_ok_def)
  show ?thesis
    using False begin_tx_wait_view [of "tx\<lparr>btx_pending := Some p\<rparr>" mem]
    by (auto simp: bk_publish_pending_def P Let_def)
qed

definition bk_new_pending :: "outgoing \<Rightarrow> bk_pending" where
  "bk_new_pending out = \<lparr>bp_peer_role = out_target out, bp_frame_label = out_label out,
     bp_lane = out_lane out, bp_len = length (out_payload out), bp_published = False,
     bp_bytes = blit 0 (out_payload out) (replicate SIO_FRAME_BYTES 0)\<rparr>"

text \<open>The frame a send works on: the one it left pending, or a new one.\<close>

definition bk_current :: "bk_tx \<Rightarrow> outgoing \<Rightarrow> bk_pending" where
  "bk_current tx out = (case btx_pending tx of Some p \<Rightarrow> p | None \<Rightarrow> bk_new_pending out)"

definition bk_tx_ok :: "bk_tx \<Rightarrow> bool" where
  "bk_tx_ok tx \<longleftrightarrow> unat (btx_role tx) < 3
     \<and> (\<forall>p. btx_pending tx = Some p \<longrightarrow> bk_pending_ok (btx_role tx) p)"

text \<open>The message as a frame on a lane.\<close>

definition bk_out_frame :: "bk_tx \<Rightarrow> outgoing \<Rightarrow> u8 \<Rightarrow> sio_frame" where
  "bk_out_frame tx out lane = \<lparr>sf_session_id = btx_session tx, sf_sender_role = btx_role tx,
     sf_peer_role = out_target out, sf_frame_label = out_label out, sf_lane = lane,
     sf_len = length (out_payload out),
     sf_bytes = blit 0 (out_payload out) (replicate SIO_FRAME_BYTES 0)\<rparr>"

lemma bk_new_pending_frame:
  "bk_pending_frame (btx_session tx) (btx_role tx) (bk_new_pending out)
    = bk_out_frame tx out (out_lane out)"
  by (simp add: bk_pending_frame_def bk_new_pending_def bk_out_frame_def)

lemma bk_current_ok:
  assumes "bk_tx_ok tx" "out_target out \<noteq> btx_role tx" "length (out_payload out) \<le> 128"
  shows "bk_pending_ok (btx_role tx) (bk_current tx out)"
  using assms by (auto simp: bk_current_def bk_tx_ok_def bk_new_pending_def bk_pending_ok_def
      split: option.split)

lemma bk_send_spec:
  assumes "bk_mem_inv mem" "bk_core c" "bk_tx_ok tx"
  shows "\<exists>res tx' mem'. bk_poll_send c tx out mem = Done (res, tx', mem') \<and> bk_mem_inv mem'
    \<and> bk_tx_ok tx' \<and> btx_session tx' = btx_session tx \<and> btx_role tx' = btx_role tx
    \<and> (\<forall>r c'. bk_core c' \<longrightarrow> role_lane_on_core r c' mem' = (if r = btx_role tx \<and> c' = c
         then Done (Some (btx_lane tx)) else role_lane_on_core r c' mem))
    \<and> (if out_target out = btx_role tx then
         res = Ready (Inl Failed) \<and> (\<forall>c r. bk_stashed mem' c r = bk_stashed mem c r)
         \<and> outbound_mailbox c mem' = outbound_mailbox c mem
       else if length (out_payload out) > 128 then
         res = Ready (Inl Capacity) \<and> (\<forall>c r. bk_stashed mem' c r = bk_stashed mem c r)
         \<and> outbound_mailbox c mem' = outbound_mailbox c mem
       else case role_lane_on_core (out_target out) c mem of
         Done (Some lane) \<Rightarrow>
           outbound_mailbox c mem' = outbound_mailbox c mem
           \<and> (if bk_stashed mem c (out_target out) = None
              then res = Ready (Inr ()) \<and> (\<forall>c' r. bk_stashed mem' c' r
                = (if same_core c c' \<and> r = out_target out then Some (bk_out_frame tx out lane)
                   else bk_stashed mem c' r))
              else res = Ready (Inl Capacity) \<and> (\<forall>c r. bk_stashed mem' c r = bk_stashed mem c r))
       | _ \<Rightarrow> (\<forall>c r. bk_stashed mem' c r = bk_stashed mem c r)
           \<and> (if bs_occupied (outbound_mailbox c mem) \<noteq> 0
              then res = Pending \<and> btx_pending tx' = Some (bk_current tx out)
                \<and> outbound_mailbox c mem' = outbound_mailbox c mem
              else res = Ready (Inr ()) \<and> btx_pending tx' = None
                \<and> take_mailbox_frame (outbound_mailbox c mem')
                  = (Inr (Some (bk_pending_frame (btx_session tx) (btx_role tx) (bk_current tx out))),
                     clear_slot (outbound_mailbox c mem'), [Bk_Signal])))"
proof -
  let ?tx = "tx\<lparr>btx_core := c\<rparr>" and ?t = "out_target out" and ?b = "out_payload out"
  let ?ms = "measurement_start mem"
  have v: "bk_view (snd ?ms) = bk_view mem" by (simp add: measurement_start_def)
  note V = bk_view_eq [OF v]
  have inv0: "bk_mem_inv (snd ?ms)" using assms(1) V(2) by simp
  from mark_attached_spec [OF inv0 _ assms(2), of "btx_role tx" "btx_lane tx"] assms(3)
  obtain mem1 where M: "mark_local_role_attached c (btx_role tx) (btx_lane tx) (snd ?ms) = Done mem1"
    "bk_mem_inv mem1" "\<And>c r. bk_stashed mem1 c r = bk_stashed mem c r"
    "\<And>c. outbound_mailbox c mem1 = outbound_mailbox c mem"
    "\<And>c' r. bk_core c' \<Longrightarrow> role_lane_on_core r c' mem1 = (if r = btx_role tx \<and> c' = c
         then Done (Some (btx_lane tx)) else role_lane_on_core r c' mem)"
    by (auto simp: bk_tx_ok_def V)
  define t0 where "t0 = fst ?ms"
  have ms: "?ms = (t0, snd ?ms)" by (simp add: t0_def)
  have okx: "bk_tx_ok ?tx" using assms(3) by (simp add: bk_tx_ok_def)
  consider (own) "?t = btx_role tx" | (long) "?t \<noteq> btx_role tx" "length ?b > 128"
    | (near) lane where "?t \<noteq> btx_role tx" "length ?b \<le> 128"
        "role_lane_on_core ?t c mem = Done (Some lane)"
    | (far) "?t \<noteq> btx_role tx" "length ?b \<le> 128" "role_lane_on_core ?t c mem = Done None"
    using role_lane_iff [OF assms(2), of ?t mem] by (metis not_less option.exhaust)
  then show ?thesis
  proof cases
    case own
    then show ?thesis
      using M okx by (subst bk_poll_send_def, subst ms) (simp add: Let_def)
  next
    case long
    then show ?thesis
      using M okx by (subst bk_poll_send_def, subst ms) (simp add: Let_def)
  next
    case near
    let ?f = "bk_out_frame tx out lane"
    have f: "sio_frame_empty\<lparr>sf_session_id := btx_session tx, sf_sender_role := btx_role tx,
        sf_peer_role := ?t, sf_frame_label := out_label out, sf_lane := lane, sf_len := length ?b,
        sf_bytes := blit 0 ?b (sf_bytes sio_frame_empty)\<rparr> = ?f"
      by (simp add: sio_frame_empty_def bk_out_frame_def)
    have ok: "sio_frame_ok ?f" and peer: "sf_peer_role ?f = ?t"
      using near(2) by (simp_all add: sio_frame_ok_def bk_out_frame_def)
    have l: "role_lane_on_core ?t c mem1 = Done (Some lane)" using M(5) [OF assms(2)] near by simp
    have t3: "unat ?t < 3"
      using near(3) role_lane_iff [OF assms(2), of ?t mem] by (auto split: if_splits)
    note S = bk_stash_frame_spec [OF M(2) ok, of c, unfolded peer]
    show ?thesis
    proof (cases "bk_stashed mem c ?t")
      case None
      with S t3 obtain mem2 where s: "bk_stash_frame c ?f mem1 = (Inr (), mem2)" "bk_mem_inv mem2"
        "\<forall>c' r. bk_stashed mem2 c' r
           = (if same_core c c' \<and> r = ?t then Some ?f else bk_stashed mem1 c' r)"
        by (auto simp: M(3))
      have o: "outbound_mailbox c mem2 = outbound_mailbox c mem1"
        "bk_core c' \<Longrightarrow> role_lane_on_core r c' mem2 = role_lane_on_core r c' mem1" for c' r
        using s(1) by (auto simp: bk_stash_frame_def split: option.splits if_splits)
      show ?thesis
        using near None M l s o okx f
        by (subst bk_poll_send_def, subst ms) (simp add: Let_def bk_tx_ok_def)
    next
      case (Some f0)
      with S t3 have s: "bk_stash_frame c ?f mem1 = (Inl Capacity, mem1)" by (simp add: M(3))
      show ?thesis
        using near Some M l s okx f by (subst bk_poll_send_def, subst ms) (simp add: Let_def)
    qed
  next
    case far
    let ?p = "bk_current tx out"
    have ok: "bk_pending_ok (btx_role tx) ?p" using bk_current_ok [OF assms(3) far(1,2)] .
    have l: "role_lane_on_core ?t c mem1 = Done None" using M(5) [OF assms(2)] far by simp
    define mem2 where "mem2 = (if btx_pending tx = None then
        bk_logs [Bk_Trace (bk_trace_frame 1 (btx_role tx) ?t (length ?b) (out_label out)),
          Bk_Trace (bk_trace_frame 11 (btx_role tx) ?t (unat (out_lane out)) (out_label out))] mem1
        else mem1)"
    have v2: "bk_view mem2 = bk_view mem1" by (simp add: mem2_def)
    have new: "bk_pending_new ?t (out_label out) (out_lane out) ?b = Inr (bk_new_pending out)"
      using far(2) by (simp add: bk_pending_new_def bk_new_pending_def)
    have poll: "bk_poll_send c tx out mem = Done (bk_publish_pending t0 ?p ?tx mem2)"
      using far(1,2) M(1) l new by (subst bk_poll_send_def, subst ms)
        (cases "btx_pending tx", simp_all add: Let_def bk_current_def mem2_def)
    have ok': "bk_pending_ok (btx_role ?tx) ?p" using ok by simp
    have sel: "btx_core ?tx = c" "btx_role ?tx = btx_role tx" "btx_session ?tx = btx_session tx"
      by simp_all
    from bk_publish_pending_spec [OF ok', of t0 mem2, unfolded sel] obtain res tx' mem' where
      P: "bk_publish_pending t0 ?p ?tx mem2 = (res, tx', mem')"
      "btx_role tx' = btx_role tx" "btx_session tx' = btx_session tx"
      "if bs_occupied (outbound_mailbox c mem2) \<noteq> 0
       then res = Pending \<and> btx_pending tx' = Some ?p \<and> bk_view mem' = bk_view mem2
       else res = Ready (Inr ()) \<and> btx_pending tx' = None
         \<and> (\<exists>slot'. bk_view mem' = bk_view (put_outbound c slot' mem2)
           \<and> take_mailbox_frame slot' = (Inr (Some (bk_pending_frame (btx_session tx) (btx_role tx) ?p)),
                clear_slot slot', [Bk_Signal]))"
      by blast
    note V2 = bk_view_eq [OF v2]
    show ?thesis
    proof (cases "bs_occupied (outbound_mailbox c mem) = 0")
      case True
      with P(4) obtain slot' where r: "res = Ready (Inr ())" "btx_pending tx' = None"
        "bk_view mem' = bk_view (put_outbound c slot' mem2)"
        "take_mailbox_frame slot' = (Inr (Some (bk_pending_frame (btx_session tx) (btx_role tx) ?p)),
                clear_slot slot', [Bk_Signal])" by (auto simp: V2 M(4))
      note V3 = bk_view_eq [OF r(3)]
      show ?thesis
        using far True P(1-3) r M V2 V3 assms(3) by (simp add: poll bk_tx_ok_def)
    next
      case False
      with P(4) have r: "res = Pending" "btx_pending tx' = Some ?p" "bk_view mem' = bk_view mem2"
        by (simp_all add: V2 M(4))
      note V3 = bk_view_eq [OF r(3)]
      show ?thesis
        using far False P(1-3) r M V2 V3 assms(3) ok by (simp add: poll bk_tx_ok_def)
    qed
  qed
qed

section \<open>Receiving\<close>

definition brx_ok :: "bk_rx \<Rightarrow> bool" where
  "brx_ok rx \<longleftrightarrow> length (brx_bytes rx) = 128 \<and> brx_len rx \<le> 128"

definition bk_hands_out_nothing :: "bk_rx \<Rightarrow> bool" where
  "bk_hands_out_nothing rx \<longleftrightarrow> \<not> (brx_label rx \<noteq> None \<and> (brx_requeued rx \<or> \<not> brx_delivered rx))"

lemma brx_ok_simps [simp]:
  "brx_ok (rx\<lparr>brx_wait := w\<rparr>) = brx_ok rx" "brx_ok (rx\<lparr>brx_core := c\<rparr>) = brx_ok rx"
  "brx_ok (clear_rx_wait rx) = brx_ok rx"
  "brx_ok (rx\<lparr>brx_pending_logged := b, brx_pending_polls := n\<rparr>) = brx_ok rx"
  by (simp_all add: brx_ok_def clear_rx_wait_def)

lemma bk_drop_delivered_simps [simp]:
  "brx_role (bk_drop_delivered rx) = brx_role rx" "brx_core (bk_drop_delivered rx) = brx_core rx"
  "brx_lane (bk_drop_delivered rx) = brx_lane rx"
  "brx_deadline (bk_drop_delivered rx) = brx_deadline rx"
  "brx_label (bk_drop_delivered rx) = None" "brx_ok rx \<Longrightarrow> brx_ok (bk_drop_delivered rx)"
  by (simp_all add: bk_drop_delivered_def brx_ok_def)

lemma bk_hand_out_spec:
  assumes "brx_ok rx" "sio_frame_ok f"
  shows "\<exists>rx' mem'. bk_hand_out ev f rx mem
      = (Done (Ready (Inr (sio_frame_received (brx_role rx) f))), rx', mem')
    \<and> brx_ok rx' \<and> brx_label rx' = Some (sf_frame_label f) \<and> brx_delivered rx'
    \<and> bk_view mem' = bk_view mem"
  using assms finish_rx_wait_view [of rx mem]
  by (auto simp: bk_hand_out_def bk_stage_frame_def bk_deliver_def sio_frame_received_def brx_ok_def
      sio_frame_ok_def take_blit_0_le Let_def)

text \<open>A look that finds a frame for this role and lane returns it and frees the slot.\<close>

lemma bk_recv_slot_frame:
  assumes "brx_ok rx" "take_mailbox_frame (inbound_mailbox (brx_core rx) mem) = (Inr (Some f), slot, evs)"
    and "sio_frame_ok f" "sf_peer_role f = brx_role rx" "sf_lane f = brx_lane rx"
  shows "\<exists>rx' mem'. bk_recv_slot rx mem
      = Some (Bk_Return (Done (Ready (Inr (sio_frame_received (brx_role rx) f)))) rx' mem')
    \<and> brx_ok rx' \<and> inbound_mailbox (brx_core rx) mem' = slot
    \<and> (\<forall>c r. bk_stashed mem' c r = bk_stashed mem c r)"
proof -
  let ?mem = "bk_logs evs (put_inbound (brx_core rx) slot mem)"
  obtain w mem1 where w: "finish_rx_wait rx ?mem = (rx\<lparr>brx_wait := w\<rparr>, mem1)" "bk_view mem1 = bk_view ?mem"
    using finish_rx_wait_view by blast
  let ?mem1 = "if brx_role rx = 1 then bk_logs [Bk_Ready_Seen] mem1 else mem1"
  let ?rx = "rx\<lparr>brx_wait := w, brx_pending_logged := False, brx_pending_polls := 0\<rparr>"
  have ok: "brx_ok ?rx" using assms(1) by (simp add: brx_ok_def)
  from bk_hand_out_spec [OF ok assms(3), of 2 ?mem1] obtain rx' mem' where
    h: "bk_hand_out 2 f ?rx ?mem1 = (Done (Ready (Inr (sio_frame_received (brx_role rx) f))), rx', mem')"
      "brx_ok rx'" "bk_view mem' = bk_view ?mem1" by auto
  have v: "bk_view mem' = bk_view ?mem" using h(3) w(2) by simp
  note V = bk_view_eq [OF v]
  show ?thesis
    using assms(2,4,5) w(1) h(1,2) V
    by (simp add: bk_recv_slot_def bk_recv_frame_def bk_frame_targets_rx_lane_def Let_def)
qed

text \<open>The beginning of a receive that has nothing to hand out again.\<close>

lemma bk_poll_recv_start:
  assumes "bk_mem_inv mem" "bk_core d" "unat (brx_role rx) < 3" "bk_hands_out_nothing rx"
  shows "\<exists>mem1. bk_poll_recv d arr rx mem
      = Done (bk_recv_fresh arr (bk_drop_delivered (rx\<lparr>brx_core := d\<rparr>)) mem1)
    \<and> bk_mem_inv mem1 \<and> (\<forall>c r. bk_stashed mem1 c r = bk_stashed mem c r)
    \<and> (\<forall>c. inbound_mailbox c mem1 = inbound_mailbox c mem)"
proof -
  from mark_attached_spec [OF assms(1,3,2), of "brx_lane rx"] obtain mem0 where
    M: "mark_local_role_attached d (brx_role rx) (brx_lane rx) mem = Done mem0" "bk_mem_inv mem0"
    "\<forall>c r. bk_stashed mem0 c r = bk_stashed mem c r"
    "\<forall>c. inbound_mailbox c mem0 = inbound_mailbox c mem" by blast
  let ?m = "if brx_role rx = 1 then bk_logs [Bk_Poll_Seen] mem0 else mem0"
  have "bk_poll_recv d arr rx mem
      = Done (bk_recv_fresh arr (bk_drop_delivered (rx\<lparr>brx_core := d\<rparr>)) ?m)"
    using M(1) assms(4) by (auto simp: bk_poll_recv_def Let_def bk_hands_out_nothing_def)
  then show ?thesis using M(2-4) by (intro exI [of _ ?m]) simp
qed

lemma bk_poll_recv_stashed:
  assumes "bk_mem_inv mem" "bk_core d" "unat (brx_role rx) < 3" "bk_hands_out_nothing rx" "brx_ok rx"
    and "bk_stashed mem d (brx_role rx) = Some f" "sf_lane f = brx_lane rx"
  shows "\<exists>rx' mem'. bk_poll_recv d arr rx mem
      = Done (Done (Ready (Inr (sio_frame_received (brx_role rx) f))), rx', mem', arr)
    \<and> bk_mem_inv mem' \<and> bk_stashed mem' d (brx_role rx) = None
    \<and> (\<forall>c. inbound_mailbox c mem' = inbound_mailbox c mem)"
proof -
  let ?rx = "bk_drop_delivered (rx\<lparr>brx_core := d\<rparr>)"
  from bk_poll_recv_start [OF assms(1-4), of arr] obtain mem1 where
    p: "bk_mem_inv mem1" "\<forall>c r. bk_stashed mem1 c r = bk_stashed mem c r"
      "\<forall>c. inbound_mailbox c mem1 = inbound_mailbox c mem"
      "bk_poll_recv d arr rx mem = Done (bk_recv_fresh arr ?rx mem1)" by blast
  from bk_take_stashed_spec [OF p(1), of d "brx_role rx"] assms(6) p(2) obtain mem2 where
    t: "bk_take_stashed d (brx_role rx) mem1 = (Some f, mem2)" "bk_mem_inv mem2" "sio_frame_ok f"
      "bk_stashed mem2 d (brx_role rx) = None" "\<forall>c. inbound_mailbox c mem2 = inbound_mailbox c mem1"
    by auto
  have ok: "brx_ok ?rx" using assms(5) by simp
  from bk_hand_out_spec [OF ok t(3), of 13 mem2] obtain rx' mem' where
    h: "bk_hand_out 13 f ?rx mem2
      = (Done (Ready (Inr (sio_frame_received (brx_role rx) f))), rx', mem')"
      "bk_view mem' = bk_view mem2" by auto
  note V = bk_view_eq [OF h(2)]
  have "bk_frame_targets_rx_lane f ?rx" using assms(7) by (simp add: bk_frame_targets_rx_lane_def)
  then show ?thesis using t V p h(1) by (simp add: bk_recv_fresh_def)
qed

lemma bk_poll_recv_mailbox:
  assumes "bk_mem_inv mem" "bk_core d" "unat (brx_role rx) < 3" "bk_hands_out_nothing rx" "brx_ok rx"
    and "bk_stashed mem d (brx_role rx) = None"
    and "take_mailbox_frame (inbound_mailbox d mem) = (Inr (Some f), slot, evs)"
    and "sio_frame_ok f" "sf_peer_role f = brx_role rx" "sf_lane f = brx_lane rx"
  shows "\<exists>rx' mem'. bk_poll_recv d [] rx mem
      = Done (Done (Ready (Inr (sio_frame_received (brx_role rx) f))), rx', mem', [])
    \<and> inbound_mailbox d mem' = slot \<and> (\<forall>c r. bk_stashed mem' c r = bk_stashed mem c r)"
proof -
  let ?rx = "bk_drop_delivered (rx\<lparr>brx_core := d\<rparr>)"
  from bk_poll_recv_start [OF assms(1-4), of "[]"] obtain mem1 where
    p: "bk_mem_inv mem1" "\<forall>c r. bk_stashed mem1 c r = bk_stashed mem c r"
      "\<forall>c. inbound_mailbox c mem1 = inbound_mailbox c mem"
      "bk_poll_recv d [] rx mem = Done (bk_recv_fresh [] ?rx mem1)" by blast
  from bk_take_stashed_spec [OF p(1), of d "brx_role rx"] assms(6) p(2)
  have t: "bk_take_stashed d (brx_role rx) mem1 = (None, mem1)" by simp
  have ok: "brx_ok ?rx" using assms(5) by simp
  have m: "take_mailbox_frame (inbound_mailbox (brx_core ?rx) mem1) = (Inr (Some f), slot, evs)"
    "sf_peer_role f = brx_role ?rx" "sf_lane f = brx_lane ?rx" using assms p by simp_all
  from bk_recv_slot_frame [OF ok m(1) assms(8) m(2,3)] obtain rx' mem' where
    s: "bk_recv_slot ?rx mem1
      = Some (Bk_Return (Done (Ready (Inr (sio_frame_received (brx_role rx) f)))) rx' mem')"
      "inbound_mailbox d mem' = slot" "\<forall>c r. bk_stashed mem' c r = bk_stashed mem1 c r" by auto
  have "bk_recv_loop [] ?rx mem1
      = (Done (Ready (Inr (sio_frame_received (brx_role rx) f))), rx', mem', [])"
    using s(1) by (subst bk_recv_loop.simps) (simp add: bk_other_core_def Let_def)
  then show ?thesis using t s p by (simp add: bk_recv_fresh_def)
qed

section \<open>Invariant of a receive\<close>

definition bk_good :: "bk_result \<Rightarrow> bk_rx \<Rightarrow> bk_mem \<Rightarrow> bool" where
  "bk_good res rx mem \<longleftrightarrow> is_done res \<and> brx_ok rx \<and> bk_mem_inv mem"

fun bk_step_good :: "bk_step \<Rightarrow> bool" where
  "bk_step_good (Bk_Continue rx mem) \<longleftrightarrow> brx_ok rx \<and> bk_mem_inv mem"
| "bk_step_good (Bk_Return res rx mem) \<longleftrightarrow> bk_good res rx mem"

lemma take_mailbox_frame_ok:
  "take_mailbox_frame slot = (Inr (Some f), slot', evs) \<Longrightarrow> sio_frame_ok f"
  by (auto simp: take_mailbox_frame_def sio_frame_ok_def Let_def split: if_splits)

lemma bk_restash_good:
  assumes "brx_ok rx" "bk_mem_inv mem" "sio_frame_ok f"
  shows "bk_step_good (bk_restash f t rx mem)"
  using bk_stash_frame_spec [OF assms(2,3), of "brx_core rx"] assms
  by (auto simp: bk_restash_def bk_good_def split: if_splits)

lemma bk_hand_out_good:
  assumes "brx_ok rx" "bk_mem_inv mem" "sio_frame_ok f"
  shows "case bk_hand_out ev f rx mem of (res, rx', mem') \<Rightarrow> bk_good res rx' mem'"
proof -
  obtain rx' mem' where "bk_hand_out ev f rx mem
      = (Done (Ready (Inr (sio_frame_received (brx_role rx) f))), rx', mem')" "brx_ok rx'"
    and v: "bk_view mem' = bk_view mem"
    using bk_hand_out_spec [OF assms(1,3), of ev mem] by blast
  then show ?thesis using bk_view_eq(2) [OF v] assms(2) by (simp add: bk_good_def)
qed

lemma bk_recv_frame_good:
  assumes "brx_ok rx" "bk_mem_inv mem" "sio_frame_ok f"
  shows "bk_step_good (bk_recv_frame f rx mem)"
proof -
  let ?rx = "rx\<lparr>brx_pending_logged := False, brx_pending_polls := 0\<rparr>"
  let ?mem = "if brx_role rx = 1 then bk_logs [Bk_Ready_Seen] mem else mem"
  have ok: "brx_ok ?rx" "bk_mem_inv ?mem" using assms(1,2) by simp_all
  show ?thesis
    using bk_restash_good [OF ok assms(3)] bk_hand_out_good [OF ok assms(3), of 2]
    by (cases "brx_role rx = 1") (auto simp: bk_recv_frame_def Let_def split: prod.splits)
qed

lemma bk_recv_slot_good:
  assumes "brx_ok rx" "bk_mem_inv mem" "bk_recv_slot rx mem = Some st"
  shows "bk_step_good st"
proof -
  obtain res slot evs where t: "take_mailbox_frame (inbound_mailbox (brx_core rx) mem) = (res, slot, evs)"
    by (metis prod_cases3)
  let ?mem = "bk_logs evs (put_inbound (brx_core rx) slot mem)"
  obtain w mem1 where w: "finish_rx_wait rx ?mem = (rx\<lparr>brx_wait := w\<rparr>, mem1)" "bk_view mem1 = bk_view ?mem"
    using finish_rx_wait_view by blast
  have m: "bk_mem_inv ?mem" "bk_mem_inv mem1" using assms(2) bk_view_eq(2) [OF w(2)] by simp_all
  show ?thesis
  proof (cases res)
    case (Inl e)
    then show ?thesis using assms t m(1) by (auto simp: bk_recv_slot_def Let_def bk_good_def)
  next
    case (Inr r)
    with assms(3) t obtain f where f: "r = Some f" by (cases r) (auto simp: bk_recv_slot_def Let_def)
    have "sio_frame_ok f" using take_mailbox_frame_ok t Inr f by blast
    with assms(1) m(2) have "bk_step_good (bk_recv_frame f (rx\<lparr>brx_wait := w\<rparr>) mem1)"
      by (intro bk_recv_frame_good) simp_all
    then show ?thesis using assms(3) t w(1) Inr f by (simp add: bk_recv_slot_def Let_def)
  qed
qed

lemma bk_recv_empty_good:
  assumes "bk_recv_empty rx mem = (rx', mem')" "brx_ok rx" "bk_mem_inv mem"
  shows "brx_ok rx' \<and> bk_mem_inv mem'"
proof -
  obtain w mem1 where w: "begin_rx_wait rx mem = (rx\<lparr>brx_wait := w\<rparr>, mem1)" "bk_view mem1 = bk_view mem"
    using begin_rx_wait_view by blast
  have "bk_mem_inv mem1" using assms(3) bk_view_eq(2) [OF w(2)] by simp
  then show ?thesis
    using assms(1,2) w(1) by (auto simp: bk_recv_empty_def Let_def brx_ok_def)
qed

lemma bk_other_core_inv [simp]: "bk_mem_inv (bk_other_core c st mem) = bk_mem_inv mem"
  by (simp add: bk_other_core_def split: option.split)

lemma bk_wait_frame_inv:
  "bk_wait_frame c arr mem = (found, mem', arr') \<Longrightarrow> bk_mem_inv mem' = bk_mem_inv mem"
  by (induction c arr mem rule: bk_wait_frame.induct) (auto simp: Let_def split: if_splits)

lemma bk_recv_loop_good:
  assumes "brx_ok rx" "bk_mem_inv mem" "bk_recv_loop arr rx mem = (res, rx', mem', arr')"
  shows "bk_good res rx' mem'"
  using assms
proof (induction arr rx mem rule: bk_recv_loop.induct)
  case (1 arr rx mem)
  define M where "M = bk_other_core (brx_core rx) (case arr of [] \<Rightarrow> None | stored # _ \<Rightarrow> stored) mem"
  have m: "bk_mem_inv M" using 1(4) by (simp add: M_def)
  note loop = 1(5) [unfolded bk_recv_loop.simps [of arr rx mem], folded M_def]
  show ?case
  proof (cases "bk_recv_slot rx M")
    case None
    obtain rx1 M1 where e: "bk_recv_empty rx M = (rx1, M1)" by (metis surj_pair)
    note g = bk_recv_empty_good [OF e 1(3) m]
    show ?thesis
    proof (cases "brx_deadline rx1 = 0")
      case True
      then show ?thesis using loop None e g by (auto simp: Let_def bk_good_def)
    next
      case False
      obtain found M2 arr1 where w: "bk_wait_frame (brx_core rx1) (tl arr) M1 = (found, M2, arr1)"
        by (metis prod_cases3)
      have m2: "bk_mem_inv M2" using bk_wait_frame_inv [OF w] g by simp
      show ?thesis
      proof (cases "bk_recv_slot rx1 M2")
        case N: None
        then show ?thesis using loop None e False w g m2 by (auto simp: Let_def bk_good_def)
      next
        case (Some st)
        note sg = bk_recv_slot_good [OF _ m2 Some]
        show ?thesis
        proof (cases st)
          case (Bk_Continue rx2 M3)
          then show ?thesis
            using loop None e False w g sg Some 1(1) [OF M_def None e [symmetric] False w [symmetric] refl Some]
            by (auto simp: Let_def)
        next
          case (Bk_Return r rx2 M3)
          then show ?thesis using loop None e False w g sg Some by (auto simp: Let_def)
        qed
      qed
    qed
  next
    case (Some st)
    note sg = bk_recv_slot_good [OF 1(3) m Some]
    show ?thesis
    proof (cases st)
      case (Bk_Continue rx2 M3)
      then show ?thesis using loop sg Some 1(2) [OF M_def Some] by (auto simp: Let_def)
    next
      case (Bk_Return r rx2 M3)
      then show ?thesis using loop sg Some by (auto simp: Let_def)
    qed
  qed
qed

section \<open>Properties\<close>

text \<open>The outcome of a send in every case. A send to the own role fails and a payload over 128
  bytes is a capacity error, with nothing stored. If the target has attached on the sender's own core
  the message goes to its stash slot, on the lane it attached with, or is refused if the slot is
  taken; the mailbox is not touched. Otherwise it goes to the mailbox: if the mailbox is occupied its
  contents stay and the send is pending with its frame kept, if not the mailbox then holds exactly
  this frame. Every send records the sender's own lane on the core.\<close>

theorem bk_send_outcomes:
  assumes "bk_mem_inv mem" "bk_core c" "bk_tx_ok tx"
  shows "\<exists>res tx' mem'. bk_poll_send c tx out mem = Done (res, tx', mem') \<and> bk_mem_inv mem'
    \<and> bk_tx_ok tx' \<and> btx_session tx' = btx_session tx \<and> btx_role tx' = btx_role tx
    \<and> (\<forall>r c'. bk_core c' \<longrightarrow> role_lane_on_core r c' mem' = (if r = btx_role tx \<and> c' = c
         then Done (Some (btx_lane tx)) else role_lane_on_core r c' mem))
    \<and> (if out_target out = btx_role tx then
         res = Ready (Inl Failed) \<and> (\<forall>c r. bk_stashed mem' c r = bk_stashed mem c r)
         \<and> outbound_mailbox c mem' = outbound_mailbox c mem
       else if length (out_payload out) > 128 then
         res = Ready (Inl Capacity) \<and> (\<forall>c r. bk_stashed mem' c r = bk_stashed mem c r)
         \<and> outbound_mailbox c mem' = outbound_mailbox c mem
       else case role_lane_on_core (out_target out) c mem of
         Done (Some lane) \<Rightarrow>
           outbound_mailbox c mem' = outbound_mailbox c mem
           \<and> (if bk_stashed mem c (out_target out) = None
              then res = Ready (Inr ()) \<and> (\<forall>c' r. bk_stashed mem' c' r
                = (if same_core c c' \<and> r = out_target out then Some (bk_out_frame tx out lane)
                   else bk_stashed mem c' r))
              else res = Ready (Inl Capacity) \<and> (\<forall>c r. bk_stashed mem' c r = bk_stashed mem c r))
       | _ \<Rightarrow> (\<forall>c r. bk_stashed mem' c r = bk_stashed mem c r)
           \<and> (if bs_occupied (outbound_mailbox c mem) \<noteq> 0
              then res = Pending \<and> btx_pending tx' = Some (bk_current tx out)
                \<and> outbound_mailbox c mem' = outbound_mailbox c mem
              else res = Ready (Inr ()) \<and> btx_pending tx' = None
                \<and> take_mailbox_frame (outbound_mailbox c mem')
                  = (Inr (Some (bk_pending_frame (btx_session tx) (btx_role tx) (bk_current tx out))),
                     clear_slot (outbound_mailbox c mem'), [Bk_Signal])))"
  using bk_send_spec [OF assms] .

definition baker_tx :: "u8 \<Rightarrow> bk_tx" where
  "baker_tx role = \<lparr>btx_role = role, btx_core = 0, btx_lane = 1, btx_session = 7, btx_sent = 0,
     btx_wait = SIO_RX_WAIT_IDLE, btx_pending = None\<rparr>"

definition baker_hello :: "u8 \<Rightarrow> outgoing" where
  "baker_hello target =
     \<lparr>out_target = target, out_lane = 2, out_label = 33, out_payload = [104, 105]\<rparr>"

lemma baker_start:
  "bk_mem_inv (bk_mem_new clock)" "bk_tx_ok (baker_tx 0)" "bk_core 0" "bk_core 1"
  "role_lane_on_core r 0 (bk_mem_new clock) = Done None" "bk_stashed (bk_mem_new clock) c r = None"
  "outbound_mailbox c (bk_mem_new clock) = bk_slot_empty" "btx_pending (baker_tx 0) = None"
proof -
  show "bk_mem_inv (bk_mem_new clock)"
    by (simp add: bk_mem_inv_def bk_mem_new_def bk_stash_def bk_stashed_empty_def sio_frame_ok_def
        sio_frame_empty_def)
  show c: "bk_core 0" "bk_core 1" by (simp_all add: bk_core_def)
  show "role_lane_on_core r 0 (bk_mem_new clock) = Done None"
    unfolding role_lane_iff [OF c(1)] by (simp add: bk_mem_new_def)
  show "bk_stashed (bk_mem_new clock) c r = None"
    by (simp add: bk_stashed_def bk_stash_def bk_mem_new_def bk_stashed_empty_def)
qed (simp_all add: bk_tx_ok_def baker_tx_def outbound_mailbox_def bk_mem_new_def)

theorem bk_send_outcomes_witness:
  "\<exists>tx' mem'. bk_poll_send 0 (baker_tx 0) (baker_hello 1) (bk_mem_new (\<lambda>n. 5))
      = Done (Ready (Inr ()), tx', mem')
    \<and> (\<exists>f. fst (take_mailbox_frame (outbound_mailbox 0 mem')) = Inr (Some f) \<and> sf_lane f = 2)"
  using bk_send_outcomes [OF baker_start(1,3,2), of "baker_hello 1" "\<lambda>n. 5"]
  by (auto simp: baker_start baker_hello_def baker_tx_def bk_slot_empty_def bk_current_def
      bk_pending_frame_def bk_new_pending_def)

text \<open>C14: a send that succeeded is received: the target's next poll, on the sender's core if the
  target had attached there and on the other core otherwise, returns a frame with exactly the
  session, sender, target, label and payload of the send. Its lane is the one the target attached
  with on the sender's core, whatever the lane of the message, and the lane of the message on the
  other core, for a receiver on that lane. A frame that came through the mailbox leaves it free
  again.\<close>

theorem bk_end_to_end:
  assumes "bk_mem_inv mem" "bk_core c" "bk_tx_ok tx" "btx_pending tx = None"
    and "bk_poll_send c tx out mem = Done (Ready (Inr ()), tx', mem')"
    and "bk_core d" "brx_ok rx" "bk_hands_out_nothing rx"
    and "brx_role rx = out_target out" "unat (out_target out) < 3"
    and "bk_stashed mem d (out_target out) = None"
    and "case role_lane_on_core (out_target out) c mem of
        Done (Some lane) \<Rightarrow> d = c \<and> brx_lane rx = lane
      | _ \<Rightarrow> d \<noteq> c \<and> brx_lane rx = out_lane out"
  shows "\<exists>rx' mem''. bk_poll_recv d [] rx mem'
      = Done (Done (Ready (Inr \<lparr>recv_header = be_bytes32 (btx_session tx)
            @ [brx_lane rx, btx_role tx, out_target out, out_label out],
          recv_payload = out_payload out\<rparr>)), rx', mem'', [])
    \<and> (d \<noteq> c \<longrightarrow> bs_occupied (outbound_mailbox c mem'') = 0)"
proof -
  let ?f = "bk_out_frame tx out (brx_lane rx)" and ?t = "out_target out"
  have recv: "sio_frame_received (brx_role rx) ?f = \<lparr>recv_header = be_bytes32 (btx_session tx)
            @ [brx_lane rx, btx_role tx, ?t, out_label out], recv_payload = out_payload out\<rparr>"
    using assms(9) by (simp add: sio_frame_received_def bk_out_frame_def)
  have role: "unat (brx_role rx) < 3" using assms(9,10) by simp
  from bk_send_spec [OF assms(1-3), of out] assms(5)
  have len: "?t \<noteq> btx_role tx" "length (out_payload out) \<le> 128" and inv: "bk_mem_inv mem'"
    and S: "case role_lane_on_core ?t c mem of
         Done (Some lane) \<Rightarrow> \<forall>c' r. bk_stashed mem' c' r
                = (if same_core c c' \<and> r = ?t then Some (bk_out_frame tx out lane)
                   else bk_stashed mem c' r)
       | _ \<Rightarrow> (\<forall>c r. bk_stashed mem' c r = bk_stashed mem c r)
           \<and> take_mailbox_frame (outbound_mailbox c mem')
                  = (Inr (Some (bk_pending_frame (btx_session tx) (btx_role tx) (bk_current tx out))),
                     clear_slot (outbound_mailbox c mem'), [Bk_Signal])"
    by (auto split: if_splits outcome.splits option.splits)
  have ok: "sio_frame_ok ?f" using len(2) by (simp add: sio_frame_ok_def bk_out_frame_def)
  show ?thesis
  proof (cases "role_lane_on_core ?t c mem = Done None")
    case True
    then have d: "d \<noteq> c" "brx_lane rx = out_lane out" using assms(12) by simp_all
    then have "same_core c d = False" using assms(2,6) by (auto simp: bk_core_def)
    note io = inbound_of_outbound [OF this]
    have "bk_pending_frame (btx_session tx) (btx_role tx) (bk_current tx out) = ?f"
      using assms(4) d(2) by (simp add: bk_current_def bk_new_pending_frame)
    then have t: "take_mailbox_frame (inbound_mailbox d mem')
        = (Inr (Some ?f), clear_slot (outbound_mailbox c mem'), [Bk_Signal])"
      and st: "bk_stashed mem' d (brx_role rx) = None"
      using S True assms(9,11) by (simp_all add: io)
    from bk_poll_recv_mailbox [OF inv assms(6) role assms(8,7) st t ok] assms(9)
    show ?thesis unfolding recv by (auto simp: bk_out_frame_def io clear_slot_def)
  next
    case False
    then obtain lane where l: "role_lane_on_core ?t c mem = Done (Some lane)"
      using role_lane_iff [OF assms(2), of ?t mem] by (metis option.exhaust)
    then have d: "d = c" "brx_lane rx = lane" using assms(12) by simp_all
    have st: "bk_stashed mem' d (brx_role rx) = Some ?f" using S l d assms(9) by simp
    have "sf_lane ?f = brx_lane rx" by (simp add: bk_out_frame_def)
    from bk_poll_recv_stashed [OF inv assms(6) role assms(8,7) st this, of "[]"] d(1)
    show ?thesis unfolding recv by auto
  qed
qed

definition baker_rx :: "u8 \<Rightarrow> u8 \<Rightarrow> bk_rx" where
  "baker_rx role lane = bk_rx_new role 7 lane 0 1"

lemma baker_rx: "brx_ok (baker_rx r l)" "bk_hands_out_nothing (baker_rx r l)"
  "brx_role (baker_rx r l) = r" "brx_lane (baker_rx r l) = l"
  by (simp_all add: baker_rx_def bk_rx_new_def brx_ok_def bk_hands_out_nothing_def)

theorem bk_end_to_end_witness:
  "(\<exists>tx' mem' rx' mem''.
    bk_poll_send 0 (baker_tx 0) (baker_hello 1) (bk_mem_new (\<lambda>n. 5)) = Done (Ready (Inr ()), tx', mem')
    \<and> bk_poll_recv 1 [] (baker_rx 1 2) mem' = Done (Done (Ready (Inr \<lparr>recv_header =
          [0, 0, 0, 7, 2, 0, 1, 33], recv_payload = [104, 105]\<rparr>)), rx', mem'', [])
    \<and> bs_occupied (outbound_mailbox 0 mem'') = 0)
  \<and> (\<exists>mem1 tx' mem' rx' mem''. mark_local_role_attached 0 1 5 (bk_mem_new (\<lambda>n. 5)) = Done mem1
    \<and> bk_poll_send 0 (baker_tx 0) (baker_hello 1) mem1 = Done (Ready (Inr ()), tx', mem')
    \<and> bk_poll_recv 0 [] (baker_rx 1 5) mem' = Done (Done (Ready (Inr \<lparr>recv_header =
          [0, 0, 0, 7, 5, 0, 1, 33], recv_payload = [104, 105]\<rparr>)), rx', mem'', []))"
proof
  let ?mem = "bk_mem_new (\<lambda>n. 5)"
  have h: "be_bytes32 (7 :: u32) = [0, 0, 0, 7]" by (simp add: be_bytes32_def le_bytes32_def)
  obtain tx' mem' where s: "bk_poll_send 0 (baker_tx 0) (baker_hello 1) ?mem
      = Done (Ready (Inr ()), tx', mem')"
    using bk_send_spec [OF baker_start(1,3,2), of "baker_hello 1" "\<lambda>n. 5"]
    by (auto simp: baker_start baker_hello_def baker_tx_def bk_slot_empty_def)
  from bk_end_to_end [OF baker_start(1,3,2,8) s baker_start(4) baker_rx(1,2), of 1 2] s
  show "\<exists>tx' mem' rx' mem''.
    bk_poll_send 0 (baker_tx 0) (baker_hello 1) (bk_mem_new (\<lambda>n. 5)) = Done (Ready (Inr ()), tx', mem')
    \<and> bk_poll_recv 1 [] (baker_rx 1 2) mem' = Done (Done (Ready (Inr \<lparr>recv_header =
          [0, 0, 0, 7, 2, 0, 1, 33], recv_payload = [104, 105]\<rparr>)), rx', mem'', [])
    \<and> bs_occupied (outbound_mailbox 0 mem'') = 0"
    by (auto simp: baker_rx baker_start h) (simp_all add: baker_hello_def baker_tx_def h)
  obtain mem1 where m: "mark_local_role_attached 0 1 5 ?mem = Done mem1" "bk_mem_inv mem1"
      "\<And>c r. bk_stashed mem1 c r = None" "role_lane_on_core 1 0 mem1 = Done (Some 5)"
    using mark_attached_spec [OF baker_start(1) _ baker_start(3), of 1 5 "\<lambda>n. 5"] baker_start(3) by (auto simp: baker_start)
  obtain tx1 mem2 where s1: "bk_poll_send 0 (baker_tx 0) (baker_hello 1) mem1 = Done (Ready (Inr ()), tx1, mem2)"
    using bk_send_spec [OF m(2) baker_start(3,2), of "baker_hello 1"]
    by (auto simp: m baker_hello_def baker_tx_def)
  from bk_end_to_end [OF m(2) baker_start(3,2,8) s1 baker_start(3) baker_rx(1,2), of 1 5] s1 m
  show "\<exists>mem1 tx' mem' rx' mem''. mark_local_role_attached 0 1 5 (bk_mem_new (\<lambda>n. 5)) = Done mem1
    \<and> bk_poll_send 0 (baker_tx 0) (baker_hello 1) mem1 = Done (Ready (Inr ()), tx', mem')
    \<and> bk_poll_recv 0 [] (baker_rx 1 5) mem' = Done (Done (Ready (Inr \<lparr>recv_header =
          [0, 0, 0, 7, 5, 0, 1, 33], recv_payload = [104, 105]\<rparr>)), rx', mem'', [])"
    by (auto simp: baker_rx h) (simp_all add: baker_hello_def baker_tx_def h)
qed

text \<open>C26: a receive on a valid core by a role with a stash slot never panics, whatever the other core
  stores into the mailbox between the looks: it ends with a result, keeps every stashed frame within
  its 128 bytes and the receiver's own buffer and length.\<close>

theorem bk_recv_invariant:
  assumes "bk_mem_inv mem" "bk_core d" "unat (brx_role rx) < 3" "brx_ok rx"
  shows "\<exists>res rx' mem' arr'. bk_poll_recv d arr rx mem = Done (res, rx', mem', arr')
    \<and> res \<noteq> Panic \<and> brx_ok rx' \<and> bk_mem_inv mem'"
proof -
  let ?rx = "rx\<lparr>brx_core := d\<rparr>"
  have "\<exists>res rx' mem' arr'. bk_poll_recv d arr rx mem = Done (res, rx', mem', arr')
      \<and> bk_good res rx' mem'"
  proof (cases "bk_hands_out_nothing rx")
    case True
    from bk_poll_recv_start [OF assms(1-3) True, of arr] obtain mem1 where
      p: "bk_poll_recv d arr rx mem = Done (bk_recv_fresh arr (bk_drop_delivered ?rx) mem1)"
        "bk_mem_inv mem1" by blast
    have ok: "brx_ok (bk_drop_delivered ?rx)" using assms(4) by simp
    obtain res rx' mem' arr' where r: "bk_recv_fresh arr (bk_drop_delivered ?rx) mem1
        = (res, rx', mem', arr')" by (metis prod_cases4)
    have "bk_good res rx' mem'"
    proof (cases "bk_stashed mem1 d (brx_role rx)")
      case None
      with bk_take_stashed_spec [OF p(2), of d "brx_role rx"] r
      have "bk_recv_loop arr (bk_drop_delivered ?rx) mem1 = (res, rx', mem', arr')"
        by (simp add: bk_recv_fresh_def)
      from bk_recv_loop_good [OF ok p(2) this] show ?thesis .
    next
      case (Some f)
      with bk_take_stashed_spec [OF p(2), of d "brx_role rx"] obtain mem2 where
        t: "bk_take_stashed d (brx_role rx) mem1 = (Some f, mem2)" "bk_mem_inv mem2" "sio_frame_ok f"
        by auto
      show ?thesis
        using r t ok bk_hand_out_good [OF ok t(2,3), of 13] bk_stash_frame_spec [OF t(2,3), of d]
        by (auto simp: bk_recv_fresh_def bk_good_def split: if_splits prod.splits)
    qed
    with p(1) r show ?thesis by simp
  next
    case False
    from mark_attached_spec [OF assms(1,3,2), of "brx_lane rx"] obtain mem0 where
      "mark_local_role_attached d (brx_role rx) (brx_lane rx) mem = Done mem0" "bk_mem_inv mem0"
      by blast
    with False assms(4) show ?thesis
      by (auto simp: bk_poll_recv_def bk_hands_out_nothing_def Let_def bk_good_def bk_deliver_def
          brx_ok_def clear_rx_wait_def split: option.split)
  qed
  then show ?thesis by (auto simp: bk_good_def)
qed

theorem bk_recv_invariant_witness:
  "\<exists>res rx' mem' arr'. bk_poll_recv 0 [None, Some (bk_slot_empty\<lparr>bs_occupied := 1, bs_len := 200\<rparr>)]
      (baker_rx 2 1) (bk_mem_new (\<lambda>n. 5)) = Done (res, rx', mem', arr')
    \<and> res \<noteq> Panic \<and> brx_ok rx' \<and> bk_mem_inv mem'"
  using bk_recv_invariant [OF baker_start(1,3), of "baker_rx 2 1"] by (simp add: baker_rx)

text \<open>Over any run of puts and takes on the stash of one core of the RP2040, what has been taken
  for a role followed by what is still stashed for it is exactly what the stash accepted for it.\<close>

theorem bk_stash_delivery:
  assumes "\<forall>f. Stash_Put f \<in> set ops \<longrightarrow> sio_frame_ok f"
    and "run_stash (bk_stash_frame c) (bk_take_stashed c) (bk_mem_new clock) ops = (put, got, mem)"
  shows "filter (\<lambda>f. sf_peer_role f = role) put
    = map snd (filter (\<lambda>p. fst p = role) got) @ opt_list (bk_stashed mem c role)"
  using baker_stash.run_history [OF baker_start(1) assms, of role] by (simp add: baker_start)

theorem bk_stash_delivery_witness:
  "filter (\<lambda>f. sf_peer_role f = 1) (fst (run_stash (bk_stash_frame 0) (bk_take_stashed 0)
      (bk_mem_new (\<lambda>n. 5)) [Stash_Put (sio_message_frame sio_sample), Stash_Take 1]))
    = map snd (filter (\<lambda>p. fst p = 1) (fst (snd (run_stash (bk_stash_frame 0) (bk_take_stashed 0)
        (bk_mem_new (\<lambda>n. 5)) [Stash_Put (sio_message_frame sio_sample), Stash_Take 1]))))
    @ opt_list (bk_stashed (snd (snd (run_stash (bk_stash_frame 0) (bk_take_stashed 0)
        (bk_mem_new (\<lambda>n. 5)) [Stash_Put (sio_message_frame sio_sample), Stash_Take 1]))) 0 1)"
proof (rule bk_stash_delivery)
  show "\<forall>f. Stash_Put f \<in> set [Stash_Put (sio_message_frame sio_sample), Stash_Take (1 :: u8)]
      \<longrightarrow> sio_frame_ok f"
    by (simp add: sio_frame_ok_def sio_message_frame_def sio_sample_def)
qed (simp only: prod.collapse)

end
