(* ===== verification/Mailbox_Race.thy ===== *)
theory Mailbox_Race
  imports Sio_Baker
begin

text \<open>
  The two cores on one mailbox slot of \<open>examples/baker-firmware/src/lib.rs\<close>, one volatile access
  at a time: \<open>publish_mailbox_frame\<close> on one core and \<open>take_mailbox_frame\<close> on the other, with
  any interleaving of their loads and stores. Each core performs its accesses in program order and
  sees the other's in the order they were made. The lists of frames published and taken are kept
  beside the slot.
\<close>

section \<open>The accesses of the two functions\<close>

datatype store =
  St_Session u32
| St_Sender u8
| St_Peer u8
| St_Label u8
| St_Lane u8
| St_Len u8
| St_Byte nat u8
| St_Occupied

fun apply_store :: "store \<Rightarrow> bk_slot \<Rightarrow> bk_slot" where
  "apply_store (St_Session v) slot = slot\<lparr>bs_session_id := v\<rparr>"
| "apply_store (St_Sender v) slot = slot\<lparr>bs_sender_role := v\<rparr>"
| "apply_store (St_Peer v) slot = slot\<lparr>bs_peer_role := v\<rparr>"
| "apply_store (St_Label v) slot = slot\<lparr>bs_frame_label := v\<rparr>"
| "apply_store (St_Lane v) slot = slot\<lparr>bs_lane := v\<rparr>"
| "apply_store (St_Len v) slot = slot\<lparr>bs_len := v\<rparr>"
| "apply_store (St_Byte i v) slot = slot\<lparr>bs_bytes := (bs_bytes slot)[i := v]\<rparr>"
| "apply_store St_Occupied slot = slot\<lparr>bs_occupied := 1\<rparr>"

definition publish_stores :: "u32 \<Rightarrow> u8 \<Rightarrow> bk_pending \<Rightarrow> store list" where
  "publish_stores session_id local_role frame =
     [St_Session session_id, St_Sender local_role, St_Peer (bp_peer_role frame),
      St_Label (bp_frame_label frame), St_Lane (bp_lane frame), St_Len (of_nat (bp_len frame))]
     @ map (\<lambda>i. St_Byte i (bp_bytes frame ! i)) [0..<bp_len frame] @ [St_Occupied]"

datatype load = Ld_Sender | Ld_Peer | Ld_Byte nat | Ld_Session | Ld_Label | Ld_Lane

fun apply_load :: "load \<Rightarrow> bk_slot \<Rightarrow> sio_frame \<Rightarrow> sio_frame" where
  "apply_load Ld_Sender slot f = f\<lparr>sf_sender_role := bs_sender_role slot\<rparr>"
| "apply_load Ld_Peer slot f = f\<lparr>sf_peer_role := bs_peer_role slot\<rparr>"
| "apply_load (Ld_Byte i) slot f = f\<lparr>sf_bytes := (sf_bytes f)[i := bs_bytes slot ! i]\<rparr>"
| "apply_load Ld_Session slot f = f\<lparr>sf_session_id := bs_session_id slot\<rparr>"
| "apply_load Ld_Label slot f = f\<lparr>sf_frame_label := bs_frame_label slot\<rparr>"
| "apply_load Ld_Lane slot f = f\<lparr>sf_lane := bs_lane slot\<rparr>"

definition take_loads :: "nat \<Rightarrow> load list" where
  "take_loads len = [Ld_Sender, Ld_Peer] @ map Ld_Byte [0..<len] @ [Ld_Session, Ld_Label, Ld_Lane]"

lemma take_loads_length: "length (take_loads len) = len + 5"
  by (simp add: take_loads_def)

text \<open>
  What the publishing core has left to store, and where the taking core is: it has seen the slot
  occupied, or it has read the length and has these loads left.
\<close>

datatype taker = Tk_Idle | Tk_Occupied | Tk_Loading "load list" sio_frame

record race =
  rc_slot :: bk_slot
  rc_stores :: "store list"
  rc_sending :: sio_frame
  rc_taker :: taker
  rc_published :: "sio_frame list"
  rc_taken :: "sio_frame list"
  rc_errors :: nat

definition race_start :: "bk_slot \<Rightarrow> race" where
  "race_start slot = \<lparr>rc_slot = slot, rc_stores = [], rc_sending = sio_frame_empty,
     rc_taker = Tk_Idle, rc_published = [], rc_taken = [], rc_errors = 0\<rparr>"

section \<open>Steps of the two cores\<close>

inductive publisher_step :: "race \<Rightarrow> race \<Rightarrow> bool" where
  Pub_Begin: "rc_stores s = [] \<Longrightarrow> bk_pending_ok role p \<Longrightarrow> bs_occupied (rc_slot s) = 0 \<Longrightarrow>
    publisher_step s (s\<lparr>rc_stores := publish_stores sid role p,
                        rc_sending := bk_pending_frame sid role p\<rparr>)"
| Pub_Refused: "rc_stores s = [] \<Longrightarrow> bs_occupied (rc_slot s) \<noteq> 0 \<Longrightarrow> publisher_step s s"
| Pub_Store: "rc_stores s = st # sts \<Longrightarrow>
    publisher_step s (s\<lparr>rc_slot := apply_store st (rc_slot s), rc_stores := sts,
      rc_published := (if sts = [] then rc_published s @ [rc_sending s] else rc_published s)\<rparr>)"

inductive taker_step :: "race \<Rightarrow> race \<Rightarrow> bool" where
  Tk_Empty: "rc_taker s = Tk_Idle \<Longrightarrow> bs_occupied (rc_slot s) = 0 \<Longrightarrow> taker_step s s"
| Tk_Seen: "rc_taker s = Tk_Idle \<Longrightarrow> bs_occupied (rc_slot s) \<noteq> 0 \<Longrightarrow>
    taker_step s (s\<lparr>rc_taker := Tk_Occupied\<rparr>)"
| Tk_Length: "rc_taker s = Tk_Occupied \<Longrightarrow> unat (bs_len (rc_slot s)) \<le> SIO_FRAME_BYTES \<Longrightarrow>
    taker_step s (s\<lparr>rc_taker := Tk_Loading (take_loads (unat (bs_len (rc_slot s))))
                      (sio_frame_empty\<lparr>sf_len := unat (bs_len (rc_slot s))\<rparr>)\<rparr>)"
| Tk_Too_Long: "rc_taker s = Tk_Occupied \<Longrightarrow> unat (bs_len (rc_slot s)) > SIO_FRAME_BYTES \<Longrightarrow>
    taker_step s (s\<lparr>rc_taker := Tk_Idle, rc_slot := clear_slot (rc_slot s),
                    rc_errors := rc_errors s + 1\<rparr>)"
| Tk_Load: "rc_taker s = Tk_Loading (ld # lds) f \<Longrightarrow>
    ld \<noteq> Ld_Peer \<or> sf_sender_role f \<noteq> bs_peer_role (rc_slot s) \<Longrightarrow>
    taker_step s (s\<lparr>rc_taker := Tk_Loading lds (apply_load ld (rc_slot s) f)\<rparr>)"
| Tk_Same_Roles: "rc_taker s = Tk_Loading (Ld_Peer # lds) f \<Longrightarrow>
    sf_sender_role f = bs_peer_role (rc_slot s) \<Longrightarrow>
    taker_step s (s\<lparr>rc_taker := Tk_Idle, rc_slot := clear_slot (rc_slot s),
                    rc_errors := rc_errors s + 1\<rparr>)"
| Tk_Finish: "rc_taker s = Tk_Loading [] f \<Longrightarrow>
    taker_step s (s\<lparr>rc_taker := Tk_Idle, rc_slot := clear_slot (rc_slot s),
                    rc_taken := rc_taken s @ [f]\<rparr>)"

text \<open>A stretch of an interleaved run, with the number of steps of either core in it.\<close>

inductive race_steps :: "nat \<Rightarrow> nat \<Rightarrow> race \<Rightarrow> race \<Rightarrow> bool" where
  Steps_None: "race_steps 0 0 s s"
| Steps_Publisher: "race_steps p k s t \<Longrightarrow> publisher_step t u \<Longrightarrow> race_steps (Suc p) k s u"
| Steps_Taker: "race_steps p k s t \<Longrightarrow> taker_step t u \<Longrightarrow> race_steps p (Suc k) s u"

inductive_cases publisher_step_elim: "publisher_step s s'"
inductive_cases taker_step_elim: "taker_step s s'"

lemmas publisher_stepE = publisher_step_elim [consumes 1, case_names Pub_Begin Pub_Refused Pub_Store]
lemmas taker_stepE = taker_step_elim [consumes 1,
  case_names Tk_Empty Tk_Seen Tk_Length Tk_Too_Long Tk_Load Tk_Same_Roles Tk_Finish]

inductive race_reach :: "bk_slot \<Rightarrow> race \<Rightarrow> bool" for slot where
  Race_Start: "race_reach slot (race_start slot)"
| Race_Publisher: "race_reach slot s \<Longrightarrow> publisher_step s s' \<Longrightarrow> race_reach slot s'"
| Race_Taker: "race_reach slot s \<Longrightarrow> taker_step s s' \<Longrightarrow> race_reach slot s'"

section \<open>Without interruption the accesses are the two functions\<close>

abbreviation stores_on :: "bk_slot \<Rightarrow> store list \<Rightarrow> bk_slot" where
  "stores_on slot sts \<equiv> foldl (\<lambda>s st. apply_store st s) slot sts"

abbreviation loads_on :: "bk_slot \<Rightarrow> sio_frame \<Rightarrow> load list \<Rightarrow> sio_frame" where
  "loads_on slot f lds \<equiv> foldl (\<lambda>f ld. apply_load ld slot f) f lds"

lemma blit_snoc:
  assumes "n < length bs" "n < length dst"
  shows "(blit 0 (take n bs) dst)[n := bs ! n] = blit 0 (take (Suc n) bs) dst"
  using assms
  by (intro nth_equalityI)
    (auto simp: blit_def nth_append nth_list_update min_def less_Suc_eq)

lemma store_bytes:
  assumes "n \<le> length bs" "n \<le> length (bs_bytes slot)"
  shows "stores_on slot (map (\<lambda>i. St_Byte i (bs ! i)) [0..<n])
    = slot\<lparr>bs_bytes := blit 0 (take n bs) (bs_bytes slot)\<rparr>"
  using assms by (induction n) (simp_all add: blit_def [of 0 "[]"] blit_snoc)

lemma load_bytes:
  assumes "n \<le> length (bs_bytes slot)" "n \<le> length (sf_bytes f)"
  shows "loads_on slot f (map Ld_Byte [0..<n])
    = f\<lparr>sf_bytes := blit 0 (take n (bs_bytes slot)) (sf_bytes f)\<rparr>"
  using assms by (induction n) (simp_all add: blit_def [of 0 "[]"] blit_snoc)

lemma stores_publish:
  assumes "bk_pending_ok role p" "length (bs_bytes slot) = 128" "bs_occupied slot = 0"
  shows "publish_mailbox_frame sid role p slot
    = (True, p\<lparr>bp_published := True\<rparr>, stores_on slot (publish_stores sid role p))"
  using assms by (simp add: publish_stores_def publish_mailbox_frame_def bk_pending_ok_def store_bytes)

definition first_frame :: "bk_slot \<Rightarrow> sio_frame" where
  "first_frame slot = sio_frame_empty\<lparr>sf_len := unat (bs_len slot)\<rparr>"

lemma loads_take:
  assumes "bs_occupied slot \<noteq> 0" "unat (bs_len slot) \<le> 128"
    "bs_sender_role slot \<noteq> bs_peer_role slot" "length (bs_bytes slot) = 128"
  shows "take_mailbox_frame slot
    = (Inr (Some (loads_on slot (first_frame slot) (take_loads (unat (bs_len slot))))),
       clear_slot slot, [Bk_Signal])"
  using assms by (simp add: take_loads_def take_mailbox_frame_def load_bytes sio_frame_empty_def
      first_frame_def Let_def)

section \<open>Invariant\<close>

definition holds_frame :: "bk_slot \<Rightarrow> sio_frame \<Rightarrow> bool" where
  "holds_frame slot f \<longleftrightarrow> take_mailbox_frame slot = (Inr (Some f), clear_slot slot, [Bk_Signal])"

definition publisher_inv :: "race \<Rightarrow> bool" where
  "publisher_inv s \<longleftrightarrow>
     (if rc_stores s = [] then
        if bs_occupied (rc_slot s) \<noteq> 0
        then \<exists>f. holds_frame (rc_slot s) f \<and> rc_published s = rc_taken s @ [f]
        else rc_published s = rc_taken s
      else bs_occupied (rc_slot s) = 0 \<and> rc_published s = rc_taken s
        \<and> (\<exists>sts. rc_stores s = sts @ [St_Occupied] \<and> St_Occupied \<notin> set sts)
        \<and> holds_frame (stores_on (rc_slot s) (rc_stores s)) (rc_sending s))"

fun taker_inv :: "bk_slot \<Rightarrow> taker \<Rightarrow> bool" where
  "taker_inv slot Tk_Idle \<longleftrightarrow> True"
| "taker_inv slot Tk_Occupied \<longleftrightarrow> bs_occupied slot \<noteq> 0"
| "taker_inv slot (Tk_Loading lds f) \<longleftrightarrow> bs_occupied slot \<noteq> 0
     \<and> (\<exists>pre. take_loads (unat (bs_len slot)) = pre @ lds \<and> f = loads_on slot (first_frame slot) pre)"

definition race_inv :: "race \<Rightarrow> bool" where
  "race_inv s \<longleftrightarrow> length (bs_bytes (rc_slot s)) = 128 \<and> rc_errors s = 0 \<and> publisher_inv s
     \<and> taker_inv (rc_slot s) (rc_taker s)"

lemma apply_store_simps [simp]:
  "length (bs_bytes (apply_store st slot)) = length (bs_bytes slot)"
  "st \<noteq> St_Occupied \<Longrightarrow> bs_occupied (apply_store st slot) = bs_occupied slot"
  "bs_occupied (apply_store St_Occupied slot) = 1"
  by (cases st; simp)+

lemma holds_frameD:
  assumes "holds_frame slot f" "length (bs_bytes slot) = 128"
  shows "unat (bs_len slot) \<le> 128" "bs_sender_role slot \<noteq> bs_peer_role slot"
    "f = loads_on slot (first_frame slot) (take_loads (unat (bs_len slot)))"
proof -
  show l: "unat (bs_len slot) \<le> 128" "bs_sender_role slot \<noteq> bs_peer_role slot"
    using assms(1) by (auto simp: holds_frame_def take_mailbox_frame_def Let_def split: if_splits)
  have "bs_occupied slot \<noteq> 0"
    using assms(1) by (auto simp: holds_frame_def take_mailbox_frame_def)
  from loads_take [OF this l assms(2)] assms(1)
  show "f = loads_on slot (first_frame slot) (take_loads (unat (bs_len slot)))"
    by (simp add: holds_frame_def)
qed

lemma race_occupied:
  assumes "race_inv s" "bs_occupied (rc_slot s) \<noteq> 0"
  obtains f where "rc_stores s = []" "holds_frame (rc_slot s) f" "rc_published s = rc_taken s @ [f]"
    "unat (bs_len (rc_slot s)) \<le> 128" "bs_sender_role (rc_slot s) \<noteq> bs_peer_role (rc_slot s)"
    "f = loads_on (rc_slot s) (first_frame (rc_slot s)) (take_loads (unat (bs_len (rc_slot s))))"
proof -
  have "rc_stores s = []" and "\<exists>f. holds_frame (rc_slot s) f \<and> rc_published s = rc_taken s @ [f]"
    using assms by (auto simp: race_inv_def publisher_inv_def split: if_splits)
  then obtain f where f: "holds_frame (rc_slot s) f" "rc_published s = rc_taken s @ [f]" by blast
  have "length (bs_bytes (rc_slot s)) = 128" using assms(1) by (simp add: race_inv_def)
  from that [OF \<open>rc_stores s = []\<close> f holds_frameD [OF f(1) this]] show thesis .
qed

lemma publisher_step_inv:
  assumes "race_inv s" "publisher_step s s'"
  shows "race_inv s'"
  using assms(2)
proof (cases rule: publisher_stepE)
  case (Pub_Begin role p sid)
  have len: "length (bs_bytes (rc_slot s)) = 128" using assms(1) by (simp add: race_inv_def)
  from take_published [OF Pub_Begin(3) stores_publish [OF Pub_Begin(3) len Pub_Begin(4), of sid]]
  have "holds_frame (stores_on (rc_slot s) (publish_stores sid role p)) (bk_pending_frame sid role p)"
    unfolding holds_frame_def .
  moreover have "\<exists>sts. publish_stores sid role p = sts @ [St_Occupied] \<and> St_Occupied \<notin> set sts"
    by (auto simp: publish_stores_def intro!: exI [of _ "butlast (publish_stores sid role p)"])
  moreover have "publish_stores sid role p \<noteq> []" by (simp add: publish_stores_def)
  ultimately show ?thesis
    using assms(1) Pub_Begin by (simp add: race_inv_def publisher_inv_def)
next
  case Pub_Refused
  then show ?thesis using assms(1) by simp
next
  case (Pub_Store st sts)
  have free: "bs_occupied (rc_slot s) = 0" "rc_published s = rc_taken s"
    and holds: "holds_frame (stores_on (rc_slot s) (st # sts)) (rc_sending s)"
    and last: "\<exists>ini. st # sts = ini @ [St_Occupied] \<and> St_Occupied \<notin> set ini"
    using assms(1) Pub_Store(2) by (auto simp: race_inv_def publisher_inv_def)
  have "rc_taker s = Tk_Idle"
    using assms(1) free(1) by (cases "rc_taker s") (auto simp: race_inv_def)
  show ?thesis
  proof (cases "sts = []")
    case True
    then have "st = St_Occupied" using last by (auto simp: Cons_eq_append_conv)
    then show ?thesis
      using assms(1) Pub_Store True free holds \<open>rc_taker s = Tk_Idle\<close>
      by (auto simp: race_inv_def publisher_inv_def simp del: apply_store.simps)
  next
    case False
    with last obtain ini where ini: "sts = ini @ [St_Occupied]" "St_Occupied \<notin> set ini" "st \<noteq> St_Occupied"
      by (auto simp: Cons_eq_append_conv)
    then show ?thesis
      using assms(1) Pub_Store False free holds \<open>rc_taker s = Tk_Idle\<close>
      by (auto simp: race_inv_def publisher_inv_def simp del: apply_store.simps)
  qed
qed

lemma take_loads_peer:
  assumes "take_loads n = pre @ Ld_Peer # lds"
  shows "pre = [Ld_Sender]"
  using assms by (auto simp: take_loads_def Cons_eq_append_conv append_eq_Cons_conv
      append_eq_append_conv2 map_eq_append_conv)

lemma taker_step_inv:
  assumes "race_inv s" "taker_step s s'"
  shows "race_inv s'"
  using assms(2)
proof (cases rule: taker_stepE)
  case Tk_Length
  then have "bs_occupied (rc_slot s) \<noteq> 0" using assms(1) by (simp add: race_inv_def)
  then show ?thesis
    using assms(1) Tk_Length by (simp add: race_inv_def publisher_inv_def first_frame_def)
next
  case Tk_Too_Long
  then have "bs_occupied (rc_slot s) \<noteq> 0" using assms(1) by (simp add: race_inv_def)
  from race_occupied [OF assms(1) this] Tk_Too_Long show ?thesis by auto
next
  case (Tk_Load ld lds f)
  from assms(1) Tk_Load(2) obtain pre where
    p: "bs_occupied (rc_slot s) \<noteq> 0" "take_loads (unat (bs_len (rc_slot s))) = pre @ ld # lds"
      "f = loads_on (rc_slot s) (first_frame (rc_slot s)) pre"
    by (auto simp: race_inv_def)
  have "taker_inv (rc_slot s) (Tk_Loading lds (apply_load ld (rc_slot s) f))"
    using p by (auto intro!: exI [of _ "pre @ [ld]"])
  then show ?thesis
    using assms(1) Tk_Load(1) by (simp add: race_inv_def publisher_inv_def)
next
  case (Tk_Same_Roles lds f)
  from assms(1) Tk_Same_Roles(2) obtain pre where
    p: "bs_occupied (rc_slot s) \<noteq> 0" "take_loads (unat (bs_len (rc_slot s))) = pre @ Ld_Peer # lds"
      "f = loads_on (rc_slot s) (first_frame (rc_slot s)) pre"
    by (auto simp: race_inv_def)
  have "sf_sender_role f = bs_sender_role (rc_slot s)"
    using p(3) take_loads_peer [OF p(2)] by simp
  with race_occupied [OF assms(1) p(1)] Tk_Same_Roles(3) show ?thesis by auto
next
  case (Tk_Finish f)
  from assms(1) Tk_Finish(2) have
    p: "bs_occupied (rc_slot s) \<noteq> 0"
      "f = loads_on (rc_slot s) (first_frame (rc_slot s)) (take_loads (unat (bs_len (rc_slot s))))"
    by (auto simp: race_inv_def)
  from race_occupied [OF assms(1) p(1)] obtain g where
    g: "rc_stores s = []" "rc_published s = rc_taken s @ [g]"
      "g = loads_on (rc_slot s) (first_frame (rc_slot s)) (take_loads (unat (bs_len (rc_slot s))))"
    by metis
  then show ?thesis
    using assms(1) Tk_Finish(1) p(2) by (simp add: race_inv_def publisher_inv_def clear_slot_def)
qed (use assms(1) in \<open>auto simp: race_inv_def publisher_inv_def\<close>)

lemma race_reach_inv:
  assumes "length (bs_bytes slot) = 128" "bs_occupied slot = 0" "race_reach slot s"
  shows "race_inv s"
  using assms(3)
proof (induction rule: race_reach.induct)
  case Race_Start
  then show ?case using assms(1,2) by (simp add: race_inv_def race_start_def publisher_inv_def)
next
  case (Race_Publisher s s')
  then show ?case using publisher_step_inv by blast
next
  case (Race_Taker s s')
  then show ?case using taker_step_inv by blast
qed

section \<open>Progress\<close>

lemma race_slot_empty: "length (bs_bytes bk_slot_empty) = 128" "bs_occupied bk_slot_empty = 0"
  by (simp_all add: bk_slot_empty_def)

definition race_pending :: bk_pending where
  "race_pending = bk_new_pending (baker_hello 1)"

lemma race_pending_ok: "bk_pending_ok 0 race_pending"
  by (simp add: race_pending_def bk_new_pending_def baker_hello_def bk_pending_ok_def)

lemma publisher_finishes:
  "rc_stores s = st # sts \<Longrightarrow> \<exists>s'. publisher_step\<^sup>*\<^sup>* s s' \<and> rc_stores s' = []
    \<and> rc_slot s' = stores_on (rc_slot s) (st # sts) \<and> rc_taken s' = rc_taken s
    \<and> rc_published s' = rc_published s @ [rc_sending s]"
proof (induction sts arbitrary: s st)
  case Nil
  then show ?case using publisher_step.Pub_Store [OF Nil] by auto
next
  case (Cons st' sts)
  let ?s = "s\<lparr>rc_slot := apply_store st (rc_slot s), rc_stores := st' # sts\<rparr>"
  have step: "publisher_step s ?s" using publisher_step.Pub_Store [OF Cons.prems] by simp
  from Cons.IH [of ?s st'] obtain s' where "publisher_step\<^sup>*\<^sup>* ?s s'" "rc_stores s' = []"
    "rc_slot s' = stores_on (rc_slot ?s) (st' # sts)" "rc_taken s' = rc_taken s"
    "rc_published s' = rc_published s @ [rc_sending s]" by auto
  with step show ?case by (intro exI [of _ s']) (auto intro: converse_rtranclp_into_rtranclp)
qed

lemma taker_moves:
  assumes "race_inv s"
  shows "\<exists>t. taker_step s t"
proof (cases "rc_taker s")
  case Tk_Idle
  then show ?thesis by (cases "bs_occupied (rc_slot s) = 0") (blast intro: taker_step.Tk_Empty taker_step.Tk_Seen)+
next
  case Tk_Occupied
  then show ?thesis using taker_step.Tk_Length [of s] taker_step.Tk_Too_Long [of s] not_le by blast
next
  case (Tk_Loading lds f)
  show ?thesis
  proof (cases lds)
    case Nil
    with Tk_Loading show ?thesis by (blast intro: taker_step.Tk_Finish)
  next
    case (Cons ld lds')
    with Tk_Loading show ?thesis
      by (cases "ld = Ld_Peer \<and> sf_sender_role f = bs_peer_role (rc_slot s)")
        (blast intro: taker_step.Tk_Load taker_step.Tk_Same_Roles)+
  qed
qed

lemma publisher_moves: "bk_pending_ok role p \<Longrightarrow> \<exists>t. publisher_step s t"
  by (cases "rc_stores s"; cases "bs_occupied (rc_slot s) = 0")
    (blast intro: publisher_step.Pub_Begin publisher_step.Pub_Refused publisher_step.Pub_Store)+

lemma race_steps_inv: "race_steps p k s t \<Longrightarrow> race_inv s \<Longrightarrow> race_inv t"
  by (induction rule: race_steps.induct) (blast intro: publisher_step_inv taker_step_inv)+

text \<open>How many steps the taker still needs for the frame in the slot.\<close>

definition taker_left :: "race \<Rightarrow> nat" where
  "taker_left s = (case rc_taker s of
     Tk_Idle \<Rightarrow> unat (bs_len (rc_slot s)) + 8
   | Tk_Occupied \<Rightarrow> unat (bs_len (rc_slot s)) + 7
   | Tk_Loading lds _ \<Rightarrow> length lds + 1)"

lemma taker_left_pos: "0 < taker_left s"
  by (simp add: taker_left_def split: taker.split)

lemma taker_left_bound:
  assumes "race_inv s" "bs_occupied (rc_slot s) \<noteq> 0"
  shows "taker_left s \<le> 136"
proof -
  have l: "unat (bs_len (rc_slot s)) \<le> 128" using race_occupied [OF assms] by metis
  show ?thesis
  proof (cases "rc_taker s")
    case (Tk_Loading lds f)
    then obtain pre where "take_loads (unat (bs_len (rc_slot s))) = pre @ lds"
      using assms(1) by (auto simp: race_inv_def)
    then have "length pre + length lds = unat (bs_len (rc_slot s)) + 5"
      by (metis length_append take_loads_length)
    with l Tk_Loading show ?thesis by (simp add: taker_left_def)
  qed (use l in \<open>simp_all add: taker_left_def\<close>)
qed

text \<open>A step of the taker takes the frame in the slot or comes closer to taking it.\<close>

lemma taker_step_progress:
  assumes "race_inv s" "bs_occupied (rc_slot s) \<noteq> 0" "rc_published s = rc_taken s @ [f]" "taker_step s t"
  shows "rc_taken t = rc_taken s @ [f]
    \<or> rc_taken t = rc_taken s \<and> rc_published t = rc_published s \<and> bs_occupied (rc_slot t) \<noteq> 0
      \<and> taker_left t < taker_left s"
  using assms(4)
proof (cases rule: taker_stepE)
  case Tk_Too_Long
  with race_occupied [OF assms(1,2)] show ?thesis by auto
next
  case (Tk_Same_Roles lds g)
  have "rc_errors t = 0" using taker_step_inv [OF assms(1,4)] by (simp add: race_inv_def)
  with Tk_Same_Roles show ?thesis by simp
next
  case (Tk_Finish g)
  have "rc_stores s = []" using race_occupied [OF assms(1,2)] by metis
  with taker_step_inv [OF assms(1,4)] Tk_Finish assms(3) show ?thesis
    by (simp add: race_inv_def publisher_inv_def clear_slot_def)
qed (use assms(2,3) in \<open>simp_all add: taker_left_def take_loads_length\<close>)

lemma taken_grows: "taker_step s t \<Longrightarrow> \<exists>rest. rc_taken t = rc_taken s @ rest"
  by (cases rule: taker_stepE) auto

lemma published_grows: "publisher_step s t \<Longrightarrow> \<exists>rest. rc_published t = rc_published s @ rest"
  by (cases rule: publisher_stepE) auto

lemma race_steps_taken:
  assumes "race_steps p k s t" "race_inv s" "bs_occupied (rc_slot s) \<noteq> 0" "rc_published s = rc_taken s @ [f]"
  shows "(\<exists>rest. rc_taken t = rc_taken s @ f # rest)
    \<or> rc_taken t = rc_taken s \<and> rc_published t = rc_published s \<and> bs_occupied (rc_slot t) \<noteq> 0
      \<and> taker_left t + k \<le> taker_left s"
  using assms
proof (induction rule: race_steps.induct)
  case (Steps_Publisher p k s t u)
  then have inv: "race_inv t" using race_steps_inv by blast
  have "rc_taken u = rc_taken t" using Steps_Publisher(2) by (cases rule: publisher_stepE) auto
  moreover have "u = t" if "bs_occupied (rc_slot t) \<noteq> 0"
  proof -
    have "rc_stores t = []" using race_occupied [OF inv that] by metis
    with that Steps_Publisher(2) show ?thesis by (auto elim: publisher_stepE)
  qed
  ultimately show ?case using Steps_Publisher.IH [OF Steps_Publisher.prems] by auto
next
  case (Steps_Taker p k s t u)
  then have inv: "race_inv t" using race_steps_inv by blast
  from Steps_Taker.IH [OF Steps_Taker.prems] show ?case
  proof
    assume "\<exists>rest. rc_taken t = rc_taken s @ f # rest"
    with taken_grows [OF Steps_Taker(2)] show ?thesis by auto
  next
    assume l: "rc_taken t = rc_taken s \<and> rc_published t = rc_published s \<and> bs_occupied (rc_slot t) \<noteq> 0
      \<and> taker_left t + k \<le> taker_left s"
    with taker_step_progress [OF inv _ _ Steps_Taker(2), of f] Steps_Taker.prems(3) show ?thesis by auto
  qed
qed simp

lemma race_steps_published:
  assumes "race_steps p k s t" "rc_stores s \<noteq> []"
  shows "(\<exists>rest. rc_published t = rc_published s @ rc_sending s # rest)
    \<or> rc_published t = rc_published s \<and> rc_sending t = rc_sending s \<and> rc_stores t \<noteq> []
      \<and> length (rc_stores t) + p \<le> length (rc_stores s)"
  using assms
proof (induction rule: race_steps.induct)
  case (Steps_Publisher p k s t u)
  from Steps_Publisher.IH [OF Steps_Publisher.prems] show ?case
  proof
    assume "\<exists>rest. rc_published t = rc_published s @ rc_sending s # rest"
    with published_grows [OF Steps_Publisher(2)] show ?thesis by auto
  next
    assume "rc_published t = rc_published s \<and> rc_sending t = rc_sending s \<and> rc_stores t \<noteq> []
      \<and> length (rc_stores t) + p \<le> length (rc_stores s)"
    with Steps_Publisher(2) show ?thesis by (auto elim!: publisher_stepE)
  qed
next
  case (Steps_Taker p k s t u)
  have "rc_published u = rc_published t" "rc_sending u = rc_sending t" "rc_stores u = rc_stores t"
    using Steps_Taker(2) by (cases rule: taker_stepE; simp)+
  with Steps_Taker show ?case by simp
qed simp

lemma publish_stores_length: "bk_pending_ok role p \<Longrightarrow> length (publish_stores sid role p) \<le> 135"
  by (simp add: publish_stores_def bk_pending_ok_def)

lemma race_stores_length: "race_reach slot s \<Longrightarrow> length (rc_stores s) \<le> 135"
proof (induction rule: race_reach.induct)
  case (Race_Publisher s s')
  from Race_Publisher(2) Race_Publisher.IH show ?case
    by (cases rule: publisher_stepE) (simp_all add: publish_stores_length)
next
  case (Race_Taker s s')
  from Race_Taker(2) have "rc_stores s' = rc_stores s" by (cases rule: taker_stepE) simp_all
  with Race_Taker.IH show ?case by simp
qed (simp add: race_start_def)

section \<open>Properties\<close>

text \<open>C3: however the accesses of the two cores interleave, no take ends in an error and the frames
  taken are exactly the frames published, in order and unmixed, except for at most the last one,
  which is still in the slot.\<close>

theorem race_delivery:
  assumes "length (bs_bytes slot) = 128" "bs_occupied slot = 0" "race_reach slot s"
  shows "rc_errors s = 0 \<and> (\<exists>rest. rc_published s = rc_taken s @ rest \<and> length rest \<le> 1
    \<and> (rest = [] \<longleftrightarrow> bs_occupied (rc_slot s) = 0))"
  using race_reach_inv [OF assms] by (auto simp: race_inv_def publisher_inv_def split: if_splits)

theorem race_delivery_witness:
  "\<exists>s. race_reach bk_slot_empty s \<and> rc_stores s \<noteq> [] \<and> rc_taken s = [] \<and> rc_published s = []
    \<and> rc_errors s = 0"
proof -
  let ?s = "(race_start bk_slot_empty)\<lparr>rc_stores := publish_stores 7 0 race_pending,
    rc_sending := bk_pending_frame 7 0 race_pending\<rparr>"
  have r: "race_reach bk_slot_empty ?s"
    by (rule race_reach.Race_Publisher [OF race_reach.Race_Start publisher_step.Pub_Begin])
      (simp_all add: race_start_def race_pending_ok race_slot_empty)
  from race_delivery [OF race_slot_empty r] r show ?thesis
    by (intro exI [of _ ?s]) (simp add: race_start_def publish_stores_def)
qed

text \<open>C38: A frame in the slot is taken after at most 136 steps of the taking core, and a frame whose
  stores have begun is published after at most 135 steps of the publishing core, however many steps
  of the other core come in between and wherever; whatever is published and taken afterwards comes
  behind it. Neither core is ever without a step.\<close>

theorem race_progress:
  assumes "length (bs_bytes slot) = 128" "bs_occupied slot = 0" "race_reach slot s"
    and "race_steps p k s t"
  shows "(bs_occupied (rc_slot s) \<noteq> 0 \<and> 136 \<le> k \<longrightarrow>
      (\<exists>f rest. rc_published s = rc_taken s @ [f] \<and> rc_taken t = rc_taken s @ f # rest))
    \<and> (rc_stores s \<noteq> [] \<and> 135 \<le> p \<longrightarrow>
      (\<exists>rest. rc_published t = rc_published s @ rc_sending s # rest))
    \<and> (\<exists>u. taker_step t u) \<and> (\<exists>u. publisher_step t u)"
proof (intro conjI impI)
  have inv: "race_inv s" by (rule race_reach_inv [OF assms(1,2,3)])
  show "\<exists>u. taker_step t u" by (rule taker_moves [OF race_steps_inv [OF assms(4) inv]])
  show "\<exists>u. publisher_step t u" by (rule publisher_moves [OF race_pending_ok])
  assume a: "bs_occupied (rc_slot s) \<noteq> 0 \<and> 136 \<le> k"
  then obtain f where f: "rc_published s = rc_taken s @ [f]" using race_occupied [OF inv] by metis
  have "136 < taker_left t + 136" using taker_left_pos [of t] by simp
  with race_steps_taken [OF assms(4) inv _ f] taker_left_bound [OF inv] a
  show "\<exists>f rest. rc_published s = rc_taken s @ [f] \<and> rc_taken t = rc_taken s @ f # rest" using f by fastforce
next
  assume a: "rc_stores s \<noteq> [] \<and> 135 \<le> p"
  then have "\<not> length (rc_stores t) + p \<le> length (rc_stores s)" if "rc_stores t \<noteq> []"
    using race_stores_length [OF assms(3)] that by (cases "rc_stores t") auto
  with race_steps_published [OF assms(4)] a show "\<exists>rest. rc_published t = rc_published s @ rc_sending s # rest" by blast
qed

text \<open>A state with a frame in the slot, and a run in which the cores alternate.\<close>

lemma race_occupied_reachable:
  "\<exists>s f. race_reach bk_slot_empty s \<and> bs_occupied (rc_slot s) \<noteq> 0 \<and> rc_taken s = [] \<and> rc_published s = [f]"
proof -
  let ?s = "(race_start bk_slot_empty)\<lparr>rc_stores := publish_stores 7 0 race_pending,
    rc_sending := bk_pending_frame 7 0 race_pending\<rparr>"
  have r: "race_reach bk_slot_empty ?s"
    by (rule race_reach.Race_Publisher [OF race_reach.Race_Start publisher_step.Pub_Begin])
      (simp_all add: race_start_def race_pending_ok race_slot_empty)
  have "\<exists>st sts. rc_stores ?s = st # sts" by (simp add: publish_stores_def)
  then obtain s' where s': "publisher_step\<^sup>*\<^sup>* ?s s'" "rc_stores s' = []" "rc_taken s' = rc_taken ?s"
      "rc_published s' = rc_published ?s @ [rc_sending ?s]"
    using publisher_finishes by metis
  from s'(1) r have r': "race_reach bk_slot_empty s'"
    by (induction rule: rtranclp_induct) (blast intro: race_reach.Race_Publisher)+
  from race_reach_inv [OF race_slot_empty r'] s' have "bs_occupied (rc_slot s') \<noteq> 0"
    by (auto simp: race_inv_def publisher_inv_def race_start_def split: if_splits)
  with r' s' show ?thesis by (auto simp: race_start_def)
qed

lemma race_run_exists: "race_inv s \<Longrightarrow> \<exists>t. race_steps n n s t"
proof (induction n)
  case (Suc n)
  then obtain t where t: "race_steps n n s t" by blast
  obtain u where u: "publisher_step t u" using publisher_moves [OF race_pending_ok] by blast
  from race_steps.Steps_Publisher [OF t u] have tu: "race_steps (Suc n) n s u" .
  obtain v where "taker_step u v" using taker_moves [OF race_steps_inv [OF tu Suc.prems]] by blast
  from race_steps.Steps_Taker [OF tu this] show ?case by blast
qed (blast intro: race_steps.Steps_None)

theorem race_progress_witness:
  "\<exists>s t f rest. race_reach bk_slot_empty s \<and> race_steps 136 136 s t \<and> rc_taken s = [] \<and> rc_published s = [f]
    \<and> rc_taken t = f # rest"
proof -
  obtain s f where s: "race_reach bk_slot_empty s" "bs_occupied (rc_slot s) \<noteq> 0" "rc_taken s = []" "rc_published s = [f]"
    using race_occupied_reachable by blast
  obtain t where t: "race_steps 136 136 s t" using race_run_exists [OF race_reach_inv [OF race_slot_empty s(1)]] by blast
  from race_progress [OF race_slot_empty s(1) t] s obtain rest where "rc_taken t = f # rest" by auto
  with s t show ?thesis by blast
qed

text \<open>Run without interruption, the single accesses are the two functions: the stores take the
  slot to the state \<open>publish_mailbox_frame\<close> leaves it in, and the loads read the frame
  \<open>take_mailbox_frame\<close> returns.\<close>

theorem race_accesses_are_calls:
  assumes "length (bs_bytes slot) = 128"
  shows "(bk_pending_ok role p \<longrightarrow> bs_occupied slot = 0 \<longrightarrow> publish_mailbox_frame sid role p slot
      = (True, p\<lparr>bp_published := True\<rparr>, stores_on slot (publish_stores sid role p)))
    \<and> (bs_occupied slot \<noteq> 0 \<longrightarrow> unat (bs_len slot) \<le> 128 \<longrightarrow>
        bs_sender_role slot \<noteq> bs_peer_role slot \<longrightarrow> take_mailbox_frame slot
      = (Inr (Some (loads_on slot (first_frame slot) (take_loads (unat (bs_len slot))))),
         clear_slot slot, [Bk_Signal]))"
  using stores_publish [OF _ assms] loads_take [OF _ _ _ assms] by blast

theorem race_accesses_are_calls_witness:
  "publish_mailbox_frame 7 0 race_pending bk_slot_empty
    = (True, race_pending\<lparr>bp_published := True\<rparr>,
       stores_on bk_slot_empty (publish_stores 7 0 race_pending))"
  using race_accesses_are_calls [OF race_slot_empty(1), of 0 race_pending 7] race_pending_ok
  by (simp add: race_slot_empty)

end
