(* ===== verification/Wasi_Imports.thy ===== *)
theory Wasi_Imports
  imports Pico_Prelude
begin

text \<open>
  The WASI imports an engine role serves over its endpoint, from \<open>src/appkit/internal.rs\<close>: which
  message carries the request of an import and which one its completion. The imports, requests and
  completions are enums of the guest runtime; \<open>'p\<close> stands for the payloads of all their variants.
\<close>

datatype wasi_import =
  FdWrite | FdWriteObject | FdRead | FdReaddir | PathOpen | FdPrestatGet | FdPrestatDirName
| FdFilestatGet | ArgsSizesGet | ArgsGet | EnvironSizesGet | EnvironGet | FdFdstatGet
| PathFilestatGet | FdClose | ClockResGet | ClockTimeGet | PollOneoff | RandomGet

datatype wasi_msg =
  FdWriteReqMsg | FdWriteObjectReqMsg | FdReadReqMsg | FdReaddirReqMsg | PathOpenReqMsg
| FdPrestatGetReqMsg | FdPrestatDirNameReqMsg | FdFilestatGetReqMsg | ArgsSizesGetReqMsg
| ArgsGetReqMsg | EnvironSizesGetReqMsg | EnvironGetReqMsg | FdFdstatGetReqMsg
| PathFilestatGetReqMsg | FdCloseReqMsg | ClockResGetReqMsg | ClockTimeGetReqMsg
| PollOneoffReqMsg | RandomGetReqMsg | MemoryGrowReqMsg
| FdWriteRetMsg | FdWriteObjectRetMsg | FdReadRetMsg | FdReaddirRetMsg | PathOpenRetMsg
| FdPrestatGetRetMsg | FdPrestatDirNameRetMsg | FdFilestatGetRetMsg | ArgsSizesGetRetMsg
| ArgsGetRetMsg | EnvironSizesGetRetMsg | EnvironGetRetMsg | FdFdstatGetRetMsg
| PathFilestatGetRetMsg | FdCloseRetMsg | ClockResGetRetMsg | ClockTimeGetRetMsg
| PollOneoffRetMsg | RandomGetRetMsg | MemoryGrowRetMsg

text \<open>A variant of \<open>WasiImportRequest\<close> and of \<open>WasiImportCompletion\<close>, with what it carries.\<close>

datatype 'p wasi_request = Request (request_variant: wasi_import) (request_payload: 'p)

datatype 'p wasi_completion = Completion (completion_variant: wasi_import) (completion_payload: 'p)

text \<open>The message type \<open>send_wasi_import_request\<close> sends for a request.\<close>

fun request_msg :: "wasi_import \<Rightarrow> wasi_msg" where
  "request_msg FdWrite = FdWriteReqMsg"
| "request_msg FdWriteObject = FdWriteObjectReqMsg"
| "request_msg FdRead = FdReadReqMsg"
| "request_msg FdReaddir = FdReaddirReqMsg"
| "request_msg PathOpen = PathOpenReqMsg"
| "request_msg FdPrestatGet = FdPrestatGetReqMsg"
| "request_msg FdPrestatDirName = FdPrestatDirNameReqMsg"
| "request_msg FdFilestatGet = FdFilestatGetReqMsg"
| "request_msg ArgsSizesGet = ArgsSizesGetReqMsg"
| "request_msg ArgsGet = ArgsGetReqMsg"
| "request_msg EnvironSizesGet = EnvironSizesGetReqMsg"
| "request_msg EnvironGet = EnvironGetReqMsg"
| "request_msg FdFdstatGet = FdFdstatGetReqMsg"
| "request_msg PathFilestatGet = PathFilestatGetReqMsg"
| "request_msg FdClose = FdCloseReqMsg"
| "request_msg ClockResGet = ClockResGetReqMsg"
| "request_msg ClockTimeGet = ClockTimeGetReqMsg"
| "request_msg PollOneoff = PollOneoffReqMsg"
| "request_msg RandomGet = RandomGetReqMsg"

text \<open>The message type \<open>recv_wasi_import_completion\<close> waits for.\<close>

fun completion_msg :: "wasi_import \<Rightarrow> wasi_msg" where
  "completion_msg FdWrite = FdWriteRetMsg"
| "completion_msg FdWriteObject = FdWriteObjectRetMsg"
| "completion_msg FdRead = FdReadRetMsg"
| "completion_msg FdReaddir = FdReaddirRetMsg"
| "completion_msg PathOpen = PathOpenRetMsg"
| "completion_msg FdPrestatGet = FdPrestatGetRetMsg"
| "completion_msg FdPrestatDirName = FdPrestatDirNameRetMsg"
| "completion_msg FdFilestatGet = FdFilestatGetRetMsg"
| "completion_msg ArgsSizesGet = ArgsSizesGetRetMsg"
| "completion_msg ArgsGet = ArgsGetRetMsg"
| "completion_msg EnvironSizesGet = EnvironSizesGetRetMsg"
| "completion_msg EnvironGet = EnvironGetRetMsg"
| "completion_msg FdFdstatGet = FdFdstatGetRetMsg"
| "completion_msg PathFilestatGet = PathFilestatGetRetMsg"
| "completion_msg FdClose = FdCloseRetMsg"
| "completion_msg ClockResGet = ClockResGetRetMsg"
| "completion_msg ClockTimeGet = ClockTimeGetRetMsg"
| "completion_msg PollOneoff = PollOneoffRetMsg"
| "completion_msg RandomGet = RandomGetRetMsg"

text \<open>The import protocol: which return answers which request.\<close>

fun reply_of :: "wasi_msg \<Rightarrow> wasi_msg option" where
  "reply_of FdWriteReqMsg = Some FdWriteRetMsg"
| "reply_of FdWriteObjectReqMsg = Some FdWriteObjectRetMsg"
| "reply_of FdReadReqMsg = Some FdReadRetMsg"
| "reply_of FdReaddirReqMsg = Some FdReaddirRetMsg"
| "reply_of PathOpenReqMsg = Some PathOpenRetMsg"
| "reply_of FdPrestatGetReqMsg = Some FdPrestatGetRetMsg"
| "reply_of FdPrestatDirNameReqMsg = Some FdPrestatDirNameRetMsg"
| "reply_of FdFilestatGetReqMsg = Some FdFilestatGetRetMsg"
| "reply_of ArgsSizesGetReqMsg = Some ArgsSizesGetRetMsg"
| "reply_of ArgsGetReqMsg = Some ArgsGetRetMsg"
| "reply_of EnvironSizesGetReqMsg = Some EnvironSizesGetRetMsg"
| "reply_of EnvironGetReqMsg = Some EnvironGetRetMsg"
| "reply_of FdFdstatGetReqMsg = Some FdFdstatGetRetMsg"
| "reply_of PathFilestatGetReqMsg = Some PathFilestatGetRetMsg"
| "reply_of FdCloseReqMsg = Some FdCloseRetMsg"
| "reply_of ClockResGetReqMsg = Some ClockResGetRetMsg"
| "reply_of ClockTimeGetReqMsg = Some ClockTimeGetRetMsg"
| "reply_of PollOneoffReqMsg = Some PollOneoffRetMsg"
| "reply_of RandomGetReqMsg = Some RandomGetRetMsg"
| "reply_of MemoryGrowReqMsg = Some MemoryGrowRetMsg"
| "reply_of _ = None"

lemma reply_of_request [simp]: "reply_of (request_msg k) = Some (completion_msg k)"
  by (cases k) simp_all

lemma request_msg_inject [simp]: "request_msg k = request_msg k' \<longleftrightarrow> k = k'"
proof -
  have "completion_msg k = completion_msg k' \<Longrightarrow> k = k'" by (cases k; cases k') simp_all
  then show ?thesis by (metis option.inject reply_of_request)
qed

end
