(* ===== verification/Appkit_Scheduler.thy ===== *)
theory Appkit_Scheduler
  imports Pico_Prelude
begin

text \<open>
  The two fixed schedulers of \<open>src/appkit/internal.rs\<close>: \<open>ScheduledTasks\<close> for hosted runs and
  \<open>EmbeddedScheduledTasks\<close> for the boards. A role task is a future of type \<open>'f\<close> whose poll is a
  parameter: given the world it gives back an error or is pending, tells whether it raised the wake
  flag, and leaves a new future and world. The size and alignment of a future are parameters too.
\<close>

text \<open>A task never completes: \<open>Ready(Ok(done))\<close> has no value, so a poll gives an error or nothing.\<close>

type_synonym ('f, 'w, 'e) task_poll = "'f \<Rightarrow> 'w \<Rightarrow> 'e option \<times> bool \<times> 'f \<times> 'w"

definition APPKIT_CARRIER_ROLES :: nat where [simp]: "APPKIT_CARRIER_ROLES = 16"
definition APPKIT_ROLE_FUTURE_ALIGN :: nat where [simp]: "APPKIT_ROLE_FUTURE_ALIGN = 16"
definition APPKIT_ROLE_FUTURE_BYTES :: nat where [simp]: "APPKIT_ROLE_FUTURE_BYTES = 8 * 1024"
definition APPKIT_EMBEDDED_FUTURE_ALIGN :: nat where [simp]: "APPKIT_EMBEDDED_FUTURE_ALIGN = 16"
definition APPKIT_EMBEDDED_ROLE_FUTURE_BYTES :: nat where [simp]:
  "APPKIT_EMBEDDED_ROLE_FUTURE_BYTES = 4 * 1024"
definition APPKIT_EMBEDDED_ROLE_SLOTS :: nat where [simp]: "APPKIT_EMBEDDED_ROLE_SLOTS = 4"
definition APPKIT_EMBEDDED_FUTURE_BYTES :: nat where [simp]:
  "APPKIT_EMBEDDED_FUTURE_BYTES = APPKIT_EMBEDDED_ROLE_FUTURE_BYTES * APPKIT_EMBEDDED_ROLE_SLOTS"

section \<open>The hosted scheduler\<close>

text \<open>The poll and drop functions stored in a slot are those of the future in its arena.\<close>

record 'f task_slot =
  ts_future :: "'f option"
  ts_active :: bool

definition task_slot_empty :: "'f task_slot" where
  "task_slot_empty = \<lparr>ts_future = None, ts_active = False\<rparr>"

definition slot_push :: "('f \<Rightarrow> nat) \<Rightarrow> ('f \<Rightarrow> nat) \<Rightarrow> 'f \<Rightarrow> 'f task_slot \<Rightarrow> 'f task_slot outcome" where
  "slot_push size_of align_of future slot =
     (if ts_active slot then Panic
      else if \<not> size_of future \<le> APPKIT_ROLE_FUTURE_BYTES then Panic
      else if \<not> align_of future \<le> APPKIT_ROLE_FUTURE_ALIGN then Panic
      else Done (slot\<lparr>ts_future := Some future, ts_active := True\<rparr>))"

definition slot_poll ::
    "('f, 'w, 'e) task_poll \<Rightarrow> 'f task_slot \<Rightarrow> 'w \<Rightarrow> ('e option \<times> bool \<times> 'f task_slot \<times> 'w) outcome" where
  "slot_poll poll slot w =
     (if \<not> ts_active slot then Panic
      else case ts_future slot of
        None \<Rightarrow> Panic
      | Some future \<Rightarrow>
          (case poll future w of (res, woke, future, w) \<Rightarrow>
             Done (res, woke, slot\<lparr>ts_future := Some future\<rparr>, w)))"

text \<open>The slot afterwards and the future that was dropped.\<close>

definition slot_drop_active :: "'f task_slot \<Rightarrow> 'f task_slot \<times> 'f option" where
  "slot_drop_active slot =
     (if \<not> ts_active slot then (slot, None)
      else (slot\<lparr>ts_future := None, ts_active := False\<rparr>, ts_future slot))"

record 'f scheduled_tasks =
  sd_slots :: "'f task_slot list"
  sd_len :: nat

definition scheduled_tasks_new :: "'f scheduled_tasks" where
  "scheduled_tasks_new = \<lparr>sd_slots = replicate APPKIT_CARRIER_ROLES task_slot_empty, sd_len = 0\<rparr>"

definition tasks_push ::
    "('f \<Rightarrow> nat) \<Rightarrow> ('f \<Rightarrow> nat) \<Rightarrow> 'f \<Rightarrow> 'f scheduled_tasks \<Rightarrow> 'f scheduled_tasks outcome" where
  "tasks_push size_of align_of future t =
     (if \<not> sd_len t < length (sd_slots t) then Panic
      else bind_outcome (slot_push size_of align_of future (sd_slots t ! sd_len t)) (\<lambda>slot.
        Done (t\<lparr>sd_slots := (sd_slots t)[sd_len t := slot], sd_len := sd_len t + 1\<rparr>)))"

text \<open>One pass over the tasks: it ends early with the error of the first task that fails.\<close>

datatype ('s, 'w, 'e) pass_result = Passed bool 's 'w | Task_Failed 'e 's 'w | Pass_Panicked

function poll_pass ::
    "('f, 'w, 'e) task_poll \<Rightarrow> nat \<Rightarrow> bool \<Rightarrow> 'f scheduled_tasks \<Rightarrow> 'w \<Rightarrow>
       ('f scheduled_tasks, 'w, 'e) pass_result" where
  "poll_pass poll task_idx woke t w =
     (if task_idx < sd_len t then
        (case slot_poll poll (sd_slots t ! task_idx) w of
           Panic \<Rightarrow> Pass_Panicked
         | Done (res, woke', slot, w) \<Rightarrow>
             let t = t\<lparr>sd_slots := (sd_slots t)[task_idx := slot]\<rparr> in
             (case res of
                Some error \<Rightarrow> Task_Failed error t w
              | None \<Rightarrow> poll_pass poll (task_idx + 1) (woke \<or> woke') t w))
      else Passed woke t w)"
  by pat_completeness auto
termination
  by (relation "measure (\<lambda>(_, task_idx, _, t, _). sd_len t - task_idx)") auto

declare poll_pass.simps [simp del]

text \<open>
  Passes are repeated while a task raised the flag; the observer runs after every pass and before the
  panic on a task error. The result is \<open>None\<close> if the passes never end.
\<close>

datatype ('s, 'w, 'e) run_end = Quiescent 's 'w | Task_Panic 'e 'w | Slot_Panic

partial_function (option) poll_until_quiescent ::
    "('f, 'w, 'e) task_poll \<Rightarrow> ('w \<Rightarrow> 'w) \<Rightarrow> 'f scheduled_tasks \<Rightarrow> 'w \<Rightarrow>
       ('f scheduled_tasks, 'w, 'e) run_end option" where
  "poll_until_quiescent poll observe t w =
     (case poll_pass poll 0 False t w of
        Passed woke t w \<Rightarrow>
          if woke then poll_until_quiescent poll observe t (observe w)
          else Some (Quiescent t (observe w))
      | Task_Failed error t w \<Rightarrow> Some (Task_Panic error (observe w))
      | Pass_Panicked \<Rightarrow> Some Slot_Panic)"

text \<open>\<open>Drop for ScheduledTasks\<close>: the tasks left and the futures dropped, in order.\<close>

fun drop_slots :: "nat \<Rightarrow> nat \<Rightarrow> 'f task_slot list \<Rightarrow> 'f task_slot list \<times> 'f list" where
  "drop_slots 0 task_idx slots = (slots, [])"
| "drop_slots (Suc n) task_idx slots =
     (case slot_drop_active (slots ! task_idx) of (slot, dropped) \<Rightarrow>
        (case drop_slots n (task_idx + 1) (slots[task_idx := slot]) of (slots, ds) \<Rightarrow>
           (slots, (case dropped of None \<Rightarrow> ds | Some f \<Rightarrow> f # ds))))"

definition tasks_drop :: "'f scheduled_tasks \<Rightarrow> 'f scheduled_tasks \<times> 'f list" where
  "tasks_drop t = (case drop_slots (sd_len t) 0 (sd_slots t) of (slots, ds) \<Rightarrow>
     (t\<lparr>sd_slots := slots\<rparr>, ds))"

section \<open>The embedded scheduler\<close>

text \<open>The future arena holds one future per slot of 4096 bytes; \<open>polls\<close> is the occupied part.\<close>

record 'f embedded_tasks =
  em_total_bytes :: nat
  em_arena :: "'f option list"
  em_polls :: "bool list"
  em_len :: nat

definition embedded_tasks_new :: "nat \<Rightarrow> 'f embedded_tasks" where
  "embedded_tasks_new future_bytes =
     \<lparr>em_total_bytes = future_bytes, em_arena = replicate APPKIT_EMBEDDED_ROLE_SLOTS None,
      em_polls = replicate APPKIT_EMBEDDED_ROLE_SLOTS False, em_len = 0\<rparr>"

definition embedded_slot_offset :: "'f embedded_tasks \<Rightarrow> nat \<Rightarrow> nat outcome" where
  "embedded_slot_offset t index =
     (let offset = index * APPKIT_EMBEDDED_ROLE_FUTURE_BYTES in
      if offset + APPKIT_EMBEDDED_ROLE_FUTURE_BYTES \<le> em_total_bytes t then Done offset else Panic)"

definition embedded_push ::
    "('f \<Rightarrow> nat) \<Rightarrow> ('f \<Rightarrow> nat) \<Rightarrow> 'f \<Rightarrow> 'f embedded_tasks \<Rightarrow> 'f embedded_tasks outcome" where
  "embedded_push size_of align_of future t =
     (if \<not> em_len t < length (em_polls t) then Panic
      else if \<not> size_of future \<le> APPKIT_EMBEDDED_ROLE_FUTURE_BYTES then Panic
      else if \<not> align_of future \<le> APPKIT_EMBEDDED_FUTURE_ALIGN then Panic
      else bind_outcome (embedded_slot_offset t (em_len t)) (\<lambda>slot.
        Done (t\<lparr>em_arena := (em_arena t)[slot div APPKIT_EMBEDDED_ROLE_FUTURE_BYTES := Some future],
                em_polls := (em_polls t)[em_len t := True], em_len := em_len t + 1\<rparr>)))"

definition has_tasks :: "'f embedded_tasks \<Rightarrow> bool" where
  "has_tasks t \<longleftrightarrow> em_len t \<noteq> 0"

text \<open>Where the state of a blocking engine is put: the last slot, if no task can reach it.\<close>

definition blocking_engine_state :: "nat \<Rightarrow> nat \<Rightarrow> 'f embedded_tasks \<Rightarrow> nat outcome" where
  "blocking_engine_state state_size state_align t =
     (if \<not> em_len t < APPKIT_EMBEDDED_ROLE_SLOTS then Panic
      else if \<not> state_size \<le> APPKIT_EMBEDDED_ROLE_FUTURE_BYTES then Panic
      else if \<not> state_align \<le> APPKIT_EMBEDDED_FUTURE_ALIGN then Panic
      else embedded_slot_offset t (APPKIT_EMBEDDED_ROLE_SLOTS - 1))"

function embedded_poll_once ::
    "('f, 'w, 'e) task_poll \<Rightarrow> nat \<Rightarrow> bool \<Rightarrow> 'f embedded_tasks \<Rightarrow> 'w \<Rightarrow>
       ('f embedded_tasks, 'w, 'e) pass_result" where
  "embedded_poll_once poll task_idx woke t w =
     (if task_idx < em_len t then
        if \<not> em_polls t ! task_idx then Pass_Panicked
        else (case embedded_slot_offset t task_idx of
            Panic \<Rightarrow> Pass_Panicked
          | Done offset \<Rightarrow>
              (case em_arena t ! (offset div APPKIT_EMBEDDED_ROLE_FUTURE_BYTES) of
                 None \<Rightarrow> Pass_Panicked
               | Some future \<Rightarrow>
                   (case poll future w of (res, woke', future, w) \<Rightarrow>
                      let t = t\<lparr>em_arena := (em_arena t)
                                  [offset div APPKIT_EMBEDDED_ROLE_FUTURE_BYTES := Some future]\<rparr> in
                      (case res of
                         Some error \<Rightarrow> Task_Failed error t w
                       | None \<Rightarrow> embedded_poll_once poll (task_idx + 1) (woke \<or> woke') t w))))
      else Passed woke t w)"
  by pat_completeness auto
termination
  by (relation "measure (\<lambda>(_, task_idx, _, t, _). em_len t - task_idx)") auto

declare embedded_poll_once.simps [simp del]

text \<open>
  The endless loop of the boards, for a number of rounds. A round tells whether it ended by waiting
  for an event; the wait is a parameter that changes the world.
\<close>

fun embedded_poll_rounds ::
    "('f, 'w, 'e) task_poll \<Rightarrow> ('w \<Rightarrow> 'w) \<Rightarrow> ('w \<Rightarrow> 'w) \<Rightarrow> nat \<Rightarrow> 'f embedded_tasks \<Rightarrow> 'w \<Rightarrow>
       bool list \<times> ('f embedded_tasks, 'w, 'e) pass_result" where
  "embedded_poll_rounds poll observe wait 0 t w = ([], Passed False t w)"
| "embedded_poll_rounds poll observe wait (Suc n) t w =
     (case embedded_poll_once poll 0 False t w of
        Passed woke t w \<Rightarrow>
          apfst (Cons (\<not> woke))
            (embedded_poll_rounds poll observe wait n t (if woke then observe w else wait (observe w)))
      | r \<Rightarrow> ([], r))"

definition embedded_poll_forever ::
    "('f, 'w, 'e) task_poll \<Rightarrow> ('w \<Rightarrow> 'w) \<Rightarrow> ('w \<Rightarrow> 'w) \<Rightarrow> nat \<Rightarrow> 'f embedded_tasks \<Rightarrow> 'w \<Rightarrow>
       bool list \<times> ('f embedded_tasks, 'w, 'e) pass_result" where
  "embedded_poll_forever poll observe wait rounds t w =
     (if \<not> 0 < em_len t then ([], Pass_Panicked)
      else embedded_poll_rounds poll observe wait rounds t w)"

section \<open>One pass over a list of futures\<close>

text \<open>What both schedulers do, without slots and arenas.\<close>

fun pass_list :: "('f, 'w, 'e) task_poll \<Rightarrow> bool \<Rightarrow> 'f list \<Rightarrow> 'w \<Rightarrow> ('f list, 'w, 'e) pass_result" where
  "pass_list poll woke [] w = Passed woke [] w"
| "pass_list poll woke (f # fs) w =
     (case poll f w of (res, woke', f', w') \<Rightarrow>
        (case res of
           Some error \<Rightarrow> Task_Failed error (f' # fs) w'
         | None \<Rightarrow>
             (case pass_list poll (woke \<or> woke') fs w' of
                Passed b fs' w'' \<Rightarrow> Passed b (f' # fs') w''
              | Task_Failed error fs' w'' \<Rightarrow> Task_Failed error (f' # fs') w''
              | Pass_Panicked \<Rightarrow> Pass_Panicked)))"

lemma pass_list_length:
  "pass_list poll b fs w = Passed b' fs' w' \<Longrightarrow> length fs' = length fs \<and> (b \<longrightarrow> b')"
  "pass_list poll b fs w \<noteq> Pass_Panicked"
proof (induction fs arbitrary: b w b' fs' w')
  case (Cons f fs)
  {
    case 1
    then show ?case
      using Cons(1) by (fastforce split: prod.splits option.splits pass_result.splits)
  next
    case 2
    then show ?case using Cons(2) by (auto split: prod.splits option.splits pass_result.splits)
  }
qed simp_all

text \<open>A scheduler with its tasks as a list: the contract of both of them.\<close>

locale task_scheduler =
  fixes push :: "'f \<Rightarrow> 's \<Rightarrow> 's outcome"
    and pass :: "('f, 'w, 'e) task_poll \<Rightarrow> 's \<Rightarrow> 'w \<Rightarrow> ('s, 'w, 'e) pass_result"
    and tasks :: "'s \<Rightarrow> 'f list"
    and inv :: "'s \<Rightarrow> bool"
    and fits :: "'f \<Rightarrow> bool"
    and capacity :: nat
  assumes push_room: "inv s \<Longrightarrow> fits f \<Longrightarrow> length (tasks s) < capacity \<Longrightarrow>
      \<exists>s'. push f s = Done s' \<and> inv s' \<and> tasks s' = tasks s @ [f]"
    and push_refused: "inv s \<Longrightarrow> \<not> (fits f \<and> length (tasks s) < capacity) \<Longrightarrow> push f s = Panic"
    and pass_tasks: "inv s \<Longrightarrow>
      (case pass_list poll False (tasks s) w of
         Passed b fs w' \<Rightarrow> \<exists>s'. pass poll s w = Passed b s' w' \<and> inv s' \<and> tasks s' = fs
       | Task_Failed error fs w' \<Rightarrow> \<exists>s'. pass poll s w = Task_Failed error s' w' \<and> inv s' \<and> tasks s' = fs
       | Pass_Panicked \<Rightarrow> False)"
begin

fun push_all :: "'f list \<Rightarrow> 's \<Rightarrow> 's outcome" where
  "push_all [] s = Done s"
| "push_all (f # fs) s = bind_outcome (push f s) (push_all fs)"

lemma push_all_iff:
  assumes "inv s" "length (tasks s) \<le> capacity"
  shows "(if (\<forall>f \<in> set fs. fits f) \<and> length (tasks s) + length fs \<le> capacity
    then \<exists>s'. push_all fs s = Done s' \<and> inv s' \<and> tasks s' = tasks s @ fs
    else push_all fs s = Panic)"
  using assms
proof (induction fs arbitrary: s)
  case (Cons f fs)
  show ?case
  proof (cases "fits f \<and> length (tasks s) < capacity")
    case True
    with push_room [OF Cons.prems(1)] obtain s' where
      s': "push f s = Done s'" "inv s'" "tasks s' = tasks s @ [f]" by blast
    have "length (tasks s') \<le> capacity" using True s'(3) by simp
    from Cons.IH [OF s'(2) this] s' True show ?thesis by auto
  next
    case False
    with push_refused [OF Cons.prems(1) False] show ?thesis by auto
  qed
qed simp

text \<open>A pass polls every task once, in the order the tasks were pushed.\<close>

lemma pushed_pass:
  assumes "inv s" "tasks s = []" "push_all fs s = Done s'"
  shows "case pass_list poll False fs w of
         Passed b fs' w' \<Rightarrow> \<exists>s''. pass poll s' w = Passed b s'' w' \<and> inv s'' \<and> tasks s'' = fs'
       | Task_Failed error fs' w' \<Rightarrow>
           \<exists>s''. pass poll s' w = Task_Failed error s'' w' \<and> inv s'' \<and> tasks s'' = fs'
       | Pass_Panicked \<Rightarrow> False"
proof -
  have "inv s'" "tasks s' = fs"
    using push_all_iff [OF assms(1), of fs] assms(2,3) by (auto split: if_splits)
  with pass_tasks show ?thesis by blast
qed

end

section \<open>Both schedulers keep the contract\<close>

definition hosted_tasks :: "'f scheduled_tasks \<Rightarrow> 'f list" where
  "hosted_tasks t = map (\<lambda>s. the (ts_future s)) (take (sd_len t) (sd_slots t))"

definition hosted_inv :: "'f scheduled_tasks \<Rightarrow> bool" where
  "hosted_inv t \<longleftrightarrow> length (sd_slots t) = 16 \<and> sd_len t \<le> 16
     \<and> (\<forall>i < sd_len t. ts_active (sd_slots t ! i) \<and> (\<exists>f. ts_future (sd_slots t ! i) = Some f))
     \<and> (\<forall>i < 16. sd_len t \<le> i \<longrightarrow> \<not> ts_active (sd_slots t ! i))"

definition hosted_fits :: "('f \<Rightarrow> nat) \<Rightarrow> ('f \<Rightarrow> nat) \<Rightarrow> 'f \<Rightarrow> bool" where
  "hosted_fits size_of align_of f \<longleftrightarrow> size_of f \<le> 8192 \<and> align_of f \<le> 16"

lemma hosted_new: "hosted_inv scheduled_tasks_new" "hosted_tasks scheduled_tasks_new = []"
  by (simp_all add: hosted_inv_def scheduled_tasks_new_def task_slot_empty_def hosted_tasks_def)

lemma tasks_push_room:
  assumes "hosted_inv t" "hosted_fits sz al f" "length (hosted_tasks t) < 16"
  shows "\<exists>t'. tasks_push sz al f t = Done t' \<and> hosted_inv t' \<and> hosted_tasks t' = hosted_tasks t @ [f]"
proof -
  have len: "sd_len t < 16" "length (sd_slots t) = 16"
    using assms(1,3) by (auto simp: hosted_inv_def hosted_tasks_def)
  let ?slot = "(sd_slots t ! sd_len t)\<lparr>ts_future := Some f, ts_active := True\<rparr>"
  let ?t = "t\<lparr>sd_slots := (sd_slots t)[sd_len t := ?slot], sd_len := sd_len t + 1\<rparr>"
  have "\<not> ts_active (sd_slots t ! sd_len t)" using assms(1) len by (auto simp: hosted_inv_def)
  then have "tasks_push sz al f t = Done ?t"
    using len assms(2) by (simp add: tasks_push_def slot_push_def hosted_fits_def)
  moreover have "hosted_inv ?t"
    using assms(1) len by (auto simp: hosted_inv_def nth_list_update less_Suc_eq)
  moreover have "hosted_tasks ?t = hosted_tasks t @ [f]"
    using len by (simp add: hosted_tasks_def take_Suc_conv_app_nth)
  ultimately show ?thesis by blast
qed

lemma poll_pass_refines:
  assumes "hosted_inv t" "i \<le> sd_len t"
  shows "case pass_list poll b (drop i (hosted_tasks t)) w of
      Passed b' fs w' \<Rightarrow> \<exists>t'. poll_pass poll i b t w = Passed b' t' w' \<and> hosted_inv t'
        \<and> hosted_tasks t' = take i (hosted_tasks t) @ fs
    | Task_Failed error fs w' \<Rightarrow> \<exists>t'. poll_pass poll i b t w = Task_Failed error t' w' \<and> hosted_inv t'
        \<and> hosted_tasks t' = take i (hosted_tasks t) @ fs
    | Pass_Panicked \<Rightarrow> False"
  using assms
proof (induction poll i b t w rule: poll_pass.induct)
  case (1 poll i b t w)
  have len: "length (hosted_tasks t) = sd_len t" "length (sd_slots t) = 16" "sd_len t \<le> 16"
    using 1(2) by (auto simp: hosted_inv_def hosted_tasks_def)
  show ?case
  proof (cases "i < sd_len t")
    case False
    then show ?thesis using 1(2,3) len by (subst poll_pass.simps) simp
  next
    case True
    define f where "f = hosted_tasks t ! i"
    have slot: "ts_active (sd_slots t ! i)" "ts_future (sd_slots t ! i) = Some f"
      using 1(2) True len by (auto simp: hosted_inv_def hosted_tasks_def f_def)
    obtain res b1 f1 w1 where p: "poll f w = (res, b1, f1, w1)" by (metis prod_cases4)
    define t1 where "t1 = t\<lparr>sd_slots := (sd_slots t)[i := (sd_slots t ! i)\<lparr>ts_future := Some f1\<rparr>]\<rparr>"
    have t1: "hosted_inv t1" "sd_len t1 = sd_len t"
      using 1(2) slot len True by (auto simp: hosted_inv_def t1_def nth_list_update)
    have ht1: "hosted_tasks t1 = (hosted_tasks t)[i := f1]"
      using True len by (simp add: hosted_tasks_def t1_def take_update_swap map_update)
    have d: "drop i (hosted_tasks t) = f # drop (Suc i) (hosted_tasks t)"
      using True len by (simp add: f_def Cons_nth_drop_Suc)
    have d1: "drop (Suc i) (hosted_tasks t1) = drop (Suc i) (hosted_tasks t)"
      "take (Suc i) (hosted_tasks t1) = take i (hosted_tasks t) @ [f1]"
      using True len by (simp_all add: ht1 take_Suc_conv_app_nth)
    have sp: "slot_poll poll (sd_slots t ! i) w
        = Done (res, b1, (sd_slots t ! i)\<lparr>ts_future := Some f1\<rparr>, w1)"
      using slot p by (simp add: slot_poll_def)
    show ?thesis
    proof (cases res)
      case (Some e)
      have "hosted_tasks t1 = take i (hosted_tasks t) @ f1 # drop (Suc i) (hosted_tasks t)"
        using True len by (simp add: ht1 upd_conv_take_nth_drop)
      then show ?thesis
        using Some True sp t1 p
        by (subst poll_pass.simps) (simp add: d Let_def t1_def [symmetric])
    next
      case None
      have le: "i + 1 \<le> sd_len t1" using True t1 by simp
      have step: "poll_pass poll i b t w = poll_pass poll (Suc i) (b \<or> b1) t1 w1"
        using None True sp p
        by (subst poll_pass.simps) (simp add: Let_def t1_def [symmetric])
      from 1(1) [OF True sp refl refl refl t1_def None t1(1) le]
      show ?thesis
        using None p unfolding step by (auto simp: d d1 split: pass_result.splits)
    qed
  qed
qed

interpretation hosted: task_scheduler "tasks_push sz al" "\<lambda>poll. poll_pass poll 0 False"
  hosted_tasks hosted_inv "hosted_fits sz al" 16 for sz al
proof (unfold_locales, goal_cases)
  case (1 s f)
  then show ?case by (rule tasks_push_room)
next
  case (2 s f)
  then have "sd_len s = 16 \<or> \<not> hosted_fits sz al f" by (auto simp: hosted_inv_def hosted_tasks_def)
  then show ?case
    using 2(1) by (auto simp: tasks_push_def slot_push_def hosted_fits_def hosted_inv_def)
next
  case (3 s poll w)
  then show ?case
    using poll_pass_refines [of s 0 poll False w] by (simp split: pass_result.splits)
qed

definition embedded_futures :: "'f embedded_tasks \<Rightarrow> 'f list" where
  "embedded_futures t = map the (take (em_len t) (em_arena t))"

definition embedded_inv :: "'f embedded_tasks \<Rightarrow> bool" where
  "embedded_inv t \<longleftrightarrow> em_total_bytes t = 16384 \<and> length (em_arena t) = 4 \<and> length (em_polls t) = 4
     \<and> em_len t \<le> 4 \<and> (\<forall>i < em_len t. em_polls t ! i \<and> (\<exists>f. em_arena t ! i = Some f))"

definition embedded_fits :: "('f \<Rightarrow> nat) \<Rightarrow> ('f \<Rightarrow> nat) \<Rightarrow> 'f \<Rightarrow> bool" where
  "embedded_fits size_of align_of f \<longleftrightarrow> size_of f \<le> 4096 \<and> align_of f \<le> 16"

lemma embedded_new: "embedded_inv (embedded_tasks_new APPKIT_EMBEDDED_FUTURE_BYTES)"
  "embedded_futures (embedded_tasks_new APPKIT_EMBEDDED_FUTURE_BYTES) = []"
  by (simp_all add: embedded_inv_def embedded_tasks_new_def embedded_futures_def)

lemma embedded_offset [simp]:
  "embedded_inv t \<Longrightarrow> i < 4 \<Longrightarrow> embedded_slot_offset t i = Done (i * 4096)"
  by (simp add: embedded_slot_offset_def embedded_inv_def)

lemma embedded_push_room:
  assumes "embedded_inv t" "embedded_fits sz al f" "length (embedded_futures t) < 4"
  shows "\<exists>t'. embedded_push sz al f t = Done t' \<and> embedded_inv t'
    \<and> embedded_futures t' = embedded_futures t @ [f]"
proof -
  have len: "em_len t < 4" "length (em_arena t) = 4" "length (em_polls t) = 4"
    using assms(1,3) by (auto simp: embedded_inv_def embedded_futures_def)
  let ?t = "t\<lparr>em_arena := (em_arena t)[em_len t := Some f], em_polls := (em_polls t)[em_len t := True],
      em_len := em_len t + 1\<rparr>"
  have "embedded_push sz al f t = Done ?t"
    using assms(1,2) len by (simp add: embedded_push_def embedded_fits_def)
  moreover have "embedded_inv ?t"
    using assms(1) len by (auto simp: embedded_inv_def nth_list_update less_Suc_eq)
  moreover have "embedded_futures ?t = embedded_futures t @ [f]"
    using len by (simp add: embedded_futures_def take_Suc_conv_app_nth)
  ultimately show ?thesis by blast
qed

lemma embedded_poll_refines:
  assumes "embedded_inv t" "i \<le> em_len t"
  shows "case pass_list poll b (drop i (embedded_futures t)) w of
      Passed b' fs w' \<Rightarrow> \<exists>t'. embedded_poll_once poll i b t w = Passed b' t' w' \<and> embedded_inv t'
        \<and> embedded_futures t' = take i (embedded_futures t) @ fs
    | Task_Failed error fs w' \<Rightarrow> \<exists>t'. embedded_poll_once poll i b t w = Task_Failed error t' w'
        \<and> embedded_inv t' \<and> embedded_futures t' = take i (embedded_futures t) @ fs
    | Pass_Panicked \<Rightarrow> False"
  using assms
proof (induction poll i b t w rule: embedded_poll_once.induct)
  case (1 poll i b t w)
  have len: "length (embedded_futures t) = em_len t" "length (em_arena t) = 4" "em_len t \<le> 4"
    using 1(2) by (auto simp: embedded_inv_def embedded_futures_def)
  show ?case
  proof (cases "i < em_len t")
    case False
    then show ?thesis using 1(2,3) len by (subst embedded_poll_once.simps) simp
  next
    case True
    define f where "f = embedded_futures t ! i"
    have slot: "em_polls t ! i" "em_arena t ! i = Some f"
      using 1(2) True len by (auto simp: embedded_inv_def embedded_futures_def f_def)
    obtain res b1 f1 w1 where p: "poll f w = (res, b1, f1, w1)" by (metis prod_cases4)
    define t1 where "t1 = t\<lparr>em_arena := (em_arena t)[i := Some f1]\<rparr>"
    have t1: "embedded_inv t1" "em_len t1 = em_len t"
      using 1(2) slot len True by (auto simp: embedded_inv_def t1_def nth_list_update)
    have ht1: "embedded_futures t1 = (embedded_futures t)[i := f1]"
      using True len by (simp add: embedded_futures_def t1_def take_update_swap map_update)
    have d: "drop i (embedded_futures t) = f # drop (Suc i) (embedded_futures t)"
      using True len by (simp add: f_def Cons_nth_drop_Suc)
    have d1: "drop (Suc i) (embedded_futures t1) = drop (Suc i) (embedded_futures t)"
      "take (Suc i) (embedded_futures t1) = take i (embedded_futures t) @ [f1]"
      using True len by (simp_all add: ht1 take_Suc_conv_app_nth)
    have i4: "i < 4" using True len by simp
    note off = embedded_offset [OF 1(2) i4]
    have "i * 4096 div APPKIT_EMBEDDED_ROLE_FUTURE_BYTES = i" by simp
    then have slot': "em_arena t ! (i * 4096 div APPKIT_EMBEDDED_ROLE_FUTURE_BYTES) = Some f"
      and t1': "t1 = t\<lparr>em_arena := (em_arena t)[i * 4096 div APPKIT_EMBEDDED_ROLE_FUTURE_BYTES := Some f1]\<rparr>"
      using slot by (simp_all add: t1_def)
    show ?thesis
    proof (cases res)
      case (Some e)
      have "embedded_futures t1 = take i (embedded_futures t) @ f1 # drop (Suc i) (embedded_futures t)"
        using True len by (simp add: ht1 upd_conv_take_nth_drop)
      then show ?thesis
        using Some True slot off t1 p
        by (subst embedded_poll_once.simps) (simp add: d Let_def t1_def [symmetric])
    next
      case None
      have le: "i + 1 \<le> em_len t1" using True t1 by simp
      have np: "\<not> \<not> em_polls t ! i" using slot by simp
      have step: "embedded_poll_once poll i b t w = embedded_poll_once poll (Suc i) (b \<or> b1) t1 w1"
        using None True slot off p
        by (subst embedded_poll_once.simps) (simp add: Let_def t1_def [symmetric])
      from 1(1) [OF True np off slot' p [symmetric] refl refl t1' None t1(1) le]
      show ?thesis
        using None p unfolding step by (auto simp: d d1 split: pass_result.splits)
    qed
  qed
qed

interpretation embedded: task_scheduler "embedded_push sz al" "\<lambda>poll. embedded_poll_once poll 0 False"
  embedded_futures embedded_inv "embedded_fits sz al" 4 for sz al
proof (unfold_locales, goal_cases)
  case (1 s f)
  then show ?case by (rule embedded_push_room)
next
  case (2 s f)
  then have "em_len s = 4 \<or> \<not> embedded_fits sz al f" by (auto simp: embedded_inv_def embedded_futures_def)
  then show ?case
    using 2(1) by (auto simp: embedded_push_def embedded_fits_def embedded_inv_def)
next
  case (3 s poll w)
  then show ?case
    using embedded_poll_refines [of s 0 poll False w] by (simp split: pass_result.splits)
qed

section \<open>Runs of the hosted scheduler\<close>

text \<open>The loop on a list of futures.\<close>

partial_function (option) quiesce_list ::
    "('f, 'w, 'e) task_poll \<Rightarrow> ('w \<Rightarrow> 'w) \<Rightarrow> 'f list \<Rightarrow> 'w \<Rightarrow> ('f list, 'w, 'e) run_end option" where
  "quiesce_list poll observe fs w =
     (case pass_list poll False fs w of
        Passed woke fs w \<Rightarrow>
          if woke then quiesce_list poll observe fs (observe w) else Some (Quiescent fs (observe w))
      | Task_Failed error fs w \<Rightarrow> Some (Task_Panic error (observe w))
      | Pass_Panicked \<Rightarrow> Some Slot_Panic)"

fun end_tasks :: "('f scheduled_tasks, 'w, 'e) run_end \<Rightarrow> ('f list, 'w, 'e) run_end" where
  "end_tasks (Quiescent t w) = Quiescent (hosted_tasks t) w"
| "end_tasks (Task_Panic error w) = Task_Panic error w"
| "end_tasks Slot_Panic = Slot_Panic"

fun end_ok :: "('f scheduled_tasks, 'w, 'e) run_end \<Rightarrow> bool" where
  "end_ok (Quiescent t w) = hosted_inv t"
| "end_ok (Task_Panic error w) = True"
| "end_ok Slot_Panic = False"

lemma quiescent_pass:
  assumes "hosted_inv t"
  shows "case pass_list poll False (hosted_tasks t) w of
      Passed b fs w' \<Rightarrow> \<exists>t'. poll_pass poll 0 False t w = Passed b t' w' \<and> hosted_inv t' \<and> hosted_tasks t' = fs
    | Task_Failed error fs w' \<Rightarrow> \<exists>t'. poll_pass poll 0 False t w = Task_Failed error t' w'
    | Pass_Panicked \<Rightarrow> False"
  using hosted.pass_tasks [OF assms, of poll w] by (auto split: pass_result.splits)

lemma quiescent_sound:
  assumes "poll_until_quiescent poll observe t w = Some r" "hosted_inv t"
  shows "end_ok r \<and> quiesce_list poll observe (hosted_tasks t) w = Some (end_tasks r)"
proof -
  let ?P = "\<lambda>poll observe t w r. hosted_inv t \<longrightarrow>
         end_ok r \<and> quiesce_list poll observe (hosted_tasks t) w = Some (end_tasks r)"
  have "?P poll observe t w r"
  proof (rule poll_until_quiescent.raw_induct [where P = ?P], goal_cases)
    case (1 run poll observe t w r)
    show ?case
    proof
      assume inv: "hosted_inv t"
      note p = quiescent_pass [OF inv, of poll w]
      show "end_ok r \<and> quiesce_list poll observe (hosted_tasks t) w = Some (end_tasks r)"
      proof (cases "pass_list poll False (hosted_tasks t) w")
        case (Passed b fs w1)
        with p obtain t1 where t1: "poll_pass poll 0 False t w = Passed b t1 w1" "hosted_inv t1"
          "hosted_tasks t1 = fs" by auto
        show ?thesis
        proof (cases b)
          case True
          with 1(2) t1 have "run poll observe t1 (observe w1) = Some r" by simp
          from 1(1) [OF this] t1 True Passed show ?thesis
            by (subst quiesce_list.simps) simp
        next
          case False
          with 1(2) t1 Passed show ?thesis by (subst quiesce_list.simps) auto
        qed
      next
        case (Task_Failed error fs w1)
        with p 1(2) show ?thesis by (subst quiesce_list.simps) auto
      next
        case Pass_Panicked
        with p show ?thesis by simp
      qed
    qed
  qed (rule assms(1))
  with assms(2) show ?thesis by simp
qed

text \<open>A hosted run ends when the wake-ups of its tasks are bounded.\<close>

lemma pass_list_budget:
  fixes budget :: "'f \<Rightarrow> nat"
  assumes "\<And>f w res b f' w'. poll f w = (res, b, f', w') \<Longrightarrow> budget f' \<le> budget f \<and> (b \<longrightarrow> budget f' < budget f)"
    and "pass_list poll b fs w = Passed b' fs' w'"
  shows "sum_list (map budget fs') \<le> sum_list (map budget fs)
    \<and> (\<not> b \<longrightarrow> b' \<longrightarrow> sum_list (map budget fs') < sum_list (map budget fs))"
  using assms(2)
proof (induction fs arbitrary: b w fs')
  case (Cons f fs)
  obtain res b1 f1 w1 where p: "poll f w = (res, b1, f1, w1)" by (metis prod_cases4)
  with Cons.prems obtain fs1 where q: "pass_list poll (b \<or> b1) fs w1 = Passed b' fs1 w'" "fs' = f1 # fs1"
    by (auto split: option.splits pass_result.splits)
  from assms(1) [OF p] Cons.IH [OF q(1)] show ?case
    unfolding q(2) by (cases b1) auto
qed simp

lemma quiescent_total:
  fixes budget :: "'f \<Rightarrow> nat"
  assumes budget: "\<And>f w res b f' w'. poll f w = (res, b, f', w') \<Longrightarrow>
      budget f' \<le> budget f \<and> (b \<longrightarrow> budget f' < budget f)"
    and "hosted_inv t"
  shows "\<exists>r. poll_until_quiescent poll observe t w = Some r"
  using assms(2)
proof (induction "sum_list (map budget (hosted_tasks t))" arbitrary: t w rule: less_induct)
  case less
  note p = quiescent_pass [OF less.prems, of poll w]
  show ?case
  proof (cases "pass_list poll False (hosted_tasks t) w")
    case (Passed b fs w1)
    with p obtain t1 where t1: "poll_pass poll 0 False t w = Passed b t1 w1" "hosted_inv t1"
      "hosted_tasks t1 = fs" by auto
    show ?thesis
    proof (cases b)
      case True
      have "sum_list (map budget (hosted_tasks t1)) < sum_list (map budget (hosted_tasks t))"
        using pass_list_budget [OF budget Passed] True t1(3) by simp
      from less.hyps [OF this t1(2), of "observe w1"] t1 True show ?thesis
        by (subst poll_until_quiescent.simps) simp
    next
      case False
      then show ?thesis using t1 by (subst poll_until_quiescent.simps) simp
    qed
  next
    case (Task_Failed error fs w1)
    with p show ?thesis by (subst poll_until_quiescent.simps) auto
  next
    case Pass_Panicked
    with p show ?thesis by simp
  qed
qed

lemma drop_slots_spec:
  assumes "n + i \<le> length slots"
    and "\<forall>j < n. ts_active (slots ! (i + j)) \<and> (\<exists>f. ts_future (slots ! (i + j)) = Some f)"
  shows "snd (drop_slots n i slots) = map (\<lambda>s. the (ts_future s)) (take n (drop i slots))
    \<and> length (fst (drop_slots n i slots)) = length slots
    \<and> (\<forall>k < length slots. fst (drop_slots n i slots) ! k
         = (if i \<le> k \<and> k < i + n then (slots ! k)\<lparr>ts_future := None, ts_active := False\<rparr> else slots ! k))"
  using assms
proof (induction n arbitrary: i slots)
  case (Suc n)
  let ?s = "(slots ! i)\<lparr>ts_future := None, ts_active := False\<rparr>"
  from Suc.prems(2) have z: "ts_active (slots ! i)" and f: "\<exists>f. ts_future (slots ! i) = Some f"
    using spec [of _ 0] by fastforce+
  from f obtain f where f: "ts_future (slots ! i) = Some f" by blast
  have "\<forall>j < n. ts_active (slots[i := ?s] ! (i + 1 + j))
      \<and> (\<exists>f. ts_future (slots[i := ?s] ! (i + 1 + j)) = Some f)"
    using Suc.prems(2) by (auto dest: spec [of _ "Suc _"])
  with Suc.IH [of "i + 1" "slots[i := ?s]"] Suc.prems(1) have IH:
    "snd (drop_slots n (i + 1) (slots[i := ?s]))
      = map (\<lambda>s. the (ts_future s)) (take n (drop (i + 1) (slots[i := ?s])))"
    "length (fst (drop_slots n (i + 1) (slots[i := ?s]))) = length slots"
    "\<forall>k < length slots. fst (drop_slots n (i + 1) (slots[i := ?s])) ! k
         = (if i + 1 \<le> k \<and> k < i + 1 + n
            then (slots[i := ?s] ! k)\<lparr>ts_future := None, ts_active := False\<rparr> else slots[i := ?s] ! k)"
    by simp_all
  have "take (Suc n) (drop i slots) = slots ! i # take n (drop (i + 1) slots)"
    using Suc.prems(1) by (simp add: Cons_nth_drop_Suc [symmetric])
  moreover obtain x1 x2 where x: "drop_slots n (i + 1) (slots[i := ?s]) = (x1, x2)"
    by (metis surj_pair)
  moreover have "x1 ! k = (if i \<le> k \<and> k < i + Suc n
      then (slots ! k)\<lparr>ts_future := None, ts_active := False\<rparr> else slots ! k)"
    if "k < length slots" for k
    using IH(3) x that Suc.prems(1) by (cases "k = i") auto
  ultimately show ?case
    using IH z f by (simp add: slot_drop_active_def)
qed auto

lemma tasks_drop_spec:
  assumes "hosted_inv t"
  shows "snd (tasks_drop t) = hosted_tasks t \<and> (\<forall>s \<in> set (sd_slots (fst (tasks_drop t))). \<not> ts_active s)"
proof -
  have inv: "length (sd_slots t) = 16" "sd_len t \<le> 16"
    "\<forall>j < sd_len t. ts_active (sd_slots t ! j) \<and> (\<exists>f. ts_future (sd_slots t ! j) = Some f)"
    "\<forall>i < 16. sd_len t \<le> i \<longrightarrow> \<not> ts_active (sd_slots t ! i)"
    using assms by (auto simp: hosted_inv_def)
  then have d: "snd (drop_slots (sd_len t) 0 (sd_slots t)) = hosted_tasks t"
      "length (fst (drop_slots (sd_len t) 0 (sd_slots t))) = 16"
      "k < 16 \<Longrightarrow> fst (drop_slots (sd_len t) 0 (sd_slots t)) ! k = (if k < sd_len t
         then (sd_slots t ! k)\<lparr>ts_future := None, ts_active := False\<rparr> else sd_slots t ! k)" for k
    using drop_slots_spec [of "sd_len t" 0 "sd_slots t"] by (simp_all add: hosted_tasks_def)
  have "\<not> ts_active (fst (drop_slots (sd_len t) 0 (sd_slots t)) ! k)" if "k < 16" for k
    using d(3) [OF that] inv(4) that by (cases "k < sd_len t") auto
  with d(1,2) show ?thesis
    by (auto simp: tasks_drop_def in_set_conv_nth split: prod.split)
qed

section \<open>Runs of the embedded scheduler\<close>

fun rounds_list ::
    "('f, 'w, 'e) task_poll \<Rightarrow> ('w \<Rightarrow> 'w) \<Rightarrow> ('w \<Rightarrow> 'w) \<Rightarrow> nat \<Rightarrow> 'f list \<Rightarrow> 'w \<Rightarrow>
       bool list \<times> ('f list, 'w, 'e) pass_result" where
  "rounds_list poll observe wait 0 fs w = ([], Passed False fs w)"
| "rounds_list poll observe wait (Suc n) fs w =
     (case pass_list poll False fs w of
        Passed woke fs w \<Rightarrow>
          apfst (Cons (\<not> woke))
            (rounds_list poll observe wait n fs (if woke then observe w else wait (observe w)))
      | r \<Rightarrow> ([], r))"

fun pass_tasks :: "('f embedded_tasks, 'w, 'e) pass_result \<Rightarrow> ('f list, 'w, 'e) pass_result" where
  "pass_tasks (Passed b t w) = Passed b (embedded_futures t) w"
| "pass_tasks (Task_Failed error t w) = Task_Failed error (embedded_futures t) w"
| "pass_tasks Pass_Panicked = Pass_Panicked"

lemma embedded_rounds_refine:
  assumes "embedded_inv t"
  shows "apsnd pass_tasks (embedded_poll_rounds poll observe wait n t w)
    = rounds_list poll observe wait n (embedded_futures t) w"
  using assms
proof (induction n arbitrary: t w)
  case (Suc n)
  note p = embedded.pass_tasks [OF Suc.prems, of poll w]
  show ?case
  proof (cases "pass_list poll False (embedded_futures t) w")
    case (Passed b fs w1)
    with p obtain t1 where t1: "embedded_poll_once poll 0 False t w = Passed b t1 w1" "embedded_inv t1"
      "embedded_futures t1 = fs" by auto
    have "apsnd pass_tasks (apfst f x) = apfst f (apsnd pass_tasks x)" for f x
      by (cases x) simp
    note apfst_apsnd [simp] = this
    have IH: "rounds_list poll observe wait n fs w2
        = apsnd pass_tasks (embedded_poll_rounds poll observe wait n t1 w2)" for w2
      using Suc.IH [OF t1(2)] t1(3) by simp
    show ?thesis using t1 Passed IH by (cases b) simp_all
  qed (use p in auto)
qed simp

section \<open>Properties\<close>

text \<open>The hosted scheduler, with its slots and arenas, runs exactly like the plain loop over the
  list of its tasks: each pass polls every task once in the order they were pushed and stops at the
  first error, passes repeat while a task raised the flag, and no slot is ever polled in a wrong
  state. When it returns, the last pass found every task pending and none raised the flag.\<close>

theorem hosted_run_refines:
  assumes "hosted_inv t" and "poll_until_quiescent poll observe t w = Some r"
  shows "quiesce_list poll observe (hosted_tasks t) w = Some (end_tasks r) \<and> r \<noteq> Slot_Panic
    \<and> (\<forall>t' w'. r = Quiescent t' w' \<longrightarrow> hosted_inv t'
        \<and> (\<exists>fs w0 w1. pass_list poll False fs w0 = Passed False (hosted_tasks t') w1 \<and> w' = observe w1))"
proof -
  have last: "\<exists>fs w0 w1. pass_list poll False fs w0 = Passed False fs' w1 \<and> w' = observe w1"
    if "quiesce_list poll observe fs w = Some (Quiescent fs' w')" for fs fs' w w'
  proof -
    let ?P = "\<lambda>poll observe fs w r. \<forall>fs' w'. r = Quiescent fs' w' \<longrightarrow>
      (\<exists>fs w0 w1. pass_list poll False fs w0 = Passed False fs' w1 \<and> w' = observe w1)"
    have "?P poll observe fs w r" if "quiesce_list poll observe fs w = Some r" for r
    proof (rule quiesce_list.raw_induct [where P = ?P], goal_cases)
      case (1 run poll observe fs w r)
      then show ?case by (fastforce split: pass_result.splits if_splits)
    qed (rule that)
    from this [OF that] show ?thesis by blast
  qed
  note q = quiescent_sound [OF assms(2,1)]
  then have "r \<noteq> Slot_Panic" by auto
  moreover have "hosted_inv t' \<and> (\<exists>fs w0 w1. pass_list poll False fs w0
      = Passed False (hosted_tasks t') w1 \<and> w' = observe w1)" if "r = Quiescent t' w'" for t' w'
    using q last [of "hosted_tasks t" w "hosted_tasks t'" w'] that by simp
  ultimately show ?thesis using q by blast
qed

text \<open>A task that counts down, waking itself until it is at zero.\<close>

fun countdown_poll :: "(nat, nat, unit) task_poll" where
  "countdown_poll 0 w = (None, False, 0, w + 1)"
| "countdown_poll (Suc n) w = (None, True, n, w + 1)"

definition countdown_tasks :: "nat scheduled_tasks" where
  "countdown_tasks = \<lparr>sd_slots = [\<lparr>ts_future = Some 1, ts_active = True\<rparr>,
     \<lparr>ts_future = Some 2, ts_active = True\<rparr>] @ replicate 14 task_slot_empty, sd_len = 2\<rparr>"

lemma countdown_tasks: "hosted_inv countdown_tasks" "hosted_tasks countdown_tasks = [1, 2]"
proof -
  have "length (replicate 14 (task_slot_empty :: nat task_slot)) = 14" by simp
  moreover have "\<not> ts_active (([\<lparr>ts_future = Some 1, ts_active = True\<rparr>,
      \<lparr>ts_future = Some 2, ts_active = True\<rparr>] @ replicate 14 (task_slot_empty :: nat task_slot)) ! i)"
    if "i < 16" "2 \<le> i" for i
    using that by (simp add: nth_append task_slot_empty_def)
  ultimately show "hosted_inv countdown_tasks"
    by (auto simp: hosted_inv_def countdown_tasks_def less_Suc_eq numeral_2_eq_2)
  show "hosted_tasks countdown_tasks = [1, 2]"
    by (simp add: hosted_tasks_def countdown_tasks_def)
qed

lemma countdown_budget:
  "countdown_poll f w = (res, b, f', w') \<Longrightarrow> f' \<le> f \<and> (b \<longrightarrow> f' < f)"
  by (cases f) auto

lemma countdown_list: "quiesce_list countdown_poll id [1, 2] 0 = Some (Quiescent [0, 0] 6)"
  by (simp add: quiesce_list.simps numeral_2_eq_2)

theorem hosted_run_refines_witness:
  "\<exists>t'. poll_until_quiescent countdown_poll id countdown_tasks 0 = Some (Quiescent t' 6)
    \<and> hosted_tasks t' = [0, 0] \<and> hosted_inv t'"
proof -
  obtain r where r: "poll_until_quiescent countdown_poll id countdown_tasks 0 = Some r"
    using quiescent_total [where poll = countdown_poll and budget = "\<lambda>n. n" and observe = id,
      OF _ countdown_tasks(1)] countdown_budget by blast
  from hosted_run_refines [OF countdown_tasks(1) r] countdown_list show ?thesis
    by (cases r) (auto simp: r countdown_tasks)
qed

text \<open>C21: the hosted scheduler returns whenever the wake-ups of the tasks are bounded: if every poll
  leaves a task's budget of wake-ups no larger, and smaller when it raises the flag, the loop ends,
  with a result that is not a slot panic.\<close>

theorem hosted_run_terminates:
  fixes budget :: "'f \<Rightarrow> nat"
  assumes "\<And>f w res b f' w'. poll f w = (res, b, f', w') \<Longrightarrow>
      budget f' \<le> budget f \<and> (b \<longrightarrow> budget f' < budget f)"
    and "hosted_inv t"
  shows "\<exists>r. poll_until_quiescent poll observe t w = Some r \<and> r \<noteq> Slot_Panic"
proof -
  have "\<exists>r. poll_until_quiescent poll observe t w = Some r"
    by (rule quiescent_total [where budget = budget]) (rule assms(1), assumption, rule assms(2))
  then obtain r where r: "poll_until_quiescent poll observe t w = Some r" ..
  from quiescent_sound [OF r assms(2)] have "r \<noteq> Slot_Panic" by auto
  with r show ?thesis by blast
qed

theorem hosted_run_terminates_witness:
  "\<exists>r. poll_until_quiescent countdown_poll id countdown_tasks 7 = Some r \<and> r \<noteq> Slot_Panic"
  using hosted_run_terminates [where poll = countdown_poll and budget = "\<lambda>n. n" and observe = id,
    OF _ countdown_tasks(1)] countdown_budget by blast

text \<open>The endless loop of the boards, for any number of rounds, is the plain loop over the list of
  its tasks, and it waits for an event after exactly the rounds in which no task raised the flag;
  its slots are always in bounds and occupied.\<close>

theorem embedded_run_refines:
  assumes "embedded_inv t" "embedded_futures t \<noteq> []"
    and "embedded_poll_forever poll observe wait n t w = (waits, r)"
  shows "rounds_list poll observe wait n (embedded_futures t) w = (waits, pass_tasks r)
    \<and> r \<noteq> Pass_Panicked"
proof -
  have "0 < em_len t" using assms(2) by (auto simp: embedded_futures_def)
  then have R: "rounds_list poll observe wait n (embedded_futures t) w = (waits, pass_tasks r)"
    using assms(3) embedded_rounds_refine [OF assms(1), of poll observe wait n w]
    by (simp add: embedded_poll_forever_def)
  have "snd (rounds_list poll observe wait n fs w) \<noteq> Pass_Panicked" for fs w
    by (induction n arbitrary: fs w) (auto simp: pass_list_length(2) split: pass_result.split)
  with R have "pass_tasks r \<noteq> Pass_Panicked" by (metis snd_conv)
  with R show ?thesis by auto
qed

definition embedded_countdown :: "nat embedded_tasks" where
  "embedded_countdown = \<lparr>em_total_bytes = 16384, em_arena = [Some 1, Some 0, None, None],
     em_polls = [True, True, False, False], em_len = 2\<rparr>"

lemma embedded_countdown: "embedded_inv embedded_countdown" "embedded_futures embedded_countdown = [1, 0]"
  by (auto simp: embedded_inv_def embedded_countdown_def less_Suc_eq numeral_2_eq_2 embedded_futures_def)

theorem embedded_run_refines_witness:
  "fst (embedded_poll_forever countdown_poll id id 3 embedded_countdown 0) = [False, True, True]"
proof -
  obtain waits r where e: "embedded_poll_forever countdown_poll id id 3 embedded_countdown 0 = (waits, r)"
    by (metis surj_pair)
  have "rounds_list countdown_poll id id 3 [1, 0] 0 = ([False, True, True], Passed False [0, 0] 6)"
    by (simp add: numeral_3_eq_3)
  with embedded_run_refines [OF embedded_countdown(1) _ e] e show ?thesis
    by (simp add: embedded_countdown)
qed

text \<open>The state of a blocking engine never overlaps a task: the last slot is handed out only while
  no task occupies it, and it lies behind the slot of every task.\<close>

theorem engine_state_disjoint:
  assumes "embedded_inv t" and "blocking_engine_state state_size state_align t = Done off"
  shows "off + state_size \<le> em_total_bytes t \<and> off mod 16 = 0
    \<and> (\<forall>i < em_len t. \<exists>o'. embedded_slot_offset t i = Done o' \<and> o' + 4096 \<le> off)"
proof -
  have t: "em_len t < 4" "state_size \<le> 4096" "em_total_bytes t = 16384"
    using assms by (auto simp: blocking_engine_state_def embedded_inv_def split: if_splits)
  have off: "off = 12288"
    using assms t embedded_offset [OF assms(1), of 3]
    by (auto simp: blocking_engine_state_def split: if_splits)
  have "\<exists>o'. embedded_slot_offset t i = Done o' \<and> o' + 4096 \<le> off" if "i < em_len t" for i
    using embedded_offset [OF assms(1), of i] that t(1) off by simp
  with t off show ?thesis by auto
qed

theorem engine_state_disjoint_witness:
  "blocking_engine_state 4000 8 embedded_countdown = Done 12288
    \<and> (\<exists>o'. embedded_slot_offset embedded_countdown 1 = Done o' \<and> o' + 4096 \<le> 12288)"
proof -
  have "blocking_engine_state 4000 8 embedded_countdown = Done 12288"
    by (simp add: blocking_engine_state_def embedded_slot_offset_def embedded_countdown_def)
  moreover from engine_state_disjoint [OF embedded_countdown(1) this]
  have "\<exists>o'. embedded_slot_offset embedded_countdown 1 = Done o' \<and> o' + 4096 \<le> 12288"
    by (auto simp: embedded_countdown_def)
  ultimately show ?thesis by blast
qed

end
