(* ===== verification/Wasi_Engine.thy ===== *)
theory Wasi_Engine
  imports Wasi_Imports Appkit_Scheduler
begin

text \<open>
  The engine role of \<open>src/appkit/internal.rs\<close> that runs a WASI guest: the guest arena and its
  lease, \<open>WasiGuestSlot\<close>, \<open>CanonicalWasiEngine\<close> and the hosted driver \<open>drive_wasi_guest\<close> with
  \<open>drive_canonical_wasi_engine\<close> around it. The guest runtime and the endpoint are parameters.
\<close>

section \<open>The guest runtime\<close>

text \<open>
  One resume of the guest ends at a boundary; a pending import or memory growth is a handle \<open>'n\<close>
  that names its request and is completed with the answer. \<open>None\<close> and \<open>False\<close> are the runtime's errors.
\<close>

datatype 'n boundary_step = Import_Pending 'n | Memory_Grow_Pending 'n | Budget_Expired | Guest_Exit

record ('g, 'n, 'p, 'b) wasi_runtime =
  rt_init :: "bytes \<Rightarrow> bytes \<Rightarrow> 'g option"
  rt_resume :: "'b \<Rightarrow> 'g \<Rightarrow> 'n boundary_step option \<times> 'g"
  rt_request :: "'n \<Rightarrow> 'p wasi_request"
  rt_import :: "'n \<Rightarrow> wasi_import"
  rt_complete :: "'n \<Rightarrow> 'p wasi_completion \<Rightarrow> 'g \<Rightarrow> bool \<times> 'g"
  rt_grow_request :: "'n \<Rightarrow> 'p"
  rt_grow_complete :: "'n \<Rightarrow> 'p \<Rightarrow> 'g \<Rightarrow> bool \<times> 'g"

text \<open>
  A poll of the endpoint's send or receive future: its result, whether it raised the wake flag, and
  the endpoint and world it leaves.
\<close>

type_synonym ('p, 'x, 'ep, 'w) ep_send =
  "wasi_msg \<Rightarrow> 'p \<Rightarrow> 'ep \<Rightarrow> 'w \<Rightarrow> ('x + unit) poll \<times> bool \<times> 'ep \<times> 'w"

type_synonym ('p, 'x, 'ep, 'w) ep_recv =
  "wasi_msg \<Rightarrow> 'ep \<Rightarrow> 'w \<Rightarrow> ('x + 'p) poll \<times> bool \<times> 'ep \<times> 'w"

definition send_wasi_import_request ::
    "('p, 'x, 'ep, 'w) ep_send \<Rightarrow> 'p wasi_request \<Rightarrow> 'ep \<Rightarrow> 'w \<Rightarrow> ('x + unit) poll \<times> bool \<times> 'ep \<times> 'w" where
  "send_wasi_import_request send request = send (request_msg (request_variant request)) (request_payload request)"

definition recv_wasi_import_completion ::
    "('p, 'x, 'ep, 'w) ep_recv \<Rightarrow> wasi_import \<Rightarrow> 'ep \<Rightarrow> 'w \<Rightarrow>
       ('x + 'p wasi_completion) poll \<times> bool \<times> 'ep \<times> 'w" where
  "recv_wasi_import_completion recv import ep w =
     (case recv (completion_msg import) ep w of (r, woke, ep, w) \<Rightarrow>
        ((case r of Pending \<Rightarrow> Pending | Ready (Inl error) \<Rightarrow> Ready (Inl error)
          | Ready (Inr payload) \<Rightarrow> Ready (Inr (Completion import payload))), woke, ep, w))"

definition send_memory_grow_request ::
    "('p, 'x, 'ep, 'w) ep_send \<Rightarrow> 'p \<Rightarrow> 'ep \<Rightarrow> 'w \<Rightarrow> ('x + unit) poll \<times> bool \<times> 'ep \<times> 'w" where
  "send_memory_grow_request send request = send MemoryGrowReqMsg request"

definition recv_memory_grow_decision ::
    "('p, 'x, 'ep, 'w) ep_recv \<Rightarrow> 'ep \<Rightarrow> 'w \<Rightarrow> ('x + 'p) poll \<times> bool \<times> 'ep \<times> 'w" where
  "recv_memory_grow_decision recv = recv MemoryGrowRetMsg"

section \<open>Arena, lease and slot\<close>

text \<open>
  The storage bytes hold nothing, a storage that was written uninitialised, or one with a guest in
  it. Dropping a storage that holds nothing, and reaching a guest that is not there, is undefined in
  the source; here it is \<open>Panic\<close>, and is shown not to happen.
\<close>

datatype 'g guest_storage = Raw_Storage | Uninit_Storage | Guest_Storage 'g

record 'g guest_arena =
  ga_storage :: "'g guest_storage"
  ga_memory :: bytes
  ga_occupied :: bool

definition APPKIT_WASI_GUEST_ARENA_ALIGN :: nat where [simp]: "APPKIT_WASI_GUEST_ARENA_ALIGN = 16"

definition guest_arena_empty :: "nat \<Rightarrow> 'g guest_arena" where
  "guest_arena_empty memory_bytes =
     \<lparr>ga_storage = Raw_Storage, ga_memory = replicate memory_bytes 0, ga_occupied = False\<rparr>"

text \<open>The lease points into the arena and is moved around; there is one value of it per \<open>lease\<close> call.\<close>

datatype guest_lease = Lease

definition guest_arena_lease ::
    "nat \<Rightarrow> 'g guest_arena \<Rightarrow> (guest_lease \<times> 'g guest_arena) outcome" where
  "guest_arena_lease storage_align arena =
     (if \<not> storage_align \<le> APPKIT_WASI_GUEST_ARENA_ALIGN then Panic
      else if ga_occupied arena then Panic
      else Done (Lease, arena\<lparr>ga_occupied := True\<rparr>))"

definition lease_drop :: "guest_lease \<Rightarrow> 'g guest_arena \<Rightarrow> 'g guest_arena" where
  "lease_drop lease arena = arena\<lparr>ga_occupied := False\<rparr>"

definition drop_storage :: "'g guest_arena \<Rightarrow> 'g guest_arena outcome" where
  "drop_storage arena =
     (case ga_storage arena of Raw_Storage \<Rightarrow> Panic | _ \<Rightarrow> Done (arena\<lparr>ga_storage := Raw_Storage\<rparr>))"

record guest_slot =
  gs_lease :: guest_lease
  gs_guest :: bool
  gs_initialized :: bool

definition slot_drop :: "guest_slot \<Rightarrow> 'g guest_arena \<Rightarrow> 'g guest_arena outcome" where
  "slot_drop slot arena =
     (if gs_initialized slot
      then bind_outcome (drop_storage arena) (\<lambda>arena. Done (lease_drop (gs_lease slot) arena))
      else Done arena)"

text \<open>\<open>Inl ()\<close> is \<open>WasiGuestError::rejected\<close>.\<close>

definition slot_init ::
    "('g, 'n, 'p, 'b) wasi_runtime \<Rightarrow> guest_lease \<Rightarrow> bytes \<Rightarrow> 'g guest_arena \<Rightarrow>
       ((unit + guest_slot) \<times> 'g guest_arena) outcome" where
  "slot_init rt lease module arena =
     (let arena = arena\<lparr>ga_storage := Uninit_Storage, ga_memory := map (\<lambda>_. 0) (ga_memory arena)\<rparr>;
          slot = \<lparr>gs_lease = lease, gs_guest = False, gs_initialized = True\<rparr> in
      case rt_init rt module (ga_memory arena) of
        None \<Rightarrow> bind_outcome (slot_drop slot arena) (\<lambda>arena. Done (Inl (), arena))
      | Some guest \<Rightarrow>
          Done (Inr (slot\<lparr>gs_guest := True\<rparr>), arena\<lparr>ga_storage := Guest_Storage guest\<rparr>))"

definition slot_guest :: "guest_slot \<Rightarrow> 'g guest_arena \<Rightarrow> 'g outcome" where
  "slot_guest slot arena =
     (if \<not> gs_initialized slot \<or> \<not> gs_guest slot then Panic
      else case ga_storage arena of Guest_Storage guest \<Rightarrow> Done guest | _ \<Rightarrow> Panic)"

definition put_guest :: "'g \<Rightarrow> 'g guest_arena \<Rightarrow> 'g guest_arena" where
  "put_guest guest arena = arena\<lparr>ga_storage := Guest_Storage guest\<rparr>"

definition slot_finish :: "guest_slot \<Rightarrow> 'g guest_arena \<Rightarrow> (guest_lease \<times> 'g guest_arena) outcome" where
  "slot_finish slot arena =
     (if gs_initialized slot
      then bind_outcome (drop_storage arena) (\<lambda>arena. Done (gs_lease slot, arena))
      else Done (gs_lease slot, arena))"

section \<open>The engine\<close>

text \<open>The engine with the arena its lease points to.\<close>

record ('g, 'ep) wasi_engine =
  we_endpoint :: 'ep
  we_guest_bytes :: "bytes option"
  we_storage :: "guest_lease option"
  we_slot :: "guest_slot option"
  we_arena :: "'g guest_arena"

definition wasi_engine_new ::
    "'ep \<Rightarrow> bytes option \<Rightarrow> guest_lease option \<Rightarrow> 'g guest_arena \<Rightarrow> ('g, 'ep) wasi_engine" where
  "wasi_engine_new endpoint bytes storage arena =
     \<lparr>we_endpoint = endpoint, we_guest_bytes = bytes, we_storage = storage, we_slot = None,
      we_arena = arena\<rparr>"

definition take_wasi_guest_slot ::
    "('g, 'n, 'p, 'b) wasi_runtime \<Rightarrow> ('g, 'ep) wasi_engine \<Rightarrow>
       ((unit + guest_slot) \<times> ('g, 'ep) wasi_engine) outcome" where
  "take_wasi_guest_slot rt e =
     (case we_slot e of
        Some slot \<Rightarrow> Done (Inr slot, e\<lparr>we_slot := None\<rparr>)
      | None \<Rightarrow>
          (case we_guest_bytes e of
             None \<Rightarrow> Done (Inl (), e)
           | Some bytes \<Rightarrow>
               (case we_storage e of
                  None \<Rightarrow> Panic
                | Some lease \<Rightarrow>
                    bind_outcome (slot_init rt lease bytes (we_arena e)) (\<lambda>(r, arena).
                      Done (r, e\<lparr>we_storage := None, we_arena := arena\<rparr>)))))"

text \<open>How a drive of the guest ends: \<open>Result<WasiGuestStatus, WasiGuestError>\<close>.\<close>

datatype guest_result = Drive_Exit | Drive_Budget_Expired | Drive_Rejected

definition store_wasi_guest_slot ::
    "guest_slot \<Rightarrow> guest_result \<Rightarrow> ('g, 'ep) wasi_engine \<Rightarrow> ('g, 'ep) wasi_engine outcome" where
  "store_wasi_guest_slot slot result e =
     (case result of
        Drive_Budget_Expired \<Rightarrow> Done (e\<lparr>we_slot := Some slot\<rparr>)
      | _ \<Rightarrow> bind_outcome (slot_finish slot (we_arena e)) (\<lambda>(lease, arena).
               Done (e\<lparr>we_storage := Some lease, we_arena := arena\<rparr>)))"

section \<open>The hosted driver\<close>

text \<open>
  The async bodies of \<open>drive_wasi_guest\<close> and \<open>drive_canonical_wasi_engine\<close> as a state machine: where
  the body is, with the slot it holds and the pending import it works on.
\<close>

datatype 'n phase =
  Ph_Take
| Ph_Resume guest_slot
| Ph_Send_Request guest_slot 'n
| Ph_Recv_Completion guest_slot 'n
| Ph_Send_Grow guest_slot 'n
| Ph_Recv_Decision guest_slot 'n
| Ph_Pending

text \<open>What the body did at the boundary of the guest and at the endpoint.\<close>

datatype event = Ev_Resumed | Ev_Sent wasi_msg | Ev_Received wasi_msg | Ev_Completed | Ev_Closed

datatype ('n, 'e, 'w) advance =
  Continue "'n phase" 'e 'w
| Suspended "'n phase" bool 'e 'w
| Task_Rejected 'e 'w
| Fault

text \<open>The end of the inner loop: the slot is stored and the outer loop looks at the result.\<close>

definition break_drive ::
    "guest_slot \<Rightarrow> guest_result \<Rightarrow> ('g, 'ep) wasi_engine \<Rightarrow> 'w \<Rightarrow>
       ('n, ('g, 'ep) wasi_engine, 'w) advance" where
  "break_drive slot result e w =
     (case store_wasi_guest_slot slot result e of
        Panic \<Rightarrow> Fault
      | Done e \<Rightarrow> (case result of
            Drive_Budget_Expired \<Rightarrow> Continue Ph_Take e w
          | Drive_Exit \<Rightarrow> Continue Ph_Pending e w
          | Drive_Rejected \<Rightarrow> Task_Rejected e w))"

definition step_take ::
    "('g, 'n, 'p, 'b) wasi_runtime \<Rightarrow> ('g, 'ep) wasi_engine \<Rightarrow> 'w \<Rightarrow>
       ('n, ('g, 'ep) wasi_engine, 'w) advance \<times> event list" where
  "step_take rt e w =
     (case take_wasi_guest_slot rt e of
        Panic \<Rightarrow> (Fault, [])
      | Done (Inl _, e) \<Rightarrow> (Task_Rejected e w, [Ev_Closed])
      | Done (Inr slot, e) \<Rightarrow> (Continue (Ph_Resume slot) e w, []))"

definition step_resume ::
    "('g, 'n, 'p, 'b) wasi_runtime \<Rightarrow> 'b \<Rightarrow> guest_slot \<Rightarrow> ('g, 'ep) wasi_engine \<Rightarrow> 'w \<Rightarrow>
       ('n, ('g, 'ep) wasi_engine, 'w) advance \<times> event list" where
  "step_resume rt budget slot e w =
     (case slot_guest slot (we_arena e) of
        Panic \<Rightarrow> (Fault, [])
      | Done guest \<Rightarrow>
          (case rt_resume rt budget guest of (r, guest) \<Rightarrow>
             let e = e\<lparr>we_arena := put_guest guest (we_arena e)\<rparr> in
             (case r of
                None \<Rightarrow> (break_drive slot Drive_Rejected e w, [Ev_Resumed, Ev_Closed])
              | Some (Import_Pending pending) \<Rightarrow> (Continue (Ph_Send_Request slot pending) e w, [Ev_Resumed])
              | Some (Memory_Grow_Pending pending) \<Rightarrow> (Continue (Ph_Send_Grow slot pending) e w, [Ev_Resumed])
              | Some Budget_Expired \<Rightarrow> (break_drive slot Drive_Budget_Expired e w, [Ev_Resumed])
              | Some Guest_Exit \<Rightarrow> (break_drive slot Drive_Exit e w, [Ev_Resumed, Ev_Closed]))))"

text \<open>One poll of a send future, followed by the phase \<open>next_phase\<close> when it is done.\<close>

definition step_send ::
    "('ep \<Rightarrow> 'w \<Rightarrow> ('x + unit) poll \<times> bool \<times> 'ep \<times> 'w) \<Rightarrow> wasi_msg \<Rightarrow> guest_slot \<Rightarrow>
       'n phase \<Rightarrow> 'n phase \<Rightarrow> ('g, 'ep) wasi_engine \<Rightarrow> 'w \<Rightarrow>
       ('n, ('g, 'ep) wasi_engine, 'w) advance \<times> event list" where
  "step_send send msg slot this_phase next_phase e w =
     (case send (we_endpoint e) w of (r, woke, ep, w) \<Rightarrow>
        let e = e\<lparr>we_endpoint := ep\<rparr> in
        (case r of
           Pending \<Rightarrow> (Suspended this_phase woke e w, [])
         | Ready (Inl _) \<Rightarrow> (break_drive slot Drive_Rejected e w, [Ev_Closed])
         | Ready (Inr _) \<Rightarrow> (Continue next_phase e w, [Ev_Sent msg])))"

text \<open>One poll of a receive future; what it gives completes the pending import or growth.\<close>

definition step_recv ::
    "('ep \<Rightarrow> 'w \<Rightarrow> ('x + 'v) poll \<times> bool \<times> 'ep \<times> 'w) \<Rightarrow> ('v \<Rightarrow> 'g \<Rightarrow> bool \<times> 'g) \<Rightarrow> wasi_msg \<Rightarrow>
       guest_slot \<Rightarrow> 'n phase \<Rightarrow> ('g, 'ep) wasi_engine \<Rightarrow> 'w \<Rightarrow>
       ('n, ('g, 'ep) wasi_engine, 'w) advance \<times> event list" where
  "step_recv recv complete msg slot this_phase e w =
     (case recv (we_endpoint e) w of (r, woke, ep, w) \<Rightarrow>
        let e = e\<lparr>we_endpoint := ep\<rparr> in
        (case r of
           Pending \<Rightarrow> (Suspended this_phase woke e w, [])
         | Ready (Inl _) \<Rightarrow> (break_drive slot Drive_Rejected e w, [Ev_Closed])
         | Ready (Inr v) \<Rightarrow>
             (case slot_guest slot (we_arena e) of
                Panic \<Rightarrow> (Fault, [])
              | Done guest \<Rightarrow>
                  (case complete v guest of (ok, guest) \<Rightarrow>
                     let e = e\<lparr>we_arena := put_guest guest (we_arena e)\<rparr> in
                     if ok then (Continue (Ph_Resume slot) e w, [Ev_Received msg, Ev_Completed])
                     else (break_drive slot Drive_Rejected e w, [Ev_Received msg, Ev_Closed])))))"

fun host_step ::
    "('g, 'n, 'p, 'b) wasi_runtime \<Rightarrow> ('p, 'x, 'ep, 'w) ep_send \<Rightarrow> ('p, 'x, 'ep, 'w) ep_recv \<Rightarrow> 'b \<Rightarrow>
       'n phase \<Rightarrow> ('g, 'ep) wasi_engine \<Rightarrow> 'w \<Rightarrow>
       ('n, ('g, 'ep) wasi_engine, 'w) advance \<times> event list" where
  "host_step rt send recv budget Ph_Take e w = step_take rt e w"
| "host_step rt send recv budget (Ph_Resume slot) e w = step_resume rt budget slot e w"
| "host_step rt send recv budget (Ph_Send_Request slot pending) e w =
     step_send (send_wasi_import_request send (rt_request rt pending))
       (request_msg (request_variant (rt_request rt pending))) slot
       (Ph_Send_Request slot pending) (Ph_Recv_Completion slot pending) e w"
| "host_step rt send recv budget (Ph_Recv_Completion slot pending) e w =
     step_recv (recv_wasi_import_completion recv (rt_import rt pending)) (rt_complete rt pending)
       (completion_msg (rt_import rt pending)) slot (Ph_Recv_Completion slot pending) e w"
| "host_step rt send recv budget (Ph_Send_Grow slot pending) e w =
     step_send (send_memory_grow_request send (rt_grow_request rt pending)) MemoryGrowReqMsg slot
       (Ph_Send_Grow slot pending) (Ph_Recv_Decision slot pending) e w"
| "host_step rt send recv budget (Ph_Recv_Decision slot pending) e w =
     step_recv (recv_memory_grow_decision recv) (rt_grow_complete rt pending) MemoryGrowRetMsg slot
       (Ph_Recv_Decision slot pending) e w"
| "host_step rt send recv budget Ph_Pending e w = (Suspended Ph_Pending False e w, [])"

text \<open>
  A poll of the engine's task runs the body until it is suspended or fails; it is \<open>None\<close> if the guest
  never reaches a boundary that suspends the task.
\<close>

datatype ('n, 'e, 'w) poll_end = Poll_Pending "'n phase" bool 'e 'w | Poll_Rejected 'e 'w | Poll_Fault

partial_function (option) wasi_task_poll ::
    "('g, 'n, 'p, 'b) wasi_runtime \<Rightarrow> ('p, 'x, 'ep, 'w) ep_send \<Rightarrow> ('p, 'x, 'ep, 'w) ep_recv \<Rightarrow> 'b \<Rightarrow>
       'n phase \<Rightarrow> ('g, 'ep) wasi_engine \<Rightarrow> 'w \<Rightarrow> ('n, ('g, 'ep) wasi_engine, 'w) poll_end option" where
  "wasi_task_poll rt send recv budget ph e w =
     (case fst (host_step rt send recv budget ph e w) of
        Continue ph e w \<Rightarrow> wasi_task_poll rt send recv budget ph e w
      | Suspended ph woke e w \<Rightarrow> Some (Poll_Pending ph woke e w)
      | Task_Rejected e w \<Rightarrow> Some (Poll_Rejected e w)
      | Fault \<Rightarrow> Some Poll_Fault)"

text \<open>
  What goes out of scope with the task: the slot held by the body, then the fields of the engine.
\<close>

definition engine_drop :: "('g, 'ep) wasi_engine \<Rightarrow> 'g guest_arena outcome" where
  "engine_drop e =
     (let arena = (case we_storage e of None \<Rightarrow> we_arena e | Some lease \<Rightarrow> lease_drop lease (we_arena e)) in
      case we_slot e of None \<Rightarrow> Done arena | Some slot \<Rightarrow> slot_drop slot arena)"

fun phase_slot :: "'n phase \<Rightarrow> guest_slot option" where
  "phase_slot (Ph_Resume slot) = Some slot"
| "phase_slot (Ph_Send_Request slot _) = Some slot"
| "phase_slot (Ph_Recv_Completion slot _) = Some slot"
| "phase_slot (Ph_Send_Grow slot _) = Some slot"
| "phase_slot (Ph_Recv_Decision slot _) = Some slot"
| "phase_slot _ = None"

definition task_drop :: "'n phase \<Rightarrow> ('g, 'ep) wasi_engine \<Rightarrow> 'g guest_arena outcome" where
  "task_drop ph e =
     (case phase_slot ph of
        None \<Rightarrow> engine_drop e
      | Some slot \<Rightarrow> bind_outcome (slot_drop slot (we_arena e)) (\<lambda>arena. engine_drop (e\<lparr>we_arena := arena\<rparr>)))"

section \<open>One owner of the lease\<close>

definition slot_live :: "guest_slot \<Rightarrow> 'g guest_arena \<Rightarrow> bool" where
  "slot_live slot arena \<longleftrightarrow> gs_initialized slot \<and> gs_guest slot
     \<and> (case ga_storage arena of Guest_Storage _ \<Rightarrow> True | _ \<Rightarrow> False)"

definition engine_inv :: "'n phase \<Rightarrow> ('g, 'ep) wasi_engine \<Rightarrow> bool" where
  "engine_inv ph e \<longleftrightarrow> ga_occupied (we_arena e) \<and> we_guest_bytes e \<noteq> None \<and>
     (case phase_slot ph of
        Some slot \<Rightarrow> we_slot e = None \<and> we_storage e = None \<and> slot_live slot (we_arena e)
      | None \<Rightarrow>
          (case we_slot e of
             Some slot \<Rightarrow> we_storage e = None \<and> ph = Ph_Take \<and> slot_live slot (we_arena e)
           | None \<Rightarrow> we_storage e \<noteq> None \<and> ga_storage (we_arena e) = Raw_Storage))"

definition engine_released :: "('g, 'ep) wasi_engine \<Rightarrow> bool" where
  "engine_released e \<longleftrightarrow> we_slot e = None \<and> ga_storage (we_arena e) = Raw_Storage
     \<and> (ga_occupied (we_arena e) \<longleftrightarrow> we_storage e \<noteq> None)"

fun advance_inv :: "('n, ('g, 'ep) wasi_engine, 'w) advance \<Rightarrow> bool" where
  "advance_inv (Continue ph e w) = engine_inv ph e"
| "advance_inv (Suspended ph woke e w) = engine_inv ph e"
| "advance_inv (Task_Rejected e w) = engine_released e"
| "advance_inv Fault = False"

lemmas engine_defs = engine_inv_def slot_live_def engine_released_def

lemma break_drive_inv:
  assumes "ga_occupied (we_arena e)" "we_guest_bytes e \<noteq> None" "we_slot e = None" "we_storage e = None"
    and "slot_live slot (we_arena e)"
  shows "advance_inv (break_drive slot result e w)"
  using assms
  by (cases result; cases "ga_storage (we_arena e)")
    (simp_all add: break_drive_def store_wasi_guest_slot_def slot_finish_def drop_storage_def engine_defs)

lemma slot_live_guest:
  assumes "slot_live slot arena"
  obtains g where "slot_guest slot arena = Done g" "ga_storage arena = Guest_Storage g"
  using assms by (cases "ga_storage arena") (simp_all add: slot_live_def slot_guest_def)

lemma slot_live_put [simp]:
  "slot_live slot arena \<Longrightarrow> slot_live slot (put_guest g arena)"
  "ga_occupied (put_guest g arena) = ga_occupied arena"
  by (simp_all add: slot_live_def put_guest_def)

lemma step_take_inv: "engine_inv Ph_Take e \<Longrightarrow> advance_inv (fst (step_take rt e w))"
  by (auto simp: step_take_def take_wasi_guest_slot_def engine_defs slot_init_def slot_drop_def
      drop_storage_def lease_drop_def Let_def split: option.splits)

lemma step_resume_inv:
  assumes "engine_inv (Ph_Resume slot) e"
  shows "advance_inv (fst (step_resume rt budget slot e w))"
proof -
  have e: "ga_occupied (we_arena e)" "we_guest_bytes e \<noteq> None" "we_slot e = None" "we_storage e = None"
    "slot_live slot (we_arena e)"
    using assms by (simp_all add: engine_inv_def)
  from e(5) obtain g where g: "slot_guest slot (we_arena e) = Done g" by (rule slot_live_guest)
  obtain r g' where r: "rt_resume rt budget g = (r, g')" by (metis surj_pair)
  show ?thesis
    using e g r
    by (auto simp: step_resume_def engine_inv_def Let_def break_drive_inv
        split: option.split boundary_step.split)
qed

lemma step_send_inv:
  assumes "engine_inv ph e" "phase_slot ph = Some slot" "phase_slot ph' = Some slot"
  shows "advance_inv (fst (step_send send msg slot ph ph' e w))"
  using assms
  by (auto simp: step_send_def engine_inv_def Let_def break_drive_inv
      split: prod.split poll.split sum.split)

lemma step_recv_inv:
  assumes "engine_inv ph e" "phase_slot ph = Some slot"
  shows "advance_inv (fst (step_recv recv complete msg slot ph e w))"
proof -
  have e: "ga_occupied (we_arena e)" "we_guest_bytes e \<noteq> None" "we_slot e = None" "we_storage e = None"
    "slot_live slot (we_arena e)"
    using assms by (simp_all add: engine_inv_def)
  from e(5) obtain g where g: "slot_guest slot (we_arena e) = Done g" by (rule slot_live_guest)
  show ?thesis
    using e g assms(2)
    by (auto simp: step_recv_def engine_inv_def Let_def break_drive_inv
        split: prod.split poll.split sum.split)
qed

lemma host_step_inv:
  assumes "engine_inv ph e"
  shows "advance_inv (fst (host_step rt send recv budget ph e w))"
  using assms
  by (cases ph) (auto simp: step_take_inv step_resume_inv step_send_inv step_recv_inv)

lemma task_drop_inv:
  assumes "engine_inv ph e"
  shows "\<exists>arena. task_drop ph e = Done arena \<and> \<not> ga_occupied arena \<and> ga_storage arena = Raw_Storage"
  using assms
  by (cases "phase_slot ph"; cases "we_slot e"; cases "ga_storage (we_arena e)")
    (auto simp: task_drop_def engine_drop_def engine_defs slot_drop_def drop_storage_def lease_drop_def)

lemma released_drop:
  assumes "engine_released e"
  shows "\<exists>arena. engine_drop e = Done arena \<and> \<not> ga_occupied arena \<and> ga_storage arena = Raw_Storage"
  using assms by (auto simp: engine_drop_def engine_released_def lease_drop_def split: option.split)

section \<open>Runs of the hosted engine\<close>

text \<open>
  A run keeps the events. The budget may be another one at every step, and the world is whatever
  the rest of the program has made of it when a step is taken.
\<close>

inductive host_reach ::
    "('g, 'n, 'p, 'b) wasi_runtime \<Rightarrow> ('p, 'x, 'ep, 'w) ep_send \<Rightarrow> ('p, 'x, 'ep, 'w) ep_recv \<Rightarrow>
       ('g, 'ep) wasi_engine \<Rightarrow> event list \<Rightarrow> 'n phase \<Rightarrow> ('g, 'ep) wasi_engine \<Rightarrow> bool"
  for rt send recv e0 where
  Host_Start: "host_reach rt send recv e0 [] Ph_Take e0"
| Host_Continue: "host_reach rt send recv e0 evs ph e \<Longrightarrow>
    host_step rt send recv budget ph e w = (Continue ph' e' w', evs') \<Longrightarrow>
    host_reach rt send recv e0 (evs @ evs') ph' e'"
| Host_Suspended: "host_reach rt send recv e0 evs ph e \<Longrightarrow>
    host_step rt send recv budget ph e w = (Suspended ph' woke e' w', evs') \<Longrightarrow>
    host_reach rt send recv e0 (evs @ evs') ph' e'"

definition engine_start :: "('g, 'ep) wasi_engine \<Rightarrow> bool" where
  "engine_start e \<longleftrightarrow> we_guest_bytes e \<noteq> None \<and> we_storage e \<noteq> None \<and> we_slot e = None
     \<and> ga_occupied (we_arena e) \<and> ga_storage (we_arena e) = Raw_Storage"

lemma engine_start_inv: "engine_start e \<Longrightarrow> engine_inv Ph_Take e"
  by (auto simp: engine_start_def engine_inv_def)

lemma host_reach_inv:
  assumes "host_reach rt send recv e0 evs ph e" "engine_start e0"
  shows "engine_inv ph e"
  using assms(1)
proof induction
  case Host_Start
  from assms(2) show ?case by (rule engine_start_inv)
next
  case (Host_Continue evs ph e budget w ph' e' w' evs')
  from host_step_inv [OF Host_Continue(3), of rt send recv budget w] Host_Continue(2) show ?case by simp
next
  case (Host_Suspended evs ph e budget w ph' woke e' w' evs')
  from host_step_inv [OF Host_Suspended(3), of rt send recv budget w] Host_Suspended(2) show ?case by simp
qed

section \<open>The exchange with the endpoint\<close>

datatype exchange = Idle | Boundary | Asked wasi_msg | Answered | Closed

fun exchange_step :: "exchange \<Rightarrow> event \<Rightarrow> exchange option" where
  "exchange_step Idle Ev_Resumed = Some Boundary"
| "exchange_step Boundary Ev_Resumed = Some Boundary"
| "exchange_step Boundary (Ev_Sent m) = Some (Asked m)"
| "exchange_step (Asked m) (Ev_Received m') = (if reply_of m = Some m' then Some Answered else None)"
| "exchange_step Answered Ev_Completed = Some Idle"
| "exchange_step Closed Ev_Closed = None"
| "exchange_step _ Ev_Closed = Some Closed"
| "exchange_step _ _ = None"

fun exchange_run :: "exchange \<Rightarrow> event list \<Rightarrow> exchange option" where
  "exchange_run s [] = Some s"
| "exchange_run s (ev # evs) = (case exchange_step s ev of None \<Rightarrow> None | Some s \<Rightarrow> exchange_run s evs)"

lemma exchange_run_append:
  "exchange_run s (evs @ evs')
    = (case exchange_run s evs of None \<Rightarrow> None | Some s' \<Rightarrow> exchange_run s' evs')"
  by (induction evs arbitrary: s) (auto split: option.split)

fun exchange_at :: "('g, 'n, 'p, 'b) wasi_runtime \<Rightarrow> 'n phase \<Rightarrow> exchange \<Rightarrow> bool" where
  "exchange_at rt Ph_Take s = (s \<in> {Idle, Boundary})"
| "exchange_at rt (Ph_Resume _) s = (s \<in> {Idle, Boundary})"
| "exchange_at rt (Ph_Send_Request _ _) s = (s = Boundary)"
| "exchange_at rt (Ph_Recv_Completion _ n) s = (s = Asked (request_msg (request_variant (rt_request rt n))))"
| "exchange_at rt (Ph_Send_Grow _ _) s = (s = Boundary)"
| "exchange_at rt (Ph_Recv_Decision _ _) s = (s = Asked MemoryGrowReqMsg)"
| "exchange_at rt Ph_Pending s = (s = Closed)"

fun advance_exchange ::
    "('g, 'n, 'p, 'b) wasi_runtime \<Rightarrow> exchange option \<Rightarrow> ('n, 'e, 'w) advance \<Rightarrow> bool" where
  "advance_exchange rt s (Continue ph e w) = (\<exists>x. s = Some x \<and> exchange_at rt ph x)"
| "advance_exchange rt s (Suspended ph woke e w) = (\<exists>x. s = Some x \<and> exchange_at rt ph x)"
| "advance_exchange rt s (Task_Rejected e w) = (s = Some Closed)"
| "advance_exchange rt s Fault = True"

lemma break_drive_exchange [simp]:
  "advance_exchange rt (Some Closed) (break_drive slot Drive_Rejected e w)"
  "advance_exchange rt (Some Closed) (break_drive slot Drive_Exit e w)"
  "advance_exchange rt (Some Boundary) (break_drive slot Drive_Budget_Expired e w)"
  by (auto simp: break_drive_def split: outcome.split)

lemma host_step_exchange:
  assumes "\<And>n. rt_import rt n = request_variant (rt_request rt n)" and "exchange_at rt ph s"
  shows "advance_exchange rt (exchange_run s (snd (host_step rt send recv budget ph e w)))
    (fst (host_step rt send recv budget ph e w))"
proof (cases ph)
  case Ph_Take
  with assms show ?thesis
    by (auto simp: step_take_def split: outcome.split sum.split prod.split)
next
  case (Ph_Resume slot)
  with assms show ?thesis
    by (auto simp: step_resume_def Let_def split: outcome.split prod.split option.split boundary_step.split)
next
  case (Ph_Send_Request slot n)
  with assms show ?thesis
    by (auto simp: step_send_def Let_def split: prod.split poll.split sum.split)
next
  case (Ph_Recv_Completion slot n)
  with assms show ?thesis
    by (auto simp: step_recv_def Let_def split: outcome.split prod.split poll.split sum.split)
next
  case (Ph_Send_Grow slot n)
  with assms show ?thesis
    by (auto simp: step_send_def Let_def split: prod.split poll.split sum.split)
next
  case (Ph_Recv_Decision slot n)
  with assms show ?thesis
    by (auto simp: step_recv_def Let_def split: outcome.split prod.split poll.split sum.split)
qed (use assms in simp)

lemma host_reach_exchange:
  assumes "host_reach rt send recv e0 evs ph e"
    and "\<And>n. rt_import rt n = request_variant (rt_request rt n)"
  shows "\<exists>s. exchange_run Idle evs = Some s \<and> exchange_at rt ph s"
  using assms(1)
proof induction
  case (Host_Continue evs ph e budget w ph' e' w' evs')
  then obtain s where s: "exchange_run Idle evs = Some s" "exchange_at rt ph s" by blast
  from host_step_exchange [OF assms(2) s(2), of send recv budget e w] Host_Continue(2) s(1)
  show ?case by (simp add: exchange_run_append)
next
  case (Host_Suspended evs ph e budget w ph' woke e' w' evs')
  then obtain s where s: "exchange_run Idle evs = Some s" "exchange_at rt ph s" by blast
  from host_step_exchange [OF assms(2) s(2), of send recv budget e w] Host_Suspended(2) s(1)
  show ?case by (simp add: exchange_run_append)
qed simp

fun sent_msgs :: "event list \<Rightarrow> wasi_msg list" where
  "sent_msgs [] = []"
| "sent_msgs (Ev_Sent m # evs) = m # sent_msgs evs"
| "sent_msgs (_ # evs) = sent_msgs evs"

fun received_msgs :: "event list \<Rightarrow> wasi_msg list" where
  "received_msgs [] = []"
| "received_msgs (Ev_Received m # evs) = m # received_msgs evs"
| "received_msgs (_ # evs) = received_msgs evs"

text \<open>In a well-formed exchange the messages received answer the messages sent, one by one.\<close>

lemma exchange_replies:
  assumes "exchange_run s evs = Some s'"
  shows "\<exists>ms rest. (case s of Asked m \<Rightarrow> [m] | _ \<Rightarrow> []) @ sent_msgs evs = ms @ rest
    \<and> map reply_of ms = map Some (received_msgs evs)
    \<and> (case s' of Asked m \<Rightarrow> rest = [m] | Closed \<Rightarrow> length rest \<le> 1 | _ \<Rightarrow> rest = [])"
  using assms
proof (induction evs arbitrary: s)
  case Nil
  then show ?case by (cases s) auto
next
  case (Cons ev evs)
  then obtain s1 where s1: "exchange_step s ev = Some s1" "exchange_run s1 evs = Some s'"
    by (auto split: option.splits)
  from Cons.IH [OF s1(2)] obtain ms rest where
    IH: "(case s1 of Asked m \<Rightarrow> [m] | _ \<Rightarrow> []) @ sent_msgs evs = ms @ rest"
      "map reply_of ms = map Some (received_msgs evs)"
      "case s' of Asked m \<Rightarrow> rest = [m] | Closed \<Rightarrow> length rest \<le> 1 | _ \<Rightarrow> rest = []" by blast
  show ?case
  proof (cases "ev = Ev_Closed")
    case True
    then have s': "s1 = Closed" using s1(1) by (cases s) simp_all
    then have "evs = []" using s1(2) by (cases evs rule: received_msgs.cases) (simp_all split: if_splits)
    with True s' s1 show ?thesis by (cases s) auto
  next
    case False
    then show ?thesis
    proof (cases ev)
      case (Ev_Sent m)
      with s1(1) have "s = Boundary" "s1 = Asked m" by (cases s; simp)+
      with IH Ev_Sent show ?thesis by auto
    next
      case (Ev_Received m')
      with s1(1) obtain m where "s = Asked m" "s1 = Answered" "reply_of m = Some m'"
        by (cases s) (auto split: if_splits)
      with IH Ev_Received show ?thesis by (intro exI [of _ "m # ms"] exI [of _ rest]) simp
    qed (use s1(1) IH False in \<open>cases s; auto\<close>)+
  qed
qed

section \<open>Polls of the task\<close>

fun poll_ok :: "('n, ('g, 'ep) wasi_engine, 'w) poll_end \<Rightarrow> bool" where
  "poll_ok (Poll_Pending ph woke e w) \<longleftrightarrow> engine_inv ph e"
| "poll_ok (Poll_Rejected e w) \<longleftrightarrow> engine_released e"
| "poll_ok Poll_Fault \<longleftrightarrow> False"

lemma wasi_poll_ok:
  assumes "wasi_task_poll rt send recv budget ph e w = Some r" "engine_inv ph e"
  shows "poll_ok r"
proof -
  let ?P = "\<lambda>rt send recv budget ph e w r. engine_inv ph e \<longrightarrow> poll_ok r"
  have "?P rt send recv budget ph e w r"
  proof (rule wasi_task_poll.raw_induct [where P = ?P, OF _ assms(1)], goal_cases)
    case (1 run rt send recv budget ph e w r)
    show ?case
    proof
      assume "engine_inv ph e"
      from host_step_inv [OF this, of rt send recv budget w] 1 show "poll_ok r"
        by (auto split: advance.splits)
    qed
  qed
  with assms(2) show ?thesis by simp
qed

text \<open>The guest an engine works on, and how far its body is from the next resume.\<close>

definition engine_guest :: "('g, 'ep) wasi_engine \<Rightarrow> 'g option" where
  "engine_guest e = (case ga_storage (we_arena e) of Guest_Storage g \<Rightarrow> Some g | _ \<Rightarrow> None)"

fun phase_rank :: "'n phase \<Rightarrow> nat" where
  "phase_rank (Ph_Resume _) = 0"
| "phase_rank Ph_Take = 1"
| "phase_rank (Ph_Recv_Completion _ _) = 2"
| "phase_rank (Ph_Recv_Decision _ _) = 2"
| "phase_rank _ = 3"

definition step_measure :: "('g \<Rightarrow> nat) \<Rightarrow> 'n phase \<Rightarrow> ('g, 'ep) wasi_engine \<Rightarrow> nat" where
  "step_measure \<mu> ph e = (case engine_guest e of None \<Rightarrow> 0 | Some g \<Rightarrow> 4 * \<mu> g + phase_rank ph)"

definition guest_bounded :: "('g, 'n, 'p, 'b) wasi_runtime \<Rightarrow> 'b \<Rightarrow> ('g \<Rightarrow> nat) \<Rightarrow> bool" where
  "guest_bounded rt budget \<mu> \<longleftrightarrow>
     (\<forall>g r g'. rt_resume rt budget g = (r, g') \<longrightarrow>
        (case r of None \<Rightarrow> True | Some Guest_Exit \<Rightarrow> True | _ \<Rightarrow> \<mu> g' < \<mu> g))
     \<and> (\<forall>n c g ok g'. rt_complete rt n c g = (ok, g') \<longrightarrow> \<mu> g' \<le> \<mu> g)
     \<and> (\<forall>n c g ok g'. rt_grow_complete rt n c g = (ok, g') \<longrightarrow> \<mu> g' \<le> \<mu> g)"

text \<open>A step that goes on gets closer to the end of the guest, once there is a guest.\<close>

lemma break_drive_continue:
  assumes "break_drive slot result e w = Continue ph' e' w'" "slot_live slot (we_arena e)"
  shows "(result = Drive_Budget_Expired \<and> ph' = Ph_Take \<and> e' = e\<lparr>we_slot := Some slot\<rparr>)
    \<or> (result = Drive_Exit \<and> ph' = Ph_Pending \<and> engine_guest e' = None)"
  using assms
  by (cases result; cases "ga_storage (we_arena e)")
    (auto simp: break_drive_def store_wasi_guest_slot_def slot_finish_def drop_storage_def
      engine_guest_def slot_live_def)

lemma engine_guest_simps [simp]:
  "engine_guest (e\<lparr>we_endpoint := ep\<rparr>) = engine_guest e"
  "engine_guest (e\<lparr>we_slot := x\<rparr>) = engine_guest e"
  "engine_guest (e\<lparr>we_arena := put_guest g a\<rparr>) = Some g"
  by (simp_all add: engine_guest_def put_guest_def)

lemma slot_guest_engine:
  "slot_guest slot (we_arena e) = Done g \<Longrightarrow> engine_guest e = Some g"
  by (auto simp: slot_guest_def engine_guest_def split: if_splits guest_storage.splits)

lemma step_take_measure:
  assumes "step_take rt e w = (Continue ph' e' w', evs)" "engine_inv Ph_Take e" "engine_guest e = Some g"
  shows "step_measure \<mu> ph' e' < step_measure \<mu> Ph_Take e \<and> engine_guest e' \<noteq> None"
proof -
  from assms(2,3) obtain slot where "we_slot e = Some slot"
    by (auto simp: engine_inv_def engine_guest_def split: option.splits)
  with assms(1,3) show ?thesis
    by (auto simp: step_take_def take_wasi_guest_slot_def step_measure_def engine_guest_def)
qed

lemma step_resume_measure:
  assumes "step_resume rt budget slot e w = (Continue ph' e' w', evs)" "engine_inv (Ph_Resume slot) e"
    and "guest_bounded rt budget \<mu>" and "ph' \<noteq> Ph_Pending"
  shows "step_measure \<mu> ph' e' < step_measure \<mu> (Ph_Resume slot) e \<and> engine_guest e' \<noteq> None"
proof -
  from assms(2) have live: "slot_live slot (we_arena e)" by (simp add: engine_inv_def)
  then obtain g where g: "slot_guest slot (we_arena e) = Done g" by (rule slot_live_guest)
  obtain r g' where r: "rt_resume rt budget g = (r, g')" by (metis surj_pair)
  have \<mu>: "case r of None \<Rightarrow> True | Some Guest_Exit \<Rightarrow> True | _ \<Rightarrow> \<mu> g' < \<mu> g"
    using assms(3) r unfolding guest_bounded_def by blast
  let ?e = "e\<lparr>we_arena := put_guest g' (we_arena e)\<rparr>"
  have live': "slot_live slot (we_arena ?e)" using live by simp
  have m: "step_measure \<mu> (Ph_Resume slot) e = 4 * \<mu> g"
    using slot_guest_engine [OF g] by (simp add: step_measure_def)
  show ?thesis
    using assms(1) g r \<mu> assms(4) break_drive_continue [OF _ live', of _ w ph' e' w'] unfolding m
    by (fastforce simp: step_resume_def Let_def step_measure_def split: option.splits boundary_step.splits)
qed

lemma step_send_measure:
  assumes "step_send send msg slot ph ph2 e w = (Continue ph' e' w', evs)" "engine_guest e = Some g"
    and "slot_live slot (we_arena e)" "phase_rank ph2 < phase_rank ph"
  shows "step_measure \<mu> ph' e' < step_measure \<mu> ph e \<and> engine_guest e' \<noteq> None"
proof -
  have "break_drive slot Drive_Rejected e1 w1 \<noteq> Continue ph' e' w'" for e1 w1
    by (auto simp: break_drive_def split: outcome.split)
  then show ?thesis
    using assms
    by (auto simp: step_send_def Let_def step_measure_def split: prod.splits poll.splits sum.splits)
qed

lemma step_recv_measure:
  assumes "step_recv recv complete msg slot ph e w = (Continue ph' e' w', evs)"
    and "slot_live slot (we_arena e)" "phase_rank ph = 2"
    and le: "\<And>v g ok g'. complete v g = (ok, g') \<Longrightarrow> \<mu> g' \<le> \<mu> g"
  shows "step_measure \<mu> ph' e' < step_measure \<mu> ph e \<and> engine_guest e' \<noteq> None"
proof -
  from assms(2) obtain g where g: "slot_guest slot (we_arena e) = Done g" by (rule slot_live_guest)
  have nb: "break_drive slot Drive_Rejected e1 w1 \<noteq> Continue ph' e' w'" for e1 w1
    by (auto simp: break_drive_def split: outcome.split)
  obtain v g' e1 where "ph' = Ph_Resume slot" "complete v g = (True, g')"
      "e' = e1\<lparr>we_arena := put_guest g' (we_arena e)\<rparr>"
    using assms(1) g nb
    by (auto simp: step_recv_def Let_def split: prod.splits poll.splits sum.splits if_splits)
  with le [of v g True g'] slot_guest_engine [OF g] assms(3) show ?thesis
    by (simp add: step_measure_def)
qed

lemma host_step_measure:
  assumes "host_step rt send recv budget ph e w = (Continue ph' e' w', evs)" "engine_inv ph e"
    and "engine_guest e = Some g" "guest_bounded rt budget \<mu>" "ph' \<noteq> Ph_Pending"
  shows "step_measure \<mu> ph' e' < step_measure \<mu> ph e \<and> engine_guest e' \<noteq> None"
proof (cases ph)
  case Ph_Take
  with assms show ?thesis by (simp add: step_take_measure)
next
  case (Ph_Resume slot)
  with assms show ?thesis by (simp add: step_resume_measure)
next
  case (Ph_Send_Request slot n)
  with step_send_measure [OF assms(1) [unfolded Ph_Send_Request host_step.simps] assms(3)] assms(2)
  show ?thesis by (simp add: engine_inv_def)
next
  case (Ph_Recv_Completion slot n)
  with assms have "\<And>v g ok g'. rt_complete rt n v g = (ok, g') \<Longrightarrow> \<mu> g' \<le> \<mu> g"
    unfolding guest_bounded_def by blast
  with step_recv_measure [where \<mu> = \<mu>, OF assms(1) [unfolded Ph_Recv_Completion host_step.simps]] assms(2) Ph_Recv_Completion
  show ?thesis by (simp add: engine_inv_def)
next
  case (Ph_Send_Grow slot n)
  with step_send_measure [OF assms(1) [unfolded Ph_Send_Grow host_step.simps] assms(3)] assms(2)
  show ?thesis by (simp add: engine_inv_def)
next
  case (Ph_Recv_Decision slot n)
  with assms have "\<And>v g ok g'. rt_grow_complete rt n v g = (ok, g') \<Longrightarrow> \<mu> g' \<le> \<mu> g"
    unfolding guest_bounded_def by blast
  with step_recv_measure [where \<mu> = \<mu>, OF assms(1) [unfolded Ph_Recv_Decision host_step.simps]] assms(2) Ph_Recv_Decision
  show ?thesis by (simp add: engine_inv_def)
next
  case Ph_Pending
  with assms show ?thesis by simp
qed

lemma pending_poll:
  "wasi_task_poll rt send recv budget Ph_Pending e w = Some (Poll_Pending Ph_Pending False e w)"
  by (subst wasi_task_poll.simps) simp

lemma guest_poll_total:
  assumes "engine_inv ph e" "engine_guest e = Some g" "guest_bounded rt budget \<mu>"
  shows "\<exists>r. wasi_task_poll rt send recv budget ph e w = Some r"
  using assms(1,2)
proof (induction "step_measure \<mu> ph e" arbitrary: ph e w g rule: less_induct)
  case less
  obtain a evs where h: "host_step rt send recv budget ph e w = (a, evs)" by (metis surj_pair)
  show ?case
  proof (cases a)
    case (Continue ph' e' w')
    have step: "wasi_task_poll rt send recv budget ph e w = wasi_task_poll rt send recv budget ph' e' w'"
      using h Continue by (subst wasi_task_poll.simps) simp
    show ?thesis
    proof (cases "ph' = Ph_Pending")
      case True
      with step show ?thesis by (simp add: pending_poll)
    next
      case False
      from host_step_measure [OF h [unfolded Continue] less.prems assms(3) False]
      obtain g' where m: "step_measure \<mu> ph' e' < step_measure \<mu> ph e" "engine_guest e' = Some g'" by blast
      have "engine_inv ph' e'"
        using host_step_inv [OF less.prems(1), of rt send recv budget w] h Continue by simp
      from less.hyps [OF m(1) this m(2)] show ?thesis unfolding step .
    qed
  qed (use h in \<open>subst wasi_task_poll.simps, simp\<close>)+
qed

lemma wasi_poll_total:
  assumes "engine_inv ph e" "guest_bounded rt budget \<mu>"
  shows "\<exists>r. wasi_task_poll rt send recv budget ph e w = Some r"
proof (cases "engine_guest e")
  case (Some g)
  from guest_poll_total [OF assms(1) this assms(2)] show ?thesis .
next
  case None
  with assms(1) have ph: "ph = Ph_Take \<or> ph = Ph_Pending"
    by (cases ph) (auto simp: engine_inv_def engine_guest_def slot_live_def split: guest_storage.splits)
  obtain a evs where h: "step_take rt e w = (a, evs)" by (metis surj_pair)
  show ?thesis
  proof (cases "ph = Ph_Take")
    case True
    show ?thesis
    proof (cases a)
      case (Continue ph' e' w')
      have step: "wasi_task_poll rt send recv budget ph e w = wasi_task_poll rt send recv budget ph' e' w'"
        using h Continue True by (subst wasi_task_poll.simps) simp
      have inv: "engine_inv ph' e'"
        using step_take_inv [OF assms(1) [unfolded True], of rt w] h Continue by simp
      have "\<exists>slot. ph' = Ph_Resume slot"
        using h Continue by (auto simp: step_take_def split: outcome.splits sum.splits prod.splits)
      with inv obtain g where "engine_guest e' = Some g"
        by (auto simp: engine_inv_def engine_guest_def slot_live_def split: guest_storage.splits)
      from guest_poll_total [OF inv this assms(2)] show ?thesis unfolding step .
    qed (use h True in \<open>subst wasi_task_poll.simps, simp\<close>)+
  next
    case False
    with ph show ?thesis by (simp add: pending_poll)
  qed
qed

section \<open>Properties\<close>

text \<open>C9: whatever the guest and the endpoint do, the hosted engine talks to the endpoint in turns: it
  resumes the guest, sends the request of the import the guest stopped at, and takes exactly the
  message type that answers this request before it completes the import and resumes again. At any
  time at most the last request sent is without its answer.\<close>

theorem wasi_engine_exchange:
  assumes "host_reach rt send recv e0 evs ph e"
    and "\<And>n. rt_import rt n = request_variant (rt_request rt n)"
  shows "\<exists>s ms rest. exchange_run Idle evs = Some s \<and> exchange_at rt ph s
    \<and> sent_msgs evs = ms @ rest \<and> map reply_of ms = map Some (received_msgs evs) \<and> length rest \<le> 1"
proof -
  obtain s where s: "exchange_run Idle evs = Some s" "exchange_at rt ph s"
    using host_reach_exchange [OF assms] by blast
  from exchange_replies [OF s(1)] obtain ms rest where
    "sent_msgs evs = ms @ rest" "map reply_of ms = map Some (received_msgs evs)"
    "case s of Asked m \<Rightarrow> rest = [m] | Closed \<Rightarrow> length rest \<le> 1 | _ \<Rightarrow> rest = []" by auto
  with s show ?thesis by (intro exI [of _ s] exI [of _ ms] exI [of _ rest]) (cases s; simp)
qed

text \<open>A guest that reads once and exits, and an endpoint whose answers take two polls.\<close>

definition reader_runtime :: "(nat, nat, nat, unit) wasi_runtime" where
  "reader_runtime = \<lparr>rt_init = \<lambda>_ _. Some 1,
     rt_resume = \<lambda>_ g. (case g of 0 \<Rightarrow> (Some Guest_Exit, 0) | Suc g \<Rightarrow> (Some (Import_Pending g), g)),
     rt_request = Request FdRead, rt_import = \<lambda>_. FdRead, rt_complete = \<lambda>_ _ g. (True, g),
     rt_grow_request = id, rt_grow_complete = \<lambda>_ _ g. (True, g)\<rparr>"

definition slow_send :: "(nat, unit, bool, nat) ep_send" where
  "slow_send m p ep w = (Ready (Inr ()), False, True, w + 1)"

definition slow_recv :: "(nat, unit, bool, nat) ep_recv" where
  "slow_recv m ep w = ((if ep then Pending else Ready (Inr 0)), ep, False, w + 1)"

definition reader_engine :: "(nat, bool) wasi_engine" where
  "reader_engine = wasi_engine_new False (Some []) (Some Lease)
     ((guest_arena_empty 4)\<lparr>ga_occupied := True\<rparr>)"

lemma reader_engine: "engine_start reader_engine"
  by (simp add: engine_start_def reader_engine_def wasi_engine_new_def guest_arena_empty_def)

lemmas reader_defs = reader_runtime_def slow_send_def slow_recv_def reader_engine_def wasi_engine_new_def
  guest_arena_empty_def step_take_def take_wasi_guest_slot_def slot_init_def step_resume_def slot_guest_def
  put_guest_def step_send_def step_recv_def send_wasi_import_request_def recv_wasi_import_completion_def
  break_drive_def store_wasi_guest_slot_def slot_finish_def drop_storage_def

lemma reader_run:
  "\<exists>e. host_reach reader_runtime slow_send slow_recv reader_engine
     [Ev_Resumed, Ev_Sent FdReadReqMsg, Ev_Received FdReadRetMsg, Ev_Completed, Ev_Resumed, Ev_Closed]
     Ph_Pending e"
proof -
  let ?R = "host_reach reader_runtime slow_send slow_recv reader_engine"
  let ?s = "\<lparr>gs_lease = Lease, gs_guest = True, gs_initialized = True\<rparr>"
  let ?E = "\<lambda>ep g. \<lparr>we_endpoint = ep, we_guest_bytes = Some [], we_storage = None, we_slot = None,
    we_arena = \<lparr>ga_storage = Guest_Storage g, ga_memory = [0, 0, 0, 0], ga_occupied = True\<rparr>\<rparr>"
  note c = Host_Continue [where budget = "()"] and r = Host_Suspended [where budget = "()"]
  have "host_step reader_runtime slow_send slow_recv () Ph_Take reader_engine 0
      = (Continue (Ph_Resume ?s) (?E False 1) 0, [])"
    by (simp add: reader_defs numeral_eq_Suc)
  from c [OF Host_Start this] have 1: "?R [] (Ph_Resume ?s) (?E False 1)" by simp
  have "host_step reader_runtime slow_send slow_recv () (Ph_Resume ?s) (?E False 1) 0
      = (Continue (Ph_Send_Request ?s 0) (?E False 0) 0, [Ev_Resumed])"
    by (simp add: reader_defs)
  from c [OF 1 this] have 2: "?R [Ev_Resumed] (Ph_Send_Request ?s 0) (?E False 0)" by simp
  have "host_step reader_runtime slow_send slow_recv () (Ph_Send_Request ?s 0) (?E False 0) 0
      = (Continue (Ph_Recv_Completion ?s 0) (?E True 0) 1, [Ev_Sent FdReadReqMsg])"
    by (simp add: reader_defs)
  from c [OF 2 this] have 3: "?R [Ev_Resumed, Ev_Sent FdReadReqMsg] (Ph_Recv_Completion ?s 0) (?E True 0)"
    by simp
  have "host_step reader_runtime slow_send slow_recv () (Ph_Recv_Completion ?s 0) (?E True 0) 1
      = (Suspended (Ph_Recv_Completion ?s 0) True (?E False 0) 2, [])"
    by (simp add: reader_defs)
  from r [OF 3 this]
  have 4: "?R [Ev_Resumed, Ev_Sent FdReadReqMsg] (Ph_Recv_Completion ?s 0) (?E False 0)" by simp
  have "host_step reader_runtime slow_send slow_recv () (Ph_Recv_Completion ?s 0) (?E False 0) 2
      = (Continue (Ph_Resume ?s) (?E False 0) 3, [Ev_Received FdReadRetMsg, Ev_Completed])"
    by (simp add: reader_defs)
  from c [OF 4 this]
  have 5: "?R [Ev_Resumed, Ev_Sent FdReadReqMsg, Ev_Received FdReadRetMsg, Ev_Completed]
      (Ph_Resume ?s) (?E False 0)" by simp
  obtain e where "host_step reader_runtime slow_send slow_recv () (Ph_Resume ?s) (?E False 0) 3
      = (Continue Ph_Pending e 3, [Ev_Resumed, Ev_Closed])"
    by (simp add: reader_defs)
  from c [OF 5 this] show ?thesis by auto
qed

theorem wasi_engine_exchange_witness:
  "\<exists>s. exchange_run Idle [Ev_Resumed, Ev_Sent FdReadReqMsg, Ev_Received FdReadRetMsg, Ev_Completed,
      Ev_Resumed, Ev_Closed] = Some s \<and> exchange_at reader_runtime Ph_Pending s"
proof -
  obtain e where "host_reach reader_runtime slow_send slow_recv reader_engine
     [Ev_Resumed, Ev_Sent FdReadReqMsg, Ev_Received FdReadRetMsg, Ev_Completed, Ev_Resumed, Ev_Closed]
     Ph_Pending e" using reader_run by blast
  from wasi_engine_exchange [OF this] show ?thesis by (force simp: reader_runtime_def)
qed

text \<open>C16: the guest arena has one owner throughout a run: the engine never reaches a guest that is not
  there and never drops one twice, a second lease of the arena is refused, and wherever the task is
  dropped, also after it failed, the guest is dropped and the arena is free again.\<close>

theorem wasi_arena_ownership:
  assumes "engine_start e0" "host_reach rt send recv e0 evs ph e"
  shows "fst (host_step rt send recv budget ph e w) \<noteq> Fault
    \<and> guest_arena_lease storage_align (we_arena e) = Panic
    \<and> (\<exists>arena. task_drop ph e = Done arena \<and> \<not> ga_occupied arena \<and> ga_storage arena = Raw_Storage)
    \<and> (\<forall>e' w'. fst (host_step rt send recv budget ph e w) = Task_Rejected e' w' \<longrightarrow>
        (\<exists>arena. engine_drop e' = Done arena \<and> \<not> ga_occupied arena \<and> ga_storage arena = Raw_Storage))"
proof -
  note inv = host_reach_inv [OF assms(2,1)]
  note adv = host_step_inv [OF inv, of rt send recv budget w]
  have "guest_arena_lease storage_align (we_arena e) = Panic"
    using inv by (simp add: guest_arena_lease_def engine_inv_def)
  with adv task_drop_inv [OF inv] released_drop show ?thesis by fastforce
qed

theorem wasi_arena_ownership_witness:
  "\<exists>e arena. host_reach reader_runtime slow_send slow_recv reader_engine
     [Ev_Resumed, Ev_Sent FdReadReqMsg, Ev_Received FdReadRetMsg, Ev_Completed, Ev_Resumed, Ev_Closed]
     Ph_Pending e \<and> task_drop (Ph_Pending :: nat phase) e = Done arena \<and> \<not> ga_occupied arena"
  using reader_run wasi_arena_ownership [OF reader_engine] by metis

text \<open>One poll of the engine's task returns if every resume brings the guest closer to its end:
  the body is then suspended at the endpoint or pending for good, or it failed and has let go of
  the guest; it never ends in undefined behaviour.\<close>

theorem wasi_poll_returns:
  assumes "engine_start e0" "host_reach rt send recv e0 evs ph e" "guest_bounded rt budget \<mu>"
  shows "\<exists>r. wasi_task_poll rt send recv budget ph e w = Some r \<and> r \<noteq> Poll_Fault
    \<and> (\<forall>e' w'. r = Poll_Rejected e' w' \<longrightarrow> engine_released e')"
proof -
  note inv = host_reach_inv [OF assms(2,1)]
  from wasi_poll_total [OF inv assms(3), of send recv w] obtain r where
    r: "wasi_task_poll rt send recv budget ph e w = Some r" ..
  from wasi_poll_ok [OF r inv] show ?thesis using r by (cases r) auto
qed

theorem wasi_poll_returns_witness:
  "\<exists>r. wasi_task_poll reader_runtime slow_send slow_recv () Ph_Take reader_engine 0 = Some r
    \<and> r \<noteq> Poll_Fault"
proof -
  have "guest_bounded reader_runtime () id"
    by (auto simp: guest_bounded_def reader_runtime_def split: nat.splits)
  from wasi_poll_returns [OF reader_engine Host_Start this, of slow_send slow_recv 0]
  show ?thesis by blast
qed

end
