(* ===== verification/Wasi_Metrics.thy ===== *)
theory Wasi_Metrics
  imports Pico_Prelude
begin

text \<open>
  The counters the boards keep of the WASI engine, from \<open>src/appkit/internal.rs\<close>: four metrics of
  microseconds, each with its count, last, total and maximal value. The clock is a function the
  firmware stores in a static together with an enable flag; both are parameters.
\<close>

record wasi_metric =
  wm_count :: u32
  wm_last :: u32
  wm_total :: u32
  wm_max :: u32

definition wasi_metric_zero :: wasi_metric where
  "wasi_metric_zero = \<lparr>wm_count = 0, wm_last = 0, wm_total = 0, wm_max = 0\<rparr>"

record wasi_metrics =
  mt_resume :: wasi_metric
  mt_request_send :: wasi_metric
  mt_completion_recv :: wasi_metric
  mt_complete :: wasi_metric

definition wasi_metrics_zero :: wasi_metrics where
  "wasi_metrics_zero = \<lparr>mt_resume = wasi_metric_zero, mt_request_send = wasi_metric_zero,
     mt_completion_recv = wasi_metric_zero, mt_complete = wasi_metric_zero\<rparr>"

text \<open>The statics: the enable word and the address of the clock, 0 when none is set.\<close>

record 'w metric_clock =
  mc_enabled :: u32
  mc_clock :: "('w \<Rightarrow> u32 \<times> 'w) option"

definition appkit_wasi_metric_start :: "'w metric_clock \<Rightarrow> 'w \<Rightarrow> u32 option \<times> 'w" where
  "appkit_wasi_metric_start mc w =
     (if mc_enabled mc = 0 then (None, w)
      else case mc_clock mc of
        None \<Rightarrow> (None, w)
      | Some clock \<Rightarrow> (case clock w of (ticks, w) \<Rightarrow> (Some ticks, w)))"

definition saturating_add_u32 :: "u32 \<Rightarrow> u32 \<Rightarrow> u32" where
  "saturating_add_u32 a b = (if unat a + unat b < 2 ^ 32 then a + b else 0xFFFFFFFF)"

definition record_appkit_wasi_metric ::
    "'w metric_clock \<Rightarrow> u32 option \<Rightarrow> wasi_metric \<Rightarrow> 'w \<Rightarrow> wasi_metric \<times> 'w" where
  "record_appkit_wasi_metric mc start m w =
     (case start of
        None \<Rightarrow> (m, w)
      | Some start \<Rightarrow>
          (case appkit_wasi_metric_start mc w of
             (None, w) \<Rightarrow> (m, w)
           | (Some finish, w) \<Rightarrow>
               let elapsed = finish - start;
                   m = m\<lparr>wm_count := saturating_add_u32 (wm_count m) 1, wm_last := elapsed,
                         wm_total := saturating_add_u32 (wm_total m) elapsed\<rparr>;
                   m = (if elapsed > wm_max m then m\<lparr>wm_max := elapsed\<rparr> else m) in
               (m, w)))"

definition record_appkit_wasi_resume ::
    "'w metric_clock \<Rightarrow> u32 option \<Rightarrow> wasi_metrics \<Rightarrow> 'w \<Rightarrow> wasi_metrics \<times> 'w" where
  "record_appkit_wasi_resume mc start ms w =
     (case record_appkit_wasi_metric mc start (mt_resume ms) w of (m, w) \<Rightarrow> (ms\<lparr>mt_resume := m\<rparr>, w))"

definition record_appkit_wasi_request_send ::
    "'w metric_clock \<Rightarrow> u32 option \<Rightarrow> wasi_metrics \<Rightarrow> 'w \<Rightarrow> wasi_metrics \<times> 'w" where
  "record_appkit_wasi_request_send mc start ms w =
     (case record_appkit_wasi_metric mc start (mt_request_send ms) w of
        (m, w) \<Rightarrow> (ms\<lparr>mt_request_send := m\<rparr>, w))"

definition record_appkit_wasi_completion_recv ::
    "'w metric_clock \<Rightarrow> u32 option \<Rightarrow> wasi_metrics \<Rightarrow> 'w \<Rightarrow> wasi_metrics \<times> 'w" where
  "record_appkit_wasi_completion_recv mc start ms w =
     (case record_appkit_wasi_metric mc start (mt_completion_recv ms) w of
        (m, w) \<Rightarrow> (ms\<lparr>mt_completion_recv := m\<rparr>, w))"

definition record_appkit_wasi_complete ::
    "'w metric_clock \<Rightarrow> u32 option \<Rightarrow> wasi_metrics \<Rightarrow> 'w \<Rightarrow> wasi_metrics \<times> 'w" where
  "record_appkit_wasi_complete mc start ms w =
     (case record_appkit_wasi_metric mc start (mt_complete ms) w of (m, w) \<Rightarrow> (ms\<lparr>mt_complete := m\<rparr>, w))"

section \<open>What a metric holds\<close>

text \<open>A series of measured actions, and the times between the two readings of the clock at each.\<close>

fun measure_all :: "'w metric_clock \<Rightarrow> ('w \<Rightarrow> 'w) list \<Rightarrow> wasi_metric \<Rightarrow> 'w \<Rightarrow> wasi_metric \<times> 'w" where
  "measure_all mc [] m w = (m, w)"
| "measure_all mc (act # acts) m w =
     (case appkit_wasi_metric_start mc w of (start, w) \<Rightarrow>
        (case record_appkit_wasi_metric mc start m (act w) of (m, w) \<Rightarrow> measure_all mc acts m w))"

fun elapsed_of :: "('w \<Rightarrow> u32 \<times> 'w) \<Rightarrow> ('w \<Rightarrow> 'w) list \<Rightarrow> 'w \<Rightarrow> u32 list" where
  "elapsed_of clock [] w = []"
| "elapsed_of clock (act # acts) w =
     (case clock w of (start, w) \<Rightarrow>
        (case clock (act w) of (finish, w) \<Rightarrow> (finish - start) # elapsed_of clock acts w))"

definition metric_of :: "u32 list \<Rightarrow> wasi_metric \<Rightarrow> bool" where
  "metric_of es m \<longleftrightarrow>
     unat (wm_count m) = min (length es) (2 ^ 32 - 1)
     \<and> unat (wm_total m) = min (sum_list (map unat es)) (2 ^ 32 - 1)
     \<and> wm_last m = (if es = [] then 0 else last es)
     \<and> unat (wm_max m) = (if es = [] then 0 else Max (unat ` set es))"

lemma unat_saturating_add:
  "unat (saturating_add_u32 a b) = min (unat a + unat b) (2 ^ 32 - 1)"
proof (cases "unat a + unat b < 2 ^ 32")
  case True
  then have "unat (a + b) = unat a + unat b" by (simp add: unat_word_ariths)
  with True show ?thesis by (simp add: saturating_add_u32_def)
qed (simp add: saturating_add_u32_def)

definition add_sample :: "u32 \<Rightarrow> wasi_metric \<Rightarrow> wasi_metric" where
  "add_sample e m =
     (let m = m\<lparr>wm_count := saturating_add_u32 (wm_count m) 1, wm_last := e,
                wm_total := saturating_add_u32 (wm_total m) e\<rparr> in
      if e > wm_max m then m\<lparr>wm_max := e\<rparr> else m)"

lemma metric_of_sample:
  assumes "metric_of es m"
  shows "metric_of (es @ [e]) (add_sample e m)"
proof -
  have "unat (wm_max (add_sample e m)) = max (unat (wm_max m)) (unat e)"
    by (auto simp: add_sample_def Let_def word_less_nat_alt)
  moreover have "Max (insert (unat e) (unat ` set es)) = max (unat (wm_max m)) (unat e)" if "es \<noteq> []"
    using assms that by (simp add: metric_of_def max.commute)
  ultimately have "unat (wm_max (add_sample e m)) = Max (unat ` set (es @ [e]))"
    using assms by (cases "es = []") (simp_all add: metric_of_def)
  moreover have "unat (wm_count (add_sample e m)) = min (length (es @ [e])) (2 ^ 32 - 1)"
    using assms by (simp add: add_sample_def Let_def metric_of_def unat_saturating_add)
  moreover have "unat (wm_total (add_sample e m)) = min (sum_list (map unat (es @ [e]))) (2 ^ 32 - 1)"
    using assms by (simp add: add_sample_def Let_def metric_of_def unat_saturating_add)
  moreover have "wm_last (add_sample e m) = e" by (simp add: add_sample_def Let_def)
  ultimately show ?thesis by (simp add: metric_of_def)
qed

lemma measure_all_samples:
  assumes "mc_enabled mc \<noteq> 0" "mc_clock mc = Some clock" "metric_of es m"
  shows "metric_of (es @ elapsed_of clock acts w) (fst (measure_all mc acts m w))"
  using assms(3)
proof (induction acts arbitrary: es m w)
  case (Cons act acts)
  obtain start w1 where s: "clock w = (start, w1)" by (metis surj_pair)
  obtain finish w2 where f: "clock (act w1) = (finish, w2)" by (metis surj_pair)
  have "record_appkit_wasi_metric mc (Some start) m (act w1) = (add_sample (finish - start) m, w2)"
    using assms(1,2) f
    by (simp add: record_appkit_wasi_metric_def appkit_wasi_metric_start_def add_sample_def Let_def)
  with Cons.IH [OF metric_of_sample [OF Cons.prems], of "finish - start" w2] s f show ?case
    using assms(1,2) by (simp add: appkit_wasi_metric_start_def)
qed simp

text \<open>A metric is exact: after any series of measured actions its count, total and maximum are
  those of the times that passed by the clock, modulo the wrap-around of the clock, with count and
  total stuck at the largest word instead of overflowing; with the metrics disabled or without a
  clock nothing is recorded and the clock is not read.\<close>

theorem wasi_metric_exact:
  "if mc_enabled mc = 0 \<or> mc_clock mc = None
   then measure_all mc acts m w = (m, fold (\<lambda>act w. act w) acts w)
   else metric_of (elapsed_of (the (mc_clock mc)) acts w) (fst (measure_all mc acts wasi_metric_zero w))"
proof (cases "mc_enabled mc = 0 \<or> mc_clock mc = None")
  case True
  then have "measure_all mc acts m w = (m, fold (\<lambda>act w. act w) acts w)"
    by (induction acts arbitrary: w)
      (auto simp: appkit_wasi_metric_start_def record_appkit_wasi_metric_def)
  with True show ?thesis by simp
next
  case False
  have "metric_of [] wasi_metric_zero" by (simp add: metric_of_def wasi_metric_zero_def)
  from measure_all_samples [OF _ _ this, of mc _ acts w] False show ?thesis by auto
qed

end
