(* ===== verification/Wasi_Board.thy ===== *)
theory Wasi_Board
  imports Wasi_Engine Wasi_Metrics
begin

text \<open>
  The engine of \<open>src/appkit/internal.rs\<close> on the boards: \<open>drive_wasi_guest_blocking\<close> waits for the
  endpoint in place, polling the other role tasks and waiting for events in between, and
  \<open>run_canonical_wasi_engine_forever\<close> never returns. A call that loops forever is \<open>None\<close>.
\<close>

section \<open>Waiting for the endpoint\<close>

text \<open>What the code runs beside: the other role tasks, the event wait, the metric clock, the observer.\<close>

record ('f, 'w, 'te) board_env =
  be_poll :: "('f, 'w, 'te) task_poll"
  be_wait :: "'w \<Rightarrow> 'w"
  be_clock :: "'w metric_clock"
  be_observe :: "'w \<Rightarrow> 'w"

text \<open>A task that fails panics; \<open>Undefined\<close> stands for the undefined behaviour of the slot operations.\<close>

datatype 'a board_run = Ran 'a | Task_Panicked | Undefined

partial_function (option) poll_embedded ::
    "('ep \<Rightarrow> 'w \<Rightarrow> ('x + 'v) poll \<times> bool \<times> 'ep \<times> 'w) \<Rightarrow> ('f, 'w, 'te) board_env \<Rightarrow> 'ep \<Rightarrow>
       'f embedded_tasks \<Rightarrow> 'w \<Rightarrow> (('x + 'v) \<times> 'ep \<times> 'f embedded_tasks \<times> 'w) board_run option" where
  "poll_embedded future env ep tasks w =
     (case future ep w of (r, woke, ep, w) \<Rightarrow>
        (case r of
           Ready result \<Rightarrow> Some (Ran (result, ep, tasks, w))
         | Pending \<Rightarrow>
             (case (if has_tasks tasks then embedded_poll_once (be_poll env) 0 woke tasks w
                    else Passed woke tasks w) of
                Passed woke tasks w \<Rightarrow>
                  poll_embedded future env ep tasks (if woke then w else be_wait env w)
              | _ \<Rightarrow> Some Task_Panicked)))"

definition poll_embedded_wasi_unit ::
    "('ep \<Rightarrow> 'w \<Rightarrow> ('x + unit) poll \<times> bool \<times> 'ep \<times> 'w) \<Rightarrow> ('f, 'w, 'te) board_env \<Rightarrow> 'ep \<Rightarrow>
       'f embedded_tasks \<Rightarrow> 'w \<Rightarrow> (('x + unit) \<times> 'ep \<times> 'f embedded_tasks \<times> 'w) board_run option" where
  "poll_embedded_wasi_unit = poll_embedded"

text \<open>The value goes to an output argument, which the caller reads after \<open>Ok\<close> only.\<close>

definition poll_embedded_wasi_value ::
    "('ep \<Rightarrow> 'w \<Rightarrow> ('x + 'v) poll \<times> bool \<times> 'ep \<times> 'w) \<Rightarrow> ('f, 'w, 'te) board_env \<Rightarrow> 'ep \<Rightarrow>
       'f embedded_tasks \<Rightarrow> 'w \<Rightarrow> (('x + 'v) \<times> 'ep \<times> 'f embedded_tasks \<times> 'w) board_run option" where
  "poll_embedded_wasi_value = poll_embedded"

definition wasi_endpoint_terminal :: "'x \<Rightarrow> bool" where
  "wasi_endpoint_terminal error = True"

section \<open>The blocking driver\<close>

record ('g, 'ep, 'f, 'w) board =
  bd_engine :: "('g, 'ep) wasi_engine"
  bd_tasks :: "'f embedded_tasks"
  bd_metrics :: wasi_metrics
  bd_world :: 'w

datatype embedded_result = Emb_Exit | Emb_Budget_Expired | Emb_Terminal_Endpoint | Emb_Rejected

definition endpoint_failure :: "'x \<Rightarrow> embedded_result" where
  "endpoint_failure error = (if wasi_endpoint_terminal error then Emb_Terminal_Endpoint else Emb_Rejected)"

definition store_embedded_wasi_guest_slot ::
    "guest_slot \<Rightarrow> embedded_result \<Rightarrow> ('g, 'ep) wasi_engine \<Rightarrow> ('g, 'ep) wasi_engine outcome" where
  "store_embedded_wasi_guest_slot slot result e =
     (case result of
        Emb_Budget_Expired \<Rightarrow> Done (e\<lparr>we_slot := Some slot\<rparr>)
      | _ \<Rightarrow> bind_outcome (slot_finish slot (we_arena e)) (\<lambda>(lease, arena).
               Done (e\<lparr>we_storage := Some lease, we_arena := arena\<rparr>)))"

text \<open>A measured stretch of code: the clock is read before it, and the metric recorded after it.\<close>

definition metric_begin :: "('f, 'w, 'te) board_env \<Rightarrow> ('g, 'ep, 'f, 'w) board \<Rightarrow>
    u32 option \<times> ('g, 'ep, 'f, 'w) board" where
  "metric_begin env b =
     (case appkit_wasi_metric_start (be_clock env) (bd_world b) of (start, w) \<Rightarrow>
        (start, b\<lparr>bd_world := w\<rparr>))"

definition metric_end ::
    "('w metric_clock \<Rightarrow> u32 option \<Rightarrow> wasi_metrics \<Rightarrow> 'w \<Rightarrow> wasi_metrics \<times> 'w) \<Rightarrow>
       ('f, 'w, 'te) board_env \<Rightarrow> u32 option \<Rightarrow> ('g, 'ep, 'f, 'w) board \<Rightarrow> ('g, 'ep, 'f, 'w) board" where
  "metric_end record_metric env start b =
     (case record_metric (be_clock env) start (bd_metrics b) (bd_world b) of (ms, w) \<Rightarrow>
        b\<lparr>bd_metrics := ms, bd_world := w\<rparr>)"

definition on_endpoint ::
    "('ep \<Rightarrow> 'f embedded_tasks \<Rightarrow> 'w \<Rightarrow> ('r \<times> 'ep \<times> 'f embedded_tasks \<times> 'w) board_run option) \<Rightarrow>
       ('g, 'ep, 'f, 'w) board \<Rightarrow> ('r \<times> ('g, 'ep, 'f, 'w) board) board_run option" where
  "on_endpoint run b =
     (case run (we_endpoint (bd_engine b)) (bd_tasks b) (bd_world b) of
        None \<Rightarrow> None
      | Some Task_Panicked \<Rightarrow> Some Task_Panicked
      | Some Undefined \<Rightarrow> Some Undefined
      | Some (Ran (r, ep, tasks, w)) \<Rightarrow>
          Some (Ran (r, b\<lparr>bd_engine := (bd_engine b)\<lparr>we_endpoint := ep\<rparr>, bd_tasks := tasks, bd_world := w\<rparr>)))"

definition on_guest ::
    "guest_slot \<Rightarrow> ('g \<Rightarrow> 'r \<times> 'g) \<Rightarrow> ('g, 'ep, 'f, 'w) board \<Rightarrow> ('r \<times> ('g, 'ep, 'f, 'w) board) outcome" where
  "on_guest slot f b =
     bind_outcome (slot_guest slot (we_arena (bd_engine b))) (\<lambda>guest.
       case f guest of (r, guest) \<Rightarrow>
         Done (r, b\<lparr>bd_engine := (bd_engine b)\<lparr>we_arena := put_guest guest (we_arena (bd_engine b))\<rparr>\<rparr>))"

text \<open>One turn of the loop goes on or breaks with a result.\<close>

datatype 'b turn = Again 'b | Break embedded_result 'b

definition emb_import ::
    "('g, 'n, 'p, 'b) wasi_runtime \<Rightarrow> ('p, 'x, 'ep, 'w) ep_send \<Rightarrow> ('p, 'x, 'ep, 'w) ep_recv \<Rightarrow>
       ('f, 'w, 'te) board_env \<Rightarrow> guest_slot \<Rightarrow> 'n \<Rightarrow> ('g, 'ep, 'f, 'w) board \<Rightarrow>
       ('g, 'ep, 'f, 'w) board turn board_run option" where
  "emb_import rt send recv env slot pending b =
     (case metric_begin env b of (send_start, b) \<Rightarrow>
      (case on_endpoint (poll_embedded_wasi_unit (send_wasi_import_request send (rt_request rt pending)) env) b of
         Some (Ran (sent, b)) \<Rightarrow>
          let b = metric_end record_appkit_wasi_request_send env send_start b in
          (case sent of
             Inl error \<Rightarrow> Some (Ran (Break (endpoint_failure error) b))
           | Inr _ \<Rightarrow>
               (case metric_begin env b of (recv_start, b) \<Rightarrow>
                (case on_endpoint (poll_embedded_wasi_value
                     (recv_wasi_import_completion recv (rt_import rt pending)) env) b of
                   Some (Ran (received, b)) \<Rightarrow>
                     let b = metric_end record_appkit_wasi_completion_recv env recv_start b in
                     (case received of
                        Inl error \<Rightarrow> Some (Ran (Break (endpoint_failure error) b))
                      | Inr completion \<Rightarrow>
                          (case metric_begin env b of (complete_start, b) \<Rightarrow>
                           (case on_guest slot (rt_complete rt pending completion) b of
                              Panic \<Rightarrow> Some Undefined
                            | Done (ok, b) \<Rightarrow>
                                let b = metric_end record_appkit_wasi_complete env complete_start b in
                                Some (Ran (if ok then Again b else Break Emb_Rejected b)))))
                 | Some Task_Panicked \<Rightarrow> Some Task_Panicked
                 | Some Undefined \<Rightarrow> Some Undefined
                 | None \<Rightarrow> None)))
       | Some Task_Panicked \<Rightarrow> Some Task_Panicked
       | Some Undefined \<Rightarrow> Some Undefined
       | None \<Rightarrow> None))"

definition emb_grow ::
    "('g, 'n, 'p, 'b) wasi_runtime \<Rightarrow> ('p, 'x, 'ep, 'w) ep_send \<Rightarrow> ('p, 'x, 'ep, 'w) ep_recv \<Rightarrow>
       ('f, 'w, 'te) board_env \<Rightarrow> guest_slot \<Rightarrow> 'n \<Rightarrow> ('g, 'ep, 'f, 'w) board \<Rightarrow>
       ('g, 'ep, 'f, 'w) board turn board_run option" where
  "emb_grow rt send recv env slot pending b =
     (case on_endpoint (poll_embedded_wasi_unit (send_memory_grow_request send (rt_grow_request rt pending)) env) b of
        Some (Ran (Inl error, b)) \<Rightarrow> Some (Ran (Break (endpoint_failure error) b))
      | Some (Ran (Inr _, b)) \<Rightarrow>
          (case on_endpoint (poll_embedded_wasi_value (recv_memory_grow_decision recv) env) b of
             Some (Ran (Inl error, b)) \<Rightarrow> Some (Ran (Break (endpoint_failure error) b))
           | Some (Ran (Inr decision, b)) \<Rightarrow>
               (case on_guest slot (rt_grow_complete rt pending decision) b of
                  Panic \<Rightarrow> Some Undefined
                | Done (ok, b) \<Rightarrow> Some (Ran (if ok then Again b else Break Emb_Rejected b)))
           | Some Task_Panicked \<Rightarrow> Some Task_Panicked
           | Some Undefined \<Rightarrow> Some Undefined
           | None \<Rightarrow> None)
      | Some Task_Panicked \<Rightarrow> Some Task_Panicked
      | Some Undefined \<Rightarrow> Some Undefined
      | None \<Rightarrow> None)"

definition emb_turn ::
    "('g, 'n, 'p, 'b) wasi_runtime \<Rightarrow> ('p, 'x, 'ep, 'w) ep_send \<Rightarrow> ('p, 'x, 'ep, 'w) ep_recv \<Rightarrow>
       ('f, 'w, 'te) board_env \<Rightarrow> 'b \<Rightarrow> guest_slot \<Rightarrow> ('g, 'ep, 'f, 'w) board \<Rightarrow>
       ('g, 'ep, 'f, 'w) board turn board_run option" where
  "emb_turn rt send recv env budget slot b =
     (case metric_begin env b of (resume_start, b) \<Rightarrow>
      (case on_guest slot (rt_resume rt budget) b of
         Panic \<Rightarrow> Some Undefined
       | Done (step, b) \<Rightarrow>
           let b = metric_end record_appkit_wasi_resume env resume_start b in
           (case step of
              None \<Rightarrow> Some (Ran (Break Emb_Rejected b))
            | Some (Import_Pending pending) \<Rightarrow> emb_import rt send recv env slot pending b
            | Some (Memory_Grow_Pending pending) \<Rightarrow> emb_grow rt send recv env slot pending b
            | Some Budget_Expired \<Rightarrow> Some (Ran (Break Emb_Budget_Expired b))
            | Some Guest_Exit \<Rightarrow> Some (Ran (Break Emb_Exit b)))))"

partial_function (option) emb_loop ::
    "('g, 'n, 'p, 'b) wasi_runtime \<Rightarrow> ('p, 'x, 'ep, 'w) ep_send \<Rightarrow> ('p, 'x, 'ep, 'w) ep_recv \<Rightarrow>
       ('f, 'w, 'te) board_env \<Rightarrow> 'b \<Rightarrow> guest_slot \<Rightarrow> ('g, 'ep, 'f, 'w) board \<Rightarrow>
       (embedded_result \<times> ('g, 'ep, 'f, 'w) board) board_run option" where
  "emb_loop rt send recv env budget slot b =
     (case emb_turn rt send recv env budget slot b of
        None \<Rightarrow> None
      | Some Task_Panicked \<Rightarrow> Some Task_Panicked
      | Some Undefined \<Rightarrow> Some Undefined
      | Some (Ran t) \<Rightarrow>
          (case t of
             Again b \<Rightarrow> emb_loop rt send recv env budget slot b
           | Break result b \<Rightarrow> Some (Ran (result, b))))"

definition drive_wasi_guest_blocking ::
    "('g, 'n, 'p, 'b) wasi_runtime \<Rightarrow> ('p, 'x, 'ep, 'w) ep_send \<Rightarrow> ('p, 'x, 'ep, 'w) ep_recv \<Rightarrow>
       ('f, 'w, 'te) board_env \<Rightarrow> 'b \<Rightarrow> ('g, 'ep, 'f, 'w) board \<Rightarrow>
       (embedded_result \<times> ('g, 'ep, 'f, 'w) board) board_run option" where
  "drive_wasi_guest_blocking rt send recv env budget b =
     (case take_wasi_guest_slot rt (bd_engine b) of
        Panic \<Rightarrow> Some Undefined
      | Done (Inl _, e) \<Rightarrow> Some (Ran (Emb_Rejected, b\<lparr>bd_engine := e\<rparr>))
      | Done (Inr slot, e) \<Rightarrow>
          (case emb_loop rt send recv env budget slot (b\<lparr>bd_engine := e\<rparr>) of
             None \<Rightarrow> None
           | Some Task_Panicked \<Rightarrow> Some Task_Panicked
           | Some Undefined \<Rightarrow> Some Undefined
           | Some (Ran (result, b)) \<Rightarrow>
               (case store_embedded_wasi_guest_slot slot result (bd_engine b) of
                  Panic \<Rightarrow> Some Undefined
                | Done e \<Rightarrow> Some (Ran (result, b\<lparr>bd_engine := e\<rparr>)))))"

section \<open>The endless run\<close>

text \<open>
  For a number of rounds: the engine still runs, it has ended and the board only observes, or it
  panicked because the guest was rejected or a task failed.
\<close>

datatype 'b engine_end = Engine_Running 'b | Engine_Observing 'b | Engine_Panic | Engine_Undefined

fun embedded_observe_forever :: "('f, 'w, 'te) board_env \<Rightarrow> nat \<Rightarrow> 'w \<Rightarrow> 'w" where
  "embedded_observe_forever env 0 w = w"
| "embedded_observe_forever env (Suc n) w = embedded_observe_forever env n (be_wait env (be_observe env w))"

fun engine_rounds ::
    "('g, 'n, 'p, 'b) wasi_runtime \<Rightarrow> ('p, 'x, 'ep, 'w) ep_send \<Rightarrow> ('p, 'x, 'ep, 'w) ep_recv \<Rightarrow>
       ('f, 'w, 'te) board_env \<Rightarrow> 'b \<Rightarrow> nat \<Rightarrow> ('g, 'ep, 'f, 'w) board \<Rightarrow>
       ('g, 'ep, 'f, 'w) board engine_end option" where
  "engine_rounds rt send recv env budget 0 b = Some (Engine_Running b)"
| "engine_rounds rt send recv env budget (Suc n) b =
     (case drive_wasi_guest_blocking rt send recv env budget b of
        None \<Rightarrow> None
      | Some Task_Panicked \<Rightarrow> Some Engine_Panic
      | Some Undefined \<Rightarrow> Some Engine_Undefined
      | Some (Ran (result, b)) \<Rightarrow>
          (case result of
             Emb_Budget_Expired \<Rightarrow>
               engine_rounds rt send recv env budget n (b\<lparr>bd_world := be_observe env (bd_world b)\<rparr>)
           | Emb_Rejected \<Rightarrow> Some Engine_Panic
           | _ \<Rightarrow> Some (Engine_Observing (b\<lparr>bd_world := embedded_observe_forever env n (bd_world b)\<rparr>))))"

definition run_canonical_wasi_engine_forever ::
    "('g, 'n, 'p, 'b) wasi_runtime \<Rightarrow> ('p, 'x, 'ep, 'w) ep_send \<Rightarrow> ('p, 'x, 'ep, 'w) ep_recv \<Rightarrow>
       ('f, 'w, 'te) board_env \<Rightarrow> 'b \<Rightarrow> nat \<Rightarrow> nat \<Rightarrow> nat \<Rightarrow> ('g, 'ep, 'f, 'w) board \<Rightarrow>
       ('g, 'ep, 'f, 'w) board engine_end option" where
  "run_canonical_wasi_engine_forever rt send recv env budget engine_size engine_align rounds b =
     (case blocking_engine_state engine_size engine_align (bd_tasks b) of
        Panic \<Rightarrow> Some Engine_Panic
      | Done _ \<Rightarrow>
          (case (if has_tasks (bd_tasks b)
                 then embedded_poll_once (be_poll env) 0 False (bd_tasks b) (bd_world b)
                 else Passed False (bd_tasks b) (bd_world b)) of
             Passed _ tasks w \<Rightarrow>
               engine_rounds rt send recv env budget rounds (b\<lparr>bd_tasks := tasks, bd_world := w\<rparr>)
           | _ \<Rightarrow> Some Engine_Panic))"

section \<open>The board runs the hosted body\<close>

fun host_result :: "embedded_result \<Rightarrow> guest_result" where
  "host_result Emb_Exit = Drive_Exit"
| "host_result Emb_Budget_Expired = Drive_Budget_Expired"
| "host_result Emb_Terminal_Endpoint = Drive_Rejected"
| "host_result Emb_Rejected = Drive_Rejected"

lemma store_embedded: "store_embedded_wasi_guest_slot slot r e = store_wasi_guest_slot slot (host_result r) e"
  by (cases r) (simp_all add: store_embedded_wasi_guest_slot_def store_wasi_guest_slot_def)

lemma endpoint_failure [simp]: "endpoint_failure error = Emb_Terminal_Endpoint"
  by (simp add: endpoint_failure_def wasi_endpoint_terminal_def)

text \<open>A hosted body breaks out of its inner loop with this result, leaving this engine.\<close>

definition hosted_break ::
    "('g, 'n, 'p, 'b) wasi_runtime \<Rightarrow> ('p, 'x, 'ep, 'w) ep_send \<Rightarrow> ('p, 'x, 'ep, 'w) ep_recv \<Rightarrow>
       ('g, 'ep) wasi_engine \<Rightarrow> event list \<Rightarrow> guest_slot \<Rightarrow> guest_result \<Rightarrow> ('g, 'ep) wasi_engine \<Rightarrow> bool" where
  "hosted_break rt send recv e0 evs slot result e \<longleftrightarrow>
     (\<exists>evs1 ph e1 budget w w2 evs2. host_reach rt send recv e0 (evs @ evs1) ph e1
        \<and> host_step rt send recv budget ph e1 w = (break_drive slot result e w2, evs2))"

lemma hosted_breakI:
  "host_reach rt send recv e0 evs ph e1 \<Longrightarrow>
    host_step rt send recv budget ph e1 w = (break_drive slot result e w2, evs2) \<Longrightarrow>
    hosted_break rt send recv e0 evs slot result e"
  unfolding hosted_break_def by (metis append_Nil2)

lemma hosted_break_prefix:
  "hosted_break rt send recv e0 (evs @ evs') slot result e \<Longrightarrow> hosted_break rt send recv e0 evs slot result e"
  unfolding hosted_break_def append_assoc by blast

lemma poll_embedded_reach:
  assumes "poll_embedded future env ep tasks w = Some (Ran (r, ep', tasks', w'))" "Q ep"
    and "\<And>ep w woke ep1 w1. Q ep \<Longrightarrow> future ep w = (Pending, woke, ep1, w1) \<Longrightarrow> Q ep1"
  shows "\<exists>ep1 w1 woke w2. Q ep1 \<and> future ep1 w1 = (Ready r, woke, ep', w2)"
proof -
  let ?P = "\<lambda>fu en ep tasks w x. fu = future \<longrightarrow> Q ep \<longrightarrow> (\<forall>r ep' tasks' w'. x = Ran (r, ep', tasks', w') \<longrightarrow>
    (\<exists>ep1 w1 woke w2. Q ep1 \<and> future ep1 w1 = (Ready r, woke, ep', w2)))"
  have "?P future env ep tasks w (Ran (r, ep', tasks', w'))"
  proof (rule poll_embedded.raw_induct [where P = ?P, OF _ assms(1)], goal_cases)
    case (1 run fu en ep tasks w x)
    show ?case
    proof (intro impI allI)
      fix r ep' tasks' w'
      assume fu: "fu = future" and q: "Q ep" and x: "x = Ran (r, ep', tasks', w')"
      obtain p woke ep1 w1 where f: "future ep w = (p, woke, ep1, w1)" by (metis prod_cases4)
      show "\<exists>ep1 w1 woke w2. Q ep1 \<and> future ep1 w1 = (Ready r, woke, ep', w2)"
      proof (cases p)
        case (Ready v)
        with 1(2) fu f x q show ?thesis by auto
      next
        case Pending
        with assms(3) [OF q] f have "Q ep1" by blast
        moreover obtain tasks1 w2 where "run future en ep1 tasks1 w2 = Some x"
          using 1(2) Pending f unfolding fu x by (fastforce split: pass_result.splits)
        ultimately show ?thesis using 1(1) x fu by blast
      qed
    qed
  qed
  with assms(2) show ?thesis by blast
qed

lemma on_endpoint_ran:
  assumes "on_endpoint run b = Some (Ran (r, b'))"
  shows "\<exists>ep tasks w. run (we_endpoint (bd_engine b)) (bd_tasks b) (bd_world b) = Some (Ran (r, ep, tasks, w))
    \<and> bd_engine b' = (bd_engine b)\<lparr>we_endpoint := ep\<rparr>"
  using assms by (auto simp: on_endpoint_def split: option.splits board_run.splits)

lemma send_reach:
  assumes "on_endpoint (poll_embedded future env) b = Some (Ran (r, b'))"
    and step: "\<And>e w. host_step rt send recv budget ph e w = step_send future msg slot ph ph2 e w"
    and "host_reach rt send recv e0 evs ph (bd_engine b)"
  shows "case r of
      Inl _ \<Rightarrow> hosted_break rt send recv e0 evs slot Drive_Rejected (bd_engine b')
    | Inr _ \<Rightarrow> host_reach rt send recv e0 (evs @ [Ev_Sent msg]) ph2 (bd_engine b')"
proof -
  let ?e = "bd_engine b"
  from on_endpoint_ran [OF assms(1)] obtain ep' tasks' w' where
    p: "poll_embedded future env (we_endpoint ?e) (bd_tasks b) (bd_world b) = Some (Ran (r, ep', tasks', w'))"
    and b': "bd_engine b' = ?e\<lparr>we_endpoint := ep'\<rparr>" by blast
  let ?Q = "\<lambda>ep. host_reach rt send recv e0 evs ph (?e\<lparr>we_endpoint := ep\<rparr>)"
  have "?Q (we_endpoint ?e)" using assms(3) by simp
  moreover have "?Q ep1" if q: "?Q ep" and f: "future ep w = (Pending, woke, ep1, w1)" for ep w woke ep1 w1
  proof -
    have "host_step rt send recv budget ph (?e\<lparr>we_endpoint := ep\<rparr>) w
        = (Suspended ph woke (?e\<lparr>we_endpoint := ep1\<rparr>) w1, [])"
      using f by (simp add: step step_send_def Let_def)
    from Host_Suspended [OF q this] show ?thesis by simp
  qed
  ultimately obtain ep1 w1 woke w2 where q: "?Q ep1" and f: "future ep1 w1 = (Ready r, woke, ep', w2)"
    using poll_embedded_reach [where Q = ?Q, OF p] by blast
  show ?thesis
  proof (cases r)
    case (Inl error)
    then have "host_step rt send recv budget ph (?e\<lparr>we_endpoint := ep1\<rparr>) w1
        = (break_drive slot Drive_Rejected (bd_engine b') w2, [Ev_Closed])"
      using f b' by (simp add: step step_send_def Let_def)
    from hosted_breakI [OF q this] Inl show ?thesis by simp
  next
    case (Inr u)
    then have "host_step rt send recv budget ph (?e\<lparr>we_endpoint := ep1\<rparr>) w1
        = (Continue ph2 (bd_engine b') w2, [Ev_Sent msg])"
      using f b' by (simp add: step step_send_def Let_def)
    from Host_Continue [OF q this] Inr show ?thesis by simp
  qed
qed

lemma recv_reach:
  assumes "on_endpoint (poll_embedded future env) b = Some (Ran (r, b'))"
    and step: "\<And>e w. host_step rt send recv budget ph e w = step_recv future complete msg slot ph e w"
    and "host_reach rt send recv e0 evs ph (bd_engine b)"
  shows "case r of
      Inl _ \<Rightarrow> hosted_break rt send recv e0 evs slot Drive_Rejected (bd_engine b')
    | Inr v \<Rightarrow> (\<forall>guest ok guest'. slot_guest slot (we_arena (bd_engine b')) = Done guest \<longrightarrow>
        complete v guest = (ok, guest') \<longrightarrow>
        (let e = (bd_engine b')\<lparr>we_arena := put_guest guest' (we_arena (bd_engine b'))\<rparr> in
         if ok then host_reach rt send recv e0 (evs @ [Ev_Received msg, Ev_Completed]) (Ph_Resume slot) e
         else hosted_break rt send recv e0 evs slot Drive_Rejected e))"
proof -
  let ?e = "bd_engine b"
  from on_endpoint_ran [OF assms(1)] obtain ep' tasks' w' where
    p: "poll_embedded future env (we_endpoint ?e) (bd_tasks b) (bd_world b) = Some (Ran (r, ep', tasks', w'))"
    and b': "bd_engine b' = ?e\<lparr>we_endpoint := ep'\<rparr>" by blast
  let ?Q = "\<lambda>ep. host_reach rt send recv e0 evs ph (?e\<lparr>we_endpoint := ep\<rparr>)"
  have "?Q (we_endpoint ?e)" using assms(3) by simp
  moreover have "?Q ep1" if q: "?Q ep" and f: "future ep w = (Pending, woke, ep1, w1)" for ep w woke ep1 w1
  proof -
    have "host_step rt send recv budget ph (?e\<lparr>we_endpoint := ep\<rparr>) w
        = (Suspended ph woke (?e\<lparr>we_endpoint := ep1\<rparr>) w1, [])"
      using f by (simp add: step step_recv_def Let_def)
    from Host_Suspended [OF q this] show ?thesis by simp
  qed
  ultimately obtain ep1 w1 woke w2 where q: "?Q ep1" and f: "future ep1 w1 = (Ready r, woke, ep', w2)"
    using poll_embedded_reach [where Q = ?Q, OF p] by blast
  show ?thesis
  proof (cases r)
    case (Inl error)
    then have "host_step rt send recv budget ph (?e\<lparr>we_endpoint := ep1\<rparr>) w1
        = (break_drive slot Drive_Rejected (bd_engine b') w2, [Ev_Closed])"
      using f b' by (simp add: step step_recv_def Let_def)
    from hosted_breakI [OF q this] Inl show ?thesis by simp
  next
    case (Inr v)
    show ?thesis
      unfolding Inr sum.case
    proof (intro allI impI)
      fix guest ok guest'
      assume g: "slot_guest slot (we_arena (bd_engine b')) = Done guest" and c: "complete v guest = (ok, guest')"
      let ?e2 = "(bd_engine b')\<lparr>we_arena := put_guest guest' (we_arena (bd_engine b'))\<rparr>"
      have h: "host_step rt send recv budget ph (?e\<lparr>we_endpoint := ep1\<rparr>) w1
          = (if ok then (Continue (Ph_Resume slot) ?e2 w2, [Ev_Received msg, Ev_Completed])
             else (break_drive slot Drive_Rejected ?e2 w2, [Ev_Received msg, Ev_Closed]))"
        using f b' Inr g c by (simp add: step step_recv_def Let_def)
      show "let e = ?e2 in
         if ok then host_reach rt send recv e0 (evs @ [Ev_Received msg, Ev_Completed]) (Ph_Resume slot) e
         else hosted_break rt send recv e0 evs slot Drive_Rejected e"
      proof (cases ok)
        case True
        with Host_Continue [OF q] h show ?thesis by (simp add: Let_def)
      next
        case False
        with hosted_breakI [OF q] h show ?thesis by (simp add: Let_def)
      qed
    qed
  qed
qed

lemma poll_embedded_defined:
  assumes "poll_embedded future env ep tasks w = Some x"
  shows "x \<noteq> Undefined"
proof -
  let ?P = "\<lambda>fu en ep tasks w x. x \<noteq> Undefined"
  show ?thesis
  proof (rule poll_embedded.raw_induct [where P = ?P, OF _ assms], goal_cases)
    case (1 run fu en ep tasks w x)
    then show ?case by (auto split: prod.splits poll.splits pass_result.splits if_splits)
  qed
qed

lemma on_endpoint_defined: "on_endpoint (poll_embedded future env) b \<noteq> Some Undefined"
  by (auto simp: on_endpoint_def dest: poll_embedded_defined split: option.split board_run.split)

lemma metric_engine [simp]:
  "bd_engine (snd (metric_begin env b)) = bd_engine b"
  "bd_engine (metric_end rec env start b) = bd_engine b"
  by (simp_all add: metric_begin_def metric_end_def split: prod.split)

lemma metric_begin_engine: "metric_begin env b = (start, b') \<Longrightarrow> bd_engine b' = bd_engine b"
  using metric_engine(1) [of env b] by simp

fun turn_ok ::
    "('g, 'n, 'p, 'b) wasi_runtime \<Rightarrow> ('p, 'x, 'ep, 'w) ep_send \<Rightarrow> ('p, 'x, 'ep, 'w) ep_recv \<Rightarrow>
       ('g, 'ep) wasi_engine \<Rightarrow> event list \<Rightarrow> guest_slot \<Rightarrow>
       ('g, 'ep, 'f, 'w) board turn board_run option \<Rightarrow> bool" where
  "turn_ok rt send recv e0 evs slot (Some (Ran (Again b))) =
     (\<exists>evs'. host_reach rt send recv e0 (evs @ evs') (Ph_Resume slot) (bd_engine b))"
| "turn_ok rt send recv e0 evs slot (Some (Ran (Break r b))) =
     hosted_break rt send recv e0 evs slot (host_result r) (bd_engine b)"
| "turn_ok rt send recv e0 evs slot (Some Undefined) = False"
| "turn_ok rt send recv e0 evs slot _ = True"

lemma turn_ok_prefix:
  "turn_ok rt send recv e0 (evs @ evs') slot t \<Longrightarrow> turn_ok rt send recv e0 evs slot t"
  by (cases "(rt, send, recv, e0, evs, slot, t)" rule: turn_ok.cases)
    (auto dest: hosted_break_prefix simp: append_assoc)

lemma guest_there:
  assumes "engine_start e0" "host_reach rt send recv e0 evs ph e" "phase_slot ph = Some slot"
  obtains g where "slot_guest slot (we_arena e) = Done g"
proof -
  from host_reach_inv [OF assms(2,1)] assms(3) have "slot_live slot (we_arena e)" by (simp add: engine_inv_def)
  then show ?thesis by (rule slot_live_guest) (rule that)
qed

text \<open>The two halves of an exchange, whatever is recorded in between.\<close>

lemma complete_turn:
  assumes start: "engine_start e0"
    and on: "on_endpoint (poll_embedded future env) b = Some (Ran (r, b'))"
    and step: "\<And>e w. host_step rt send recv budget ph e w = step_recv future complete msg slot ph e w"
    and reach: "host_reach rt send recv e0 evs ph (bd_engine b)" and slot: "phase_slot ph = Some slot"
    and b2: "bd_engine b2 = bd_engine b'"
  shows "(\<exists>error. r = Inl error \<and> turn_ok rt send recv e0 evs slot (Some (Ran (Break Emb_Terminal_Endpoint b'))))
    \<or> (\<exists>v ok b3. r = Inr v \<and> on_guest slot (complete v) b2 = Done (ok, b3)
        \<and> (\<forall>b4. bd_engine b4 = bd_engine b3 \<longrightarrow>
            turn_ok rt send recv e0 evs slot (Some (Ran (if ok then Again b4 else Break Emb_Rejected b4)))))"
proof -
  note rr = recv_reach [OF on step reach]
  show ?thesis
  proof (cases r)
    case (Inl error)
    with rr show ?thesis by simp
  next
    case (Inr v)
    from on_endpoint_ran [OF on] have a: "we_arena (bd_engine b') = we_arena (bd_engine b)" by auto
    from guest_there [OF start reach slot] obtain g where
      g: "slot_guest slot (we_arena (bd_engine b')) = Done g" unfolding a by blast
    obtain ok g' where c: "complete v g = (ok, g')" by (metis surj_pair)
    let ?b3 = "b2\<lparr>bd_engine := (bd_engine b2)\<lparr>we_arena := put_guest g' (we_arena (bd_engine b2))\<rparr>\<rparr>"
    have og: "on_guest slot (complete v) b2 = Done (ok, ?b3)" using g c b2 by (simp add: on_guest_def)
    have "turn_ok rt send recv e0 evs slot (Some (Ran (if ok then Again b4 else Break Emb_Rejected b4)))"
      if "bd_engine b4 = bd_engine ?b3" for b4
      using rr that g c b2 unfolding Inr by (cases ok) (auto simp: Let_def)
    with og Inr show ?thesis by blast
  qed
qed

lemma emb_import_ok:
  assumes start: "engine_start e0"
    and reach: "host_reach rt send recv e0 evs (Ph_Send_Request slot n) (bd_engine b)"
  shows "turn_ok rt send recv e0 evs slot (emb_import rt send recv env slot n b)"
proof -
  let ?send = "send_wasi_import_request send (rt_request rt n)"
  let ?recv = "recv_wasi_import_completion recv (rt_import rt n)"
  obtain t1 b1 where m1: "metric_begin env b = (t1, b1)" by (metis surj_pair)
  then have e1: "bd_engine b1 = bd_engine b" by (rule metric_begin_engine)
  show ?thesis
  proof (cases "on_endpoint (poll_embedded ?send env) b1")
    case (Some x)
    then show ?thesis
    proof (cases x)
      case (Ran p)
      then obtain sent b2 where x: "x = Ran (sent, b2)" by (cases p) auto
      note sr = send_reach [OF Some [unfolded x] host_step.simps(3), unfolded e1, OF reach]
      let ?b3 = "metric_end record_appkit_wasi_request_send env t1 b2"
      show ?thesis
      proof (cases sent)
        case (Inl error)
        with sr have "turn_ok rt send recv e0 evs slot (Some (Ran (Break Emb_Terminal_Endpoint ?b3)))" by simp
        with Inl m1 Some x show ?thesis
          by (simp add: emb_import_def Let_def poll_embedded_wasi_unit_def)
      next
        case (Inr u)
        obtain t4 b4 where m4: "metric_begin env ?b3 = (t4, b4)" by (metis surj_pair)
        then have e4: "bd_engine b4 = bd_engine b2" using metric_begin_engine [OF m4] by simp
        let ?evs = "evs @ [Ev_Sent (request_msg (request_variant (rt_request rt n)))]"
        have reach4: "host_reach rt send recv e0 ?evs (Ph_Recv_Completion slot n) (bd_engine b4)"
          using sr Inr e4 by simp
        have emb: "emb_import rt send recv env slot n b
          = (case on_endpoint (poll_embedded ?recv env) b4 of
               Some (Ran (received, b)) \<Rightarrow>
                 let b = metric_end record_appkit_wasi_completion_recv env t4 b in
                 (case received of
                    Inl error \<Rightarrow> Some (Ran (Break (endpoint_failure error) b))
                  | Inr completion \<Rightarrow>
                      (case metric_begin env b of (complete_start, b) \<Rightarrow>
                       (case on_guest slot (rt_complete rt n completion) b of
                          Panic \<Rightarrow> Some Undefined
                        | Done (ok, b) \<Rightarrow>
                            let b = metric_end record_appkit_wasi_complete env complete_start b in
                            Some (Ran (if ok then Again b else Break Emb_Rejected b)))))
             | Some Task_Panicked \<Rightarrow> Some Task_Panicked
             | Some Undefined \<Rightarrow> Some Undefined
             | None \<Rightarrow> None)"
          using m1 Some x Inr m4
          by (simp add: emb_import_def Let_def poll_embedded_wasi_unit_def poll_embedded_wasi_value_def)
        have "turn_ok rt send recv e0 ?evs slot (emb_import rt send recv env slot n b)"
        proof (cases "on_endpoint (poll_embedded ?recv env) b4")
          case (Some y)
          then show ?thesis
          proof (cases y)
            case (Ran q)
            then obtain received b5 where y: "y = Ran (received, b5)" by (cases q) auto
            let ?b6 = "metric_end record_appkit_wasi_completion_recv env t4 b5"
            obtain t7 b7 where m7: "metric_begin env ?b6 = (t7, b7)" by (metis surj_pair)
            then have e7: "bd_engine b7 = bd_engine b5" using metric_begin_engine [OF m7] by simp
            from complete_turn [OF start Some [unfolded y] host_step.simps(4) reach4 _ e7] show ?thesis
              unfolding emb Some y using m7 by (fastforce simp: Let_def)
          qed (use Some emb on_endpoint_defined [of ?recv env b4] in simp_all)
        qed (use emb in simp)
        then show ?thesis by (rule turn_ok_prefix)
      qed
    qed (use Some m1 on_endpoint_defined [of ?send env b1] in
        \<open>simp_all add: emb_import_def poll_embedded_wasi_unit_def\<close>)
  qed (use m1 in \<open>simp add: emb_import_def poll_embedded_wasi_unit_def\<close>)
qed

lemma emb_grow_ok:
  assumes start: "engine_start e0"
    and reach: "host_reach rt send recv e0 evs (Ph_Send_Grow slot n) (bd_engine b)"
  shows "turn_ok rt send recv e0 evs slot (emb_grow rt send recv env slot n b)"
proof -
  let ?send = "send_memory_grow_request send (rt_grow_request rt n)"
  let ?recv = "recv_memory_grow_decision recv"
  show ?thesis
  proof (cases "on_endpoint (poll_embedded ?send env) b")
    case (Some x)
    then show ?thesis
    proof (cases x)
      case (Ran p)
      then obtain sent b2 where x: "x = Ran (sent, b2)" by (cases p) auto
      note sr = send_reach [OF Some [unfolded x] host_step.simps(5), OF reach]
      show ?thesis
      proof (cases sent)
        case (Inl error)
        with sr Some x show ?thesis by (simp add: emb_grow_def poll_embedded_wasi_unit_def)
      next
        case (Inr u)
        let ?evs = "evs @ [Ev_Sent MemoryGrowReqMsg]"
        have reach2: "host_reach rt send recv e0 ?evs (Ph_Recv_Decision slot n) (bd_engine b2)"
          using sr Inr by simp
        have emb: "emb_grow rt send recv env slot n b
          = (case on_endpoint (poll_embedded ?recv env) b2 of
               Some (Ran (Inl error, b)) \<Rightarrow> Some (Ran (Break (endpoint_failure error) b))
             | Some (Ran (Inr decision, b)) \<Rightarrow>
                 (case on_guest slot (rt_grow_complete rt n decision) b of
                    Panic \<Rightarrow> Some Undefined
                  | Done (ok, b) \<Rightarrow> Some (Ran (if ok then Again b else Break Emb_Rejected b)))
             | Some Task_Panicked \<Rightarrow> Some Task_Panicked
             | Some Undefined \<Rightarrow> Some Undefined
             | None \<Rightarrow> None)"
          using Some x Inr
          by (simp add: emb_grow_def poll_embedded_wasi_unit_def poll_embedded_wasi_value_def)
        have "turn_ok rt send recv e0 ?evs slot (emb_grow rt send recv env slot n b)"
        proof (cases "on_endpoint (poll_embedded ?recv env) b2")
          case (Some y)
          then show ?thesis
          proof (cases y)
            case (Ran q)
            then obtain received b5 where y: "y = Ran (received, b5)" by (cases q) auto
            from complete_turn [OF start Some [unfolded y] host_step.simps(6) reach2 _ refl] show ?thesis
              unfolding emb Some y by fastforce
          qed (use Some emb on_endpoint_defined [of ?recv env b2] in simp_all)
        qed (use emb in simp)
        then show ?thesis by (rule turn_ok_prefix)
      qed
    qed (use Some on_endpoint_defined [of ?send env b] in
        \<open>simp_all add: emb_grow_def poll_embedded_wasi_unit_def\<close>)
  qed (simp add: emb_grow_def poll_embedded_wasi_unit_def)
qed

lemma emb_turn_ok:
  assumes start: "engine_start e0"
    and reach: "host_reach rt send recv e0 evs (Ph_Resume slot) (bd_engine b)"
  shows "turn_ok rt send recv e0 evs slot (emb_turn rt send recv env budget slot b)"
proof -
  obtain t1 b1 where m1: "metric_begin env b = (t1, b1)" by (metis surj_pair)
  then have e1: "bd_engine b1 = bd_engine b" by (rule metric_begin_engine)
  from guest_there [OF start reach] obtain g where g: "slot_guest slot (we_arena (bd_engine b)) = Done g" by auto
  obtain r g' where r: "rt_resume rt budget g = (r, g')" by (metis surj_pair)
  let ?e = "(bd_engine b)\<lparr>we_arena := put_guest g' (we_arena (bd_engine b))\<rparr>"
  let ?b = "metric_end record_appkit_wasi_resume env t1 (b1\<lparr>bd_engine := ?e\<rparr>)"
  have emb: "emb_turn rt send recv env budget slot b =
      (case r of
         None \<Rightarrow> Some (Ran (Break Emb_Rejected ?b))
       | Some (Import_Pending pending) \<Rightarrow> emb_import rt send recv env slot pending ?b
       | Some (Memory_Grow_Pending pending) \<Rightarrow> emb_grow rt send recv env slot pending ?b
       | Some Budget_Expired \<Rightarrow> Some (Ran (Break Emb_Budget_Expired ?b))
       | Some Guest_Exit \<Rightarrow> Some (Ran (Break Emb_Exit ?b)))"
    using m1 e1 g r by (simp add: emb_turn_def on_guest_def Let_def)
  have b: "bd_engine ?b = ?e" by simp
  have step: "host_step rt send recv budget (Ph_Resume slot) (bd_engine b) w =
      (case r of
         None \<Rightarrow> (break_drive slot Drive_Rejected ?e w, [Ev_Resumed, Ev_Closed])
       | Some (Import_Pending pending) \<Rightarrow> (Continue (Ph_Send_Request slot pending) ?e w, [Ev_Resumed])
       | Some (Memory_Grow_Pending pending) \<Rightarrow> (Continue (Ph_Send_Grow slot pending) ?e w, [Ev_Resumed])
       | Some Budget_Expired \<Rightarrow> (break_drive slot Drive_Budget_Expired ?e w, [Ev_Resumed])
       | Some Guest_Exit \<Rightarrow> (break_drive slot Drive_Exit ?e w, [Ev_Resumed, Ev_Closed]))" for w
    using g r by (simp add: step_resume_def Let_def)
  show ?thesis
  proof (cases r)
    case None
    with step have "host_step rt send recv budget (Ph_Resume slot) (bd_engine b) (bd_world b)
        = (break_drive slot Drive_Rejected ?e (bd_world b), [Ev_Resumed, Ev_Closed])" by simp
    from hosted_breakI [OF reach this] None b show ?thesis unfolding emb by simp
  next
    case (Some s)
    show ?thesis
    proof (cases s)
      case (Import_Pending n)
      from Some Import_Pending step have "host_step rt send recv budget (Ph_Resume slot) (bd_engine b) (bd_world b)
          = (Continue (Ph_Send_Request slot n) ?e (bd_world b), [Ev_Resumed])" by simp
      from Host_Continue [OF reach this]
      have "host_reach rt send recv e0 (evs @ [Ev_Resumed]) (Ph_Send_Request slot n) (bd_engine ?b)" unfolding b .
      from emb_import_ok [OF start this] show ?thesis
        unfolding emb Some Import_Pending option.case boundary_step.case by (rule turn_ok_prefix)
    next
      case (Memory_Grow_Pending n)
      from Some Memory_Grow_Pending step have "host_step rt send recv budget (Ph_Resume slot) (bd_engine b) (bd_world b)
          = (Continue (Ph_Send_Grow slot n) ?e (bd_world b), [Ev_Resumed])" by simp
      from Host_Continue [OF reach this]
      have "host_reach rt send recv e0 (evs @ [Ev_Resumed]) (Ph_Send_Grow slot n) (bd_engine ?b)" unfolding b .
      from emb_grow_ok [OF start this] show ?thesis
        unfolding emb Some Memory_Grow_Pending option.case boundary_step.case by (rule turn_ok_prefix)
    next
      case Budget_Expired
      with Some step have "host_step rt send recv budget (Ph_Resume slot) (bd_engine b) (bd_world b)
          = (break_drive slot Drive_Budget_Expired ?e (bd_world b), [Ev_Resumed])" by simp
      from hosted_breakI [OF reach this] Some Budget_Expired b show ?thesis unfolding emb by simp
    next
      case Guest_Exit
      with Some step have "host_step rt send recv budget (Ph_Resume slot) (bd_engine b) (bd_world b)
          = (break_drive slot Drive_Exit ?e (bd_world b), [Ev_Resumed, Ev_Closed])" by simp
      from hosted_breakI [OF reach this] Some Guest_Exit b show ?thesis unfolding emb by simp
    qed
  qed
qed

fun loop_ok ::
    "('g, 'n, 'p, 'b) wasi_runtime \<Rightarrow> ('p, 'x, 'ep, 'w) ep_send \<Rightarrow> ('p, 'x, 'ep, 'w) ep_recv \<Rightarrow>
       ('g, 'ep) wasi_engine \<Rightarrow> event list \<Rightarrow> guest_slot \<Rightarrow>
       (embedded_result \<times> ('g, 'ep, 'f, 'w) board) board_run \<Rightarrow> bool" where
  "loop_ok rt send recv e0 evs slot (Ran (r, b)) = hosted_break rt send recv e0 evs slot (host_result r) (bd_engine b)"
| "loop_ok rt send recv e0 evs slot Undefined = False"
| "loop_ok rt send recv e0 evs slot Task_Panicked = True"

lemma loop_ok_prefix:
  "loop_ok rt send recv e0 (evs @ evs') slot x \<Longrightarrow> loop_ok rt send recv e0 evs slot x"
  by (cases "(rt, send, recv, e0, evs, slot, x)" rule: loop_ok.cases) (auto dest: hosted_break_prefix)

lemma emb_loop_ok:
  assumes "emb_loop rt send recv env budget slot b = Some x" and start: "engine_start e0"
    and "host_reach rt send recv e0 evs (Ph_Resume slot) (bd_engine b)"
  shows "loop_ok rt send recv e0 evs slot x"
proof -
  let ?P = "\<lambda>rt send recv env budget slot b x. \<forall>evs.
    host_reach rt send recv e0 evs (Ph_Resume slot) (bd_engine b) \<longrightarrow> loop_ok rt send recv e0 evs slot x"
  have "?P rt send recv env budget slot b x"
  proof (rule emb_loop.raw_induct [where P = ?P, OF _ assms(1)], goal_cases)
    case (1 run rt send recv env budget slot b x)
    show ?case
    proof (intro allI impI)
      fix evs assume reach: "host_reach rt send recv e0 evs (Ph_Resume slot) (bd_engine b)"
      note t = emb_turn_ok [OF start reach, of env budget]
      show "loop_ok rt send recv e0 evs slot x"
      proof (cases "emb_turn rt send recv env budget slot b")
        case (Some y)
        show ?thesis
        proof (cases y)
          case (Ran turn)
          show ?thesis
          proof (cases turn)
            case (Again b')
            with t Some Ran obtain evs' where
              "host_reach rt send recv e0 (evs @ evs') (Ph_Resume slot) (bd_engine b')" by auto
            moreover have "run rt send recv env budget slot b' = Some x" using 1(2) Some Ran Again by simp
            ultimately have "loop_ok rt send recv e0 (evs @ evs') slot x" using 1(1) by blast
            then show ?thesis by (rule loop_ok_prefix)
          next
            case (Break r b')
            with t Some Ran 1(2) show ?thesis by auto
          qed
        qed (use t Some 1(2) in auto)
      qed (use 1(2) in simp)
    qed
  qed
  with assms(3) show ?thesis by blast
qed

text \<open>A hosted engine fails its task and leaves this engine.\<close>

definition hosted_rejects ::
    "('g, 'n, 'p, 'b) wasi_runtime \<Rightarrow> ('p, 'x, 'ep, 'w) ep_send \<Rightarrow> ('p, 'x, 'ep, 'w) ep_recv \<Rightarrow>
       ('g, 'ep) wasi_engine \<Rightarrow> event list \<Rightarrow> ('g, 'ep) wasi_engine \<Rightarrow> bool" where
  "hosted_rejects rt send recv e0 evs e \<longleftrightarrow>
     (\<exists>evs1 ph e1 budget w w2. host_reach rt send recv e0 (evs @ evs1) ph e1
        \<and> fst (host_step rt send recv budget ph e1 w) = Task_Rejected e w2)"

fun drive_ok ::
    "('g, 'n, 'p, 'b) wasi_runtime \<Rightarrow> ('p, 'x, 'ep, 'w) ep_send \<Rightarrow> ('p, 'x, 'ep, 'w) ep_recv \<Rightarrow>
       ('g, 'ep) wasi_engine \<Rightarrow> event list \<Rightarrow> embedded_result \<Rightarrow> ('g, 'ep) wasi_engine \<Rightarrow> bool" where
  "drive_ok rt send recv e0 evs Emb_Budget_Expired e = (\<exists>evs'. host_reach rt send recv e0 (evs @ evs') Ph_Take e)"
| "drive_ok rt send recv e0 evs Emb_Exit e = (\<exists>evs'. host_reach rt send recv e0 (evs @ evs') Ph_Pending e)"
| "drive_ok rt send recv e0 evs _ e = hosted_rejects rt send recv e0 evs e"

lemma hosted_break_stored:
  assumes "engine_start e0" "hosted_break rt send recv e0 evs slot (host_result r) e"
  shows "\<exists>e'. store_embedded_wasi_guest_slot slot r e = Done e' \<and> drive_ok rt send recv e0 evs r e'"
proof -
  obtain evs1 ph e1 budget w w2 evs2 where h: "host_reach rt send recv e0 (evs @ evs1) ph e1"
    and st: "host_step rt send recv budget ph e1 w = (break_drive slot (host_result r) e w2, evs2)"
    using assms(2) unfolding hosted_break_def by blast
  from host_step_inv [OF host_reach_inv [OF h assms(1)], of rt send recv budget w] st
  have "fst (host_step rt send recv budget ph e1 w) \<noteq> Fault" by force
  with st obtain e' where e': "store_wasi_guest_slot slot (host_result r) e = Done e'"
    by (auto simp: break_drive_def split: outcome.splits)
  have "drive_ok rt send recv e0 evs r e'"
  proof (cases r)
    case Emb_Exit
    with st e' have "host_step rt send recv budget ph e1 w = (Continue Ph_Pending e' w2, evs2)"
      by (simp add: break_drive_def)
    from Host_Continue [OF h this] Emb_Exit show ?thesis by auto
  next
    case Emb_Budget_Expired
    with st e' have "host_step rt send recv budget ph e1 w = (Continue Ph_Take e' w2, evs2)"
      by (simp add: break_drive_def)
    from Host_Continue [OF h this] Emb_Budget_Expired show ?thesis by auto
  next
    case Emb_Terminal_Endpoint
    with st e' have "fst (host_step rt send recv budget ph e1 w) = Task_Rejected e' w2"
      by (simp add: break_drive_def)
    with h show ?thesis unfolding Emb_Terminal_Endpoint drive_ok.simps hosted_rejects_def by blast
  next
    case Emb_Rejected
    with st e' have "fst (host_step rt send recv budget ph e1 w) = Task_Rejected e' w2"
      by (simp add: break_drive_def)
    with h show ?thesis unfolding Emb_Rejected drive_ok.simps hosted_rejects_def by blast
  qed
  with e' show ?thesis by (simp add: store_embedded)
qed

lemma drive_is_hosted:
  assumes start: "engine_start e0" and reach: "host_reach rt send recv e0 evs Ph_Take (bd_engine b)"
    and drive: "drive_wasi_guest_blocking rt send recv env budget b = Some x"
  shows "case x of Ran (r, b') \<Rightarrow> drive_ok rt send recv e0 evs r (bd_engine b')
    | Task_Panicked \<Rightarrow> True | Undefined \<Rightarrow> False"
proof -
  from host_step_inv [OF host_reach_inv [OF reach start], of rt send recv budget "bd_world b"]
  have "fst (host_step rt send recv budget Ph_Take (bd_engine b) (bd_world b)) \<noteq> Fault" by force
  then obtain r e where t: "take_wasi_guest_slot rt (bd_engine b) = Done (r, e)"
    by (auto simp: step_take_def split: outcome.splits)
  show ?thesis
  proof (cases r)
    case (Inl u)
    have "fst (host_step rt send recv budget Ph_Take (bd_engine b) (bd_world b)) = Task_Rejected e (bd_world b)"
      using t Inl by (simp add: step_take_def)
    then have "hosted_rejects rt send recv e0 evs e"
      using reach unfolding hosted_rejects_def by (metis append_Nil2)
    with drive t Inl show ?thesis by (auto simp: drive_wasi_guest_blocking_def)
  next
    case (Inr slot)
    have "host_step rt send recv budget Ph_Take (bd_engine b) (bd_world b) = (Continue (Ph_Resume slot) e (bd_world b), [])"
      using t Inr by (simp add: step_take_def)
    from Host_Continue [OF reach this] have reach': "host_reach rt send recv e0 evs (Ph_Resume slot) e" by simp
    obtain y where y: "emb_loop rt send recv env budget slot (b\<lparr>bd_engine := e\<rparr>) = Some y"
      using drive t Inr by (auto simp: drive_wasi_guest_blocking_def split: option.splits)
    note l = emb_loop_ok [OF y start, of evs]
    show ?thesis
    proof (cases y)
      case (Ran p)
      then obtain r1 b1 where y': "y = Ran (r1, b1)" by (cases p) auto
      with l reach' have "hosted_break rt send recv e0 evs slot (host_result r1) (bd_engine b1)" by simp
      from hosted_break_stored [OF start this] obtain e' where
        "store_embedded_wasi_guest_slot slot r1 (bd_engine b1) = Done e'" "drive_ok rt send recv e0 evs r1 e'" by blast
      with drive t Inr y y' show ?thesis by (auto simp: drive_wasi_guest_blocking_def)
    qed (use l reach' drive t Inr y in \<open>auto simp: drive_wasi_guest_blocking_def\<close>)
  qed
qed

section \<open>Boards survive endpoint errors\<close>

definition tasks_calm :: "('f, 'w, 'te) board_env \<Rightarrow> bool" where
  "tasks_calm env \<longleftrightarrow> (\<forall>f w. fst (be_poll env f w) = None)"

definition guest_sound :: "('g, 'n, 'p, 'b) wasi_runtime \<Rightarrow> bool" where
  "guest_sound rt \<longleftrightarrow> (\<forall>m mem. rt_init rt m mem \<noteq> None) \<and> (\<forall>b g. fst (rt_resume rt b g) \<noteq> None)
     \<and> (\<forall>n c g. fst (rt_complete rt n c g)) \<and> (\<forall>n c g. fst (rt_grow_complete rt n c g))"

lemma pass_list_calm:
  assumes "tasks_calm env"
  shows "\<exists>b' fs' w'. pass_list (be_poll env) b fs w = Passed b' fs' w'"
proof (induction fs arbitrary: b w)
  case (Cons f fs)
  obtain res b1 f1 w1 where p: "be_poll env f w = (res, b1, f1, w1)" by (metis prod_cases4)
  with assms have "res = None" unfolding tasks_calm_def by (metis fst_conv)
  moreover obtain b' fs' w' where "pass_list (be_poll env) (b \<or> b1) fs w1 = Passed b' fs' w'"
    using Cons by blast
  ultimately show ?case using p by simp
qed simp

lemma poll_once_calm:
  assumes "tasks_calm env" "embedded_inv tasks"
  shows "\<exists>b' tasks' w'. embedded_poll_once (be_poll env) 0 b tasks w = Passed b' tasks' w' \<and> embedded_inv tasks'"
proof -
  obtain b' fs' w' where "pass_list (be_poll env) b (embedded_futures tasks) w = Passed b' fs' w'"
    using pass_list_calm [OF assms(1)] by blast
  with embedded_poll_refines [OF assms(2), of 0 "be_poll env" b w] show ?thesis by auto
qed

lemma poll_embedded_calm:
  assumes "poll_embedded future env ep tasks w = Some x" "tasks_calm env" "embedded_inv tasks"
  shows "\<exists>r ep' tasks' w'. x = Ran (r, ep', tasks', w') \<and> embedded_inv tasks'"
proof -
  let ?P = "\<lambda>fu en ep tasks w x. tasks_calm en \<longrightarrow> embedded_inv tasks \<longrightarrow>
    (\<exists>r ep' tasks' w'. x = Ran (r, ep', tasks', w') \<and> embedded_inv tasks')"
  have "?P future env ep tasks w x"
  proof (rule poll_embedded.raw_induct [where P = ?P, OF _ assms(1)], goal_cases)
    case (1 run fu en ep tasks w x)
    show ?case
    proof (intro impI)
      assume calm: "tasks_calm en" and inv: "embedded_inv tasks"
      obtain p woke ep1 w1 where f: "fu ep w = (p, woke, ep1, w1)" by (metis prod_cases4)
      show "\<exists>r ep' tasks' w'. x = Ran (r, ep', tasks', w') \<and> embedded_inv tasks'"
      proof (cases p)
        case (Ready v)
        with 1(2) f inv show ?thesis by auto
      next
        case Pending
        obtain b' tasks1 w2 where "(if has_tasks tasks then embedded_poll_once (be_poll en) 0 woke tasks w1
            else Passed woke tasks w1) = Passed b' tasks1 w2" "embedded_inv tasks1"
          using poll_once_calm [OF calm inv, of woke w1] inv by (cases "has_tasks tasks") auto
        moreover from this 1(2) f Pending have
          "run fu en ep1 tasks1 (if b' then w2 else be_wait en w2) = Some x" by simp
        ultimately show ?thesis using 1(1) calm by blast
      qed
    qed
  qed
  with assms(2,3) show ?thesis by blast
qed

lemma on_endpoint_calm:
  assumes "on_endpoint (poll_embedded future env) b = Some x" "tasks_calm env" "embedded_inv (bd_tasks b)"
  shows "\<exists>r b'. x = Ran (r, b') \<and> embedded_inv (bd_tasks b')"
proof -
  obtain y where y: "poll_embedded future env (we_endpoint (bd_engine b)) (bd_tasks b) (bd_world b) = Some y"
    using assms(1) by (auto simp: on_endpoint_def split: option.splits)
  from poll_embedded_calm [OF y assms(2,3)] assms(1) y show ?thesis by (auto simp: on_endpoint_def)
qed

lemma metric_tasks [simp]:
  "bd_tasks (snd (metric_begin env b)) = bd_tasks b"
  "bd_tasks (metric_end rec env start b) = bd_tasks b"
  by (simp_all add: metric_begin_def metric_end_def split: prod.split)

lemma metric_begin_tasks: "metric_begin env b = (start, b') \<Longrightarrow> bd_tasks b' = bd_tasks b"
  using metric_tasks(1) [of env b] by simp

lemma on_guest_tasks:
  "on_guest slot f b = Done (r, b') \<Longrightarrow> bd_tasks b' = bd_tasks b \<and> (\<exists>g. r = fst (f g))"
  by (cases "slot_guest slot (we_arena (bd_engine b))") (auto simp: on_guest_def split: prod.splits, metis fst_conv)

text \<open>A turn neither fails with a task nor with the guest.\<close>

fun turn_calm :: "('g, 'ep, 'f, 'w) board turn board_run option \<Rightarrow> bool" where
  "turn_calm (Some (Ran (Again b))) = embedded_inv (bd_tasks b)"
| "turn_calm (Some (Ran (Break r b))) = (r \<noteq> Emb_Rejected \<and> embedded_inv (bd_tasks b))"
| "turn_calm (Some Task_Panicked) = False"
| "turn_calm _ = True"

lemma on_guest_sound:
  assumes "guest_sound rt"
  shows "on_guest slot (rt_complete rt n c) b = Done (ok, b') \<Longrightarrow> ok"
    and "on_guest slot (rt_grow_complete rt n d) b = Done (ok, b') \<Longrightarrow> ok"
    and "on_guest slot (rt_resume rt budget) b = Done (step, b') \<Longrightarrow> step \<noteq> None"
  using assms by (auto dest!: on_guest_tasks simp: guest_sound_def)

lemma emb_import_calm:
  assumes rt: "guest_sound rt" and calm: "tasks_calm env" and inv: "embedded_inv (bd_tasks b)"
  shows "turn_calm (emb_import rt send recv env slot n b)"
proof -
  let ?send = "send_wasi_import_request send (rt_request rt n)"
  let ?recv = "recv_wasi_import_completion recv (rt_import rt n)"
  obtain t1 b1 where m1: "metric_begin env b = (t1, b1)" by (metis surj_pair)
  with inv have inv1: "embedded_inv (bd_tasks b1)" by (simp add: metric_begin_tasks)
  show ?thesis
  proof (cases "on_endpoint (poll_embedded ?send env) b1")
    case (Some x)
    from on_endpoint_calm [OF Some calm inv1] obtain sent b2 where
      x: "x = Ran (sent, b2)" and inv2: "embedded_inv (bd_tasks b2)" by blast
    let ?b3 = "metric_end record_appkit_wasi_request_send env t1 b2"
    show ?thesis
    proof (cases sent)
      case (Inl error)
      with m1 Some x inv2 show ?thesis by (simp add: emb_import_def Let_def poll_embedded_wasi_unit_def)
    next
      case (Inr u)
      obtain t4 b4 where m4: "metric_begin env ?b3 = (t4, b4)" by (metis surj_pair)
      with inv2 have inv4: "embedded_inv (bd_tasks b4)" using metric_begin_tasks [OF m4] by simp
      show ?thesis
      proof (cases "on_endpoint (poll_embedded ?recv env) b4")
        case None
        with m1 Some x Inr m4 show ?thesis
          by (simp add: emb_import_def Let_def poll_embedded_wasi_unit_def poll_embedded_wasi_value_def)
      next
        case (Some y)
        note recv_some = this
        from on_endpoint_calm [OF Some calm inv4] obtain received b5 where
          y: "y = Ran (received, b5)" and inv5: "embedded_inv (bd_tasks b5)" by blast
        let ?b6 = "metric_end record_appkit_wasi_completion_recv env t4 b5"
        obtain t7 b7 where m7: "metric_begin env ?b6 = (t7, b7)" by (metis surj_pair)
        with inv5 have inv7: "embedded_inv (bd_tasks b7)" using metric_begin_tasks [OF m7] by simp
        show ?thesis
          using m1 \<open>on_endpoint (poll_embedded ?send env) b1 = Some x\<close> x Inr m4 Some y m7 inv5 inv7
          by (cases received)
            (auto simp: emb_import_def Let_def poll_embedded_wasi_unit_def poll_embedded_wasi_value_def
              split: outcome.split dest: on_guest_tasks on_guest_sound(1) [OF rt])
      qed
    qed
  qed (use m1 in \<open>simp add: emb_import_def poll_embedded_wasi_unit_def\<close>)
qed

lemma emb_grow_calm:
  assumes rt: "guest_sound rt" and calm: "tasks_calm env" and inv: "embedded_inv (bd_tasks b)"
  shows "turn_calm (emb_grow rt send recv env slot n b)"
proof -
  let ?send = "send_memory_grow_request send (rt_grow_request rt n)"
  let ?recv = "recv_memory_grow_decision recv"
  show ?thesis
  proof (cases "on_endpoint (poll_embedded ?send env) b")
    case (Some x)
    from on_endpoint_calm [OF Some calm inv] obtain sent b2 where
      x: "x = Ran (sent, b2)" and inv2: "embedded_inv (bd_tasks b2)" by blast
    show ?thesis
    proof (cases sent)
      case (Inl error)
      with Some x inv2 show ?thesis by (simp add: emb_grow_def poll_embedded_wasi_unit_def)
    next
      case (Inr u)
      show ?thesis
      proof (cases "on_endpoint (poll_embedded ?recv env) b2")
        case None
        with Some x Inr show ?thesis
          by (simp add: emb_grow_def poll_embedded_wasi_unit_def poll_embedded_wasi_value_def)
      next
        case (Some y)
        from on_endpoint_calm [OF Some calm inv2] obtain received b5 where
          y: "y = Ran (received, b5)" and inv5: "embedded_inv (bd_tasks b5)" by blast
        show ?thesis
          using \<open>on_endpoint (poll_embedded ?send env) b = Some x\<close> x Inr Some y inv5
          by (cases received)
            (auto simp: emb_grow_def poll_embedded_wasi_unit_def poll_embedded_wasi_value_def
              split: outcome.split dest: on_guest_tasks on_guest_sound(2) [OF rt])
      qed
    qed
  qed (simp add: emb_grow_def poll_embedded_wasi_unit_def)
qed

lemma emb_turn_calm:
  assumes rt: "guest_sound rt" and calm: "tasks_calm env" and inv: "embedded_inv (bd_tasks b)"
  shows "turn_calm (emb_turn rt send recv env budget slot b)"
proof -
  obtain t1 b1 where m1: "metric_begin env b = (t1, b1)" by (metis surj_pair)
  with inv have inv1: "embedded_inv (bd_tasks b1)" by (simp add: metric_begin_tasks)
  show ?thesis
  proof (cases "on_guest slot (rt_resume rt budget) b1")
    case (Done p)
    obtain r b2 where p: "p = (r, b2)" by (metis surj_pair)
    let ?b = "metric_end record_appkit_wasi_resume env t1 b2"
    from Done p on_guest_tasks inv1 have inv2: "embedded_inv (bd_tasks ?b)" by fastforce
    from on_guest_sound(3) [OF rt] Done p obtain s where s: "r = Some s" by blast
    show ?thesis
      using m1 Done p s inv2 emb_import_calm [OF rt calm inv2] emb_grow_calm [OF rt calm inv2]
      by (cases s) (simp_all add: emb_turn_def Let_def)
  qed (use m1 in \<open>simp add: emb_turn_def\<close>)
qed

fun drive_calm :: "(embedded_result \<times> ('g, 'ep, 'f, 'w) board) board_run \<Rightarrow> bool" where
  "drive_calm (Ran (r, b)) = (r \<noteq> Emb_Rejected \<and> embedded_inv (bd_tasks b))"
| "drive_calm Task_Panicked = False"
| "drive_calm Undefined = True"

lemma emb_loop_calm:
  assumes "emb_loop rt send recv env budget slot b = Some x" "guest_sound rt" "tasks_calm env"
    "embedded_inv (bd_tasks b)"
  shows "drive_calm x"
proof -
  let ?P = "\<lambda>rt send recv env budget slot b x. guest_sound rt \<longrightarrow> tasks_calm env \<longrightarrow>
    embedded_inv (bd_tasks b) \<longrightarrow> drive_calm x"
  have "?P rt send recv env budget slot b x"
  proof (rule emb_loop.raw_induct [where P = ?P, OF _ assms(1)], goal_cases)
    case (1 run rt send recv env budget slot b x)
    show ?case
    proof (intro impI)
      assume a: "guest_sound rt" "tasks_calm env" "embedded_inv (bd_tasks b)"
      note t = emb_turn_calm [OF a, of send recv budget slot]
      show "drive_calm x"
      proof (cases "emb_turn rt send recv env budget slot b")
        case (Some y)
        show ?thesis
        proof (cases y)
          case (Ran turn)
          with t Some 1 a show ?thesis by (cases turn) auto
        qed (use t Some 1(2) in auto)
      qed (use 1(2) in simp)
    qed
  qed
  with assms show ?thesis by blast
qed

lemma drive_blocking_calm:
  assumes "drive_wasi_guest_blocking rt send recv env budget b = Some x" "guest_sound rt" "tasks_calm env"
    "embedded_inv (bd_tasks b)" "engine_inv Ph_Take (bd_engine b)"
  shows "drive_calm x"
proof -
  have "\<exists>slot e. take_wasi_guest_slot rt (bd_engine b) = Done (Inr slot, e)"
    using assms(2,5)
    by (auto simp: take_wasi_guest_slot_def engine_inv_def guest_sound_def slot_init_def Let_def
        split: option.splits) (metis option.distinct(1))
  then obtain slot e where t: "take_wasi_guest_slot rt (bd_engine b) = Done (Inr slot, e)" by blast
  let ?b = "b\<lparr>bd_engine := e\<rparr>"
  obtain y where y: "emb_loop rt send recv env budget slot ?b = Some y"
    using assms(1) t by (auto simp: drive_wasi_guest_blocking_def split: option.splits)
  have "embedded_inv (bd_tasks ?b)" using assms(4) by simp
  from emb_loop_calm [OF y assms(2,3) this] assms(1) t y show ?thesis
    by (cases y) (auto simp: drive_wasi_guest_blocking_def split: outcome.splits)
qed

lemma rejects_released:
  assumes "engine_start e0" "hosted_rejects rt send recv e0 evs e"
  shows "engine_released e"
proof -
  obtain evs1 ph e1 budget w w2 where "host_reach rt send recv e0 (evs @ evs1) ph e1"
    "fst (host_step rt send recv budget ph e1 w) = Task_Rejected e w2"
    using assms(2) unfolding hosted_rejects_def by blast
  with host_step_inv [OF host_reach_inv [OF _ assms(1)], of rt send recv "evs @ evs1" ph e1 rt send recv budget w]
  show ?thesis by simp
qed

lemma engine_rounds_ok:
  assumes "engine_rounds rt send recv env budget n b = Some x" "engine_start e0"
    "host_reach rt send recv e0 evs Ph_Take (bd_engine b)"
  shows "case x of Engine_Undefined \<Rightarrow> False
    | Engine_Panic \<Rightarrow> \<not> (guest_sound rt \<and> tasks_calm env \<and> embedded_inv (bd_tasks b))
    | Engine_Observing b' \<Rightarrow> engine_released (bd_engine b') \<and>
        (\<exists>evs'. host_reach rt send recv e0 (evs @ evs') Ph_Pending (bd_engine b')
          \<or> hosted_rejects rt send recv e0 (evs @ evs') (bd_engine b'))
    | Engine_Running b' \<Rightarrow> \<exists>evs'. host_reach rt send recv e0 (evs @ evs') Ph_Take (bd_engine b')"
  using assms
proof (induction n arbitrary: b evs)
  case 0
  then show ?case by (auto intro!: exI [of _ "[]"])
next
  case (Suc n)
  obtain y where y: "drive_wasi_guest_blocking rt send recv env budget b = Some y"
    using Suc.prems(1) by (auto split: option.splits)
  note d = drive_is_hosted [OF Suc.prems(2,3) y]
  note c = drive_blocking_calm [OF y _ _ _ host_reach_inv [OF Suc.prems(3,2)]]
  show ?case
  proof (cases y)
    case (Ran p)
    then obtain r b1 where y': "y = Ran (r, b1)" by (cases p) auto
    let ?b = "b1\<lparr>bd_world := be_observe env (bd_world b1)\<rparr>"
    show ?thesis
    proof (cases r)
      case Emb_Budget_Expired
      with d y' obtain evs' where r: "host_reach rt send recv e0 (evs @ evs') Ph_Take (bd_engine ?b)" by auto
      have "engine_rounds rt send recv env budget n ?b = Some x"
        using Suc.prems(1) y y' Emb_Budget_Expired by simp
      note IH = Suc.IH [OF this Suc.prems(2) r]
      show ?thesis
      proof (cases x)
        case Engine_Panic
        with IH c y' Emb_Budget_Expired show ?thesis by auto
      qed (use IH in \<open>auto simp: append_assoc\<close>)
    next
      case Emb_Exit
      with d y' obtain evs' where r: "host_reach rt send recv e0 (evs @ evs') Ph_Pending (bd_engine b1)" by auto
      with host_reach_inv [OF r Suc.prems(2)] have "engine_released (bd_engine b1)"
        by (auto simp: engine_inv_def engine_released_def split: option.splits)
      with r Suc.prems(1) y y' Emb_Exit show ?thesis by auto
    next
      case Emb_Terminal_Endpoint
      with d y' have "hosted_rejects rt send recv e0 evs (bd_engine b1)" by simp
      with rejects_released [OF Suc.prems(2) this] Suc.prems(1) y y' Emb_Terminal_Endpoint show ?thesis
        by (auto intro!: exI [of _ "[]"])
    next
      case Emb_Rejected
      with c y' Suc.prems(1) y show ?thesis by auto
    qed
  qed (use d c y Suc.prems(1) in auto)
qed

section \<open>Properties\<close>

text \<open>C8: on the boards the engine does what the hosted engine does: a drive of the guest that returns
  is a run of the hosted body, with the other tasks, the event waits and the metrics in between. It
  never leaves the defined behaviour of the slot, and it ends as the hosted body does: suspended at
  the end of the budget, pending after an exit, and with the guest dropped after any failure.\<close>

theorem board_drive_is_hosted:
  assumes "engine_start e0" and "host_reach rt send recv e0 evs Ph_Take (bd_engine b)"
    and "drive_wasi_guest_blocking rt send recv env budget b = Some x"
  shows "x \<noteq> Undefined \<and> (\<forall>r b'. x = Ran (r, b') \<longrightarrow>
    (case r of
       Emb_Budget_Expired \<Rightarrow> \<exists>evs'. host_reach rt send recv e0 (evs @ evs') Ph_Take (bd_engine b')
     | Emb_Exit \<Rightarrow> \<exists>evs'. host_reach rt send recv e0 (evs @ evs') Ph_Pending (bd_engine b')
     | _ \<Rightarrow> hosted_rejects rt send recv e0 evs (bd_engine b') \<and> engine_released (bd_engine b')))"
proof -
  note d = drive_is_hosted [OF assms]
  then have "x \<noteq> Undefined" by auto
  moreover have "case r of
       Emb_Budget_Expired \<Rightarrow> \<exists>evs'. host_reach rt send recv e0 (evs @ evs') Ph_Take (bd_engine b')
     | Emb_Exit \<Rightarrow> \<exists>evs'. host_reach rt send recv e0 (evs @ evs') Ph_Pending (bd_engine b')
     | _ \<Rightarrow> hosted_rejects rt send recv e0 evs (bd_engine b') \<and> engine_released (bd_engine b')"
    if "x = Ran (r, b')" for r b'
    using d that rejects_released [OF assms(1)] by (cases r) auto
  ultimately show ?thesis by blast
qed

text \<open>The reading guest on a board whose endpoint is down.\<close>

definition down_send :: "(nat, unit, bool, nat) ep_send" where
  "down_send m p ep w = (Ready (Inl ()), False, ep, w)"

definition idle_env :: "(nat, nat, unit) board_env" where
  "idle_env = \<lparr>be_poll = \<lambda>f w. (None, False, f, w), be_wait = Suc,
     be_clock = \<lparr>mc_enabled = 0, mc_clock = None\<rparr>, be_observe = id\<rparr>"

definition reader_board :: "(nat, bool, nat, nat) board" where
  "reader_board = \<lparr>bd_engine = reader_engine, bd_tasks = embedded_tasks_new 16384,
     bd_metrics = wasi_metrics_zero, bd_world = 0\<rparr>"

lemma poll_embedded_ready:
  "future ep w = (Ready r, woke, ep', w') \<Longrightarrow> poll_embedded future env ep tasks w = Some (Ran (r, ep', tasks, w'))"
  by (subst poll_embedded.simps) simp

lemma down_import:
  assumes "\<And>w. \<exists>woke ep w'. send_wasi_import_request send (rt_request rt n) (we_endpoint (bd_engine b)) w
      = (Ready (Inl error), woke, ep, w')"
  shows "\<exists>b'. emb_import rt send recv env slot n b = Some (Ran (Break Emb_Terminal_Endpoint b'))
    \<and> (\<exists>ep. bd_engine b' = (bd_engine b)\<lparr>we_endpoint := ep\<rparr>)"
proof -
  obtain t1 b1 where m1: "metric_begin env b = (t1, b1)" by (metis surj_pair)
  then have e1: "bd_engine b1 = bd_engine b" by (rule metric_begin_engine)
  obtain woke ep w' where f: "send_wasi_import_request send (rt_request rt n) (we_endpoint (bd_engine b1)) (bd_world b1)
      = (Ready (Inl error), woke, ep, w')"
    using assms e1 by metis
  show ?thesis
    using m1 e1 poll_embedded_ready [where future = "send_wasi_import_request send (rt_request rt n)"
      and env = env and tasks = "bd_tasks b1", OF f]
    by (simp add: emb_import_def on_endpoint_def poll_embedded_wasi_unit_def Let_def) blast
qed

lemma reader_drive:
  "\<exists>b. drive_wasi_guest_blocking reader_runtime down_send slow_recv idle_env () reader_board
    = Some (Ran (Emb_Terminal_Endpoint, b))"
proof -
  let ?s = "\<lparr>gs_lease = Lease, gs_guest = True, gs_initialized = True\<rparr>"
  let ?E = "\<lambda>g. \<lparr>we_endpoint = False, we_guest_bytes = Some [], we_storage = None, we_slot = None,
    we_arena = \<lparr>ga_storage = Guest_Storage g, ga_memory = [0, 0, 0, 0], ga_occupied = True\<rparr>\<rparr>"
  have t: "take_wasi_guest_slot reader_runtime (bd_engine reader_board) = Done (Inr ?s, ?E 1)"
    by (simp add: reader_defs reader_board_def numeral_eq_Suc)
  have m: "metric_end record_appkit_wasi_resume idle_env None b = b" for b :: "(nat, bool, nat, nat) board"
    by (simp add: metric_end_def record_appkit_wasi_resume_def record_appkit_wasi_metric_def)
  have turn: "emb_turn reader_runtime down_send slow_recv idle_env () ?s (reader_board\<lparr>bd_engine := ?E 1\<rparr>)
      = emb_import reader_runtime down_send slow_recv idle_env ?s 0 (reader_board\<lparr>bd_engine := ?E 0\<rparr>)"
    by (simp add: emb_turn_def metric_begin_def appkit_wasi_metric_start_def idle_env_def on_guest_def
        slot_guest_def put_guest_def reader_runtime_def m [unfolded idle_env_def] Let_def)
  obtain b' ep where b': "emb_import reader_runtime down_send slow_recv idle_env ?s 0 (reader_board\<lparr>bd_engine := ?E 0\<rparr>)
      = Some (Ran (Break Emb_Terminal_Endpoint b'))" "bd_engine b' = (?E 0)\<lparr>we_endpoint := ep\<rparr>"
    using down_import [of down_send reader_runtime 0 "reader_board\<lparr>bd_engine := ?E 0\<rparr>" "()"
      slow_recv idle_env ?s]
    by (auto simp: send_wasi_import_request_def down_send_def)
  have "emb_loop reader_runtime down_send slow_recv idle_env () ?s (reader_board\<lparr>bd_engine := ?E 1\<rparr>)
      = Some (Ran (Emb_Terminal_Endpoint, b'))"
    by (subst emb_loop.simps) (simp only: turn b'(1) option.case board_run.case turn.case)
  with t b'(2) show ?thesis
    by (simp add: drive_wasi_guest_blocking_def store_embedded_wasi_guest_slot_def slot_finish_def drop_storage_def)
qed

theorem board_drive_is_hosted_witness:
  "\<exists>b. drive_wasi_guest_blocking reader_runtime down_send slow_recv idle_env () reader_board
      = Some (Ran (Emb_Terminal_Endpoint, b))
    \<and> hosted_rejects reader_runtime down_send slow_recv reader_engine [] (bd_engine b)
    \<and> engine_released (bd_engine b)"
proof -
  obtain b where b: "drive_wasi_guest_blocking reader_runtime down_send slow_recv idle_env () reader_board
      = Some (Ran (Emb_Terminal_Endpoint, b))" using reader_drive by blast
  have "host_reach reader_runtime down_send slow_recv reader_engine [] Ph_Take (bd_engine reader_board)"
    using Host_Start by (simp add: reader_board_def)
  from board_drive_is_hosted [OF reader_engine this b] b show ?thesis by auto
qed

text \<open>An engine on a board never panics because of its endpoint: if the guest runtime reports no
  error and no other task fails, the endless run goes on or ends in observing, with the guest dropped,
  whatever errors the endpoint gives. It panics at the start exactly when there is
  no slot left for its state or the state does not fit.\<close>

theorem board_engine_outcomes:
  assumes "engine_start (bd_engine b)"
    and "guest_sound rt" "tasks_calm env" "embedded_inv (bd_tasks b)"
    and "run_canonical_wasi_engine_forever rt send recv env budget size_e align_e n b = Some x"
  shows "if em_len (bd_tasks b) < 4 \<and> size_e \<le> 4096 \<and> align_e \<le> 16
    then (\<exists>b'. x = Engine_Running b') \<or> (\<exists>b'. x = Engine_Observing b' \<and> engine_released (bd_engine b'))
    else x = Engine_Panic"
proof (cases "em_len (bd_tasks b) < 4 \<and> size_e \<le> 4096 \<and> align_e \<le> 16")
  case False
  then have "blocking_engine_state size_e align_e (bd_tasks b) = Panic"
    by (auto simp: blocking_engine_state_def)
  with False assms(5) show ?thesis by (auto simp: run_canonical_wasi_engine_forever_def)
next
  case True
  then have bs: "blocking_engine_state size_e align_e (bd_tasks b) = Done 12288"
    using embedded_offset [OF assms(4), of 3] by (simp add: blocking_engine_state_def)
  obtain b' tasks w where p: "(if has_tasks (bd_tasks b)
        then embedded_poll_once (be_poll env) 0 False (bd_tasks b) (bd_world b)
        else Passed False (bd_tasks b) (bd_world b)) = Passed b' tasks w" "embedded_inv tasks"
    using poll_once_calm [OF assms(3,4), of False "bd_world b"] assms(4)
    by (cases "has_tasks (bd_tasks b)") auto
  let ?b = "b\<lparr>bd_tasks := tasks, bd_world := w\<rparr>"
  have r: "engine_rounds rt send recv env budget n ?b = Some x"
    using assms(5) bs p(1) by (simp add: run_canonical_wasi_engine_forever_def)
  have "host_reach rt send recv (bd_engine b) [] Ph_Take (bd_engine ?b)" using Host_Start by simp
  from engine_rounds_ok [OF r assms(1) this] True assms(2,3) p(2) show ?thesis
    by (auto split: engine_end.splits)
qed

theorem board_engine_outcomes_witness:
  "\<exists>x. run_canonical_wasi_engine_forever reader_runtime down_send slow_recv idle_env () 512 8 3 reader_board = Some x
    \<and> ((\<exists>b'. x = Engine_Running b') \<or> (\<exists>b'. x = Engine_Observing b' \<and> engine_released (bd_engine b')))"
proof -
  have rt: "guest_sound reader_runtime"
    by (auto simp: guest_sound_def reader_runtime_def split: nat.split)
  have calm: "tasks_calm idle_env" by (simp add: tasks_calm_def idle_env_def)
  have b: "engine_start (bd_engine reader_board)" "embedded_inv (bd_tasks reader_board)"
    "em_len (bd_tasks reader_board) = 0" "\<not> has_tasks (bd_tasks reader_board)"
    using reader_engine embedded_new(1)
    by (simp_all add: reader_board_def embedded_tasks_new_def has_tasks_def)
  have same: "reader_board\<lparr>bd_tasks := bd_tasks reader_board, bd_world := bd_world reader_board\<rparr> = reader_board"
    by simp
  obtain b1 where b1: "drive_wasi_guest_blocking reader_runtime down_send slow_recv idle_env () reader_board
      = Some (Ran (Emb_Terminal_Endpoint, b1))" using reader_drive by blast
  have "blocking_engine_state 512 8 (bd_tasks reader_board) = Done 12288"
    by (simp add: blocking_engine_state_def embedded_slot_offset_def reader_board_def embedded_tasks_new_def)
  then obtain x where
    x: "run_canonical_wasi_engine_forever reader_runtime down_send slow_recv idle_env () 512 8 3 reader_board = Some x"
    using b(4) b1 by (simp add: run_canonical_wasi_engine_forever_def same numeral_3_eq_3)
  from board_engine_outcomes [OF b(1) rt calm b(2) x] b(3) x show ?thesis by simp
qed

text \<open>C27: the two builds of appkit disagree on an endpoint error: the hosted task is rejected, and with it
  the run panics, while the board takes the same error as the end of the exchange.\<close>

theorem endpoint_error_divergence:
  assumes "engine_start e0" "host_reach rt send recv e0 evs (Ph_Send_Request slot n) (bd_engine b)"
    and "\<And>w. \<exists>woke ep w'. send_wasi_import_request send (rt_request rt n) (we_endpoint (bd_engine b)) w
      = (Ready (Inl error), woke, ep, w')"
  shows "(\<exists>e' w'. fst (host_step rt send recv budget (Ph_Send_Request slot n) (bd_engine b) w) = Task_Rejected e' w')
    \<and> (\<exists>b'. emb_import rt send recv env slot n b = Some (Ran (Break Emb_Terminal_Endpoint b')))"
proof -
  obtain woke ep w' where f: "send_wasi_import_request send (rt_request rt n) (we_endpoint (bd_engine b)) w
      = (Ready (Inl error), woke, ep, w')" using assms(3) by blast
  from host_step_inv [OF host_reach_inv [OF assms(2,1)], of rt send recv budget w]
  have "advance_inv (fst (host_step rt send recv budget (Ph_Send_Request slot n) (bd_engine b) w))" .
  then have "\<exists>e' w'. fst (host_step rt send recv budget (Ph_Send_Request slot n) (bd_engine b) w) = Task_Rejected e' w'"
    using f by (auto simp: step_send_def break_drive_def Let_def split: outcome.splits)
  moreover have "\<exists>b'. emb_import rt send recv env slot n b = Some (Ran (Break Emb_Terminal_Endpoint b'))"
    using down_import [of send rt n b error recv env slot] assms(3) by blast
  ultimately show ?thesis by blast
qed

theorem endpoint_error_divergence_witness:
  "\<exists>e b' e' w'. fst (host_step reader_runtime down_send slow_recv ()
      (Ph_Send_Request \<lparr>gs_lease = Lease, gs_guest = True, gs_initialized = True\<rparr> 0) e 0) = Task_Rejected e' w'
    \<and> emb_import reader_runtime down_send slow_recv idle_env
        \<lparr>gs_lease = Lease, gs_guest = True, gs_initialized = True\<rparr> 0 (reader_board\<lparr>bd_engine := e\<rparr>)
      = Some (Ran (Break Emb_Terminal_Endpoint b'))"
proof -
  let ?s = "\<lparr>gs_lease = Lease, gs_guest = True, gs_initialized = True\<rparr>"
  let ?E = "\<lambda>g. \<lparr>we_endpoint = False, we_guest_bytes = Some [], we_storage = None, we_slot = None,
    we_arena = \<lparr>ga_storage = Guest_Storage g, ga_memory = [0, 0, 0, 0], ga_occupied = True\<rparr>\<rparr>"
  have "host_step reader_runtime down_send slow_recv () Ph_Take reader_engine 0
      = (Continue (Ph_Resume ?s) (?E 1) 0, [])"
    by (simp add: reader_defs numeral_eq_Suc)
  note 1 = Host_Continue [OF Host_Start this]
  have "host_step reader_runtime down_send slow_recv () (Ph_Resume ?s) (?E 1) 0
      = (Continue (Ph_Send_Request ?s 0) (?E 0) 0, [Ev_Resumed])"
    by (simp add: reader_defs)
  note 2 = Host_Continue [OF 1 this]
  have "host_reach reader_runtime down_send slow_recv reader_engine (([] @ []) @ [Ev_Resumed])
      (Ph_Send_Request ?s 0) (bd_engine (reader_board\<lparr>bd_engine := ?E 0\<rparr>))"
    using 2 by simp
  from endpoint_error_divergence [OF reader_engine this, of "()" "()" 0 idle_env] show ?thesis
    by (auto simp: send_wasi_import_request_def down_send_def)
qed

end
