(* ===== verification/Appkit_Roles.thy ===== *)
theory Appkit_Roles
  imports Wasi_Board
begin

text \<open>
  Attaching the roles of a logical image, from \<open>src/appkit/internal.rs\<close>: \<open>RoleSet\<close>, the visit of the
  requested roles, the collection of the projected roles, the two attaching visitors, the hosted and
  the embedded \<open>attach_projected_roles\<close> and \<open>run_with_artifact\<close>. The projection, the rendezvous, the
  placement and the localside futures of a capsule are parameters.
\<close>

section \<open>Role sets\<close>

definition HIBANA_TYPED_ROLE_DOMAIN_SIZE :: nat where [simp]: "HIBANA_TYPED_ROLE_DOMAIN_SIZE = 16"

record role_set =
  rs_bits :: u16

definition role_set_empty :: role_set where
  "role_set_empty = \<lparr>rs_bits = 0\<rparr>"

definition role_set_single :: "nat \<Rightarrow> role_set outcome" where
  "role_set_single role =
     (if role < HIBANA_TYPED_ROLE_DOMAIN_SIZE then Done \<lparr>rs_bits = push_bit role 1\<rparr> else Panic)"

definition role_set_from_bits :: "u16 \<Rightarrow> role_set outcome" where
  "role_set_from_bits bits = (if bits \<noteq> 0 then Done \<lparr>rs_bits = bits\<rparr> else Panic)"

definition role_set_count :: "role_set \<Rightarrow> u8" where
  "role_set_count s = of_nat (length (filter (bit (rs_bits s)) [0..<16]))"

definition role_set_contains :: "role_set \<Rightarrow> nat \<Rightarrow> bool" where
  "role_set_contains s role \<longleftrightarrow>
     role < HIBANA_TYPED_ROLE_DOMAIN_SIZE \<and> (rs_bits s AND push_bit role 1) \<noteq> 0"

definition role_set_union :: "role_set \<Rightarrow> role_set \<Rightarrow> role_set" where
  "role_set_union s other = \<lparr>rs_bits = rs_bits s OR rs_bits other\<rparr>"

definition role_set_is_subset_of :: "role_set \<Rightarrow> role_set \<Rightarrow> bool" where
  "role_set_is_subset_of s other \<longleftrightarrow> (rs_bits s AND NOT (rs_bits other)) = 0"

definition HIBANA_TYPED_ROLE_DOMAIN :: role_set where
  "HIBANA_TYPED_ROLE_DOMAIN = \<lparr>rs_bits = 0xFFFF\<rparr>"

section \<open>Visiting the requested roles\<close>

text \<open>A visitor may panic, and on the boards it may never return.\<close>

datatype ('v, 'r) visit = Visited 'v | Visit_Panicked | Never_Returns 'r

definition visit_if_requested ::
    "role_set \<Rightarrow> (nat \<Rightarrow> 'v \<Rightarrow> ('v, 'r) visit) \<Rightarrow> nat \<Rightarrow> ('v, 'r) visit \<Rightarrow> ('v, 'r) visit" where
  "visit_if_requested requested visit_role role state =
     (case state of
        Visited v \<Rightarrow> if role_set_contains requested role then visit_role role v else Visited v
      | _ \<Rightarrow> state)"

definition visit_requested_projected_roles ::
    "role_set \<Rightarrow> (nat \<Rightarrow> 'v \<Rightarrow> ('v, 'r) visit) \<Rightarrow> 'v \<Rightarrow> ('v, 'r) visit" where
  "visit_requested_projected_roles requested visit_role v =
     fold (visit_if_requested requested visit_role)
       [0, 1, 2, 3, 4, 5, 6, 7, 8, 9, 10, 11, 12, 13, 14, 15] (Visited v)"

record projected_roles =
  pr_roles :: role_set
  pr_count :: u8

definition projected_roles_new :: projected_roles where
  "projected_roles_new = \<lparr>pr_roles = role_set_empty, pr_count = 0\<rparr>"

definition checked_increment :: "u8 \<Rightarrow> u8 outcome" where
  "checked_increment n = (if unat n + 1 < 256 then Done (n + 1) else Panic)"

text \<open>The size of a projected \<open>RoleProgram\<close> is that of a foreign type.\<close>

definition collect_visit ::
    "(nat \<Rightarrow> nat) \<Rightarrow> nat \<Rightarrow> projected_roles \<Rightarrow> (projected_roles, 'r) visit" where
  "collect_visit role_program_size role p =
     (if \<not> 0 < role_program_size role then Visit_Panicked
      else case role_set_single role of
        Panic \<Rightarrow> Visit_Panicked
      | Done single \<Rightarrow>
          (case checked_increment (pr_count p) of
             Panic \<Rightarrow> Visit_Panicked
           | Done count \<Rightarrow> Visited \<lparr>pr_roles = role_set_union (pr_roles p) single, pr_count = count\<rparr>))"

definition collect_projected_roles :: "(nat \<Rightarrow> nat) \<Rightarrow> role_set \<Rightarrow> (projected_roles, unit) visit" where
  "collect_projected_roles role_program_size requested =
     visit_requested_projected_roles requested (collect_visit role_program_size) projected_roles_new"

section \<open>The artifact of a run\<close>

datatype artifact = Wasi_Image bytes | No_Wasi

fun wasi_bytes :: "artifact \<Rightarrow> bytes option" where
  "wasi_bytes (Wasi_Image bytes) = Some bytes"
| "wasi_bytes No_Wasi = None"

datatype role_kind = Role_Engine | Role_Driver | Role_Boundary

text \<open>
  A capsule with its image: the kinds of the roles, the localside futures, the policies it registers
  for a role, the entry of a role into the rendezvous, the lease of a guest arena, and the sizes of
  the futures.
\<close>

record ('ep, 'f, 'g, 'w) capsule =
  cp_role_kind :: "nat \<Rightarrow> role_kind"
  cp_engine :: "nat \<Rightarrow> 'ep \<Rightarrow> 'f"
  cp_driver :: "nat \<Rightarrow> 'ep \<Rightarrow> 'f"
  cp_boundary :: "nat \<Rightarrow> 'ep \<Rightarrow> 'f"
  cp_wasi_task :: "nat \<Rightarrow> ('g, 'ep) wasi_engine \<Rightarrow> 'f"
  cp_policies :: "nat \<Rightarrow> nat list"
  cp_set_resolver :: "nat \<Rightarrow> nat \<Rightarrow> 'w \<Rightarrow> bool \<times> 'w"
  cp_enter :: "nat \<Rightarrow> 'w \<Rightarrow> 'ep option \<times> 'w"
  cp_wasi_guest_lease :: "nat \<Rightarrow> 'w \<Rightarrow> ('g guest_arena \<times> 'w) outcome"
  cp_rendezvous :: "'w \<Rightarrow> bool \<times> 'w"
  cp_size_of :: "'f \<Rightarrow> nat"
  cp_align_of :: "'f \<Rightarrow> nat"

definition wasi_guest_lease ::
    "('ep, 'f, 'g, 'w) capsule \<Rightarrow> artifact \<Rightarrow> nat \<Rightarrow> 'w \<Rightarrow>
       ((guest_lease \<times> 'g guest_arena) option \<times> 'w) outcome" where
  "wasi_guest_lease cp artifact role w =
     (case artifact of
        Wasi_Image _ \<Rightarrow>
          bind_outcome (cp_wasi_guest_lease cp role w) (\<lambda>(arena, w). Done (Some (Lease, arena), w))
      | No_Wasi \<Rightarrow> Done (None, w))"

section \<open>The resolvers\<close>

fun register_resolvers :: "('ep, 'f, 'g, 'w) capsule \<Rightarrow> nat \<Rightarrow> nat list \<Rightarrow> 'w \<Rightarrow> 'w outcome" where
  "register_resolvers cp role [] w = Done w"
| "register_resolvers cp role (policy # policies) w =
     (case cp_set_resolver cp role policy w of (ok, w) \<Rightarrow>
        if ok then register_resolvers cp role policies w else Panic)"

definition resolvers_visit :: "('ep, 'f, 'g, 'w) capsule \<Rightarrow> nat \<Rightarrow> 'w \<Rightarrow> ('w, 'r) visit" where
  "resolvers_visit cp role w =
     (case register_resolvers cp role (cp_policies cp role) w of Panic \<Rightarrow> Visit_Panicked | Done w \<Rightarrow> Visited w)"

section \<open>The role futures\<close>

text \<open>What a visit makes of an endpoint: a future for the scheduler, or the engine of a guest.\<close>

datatype ('g, 'ep, 'f) role_body = Localside_Task 'f | Guest_Engine "('g, 'ep) wasi_engine"

definition role_body ::
    "('ep, 'f, 'g, 'w) capsule \<Rightarrow> artifact \<Rightarrow> nat \<Rightarrow> 'w \<Rightarrow> (('g, 'ep, 'f) role_body \<times> 'w) outcome" where
  "role_body cp artifact role w =
     (case cp_enter cp role w of
        (None, w) \<Rightarrow> Panic
      | (Some endpoint, w) \<Rightarrow>
          (case cp_role_kind cp role of
             Role_Engine \<Rightarrow>
               bind_outcome (wasi_guest_lease cp artifact role w) (\<lambda>(guest_storage, w).
                 if (wasi_bytes artifact \<noteq> None) \<noteq> (guest_storage \<noteq> None) then Panic
                 else case guest_storage of
                   Some (lease, arena) \<Rightarrow>
                     Done (Guest_Engine (wasi_engine_new endpoint (wasi_bytes artifact) (Some lease) arena), w)
                 | None \<Rightarrow> Done (Localside_Task (cp_engine cp role endpoint), w))
           | Role_Driver \<Rightarrow> Done (Localside_Task (cp_driver cp role endpoint), w)
           | Role_Boundary \<Rightarrow> Done (Localside_Task (cp_boundary cp role endpoint), w)))"

section \<open>The hosted attach\<close>

record ('f, 'w) hosted_attach =
  ha_tasks :: "'f scheduled_tasks"
  ha_count :: u8
  ha_world :: 'w

definition hosted_future :: "('ep, 'f, 'g, 'w) capsule \<Rightarrow> nat \<Rightarrow> ('g, 'ep, 'f) role_body \<Rightarrow> 'f" where
  "hosted_future cp role body =
     (case body of Localside_Task f \<Rightarrow> f | Guest_Engine engine \<Rightarrow> cp_wasi_task cp role engine)"

definition hosted_visit ::
    "('ep, 'f, 'g, 'w) capsule \<Rightarrow> artifact \<Rightarrow> nat \<Rightarrow> ('f, 'w) hosted_attach \<Rightarrow>
       (('f, 'w) hosted_attach, 'r) visit" where
  "hosted_visit cp artifact role st =
     (case role_body cp artifact role (ha_world st) of
        Panic \<Rightarrow> Visit_Panicked
      | Done (body, w) \<Rightarrow>
          (case tasks_push (cp_size_of cp) (cp_align_of cp) (hosted_future cp role body) (ha_tasks st) of
             Panic \<Rightarrow> Visit_Panicked
           | Done tasks \<Rightarrow>
               (case checked_increment (ha_count st) of
                  Panic \<Rightarrow> Visit_Panicked
                | Done count \<Rightarrow> Visited \<lparr>ha_tasks = tasks, ha_count = count, ha_world = w\<rparr>)))"

text \<open>The number of endpoints, the futures dropped at the end and the world; \<open>None\<close> if it runs forever.\<close>

definition attach_projected_roles_hosted ::
    "('ep, 'f, 'g, 'w) capsule \<Rightarrow> ('f, 'w, 'e) task_poll \<Rightarrow> ('w \<Rightarrow> 'w) \<Rightarrow> artifact \<Rightarrow> role_set \<Rightarrow> 'w \<Rightarrow>
       (u8 \<times> 'f list \<times> 'w) outcome option" where
  "attach_projected_roles_hosted cp poll observe artifact requested w =
     (case cp_rendezvous cp w of (ok, w) \<Rightarrow>
        if \<not> ok then Some Panic
        else (case visit_requested_projected_roles requested (resolvers_visit cp) w of
            Visited w \<Rightarrow>
              (case visit_requested_projected_roles requested (hosted_visit cp artifact)
                 \<lparr>ha_tasks = scheduled_tasks_new, ha_count = 0, ha_world = w\<rparr> of
                 Visited st \<Rightarrow>
                   (case poll_until_quiescent poll observe (ha_tasks st) (ha_world st) of
                      None \<Rightarrow> None
                    | Some (Quiescent tasks w) \<Rightarrow> Some (Done (ha_count st, snd (tasks_drop tasks), w))
                    | Some _ \<Rightarrow> Some Panic)
               | Visit_Panicked \<Rightarrow> Some Panic
               | Never_Returns (r :: unit) \<Rightarrow> None)
          | Visit_Panicked \<Rightarrow> Some Panic
          | Never_Returns (r :: unit) \<Rightarrow> None))"

text \<open>\<open>run_with_artifact\<close>: the checks around the attach, and the safe state of the image after it.\<close>

definition run_with_artifact ::
    "('ep, 'f, 'g, 'w) capsule \<Rightarrow> ('f, 'w, 'e) task_poll \<Rightarrow> ('w \<Rightarrow> 'w) \<Rightarrow> (nat \<Rightarrow> nat) \<Rightarrow>
       ('w \<Rightarrow> 'i \<times> 'w) \<Rightarrow> ('i \<Rightarrow> 'w \<Rightarrow> 'i \<times> 'w) \<Rightarrow> artifact \<Rightarrow> role_set \<Rightarrow> 'w \<Rightarrow>
       ('f list \<times> 'i \<times> 'w) outcome option" where
  "run_with_artifact cp poll observe role_program_size image_init safe_state artifact requested w =
     (case collect_projected_roles role_program_size requested of
        Visited projected \<Rightarrow>
          if \<not> role_set_is_subset_of requested HIBANA_TYPED_ROLE_DOMAIN then Some Panic
          else if pr_roles projected \<noteq> requested then Some Panic
          else if pr_count projected \<noteq> role_set_count requested then Some Panic
          else (case attach_projected_roles_hosted cp poll observe artifact requested w of
              None \<Rightarrow> None
            | Some Panic \<Rightarrow> Some Panic
            | Some (Done (endpoint_count, dropped, w)) \<Rightarrow>
                if endpoint_count \<noteq> pr_count projected then Some Panic
                else (case image_init w of (img, w) \<Rightarrow>
                  (case safe_state img w of (img, w) \<Rightarrow> Some (Done (dropped, img, w)))))
      | Visit_Panicked \<Rightarrow> Some Panic
      | Never_Returns _ \<Rightarrow> None)"

section \<open>The embedded attach\<close>

record ('f, 'w) embedded_attach =
  ea_tasks :: "'f embedded_tasks"
  ea_count :: u8
  ea_world :: 'w

text \<open>A guest engine blocks the visitor: it is run in place and never returns.\<close>

definition embedded_visit ::
    "('ep, 'f, 'g, 'w) capsule \<Rightarrow> artifact \<Rightarrow> nat \<Rightarrow> ('f, 'w) embedded_attach \<Rightarrow>
       (('f, 'w) embedded_attach, nat \<times> ('g, 'ep, 'f, 'w) board) visit" where
  "embedded_visit cp artifact role st =
     (case role_body cp artifact role (ea_world st) of
        Panic \<Rightarrow> Visit_Panicked
      | Done (Guest_Engine engine, w) \<Rightarrow>
          Never_Returns (role, \<lparr>bd_engine = engine, bd_tasks = ea_tasks st,
            bd_metrics = wasi_metrics_zero, bd_world = w\<rparr>)
      | Done (Localside_Task future, w) \<Rightarrow>
          (case embedded_push (cp_size_of cp) (cp_align_of cp) future (ea_tasks st) of
             Panic \<Rightarrow> Visit_Panicked
           | Done tasks \<Rightarrow>
               (case checked_increment (ea_count st) of
                  Panic \<Rightarrow> Visit_Panicked
                | Done count \<Rightarrow> Visited \<lparr>ea_tasks = tasks, ea_count = count, ea_world = w\<rparr>)))"

text \<open>What the board runs forever after the attach.\<close>

datatype ('g, 'ep, 'f, 'w) board_run_kind =
  Attach_Panicked
| Runs_Engine nat "('g, 'ep, 'f, 'w) board"
| Runs_Tasks "'f embedded_tasks" 'w

definition attach_projected_roles_embedded ::
    "('ep, 'f, 'g, 'w) capsule \<Rightarrow> artifact \<Rightarrow> role_set \<Rightarrow> 'w \<Rightarrow> ('g, 'ep, 'f, 'w) board_run_kind" where
  "attach_projected_roles_embedded cp artifact requested w =
     (case cp_rendezvous cp w of (ok, w) \<Rightarrow>
        if \<not> ok then Attach_Panicked
        else (case visit_requested_projected_roles requested (resolvers_visit cp) w of
            Visited w \<Rightarrow>
              (case visit_requested_projected_roles requested (embedded_visit cp artifact)
                 \<lparr>ea_tasks = embedded_tasks_new APPKIT_EMBEDDED_FUTURE_BYTES, ea_count = 0, ea_world = w\<rparr> of
                 Visited st \<Rightarrow> Runs_Tasks (ea_tasks st) (ea_world st)
               | Visit_Panicked \<Rightarrow> Attach_Panicked
               | Never_Returns (role, board) \<Rightarrow> Runs_Engine role board)
          | Visit_Panicked \<Rightarrow> Attach_Panicked
          | Never_Returns (r :: unit) \<Rightarrow> Attach_Panicked))"

section \<open>Visits as recursion over the requested roles\<close>

definition requested_roles :: "role_set \<Rightarrow> nat list" where
  "requested_roles s = filter (role_set_contains s) [0..<16]"

fun visit_list :: "(nat \<Rightarrow> 'v \<Rightarrow> ('v, 'r) visit) \<Rightarrow> nat list \<Rightarrow> 'v \<Rightarrow> ('v, 'r) visit" where
  "visit_list visit_role [] v = Visited v"
| "visit_list visit_role (role # roles) v =
     (case visit_role role v of Visited v \<Rightarrow> visit_list visit_role roles v | x \<Rightarrow> x)"

lemma contains_bit: "role_set_contains s role \<longleftrightarrow> role < 16 \<and> bit (rs_bits s) role"
  by (simp add: role_set_contains_def bit_iff_and_push_bit_not_eq_0)

lemma visit_stopped:
  "(\<nexists>v. x = Visited v) \<Longrightarrow> fold (visit_if_requested s f) rs x = x"
  by (induction rs) (auto simp: visit_if_requested_def split: visit.splits)

lemma visit_fold:
  "fold (visit_if_requested s f) rs (Visited v) = visit_list f (filter (role_set_contains s) rs) v"
proof (induction rs arbitrary: v)
  case (Cons r rs)
  show ?case
  proof (cases "role_set_contains s r")
    case True
    then have "visit_if_requested s f r (Visited v) = f r v" by (simp add: visit_if_requested_def)
    with True Cons visit_stopped [of "f r v" s f rs] show ?thesis by (cases "f r v") auto
  next
    case False
    then have "visit_if_requested s f r (Visited v) = Visited v" by (simp add: visit_if_requested_def)
    with False Cons show ?thesis by simp
  qed
qed simp

lemma visit_requested: "visit_requested_projected_roles s f v = visit_list f (requested_roles s) v"
proof -
  have "[0, 1, 2, 3, 4, 5, 6, 7, 8, 9, 10, 11, 12, 13, 14, 15] = [0..<16]" by (simp add: upt_rec)
  then show ?thesis by (simp add: visit_requested_projected_roles_def requested_roles_def visit_fold)
qed

lemma requested_roles_bound: "length (requested_roles s) \<le> 16" "\<forall>r \<in> set (requested_roles s). r < 16"
  "sorted (requested_roles s)" "distinct (requested_roles s)"
  by (simp_all add: requested_roles_def sorted_wrt_filter)
    (use length_filter_le [of "role_set_contains s" "[0..<16]"] in simp)

section \<open>Collecting the projected roles\<close>

lemma collect_list:
  assumes "\<And>role. 0 < size_of_program role" "\<forall>r \<in> set rs. r < 16" "unat (pr_count p) + length rs < 256"
  shows "\<exists>p'. visit_list (collect_visit size_of_program) rs p = (Visited p' :: (projected_roles, unit) visit)
    \<and> pr_count p' = pr_count p + of_nat (length rs)
    \<and> (\<forall>i. bit (rs_bits (pr_roles p')) i \<longleftrightarrow> bit (rs_bits (pr_roles p)) i \<or> i \<in> set rs)"
  using assms(2,3)
proof (induction rs arbitrary: p)
  case (Cons r rs)
  let ?p = "\<lparr>pr_roles = role_set_union (pr_roles p) \<lparr>rs_bits = push_bit r 1\<rparr>, pr_count = pr_count p + 1\<rparr>"
  have c: "unat (pr_count p + 1) = unat (pr_count p) + 1"
    using Cons.prems(2) by (simp add: unat_word_ariths)
  have v: "collect_visit size_of_program r p = (Visited ?p :: (projected_roles, unit) visit)"
    using Cons.prems assms(1) [of r]
    by (simp add: collect_visit_def role_set_single_def checked_increment_def)
  have "unat (pr_count ?p) + length rs < 256" using Cons.prems(2) c by simp
  with Cons.IH [of ?p] Cons.prems(1) obtain p' where
    "visit_list (collect_visit size_of_program) rs ?p = (Visited p' :: (projected_roles, unit) visit)"
    "pr_count p' = pr_count p + 1 + of_nat (length rs)"
    "\<forall>i. bit (rs_bits (pr_roles p')) i \<longleftrightarrow> bit (rs_bits (pr_roles ?p)) i \<or> i \<in> set rs" by auto
  then show ?case
    using v Cons.prems(1)
    by (auto simp: role_set_union_def bit_simps algebra_simps)
qed simp

lemma collect_requested:
  assumes "\<And>role. 0 < size_of_program role"
  shows "collect_projected_roles size_of_program s = Visited \<lparr>pr_roles = s, pr_count = role_set_count s\<rparr>"
proof -
  have "unat (pr_count projected_roles_new) + length (requested_roles s) < 256"
    using requested_roles_bound(1) [of s] by (simp add: projected_roles_new_def)
  from collect_list [of size_of_program, OF assms requested_roles_bound(2) this] obtain p' where
    p': "visit_list (collect_visit size_of_program) (requested_roles s) projected_roles_new
        = (Visited p' :: (projected_roles, unit) visit)"
      "pr_count p' = of_nat (length (requested_roles s))"
      "\<forall>i. bit (rs_bits (pr_roles p')) i \<longleftrightarrow> i \<in> set (requested_roles s)"
    by (auto simp: projected_roles_new_def role_set_empty_def)
  have bits: "filter (bit (rs_bits s)) [0..<16] = requested_roles s"
    unfolding requested_roles_def by (rule filter_cong) (simp_all add: contains_bit)
  have "rs_bits (pr_roles p') = rs_bits s"
    by (rule bit_word_eqI) (simp add: p'(3) requested_roles_def contains_bit)
  with p' bits show ?thesis
    by (simp add: collect_projected_roles_def visit_requested role_set_count_def)
qed

lemma domain_subset: "role_set_is_subset_of s HIBANA_TYPED_ROLE_DOMAIN"
proof -
  have h: "(0xFFFF :: u16) = - 1" by simp
  show ?thesis
    unfolding role_set_is_subset_of_def HIBANA_TYPED_ROLE_DOMAIN_def role_set.select_convs h by simp
qed

section \<open>The hosted attach on a list of futures\<close>

fun hosted_futures ::
    "('ep, 'f, 'g, 'w) capsule \<Rightarrow> artifact \<Rightarrow> nat list \<Rightarrow> 'w \<Rightarrow> ('f list \<times> 'w) outcome" where
  "hosted_futures cp artifact [] w = Done ([], w)"
| "hosted_futures cp artifact (role # roles) w =
     bind_outcome (role_body cp artifact role w) (\<lambda>(body, w).
       bind_outcome (hosted_futures cp artifact roles w) (\<lambda>(fs, w).
         Done (hosted_future cp role body # fs, w)))"

fun resolve_all :: "('ep, 'f, 'g, 'w) capsule \<Rightarrow> nat list \<Rightarrow> 'w \<Rightarrow> 'w outcome" where
  "resolve_all cp [] w = Done w"
| "resolve_all cp (role # roles) w =
     bind_outcome (register_resolvers cp role (cp_policies cp role) w) (resolve_all cp roles)"

text \<open>The run of an image without its fixed storage: lists in place of slots, no checks.\<close>

definition run_list ::
    "('ep, 'f, 'g, 'w) capsule \<Rightarrow> ('f, 'w, 'e) task_poll \<Rightarrow> ('w \<Rightarrow> 'w) \<Rightarrow>
       ('w \<Rightarrow> 'i \<times> 'w) \<Rightarrow> ('i \<Rightarrow> 'w \<Rightarrow> 'i \<times> 'w) \<Rightarrow> artifact \<Rightarrow> nat list \<Rightarrow> 'w \<Rightarrow>
       ('f list \<times> 'i \<times> 'w) outcome option" where
  "run_list cp poll observe image_init safe_state artifact roles w =
     (case cp_rendezvous cp w of (ok, w) \<Rightarrow>
        if \<not> ok then Some Panic
        else case resolve_all cp roles w of
          Panic \<Rightarrow> Some Panic
        | Done w \<Rightarrow>
            (case hosted_futures cp artifact roles w of
               Panic \<Rightarrow> Some Panic
             | Done (fs, w) \<Rightarrow>
                 if \<not> (\<forall>f \<in> set fs. hosted_fits (cp_size_of cp) (cp_align_of cp) f) then Some Panic
                 else (case quiesce_list poll observe fs w of
                     None \<Rightarrow> None
                   | Some (Quiescent fs w) \<Rightarrow>
                       (case image_init w of (img, w) \<Rightarrow>
                         (case safe_state img w of (img, w) \<Rightarrow> Some (Done (fs, img, w))))
                   | Some _ \<Rightarrow> Some Panic)))"

lemma resolvers_list:
  "visit_list (resolvers_visit cp) roles w
    = (case resolve_all cp roles w of Panic \<Rightarrow> Visit_Panicked | Done w \<Rightarrow> Visited w)"
  by (induction roles arbitrary: w) (auto simp: resolvers_visit_def split: outcome.split)

lemma hosted_futures_length: "hosted_futures cp artifact roles w = Done (fs, w') \<Longrightarrow> length fs = length roles"
  by (induction roles arbitrary: w fs) auto

lemma hosted_visit_list:
  assumes "hosted_inv (ha_tasks st)" "length (hosted_tasks (ha_tasks st)) + length roles \<le> 16"
    "unat (ha_count st) + length roles < 256"
  shows "case hosted_futures cp artifact roles (ha_world st) of
      Panic \<Rightarrow> visit_list (hosted_visit cp artifact) roles st = (Visit_Panicked :: (_, 'r) visit)
    | Done (fs, w') \<Rightarrow>
        if \<forall>f \<in> set fs. hosted_fits (cp_size_of cp) (cp_align_of cp) f
        then \<exists>t'. visit_list (hosted_visit cp artifact) roles st
            = (Visited \<lparr>ha_tasks = t', ha_count = ha_count st + of_nat (length roles), ha_world = w'\<rparr> :: (_, 'r) visit)
          \<and> hosted_inv t' \<and> hosted_tasks t' = hosted_tasks (ha_tasks st) @ fs
        else visit_list (hosted_visit cp artifact) roles st = (Visit_Panicked :: (_, 'r) visit)"
  using assms
proof (induction roles arbitrary: st)
  case Nil
  then show ?case by (cases st) auto
next
  case (Cons role roles)
  let ?sz = "cp_size_of cp" and ?al = "cp_align_of cp"
  show ?case
  proof (cases "role_body cp artifact role (ha_world st)")
    case (Done p)
    then obtain body w1 where b: "role_body cp artifact role (ha_world st) = Done (body, w1)" by (cases p) auto
    let ?f = "hosted_future cp role body"
    show ?thesis
    proof (cases "hosted_fits ?sz ?al ?f")
      case False
      with hosted.push_refused [OF Cons.prems(1)] have "tasks_push ?sz ?al ?f (ha_tasks st) = Panic" by blast
      with b False show ?thesis
        by (auto simp: hosted_visit_def split: outcome.split)
    next
      case True
      have "length (hosted_tasks (ha_tasks st)) < 16" using Cons.prems(2) by simp
      from hosted.push_room [OF Cons.prems(1) True this] obtain t1 where
        t1: "tasks_push ?sz ?al ?f (ha_tasks st) = Done t1" "hosted_inv t1"
          "hosted_tasks t1 = hosted_tasks (ha_tasks st) @ [?f]" by blast
      let ?st = "\<lparr>ha_tasks = t1, ha_count = ha_count st + 1, ha_world = w1\<rparr>"
      have c: "unat (ha_count st + 1) = unat (ha_count st) + 1"
        using Cons.prems(3) by (simp add: unat_word_ariths)
      have v: "visit_list (hosted_visit cp artifact) (role # roles) st
          = (visit_list (hosted_visit cp artifact) roles ?st :: (_, 'r) visit)"
        using b t1(1) Cons.prems(3) by (simp add: hosted_visit_def checked_increment_def)
      have "length (hosted_tasks t1) + length roles \<le> 16" "unat (ha_count st + 1) + length roles < 256"
        using Cons.prems(2,3) t1(3) c by simp_all
      note IH = Cons.IH [of ?st, unfolded hosted_attach.select_convs, OF t1(2) this]
      show ?thesis
      proof (cases "hosted_futures cp artifact roles w1")
        case (Done q)
        then obtain fs w' where "q = (fs, w')" by (cases q) auto
        with IH Done b True t1(3) show ?thesis
          unfolding v by (cases "\<forall>f \<in> set fs. hosted_fits ?sz ?al f") (simp_all add: add_ac)
      qed (use IH b v in simp)
    qed
  qed (simp add: hosted_visit_def)
qed

lemma quiescent_complete:
  assumes "quiesce_list poll observe fs w = Some r" "hosted_inv t" "hosted_tasks t = fs"
  shows "\<exists>r'. poll_until_quiescent poll observe t w = Some r'"
proof -
  let ?P = "\<lambda>poll observe fs w r. \<forall>t. hosted_inv t \<longrightarrow> hosted_tasks t = fs \<longrightarrow>
    (\<exists>r'. poll_until_quiescent poll observe t w = Some r')"
  have "?P poll observe fs w r"
  proof (rule quiesce_list.raw_induct [where P = ?P, OF _ assms(1)], goal_cases)
    case (1 run poll observe fs w r)
    show ?case
    proof (intro allI impI)
      fix t assume inv: "hosted_inv t" and t: "hosted_tasks t = fs"
      note p = quiescent_pass [OF inv, of poll w, unfolded t]
      show "\<exists>r'. poll_until_quiescent poll observe t w = Some r'"
      proof (cases "pass_list poll False fs w")
        case (Passed b fs1 w1)
        with p obtain t1 where t1: "poll_pass poll 0 False t w = Passed b t1 w1" "hosted_inv t1"
          "hosted_tasks t1 = fs1" by auto
        show ?thesis
        proof (cases b)
          case True
          with 1(2) Passed have "run poll observe fs1 (observe w1) = Some r" by simp
          with 1(1) t1 obtain r' where "poll_until_quiescent poll observe t1 (observe w1) = Some r'" by blast
          with t1 True show ?thesis by (subst poll_until_quiescent.simps) simp
        next
          case False
          with t1 show ?thesis by (subst poll_until_quiescent.simps) simp
        qed
      next
        case (Task_Failed error fs1 w1)
        with p show ?thesis by (subst poll_until_quiescent.simps) auto
      next
        case Pass_Panicked
        with p show ?thesis by simp
      qed
    qed
  qed
  with assms(2,3) show ?thesis by blast
qed

lemma attach_bounds:
  "length (hosted_tasks scheduled_tasks_new) + length (requested_roles s) \<le> 16"
  "unat (0 :: u8) + length (requested_roles s) < 256"
  using requested_roles_bound(1) [of s] by (simp_all add: hosted_new)

text \<open>C7: a hosted run of an image does exactly what the plain program over the ascending list of its
  requested roles does: it registers the resolvers of each role, enters each role and builds its
  future, polls the futures until none wakes, drops them all and brings the image into its safe
  state. None of the checks of \<open>run_with_artifact\<close> ever fails; it panics only when a resolver or a
  role is refused, a guest arena is already leased, a future does not fit, or a task fails.\<close>

theorem hosted_run_is_list_run:
  assumes sizes: "\<And>role. 0 < role_program_size role"
  shows "run_with_artifact cp poll observe role_program_size image_init safe_state artifact requested w
    = run_list cp poll observe image_init safe_state artifact (requested_roles requested) w"
proof -
  let ?rs = "requested_roles requested"
  obtain ok w1 where r: "cp_rendezvous cp w = (ok, w1)" by (metis surj_pair)
  have count: "pr_count \<lparr>pr_roles = requested, pr_count = role_set_count requested\<rparr> = of_nat (length ?rs)"
  proof -
    have "filter (bit (rs_bits requested)) [0..<16] = ?rs"
      unfolding requested_roles_def by (rule filter_cong) (simp_all add: contains_bit)
    then show ?thesis by (simp add: role_set_count_def)
  qed
  have attach: "attach_projected_roles_hosted cp poll observe artifact requested w =
    (if \<not> ok then Some Panic
     else case resolve_all cp ?rs w1 of
       Panic \<Rightarrow> Some Panic
     | Done w2 \<Rightarrow>
         (case hosted_futures cp artifact ?rs w2 of
            Panic \<Rightarrow> Some Panic
          | Done (fs, w3) \<Rightarrow>
              if \<not> (\<forall>f \<in> set fs. hosted_fits (cp_size_of cp) (cp_align_of cp) f) then Some Panic
              else (case quiesce_list poll observe fs w3 of
                  None \<Rightarrow> None
                | Some (Quiescent fs w) \<Rightarrow> Some (Done (of_nat (length ?rs), fs, w))
                | Some _ \<Rightarrow> Some Panic)))"
  proof (cases "ok \<and> (\<exists>w2. resolve_all cp ?rs w1 = Done w2)")
    case False
    then show ?thesis
      using r by (auto simp: attach_projected_roles_hosted_def visit_requested resolvers_list split: outcome.split)
  next
    case True
    then obtain w2 where w2: "resolve_all cp ?rs w1 = Done w2" by blast
    let ?st = "\<lparr>ha_tasks = scheduled_tasks_new, ha_count = 0, ha_world = w2\<rparr>"
    have att: "attach_projected_roles_hosted cp poll observe artifact requested w =
        (case visit_list (hosted_visit cp artifact) ?rs ?st of
           Visited st \<Rightarrow>
             (case poll_until_quiescent poll observe (ha_tasks st) (ha_world st) of
                None \<Rightarrow> None
              | Some (Quiescent tasks w) \<Rightarrow> Some (Done (ha_count st, snd (tasks_drop tasks), w))
              | Some _ \<Rightarrow> Some Panic)
         | Visit_Panicked \<Rightarrow> Some Panic
         | Never_Returns (r :: unit) \<Rightarrow> None)"
      using r True w2 by (simp add: attach_projected_roles_hosted_def visit_requested resolvers_list)
    note vis = hosted_visit_list [of ?st ?rs cp artifact, unfolded hosted_attach.select_convs,
        OF hosted_new(1) attach_bounds]
    show ?thesis
    proof (cases "hosted_futures cp artifact ?rs w2")
      case (Done q)
      then obtain fs w3 where fs: "hosted_futures cp artifact ?rs w2 = Done (fs, w3)" by (cases q) auto
      show ?thesis
      proof (cases "\<forall>f \<in> set fs. hosted_fits (cp_size_of cp) (cp_align_of cp) f")
        case False
        with vis fs have "visit_list (hosted_visit cp artifact) ?rs ?st = (Visit_Panicked :: (_, unit) visit)"
          by simp
        with att True w2 fs False show ?thesis by simp
      next
        case fits: True
        with vis fs obtain t where t: "visit_list (hosted_visit cp artifact) ?rs ?st
            = (Visited \<lparr>ha_tasks = t, ha_count = of_nat (length ?rs), ha_world = w3\<rparr> :: (_, unit) visit)"
          "hosted_inv t" "hosted_tasks t = fs" by (auto simp: hosted_new)
        show ?thesis
        proof (cases "poll_until_quiescent poll observe t w3")
          case None
          with quiescent_complete [OF _ t(2,3)] have "quiesce_list poll observe fs w3 = None"
            by (metis not_Some_eq)
          with att t(1) None True w2 fs fits show ?thesis by simp
        next
          case (Some r1)
          with quiescent_sound [OF Some t(2)] t(3) have
            q: "end_ok r1" "quiesce_list poll observe fs w3 = Some (end_tasks r1)" by simp_all
          show ?thesis
          proof (cases r1)
            case (Quiescent t' w4)
            with q(1) tasks_drop_spec [of t'] have "snd (tasks_drop t') = hosted_tasks t'" by simp
            with att t(1) Some True w2 fs fits q(2) Quiescent show ?thesis by simp
          qed (use att t(1) Some True w2 fs fits q in simp_all)
        qed
      qed
    next
      case Panic
      with vis have "visit_list (hosted_visit cp artifact) ?rs ?st = (Visit_Panicked :: (_, unit) visit)"
        by simp
      with att True w2 Panic show ?thesis by simp
    qed
  qed
  show ?thesis
    unfolding run_with_artifact_def collect_requested [OF sizes] attach run_list_def
    using r count by (simp add: domain_subset split: outcome.split option.split run_end.split prod.split)
qed

section \<open>The embedded attach on a list of futures\<close>

text \<open>The check that artifact and storage go together never fails.\<close>

lemma role_body_panics:
  "role_body cp artifact role w = Panic \<longleftrightarrow>
     fst (cp_enter cp role w) = None
     \<or> (cp_role_kind cp role = Role_Engine \<and> (\<exists>m. artifact = Wasi_Image m)
         \<and> cp_wasi_guest_lease cp role (snd (cp_enter cp role w)) = Panic)"
  by (cases artifact)
    (auto simp: role_body_def wasi_guest_lease_def bind_outcome_def
      split: prod.split option.split role_kind.split outcome.split)

lemma role_body_guest:
  assumes "role_body cp artifact role w = Done (Guest_Engine e, w')"
  shows "cp_role_kind cp role = Role_Engine \<and> (\<exists>m. artifact = Wasi_Image m \<and> we_guest_bytes e = Some m)"
  using assms
  by (cases artifact)
    (auto simp: role_body_def wasi_guest_lease_def wasi_engine_new_def
      split: prod.splits option.splits role_kind.splits)

fun local_futures ::
    "('ep, 'f, 'g, 'w) capsule \<Rightarrow> artifact \<Rightarrow> nat list \<Rightarrow> 'w \<Rightarrow> ('f list \<times> 'w) outcome" where
  "local_futures cp artifact [] w = Done ([], w)"
| "local_futures cp artifact (role # roles) w =
     bind_outcome (role_body cp artifact role w) (\<lambda>(body, w).
       case body of
         Guest_Engine _ \<Rightarrow> Panic
       | Localside_Task f \<Rightarrow>
           bind_outcome (local_futures cp artifact roles w) (\<lambda>(fs, w). Done (f # fs, w)))"

lemma local_futures_length: "local_futures cp artifact roles w = Done (fs, w') \<Longrightarrow> length fs = length roles"
proof (induction roles arbitrary: w fs)
  case (Cons role roles)
  then obtain body w1 where b: "role_body cp artifact role w = Done (body, w1)" by auto
  with Cons show ?case by (cases body) auto
qed simp

text \<open>Where a visit of these roles ends, starting from a state.\<close>

definition embedded_visit_ok ::
    "('ep, 'f, 'g, 'w) capsule \<Rightarrow> artifact \<Rightarrow> nat list \<Rightarrow> 'f list \<Rightarrow> 'w \<Rightarrow>
       (('f, 'w) embedded_attach, nat \<times> ('g, 'ep, 'f, 'w) board) visit \<Rightarrow> bool" where
  "embedded_visit_ok cp artifact roles fs0 w x \<longleftrightarrow>
     (case x of
        Visit_Panicked \<Rightarrow> True
      | Visited st \<Rightarrow> embedded_inv (ea_tasks st) \<and>
          (\<exists>fs. embedded_futures (ea_tasks st) = fs0 @ fs \<and> local_futures cp artifact roles w = Done (fs, ea_world st))
      | Never_Returns (role, b) \<Rightarrow> embedded_inv (bd_tasks b) \<and>
          (\<exists>before after fs w1. roles = before @ role # after \<and> embedded_futures (bd_tasks b) = fs0 @ fs
             \<and> local_futures cp artifact before w = Done (fs, w1)
             \<and> role_body cp artifact role w1 = Done (Guest_Engine (bd_engine b), bd_world b)))"

lemma embedded_visit_list:
  assumes "embedded_inv (ea_tasks st)"
  shows "embedded_visit_ok cp artifact roles (embedded_futures (ea_tasks st)) (ea_world st)
    (visit_list (embedded_visit cp artifact) roles st)"
  using assms
proof (induction roles arbitrary: st)
  case Nil
  then show ?case by (simp add: embedded_visit_ok_def)
next
  case (Cons role roles)
  show ?case
  proof (cases "role_body cp artifact role (ea_world st)")
    case Panic
    then show ?thesis by (simp add: embedded_visit_def embedded_visit_ok_def)
  next
    case (Done p)
    obtain body w1 where p: "p = (body, w1)" by (metis surj_pair)
    show ?thesis
    proof (cases body)
      case (Guest_Engine e)
      have "\<exists>before after fs w1'. role # roles = before @ role # after
          \<and> embedded_futures (ea_tasks st) = embedded_futures (ea_tasks st) @ fs
          \<and> local_futures cp artifact before (ea_world st) = Done (fs, w1')
          \<and> role_body cp artifact role w1' = Done (Guest_Engine e, w1)"
        using Done p Guest_Engine by (intro exI [of _ "[]"] exI [of _ roles] exI [of _ "ea_world st"]) simp
      with Done p Guest_Engine Cons.prems show ?thesis
        by (simp add: embedded_visit_def embedded_visit_ok_def)
    next
      case (Localside_Task f)
      show ?thesis
      proof (cases "embedded_push (cp_size_of cp) (cp_align_of cp) f (ea_tasks st)")
        case Panic
        with Done p Localside_Task show ?thesis by (simp add: embedded_visit_def embedded_visit_ok_def)
      next
        case push: (Done t1)
        have room: "embedded_fits (cp_size_of cp) (cp_align_of cp) f \<and> length (embedded_futures (ea_tasks st)) < 4"
          using embedded.push_refused [OF Cons.prems, of "cp_size_of cp" "cp_align_of cp" f] push by auto
        then have t1: "embedded_inv t1" "embedded_futures t1 = embedded_futures (ea_tasks st) @ [f]"
          using embedded.push_room [OF Cons.prems, of "cp_size_of cp" "cp_align_of cp" f] push by auto
        show ?thesis
        proof (cases "checked_increment (ea_count st)")
          case Panic
          with Done p Localside_Task push show ?thesis by (simp add: embedded_visit_def embedded_visit_ok_def)
        next
          case count: (Done c)
          let ?st = "\<lparr>ea_tasks = t1, ea_count = c, ea_world = w1\<rparr>"
          have v: "visit_list (embedded_visit cp artifact) (role # roles) st = visit_list (embedded_visit cp artifact) roles ?st"
            using Done p Localside_Task push count by (simp add: embedded_visit_def)
          have IH: "embedded_visit_ok cp artifact roles (embedded_futures t1) w1
              (visit_list (embedded_visit cp artifact) roles ?st)"
            using Cons.IH [of ?st] t1(1) by simp
          have lf: "local_futures cp artifact (role # rs) (ea_world st) = Done (f # fs, w')"
            if "local_futures cp artifact rs w1 = Done (fs, w')" for rs fs w'
            using that Done p Localside_Task by simp
          show ?thesis
          proof (cases "visit_list (embedded_visit cp artifact) roles ?st")
            case (Visited st')
            with IH obtain fs where "embedded_inv (ea_tasks st')" "embedded_futures (ea_tasks st') = embedded_futures t1 @ fs"
              "local_futures cp artifact roles w1 = Done (fs, ea_world st')"
              by (auto simp: embedded_visit_ok_def)
            with lf t1(2) show ?thesis unfolding v Visited embedded_visit_ok_def by auto
          next
            case Visit_Panicked
            show ?thesis unfolding v Visit_Panicked by (simp add: embedded_visit_ok_def)
          next
            case (Never_Returns q)
            obtain role' b where q: "q = (role', b)" by (metis surj_pair)
            with IH Never_Returns obtain before after fs w2 where
              "embedded_inv (bd_tasks b)" "roles = before @ role' # after"
              "embedded_futures (bd_tasks b) = embedded_futures t1 @ fs"
              "local_futures cp artifact before w1 = Done (fs, w2)"
              "role_body cp artifact role' w2 = Done (Guest_Engine (bd_engine b), bd_world b)"
              by (auto simp: embedded_visit_ok_def)
            with lf t1(2) have "role # roles = (role # before) @ role' # after"
              "embedded_futures (bd_tasks b) = embedded_futures (ea_tasks st) @ f # fs"
              "local_futures cp artifact (role # before) (ea_world st) = Done (f # fs, w2)"
              "role_body cp artifact role' w2 = Done (Guest_Engine (bd_engine b), bd_world b)"
              "embedded_inv (bd_tasks b)" by simp_all
            then show ?thesis unfolding v Never_Returns q embedded_visit_ok_def visit.case prod.case by blast
          qed
        qed
      qed
    qed
  qed
qed

lemma first_visit:
  "embedded_visit_ok cp artifact roles [] w (visit_list (embedded_visit cp artifact) roles
     \<lparr>ea_tasks = embedded_tasks_new APPKIT_EMBEDDED_FUTURE_BYTES, ea_count = 0, ea_world = w\<rparr>)"
  by (rule embedded_visit_list [of "\<lparr>ea_tasks = embedded_tasks_new APPKIT_EMBEDDED_FUTURE_BYTES, ea_count = 0,
    ea_world = w\<rparr>", unfolded embedded_attach.select_convs embedded_new(2), OF embedded_new(1)])

text \<open>The image hands out arenas that were just leased, as \<open>guest_arena_lease\<close> gives them.\<close>

definition leases_raw :: "('ep, 'f, 'g, 'w) capsule \<Rightarrow> bool" where
  "leases_raw cp \<longleftrightarrow> (\<forall>role w arena w'. cp_wasi_guest_lease cp role w = Done (arena, w') \<longrightarrow>
     ga_occupied arena \<and> ga_storage arena = Raw_Storage)"

lemma guest_engine_start:
  assumes "role_body cp artifact role w = Done (Guest_Engine e, w')" and "leases_raw cp"
  shows "engine_start e"
proof -
  obtain m w1 arena ep where "cp_wasi_guest_lease cp role w1 = Done (arena, w')"
    "e = wasi_engine_new ep (Some m) (Some Lease) arena"
    using assms(1)
    by (cases artifact)
      (auto simp: role_body_def wasi_guest_lease_def split: prod.splits option.splits role_kind.splits)
  with assms(2) show ?thesis unfolding leases_raw_def by (auto simp: wasi_engine_new_def engine_start_def)
qed

text \<open>An image with a driver, a boundary and an engine role, all of them counting down.\<close>

definition demo_capsule :: "(nat, nat, nat, nat) capsule" where
  "demo_capsule = \<lparr>cp_role_kind = (\<lambda>role. if role = 1 then Role_Driver else if role = 2 then Role_Engine else Role_Boundary),
     cp_engine = (\<lambda>role ep. 0), cp_driver = (\<lambda>role ep. role), cp_boundary = (\<lambda>role ep. role), cp_wasi_task = (\<lambda>role e. 0),
     cp_policies = (\<lambda>role. [role]), cp_set_resolver = (\<lambda>role policy w. (True, w)),
     cp_enter = (\<lambda>role w. (Some role, w + 1)),
     cp_wasi_guest_lease = (\<lambda>role w. Done ((guest_arena_empty 4)\<lparr>ga_occupied := True\<rparr>, w)),
     cp_rendezvous = (\<lambda>w. (True, w)), cp_size_of = (\<lambda>f. 64), cp_align_of = (\<lambda>f. 8)\<rparr>"

lemma demo_roles: "requested_roles \<lparr>rs_bits = 0x0E\<rparr> = [1, 2, 3]" "requested_roles \<lparr>rs_bits = 0x06\<rparr> = [1, 2]"
proof -
  have u: "[0..<16] = [0, 1, 2, 3, 4, 5, 6, 7, 8, 9, 10, 11, 12, 13, 14, 15]" by (simp add: upt_rec)
  show "requested_roles \<lparr>rs_bits = 0x0E\<rparr> = [1, 2, 3]" "requested_roles \<lparr>rs_bits = 0x06\<rparr> = [1, 2]"
    by (simp_all add: requested_roles_def u role_set_contains_def)
qed

theorem hosted_run_is_list_run_witness:
  "run_with_artifact demo_capsule countdown_poll id (\<lambda>role. 96) (\<lambda>w. ((), w)) Pair No_Wasi \<lparr>rs_bits = 0x06\<rparr> 0
    = Some (Done ([0, 0], (), 6))"
proof -
  have "quiesce_list countdown_poll id [1, 0] 2 = Some (Quiescent [0, 0] 6)"
    by (simp add: quiesce_list.simps numeral_2_eq_2)
  then show ?thesis
    unfolding hosted_run_is_list_run [of "\<lambda>role. 96", simplified]
    by (simp add: run_list_def demo_roles demo_capsule_def role_body_def wasi_guest_lease_def hosted_future_def
        hosted_fits_def numeral_2_eq_2)
qed

text \<open>The projected roles collected for a run are exactly the requested ones, each counted once, for
  every set of roles; they lie within the typed domain.\<close>

theorem projection_exact:
  assumes "\<And>role. 0 < role_program_size role"
  shows "collect_projected_roles role_program_size requested
      = Visited \<lparr>pr_roles = requested, pr_count = role_set_count requested\<rparr>
    \<and> role_set_is_subset_of requested HIBANA_TYPED_ROLE_DOMAIN
    \<and> unat (role_set_count requested) = card {role. role_set_contains requested role}"
proof -
  have "{role. role_set_contains requested role} = set (requested_roles requested)"
    by (auto simp: requested_roles_def contains_bit)
  then have c: "card {role. role_set_contains requested role} = length (requested_roles requested)"
    using distinct_card [OF requested_roles_bound(4)] by metis
  have "filter (bit (rs_bits requested)) [0..<16] = requested_roles requested"
    unfolding requested_roles_def by (rule filter_cong) (simp_all add: contains_bit)
  then have "unat (role_set_count requested) = length (requested_roles requested)"
    using requested_roles_bound(1) [of requested] by (simp add: role_set_count_def unsigned_of_nat take_bit_nat_eq_self)
  with c collect_requested [OF assms] domain_subset show ?thesis by simp
qed

theorem projection_exact_witness:
  "collect_projected_roles (\<lambda>role. 96) \<lparr>rs_bits = 0x8001\<rparr>
    = Visited \<lparr>pr_roles = \<lparr>rs_bits = 0x8001\<rparr>, pr_count = role_set_count \<lparr>rs_bits = 0x8001\<rparr>\<rparr>"
  using projection_exact [of "\<lambda>role. 96" "\<lparr>rs_bits = 0x8001\<rparr>"] by simp

text \<open>C18: what a board runs after attaching an image: either all the requested roles as scheduled tasks,
  in ascending order and at most four of them, or, at the first engine role when a guest is given, that
  engine with the tasks of the lower roles beside it. The roles above the engine are never entered:
  the engine starts in the world its own entry left. Without a guest more than four roles panic.\<close>

theorem embedded_attach_outcome:
  assumes "attach_projected_roles_embedded cp artifact requested w = k"
    and "leases_raw cp"
  shows "(\<forall>tasks w'. k = Runs_Tasks tasks w' \<longrightarrow> length (embedded_futures tasks) \<le> 4 \<and>
        (\<exists>w1. local_futures cp artifact (requested_roles requested) w1 = Done (embedded_futures tasks, w')))
    \<and> (\<forall>role b. k = Runs_Engine role b \<longrightarrow> engine_start (bd_engine b) \<and> embedded_inv (bd_tasks b) \<and>
        (\<exists>before after w1 w2. requested_roles requested = before @ role # after
          \<and> local_futures cp artifact before w1 = Done (embedded_futures (bd_tasks b), w2)
          \<and> role_body cp artifact role w2 = Done (Guest_Engine (bd_engine b), bd_world b)))
    \<and> (artifact = No_Wasi \<longrightarrow> 4 < length (requested_roles requested) \<longrightarrow> k = Attach_Panicked)"
proof -
  let ?rs = "requested_roles requested"
  have tasks: "length (embedded_futures tasks) \<le> 4
      \<and> (\<exists>w1. local_futures cp artifact ?rs w1 = Done (embedded_futures tasks, w'))"
    if k: "k = Runs_Tasks tasks w'" for tasks w'
  proof -
    obtain w1 st where v: "visit_list (embedded_visit cp artifact) ?rs
        \<lparr>ea_tasks = embedded_tasks_new APPKIT_EMBEDDED_FUTURE_BYTES, ea_count = 0, ea_world = w1\<rparr> = Visited st"
      "ea_tasks st = tasks" "ea_world st = w'"
      using k assms(1)
      by (auto simp: attach_projected_roles_embedded_def visit_requested split: prod.splits if_splits visit.splits)
    have "embedded_inv tasks" "local_futures cp artifact ?rs w1 = Done (embedded_futures tasks, w')"
      using first_visit [of cp artifact ?rs w1] v by (auto simp: embedded_visit_ok_def)
    then show ?thesis by (auto simp: embedded_inv_def embedded_futures_def)
  qed
  have engine: "engine_start (bd_engine b) \<and> embedded_inv (bd_tasks b) \<and>
        (\<exists>before after w1 w2. ?rs = before @ role # after
          \<and> local_futures cp artifact before w1 = Done (embedded_futures (bd_tasks b), w2)
          \<and> role_body cp artifact role w2 = Done (Guest_Engine (bd_engine b), bd_world b))"
    if k: "k = Runs_Engine role b" for role b
  proof -
    obtain w1 where v: "visit_list (embedded_visit cp artifact) ?rs
        \<lparr>ea_tasks = embedded_tasks_new APPKIT_EMBEDDED_FUTURE_BYTES, ea_count = 0, ea_world = w1\<rparr>
        = Never_Returns (role, b)"
      using k assms(1)
      by (auto simp: attach_projected_roles_embedded_def visit_requested split: prod.splits if_splits visit.splits)
    obtain before after w2 where s: "embedded_inv (bd_tasks b)" "?rs = before @ role # after"
      "local_futures cp artifact before w1 = Done (embedded_futures (bd_tasks b), w2)"
      "role_body cp artifact role w2 = Done (Guest_Engine (bd_engine b), bd_world b)"
      using first_visit [of cp artifact ?rs w1] v by (auto simp: embedded_visit_ok_def)
    have start: "engine_start (bd_engine b)"
      by (rule guest_engine_start [OF s(4) assms(2)])
    have "?rs = before @ role # after
        \<and> local_futures cp artifact before w1 = Done (embedded_futures (bd_tasks b), w2)
        \<and> role_body cp artifact role w2 = Done (Guest_Engine (bd_engine b), bd_world b)"
      using s(2-4) by (rule conjI [OF _ conjI])
    then show ?thesis using start s(1) by blast
  qed
  have panic: "k = Attach_Panicked" if "artifact = No_Wasi" "4 < length ?rs"
  proof (cases k)
    case (Runs_Engine role b)
    from engine [OF Runs_Engine] obtain w2 where
      "role_body cp artifact role w2 = Done (Guest_Engine (bd_engine b), bd_world b)" by blast
    from role_body_guest [OF this] that(1) show ?thesis by simp
  next
    case (Runs_Tasks tasks w')
    with tasks local_futures_length that(2) show ?thesis by fastforce
  qed simp
  show ?thesis
  proof (intro conjI, goal_cases)
    case 1
    show ?case by (intro allI impI) (rule tasks)
  next
    case 2
    show ?case by (intro allI impI) (rule engine)
  next
    case 3
    show ?case by (intro impI) (rule panic)
  qed
qed

theorem embedded_attach_outcome_witness:
  "\<exists>b w1 w2. attach_projected_roles_embedded demo_capsule (Wasi_Image []) \<lparr>rs_bits = 0x0E\<rparr> 0 = Runs_Engine 2 b
    \<and> local_futures demo_capsule (Wasi_Image []) [1] w1 = Done (embedded_futures (bd_tasks b), w2)
    \<and> role_body demo_capsule (Wasi_Image []) 2 w2 = Done (Guest_Engine (bd_engine b), bd_world b)"
proof -
  have r4: "replicate 4 x = [x, x, x, x]" for x :: 'x by (simp add: eval_nat_numeral)
  have "embedded_push (\<lambda>f :: nat. 64) (\<lambda>f. 8) 1 (embedded_tasks_new 16384)
      = Done \<lparr>em_total_bytes = 16384, em_arena = [Some 1, None, None, None],
          em_polls = [True, False, False, False], em_len = 1\<rparr>"
    by (simp add: embedded_push_def embedded_tasks_new_def embedded_slot_offset_def r4)
  then obtain b where b: "attach_projected_roles_embedded demo_capsule (Wasi_Image []) \<lparr>rs_bits = 0x0E\<rparr> 0 = Runs_Engine 2 b"
    by (simp add: attach_projected_roles_embedded_def visit_requested demo_roles resolvers_visit_def
        embedded_visit_def role_body_def wasi_guest_lease_def checked_increment_def demo_capsule_def)
  have raw: "leases_raw demo_capsule" by (simp add: leases_raw_def demo_capsule_def guest_arena_empty_def)
  obtain before after w1 w2 where s: "[1, 2, 3] = before @ 2 # after"
    "local_futures demo_capsule (Wasi_Image []) before w1 = Done (embedded_futures (bd_tasks b), w2)"
    "role_body demo_capsule (Wasi_Image []) 2 w2 = Done (Guest_Engine (bd_engine b), bd_world b)"
    using embedded_attach_outcome [OF b raw, unfolded demo_roles] by blast
  from s(1) have "before = [1]" by (auto simp: Cons_eq_append_conv)
  with b s show ?thesis by blast
qed

end
