(* ===== verification/Split_Carrier.thy ===== *)
theory Split_Carrier
  imports Frame_Stash
begin

text \<open>
  The carrier of \<open>examples/heterogeneous-split-example/src/lib.rs\<close>: three images on a ring of
  edges 0 to 1, 1 to 2 and 2 to 0, each edge with one frame slot per lane. The slots and the
  counters of the example are static cells, here one record. Code that panics (a lane or an
  edge that does not exist, a session 0) is a \<open>Panic\<close>.
\<close>

section \<open>Frame slots\<close>

definition EXAMPLE_FRAME_BYTES :: nat where
  "EXAMPLE_FRAME_BYTES = 32"

definition EXAMPLE_LANE_SLOTS :: u8 where
  "EXAMPLE_LANE_SLOTS = 4"

record example_slot =
  es_ready :: bool
  es_session :: u32
  es_sender :: u8
  es_peer :: u8
  es_label :: u8
  es_len :: nat
  es_bytes :: bytes

definition example_slot_empty :: example_slot where
  "example_slot_empty =
     \<lparr>es_ready = False, es_session = 0, es_sender = 0, es_peer = 0, es_label = 0, es_len = 0,
      es_bytes = replicate EXAMPLE_FRAME_BYTES 0\<rparr>"

definition example_slot_clear :: "example_slot \<Rightarrow> example_slot" where
  "example_slot_clear slot = example_slot_empty"

definition example_slot_matches :: "example_slot \<Rightarrow> u32 \<Rightarrow> u8 \<Rightarrow> bool" where
  "example_slot_matches slot session_id peer \<longleftrightarrow>
     es_ready slot \<and> es_session slot = session_id \<and> es_peer slot = peer"

definition example_slot_push ::
    "example_slot \<Rightarrow> u32 \<Rightarrow> u8 \<Rightarrow> u8 \<Rightarrow> u8 \<Rightarrow> bytes \<Rightarrow> unit transport_result \<times> example_slot" where
  "example_slot_push slot session_id sender peer label payload =
     (if length payload > EXAMPLE_FRAME_BYTES then (Inl Failed, slot)
      else if es_ready slot then (Inl Failed, slot)
      else (Inr (), slot\<lparr>es_session := session_id, es_sender := sender, es_peer := peer,
              es_label := label, es_len := length payload,
              es_bytes := blit 0 payload (es_bytes slot), es_ready := True\<rparr>))"

record example_rx =
  erx_role :: u8
  erx_session :: u32
  erx_lane :: u8
  erx_bytes :: bytes

record example_tx =
  etx_role :: u8
  etx_session :: u32
  etx_lane :: u8

definition example_slot_pop_into ::
    "example_slot \<Rightarrow> u32 \<Rightarrow> u8 \<Rightarrow> u8 \<Rightarrow> example_rx \<Rightarrow> received option \<times> example_rx \<times> example_slot" where
  "example_slot_pop_into slot session_id lane peer rx =
     (if \<not> example_slot_matches slot session_id peer then (None, rx, slot)
      else
        let header = be_bytes32 (es_session slot) @ [lane, es_sender slot, es_peer slot, es_label slot];
            len = es_len slot;
            rx = rx\<lparr>erx_bytes := blit 0 (take len (es_bytes slot)) (erx_bytes rx)\<rparr>
        in (Some \<lparr>recv_header = header, recv_payload = take len (erx_bytes rx)\<rparr>, rx,
            example_slot_clear slot))"

section \<open>Edges and counters\<close>

record example_edge =
  lane0 :: example_slot
  lane1 :: example_slot
  lane2 :: example_slot
  lane3 :: example_slot

definition example_edge_empty :: example_edge where
  "example_edge_empty = \<lparr>lane0 = example_slot_empty, lane1 = example_slot_empty,
     lane2 = example_slot_empty, lane3 = example_slot_empty\<rparr>"

text \<open>
  \<open>slot_mut\<close> returns a reference: its two uses are reading the slot of a lane and storing it
  back.
\<close>

definition slot_mut :: "u8 \<Rightarrow> example_edge \<Rightarrow> example_slot outcome" where
  "slot_mut lane e =
     (if lane = 0 then Done (lane0 e) else if lane = 1 then Done (lane1 e)
      else if lane = 2 then Done (lane2 e) else if lane = 3 then Done (lane3 e) else Panic)"

definition slot_store_back :: "u8 \<Rightarrow> example_slot \<Rightarrow> example_edge \<Rightarrow> example_edge" where
  "slot_store_back lane slot e =
     (if lane = 0 then e\<lparr>lane0 := slot\<rparr> else if lane = 1 then e\<lparr>lane1 := slot\<rparr>
      else if lane = 2 then e\<lparr>lane2 := slot\<rparr> else if lane = 3 then e\<lparr>lane3 := slot\<rparr> else e)"

definition example_edge_clear :: "example_edge \<Rightarrow> example_edge" where
  "example_edge_clear e = \<lparr>lane0 = example_slot_clear (lane0 e), lane1 = example_slot_clear (lane1 e),
     lane2 = example_slot_clear (lane2 e), lane3 = example_slot_clear (lane3 e)\<rparr>"

record split_state =
  frame_0_to_1 :: example_edge
  frame_1_to_2 :: example_edge
  frame_2_to_0 :: example_edge
  role0_phase :: u8
  role0_to_role1_sent :: u8
  role0_to_role1_recv :: u8
  role1_to_role2_sent :: u8
  role1_to_role2_recv :: u8
  role2_to_role0_sent :: u8
  role2_to_role0_recv :: u8

definition split_start :: split_state where
  "split_start = \<lparr>frame_0_to_1 = example_edge_empty, frame_1_to_2 = example_edge_empty,
     frame_2_to_0 = example_edge_empty, role0_phase = 0, role0_to_role1_sent = 0,
     role0_to_role1_recv = 0, role1_to_role2_sent = 0, role1_to_role2_recv = 0,
     role2_to_role0_sent = 0, role2_to_role0_recv = 0\<rparr>"

text \<open>The static slots an edge pointer names, and a counter pointer's read and write.\<close>

datatype edge_ptr = Edge_0_To_1 | Edge_1_To_2 | Edge_2_To_0

datatype counter_ptr = Sent_0_To_1 | Recv_0_To_1 | Sent_1_To_2 | Recv_1_To_2 | Sent_2_To_0 | Recv_2_To_0

fun edge_at :: "edge_ptr \<Rightarrow> split_state \<Rightarrow> example_edge" where
  "edge_at Edge_0_To_1 st = frame_0_to_1 st"
| "edge_at Edge_1_To_2 st = frame_1_to_2 st"
| "edge_at Edge_2_To_0 st = frame_2_to_0 st"

fun edge_put :: "edge_ptr \<Rightarrow> example_edge \<Rightarrow> split_state \<Rightarrow> split_state" where
  "edge_put Edge_0_To_1 e st = st\<lparr>frame_0_to_1 := e\<rparr>"
| "edge_put Edge_1_To_2 e st = st\<lparr>frame_1_to_2 := e\<rparr>"
| "edge_put Edge_2_To_0 e st = st\<lparr>frame_2_to_0 := e\<rparr>"

fun read_counter :: "counter_ptr \<Rightarrow> split_state \<Rightarrow> u8" where
  "read_counter Sent_0_To_1 st = role0_to_role1_sent st"
| "read_counter Recv_0_To_1 st = role0_to_role1_recv st"
| "read_counter Sent_1_To_2 st = role1_to_role2_sent st"
| "read_counter Recv_1_To_2 st = role1_to_role2_recv st"
| "read_counter Sent_2_To_0 st = role2_to_role0_sent st"
| "read_counter Recv_2_To_0 st = role2_to_role0_recv st"

fun write_counter :: "counter_ptr \<Rightarrow> u8 \<Rightarrow> split_state \<Rightarrow> split_state" where
  "write_counter Sent_0_To_1 v st = st\<lparr>role0_to_role1_sent := v\<rparr>"
| "write_counter Recv_0_To_1 v st = st\<lparr>role0_to_role1_recv := v\<rparr>"
| "write_counter Sent_1_To_2 v st = st\<lparr>role1_to_role2_sent := v\<rparr>"
| "write_counter Recv_1_To_2 v st = st\<lparr>role1_to_role2_recv := v\<rparr>"
| "write_counter Sent_2_To_0 v st = st\<lparr>role2_to_role0_sent := v\<rparr>"
| "write_counter Recv_2_To_0 v st = st\<lparr>role2_to_role0_recv := v\<rparr>"

text \<open>\<open>wrapping_add(1)\<close> on \<open>u8\<close>.\<close>

definition bump_counter :: "counter_ptr \<Rightarrow> split_state \<Rightarrow> split_state" where
  "bump_counter c st = write_counter c (read_counter c st + 1) st"

definition edge_slots_for_send :: "u8 \<Rightarrow> u8 \<Rightarrow> (edge_ptr \<times> counter_ptr) outcome" where
  "edge_slots_for_send local_role peer =
     (if local_role = 0 \<and> peer = 1 then Done (Edge_0_To_1, Sent_0_To_1)
      else if local_role = 1 \<and> peer = 2 then Done (Edge_1_To_2, Sent_1_To_2)
      else if local_role = 2 \<and> peer = 0 then Done (Edge_2_To_0, Sent_2_To_0)
      else Panic)"

definition edge_slots_for_recv :: "u8 \<Rightarrow> (edge_ptr \<times> counter_ptr) outcome" where
  "edge_slots_for_recv local_role =
     (if local_role = 0 then Done (Edge_2_To_0, Recv_2_To_0)
      else if local_role = 1 then Done (Edge_0_To_1, Recv_0_To_1)
      else if local_role = 2 then Done (Edge_1_To_2, Recv_1_To_2)
      else Panic)"

section \<open>The transport\<close>

definition split_open :: "port_open \<Rightarrow> (example_tx \<times> example_rx) outcome" where
  "split_open port =
     (if \<not> port_lane port < EXAMPLE_LANE_SLOTS then Panic
      else Done
        (\<lparr>etx_role = port_role port, etx_session = port_session port, etx_lane = port_lane port\<rparr>,
         \<lparr>erx_role = port_role port, erx_session = port_session port, erx_lane = port_lane port,
          erx_bytes = replicate EXAMPLE_FRAME_BYTES 0\<rparr>))"

text \<open>The result of the poll, whether it woke the task, and the changed static cells.\<close>

definition split_poll_send ::
    "example_tx \<Rightarrow> outgoing \<Rightarrow> split_state \<Rightarrow> (unit transport_result poll \<times> bool \<times> split_state) outcome" where
  "split_poll_send tx out st =
     (if etx_session tx = 0 then Panic
      else if out_target out = etx_role tx then Panic
      else if out_lane out \<noteq> etx_lane tx then Done (Ready (Inl Failed), False, st)
      else bind_outcome (edge_slots_for_send (etx_role tx) (out_target out)) (\<lambda>(edge, sent_counter).
        let st = bump_counter sent_counter st in
        bind_outcome (slot_mut (out_lane out) (edge_at edge st)) (\<lambda>slot.
          case example_slot_push slot (etx_session tx) (etx_role tx) (out_target out)
                 (out_label out) (out_payload out) of
            (r, slot) \<Rightarrow>
              let st = edge_put edge (slot_store_back (out_lane out) slot (edge_at edge st)) st in
              case r of
                Inl error \<Rightarrow> Done (Ready (Inl error), False, st)
              | Inr _ \<Rightarrow> Done (Ready (Inr ()), True, st))))"

definition split_cancel_send :: "example_tx \<Rightarrow> unit outcome" where
  "split_cancel_send tx = (if etx_session tx = 0 then Panic else Done ())"

definition split_poll_recv ::
    "example_rx \<Rightarrow> split_state \<Rightarrow> (received transport_result poll \<times> example_rx \<times> split_state) outcome" where
  "split_poll_recv rx st =
     (if erx_session rx = 0 then Panic
      else bind_outcome (edge_slots_for_recv (erx_role rx)) (\<lambda>(edge, recv_counter).
        bind_outcome (slot_mut (erx_lane rx) (edge_at edge st)) (\<lambda>slot.
          case example_slot_pop_into slot (erx_session rx) (erx_lane rx) (erx_role rx) rx of
            (r, rx, slot) \<Rightarrow>
              let st = edge_put edge (slot_store_back (erx_lane rx) slot (edge_at edge st)) st in
              case r of
                Some received \<Rightarrow> Done (Ready (Inr received), rx, bump_counter recv_counter st)
              | None \<Rightarrow> Done (Pending, rx, st))))"

definition split_requeue :: "example_rx \<Rightarrow> unit transport_result outcome" where
  "split_requeue rx = (if erx_session rx = 0 then Panic else Done (Inr ()))"

definition reset_live_carrier_evidence :: "split_state \<Rightarrow> split_state" where
  "reset_live_carrier_evidence st =
     st\<lparr>role0_phase := 0, role0_to_role1_sent := 0, role0_to_role1_recv := 0,
        role1_to_role2_sent := 0, role1_to_role2_recv := 0, role2_to_role0_sent := 0,
        role2_to_role0_recv := 0, frame_0_to_1 := example_edge_clear (frame_0_to_1 st),
        frame_1_to_2 := example_edge_clear (frame_1_to_2 st),
        frame_2_to_0 := example_edge_clear (frame_2_to_0 st)\<rparr>"

section \<open>The slots by receiving role and lane\<close>

definition split_slot :: "split_state \<Rightarrow> u8 \<Rightarrow> u8 \<Rightarrow> example_slot option" where
  "split_slot st role lane =
     (case edge_slots_for_recv role of
        Panic \<Rightarrow> None
      | Done (edge, c) \<Rightarrow>
          (case slot_mut lane (edge_at edge st) of Panic \<Rightarrow> None | Done slot \<Rightarrow> Some slot))"

definition example_slot_frame :: "u8 \<Rightarrow> example_slot \<Rightarrow> received" where
  "example_slot_frame lane slot =
     \<lparr>recv_header = be_bytes32 (es_session slot)
        @ [lane, es_sender slot, es_peer slot, es_label slot],
      recv_payload = take (es_len slot) (es_bytes slot)\<rparr>"

definition split_held :: "split_state \<Rightarrow> u8 \<times> u8 \<Rightarrow> received option" where
  "split_held st at =
     (case split_slot st (fst at) (snd at) of
        None \<Rightarrow> None
      | Some slot \<Rightarrow> if es_ready slot then Some (example_slot_frame (snd at) slot) else None)"

definition example_slot_ok :: "u8 \<Rightarrow> example_slot \<Rightarrow> bool" where
  "example_slot_ok role slot \<longleftrightarrow> length (es_bytes slot) = 32 \<and> es_len slot \<le> 32
     \<and> (es_ready slot \<longrightarrow> es_peer slot = role)"

definition split_inv :: "split_state \<Rightarrow> bool" where
  "split_inv st \<longleftrightarrow> (\<forall>role lane slot. split_slot st role lane = Some slot \<longrightarrow> example_slot_ok role slot)"

definition ring_edge :: "u8 \<Rightarrow> u8 \<Rightarrow> bool" where
  "ring_edge source target \<longleftrightarrow> is_done (edge_slots_for_send source target)"

lemma u8_less_4: "(lane :: u8) < 4 \<longleftrightarrow> lane = 0 \<or> lane = 1 \<or> lane = 2 \<or> lane = 3"
proof -
  have "unat lane < 4 \<longleftrightarrow> unat lane = 0 \<or> unat lane = 1 \<or> unat lane = 2 \<or> unat lane = 3" by auto
  then show ?thesis by (simp add: word_less_nat_alt word_unat_eq_iff)
qed

lemma slot_mut_Panic [simp]: "slot_mut lane e = Panic \<longleftrightarrow> \<not> lane < 4"
  by (auto simp: slot_mut_def u8_less_4)

lemma slot_mut_store_back:
  "lane < 4 \<Longrightarrow> slot_mut lane' (slot_store_back lane slot e)
     = (if lane' = lane then Done slot else slot_mut lane' e)"
  by (auto simp: slot_mut_def slot_store_back_def u8_less_4)

lemma slot_store_back_id: "slot_mut lane e = Done slot \<Longrightarrow> slot_store_back lane slot e = e"
  by (auto simp: slot_mut_def slot_store_back_def split: if_splits)

lemma edge_at_put [simp]:
  "edge_at e' (edge_put e x st) = (if e' = e then x else edge_at e' st)"
  by (cases e; cases e') simp_all

lemma edge_put_at [simp]: "edge_put e (edge_at e st) st = st"
  by (cases e) simp_all

lemma edge_at_counter [simp]: "edge_at e (write_counter c v st) = edge_at e st"
  by (cases e; cases c) simp_all

lemma read_write_counter [simp]:
  "read_counter c' (write_counter c v st) = (if c' = c then v else read_counter c' st)"
  by (cases c; cases c') simp_all

lemma read_counter_edge_put [simp]: "read_counter c (edge_put e x st) = read_counter c st"
  by (cases c; cases e) simp_all

lemma edge_at_bump [simp]: "edge_at e (bump_counter c st) = edge_at e st"
  by (simp add: bump_counter_def)

lemma split_slot_bump [simp]: "split_slot (bump_counter c st) r l = split_slot st r l"
  by (simp add: split_slot_def split: outcome.split prod.split)

lemma split_inv_bump [simp]: "split_inv (bump_counter c st) \<longleftrightarrow> split_inv st"
  by (simp add: split_inv_def)

lemma split_held_bump [simp]: "split_held (bump_counter c st) at = split_held st at"
  by (simp add: split_held_def)

text \<open>The edge into a role, by its sender and by its receiver.\<close>

lemma send_edge_is_recv_edge:
  "edge_slots_for_send source target = Done (edge, c) \<Longrightarrow>
     \<exists>c'. edge_slots_for_recv target = Done (edge, c')"
  by (auto simp: edge_slots_for_send_def edge_slots_for_recv_def split: if_splits)

lemma recv_edge_inj:
  "edge_slots_for_recv r = Done (edge, c) \<Longrightarrow> edge_slots_for_recv r' = Done (edge, c') \<Longrightarrow> r' = r"
  by (auto simp: edge_slots_for_recv_def split: if_splits)

lemma split_slot_store:
  assumes "edge_slots_for_recv role = Done (edge, c)" and "lane < 4"
  shows "split_slot (edge_put edge (slot_store_back lane slot (edge_at edge st)) st) r l
    = (if r = role \<and> l = lane then Some slot else split_slot st r l)"
  using assms recv_edge_inj [OF assms(1), of r]
  by (cases "edge_slots_for_recv r") (auto simp: split_slot_def slot_mut_store_back)

lemma split_held_store:
  assumes "edge_slots_for_recv role = Done (edge, c)" and "lane < 4"
  shows "split_held (edge_put edge (slot_store_back lane slot (edge_at edge st)) st) at
    = (if at = (role, lane)
       then (if es_ready slot then Some (example_slot_frame lane slot) else None)
       else split_held st at)"
  using split_slot_store [OF assms] by (cases "at") (auto simp: split_held_def)

lemma split_inv_store [inv_intros]:
  assumes "split_inv st" "edge_slots_for_recv role = Done (edge, c)" "lane < 4"
    "example_slot_ok role slot"
  shows "split_inv (edge_put edge (slot_store_back lane slot (edge_at edge st)) st)"
  using assms split_slot_store [OF assms(2,3)] by (auto simp: split_inv_def)

lemma example_slot_ok_empty [simp]: "example_slot_ok r example_slot_empty"
  by (simp add: example_slot_ok_def example_slot_empty_def EXAMPLE_FRAME_BYTES_def)

lemma slot_mut_edge_empty: "slot_mut lane example_edge_empty = Done slot \<Longrightarrow> slot = example_slot_empty"
  by (auto simp: slot_mut_def example_edge_empty_def split: if_splits)

lemma edge_at_start [simp]: "edge_at e split_start = example_edge_empty"
  by (cases e) (simp_all add: split_start_def)

lemma split_slot_start: "split_slot split_start r l = Some slot \<Longrightarrow> slot = example_slot_empty"
  by (auto simp: split_slot_def slot_mut_edge_empty split: outcome.splits)

lemma split_start_inv [simp]: "split_inv split_start"
  by (auto simp: split_inv_def dest!: split_slot_start)

lemma split_start_held [simp]: "split_held split_start at = None"
  by (auto simp: split_held_def example_slot_empty_def dest!: split_slot_start split: option.splits)

section \<open>What the operations do to the slots\<close>

text \<open>The frame a send puts on its edge.\<close>

definition sent_frame :: "example_tx \<times> outgoing \<Rightarrow> received" where
  "sent_frame m =
     \<lparr>recv_header = be_bytes32 (etx_session (fst m))
        @ [out_lane (snd m), etx_role (fst m), out_target (snd m), out_label (snd m)],
      recv_payload = out_payload (snd m)\<rparr>"

definition split_send_ok :: "example_tx \<times> outgoing \<Rightarrow> bool" where
  "split_send_ok m \<longleftrightarrow> etx_session (fst m) \<noteq> 0 \<and> etx_lane (fst m) < 4
     \<and> ring_edge (etx_role (fst m)) (out_target (snd m))"

definition split_accepts :: "split_state \<Rightarrow> example_tx \<Rightarrow> outgoing \<Rightarrow> bool" where
  "split_accepts st tx out \<longleftrightarrow> out_lane out = etx_lane tx \<and> length (out_payload out) \<le> 32
     \<and> split_held st (out_target out, out_lane out) = None"

lemma ring_edge_ne: "ring_edge a b \<Longrightarrow> b \<noteq> a"
  by (auto simp: ring_edge_def edge_slots_for_send_def split: if_splits)

lemma split_poll_send_spec:
  assumes inv: "split_inv st" and ok: "split_send_ok (tx, out)"
  shows "\<exists>st'. split_poll_send tx out st
      = Done (Ready (if split_accepts st tx out then Inr () else Inl Failed), split_accepts st tx out, st')
    \<and> split_inv st'
    \<and> (\<forall>at. split_held st' at = (if split_accepts st tx out \<and> at = (out_target out, out_lane out)
          then Some (sent_frame (tx, out)) else split_held st at))"
proof (cases "out_lane out = etx_lane tx")
  case False
  then show ?thesis
    using ok inv ring_edge_ne by (auto simp: split_poll_send_def split_send_ok_def split_accepts_def)
next
  case lane: True
  from ok obtain edge c where e: "edge_slots_for_send (etx_role tx) (out_target out) = Done (edge, c)"
    by (cases "edge_slots_for_send (etx_role tx) (out_target out)")
       (auto simp: split_send_ok_def ring_edge_def)
  from send_edge_is_recv_edge [OF e] obtain c' where
    r: "edge_slots_for_recv (out_target out) = Done (edge, c')" by blast
  have l: "out_lane out < 4" using ok lane by (simp add: split_send_ok_def)
  then obtain slot where slot: "slot_mut (out_lane out) (edge_at edge st) = Done slot"
    by (cases "slot_mut (out_lane out) (edge_at edge st)") auto
  have at_slot: "split_slot st (out_target out) (out_lane out) = Some slot"
    using r slot by (simp add: split_slot_def)
  have slot_ok: "example_slot_ok (out_target out) slot"
    using inv at_slot by (auto simp: split_inv_def)
  have acc: "split_accepts st tx out \<longleftrightarrow> length (out_payload out) \<le> 32 \<and> \<not> es_ready slot"
    using lane at_slot by (simp add: split_accepts_def split_held_def)
  have guard: "etx_session tx \<noteq> 0" "out_target out \<noteq> etx_role tx"
    using ok ring_edge_ne by (auto simp: split_send_ok_def)
  show ?thesis
  proof (cases "split_accepts st tx out")
    case False
    then have "example_slot_push slot (etx_session tx) (etx_role tx) (out_target out)
        (out_label out) (out_payload out) = (Inl Failed, slot)"
      by (auto simp: example_slot_push_def EXAMPLE_FRAME_BYTES_def acc)
    then have "split_poll_send tx out st = Done (Ready (Inl Failed), False, bump_counter c st)"
      using guard lane e slot edge_put_at [of edge "bump_counter c st"]
      by (simp add: split_poll_send_def Let_def slot_store_back_id)
    with False inv show ?thesis by simp
  next
    case True
    let ?slot = "slot\<lparr>es_session := etx_session tx, es_sender := etx_role tx,
       es_peer := out_target out, es_label := out_label out, es_len := length (out_payload out),
       es_bytes := blit 0 (out_payload out) (es_bytes slot), es_ready := True\<rparr>"
    have "example_slot_push slot (etx_session tx) (etx_role tx) (out_target out)
        (out_label out) (out_payload out) = (Inr (), ?slot)"
      using True by (auto simp: example_slot_push_def EXAMPLE_FRAME_BYTES_def acc)
    then have "split_poll_send tx out st = Done (Ready (Inr ()), True,
        edge_put edge (slot_store_back (out_lane out) ?slot (edge_at edge (bump_counter c st)))
          (bump_counter c st))"
      using guard lane e slot by (simp add: split_poll_send_def Let_def)
    moreover have "example_slot_ok (out_target out) ?slot"
      using slot_ok True acc by (simp add: example_slot_ok_def)
    moreover have "example_slot_frame (out_lane out) ?slot = sent_frame (tx, out)"
      by (simp add: example_slot_frame_def sent_frame_def)
    ultimately show ?thesis
      using True inv split_inv_store [OF _ r l, of "bump_counter c st" ?slot]
        split_held_store [OF r l, of ?slot "bump_counter c st"] by simp
  qed
qed

text \<open>A receive takes the frame of its slot exactly when the frame is of its session.\<close>

definition split_recv_ok :: "example_rx \<Rightarrow> bool" where
  "split_recv_ok rx \<longleftrightarrow> erx_session rx \<noteq> 0 \<and> erx_role rx < 3 \<and> erx_lane rx < 4
     \<and> length (erx_bytes rx) = 32"

definition split_offers :: "split_state \<Rightarrow> example_rx \<Rightarrow> received option" where
  "split_offers st rx =
     (case split_held st (erx_role rx, erx_lane rx) of
        None \<Rightarrow> None
      | Some f \<Rightarrow> if take 4 (recv_header f) = be_bytes32 (erx_session rx) then Some f else None)"

lemma u8_less_3: "(role :: u8) < 3 \<longleftrightarrow> role = 0 \<or> role = 1 \<or> role = 2"
proof -
  have "unat role < 3 \<longleftrightarrow> unat role = 0 \<or> unat role = 1 \<or> unat role = 2" by auto
  then show ?thesis by (simp add: word_less_nat_alt word_unat_eq_iff)
qed

lemma recv_edge_Panic [simp]: "edge_slots_for_recv role = Panic \<longleftrightarrow> \<not> role < 3"
  by (auto simp: edge_slots_for_recv_def u8_less_3)

lemma frame_session [simp]:
  "take 4 (recv_header (example_slot_frame lane slot)) = be_bytes32 (es_session slot)"
  by (simp add: example_slot_frame_def)

lemma split_poll_recv_spec:
  assumes inv: "split_inv st" and ok: "erx_session rx \<noteq> 0" "erx_role rx < 3" "erx_lane rx < 4"
  shows "case split_offers st rx of
      None \<Rightarrow> split_poll_recv rx st = Done (Pending, rx, st)
    | Some f \<Rightarrow> split_held st (erx_role rx, erx_lane rx) = Some f
        \<and> (\<exists>buf st'. split_poll_recv rx st = Done (Ready (Inr f), rx\<lparr>erx_bytes := buf\<rparr>, st')
            \<and> (length (erx_bytes rx) = 32 \<longrightarrow> length buf = 32) \<and> split_inv st'
            \<and> (\<forall>at. split_held st' at
                = (if at = (erx_role rx, erx_lane rx) then None else split_held st at)))"
proof -
  from ok obtain edge c where r: "edge_slots_for_recv (erx_role rx) = Done (edge, c)"
    by (cases "edge_slots_for_recv (erx_role rx)") auto
  from ok obtain slot where slot: "slot_mut (erx_lane rx) (edge_at edge st) = Done slot"
    by (cases "slot_mut (erx_lane rx) (edge_at edge st)") auto
  have at_slot: "split_slot st (erx_role rx) (erx_lane rx) = Some slot"
    using r slot by (simp add: split_slot_def)
  have slot_ok: "example_slot_ok (erx_role rx) slot" using inv at_slot by (auto simp: split_inv_def)
  have offers: "split_offers st rx = (if example_slot_matches slot (erx_session rx) (erx_role rx)
      then Some (example_slot_frame (erx_lane rx) slot) else None)"
    using at_slot slot_ok
    by (simp add: split_offers_def split_held_def example_slot_matches_def example_slot_ok_def)
  show ?thesis
  proof (cases "example_slot_matches slot (erx_session rx) (erx_role rx)")
    case False
    then show ?thesis
      using ok r slot offers
      by (simp add: split_poll_recv_def example_slot_pop_into_def slot_store_back_id)
  next
    case True
    let ?buf = "blit 0 (take (es_len slot) (es_bytes slot)) (erx_bytes rx)"
    have "take (es_len slot) ?buf = take (es_len slot) (es_bytes slot)"
      using slot_ok by (simp add: example_slot_ok_def take_blit_0_le)
    then have pop: "example_slot_pop_into slot (erx_session rx) (erx_lane rx) (erx_role rx) rx
        = (Some (example_slot_frame (erx_lane rx) slot), rx\<lparr>erx_bytes := ?buf\<rparr>, example_slot_empty)"
      using True by (simp add: example_slot_pop_into_def Let_def example_slot_frame_def
        example_slot_clear_def)
    have "split_poll_recv rx st = Done (Ready (Inr (example_slot_frame (erx_lane rx) slot)),
        rx\<lparr>erx_bytes := ?buf\<rparr>, bump_counter c (edge_put edge
          (slot_store_back (erx_lane rx) example_slot_empty (edge_at edge st)) st))"
      using ok r slot pop by (simp add: split_poll_recv_def Let_def)
    moreover have "length ?buf = 32" if "length (erx_bytes rx) = 32"
      using slot_ok that by (simp add: example_slot_ok_def)
    moreover have "split_held st (erx_role rx, erx_lane rx)
        = Some (example_slot_frame (erx_lane rx) slot)"
      using at_slot True by (simp add: split_held_def example_slot_matches_def)
    ultimately show ?thesis
      using True offers split_inv_store [OF inv r ok(3) example_slot_ok_empty]
        split_held_store [OF r ok(3), of example_slot_empty st]
      by (auto simp: example_slot_empty_def)
  qed
qed

section \<open>Runs of sends and receives\<close>

text \<open>A run of the code: it panics when one of its polls does.\<close>

type_synonym split_op = "(example_tx \<times> outgoing, example_rx) stash_op"

fun split_run :: "split_state \<Rightarrow> split_op list \<Rightarrow>
    ((example_tx \<times> outgoing) list \<times> (example_rx \<times> received) list \<times> split_state) outcome" where
  "split_run st [] = Done ([], [], st)"
| "split_run st (Stash_Put m # ops) =
     bind_outcome (split_poll_send (fst m) (snd m) st) (\<lambda>(r, woke, st1).
       bind_outcome (split_run st1 ops) (\<lambda>(put, got, st2).
         Done (if r = Ready (Inr ()) then m # put else put, got, st2)))"
| "split_run st (Stash_Take rx # ops) =
     bind_outcome (split_poll_recv rx st) (\<lambda>(r, rx', st1).
       bind_outcome (split_run st1 ops) (\<lambda>(put, got, st2).
         Done (put, (case r of Ready (Inr f) \<Rightarrow> (rx, f) # got | _ \<Rightarrow> got), st2)))"

text \<open>The polls as the operations of a one-place store; a call that panics does nothing there.\<close>

definition split_put :: "example_tx \<times> outgoing \<Rightarrow> split_state \<Rightarrow> unit transport_result \<times> split_state" where
  "split_put m st =
     (case split_poll_send (fst m) (snd m) st of
        Done (Ready r, woke, st') \<Rightarrow> (r, st') | _ \<Rightarrow> (Inl Failed, st))"

definition split_take :: "example_rx \<Rightarrow> split_state \<Rightarrow> received option \<times> split_state" where
  "split_take rx st =
     (case split_poll_recv rx st of
        Done (Ready (Inr f), rx', st') \<Rightarrow> (Some f, st') | _ \<Rightarrow> (None, st))"

definition split_op_ok :: "split_op \<Rightarrow> bool" where
  "split_op_ok op = (case op of Stash_Put m \<Rightarrow> split_send_ok m | Stash_Take rx \<Rightarrow> split_recv_ok rx)"

lemma split_recv_panics:
  "\<not> (erx_session rx \<noteq> 0 \<and> erx_role rx < 3 \<and> erx_lane rx < 4) \<Longrightarrow> split_poll_recv rx st = Panic"
  by (cases "edge_slots_for_recv (erx_role rx)")
     (auto simp: split_poll_recv_def iffD2 [OF slot_mut_Panic] iffD2 [OF recv_edge_Panic])

lemma split_take_guard:
  "\<not> (erx_session rx \<noteq> 0 \<and> erx_role rx < 3 \<and> erx_lane rx < 4) \<Longrightarrow> split_take rx st = (None, st)"
  using split_recv_panics [of rx st] by (simp add: split_take_def)

lemma split_take_spec:
  assumes "split_inv st"
  shows "split_take rx st = (None, st)
    \<or> (\<exists>f st'. split_take rx st = (Some f, st') \<and> split_inv st'
        \<and> split_held st (erx_role rx, erx_lane rx) = Some f
        \<and> (\<forall>at. split_held st' at
             = (if at = (erx_role rx, erx_lane rx) then None else split_held st at)))"
proof (cases "erx_session rx \<noteq> 0 \<and> erx_role rx < 3 \<and> erx_lane rx < 4")
  case True
  with split_poll_recv_spec [OF assms, of rx] show ?thesis
    by (cases "split_offers st rx") (auto simp: split_take_def)
next
  case False
  then show ?thesis using split_take_guard by blast
qed

lemma split_put_spec:
  assumes "split_inv st" "split_send_ok m"
  shows "\<exists>st'. split_put m st = (if split_accepts st (fst m) (snd m) then Inr () else Inl Failed, st')
    \<and> split_inv st'
    \<and> (\<forall>at. split_held st' at = (if split_accepts st (fst m) (snd m)
            \<and> at = (out_target (snd m), out_lane (snd m))
          then Some (sent_frame m) else split_held st at))"
  using split_poll_send_spec [of st "fst m" "snd m"] assms by (auto simp: split_put_def)

interpretation split: slot_store split_put split_take split_held sent_frame
  "\<lambda>m. (out_target (snd m), out_lane (snd m))" "\<lambda>rx. (erx_role rx, erx_lane rx)"
  split_inv split_send_ok
proof unfold_locales
  fix st m st'
  assume h: "split_inv st" "split_send_ok m" "split_put m st = (Inr (), st')"
  with split_put_spec [OF h(1,2)]
  show "split_inv st' \<and> split_held st (out_target (snd m), out_lane (snd m)) = None
      \<and> (\<forall>l. split_held st' l = (if l = (out_target (snd m), out_lane (snd m))
            then Some (sent_frame m) else split_held st l))"
    by (auto simp: split_accepts_def split: if_splits)
next
  fix st m e st'
  assume h: "split_inv st" "split_send_ok m" "split_put m st = (Inl e, st')"
  with split_put_spec [OF h(1,2)]
  show "split_inv st' \<and> (\<forall>l. split_held st' l = split_held st l)"
    by (auto split: if_splits)
next
  fix st rx f st'
  assume h: "split_inv st" "split_take rx st = (Some f, st')"
  with split_take_spec [OF h(1), of rx]
  show "split_inv st' \<and> split_held st (erx_role rx, erx_lane rx) = Some f
      \<and> (\<forall>l. split_held st' l = (if l = (erx_role rx, erx_lane rx) then None else split_held st l))"
    by auto
next
  fix st rx st'
  assume h: "split_inv st" "split_take rx st = (None, st')"
  with split_take_spec [OF h(1), of rx]
  show "split_inv st' \<and> (\<forall>l. split_held st' l = split_held st l)" by auto
qed

text \<open>Runs of well-formed calls never panic, and are runs of the store.\<close>

lemma split_run_stash:
  assumes "split_inv st" "\<forall>op \<in> set ops. split_op_ok op"
  shows "split_run st ops = Done (run_stash split_put split_take st ops)"
  using assms
proof (induction ops arbitrary: st)
  case (Cons op ops)
  show ?case
  proof (cases op)
    case (Stash_Put m)
    then have m: "split_send_ok m" using Cons.prems(2) by (simp add: split_op_ok_def)
    from split_poll_send_spec [OF Cons.prems(1), of "fst m" "snd m"] m obtain st' where
      "split_poll_send (fst m) (snd m) st = Done (Ready (if split_accepts st (fst m) (snd m)
         then Inr () else Inl Failed), split_accepts st (fst m) (snd m), st')" "split_inv st'" by auto
    with Cons.IH [of st'] Cons.prems(2) show ?thesis
      by (auto simp: Stash_Put split_put_def split: prod.splits)
  next
    case (Stash_Take rx)
    then have rx: "erx_session rx \<noteq> 0" "erx_role rx < 3" "erx_lane rx < 4"
      using Cons.prems(2) by (auto simp: split_op_ok_def split_recv_ok_def)
    note spec = split_poll_recv_spec [OF Cons.prems(1) rx]
    show ?thesis
    proof (cases "split_offers st rx")
      case None
      with spec have p: "split_poll_recv rx st = Done (Pending, rx, st)" by simp
      then have "split_take rx st = (None, st)" by (simp add: split_take_def)
      with p Cons show ?thesis by (auto simp: Stash_Take split: prod.splits)
    next
      case (Some f)
      with spec obtain rx' st' where
        p: "split_poll_recv rx st = Done (Ready (Inr f), rx', st')" "split_inv st'" by auto
      then have "split_take rx st = (Some f, st')" by (simp add: split_take_def)
      with p Cons.IH [of st'] Cons.prems(2) show ?thesis
        by (auto simp: Stash_Take split: prod.splits)
    qed
  qed
qed simp

section \<open>The evidence counters\<close>

text \<open>The sends over an edge that got past the guards, accepted by the slot or not.\<close>

definition send_attempt :: "u8 \<Rightarrow> u8 \<Rightarrow> split_op \<Rightarrow> bool" where
  "send_attempt source target op =
     (case op of
        Stash_Put (tx, out) \<Rightarrow>
          etx_role tx = source \<and> out_target out = target \<and> out_lane out = etx_lane tx
      | Stash_Take rx \<Rightarrow> False)"

lemma send_counter_inj:
  "edge_slots_for_send a b = Done (e, c) \<Longrightarrow> edge_slots_for_send a' b' = Done (e', c)
     \<Longrightarrow> a' = a \<and> b' = b"
  by (auto simp: edge_slots_for_send_def split: if_splits)

lemma recv_counter_inj:
  "edge_slots_for_recv a = Done (e, c) \<Longrightarrow> edge_slots_for_recv a' = Done (e', c) \<Longrightarrow> a' = a"
  by (auto simp: edge_slots_for_recv_def split: if_splits)

lemma counters_disjoint:
  "edge_slots_for_send a b = Done (e, c) \<Longrightarrow> edge_slots_for_recv r \<noteq> Done (e', c)"
  by (auto simp: edge_slots_for_recv_def edge_slots_for_send_def split: if_splits)

lemma send_counts:
  assumes "split_poll_send tx out st = Done (r, woke, st')"
  shows "if out_lane out \<noteq> etx_lane tx then st' = st
    else \<exists>e c. edge_slots_for_send (etx_role tx) (out_target out) = Done (e, c)
      \<and> (\<forall>c'. read_counter c' st' = read_counter c' st + (if c' = c then 1 else 0))"
proof (cases "out_lane out \<noteq> etx_lane tx")
  case True
  with assms show ?thesis by (auto simp: split_poll_send_def split: if_splits)
next
  case False
  with assms obtain e c slot where
    e: "edge_slots_for_send (etx_role tx) (out_target out) = Done (e, c)" and
    h: "(case example_slot_push slot (etx_session tx) (etx_role tx) (out_target out) (out_label out)
            (out_payload out) of (r, slot) \<Rightarrow>
          let st = edge_put e (slot_store_back (out_lane out) slot (edge_at e (bump_counter c st)))
                (bump_counter c st)
          in case r of Inl error \<Rightarrow> Done (Ready (Inl error), False, st)
             | Inr _ \<Rightarrow> Done (Ready (Inr ()), True, st)) = Done (r, woke, st')"
    by (auto simp: split_poll_send_def split: if_splits)
  obtain pr slot' where p: "example_slot_push slot (etx_session tx) (etx_role tx) (out_target out)
      (out_label out) (out_payload out) = (pr, slot')" by (cases "example_slot_push slot
        (etx_session tx) (etx_role tx) (out_target out) (out_label out) (out_payload out)")
  have "st' = edge_put e (slot_store_back (out_lane out) slot' (edge_at e (bump_counter c st)))
      (bump_counter c st)"
    using h by (cases pr) (auto simp: p Let_def)
  with e False show ?thesis by (simp add: bump_counter_def)
qed

lemma recv_counts:
  assumes "split_poll_recv rx st = Done (r, rx', st')"
  shows "\<exists>e c. edge_slots_for_recv (erx_role rx) = Done (e, c)
    \<and> (\<forall>c'. read_counter c' st'
        = read_counter c' st + (if c' = c \<and> (\<exists>f. r = Ready (Inr f)) then 1 else 0))"
proof -
  from assms obtain e c slot where
    e: "edge_slots_for_recv (erx_role rx) = Done (e, c)" and
    h: "(case example_slot_pop_into slot (erx_session rx) (erx_lane rx) (erx_role rx) rx of
          (r, rx, slot) \<Rightarrow>
            let st = edge_put e (slot_store_back (erx_lane rx) slot (edge_at e st)) st
            in case r of Some received \<Rightarrow> Done (Ready (Inr received), rx, bump_counter c st)
               | None \<Rightarrow> Done (Pending, rx, st)) = Done (r, rx', st')"
    by (fastforce simp: split_poll_recv_def split: if_splits)
  obtain pr rx1 slot' where p: "example_slot_pop_into slot (erx_session rx) (erx_lane rx)
      (erx_role rx) rx = (pr, rx1, slot')" by (metis prod_cases3)
  show ?thesis using h e by (cases pr) (auto simp: p Let_def bump_counter_def)
qed

lemma reset_counters [simp]: "read_counter c (reset_live_carrier_evidence st) = 0"
  by (cases c) (simp_all add: reset_live_carrier_evidence_def)

lemma split_run_counts:
  assumes "split_run st ops = Done (put, got, st')"
  shows "edge_slots_for_send a b = Done (e, c) \<Longrightarrow>
      read_counter c st' = read_counter c st + of_nat (length (filter (send_attempt a b) ops))"
    and "edge_slots_for_recv r = Done (e', c') \<Longrightarrow>
      read_counter c' st' = read_counter c' st
        + of_nat (length (filter (\<lambda>p. erx_role (fst p) = r) got))"
  using assms
proof (induction ops arbitrary: st put got)
  case (Cons op ops)
  {
    case 1
    show ?case
    proof (cases op)
      case (Stash_Put m)
      obtain tx out where m: "m = (tx, out)" by (cases m)
      from 1(2) obtain r1 w st1 put1 got1 where
        h: "split_poll_send tx out st = Done (r1, w, st1)" "split_run st1 ops = Done (put1, got1, st')"
        by (auto simp: Stash_Put m split: prod.splits)
      from send_counts [OF h(1)] have "read_counter c st1
          = read_counter c st + (if send_attempt a b op then 1 else 0)"
        if "out_lane out \<noteq> etx_lane tx"
        using that by (simp add: Stash_Put m send_attempt_def)
      moreover have "read_counter c st1 = read_counter c st + (if send_attempt a b op then 1 else 0)"
        if lane: "out_lane out = etx_lane tx"
      proof -
        from send_counts [OF h(1)] lane obtain e1 c1 where
          s: "edge_slots_for_send (etx_role tx) (out_target out) = Done (e1, c1)"
            "\<forall>c'. read_counter c' st1 = read_counter c' st + (if c' = c1 then 1 else 0)" by auto
        have "c = c1 \<longleftrightarrow> etx_role tx = a \<and> out_target out = b"
          using 1(1) s(1) send_counter_inj [OF 1(1), of "etx_role tx" "out_target out" e1] by auto
        with s(2) lane show ?thesis by (simp add: Stash_Put m send_attempt_def)
      qed
      ultimately have "read_counter c st1
          = read_counter c st + (if send_attempt a b op then 1 else 0)" by blast
      with Cons.IH(1) [OF 1(1) h(2)] show ?thesis by simp
    next
      case (Stash_Take rx)
      from 1(2) obtain r1 rx1 st1 put1 got1 where
        h: "split_poll_recv rx st = Done (r1, rx1, st1)" "split_run st1 ops = Done (put1, got1, st')"
        by (auto simp: Stash_Take split: prod.splits)
      from recv_counts [OF h(1)] obtain e1 c1 where
        r: "edge_slots_for_recv (erx_role rx) = Done (e1, c1)"
          "\<forall>c'. read_counter c' st1
              = read_counter c' st + (if c' = c1 \<and> (\<exists>f. r1 = Ready (Inr f)) then 1 else 0)" by auto
      have "c \<noteq> c1" using counters_disjoint [OF 1(1), of "erx_role rx" e1] r(1) by auto
      with r(2) have "read_counter c st1 = read_counter c st" by simp
      with Cons.IH(1) [OF 1(1) h(2)] show ?thesis by (simp add: Stash_Take send_attempt_def)
    qed
  next
    case 2
    show ?case
    proof (cases op)
      case (Stash_Put m)
      obtain tx out where m: "m = (tx, out)" by (cases m)
      from 2(2) obtain r1 w st1 put1 where
        h: "split_poll_send tx out st = Done (r1, w, st1)" "split_run st1 ops = Done (put1, got, st')"
        by (auto simp: Stash_Put m split: prod.splits)
      have "read_counter c' st1 = read_counter c' st"
      proof (cases "out_lane out = etx_lane tx")
        case True
        with send_counts [OF h(1)] obtain e1 c1 where
          s: "edge_slots_for_send (etx_role tx) (out_target out) = Done (e1, c1)"
            "\<forall>c'. read_counter c' st1 = read_counter c' st + (if c' = c1 then 1 else 0)" by auto
        have "c' \<noteq> c1" using counters_disjoint [OF s(1), of r e'] 2(1) by auto
        with s(2) show ?thesis by simp
      next
        case False
        with send_counts [OF h(1)] show ?thesis by simp
      qed
      with Cons.IH(2) [OF 2(1) h(2)] show ?thesis by simp
    next
      case (Stash_Take rx)
      from 2(2) obtain r1 rx1 st1 put1 got1 where
        h: "split_poll_recv rx st = Done (r1, rx1, st1)" "split_run st1 ops = Done (put1, got1, st')"
          "got = (case r1 of Ready (Inr f) \<Rightarrow> (rx, f) # got1 | _ \<Rightarrow> got1)"
        by (auto simp: Stash_Take split: prod.splits)
      from recv_counts [OF h(1)] obtain e1 c1 where
        q: "edge_slots_for_recv (erx_role rx) = Done (e1, c1)"
          "\<forall>c'. read_counter c' st1
              = read_counter c' st + (if c' = c1 \<and> (\<exists>f. r1 = Ready (Inr f)) then 1 else 0)" by auto
      have "c' = c1 \<longleftrightarrow> erx_role rx = r"
        using 2(1) q(1) recv_counter_inj [OF 2(1), of "erx_role rx" e1] by auto
      with q(2) have "read_counter c' st1 = read_counter c' st
          + (if erx_role rx = r \<and> (\<exists>f. r1 = Ready (Inr f)) then 1 else 0)" by simp
      with Cons.IH(2) [OF 2(1) h(2)] h(3) show ?thesis
        by (auto split: poll.splits sum.splits)
    qed
  }
qed auto

section \<open>Properties\<close>

definition ring_tx :: "u8 \<Rightarrow> u32 \<Rightarrow> u8 \<Rightarrow> example_tx" where
  "ring_tx role session lane = \<lparr>etx_role = role, etx_session = session, etx_lane = lane\<rparr>"

definition ring_rx :: "u8 \<Rightarrow> u32 \<Rightarrow> u8 \<Rightarrow> example_rx" where
  "ring_rx role session lane =
     \<lparr>erx_role = role, erx_session = session, erx_lane = lane, erx_bytes = replicate 32 0\<rparr>"

definition ring_out :: "u8 \<Rightarrow> u8 \<Rightarrow> bytes \<Rightarrow> outgoing" where
  "ring_out target lane payload =
     \<lparr>out_target = target, out_lane = lane, out_label = 31, out_payload = payload\<rparr>"

text \<open>C28: Over any run of sends and receives on the ring, of any sessions, no poll panics, and
  for every role and lane the frames received, followed by the one frame the slot may still
  hold, are the accepted messages in order, each with the header of its sender.\<close>

theorem split_carrier_delivery:
  assumes "\<forall>op \<in> set ops. split_op_ok op"
  shows "\<exists>put got st. split_run split_start ops = Done (put, got, st) \<and> (\<forall>role lane.
    map sent_frame (filter (\<lambda>m. (out_target (snd m), out_lane (snd m)) = (role, lane)) put)
      = map snd (filter (\<lambda>p. (erx_role (fst p), erx_lane (fst p)) = (role, lane)) got)
        @ opt_list (split_held st (role, lane)))"
proof -
  obtain put got st where run: "run_stash split_put split_take split_start ops = (put, got, st)"
    by (metis prod_cases3)
  have "\<forall>m. Stash_Put m \<in> set ops \<longrightarrow> split_send_ok m"
    using assms by (fastforce simp: split_op_ok_def)
  note history = split.store_history [OF split_start_inv this run]
  have eq: "map sent_frame (filter (\<lambda>m. (out_target (snd m), out_lane (snd m)) = (role, lane)) put)
      = map snd (filter (\<lambda>p. (erx_role (fst p), erx_lane (fst p)) = (role, lane)) got)
        @ opt_list (split_held st (role, lane))" for role lane
    using history [of "(role, lane)"] by simp
  show ?thesis
    unfolding split_run_stash [OF split_start_inv assms] run
    by (intro exI conjI allI) (rule refl, rule eq)
qed

theorem split_carrier_delivery_witness:
  "\<exists>put got st. split_run split_start
      [Stash_Put (ring_tx 0 7 0, ring_out 1 0 [97]), Stash_Put (ring_tx 0 7 0, ring_out 1 0 [98]),
       Stash_Take (ring_rx 1 7 0)] = Done (put, got, st)
    \<and> (\<forall>role lane.
      map sent_frame (filter (\<lambda>m. (out_target (snd m), out_lane (snd m)) = (role, lane)) put)
        = map snd (filter (\<lambda>p. (erx_role (fst p), erx_lane (fst p)) = (role, lane)) got)
          @ opt_list (split_held st (role, lane)))"
  by (rule split_carrier_delivery)
     (simp add: split_op_ok_def split_send_ok_def split_recv_ok_def ring_tx_def ring_rx_def
       ring_out_def ring_edge_def edge_slots_for_send_def)

text \<open>After a reset the receive counter of an edge is the number of frames received over it
  and the send counter the number of attempted sends, accepted or refused by the slot, both
  modulo 256.\<close>

theorem split_evidence_counters:
  assumes "split_run (reset_live_carrier_evidence st) ops = Done (put, got, st')"
    and "edge_slots_for_send source target = Done (edge, sent_counter)"
    and "edge_slots_for_recv target = Done (edge, recv_counter)"
  shows "unat (read_counter recv_counter st')
      = length (filter (\<lambda>p. erx_role (fst p) = target) got) mod 256
    \<and> unat (read_counter sent_counter st')
      = length (filter (send_attempt source target) ops) mod 256"
  using split_run_counts(1) [OF assms(1,2)] split_run_counts(2) [OF assms(1,3)]
  by (simp add: unat_of_nat)

theorem split_evidence_counters_witness:
  "\<exists>put got st'. split_run (reset_live_carrier_evidence split_start)
      [Stash_Put (ring_tx 0 7 0, ring_out 1 0 [97]), Stash_Put (ring_tx 0 7 0, ring_out 1 0 [98])]
      = Done (put, got, st')
    \<and> length put = 1 \<and> unat (role0_to_role1_sent st') = 2 \<and> unat (role0_to_role1_recv st') = 0"
proof -
  let ?ops = "[Stash_Put (ring_tx 0 7 0, ring_out 1 0 [97]), Stash_Put (ring_tx 0 7 0, ring_out 1 0 [98])]
    :: split_op list"
  obtain put got st' where run: "split_run (reset_live_carrier_evidence split_start) ?ops
      = Done (put, got, st')" "length put = 1" "got = []"
    by (simp add: split_poll_send_def ring_tx_def ring_out_def edge_slots_for_send_def slot_mut_def
      example_slot_push_def slot_store_back_def bump_counter_def Let_def EXAMPLE_FRAME_BYTES_def
      reset_live_carrier_evidence_def split_start_def example_edge_clear_def example_slot_clear_def
      example_slot_empty_def)
  have send: "edge_slots_for_send 0 1 = Done (Edge_0_To_1, Sent_0_To_1)"
    and recv: "edge_slots_for_recv 1 = Done (Edge_0_To_1, Recv_0_To_1)"
    by (simp_all add: edge_slots_for_send_def edge_slots_for_recv_def)
  have "unat (role0_to_role1_sent st') = 2 \<and> unat (role0_to_role1_recv st') = 0"
    using split_evidence_counters [OF run(1) send recv] run(3)
    by (simp add: send_attempt_def ring_tx_def ring_out_def)
  with run(1,2) show ?thesis by blast
qed

text \<open>Requeueing a received frame reports success but the frame is gone: the slot stays
  empty, and polling again with the same receive state finds nothing and changes nothing.\<close>

theorem split_requeue_loses:
  assumes "split_inv st" "split_recv_ok rx"
    and "split_poll_recv rx st = Done (Ready (Inr f), rx', st')"
  shows "split_requeue rx' = Done (Inr ())
    \<and> split_held st' (erx_role rx, erx_lane rx) = None
    \<and> split_poll_recv rx' st' = Done (Pending, rx', st')"
proof -
  have ok: "erx_session rx \<noteq> 0" "erx_role rx < 3" "erx_lane rx < 4"
    using assms(2) by (simp_all add: split_recv_ok_def)
  from split_poll_recv_spec [OF assms(1) ok] assms(3) obtain buf where
    rx': "rx' = rx\<lparr>erx_bytes := buf\<rparr>" and st': "split_inv st'"
      "split_held st' (erx_role rx, erx_lane rx) = None"
    by (cases "split_offers st rx") auto
  have "split_poll_recv rx' st' = Done (Pending, rx', st')"
    using split_poll_recv_spec [OF st'(1), of rx'] ok st'(2) by (simp add: rx' split_offers_def)
  with ok st' show ?thesis by (simp add: rx' split_requeue_def)
qed

theorem split_requeue_loses_witness:
  "\<exists>st f rx' st'. split_poll_recv (ring_rx 1 7 0) st = Done (Ready (Inr f), rx', st')
    \<and> split_requeue rx' = Done (Inr ()) \<and> recv_payload f = [97]
    \<and> split_poll_recv rx' st' = Done (Pending, rx', st')"
proof -
  let ?m = "(ring_tx 0 7 0, ring_out 1 0 [97])"
  have m: "split_send_ok ?m"
    by (simp add: split_send_ok_def ring_tx_def ring_out_def ring_edge_def edge_slots_for_send_def)
  have rx: "split_recv_ok (ring_rx 1 7 0)" by (simp add: split_recv_ok_def ring_rx_def)
  from split_poll_send_spec [OF split_start_inv m] obtain st where
    st: "split_inv st" "split_held st (1, 0) = Some (sent_frame ?m)"
    by (auto simp: split_accepts_def ring_tx_def ring_out_def)
  then have "split_offers st (ring_rx 1 7 0) = Some (sent_frame ?m)"
    by (simp add: split_offers_def ring_rx_def sent_frame_def ring_tx_def)
  with split_poll_recv_spec [OF st(1), of "ring_rx 1 7 0"] rx obtain rx' st' where
    r: "split_poll_recv (ring_rx 1 7 0) st = Done (Ready (Inr (sent_frame ?m)), rx', st')"
    by (auto simp: split_recv_ok_def)
  have "recv_payload (sent_frame ?m) = [97]" by (simp add: sent_frame_def ring_out_def)
  with split_requeue_loses [OF st(1) rx r] r show ?thesis by blast
qed

text \<open>A frame of one session blocks its slot: until a receive of that session takes it, every
  receive of another session is pending and every send to the slot fails, both without moving a
  frame.\<close>

theorem split_foreign_frame_blocks:
  assumes "split_inv st" "split_send_ok (tx, out)" "split_accepts st tx out"
    and "split_poll_send tx out st = Done (r, woke, st')"
    and "split_recv_ok rx" "erx_role rx = out_target out" "erx_lane rx = out_lane out"
      "erx_session rx \<noteq> etx_session tx"
    and "split_send_ok (tx2, out2)" "out_target out2 = out_target out" "out_lane out2 = out_lane out"
  shows "split_poll_recv rx st' = Done (Pending, rx, st')
    \<and> (\<exists>st2. split_poll_send tx2 out2 st' = Done (Ready (Inl Failed), False, st2)
        \<and> (\<forall>at. split_held st2 at = split_held st' at)
        \<and> split_held st2 (out_target out, out_lane out) = Some (sent_frame (tx, out)))"
proof -
  from split_poll_send_spec [OF assms(1,2)] assms(3,4) have
    st': "split_inv st'" "split_held st' (out_target out, out_lane out) = Some (sent_frame (tx, out))"
    by auto
  have "split_offers st' rx = None"
    using st'(2) assms(6-8) by (simp add: split_offers_def sent_frame_def)
  then have recv: "split_poll_recv rx st' = Done (Pending, rx, st')"
    using split_poll_recv_spec [OF st'(1), of rx] assms(5) by (simp add: split_recv_ok_def)
  have "\<not> split_accepts st' tx2 out2" using st'(2) assms(10,11) by (simp add: split_accepts_def)
  with split_poll_send_spec [OF st'(1) assms(9)] recv st'(2) show ?thesis by auto
qed

theorem split_foreign_frame_blocks_witness:
  "\<exists>st'. split_poll_send (ring_tx 0 7 0) (ring_out 1 0 [97]) split_start = Done (Ready (Inr ()), True, st')
    \<and> split_poll_recv (ring_rx 1 8 0) st' = Done (Pending, ring_rx 1 8 0, st')"
proof -
  let ?tx = "ring_tx 0 7 0" and ?out = "ring_out 1 0 [97]"
  have m: "split_send_ok (?tx, ?out)"
    by (simp add: split_send_ok_def ring_tx_def ring_out_def ring_edge_def edge_slots_for_send_def)
  have acc: "split_accepts split_start ?tx ?out"
    by (simp add: split_accepts_def ring_tx_def ring_out_def)
  from split_poll_send_spec [OF split_start_inv m] acc obtain st' where
    s: "split_poll_send ?tx ?out split_start = Done (Ready (Inr ()), True, st')" by auto
  from split_foreign_frame_blocks [OF split_start_inv m acc s, of "ring_rx 1 8 0" ?tx ?out] m s
  show ?thesis by (auto simp: split_recv_ok_def ring_rx_def ring_out_def ring_tx_def)
qed

end
