(* ===== verification/I2c_Bus.thy ===== *)
theory I2c_Bus
  imports Pico_Prelude
begin

text \<open>
  The polled I2C master of \<open>examples/rp2w-firmware/src/bin/sensor_panel.rs\<close>. The registers are
  a device of any state type: what a register read returns and what a register access does to
  the device are parameters. The loops poll at most the number of times the code allows, so
  every operation returns; lemmas about the bus traffic hold for every device, through a
  wrapper that keeps the list of register accesses.
\<close>

section \<open>Registers\<close>

record 'd mmio =
  mmio_read :: "nat \<Rightarrow> nat \<Rightarrow> 'd \<Rightarrow> u32 \<times> 'd"
  mmio_write :: "nat \<Rightarrow> nat \<Rightarrow> u32 \<Rightarrow> 'd \<Rightarrow> 'd"
  poll_delay :: "u64 \<Rightarrow> 'd \<Rightarrow> 'd"

definition I2C0_BASE :: nat where "I2C0_BASE = 0x40090000"
definition I2C1_BASE :: nat where "I2C1_BASE = 0x40098000"
definition I2C_TAR :: nat where "I2C_TAR = 0x04"
definition I2C_DATA_CMD :: nat where "I2C_DATA_CMD = 0x10"
definition I2C_RAW_INTR_STAT :: nat where "I2C_RAW_INTR_STAT = 0x34"
definition I2C_CLR_INTR :: nat where "I2C_CLR_INTR = 0x40"
definition I2C_CLR_TX_ABRT :: nat where "I2C_CLR_TX_ABRT = 0x54"
definition I2C_ENABLE :: nat where "I2C_ENABLE = 0x6c"
definition I2C_STATUS :: nat where "I2C_STATUS = 0x70"
definition I2C_RXFLR :: nat where "I2C_RXFLR = 0x78"
definition I2C_DATA_CMD_READ :: u32 where "I2C_DATA_CMD_READ = push_bit 8 1"
definition I2C_DATA_CMD_STOP :: u32 where "I2C_DATA_CMD_STOP = push_bit 9 1"
definition I2C_STATUS_TFNF :: u32 where "I2C_STATUS_TFNF = push_bit 1 1"
definition I2C_STATUS_TFE :: u32 where "I2C_STATUS_TFE = push_bit 2 1"
definition I2C_STATUS_MST_ACTIVITY :: u32 where "I2C_STATUS_MST_ACTIVITY = push_bit 5 1"
definition I2C_INTR_TX_ABRT :: u32 where "I2C_INTR_TX_ABRT = push_bit 6 1"

lemmas i2c_reg_defs = I2C_TAR_def I2C_DATA_CMD_def I2C_RAW_INTR_STAT_def I2C_CLR_INTR_def
  I2C_CLR_TX_ABRT_def I2C_ENABLE_def I2C_STATUS_def I2C_RXFLR_def

section \<open>Waiting\<close>

definition i2c_clear_intr :: "'d mmio \<Rightarrow> nat \<Rightarrow> 'd \<Rightarrow> 'd" where
  "i2c_clear_intr m base d = snd (mmio_read m base I2C_CLR_INTR d)"

definition i2c_aborted :: "'d mmio \<Rightarrow> nat \<Rightarrow> 'd \<Rightarrow> bool \<times> 'd" where
  "i2c_aborted m base d =
     (case mmio_read m base I2C_RAW_INTR_STAT d of
        (v, d) \<Rightarrow> if v AND I2C_INTR_TX_ABRT = 0 then (False, d)
                  else (True, snd (mmio_read m base I2C_CLR_TX_ABRT d)))"

text \<open>The loops from the current value of \<open>spin\<close> on.\<close>

function i2c_wait_for_from ::
    "'d mmio \<Rightarrow> nat \<Rightarrow> u32 \<Rightarrow> bool \<Rightarrow> nat \<Rightarrow> 'd \<Rightarrow> bool \<times> 'd" where
  "i2c_wait_for_from m base bits want spin d =
     (if spin < 500000 then
        case mmio_read m base I2C_STATUS d of
          (status, d) \<Rightarrow>
            if (status AND bits \<noteq> 0) = want then (True, d)
            else case i2c_aborted m base d of
              (aborted, d) \<Rightarrow> if aborted then (False, d)
                else i2c_wait_for_from m base bits want (spin + 1) d
      else (False, d))"
  by pat_completeness auto

termination by (relation "measure (\<lambda>(m, base, bits, set, spin, d). 500000 - spin)") auto

declare i2c_wait_for_from.simps [simp del]

definition i2c_wait_for :: "'d mmio \<Rightarrow> nat \<Rightarrow> u32 \<Rightarrow> bool \<Rightarrow> 'd \<Rightarrow> bool \<times> 'd" where
  "i2c_wait_for m base bits want d = i2c_wait_for_from m base bits want 0 d"

function i2c_wait_idle_from :: "'d mmio \<Rightarrow> nat \<Rightarrow> nat \<Rightarrow> 'd \<Rightarrow> bool \<times> 'd" where
  "i2c_wait_idle_from m base spin d =
     (if spin < 500000 then
        case mmio_read m base I2C_STATUS d of
          (status, d) \<Rightarrow>
            if status AND (I2C_STATUS_TFE OR I2C_STATUS_MST_ACTIVITY) = I2C_STATUS_TFE then (True, d)
            else i2c_wait_idle_from m base (spin + 1) d
      else (False, d))"
  by pat_completeness auto

termination by (relation "measure (\<lambda>(m, base, spin, d). 500000 - spin)") auto

declare i2c_wait_idle_from.simps [simp del]

definition i2c_wait_idle :: "'d mmio \<Rightarrow> nat \<Rightarrow> 'd \<Rightarrow> bool \<times> 'd" where
  "i2c_wait_idle m base d = i2c_wait_idle_from m base 0 d"

section \<open>Transactions\<close>

definition i2c_set_target :: "'d mmio \<Rightarrow> nat \<Rightarrow> u8 \<Rightarrow> 'd \<Rightarrow> bool \<times> 'd" where
  "i2c_set_target m base addr d =
     (case i2c_wait_idle m base d of
        (idle, d) \<Rightarrow>
          if \<not> idle then (False, d)
          else
            let d = i2c_clear_intr m base d;
                d = mmio_write m base I2C_ENABLE 0 d;
                d = mmio_write m base I2C_TAR (ucast addr) d;
                d = i2c_clear_intr m base d;
                d = mmio_write m base I2C_ENABLE 1 d
            in (True, d))"

text \<open>\<open>wait_idle(base) \<and> \<not> aborted(base)\<close>, with its short circuit.\<close>

definition i2c_finish :: "'d mmio \<Rightarrow> nat \<Rightarrow> 'd \<Rightarrow> bool \<times> 'd" where
  "i2c_finish m base d =
     (case i2c_wait_idle m base d of
        (idle, d) \<Rightarrow>
          if \<not> idle then (False, d)
          else case i2c_aborted m base d of (aborted, d) \<Rightarrow> (\<not> aborted, d))"

text \<open>The loop over the bytes still to be written; the last one carries the stop bit.\<close>

fun i2c_write_bytes :: "'d mmio \<Rightarrow> nat \<Rightarrow> bytes \<Rightarrow> 'd \<Rightarrow> bool \<times> 'd" where
  "i2c_write_bytes m base [] d = (True, d)"
| "i2c_write_bytes m base (b # bs) d =
     (case i2c_wait_for m base I2C_STATUS_TFNF True d of
        (room, d) \<Rightarrow>
          if \<not> room then (False, d)
          else
            let stop = (if bs = [] then I2C_DATA_CMD_STOP else 0);
                d = mmio_write m base I2C_DATA_CMD (ucast b OR stop) d
            in i2c_write_bytes m base bs d)"

definition i2c_write :: "'d mmio \<Rightarrow> nat \<Rightarrow> u8 \<Rightarrow> bytes \<Rightarrow> 'd \<Rightarrow> bool \<times> 'd" where
  "i2c_write m base addr bytes d =
     (if bytes = [] then (False, d)
      else case i2c_set_target m base addr d of
        (target, d) \<Rightarrow>
          if \<not> target then (False, d)
          else case i2c_write_bytes m base bytes d of
            (written, d) \<Rightarrow> if \<not> written then (False, d) else i2c_finish m base d)"

definition i2c_probe_write :: "'d mmio \<Rightarrow> nat \<Rightarrow> u8 \<Rightarrow> bytes \<Rightarrow> 'd \<Rightarrow> bool \<times> 'd" where
  "i2c_probe_write m base addr bytes d = i2c_write m base addr bytes d"

text \<open>
  The two inner loops of \<open>i2c_read\<close>: issuing read commands while the transmit FIFO has room,
  and taking bytes while the receive FIFO holds some.
\<close>

function i2c_read_issue :: "'d mmio \<Rightarrow> nat \<Rightarrow> nat \<Rightarrow> nat \<Rightarrow> 'd \<Rightarrow> nat \<times> 'd" where
  "i2c_read_issue m base len issued d =
     (if issued < len then
        case mmio_read m base I2C_STATUS d of
          (status, d) \<Rightarrow>
            if status AND I2C_STATUS_TFNF \<noteq> 0 then
              let stop = (if issued + 1 = len then I2C_DATA_CMD_STOP else 0);
                  d = mmio_write m base I2C_DATA_CMD (I2C_DATA_CMD_READ OR stop) d
              in i2c_read_issue m base len (issued + 1) d
            else (issued, d)
      else (issued, d))"
  by pat_completeness auto

termination by (relation "measure (\<lambda>(m, base, len, issued, d). len - issued)") auto

declare i2c_read_issue.simps [simp del]

function i2c_read_take :: "'d mmio \<Rightarrow> nat \<Rightarrow> bytes \<Rightarrow> nat \<Rightarrow> 'd \<Rightarrow> bytes \<times> nat \<times> 'd" where
  "i2c_read_take m base out received d =
     (if received < length out then
        case mmio_read m base I2C_RXFLR d of
          (level, d) \<Rightarrow>
            if level \<noteq> 0 then
              case mmio_read m base I2C_DATA_CMD d of
                (v, d) \<Rightarrow> i2c_read_take m base (out[received := ucast (v AND 0xff)]) (received + 1) d
            else (out, received, d)
      else (out, received, d))"
  by pat_completeness auto

termination by (relation "measure (\<lambda>(m, base, out, received, d). length out - received)") auto

declare i2c_read_take.simps [simp del]

text \<open>The outer loop, whether it was left by an abort, and the bytes received so far.\<close>

function i2c_read_loop ::
    "'d mmio \<Rightarrow> nat \<Rightarrow> bytes \<Rightarrow> nat \<Rightarrow> nat \<Rightarrow> nat \<Rightarrow> 'd \<Rightarrow> bool \<times> bytes \<times> nat \<times> 'd" where
  "i2c_read_loop m base out issued received spin d =
     (if received < length out \<and> spin < 1000000 then
        case i2c_read_issue m base (length out) issued d of
          (issued, d) \<Rightarrow>
            case i2c_read_take m base out received d of
              (out, received, d) \<Rightarrow>
                case i2c_aborted m base d of
                  (aborted, d) \<Rightarrow>
                    if aborted then (True, out, received, d)
                    else i2c_read_loop m base out issued received (spin + 1) d
      else (False, out, received, d))"
  by pat_completeness auto

termination
  by (relation "measure (\<lambda>(m, base, out, issued, received, spin, d). 1000000 - spin)") auto

declare i2c_read_loop.simps [simp del]

definition i2c_read :: "'d mmio \<Rightarrow> nat \<Rightarrow> u8 \<Rightarrow> bytes \<Rightarrow> 'd \<Rightarrow> bool \<times> bytes \<times> 'd" where
  "i2c_read m base addr out d =
     (if out = [] then (False, out, d)
      else case i2c_set_target m base addr d of
        (target, d) \<Rightarrow>
          if \<not> target then (False, out, d)
          else case i2c_read_loop m base out 0 0 0 d of
            (aborted, out, received, d) \<Rightarrow>
              if aborted then (False, out, d)
              else if received \<noteq> length out then (False, out, d)
              else case i2c_finish m base d of (ok, d) \<Rightarrow> (ok, out, d))"

section \<open>Bus traffic\<close>

text \<open>
  A device that also keeps its register accesses, oldest first. What it does with the
  underlying device is what that device does.
\<close>

datatype reg_access = Rd nat nat u32 | Wr nat nat u32 | Slept u64

definition logged :: "'d mmio \<Rightarrow> ('d \<times> reg_access list) mmio" where
  "logged m =
     \<lparr>mmio_read = (\<lambda>base reg (d, l). case mmio_read m base reg d of (v, d) \<Rightarrow> (v, d, l @ [Rd base reg v])),
      mmio_write = (\<lambda>base reg v (d, l). (mmio_write m base reg v d, l @ [Wr base reg v])),
      poll_delay = (\<lambda>ms (d, l). (poll_delay m ms d, l @ [Slept ms]))\<rparr>"

text \<open>The register writes, and the bytes popped from the receive FIFO of a bus.\<close>

fun bus_writes :: "reg_access list \<Rightarrow> (nat \<times> nat \<times> u32) list" where
  "bus_writes [] = []"
| "bus_writes (Wr base reg v # l) = (base, reg, v) # bus_writes l"
| "bus_writes (a # l) = bus_writes l"

fun bus_bytes :: "reg_access list \<Rightarrow> bytes" where
  "bus_bytes [] = []"
| "bus_bytes (Rd base reg v # l) = (if reg = I2C_DATA_CMD then ucast (v AND 0xff) # bus_bytes l else bus_bytes l)"
| "bus_bytes (a # l) = bus_bytes l"

lemma bus_writes_append [simp]: "bus_writes (l @ l') = bus_writes l @ bus_writes l'"
  by (induction l rule: bus_writes.induct) auto

lemma bus_bytes_append [simp]: "bus_bytes (l @ l') = bus_bytes l @ bus_bytes l'"
  by (induction l rule: bus_bytes.induct) auto

text \<open>A stretch of at most \<open>n\<close> accesses with writes \<open>w\<close> and received bytes \<open>r\<close>.\<close>

definition traffic :: "nat \<Rightarrow> (nat \<times> nat \<times> u32) list \<Rightarrow> bytes \<Rightarrow> reg_access list \<Rightarrow> reg_access list \<Rightarrow> bool" where
  "traffic n w r l l' \<longleftrightarrow>
     (\<exists>l1. l' = l @ l1 \<and> length l1 \<le> n \<and> bus_writes l1 = w \<and> bus_bytes l1 = r)"

lemma traffic_refl [simp]: "traffic n [] [] l l"
  by (simp add: traffic_def)

lemma traffic_trans:
  "traffic a w r l l1 \<Longrightarrow> traffic b w' r' l1 l2 \<Longrightarrow> a + b \<le> n \<Longrightarrow>
     traffic n (w @ w') (r @ r') l l2"
  unfolding traffic_def by fastforce

lemma traffic_mono: "traffic a w r l l' \<Longrightarrow> a \<le> b \<Longrightarrow> traffic b w r l l'"
  unfolding traffic_def by auto

lemma traffic_one [simp]:
  "traffic n w r l (l @ [a]) \<longleftrightarrow> 1 \<le> n \<and> bus_writes [a] = w \<and> bus_bytes [a] = r"
  unfolding traffic_def by auto

lemma logged_read:
  "mmio_read (logged m) base reg (d, l) = (v, s') \<longleftrightarrow>
     mmio_read m base reg d = (v, fst s') \<and> snd s' = l @ [Rd base reg v]"
  by (cases s') (auto simp: logged_def split: prod.splits)

lemma logged_write [simp]:
  "mmio_write (logged m) base reg v (d, l) = (mmio_write m base reg v d, l @ [Wr base reg v])"
  by (simp add: logged_def)

lemma logged_delay [simp]: "poll_delay (logged m) ms (d, l) = (poll_delay m ms d, l @ [Slept ms])"
  by (simp add: logged_def)

lemma logged_read_snd:
  "snd (mmio_read (logged m) base reg (d, l))
     = (snd (mmio_read m base reg d), l @ [Rd base reg (fst (mmio_read m base reg d))])"
  by (simp add: logged_def split: prod.split)

lemma data_cmd_regs [simp]:
  "I2C_STATUS \<noteq> I2C_DATA_CMD" "I2C_RAW_INTR_STAT \<noteq> I2C_DATA_CMD" "I2C_CLR_INTR \<noteq> I2C_DATA_CMD"
  "I2C_CLR_TX_ABRT \<noteq> I2C_DATA_CMD" "I2C_RXFLR \<noteq> I2C_DATA_CMD" "I2C_TAR \<noteq> I2C_DATA_CMD"
  "I2C_ENABLE \<noteq> I2C_DATA_CMD"
  by (simp_all add: i2c_reg_defs)

lemma aborted_traffic:
  assumes "i2c_aborted (logged m) base (d, l) = (r, s')"
  shows "traffic (if r then 2 else 1) [] [] l (snd s')"
proof -
  obtain v s1 where r1: "mmio_read (logged m) base I2C_RAW_INTR_STAT (d, l) = (v, s1)"
    by (cases "mmio_read (logged m) base I2C_RAW_INTR_STAT (d, l)")
  then have s1: "snd s1 = l @ [Rd base I2C_RAW_INTR_STAT v]" by (simp add: logged_read)
  show ?thesis
  proof (cases "v AND I2C_INTR_TX_ABRT = 0")
    case True
    with assms r1 s1 show ?thesis by (auto simp: i2c_aborted_def)
  next
    case False
    then have "r" "s' = snd (mmio_read (logged m) base I2C_CLR_TX_ABRT s1)"
      using assms r1 by (auto simp: i2c_aborted_def)
    then show ?thesis using s1 by (cases s1) (auto simp: logged_read_snd traffic_def)
  qed
qed

lemma wait_for_traffic:
  assumes "i2c_wait_for_from (logged m) base bits want spin (d, l) = (r, s')"
  shows "traffic (2 * (500000 - spin) + 1) [] [] l (snd s')"
  using assms
proof (induction "500000 - spin" arbitrary: spin d l)
  case 0
  then show ?case by (auto simp: i2c_wait_for_from.simps [of _ _ _ _ spin] split: if_splits)
next
  case (Suc n)
  then have spin: "spin < 500000" by simp
  obtain v s1 where r1: "mmio_read (logged m) base I2C_STATUS (d, l) = (v, s1)"
    by (cases "mmio_read (logged m) base I2C_STATUS (d, l)")
  then have t1: "traffic 1 [] [] l (snd s1)" by (simp add: logged_read)
  obtain ab s2 where a: "i2c_aborted (logged m) base s1 = (ab, s2)" by (cases "i2c_aborted (logged m) base s1")
  then have t2: "traffic (if ab then 2 else 1) [] [] (snd s1) (snd s2)"
    using aborted_traffic [of m base "fst s1" "snd s1"] by simp
  have step: "(r, s') = (if (v AND bits \<noteq> 0) = want then (True, s1)
      else if ab then (False, s2)
      else i2c_wait_for_from (logged m) base bits want (spin + 1) s2)"
    using Suc.prems spin
    by (auto simp: i2c_wait_for_from.simps [of _ _ _ _ spin] r1 a split: if_splits)
  consider "s' = s1" | "ab" "s' = s2" |
    "\<not> ab" "i2c_wait_for_from (logged m) base bits want (spin + 1) s2 = (r, s')"
    using step by (auto split: if_splits)
  then show ?case
  proof cases
    case 1
    with traffic_mono [OF t1] show ?thesis by simp
  next
    case 2
    with traffic_trans [OF t1 t2, of "2 * (500000 - spin) + 1"] spin show ?thesis by simp
  next
    case 3
    have "n = 500000 - (spin + 1)" using Suc.hyps(2) by simp
    from Suc.hyps(1) [OF this, of "fst s2" "snd s2"] 3(2)
    have "traffic (2 * (500000 - (spin + 1)) + 1) [] [] (snd s2) (snd s')" by simp
    from traffic_trans [OF traffic_trans [OF t1 t2, of 2] this, of "2 * (500000 - spin) + 1"]
    show ?thesis using 3(1) spin by simp
  qed
qed

lemma wait_idle_traffic:
  assumes "i2c_wait_idle_from (logged m) base spin (d, l) = (r, s')"
  shows "traffic (500000 - spin) [] [] l (snd s')"
  using assms
proof (induction "500000 - spin" arbitrary: spin d l)
  case 0
  then show ?case by (auto simp: i2c_wait_idle_from.simps [of _ _ spin] split: if_splits)
next
  case (Suc n)
  then have spin: "spin < 500000" by simp
  obtain v s1 where r1: "mmio_read (logged m) base I2C_STATUS (d, l) = (v, s1)"
    by (cases "mmio_read (logged m) base I2C_STATUS (d, l)")
  then have t1: "traffic 1 [] [] l (snd s1)" by (simp add: logged_read)
  consider "s' = s1" | "i2c_wait_idle_from (logged m) base (spin + 1) s1 = (r, s')"
    using Suc.prems spin by (auto simp: i2c_wait_idle_from.simps [of _ _ spin] r1 split: if_splits)
  then show ?case
  proof cases
    case 1
    with traffic_mono [OF t1] spin show ?thesis by simp
  next
    case 2
    have "n = 500000 - (spin + 1)" using Suc.hyps(2) by simp
    from Suc.hyps(1) [OF this, of "fst s1" "snd s1"] 2
    have "traffic (500000 - (spin + 1)) [] [] (snd s1) (snd s')" by simp
    from traffic_trans [OF t1 this, of "500000 - spin"] spin show ?thesis by simp
  qed
qed

lemma finish_traffic:
  assumes "i2c_finish (logged m) base (d, l) = (r, s')"
  shows "traffic 500002 [] [] l (snd s')"
proof -
  obtain i s1 where r1: "i2c_wait_idle (logged m) base (d, l) = (i, s1)"
    by (cases "i2c_wait_idle (logged m) base (d, l)")
  then have t1: "traffic 500000 [] [] l (snd s1)"
    using wait_idle_traffic [of m base 0 d l] by (simp add: i2c_wait_idle_def)
  obtain ab s2 where a: "i2c_aborted (logged m) base s1 = (ab, s2)" by (cases "i2c_aborted (logged m) base s1")
  then have t2: "traffic (if ab then 2 else 1) [] [] (snd s1) (snd s2)"
    using aborted_traffic [of m base "fst s1" "snd s1"] by simp
  have "s' = (if i then s2 else s1)" using assms by (auto simp: i2c_finish_def r1 a)
  with traffic_mono [OF t1] traffic_trans [OF t1 t2, of 500002] show ?thesis by simp
qed

definition target_writes :: "nat \<Rightarrow> u8 \<Rightarrow> (nat \<times> nat \<times> u32) list" where
  "target_writes base addr = [(base, I2C_ENABLE, 0), (base, I2C_TAR, ucast addr), (base, I2C_ENABLE, 1)]"

lemma set_target_traffic:
  assumes "i2c_set_target (logged m) base addr (d, l) = (r, s')"
  shows "traffic 500005 (if r then target_writes base addr else []) [] l (snd s')"
proof -
  obtain i s1 where r1: "i2c_wait_idle (logged m) base (d, l) = (i, s1)"
    by (cases "i2c_wait_idle (logged m) base (d, l)")
  then have t1: "traffic 500000 [] [] l (snd s1)"
    using wait_idle_traffic [of m base 0 d l] by (simp add: i2c_wait_idle_def)
  show ?thesis
  proof (cases i)
    case False
    with assms traffic_mono [OF t1, of 500005] show ?thesis by (auto simp: i2c_set_target_def r1)
  next
    case True
    have "traffic 5 (target_writes base addr) [] (snd s1) (snd s') \<and> r"
      using assms True by (cases s1) (auto simp: i2c_set_target_def r1 i2c_clear_intr_def Let_def
        logged_read_snd traffic_def target_writes_def)
    with traffic_trans [OF t1, of 5] show ?thesis by simp
  qed
qed

text \<open>The words of a write: the bytes in order, the stop condition with the last one only.\<close>

definition write_words :: "nat \<Rightarrow> bytes \<Rightarrow> (nat \<times> nat \<times> u32) list" where
  "write_words base bytes = map (\<lambda>v. (base, I2C_DATA_CMD, v))
     (map ucast (butlast bytes) @ [ucast (last bytes) OR I2C_DATA_CMD_STOP])"

lemma write_words_Cons:
  "bs \<noteq> [] \<Longrightarrow> write_words base (b # bs) = (base, I2C_DATA_CMD, ucast b) # write_words base bs"
  by (simp add: write_words_def)

lemma length_write_words: "bs \<noteq> [] \<Longrightarrow> length (write_words base bs) = length bs"
  by (simp add: write_words_def)

lemma write_bytes_traffic:
  assumes "i2c_write_bytes (logged m) base bs (d, l) = (r, s')" "bs \<noteq> []"
  shows "\<exists>n \<le> length bs. traffic (1000002 * length bs) (take n (write_words base bs)) [] l (snd s')
    \<and> (r \<longrightarrow> n = length bs)"
  using assms
proof (induction bs arbitrary: d l)
  case (Cons b bs)
  let ?n = "1000002 * length (b # bs)"
  obtain i s1 where r1: "i2c_wait_for (logged m) base I2C_STATUS_TFNF True (d, l) = (i, s1)"
    by (cases "i2c_wait_for (logged m) base I2C_STATUS_TFNF True (d, l)")
  then have t1: "traffic 1000001 [] [] l (snd s1)"
    using wait_for_traffic [of m base I2C_STATUS_TFNF True 0 d l] by (simp add: i2c_wait_for_def)
  show ?case
  proof (cases i)
    case False
    then have "s' = s1" "\<not> r" using Cons.prems(1) r1 by auto
    with traffic_mono [OF t1, of ?n] show ?thesis by (intro exI [of _ 0]) auto
  next
    case True
    let ?v = "ucast b OR (if bs = [] then I2C_DATA_CMD_STOP else 0) :: u32"
    let ?s2 = "mmio_write (logged m) base I2C_DATA_CMD ?v s1"
    have t2: "traffic 1 [(base, I2C_DATA_CMD, ?v)] [] (snd s1) (snd ?s2)"
      by (cases s1) (auto simp: traffic_def)
    have rest: "i2c_write_bytes (logged m) base bs ?s2 = (r, s')"
      using Cons.prems(1) r1 True by (simp add: Let_def)
    note t12 = traffic_trans [OF t1 t2, of 1000002]
    show ?thesis
    proof (cases "bs = []")
      case True
      with rest t12 have "traffic ?n (write_words base (b # bs)) [] l (snd s')" "r"
        by (auto simp: write_words_def)
      with True show ?thesis by (intro exI [of _ 1]) (auto simp: write_words_def)
    next
      case False
      from Cons.IH [of "fst ?s2" "snd ?s2"] rest False obtain n where
        n: "n \<le> length bs" "traffic (1000002 * length bs) (take n (write_words base bs)) [] (snd ?s2) (snd s')"
          "r \<longrightarrow> n = length bs" by auto
      have "traffic ?n (take (Suc n) (write_words base (b # bs))) [] l (snd s')"
        using traffic_trans [OF t12 n(2), of ?n] False by (simp add: write_words_Cons)
      with n(1,3) show ?thesis by (intro exI [of _ "Suc n"]) simp
    qed
  qed
qed simp

text \<open>The words of the read commands from \<open>i\<close> up to \<open>j\<close> of \<open>len\<close>.\<close>

definition read_words :: "nat \<Rightarrow> nat \<Rightarrow> nat \<Rightarrow> nat \<Rightarrow> (nat \<times> nat \<times> u32) list" where
  "read_words base len i j = map (\<lambda>k. (base, I2C_DATA_CMD,
     if k + 1 = len then I2C_DATA_CMD_READ OR I2C_DATA_CMD_STOP else I2C_DATA_CMD_READ)) [i..<j]"

lemma read_words_refl [simp]: "read_words base len i i = []"
  by (simp add: read_words_def)

lemma read_words_append:
  "i \<le> j \<Longrightarrow> j \<le> k \<Longrightarrow> read_words base len i j @ read_words base len j k = read_words base len i k"
  using upt_add_eq_append [of i j "k - j"] by (simp add: read_words_def flip: map_append)

lemma read_issue_traffic:
  assumes "i2c_read_issue (logged m) base len i (d, l) = (j, s')" "i \<le> len"
  shows "i \<le> j \<and> j \<le> len \<and> traffic (2 * (j - i) + 1) (read_words base len i j) [] l (snd s')"
  using assms
proof (induction "len - i" arbitrary: i d l)
  case 0
  then show ?case by (auto simp: i2c_read_issue.simps [of _ _ _ i] split: if_splits)
next
  case (Suc n)
  then have i: "i < len" by simp
  obtain v s1 where r1: "mmio_read (logged m) base I2C_STATUS (d, l) = (v, s1)"
    by (cases "mmio_read (logged m) base I2C_STATUS (d, l)")
  then have t1: "traffic 1 [] [] l (snd s1)" by (simp add: logged_read)
  let ?v = "I2C_DATA_CMD_READ OR (if i + 1 = len then I2C_DATA_CMD_STOP else 0)"
  let ?s2 = "mmio_write (logged m) base I2C_DATA_CMD ?v s1"
  consider "j = i" "s' = s1" | "i2c_read_issue (logged m) base len (i + 1) ?s2 = (j, s')"
    using Suc.prems(1) i
    by (cases "v AND I2C_STATUS_TFNF = 0")
       (auto simp: i2c_read_issue.simps [of "logged m" base len i "(d, l)"] r1 Let_def)
  then show ?case
  proof cases
    case 1
    with t1 i show ?thesis by simp
  next
    case 2
    have "n = len - (i + 1)" using Suc.hyps(2) by simp
    from Suc.hyps(1) [OF this, of "fst ?s2" "snd ?s2"] 2 i have
      IH: "i + 1 \<le> j" "j \<le> len"
        "traffic (2 * (j - (i + 1)) + 1) (read_words base len (i + 1) j) [] (snd ?s2) (snd s')" by auto
    have t2: "traffic 1 (read_words base len i (i + 1)) [] (snd s1) (snd ?s2)"
      by (cases s1) (auto simp: traffic_def read_words_def)
    from traffic_trans [OF traffic_trans [OF t1 t2, of 2] IH(3), of "2 * (j - i) + 1"] IH(1,2)
    show ?thesis by (simp add: read_words_append)
  qed
qed

lemma read_take_traffic:
  assumes "i2c_read_take (logged m) base out i (d, l) = (out', k, s')" "i \<le> length out"
  shows "i \<le> k \<and> k \<le> length out \<and> length out' = length out
    \<and> (\<exists>r. traffic (2 * (k - i) + 1) [] r l (snd s') \<and> length r = k - i
        \<and> take k out' = take i out @ r)"
  using assms
proof (induction "length out - i" arbitrary: out i d l)
  case 0
  then show ?case by (auto simp: i2c_read_take.simps [of _ _ _ i] split: if_splits)
next
  case (Suc n)
  then have i: "i < length out" by simp
  obtain v s1 where r1: "mmio_read (logged m) base I2C_RXFLR (d, l) = (v, s1)"
    by (cases "mmio_read (logged m) base I2C_RXFLR (d, l)")
  then have t1: "traffic 1 [] [] l (snd s1)" by (simp add: logged_read)
  show ?case
  proof (cases "v = 0")
    case True
    then have "out' = out" "k = i" "s' = s1"
      using Suc.prems(1) i by (auto simp: i2c_read_take.simps [of _ _ _ i] r1)
    with t1 i show ?thesis by auto
  next
    case False
    obtain w s2 where r2: "mmio_read (logged m) base I2C_DATA_CMD s1 = (w, s2)"
      by (cases "mmio_read (logged m) base I2C_DATA_CMD s1")
    let ?b = "ucast (w AND 0xff) :: u8"
    have t2: "traffic 1 [] [?b] (snd s1) (snd s2)"
      using r2 by (cases s1) (auto simp: logged_read)
    have rest: "i2c_read_take (logged m) base (out[i := ?b]) (i + 1) s2 = (out', k, s')"
      using Suc.prems(1) i False by (simp add: i2c_read_take.simps [of _ _ _ i] r1 r2)
    have "n = length (out[i := ?b]) - (i + 1)" using Suc.hyps(2) by simp
    from Suc.hyps(1) [OF this, of "fst s2" "snd s2"] rest i obtain r where
      IH: "i + 1 \<le> k" "k \<le> length out" "length out' = length out"
        "traffic (2 * (k - (i + 1)) + 1) [] r (snd s2) (snd s')" "length r = k - (i + 1)"
        "take k out' = take (i + 1) (out[i := ?b]) @ r" by auto
    have "take (i + 1) (out[i := ?b]) = take i out @ [?b]"
      using i by (simp add: take_Suc_conv_app_nth)
    with IH traffic_trans [OF traffic_trans [OF t1 t2, of 2] IH(4), of "2 * (k - i) + 1"]
    show ?thesis by (auto intro!: exI [of _ "?b # r"])
  qed
qed

lemma read_loop_traffic:
  assumes "i2c_read_loop (logged m) base out i k spin (d, l) = (ab, out', k', s')"
    "i \<le> length out" "k \<le> length out"
  shows "k \<le> k' \<and> k' \<le> length out \<and> length out' = length out
    \<and> (\<exists>j r. i \<le> j \<and> j \<le> length out
        \<and> traffic (2 * (j - i) + 2 * (k' - k) + 4 * (1000000 - spin)) (read_words base (length out) i j) r
            l (snd s')
        \<and> length r = k' - k \<and> take k' out' = take k out @ r)"
  using assms
proof (induction "1000000 - spin" arbitrary: out i k spin d l)
  case 0
  then show ?case
    by (auto simp: i2c_read_loop.simps [of _ _ _ _ _ spin] split: if_splits intro!: exI [of _ i])
next
  case (Suc n)
  show ?case
  proof (cases "k < length out")
    case False
    with Suc.prems show ?thesis
      by (auto simp: i2c_read_loop.simps [of _ _ _ _ _ spin] intro!: exI [of _ i])
  next
    case True
    have spin: "spin < 1000000" using Suc.hyps(2) by simp
    let ?len = "length out"
    obtain i1 s1 where r1: "i2c_read_issue (logged m) base ?len i (d, l) = (i1, s1)"
      by (cases "i2c_read_issue (logged m) base ?len i (d, l)")
    note T1 = read_issue_traffic [OF r1 Suc.prems(2)]
    obtain out1 k1 s2 where r2: "i2c_read_take (logged m) base out k s1 = (out1, k1, s2)"
      by (metis prod_cases3)
    from read_take_traffic [of m base out k "fst s1" "snd s1" out1 k1 s2] r2 Suc.prems(3) obtain q where
      T2: "k \<le> k1" "k1 \<le> ?len" "length out1 = ?len"
        "traffic (2 * (k1 - k) + 1) [] q (snd s1) (snd s2)" "length q = k1 - k"
        "take k1 out1 = take k out @ q" by auto
    obtain a s3 where r3: "i2c_aborted (logged m) base s2 = (a, s3)" by (cases "i2c_aborted (logged m) base s2")
    then have T3: "traffic 2 [] [] (snd s2) (snd s3)"
      using aborted_traffic [of m base "fst s2" "snd s2" a s3] traffic_mono [of _ "[]" "[]" "snd s2" "snd s3" 2]
      by (auto split: if_splits)
    note T12 = traffic_trans [OF conjunct2 [OF conjunct2 [OF T1]] T2(4) order_refl]
    note T = traffic_trans [OF T12 T3 order_refl]
    have step: "(if a then (True, out1, k1, s3)
        else i2c_read_loop (logged m) base out1 i1 k1 (spin + 1) s3) = (ab, out', k', s')"
      using Suc.prems(1) True spin by (simp add: i2c_read_loop.simps [of _ _ _ _ _ spin] r1 r2 r3)
    show ?thesis
    proof (cases a)
      case True
      with step have eq: "out' = out1" "k' = k1" "s' = s3" by auto
      have "traffic (2 * (i1 - i) + 2 * (k1 - k) + 4 * (1000000 - spin)) (read_words base ?len i i1) q
          l (snd s3)"
        using traffic_mono [OF T] spin by simp
      with T1 T2 eq show ?thesis by (intro conjI exI [of _ i1] exI [of _ q]) auto
    next
      case False
      have n: "n = 1000000 - (spin + 1)" using Suc.hyps(2) by simp
      from Suc.hyps(1) [OF n, of out1 i1 k1 "fst s3" "snd s3"] step False T1 T2 obtain j r where
        IH: "k1 \<le> k'" "k' \<le> ?len" "length out' = ?len" "i1 \<le> j" "j \<le> ?len"
          "traffic (2 * (j - i1) + 2 * (k' - k1) + 4 * (1000000 - (spin + 1)))
             (read_words base ?len i1 j) r (snd s3) (snd s')"
          "length r = k' - k1" "take k' out' = take k1 out1 @ r" by auto
      have "2 * (i1 - i) + 1 + (2 * (k1 - k) + 1) + 2
          + (2 * (j - i1) + 2 * (k' - k1) + 4 * (1000000 - (spin + 1)))
          \<le> 2 * (j - i) + 2 * (k' - k) + 4 * (1000000 - spin)"
        using T1 T2(1) IH(1,4) spin by arith
      from traffic_trans [OF T IH(6) this] T1 IH(4,5)
      have "traffic (2 * (j - i) + 2 * (k' - k) + 4 * (1000000 - spin)) (read_words base ?len i j)
          (q @ r) l (snd s')"
        by (simp add: read_words_append)
      with T1 T2 IH show ?thesis by (intro conjI exI [of _ j] exI [of _ "q @ r"]) auto
    qed
  qed
qed

lemma i2c_write_traffic:
  assumes "bytes \<noteq> []" and w: "i2c_write (logged m) base addr bytes (d, l) = (ok, s')"
  shows "\<exists>w. traffic (1000007 + 1000002 * length bytes) w [] l (snd s')
    \<and> (w = [] \<and> \<not> ok
       \<or> (\<exists>n \<le> length bytes. w = target_writes base addr @ take n (write_words base bytes)
            \<and> (ok \<longrightarrow> n = length bytes)))"
proof -
  obtain t s1 where r1: "i2c_set_target (logged m) base addr (d, l) = (t, s1)"
    by (cases "i2c_set_target (logged m) base addr (d, l)")
  note T1 = set_target_traffic [OF r1]
  show ?thesis
  proof (cases t)
    case False
    with w r1 assms(1) have "\<not> ok" "s1 = s'" by (auto simp: i2c_write_def)
    with T1 False traffic_mono [of 500005 "[]" "[]" l "snd s'" "1000007 + 1000002 * length bytes"]
    show ?thesis by (intro exI [of _ "[]"]) simp
  next
    case True
    obtain wr s2 where r2: "i2c_write_bytes (logged m) base bytes s1 = (wr, s2)"
      by (cases "i2c_write_bytes (logged m) base bytes s1")
    from write_bytes_traffic [of m base bytes "fst s1" "snd s1" wr s2] r2 assms(1) obtain n where
      T2: "n \<le> length bytes" "traffic (1000002 * length bytes) (take n (write_words base bytes)) []
          (snd s1) (snd s2)" "wr \<longrightarrow> n = length bytes" by auto
    note T12 = traffic_trans [OF T1 T2(2) order_refl]
    have "traffic (1000007 + 1000002 * length bytes) (target_writes base addr @ take n (write_words base bytes)) [] l (snd s')
        \<and> (ok \<longrightarrow> wr)"
    proof (cases wr)
      case False
      with w r1 r2 True assms(1) have "\<not> ok" "s2 = s'" by (auto simp: i2c_write_def)
      with T12 True show ?thesis using traffic_mono [OF T12] by simp
    next
      case wr: True
      then have "i2c_finish (logged m) base s2 = (ok, s')"
        using w r1 r2 True assms(1) by (simp add: i2c_write_def)
      then have "traffic 500002 [] [] (snd s2) (snd s')"
        using finish_traffic [of m base "fst s2" "snd s2"] by simp
      from traffic_trans [OF T12 this, of "1000007 + 1000002 * length bytes"] True wr
      show ?thesis by simp
    qed
    with T2(1,3) show ?thesis by blast
  qed
qed

lemma i2c_read_traffic:
  assumes "buf \<noteq> []" and w: "i2c_read (logged m) base addr buf (d, l) = (ok, out, s')"
  shows "length out = length buf \<and> (\<exists>w r. traffic (5000007 + 4 * length buf) w r l (snd s')
    \<and> (ok \<longrightarrow> r = out
         \<and> (\<exists>n \<le> length buf. w = target_writes base addr @ read_words base (length buf) 0 n)))"
proof -
  obtain t s1 where r1: "i2c_set_target (logged m) base addr (d, l) = (t, s1)"
    by (cases "i2c_set_target (logged m) base addr (d, l)")
  note T1 = set_target_traffic [OF r1]
  show ?thesis
  proof (cases t)
    case False
    with w r1 assms(1) have "\<not> ok" "s1 = s'" "out = buf" by (auto simp: i2c_read_def)
    with T1 False traffic_mono [of 500005 "[]" "[]" l "snd s'" "5000007 + 4 * length buf"]
    show ?thesis by auto
  next
    case t: True
    obtain ab out1 k s2 where r2: "i2c_read_loop (logged m) base buf 0 0 0 s1 = (ab, out1, k, s2)"
      by (metis prod_cases4)
    from read_loop_traffic [of m base buf 0 0 0 "fst s1" "snd s1" ab out1 k s2] r2 obtain j r where
      T2: "k \<le> length buf" "length out1 = length buf" "j \<le> length buf"
        "traffic (2 * j + 2 * k + 4000000) (read_words base (length buf) 0 j) r (snd s1) (snd s2)"
        "length r = k" "take k out1 = r" by auto
    note T12 = traffic_trans [OF T1 T2(4) order_refl]
    show ?thesis
    proof (cases "ab \<or> k \<noteq> length buf")
      case True
      with w r1 r2 t assms(1) T2(2) have "\<not> ok" "s2 = s'" "out = out1"
        by (auto simp: i2c_read_def split: if_splits)
      with traffic_mono [OF T12, of "5000007 + 4 * length buf"] T2 show ?thesis by auto
    next
      case False
      then have f: "i2c_finish (logged m) base s2 = (ok, s')" "out = out1"
        using w r1 r2 t assms(1) T2(2) by (auto simp: i2c_read_def split: prod.splits)
      then have "traffic 500002 [] [] (snd s2) (snd s')"
        using finish_traffic [of m base "fst s2" "snd s2"] by simp
      from traffic_trans [OF T12 this, of "5000007 + 4 * length buf"] T2 t False f(2)
      show ?thesis by auto
    qed
  qed
qed

section \<open>Properties\<close>

definition run_logged :: "(('d \<times> reg_access list) \<Rightarrow> 'a \<times> 'd \<times> reg_access list) \<Rightarrow> 'd \<Rightarrow> 'a \<times> reg_access list" where
  "run_logged f d = (case f (d, []) of (r, d', l) \<Rightarrow> (r, l))"

text \<open>Whatever the I2C block answers, a write touches the bus with at most
  1000007 + 1000002 n register accesses for n bytes: it writes nothing, or the target sequence
  followed by a prefix of the bytes in order with the stop condition on the last byte only, and
  when it reports success that prefix is the whole message.\<close>

theorem i2c_write_transaction:
  assumes "bytes \<noteq> []" and "run_logged (i2c_write (logged m) base addr bytes) d = (ok, l)"
  shows "length l \<le> 1000007 + 1000002 * length bytes
    \<and> (bus_writes l = [] \<and> \<not> ok
       \<or> (\<exists>n \<le> length bytes. bus_writes l = target_writes base addr @ take n (write_words base bytes)
            \<and> (ok \<longrightarrow> n = length bytes)))"
proof -
  from assms(2) obtain d' where w: "i2c_write (logged m) base addr bytes (d, []) = (ok, d', l)"
    by (auto simp: run_logged_def split: prod.splits)
  from i2c_write_traffic [OF assms(1) w] show ?thesis by (auto simp: traffic_def)
qed

text \<open>An I2C block that is always ready and idle and whose receive FIFO always holds \<open>0x55\<close>.\<close>

definition ready_i2c :: "unit mmio" where
  "ready_i2c =
     \<lparr>mmio_read = (\<lambda>base reg d. (if reg = I2C_STATUS then 6 else if reg = I2C_RXFLR then 1
          else if reg = I2C_DATA_CMD then 0x55 else 0, d)),
      mmio_write = (\<lambda>base reg v d. d), poll_delay = (\<lambda>ms d. d)\<rparr>"

lemmas ready_i2c_simps = ready_i2c_def logged_def i2c_set_target_def i2c_wait_idle_def
  i2c_wait_idle_from.simps i2c_clear_intr_def i2c_wait_for_def i2c_wait_for_from.simps
  i2c_finish_def i2c_aborted_def i2c_reg_defs I2C_STATUS_TFNF_def I2C_STATUS_TFE_def
  I2C_STATUS_MST_ACTIVITY_def I2C_INTR_TX_ABRT_def

theorem i2c_write_transaction_witness:
  "\<exists>l. run_logged (i2c_write (logged ready_i2c) I2C0_BASE 0x3e [0x80, 0x28]) () = (True, l)
    \<and> bus_writes l = target_writes I2C0_BASE 0x3e @ write_words I2C0_BASE [0x80, 0x28]"
proof -
  obtain l where run: "run_logged (i2c_write (logged ready_i2c) I2C0_BASE 0x3e [0x80, 0x28]) () = (True, l)"
    by (simp add: run_logged_def i2c_write_def ready_i2c_simps)
  with i2c_write_transaction [OF _ run] show ?thesis by (auto simp: length_write_words)
qed

text \<open>A successful read returns exactly the bytes popped from the receive FIFO, in order and
  as many as asked for, after issuing the target sequence and read commands of which only the
  last carries the stop condition; any read makes at most 5000007 + 4 n register accesses.\<close>

theorem i2c_read_transaction:
  assumes "buf \<noteq> []" and "run_logged (\<lambda>s. case i2c_read (logged m) base addr buf s of (ok, out, s) \<Rightarrow> ((ok, out), s)) d
      = ((ok, out), l)"
  shows "length l \<le> 5000007 + 4 * length buf \<and> length out = length buf
    \<and> (ok \<longrightarrow> bus_bytes l = out
         \<and> (\<exists>n \<le> length buf. bus_writes l = target_writes base addr @ read_words base (length buf) 0 n))"
proof -
  from assms(2) obtain d' where w: "i2c_read (logged m) base addr buf (d, []) = (ok, out, d', l)"
    by (auto simp: run_logged_def split: prod.splits)
  from i2c_read_traffic [OF assms(1) w] show ?thesis by (auto simp: traffic_def)
qed

theorem i2c_read_transaction_witness:
  "\<exists>l. run_logged (\<lambda>s. case i2c_read (logged ready_i2c) I2C1_BASE 0x38 [0, 0] s of (ok, out, s) \<Rightarrow> ((ok, out), s)) ()
      = ((True, [0x55, 0x55]), l) \<and> bus_bytes l = [0x55, 0x55]"
proof -
  obtain l where run: "run_logged (\<lambda>s. case i2c_read (logged ready_i2c) I2C1_BASE 0x38 [0, 0] s of
      (ok, out, s) \<Rightarrow> ((ok, out), s)) () = ((True, [0x55, 0x55]), l)"
    by (simp add: run_logged_def i2c_read_def ready_i2c_simps i2c_read_loop.simps
      i2c_read_issue.simps i2c_read_take.simps)
  with i2c_read_transaction [OF _ run] show ?thesis by auto
qed

end
