(* ===== verification/Sensor_Panel.thy ===== *)
theory Sensor_Panel
  imports I2c_Bus Wire_Protocol "HOL-Library.Signed_Division"
begin

text \<open>
  The sensor and display side of \<open>examples/rp2w-firmware/src/bin/sensor_panel.rs\<close>, as built for
  the board: the DHT20 thermometer with its checksum, the light sensor, the sensor sample made
  of their readings, its text and the two-line display. The static cells are one record next to
  the device of \<open>I2c_Bus\<close>. The \<open>decode_payload\<close> method that codecs inherit from the hibana
  crate is a parameter.
\<close>

section \<open>Text buffers\<close>

definition push_byte :: "bytes \<Rightarrow> nat \<Rightarrow> u8 \<Rightarrow> bytes \<times> nat" where
  "push_byte out len byte = (if len < length out then (out[len := byte], len + 1) else (out, len))"

fun push_bytes :: "bytes \<Rightarrow> nat \<Rightarrow> bytes \<Rightarrow> bytes \<times> nat" where
  "push_bytes out len [] = (out, len)"
| "push_bytes out len (b # bs) = (case push_byte out len b of (out, len) \<Rightarrow> push_bytes out len bs)"

text \<open>The array \<open>digits\<close> of \<open>push_u32\<close>, least significant digit first.\<close>

function u32_digits :: "u32 \<Rightarrow> bytes" where
  "u32_digits value =
     (let digit = 48 + ucast (value mod 10); value = value div 10 in
      if value = 0 then [digit] else digit # u32_digits value)"
  by pat_completeness auto

termination
proof (relation "measure unat", goal_cases)
  case (2 v digit v')
  then have "unat v div 10 \<noteq> 0" by (simp add: unat_div flip: unat_eq_0)
  then have "unat v > 0" by (metis div_0 gr0I)
  with 2 show ?case by (simp add: unat_div)
qed simp

declare u32_digits.simps [simp del]

definition push_u32 :: "bytes \<Rightarrow> nat \<Rightarrow> u32 \<Rightarrow> bytes \<times> nat" where
  "push_u32 out len value = push_bytes out len (rev (u32_digits value))"

definition push_tenths :: "bytes \<Rightarrow> nat \<Rightarrow> u32 \<Rightarrow> bytes \<times> nat" where
  "push_tenths out len magnitude =
     (case push_u32 out len (magnitude div 10) of
        (out, len) \<Rightarrow> (case push_byte out len 0x2e of
          (out, len) \<Rightarrow> push_byte out len (48 + ucast (magnitude mod 10))))"

definition push_fixed_i16_x10 :: "bytes \<Rightarrow> nat \<Rightarrow> i16 \<Rightarrow> bytes \<times> nat" where
  "push_fixed_i16_x10 out len value =
     (if sint value < 0
      then case push_byte out len 0x2d of (out, len) \<Rightarrow> push_tenths out len (- scast value)
      else push_tenths out len (ucast value))"

definition push_fixed_u16_x10 :: "bytes \<Rightarrow> nat \<Rightarrow> u16 \<Rightarrow> bytes \<times> nat" where
  "push_fixed_u16_x10 out len value = push_tenths out len (ucast value)"

definition rp2w_format_pico2w_sensor_sample :: "sensor_sample \<Rightarrow> bytes \<Rightarrow> bytes \<times> nat" where
  "rp2w_format_pico2w_sensor_sample sample out =
     (if ps_status sample = PICO2W_SENSOR_STATUS_PENDING then
        case push_bytes out 0 (ascii ''sensor pending'' @ [10] @ ascii ''seq:'') of
          (out, len) \<Rightarrow> push_u32 out len (ucast (ps_seq sample))
      else if ps_status sample = PICO2W_SENSOR_STATUS_STALE then
        case push_bytes out 0 (ascii ''sensor stale'' @ [10] @ ascii ''L:'') of
          (out, len) \<Rightarrow> push_u32 out len (ucast (ps_light_raw sample))
      else
        case push_bytes out 0 (ascii ''T:'') of (out, len) \<Rightarrow>
        case push_fixed_i16_x10 out len (ps_temperature_c_x10 sample) of (out, len) \<Rightarrow>
        case push_bytes out len (ascii ''C H:'') of (out, len) \<Rightarrow>
        case push_fixed_u16_x10 out len (ps_humidity_pct_x10 sample) of (out, len) \<Rightarrow>
        case push_bytes out len (ascii ''%'' @ [10] @ ascii ''L:'') of (out, len) \<Rightarrow>
        case push_u32 out len (ucast (ps_light_raw sample)) of (out, len) \<Rightarrow>
        case push_bytes out len (ascii '' #'') of (out, len) \<Rightarrow>
          push_u32 out len (ucast (ps_seq sample)))"

section \<open>The board\<close>

definition LCD_ADDR :: u8 where "LCD_ADDR = 0x3e"
definition DHT20_ADDR :: u8 where "DHT20_ADDR = 0x38"
definition ADC_BASE :: nat where "ADC_BASE = 0x400a0000"
definition ADC_CS :: nat where "ADC_CS = 0"
definition ADC_RESULT :: nat where "ADC_RESULT = 4"
definition ADC_CS_EN :: u32 where "ADC_CS_EN = push_bit 0 1"
definition ADC_CS_START_ONCE :: u32 where "ADC_CS_START_ONCE = push_bit 2 1"
definition ADC_CS_READY :: u32 where "ADC_CS_READY = push_bit 8 1"
definition ADC_CS_AINSEL_ADC0 :: u32 where "ADC_CS_AINSEL_ADC0 = push_bit 12 0"

record 'd panel =
  pn_dev :: 'd
  pn_dht20_init_done :: u32
  pn_adc_ready :: u32
  pn_lcd_bus :: u32
  pn_dht20_bus :: u32
  pn_detect_mask :: u32
  pn_lcd_init_ok :: u32
  pn_last_light_raw :: u32
  pn_last_dht20_ok :: u32
  pn_last_temp_c_x100 :: u32
  pn_last_humidity_x100 :: u32

definition on_dev :: "('d \<Rightarrow> 'a \<times> 'd) \<Rightarrow> 'd panel \<Rightarrow> 'a \<times> 'd panel" where
  "on_dev f p = (case f (pn_dev p) of (r, d) \<Rightarrow> (r, p\<lparr>pn_dev := d\<rparr>))"

definition panel_delay :: "'d mmio \<Rightarrow> u64 \<Rightarrow> 'd panel \<Rightarrow> 'd panel" where
  "panel_delay m ms p = p\<lparr>pn_dev := poll_delay m ms (pn_dev p)\<rparr>"

function adc_wait :: "'d mmio \<Rightarrow> nat \<Rightarrow> 'd \<Rightarrow> 'd" where
  "adc_wait m spin d =
     (case mmio_read m ADC_BASE ADC_CS d of
        (v, d) \<Rightarrow> if v AND ADC_CS_READY = 0 \<and> spin < 500000 then adc_wait m (spin + 1) d else d)"
  by pat_completeness auto

termination by (relation "measure (\<lambda>(m, spin, d). 500000 - spin)") auto

declare adc_wait.simps [simp del]

definition rp2w_adc0_read :: "'d mmio \<Rightarrow> 'd panel \<Rightarrow> u16 \<times> 'd panel" where
  "rp2w_adc0_read m p =
     (if pn_adc_ready p = 0 then (0, p)
      else on_dev (\<lambda>d.
        let d = mmio_write m ADC_BASE ADC_CS (ADC_CS_EN OR ADC_CS_AINSEL_ADC0 OR ADC_CS_START_ONCE) d;
            d = adc_wait m 0 d
        in case mmio_read m ADC_BASE ADC_RESULT d of (v, d) \<Rightarrow> (ucast (v AND 0x0fff), d)) p)"

section \<open>The display\<close>

definition lcd_i2c_base :: "'d panel \<Rightarrow> nat" where
  "lcd_i2c_base p = (if pn_lcd_bus p = 1 then I2C1_BASE else I2C0_BASE)"

definition lcd_write :: "'d mmio \<Rightarrow> bytes \<Rightarrow> 'd panel \<Rightarrow> bool \<times> 'd panel" where
  "lcd_write m bytes p = on_dev (i2c_write m (lcd_i2c_base p) LCD_ADDR bytes) p"

definition lcd_command :: "'d mmio \<Rightarrow> u8 \<Rightarrow> 'd panel \<Rightarrow> bool \<times> 'd panel" where
  "lcd_command m command p = lcd_write m [0x80, command] p"

fun lcd_data_from :: "'d mmio \<Rightarrow> bool \<Rightarrow> bytes \<Rightarrow> 'd panel \<Rightarrow> bool \<times> 'd panel" where
  "lcd_data_from m ok [] p = (ok, p)"
| "lcd_data_from m ok (b # bs) p =
     (case lcd_write m [0x40, b] p of (r, p) \<Rightarrow> lcd_data_from m (ok \<and> r) bs p)"

definition lcd_data :: "'d mmio \<Rightarrow> bytes \<Rightarrow> 'd panel \<Rightarrow> bool \<times> 'd panel" where
  "lcd_data m bytes p = lcd_data_from m True (take (min (length bytes) 16) bytes) p"

definition copy_lcd_line :: "bytes \<Rightarrow> bytes \<Rightarrow> bytes" where
  "copy_lcd_line dst text =
     (let dst = replicate (length dst) 0x20 in blit 0 (take (min (length text) (length dst)) text) dst)"

definition rp2w_lcd_write_lines :: "'d mmio \<Rightarrow> bytes \<Rightarrow> bytes \<Rightarrow> 'd panel \<Rightarrow> bool \<times> 'd panel" where
  "rp2w_lcd_write_lines m line1 line2 p =
     (let first = copy_lcd_line (replicate 16 0x20) line1;
          second = copy_lcd_line (replicate 16 0x20) line2
      in case lcd_command m 0x80 p of (r1, p) \<Rightarrow>
         case lcd_data m first p of (r2, p) \<Rightarrow>
         case lcd_command m 0xc0 p of (r3, p) \<Rightarrow>
         case lcd_data m second p of (r4, p) \<Rightarrow> (r1 \<and> r2 \<and> r3 \<and> r4, p))"

definition is_break :: "u8 \<Rightarrow> bool" where
  "is_break b \<longleftrightarrow> b = 0x0a \<or> b = 0x0d"

text \<open>The loops of \<open>rp2w_lcd_write_payload\<close>: to the first break from \<open>index\<close>, and past breaks.\<close>

function find_break :: "bytes \<Rightarrow> nat \<Rightarrow> nat" where
  "find_break bytes index =
     (if index < length bytes then
        (if is_break (bytes ! index) then index else find_break bytes (index + 1))
      else length bytes)"
  by pat_completeness auto

termination by (relation "measure (\<lambda>(bytes, index). length bytes - index)") auto

function skip_breaks :: "bytes \<Rightarrow> nat \<Rightarrow> nat" where
  "skip_breaks bytes index =
     (if index < length bytes \<and> is_break (bytes ! index) then skip_breaks bytes (index + 1)
      else index)"
  by pat_completeness auto

termination by (relation "measure (\<lambda>(bytes, index). length bytes - index)") auto

declare find_break.simps [simp del] skip_breaks.simps [simp del]

definition rp2w_lcd_write_payload :: "'d mmio \<Rightarrow> bytes \<Rightarrow> 'd panel \<Rightarrow> bool \<times> 'd panel" where
  "rp2w_lcd_write_payload m bytes p =
     (let split = find_break bytes 0;
          second_start = skip_breaks bytes split;
          second_end = find_break bytes second_start
      in rp2w_lcd_write_lines m (take split bytes)
           (take (second_end - second_start) (drop second_start bytes)) p)"

definition rp2w_lcd_write_pico2w_sensor_sample ::
    "(bytes \<Rightarrow> 'e + sensor_sample) \<Rightarrow> 'd mmio \<Rightarrow> bytes \<Rightarrow> 'd panel \<Rightarrow> bool \<times> 'd panel" where
  "rp2w_lcd_write_pico2w_sensor_sample decode_payload m payload p =
     (case decode_payload payload of
        Inl _ \<Rightarrow> rp2w_lcd_write_lines m (ascii ''bad sample'') (ascii ''typed payload'') p
      | Inr sample \<Rightarrow>
          (case rp2w_format_pico2w_sensor_sample sample (replicate 64 0) of
             (text, len) \<Rightarrow> rp2w_lcd_write_payload m (take len text) p))"

definition rp2w_lcd_init :: "'d mmio \<Rightarrow> 'd panel \<Rightarrow> bool \<times> 'd panel" where
  "rp2w_lcd_init m p =
     (case lcd_write m [0x00] p of (probe, p) \<Rightarrow>
      let p = panel_delay m 50 p in
      case lcd_command m 0x28 p of (r1, p) \<Rightarrow>
      let p = panel_delay m 5 p in
      case lcd_command m 0x28 p of (r2, p) \<Rightarrow>
      let p = panel_delay m 1 p in
      case lcd_command m 0x28 p of (r3, p) \<Rightarrow>
      case lcd_command m 0x28 p of (r4, p) \<Rightarrow>
      case lcd_command m 0x08 p of (r5, p) \<Rightarrow>
      case lcd_command m 0x01 p of (r6, p) \<Rightarrow>
      let p = panel_delay m 2 p in
      case lcd_command m 0x06 p of (r7, p) \<Rightarrow>
      case lcd_command m 0x0c p of (r8, p) \<Rightarrow>
      case lcd_command m 0x01 p of (r9, p) \<Rightarrow>
      let p = panel_delay m 2 p in
      (probe \<and> r1 \<and> r2 \<and> r3 \<and> r4 \<and> r5 \<and> r6 \<and> r7 \<and> r8 \<and> r9, p))"

section \<open>The thermometer\<close>

definition crc_bit :: "u8 \<Rightarrow> u8" where
  "crc_bit crc = (if crc AND 0x80 \<noteq> 0 then push_bit 1 crc XOR 0x31 else push_bit 1 crc)"

fun dht20_crc8_from :: "u8 \<Rightarrow> bytes \<Rightarrow> u8" where
  "dht20_crc8_from crc [] = crc"
| "dht20_crc8_from crc (b # bs) = dht20_crc8_from ((crc_bit ^^ 8) (crc XOR b)) bs"

definition dht20_crc8 :: "bytes \<Rightarrow> u8" where
  "dht20_crc8 bytes = dht20_crc8_from 0xff bytes"

definition dht20_i2c_base :: "'d panel \<Rightarrow> nat" where
  "dht20_i2c_base p = (if pn_dht20_bus p = 0 then I2C0_BASE else I2C1_BASE)"

definition panel_i2c_read :: "'d mmio \<Rightarrow> nat \<Rightarrow> u8 \<Rightarrow> bytes \<Rightarrow> 'd panel \<Rightarrow> (bool \<times> bytes) \<times> 'd panel" where
  "panel_i2c_read m base addr out p =
     on_dev (\<lambda>d. case i2c_read m base addr out d of (ok, out, d) \<Rightarrow> ((ok, out), d)) p"

definition dht20_init_once :: "'d mmio \<Rightarrow> 'd panel \<Rightarrow> 'd panel" where
  "dht20_init_once m p =
     (if pn_dht20_init_done p \<noteq> 0 then p
      else
        case panel_i2c_read m (dht20_i2c_base p) DHT20_ADDR [0] p of
          ((ok, status), p) \<Rightarrow>
            let p = (if ok \<and> status ! 0 AND 0x18 \<noteq> 0x18
                     then panel_delay m 10
                            (snd (on_dev (i2c_write m (dht20_i2c_base p) DHT20_ADDR [0xbe, 0x08, 0x00]) p))
                     else p)
            in p\<lparr>pn_dht20_init_done := 1\<rparr>)"

text \<open>The seven bytes of a measurement: busy flag and checksum, then the two raw values.\<close>

definition dht20_raw_humidity :: "bytes \<Rightarrow> u32" where
  "dht20_raw_humidity bs =
     push_bit 12 (ucast (bs ! 1)) OR push_bit 4 (ucast (bs ! 2)) OR drop_bit 4 (ucast (bs ! 3))"

definition dht20_raw_temperature :: "bytes \<Rightarrow> u32" where
  "dht20_raw_temperature bs =
     push_bit 16 (ucast (bs ! 3) AND 0x0f) OR push_bit 8 (ucast (bs ! 4)) OR ucast (bs ! 5)"

definition dht20_decode :: "bytes \<Rightarrow> (u32 \<times> u32) option" where
  "dht20_decode bs =
     (if bs ! 0 AND 0x80 \<noteq> 0 \<or> dht20_crc8 (take 6 bs) \<noteq> bs ! 6 then None
      else
        let humidity_x100 = ucast ((ucast (dht20_raw_humidity bs) :: u64) * 10000 div 1048576);
            temp_c_x100 = ucast ((ucast (dht20_raw_temperature bs) :: u64) * 20000 div 1048576) - 5000
        in Some (temp_c_x100, humidity_x100))"

definition dht20_read :: "'d mmio \<Rightarrow> 'd panel \<Rightarrow> (u32 \<times> u32) option \<times> 'd panel" where
  "dht20_read m p =
     (let p = dht20_init_once m p in
      case on_dev (i2c_write m (dht20_i2c_base p) DHT20_ADDR [0xac, 0x33, 0x00]) p of
        (started, p) \<Rightarrow>
          if \<not> started then (None, p)
          else
            let p = panel_delay m 80 p in
            case panel_i2c_read m (dht20_i2c_base p) DHT20_ADDR (replicate 7 0) p of
              ((ok, bs), p) \<Rightarrow> if \<not> ok then (None, p) else (dht20_decode bs, p))"

section \<open>The sample\<close>

record raw_sample =
  rs_dht20_ok :: bool
  rs_temp_c_x100 :: u32
  rs_humidity_x100 :: u32
  rs_light_raw :: u16

definition rp2w_read_sensor_sample :: "'d mmio \<Rightarrow> 'd panel \<Rightarrow> raw_sample \<times> 'd panel" where
  "rp2w_read_sensor_sample m p =
     (case rp2w_adc0_read m p of (light_raw, p) \<Rightarrow>
      case dht20_read m p of (reading, p) \<Rightarrow>
      case (case reading of
              Some (temp_c_x100, humidity_x100) \<Rightarrow>
                (\<lparr>rs_dht20_ok = True, rs_temp_c_x100 = temp_c_x100, rs_humidity_x100 = humidity_x100,
                  rs_light_raw = light_raw\<rparr>,
                 p\<lparr>pn_last_dht20_ok := 1, pn_last_temp_c_x100 := temp_c_x100,
                   pn_last_humidity_x100 := humidity_x100\<rparr>)
            | None \<Rightarrow>
                (\<lparr>rs_dht20_ok = False, rs_temp_c_x100 = 0, rs_humidity_x100 = 0,
                  rs_light_raw = light_raw\<rparr>,
                 p\<lparr>pn_last_dht20_ok := 0\<rparr>)) of
        (sample, p) \<Rightarrow> (sample, p\<lparr>pn_last_light_raw := ucast light_raw\<rparr>))"

definition clamp_i32_to_i16 :: "u32 \<Rightarrow> i16" where
  "clamp_i32_to_i16 v =
     (if sint v < -32768 then -32768 else if sint v > 32767 then 32767 else ucast v)"

definition clamp_u32_to_u16 :: "u32 \<Rightarrow> u16" where
  "clamp_u32_to_u16 v = (if v > 65535 then 65535 else ucast v)"

definition rp2w_pico2w_sensor_sample :: "raw_sample \<Rightarrow> u16 \<Rightarrow> sensor_sample" where
  "rp2w_pico2w_sensor_sample sample seq =
     (let temperature_c_x10 = (if rs_dht20_ok sample
            then clamp_i32_to_i16 (word_of_int (sint (rs_temp_c_x100 sample) sdiv 10)) else 0);
          humidity_pct_x10 = (if rs_dht20_ok sample
            then clamp_u32_to_u16 (rs_humidity_x100 sample div 10) else 0)
      in case sensor_sample_new PICO2W_SENSOR_STATUS_FRESH temperature_c_x10 humidity_pct_x10
               (rs_light_raw sample) seq of
           Inr sample \<Rightarrow> sample
         | Inl _ \<Rightarrow> sensor_sample_pending seq)"

definition rp2w_read_pico2w_sensor_sample ::
    "'d mmio \<Rightarrow> u16 \<Rightarrow> bytes \<Rightarrow> 'd panel \<Rightarrow> (unit + nat \<times> bytes) \<times> 'd panel" where
  "rp2w_read_pico2w_sensor_sample m seq out p =
     (case rp2w_read_sensor_sample m p of
        (raw, p) \<Rightarrow>
          (map_err (\<lambda>_. ()) (sensor_sample_encode_into (rp2w_pico2w_sensor_sample raw seq) out), p))"

text \<open>
  From \<open>rp2w_board_init\<close>, after the pins are set up: on which bus the display and the
  thermometer answer, and the display's start.
\<close>

definition rp2w_board_detect :: "'d mmio \<Rightarrow> 'd panel \<Rightarrow> 'd panel" where
  "rp2w_board_detect m p =
     (case on_dev (i2c_probe_write m I2C0_BASE LCD_ADDR [0x00]) p of (lcd_i2c0, p) \<Rightarrow>
      case on_dev (i2c_probe_write m I2C1_BASE LCD_ADDR [0x00]) p of (lcd_i2c1, p) \<Rightarrow>
      case panel_i2c_read m I2C0_BASE DHT20_ADDR [0] p of ((dht_i2c0, dht_status), p) \<Rightarrow>
      case panel_i2c_read m I2C1_BASE DHT20_ADDR dht_status p of ((dht_i2c1, dht_status), p) \<Rightarrow>
      let p = p\<lparr>pn_detect_mask := of_bool lcd_i2c0 OR push_bit 1 (of_bool lcd_i2c1)
                  OR push_bit 2 (of_bool dht_i2c0) OR push_bit 3 (of_bool dht_i2c1),
                pn_lcd_bus := (if lcd_i2c0 then 0 else if lcd_i2c1 then 1 else 0),
                pn_dht20_bus := (if dht_i2c1 then 1 else if dht_i2c0 then 0 else 1)\<rparr> in
      case rp2w_lcd_init m p of (lcd_ok, p) \<Rightarrow>
      let p = p\<lparr>pn_lcd_init_ok := of_bool lcd_ok\<rparr> in
      snd (rp2w_lcd_write_lines m (ascii ''RP2W sensor'') (ascii ''booting'') p))"

section \<open>What the text is\<close>

text \<open>Decimal digits, most significant first, and the number a digit string stands for.\<close>

fun dec :: "nat \<Rightarrow> bytes" where
  "dec n = (if n < 10 then [48 + of_nat n] else dec (n div 10) @ [48 + of_nat (n mod 10)])"

declare dec.simps [simp del]

definition of_dec :: "bytes \<Rightarrow> nat" where
  "of_dec bs = foldl (\<lambda>n b. 10 * n + (unat b - 48)) 0 bs"

lemma unat_digit [simp]: "n < 10 \<Longrightarrow> unat (48 + of_nat n :: u8) = 48 + n"
  by (simp add: unat_word_ariths unat_of_nat)

lemma of_dec_dec [simp]: "of_dec (dec n) = n"
proof (induction n rule: dec.induct)
  case (1 n)
  show ?case
  proof (cases "n < 10")
    case True
    then show ?thesis by (simp add: dec.simps [of n] of_dec_def)
  next
    case False
    with 1 have "foldl (\<lambda>n b. 10 * n + (unat b - 48)) 0 (dec (n div 10)) = n div 10"
      by (simp add: of_dec_def)
    with False show ?thesis by (simp add: dec.simps [of n] of_dec_def)
  qed
qed

lemma length_dec: "n < 10 ^ Suc k \<Longrightarrow> length (dec n) \<le> Suc k"
proof (induction k arbitrary: n)
  case 0
  then show ?case by (simp add: dec.simps [of n])
next
  case (Suc k)
  have "n div 10 < 10 ^ Suc k" using Suc.prems by (simp add: less_mult_imp_div_less)
  from Suc.IH [OF this] show ?case by (simp add: dec.simps [of n])
qed

lemma u32_digits_dec: "rev (u32_digits v) = dec (unat v)"
proof (induction v rule: u32_digits.induct)
  case (1 v)
  have digit: "(48 + ucast (v mod 10) :: u8) = 48 + of_nat (unat v mod 10)"
    by (simp add: word_unat_eq_iff unat_word_ariths unsigned_ucast_eq take_bit_eq_mod unat_mod unat_of_nat)
  have small: "v div 10 = 0 \<longleftrightarrow> unat v < 10"
    by (simp add: word_unat_eq_iff unat_div div_eq_0_iff)
  show ?case
  proof (cases "unat v < 10")
    case True
    with digit small show ?thesis
      by (simp add: u32_digits.simps [of v] dec.simps [of "unat v"] Let_def)
  next
    case False
    with 1 [of "48 + ucast (v mod 10)" "v div 10"] digit small show ?thesis
      by (simp add: u32_digits.simps [of v] dec.simps [of "unat v"] Let_def unat_div)
  qed
qed

text \<open>
  A buffer whose written part is the text as far as it fits. Every push appends its own text.
\<close>

definition holds_text :: "nat \<Rightarrow> bytes \<Rightarrow> bytes \<times> nat \<Rightarrow> bool" where
  "holds_text cap pre b \<longleftrightarrow> length (fst b) = cap \<and> snd b = min cap (length pre)
     \<and> take (snd b) (fst b) = take cap pre"

lemma push_byte_text:
  assumes "holds_text cap pre (out, len)"
  shows "holds_text cap (pre @ [b]) (push_byte out len b)"
proof (cases "len < length out")
  case True
  with assms have "len = length pre" "take len out = pre" by (auto simp: holds_text_def)
  with True assms show ?thesis
    by (auto simp: holds_text_def push_byte_def take_Suc_conv_app_nth)
next
  case False
  have "length out = cap" "len = min cap (length pre)" using assms by (simp_all add: holds_text_def)
  with False have "cap \<le> length pre" by linarith
  with False assms show ?thesis by (auto simp: holds_text_def push_byte_def min_def)
qed

lemma push_bytes_text:
  "holds_text cap pre (out, len) \<Longrightarrow> holds_text cap (pre @ bs) (push_bytes out len bs)"
proof (induction bs arbitrary: out len pre)
  case (Cons b bs)
  obtain out1 len1 where p: "push_byte out len b = (out1, len1)" by (cases "push_byte out len b")
  have "holds_text cap (pre @ [b]) (out1, len1)" using push_byte_text [OF Cons.prems, of b] p by simp
  from Cons.IH [OF this] p show ?case by simp
qed simp

definition dec_tenths :: "nat \<Rightarrow> bytes" where
  "dec_tenths n = dec (n div 10) @ [0x2e] @ dec (n mod 10)"

definition dec_signed_tenths :: "int \<Rightarrow> bytes" where
  "dec_signed_tenths t = (if t < 0 then 0x2d # dec_tenths (nat (- t)) else dec_tenths (nat t))"

lemma push_u32_text:
  "holds_text cap pre b \<Longrightarrow> holds_text cap (pre @ dec (unat v)) (push_u32 (fst b) (snd b) v)"
  using push_bytes_text [of cap pre "fst b" "snd b"] by (simp add: push_u32_def u32_digits_dec)

lemma push_tenths_text:
  assumes "holds_text cap pre b"
  shows "holds_text cap (pre @ dec_tenths (unat v)) (push_tenths (fst b) (snd b) v)"
proof -
  obtain o1 n1 where p1: "push_u32 (fst b) (snd b) (v div 10) = (o1, n1)"
    by (cases "push_u32 (fst b) (snd b) (v div 10)")
  obtain o2 n2 where p2: "push_byte o1 n1 0x2e = (o2, n2)" by (cases "push_byte o1 n1 0x2e")
  have "(48 + ucast (v mod 10) :: u8) = 48 + of_nat (unat v mod 10)"
    by (simp add: word_unat_eq_iff unat_word_ariths unsigned_ucast_eq take_bit_eq_mod unat_mod unat_of_nat)
  then have digit: "[48 + ucast (v mod 10)] = dec (unat v mod 10)" by (simp add: dec.simps)
  have "holds_text cap (pre @ dec (unat v div 10)) (o1, n1)"
    using push_u32_text [OF assms, of "v div 10"] p1 by (simp add: unat_div)
  from push_byte_text [OF push_byte_text [OF this, of "0x2e", unfolded p2], of "48 + ucast (v mod 10)"]
  show ?thesis by (simp add: push_tenths_def p1 p2 dec_tenths_def flip: digit)
qed

lemma unat_ucast_u16: "unat (ucast (h :: i16) :: u32) = unat h"
proof -
  have "unat h < 65536" using unsigned_less [of h, where 'a = nat] by simp
  then show ?thesis by (simp add: unsigned_ucast_eq take_bit_eq_mod)
qed

lemma unat_neg_scast:
  assumes neg: "sint (t :: i16) < 0"
  shows "unat (- scast t :: u32) = nat (- sint t)"
proof -
  have lo: "- (2 ^ 15) \<le> sint t" using sint_greater_eq [of t] by simp
  have "- scast t = (word_of_int (- sint t) :: u32)" by (simp only: scast_eq of_int_minus)
  then have "uint (- scast t :: u32) = (- sint t) mod 2 ^ 32" by (simp only: uint_word_of_int) simp
  also have "\<dots> = - sint t" using neg lo by (intro mod_pos_pos_trivial) auto
  finally show ?thesis by (simp only: unat_eq_nat_uint)
qed

lemma unat_nonneg_ucast:
  assumes "\<not> sint (t :: i16) < 0"
  shows "unat (ucast t :: u32) = nat (sint t)"
proof -
  have hi: "sint t < 2 ^ 15" using sint_less [of t] by simp
  have "uint t = uint (word_of_int (sint t) :: i16)" by (metis scast_eq scast_id)
  also have "\<dots> = sint t mod 2 ^ 16" by (simp only: uint_word_of_int) simp
  also have "\<dots> = sint t" using assms hi by (intro mod_pos_pos_trivial) auto
  finally show ?thesis by (simp only: unat_ucast_u16 unat_eq_nat_uint [of t])
qed

lemma push_i16_text:
  assumes "holds_text cap pre b"
  shows "holds_text cap (pre @ dec_signed_tenths (sint t)) (push_fixed_i16_x10 (fst b) (snd b) t)"
proof (cases "sint t < 0")
  case True
  obtain o1 n1 where p: "push_byte (fst b) (snd b) 0x2d = (o1, n1)" by (cases "push_byte (fst b) (snd b) 0x2d")
  have "holds_text cap (pre @ [0x2d]) (o1, n1)" using push_byte_text [of cap pre "fst b" "snd b" "0x2d"] assms p by simp
  from push_tenths_text [OF this, of "- scast t"] True show ?thesis
    by (simp add: push_fixed_i16_x10_def p dec_signed_tenths_def unat_neg_scast)
next
  case False
  with push_tenths_text [OF assms, of "ucast t"] show ?thesis
    by (simp add: push_fixed_i16_x10_def dec_signed_tenths_def unat_nonneg_ucast)
qed

lemma push_u16_text:
  assumes "holds_text cap pre b"
  shows "holds_text cap (pre @ dec_tenths (unat h)) (push_fixed_u16_x10 (fst b) (snd b) h)"
  using push_tenths_text [OF assms, of "ucast h"]
  by (simp add: push_fixed_u16_x10_def unat_ucast_u16)

text \<open>The text of a sample.\<close>

definition sample_text :: "sensor_sample \<Rightarrow> bytes" where
  "sample_text sample =
     (if ps_status sample = 1 then ascii ''sensor pending'' @ [10] @ ascii ''seq:'' @ dec (unat (ps_seq sample))
      else if ps_status sample = 2
      then ascii ''sensor stale'' @ [10] @ ascii ''L:'' @ dec (unat (ps_light_raw sample))
      else ascii ''T:'' @ dec_signed_tenths (sint (ps_temperature_c_x10 sample)) @ ascii ''C H:''
        @ dec_tenths (unat (ps_humidity_pct_x10 sample)) @ ascii ''%'' @ [10] @ ascii ''L:''
        @ dec (unat (ps_light_raw sample)) @ ascii '' #'' @ dec (unat (ps_seq sample)))"

lemma holds_text_start: "len = 0 \<Longrightarrow> holds_text (length out) [] (out, len)"
  by (simp add: holds_text_def)

lemma format_text: "holds_text (length out) (sample_text sample) (rp2w_format_pico2w_sensor_sample sample out)"
proof -
  note start = push_bytes_text [OF holds_text_start [OF refl, of out]]
  have ph: "holds_text cap (pre @ bs) (push_bytes (fst b) (snd b) bs)" if "holds_text cap pre b" for cap pre b bs
    using push_bytes_text [of cap pre "fst b" "snd b" bs] that by simp
  let ?T = "ps_temperature_c_x10 sample" and ?H = "ps_humidity_pct_x10 sample"
    and ?L = "ucast (ps_light_raw sample) :: u32" and ?S = "ucast (ps_seq sample) :: u32"
  consider "ps_status sample = 1" | "ps_status sample = 2" | "ps_status sample \<noteq> 1" "ps_status sample \<noteq> 2"
    by blast
  then show ?thesis
  proof cases
    case 1
    with push_u32_text [OF start, of "ascii ''sensor pending'' @ [10] @ ascii ''seq:''" ?S] show ?thesis
      by (simp add: rp2w_format_pico2w_sensor_sample_def sample_text_def case_prod_unfold unat_ucast_u16)
  next
    case 2
    with push_u32_text [OF start, of "ascii ''sensor stale'' @ [10] @ ascii ''L:''" ?L] show ?thesis
      by (simp add: rp2w_format_pico2w_sensor_sample_def sample_text_def case_prod_unfold unat_ucast_u16)
  next
    case 3
    note step = push_u32_text [OF ph [OF push_u32_text [OF ph [OF push_u16_text [OF ph [OF push_i16_text
      [OF start, of "ascii ''T:''" ?T], of "ascii ''C H:''"], of ?H], of "ascii ''%'' @ [10] @ ascii ''L:''"],
      of ?L], of "ascii '' #''"], of ?S]
    from 3 step show ?thesis
      by (simp add: rp2w_format_pico2w_sensor_sample_def sample_text_def case_prod_unfold unat_ucast_u16)
  qed
qed

lemma length_dec_le: "n < 10 ^ k \<Longrightarrow> 0 < k \<Longrightarrow> length (dec n) \<le> k"
  using length_dec [of n "k - 1"] by simp

lemma length_dec_tenths: "n < 65536 \<Longrightarrow> length (dec_tenths n) \<le> 6"
proof -
  assume "n < 65536"
  then have "n div 10 < 10000" by arith
  with length_dec_le [of "n div 10" 4] length_dec_le [of "n mod 10" 1] show ?thesis
    by (simp add: dec_tenths_def)
qed

lemma length_sample_text: "length (sample_text sample) \<le> 36"
proof -
  have u16: "length (dec (unat w)) \<le> 5" for w :: u16
    using length_dec_le [of "unat w" 5] unsigned_less [of w, where 'a = nat] by simp
  have tenths: "length (dec_tenths (unat w)) \<le> 6" for w :: u16
    using length_dec_tenths [of "unat w"] unsigned_less [of w, where 'a = nat] by simp
  have "length (dec_signed_tenths (sint t)) \<le> 7" for t :: i16
  proof -
    have "- (2 ^ 15) \<le> sint t" "sint t < 2 ^ 15"
      using sint_greater_eq [of t] sint_less [of t] by simp_all
    then have "nat (- sint t) < 65536" "nat (sint t) < 65536" by (simp_all add: nat_less_iff)
    from this [THEN length_dec_tenths] show ?thesis by (simp add: dec_signed_tenths_def)
  qed
  from this [of "ps_temperature_c_x10 sample"] u16 [of "ps_light_raw sample"] u16 [of "ps_seq sample"]
    tenths [of "ps_humidity_pct_x10 sample"]
  show ?thesis by (simp add: sample_text_def)
qed

section \<open>The checksum\<close>

lemma crc_bit_inj [simp]: "crc_bit a = crc_bit b \<longleftrightarrow> a = b"
proof
  assume eq: "crc_bit a = crc_bit b"
  have top: "crc AND 0x80 \<noteq> 0 \<longleftrightarrow> bit crc 7" for crc :: u8
    using and_exp_eq_0_iff_not_bit [of crc 7] by simp
  have low: "bit (crc_bit crc) 0 \<longleftrightarrow> bit crc 7" for crc
    by (simp add: crc_bit_def top bit_0 even_xor_iff)
  have same: "bit a 7 = bit b 7" using low [of a] low [of b] eq by simp
  then have shifted: "push_bit 1 a = push_bit 1 b"
    using eq by (auto simp: crc_bit_def top xor_cancel_word xor.commute [of _ "0x31"])
  have low_bits: "bit (push_bit 1 w) (Suc n) \<longleftrightarrow> bit w n" if "n < 7" for n and w :: u8
    using that by (simp only: bit_push_bit_iff) simp
  show "a = b"
  proof (rule bit_word_eqI)
    fix n assume n: "n < LENGTH(8)"
    show "bit a n = bit b n"
    proof (cases "n = 7")
      case False
      then have "n < 7" using n by simp
      with low_bits [of n a] low_bits [of n b] shifted show ?thesis by simp
    qed (simp add: same)
  qed
qed simp

lemma crc_byte_inj: "(crc_bit ^^ n) a = (crc_bit ^^ n) b \<longleftrightarrow> a = b"
  by (induction n) simp_all

lemma crc_from_inj: "dht20_crc8_from c bs = dht20_crc8_from c' bs \<longleftrightarrow> c = c'"
  by (induction bs arbitrary: c c')
     (simp_all add: crc_byte_inj xor_cancel_word xor.commute)

lemma crc_from_update:
  "i < length bs \<Longrightarrow> b \<noteq> bs ! i \<Longrightarrow> dht20_crc8_from c (bs[i := b]) \<noteq> dht20_crc8_from c bs"
proof (induction bs arbitrary: c i)
  case (Cons x bs)
  then show ?case
    by (cases i) (auto simp: crc_from_inj crc_byte_inj xor_cancel_word)
qed simp

section \<open>The readings\<close>

lemma sint_of_int_small:
  assumes "- 2147483648 \<le> k" "k < 2147483648"
  shows "sint (word_of_int k :: u32) = k"
  using assms unfolding sint_sbintrunc' by (intro signed_take_bit_int_eq_self) simp_all

lemma unat_less_20:
  assumes "\<And>n. 20 \<le> n \<Longrightarrow> \<not> bit (w :: u32) n"
  shows "unat w < 2 ^ 20"
proof -
  have "w = take_bit 20 w" by (rule bit_word_eqI) (use assms in \<open>metis bit_take_bit_iff not_less\<close>)
  then have "unat w = take_bit 20 (unat w)" by (metis unsigned_take_bit_eq)
  then show ?thesis by (metis take_bit_nat_less_exp)
qed

lemma raw_bounds:
  "unat (dht20_raw_humidity bs) < 2 ^ 20" "unat (dht20_raw_temperature bs) < 2 ^ 20"
proof -
  have nibble: "(0x0f :: u32) = mask 4" by (simp add: mask_eq_exp_minus_1)
  show "unat (dht20_raw_humidity bs) < 2 ^ 20"
    unfolding dht20_raw_humidity_def by (rule unat_less_20) (auto simp: byte_bits)
  show "unat (dht20_raw_temperature bs) < 2 ^ 20"
    unfolding dht20_raw_temperature_def nibble
    by (rule unat_less_20) (simp only: byte_bits bit_and_iff bit_mask_iff, auto)
qed

lemma scaled:
  assumes "unat (raw :: u32) < 2 ^ 20" "k \<le> 20000" 
  shows "unat (ucast ((ucast raw :: u64) * of_nat k div 1048576) :: u32) = unat raw * k div 1048576"
proof -
  have u: "unat (ucast raw :: u64) = unat raw"
    using assms by (simp add: unsigned_ucast_eq take_bit_eq_mod)
  have k: "unat (of_nat k :: u64) = k" using assms by (simp add: unat_of_nat)
  have "unat raw * k \<le> 2 ^ 20 * 20000" using assms by (intro mult_le_mono) auto
  then have m: "unat ((ucast raw :: u64) * of_nat k) = unat raw * k"
    by (simp add: unat_word_ariths u k)
  have "unat raw * k div 1048576 < 2 ^ 32" using \<open>unat raw * k \<le> _\<close> by (simp add: div_le_mono)
  then show ?thesis by (simp add: unsigned_ucast_eq take_bit_eq_mod unat_div m)
qed
lemma sint_of_int_small16:
  assumes "- (2 ^ 15) \<le> k" "k < 2 ^ 15"
  shows "sint (ucast (word_of_int k :: u32) :: i16) = k"
proof -
  have "(ucast (word_of_int k :: u32) :: i16) = word_of_int (take_bit 32 k)"
    by (simp only: ucast_eq uint_word_of_int_eq) simp
  then have "sint (ucast (word_of_int k :: u32) :: i16) = signed_take_bit 15 k"
    by (simp add: sint_sbintrunc' signed_take_bit_take_bit)
  with assms show ?thesis by (simp add: signed_take_bit_int_eq_self)
qed

lemma sint_minus_5000:
  assumes "unat (q :: u32) < 20000"
  shows "sint (q - 5000) = int (unat q) - 5000"
proof -
  have q: "q - 5000 = word_of_int (int (unat q) - 5000)" by simp
  have "int (unat q) - 5000 < 2147483648" "- 2147483648 \<le> int (unat q) - 5000"
    using assms by linarith+
  then show ?thesis unfolding q by (intro sint_of_int_small)
qed

lemma dht20_decode_values:
  assumes "dht20_decode bs = Some (t, h)"
  shows "unat h = unat (dht20_raw_humidity bs) * 10000 div 1048576 \<and> unat h < 10000
    \<and> sint t = int (unat (dht20_raw_temperature bs) * 20000 div 1048576) - 5000
    \<and> - 5000 \<le> sint t \<and> sint t < 15000"
proof -
  let ?q = "ucast ((ucast (dht20_raw_temperature bs) :: u64) * 20000 div 1048576) :: u32"
  have h: "h = ucast ((ucast (dht20_raw_humidity bs) :: u64) * 10000 div 1048576)"
    and t: "t = ?q - 5000"
    using assms by (auto simp: dht20_decode_def Let_def split: if_splits)
  have uh: "unat h = unat (dht20_raw_humidity bs) * 10000 div 1048576"
    unfolding h using scaled [OF raw_bounds(1), of 10000 bs] by simp
  have q: "unat ?q = unat (dht20_raw_temperature bs) * 20000 div 1048576"
    using scaled [OF raw_bounds(2), of 20000 bs] by simp
  have small: "unat h < 10000" "unat ?q < 20000"
    unfolding uh q using raw_bounds [of bs] by (simp_all add: div_less_iff_less_mult)
  have "sint t = int (unat ?q) - 5000" unfolding t by (rule sint_minus_5000 [OF small(2)])
  with uh q small show ?thesis by auto
qed

section \<open>What the display is sent\<close>

text \<open>The register writes of one message to the display, and the messages of a screen.\<close>

definition lcd_message :: "nat \<Rightarrow> bytes \<Rightarrow> (nat \<times> nat \<times> u32) list" where
  "lcd_message base bytes = target_writes base LCD_ADDR @ write_words base bytes"

definition lcd_line :: "bytes \<Rightarrow> bytes" where
  "lcd_line txt = take 16 (txt @ replicate 16 0x20)"

definition lcd_screen :: "bytes \<Rightarrow> bytes \<Rightarrow> bytes list" where
  "lcd_screen line1 line2 =
     [[0x80, 0x80]] @ map (\<lambda>b. [0x40, b]) (lcd_line line1)
       @ [[0x80, 0xc0]] @ map (\<lambda>b. [0x40, b]) (lcd_line line2)"

definition lcd_sent ::
    "('d \<times> reg_access list) panel \<Rightarrow> ('d \<times> reg_access list) panel \<Rightarrow> bytes list \<Rightarrow> bool \<Rightarrow> bool" where
  "lcd_sent p p' msgs ok \<longleftrightarrow> pn_lcd_bus p' = pn_lcd_bus p
     \<and> (\<exists>l. snd (pn_dev p') = snd (pn_dev p) @ l
          \<and> (ok \<longrightarrow> bus_writes l = concat (map (lcd_message (lcd_i2c_base p)) msgs)))"

lemma lcd_sent_refl [simp]: "lcd_sent p p [] ok"
  by (simp add: lcd_sent_def)

lemma lcd_sent_trans:
  assumes "lcd_sent p p1 a r1" "lcd_sent p1 p2 b r2"
  shows "lcd_sent p p2 (a @ b) (r1 \<and> r2)"
proof -
  have "lcd_i2c_base p1 = lcd_i2c_base p" using assms(1) by (simp add: lcd_sent_def lcd_i2c_base_def)
  with assms show ?thesis by (fastforce simp: lcd_sent_def)
qed

lemma lcd_write_sent:
  assumes "lcd_write (logged m) bytes p = (r, p')" "bytes \<noteq> []"
  shows "lcd_sent p p' [bytes] r"
proof -
  obtain d l where dev: "pn_dev p = (d, l)" by (cases "pn_dev p")
  obtain s' where w: "i2c_write (logged m) (lcd_i2c_base p) LCD_ADDR bytes (d, l) = (r, s')"
    and p': "p' = p\<lparr>pn_dev := s'\<rparr>"
    using assms(1) by (auto simp: lcd_write_def on_dev_def dev split: prod.splits)
  from i2c_write_traffic [OF assms(2) w] obtain l1 where "snd s' = l @ l1"
    "r \<longrightarrow> bus_writes l1 = lcd_message (lcd_i2c_base p) bytes"
    using assms(2) by (auto simp: traffic_def lcd_message_def length_write_words)
  then show ?thesis by (auto simp: lcd_sent_def p' dev)
qed

lemma lcd_command_sent:
  "lcd_command (logged m) c p = (r, p') \<Longrightarrow> lcd_sent p p' [[0x80, c]] r"
  unfolding lcd_command_def by (erule lcd_write_sent) simp

lemma lcd_data_from_sent:
  "lcd_data_from (logged m) ok bs p = (r, p') \<Longrightarrow>
     \<exists>r1. r = (ok \<and> r1) \<and> lcd_sent p p' (map (\<lambda>b. [0x40, b]) bs) r1"
proof (induction bs arbitrary: ok p)
  case (Cons b bs)
  obtain r1 p1 where w: "lcd_write (logged m) [0x40, b] p = (r1, p1)"
    by (cases "lcd_write (logged m) [0x40, b] p")
  from Cons.IH [of "ok \<and> r1" p1] Cons.prems w obtain r2 where
    "r = ((ok \<and> r1) \<and> r2)" "lcd_sent p1 p' (map (\<lambda>b. [0x40, b]) bs) r2" by auto
  with lcd_sent_trans [OF lcd_write_sent [OF w]] show ?case
    by (intro exI [of _ "r1 \<and> r2"]) auto
qed (auto intro!: exI [of _ True])

lemma copy_lcd_line_16: "copy_lcd_line (replicate 16 0x20) txt = lcd_line txt"
  by (auto simp: copy_lcd_line_def lcd_line_def blit_def Let_def min_def not_le
      simp flip: replicate_add)

lemma length_lcd_line [simp]: "length (lcd_line txt) = 16"
  by (simp add: lcd_line_def)

lemma lcd_data_sent:
  "lcd_data (logged m) (lcd_line txt) p = (r, p') \<Longrightarrow>
     lcd_sent p p' (map (\<lambda>b. [0x40, b]) (lcd_line txt)) r"
  using lcd_data_from_sent [of m True "lcd_line txt" p r p'] by (auto simp: lcd_data_def)

lemma lcd_write_lines_sent:
  assumes "rp2w_lcd_write_lines (logged m) line1 line2 p = (r, p')"
  shows "lcd_sent p p' (lcd_screen line1 line2) r"
proof -
  obtain r1 p1 where s1: "lcd_command (logged m) 0x80 p = (r1, p1)" by (cases "lcd_command (logged m) 0x80 p")
  obtain r2 p2 where s2: "lcd_data (logged m) (lcd_line line1) p1 = (r2, p2)"
    by (cases "lcd_data (logged m) (lcd_line line1) p1")
  obtain r3 p3 where s3: "lcd_command (logged m) 0xc0 p2 = (r3, p3)" by (cases "lcd_command (logged m) 0xc0 p2")
  obtain r4 p4 where s4: "lcd_data (logged m) (lcd_line line2) p3 = (r4, p4)"
    by (cases "lcd_data (logged m) (lcd_line line2) p3")
  have "r = (r1 \<and> r2 \<and> r3 \<and> r4)" "p' = p4"
    using assms by (auto simp: rp2w_lcd_write_lines_def copy_lcd_line_16 s1 s2 s3 s4 Let_def)
  with lcd_sent_trans [OF lcd_command_sent [OF s1] lcd_sent_trans [OF lcd_data_sent [OF s2]
    lcd_sent_trans [OF lcd_command_sent [OF s3] lcd_data_sent [OF s4]]]]
  show ?thesis by (simp add: lcd_screen_def)
qed

text \<open>The two lines of a payload.\<close>

definition first_line :: "bytes \<Rightarrow> bytes" where
  "first_line bs = takeWhile (\<lambda>b. \<not> is_break b) bs"

definition second_line :: "bytes \<Rightarrow> bytes" where
  "second_line bs = first_line (dropWhile is_break (dropWhile (\<lambda>b. \<not> is_break b) bs))"

lemma find_break_eq:
  "i \<le> length bs \<Longrightarrow> find_break bs i = i + length (first_line (drop i bs))"
proof (induction bs i rule: find_break.induct)
  case (1 bs i)
  show ?case
  proof (cases "i < length bs")
    case True
    then have "drop i bs = bs ! i # drop (Suc i) bs" by (simp add: Cons_nth_drop_Suc)
    with True 1 show ?thesis by (simp add: find_break.simps [of bs i] first_line_def)
  qed (use 1 in \<open>simp add: find_break.simps [of bs "length bs"] first_line_def\<close>)
qed

lemma skip_breaks_eq:
  "i \<le> length bs \<Longrightarrow> skip_breaks bs i = i + length (takeWhile is_break (drop i bs))"
proof (induction bs i rule: skip_breaks.induct)
  case (1 bs i)
  show ?case
  proof (cases "i < length bs")
    case True
    then have "drop i bs = bs ! i # drop (Suc i) bs" by (simp add: Cons_nth_drop_Suc)
    with True 1 show ?thesis by (simp add: skip_breaks.simps [of bs i])
  qed (use 1 in \<open>simp add: skip_breaks.simps [of bs "length bs"]\<close>)
qed

lemma takeWhile_length_take: "take (length (takeWhile P xs)) xs = takeWhile P xs"
  by (metis append_eq_conv_conj takeWhile_dropWhile_id)

lemma takeWhile_length_drop: "drop (length (takeWhile P xs)) xs = dropWhile P xs"
  by (metis append_eq_conv_conj takeWhile_dropWhile_id)

lemma lcd_write_payload_lines:
  "rp2w_lcd_write_payload m bs p = rp2w_lcd_write_lines m (first_line bs) (second_line bs) p"
proof -
  let ?split = "length (first_line bs)"
  let ?rest = "dropWhile (\<lambda>b. \<not> is_break b) bs"
  have split: "find_break bs 0 = ?split" by (simp add: find_break_eq)
  have len: "?split \<le> length bs" by (simp add: first_line_def length_takeWhile_le)
  have rest: "drop ?split bs = ?rest" by (simp add: first_line_def takeWhile_length_drop)
  let ?start = "?split + length (takeWhile is_break ?rest)"
  have start: "skip_breaks bs ?split = ?start" using skip_breaks_eq [OF len] rest by simp
  have "length ?rest = length bs - ?split" by (metis length_drop rest)
  then have le: "?start \<le> length bs" using length_takeWhile_le [of is_break ?rest] len by simp
  have tail: "drop ?start bs = dropWhile is_break ?rest"
    using rest by (metis add.commute drop_drop takeWhile_length_drop)
  have "take (find_break bs ?start - ?start) (drop ?start bs) = second_line bs"
    unfolding find_break_eq [OF le] tail
    by (simp add: second_line_def first_line_def takeWhile_length_take)
  moreover have "take ?split bs = first_line bs" by (simp add: first_line_def takeWhile_length_take)
  ultimately show ?thesis by (simp add: rp2w_lcd_write_payload_def Let_def split start)
qed

text \<open>The lines of a sample.\<close>

definition top_line :: "sensor_sample \<Rightarrow> bytes" where
  "top_line sample =
     (if ps_status sample = 1 then ascii ''sensor pending''
      else if ps_status sample = 2 then ascii ''sensor stale''
      else ascii ''T:'' @ dec_signed_tenths (sint (ps_temperature_c_x10 sample)) @ ascii ''C H:''
        @ dec_tenths (unat (ps_humidity_pct_x10 sample)) @ ascii ''%'')"

definition bottom_line :: "sensor_sample \<Rightarrow> bytes" where
  "bottom_line sample =
     (if ps_status sample = 1 then ascii ''seq:'' @ dec (unat (ps_seq sample))
      else if ps_status sample = 2 then ascii ''L:'' @ dec (unat (ps_light_raw sample))
      else ascii ''L:'' @ dec (unat (ps_light_raw sample)) @ ascii '' #'' @ dec (unat (ps_seq sample)))"

lemma is_break_unat: "is_break b \<longleftrightarrow> unat b = 10 \<or> unat b = 13"
  by (simp add: is_break_def word_unat_eq_iff)

lemma dec_no_break: "b \<in> set (dec n) \<Longrightarrow> \<not> is_break b"
proof (induction n rule: dec.induct)
  case (1 n)
  have digit: "\<not> is_break (48 + of_nat k)" if "k < 10" for k
    using unat_digit [OF that] by (auto simp: is_break_unat)
  from 1 show ?case by (auto simp: dec.simps [of n] digit split: if_splits)
qed

lemma tenths_no_break: "b \<in> set (dec_tenths n) \<Longrightarrow> \<not> is_break b"
  by (auto simp: dec_tenths_def dec_no_break) (simp add: is_break_def)

lemma signed_no_break: "b \<in> set (dec_signed_tenths t) \<Longrightarrow> \<not> is_break b"
  by (auto simp: dec_signed_tenths_def tenths_no_break split: if_splits) (simp add: is_break_def)

lemma sample_lines:
  "first_line (sample_text sample) = top_line sample" "second_line (sample_text sample) = bottom_line sample"
proof -
  have st: "sample_text sample = top_line sample @ [10] @ bottom_line sample"
    by (simp add: sample_text_def top_line_def bottom_line_def)
  have nb: "\<not> is_break b" if "b \<in> set (top_line sample) \<union> set (bottom_line sample)" for b
    using that
    by (auto simp: top_line_def bottom_line_def ascii_def is_break_def split: if_splits
        dest: dec_no_break tenths_no_break signed_no_break)
  have br: "is_break 10" by (simp add: is_break_def)
  show "first_line (sample_text sample) = top_line sample"
    using nb br by (simp add: st first_line_def takeWhile_append2)
  have "dropWhile (\<lambda>b. \<not> is_break b) (sample_text sample) = 10 # bottom_line sample"
    using nb br by (simp add: st dropWhile_append2)
  moreover have "dropWhile is_break (10 # bottom_line sample) = bottom_line sample"
    using nb br by (cases "bottom_line sample") auto
  moreover have "first_line (bottom_line sample) = bottom_line sample"
    using nb by (simp add: first_line_def takeWhile_eq_all_conv)
  ultimately show "second_line (sample_text sample) = bottom_line sample"
    by (simp add: second_line_def)
qed

section \<open>Properties\<close>

text \<open>The documented behaviour of the inherited \<open>decode_payload\<close>: validate, then decode.\<close>

definition decodes_validated :: "(bytes \<Rightarrow> 'e + sensor_sample) \<Rightarrow> bool" where
  "decodes_validated decode_payload \<longleftrightarrow> (\<forall>bs.
     (sensor_sample_validate bs = Inr () \<longrightarrow>
        (\<forall>sample. sensor_sample_decode_validated bs = Done sample \<longrightarrow> decode_payload bs = Inr sample))
     \<and> (sensor_sample_validate bs \<noteq> Inr () \<longrightarrow> (\<exists>e. decode_payload bs = Inl e)))"

definition fresh_panel :: "'d \<Rightarrow> 'd panel" where
  "fresh_panel d = \<lparr>pn_dev = d, pn_dht20_init_done = 0, pn_adc_ready = 1, pn_lcd_bus = 0,
     pn_dht20_bus = 1, pn_detect_mask = 0, pn_lcd_init_ok = 0, pn_last_light_raw = 0,
     pn_last_dht20_ok = 0, pn_last_temp_c_x100 = 0, pn_last_humidity_x100 = 0\<rparr>"

lemma sample_lcd_sent:
  assumes "decodes_validated decode_payload" "sensor_sample_wf sample"
    and "rp2w_lcd_write_pico2w_sensor_sample decode_payload (logged m) (sensor_sample_wire sample) p
      = (r, p')"
  shows "lcd_sent p p' (lcd_screen (top_line sample) (bottom_line sample)) r"
proof -
  have "decode_payload (sensor_sample_wire sample) = Inr sample"
    using assms(1,2) sensor_codec.validate_wire [OF assms(2)] sensor_codec.decode_wire [OF assms(2)]
    by (simp add: decodes_validated_def)
  moreover obtain out len where f: "rp2w_format_pico2w_sensor_sample sample (replicate 64 0) = (out, len)"
    by (cases "rp2w_format_pico2w_sensor_sample sample (replicate 64 0)")
  moreover have "take len out = sample_text sample"
    using format_text [of "replicate 64 0" sample] length_sample_text [of sample] f
    by (auto simp: holds_text_def)
  ultimately show ?thesis
    using assms(3) lcd_write_lines_sent [of m "top_line sample" "bottom_line sample" p r p']
    by (simp add: rp2w_lcd_write_pico2w_sensor_sample_def lcd_write_payload_lines sample_lines)
qed

text \<open>C32: Whatever the I2C block does, when showing the wire image of a sensor sample reports
  success the register writes are exactly the messages of a screen: the two cursor commands and
  sixteen characters per line, being the decimal text of the sample's values, padded with blanks
  and cut after sixteen.\<close>

theorem sensor_sample_on_display:
  assumes "decodes_validated decode_payload" "sensor_sample_wf sample" "snd (pn_dev p) = []"
    and "rp2w_lcd_write_pico2w_sensor_sample decode_payload (logged m) (sensor_sample_wire sample) p
      = (True, p')"
  shows "bus_writes (snd (pn_dev p')) = concat (map (lcd_message (lcd_i2c_base p))
      (lcd_screen (top_line sample) (bottom_line sample)))"
  using sample_lcd_sent [OF assms(1,2,4)] assms(3) by (auto simp: lcd_sent_def)

text \<open>With an I2C block that is always ready the display accepts everything.\<close>

lemma ready_write_bytes: "fst (i2c_write_bytes (logged ready_i2c) base bs s)"
proof (induction bs arbitrary: s)
  case (Cons b bs)
  have "fst (i2c_wait_for (logged ready_i2c) base I2C_STATUS_TFNF True s)"
    by (cases s) (simp add: ready_i2c_simps)
  with Cons show ?case by (simp add: case_prod_unfold Let_def)
qed simp

lemma ready_lcd_write:
  assumes "bytes \<noteq> []"
  shows "fst (lcd_write (logged ready_i2c) bytes p)"
proof -
  have "fst (i2c_set_target (logged ready_i2c) base addr s)" for base addr s
    by (cases s) (simp add: ready_i2c_simps case_prod_unfold Let_def)
  moreover have "fst (i2c_finish (logged ready_i2c) base s)" for base s
    by (cases s) (simp add: ready_i2c_simps)
  ultimately show ?thesis
    using assms ready_write_bytes by (simp add: lcd_write_def on_dev_def i2c_write_def case_prod_unfold)
qed

lemma ready_lcd_data: "fst (lcd_data_from (logged ready_i2c) ok bs p) = ok"
  by (induction bs arbitrary: ok p) (simp_all add: case_prod_unfold ready_lcd_write)

lemma ready_lcd_lines: "fst (rp2w_lcd_write_lines (logged ready_i2c) line1 line2 p)"
  by (simp add: rp2w_lcd_write_lines_def case_prod_unfold Let_def lcd_command_def lcd_data_def
      ready_lcd_write ready_lcd_data)

definition sample_decoder :: "bytes \<Rightarrow> unit + sensor_sample" where
  "sample_decoder bs =
     (if sensor_sample_validate bs \<noteq> Inr () then Inl ()
      else case sensor_sample_decode_validated bs of Done sample \<Rightarrow> Inr sample | Panic \<Rightarrow> Inl ())"

lemma ready_lcd_sample:
  "fst (rp2w_lcd_write_pico2w_sensor_sample decode_payload (logged ready_i2c) payload p)"
  by (auto simp: rp2w_lcd_write_pico2w_sensor_sample_def lcd_write_payload_lines ready_lcd_lines
      split: sum.split prod.split)

theorem sensor_sample_on_display_witness:
  "\<exists>p'. rp2w_lcd_write_pico2w_sensor_sample sample_decoder (logged ready_i2c)
      (sensor_sample_wire (sensor_sample_pending 7)) (fresh_panel ((), [])) = (True, p')
    \<and> bus_writes (snd (pn_dev p')) = concat (map (lcd_message I2C0_BASE)
        (lcd_screen (ascii ''sensor pending'') (ascii ''seq:7'')))"
proof -
  let ?p = "fresh_panel ((), [])"
  obtain p' where run: "rp2w_lcd_write_pico2w_sensor_sample sample_decoder (logged ready_i2c)
      (sensor_sample_wire (sensor_sample_pending 7)) ?p = (True, p')"
    using ready_lcd_sample [of sample_decoder "sensor_sample_wire (sensor_sample_pending 7)" ?p]
    by (metis (full_types) prod.collapse)
  have dec: "decodes_validated sample_decoder"
    by (simp add: decodes_validated_def sample_decoder_def)
  have lines: "top_line (sensor_sample_pending 7) = ascii ''sensor pending''"
    "bottom_line (sensor_sample_pending 7) = ascii ''seq:7''"
    by (simp_all add: top_line_def bottom_line_def sensor_sample_pending_def dec.simps ascii_def)
  have start: "snd (pn_dev ?p) = []" "lcd_i2c_base ?p = I2C0_BASE"
    by (simp_all add: fresh_panel_def lcd_i2c_base_def)
  from sensor_sample_on_display [OF dec sensor_sample_pending_wf start(1) run] run
  show ?thesis by (auto simp: lines start(2))
qed

text \<open>C33: A measurement of the thermometer in which one byte was changed is never taken for a
  reading.\<close>

theorem dht20_corruption_rejected:
  assumes "length bs = 7" "dht20_decode bs = Some reading" "i < 7" "b \<noteq> bs ! i"
  shows "dht20_decode (bs[i := b]) = None"
proof -
  have crc: "dht20_crc8 (take 6 bs) = bs ! 6"
    using assms(2) by (auto simp: dht20_decode_def split: if_splits)
  have "dht20_crc8 (take 6 (bs[i := b])) \<noteq> (bs[i := b]) ! 6"
  proof (cases "i = 6")
    case True
    with crc assms(1,4) show ?thesis by (simp add: take_update_cancel)
  next
    case False
    then have i: "i < length (take 6 bs)" "b \<noteq> take 6 bs ! i" using assms(1,3,4) by auto
    have "dht20_crc8 (take 6 (bs[i := b])) \<noteq> dht20_crc8 (take 6 bs)"
      using crc_from_update [OF i, of "0xff"] by (simp add: dht20_crc8_def take_update_swap)
    with crc False show ?thesis by simp
  qed
  then show ?thesis by (simp add: dht20_decode_def)
qed

text \<open>A measurement of 50.00 percent and 25.00 degrees.\<close>

definition sample_measurement :: bytes where
  "sample_measurement = [0x1c, 0x80, 0x00, 0x06, 0x00, 0x00, 0x4e]"

lemma crc_byte_8: "(crc_bit ^^ 8) c
    = crc_bit (crc_bit (crc_bit (crc_bit (crc_bit (crc_bit (crc_bit (crc_bit c)))))))"
  by (simp add: eval_nat_numeral)

lemma sample_measurement_reading: "dht20_decode sample_measurement = Some (2500, 5000)"
proof -
  have "dht20_crc8 (take 6 sample_measurement) = 0x4e"
    by (simp add: sample_measurement_def dht20_crc8_def crc_byte_8 crc_bit_def)
  then show ?thesis
    by (simp add: dht20_decode_def Let_def) (simp add: sample_measurement_def
      dht20_raw_humidity_def dht20_raw_temperature_def)
qed

theorem dht20_corruption_rejected_witness:
  "dht20_decode sample_measurement = Some (2500, 5000)
    \<and> dht20_decode (sample_measurement[1 := 0x81]) = None"
  using dht20_corruption_rejected [OF _ sample_measurement_reading, of 1 "0x81"]
    sample_measurement_reading
  by (simp add: sample_measurement_def)

text \<open>A reading of the thermometer reaches the sample without wrapping or clamping: the
  humidity is the raw value scaled to tenths of a percent below 100, the temperature the raw
  value scaled to tenths of a degree from -50 up to below 150, truncated towards zero.\<close>

theorem sensor_sample_values:
  assumes "dht20_decode bs = Some (t, h)"
    and "sample = rp2w_pico2w_sensor_sample
      \<lparr>rs_dht20_ok = True, rs_temp_c_x100 = t, rs_humidity_x100 = h, rs_light_raw = light\<rparr> seq"
  shows "ps_status sample = PICO2W_SENSOR_STATUS_FRESH
    \<and> unat (ps_humidity_pct_x10 sample) = unat (dht20_raw_humidity bs) * 10000 div 1048576 div 10
    \<and> unat (ps_humidity_pct_x10 sample) < 1000
    \<and> sint (ps_temperature_c_x10 sample)
        = (int (unat (dht20_raw_temperature bs) * 20000 div 1048576) - 5000) sdiv 10
    \<and> - 500 \<le> sint (ps_temperature_c_x10 sample) \<and> sint (ps_temperature_c_x10 sample) < 1500
    \<and> ps_light_raw sample = light \<and> ps_seq sample = seq"
proof -
  note v = dht20_decode_values [OF assms(1)]
  have small: "unat h < 10000" using v by blast
  let ?k = "sint t sdiv 10"
  have k: "- 500 \<le> ?k" "?k < 1500"
    using v by (auto simp: signed_divide_int_def sgn_if)
  then have sk: "sint (word_of_int ?k :: u32) = ?k" by (intro sint_of_int_small) auto
  have temp: "ps_temperature_c_x10 sample = ucast (word_of_int ?k :: u32)"
    using k sk by (simp add: assms(2) rp2w_pico2w_sensor_sample_def clamp_i32_to_i16_def
      sensor_sample_new_def validate_pico2w_sensor_status_def)
  have "sint (ps_temperature_c_x10 sample) = ?k"
    unfolding temp using k by (intro sint_of_int_small16) auto
  moreover have "unat (ps_humidity_pct_x10 sample) = unat h div 10"
  proof -
    from small have "\<not> h div 10 > 65535" by (simp add: word_less_nat_alt unat_div)
    then have "ps_humidity_pct_x10 sample = ucast (h div 10)"
      by (simp add: assms(2) rp2w_pico2w_sensor_sample_def clamp_u32_to_u16_def
        sensor_sample_new_def validate_pico2w_sensor_status_def)
    moreover have "unat h div 10 < 65536" using small by simp
    ultimately show ?thesis by (simp add: unsigned_ucast_eq take_bit_eq_mod unat_div)
  qed
  moreover have "unat h div 10 < 1000" using small by arith
  ultimately show ?thesis
    using v k by (auto simp: assms(2) rp2w_pico2w_sensor_sample_def sensor_sample_new_def
      validate_pico2w_sensor_status_def)
qed

theorem sensor_sample_values_witness:
  "\<exists>sample. sample = rp2w_pico2w_sensor_sample \<lparr>rs_dht20_ok = True, rs_temp_c_x100 = 2500,
      rs_humidity_x100 = 5000, rs_light_raw = 9\<rparr> 3
    \<and> unat (ps_humidity_pct_x10 sample) = 500 \<and> sint (ps_temperature_c_x10 sample) = 250"
proof -
  have raw: "dht20_raw_humidity sample_measurement = 0x80000"
    "dht20_raw_temperature sample_measurement = 0x60000"
    by (simp_all add: sample_measurement_def dht20_raw_humidity_def dht20_raw_temperature_def)
  show ?thesis
    using sensor_sample_values [OF sample_measurement_reading refl, of 9 3]
    by (simp add: raw signed_divide_int_def)
qed

end
