(* ===== verification/Json_Text.thy ===== *)
theory Json_Text
  imports Pico_Prelude
begin

text \<open>
  The string handling of the language model client of
  \<open>examples/uno-q-heterogeneous/src/lib.rs\<close>: JSON strings, the search for a field, and the
  splitting of a command line into arguments. A \<open>char\<close> is its code point and a string the list
  of its characters. The Rust code indexes the UTF-8 bytes in the decoder; every test there is
  for an ASCII byte, which is never part of a longer character, so it reads the same characters.
\<close>

type_synonym rchar = nat
type_synonym rstring = "rchar list"

text \<open>\<open>char::from_u32\<close>, and the values a \<open>char\<close> can have.\<close>

definition is_char :: "nat \<Rightarrow> bool" where
  "is_char v \<longleftrightarrow> v < 0xd800 \<or> 0xe000 \<le> v \<and> v \<le> 0x10ffff"

definition char_from_u32 :: "u32 \<Rightarrow> rchar option" where
  "char_from_u32 v = (if is_char (unat v) then Some (unat v) else None)"

definition chars :: "string \<Rightarrow> rstring" where
  "chars s = map of_char s"

section \<open>JSON strings\<close>

text \<open>One digit of \<open>{:04x}\<close>.\<close>

definition hex_digit :: "nat \<Rightarrow> rchar" where
  "hex_digit n = (if n < 10 then 48 + n else 87 + n)"

definition json_escape :: "rchar \<Rightarrow> rstring" where
  "json_escape ch =
     (if ch = 34 then [92, 34]
      else if ch = 92 then [92, 92]
      else if ch = 10 then [92, 110]
      else if ch = 13 then [92, 114]
      else if ch = 9 then [92, 116]
      else if ch < 32 then [92, 117, hex_digit (ch div 4096), hex_digit (ch div 256 mod 16),
             hex_digit (ch div 16 mod 16), hex_digit (ch mod 16)]
      else [ch])"

definition local_llm_json_string :: "rstring \<Rightarrow> rstring" where
  "local_llm_json_string s = [34] @ concat (map json_escape s) @ [34]"

definition hex_value :: "rchar \<Rightarrow> u32 option" where
  "hex_value c =
     (if 48 \<le> c \<and> c \<le> 57 then Some (of_nat (c - 48))
      else if 97 \<le> c \<and> c \<le> 102 then Some (of_nat (c - 97 + 10))
      else if 65 \<le> c \<and> c \<le> 70 then Some (of_nat (c - 65 + 10))
      else None)"

fun hex_digits_from :: "u32 \<Rightarrow> rstring \<Rightarrow> u32 option" where
  "hex_digits_from v [] = Some v"
| "hex_digits_from v (c # cs) =
     (case hex_value c of None \<Rightarrow> None | Some d \<Rightarrow> hex_digits_from (push_bit 4 v OR d) cs)"

definition local_llm_decode_json_hex4 :: "rstring \<Rightarrow> u32 option" where
  "local_llm_decode_json_hex4 cs = (if length cs \<noteq> 4 then None else hex_digits_from 0 cs)"

text \<open>The escapes with one character.\<close>

definition simple_escape :: "rchar \<Rightarrow> rchar option" where
  "simple_escape c =
     (if c = 34 then Some 34 else if c = 92 then Some 92 else if c = 47 then Some 47
      else if c = 98 then Some 8 else if c = 102 then Some 12 else if c = 110 then Some 10
      else if c = 114 then Some 13 else if c = 116 then Some 9 else None)"

text \<open>The loop, with what is still to be read and what was pushed to \<open>out\<close>.\<close>

function decode_json_from :: "rstring \<Rightarrow> rstring \<Rightarrow> rstring option" where
  "decode_json_from input out =
     (case input of
        [] \<Rightarrow> None
      | c # rest \<Rightarrow>
          if c = 34 then Some out
          else if c = 92 then
            (case rest of
               [] \<Rightarrow> None
             | e # rest \<Rightarrow>
                 if e = 117 then
                   (if length rest < 4 then None
                    else case local_llm_decode_json_hex4 (take 4 rest) of
                      None \<Rightarrow> None
                    | Some v \<Rightarrow> decode_json_from (drop 4 rest)
                        (out @ [case char_from_u32 v of Some ch \<Rightarrow> ch | None \<Rightarrow> 0xfffd]))
                 else case simple_escape e of
                   None \<Rightarrow> None
                 | Some ch \<Rightarrow> decode_json_from rest (out @ [ch]))
          else if c < 32 then None
          else decode_json_from rest (out @ [c]))"
  by pat_completeness auto

termination by (relation "measure (length \<circ> fst)") auto

declare decode_json_from.simps [simp del]

definition local_llm_decode_json_string :: "rstring \<Rightarrow> rstring option" where
  "local_llm_decode_json_string input =
     (case input of c # rest \<Rightarrow> if c = 34 then decode_json_from rest [] else None | [] \<Rightarrow> None)"

text \<open>\<open>str::split_once\<close> on a pattern: the parts before and after its first occurrence.\<close>

fun split_once :: "rstring \<Rightarrow> rstring \<Rightarrow> (rstring \<times> rstring) option" where
  "split_once pat s =
     (if take (length pat) s = pat then Some ([], drop (length pat) s)
      else case s of [] \<Rightarrow> None
        | c # s \<Rightarrow> (case split_once pat s of None \<Rightarrow> None | Some (a, b) \<Rightarrow> Some (c # a, b)))"

declare split_once.simps [simp del]

text \<open>\<open>char::is_whitespace\<close>.\<close>

definition is_whitespace :: "rchar \<Rightarrow> bool" where
  "is_whitespace c \<longleftrightarrow> 9 \<le> c \<and> c \<le> 13 \<or> c = 32 \<or> c = 0x85 \<or> c = 0xa0 \<or> c = 0x1680
     \<or> 0x2000 \<le> c \<and> c \<le> 0x200a \<or> c = 0x2028 \<or> c = 0x2029 \<or> c = 0x202f \<or> c = 0x205f \<or> c = 0x3000"

definition trim_start :: "rstring \<Rightarrow> rstring" where
  "trim_start s = dropWhile is_whitespace s"

definition trim :: "rstring \<Rightarrow> rstring" where
  "trim s = rev (dropWhile is_whitespace (rev (trim_start s)))"

definition local_llm_json_string_field :: "rstring \<Rightarrow> rstring \<Rightarrow> rstring option" where
  "local_llm_json_string_field input field =
     (case split_once ([34] @ field @ [34]) input of
        None \<Rightarrow> None
      | Some (a, rest) \<Rightarrow>
          (case split_once [58] rest of
             None \<Rightarrow> None
           | Some (b, rest) \<Rightarrow> local_llm_decode_json_string (trim_start rest)))"

section \<open>Command line arguments\<close>

record arg_state =
  as_args :: "rstring list"
  as_current :: rstring
  as_quote :: "rchar option"
  as_escaped :: bool

definition split_args_step :: "arg_state \<Rightarrow> rchar \<Rightarrow> arg_state" where
  "split_args_step s ch =
     (if as_escaped s then s\<lparr>as_current := as_current s @ [ch], as_escaped := False\<rparr>
      else if ch = 92 then s\<lparr>as_escaped := True\<rparr>
      else case as_quote s of
        Some active \<Rightarrow>
          if ch = active then s\<lparr>as_quote := None\<rparr> else s\<lparr>as_current := as_current s @ [ch]\<rparr>
      | None \<Rightarrow>
          if ch = 39 \<or> ch = 34 then s\<lparr>as_quote := Some ch\<rparr>
          else if is_whitespace ch then
            (if as_current s \<noteq> [] then s\<lparr>as_args := as_args s @ [as_current s], as_current := []\<rparr> else s)
          else s\<lparr>as_current := as_current s @ [ch]\<rparr>)"

definition split_local_llm_args :: "rstring \<Rightarrow> rstring list" where
  "split_local_llm_args input =
     (let s = foldl split_args_step
            \<lparr>as_args = [], as_current = [], as_quote = None, as_escaped = False\<rparr> input;
          s = (if as_escaped s then s\<lparr>as_current := as_current s @ [92]\<rparr> else s)
      in if as_current s \<noteq> [] then as_args s @ [as_current s] else as_args s)"

section \<open>Decoding what was encoded\<close>

lemma hex_value_digit: "n < 16 \<Longrightarrow> hex_value (hex_digit n) = Some (of_nat n)"
  by (auto simp: hex_value_def hex_digit_def)

lemma decode_hex_control:
  assumes "ch < 32"
  shows "local_llm_decode_json_hex4 [hex_digit (ch div 4096), hex_digit (ch div 256 mod 16),
     hex_digit (ch div 16 mod 16), hex_digit (ch mod 16)] = Some (of_nat ch)"
proof -
  have "ch div 4096 = 0" "ch div 256 = 0" "ch div 16 = 0 \<or> ch div 16 = 1" using assms by auto
  moreover have "push_bit 4 (of_nat (ch div 16)) OR of_nat (ch mod 16) = (of_nat ch :: u32)"
  proof (rule word_unat_eq_iff [THEN iffD2])
    have "unat (push_bit 4 (of_nat (ch div 16)) OR of_nat (ch mod 16) :: u32)
        = push_bit 4 (ch div 16) OR ch mod 16"
      using assms by (simp add: unsigned_or_eq unat_of_nat push_bit_eq_mult unat_word_ariths)
    also have "\<dots> = push_bit 4 (drop_bit 4 ch) OR take_bit 4 ch"
      by (simp add: drop_bit_eq_div take_bit_eq_mod)
    also have "\<dots> = ch" by (rule bit_eqI) (auto simp: bit_simps)
    finally show "unat (push_bit 4 (of_nat (ch div 16)) OR of_nat (ch mod 16) :: u32) = unat (of_nat ch :: u32)"
      using assms by (simp add: unat_of_nat)
  qed
  ultimately show ?thesis
    by (auto simp: local_llm_decode_json_hex4_def hex_value_digit)
qed

lemma decode_escape:
  assumes "is_char ch"
  shows "decode_json_from (json_escape ch @ rest) out = decode_json_from rest (out @ [ch])"
proof (cases "ch < 32 \<and> ch \<noteq> 10 \<and> ch \<noteq> 13 \<and> ch \<noteq> 9")
  case True
  then have e: "json_escape ch = [92, 117, hex_digit (ch div 4096), hex_digit (ch div 256 mod 16),
      hex_digit (ch div 16 mod 16), hex_digit (ch mod 16)]"
    by (simp add: json_escape_def)
  have "char_from_u32 (of_nat ch) = Some ch"
    using True by (simp add: char_from_u32_def is_char_def unat_of_nat)
  with decode_hex_control [of ch] True show ?thesis
    by (simp add: e decode_json_from.simps [of "92 # _"])
next
  case False
  then show ?thesis
    by (auto simp: json_escape_def decode_json_from.simps [of "_ # _"] simple_escape_def)
qed

lemma decode_escapes:
  "\<forall>ch \<in> set s. is_char ch \<Longrightarrow>
     decode_json_from (concat (map json_escape s) @ rest) out = decode_json_from rest (out @ s)"
  by (induction s arbitrary: out) (simp_all add: decode_escape)

lemma decode_encoded:
  "\<forall>ch \<in> set s. is_char ch \<Longrightarrow> local_llm_decode_json_string (local_llm_json_string s @ rest) = Some s"
  by (simp add: local_llm_decode_json_string_def local_llm_json_string_def decode_escapes)
     (simp add: decode_json_from.simps [of "34 # _"])

text \<open>Nothing between the quotes ends the string or is a control character.\<close>

lemma json_escape_clean: "c \<in> set (json_escape ch) \<Longrightarrow> 32 \<le> c"
  by (auto simp: json_escape_def hex_digit_def split: if_splits)

section \<open>Splitting what was quoted\<close>

text \<open>An argument in double quotes, with a backslash before a quote and before a backslash; a
  command line is such arguments, each followed by a blank.\<close>

definition quote_char :: "rchar \<Rightarrow> rstring" where
  "quote_char c = (if c = 34 \<or> c = 92 then [92, c] else [c])"

definition quote_arg :: "rstring \<Rightarrow> rstring" where
  "quote_arg a = [34] @ concat (map quote_char a) @ [34]"

definition command_line :: "rstring list \<Rightarrow> rstring" where
  "command_line as = concat (map (\<lambda>a. quote_arg a @ [32]) as)"

lemma split_quoted_char:
  "foldl split_args_step \<lparr>as_args = as, as_current = c, as_quote = Some 34, as_escaped = False\<rparr> (quote_char ch)
     = \<lparr>as_args = as, as_current = c @ [ch], as_quote = Some 34, as_escaped = False\<rparr>"
  by (simp add: quote_char_def split_args_step_def)

lemma split_quoted_chars:
  "foldl split_args_step \<lparr>as_args = as, as_current = c, as_quote = Some 34, as_escaped = False\<rparr>
       (concat (map quote_char a))
     = \<lparr>as_args = as, as_current = c @ a, as_quote = Some 34, as_escaped = False\<rparr>"
  by (induction a arbitrary: c) (simp_all add: split_quoted_char)

lemma split_quoted_arg:
  "foldl split_args_step \<lparr>as_args = as, as_current = [], as_quote = None, as_escaped = False\<rparr>
       (quote_arg a @ [32])
     = \<lparr>as_args = (if a = [] then as else as @ [a]), as_current = [], as_quote = None, as_escaped = False\<rparr>"
proof -
  have o: "split_args_step \<lparr>as_args = as, as_current = [], as_quote = None, as_escaped = False\<rparr> 34
      = \<lparr>as_args = as, as_current = [], as_quote = Some 34, as_escaped = False\<rparr>"
    by (simp add: split_args_step_def)
  have "split_args_step (split_args_step
        \<lparr>as_args = as, as_current = a, as_quote = Some 34, as_escaped = False\<rparr> 34) 32
      = \<lparr>as_args = (if a = [] then as else as @ [a]), as_current = [], as_quote = None, as_escaped = False\<rparr>"
    by (simp add: split_args_step_def is_whitespace_def)
  then show ?thesis by (simp add: quote_arg_def o split_quoted_chars)
qed

lemma split_command_line:
  "foldl split_args_step \<lparr>as_args = as, as_current = [], as_quote = None, as_escaped = False\<rparr>
       (command_line args)
     = \<lparr>as_args = as @ filter (\<lambda>a. a \<noteq> []) args, as_current = [], as_quote = None, as_escaped = False\<rparr>"
proof (induction args arbitrary: as)
  case Nil
  show ?case by (simp add: command_line_def)
next
  case (Cons a args)
  have "command_line (a # args) = (quote_arg a @ [32]) @ command_line args" by (simp add: command_line_def)
  then have "foldl split_args_step \<lparr>as_args = as, as_current = [], as_quote = None, as_escaped = False\<rparr>
      (command_line (a # args)) = foldl split_args_step \<lparr>as_args = (if a = [] then as else as @ [a]),
        as_current = [], as_quote = None, as_escaped = False\<rparr> (command_line args)"
    by (simp only: foldl_append [of _ _ "quote_arg a @ [32]"] split_quoted_arg)
  then show ?case by (simp add: Cons.IH)
qed

section \<open>Properties\<close>

text \<open>A string the client writes into a request is read back by its own decoder, whatever
  follows the closing quote; and what it writes holds no control character, so a server that
  follows the JSON grammar accepts it.\<close>

theorem json_string_roundtrip:
  assumes "\<forall>ch \<in> set s. is_char ch"
  shows "local_llm_decode_json_string (local_llm_json_string s @ rest) = Some s
    \<and> filter (\<lambda>c. c < 32) (local_llm_json_string s) = []"
proof
  show "local_llm_decode_json_string (local_llm_json_string s @ rest) = Some s"
    using assms by (rule decode_encoded)
  show "filter (\<lambda>c. c < 32) (local_llm_json_string s) = []"
    using json_escape_clean by (fastforce simp: local_llm_json_string_def filter_empty_conv)
qed

theorem json_string_roundtrip_witness:
  "local_llm_decode_json_string (local_llm_json_string [108, 34, 10, 1, 0x1f600] @ [44]) = Some [108, 34, 10, 1, 0x1f600]
    \<and> filter (\<lambda>c. c < 32) (local_llm_json_string [108, 34, 10, 1, 0x1f600]) = []"
  by (rule json_string_roundtrip) (simp add: is_char_def)

text \<open>A character outside the basic plane that a server writes as two \<open>\u\<close> escapes, which is
  the only escape JSON has for it, is not read back: each half becomes U+FFFD. Here it is the
  rest of the string that is still read as it stands.\<close>

theorem json_surrogates_replaced:
  "decode_json_from ([92, 117] @ map of_char ''d83d'' @ [92, 117] @ map of_char ''de00'' @ rest) out
     = decode_json_from rest (out @ [0xfffd, 0xfffd])"
proof -
  have h: "local_llm_decode_json_hex4 [100, 56, 51, 100] = Some 0xd83d"
    "local_llm_decode_json_hex4 [100, 101, 48, 48] = Some 0xde00"
    by (simp_all add: local_llm_decode_json_hex4_def hex_value_def push_bit_eq_mult)
  have "char_from_u32 0xd83d = None" "char_from_u32 0xde00 = None"
    by (simp_all add: char_from_u32_def is_char_def)
  with h show ?thesis by (simp add: decode_json_from.simps [of "92 # _"])
qed

text \<open>The arguments of a quoted command line come out of the splitter as they went in and in
  their order, blanks, quotes and backslashes inside them included; only an argument that is
  empty is lost, quoted or not.\<close>

theorem split_args_roundtrip:
  "split_local_llm_args (command_line args) = filter (\<lambda>a. a \<noteq> []) args"
  by (simp add: split_local_llm_args_def split_command_line)

end
