(* ===== verification/Utf8_Text.thy ===== *)
theory Utf8_Text
  imports Json_Text Wire_Protocol
begin

text \<open>
  What the language model client uses of the standard library's strings: the bytes of a string,
  reading bytes as a string with \<open>str::from_utf8\<close> and \<open>String::from_utf8_lossy\<close>, the search for
  a substring, and the lines of a text. The checks on the bytes are those of Wire_Protocol.
\<close>

section \<open>Encoding\<close>

definition utf8_char :: "rchar \<Rightarrow> bytes" where
  "utf8_char c =
     (if c < 0x80 then [of_nat c]
      else if c < 0x800 then [of_nat (0xC0 + c div 64), of_nat (0x80 + c mod 64)]
      else if c < 0x10000 then
        [of_nat (0xE0 + c div 4096), of_nat (0x80 + c div 64 mod 64), of_nat (0x80 + c mod 64)]
      else [of_nat (0xF0 + c div 262144), of_nat (0x80 + c div 4096 mod 64),
            of_nat (0x80 + c div 64 mod 64), of_nat (0x80 + c mod 64)])"

definition as_bytes :: "rstring \<Rightarrow> bytes" where
  "as_bytes s = concat (map utf8_char s)"

section \<open>Decoding\<close>

definition low6 :: "u8 \<Rightarrow> nat" where
  "low6 b = unat b - 0x80"

text \<open>The first character of the bytes, or \<open>None\<close> and what is left after the longest prefix that
  could still have begun a character (at least one byte).\<close>

definition utf8_next :: "u8 \<Rightarrow> bytes \<Rightarrow> rchar option \<times> bytes" where
  "utf8_next a bs =
     (if utf8_width a = 1 then (Some (unat a), bs)
      else if utf8_width a = 2 then
        (case bs of
           b # r \<Rightarrow> if utf8_second a b then (Some ((unat a - 0xC0) * 64 + low6 b), r) else (None, bs)
         | [] \<Rightarrow> (None, bs))
      else if utf8_width a = 3 then
        (case bs of
           b # r \<Rightarrow>
             if \<not> utf8_second a b then (None, bs)
             else (case r of
                 c # r' \<Rightarrow> if utf8_cont c
                   then (Some ((unat a - 0xE0) * 4096 + low6 b * 64 + low6 c), r') else (None, r)
               | [] \<Rightarrow> (None, r))
         | [] \<Rightarrow> (None, bs))
      else if utf8_width a = 4 then
        (case bs of
           b # r \<Rightarrow>
             if \<not> utf8_second a b then (None, bs)
             else (case r of
                 c # r' \<Rightarrow>
                   if \<not> utf8_cont c then (None, r)
                   else (case r' of
                       d # r'' \<Rightarrow> if utf8_cont d
                         then (Some ((unat a - 0xF0) * 262144 + low6 b * 4096 + low6 c * 64 + low6 d), r'')
                         else (None, r')
                     | [] \<Rightarrow> (None, r'))
               | [] \<Rightarrow> (None, r))
         | [] \<Rightarrow> (None, bs))
      else (None, bs))"

lemma utf8_next_shorter: "length (snd (utf8_next a bs)) \<le> length bs"
  unfolding utf8_next_def by (auto split: list.splits)

function utf8_chars :: "bytes \<Rightarrow> rchar option list" where
  "utf8_chars [] = []"
| "utf8_chars (a # bs) = (case utf8_next a bs of (c, rest) \<Rightarrow> c # utf8_chars rest)"
  by pat_completeness auto

termination
proof (relation "measure length", simp)
  fix a bs c rest
  assume "(c, rest) = utf8_next a bs"
  then have "length rest \<le> length bs" using utf8_next_shorter [of a bs] by (metis snd_conv)
  then show "(rest, a # bs) \<in> measure length" by simp
qed

definition from_utf8 :: "bytes \<Rightarrow> rstring option" where
  "from_utf8 bs = (let cs = utf8_chars bs in if None \<in> List.set cs then None else Some (map the cs))"

definition from_utf8_lossy :: "bytes \<Rightarrow> rstring" where
  "from_utf8_lossy bs = map (\<lambda>c. case c of Some ch \<Rightarrow> ch | None \<Rightarrow> 0xfffd) (utf8_chars bs)"

section \<open>Substrings and lines\<close>

text \<open>\<open>str::contains\<close>, and \<open>str::lines\<close>: a line ends at a newline, which is not part of it, nor is
  a carriage return right before it; nothing after the last newline is no line.\<close>

definition contains :: "rstring \<Rightarrow> rstring \<Rightarrow> bool" where
  "contains pat s = (split_once pat s \<noteq> None)"

definition strip_cr :: "rstring \<Rightarrow> rstring" where
  "strip_cr l = (if l \<noteq> [] \<and> last l = 13 then butlast l else l)"

function text_lines :: "rstring \<Rightarrow> rstring list" where
  "text_lines s =
     (if s = [] then []
      else if 10 \<in> List.set s then
        strip_cr (takeWhile (\<lambda>c. c \<noteq> 10) s) # text_lines (tl (dropWhile (\<lambda>c. c \<noteq> 10) s))
      else [s])"
  by pat_completeness auto

termination
proof (relation "measure length", simp)
  fix s :: rstring
  assume "s \<noteq> []"
  then have "length (tl (dropWhile (\<lambda>c. c \<noteq> 10) s)) < length s"
    using length_dropWhile_le [of "\<lambda>c. c \<noteq> 10" s] by (cases s) (auto intro: le_less_trans)
  then show "(tl (dropWhile (\<lambda>c. c \<noteq> 10) s), s) \<in> measure length" by simp
qed

declare text_lines.simps [simp del]

section \<open>Decoding what was encoded\<close>

lemma utf8_width_lead:
  "n < 256 \<Longrightarrow> utf8_width (of_nat n) = (if n \<le> 0x7F then 1 else if 0xC2 \<le> n \<and> n \<le> 0xDF then 2
     else if 0xE0 \<le> n \<and> n \<le> 0xEF then 3 else if 0xF0 \<le> n \<and> n \<le> 0xF4 then 4 else 0)"
  by (simp add: utf8_width_def word_le_nat_alt unat_of_nat_u8)

lemma utf8_cont_tail: "n < 64 \<Longrightarrow> utf8_cont (of_nat (0x80 + n))"
  by (simp add: utf8_cont_def word_le_nat_alt unat_of_nat_u8 del: of_nat_add)

lemma low6_tail: "n < 64 \<Longrightarrow> low6 (of_nat (0x80 + n)) = n"
  by (simp add: low6_def unat_of_nat_u8 del: of_nat_add)

lemma utf8_second_iff:
  assumes "m < 256" "n < 256"
  shows "utf8_second (of_nat m) (of_nat n) \<longleftrightarrow>
    (if m = 0xE0 then 0xA0 \<le> n \<and> n \<le> 0xBF else if m = 0xED then 0x80 \<le> n \<and> n \<le> 0x9F
     else if m = 0xF0 then 0x90 \<le> n \<and> n \<le> 0xBF else if m = 0xF4 then 0x80 \<le> n \<and> n \<le> 0x8F
     else 0x80 \<le> n \<and> n \<le> 0xBF)"
  unfolding utf8_second.simps utf8_cont_def
  by (simp add: word_le_nat_alt word_unat_eq_iff unat_of_nat_u8 assms)

lemma utf8_second_tail:
  assumes "m < 256" "n < 64"
    "m = 0xE0 \<longrightarrow> 32 \<le> n" "m = 0xED \<longrightarrow> n < 32" "m = 0xF0 \<longrightarrow> 16 \<le> n" "m = 0xF4 \<longrightarrow> n < 16"
  shows "utf8_second (of_nat m) (of_nat (0x80 + n))"
  using assms by (subst utf8_second_iff) auto

text \<open>The digits of a character in base 64 and its range.\<close>

lemma digits3: "c div 4096 * 4096 + c div 64 mod 64 * 64 + c mod 64 = (c :: nat)"
proof -
  have "c div 4096 = c div 64 div 64" by (simp add: div_mult2_eq [symmetric])
  then have "c div 4096 * 64 + c div 64 mod 64 = c div 64" by simp
  moreover have "c div 64 * 64 + c mod 64 = c" by simp
  ultimately show ?thesis by linarith
qed

lemma digits4: "c div 262144 * 262144 + c div 4096 mod 64 * 4096 + c div 64 mod 64 * 64 + c mod 64 = (c :: nat)"
proof -
  have "c div 262144 = c div 4096 div 64" by (simp add: div_mult2_eq [symmetric])
  then have "c div 262144 * 64 + c div 4096 mod 64 = c div 4096" by simp
  then show ?thesis using digits3 [of c] by linarith
qed

lemma split3:
  assumes "x * 4096 + y * 64 + z = (c :: nat)" "y < 64" "z < 64"
  shows "0x800 \<le> c \<Longrightarrow> x = 0 \<longrightarrow> 32 \<le> y"
    and "c < 0xd800 \<or> 0xe000 \<le> c \<Longrightarrow> x = 13 \<longrightarrow> y < 32"
  using assms by auto

lemma split4:
  assumes "w * 262144 + x * 4096 + y * 64 + z = (c :: nat)" "x < 64" "y < 64" "z < 64"
  shows "0x10000 \<le> c \<Longrightarrow> w = 0 \<longrightarrow> 16 \<le> x"
    and "c < 0x110000 \<Longrightarrow> w = 4 \<longrightarrow> x < 16"
  using assms by auto

lemma utf8_next_char:
  assumes "is_char c"
  obtains a as where "utf8_char c = a # as" "utf8_next a (as @ rest) = (Some c, rest)"
proof -
  consider "c < 0x80" | "0x80 \<le> c" "c < 0x800" | "0x800 \<le> c" "c < 0x10000" | "0x10000 \<le> c" "c < 0x110000"
    using assms by (fastforce simp: is_char_def)
  then show thesis
  proof cases
    case 1
    then show thesis
      by (intro that [of "of_nat c" "[]"]) (simp_all add: utf8_char_def utf8_next_def utf8_width_lead unat_of_nat_u8)
  next
    case 2
    then have d: "2 \<le> c div 64" "c div 64 < 32" by auto
    then have "utf8_second (of_nat (0xC0 + c div 64)) (of_nat (0x80 + c mod 64))"
      by (intro utf8_second_tail) simp_all
    moreover have "utf8_width (of_nat (0xC0 + c div 64)) = 2" "unat (of_nat (0xC0 + c div 64) :: u8) = 0xC0 + c div 64"
      using d by (simp_all add: utf8_width_lead unat_of_nat_u8 del: of_nat_add)
    ultimately show thesis
      using 2 by (intro that [of "of_nat (0xC0 + c div 64)" "[of_nat (0x80 + c mod 64)]"])
        (simp_all add: utf8_char_def utf8_next_def low6_tail del: of_nat_add utf8_second.simps)
  next
    case 3
    then have d: "c div 4096 < 16" "c div 64 mod 64 < 64" "c mod 64 < 64" by auto
    have e: "c div 4096 * 4096 + c div 64 mod 64 * 64 + c mod 64 = c" by (rule digits3)
    have "c div 4096 = 0 \<longrightarrow> 32 \<le> c div 64 mod 64" "c div 4096 = 13 \<longrightarrow> c div 64 mod 64 < 32"
      using split3(1) [OF e d(2,3) 3(1)] split3(2) [OF e d(2,3)] assms
      by (blast, unfold is_char_def) (use split3(2) [OF e d(2,3)] in linarith)
    then have "utf8_second (of_nat (0xE0 + c div 4096)) (of_nat (0x80 + c div 64 mod 64))"
      using d by (intro utf8_second_tail) simp_all
    moreover have "utf8_width (of_nat (0xE0 + c div 4096)) = 3" "unat (of_nat (0xE0 + c div 4096) :: u8) = 0xE0 + c div 4096"
      using d by (simp_all add: utf8_width_lead unat_of_nat_u8 del: of_nat_add)
    ultimately show thesis
      using 3 d e by (intro that [of "of_nat (0xE0 + c div 4096)"
          "[of_nat (0x80 + c div 64 mod 64), of_nat (0x80 + c mod 64)]"])
        (simp_all add: utf8_char_def utf8_next_def low6_tail utf8_cont_tail del: of_nat_add utf8_second.simps)
  next
    case 4
    then have d: "c div 262144 < 5" "c div 4096 mod 64 < 64" "c div 64 mod 64 < 64" "c mod 64 < 64" by auto
    have e: "c div 262144 * 262144 + c div 4096 mod 64 * 4096 + c div 64 mod 64 * 64 + c mod 64 = c"
      by (rule digits4)
    have "c div 262144 = 0 \<longrightarrow> 16 \<le> c div 4096 mod 64" "c div 262144 = 4 \<longrightarrow> c div 4096 mod 64 < 16"
      using split4(1) [OF e d(2,3,4) 4(1)] split4(2) [OF e d(2,3,4) 4(2)] by blast+
    then have "utf8_second (of_nat (0xF0 + c div 262144)) (of_nat (0x80 + c div 4096 mod 64))"
      using d by (intro utf8_second_tail) simp_all
    moreover have "utf8_width (of_nat (0xF0 + c div 262144)) = 4" "unat (of_nat (0xF0 + c div 262144) :: u8) = 0xF0 + c div 262144"
      using d by (simp_all add: utf8_width_lead unat_of_nat_u8 del: of_nat_add)
    ultimately show thesis
      using 4 d e by (intro that [of "of_nat (0xF0 + c div 262144)"
          "[of_nat (0x80 + c div 4096 mod 64), of_nat (0x80 + c div 64 mod 64), of_nat (0x80 + c mod 64)]"])
        (simp_all add: utf8_char_def utf8_next_def low6_tail utf8_cont_tail del: of_nat_add utf8_second.simps)
  qed
qed

lemma utf8_chars_as_bytes: "\<forall>c \<in> List.set s. is_char c \<Longrightarrow> utf8_chars (as_bytes s) = map Some s"
proof (induction s)
  case Nil
  show ?case by (simp add: as_bytes_def)
next
  case (Cons c s)
  then have "is_char c" by simp
  then obtain a as where "utf8_char c = a # as" "utf8_next a (as @ as_bytes s) = (Some c, as_bytes s)"
    by (rule utf8_next_char)
  with Cons show ?case by (simp add: as_bytes_def)
qed

lemma from_utf8_as_bytes: "\<forall>c \<in> List.set s. is_char c \<Longrightarrow> from_utf8 (as_bytes s) = Some s"
  by (simp add: from_utf8_def utf8_chars_as_bytes comp_def image_iff)

text \<open>Decoding succeeds on exactly the bytes the protocol's check accepts.\<close>

lemma utf8_chars_valid: "None \<notin> List.set (utf8_chars bs) \<longleftrightarrow> utf8_valid bs"
proof (induction bs rule: utf8_chars.induct)
  case 1
  show ?case by simp
next
  case (2 a bs)
  obtain c rest where n: "utf8_next a bs = (c, rest)" by (cases "utf8_next a bs")
  then have IH: "None \<notin> List.set (utf8_chars rest) \<longleftrightarrow> utf8_valid rest" by (intro 2) simp
  have "utf8_valid (a # bs) \<longleftrightarrow> fst (utf8_next a bs) \<noteq> None \<and> utf8_valid (snd (utf8_next a bs))"
  proof -
    consider "utf8_width a = 1" | "utf8_width a = 2" | "utf8_width a = 3" | "utf8_width a = 4"
      | "utf8_width a \<notin> {1, 2, 3, 4}" by auto
    then show ?thesis
    proof cases
      case 4
      then show ?thesis
        by (cases bs; cases "tl bs"; cases "tl (tl bs)") (simp_all add: utf8_next_def del: utf8_second.simps)
    next
      case 3
      then show ?thesis by (cases bs; cases "tl bs") (simp_all add: utf8_next_def del: utf8_second.simps)
    next
      case 2
      then show ?thesis by (cases bs) (simp_all add: utf8_next_def del: utf8_second.simps)
    qed (simp_all add: utf8_next_def)
  qed
  then have "utf8_valid (a # bs) \<longleftrightarrow> c \<noteq> None \<and> utf8_valid rest" by (simp only: n fst_conv snd_conv)
  with n IH show ?case by auto
qed

lemma from_utf8_valid: "from_utf8 bs \<noteq> None \<longleftrightarrow> utf8_valid bs"
  using utf8_chars_valid [of bs] by (auto simp: from_utf8_def Let_def)

section \<open>ASCII at the end\<close>

text \<open>A byte below \<open>0x80\<close> never continues a character, so what is read before it does not depend
  on what follows.\<close>

lemma utf8_ascii: "b < 0x80 \<Longrightarrow> \<not> utf8_cont b \<and> \<not> utf8_second a b"
  by (auto simp: utf8_cont_def word_le_nat_alt word_less_nat_alt)

lemma utf8_next_append:
  assumes "\<forall>b \<in> List.set as. b < 0x80"
  shows "utf8_next x (bs @ as) = (fst (utf8_next x bs), snd (utf8_next x bs) @ as)"
proof (cases as)
  case Nil
  then show ?thesis by simp
next
  case (Cons y ys)
  then have y: "\<not> utf8_cont y" "\<not> utf8_second x y" using assms utf8_ascii [of y x] by auto
  show ?thesis
    unfolding Cons utf8_next_def
    by (cases bs; cases "tl bs"; cases "tl (tl bs)") (simp_all add: y del: utf8_second.simps)
qed

lemma utf8_chars_ascii: "\<forall>b \<in> List.set as. b < 0x80 \<Longrightarrow> utf8_chars as = map (\<lambda>b. Some (unat b)) as"
proof (induction as)
  case Nil
  show ?case by simp
next
  case (Cons b as)
  then have "utf8_width b = 1" by (simp add: utf8_width_def word_le_nat_alt word_less_nat_alt)
  then have "utf8_next b as = (Some (unat b), as)" by (simp add: utf8_next_def)
  with Cons show ?case by simp
qed

lemma utf8_chars_append:
  "\<forall>b \<in> List.set as. b < 0x80 \<Longrightarrow> utf8_chars (bs @ as) = utf8_chars bs @ map (\<lambda>b. Some (unat b)) as"
proof (induction bs rule: utf8_chars.induct)
  case 1
  then show ?case by (simp add: utf8_chars_ascii)
next
  case (2 a bs)
  obtain c rest where n: "utf8_next a bs = (c, rest)" by (cases "utf8_next a bs")
  from 2 n show ?case by (simp add: utf8_next_append)
qed

lemma from_utf8_lossy_append:
  "\<forall>b \<in> List.set as. b < 0x80 \<Longrightarrow> from_utf8_lossy (bs @ as) = from_utf8_lossy bs @ map unat as"
  by (simp add: from_utf8_lossy_def utf8_chars_append comp_def)

section \<open>Searching and trimming\<close>

lemma contains_between: "contains pat (a @ pat @ b)"
proof (induction a)
  case Nil
  show ?case by (simp add: contains_def split_once.simps [of pat "pat @ b"])
next
  case (Cons c a)
  then show ?case
    by (auto simp: contains_def split_once.simps [of pat "c # a @ pat @ b"] split: option.splits)
qed

lemma trim_between:
  assumes "\<not> is_whitespace x" "\<not> is_whitespace y"
  shows "trim (a @ x # b @ [y] @ ws) = dropWhile is_whitespace a @ x # b @ [y] @ rev (dropWhile is_whitespace (rev ws))"
proof -
  have "dropWhile is_whitespace (a @ x # r) = dropWhile is_whitespace a @ x # r" for r
    using assms(1) by (induction a) auto
  then have s: "trim_start (a @ x # b @ [y] @ ws) = (dropWhile is_whitespace a @ x # b) @ [y] @ ws"
    by (simp add: trim_start_def)
  have "dropWhile is_whitespace (r @ y # z) = dropWhile is_whitespace r @ y # z" for r z
    using assms(2) by (induction r) auto
  then show ?thesis unfolding trim_def s by simp
qed

end
