(* ===== verification/Shell_Command.thy ===== *)
theory Shell_Command
  imports Utf8_Text
begin

text \<open>
  The commands of the shell terminal (\<open>examples/uno-q-heterogeneous/src/lib.rs\<close>): how one is
  recognised and admitted for a phase, how one is written to the 96-byte command buffer, the
  commands of the scripted client, and the first line of a model's answer as a command.
  A function that fills the buffer returns the buffer and the length it wrote.
\<close>

datatype unoq_error = EndpointError | ProtocolError codec_error | LocalProtocol protocol_error | RuntimeViolation

definition LOCAL_LLM_TRANSCRIPT_BYTES :: nat where [simp]: "LOCAL_LLM_TRANSCRIPT_BYTES = 768"
definition LOCAL_LLM_COMMAND_BYTES :: nat where [simp]: "LOCAL_LLM_COMMAND_BYTES = 96"
definition PICO2W_LIGHT_WEAK_RAW :: u16 where [simp]: "PICO2W_LIGHT_WEAK_RAW = 400"
definition PICO2W_LIGHT_STRONG_RAW :: u16 where [simp]: "PICO2W_LIGHT_STRONG_RAW = 3000"
definition UNO_Q_FACE_EMOTION_HOLD_US :: u64 where "UNO_Q_FACE_EMOTION_HOLD_US = 500000"
definition UNO_Q_FACE_MOUTH_HOLD_US :: u64 where "UNO_Q_FACE_MOUTH_HOLD_US = 250000"

definition UNO_Q_FACE_EMOTION_FRAMES :: "u8 list" where
  "UNO_Q_FACE_EMOTION_FRAMES =
     [FACE_HAPPY, FACE_ANGRY, FACE_SAD, FACE_SURPRISED, FACE_HAPPY, FACE_ANGRY, FACE_SAD,
      FACE_SURPRISED, FACE_HAPPY, FACE_ANGRY, FACE_SAD, FACE_SURPRISED]"

definition UNO_Q_FACE_MOUTH_FRAMES :: "u8 list" where
  "UNO_Q_FACE_MOUTH_FRAMES =
     [FACE_MOUTH_CLOSED, FACE_MOUTH_SMALL, FACE_MOUTH_WIDE, FACE_MOUTH_ROUND,
      FACE_MOUTH_CLOSED, FACE_MOUTH_SMALL, FACE_MOUTH_WIDE, FACE_MOUTH_ROUND]"

definition UNO_Q_FACE_CYCLE_FRAME_COUNT :: nat where
  "UNO_Q_FACE_CYCLE_FRAME_COUNT = length UNO_Q_FACE_EMOTION_FRAMES + length UNO_Q_FACE_MOUTH_FRAMES"

section \<open>Recognising a command\<close>

datatype terminal_command = Catalog | Face | Other

text \<open>\<open>u8::is_ascii_whitespace\<close>.\<close>

definition is_ascii_whitespace :: "u8 \<Rightarrow> bool" where
  "is_ascii_whitespace b \<longleftrightarrow> b = 32 \<or> b = 9 \<or> b = 10 \<or> b = 12 \<or> b = 13"

text \<open>The two loops over the indices of the command.\<close>

function trim_start_index :: "bytes \<Rightarrow> nat \<Rightarrow> nat \<Rightarrow> nat" where
  "trim_start_index command start stop =
     (if start < stop \<and> is_ascii_whitespace (command ! start)
      then trim_start_index command (start + 1) stop else start)"
  by pat_completeness auto

termination by (relation "measure (\<lambda>(command, start, stop). stop - start)") auto

fun trim_stop_index :: "bytes \<Rightarrow> nat \<Rightarrow> nat \<Rightarrow> nat" where
  "trim_stop_index command start stop =
     (if stop > start \<and> is_ascii_whitespace (command ! (stop - 1))
      then trim_stop_index command start (stop - 1) else stop)"

declare trim_start_index.simps [simp del] trim_stop_index.simps [simp del]

definition trim_terminal_command :: "bytes \<Rightarrow> bytes" where
  "trim_terminal_command command =
     (let start = trim_start_index command 0 (length command);
          stop = trim_stop_index command start (length command)
      in drop start (take stop command))"

definition face_labels :: "bytes list" where
  "face_labels = map ascii [''h'', ''s'', ''a'', ''u'', ''v'', ''mc'', ''ms'', ''mw'', ''mr'']"

definition decode_local_face_echo_command :: "bytes \<Rightarrow> bool" where
  "decode_local_face_echo_command command =
     (let prefix = ascii ''echo ''; redirect = ascii '' > /face/frame'' in
      if length command \<le> length prefix + length redirect
        \<or> take (length prefix) command \<noteq> prefix
        \<or> drop (length command - length redirect) command \<noteq> redirect
      then False
      else drop (length prefix) (take (length command - length redirect) command) \<in> List.set face_labels)"

definition classify_local_llm_terminal_command :: "bytes \<Rightarrow> terminal_command" where
  "classify_local_llm_terminal_command command =
     (let command = trim_terminal_command command in
      if command = ascii ''ls'' then Catalog
      else if decode_local_face_echo_command command then Face
      else Other)"

definition local_llm_terminal_command_admitted_for_phase :: "u8 \<Rightarrow> bytes \<Rightarrow> bool" where
  "local_llm_terminal_command_admitted_for_phase phase command =
     (case classify_local_llm_terminal_command command of
        Face \<Rightarrow> phase \<noteq> 0
      | Catalog \<Rightarrow> phase = 0
      | Other \<Rightarrow> phase = 0)"

section \<open>Writing a command\<close>

definition copy_command_bytes :: "bytes \<Rightarrow> bytes \<Rightarrow> unoq_error + (bytes \<times> nat)" where
  "copy_command_bytes bs out =
     (if bs = [] \<or> length bs > length out then Inl RuntimeViolation
      else Inr (blit 0 bs out, length bs))"

definition copy_command_str_line :: "rstring \<Rightarrow> bytes \<Rightarrow> unoq_error + (bytes \<times> nat)" where
  "copy_command_str_line command out =
     (let bs = as_bytes command in
      if bs = [] \<or> length bs + 1 > length out then Inl RuntimeViolation
      else Inr ((blit 0 bs out)[length bs := 10], length bs + 1))"

fun copy_parts :: "bytes list \<Rightarrow> bytes \<Rightarrow> nat \<Rightarrow> unoq_error + (bytes \<times> nat)" where
  "copy_parts [] out len = Inr (out, len)"
| "copy_parts (bs # parts) out len =
     (if len + length bs > length out then Inl RuntimeViolation
      else copy_parts parts (blit len bs out) (len + length bs))"

definition copy_face_echo_command :: "bytes \<Rightarrow> bytes \<Rightarrow> unoq_error + (bytes \<times> nat)" where
  "copy_face_echo_command label out =
     copy_parts [ascii ''echo '', label, ascii '' > /face/frame'' @ [10]] out 0"

definition face_shell_label :: "u8 \<Rightarrow> unoq_error + bytes" where
  "face_shell_label face =
     (if face = FACE_HAPPY then Inr (ascii ''h'')
      else if face = FACE_ANGRY then Inr (ascii ''a'')
      else if face = FACE_SAD then Inr (ascii ''s'')
      else if face = FACE_SURPRISED then Inr (ascii ''u'')
      else if face = FACE_MOUTH_CLOSED then Inr (ascii ''mc'')
      else if face = FACE_MOUTH_SMALL then Inr (ascii ''ms'')
      else if face = FACE_MOUTH_WIDE then Inr (ascii ''mw'')
      else if face = FACE_MOUTH_ROUND then Inr (ascii ''mr'')
      else Inl RuntimeViolation)"

definition face_for_ordinal :: "u8 \<Rightarrow> u8" where
  "face_for_ordinal ordinal =
     (let index = unat ordinal mod UNO_Q_FACE_CYCLE_FRAME_COUNT in
      if index < length UNO_Q_FACE_EMOTION_FRAMES then UNO_Q_FACE_EMOTION_FRAMES ! index
      else UNO_Q_FACE_MOUTH_FRAMES ! (index - length UNO_Q_FACE_EMOTION_FRAMES))"

definition local_llm_face_label_for_ordinal :: "u8 \<Rightarrow> unoq_error + bytes" where
  "local_llm_face_label_for_ordinal ordinal = face_shell_label (face_for_ordinal ordinal)"

definition face_hold_us :: "u8 \<Rightarrow> u64" where
  "face_hold_us face =
     (if face = FACE_MOUTH_CLOSED \<or> face = FACE_MOUTH_SMALL \<or> face = FACE_MOUTH_WIDE
        \<or> face = FACE_MOUTH_ROUND
      then UNO_Q_FACE_MOUTH_HOLD_US else UNO_Q_FACE_EMOTION_HOLD_US)"

definition face_hold_us_for_ordinal :: "u8 \<Rightarrow> u64" where
  "face_hold_us_for_ordinal ordinal = face_hold_us (face_for_ordinal ordinal)"

section \<open>The scripted client\<close>

definition scripted_local_llm_shell_command :: "u8 \<Rightarrow> u8 \<Rightarrow> bytes \<Rightarrow> unoq_error + (bytes \<times> nat)" where
  "scripted_local_llm_shell_command phase ordinal out =
     (if phase = 0 then copy_command_bytes (ascii ''ls'' @ [10]) out
      else case local_llm_face_label_for_ordinal ordinal of
        Inl e \<Rightarrow> Inl e
      | Inr label \<Rightarrow> copy_face_echo_command label out)"

definition human_needles :: "(rstring \<times> bytes) list" where
  "human_needles =
     [(chars ''echo h > /face/frame'', ascii ''h''), (chars ''echo a > /face/frame'', ascii ''a''),
      (chars ''echo s > /face/frame'', ascii ''s''), (chars ''echo u > /face/frame'', ascii ''u''),
      (chars ''echo mc > /face/frame'', ascii ''mc''), (chars ''echo ms > /face/frame'', ascii ''ms''),
      (chars ''echo mw > /face/frame'', ascii ''mw''), (chars ''echo mr > /face/frame'', ascii ''mr'')]"

text \<open>\<open>Some\<close> of the result of \<open>Result::map(Some)\<close>.\<close>

definition map_some :: "'e + 'a \<Rightarrow> 'e + 'a option" where
  "map_some r = (case r of Inl e \<Rightarrow> Inl e | Inr x \<Rightarrow> Inr (Some x))"

fun first_needle :: "rstring \<Rightarrow> (rstring \<times> bytes) list \<Rightarrow> bytes option" where
  "first_needle request [] = None"
| "first_needle request ((needle, label) # rest) =
     (if contains needle request then Some label else first_needle request rest)"

definition scripted_human_request_shell_command ::
    "rstring \<Rightarrow> bytes \<Rightarrow> unoq_error + (bytes \<times> nat) option" where
  "scripted_human_request_shell_command request out =
     (case first_needle request human_needles of
        Some label \<Rightarrow> map_some (copy_face_echo_command label out)
      | None \<Rightarrow> Inr None)"

definition pico2w_light_face_label :: "u16 \<Rightarrow> bytes" where
  "pico2w_light_face_label light_raw =
     (if light_raw \<le> PICO2W_LIGHT_WEAK_RAW then ascii ''s''
      else if light_raw \<ge> PICO2W_LIGHT_STRONG_RAW then ascii ''u''
      else ascii ''h'')"

definition scripted_pico2w_sensor_shell_command ::
    "sensor_sample \<Rightarrow> bool \<Rightarrow> bytes \<Rightarrow> unoq_error + (bytes \<times> nat) option" where
  "scripted_pico2w_sensor_shell_command sample human_input_present out =
     (if ps_status sample = PICO2W_SENSOR_STATUS_PENDING then Inr None
      else if ps_status sample = PICO2W_SENSOR_STATUS_STALE \<and> \<not> human_input_present
      then map_some (copy_face_echo_command (ascii ''s'') out)
      else if ps_status sample \<noteq> PICO2W_SENSOR_STATUS_FRESH then Inr None
      else map_some (copy_face_echo_command (pico2w_light_face_label (ps_light_raw sample)) out))"

record prompt_context =
  pc_human_request :: "rstring option"
  pc_sensor_sample :: sensor_sample

definition scripted_next_command ::
    "u8 \<Rightarrow> u8 \<Rightarrow> prompt_context \<Rightarrow> bytes \<Rightarrow> unoq_error + (bytes \<times> nat)" where
  "scripted_next_command phase ordinal context out =
     (if phase = 0 then scripted_local_llm_shell_command phase ordinal out
      else case (case pc_human_request context of
            None \<Rightarrow> Inr None
          | Some request \<Rightarrow> scripted_human_request_shell_command request out) of
        Inl e \<Rightarrow> Inl e
      | Inr (Some r) \<Rightarrow> Inr r
      | Inr None \<Rightarrow>
          (case scripted_pico2w_sensor_shell_command (pc_sensor_sample context)
              (pc_human_request context \<noteq> None) out of
             Inl e \<Rightarrow> Inl e
           | Inr (Some r) \<Rightarrow> Inr r
           | Inr None \<Rightarrow> scripted_local_llm_shell_command phase ordinal out))"

section \<open>A model's answer\<close>

fun copy_first_line :: "rstring list \<Rightarrow> bytes \<Rightarrow> (bytes \<times> nat) option" where
  "copy_first_line [] out = None"
| "copy_first_line (line # lines) out =
     (let input = trim line in
      if input = [] \<or> input = chars ''[end of text]'' then copy_first_line lines out
      else
        let bs = as_bytes input; copy_len = min (length bs) (length out) in
        if copy_len = 0 then None
        else
          let out' = blit 0 (take copy_len bs) out in
          if copy_len = length out' then Some (out', copy_len)
          else Some (out'[copy_len := 10], copy_len + 1))"

definition copy_llm_terminal_input_from_output :: "rstring \<Rightarrow> bytes \<Rightarrow> (bytes \<times> nat) option" where
  "copy_llm_terminal_input_from_output output out = copy_first_line (text_lines output) out"

definition append_local_llm_shell_error :: "bytes \<Rightarrow> bytes \<Rightarrow> bytes" where
  "append_local_llm_shell_error transcript command =
     (let t = transcript @ command;
          t = (if command \<noteq> [] \<and> last command = 10 then t else t @ [10]);
          t = t @ ascii ''err /face/frame h,a,s,u,mw'' @ [10] @ ascii ''$ ''
      in drop (length t - LOCAL_LLM_TRANSCRIPT_BYTES) t)"

section \<open>Trimming\<close>

lemma trim_start_index_drop:
  "start \<le> stop \<Longrightarrow> stop \<le> length c \<Longrightarrow>
     trim_start_index c start stop \<le> stop \<and> start \<le> trim_start_index c start stop
     \<and> drop (trim_start_index c start stop) (take stop c) = dropWhile is_ascii_whitespace (drop start (take stop c))"
proof (induction c start stop rule: trim_start_index.induct)
  case (1 c start stop)
  show ?case
  proof (cases "start < stop")
    case True
    then have "drop start (take stop c) = c ! start # drop (Suc start) (take stop c)"
      using 1 by (simp add: Cons_nth_drop_Suc [symmetric])
    with 1 True show ?thesis by (auto simp: trim_start_index.simps [of c start stop])
  next
    case False
    with 1 have "start = stop" by simp
    with 1 show ?thesis by (simp add: trim_start_index.simps [of c stop stop])
  qed
qed

lemma trim_stop_index_take:
  "start \<le> stop \<Longrightarrow> stop \<le> length c \<Longrightarrow>
     rev (drop start (take (trim_stop_index c start stop) c))
       = dropWhile is_ascii_whitespace (rev (drop start (take stop c)))"
proof (induction stop)
  case 0
  then show ?case by (simp add: trim_stop_index.simps [of c 0 0])
next
  case (Suc n)
  show ?case
  proof (cases "start \<le> n")
    case True
    then have "drop start (take (Suc n) c) = drop start (take n c) @ [c ! n]"
      using Suc.prems by (simp add: take_Suc_conv_app_nth)
    then have r: "rev (drop start (take (Suc n) c)) = c ! n # rev (drop start (take n c))" by simp
    show ?thesis
    proof (cases "is_ascii_whitespace (c ! n)")
      case True
      with Suc \<open>start \<le> n\<close> r show ?thesis by (simp add: trim_stop_index.simps [of c start "Suc n"])
    next
      case False
      with r show ?thesis by (simp add: trim_stop_index.simps [of c start "Suc n"])
    qed
  next
    case False
    with Suc.prems show ?thesis by (simp add: trim_stop_index.simps [of c start "Suc n"])
  qed
qed

text \<open>The index loops compute what trimming both ends of a list computes.\<close>

lemma trim_terminal_command_eq:
  "trim_terminal_command c
     = rev (dropWhile is_ascii_whitespace (rev (dropWhile is_ascii_whitespace c)))"
proof -
  have "trim_start_index c 0 (length c) \<le> length c"
    "drop (trim_start_index c 0 (length c)) c = dropWhile is_ascii_whitespace c"
    using trim_start_index_drop [of 0 "length c" c] by auto
  with trim_stop_index_take [of "trim_start_index c 0 (length c)" "length c" c] show ?thesis
    by (simp add: trim_terminal_command_def Let_def) (metis rev_rev_ident)
qed

section \<open>The lines that are written\<close>

definition echo_line :: "bytes \<Rightarrow> bytes" where
  "echo_line label = ascii ''echo '' @ label @ ascii '' > /face/frame'' @ [10]"

lemma echo_lengths: "length (ascii ''echo '') = 5" "length (ascii '' > /face/frame'') = 14"
  by simp_all

lemma copy_face_echo_command_eq:
  assumes "length label + 20 \<le> length out"
  shows "copy_face_echo_command label out
    = Inr (echo_line label @ drop (length label + 20) out, length label + 20)"
proof -
  have "copy_parts [ascii ''echo '', label, ascii '' > /face/frame'' @ [10]] out 0
      = Inr (blit (length label + 5) (ascii '' > /face/frame'' @ [10]) (blit 5 label (blit 0 (ascii ''echo '') out)),
             length label + 20)"
    using assms by (simp add: echo_lengths add.commute del: length_ascii)
  moreover have "blit 5 label (blit 0 (ascii ''echo '') out)
      = (ascii ''echo '' @ label) @ drop (length label) (drop 5 out)"
    using blit_append [of "ascii ''echo ''" 5 label "drop 5 out"]
    by (simp add: blit_0 echo_lengths del: length_ascii)
  moreover have "blit (length label + 5) (ascii '' > /face/frame'' @ [10]) ((ascii ''echo '' @ label) @ drop (length label) (drop 5 out))
      = (ascii ''echo '' @ label) @ (ascii '' > /face/frame'' @ [10]) @ drop 15 (drop (length label) (drop 5 out))"
    by (subst blit_append) (simp_all add: echo_lengths add.commute del: length_ascii)
  ultimately show ?thesis by (simp add: copy_face_echo_command_def echo_line_def add.commute)
qed

text \<open>The faces a label of the shell stands for.\<close>

definition shown_labels :: "(bytes \<times> u8) list" where
  "shown_labels = map (\<lambda>f. (ascii (fst f), snd f))
     [(''h'', FACE_HAPPY), (''a'', FACE_ANGRY), (''s'', FACE_SAD), (''u'', FACE_SURPRISED),
      (''mc'', FACE_MOUTH_CLOSED), (''ms'', FACE_MOUTH_SMALL), (''mw'', FACE_MOUTH_WIDE), (''mr'', FACE_MOUTH_ROUND)]"

lemma face_for_ordinal_cycle:
  "face_for_ordinal ordinal = (UNO_Q_FACE_EMOTION_FRAMES @ UNO_Q_FACE_MOUTH_FRAMES) ! (unat ordinal mod 20)"
proof -
  have "length UNO_Q_FACE_EMOTION_FRAMES = 12" "length UNO_Q_FACE_MOUTH_FRAMES = 8"
    by (simp_all add: UNO_Q_FACE_EMOTION_FRAMES_def UNO_Q_FACE_MOUTH_FRAMES_def)
  then show ?thesis by (simp add: face_for_ordinal_def nth_append UNO_Q_FACE_CYCLE_FRAME_COUNT_def Let_def)
qed

lemma face_for_ordinal_mem:
  "face_for_ordinal ordinal \<in> List.set (UNO_Q_FACE_EMOTION_FRAMES @ UNO_Q_FACE_MOUTH_FRAMES)"
  unfolding face_for_ordinal_cycle
  by (rule nth_mem) (simp add: UNO_Q_FACE_EMOTION_FRAMES_def UNO_Q_FACE_MOUTH_FRAMES_def)

lemma face_label_of_ordinal:
  obtains label where "local_llm_face_label_for_ordinal ordinal = Inr label"
    "(label, face_for_ordinal ordinal) \<in> List.set shown_labels"
proof -
  have "\<exists>label. face_shell_label (face_for_ordinal ordinal) = Inr label
      \<and> (label, face_for_ordinal ordinal) \<in> List.set shown_labels"
    using face_for_ordinal_mem [of ordinal]
    by (auto simp: UNO_Q_FACE_EMOTION_FRAMES_def UNO_Q_FACE_MOUTH_FRAMES_def face_shell_label_def shown_labels_def)
  then show thesis using that by (auto simp: local_llm_face_label_for_ordinal_def)
qed

lemma face_command_admitted:
  assumes "(label, face) \<in> List.set shown_labels"
  shows "classify_local_llm_terminal_command (echo_line label) = Face"
proof -
  have "list_all (\<lambda>(l, f). classify_local_llm_terminal_command (echo_line l) = Face) shown_labels"
    by code_simp
  with assms show ?thesis by (auto simp: list_all_iff)
qed

lemma shown_label_short: "(label, face) \<in> List.set shown_labels \<Longrightarrow> label \<noteq> [] \<and> length label \<le> 2"
  by (auto simp: shown_labels_def ascii_def)

section \<open>What the script says\<close>

text \<open>The face the script asks for: the one a person named, else what the sensor says, else the
  one whose turn it is.\<close>

fun needle_face :: "rstring \<Rightarrow> (bytes \<times> u8) list \<Rightarrow> u8 option" where
  "needle_face request [] = None"
| "needle_face request ((label, face) # rest) =
     (if contains (chars ''echo '' @ map unat label @ chars '' > /face/frame'') request then Some face
      else needle_face request rest)"

definition sensor_face :: "sensor_sample \<Rightarrow> bool \<Rightarrow> u8 option" where
  "sensor_face sample human =
     (if ps_status sample = PICO2W_SENSOR_STATUS_FRESH then
        Some (if ps_light_raw sample \<le> 400 then FACE_SAD else if ps_light_raw sample \<ge> 3000 then FACE_SURPRISED else FACE_HAPPY)
      else if ps_status sample = PICO2W_SENSOR_STATUS_STALE \<and> \<not> human then Some FACE_SAD
      else None)"

definition scripted_face :: "prompt_context \<Rightarrow> u8 \<Rightarrow> u8" where
  "scripted_face context ordinal =
     (case Option.bind (pc_human_request context) (\<lambda>r. needle_face r shown_labels) of
        Some f \<Rightarrow> f
      | None \<Rightarrow> (case sensor_face (pc_sensor_sample context) (pc_human_request context \<noteq> None) of
            Some f \<Rightarrow> f | None \<Rightarrow> face_for_ordinal ordinal))"

lemma human_needles_eq:
  "human_needles = map (\<lambda>(l, f). (chars ''echo '' @ map unat l @ chars '' > /face/frame'', l)) shown_labels"
  by code_simp

lemma first_needle_None:
  "needle_face r ls = None \<Longrightarrow>
     first_needle r (map (\<lambda>(l, f). (chars ''echo '' @ map unat l @ chars '' > /face/frame'', l)) ls) = None"
  by (induction ls) (auto split: if_splits)

lemma first_needle_Some:
  "needle_face r ls = Some f \<Longrightarrow> \<exists>label. (label, f) \<in> List.set ls \<and>
     first_needle r (map (\<lambda>(l, f). (chars ''echo '' @ map unat l @ chars '' > /face/frame'', l)) ls) = Some label"
  by (induction ls) (auto split: if_splits)

lemma scripted_face_command:
  assumes "phase \<noteq> 0" "length out = 96"
  obtains label where "(label, scripted_face context ordinal) \<in> List.set shown_labels"
    "scripted_next_command phase ordinal context out
      = Inr (echo_line label @ drop (length label + 20) out, length label + 20)"
proof -
  note found = that
  have c: "copy_face_echo_command l out = Inr (echo_line l @ drop (length l + 20) out, length l + 20)"
    if "(l, f) \<in> List.set shown_labels" for l f
    using copy_face_echo_command_eq [of l out] shown_label_short [OF that] assms by simp
  have face_label: "(ascii ''s'', FACE_SAD) \<in> List.set shown_labels" "(ascii ''u'', FACE_SURPRISED) \<in> List.set shown_labels"
    "(ascii ''h'', FACE_HAPPY) \<in> List.set shown_labels"
    by (simp_all add: shown_labels_def)
  obtain l where l: "local_llm_face_label_for_ordinal ordinal = Inr l"
    "(l, face_for_ordinal ordinal) \<in> List.set shown_labels"
    by (rule face_label_of_ordinal)
  have turn: thesis
    if n: "Option.bind (pc_human_request context) (\<lambda>r. needle_face r shown_labels) = None"
  proof -
    have h: "(case pc_human_request context of None \<Rightarrow> Inr None
        | Some request \<Rightarrow> scripted_human_request_shell_command request out) = Inr None"
      using n first_needle_None [of _ shown_labels]
      by (auto simp: scripted_human_request_shell_command_def human_needles_eq split: option.split)
    show thesis
    proof (cases "sensor_face (pc_sensor_sample context) (pc_human_request context \<noteq> None)")
      case None
      then have "scripted_pico2w_sensor_shell_command (pc_sensor_sample context) (pc_human_request context \<noteq> None) out = Inr None"
        by (auto simp: sensor_face_def scripted_pico2w_sensor_shell_command_def split: if_splits)
      with n h None l show thesis using assms
        by (intro found [of l]) (simp_all add: scripted_next_command_def scripted_face_def
            scripted_local_llm_shell_command_def c)
    next
      case (Some f)
      then obtain l where l: "(l, f) \<in> List.set shown_labels"
        "scripted_pico2w_sensor_shell_command (pc_sensor_sample context) (pc_human_request context \<noteq> None) out
          = map_some (copy_face_echo_command l out)"
        using face_label by (auto simp: sensor_face_def scripted_pico2w_sensor_shell_command_def
            pico2w_light_face_label_def split: if_splits)
      with n h Some show thesis using assms
        by (intro found [of l]) (simp_all add: scripted_next_command_def scripted_face_def map_some_def c)
    qed
  qed
  show thesis
  proof (cases "Option.bind (pc_human_request context) (\<lambda>r. needle_face r shown_labels)")
    case None
    then show thesis by (rule turn)
  next
    case (Some f)
    then obtain r where r: "pc_human_request context = Some r" "needle_face r shown_labels = Some f"
      by (auto simp: bind_eq_Some_conv)
    then obtain l where l: "first_needle r human_needles = Some l" "(l, f) \<in> List.set shown_labels"
      using first_needle_Some [of r shown_labels f] by (auto simp: human_needles_eq)
    with r Some show thesis using assms
      by (intro found [of l]) (simp_all add: scripted_next_command_def scripted_face_def
          scripted_human_request_shell_command_def map_some_def c)
  qed
qed

lemma scripted_ls_command:
  "length out = 96 \<Longrightarrow>
     scripted_next_command 0 ordinal context out = Inr ((ascii ''ls'' @ [10]) @ drop 3 out, 3)"
  by (simp add: scripted_next_command_def scripted_local_llm_shell_command_def copy_command_bytes_def
      blit_def ascii_def numeral_3_eq_3)

end
