(* ===== verification/Shell_Prompt.thy ===== *)
theory Shell_Prompt
  imports Shell_Command
begin

text \<open>
  The requests of the language model client (\<open>examples/uno-q-heterogeneous/src/lib.rs\<close>): the
  prompts for a phase, the bodies and the text of the two HTTP requests, and what is taken from
  a response. The environment variables the functions read are the record \<open>llm_env\<close>; the
  connection to the server is a parameter that turns the text sent into the text read, or \<open>None\<close>
  when connecting, writing or reading fails.
\<close>

record llm_env =
  env_prompt :: "rstring option"
  env_self_mood :: bool
  env_self_mood_prompt :: "rstring option"

type_synonym http = "nat \<Rightarrow> (rstring \<times> u16) \<Rightarrow> rstring \<Rightarrow> rstring option"

section \<open>Numbers\<close>

fun decimal :: "nat \<Rightarrow> rstring" where
  "decimal n = (if n < 10 then [48 + n] else decimal (n div 10) @ [48 + n mod 10])"

declare decimal.simps [simp del]

text \<open>\<open>{:.1}\<close> of \<open>f32::from(v) / 10.0\<close>: the quotient is nearer to \<open>v/10\<close> than one thousandth, so
  its rounding to one digit is the last digit of \<open>v\<close>.\<close>

definition tenths :: "int \<Rightarrow> rstring" where
  "tenths v =
     (let n = nat \<bar>v\<bar> in (if v < 0 then chars ''-'' else []) @ decimal (n div 10) @ chars ''.'' @ [48 + n mod 10])"

section \<open>Prompts\<close>

definition local_llm_discovery_prompt :: rstring where
  "local_llm_discovery_prompt =
     chars ''Shell command examples:'' @ [10] @ chars ''Task: list files'' @ [10]
     @ chars ''Command: ls'' @ [10] @ chars ''Task: list directory'' @ [10] @ chars ''Command: ls'' @ [10]
     @ chars ''Task: start by listing files'' @ [10] @ chars ''Command:''"

definition pico2w_sensor_context_line :: "sensor_sample \<Rightarrow> rstring" where
  "pico2w_sensor_context_line sample =
     (if ps_status sample = PICO2W_SENSOR_STATUS_FRESH then
        chars ''status=fresh seq='' @ decimal (unat (ps_seq sample)) @ chars '' T='' @ tenths (sint (ps_temperature_c_x10 sample))
        @ chars ''C H='' @ tenths (uint (ps_humidity_pct_x10 sample)) @ chars ''% L='' @ decimal (unat (ps_light_raw sample))
      else if ps_status sample = PICO2W_SENSOR_STATUS_STALE then
        chars ''status=stale seq='' @ decimal (unat (ps_seq sample)) @ chars '' last_T='' @ tenths (sint (ps_temperature_c_x10 sample))
        @ chars ''C last_H='' @ tenths (uint (ps_humidity_pct_x10 sample)) @ chars ''% last_L='' @ decimal (unat (ps_light_raw sample))
      else if ps_status sample = PICO2W_SENSOR_STATUS_PENDING then
        chars ''status=pending seq='' @ decimal (unat (ps_seq sample)) @ chars '' no sample yet''
      else chars ''status=invalid'')"

definition local_llm_self_mood_prompt :: "llm_env \<Rightarrow> u8 \<Rightarrow> rstring" where
  "local_llm_self_mood_prompt env ordinal =
     (case env_self_mood_prompt env of
        Some p \<Rightarrow> p
      | None \<Rightarrow>
          let m = unat ordinal mod 4;
              mood = (if m = 0 then chars ''I am happy and pleased.''
                else if m = 1 then chars ''I am frustrated and focused.''
                else if m = 2 then chars ''I am sad and tired.''
                else chars ''I am surprised and curious.'')
          in chars ''For this turn, the simulated assistant mood is: '' @ mood
             @ chars '' You do not need to explain the mood; return only the matching shell command.'')"

definition local_llm_joined_face_prompt :: "prompt_context \<Rightarrow> rstring option \<Rightarrow> rstring" where
  "local_llm_joined_face_prompt context assistant_mood =
     (let human = (case pc_human_request context of
            Some request \<Rightarrow> chars ''Human input:'' @ [10] @ request @ [10, 10] | None \<Rightarrow> []);
          assistant = (case assistant_mood of
            Some request \<Rightarrow> chars ''Assistant mood instruction:'' @ [10] @ request @ [10, 10] | None \<Rightarrow> []);
          sensor = pico2w_sensor_context_line (pc_sensor_sample context);
          stale_rule = (if ps_status (pc_sensor_sample context) = PICO2W_SENSOR_STATUS_STALE
              \<and> pc_human_request context = None \<and> assistant_mood = None
            then chars ''The Pico 2 W sensor status is stale; return echo s > /face/frame.'' @ [10] else [])
      in chars ''System prompt: You control Uno Q's face through a WASI ChoreoFS shell.'' @ [10]
         @ human @ assistant @ chars ''Pico 2 W sensor:'' @ [10] @ sensor @ [10, 10]
         @ chars ''Respect explicit human override when present; otherwise choose Uno Q's mood from the ''
         @ chars ''Pico 2 W sensor light intensity when it is fresh: weak/dark light is sad, normal light is happy, ''
         @ chars ''and strong/bright light is surprised.'' @ [10]
         @ stale_rule
         @ chars ''Valid commands are echo h > /face/frame, echo a > /face/frame, echo s > /face/frame, ''
         @ chars ''echo u > /face/frame, echo mc > /face/frame, echo ms > /face/frame, ''
         @ chars ''echo mw > /face/frame, and echo mr > /face/frame.'' @ [10]
         @ chars ''Bare commands like echo h are invalid; include > /face/frame.'' @ [10]
         @ chars ''For fresh sensor input choose s, h, or u from light intensity. Use a and mouth commands only for explicit human input.'' @ [10]
         @ chars ''For plain text, choose the closest valid face command from the user's requested mood.'' @ [10]
         @ chars ''Return exactly one shell command and no explanation.'' @ [10]
         @ chars ''Command:'')"

definition local_llm_default_face_prompt :: "rstring \<Rightarrow> rstring" where
  "local_llm_default_face_prompt label =
     chars ''Task: write the single face code '' @ label @ chars ''. Valid shell syntax is echo CODE > /face/frame.'' @ [10]
     @ chars ''Answer with exactly: echo '' @ label @ chars '' > /face/frame'' @ [10] @ chars ''Answer:''"

text \<open>\<open>core::str::from_utf8(label)\<close> with its error mapped.\<close>

definition label_str :: "unoq_error + bytes \<Rightarrow> unoq_error + rstring" where
  "label_str r =
     (case r of Inl e \<Rightarrow> Inl e
      | Inr label \<Rightarrow> (case from_utf8 label of None \<Rightarrow> Inl RuntimeViolation | Some s \<Rightarrow> Inr s))"

definition local_llm_prompt_for_phase :: "llm_env \<Rightarrow> u8 \<Rightarrow> u8 \<Rightarrow> prompt_context \<Rightarrow> unoq_error + rstring" where
  "local_llm_prompt_for_phase env phase ordinal context =
     (case env_prompt env of
        Some prompt \<Rightarrow> Inr prompt
      | None \<Rightarrow>
          if phase = 0 then Inr local_llm_discovery_prompt
          else
            let self_mood_prompt =
                  (if env_self_mood env then Some (local_llm_self_mood_prompt env ordinal) else None) in
            if pc_human_request context \<noteq> None \<or> self_mood_prompt \<noteq> None
               \<or> ps_status (pc_sensor_sample context) \<noteq> PICO2W_SENSOR_STATUS_PENDING
            then Inr (local_llm_joined_face_prompt context self_mood_prompt)
            else case label_str (local_llm_face_label_for_ordinal ordinal) of
                Inl e \<Rightarrow> Inl e
              | Inr label \<Rightarrow> Inr (local_llm_default_face_prompt label))"

definition local_llm_transcript_tail :: "bytes \<Rightarrow> rstring" where
  "local_llm_transcript_tail transcript = trim (from_utf8_lossy (drop (length transcript - 96) transcript))"

definition local_llm_prompt_for_server ::
    "llm_env \<Rightarrow> bytes \<Rightarrow> u8 \<Rightarrow> u8 \<Rightarrow> prompt_context \<Rightarrow> unoq_error + rstring" where
  "local_llm_prompt_for_server env transcript phase ordinal context =
     (case local_llm_prompt_for_phase env phase ordinal context of
        Inl e \<Rightarrow> Inl e
      | Inr prompt \<Rightarrow>
          if phase \<noteq> 0 \<or> transcript = [] then Inr prompt
          else Inr (chars ''You are controlling the same WASI shell. Shell transcript so far:'' @ [10]
            @ local_llm_transcript_tail transcript @ [10, 10]
            @ chars ''Return one next terminal input line.'' @ [10] @ prompt))"

definition local_llm_chat_system_prompt :: rstring where
  "local_llm_chat_system_prompt =
     chars ''You infer Uno Q's mood from sensor values, then control its WASI shell. ''
     @ chars ''Output exactly one command, no prose. Valid commands: ls; echo h > /face/frame; ''
     @ chars ''echo a > /face/frame; echo s > /face/frame; echo u > /face/frame; ''
     @ chars ''echo mc > /face/frame; echo ms > /face/frame; echo mw > /face/frame; ''
     @ chars ''echo mr > /face/frame. Use ls only for initial discovery. ''
     @ chars ''Bare commands like echo h or w /face/frame are invalid; include > /face/frame. ''
     @ chars ''For fresh Pico 2 W sensor turns without a human override, choose the face from light intensity L. ''
     @ chars ''Weak or dark light maps to echo s > /face/frame; strong or bright light maps to echo u > /face/frame; ''
     @ chars ''normal light maps to echo h > /face/frame. ''
     @ chars ''If the sensor status is stale, output echo s > /face/frame unless human input explicitly overrides it. ''
     @ chars ''For sensor turns, use only echo h > /face/frame, echo a > /face/frame, ''
     @ chars ''echo s > /face/frame, or echo u > /face/frame. ''
     @ chars ''Use echo a > /face/frame only when human input explicitly asks for anger or irritation. ''
     @ chars ''Use mc/ms/mw/mr only when the human input explicitly asks for mouth or speaking animation.''"

definition local_llm_shell_feedback_line :: "bytes \<Rightarrow> rstring" where
  "local_llm_shell_feedback_line transcript =
     (let tail = local_llm_transcript_tail transcript in
      if contains (chars ''err '') tail
      then chars ''Shell feedback: '' @ tail @ [10]
        @ chars ''Correction: use the full redirect form, e.g. echo h > /face/frame.'' @ [10]
      else [])"

definition local_llm_joined_chat_user_prompt :: "rstring \<Rightarrow> prompt_context \<Rightarrow> rstring" where
  "local_llm_joined_chat_user_prompt feedback context =
     (let human = (case pc_human_request context of
            Some request \<Rightarrow> chars ''Human input:'' @ [10] @ request @ [10] | None \<Rightarrow> []);
          sensor = pico2w_sensor_context_line (pc_sensor_sample context)
      in feedback @ chars ''Do not output ls.'' @ [10]
         @ human @ chars ''Pico 2 W sensor:'' @ [10] @ sensor @ [10]
         @ chars ''Respect explicit human override when present; otherwise choose the mood from light intensity L: weak/dark=s, normal=h, strong/bright=u.'' @ [10]
         @ chars ''For sensor input choose only s, h, or u unless human input explicitly asks for another valid face.'' @ [10]
         @ chars ''Use the exact full form, for example: echo h > /face/frame'')"

definition local_llm_chat_user_prompt :: "bytes \<Rightarrow> u8 \<Rightarrow> u8 \<Rightarrow> prompt_context \<Rightarrow> unoq_error + rstring" where
  "local_llm_chat_user_prompt transcript phase ordinal context =
     (if phase = 0 then Inr (chars ''Output exactly: ls'')
      else
        let feedback = local_llm_shell_feedback_line transcript;
            status = ps_status (pc_sensor_sample context) in
        if pc_human_request context = None \<and> status = PICO2W_SENSOR_STATUS_STALE
        then Inr (feedback @ chars ''Do not output ls.'' @ [10]
          @ chars ''The Pico 2 W sensor sample status is stale. Hold the tired/sad face until fresh samples return.'' @ [10]
          @ chars ''Output exactly: echo s > /face/frame'' @ [10]
          @ pico2w_sensor_context_line (pc_sensor_sample context))
        else if pc_human_request context \<noteq> None \<or> status = PICO2W_SENSOR_STATUS_FRESH
        then Inr (local_llm_joined_chat_user_prompt feedback context)
        else case label_str (local_llm_face_label_for_ordinal ordinal) of
            Inl e \<Rightarrow> Inl e
          | Inr label \<Rightarrow> Inr (feedback @ chars ''Do not output ls.'' @ [10]
              @ chars ''Output exactly: echo '' @ label @ chars '' > /face/frame''))"

section \<open>HTTP\<close>

definition starts_with :: "rstring \<Rightarrow> rstring \<Rightarrow> bool" where
  "starts_with pat s \<longleftrightarrow> take (length pat) s = pat"

text \<open>\<open>str::parse::<u16>\<close>: decimal digits, at least one, after an optional plus sign.\<close>

definition parse_u16 :: "rstring \<Rightarrow> u16 option" where
  "parse_u16 s =
     (let ds = (case s of c # r \<Rightarrow> if c = 43 then r else s | [] \<Rightarrow> []) in
      if ds = [] \<or> list_ex (\<lambda>c. c < 48 \<or> 57 < c) ds then None
      else let n = foldl (\<lambda>n c. 10 * n + (c - 48)) 0 ds in
        if n \<le> 65535 then Some (of_nat n) else None)"

text \<open>\<open>rsplit_once\<close> on a character.\<close>

definition rsplit_once_char :: "rchar \<Rightarrow> rstring \<Rightarrow> (rstring \<times> rstring) option" where
  "rsplit_once_char c s =
     (if c \<in> List.set s
      then Some (rev (tl (dropWhile (\<lambda>x. x \<noteq> c) (rev s))), rev (takeWhile (\<lambda>x. x \<noteq> c) (rev s)))
      else None)"

definition local_llm_http_endpoint_parts :: "rstring \<Rightarrow> (rstring \<times> u16) option" where
  "local_llm_http_endpoint_parts endpoint =
     (if \<not> starts_with (chars ''http://'') endpoint then None
      else
        let rest = drop 7 endpoint; authority = takeWhile (\<lambda>c. c \<noteq> 47) rest in
        case rsplit_once_char 58 authority of
          None \<Rightarrow> None
        | Some (host, port) \<Rightarrow>
            (case parse_u16 port of None \<Rightarrow> None | Some p \<Rightarrow> Some (host, p)))"

definition chat_body :: "rstring \<Rightarrow> rstring" where
  "chat_body user =
     chars ''{\"model\":\"local\",\"messages\":[{\"role\":\"system\",\"content\":''
     @ local_llm_json_string local_llm_chat_system_prompt
     @ chars ''},{\"role\":\"user\",\"content\":'' @ local_llm_json_string user
     @ chars ''}],\"max_tokens\":24,\"temperature\":0}''"

definition completion_body :: "rstring \<Rightarrow> rstring" where
  "completion_body prompt =
     chars ''{\"prompt\":'' @ local_llm_json_string prompt
     @ chars '',\"n_predict\":8,\"temperature\":0,\"stop\":['' @ [34, 92, 110, 34] @ chars '']}''"

definition crlf :: rstring where "crlf = [13, 10]"

definition post_request :: "rstring \<Rightarrow> rstring \<times> u16 \<Rightarrow> rstring \<Rightarrow> rstring" where
  "post_request path hp body =
     chars ''POST '' @ path @ chars '' HTTP/1.1'' @ crlf
     @ chars ''Host: '' @ fst hp @ chars '':'' @ decimal (unat (snd hp)) @ crlf
     @ chars ''Content-Type: application/json'' @ crlf
     @ chars ''Content-Length: '' @ decimal (length (as_bytes body)) @ crlf
     @ chars ''Connection: close'' @ crlf @ crlf @ body"

definition read_response :: "rstring \<Rightarrow> unoq_error + rstring" where
  "read_response response =
     (if \<not> starts_with (chars ''HTTP/1.1 200'') response \<and> \<not> starts_with (chars ''HTTP/1.0 200'') response
      then Inl RuntimeViolation
      else
        let body = (case split_once (crlf @ crlf) response of Some (a, b) \<Rightarrow> b | None \<Rightarrow> response) in
        case local_llm_json_string_field body (chars ''content'') of
          Some s \<Rightarrow> Inr s | None \<Rightarrow> Inl RuntimeViolation)"

definition chat_complete ::
    "http \<Rightarrow> nat \<Rightarrow> rstring \<Rightarrow> bytes \<Rightarrow> u8 \<Rightarrow> u8 \<Rightarrow> prompt_context \<Rightarrow> unoq_error + rstring" where
  "chat_complete http i endpoint transcript phase ordinal context =
     (case local_llm_http_endpoint_parts endpoint of
        None \<Rightarrow> Inl RuntimeViolation
      | Some hp \<Rightarrow>
          (case local_llm_chat_user_prompt transcript phase ordinal context of
             Inl e \<Rightarrow> Inl e
           | Inr user \<Rightarrow>
               (case http i hp (post_request (chars ''/v1/chat/completions'') hp (chat_body user)) of
                  None \<Rightarrow> Inl RuntimeViolation
                | Some response \<Rightarrow> read_response response)))"

definition complete :: "http \<Rightarrow> nat \<Rightarrow> rstring \<Rightarrow> rstring \<Rightarrow> unoq_error + rstring" where
  "complete http i endpoint prompt =
     (case local_llm_http_endpoint_parts endpoint of
        None \<Rightarrow> Inl RuntimeViolation
      | Some hp \<Rightarrow>
          (case http i hp (post_request (chars ''/completion'') hp (completion_body prompt)) of
             None \<Rightarrow> Inl RuntimeViolation
           | Some response \<Rightarrow> read_response response))"

section \<open>The correction after a refused command\<close>

definition refusal :: bytes where
  "refusal = ascii ''err /face/frame h,a,s,u,mw'' @ [10] @ ascii ''$ ''"

lemma append_error_ends:
  obtains p where "append_local_llm_shell_error t c = p @ refusal"
proof -
  obtain q where "(let t = t @ c; t = (if c \<noteq> [] \<and> last c = 10 then t else t @ [10])
      in t @ ascii ''err /face/frame h,a,s,u,mw'' @ [10] @ ascii ''$ '') = q @ refusal"
    by (simp add: refusal_def Let_def)
  moreover have "length refusal = 29" by (simp add: refusal_def)
  ultimately have "append_local_llm_shell_error t c = drop (length (q @ refusal) - 768) q @ refusal"
    by (simp add: append_local_llm_shell_error_def Let_def)
  then show thesis by (rule that)
qed

lemma tail_after_error:
  obtains q where "local_llm_transcript_tail (append_local_llm_shell_error t c)
    = q @ chars ''err /face/frame h,a,s,u,mw'' @ [10] @ chars ''$''"
proof -
  obtain p where p: "append_local_llm_shell_error t c = p @ refusal" by (rule append_error_ends)
  have l: "length refusal = 29" by (simp add: refusal_def)
  define p' where "p' = drop (length (p @ refusal) - 96) p"
  have d: "drop (length (p @ refusal) - 96) (p @ refusal) = p' @ refusal"
    using l by (simp add: p'_def)
  have a: "\<forall>b \<in> List.set refusal. b < 0x80" by (simp add: refusal_def ascii_def)
  have r: "map unat refusal = 101 # chars ''rr /face/frame h,a,s,u,mw'' @ [10] @ [36] @ [32]"
    by (simp add: refusal_def ascii_def chars_def)
  have t: "chars ''err /face/frame h,a,s,u,mw'' = 101 # chars ''rr /face/frame h,a,s,u,mw''"
    "chars ''$'' = [36]" by (simp_all add: chars_def)
  have w: "\<not> is_whitespace 101" "\<not> is_whitespace 36" "is_whitespace 32" by (simp_all add: is_whitespace_def)
  have "local_llm_transcript_tail (p @ refusal)
      = trim (from_utf8_lossy p' @ 101 # (chars ''rr /face/frame h,a,s,u,mw'' @ [10]) @ [36] @ [32])"
    unfolding local_llm_transcript_tail_def d from_utf8_lossy_append [OF a] r by simp
  also have "\<dots> = dropWhile is_whitespace (from_utf8_lossy p') @ chars ''err /face/frame h,a,s,u,mw'' @ [10] @ chars ''$''"
    by (subst trim_between) (simp_all add: w t)
  finally show thesis using that p by simp
qed

lemma feedback_after_error:
  "local_llm_shell_feedback_line (append_local_llm_shell_error t c)
     = chars ''Shell feedback: '' @ local_llm_transcript_tail (append_local_llm_shell_error t c) @ [10]
       @ chars ''Correction: use the full redirect form, e.g. echo h > /face/frame.'' @ [10]"
proof -
  obtain q where q: "local_llm_transcript_tail (append_local_llm_shell_error t c)
    = q @ chars ''err /face/frame h,a,s,u,mw'' @ [10] @ chars ''$''" by (rule tail_after_error)
  have "chars ''err /face/frame h,a,s,u,mw'' = chars ''err '' @ chars ''/face/frame h,a,s,u,mw''"
    by (simp add: chars_def)
  with q have "local_llm_transcript_tail (append_local_llm_shell_error t c)
      = q @ chars ''err '' @ chars ''/face/frame h,a,s,u,mw'' @ [10] @ chars ''$''" by simp
  then have "contains (chars ''err '') (local_llm_transcript_tail (append_local_llm_shell_error t c))"
    by (simp only: contains_between)
  then show ?thesis by (simp add: local_llm_shell_feedback_line_def)
qed

section \<open>Reading a response\<close>

text \<open>What follows the first occurrence does not change where it is.\<close>

lemma split_once_append:
  "split_once pat (a @ pat) = Some (a, []) \<Longrightarrow> split_once pat (a @ pat @ b) = Some (a, b)"
proof (induction a)
  case Nil
  show ?case by (simp add: split_once.simps [of pat "pat @ b"])
next
  case (Cons c a)
  have n: "take (length pat) (c # a @ pat) \<noteq> pat"
    using Cons.prems by (auto simp: split_once.simps [of pat "c # a @ pat"] split: if_splits)
  moreover have "take (length pat) (c # a @ pat @ b) = take (length pat) (c # a @ pat)"
    using take_append [of "length pat" "c # a @ pat" b] by simp
  ultimately have "take (length pat) (c # a @ pat @ b) \<noteq> pat" by simp
  moreover have "split_once pat (a @ pat) = Some (a, [])"
    using Cons.prems n by (auto simp: split_once.simps [of pat "c # a @ pat"] split: option.splits)
  ultimately show ?case using Cons.IH by (simp add: split_once.simps [of pat "c # a @ pat @ b"])
qed

lemma json_field_read:
  assumes "split_once ([34] @ field @ [34]) (pre @ [34] @ field @ [34]) = Some (pre, [])"
    "\<forall>c \<in> List.set blanks. is_whitespace c" "\<forall>c \<in> List.set s. is_char c"
  shows "local_llm_json_string_field (pre @ [34] @ field @ [34] @ [58] @ blanks @ local_llm_json_string s @ rest) field
    = Some s"
proof -
  have 1: "split_once ([34] @ field @ [34]) (pre @ [34] @ field @ [34] @ r) = Some (pre, r)" for r
    using split_once_append [OF assms(1) [unfolded append_assoc], of r] by simp
  have 2: "split_once [58] ([58] @ r) = Some ([], r)" for r
    by (simp add: split_once.simps [of "[58]" "58 # r"])
  have "local_llm_json_string s @ rest = 34 # concat (map json_escape s) @ [34] @ rest"
    by (simp add: local_llm_json_string_def)
  then have 3: "trim_start (blanks @ local_llm_json_string s @ rest) = local_llm_json_string s @ rest"
    using assms(2) by (simp add: trim_start_def is_whitespace_def [of 34])
  have "local_llm_json_string_field (pre @ [34] @ field @ [34] @ [58] @ blanks @ local_llm_json_string s @ rest) field
      = local_llm_decode_json_string (trim_start (blanks @ local_llm_json_string s @ rest))"
    unfolding local_llm_json_string_field_def 1 prod.case option.case 2 by simp
  then show ?thesis using decode_encoded [OF assms(3)] by (simp only: 3)
qed

section \<open>Properties\<close>

text \<open>The answer of the server is what the client goes on with: from a response of status 200
  whose body holds a string under the first key named content, whatever stands before that key
  and after the string, exactly that string is read, with every character escaped by the writer
  restored.\<close>

theorem http_answer_read:
  assumes "starts_with (chars ''HTTP/1.1 200'') head"
    and "split_once (crlf @ crlf) (head @ crlf @ crlf) = Some (head, [])"
    and "split_once ([34] @ chars ''content'' @ [34]) (pre @ [34] @ chars ''content'' @ [34]) = Some (pre, [])"
    and "\<forall>c \<in> List.set blanks. is_whitespace c" and "\<forall>c \<in> List.set s. is_char c"
  shows "read_response (head @ crlf @ crlf @ pre @ [34] @ chars ''content'' @ [34] @ [58] @ blanks
      @ local_llm_json_string s @ rest) = Inr s"
proof -
  let ?body = "pre @ [34] @ chars ''content'' @ [34] @ [58] @ blanks @ local_llm_json_string s @ rest"
  have "length (chars ''HTTP/1.1 200'') \<le> length head"
    using assms(1) by (metis starts_with_def length_take min.cobounded1)
  with assms(1) have ok: "starts_with (chars ''HTTP/1.1 200'') (head @ crlf @ crlf @ ?body)"
    by (simp add: starts_with_def)
  have body: "split_once (crlf @ crlf) (head @ crlf @ crlf @ ?body) = Some (head, ?body)"
    using split_once_append [OF assms(2) [unfolded append_assoc], of ?body] by (simp only: append_assoc)
  show ?thesis
    unfolding read_response_def body option.case prod.case Let_def json_field_read [OF assms(3-5), of rest]
    using ok by simp
qed

theorem http_answer_read_witness:
  "read_response (chars ''HTTP/1.1 200 OK'' @ crlf @ crlf @ chars ''{'' @ [34] @ chars ''content'' @ [34] @ [58] @ [32]
      @ local_llm_json_string (chars ''ls'' @ [10]) @ chars ''}'') = Inr (chars ''ls'' @ [10])"
proof (rule http_answer_read)
  show "starts_with (chars ''HTTP/1.1 200'') (chars ''HTTP/1.1 200 OK'')"
    by (simp add: starts_with_def chars_def)
  show "split_once (crlf @ crlf) (chars ''HTTP/1.1 200 OK'' @ crlf @ crlf) = Some (chars ''HTTP/1.1 200 OK'', [])"
    by (simp add: chars_def crlf_def split_once.simps)
  show "split_once ([34] @ chars ''content'' @ [34]) (chars ''{'' @ [34] @ chars ''content'' @ [34]) = Some (chars ''{'', [])"
    by (simp add: chars_def split_once.simps)
qed (simp_all add: is_whitespace_def is_char_def chars_def)

text \<open>A refused command is answered where the model can see it: the transcript the next attempt
  sends ends in the shell's refusal, whatever the command and however long the transcript was,
  and the chat prompt of a face turn quotes it with a correction. The prompt of the fallback
  request of a face turn does not depend on the transcript at all, so an attempt that falls
  back repeats the request that was just refused.\<close>

theorem refusal_reaches_chat_only:
  assumes "phase \<noteq> 0"
  shows "(\<exists>q. local_llm_transcript_tail (append_local_llm_shell_error t command)
        = q @ chars ''err /face/frame h,a,s,u,mw'' @ [10] @ chars ''$'')
    \<and> local_llm_shell_feedback_line (append_local_llm_shell_error t command)
      = chars ''Shell feedback: '' @ local_llm_transcript_tail (append_local_llm_shell_error t command) @ [10]
        @ chars ''Correction: use the full redirect form, e.g. echo h > /face/frame.'' @ [10]
    \<and> local_llm_prompt_for_server env (append_local_llm_shell_error t command) phase ordinal cx
      = local_llm_prompt_for_server env t phase ordinal cx"
proof (intro conjI feedback_after_error)
  show "\<exists>q. local_llm_transcript_tail (append_local_llm_shell_error t command)
        = q @ chars ''err /face/frame h,a,s,u,mw'' @ [10] @ chars ''$''"
    by (rule tail_after_error) blast
  show "local_llm_prompt_for_server env (append_local_llm_shell_error t command) phase ordinal cx
      = local_llm_prompt_for_server env t phase ordinal cx"
    using assms by (simp add: local_llm_prompt_for_server_def split: sum.split)
qed

theorem refusal_reaches_chat_only_witness:
  "local_llm_shell_feedback_line (append_local_llm_shell_error [] (ascii ''echo h''))
      = chars ''Shell feedback: '' @ local_llm_transcript_tail (append_local_llm_shell_error [] (ascii ''echo h'')) @ [10]
        @ chars ''Correction: use the full redirect form, e.g. echo h > /face/frame.'' @ [10]"
  by (rule refusal_reaches_chat_only [where phase = 1, THEN conjunct2, THEN conjunct1]) simp

end
