(* ===== verification/Shell_Source.thy ===== *)
theory Shell_Source
  imports Shell_Prompt
begin

text \<open>
  The language model's end of the shell (\<open>examples/uno-q-heterogeneous/src/lib.rs\<close>): where its
  commands come from (\<open>LocalLlmCommandSource\<close>, the retry loop of \<open>LocalLlmServer\<close>, a child process,
  the script), and \<open>LocalLlmShellSource\<close>, which keeps the transcript and alternates the two phases.
  Pauses and trace output change no state and are left out. The answers of the server and of the
  child process are parameters.
\<close>

section \<open>Where a command comes from\<close>

datatype command_source = Server rstring | External | Scripted | Missing

text \<open>What is left of the three attempts; the requests of an attempt are numbered in their order.\<close>

function server_attempts ::
    "http \<Rightarrow> llm_env \<Rightarrow> rstring \<Rightarrow> nat \<Rightarrow> bytes \<Rightarrow> u8 \<Rightarrow> u8 \<Rightarrow> prompt_context \<Rightarrow> bytes
      \<Rightarrow> unoq_error + (bytes \<times> nat)" where
  "server_attempts http env endpoint attempt retry_transcript phase ordinal context out =
     (if attempt \<ge> 3 then Inl RuntimeViolation
      else case (case chat_complete http (2 * attempt) endpoint retry_transcript phase ordinal context of
            Inr response \<Rightarrow> Inr response
          | Inl _ \<Rightarrow>
              (case local_llm_prompt_for_server env retry_transcript phase ordinal context of
                 Inl e \<Rightarrow> Inl e
               | Inr prompt \<Rightarrow> complete http (2 * attempt + 1) endpoint prompt)) of
        Inl e \<Rightarrow> Inl e
      | Inr response \<Rightarrow>
          (case copy_llm_terminal_input_from_output response out of
             None \<Rightarrow> Inl RuntimeViolation
           | Some (out, len) \<Rightarrow>
               if local_llm_terminal_command_admitted_for_phase phase (take len out) then Inr (out, len)
               else server_attempts http env endpoint (attempt + 1)
                 (append_local_llm_shell_error retry_transcript (take len out)) phase ordinal context out))"
  by pat_completeness auto

termination by (relation "measure (\<lambda>(h, v, e, n, t). 3 - n)") auto

declare server_attempts.simps [simp del]

definition server_next_command ::
    "http \<Rightarrow> llm_env \<Rightarrow> rstring \<Rightarrow> bytes \<Rightarrow> u8 \<Rightarrow> u8 \<Rightarrow> prompt_context \<Rightarrow> bytes \<Rightarrow> unoq_error + (bytes \<times> nat)" where
  "server_next_command http env endpoint transcript phase ordinal context out =
     server_attempts http env endpoint 0 transcript phase ordinal context out"

text \<open>A child process: what it wrote, or \<open>None\<close> when it could not be run or failed.\<close>

type_synonym child = "bytes \<Rightarrow> u8 \<Rightarrow> u8 \<Rightarrow> prompt_context \<Rightarrow> bytes option"

definition external_next_command ::
    "child \<Rightarrow> bytes \<Rightarrow> u8 \<Rightarrow> u8 \<Rightarrow> prompt_context \<Rightarrow> bytes \<Rightarrow> unoq_error + (bytes \<times> nat)" where
  "external_next_command child transcript phase ordinal context out =
     (case child transcript phase ordinal context of
        None \<Rightarrow> Inl RuntimeViolation
      | Some output \<Rightarrow>
          (case copy_llm_terminal_input_from_output (from_utf8_lossy output) out of
             Some r \<Rightarrow> Inr r
           | None \<Rightarrow> Inl RuntimeViolation))"

text \<open>The world a command source talks to.\<close>

record llm_world =
  lw_env :: llm_env
  lw_http :: http
  lw_child :: child

definition source_next_command ::
    "llm_world \<Rightarrow> command_source \<Rightarrow> bytes \<Rightarrow> u8 \<Rightarrow> u8 \<Rightarrow> prompt_context \<Rightarrow> bytes \<Rightarrow> unoq_error + (bytes \<times> nat)" where
  "source_next_command w source transcript phase ordinal context out =
     (case source of
        Server endpoint \<Rightarrow> server_next_command (lw_http w) (lw_env w) endpoint transcript phase ordinal context out
      | External \<Rightarrow> external_next_command (lw_child w) transcript phase ordinal context out
      | Scripted \<Rightarrow> scripted_next_command phase ordinal context out
      | Missing \<Rightarrow> Inl RuntimeViolation)"

section \<open>The shell source\<close>

record shell_source =
  ss_transcript :: bytes
  ss_transcript_len :: nat
  ss_read_phase :: u8
  ss_ordinal :: u8
  ss_human_request :: "rstring option"
  ss_sensor_sample :: sensor_sample
  ss_command :: command_source

definition shell_source_new :: "command_source \<Rightarrow> shell_source" where
  "shell_source_new command =
     \<lparr>ss_transcript = replicate LOCAL_LLM_TRANSCRIPT_BYTES 0, ss_transcript_len = 0, ss_read_phase = 0,
      ss_ordinal = 0, ss_human_request = None, ss_sensor_sample = sensor_sample_pending 0,
      ss_command = command\<rparr>"

text \<open>One byte: a full transcript is moved down by one (\<open>copy_within(1.., 0)\<close> leaves the last byte
  where it is) before the byte is appended.\<close>

definition observe_byte :: "shell_source \<Rightarrow> u8 \<Rightarrow> shell_source" where
  "observe_byte s byte =
     (let s = (if ss_transcript_len s = length (ss_transcript s)
               then s\<lparr>ss_transcript := blit 0 (drop 1 (ss_transcript s)) (ss_transcript s),
                      ss_transcript_len := ss_transcript_len s - 1\<rparr>
               else s)
      in s\<lparr>ss_transcript := (ss_transcript s)[ss_transcript_len s := byte],
           ss_transcript_len := ss_transcript_len s + 1\<rparr>)"

definition observe_shell_output :: "shell_source \<Rightarrow> bytes \<Rightarrow> shell_source" where
  "observe_shell_output s bs = foldl observe_byte s bs"

definition observe_human_input :: "shell_source \<Rightarrow> human_input_text \<Rightarrow> unoq_error + shell_source" where
  "observe_human_input s input =
     (if human_input_is_empty input then Inr (s\<lparr>ss_human_request := None\<rparr>)
      else case human_input_as_str input of
        Inl e \<Rightarrow> Inl (LocalProtocol e)
      | Inr bs \<Rightarrow> Inr (s\<lparr>ss_human_request := from_utf8 bs\<rparr>))"

definition observe_pico2w_sensor_sample :: "shell_source \<Rightarrow> sensor_sample \<Rightarrow> shell_source" where
  "observe_pico2w_sensor_sample s sample = s\<lparr>ss_sensor_sample := sample\<rparr>"

definition ss_context :: "shell_source \<Rightarrow> prompt_context" where
  "ss_context s = \<lparr>pc_human_request = ss_human_request s, pc_sensor_sample = ss_sensor_sample s\<rparr>"

definition shell_next_command ::
    "llm_world \<Rightarrow> shell_source \<Rightarrow> nat \<Rightarrow> unoq_error + ((bytes \<times> nat) \<times> shell_source)" where
  "shell_next_command w s max_len =
     (case source_next_command w (ss_command s) (take (ss_transcript_len s) (ss_transcript s))
          (ss_read_phase s) (ss_ordinal s) (ss_context s) (replicate LOCAL_LLM_COMMAND_BYTES 0) of
        Inl e \<Rightarrow> Inl e
      | Inr (command, len) \<Rightarrow>
          if len = 0 \<or> len > max_len then Inl RuntimeViolation
          else
            let s = observe_shell_output s (take len command);
                s = (if ss_read_phase s = 0 then s\<lparr>ss_read_phase := 1\<rparr>
                     else s\<lparr>ss_read_phase := 0, ss_ordinal := ss_ordinal s + 1\<rparr>)
            in Inr ((command, len), s))"

text \<open>A read of the terminal: fd 12 and room for at least one byte.\<close>

definition LLM_STDIN_FD :: u8 where "LLM_STDIN_FD = 12"
definition LLM_STDOUT_FD :: u8 where "LLM_STDOUT_FD = 13"

text \<open>\<open>FdReadDone::new\<close> is a function of \<open>hibana_wasip1_runtime\<close>, given by the errors it returns; whether
  a call of the endpoint succeeds is an argument too.\<close>

type_synonym fd_read_done = "u8 \<Rightarrow> bytes \<Rightarrow> codec_error option"

definition complete_local_llm_stdin_read ::
    "llm_world \<Rightarrow> fd_read_done \<Rightarrow> bool \<Rightarrow> shell_source \<Rightarrow> u8 \<Rightarrow> nat \<Rightarrow> unoq_error + (bytes \<times> shell_source)" where
  "complete_local_llm_stdin_read w read_done reply_sent s fd max_len =
     (if fd \<noteq> LLM_STDIN_FD \<or> max_len = 0 then Inl RuntimeViolation
      else case shell_next_command w s max_len of
        Inl e \<Rightarrow> Inl e
      | Inr ((command, len), s) \<Rightarrow>
          (case read_done fd (take len command) of
             Some e \<Rightarrow> Inl (ProtocolError e)
           | None \<Rightarrow> if \<not> reply_sent then Inl EndpointError else Inr (take len command, s)))"

text \<open>A read with the human input and the sensor sample of its turn. The seven calls of the endpoint are
  numbered in their order: the two requests, the two answers, the two acknowledgements, the reply.\<close>

definition complete_stdin_read_with_input_context ::
    "llm_world \<Rightarrow> fd_read_done \<Rightarrow> (nat \<Rightarrow> bool) \<Rightarrow> shell_source \<Rightarrow> human_input_text \<Rightarrow> sensor_sample \<Rightarrow> u8 \<Rightarrow> nat
      \<Rightarrow> unoq_error + (bytes \<times> shell_source)" where
  "complete_stdin_read_with_input_context w read_done call_ok s human_input sample fd max_len =
     (if \<not> list_all call_ok [0, 1, 2, 3] then Inl EndpointError
      else case observe_human_input s human_input of
        Inl e \<Rightarrow> Inl e
      | Inr s \<Rightarrow>
          if \<not> list_all call_ok [4, 5] then Inl EndpointError
          else complete_local_llm_stdin_read w read_done (call_ok 6) (observe_pico2w_sensor_sample s sample) fd max_len)"

definition complete_local_llm_stdout_write :: "bool \<Rightarrow> shell_source \<Rightarrow> u8 \<Rightarrow> bytes \<Rightarrow> unoq_error + shell_source" where
  "complete_local_llm_stdout_write reply_sent s fd bs =
     (if fd \<noteq> LLM_STDOUT_FD then Inl RuntimeViolation
      else let s = observe_shell_output s bs in if \<not> reply_sent then Inl EndpointError else Inr s)"

section \<open>The transcript\<close>

text \<open>What the array stands for: the last 768 bytes of everything observed.\<close>

definition last_bytes :: "bytes \<Rightarrow> bytes" where
  "last_bytes bs = drop (length bs - LOCAL_LLM_TRANSCRIPT_BYTES) bs"

definition ss_text :: "shell_source \<Rightarrow> bytes" where
  "ss_text s = take (ss_transcript_len s) (ss_transcript s)"

definition shell_inv :: "shell_source \<Rightarrow> bool" where
  "shell_inv s \<longleftrightarrow> length (ss_transcript s) = 768 \<and> ss_transcript_len s \<le> 768
     \<and> (ss_read_phase s = 0 \<or> ss_read_phase s = 1)"

text \<open>The fields that observing output leaves alone.\<close>

definition same_control :: "shell_source \<Rightarrow> shell_source \<Rightarrow> bool" where
  "same_control s s' \<longleftrightarrow> ss_read_phase s' = ss_read_phase s \<and> ss_ordinal s' = ss_ordinal s
     \<and> ss_human_request s' = ss_human_request s \<and> ss_sensor_sample s' = ss_sensor_sample s
     \<and> ss_command s' = ss_command s"

lemma last_bytes_append: "last_bytes (last_bytes xs @ ys) = last_bytes (xs @ ys)"
  by (cases "length xs \<le> 768") (auto simp: last_bytes_def add.commute)

lemma observe_byte_refines:
  assumes "shell_inv s"
  shows "shell_inv (observe_byte s b)" "same_control s (observe_byte s b)"
    "ss_text (observe_byte s b) = last_bytes (ss_text s @ [b])"
proof -
  let ?t = "ss_transcript s" and ?n = "ss_transcript_len s"
  have len: "length ?t = 768" "?n \<le> 768" using assms by (auto simp: shell_inv_def)
  show "shell_inv (observe_byte s b)" "same_control s (observe_byte s b)"
    using assms by (auto simp: shell_inv_def same_control_def observe_byte_def Let_def)
  show "ss_text (observe_byte s b) = last_bytes (ss_text s @ [b])"
  proof (cases "?n = 768")
    case True
    have d: "drop 767 ?t = [?t ! 767]"
      using Cons_nth_drop_Suc [of 767 ?t] len by simp
    have m: "blit 0 (drop (Suc 0) ?t) ?t = drop (Suc 0) ?t @ [?t ! 767]"
      using len by (simp add: blit_0 d)
    then show ?thesis using len True
      by (simp add: observe_byte_def ss_text_def last_bytes_def Let_def list_update_append)
  next
    case False
    with len have "?n < length ?t" by simp
    then show ?thesis using len False
      by (simp add: observe_byte_def ss_text_def last_bytes_def Let_def take_Suc_conv_app_nth)
  qed
qed

lemma same_control_trans: "same_control a b \<Longrightarrow> same_control b c \<Longrightarrow> same_control a c"
  by (simp add: same_control_def)

lemma observe_output_refines:
  assumes "shell_inv s"
  shows "shell_inv (observe_shell_output s bs)" "same_control s (observe_shell_output s bs)"
    "ss_text (observe_shell_output s bs) = last_bytes (ss_text s @ bs)"
proof -
  have "shell_inv (observe_shell_output s bs) \<and> same_control s (observe_shell_output s bs)
      \<and> ss_text (observe_shell_output s bs) = last_bytes (ss_text s @ bs)"
    using assms
  proof (induction bs arbitrary: s)
    case Nil
    then have "length (ss_text s) \<le> 768" by (simp add: ss_text_def shell_inv_def)
    with Nil show ?case by (simp add: observe_shell_output_def same_control_def last_bytes_def)
  next
    case (Cons b bs)
    note one = observe_byte_refines [OF Cons.prems, of b]
    have "observe_shell_output s (b # bs) = observe_shell_output (observe_byte s b) bs"
      by (simp add: observe_shell_output_def)
    with Cons.IH [OF one(1)] one last_bytes_append [of "ss_text s @ [b]" bs] show ?case
      by (auto intro: same_control_trans)
  qed
  then show "shell_inv (observe_shell_output s bs)" "same_control s (observe_shell_output s bs)"
    "ss_text (observe_shell_output s bs) = last_bytes (ss_text s @ bs)" by auto
qed

lemma shell_inv_new: "shell_inv (shell_source_new c)"
  by (simp add: shell_inv_def shell_source_new_def)

lemma next_command_refines:
  assumes "shell_inv s" "shell_next_command w s max_len = Inr ((command, len), s')"
  shows "shell_inv s'" "ss_text s' = last_bytes (ss_text s @ take len command)" "0 < len" "len \<le> max_len"
    "ss_read_phase s' = 1 - ss_read_phase s" "ss_ordinal s' = ss_ordinal s + ss_read_phase s"
    "ss_command s' = ss_command s"
proof -
  let ?o = "observe_shell_output s (take len command)"
  have s': "s' = (if ss_read_phase ?o = 0 then ?o\<lparr>ss_read_phase := 1\<rparr>
      else ?o\<lparr>ss_read_phase := 0, ss_ordinal := ss_ordinal ?o + 1\<rparr>)"
    and l: "0 < len" "len \<le> max_len"
    using assms(2) by (auto simp: shell_next_command_def Let_def split: sum.splits prod.splits if_splits)
  note o = observe_output_refines [OF assms(1), of "take len command"]
  show "0 < len" "len \<le> max_len" by (rule l)+
  show "shell_inv s'" "ss_text s' = last_bytes (ss_text s @ take len command)"
    using o(1,3) by (auto simp: s' shell_inv_def ss_text_def)
  show "ss_read_phase s' = 1 - ss_read_phase s" "ss_ordinal s' = ss_ordinal s + ss_read_phase s"
    "ss_command s' = ss_command s"
    using o(2) assms(1) by (auto simp: s' same_control_def shell_inv_def)
qed

section \<open>What the server may answer\<close>

lemma copy_first_line_bounds:
  "copy_first_line lines out = Some (out', len) \<Longrightarrow> 0 < len \<and> len \<le> length out' \<and> length out' = length out"
  by (induction lines) (auto simp: Let_def min_def split: if_splits)

lemma server_attempts_admitted:
  "server_attempts http env endpoint attempt t phase ordinal cx out = Inr (out', len) \<Longrightarrow>
     local_llm_terminal_command_admitted_for_phase phase (take len out')
     \<and> 0 < len \<and> len \<le> length out' \<and> length out' = length out"
proof (induction http env endpoint attempt t phase ordinal cx out rule: server_attempts.induct)
  case (1 http env endpoint attempt t phase ordinal cx out)
  obtain response where r: "(case chat_complete http (2 * attempt) endpoint t phase ordinal cx of
        Inr response \<Rightarrow> Inr response
      | Inl _ \<Rightarrow> (case local_llm_prompt_for_server env t phase ordinal cx of
             Inl e \<Rightarrow> Inl e
           | Inr prompt \<Rightarrow> complete http (2 * attempt + 1) endpoint prompt)) = Inr response"
    and n: "\<not> 3 \<le> attempt"
    using 1(2) by (subst (asm) server_attempts.simps) (auto split: if_splits sum.splits)
  then obtain o1 l1 where c: "copy_llm_terminal_input_from_output response out = Some (o1, l1)"
    using 1(2) by (subst (asm) server_attempts.simps) (auto split: option.splits)
  then have b: "0 < l1 \<and> l1 \<le> length o1 \<and> length o1 = length out"
    by (auto simp: copy_llm_terminal_input_from_output_def dest: copy_first_line_bounds)
  show ?case
  proof (cases "local_llm_terminal_command_admitted_for_phase phase (take l1 o1)")
    case True
    with 1(2) r n c b show ?thesis by (subst (asm) server_attempts.simps) simp
  next
    case False
    with 1(2) r n c have "server_attempts http env endpoint (attempt + 1)
        (append_local_llm_shell_error t (take l1 o1)) phase ordinal cx o1 = Inr (out', len)"
      by (subst (asm) server_attempts.simps) simp
    with 1(1) [OF n r c refl False] b show ?thesis by simp
  qed
qed

text \<open>An attempt uses two requests at most.\<close>

lemma chat_complete_cong: "http i = http' i \<Longrightarrow> chat_complete http i = chat_complete http' i"
  by (simp add: fun_eq_iff chat_complete_def split: option.split sum.split)

lemma complete_cong: "http i = http' i \<Longrightarrow> complete http i = complete http' i"
  by (simp add: fun_eq_iff complete_def split: option.split)

lemma server_attempts_cong:
  assumes "\<And>i. i < 6 \<Longrightarrow> http i = http' i"
  shows "server_attempts http env endpoint (3 - k) t phase ordinal cx out
    = server_attempts http' env endpoint (3 - k) t phase ordinal cx out"
proof (induction k arbitrary: t out)
  case 0
  show ?case by (simp add: server_attempts.simps [of _ _ _ 3])
next
  case (Suc k)
  show ?case
  proof (cases "k < 3")
    case True
    then have a: "3 - Suc k < 3" "3 - Suc k + 1 = 3 - k" by auto
    have "chat_complete http (2 * (3 - Suc k)) = chat_complete http' (2 * (3 - Suc k))"
      "complete http (2 * (3 - Suc k) + 1) = complete http' (2 * (3 - Suc k) + 1)"
      using a by (auto intro!: chat_complete_cong complete_cong assms)
    then show ?thesis
      by (subst (1 2) server_attempts.simps) (simp only: a(2) Suc.IH cong: sum.case_cong option.case_cong if_cong)
  next
    case False
    then have "3 - Suc k = 3 - k" by simp
    then show ?thesis by (simp only: Suc.IH)
  qed
qed

section \<open>Properties\<close>

text \<open>C20: The shell source's transcript array holds the last 768 bytes of everything observed: its
  invariant is kept, a command that is handed out fits the reader and is appended to the
  transcript, and the phases alternate, the ordinal moving on after the second.\<close>

theorem shell_transcript_refines:
  assumes "shell_inv s" and "shell_next_command w (observe_shell_output s bs) max_len = Inr ((command, len), s')"
  shows "shell_inv s' \<and> ss_text s' = last_bytes (ss_text s @ bs @ take len command)
    \<and> 0 < len \<and> len \<le> max_len \<and> ss_read_phase s' = 1 - ss_read_phase s
    \<and> ss_ordinal s' = ss_ordinal s + ss_read_phase s"
proof -
  note o = observe_output_refines [OF assms(1), of bs]
  note n = next_command_refines [OF o(1) assms(2)]
  have "ss_text s' = last_bytes (ss_text s @ bs @ take len command)"
    using n(2) o(3) last_bytes_append [of "ss_text s @ bs" "take len command"] by simp
  with n o(2) show ?thesis by (simp add: same_control_def)
qed

theorem shell_transcript_refines_witness:
  "shell_inv (snd (projr (shell_next_command
      \<lparr>lw_env = \<lparr>env_prompt = None, env_self_mood = False, env_self_mood_prompt = None\<rparr>,
       lw_http = (\<lambda>i hp r. None), lw_child = (\<lambda>t p n c. None)\<rparr>
      (observe_shell_output (shell_source_new Scripted) [36, 32]) 30)))"
proof -
  let ?w = "\<lparr>lw_env = \<lparr>env_prompt = None, env_self_mood = False, env_self_mood_prompt = None\<rparr>,
       lw_http = (\<lambda>i hp r. None), lw_child = (\<lambda>t p n c. None)\<rparr>"
  let ?s = "observe_shell_output (shell_source_new Scripted) [36, 32]"
  have "same_control (shell_source_new Scripted) ?s"
    by (rule observe_output_refines(2) [OF shell_inv_new])
  then have "ss_command ?s = Scripted" "ss_read_phase ?s = 0"
    by (simp_all add: same_control_def shell_source_new_def)
  then obtain r where r: "shell_next_command ?w ?s 30 = Inr r"
    by (simp add: shell_next_command_def source_next_command_def scripted_ls_command Let_def)
  obtain c l s' where "r = ((c, l), s')" by (metis surj_pair)
  with r shell_transcript_refines [OF shell_inv_new, of ?w Scripted "[36, 32]" 30 c l s'] show ?thesis by simp
qed

text \<open>Whatever the server answers, a command that comes out of the retry loop is one the phase
  admits, is not empty and lies inside the buffer; and the loop asks at most six times, so that
  nothing the server would say after that matters.\<close>

theorem server_commands_admitted:
  assumes "server_next_command http env endpoint transcript phase ordinal cx out = Inr (out', len)"
    and "\<And>i. i < 6 \<Longrightarrow> http' i = http i"
  shows "local_llm_terminal_command_admitted_for_phase phase (take len out') \<and> 0 < len \<and> len \<le> length out
    \<and> server_next_command http' env endpoint transcript phase ordinal cx out = Inr (out', len)"
proof -
  have "server_next_command http env endpoint transcript phase ordinal cx out
      = server_next_command http' env endpoint transcript phase ordinal cx out"
    unfolding server_next_command_def
    using server_attempts_cong [of http http' env endpoint 3 transcript phase ordinal cx out] assms(2) by simp
  with assms(1) show ?thesis
    using server_attempts_admitted [of http env endpoint 0 transcript phase ordinal cx out out' len]
    by (auto simp: server_next_command_def)
qed

text \<open>A server that always gives the same answer.\<close>

definition fixed_server :: "rstring \<Rightarrow> http" where
  "fixed_server answer i hp request = Some (chars ''HTTP/1.1 200'' @ crlf @ crlf @ [34] @ chars ''content'' @ [34, 58]
     @ local_llm_json_string answer)"

definition plain_env :: llm_env where
  "plain_env = \<lparr>env_prompt = None, env_self_mood = False, env_self_mood_prompt = None\<rparr>"

lemma fixed_server_response:
  assumes "\<forall>c \<in> List.set answer. is_char c"
  shows "read_response (the (fixed_server answer i hp q)) = Inr answer"
proof -
  have "split_once ([34] @ chars ''content'' @ [34]) ([] @ [34] @ chars ''content'' @ [34]) = Some ([], [])"
    by code_simp
  then have f: "local_llm_json_string_field ([34] @ chars ''content'' @ [34, 58] @ local_llm_json_string answer) (chars ''content'')
      = Some answer"
    using json_field_read [of "chars ''content''" "[]" "[]" answer "[]"] assms by simp
  have "split_once (crlf @ crlf) (chars ''HTTP/1.1 200'' @ crlf @ crlf) = Some (chars ''HTTP/1.1 200'', [])"
    by code_simp
  then have b: "split_once (crlf @ crlf) (chars ''HTTP/1.1 200'' @ crlf @ crlf @ x) = Some (chars ''HTTP/1.1 200'', x)" for x
    using split_once_append [of "crlf @ crlf" "chars ''HTTP/1.1 200''" x] by simp
  have h: "starts_with (chars ''HTTP/1.1 200'') (chars ''HTTP/1.1 200'' @ x)" for x
    by (simp add: starts_with_def)
  show ?thesis
    unfolding fixed_server_def option.sel read_response_def b option.case prod.case Let_def f using h by simp
qed

lemma chat_user_prompt_total: "\<exists>user. local_llm_chat_user_prompt t phase ordinal cx = Inr user"
proof -
  obtain label where l: "local_llm_face_label_for_ordinal ordinal = Inr label"
    "(label, face_for_ordinal ordinal) \<in> List.set shown_labels" by (rule face_label_of_ordinal)
  have "list_all (\<lambda>(l, f). from_utf8 l \<noteq> None) shown_labels" by code_simp
  with l have "from_utf8 label \<noteq> None" by (auto simp: list_all_iff)
  with l show ?thesis by (auto simp: local_llm_chat_user_prompt_def Let_def label_str_def)
qed

lemma fixed_server_command:
  assumes "\<forall>c \<in> List.set answer. is_char c" "copy_llm_terminal_input_from_output answer out = Some (out', len)"
    "local_llm_terminal_command_admitted_for_phase phase (take len out')"
  shows "server_next_command (fixed_server answer) env (chars ''http://h:80'') t phase ordinal cx out = Inr (out', len)"
proof -
  have e: "local_llm_http_endpoint_parts (chars ''http://h:80'') = Some ([104], 80)"
    by (simp add: local_llm_http_endpoint_parts_def starts_with_def rsplit_once_char_def parse_u16_def chars_def)
  obtain user where "local_llm_chat_user_prompt t phase ordinal cx = Inr user" using chat_user_prompt_total by blast
  then have "chat_complete (fixed_server answer) 0 (chars ''http://h:80'') t phase ordinal cx = Inr answer"
    using fixed_server_response [OF assms(1)] by (simp add: chat_complete_def e fixed_server_def)
  with assms(2,3) show ?thesis
    by (simp add: server_next_command_def server_attempts.simps [of _ _ _ 0])
qed

lemma copy_ls: "copy_llm_terminal_input_from_output (chars ''ls'') (replicate 96 0) = Some ([108, 115, 10] @ replicate 93 0, 3)"
  by (simp add: copy_llm_terminal_input_from_output_def text_lines.simps chars_def trim_def trim_start_def
      is_whitespace_def as_bytes_def utf8_char_def blit_def numeral_eq_Suc Let_def)

lemma admitted_ls: "local_llm_terminal_command_admitted_for_phase 0 [108, 115, 10]"
  by code_simp

lemma ls_server_command:
  "server_next_command (fixed_server (chars ''ls'')) env (chars ''http://h:80'') t 0 ordinal cx (replicate 96 0)
     = Inr ([108, 115, 10] @ replicate 93 0, 3)"
  by (rule fixed_server_command) (use copy_ls admitted_ls in \<open>simp_all add: is_char_def chars_def\<close>)

theorem server_commands_admitted_witness:
  "local_llm_terminal_command_admitted_for_phase 0 (take 3 ([108, 115, 10] @ replicate 93 0)) \<and> 0 < (3 :: nat) \<and> 3 \<le> length (replicate 96 (0 :: u8))
    \<and> server_next_command (\<lambda>i. if 6 \<le> i then (\<lambda>_ _. None) else fixed_server (chars ''ls'') i)
        plain_env (chars ''http://h:80'') [] 0 0 \<lparr>pc_human_request = None, pc_sensor_sample = sensor_sample_pending 0\<rparr>
        (replicate 96 0) = Inr ([108, 115, 10] @ replicate 93 0, 3)"
  by (rule server_commands_admitted [OF ls_server_command]) simp

end
