(* ===== verification/Shell_Guest.thy ===== *)
theory Shell_Guest
  imports Shell_Command
begin

text \<open>
  The shell itself: the two WASI guests
  \<open>examples/uno-q-heterogeneous/wasip1/guest/src/bin/uno-q-llm-face-shell-loop.rs\<close> and
  \<open>uno-q-llm-face-shell.rs\<close>, which differ only in that the second stops after one frame. The
  files they open are a parameter: a read and a write take the state of the outside world and
  return the new one, or nothing when they fail.
\<close>

section \<open>Commands\<close>

datatype shell_command = ShCatalog | ShFace u8 | ShInvalid

definition SHELL_PROMPT :: bytes where "SHELL_PROMPT = ascii ''$ ''"
definition SHELL_CATALOG :: bytes where "SHELL_CATALOG = ascii ''w /face/frame FaceFrame'' @ [10] @ ascii ''$ ''"
definition SHELL_INVALID_COMMAND :: bytes where
  "SHELL_INVALID_COMMAND = ascii ''err /face/frame h,a,s,u,mw'' @ [10] @ ascii ''$ ''"
definition PROOF_FRAME_COUNT :: nat where "PROOF_FRAME_COUNT = 1"

definition is_catalog_discovery_command :: "bytes \<Rightarrow> bool" where
  "is_catalog_discovery_command c \<longleftrightarrow>
     (length c = 2 \<and> c ! 0 = 108 \<and> c ! 1 = 115)
     \<or> (length c = 21 \<and> take 5 c = ascii ''find '' \<and> (c ! 5 = 67 \<or> c ! 5 = 99)
        \<and> take 5 (drop 6 c) = ascii ''horeo'' \<and> (c ! 11 = 70 \<or> c ! 11 = 102)
        \<and> (c ! 12 = 83 \<or> c ! 12 = 115) \<and> drop 13 c = ascii '' -type f'')
     \<or> (length c = 14 \<and> take 5 c = ascii ''find '' \<and> (c ! 5 = 46 \<or> c ! 5 = 47)
        \<and> drop 6 c = ascii '' -type f'')"

definition decode_face_code :: "bytes \<Rightarrow> u8 option" where
  "decode_face_code face =
     (if length face = 1 \<and> face ! 0 = 104 then Some 1
      else if length face = 1 \<and> face ! 0 = 115 then Some 2
      else if length face = 1 \<and> face ! 0 = 97 then Some 3
      else if length face = 1 \<and> face ! 0 = 117 then Some 4
      else if length face = 2 \<and> face ! 0 = 109 \<and> face ! 1 = 99 then Some 16
      else if length face = 2 \<and> face ! 0 = 109 \<and> face ! 1 = 115 then Some 17
      else if length face = 2 \<and> face ! 0 = 109 \<and> face ! 1 = 119 then Some 18
      else if length face = 2 \<and> face ! 0 = 109 \<and> face ! 1 = 114 then Some 19
      else None)"

definition decode_echo_face_command :: "bytes \<Rightarrow> u8 option" where
  "decode_echo_face_command command =
     (let prefix = ascii ''echo ''; redirect = ascii '' > /face/frame'' in
      if length command \<le> length prefix + length redirect
        \<or> take (length prefix) command \<noteq> prefix
        \<or> drop (length command - length redirect) command \<noteq> redirect
      then None
      else decode_face_code (drop (length prefix) (take (length command - length redirect) command)))"

text \<open>What \<open>read_command\<close> makes of the bytes that were read.\<close>

definition parse_command :: "bytes \<Rightarrow> shell_command" where
  "parse_command buffer =
     (let command = (if buffer \<noteq> [] \<and> last buffer = 10 then butlast buffer else buffer) in
      if is_catalog_discovery_command command then ShCatalog
      else case decode_echo_face_command command of Some f \<Rightarrow> ShFace f | None \<Rightarrow> ShInvalid)"

section \<open>The loop\<close>

datatype guest_file = LlmStdout | FaceFrameFile

record 's files =
  f_read :: "nat \<Rightarrow> 's \<Rightarrow> (bytes \<times> 's) option"
  f_write :: "guest_file \<Rightarrow> bytes \<Rightarrow> 's \<Rightarrow> 's option"

definition READ_BUFFER :: nat where "READ_BUFFER = 30"

definition read_command :: "'s files \<Rightarrow> 's \<Rightarrow> (shell_command \<times> 's) option" where
  "read_command fs s =
     (case f_read fs READ_BUFFER s of None \<Rightarrow> None | Some (bs, s) \<Rightarrow> Some (parse_command bs, s))"

text \<open>One round of the loop.\<close>

definition guest_round :: "'s files \<Rightarrow> u8 \<times> 's \<Rightarrow> (u8 \<times> 's) option" where
  "guest_round fs = (\<lambda>(ordinal, s).
     (case read_command fs s of
        None \<Rightarrow> None
      | Some (command, s) \<Rightarrow>
          (case command of
             ShCatalog \<Rightarrow> map_option (\<lambda>s. (ordinal, s)) (f_write fs LlmStdout SHELL_CATALOG s)
           | ShInvalid \<Rightarrow> map_option (\<lambda>s. (ordinal, s)) (f_write fs LlmStdout SHELL_INVALID_COMMAND s)
           | ShFace face_kind \<Rightarrow>
               (case f_write fs FaceFrameFile [face_kind, ordinal] s of
                  None \<Rightarrow> None
                | Some s \<Rightarrow> map_option (\<lambda>s. (ordinal + 1, s)) (f_write fs LlmStdout SHELL_PROMPT s)))))"

fun guest_rounds :: "'s files \<Rightarrow> nat \<Rightarrow> u8 \<times> 's \<Rightarrow> (u8 \<times> 's) option" where
  "guest_rounds fs 0 g = Some g"
| "guest_rounds fs (Suc n) g = (case guest_round fs g of None \<Rightarrow> None | Some g \<Rightarrow> guest_rounds fs n g)"

text \<open>The first \<open>n\<close> rounds of the endless guest, after the prompt it begins with.\<close>

definition guest_run :: "'s files \<Rightarrow> nat \<Rightarrow> 's \<Rightarrow> (u8 \<times> 's) option" where
  "guest_run fs n s =
     (case f_write fs LlmStdout SHELL_PROMPT s of None \<Rightarrow> None | Some s \<Rightarrow> guest_rounds fs n (0, s))"

text \<open>The other guest stops once it has written \<open>PROOF_FRAME_COUNT\<close> frames; the shell may be asked
  for anything but a frame for ever, so its rounds are a partial function.\<close>

partial_function (option) guest_once_rounds :: "'s files \<Rightarrow> u8 \<times> 's \<Rightarrow> (u8 \<times> 's) option option" where
  "guest_once_rounds fs g =
     (if unat (fst g) < PROOF_FRAME_COUNT
      then (case guest_round fs g of None \<Rightarrow> Some None | Some g \<Rightarrow> guest_once_rounds fs g)
      else Some (Some g))"

definition guest_once :: "'s files \<Rightarrow> 's \<Rightarrow> (u8 \<times> 's) option option" where
  "guest_once fs s =
     (case f_write fs LlmStdout SHELL_PROMPT s of None \<Rightarrow> Some None | Some s \<Rightarrow> guest_once_rounds fs (0, s))"

end
