(* ===== verification/Face_Session.thy ===== *)
theory Face_Session
  imports Shell_Source Shell_Guest
begin

text \<open>
  The face shell end to end (\<open>examples/uno-q-heterogeneous/src/lib.rs\<close>): the choreography the
  session follows, the display driver of the M33 (\<open>drive_face_frame_loop\<close>), and the guest of
  Shell_Guest whose files are the terminal of Shell_Source and that driver. The combinators of
  the \<open>hibana\<close> crate are constructors here, and the ledger of its \<open>choreofs\<close> module is a parameter.
\<close>

section \<open>The choreography\<close>

datatype message = PathOpenReq | PathOpenRet | FdReadReq | FdReadRet | FdWriteReq | FdWriteRet
  | HumanInputReq | HumanInputText | HumanInputAck | Pico2wSensorReq | Pico2wSensorSample | Pico2wSensorAck

datatype choreography = g_send u8 u8 message | g_seq choreography choreography
  | g_par choreography choreography | g_roll choreography

definition stdout_write :: choreography where
  "stdout_write = g_seq (g_send ROLE_WASI_LLM_CELL ROLE_LOCAL_LLM FdWriteReq)
     (g_send ROLE_LOCAL_LLM ROLE_WASI_LLM_CELL FdWriteRet)"

definition human_input_turn :: choreography where
  "human_input_turn = g_seq (g_send ROLE_LOCAL_LLM ROLE_HUMAN_INPUT HumanInputReq)
     (g_seq (g_send ROLE_HUMAN_INPUT ROLE_LOCAL_LLM HumanInputText)
            (g_send ROLE_LOCAL_LLM ROLE_HUMAN_INPUT HumanInputAck))"

definition pico2w_sensor_turn :: choreography where
  "pico2w_sensor_turn = g_seq (g_send ROLE_LOCAL_LLM ROLE_PICO2W_SENSOR Pico2wSensorReq)
     (g_seq (g_send ROLE_PICO2W_SENSOR ROLE_LOCAL_LLM Pico2wSensorSample)
            (g_send ROLE_LOCAL_LLM ROLE_PICO2W_SENSOR Pico2wSensorAck))"

definition input_context_turn :: choreography where
  "input_context_turn = g_par human_input_turn pico2w_sensor_turn"

definition stdin_read :: choreography where
  "stdin_read = g_seq (g_send ROLE_WASI_LLM_CELL ROLE_LOCAL_LLM FdReadReq)
     (g_seq input_context_turn (g_send ROLE_LOCAL_LLM ROLE_WASI_LLM_CELL FdReadRet))"

definition face_frame_commit :: choreography where
  "face_frame_commit = g_seq (g_send ROLE_WASI_LLM_CELL ROLE_M33_LED_KERNEL FdWriteReq)
     (g_send ROLE_M33_LED_KERNEL ROLE_WASI_LLM_CELL FdWriteRet)"

definition frame_cycle :: choreography where
  "frame_cycle = g_seq stdin_read (g_seq stdout_write (g_seq stdin_read (g_seq face_frame_commit stdout_write)))"

definition uno_q_choreography :: choreography where
  "uno_q_choreography =
     g_seq (g_send ROLE_WASI_LLM_CELL ROLE_LOCAL_LLM PathOpenReq)
    (g_seq (g_send ROLE_LOCAL_LLM ROLE_WASI_LLM_CELL PathOpenRet)
    (g_seq (g_send ROLE_WASI_LLM_CELL ROLE_LOCAL_LLM PathOpenReq)
    (g_seq (g_send ROLE_LOCAL_LLM ROLE_WASI_LLM_CELL PathOpenRet)
    (g_seq (g_send ROLE_WASI_LLM_CELL ROLE_M33_LED_KERNEL PathOpenReq)
    (g_seq (g_send ROLE_M33_LED_KERNEL ROLE_WASI_LLM_CELL PathOpenRet)
    (g_seq stdout_write (g_roll frame_cycle)))))))"

text \<open>What a role sends, in the order the choreography names it, a loop once round.\<close>

fun sends_by :: "u8 \<Rightarrow> choreography \<Rightarrow> (u8 \<times> message) list" where
  "sends_by r (g_send a b m) = (if a = r then [(b, m)] else [])"
| "sends_by r (g_seq a b) = sends_by r a @ sends_by r b"
| "sends_by r (g_par a b) = sends_by r a @ sends_by r b"
| "sends_by r (g_roll a) = sends_by r a"

lemmas choreography_defs =
  stdout_write_def human_input_turn_def pico2w_sensor_turn_def input_context_turn_def stdin_read_def
  face_frame_commit_def frame_cycle_def ROLE_WASI_LLM_CELL_def ROLE_M33_LED_KERNEL_def
  ROLE_LOCAL_LLM_def ROLE_HUMAN_INPUT_def ROLE_PICO2W_SENSOR_def

section \<open>The display driver\<close>

definition FACE_FRAME_FD :: u8 where "FACE_FRAME_FD = 15"
definition FD_WRITE_RIGHT :: u64 where "FD_WRITE_RIGHT = push_bit 6 1"
definition FACE_FRAME_OBJECT :: nat where "FACE_FRAME_OBJECT = 71005"

text \<open>The object and the rights the ledger holds for a descriptor.\<close>

type_synonym ledger = "u8 \<Rightarrow> (nat \<times> u64) option"

definition expect_fd_object :: "ledger \<Rightarrow> u8 \<Rightarrow> nat \<Rightarrow> u64 \<Rightarrow> unoq_error + unit" where
  "expect_fd_object ledger fd object rights =
     (case ledger fd of
        None \<Rightarrow> Inl RuntimeViolation
      | Some (obj, r) \<Rightarrow> if obj \<noteq> object \<or> r \<noteq> rights then Inl RuntimeViolation else Inr ())"

record face_driver =
  fd_ordinal :: u8
  fd_shown :: "u8 list"

text \<open>What the endpoint does in a turn of the loop: it fails to offer a branch, offers one of another
  label, fails to receive the request, or hands out a write to a descriptor and then sends the reply
  or fails to.\<close>

datatype face_turn = Offer_Failed | Other_Label | Recv_Failed | Face_Write u8 bytes bool

text \<open>One turn of the loop, with the error that ends it. \<open>decode_payload\<close> is the method that frames
  inherit from \<open>hibana\<close>'s wire trait. The face is on the display before the reply is sent.\<close>

definition drive_face_frame ::
    "ledger \<Rightarrow> (bytes \<Rightarrow> (codec_error + face_frame) outcome) \<Rightarrow> face_driver \<Rightarrow> face_turn
      \<Rightarrow> (face_driver \<times> unoq_error option) outcome" where
  "drive_face_frame ledger decode_payload d turn =
     (case turn of
        Offer_Failed \<Rightarrow> Done (d, Some EndpointError)
      | Other_Label \<Rightarrow> Done (d, Some RuntimeViolation)
      | Recv_Failed \<Rightarrow> Done (d, Some EndpointError)
      | Face_Write fd bs reply_sent \<Rightarrow>
          (case expect_fd_object ledger fd FACE_FRAME_OBJECT FD_WRITE_RIGHT of
             Inl e \<Rightarrow> Done (d, Some e)
           | Inr _ \<Rightarrow> bind_outcome (decode_payload bs) (\<lambda>decoded.
               case decoded of
                 Inl e \<Rightarrow> Done (d, Some (ProtocolError e))
               | Inr frame \<Rightarrow>
                   if ff_ordinal frame \<noteq> fd_ordinal d then Done (d, Some RuntimeViolation)
                   else
                     let d = d\<lparr>fd_shown := fd_shown d @ [ff_face frame]\<rparr> in
                     if \<not> reply_sent then Done (d, Some EndpointError)
                     else Done (d\<lparr>fd_ordinal := fd_ordinal d + 1\<rparr>, None))))"

text \<open>The trait's own method, which no type of the repository overrides: check, then decode.\<close>

definition face_frame_decode_payload :: "bytes \<Rightarrow> (codec_error + face_frame) outcome" where
  "face_frame_decode_payload bs =
     (case face_frame_validate bs of
        Inl e \<Rightarrow> Done (Inl e)
      | Inr _ \<Rightarrow> bind_outcome (face_frame_decode_validated bs) (\<lambda>frame. Done (Inr frame)))"

section \<open>The session\<close>

text \<open>A session over endpoints whose calls succeed. A role that ends with an error of its own ends the
  session.\<close>

record face_session =
  fs_source :: shell_source
  fs_driver :: face_driver
  fs_turn :: nat
  fs_sent :: "(u8 \<times> message) list"

type_synonym inputs = "nat \<Rightarrow> human_input_text \<times> sensor_sample"

definition session_read :: "llm_world \<Rightarrow> inputs \<Rightarrow> nat \<Rightarrow> face_session \<Rightarrow> (bytes \<times> face_session) option" where
  "session_read w inputs max_len s =
     (case complete_stdin_read_with_input_context w (\<lambda>_ _. None) (\<lambda>_. True) (fs_source s) (fst (inputs (fs_turn s)))
         (snd (inputs (fs_turn s))) LLM_STDIN_FD max_len of
        Inl e \<Rightarrow> None
      | Inr (bs, source) \<Rightarrow>
          Some (bs, s\<lparr>fs_source := source, fs_turn := fs_turn s + 1,
                      fs_sent := fs_sent s @ [(ROLE_LOCAL_LLM, FdReadReq)]\<rparr>))"

definition session_write :: "ledger \<Rightarrow> guest_file \<Rightarrow> bytes \<Rightarrow> face_session \<Rightarrow> face_session option" where
  "session_write ledger file bs s =
     (case file of
        LlmStdout \<Rightarrow>
          (case complete_local_llm_stdout_write True (fs_source s) LLM_STDOUT_FD bs of
             Inl e \<Rightarrow> None
           | Inr source \<Rightarrow> Some (s\<lparr>fs_source := source, fs_sent := fs_sent s @ [(ROLE_LOCAL_LLM, FdWriteReq)]\<rparr>))
      | FaceFrameFile \<Rightarrow>
          (case drive_face_frame ledger face_frame_decode_payload (fs_driver s) (Face_Write FACE_FRAME_FD bs True) of
             Done (d, None) \<Rightarrow>
               Some (s\<lparr>fs_driver := d, fs_sent := fs_sent s @ [(ROLE_M33_LED_KERNEL, FdWriteReq)]\<rparr>)
           | _ \<Rightarrow> None))"

definition session_files :: "llm_world \<Rightarrow> ledger \<Rightarrow> inputs \<Rightarrow> face_session files" where
  "session_files w ledger inputs = \<lparr>f_read = session_read w inputs, f_write = session_write ledger\<rparr>"

definition session_start :: "command_source \<Rightarrow> face_session" where
  "session_start c = \<lparr>fs_source = shell_source_new c, fs_driver = \<lparr>fd_ordinal = 0, fd_shown = []\<rparr>,
     fs_turn = 0, fs_sent = []\<rparr>"

text \<open>What a turn's inputs tell the client.\<close>

definition turn_context :: "human_input_text \<times> sensor_sample \<Rightarrow> prompt_context" where
  "turn_context i =
     \<lparr>pc_human_request = (if human_input_is_empty (fst i) then None else from_utf8 (human_input_as_bytes (fst i))),
      pc_sensor_sample = snd i\<rparr>"

section \<open>One turn\<close>

lemma guest_parses_echo:
  assumes "(label, face) \<in> List.set shown_labels"
  shows "parse_command (echo_line label) = ShFace face"
proof -
  have "list_all (\<lambda>(l, f). parse_command (echo_line l) = ShFace f) shown_labels" by code_simp
  with assms show ?thesis by (auto simp: list_all_iff)
qed

lemma guest_parses_ls: "parse_command (ascii ''ls'' @ [10]) = ShCatalog"
  by code_simp

text \<open>The faces of the shell are frames of the driver.\<close>

lemma drive_shown_face:
  assumes "ledger FACE_FRAME_FD = Some (FACE_FRAME_OBJECT, FD_WRITE_RIGHT)" "(label, face) \<in> List.set shown_labels"
  shows "drive_face_frame ledger face_frame_decode_payload d (Face_Write FACE_FRAME_FD [face, fd_ordinal d] True)
    = Done (\<lparr>fd_ordinal = fd_ordinal d + 1, fd_shown = fd_shown d @ [face]\<rparr>, None)"
proof -
  have "validate_display_face face = Inr ()"
    using assms(2) by (auto simp: shown_labels_def validate_display_face_def)
  with assms(1) show ?thesis
    by (simp add: drive_face_frame_def face_frame_decode_payload_def expect_fd_object_def wire_simps)
qed

lemma observe_inputs:
  assumes "human_input_wf h"
  obtains s' where "observe_human_input s h = Inr s'"
    "ss_context (observe_pico2w_sensor_sample s' p) = turn_context (h, p)"
    "ss_read_phase s' = ss_read_phase s" "ss_ordinal s' = ss_ordinal s" "ss_command s' = ss_command s"
    "shell_inv s \<Longrightarrow> shell_inv s'"
proof -
  from assms obtain t where "human_input_from_bytes t = Inr h" by (auto simp: human_input_wf_def)
  then have "utf8_valid (human_input_as_bytes h)"
    by (elim human_input_from_bytesE) (simp add: human_input_from_bytes_def split: if_splits)
  then have "human_input_as_str h = Inr (human_input_as_bytes h)" by (simp add: human_input_as_str_def)
  then show thesis
    by (intro that [of "s\<lparr>ss_human_request := (if human_input_is_empty h then None else from_utf8 (human_input_as_bytes h))\<rparr>"])
      (auto simp: observe_human_input_def ss_context_def observe_pico2w_sensor_sample_def turn_context_def shell_inv_def)
qed

text \<open>A scripted read hands out the line of its turn.\<close>

definition scripted_line :: "shell_source \<Rightarrow> human_input_text \<times> sensor_sample \<Rightarrow> bytes \<Rightarrow> bool" where
  "scripted_line s i bs \<longleftrightarrow>
     (if ss_read_phase s = 0 then bs = ascii ''ls'' @ [10]
      else \<exists>label. (label, scripted_face (turn_context i) (ss_ordinal s)) \<in> List.set shown_labels \<and> bs = echo_line label)"

lemma scripted_read:
  assumes "shell_inv s" "ss_command s = Scripted" "human_input_wf (fst i)" "22 \<le> max_len"
  obtains bs s' where "complete_stdin_read_with_input_context w (\<lambda>_ _. None) (\<lambda>_. True) s (fst i) (snd i) LLM_STDIN_FD max_len = Inr (bs, s')"
    "scripted_line s i bs" "shell_inv s'" "ss_command s' = Scripted"
    "ss_read_phase s' = 1 - ss_read_phase s" "ss_ordinal s' = ss_ordinal s + ss_read_phase s"
proof -
  obtain s1 where s1: "observe_human_input s (fst i) = Inr s1"
    "ss_context (observe_pico2w_sensor_sample s1 (snd i)) = turn_context i"
    "ss_read_phase s1 = ss_read_phase s" "ss_ordinal s1 = ss_ordinal s" "ss_command s1 = Scripted" "shell_inv s1"
    using observe_inputs [OF assms(3), of s "snd i"] assms(1,2) by (metis prod.collapse)
  define s2 where "s2 = observe_pico2w_sensor_sample s1 (snd i)"
  have s2: "ss_context s2 = turn_context i" "ss_read_phase s2 = ss_read_phase s" "ss_ordinal s2 = ss_ordinal s"
    "ss_command s2 = Scripted" "shell_inv s2"
    using s1 by (simp_all add: s2_def observe_pico2w_sensor_sample_def shell_inv_def)
  obtain bs rest where c: "scripted_next_command (ss_read_phase s2) (ss_ordinal s2) (ss_context s2)
      (replicate 96 0) = Inr (bs @ rest, length bs)"
    and bs: "scripted_line s i bs" and len: "0 < length bs" "length bs \<le> 22"
  proof (cases "ss_read_phase s = 0")
    case True
    have "scripted_next_command (ss_read_phase s2) (ss_ordinal s2) (ss_context s2) (replicate 96 0)
        = Inr ((ascii ''ls'' @ [10]) @ drop 3 (replicate 96 0), length (ascii ''ls'' @ [10]))"
      using True s2(2) by (simp add: scripted_ls_command)
    with True show thesis by (intro that) (auto simp: scripted_line_def)
  next
    case False
    obtain label where l: "(label, scripted_face (ss_context s2) (ss_ordinal s2)) \<in> List.set shown_labels"
      "scripted_next_command (ss_read_phase s2) (ss_ordinal s2) (ss_context s2) (replicate 96 0)
        = Inr (echo_line label @ drop (length label + 20) (replicate 96 0), length label + 20)"
      by (rule scripted_face_command [of "ss_read_phase s2" "replicate 96 0"]) (use False s2(2) in auto)
    have "length (echo_line label) = length label + 20" by (simp add: echo_line_def)
    with False l s2(1,3) shown_label_short [OF l(1)] show thesis
      by (intro that [of "echo_line label" "drop (length label + 20) (replicate 96 0)"])
        (auto simp: scripted_line_def)
  qed
  obtain s3 where n: "shell_next_command w s2 max_len = Inr ((bs @ rest, length bs), s3)"
    using c len assms(4) s2(4) by (simp add: shell_next_command_def source_next_command_def Let_def)
  note n' = next_command_refines [OF s2(5) n]
  have "complete_stdin_read_with_input_context w (\<lambda>_ _. None) (\<lambda>_. True) s (fst i) (snd i) LLM_STDIN_FD max_len = Inr (bs, s3)"
    using s1(1) n assms(4)
    by (simp add: complete_stdin_read_with_input_context_def complete_local_llm_stdin_read_def s2_def)
  then show thesis using bs n' s2 by (intro that) auto
qed

section \<open>A cycle\<close>

definition at_cycle :: "face_session \<Rightarrow> bool" where
  "at_cycle s \<longleftrightarrow> shell_inv (fs_source s) \<and> ss_command (fs_source s) = Scripted
     \<and> ss_read_phase (fs_source s) = 0 \<and> fd_ordinal (fs_driver s) = ss_ordinal (fs_source s)"

lemma stdout_ok: "complete_local_llm_stdout_write True s LLM_STDOUT_FD bs = Inr (observe_shell_output s bs)"
  by (simp add: complete_local_llm_stdout_write_def)

lemma observe_keeps:
  assumes "shell_inv s"
  shows "shell_inv (observe_shell_output s bs)" "ss_command (observe_shell_output s bs) = ss_command s"
    "ss_read_phase (observe_shell_output s bs) = ss_read_phase s" "ss_ordinal (observe_shell_output s bs) = ss_ordinal s"
  using observe_output_refines(1,2) [OF assms, of bs] by (auto simp: same_control_def)

lemma wasi_cycle_sends:
  "sends_by ROLE_WASI_LLM_CELL frame_cycle
     = [(ROLE_LOCAL_LLM, FdReadReq), (ROLE_LOCAL_LLM, FdWriteReq), (ROLE_LOCAL_LLM, FdReadReq),
        (ROLE_M33_LED_KERNEL, FdWriteReq), (ROLE_LOCAL_LLM, FdWriteReq)]"
  by (simp add: choreography_defs)

lemma session_cycle:
  assumes s: "at_cycle s"
    and l: "ledger FACE_FRAME_FD = Some (FACE_FRAME_OBJECT, FD_WRITE_RIGHT)" and h: "\<And>i. human_input_wf (fst (inputs i))"
  obtains s' where
    "guest_rounds (session_files w ledger inputs) 2 (ss_ordinal (fs_source s), s) = Some (ss_ordinal (fs_source s'), s')"
    "at_cycle s'" "ss_ordinal (fs_source s') = ss_ordinal (fs_source s) + 1" "fs_turn s' = fs_turn s + 2"
    "fd_shown (fs_driver s') = fd_shown (fs_driver s)
       @ [scripted_face (turn_context (inputs (fs_turn s + 1))) (ss_ordinal (fs_source s))]"
    "fs_sent s' = fs_sent s @ sends_by ROLE_WASI_LLM_CELL frame_cycle"
proof -
  let ?src = "fs_source s" and ?fs = "session_files w ledger inputs" and ?t = "fs_turn s"
  obtain s1 where r1: "complete_stdin_read_with_input_context w (\<lambda>_ _. None) (\<lambda>_. True) ?src (fst (inputs ?t)) (snd (inputs ?t)) LLM_STDIN_FD 30
        = Inr (ascii ''ls'' @ [10], s1)"
    and s1: "shell_inv s1" "ss_command s1 = Scripted" "ss_read_phase s1 = 1" "ss_ordinal s1 = ss_ordinal ?src"
  proof (rule scripted_read [of ?src "inputs ?t" 30 w])
    fix bs s'
    assume "scripted_line ?src (inputs ?t) bs" "complete_stdin_read_with_input_context w (\<lambda>_ _. None) (\<lambda>_. True) ?src (fst (inputs ?t)) (snd (inputs ?t))
        LLM_STDIN_FD 30 = Inr (bs, s')" "shell_inv s'" "ss_command s' = Scripted"
      "ss_read_phase s' = 1 - ss_read_phase ?src" "ss_ordinal s' = ss_ordinal ?src + ss_read_phase ?src"
    then show thesis using that [of s'] s by (auto simp: scripted_line_def at_cycle_def)
  qed (use s h in \<open>auto simp: at_cycle_def\<close>)
  define s2 where "s2 = observe_shell_output s1 SHELL_CATALOG"
  have s2: "shell_inv s2" "ss_command s2 = Scripted" "ss_read_phase s2 = 1" "ss_ordinal s2 = ss_ordinal ?src"
    using observe_keeps [OF s1(1), of SHELL_CATALOG] s1 by (simp_all add: s2_def)
  define face where "face = scripted_face (turn_context (inputs (?t + 1))) (ss_ordinal ?src)"
  obtain label s3 where r2: "complete_stdin_read_with_input_context w (\<lambda>_ _. None) (\<lambda>_. True) s2 (fst (inputs (?t + 1))) (snd (inputs (?t + 1)))
        LLM_STDIN_FD 30 = Inr (echo_line label, s3)"
    and label: "(label, face) \<in> List.set shown_labels"
    and s3: "shell_inv s3" "ss_command s3 = Scripted" "ss_read_phase s3 = 0" "ss_ordinal s3 = ss_ordinal ?src + 1"
  proof (rule scripted_read [of s2 "inputs (?t + 1)" 30 w])
    fix bs s'
    assume "scripted_line s2 (inputs (?t + 1)) bs" "complete_stdin_read_with_input_context w (\<lambda>_ _. None) (\<lambda>_. True) s2 (fst (inputs (?t + 1)))
        (snd (inputs (?t + 1))) LLM_STDIN_FD 30 = Inr (bs, s')" "shell_inv s'" "ss_command s' = Scripted"
      "ss_read_phase s' = 1 - ss_read_phase s2" "ss_ordinal s' = ss_ordinal s2 + ss_read_phase s2"
    then show thesis using that s2 by (auto simp: scripted_line_def face_def)
  qed (use s2 h in auto)
  define s4 where "s4 = observe_shell_output s3 SHELL_PROMPT"
  have s4: "shell_inv s4" "ss_command s4 = Scripted" "ss_read_phase s4 = 0" "ss_ordinal s4 = ss_ordinal ?src + 1"
    using observe_keeps [OF s3(1), of SHELL_PROMPT] s3 by (simp_all add: s4_def)
  define a where "a = s\<lparr>fs_source := s2, fs_turn := ?t + 1,
      fs_sent := fs_sent s @ [(ROLE_LOCAL_LLM, FdReadReq), (ROLE_LOCAL_LLM, FdWriteReq)]\<rparr>"
  define b where "b = a\<lparr>fs_source := s4, fs_turn := ?t + 2,
      fs_driver := \<lparr>fd_ordinal = ss_ordinal ?src + 1, fd_shown = fd_shown (fs_driver s) @ [face]\<rparr>,
      fs_sent := fs_sent a @ [(ROLE_LOCAL_LLM, FdReadReq), (ROLE_M33_LED_KERNEL, FdWriteReq), (ROLE_LOCAL_LLM, FdWriteReq)]\<rparr>"
  have g1: "guest_round ?fs (ss_ordinal ?src, s) = Some (ss_ordinal ?src, a)"
    using r1 by (simp add: guest_round_def read_command_def session_files_def session_read_def session_write_def
        guest_parses_ls stdout_ok READ_BUFFER_def a_def s2_def)
  have drv: "drive_face_frame ledger face_frame_decode_payload (fs_driver s)
        (Face_Write FACE_FRAME_FD [face, ss_ordinal ?src] True)
      = Done (\<lparr>fd_ordinal = ss_ordinal ?src + 1, fd_shown = fd_shown (fs_driver s) @ [face]\<rparr>, None)"
    using drive_shown_face [of ledger label face "fs_driver s"] l label s by (simp add: at_cycle_def)
  have g2: "guest_round ?fs (ss_ordinal ?src, a) = Some (ss_ordinal ?src + 1, b)"
    using r2 drv by (simp add: guest_round_def read_command_def session_files_def session_read_def session_write_def
        guest_parses_echo [OF label] stdout_ok READ_BUFFER_def a_def b_def s4_def)
  have "guest_rounds ?fs 2 (ss_ordinal ?src, s) = Some (ss_ordinal (fs_source b), b)"
    using g1 g2 s4 by (simp add: numeral_2_eq_2 b_def)
  then show thesis
    using s4 by (intro that [of b]) (simp_all add: a_def b_def at_cycle_def wasi_cycle_sends face_def)
qed

lemma session_cycles:
  assumes "at_cycle s" "ss_ordinal (fs_source s) = of_nat k" "fs_turn s = 2 * k"
    and l: "ledger FACE_FRAME_FD = Some (FACE_FRAME_OBJECT, FD_WRITE_RIGHT)" and h: "\<And>i. human_input_wf (fst (inputs i))"
  shows "\<exists>s'. guest_rounds (session_files w ledger inputs) (2 * n) (of_nat k, s) = Some (of_nat (k + n), s')
    \<and> fd_ordinal (fs_driver s') = of_nat (k + n)
    \<and> fd_shown (fs_driver s') = fd_shown (fs_driver s)
        @ map (\<lambda>i. scripted_face (turn_context (inputs (2 * i + 1))) (of_nat i)) [k..<k + n]
    \<and> fs_sent s' = fs_sent s @ concat (replicate n (sends_by ROLE_WASI_LLM_CELL frame_cycle))"
  using assms(1-3)
proof (induction n arbitrary: s k)
  case 0
  then show ?case by (auto simp: at_cycle_def)
next
  case (Suc n)
  obtain s1 where s1: "guest_rounds (session_files w ledger inputs) 2 (of_nat k, s) = Some (ss_ordinal (fs_source s1), s1)"
    "at_cycle s1" "ss_ordinal (fs_source s1) = of_nat (Suc k)" "fs_turn s1 = 2 * Suc k"
    "fd_shown (fs_driver s1) = fd_shown (fs_driver s) @ [scripted_face (turn_context (inputs (2 * k + 1))) (of_nat k)]"
    "fs_sent s1 = fs_sent s @ sends_by ROLE_WASI_LLM_CELL frame_cycle"
    by (rule session_cycle [of s ledger inputs w]) (use Suc.prems l h in \<open>auto simp: add.commute\<close>)
  have two: "guest_rounds fs (Suc (Suc m)) g = (case guest_rounds fs 2 g of None \<Rightarrow> None | Some g \<Rightarrow> guest_rounds fs m g)" for fs m and g :: "u8 \<times> face_session"
    by (simp add: numeral_2_eq_2 split: option.split)
  have "2 * Suc n = Suc (Suc (2 * n))" by simp
  with s1(1,3) have step: "guest_rounds (session_files w ledger inputs) (2 * Suc n) (of_nat k, s)
      = guest_rounds (session_files w ledger inputs) (2 * n) (of_nat (Suc k), s1)"
    by (simp only: two option.case)
  obtain s2 where s2: "guest_rounds (session_files w ledger inputs) (2 * n) (of_nat (Suc k), s1) = Some (of_nat (Suc k + n), s2)"
    "fd_ordinal (fs_driver s2) = of_nat (Suc k + n)"
    "fd_shown (fs_driver s2) = fd_shown (fs_driver s1)
        @ map (\<lambda>i. scripted_face (turn_context (inputs (2 * i + 1))) (of_nat i)) [Suc k..<Suc k + n]"
    "fs_sent s2 = fs_sent s1 @ concat (replicate n (sends_by ROLE_WASI_LLM_CELL frame_cycle))"
    using Suc.IH [OF s1(2-4)] by blast
  have "[k..<k + Suc n] = k # [Suc k..<Suc k + n]" by (simp add: upt_conv_Cons)
  then have "fd_shown (fs_driver s2) = fd_shown (fs_driver s)
        @ map (\<lambda>i. scripted_face (turn_context (inputs (2 * i + 1))) (of_nat i)) [k..<k + Suc n]"
    using s2(3) s1(5) by (simp only: list.map append_assoc append.simps)
  moreover have "fs_sent s2 = fs_sent s @ concat (replicate (Suc n) (sends_by ROLE_WASI_LLM_CELL frame_cycle))"
    using s2(4) s1(6) by simp
  moreover have "k + Suc n = Suc k + n" by simp
  ultimately show ?case using step s2(1,2) by metis
qed

text \<open>The first prompt.\<close>

lemma guest_run_start:
  obtains s where "session_write ledger LlmStdout SHELL_PROMPT (session_start Scripted) = Some s"
    "at_cycle s" "ss_ordinal (fs_source s) = of_nat 0" "fs_turn s = 2 * 0" "fd_shown (fs_driver s) = []"
    "fs_sent s = [(ROLE_LOCAL_LLM, FdWriteReq)]"
proof -
  have "shell_inv (shell_source_new Scripted)" by (rule shell_inv_new)
  from observe_keeps [OF this, of SHELL_PROMPT] show thesis
    by (intro that [of "session_start Scripted\<lparr>fs_source := observe_shell_output (shell_source_new Scripted) SHELL_PROMPT,
        fs_sent := [(ROLE_LOCAL_LLM, FdWriteReq)]\<rparr>"])
      (simp_all add: session_write_def session_start_def stdout_ok at_cycle_def shell_source_new_def)
qed

section \<open>What the choreography leaves to the client\<close>

text \<open>A line the client admits for a face turn is one the shell turns into a frame, except for the
  label \<open>v\<close>.\<close>

lemma trim_inner:
  assumes "b \<noteq> []" "\<not> is_ascii_whitespace (hd b)" "\<not> is_ascii_whitespace (last b)"
  shows "trim_terminal_command (b @ [10]) = b"
proof -
  obtain x xs where b: "b = x # xs" using assms(1) by (cases b) auto
  obtain y ys where r: "rev b = y # ys" using assms(1) by (cases "rev b") auto
  then have "\<not> is_ascii_whitespace y" using assms(3) by (metis hd_rev list.sel(1))
  with r have "dropWhile is_ascii_whitespace (rev (b @ [10])) = rev b" by (simp add: is_ascii_whitespace_def)
  moreover have "dropWhile is_ascii_whitespace (b @ [10]) = b @ [10]" using b assms(2) by simp
  ultimately show ?thesis by (simp add: trim_terminal_command_eq)
qed

lemma face_echo_line:
  assumes "decode_local_face_echo_command b"
  obtains label where "label \<in> List.set face_labels" "b @ [10] = echo_line label"
proof -
  have b: "take 5 b = ascii ''echo ''" "drop (length b - 14) b = ascii '' > /face/frame''"
    and l: "drop 5 (take (length b - 14) b) \<in> List.set face_labels" and n: "19 < length b"
    using assms by (simp_all add: decode_local_face_echo_command_def Let_def echo_lengths del: length_ascii split: if_splits)
  define c where "c = take (length b - 14) b"
  have "5 \<le> length b - 14" using n by arith
  then have "take 5 c = take 5 b" by (simp add: c_def min_def)
  then have "c = ascii ''echo '' @ drop 5 c" using b(1) append_take_drop_id [of 5 c] by simp
  moreover have "b = c @ ascii '' > /face/frame''"
    using b(2) append_take_drop_id [of "length b - 14" b] by (simp add: c_def)
  ultimately have "b @ [10] = echo_line (drop 5 c)" by (metis append_assoc echo_line_def)
  with l show thesis unfolding c_def by (rule that)
qed

section \<open>Properties\<close>

text \<open>C4: The scripted face shell end to end: whatever people type and the sensor reports, the guest,
  the client and the display driver run together for any number of frames without an error. The
  frames shown are the ones the script asks for, turn by turn; the guest's ordinal and the
  driver's agree after every one of them, past the wrap-around at 256; and the WASI cell has sent
  the messages the choreography names for it, in that order.\<close>

theorem face_session_runs:
  assumes "ledger FACE_FRAME_FD = Some (FACE_FRAME_OBJECT, FD_WRITE_RIGHT)"
    and "\<And>i. human_input_wf (fst (inputs i))"
  shows "\<exists>s. guest_run (session_files w ledger inputs) (2 * n) (session_start Scripted) = Some (of_nat n, s)
    \<and> fd_ordinal (fs_driver s) = of_nat n
    \<and> fd_shown (fs_driver s) = map (\<lambda>i. scripted_face (turn_context (inputs (2 * i + 1))) (of_nat i)) [0..<n]
    \<and> fs_sent s = [(ROLE_LOCAL_LLM, FdWriteReq)] @ concat (replicate n (sends_by ROLE_WASI_LLM_CELL frame_cycle))"
proof -
  obtain s where s: "session_write ledger LlmStdout SHELL_PROMPT (session_start Scripted) = Some s"
    "at_cycle s" "ss_ordinal (fs_source s) = of_nat 0" "fs_turn s = 2 * 0" "fd_shown (fs_driver s) = []"
    "fs_sent s = [(ROLE_LOCAL_LLM, FdWriteReq)]"
    by (rule guest_run_start)
  have "guest_run (session_files w ledger inputs) (2 * n) (session_start Scripted)
      = guest_rounds (session_files w ledger inputs) (2 * n) (of_nat 0, s)"
    using s(1) by (simp add: guest_run_def session_files_def)
  with session_cycles [of s 0 ledger inputs w n] assms s(2-6) show ?thesis
    by (simp only: add_0 append_Nil)
qed

theorem face_session_runs_witness:
  "\<exists>s. guest_run (session_files
        \<lparr>lw_env = \<lparr>env_prompt = None, env_self_mood = False, env_self_mood_prompt = None\<rparr>,
         lw_http = (\<lambda>i hp r. None), lw_child = (\<lambda>t p n c. None)\<rparr>
        (\<lambda>fd. if fd = 15 then Some (71005, FD_WRITE_RIGHT) else None) (\<lambda>i. (human_input_empty, sensor_sample_pending 0)))
      (2 * 1000) (session_start Scripted) = Some (232, s)"
proof -
  have "human_input_from_bytes [] = Inr human_input_empty"
    by (simp add: human_input_from_bytes_def human_input_empty_def blit_def)
  then have "human_input_wf human_input_empty" by (auto simp: human_input_wf_def)
  moreover have "(of_nat 1000 :: u8) = 232" by simp
  ultimately show ?thesis
    using face_session_runs [of "\<lambda>fd. if fd = 15 then Some (71005, FD_WRITE_RIGHT) else None"
        "\<lambda>i. (human_input_empty, sensor_sample_pending 0)"
        "\<lparr>lw_env = \<lparr>env_prompt = None, env_self_mood = False, env_self_mood_prompt = None\<rparr>,
         lw_http = (\<lambda>i hp r. None), lw_child = (\<lambda>t p n c. None)\<rparr>" 1000]
    by (auto simp: FACE_FRAME_FD_def FACE_FRAME_OBJECT_def)
qed

end
