(* ===== verification/Face_Conformance.thy ===== *)
theory Face_Conformance
  imports Face_Session
begin

text \<open>
  What the choreography of the face shell leaves to the client when a language model chooses the
  commands: every text the server can answer is followed through the HTTP response, the JSON
  string, the first line of it, the check of the phase and the command buffer to the shell.
\<close>

section \<open>Characters stay characters\<close>

definition text_ok :: "rstring \<Rightarrow> bool" where
  "text_ok s \<longleftrightarrow> (\<forall>c \<in> List.set s. is_char c)"

lemma text_ok_simps [simp]:
  "text_ok []" "text_ok (c # s) \<longleftrightarrow> is_char c \<and> text_ok s" "text_ok (a @ b) \<longleftrightarrow> text_ok a \<and> text_ok b"
  by (auto simp: text_ok_def)

lemma text_ok_mono: "List.set a \<subseteq> List.set b \<Longrightarrow> text_ok b \<Longrightarrow> text_ok a"
  by (auto simp: text_ok_def)

lemma text_ok_drop: "text_ok s \<Longrightarrow> text_ok (drop n s)"
  by (rule text_ok_mono [of "drop n s" s]) (rule set_drop_subset)

lemma simple_escape_char: "simple_escape e = Some ch \<Longrightarrow> is_char ch"
  by (auto simp: simple_escape_def is_char_def split: if_splits)

lemma decode_json_ok:
  "decode_json_from input out = Some r \<Longrightarrow> text_ok input \<Longrightarrow> text_ok out \<Longrightarrow> text_ok r"
proof (induction "length input" arbitrary: input out rule: less_induct)
  case less
  obtain c rest where i: "input = c # rest"
    using less.prems(1) by (cases input) (auto simp: decode_json_from.simps [of "[]"])
  have ok: "is_char c" "text_ok rest" using less.prems(2) i by simp_all
  have IH: "text_ok r" if "decode_json_from x (out @ [ch]) = Some r" "length x < length input" "text_ok x" "is_char ch" for x ch
    using less.hyps [OF that(2,1,3)] that(4) less.prems(3) by simp
  consider "c = 34" | "c = 92" | "c \<noteq> 34" "c \<noteq> 92" by blast
  then show ?case
  proof cases
    case 1
    with less.prems i show ?thesis by (simp add: decode_json_from.simps [of "34 # _"])
  next
    case 2
    then obtain e rs where r: "rest = e # rs"
      using less.prems(1) i by (cases rest) (auto simp: decode_json_from.simps [of "[92]"])
    show ?thesis
    proof (cases "e = 117")
      case True
      then obtain v where "decode_json_from (drop 4 rs) (out @ [case char_from_u32 v of Some ch \<Rightarrow> ch | None \<Rightarrow> 0xfffd]) = Some r"
        using less.prems(1) i r 2
        by (auto simp: decode_json_from.simps [of "92 # 117 # _"] split: if_splits option.splits)
      moreover have "is_char (case char_from_u32 v of Some ch \<Rightarrow> ch | None \<Rightarrow> 0xfffd)"
        by (auto simp: char_from_u32_def is_char_def)
      ultimately show ?thesis using ok(2) i r by (auto intro!: IH [of "drop 4 rs"] text_ok_drop)
    next
      case False
      then obtain ch where "simple_escape e = Some ch" "decode_json_from rs (out @ [ch]) = Some r"
        using less.prems(1) i r 2 by (auto simp: decode_json_from.simps [of "92 # e # _"] split: option.splits)
      then show ?thesis using ok(2) i r by (auto intro!: IH [of rs] simp: simple_escape_char)
    qed
  next
    case 3
    then have "decode_json_from rest (out @ [c]) = Some r"
      using less.prems(1) i by (simp add: decode_json_from.simps [of "c # _"] split: if_splits)
    then show ?thesis using ok i by (auto intro: IH [of rest])
  qed
qed

lemma split_once_ok: "split_once pat s = Some (a, b) \<Longrightarrow> List.set b \<subseteq> List.set s"
proof (induction s arbitrary: a)
  case Nil
  then show ?case by (auto simp: split_once.simps [of pat "[]"] split: if_splits)
next
  case (Cons c s)
  then show ?case
    by (auto simp: split_once.simps [of pat "c # s"] split: if_splits option.splits dest: in_set_dropD)
qed

lemma json_field_ok:
  assumes "local_llm_json_string_field s field = Some r" "text_ok s"
  shows "text_ok r"
proof -
  obtain a b c d where s: "split_once ([34] @ field @ [34]) s = Some (a, b)" "split_once [58] b = Some (c, d)"
    "local_llm_decode_json_string (trim_start d) = Some r"
    using assms(1) by (auto simp: local_llm_json_string_field_def split: option.splits)
  have d: "text_ok (trim_start d)"
    using split_once_ok [OF s(1)] split_once_ok [OF s(2)] assms(2) set_dropWhileD
    by (fastforce simp: text_ok_def trim_start_def)
  obtain x y where "trim_start d = x # y" "decode_json_from y [] = Some r"
    using s(3) by (auto simp: local_llm_decode_json_string_def split: list.splits if_splits)
  with d show ?thesis using decode_json_ok [of y "[]" r] by simp
qed

lemma read_response_ok:
  assumes "read_response response = Inr s" "text_ok response"
  shows "text_ok s"
proof -
  define body where "body = (case split_once (crlf @ crlf) response of Some (a, b) \<Rightarrow> b | None \<Rightarrow> response)"
  have "local_llm_json_string_field body (chars ''content'') = Some s"
    using assms(1) by (auto simp: read_response_def body_def Let_def split: if_splits option.splits)
  moreover have "text_ok body"
    using assms(2) split_once_ok [of "crlf @ crlf" response] by (auto simp: body_def text_ok_def split: option.split)
  ultimately show ?thesis by (rule json_field_ok)
qed

section \<open>The first line of an answer\<close>

lemma dropWhile_set: "List.set (dropWhile P xs) \<subseteq> List.set xs"
  by (induction xs) auto

lemma trim_set: "List.set (trim s) \<subseteq> List.set s"
  using dropWhile_set [of is_whitespace "rev (dropWhile is_whitespace s)"] dropWhile_set [of is_whitespace s]
  by (auto simp: trim_def trim_start_def)

lemma trim_ends:
  assumes "trim s \<noteq> []"
  shows "\<not> is_whitespace (hd (trim s))" "\<not> is_whitespace (last (trim s))"
proof -
  define t where "t = dropWhile is_whitespace s"
  have t: "trim s = rev (dropWhile is_whitespace (rev t))" by (simp add: trim_def trim_start_def t_def)
  then have "dropWhile is_whitespace (rev t) \<noteq> []" using assms by auto
  then show "\<not> is_whitespace (last (trim s))"
    unfolding t last_rev by (rule hd_dropWhile)
  have "t = trim s @ rev (takeWhile is_whitespace (rev t))"
    unfolding t rev_append [symmetric] takeWhile_dropWhile_id by simp
  then obtain r where "trim s @ r = t" by metis
  then have "hd (trim s) = hd t" "t \<noteq> []" using assms by auto
  then show "\<not> is_whitespace (hd (trim s))" using hd_dropWhile [of is_whitespace s] by (simp add: t_def)
qed

lemma lines_set: "l \<in> List.set (text_lines s) \<Longrightarrow> List.set l \<subseteq> List.set s"
proof (induction s rule: text_lines.induct)
  case (1 s)
  have cr: "List.set (strip_cr x) \<subseteq> List.set x" for x
    by (auto simp: strip_cr_def dest: in_set_butlastD)
  have "List.set (tl (dropWhile (\<lambda>c. c \<noteq> 10) s)) \<subseteq> List.set s"
    by (induction s) auto
  with 1 cr [of "takeWhile (\<lambda>c. c \<noteq> 10) s"] show ?case
    by (auto simp: text_lines.simps [of s] split: if_splits dest: set_takeWhileD)
qed

text \<open>Where a character is no blank, its bytes neither begin nor end with one.\<close>

lemma utf8_char_ends:
  assumes "is_char c" "\<not> is_whitespace c"
  shows "utf8_char c \<noteq> [] \<and> \<not> is_ascii_whitespace (hd (utf8_char c)) \<and> \<not> is_ascii_whitespace (last (utf8_char c))"
proof -
  have big: "\<not> is_ascii_whitespace (of_nat n)" if "128 \<le> n" "n < 256" for n
    using that by (auto simp: is_ascii_whitespace_def word_unat_eq_iff unat_of_nat_u8)
  consider "c < 0x80" | "0x80 \<le> c" "c < 0x800" | "0x800 \<le> c" "c < 0x10000" | "0x10000 \<le> c" "c < 0x110000"
    using assms(1) by (fastforce simp: is_char_def)
  then show ?thesis
  proof cases
    case 1
    then show ?thesis using assms(2)
      by (auto simp: utf8_char_def is_ascii_whitespace_def is_whitespace_def word_unat_eq_iff unat_of_nat_u8)
  next
    case 2
    then have "192 + c div 64 < 256" "128 + c mod 64 < 256" by auto
    with 2 big [of "192 + c div 64"] big [of "128 + c mod 64"] show ?thesis by (simp add: utf8_char_def)
  next
    case 3
    then have "224 + c div 4096 < 256" "128 + c mod 64 < 256" by auto
    with 3 big [of "224 + c div 4096"] big [of "128 + c mod 64"] show ?thesis by (simp add: utf8_char_def)
  next
    case 4
    then have "240 + c div 262144 < 256" "128 + c mod 64 < 256" by auto
    with 4 big [of "240 + c div 262144"] big [of "128 + c mod 64"] show ?thesis by (simp add: utf8_char_def)
  qed
qed

lemma as_bytes_ends:
  assumes "text_ok s" "s \<noteq> []" "\<not> is_whitespace (hd s)" "\<not> is_whitespace (last s)"
  shows "as_bytes s \<noteq> []" "\<not> is_ascii_whitespace (hd (as_bytes s))" "\<not> is_ascii_whitespace (last (as_bytes s))"
proof -
  have h: "is_char (hd s)" and l: "is_char (last s)" using assms(1,2) by (auto simp: text_ok_def)
  have "as_bytes s = utf8_char (hd s) @ as_bytes (tl s)" using assms(2) by (cases s) (simp_all add: as_bytes_def)
  with utf8_char_ends [OF h assms(3)] show "as_bytes s \<noteq> []" "\<not> is_ascii_whitespace (hd (as_bytes s))"
    by simp_all
  have "as_bytes s = as_bytes (butlast s) @ utf8_char (last s)"
    using assms(2) by (cases s rule: rev_cases) (simp_all add: as_bytes_def)
  with utf8_char_ends [OF l assms(4)] show "\<not> is_ascii_whitespace (last (as_bytes s))" by simp
qed

lemma copy_first_line_line:
  assumes "copy_first_line lines out = Some (out', len)" "\<forall>l \<in> List.set lines. text_ok l" "len < length out"
  obtains b where "take len out' = b @ [10]" "b \<noteq> []" "\<not> is_ascii_whitespace (hd b)" "\<not> is_ascii_whitespace (last b)"
  using assms
proof (induction lines)
  case Nil
  then show ?case by simp
next
  case (Cons line lines)
  show ?case
  proof (cases "trim line = [] \<or> trim line = chars ''[end of text]''")
    case True
    with Cons show ?thesis by (auto simp: Let_def)
  next
    case False
    define b where "b = as_bytes (trim line)"
    have ok: "text_ok (trim line)" using Cons.prems(3) text_ok_mono [OF trim_set, of line] by simp
    note ends = as_bytes_ends [OF ok _ trim_ends, folded b_def]
    have n: "trim line \<noteq> []" using False by simp
    have short: "length b < length out"
    proof (rule ccontr)
      assume "\<not> length b < length out"
      then have "len = length out" using Cons.prems(2,4) False ends(1) n
        by (auto simp: Let_def b_def [symmetric] min_def blit_def split: if_splits)
      with Cons.prems(4) show False by simp
    qed
    then have "out' = (blit 0 b out)[length b := 10]" "len = length b + 1"
      using Cons.prems(2) False ends(1) n
      by (auto simp: Let_def b_def [symmetric] min_def split: if_splits)
    then have "take len out' = b @ [10]"
      using short by (simp add: blit_0 list_update_append take_Suc_conv_app_nth)
    then show ?thesis using ends n Cons.prems(1) by blast
  qed
qed

section \<open>What the server can make the client write\<close>

definition http_ok :: "http \<Rightarrow> bool" where
  "http_ok http \<longleftrightarrow> (\<forall>i hp request response. http i hp request = Some response \<longrightarrow> text_ok response)"

text \<open>A line as the client writes it: no blank at either end, and a newline.\<close>

definition plain_line :: "bytes \<Rightarrow> bytes \<Rightarrow> bool" where
  "plain_line b line \<longleftrightarrow> line = b @ [10] \<and> b \<noteq> [] \<and> \<not> is_ascii_whitespace (hd b) \<and> \<not> is_ascii_whitespace (last b)"

lemma response_ok:
  assumes "http_ok http"
    "(case chat_complete http i endpoint t phase ordinal cx of Inr response \<Rightarrow> Inr response
      | Inl _ \<Rightarrow> (case local_llm_prompt_for_server env t phase ordinal cx of
             Inl e \<Rightarrow> Inl e | Inr prompt \<Rightarrow> complete http j endpoint prompt)) = Inr response"
  shows "text_ok response"
proof -
  have "chat_complete http i endpoint t phase ordinal cx = Inr response
      \<or> (\<exists>prompt. complete http j endpoint prompt = Inr response)"
    using assms(2) by (auto split: sum.splits)
  then obtain k hp q raw where "http k hp q = Some raw" "read_response raw = Inr response"
    by (auto simp: chat_complete_def complete_def split: option.splits sum.splits)
  moreover from this(1) have "text_ok raw" using assms(1) unfolding http_ok_def by blast
  ultimately show ?thesis by (rule_tac read_response_ok)
qed

lemma server_attempts_line:
  "server_attempts http env endpoint attempt t phase ordinal cx out = Inr (out', len) \<Longrightarrow> http_ok http \<Longrightarrow>
     len < length out \<Longrightarrow> \<exists>b. plain_line b (take len out')"
proof (induction http env endpoint attempt t phase ordinal cx out rule: server_attempts.induct)
  case (1 http env endpoint attempt t phase ordinal cx out)
  obtain response where r: "(case chat_complete http (2 * attempt) endpoint t phase ordinal cx of
        Inr response \<Rightarrow> Inr response
      | Inl _ \<Rightarrow> (case local_llm_prompt_for_server env t phase ordinal cx of
             Inl e \<Rightarrow> Inl e
           | Inr prompt \<Rightarrow> complete http (2 * attempt + 1) endpoint prompt)) = Inr response"
    and n: "\<not> 3 \<le> attempt"
    using 1(2) by (subst (asm) server_attempts.simps) (auto split: if_splits sum.splits)
  then obtain o1 l1 where c: "copy_llm_terminal_input_from_output response out = Some (o1, l1)"
    using 1(2) by (subst (asm) server_attempts.simps) (auto split: option.splits)
  have ok: "\<forall>l \<in> List.set (text_lines response). text_ok l"
    using response_ok [OF 1(3) r] lines_set text_ok_mono by blast
  have len: "length o1 = length out"
    using c copy_first_line_bounds by (auto simp: copy_llm_terminal_input_from_output_def)
  show ?case
  proof (cases "local_llm_terminal_command_admitted_for_phase phase (take l1 o1)")
    case True
    with 1(2) r n c have "Inr (o1, l1) = (Inr (out', len) :: unoq_error + bytes \<times> nat)"
      by (subst (asm) server_attempts.simps) simp
    then have "o1 = out'" "l1 = len" by simp_all
    with c ok 1(4) show ?thesis
      unfolding copy_llm_terminal_input_from_output_def plain_line_def by (metis copy_first_line_line)
  next
    case False
    with 1(2) r n c have "server_attempts http env endpoint (attempt + 1)
        (append_local_llm_shell_error t (take l1 o1)) phase ordinal cx o1 = Inr (out', len)"
      by (subst (asm) server_attempts.simps) simp
    with 1(1) [OF n r c refl False] 1(3,4) len show ?thesis by simp
  qed
qed

section \<open>What the shell makes of it\<close>

lemma face_code_label:
  assumes "decode_face_code l = Some f"
  shows "l \<in> List.set face_labels"
proof -
  have f: "face_labels = [[104], [115], [97], [117], [118], [109, 99], [109, 115], [109, 119], [109, 114]]"
    by (simp add: face_labels_def ascii_def)
  have "length l = 1 \<or> length l = 2" using assms by (auto simp: decode_face_code_def split: if_splits)
  then consider a where "l = [a]" | a b where "l = [a, b]" by (auto simp: length_2 length_Suc_conv)
  then show ?thesis
  proof cases
    case 1
    with assms have "a = 104 \<or> a = 115 \<or> a = 97 \<or> a = 117"
      by (simp add: decode_face_code_def split: if_splits)
    then show ?thesis by (auto simp: f 1)
  next
    case 2
    with assms have "a = 109 \<and> (b = 99 \<or> b = 115 \<or> b = 119 \<or> b = 114)"
      by (simp add: decode_face_code_def split: if_splits)
    then show ?thesis by (auto simp: f 2)
  qed
qed

lemma plain_line_classify:
  "plain_line b line \<Longrightarrow> classify_local_llm_terminal_command line
     = (if b = ascii ''ls'' then Catalog else if decode_local_face_echo_command b then Face else Other)"
  using trim_inner by (auto simp: plain_line_def classify_local_llm_terminal_command_def Let_def)

lemma plain_line_parse:
  "plain_line b line \<Longrightarrow> parse_command line = (if is_catalog_discovery_command b then ShCatalog
     else case decode_echo_face_command b of Some f \<Rightarrow> ShFace f | None \<Rightarrow> ShInvalid)"
  by (simp add: plain_line_def parse_command_def)

lemma face_labels_split:
  "label \<in> List.set face_labels \<longleftrightarrow> (\<exists>face. (label, face) \<in> List.set shown_labels) \<or> label = ascii ''v''"
  by (auto simp: face_labels_def shown_labels_def)

lemma admitted_face_line:
  assumes "plain_line b line" "local_llm_terminal_command_admitted_for_phase phase line" "phase \<noteq> 0"
  shows "(\<exists>face. parse_command line = ShFace face \<and> validate_display_face face = Inr ())
    \<or> line = echo_line (ascii ''v'')"
proof -
  have "decode_local_face_echo_command b"
    using assms plain_line_classify [OF assms(1)]
    by (auto simp: local_llm_terminal_command_admitted_for_phase_def split: if_splits)
  then obtain label where l: "label \<in> List.set face_labels" "b @ [10] = echo_line label" by (rule face_echo_line)
  have line: "line = echo_line label" using assms(1) l(2) by (simp add: plain_line_def)
  show ?thesis
  proof (cases "label = ascii ''v''")
    case True
    with line show ?thesis by simp
  next
    case False
    then obtain face where f: "(label, face) \<in> List.set shown_labels" using l(1) face_labels_split by blast
    then have "validate_display_face face = Inr ()"
      by (auto simp: shown_labels_def validate_display_face_def)
    with f line guest_parses_echo show ?thesis by blast
  qed
qed

lemma admitted_first_line:
  assumes "plain_line b line" "local_llm_terminal_command_admitted_for_phase 0 line"
  shows "parse_command line = ShCatalog \<or> parse_command line = ShInvalid"
proof -
  have n: "\<not> decode_local_face_echo_command b \<or> b = ascii ''ls''"
    using assms plain_line_classify [OF assms(1)]
    by (auto simp: local_llm_terminal_command_admitted_for_phase_def split: if_splits)
  have "decode_echo_face_command b = None"
  proof (rule ccontr)
    assume "decode_echo_face_command b \<noteq> None"
    then have "decode_local_face_echo_command b" "b \<noteq> ascii ''ls''"
      using face_code_label
      by (auto simp: decode_echo_face_command_def decode_local_face_echo_command_def Let_def split: if_splits)
    with n show False by simp
  qed
  then show ?thesis by (simp add: plain_line_parse [OF assms(1)])
qed

lemma server_read:
  assumes "session_read w inputs READ_BUFFER s = Some (bs, s1)" "ss_command (fs_source s) = Server endpoint"
    "http_ok (lw_http w)"
  obtains b where "plain_line b bs"
    "local_llm_terminal_command_admitted_for_phase (ss_read_phase (fs_source s)) bs"
    "fs_sent s1 = fs_sent s @ [(ROLE_LOCAL_LLM, FdReadReq)]" "fs_driver s1 = fs_driver s"
proof -
  obtain src where r: "complete_stdin_read_with_input_context w (\<lambda>_ _. None) (\<lambda>_. True) (fs_source s) (fst (inputs (fs_turn s)))
      (snd (inputs (fs_turn s))) LLM_STDIN_FD READ_BUFFER = Inr (bs, src)"
    and s1: "s1 = s\<lparr>fs_source := src, fs_turn := fs_turn s + 1, fs_sent := fs_sent s @ [(ROLE_LOCAL_LLM, FdReadReq)]\<rparr>"
    using assms(1) by (auto simp: session_read_def split: sum.splits)
  obtain a where a: "observe_human_input (fs_source s) (fst (inputs (fs_turn s))) = Inr a"
    "complete_local_llm_stdin_read w (\<lambda>_ _. None) True (observe_pico2w_sensor_sample a (snd (inputs (fs_turn s)))) LLM_STDIN_FD READ_BUFFER
      = Inr (bs, src)"
    using r by (auto simp: complete_stdin_read_with_input_context_def split: sum.splits)
  define c where "c = observe_pico2w_sensor_sample a (snd (inputs (fs_turn s)))"
  have c: "ss_command c = Server endpoint" "ss_read_phase c = ss_read_phase (fs_source s)"
    using a(1) assms(2)
    by (auto simp: c_def observe_pico2w_sensor_sample_def observe_human_input_def split: if_splits sum.splits)
  obtain out len src' where n: "shell_next_command w c READ_BUFFER = Inr ((out, len), src')" and bs: "bs = take len out"
    using a(2) by (auto simp: c_def complete_local_llm_stdin_read_def split: if_splits sum.splits prod.splits)
  have q: "server_attempts (lw_http w) (lw_env w) endpoint 0 (take (ss_transcript_len c) (ss_transcript c))
      (ss_read_phase c) (ss_ordinal c) (ss_context c) (replicate 96 0) = Inr (out, len)" and l: "len \<le> 30"
    using n c(1) by (auto simp: shell_next_command_def source_next_command_def server_next_command_def READ_BUFFER_def
        Let_def split: sum.splits prod.splits if_splits)
  obtain b where "plain_line b (take len out)" using server_attempts_line [OF q assms(3)] l by auto
  with server_attempts_admitted [OF q] show thesis
    using that [of b] c(2) s1 by (simp add: bs)
qed

lemma stdout_write_sent:
  "session_write ledger LlmStdout bs s = Some s' \<Longrightarrow> fs_sent s' = fs_sent s @ [(ROLE_LOCAL_LLM, FdWriteReq)]"
  by (auto simp: session_write_def stdout_ok)

lemma face_write_sent:
  "session_write ledger FaceFrameFile bs s = Some s' \<Longrightarrow> fs_sent s' = fs_sent s @ [(ROLE_M33_LED_KERNEL, FdWriteReq)]"
  by (auto simp: session_write_def split: outcome.splits prod.splits option.splits)

text \<open>Sessions with the same answer every time, for the two halves of a cycle.\<close>

definition fixed_world :: "rstring \<Rightarrow> llm_world" where
  "fixed_world answer = \<lparr>lw_env = plain_env, lw_http = fixed_server answer, lw_child = (\<lambda>t p n c. None)\<rparr>"

definition fixed_session :: "u8 \<Rightarrow> face_session" where
  "fixed_session phase = (let s = session_start (Server (chars ''http://h:80''))
     in s\<lparr>fs_source := fs_source s\<lparr>ss_read_phase := phase\<rparr>\<rparr>)"

lemma fixed_world_ok: "text_ok answer \<Longrightarrow> http_ok (lw_http (fixed_world answer))"
proof -
  have "text_ok (json_escape c)" if "is_char c" for c
    using that by (auto simp: json_escape_def hex_digit_def is_char_def)
  then have "text_ok answer \<Longrightarrow> text_ok (concat (map json_escape answer))"
    by (induction answer) auto
  then show "text_ok answer \<Longrightarrow> http_ok (lw_http (fixed_world answer))"
    by (auto simp: http_ok_def fixed_world_def fixed_server_def local_llm_json_string_def chars_def crlf_def is_char_def)
qed

section \<open>Properties\<close>

text \<open>C5: With a language model server behind the client, and whatever the server answers, a round of
  the shell that completes sends the messages the choreography has at that place: a read and a
  write to the terminal in the first half of a cycle, a read, a face frame for the display and a
  write to the terminal in the second. The one exception is the label v, which the client admits
  and the shell refuses: after it the shell writes to the terminal where the choreography has the
  display.\<close>

theorem server_round_conforms:
  assumes "http_ok (lw_http w)" and "ss_command (fs_source s) = Server endpoint"
    and "guest_round (session_files w ledger inputs) (ordinal, s) = Some (ordinal', s')"
  shows "fs_sent s' = fs_sent s @ (if ss_read_phase (fs_source s) = 0 then take 2 (sends_by ROLE_WASI_LLM_CELL frame_cycle)
        else drop 2 (sends_by ROLE_WASI_LLM_CELL frame_cycle))
    \<or> ss_read_phase (fs_source s) \<noteq> 0
      \<and> map_option fst (session_read w inputs READ_BUFFER s) = Some (echo_line (ascii ''v''))
      \<and> fs_sent s' = fs_sent s @ [(ROLE_LOCAL_LLM, FdReadReq), (ROLE_LOCAL_LLM, FdWriteReq)]"
proof -
  obtain bs s1 where r: "session_read w inputs READ_BUFFER s = Some (bs, s1)"
    using assms(3) by (auto simp: guest_round_def read_command_def session_files_def split: option.splits)
  obtain b where b: "plain_line b bs"
    "local_llm_terminal_command_admitted_for_phase (ss_read_phase (fs_source s)) bs"
    "fs_sent s1 = fs_sent s @ [(ROLE_LOCAL_LLM, FdReadReq)]"
    by (rule server_read [OF r assms(2,1)])
  have term_write: "fs_sent s' = fs_sent s @ [(ROLE_LOCAL_LLM, FdReadReq), (ROLE_LOCAL_LLM, FdWriteReq)]"
    if "parse_command bs = ShCatalog \<or> parse_command bs = ShInvalid"
    using that assms(3) r b(3)
    by (auto simp: guest_round_def read_command_def session_files_def dest!: stdout_write_sent)
  show ?thesis
  proof (cases "ss_read_phase (fs_source s) = 0")
    case True
    with term_write admitted_first_line [OF b(1)] b(2) show ?thesis by (simp add: wasi_cycle_sends)
  next
    case False
    from admitted_face_line [OF b(1,2) False] consider
      face where "parse_command bs = ShFace face" | "bs = echo_line (ascii ''v'')" by blast
    then show ?thesis
    proof cases
      case 1
      then have "fs_sent s' = fs_sent s @ [(ROLE_LOCAL_LLM, FdReadReq), (ROLE_M33_LED_KERNEL, FdWriteReq), (ROLE_LOCAL_LLM, FdWriteReq)]"
        using assms(3) r b(3)
        by (auto simp: guest_round_def read_command_def session_files_def dest!: stdout_write_sent face_write_sent
            split: option.splits)
      with False show ?thesis by (simp add: wasi_cycle_sends)
    next
      case 2
      have "parse_command (echo_line (ascii ''v'')) = ShInvalid" by code_simp
      with 2 term_write r False show ?thesis by simp
    qed
  qed
qed

lemma copy_plain:
  assumes "trim s = s" "s \<noteq> []" "10 \<notin> List.set s" "s \<noteq> chars ''[end of text]''" "as_bytes s \<noteq> []"
    "length (as_bytes s) < length out"
  obtains out' where "copy_llm_terminal_input_from_output s out = Some (out', length (as_bytes s) + 1)"
    "take (length (as_bytes s) + 1) out' = as_bytes s @ [10]"
  using assms
  by (intro that [of "(blit 0 (as_bytes s) out)[length (as_bytes s) := 10]"])
    (auto simp: copy_llm_terminal_input_from_output_def text_lines.simps [of s] Let_def min_def blit_0
      list_update_append take_Suc_conv_app_nth)

lemma fixed_read:
  assumes "text_ok answer" "copy_llm_terminal_input_from_output answer (replicate 96 0) = Some (out', len)"
    "local_llm_terminal_command_admitted_for_phase phase (take len out')" "0 < len" "len \<le> 30"
  obtains src where "session_read (fixed_world answer) (\<lambda>i. (human_input_empty, sensor_sample_pending 0)) READ_BUFFER
      (fixed_session phase) = Some (take len out', fixed_session phase\<lparr>fs_source := src, fs_turn := 1,
        fs_sent := [(ROLE_LOCAL_LLM, FdReadReq)]\<rparr>)"
  using fixed_server_command [OF assms(1) [unfolded text_ok_def] assms(2,3)] assms(4,5)
  by (auto simp: session_read_def complete_stdin_read_with_input_context_def complete_local_llm_stdin_read_def
      observe_human_input_def human_input_is_empty_def human_input_empty_def observe_pico2w_sensor_sample_def
      shell_next_command_def source_next_command_def fixed_world_def fixed_session_def session_start_def
      shell_source_new_def READ_BUFFER_def Let_def)

theorem server_round_conforms_witness:
  "fs_sent (snd (the (guest_round (session_files (fixed_world (chars ''ls''))
      (\<lambda>_. None) (\<lambda>i. (human_input_empty, sensor_sample_pending 0))) (0, fixed_session 0))))
    = take 2 (sends_by ROLE_WASI_LLM_CELL frame_cycle)"
proof -
  have ok: "text_ok (chars ''ls'')" by (simp add: chars_def is_char_def)
  obtain src where r: "session_read (fixed_world (chars ''ls'')) (\<lambda>i. (human_input_empty, sensor_sample_pending 0)) READ_BUFFER
      (fixed_session 0) = Some (take 3 ([108, 115, 10] @ replicate 93 0), fixed_session 0\<lparr>fs_source := src, fs_turn := 1,
        fs_sent := [(ROLE_LOCAL_LLM, FdReadReq)]\<rparr>)"
    by (rule fixed_read [OF ok copy_ls]) (use admitted_ls in simp_all)
  have p: "parse_command [108, 115, 10] = ShCatalog" by code_simp
  obtain o' s' where g: "guest_round (session_files (fixed_world (chars ''ls''))
      (\<lambda>_. None) (\<lambda>i. (human_input_empty, sensor_sample_pending 0))) (0, fixed_session 0) = Some (o', s')"
    using r p by (simp add: guest_round_def read_command_def session_files_def session_write_def stdout_ok)
  have start: "ss_command (fs_source (fixed_session 0)) = Server (chars ''http://h:80'')"
    "ss_read_phase (fs_source (fixed_session 0)) = 0" "fs_sent (fixed_session 0) = []"
    by (simp_all add: fixed_session_def session_start_def shell_source_new_def Let_def)
  from server_round_conforms [OF fixed_world_ok [OF ok] start(1) g] show ?thesis
    by (simp add: g start)
qed

text \<open>C40: The label v is admitted by the client as a face command and refused by the shell: with a
  server that answers it in the second half of a cycle, the session goes on, but the shell writes
  its refusal to the terminal at the place where the choreography has the frame for the display.\<close>

theorem label_v_leaves_order:
  "local_llm_terminal_command_admitted_for_phase 1 (echo_line (ascii ''v''))
    \<and> (\<exists>s. guest_round (session_files (fixed_world (chars ''echo v > /face/frame''))
          ledger (\<lambda>i. (human_input_empty, sensor_sample_pending 0))) (0, fixed_session 1) = Some (0, s)
        \<and> fs_sent s = [(ROLE_LOCAL_LLM, FdReadReq), (ROLE_LOCAL_LLM, FdWriteReq)])
    \<and> drop 2 (sends_by ROLE_WASI_LLM_CELL frame_cycle)
        = [(ROLE_LOCAL_LLM, FdReadReq), (ROLE_M33_LED_KERNEL, FdWriteReq), (ROLE_LOCAL_LLM, FdWriteReq)]"
proof (intro conjI)
  show adm: "local_llm_terminal_command_admitted_for_phase 1 (echo_line (ascii ''v''))" by code_simp
  have ok: "text_ok (chars ''echo v > /face/frame'')" by (simp add: chars_def is_char_def)
  have b: "trim (chars ''echo v > /face/frame'') = chars ''echo v > /face/frame''"
    "as_bytes (chars ''echo v > /face/frame'') = ascii ''echo v > /face/frame''"
    "ascii ''echo v > /face/frame'' @ [10] = echo_line (ascii ''v'')"
    by (simp_all add: trim_def trim_start_def is_whitespace_def as_bytes_def utf8_char_def echo_line_def chars_def ascii_def)
  obtain out where c: "copy_llm_terminal_input_from_output (chars ''echo v > /face/frame'') (replicate 96 0) = Some (out, 21)"
    "take 21 out = echo_line (ascii ''v'')"
  proof (rule copy_plain [OF b(1), of "replicate 96 0"])
    show "chars ''echo v > /face/frame'' \<noteq> []" "10 \<notin> List.set (chars ''echo v > /face/frame'')"
      "chars ''echo v > /face/frame'' \<noteq> chars ''[end of text]''"
      "as_bytes (chars ''echo v > /face/frame'') \<noteq> []" "length (as_bytes (chars ''echo v > /face/frame'')) < length (replicate 96 (0 :: u8))"
      by (simp_all add: b(2)) (simp_all add: chars_def ascii_def)
    fix out' assume "copy_llm_terminal_input_from_output (chars ''echo v > /face/frame'') (replicate 96 0)
        = Some (out', length (as_bytes (chars ''echo v > /face/frame'')) + 1)"
      "take (length (as_bytes (chars ''echo v > /face/frame'')) + 1) out' = as_bytes (chars ''echo v > /face/frame'') @ [10]"
    moreover have "length (as_bytes (chars ''echo v > /face/frame'')) + 1 = 21" by (simp add: b(2))
    ultimately show thesis using that by (simp only: b(2,3))
  qed
  obtain src where r: "session_read (fixed_world (chars ''echo v > /face/frame'')) (\<lambda>i. (human_input_empty, sensor_sample_pending 0))
      READ_BUFFER (fixed_session 1) = Some (echo_line (ascii ''v''), fixed_session 1\<lparr>fs_source := src, fs_turn := 1,
        fs_sent := [(ROLE_LOCAL_LLM, FdReadReq)]\<rparr>)"
    by (rule fixed_read [OF ok c(1), of 1]) (use adm in \<open>simp_all add: c(2)\<close>)
  have p: "parse_command (echo_line (ascii ''v'')) = ShInvalid" by code_simp
  show "\<exists>s. guest_round (session_files (fixed_world (chars ''echo v > /face/frame''))
          ledger (\<lambda>i. (human_input_empty, sensor_sample_pending 0))) (0, fixed_session 1) = Some (0, s)
        \<and> fs_sent s = [(ROLE_LOCAL_LLM, FdReadReq), (ROLE_LOCAL_LLM, FdWriteReq)]"
    using r p by (simp add: guest_round_def read_command_def session_files_def session_write_def stdout_ok)
qed (simp add: wasi_cycle_sends)

end
