(* ===== verification/Uno_Inputs.thy ===== *)
theory Uno_Inputs
  imports Shell_Source
begin

text \<open>
  The two input roles of \<open>examples/uno-q-heterogeneous/src/lib.rs\<close>: what a person types
  (\<open>HumanInputSource\<close> and the threads that read lines for it, from the terminal or from the voice
  command) and the samples of the Pico 2 W (\<open>Pico2wSensorSource\<close> and the thread that answers its
  datagrams). A channel is the list of what was sent and not yet received; the time of a step is a
  parameter in milliseconds. The packet functions of the \<open>hibana_wifi\<close> crate, the payload decoder
  of \<open>hibana\<close>, and what the socket and the channel answer to each single call are parameters.
\<close>

section \<open>Lines\<close>

definition strip_terminal_line_delimiter :: "bytes \<Rightarrow> bytes" where
  "strip_terminal_line_delimiter bs =
     (let bs = (if bs \<noteq> [] \<and> last bs = 10 then butlast bs else bs)
      in if bs \<noteq> [] \<and> last bs = 13 then butlast bs else bs)"

text \<open>What \<open>read_until(b'\n')\<close> returns, call after call, until the input ends.\<close>

function read_lines :: "bytes \<Rightarrow> bytes list" where
  "read_lines input =
     (if input = [] then []
      else let l = takeWhile (\<lambda>b. b \<noteq> 10) input; rest = dropWhile (\<lambda>b. b \<noteq> 10) input in
        (if rest = [] then [l] else (l @ [10]) # read_lines (tl rest)))"
  by pat_completeness auto

termination
proof (relation "measure length", simp)
  fix input l rest :: bytes
  assume "input \<noteq> []" "rest = dropWhile (\<lambda>b. b \<noteq> 10) input" "rest \<noteq> []"
  then have "length rest \<le> length input" by (simp add: length_dropWhile_le)
  with \<open>input \<noteq> []\<close> have "length (tl rest) < length input" by (cases input; cases rest) auto
  then show "(tl rest, input) \<in> measure length" by simp
qed

declare read_lines.simps [simp del]

text \<open>The thread of the terminal sends the lines that fit, in their order; the receiving end lives as
  long as the role.\<close>

definition prompt_lines :: "bytes \<Rightarrow> bytes list" where
  "prompt_lines input =
     filter (\<lambda>line. length line \<le> HUMAN_INPUT_TEXT_BYTES) (map strip_terminal_line_delimiter (read_lines input))"

text \<open>The thread of the voice command iterates over \<open>BufRead::split(b'\n')\<close>, which drops the delimiter.\<close>

definition split_newline :: "bytes \<Rightarrow> bytes list" where
  "split_newline input = map (\<lambda>l. if l \<noteq> [] \<and> last l = 10 then butlast l else l) (read_lines input)"

definition voice_lines :: "bytes \<Rightarrow> bytes list" where
  "voice_lines input =
     filter (\<lambda>line. length line \<le> HUMAN_INPUT_TEXT_BYTES) (map strip_terminal_line_delimiter (split_newline input))"

section \<open>Human input\<close>

record human_source =
  hs_stream :: bool
  hs_latest :: human_input_text

fun drain_human :: "human_input_text \<Rightarrow> bytes list \<Rightarrow> unoq_error + human_input_text" where
  "drain_human latest [] = Inr latest"
| "drain_human latest (bs # queue) =
     (case human_input_from_bytes bs of Inl e \<Rightarrow> Inl (LocalProtocol e) | Inr t \<Rightarrow> drain_human t queue)"

definition next_input :: "human_source \<Rightarrow> bytes list \<Rightarrow> unoq_error + (human_input_text \<times> human_source)" where
  "next_input s queue =
     (case (if hs_stream s then drain_human (hs_latest s) queue else Inr (hs_latest s)) of
        Inl e \<Rightarrow> Inl e
      | Inr t \<Rightarrow> Inr (t, s\<lparr>hs_latest := t\<rparr>))"

text \<open>The environment variable with an initial text.\<close>

definition human_source_from_env :: "bool \<Rightarrow> bytes option \<Rightarrow> human_source" where
  "human_source_from_env stream initial =
     \<lparr>hs_stream = stream,
      hs_latest = (case initial of None \<Rightarrow> human_input_empty
        | Some bs \<Rightarrow> (case human_input_from_bytes bs of Inl _ \<Rightarrow> human_input_empty | Inr t \<Rightarrow> t))\<rparr>"

datatype human_input_mode = Prompt | Voice | HumanOff

definition human_input_mode_from_env :: "bytes option \<Rightarrow> human_input_mode" where
  "human_input_mode_from_env v =
     (if v = Some (ascii ''prompt'') \<or> v = Some (ascii ''prompt-shell'') then Prompt
      else if v = Some (ascii ''voice'') \<or> v = Some (ascii ''voice-shell'') then Voice
      else HumanOff)"

section \<open>Sensor samples\<close>

datatype sensor_mode = Udp | SensorOff

definition pico2w_sensor_mode_from_env :: "bytes option \<Rightarrow> sensor_mode" where
  "pico2w_sensor_mode_from_env v = (if v = Some (ascii ''udp'') then Udp else SensorOff)"

definition DEFAULT_UNO_Q_PICO2W_SENSOR_UDP_STALE_MS :: nat where
  "DEFAULT_UNO_Q_PICO2W_SENSOR_UDP_STALE_MS = 5000"

definition pico2w_sensor_stale_timeout :: "nat option \<Rightarrow> nat" where
  "pico2w_sensor_stale_timeout parsed =
     (case parsed of Some v \<Rightarrow> if v > 0 then v else DEFAULT_UNO_Q_PICO2W_SENSOR_UDP_STALE_MS
      | None \<Rightarrow> DEFAULT_UNO_Q_PICO2W_SENSOR_UDP_STALE_MS)"

record sensor_source =
  sn_stream :: bool
  sn_latest :: sensor_sample
  sn_latest_at :: "nat option"
  sn_seq :: u16
  sn_mode :: sensor_mode

definition sensor_source_new :: "bool \<Rightarrow> sensor_mode \<Rightarrow> sensor_source" where
  "sensor_source_new stream mode =
     \<lparr>sn_stream = stream, sn_latest = sensor_sample_pending 0, sn_latest_at = None, sn_seq = 0, sn_mode = mode\<rparr>"

text \<open>The samples of the channel with the times at which they are taken from it.\<close>

fun drain_sensor :: "sensor_source \<Rightarrow> (sensor_sample \<times> nat) list \<Rightarrow> protocol_error + sensor_source" where
  "drain_sensor s [] = Inr s"
| "drain_sensor s ((sample, at) # queue) =
     (case with_status_and_seq sample PICO2W_SENSOR_STATUS_FRESH (sn_seq s) of
        Inl e \<Rightarrow> Inl e
      | Inr latest \<Rightarrow> drain_sensor (s\<lparr>sn_latest := latest, sn_latest_at := Some at\<rparr>) queue)"

definition next_sample ::
    "nat \<Rightarrow> sensor_source \<Rightarrow> (sensor_sample \<times> nat) list \<Rightarrow> nat \<Rightarrow> unoq_error + (sensor_sample \<times> sensor_source)" where
  "next_sample timeout s queue now =
     (case (if sn_stream s then drain_sensor s queue else Inr s) of
        Inl e \<Rightarrow> Inl (LocalProtocol e)
      | Inr s \<Rightarrow>
          (let s = s\<lparr>sn_seq := sn_seq s + 1\<rparr>;
               finish = (\<lambda>r. case r of Inl e \<Rightarrow> Inl (LocalProtocol e) | Inr p \<Rightarrow> Inr (p, s)) in
           case sn_mode s of
             Udp \<Rightarrow>
               (case sn_latest_at s of
                  None \<Rightarrow> Inr (sensor_sample_pending (sn_seq s), s)
                | Some at \<Rightarrow>
                    if now - at > timeout
                    then finish (with_status_and_seq (sn_latest s) PICO2W_SENSOR_STATUS_STALE (sn_seq s))
                    else finish (with_status_and_seq (sn_latest s) (ps_status (sn_latest s)) (sn_seq s)))
           | SensorOff \<Rightarrow> finish (with_status_and_seq (sn_latest s) (ps_status (sn_latest s)) (sn_seq s))))"

text \<open>The firmware without an operating system has no stream.\<close>

definition next_sample_bare :: "u16 \<Rightarrow> sensor_sample \<times> u16" where
  "next_sample_bare seq = (sensor_sample_pending (seq + 1), seq + 1)"

section \<open>Datagrams\<close>

text \<open>\<open>decode_payload\<close> is the method the sample inherits from \<open>hibana\<close>'s wire trait.\<close>

definition decode_pico2w_sensor_udp_payload :: "(bytes \<Rightarrow> 'e + sensor_sample) \<Rightarrow> bytes \<Rightarrow> sensor_sample option" where
  "decode_pico2w_sensor_udp_payload decode_payload input =
     (if length input \<noteq> PICO2W_SENSOR_SAMPLE_BYTES then None
      else case decode_payload input of Inl _ \<Rightarrow> None | Inr p \<Rightarrow> Some p)"

record wifi_proto =
  ETH_HEADER_LEN :: nat
  IPV4_HEADER_LEN :: nat
  IP_PROTO_UDP :: u8
  parse_udp_ipv4_packet :: "bytes \<Rightarrow> bytes \<Rightarrow> bytes \<Rightarrow> u16 \<Rightarrow> (bytes \<times> bytes \<times> u16 \<times> u16 \<times> bytes) option"
  build_udp_ipv4 :: "bytes \<Rightarrow> bytes \<Rightarrow> bytes \<Rightarrow> bytes \<Rightarrow> u16 \<Rightarrow> u16 \<Rightarrow> bytes \<Rightarrow> bytes option"

record udp_frame =
  uf_src_mac :: bytes
  uf_dst_mac :: bytes
  uf_src_ip :: bytes
  uf_dst_ip :: bytes
  uf_src_port :: u16
  uf_dst_port :: u16
  uf_payload :: bytes

definition parse_pico2w_sensor_udp_frame :: "wifi_proto \<Rightarrow> bytes \<Rightarrow> u16 \<Rightarrow> udp_frame option" where
  "parse_pico2w_sensor_udp_frame wp frame local_port =
     (if length frame < ETH_HEADER_LEN wp + IPV4_HEADER_LEN wp + 8 then None
      else
        let dst_mac = take 6 frame; src_mac = take 6 (drop 6 frame);
            ip = drop (ETH_HEADER_LEN wp) frame in
        if drop_bit 4 (ip ! 0) \<noteq> 4 \<or> ip ! 9 \<noteq> IP_PROTO_UDP wp then None
        else
          let ihl = unat (ip ! 0 AND 0x0f) * 4 in
          if ihl < IPV4_HEADER_LEN wp \<or> length ip < ihl + 8 then None
          else
            let dst_ip = take 4 (drop 16 ip) in
            case parse_udp_ipv4_packet wp frame dst_mac dst_ip local_port of
              None \<Rightarrow> None
            | Some (src_ip, dst_ip, src_port, dst_port, payload) \<Rightarrow>
                if length payload \<noteq> PICO2W_SENSOR_SAMPLE_BYTES then None
                else Some \<lparr>uf_src_mac = src_mac, uf_dst_mac = dst_mac, uf_src_ip = src_ip, uf_dst_ip = dst_ip,
                           uf_src_port = src_port, uf_dst_port = dst_port, uf_payload = payload\<rparr>)"

definition build_pico2w_sensor_udp_ack_frame :: "wifi_proto \<Rightarrow> udp_frame \<Rightarrow> u16 \<Rightarrow> bytes option" where
  "build_pico2w_sensor_udp_ack_frame wp frame seq =
     build_udp_ipv4 wp (uf_dst_mac frame) (uf_src_mac frame) (uf_dst_ip frame) (uf_src_ip frame)
       (uf_dst_port frame) (uf_src_port frame) (pico2w_sensor_udp_ack seq)"

text \<open>What the thread does with a packet: the acknowledgement goes out before the sample goes to
  the channel; after a packet it cannot read, or an acknowledgement it cannot build or send, it
  waits for the next packet; it ends when nobody receives from the channel any more. What the
  socket and the channel answer is given for each call of its own. The second component says
  whether the loop goes on.\<close>

datatype udp_event = AckSent bytes | SampleSent sensor_sample

definition udp_packet :: "wifi_proto \<Rightarrow> (bytes \<Rightarrow> 'e + sensor_sample) \<Rightarrow> u16 \<Rightarrow> bytes \<Rightarrow> bool \<Rightarrow> bool \<Rightarrow> udp_event list \<times> bool" where
  "udp_packet wp decode_payload port packet ack_ok channel_open =
     (case parse_pico2w_sensor_udp_frame wp packet port of
        None \<Rightarrow> ([], True)
      | Some frame \<Rightarrow>
          (case decode_pico2w_sensor_udp_payload decode_payload (uf_payload frame) of
             None \<Rightarrow> ([], True)
           | Some sample \<Rightarrow>
               (case build_pico2w_sensor_udp_ack_frame wp frame (ps_seq sample) of
                  None \<Rightarrow> ([], True)
                | Some ack \<Rightarrow>
                    if \<not> ack_ok then ([], True)
                    else if \<not> channel_open then ([AckSent ack], False)
                    else ([AckSent ack, SampleSent sample], True))))"

text \<open>The turns of the loop until it sees the flag that shuts it down: what \<open>recv\<close> returned, and what
  \<open>raw_socket.send\<close> and \<open>sender.send\<close> answer if this turn gets to them. \<open>Nothing\<close> stands for
  \<open>Ok(None)\<close> and for the two error kinds of a timeout.\<close>

datatype udp_recv = Packet bytes | Nothing | RecvError

type_synonym udp_turn = "udp_recv \<times> bool \<times> bool"

fun udp_thread :: "wifi_proto \<Rightarrow> (bytes \<Rightarrow> 'e + sensor_sample) \<Rightarrow> u16 \<Rightarrow> udp_turn list \<Rightarrow> udp_event list" where
  "udp_thread wp decode_payload port [] = []"
| "udp_thread wp decode_payload port ((r, ack_ok, channel_open) # turns) =
     (case r of
        Packet packet \<Rightarrow>
          (let (events, goes_on) = udp_packet wp decode_payload port packet ack_ok channel_open
           in events @ (if goes_on then udp_thread wp decode_payload port turns else []))
      | Nothing \<Rightarrow> udp_thread wp decode_payload port turns
      | RecvError \<Rightarrow> [])"

section \<open>Draining the channels\<close>

lemma from_bytes_fits:
  assumes "length bs \<le> 96"
  shows "human_input_from_bytes bs = (if utf8_valid bs
    then Inr \<lparr>hit_len = of_nat (length bs), hit_bytes = blit 0 bs (replicate 96 0)\<rparr>
    else Inl HumanInputInvalidUtf8)"
  using assms by (simp add: human_input_from_bytes_def)

lemma drain_human_ok:
  assumes "\<forall>bs \<in> List.set queue. length bs \<le> 96 \<and> utf8_valid bs" "queue \<noteq> []"
  obtains t where "drain_human latest queue = Inr t" "human_input_from_bytes (last queue) = Inr t"
  using assms
proof (induction queue arbitrary: latest thesis)
  case Nil
  then show ?case by simp
next
  case (Cons bs queue)
  obtain t where t: "human_input_from_bytes bs = Inr t" using Cons.prems(2) by (simp add: from_bytes_fits)
  show ?case
  proof (cases "queue = []")
    case True
    with t show ?thesis by (intro Cons.prems(1)) simp_all
  next
    case False
    then show ?thesis using Cons.IH [of t] Cons.prems t by auto
  qed
qed

lemma drain_human_invalid:
  "\<forall>bs \<in> List.set queue. length bs \<le> 96 \<Longrightarrow> \<exists>bs \<in> List.set queue. \<not> utf8_valid bs \<Longrightarrow>
     drain_human latest queue = Inl (LocalProtocol HumanInputInvalidUtf8)"
  by (induction queue arbitrary: latest) (auto simp: from_bytes_fits)

lemma with_fresh: "with_status_and_seq p PICO2W_SENSOR_STATUS_FRESH q = Inr (p\<lparr>ps_status := PICO2W_SENSOR_STATUS_FRESH, ps_seq := q\<rparr>)"
  by (simp add: with_status_and_seq_def sensor_sample_new_def validate_pico2w_sensor_status_def)

lemma with_stale: "with_status_and_seq p PICO2W_SENSOR_STATUS_STALE q = Inr (p\<lparr>ps_status := PICO2W_SENSOR_STATUS_STALE, ps_seq := q\<rparr>)"
  by (simp add: with_status_and_seq_def sensor_sample_new_def validate_pico2w_sensor_status_def)

lemmas with_status_simps = with_fresh [simplified] with_stale [simplified]

lemma drain_sensor_eq:
  "drain_sensor s queue = Inr (if queue = [] then s
     else s\<lparr>sn_latest := (fst (last queue))\<lparr>ps_status := PICO2W_SENSOR_STATUS_FRESH, ps_seq := sn_seq s\<rparr>,
            sn_latest_at := Some (snd (last queue))\<rparr>)"
  by (induction queue arbitrary: s) (auto simp: with_status_simps)

text \<open>A source that has taken a sample holds it as fresh.\<close>

definition sensor_inv :: "sensor_source \<Rightarrow> bool" where
  "sensor_inv s \<longleftrightarrow> (case sn_latest_at s of
     None \<Rightarrow> ps_status (sn_latest s) = PICO2W_SENSOR_STATUS_PENDING
   | Some _ \<Rightarrow> ps_status (sn_latest s) = PICO2W_SENSOR_STATUS_FRESH)"

lemma sensor_inv_new: "sensor_inv (sensor_source_new stream mode)"
  by (simp add: sensor_inv_def sensor_source_new_def sensor_sample_pending_def)

section \<open>What a person typed\<close>

text \<open>Lines without a line feed, each ended by a line feed or by a carriage return and a line feed,
  then perhaps a last line that the end of the input ends. A line ends in a carriage return of its
  own only where that is followed by both.\<close>

definition typed_input :: "(bytes \<times> bool) list \<Rightarrow> bytes \<Rightarrow> bytes" where
  "typed_input typed rest = concat (map (\<lambda>(l, cr). l @ (if cr then [13, 10] else [10])) typed) @ rest"

definition plain_line :: "bytes \<Rightarrow> bool" where
  "plain_line l \<longleftrightarrow> 10 \<notin> List.set l \<and> (l = [] \<or> last l \<noteq> 13)"

definition typed_ok :: "(bytes \<times> bool) list \<Rightarrow> bytes \<Rightarrow> bool" where
  "typed_ok typed rest \<longleftrightarrow> (\<forall>(l, cr) \<in> List.set typed. if cr then 10 \<notin> List.set l else plain_line l) \<and> plain_line rest"

definition typed_lines :: "(bytes \<times> bool) list \<Rightarrow> bytes \<Rightarrow> bytes list" where
  "typed_lines typed rest = map fst typed @ (if rest = [] then [] else [rest])"

lemma plain_line_no_lf: "plain_line l \<Longrightarrow> 10 \<notin> List.set l"
  by (simp add: plain_line_def)

lemma plain_line_last: "plain_line l \<Longrightarrow> l \<noteq> [] \<Longrightarrow> last l \<noteq> 10"
  unfolding plain_line_def by (metis last_in_set)

lemma strip_cr: "strip_terminal_line_delimiter (l @ [13, 10]) = l" "strip_terminal_line_delimiter (l @ [13]) = l"
  by (simp_all add: strip_terminal_line_delimiter_def butlast_append)

lemma strip_plain:
  assumes "plain_line l"
  shows "strip_terminal_line_delimiter (l @ [10]) = l" "strip_terminal_line_delimiter l = l"
proof -
  from assms have "l = [] \<or> last l \<noteq> 13" "l = [] \<or> last l \<noteq> 10"
    using plain_line_last [of l] by (auto simp: plain_line_def)
  then show "strip_terminal_line_delimiter (l @ [10]) = l" "strip_terminal_line_delimiter l = l"
    by (auto simp: strip_terminal_line_delimiter_def Let_def)
qed

lemmas strip_line = strip_cr strip_plain

lemma read_lines_line: "10 \<notin> List.set l \<Longrightarrow> read_lines (l @ 10 # input) = (l @ [10]) # read_lines input"
proof -
  assume a: "10 \<notin> List.set l"
  then have "takeWhile (\<lambda>b. b \<noteq> 10) (l @ 10 # input) = l" "dropWhile (\<lambda>b. b \<noteq> 10) (l @ 10 # input) = 10 # input"
    by (induction l) auto
  then show ?thesis by (subst read_lines.simps) simp
qed

lemma read_lines_end: "10 \<notin> List.set l \<Longrightarrow> read_lines l = (if l = [] then [] else [l])"
proof -
  assume a: "10 \<notin> List.set l"
  then have "takeWhile (\<lambda>b. b \<noteq> 10) l = l" "dropWhile (\<lambda>b. b \<noteq> 10) l = []"
    by (auto simp: takeWhile_eq_all_conv dropWhile_eq_Nil_conv)
  then show ?thesis by (subst read_lines.simps) (simp add: Let_def)
qed

lemma read_typed:
  assumes "typed_ok typed rest"
  shows "map strip_terminal_line_delimiter (read_lines (typed_input typed rest)) = typed_lines typed rest"
    "map strip_terminal_line_delimiter (split_newline (typed_input typed rest)) = typed_lines typed rest"
  using assms
proof (induction typed)
  case Nil
  {
    case 1
    then show ?case
      by (simp add: typed_input_def typed_lines_def typed_ok_def strip_line read_lines_end plain_line_no_lf)
  next
    case 2
    then show ?case
      by (auto simp: typed_input_def typed_lines_def typed_ok_def split_newline_def strip_line read_lines_end
          plain_line_no_lf plain_line_last)
  }
next
  case (Cons p typed)
  obtain l cr where p: "p = (l, cr)" by fastforce
  have ok: "typed_ok typed rest" "10 \<notin> List.set l" "\<not> cr \<Longrightarrow> plain_line l"
    if "typed_ok (p # typed) rest"
    using that by (auto simp: p typed_ok_def plain_line_no_lf split: if_splits)
  have r: "read_lines (typed_input (p # typed) rest)
      = (l @ (if cr then [13, 10] else [10])) # read_lines (typed_input typed rest)"
    if "typed_ok (p # typed) rest"
    using ok [OF that] read_lines_line [of "l @ [13]" "typed_input typed rest"] read_lines_line [of l "typed_input typed rest"]
    by (simp add: p typed_input_def)
  have l: "typed_lines (p # typed) rest = l # typed_lines typed rest" by (simp add: p typed_lines_def)
  {
    case 1
    with Cons(1) ok r show ?case by (cases cr) (simp_all add: l strip_line)
  next
    case 2
    with Cons(2) ok r show ?case
      by (cases cr) (simp_all add: l split_newline_def strip_line butlast_append)
  }
qed

section \<open>What the datagram thread did\<close>

lemma udp_packet_cases:
  obtains (none) "udp_packet wp dec port packet ack_ok channel_open = ([], True)"
  | (closed) ack where "udp_packet wp dec port packet ack_ok channel_open = ([AckSent ack], False)" "\<not> channel_open"
  | (delivered) s ack src_ip dst_ip src_port dst_port payload where
      "udp_packet wp dec port packet ack_ok channel_open = ([AckSent ack, SampleSent s], True)" "ack_ok" "channel_open"
      "parse_udp_ipv4_packet wp packet (take 6 packet) (take 4 (drop (ETH_HEADER_LEN wp + 16) packet)) port
        = Some (src_ip, dst_ip, src_port, dst_port, payload)"
      "length payload = 9" "dec payload = Inr s"
      "build_udp_ipv4 wp (take 6 packet) (take 6 (drop 6 packet)) dst_ip src_ip dst_port src_port
        (pico2w_sensor_udp_ack (ps_seq s)) = Some ack"
proof (cases "fst (udp_packet wp dec port packet ack_ok channel_open) = []")
  case True
  then show thesis
    by (intro none) (auto simp: udp_packet_def split: option.splits if_splits)
next
  case False
  then obtain frame s ack where f: "parse_pico2w_sensor_udp_frame wp packet port = Some frame" "ack_ok"
      "decode_pico2w_sensor_udp_payload dec (uf_payload frame) = Some s"
      "build_pico2w_sensor_udp_ack_frame wp frame (ps_seq s) = Some ack"
    by (fastforce simp: udp_packet_def split: option.splits if_splits)
  show thesis
  proof (cases channel_open)
    case False
    with f show thesis by (intro closed [of ack]) (simp_all add: udp_packet_def)
  next
    case True
    have u: "udp_packet wp dec port packet ack_ok channel_open = ([AckSent ack, SampleSent s], True)"
      using f True by (simp add: udp_packet_def)
    from f(1) obtain src_ip dst_ip src_port dst_port where
      p: "parse_udp_ipv4_packet wp packet (take 6 packet) (take 4 (drop (ETH_HEADER_LEN wp + 16) packet)) port
          = Some (src_ip, dst_ip, src_port, dst_port, uf_payload frame)"
        "frame = \<lparr>uf_src_mac = take 6 (drop 6 packet), uf_dst_mac = take 6 packet, uf_src_ip = src_ip, uf_dst_ip = dst_ip,
          uf_src_port = src_port, uf_dst_port = dst_port, uf_payload = uf_payload frame\<rparr>"
        "length (uf_payload frame) = 9"
      by (auto simp: parse_pico2w_sensor_udp_frame_def Let_def add.commute [of 16] split: if_splits option.splits)
    have "dec (uf_payload frame) = Inr s"
      using f(3) by (auto simp: decode_pico2w_sensor_udp_payload_def split: if_splits sum.splits)
    moreover have "build_udp_ipv4 wp (take 6 packet) (take 6 (drop 6 packet)) dst_ip src_ip dst_port src_port
        (pico2w_sensor_udp_ack (ps_seq s)) = Some ack"
      using f(4) by (subst (asm) p(2)) (simp add: build_pico2w_sensor_udp_ack_frame_def)
    ultimately show thesis using u f(2) True p(1,3) by (intro delivered)
  qed
qed

lemma udp_thread_append:
  "\<forall>(r, ack_ok, channel_open) \<in> List.set earlier. r \<noteq> RecvError \<and> channel_open \<Longrightarrow>
     udp_thread wp dec port (earlier @ later) = udp_thread wp dec port earlier @ udp_thread wp dec port later"
proof (induction earlier)
  case (Cons turn earlier)
  obtain r ack_ok channel_open where t: "turn = (r, ack_ok, channel_open)" by (metis surj_pair)
  have "snd (udp_packet wp dec port packet ack_ok True)" for packet
    by (rule udp_packet_cases [of wp dec port packet ack_ok True]) simp_all
  with Cons t show ?case by (auto simp: case_prod_unfold split: udp_recv.split)
qed simp

lemma parse_payload_length: "parse_pico2w_sensor_udp_frame wp packet port = Some frame \<Longrightarrow> length (uf_payload frame) = 9"
  by (auto simp: parse_pico2w_sensor_udp_frame_def Let_def split: if_splits option.splits)

lemma udp_sample_origin:
  assumes "udp_thread wp dec port turns = before @ SampleSent sample # after"
  shows "\<exists>earlier later packet src_ip dst_ip src_port dst_port payload ack_payload ack.
        turns = earlier @ (Packet packet, True, True) # later
        \<and> before = udp_thread wp dec port earlier @ [AckSent ack] \<and> after = udp_thread wp dec port later
        \<and> parse_udp_ipv4_packet wp packet (take 6 packet) (take 4 (drop (ETH_HEADER_LEN wp + 16) packet)) port
            = Some (src_ip, dst_ip, src_port, dst_port, payload)
        \<and> length payload = 9 \<and> dec payload = Inr sample
        \<and> build_udp_ipv4 wp (take 6 packet) (take 6 (drop 6 packet)) dst_ip src_ip dst_port src_port ack_payload = Some ack
        \<and> decode_pico2w_sensor_udp_ack ack_payload = Some (ps_seq sample)"
  using assms
proof (induction turns arbitrary: before)
  case (Cons turn turns)
  obtain r ack_ok channel_open where t: "turn = (r, ack_ok, channel_open)" by (metis surj_pair)
  show ?case
  proof (cases "\<exists>before'. udp_thread wp dec port turns = before' @ SampleSent sample # after
      \<and> before = udp_thread wp dec port [turn] @ before'
      \<and> (\<forall>turns. udp_thread wp dec port (turn # turns) = udp_thread wp dec port [turn] @ udp_thread wp dec port turns)")
    case True
    then obtain before' where b: "udp_thread wp dec port turns = before' @ SampleSent sample # after"
        "before = udp_thread wp dec port [turn] @ before'"
        "\<And>turns. udp_thread wp dec port (turn # turns) = udp_thread wp dec port [turn] @ udp_thread wp dec port turns"
      by blast
    from Cons.IH [OF b(1)] obtain earlier later packet src_ip dst_ip src_port dst_port payload ack_payload ack where
      i: "turns = earlier @ (Packet packet, True, True) # later"
        "before' = udp_thread wp dec port earlier @ [AckSent ack]" "after = udp_thread wp dec port later"
        "parse_udp_ipv4_packet wp packet (take 6 packet) (take 4 (drop (ETH_HEADER_LEN wp + 16) packet)) port
            = Some (src_ip, dst_ip, src_port, dst_port, payload)"
        "length payload = 9" "dec payload = Inr sample"
        "build_udp_ipv4 wp (take 6 packet) (take 6 (drop 6 packet)) dst_ip src_ip dst_port src_port ack_payload = Some ack"
        "decode_pico2w_sensor_udp_ack ack_payload = Some (ps_seq sample)"
      by blast
    have "turn # turns = (turn # earlier) @ (Packet packet, True, True) # later" using i(1) by simp
    moreover have "before = udp_thread wp dec port (turn # earlier) @ [AckSent ack]" using b(2) b(3) [of earlier] i(2) by simp
    ultimately show ?thesis using i(3-) by blast
  next
    case False
    have "\<exists>packet. r = Packet packet"
    proof (cases r)
      case Nothing
      with False Cons.prems t show ?thesis by simp
    qed (use Cons.prems t in simp_all)
    then obtain packet where p: "r = Packet packet" ..
    show ?thesis
    proof (rule udp_packet_cases [of wp dec port packet ack_ok channel_open])
      assume "udp_packet wp dec port packet ack_ok channel_open = ([], True)"
      with False Cons.prems t p show ?thesis by simp
    next
      fix ack assume "udp_packet wp dec port packet ack_ok channel_open = ([AckSent ack], False)"
      with Cons.prems t p show ?thesis by (auto simp: Cons_eq_append_conv)
    next
      fix s ack src_ip dst_ip src_port dst_port payload
      assume d: "udp_packet wp dec port packet ack_ok channel_open = ([AckSent ack, SampleSent s], True)" "ack_ok" "channel_open"
        "parse_udp_ipv4_packet wp packet (take 6 packet) (take 4 (drop (ETH_HEADER_LEN wp + 16) packet)) port
          = Some (src_ip, dst_ip, src_port, dst_port, payload)"
        "length payload = 9" "dec payload = Inr s"
        "build_udp_ipv4 wp (take 6 packet) (take 6 (drop 6 packet)) dst_ip src_ip dst_port src_port
          (pico2w_sensor_udp_ack (ps_seq s)) = Some ack"
      have e: "udp_thread wp dec port (turn # ts) = [AckSent ack, SampleSent s] @ udp_thread wp dec port ts" for ts
        using t p d(1) by simp
      have "before = [AckSent ack] \<and> s = sample \<and> after = udp_thread wp dec port turns"
      proof (rule ccontr)
        assume n: "\<not> ?thesis"
        from Cons.prems e [of turns] have "AckSent ack # SampleSent s # udp_thread wp dec port turns = before @ SampleSent sample # after"
          by simp
        with n obtain before' where "before = AckSent ack # SampleSent s # before'"
            "udp_thread wp dec port turns = before' @ SampleSent sample # after"
          by (auto simp: Cons_eq_append_conv)
        with False e show False by auto
      qed
      then have b: "before = udp_thread wp dec port [] @ [AckSent ack]" "after = udp_thread wp dec port turns"
          "dec payload = Inr sample" "build_udp_ipv4 wp (take 6 packet) (take 6 (drop 6 packet)) dst_ip src_ip dst_port src_port
            (pico2w_sensor_udp_ack (ps_seq sample)) = Some ack"
        using d(6,7) by simp_all
      have "turn # turns = [] @ (Packet packet, True, True) # turns" using t p d(2,3) by simp
      with b d(4,5) udp_ack_roundtrip [of "ps_seq sample"] show ?thesis by blast
    qed
  qed
qed simp

section \<open>Properties\<close>

text \<open>C37: A person types lines, or the voice command prints them, each ended by a line feed or by a
  carriage return and a line feed. Of these lines those of more than 96 bytes are left out, and the
  role hands on the last of the others byte for byte, without its line end, and remembers it; if
  there is none, it hands on what it had. One line of at most 96 bytes that is not UTF-8 ends the
  role with an error instead, whatever is typed before or after it.\<close>

theorem human_lines_delivered:
  assumes "typed_ok typed rest" and "hs_stream s"
    and "queue = prompt_lines (typed_input typed rest) \<or> queue = voice_lines (typed_input typed rest)"
    and "fit = filter (\<lambda>line. length line \<le> 96) (typed_lines typed rest)"
  shows "if list_all utf8_valid fit
    then \<exists>t. next_input s queue = Inr (t, s\<lparr>hs_latest := t\<rparr>)
      \<and> (if fit = [] then t = hs_latest s else human_input_as_bytes t = last fit)
    else next_input s queue = Inl (LocalProtocol HumanInputInvalidUtf8)"
proof -
  have q: "queue = fit" using assms(3,4) by (auto simp: prompt_lines_def voice_lines_def read_typed [OF assms(1)])
  have short: "\<forall>bs \<in> List.set fit. length bs \<le> 96" by (simp add: assms(4))
  show ?thesis
  proof (cases "list_all utf8_valid fit")
    case False
    then show ?thesis using drain_human_invalid [OF short, of "hs_latest s"] assms(2)
      by (auto simp: q next_input_def list_all_iff)
  next
    case True
    show ?thesis
    proof (cases "fit = []")
      case True
      with assms(2) show ?thesis by (simp add: q next_input_def)
    next
      case False
      then obtain t where t: "drain_human (hs_latest s) fit = Inr t" "human_input_from_bytes (last fit) = Inr t"
        using drain_human_ok [of fit "hs_latest s"] short True by (auto simp: list_all_iff)
      from t(2) have "human_input_as_bytes t = last fit" by (rule human_input_from_bytesE)
      with True False t(1) assms(2) show ?thesis by (simp add: q next_input_def)
    qed
  qed
qed

theorem human_lines_delivered_witness:
  "next_input \<lparr>hs_stream = True, hs_latest = human_input_empty\<rparr> (prompt_lines [0xff, 10, 104, 105])
      = Inl (LocalProtocol HumanInputInvalidUtf8)
    \<and> map_sum id (\<lambda>(t, _). human_input_as_bytes t)
        (next_input \<lparr>hs_stream = True, hs_latest = human_input_empty\<rparr>
          (voice_lines ([104, 105, 13, 13, 10] @ replicate 97 65 @ [10]))) = Inr [104, 105, 13]"
proof -
  let ?s = "\<lparr>hs_stream = True, hs_latest = human_input_empty\<rparr>"
  have a: "typed_ok [([0xff], False)] [104, 105]" by (simp add: typed_ok_def plain_line_def)
  have "\<not> utf8_valid [0xff :: u8]" by (simp add: utf8_width_def)
  then have 1: "next_input ?s (prompt_lines [0xff, 10, 104, 105]) = Inl (LocalProtocol HumanInputInvalidUtf8)"
    using human_lines_delivered [OF a, of ?s "prompt_lines (typed_input [([0xff], False)] [104, 105])"
        "[[0xff], [104, 105]]"]
    by (simp add: typed_input_def typed_lines_def)
  let ?typed = "[([104, 105, 13 :: u8], True), (replicate 97 65, False)]"
  have b: "typed_ok ?typed []" by (simp add: typed_ok_def plain_line_def)
  have "utf8_valid [104, 105, 13 :: u8]" by code_simp
  then obtain t where "next_input ?s (voice_lines (typed_input ?typed [])) = Inr (t, ?s\<lparr>hs_latest := t\<rparr>)"
      "human_input_as_bytes t = [104, 105, 13]"
    using human_lines_delivered [OF b, of ?s "voice_lines (typed_input ?typed [])" "[[104, 105, 13]]"]
    by (auto simp: typed_lines_def utf8_width_def)
  with 1 show ?thesis by (simp add: typed_input_def)
qed

text \<open>The sensor role always has a sample to hand on, numbered one after the one before. Over
  UDP it is pending until a first datagram came, then the last one received: fresh with its
  readings while that is no older than the time limit, stale with the same readings after.\<close>

theorem sensor_samples_labelled:
  assumes "sensor_inv s" and "sn_mode s = Udp" and "sn_stream s"
  shows "\<exists>p s'. next_sample timeout s queue now = Inr (p, s') \<and> sensor_inv s' \<and> sn_seq s' = sn_seq s + 1
    \<and> p = (case sn_latest_at s' of
          None \<Rightarrow> sensor_sample_pending (sn_seq s + 1)
        | Some at \<Rightarrow> (sn_latest s')\<lparr>ps_seq := sn_seq s + 1,
            ps_status := (if now - at \<le> timeout then PICO2W_SENSOR_STATUS_FRESH else PICO2W_SENSOR_STATUS_STALE)\<rparr>)
    \<and> (queue \<noteq> [] \<longrightarrow> sn_latest_at s' = Some (snd (last queue))
        \<and> sn_latest s' = (fst (last queue))\<lparr>ps_status := PICO2W_SENSOR_STATUS_FRESH, ps_seq := sn_seq s\<rparr>)"
proof -
  define d where "d = (if queue = [] then s
     else s\<lparr>sn_latest := (fst (last queue))\<lparr>ps_status := PICO2W_SENSOR_STATUS_FRESH, ps_seq := sn_seq s\<rparr>,
            sn_latest_at := Some (snd (last queue))\<rparr>)"
  have d: "drain_sensor s queue = Inr d" "sn_seq d = sn_seq s" "sn_mode d = Udp" "sensor_inv d"
    using assms by (auto simp: drain_sensor_eq d_def sensor_inv_def)
  have q: "queue \<noteq> [] \<Longrightarrow> sn_latest_at d = Some (snd (last queue))
      \<and> sn_latest d = (fst (last queue))\<lparr>ps_status := PICO2W_SENSOR_STATUS_FRESH, ps_seq := sn_seq s\<rparr>"
    by (simp add: d_def)
  show ?thesis
  proof (cases "sn_latest_at d")
    case None
    with d assms(3) q show ?thesis by (auto simp: next_sample_def sensor_inv_def)
  next
    case (Some at)
    then have f: "ps_status (sn_latest d) = PICO2W_SENSOR_STATUS_FRESH" using d(4) by (simp add: sensor_inv_def)
    show ?thesis
    proof (cases "now - at \<le> timeout")
      case True
      with Some d assms(3) q f show ?thesis
        by (auto simp: next_sample_def sensor_inv_def with_status_simps)
    next
      case False
      with Some d assms(3) q f show ?thesis
        by (auto simp: next_sample_def sensor_inv_def with_status_simps)
    qed
  qed
qed

theorem sensor_samples_labelled_witness:
  "\<exists>p s'. next_sample 5000 (sensor_source_new True Udp)
        [(\<lparr>ps_status = 0, ps_temperature_c_x10 = 215, ps_humidity_pct_x10 = 480, ps_light_raw = 900, ps_seq = 7\<rparr>, 10)] 6000
      = Inr (p, s') \<and> ps_status p = PICO2W_SENSOR_STATUS_STALE \<and> ps_light_raw p = 900"
  using sensor_samples_labelled [of "sensor_source_new True Udp" 5000
      "[(\<lparr>ps_status = 0, ps_temperature_c_x10 = 215, ps_humidity_pct_x10 = 480, ps_light_raw = 900, ps_seq = 7\<rparr>, 10)]" 6000]
    sensor_inv_new [of True Udp]
  by (auto simp: sensor_source_new_def)

text \<open>C35: A sample reaches the sensor role exactly after its acknowledgement. If the thread delivers
  a sample, there is a turn in which it received a packet that the packet parser accepts for the
  port and whose payload of nine bytes decodes to this sample; right before, in the same turn, it
  sent the frame built for the sender of that packet, with the addresses and ports of the packet
  exchanged and a payload from which the sender reads the sample's own number; and everything else
  it did comes from the turns before and after. Conversely, every such packet is acknowledged and
  delivered if nothing before it ended the thread, and the two calls succeed.\<close>

theorem udp_sample_acknowledged:
  fixes wp :: wifi_proto and dec :: "bytes \<Rightarrow> 'e + sensor_sample"
  shows "(udp_thread wp dec port turns = before @ SampleSent sample # after \<longrightarrow>
      (\<exists>earlier later packet src_ip dst_ip src_port dst_port payload ack_payload ack.
        turns = earlier @ (Packet packet, True, True) # later
        \<and> before = udp_thread wp dec port earlier @ [AckSent ack] \<and> after = udp_thread wp dec port later
        \<and> parse_udp_ipv4_packet wp packet (take 6 packet) (take 4 (drop (ETH_HEADER_LEN wp + 16) packet)) port
            = Some (src_ip, dst_ip, src_port, dst_port, payload)
        \<and> length payload = 9 \<and> dec payload = Inr sample
        \<and> build_udp_ipv4 wp (take 6 packet) (take 6 (drop 6 packet)) dst_ip src_ip dst_port src_port ack_payload = Some ack
        \<and> decode_pico2w_sensor_udp_ack ack_payload = Some (ps_seq sample)))
    \<and> (turns = earlier @ (Packet packet, True, True) # later
        \<and> (\<forall>(r, ack_ok, channel_open) \<in> List.set earlier. r \<noteq> RecvError \<and> channel_open)
        \<and> parse_pico2w_sensor_udp_frame wp packet port = Some frame \<and> dec (uf_payload frame) = Inr sample
        \<and> build_pico2w_sensor_udp_ack_frame wp frame (ps_seq sample) = Some ack \<longrightarrow>
      udp_thread wp dec port turns
        = udp_thread wp dec port earlier @ [AckSent ack, SampleSent sample] @ udp_thread wp dec port later)"
proof (intro conjI impI)
  assume "udp_thread wp dec port turns = before @ SampleSent sample # after"
  then show "\<exists>earlier later packet src_ip dst_ip src_port dst_port payload ack_payload ack.
        turns = earlier @ (Packet packet, True, True) # later
        \<and> before = udp_thread wp dec port earlier @ [AckSent ack] \<and> after = udp_thread wp dec port later
        \<and> parse_udp_ipv4_packet wp packet (take 6 packet) (take 4 (drop (ETH_HEADER_LEN wp + 16) packet)) port
            = Some (src_ip, dst_ip, src_port, dst_port, payload)
        \<and> length payload = 9 \<and> dec payload = Inr sample
        \<and> build_udp_ipv4 wp (take 6 packet) (take 6 (drop 6 packet)) dst_ip src_ip dst_port src_port ack_payload = Some ack
        \<and> decode_pico2w_sensor_udp_ack ack_payload = Some (ps_seq sample)"
    by (rule udp_sample_origin)
next
  assume "turns = earlier @ (Packet packet, True, True) # later
        \<and> (\<forall>(r, ack_ok, channel_open) \<in> List.set earlier. r \<noteq> RecvError \<and> channel_open)
        \<and> parse_pico2w_sensor_udp_frame wp packet port = Some frame \<and> dec (uf_payload frame) = Inr sample
        \<and> build_pico2w_sensor_udp_ack_frame wp frame (ps_seq sample) = Some ack"
  then show "udp_thread wp dec port turns
        = udp_thread wp dec port earlier @ [AckSent ack, SampleSent sample] @ udp_thread wp dec port later"
    by (auto simp: udp_thread_append udp_packet_def decode_pico2w_sensor_udp_payload_def parse_payload_length)
qed

text \<open>A packet of fixed headers and the payload at its end, and the decoder of the codec.\<close>

definition plain_wifi :: wifi_proto where
  "plain_wifi = \<lparr>ETH_HEADER_LEN = 14, IPV4_HEADER_LEN = 20, IP_PROTO_UDP = 17,
     parse_udp_ipv4_packet = (\<lambda>frame mac ip port. Some (take 4 (drop 26 frame), ip, 5000, port, drop 42 frame)),
     build_udp_ipv4 = (\<lambda>sm dm si di sp dp payload. Some (dm @ sm @ payload))\<rparr>"

definition sample_packet :: bytes where
  "sample_packet = replicate 14 0 @ [0x45, 0, 0, 0, 0, 0, 0, 0, 64, 17] @ replicate 18 0 @ [0, 215, 0, 224, 1, 132, 3, 7, 0]"

definition codec_decoder :: "bytes \<Rightarrow> unit + sensor_sample" where
  "codec_decoder bs = (case sensor_sample_validate bs of Inl _ \<Rightarrow> Inl ()
     | Inr _ \<Rightarrow> (case sensor_sample_decode_validated bs of Done p \<Rightarrow> Inr p | Panic \<Rightarrow> Inl ()))"

theorem udp_sample_acknowledged_witness:
  "\<exists>sample ack ack_payload. udp_thread plain_wifi codec_decoder 8787
        [(Nothing, False, False), (Packet sample_packet, False, True), (Packet sample_packet, True, True), (RecvError, True, True)]
      = [AckSent ack, SampleSent sample]
    \<and> build_udp_ipv4 plain_wifi (take 6 sample_packet) (take 6 (drop 6 sample_packet)) [0, 0, 0, 0] [0, 0, 0, 0] 8787 5000
        ack_payload = Some ack
    \<and> decode_pico2w_sensor_udp_ack ack_payload = Some 7
    \<and> udp_thread plain_wifi codec_decoder 8787 ([(Nothing, False, True)] @ (Packet sample_packet, True, True) # [])
      = [] @ [AckSent ack, SampleSent sample] @ []"
proof -
  let ?p = "\<lparr>ps_status = 0, ps_temperature_c_x10 = 215, ps_humidity_pct_x10 = 480, ps_light_raw = 900, ps_seq = 7\<rparr>"
  let ?turns = "[(Nothing, False, False), (Packet sample_packet, False, True), (Packet sample_packet, True, True),
      (RecvError, True, True)]"
  have r: "udp_thread plain_wifi codec_decoder 8787 ?turns = [AckSent (replicate 12 0 @ [7, 0])] @ SampleSent ?p # []"
    by code_simp
  have w: "take 4 (drop (ETH_HEADER_LEN plain_wifi + 16) sample_packet) = [0, 0, 0, 0]" "take 4 (drop 26 sample_packet) = [0, 0, 0, 0]"
    by code_simp+
  obtain ack_payload where a: "build_udp_ipv4 plain_wifi (take 6 sample_packet) (take 6 (drop 6 sample_packet))
        [0, 0, 0, 0] [0, 0, 0, 0] 8787 5000 ack_payload = Some (replicate 12 0 @ [7, 0])"
      "decode_pico2w_sensor_udp_ack ack_payload = Some 7"
    using udp_sample_acknowledged [THEN conjunct1, THEN mp, OF r] w
    by (auto simp: plain_wifi_def Cons_eq_append_conv append_eq_Cons_conv)
  let ?f = "\<lparr>uf_src_mac = [0, 0, 0, 0, 0, 0], uf_dst_mac = [0, 0, 0, 0, 0, 0], uf_src_ip = [0, 0, 0, 0], uf_dst_ip = [0, 0, 0, 0],
      uf_src_port = 5000, uf_dst_port = 8787, uf_payload = [0, 215, 0, 224, 1, 132, 3, 7, 0]\<rparr>"
  have f: "parse_pico2w_sensor_udp_frame plain_wifi sample_packet 8787 = Some ?f" "codec_decoder (uf_payload ?f) = Inr ?p"
    "build_pico2w_sensor_udp_ack_frame plain_wifi ?f (ps_seq ?p) = Some (replicate 12 0 @ [7, 0])"
    by code_simp+
  have "udp_thread plain_wifi codec_decoder 8787 ([(Nothing, False, True)] @ (Packet sample_packet, True, True) # [])
      = udp_thread plain_wifi codec_decoder 8787 [(Nothing, False, True)] @ [AckSent (replicate 12 0 @ [7, 0]), SampleSent ?p]
        @ udp_thread plain_wifi codec_decoder 8787 []"
    by (rule udp_sample_acknowledged [THEN conjunct2, THEN mp], intro conjI, rule refl, simp, (rule f)+)
  with r a show ?thesis by auto
qed

end
