(* ===== verification/M33_Board.thy ===== *)
theory M33_Board
  imports Pico_Prelude "HOL-Library.Sublist"
begin

text \<open>
  The board layer of the M33 kernel
  (\<open>examples/uno-q-heterogeneous/src/bin/uno_q_m33_native_kernel.rs\<close>): its static cells (the
  markers, the ring of received bytes, the state of the display), its register accesses, the two
  UARTs and the set-up of clocks and pins. The registers themselves are a parameter, a bus whose
  state each read and write may change.
\<close>

section \<open>Static cells\<close>

text \<open>The markers, \<open>static mut HIBANA_M33_*\<close>.\<close>

datatype m33_marker =
    M33_BOOT_STAGE | M33_TIMER_TICKS | M33_SCAN_TICKS | M33_SCAN_INDEX | M33_LIT_TICKS | M33_LAST_LIT_LED
  | M33_MATRIX_WORD0 | M33_MATRIX_BITS | M33_FACE_UPDATES | M33_LAST_FACE | M33_BOARD_POLLS | M33_ROLE_STEP
  | M33_PANIC_LINE | M33_PANIC_COLUMN | M33_USART1_RX_BYTES | M33_LPUART1_RX_BYTES | M33_USART1_TX_BYTES
  | M33_LPUART1_TX_BYTES | M33_LAST_RX_UART | M33_TX_READY_MASK | M33_USART1_ISR | M33_LPUART1_ISR
  | M33_USART1_ORE | M33_LPUART1_ORE | M33_RX_RING_PUMPED | M33_RX_RING_DROPS | M33_HINT_POLLS
  | M33_LAST_HINT_LANE | M33_RX_BYTES | M33_RX_FRAMES | M33_PARSED_FRAMES | M33_TX_FRAMES | M33_LAST_RX
  | M33_LAST_RX_PAYLOAD01 | M33_LAST_TX | M33_OPEN_SESSION | M33_OPEN_PORT | M33_REJECT_REASON
  | M33_REJECT_EXPECT_SESSION | M33_REJECT_FRAME_SESSION | M33_REJECT_META | M33_TRANSPORT_DEADLINE
  | M33_TRANSPORT_DEADLINE_TICKS

definition RX_RING_CAP :: nat where "RX_RING_CAP = 256"

record rx_ring =
  rr_words :: "u16 list"
  rr_head :: nat
  rr_tail :: nat

record led_renderer =
  lr_packed :: bytes
  lr_scan_index :: u8

record 'h m33 =
  hw :: 'h
  marks :: "m33_marker \<Rightarrow> u32"
  ring :: rx_ring
  renderer :: led_renderer

definition marker_store :: "m33_marker \<Rightarrow> u32 \<Rightarrow> 'h m33 \<Rightarrow> 'h m33" where
  "marker_store m v s = s\<lparr>marks := (marks s)(m := v)\<rparr>"

definition marker_add :: "m33_marker \<Rightarrow> u32 \<Rightarrow> 'h m33 \<Rightarrow> 'h m33" where
  "marker_add m v s = marker_store m (marks s m + v) s"

definition mark_stage :: "u32 \<Rightarrow> 'h m33 \<Rightarrow> 'h m33" where
  "mark_stage stage = marker_store M33_BOOT_STAGE stage"

lemma marker_store_fields [simp]:
  "hw (marker_store m v s) = hw s" "ring (marker_store m v s) = ring s" "renderer (marker_store m v s) = renderer s"
  "marks (marker_store m v s) m' = (if m' = m then v else marks s m')"
  by (simp_all add: marker_store_def)

lemma marker_add_fields [simp]:
  "hw (marker_add m v s) = hw s" "ring (marker_add m v s) = ring s" "renderer (marker_add m v s) = renderer s"
  "marks (marker_add m v s) m' = (if m' = m then marks s m + v else marks s m')"
  by (simp_all add: marker_add_def)

lemma mark_stage_fields [simp]:
  "hw (mark_stage v s) = hw s" "ring (mark_stage v s) = ring s" "renderer (mark_stage v s) = renderer s"
  "marks (mark_stage v s) m = (if m = M33_BOOT_STAGE then v else marks s m)"
  by (simp_all add: mark_stage_def)

section \<open>Registers\<close>

record 'h bus =
  bus_read :: "nat \<Rightarrow> 'h \<Rightarrow> u32 \<times> 'h"
  bus_write :: "nat \<Rightarrow> u32 \<Rightarrow> 'h \<Rightarrow> 'h"

definition read_reg :: "'h bus \<Rightarrow> nat \<Rightarrow> 'h m33 \<Rightarrow> u32 \<times> 'h m33" where
  "read_reg bus addr s = (let (v, h) = bus_read bus addr (hw s) in (v, s\<lparr>hw := h\<rparr>))"

definition write_reg :: "'h bus \<Rightarrow> nat \<Rightarrow> u32 \<Rightarrow> 'h m33 \<Rightarrow> 'h m33" where
  "write_reg bus addr v s = s\<lparr>hw := bus_write bus addr v (hw s)\<rparr>"

definition modify_reg :: "'h bus \<Rightarrow> nat \<Rightarrow> (u32 \<Rightarrow> u32) \<Rightarrow> 'h m33 \<Rightarrow> 'h m33" where
  "modify_reg bus addr f s = (let (v, s) = read_reg bus addr s in write_reg bus addr (f v) s)"

lemma read_reg_fields [simp]:
  "marks (snd (read_reg bus a s)) = marks s" "ring (snd (read_reg bus a s)) = ring s"
  "renderer (snd (read_reg bus a s)) = renderer s"
  by (simp_all add: read_reg_def split: prod.split)

lemma write_reg_fields [simp]:
  "marks (write_reg bus a v s) = marks s" "ring (write_reg bus a v s) = ring s"
  "renderer (write_reg bus a v s) = renderer s"
  by (simp_all add: write_reg_def)

lemma modify_reg_fields [simp]:
  "marks (modify_reg bus a f s) = marks s" "ring (modify_reg bus a f s) = ring s"
  "renderer (modify_reg bus a f s) = renderer s"
  by (simp_all add: modify_reg_def split_beta)

text \<open>A register that keeps what is written to it and nothing else changes.\<close>

definition plain_register :: "'h bus \<Rightarrow> nat \<Rightarrow> ('h \<Rightarrow> u32) \<Rightarrow> bool" where
  "plain_register bus a cell \<longleftrightarrow>
     (\<forall>h. fst (bus_read bus a h) = cell h) \<and> (\<forall>b h. cell (snd (bus_read bus b h)) = cell h)
     \<and> (\<forall>b v h. cell (bus_write bus b v h) = (if b = a then v else cell h))"

lemma plain_register_simps:
  assumes "plain_register bus a cell"
  shows "fst (read_reg bus a s) = cell (hw s)" "cell (hw (snd (read_reg bus b s))) = cell (hw s)"
    "cell (hw (write_reg bus b v s)) = (if b = a then v else cell (hw s))"
    "cell (hw (modify_reg bus b f s)) = (if b = a then f (cell (hw s)) else cell (hw s))"
  using assms by (simp_all add: plain_register_def read_reg_def write_reg_def modify_reg_def split_beta)

text \<open>A bus that also keeps the list of the writes, to state what was written.\<close>

definition wtap :: "'h bus \<Rightarrow> ('h \<times> (nat \<times> u32) list) bus" where
  "wtap bus = \<lparr>bus_read = (\<lambda>addr (h, log). let (v, h) = bus_read bus addr h in (v, h, log)),
              bus_write = (\<lambda>addr v (h, log). (bus_write bus addr v h, log @ [(addr, v)]))\<rparr>"

definition USART1 :: nat where "USART1 = 0x40013800"
definition LPUART1 :: nat where "LPUART1 = 0x46002400"
definition USART_CR1 :: nat where "USART_CR1 = 0x00"
definition USART_CR3 :: nat where "USART_CR3 = 0x08"
definition USART_BRR :: nat where "USART_BRR = 0x0c"
definition USART_ISR :: nat where "USART_ISR = 0x1c"
definition USART_ICR :: nat where "USART_ICR = 0x20"
definition USART_RDR :: nat where "USART_RDR = 0x24"
definition USART_TDR :: nat where "USART_TDR = 0x28"
definition USART_CR1_UE :: u32 where "USART_CR1_UE = push_bit 0 1"
definition USART_CR1_RE :: u32 where "USART_CR1_RE = push_bit 2 1"
definition USART_CR1_TE :: u32 where "USART_CR1_TE = push_bit 3 1"
definition USART_CR3_RTSE :: u32 where "USART_CR3_RTSE = push_bit 8 1"
definition USART_ISR_FE :: u32 where "USART_ISR_FE = push_bit 1 1"
definition USART_ISR_NE :: u32 where "USART_ISR_NE = push_bit 2 1"
definition USART_ISR_ORE :: u32 where "USART_ISR_ORE = push_bit 3 1"
definition USART_ISR_RXNE :: u32 where "USART_ISR_RXNE = push_bit 5 1"
definition USART_ISR_TXE :: u32 where "USART_ISR_TXE = push_bit 7 1"
definition USART_ERROR_FLAGS :: u32 where "USART_ERROR_FLAGS = USART_ISR_FE OR USART_ISR_NE OR USART_ISR_ORE"
definition USART_ICR_CLEAR_ERRORS :: u32 where "USART_ICR_CLEAR_ERRORS = USART_ERROR_FLAGS"

section \<open>The ring of received bytes\<close>

text \<open>A received byte and the UART it came from; the ring holds them as one 16-bit word.\<close>

definition push_rx_ring :: "u8 \<Rightarrow> u32 \<Rightarrow> 'h m33 \<Rightarrow> 'h m33" where
  "push_rx_ring byte source s =
     (let head = rr_head (ring s); tail = rr_tail (ring s); next = (head + 1) mod RX_RING_CAP in
      if next = tail then marker_add M33_RX_RING_DROPS 1 s
      else let w = push_bit 8 (ucast source) OR ucast byte;
               s = s\<lparr>ring := (ring s)\<lparr>rr_words := (rr_words (ring s))[head := w], rr_head := next\<rparr>\<rparr> in
           marker_add M33_RX_RING_PUMPED 1 s)"

definition pop_rx_ring :: "'h m33 \<Rightarrow> (u8 \<times> u32) option \<times> 'h m33" where
  "pop_rx_ring s =
     (let head = rr_head (ring s); tail = rr_tail (ring s) in
      if tail = head then (None, s)
      else let w = rr_words (ring s) ! tail in
           (Some (ucast (w AND 0xff), ucast (drop_bit 8 w)),
            s\<lparr>ring := (ring s)\<lparr>rr_tail := (tail + 1) mod RX_RING_CAP\<rparr>\<rparr>))"

section \<open>The UARTs\<close>

definition read_usart_direct :: "'h bus \<Rightarrow> nat \<Rightarrow> u32 \<Rightarrow> 'h m33 \<Rightarrow> (u8 \<times> u32) option \<times> 'h m33" where
  "read_usart_direct bus base source s =
     (let (isr, s) = read_reg bus (base + USART_ISR) s;
          s = marker_store (if source = 1 then M33_USART1_ISR else M33_LPUART1_ISR) isr s;
          s = (if isr AND USART_ISR_ORE \<noteq> 0
               then marker_add (if source = 1 then M33_USART1_ORE else M33_LPUART1_ORE) 1 s else s);
          (byte, s) = (if isr AND USART_ISR_RXNE = 0 then (None, s)
                       else let (v, s) = read_reg bus (base + USART_RDR) s in (Some (ucast v), s));
          s = (if isr AND USART_ERROR_FLAGS \<noteq> 0
               then write_reg bus (base + USART_ICR) USART_ICR_CLEAR_ERRORS s else s) in
      case byte of
        None \<Rightarrow> (None, s)
      | Some b \<Rightarrow> (Some (b, source), marker_add (if source = 1 then M33_USART1_RX_BYTES else M33_LPUART1_RX_BYTES) 1 s))"

definition pump_rx_ring_once :: "'h bus \<Rightarrow> 'h m33 \<Rightarrow> bool \<times> 'h m33" where
  "pump_rx_ring_once bus s =
     (let (r, s) = read_usart_direct bus USART1 1 s;
          (moved, s) = (case r of None \<Rightarrow> (False, s) | Some (byte, source) \<Rightarrow> (True, push_rx_ring byte source s));
          (r, s) = read_usart_direct bus LPUART1 2 s in
      case r of None \<Rightarrow> (moved, s) | Some (byte, source) \<Rightarrow> (True, push_rx_ring byte source s))"

text \<open>\<open>while guard < 64 && pump_rx_ring_once()\<close>, by the rounds that are left.\<close>

fun pump_rounds :: "'h bus \<Rightarrow> nat \<Rightarrow> 'h m33 \<Rightarrow> 'h m33" where
  "pump_rounds bus 0 s = s"
| "pump_rounds bus (Suc n) s =
     (let (moved, s) = pump_rx_ring_once bus s in if moved then pump_rounds bus n s else s)"

definition pump_rx_ring :: "'h bus \<Rightarrow> 'h m33 \<Rightarrow> 'h m33" where
  "pump_rx_ring bus = pump_rounds bus 64"

definition read_carrier_byte :: "'h bus \<Rightarrow> 'h m33 \<Rightarrow> (u8 \<times> u32) option \<times> 'h m33" where
  "read_carrier_byte bus s =
     (case pop_rx_ring s of
        (Some r, s) \<Rightarrow> (Some r, s)
      | (None, s) \<Rightarrow> pop_rx_ring (pump_rx_ring bus s))"

text \<open>The wait for room in the transmitter, by the rounds that are left of the million; the last
  check of the flag is the loop's own.\<close>

fun txe_wait :: "'h bus \<Rightarrow> nat \<Rightarrow> nat \<Rightarrow> 'h m33 \<Rightarrow> 'h m33" where
  "txe_wait bus base 0 s = snd (read_reg bus (base + USART_ISR) s)"
| "txe_wait bus base (Suc n) s =
     (let (isr, s) = read_reg bus (base + USART_ISR) s in
      if isr AND USART_ISR_TXE = 0 then txe_wait bus base n (pump_rx_ring bus s) else s)"

definition TXE_GUARD :: nat where "TXE_GUARD = 1000000"

definition write_usart :: "'h bus \<Rightarrow> nat \<Rightarrow> u8 \<Rightarrow> 'h m33 \<Rightarrow> bool \<times> 'h m33" where
  "write_usart bus base byte s =
     (let s = txe_wait bus base TXE_GUARD s;
          (isr, s) = read_reg bus (base + USART_ISR) s in
      if isr AND USART_ISR_TXE = 0 then (False, s)
      else (True, pump_rx_ring bus (write_reg bus (base + USART_TDR) (ucast byte) s)))"

fun write_all :: "'h bus \<Rightarrow> bytes \<Rightarrow> 'h m33 \<Rightarrow> 'h m33" where
  "write_all bus [] s = s"
| "write_all bus (byte # bs) s =
     (let s = pump_rx_ring bus s;
          (ok, s) = write_usart bus USART1 byte s;
          s = (if ok then marker_add M33_USART1_TX_BYTES 1 s else s);
          (ok, s) = write_usart bus LPUART1 byte s;
          s = (if ok then marker_add M33_LPUART1_TX_BYTES 1 s else s) in
      write_all bus bs s)"

section \<open>The functions the carrier calls\<close>

definition uno_q_m33_carrier_write :: "'h bus \<Rightarrow> u8 \<Rightarrow> 'h m33 \<Rightarrow> 'h m33" where
  "uno_q_m33_carrier_write bus byte s =
     (let s = mark_stage 0x200 s;
          (ok1, s) = write_usart bus USART1 byte s;
          s = (if ok1 then marker_add M33_USART1_TX_BYTES 1 s else s);
          (ok2, s) = write_usart bus LPUART1 byte s;
          s = (if ok2 then marker_add M33_LPUART1_TX_BYTES 1 s else s) in
      marker_store M33_TX_READY_MASK ((if ok1 then 1 else 0) OR (if ok2 then 2 else 0)) s)"

definition uno_q_m33_carrier_read :: "'h bus \<Rightarrow> 'h m33 \<Rightarrow> i16 \<times> 'h m33" where
  "uno_q_m33_carrier_read bus s =
     (case read_carrier_byte bus s of
        (None, s) \<Rightarrow> (- 1, s)
      | (Some (byte, source), s) \<Rightarrow>
          (let s = marker_add M33_RX_BYTES 1 s;
               s = marker_store M33_LAST_RX_UART source s;
               s = mark_stage (0x201 OR push_bit 8 source) s in
           (ucast byte, s)))"

definition uno_q_m33_board_ready :: "'h bus \<Rightarrow> 'h m33 \<Rightarrow> 'h m33" where
  "uno_q_m33_board_ready bus s = write_all bus (ascii ''HIBANA_M33:APPKIT_READY'' @ [13, 10]) (mark_stage 0x100 s)"

text \<open>What a panic leaves behind before it spins for ever.\<close>

definition panic_handler :: "'h bus \<Rightarrow> (u32 \<times> u32) option \<Rightarrow> 'h m33 \<Rightarrow> 'h m33" where
  "panic_handler bus location s =
     (let s = (case location of None \<Rightarrow> s
               | Some (line, column) \<Rightarrow> marker_store M33_PANIC_COLUMN column (marker_store M33_PANIC_LINE line s)) in
      write_all bus (ascii ''HIBANA_M33:PANIC'' @ [13, 10]) (mark_stage 0xffff0001 s))"

section \<open>Queues that drop when full\<close>

locale drop_queue =
  fixes push :: "'a \<Rightarrow> 's \<Rightarrow> 's"
    and pop :: "'s \<Rightarrow> 'a option \<times> 's"
    and items :: "'s \<Rightarrow> 'a list"
    and inv :: "'s \<Rightarrow> bool"
    and ok :: "'a \<Rightarrow> bool"
    and capacity :: nat
  assumes bounded: "inv s \<Longrightarrow> length (items s) \<le> capacity"
    and push_room: "inv s \<Longrightarrow> ok x \<Longrightarrow> length (items s) < capacity \<Longrightarrow>
      inv (push x s) \<and> items (push x s) = items s @ [x]"
    and push_full: "inv s \<Longrightarrow> length (items s) = capacity \<Longrightarrow> inv (push x s) \<and> items (push x s) = items s"
    and pop_None: "inv s \<Longrightarrow> items s = [] \<Longrightarrow> pop s = (None, s)"
    and pop_Some: "inv s \<Longrightarrow> items s = x # xs \<Longrightarrow> \<exists>s'. pop s = (Some x, s') \<and> inv s' \<and> items s' = xs"
begin

text \<open>Of what was pushed, \<open>out\<close> has left the queue, what it holds comes next, and \<open>n\<close> were dropped.\<close>

definition accounted :: "'a list \<Rightarrow> 'a list \<Rightarrow> nat \<Rightarrow> 's \<Rightarrow> bool" where
  "accounted pushed out n s \<longleftrightarrow>
     inv s \<and> subseq (out @ items s) pushed \<and> length pushed = length out + length (items s) + n"

lemma accounted_push:
  assumes "accounted pushed out n s" "ok x"
  shows "accounted (pushed @ [x]) out (if length (items s) < capacity then n else n + 1) (push x s)"
proof (cases "length (items s) < capacity")
  case True
  with assms push_room [of s x] show ?thesis
    by (auto simp: accounted_def simp flip: append_assoc)
next
  case False
  with assms bounded [of s] have "length (items s) = capacity" by (auto simp: accounted_def)
  with False assms push_full [of s x] show ?thesis
    by (auto simp: accounted_def intro: subseq_append_iff [THEN iffD2])
qed

lemma accounted_pop:
  assumes "accounted pushed out n s"
  shows "accounted pushed (out @ (case fst (pop s) of None \<Rightarrow> [] | Some x \<Rightarrow> [x])) n (snd (pop s))"
proof (cases "items s")
  case Nil
  with assms pop_None [of s] show ?thesis by (simp add: accounted_def)
next
  case (Cons x xs)
  with assms pop_Some [of s x xs] show ?thesis by (auto simp: accounted_def)
qed

lemma pop_gives:
  assumes "inv s"
  shows "fst (pop s) = (case items s of [] \<Rightarrow> None | x # xs \<Rightarrow> Some x)"
  using assms pop_None [of s] pop_Some [of s] by (fastforce split: list.split)

end

section \<open>The ring is such a queue\<close>

definition rx_entry :: "u16 \<Rightarrow> u8 \<times> u32" where
  "rx_entry w = (ucast (w AND 0xff), ucast (drop_bit 8 w))"

definition rx_fill :: "rx_ring \<Rightarrow> nat" where
  "rx_fill r = (rr_head r + RX_RING_CAP - rr_tail r) mod RX_RING_CAP"

definition rx_items :: "rx_ring \<Rightarrow> (u8 \<times> u32) list" where
  "rx_items r = map (\<lambda>i. rx_entry (rr_words r ! ((rr_tail r + i) mod RX_RING_CAP))) [0..<rx_fill r]"

definition rx_inv :: "rx_ring \<Rightarrow> bool" where
  "rx_inv r \<longleftrightarrow> length (rr_words r) = RX_RING_CAP \<and> rr_head r < RX_RING_CAP \<and> rr_tail r < RX_RING_CAP"

definition rx_ok :: "u8 \<times> u32 \<Rightarrow> bool" where
  "rx_ok x \<longleftrightarrow> snd x < 256"

lemma rx_entry_word:
  fixes byte :: u8 and source :: u32
  assumes "source < 256"
  shows "rx_entry (push_bit 8 (ucast source) OR ucast byte) = (byte, source)"
proof -
  have "take_bit 8 source = source" using assms
    by (simp add: word_unat_eq_iff unsigned_take_bit_eq take_bit_nat_eq_self word_less_nat_alt)
  then have low: "n < 8" "n < 16" if "bit source n" for n
    using that by (metis bit_take_bit_iff, fastforce dest: arg_cong [of _ _ "\<lambda>w. bit w n"] simp: bit_take_bit_iff)
  have ff: "bit (0xff :: u16) n \<longleftrightarrow> n < 8" "bit (0xff :: int) n \<longleftrightarrow> n < 8" "bit (0xff :: nat) n \<longleftrightarrow> n < 8" for n
    using bit_mask_iff [where 'a = u16, of 8 n] bit_mask_iff [where 'a = int, of 8 n] bit_mask_iff [where 'a = nat, of 8 n]
    by (auto simp: mask_eq_exp_minus_1)
  show ?thesis
    by (auto simp: rx_entry_def intro!: bit_word_eqI simp: byte_bits bit_and_iff ff low)
qed

lemma rx_next_mod:
  assumes "head < RX_RING_CAP" "tail < RX_RING_CAP" "(head + 1) mod RX_RING_CAP \<noteq> tail"
  shows "((head + 1) mod RX_RING_CAP + RX_RING_CAP - tail) mod RX_RING_CAP
      = Suc ((head + RX_RING_CAP - tail) mod RX_RING_CAP)"
    "(tail + (head + RX_RING_CAP - tail) mod RX_RING_CAP) mod RX_RING_CAP = head"
proof -
  consider "head + 1 = RX_RING_CAP" "0 < tail" | "tail \<le> head" "head + 1 < RX_RING_CAP" | "head + 1 < tail"
    using assms by (cases "head + 1 = RX_RING_CAP"; force simp: not_less not_le)
  note cases = this
  show "((head + 1) mod RX_RING_CAP + RX_RING_CAP - tail) mod RX_RING_CAP
      = Suc ((head + RX_RING_CAP - tail) mod RX_RING_CAP)"
    using assms by (cases rule: cases) (auto simp: RX_RING_CAP_def mod_if)
  show "(tail + (head + RX_RING_CAP - tail) mod RX_RING_CAP) mod RX_RING_CAP = head"
    using assms by (cases rule: cases) (auto simp: RX_RING_CAP_def mod_if)
qed

lemma rx_fill_full:
  assumes "rx_inv r"
  shows "(rr_head r + 1) mod RX_RING_CAP = rr_tail r \<longleftrightarrow> rx_fill r = 255" "rx_fill r \<le> 255"
proof -
  have "rr_head r < 256" "rr_tail r < 256" using assms by (auto simp: rx_inv_def RX_RING_CAP_def)
  then show "(rr_head r + 1) mod RX_RING_CAP = rr_tail r \<longleftrightarrow> rx_fill r = 255" "rx_fill r \<le> 255"
    by (auto simp: rx_fill_def RX_RING_CAP_def mod_if)
qed

lemma push_rx_ring_room:
  assumes r: "rx_inv (ring s)" and source: "source < 256" and room: "rx_fill (ring s) < 255"
  shows "rx_inv (ring (push_rx_ring byte source s))"
    "rx_items (ring (push_rx_ring byte source s)) = rx_items (ring s) @ [(byte, source)]"
    "marks (push_rx_ring byte source s) M33_RX_RING_DROPS = marks s M33_RX_RING_DROPS"
proof -
  let ?r = "ring s"
  have free: "(rr_head ?r + 1) mod RX_RING_CAP \<noteq> rr_tail ?r" using rx_fill_full(1) [OF r] room by simp
  have b: "rr_head ?r < RX_RING_CAP" "rr_tail ?r < RX_RING_CAP" "length (rr_words ?r) = RX_RING_CAP"
    using r by (auto simp: rx_inv_def)
  note after = rx_next_mod [OF b(1,2) free]
  have other: "rr_head ?r \<noteq> (rr_tail ?r + i) mod RX_RING_CAP" if "i < rx_fill ?r" for i
  proof -
    have "rx_fill ?r = (if rr_tail ?r \<le> rr_head ?r then rr_head ?r - rr_tail ?r else rr_head ?r + 256 - rr_tail ?r)"
      using b(1,2) by (auto simp: rx_fill_def RX_RING_CAP_def mod_if)
    moreover from that rx_fill_full(2) [OF r] b(2) have "(rr_tail ?r + i) mod RX_RING_CAP
        = (if rr_tail ?r + i < 256 then rr_tail ?r + i else rr_tail ?r + i - 256)"
      by (simp add: RX_RING_CAP_def le_mod_geq)
    ultimately show ?thesis using that b(1,2) by (simp add: RX_RING_CAP_def split: if_splits)
  qed
  show "rx_inv (ring (push_rx_ring byte source s))"
    using free b by (simp add: push_rx_ring_def Let_def rx_inv_def RX_RING_CAP_def)
  have "(rr_tail ?r + rx_fill ?r) mod RX_RING_CAP = rr_head ?r" using after(2) by (simp add: rx_fill_def)
  moreover have "rx_fill (ring (push_rx_ring byte source s)) = Suc (rx_fill ?r)"
    using free after(1) by (simp add: push_rx_ring_def Let_def rx_fill_def)
  ultimately show "rx_items (ring (push_rx_ring byte source s)) = rx_items ?r @ [(byte, source)]"
    using free b other
    by (simp add: rx_items_def) (simp add: push_rx_ring_def Let_def rx_entry_word source nth_list_update_neq)
  show "marks (push_rx_ring byte source s) M33_RX_RING_DROPS = marks s M33_RX_RING_DROPS"
    using free by (simp add: push_rx_ring_def Let_def)
qed

lemma push_rx_ring_full:
  assumes "rx_inv (ring s)" "rx_fill (ring s) = 255"
  shows "push_rx_ring byte source s = marker_add M33_RX_RING_DROPS 1 s"
  using assms rx_fill_full(1) [OF assms(1)] by (simp add: push_rx_ring_def Let_def)

lemma pop_rx_ring_None:
  assumes "rx_inv (ring s)" "rx_fill (ring s) = 0"
  shows "pop_rx_ring s = (None, s)"
proof -
  have "rr_tail (ring s) = rr_head (ring s)"
    using assms by (auto simp: rx_inv_def rx_fill_def RX_RING_CAP_def mod_if split: if_splits)
  then show ?thesis by (simp add: pop_rx_ring_def Let_def)
qed

lemma pop_rx_ring_Some:
  assumes "rx_inv (ring s)" "rx_fill (ring s) = Suc n"
  shows "\<exists>s'. pop_rx_ring s = (Some (hd (rx_items (ring s))), s') \<and> rx_inv (ring s')
    \<and> rx_items (ring s') = tl (rx_items (ring s)) \<and> marks s' = marks s \<and> hw s' = hw s"
proof -
  let ?r = "ring s"
  have ne: "rr_tail ?r \<noteq> rr_head ?r" using assms by (auto simp: rx_fill_def)
  have b: "rr_head ?r < RX_RING_CAP" "rr_tail ?r < RX_RING_CAP" using assms(1) by (auto simp: rx_inv_def)
  have fill: "rx_fill (?r\<lparr>rr_tail := (rr_tail ?r + 1) mod RX_RING_CAP\<rparr>) = n"
    using assms(2) ne b by (auto simp: rx_fill_def RX_RING_CAP_def mod_if split: if_splits)
  have shift: "((rr_tail ?r + 1) mod RX_RING_CAP + i) mod RX_RING_CAP = (rr_tail ?r + Suc i) mod RX_RING_CAP" for i
    by (simp add: mod_add_left_eq)
  have "rx_items ?r = rx_entry (rr_words ?r ! (rr_tail ?r mod RX_RING_CAP))
      # map (\<lambda>i. rx_entry (rr_words ?r ! ((rr_tail ?r + Suc i) mod RX_RING_CAP))) [0..<n]"
    by (simp add: rx_items_def assms(2) map_upt_Suc del: upt_Suc)
  moreover have "rx_items (?r\<lparr>rr_tail := (rr_tail ?r + 1) mod RX_RING_CAP\<rparr>)
      = map (\<lambda>i. rx_entry (rr_words ?r ! ((rr_tail ?r + Suc i) mod RX_RING_CAP))) [0..<n]"
    using fill shift by (simp add: rx_items_def)
  ultimately show ?thesis
    using ne b assms(1) by (simp add: pop_rx_ring_def Let_def rx_entry_def rx_inv_def RX_RING_CAP_def)
qed

interpretation rx: drop_queue "\<lambda>x. push_rx_ring (fst x) (snd x)" pop_rx_ring "\<lambda>s. rx_items (ring s)"
  "\<lambda>s. rx_inv (ring s)" rx_ok 255
proof unfold_locales
  show "length (rx_items (ring s)) \<le> 255" if "rx_inv (ring s)" for s :: "'a m33"
    using rx_fill_full(2) [OF that] by (simp add: rx_items_def)
  show "rx_inv (ring (push_rx_ring (fst x) (snd x) s))
      \<and> rx_items (ring (push_rx_ring (fst x) (snd x) s)) = rx_items (ring s) @ [x]"
    if "rx_inv (ring s)" "rx_ok x" "length (rx_items (ring s)) < 255" for s :: "'a m33" and x
    using push_rx_ring_room [of s "snd x" "fst x"] that by (simp add: rx_ok_def rx_items_def)
  show "rx_inv (ring (push_rx_ring (fst x) (snd x) s))
      \<and> rx_items (ring (push_rx_ring (fst x) (snd x) s)) = rx_items (ring s)"
    if "rx_inv (ring s)" "length (rx_items (ring s)) = 255" for s :: "'a m33" and x
    using push_rx_ring_full [of s "fst x" "snd x"] that by (simp add: rx_items_def)
  show "pop_rx_ring s = (None, s)" if "rx_inv (ring s)" "rx_items (ring s) = []" for s :: "'a m33"
    using pop_rx_ring_None [of s] that by (simp add: rx_items_def)
  show "\<exists>s'. pop_rx_ring s = (Some x, s') \<and> rx_inv (ring s') \<and> rx_items (ring s') = xs"
    if "rx_inv (ring s)" "rx_items (ring s) = x # xs" for s :: "'a m33" and x xs
  proof -
    have "rx_fill (ring s) \<noteq> 0" using that(2) by (intro notI) (simp add: rx_items_def)
    then obtain n where "rx_fill (ring s) = Suc n" by (cases "rx_fill (ring s)") auto
    from pop_rx_ring_Some [OF that(1) this] that(2) show ?thesis by auto
  qed
qed

section \<open>What the UARTs deliver\<close>

text \<open>A bus with a witness: it also keeps the list of the bytes that were read out of the receive
  registers of the two UARTs.\<close>

definition rx_source :: "nat \<Rightarrow> u32 option" where
  "rx_source addr = (if addr = USART1 + USART_RDR then Some 1 else if addr = LPUART1 + USART_RDR then Some 2 else None)"

definition tap :: "'h bus \<Rightarrow> ('h \<times> (u8 \<times> u32) list) bus" where
  "tap bus = \<lparr>bus_read = (\<lambda>addr (h, seen). let (v, h) = bus_read bus addr h in
                 (v, h, seen @ (case rx_source addr of None \<Rightarrow> [] | Some source \<Rightarrow> [(ucast v, source)]))),
              bus_write = (\<lambda>addr v (h, seen). (bus_write bus addr v h, seen))\<rparr>"

datatype m33_io = Io_Read | Io_Write u8 | Io_Write_All bytes | Io_Pump

text \<open>The calls a role makes, with the bytes that were returned to it.\<close>

fun io_run :: "'h bus \<Rightarrow> m33_io list \<Rightarrow> 'h m33 \<Rightarrow> (u8 \<times> u32) list \<times> 'h m33" where
  "io_run bus [] s = ([], s)"
| "io_run bus (Io_Read # ops) s =
     (let (r, s) = uno_q_m33_carrier_read bus s; source = marks s M33_LAST_RX_UART; (out, s) = io_run bus ops s in
      ((if r = - 1 then [] else [(ucast r, source)]) @ out, s))"
| "io_run bus (Io_Write b # ops) s = io_run bus ops (uno_q_m33_carrier_write bus b s)"
| "io_run bus (Io_Write_All bs # ops) s = io_run bus ops (write_all bus bs s)"
| "io_run bus (Io_Pump # ops) s = io_run bus ops (pump_rx_ring bus s)"

definition m33_start :: "'h \<Rightarrow> 'h m33" where
  "m33_start h = \<lparr>hw = h, marks = (\<lambda>_. 0), ring = \<lparr>rr_words = replicate RX_RING_CAP 0, rr_head = 0, rr_tail = 0\<rparr>,
     renderer = \<lparr>lr_packed = replicate 13 0, lr_scan_index = 0\<rparr>\<rparr>"

text \<open>The bytes that were read, those that left the ring and those that were dropped.\<close>

definition io_inv :: "(u8 \<times> u32) list \<Rightarrow> ('h \<times> (u8 \<times> u32) list) m33 \<Rightarrow> bool" where
  "io_inv out s \<longleftrightarrow> (\<exists>n. rx.accounted (snd (hw s)) out n s \<and> marks s M33_RX_RING_DROPS = of_nat n)"

lemma io_inv_frame:
  assumes "io_inv out s" "ring t = ring s" "snd (hw t) = snd (hw s)"
    "marks t M33_RX_RING_DROPS = marks s M33_RX_RING_DROPS"
  shows "io_inv out t"
  using assms by (simp add: io_inv_def rx.accounted_def)

lemma io_inv_start: "io_inv [] (m33_start (h, []))"
proof -
  have "rx.accounted [] [] 0 (m33_start (h, []))"
    unfolding rx.accounted_def by (simp add: m33_start_def rx_inv_def rx_items_def rx_fill_def RX_RING_CAP_def)
  then show ?thesis unfolding io_inv_def by (intro exI [of _ 0]) (simp add: m33_start_def)
qed

lemma io_inv_marks [intro]:
  assumes "io_inv out s" "m \<noteq> M33_RX_RING_DROPS"
  shows "io_inv out (marker_store m v s)" "io_inv out (marker_add m v s)"
  by (rule io_inv_frame [OF assms(1)]; use assms(2) in simp)+

lemma io_inv_stage [intro]: "io_inv out s \<Longrightarrow> io_inv out (mark_stage v s)"
  unfolding mark_stage_def by (rule io_inv_marks) simp_all

lemma io_inv_write [intro]: "io_inv out s \<Longrightarrow> io_inv out (write_reg (tap bus) a v s)"
  by (erule io_inv_frame) (simp_all add: write_reg_def tap_def split_beta)

lemma io_inv_read [intro]:
  assumes "io_inv out s" "rx_source a = None"
  shows "io_inv out (snd (read_reg (tap bus) a s))"
  by (rule io_inv_frame [OF assms(1)]) (use assms(2) in \<open>simp_all add: read_reg_def tap_def split_beta\<close>)

lemma rx_source_flags [simp]:
  "rx_source (USART1 + USART_ISR) = None" "rx_source (LPUART1 + USART_ISR) = None"
  "rx_source (USART1 + USART_RDR) = Some 1" "rx_source (LPUART1 + USART_RDR) = Some 2"
  by (simp_all add: rx_source_def USART1_def LPUART1_def USART_ISR_def USART_RDR_def)

text \<open>Reading a byte and pushing it are one step for the account.\<close>

lemma io_inv_pushed:
  assumes "io_inv out s" "ring t = ring s" "snd (hw t) = snd (hw s) @ [(b, source)]"
    "marks t M33_RX_RING_DROPS = marks s M33_RX_RING_DROPS" "source < 256"
  shows "io_inv out (push_rx_ring b source t)"
proof -
  obtain n where n: "rx.accounted (snd (hw s)) out n s" "marks s M33_RX_RING_DROPS = of_nat n"
    using assms(1) by (auto simp: io_inv_def)
  then have "rx.accounted (snd (hw s)) out n t" using assms(2) by (simp add: rx.accounted_def)
  from rx.accounted_push [OF this, of "(b, source)"] assms(3,5)
  have acc: "rx.accounted (snd (hw t)) out (if length (rx_items (ring t)) < 255 then n else n + 1) (push_rx_ring b source t)"
    by (simp add: rx_ok_def)
  have "hw (push_rx_ring b source t) = hw t" by (simp add: push_rx_ring_def Let_def)
  moreover have "marks (push_rx_ring b source t) M33_RX_RING_DROPS
      = of_nat (if length (rx_items (ring t)) < 255 then n else n + 1)"
  proof -
    have inv: "rx_inv (ring t)" using n(1) assms(2) by (simp add: rx.accounted_def)
    show ?thesis
    proof (cases "rx_fill (ring t) < 255")
      case True
      with push_rx_ring_room(3) [OF inv assms(5)] n(2) assms(4) show ?thesis by (simp add: rx_items_def)
    next
      case False
      with rx_fill_full(2) [OF inv] push_rx_ring_full [OF inv] n(2) assms(4) show ?thesis
        by (simp add: rx_items_def)
    qed
  qed
  ultimately show ?thesis using acc unfolding io_inv_def by (intro exI conjI) simp_all
qed

lemma io_inv_popped:
  assumes "io_inv out s"
  shows "io_inv (out @ (case fst (pop_rx_ring s) of None \<Rightarrow> [] | Some x \<Rightarrow> [x])) (snd (pop_rx_ring s))"
proof -
  have "hw (snd (pop_rx_ring s)) = hw s" "marks (snd (pop_rx_ring s)) = marks s"
    by (simp_all add: pop_rx_ring_def Let_def)
  with assms rx.accounted_pop show ?thesis unfolding io_inv_def by metis
qed

lemma tap_reads_rdr:
  assumes "rx_source a = Some source"
  shows "\<exists>v t. read_reg (tap bus) a s = (v, t) \<and> ring t = ring s \<and> marks t = marks s
    \<and> snd (hw t) = snd (hw s) @ [(ucast v, source)]"
  using assms by (simp add: read_reg_def tap_def split_beta)

lemma tap_write_keeps: "snd (hw (write_reg (tap bus) a v s)) = snd (hw s)"
  by (simp add: write_reg_def tap_def split_beta)

lemma io_inv_direct:
  assumes s: "io_inv out s" and base: "base = USART1 \<and> source = 1 \<or> base = LPUART1 \<and> source = 2"
  shows "case read_usart_direct (tap bus) base source s of
      (None, t) \<Rightarrow> io_inv out t
    | (Some (b, src), t) \<Rightarrow> io_inv out (push_rx_ring b src t)"
proof -
  have flags: "rx_source (base + USART_ISR) = None" and rdr: "rx_source (base + USART_RDR) = Some source"
    and small: "source < 256" using base by auto
  obtain isr s1 where r: "read_reg (tap bus) (base + USART_ISR) s = (isr, s1)" by (cases "read_reg (tap bus) (base + USART_ISR) s")
  with io_inv_read [OF s flags, of bus] have s1: "io_inv out s1" by simp
  define s2 where "s2 = marker_store (if source = 1 then M33_USART1_ISR else M33_LPUART1_ISR) isr s1"
  define s3 where "s3 = (if isr AND USART_ISR_ORE \<noteq> 0
      then marker_add (if source = 1 then M33_USART1_ORE else M33_LPUART1_ORE) 1 s2 else s2)"
  have s3: "io_inv out s3" using s1 by (auto simp: s3_def s2_def)
  show ?thesis
  proof (cases "isr AND USART_ISR_RXNE = 0")
    case True
    then have "read_usart_direct (tap bus) base source s = (None, if isr AND USART_ERROR_FLAGS \<noteq> 0
        then write_reg (tap bus) (base + USART_ICR) USART_ICR_CLEAR_ERRORS s3 else s3)"
      using r by (simp add: read_usart_direct_def Let_def s2_def s3_def)
    then show ?thesis using s3 by auto
  next
    case False
    obtain v t where t: "read_reg (tap bus) (base + USART_RDR) s3 = (v, t)" "ring t = ring s3" "marks t = marks s3"
      "snd (hw t) = snd (hw s3) @ [(ucast v, source)]"
      using tap_reads_rdr [OF rdr] by blast
    define u where "u = marker_add (if source = 1 then M33_USART1_RX_BYTES else M33_LPUART1_RX_BYTES) 1
        (if isr AND USART_ERROR_FLAGS \<noteq> 0 then write_reg (tap bus) (base + USART_ICR) USART_ICR_CLEAR_ERRORS t else t)"
    have "read_usart_direct (tap bus) base source s = (Some (ucast v, source), u)"
      unfolding read_usart_direct_def r Let_def prod.case s2_def [symmetric] s3_def [symmetric]
      using False by (simp add: t(1) u_def)
    moreover have "io_inv out (push_rx_ring (ucast v) source u)"
      by (rule io_inv_pushed [OF s3]) (use t small in \<open>auto simp: u_def tap_write_keeps\<close>)
    ultimately show ?thesis by simp
  qed
qed

lemma io_inv_pump_once [intro]:
  assumes "io_inv out s"
  shows "io_inv out (snd (pump_rx_ring_once (tap bus) s))"
proof -
  obtain r t where r: "read_usart_direct (tap bus) USART1 1 s = (r, t)" by (cases "read_usart_direct (tap bus) USART1 1 s")
  define m where "m = (case r of None \<Rightarrow> (False, t) | Some (byte, source) \<Rightarrow> (True, push_rx_ring byte source t))"
  have m: "io_inv out (snd m)" using io_inv_direct [OF assms, of USART1 1 bus] r by (auto simp: m_def split: option.splits)
  show ?thesis using io_inv_direct [OF m, of LPUART1 2 bus] r
    by (auto simp: pump_rx_ring_once_def Let_def split_beta m_def split: option.splits)
qed

lemma io_inv_pump [intro]:
  assumes "io_inv out s"
  shows "io_inv out (pump_rx_ring (tap bus) s)"
proof -
  have "io_inv out s \<Longrightarrow> io_inv out (pump_rounds (tap bus) n s)" for n
    by (induction n arbitrary: s) (auto simp: split_beta)
  with assms show ?thesis by (simp add: pump_rx_ring_def)
qed

lemma io_inv_txe_wait:
  assumes "io_inv out s" "rx_source (base + USART_ISR) = None"
  shows "io_inv out (txe_wait (tap bus) base n s)"
  using assms
proof (induction n arbitrary: s)
  case 0
  then show ?case by (simp add: io_inv_read)
next
  case (Suc n)
  note read = io_inv_read [OF Suc.prems, of bus]
  from Suc.IH [OF io_inv_pump [OF read] Suc.prems(2)] read show ?case by (simp add: split_beta)
qed

lemma io_inv_write_usart [intro]:
  assumes "io_inv out s" "base = USART1 \<or> base = LPUART1"
  shows "io_inv out (snd (write_usart (tap bus) base b s))"
proof -
  have isr: "rx_source (base + USART_ISR) = None" using assms(2) by auto
  note wait = io_inv_read [OF io_inv_txe_wait [OF assms(1) isr] isr, of bus bus TXE_GUARD]
  from wait io_inv_pump [OF io_inv_write [OF wait]] show ?thesis
    by (simp add: write_usart_def Let_def split_beta)
qed

text \<open>A byte sent on one UART, with its counter.\<close>

lemma io_inv_sent:
  assumes "io_inv out s" "base = USART1 \<or> base = LPUART1" "m \<noteq> M33_RX_RING_DROPS"
    and "write_usart (tap bus) base b s = (done, t)"
  shows "io_inv out (if done then marker_add m 1 t else t)"
  using io_inv_write_usart [OF assms(1,2), of bus b] assms(4) by (auto intro: io_inv_marks(2) [OF _ assms(3)])

lemma io_inv_write_all [intro]: "io_inv out s \<Longrightarrow> io_inv out (write_all (tap bus) bs s)"
proof (induction bs arbitrary: s)
  case (Cons b bs)
  let ?s = "pump_rx_ring (tap bus) s"
  obtain ok1 t where t: "write_usart (tap bus) USART1 b ?s = (ok1, t)" by (cases "write_usart (tap bus) USART1 b ?s")
  let ?t = "if ok1 then marker_add M33_USART1_TX_BYTES 1 t else t"
  obtain ok2 u where u: "write_usart (tap bus) LPUART1 b ?t = (ok2, u)" by (cases "write_usart (tap bus) LPUART1 b ?t")
  have "io_inv out ?t" by (rule io_inv_sent [OF io_inv_pump [OF Cons.prems] _ _ t]) simp_all
  from io_inv_sent [OF this _ _ u, of M33_LPUART1_TX_BYTES] Cons.IH t u show ?case by (simp only: write_all.simps Let_def prod.case) simp
qed simp

lemma io_inv_carrier_write [intro]: "io_inv out s \<Longrightarrow> io_inv out (uno_q_m33_carrier_write (tap bus) b s)"
proof -
  assume s: "io_inv out s"
  let ?s = "mark_stage 0x200 s :: ('a \<times> (u8 \<times> u32) list) m33"
  obtain ok1 t where t: "write_usart (tap bus) USART1 b ?s = (ok1, t)" by (cases "write_usart (tap bus) USART1 b ?s")
  let ?t = "if ok1 then marker_add M33_USART1_TX_BYTES 1 t else t"
  obtain ok2 u where u: "write_usart (tap bus) LPUART1 b ?t = (ok2, u)" by (cases "write_usart (tap bus) LPUART1 b ?t")
  have "io_inv out ?t" by (rule io_inv_sent [OF io_inv_stage [OF s] _ _ t]) simp_all
  then have "io_inv out (if ok2 then marker_add M33_LPUART1_TX_BYTES 1 u else u)"
    by (rule io_inv_sent [OF _ _ _ u]) simp_all
  then show ?thesis using t u by (simp only: uno_q_m33_carrier_write_def Let_def prod.case) (rule io_inv_marks, simp_all)
qed

lemma io_inv_read_byte:
  assumes "io_inv out s"
  shows "case read_carrier_byte (tap bus) s of
      (None, t) \<Rightarrow> io_inv out t | (Some x, t) \<Rightarrow> io_inv (out @ [x]) t"
proof -
  obtain r t where r: "pop_rx_ring s = (r, t)" by (cases "pop_rx_ring s")
  with io_inv_popped [OF assms] have t: "io_inv (out @ (case r of None \<Rightarrow> [] | Some x \<Rightarrow> [x])) t" by simp
  obtain r' u where r': "pop_rx_ring (pump_rx_ring (tap bus) t) = (r', u)"
    by (cases "pop_rx_ring (pump_rx_ring (tap bus) t)")
  have "io_inv (out @ (case r' of None \<Rightarrow> [] | Some x \<Rightarrow> [x])) u" if "r = None"
    using io_inv_popped [OF io_inv_pump, of out t bus] t r' that by simp
  with r r' t show ?thesis by (auto simp: read_carrier_byte_def split: option.splits)
qed

lemma io_inv_carrier_read:
  assumes "io_inv out s" "uno_q_m33_carrier_read (tap bus) s = (r, t)"
  shows "io_inv (out @ (if r = - 1 then [] else [(ucast r, marks t M33_LAST_RX_UART)])) t"
proof -
  obtain x u where x: "read_carrier_byte (tap bus) s = (x, u)" by (cases "read_carrier_byte (tap bus) s")
  show ?thesis
  proof (cases x)
    case None
    with x io_inv_read_byte [OF assms(1), of bus] assms(2) show ?thesis by (simp add: uno_q_m33_carrier_read_def)
  next
    case (Some y)
    obtain b source where y: "y = (b, source)" by (cases y)
    have "(ucast b :: i16) \<noteq> - 1"
    proof
      assume "(ucast b :: i16) = - 1"
      then have "bit (ucast b :: i16) 8" by simp
      then show False by (simp add: bit_ucast_iff)
    qed
    moreover have "(ucast (ucast b :: i16) :: u8) = b" by (rule bit_word_eqI) (simp add: bit_ucast_iff)
    moreover have "io_inv (out @ [(b, source)]) u" using io_inv_read_byte [OF assms(1), of bus] x Some y by simp
    moreover have "r = ucast b" "t = mark_stage (0x201 OR push_bit 8 source)
        (marker_store M33_LAST_RX_UART source (marker_add M33_RX_BYTES 1 u))"
      using assms(2) x Some y by (simp_all add: uno_q_m33_carrier_read_def Let_def)
    ultimately show ?thesis by (auto intro!: io_inv_stage io_inv_marks)
  qed
qed

lemma io_run_accounts:
  assumes "io_inv out s"
  shows "io_inv (out @ fst (io_run (tap bus) ops s)) (snd (io_run (tap bus) ops s))"
  using assms
proof (induction "tap bus" ops s arbitrary: out rule: io_run.induct)
  case (2 ops s)
  obtain r t where r: "uno_q_m33_carrier_read (tap bus) s = (r, t)" by (cases "uno_q_m33_carrier_read (tap bus) s")
  from 2(1) [OF r [symmetric] refl refl io_inv_carrier_read [OF 2(2) r]] r show ?case
    by (simp add: split_beta split: if_splits)
qed auto

text \<open>A UART with a list of bytes to come.\<close>

definition byte_bus :: "bytes bus" where
  "byte_bus = \<lparr>bus_read = (\<lambda>addr h.
       if addr = USART1 + USART_ISR then (if h = [] then 0x80 else 0xa0, h)
       else if addr = USART1 + USART_RDR then (case h of [] \<Rightarrow> (0, []) | b # bs \<Rightarrow> (ucast b, bs))
       else (0x80, h)),
     bus_write = (\<lambda>_ _ h. h)\<rparr>"

section \<open>Properties\<close>

text \<open>C17: No received byte is lost unnoticed: whatever the UARTs hold and however the role mixes
  reading, writing and waiting, the bytes returned to the role, followed by the bytes still in the
  ring, are the bytes taken from the two receive registers, in that order and with the UART each
  came from, but for those that found the ring full; and the drop counter counts exactly these.\<close>

theorem uart_bytes_accounted:
  assumes "io_run (tap bus) ops (m33_start (h, [])) = (out, s)"
  shows "\<exists>n. subseq (out @ rx_items (ring s)) (snd (hw s))
    \<and> length (snd (hw s)) = length out + length (rx_items (ring s)) + n
    \<and> marks s M33_RX_RING_DROPS = of_nat n \<and> length (rx_items (ring s)) \<le> 255"
proof -
  have "io_inv ([] @ out) s"
    using io_run_accounts [OF io_inv_start, of bus ops h] assms by simp
  then show ?thesis unfolding io_inv_def rx.accounted_def using rx.bounded by auto
qed

theorem uart_bytes_accounted_witness:
  "fst (io_run (tap byte_bus) [Io_Read, Io_Read] (m33_start ([65, 66], []))) = [(65, 1), (66, 1)]
    \<and> subseq (fst (io_run (tap byte_bus) [Io_Read, Io_Read] (m33_start ([65, 66], [])))
          @ rx_items (ring (snd (io_run (tap byte_bus) [Io_Read, Io_Read] (m33_start ([65, 66], []))))))
        (snd (hw (snd (io_run (tap byte_bus) [Io_Read, Io_Read] (m33_start ([65, 66], []))))))"
proof
  have rounds: "pump_rounds bus 64 s = (let (moved, s) = pump_rx_ring_once bus s in if moved then pump_rounds bus 63 s else s)"
    "pump_rounds bus 63 s = (let (moved, s) = pump_rx_ring_once bus s in if moved then pump_rounds bus 62 s else s)"
    "pump_rounds bus 62 s = (let (moved, s) = pump_rx_ring_once bus s in if moved then pump_rounds bus 61 s else s)"
    for bus and s :: "'h m33"
    using pump_rounds.simps(2) [of bus 63 s] pump_rounds.simps(2) [of bus 62 s] pump_rounds.simps(2) [of bus 61 s]
    by (simp_all del: pump_rounds.simps)
  show "fst (io_run (tap byte_bus) [Io_Read, Io_Read] (m33_start ([65, 66], []))) = [(65, 1), (66, 1)]"
    by (simp add: rounds m33_start_def uno_q_m33_carrier_read_def read_carrier_byte_def pop_rx_ring_def pump_rx_ring_def
      pump_rx_ring_once_def read_usart_direct_def push_rx_ring_def read_reg_def write_reg_def tap_def byte_bus_def
      RX_RING_CAP_def USART1_def LPUART1_def USART_ISR_def USART_RDR_def USART_ICR_def USART_ISR_ORE_def
      USART_ISR_RXNE_def USART_ERROR_FLAGS_def USART_ISR_FE_def USART_ISR_NE_def rx_source_def)
  show "subseq (fst (io_run (tap byte_bus) [Io_Read, Io_Read] (m33_start ([65, 66], [])))
        @ rx_items (ring (snd (io_run (tap byte_bus) [Io_Read, Io_Read] (m33_start ([65, 66], []))))))
      (snd (hw (snd (io_run (tap byte_bus) [Io_Read, Io_Read] (m33_start ([65, 66], []))))))"
    using uart_bytes_accounted [OF prod.collapse [symmetric], of byte_bus "[Io_Read, Io_Read]" "[65, 66]"]
    by (elim exE conjE)
qed

end
