(* ===== verification/Led_Matrix.thy ===== *)
theory Led_Matrix
  imports M33_Board Wire_Protocol
begin

text \<open>
  The 13x8 LED matrix of the Uno Q: the pictures of the faces and the renderer of
  \<open>examples/uno-q-heterogeneous/src/bin/uno_q_m33_native_kernel.rs\<close>, with the table of pins and
  the scan of \<open>uno_q_m33_native_kernel/matrix.rs\<close>. A timer interrupt lights one LED at a time; the
  pins are registers of the bus of M33_Board. Interrupts are off while a face is set, so a face
  and a tick never interleave.
\<close>

section \<open>The matrix\<close>

definition NUM_MATRIX_LEDS :: nat where "NUM_MATRIX_LEDS = 104"
definition MATRIX_BYTES :: nat where "MATRIX_BYTES = 13"

definition CHARLIE_PAIRS :: "(u8 \<times> u8) list" where
  "CHARLIE_PAIRS = [
    (0, 1), (1, 0), (0, 2), (2, 0), (1, 2), (2, 1), (0, 3), (3, 0), (1, 3), (3, 1),
    (2, 3), (3, 2), (0, 4), (4, 0), (1, 4), (4, 1), (2, 4), (4, 2), (3, 4), (4, 3),
    (0, 5), (5, 0), (1, 5), (5, 1), (2, 5), (5, 2), (3, 5), (5, 3), (4, 5), (5, 4),
    (0, 6), (6, 0), (1, 6), (6, 1), (2, 6), (6, 2), (3, 6), (6, 3), (4, 6), (6, 4),
    (5, 6), (6, 5), (0, 7), (7, 0), (1, 7), (7, 1), (2, 7), (7, 2), (3, 7), (7, 3),
    (4, 7), (7, 4), (5, 7), (7, 5), (6, 7), (7, 6), (0, 8), (8, 0), (1, 8), (8, 1),
    (2, 8), (8, 2), (3, 8), (8, 3), (4, 8), (8, 4), (5, 8), (8, 5), (6, 8), (8, 6),
    (7, 8), (8, 7), (0, 9), (9, 0), (1, 9), (9, 1), (2, 9), (9, 2), (3, 9), (9, 3),
    (4, 9), (9, 4), (5, 9), (9, 5), (6, 9), (9, 6), (7, 9), (9, 7), (8, 9), (9, 8),
    (0, 10), (10, 0), (1, 10), (10, 1), (2, 10), (10, 2), (3, 10), (10, 3), (4, 10), (10, 4),
    (5, 10), (10, 5), (6, 10), (10, 6)]"

definition matrix_bit :: "bytes \<Rightarrow> nat \<Rightarrow> bool" where
  "matrix_bit bs index \<longleftrightarrow> index < NUM_MATRIX_LEDS \<and> (drop_bit (index mod 8) (bs ! (index div 8))) AND 1 \<noteq> 0"

function next_lit_from :: "bytes \<Rightarrow> nat \<Rightarrow> nat \<Rightarrow> nat option" where
  "next_lit_from bs start offset =
     (if offset < NUM_MATRIX_LEDS
      then let index = (start + offset) mod NUM_MATRIX_LEDS in
           if matrix_bit bs index then Some index else next_lit_from bs start (offset + 1)
      else None)"
  by pat_completeness auto
termination by (relation "measure (\<lambda>(bs, start, offset). NUM_MATRIX_LEDS - offset)") auto

declare next_lit_from.simps [simp del]

definition next_lit_index :: "bytes \<Rightarrow> nat \<Rightarrow> nat option" where
  "next_lit_index bs start = next_lit_from bs start 0"

section \<open>The faces\<close>

definition PIC_NEUTRAL :: "bytes list" where
  "PIC_NEUTRAL = map ascii [
    ''.............'',
    ''..##.....##..'',
    ''..##.....##..'',
    ''..##.....##..'',
    ''.............'',
    ''...#######...'',
    ''.............'',
    ''.............'']"

definition PIC_HAPPY :: "bytes list" where
  "PIC_HAPPY = map ascii [
    ''.............'',
    ''..##.....##..'',
    ''..##.....##..'',
    ''..##.....##..'',
    ''.............'',
    ''..#.......#..'',
    ''...#######...'',
    ''.............'']"

definition PIC_SAD :: "bytes list" where
  "PIC_SAD = map ascii [
    ''...##...##...'',
    ''..###...###..'',
    ''.###.....###.'',
    ''.............'',
    ''....#####....'',
    ''....#...#....'',
    ''...#.....#...'',
    ''.............'']"

definition PIC_ANGRY :: "bytes list" where
  "PIC_ANGRY = map ascii [
    ''.###.....###.'',
    ''..###...###..'',
    ''...##...##...'',
    ''.............'',
    ''..#########..'',
    ''.............'',
    ''.............'',
    ''.............'']"

definition PIC_SURPRISED :: "bytes list" where
  "PIC_SURPRISED = map ascii [
    ''..###...###..'',
    ''.#...#.#...#.'',
    ''.#...#.#...#.'',
    ''..###...###..'',
    ''.............'',
    ''.....###.....'',
    ''....#...#....'',
    ''.....###.....'']"

definition PIC_THINKING :: "bytes list" where
  "PIC_THINKING = map ascii [
    ''.............'',
    ''..##.....##..'',
    ''...#.....#...'',
    ''.............'',
    ''.....###.....'',
    ''.......#.....'',
    ''......#......'',
    ''.............'']"

definition PIC_SPEAK_0 :: "bytes list" where "PIC_SPEAK_0 = PIC_NEUTRAL"

definition PIC_SPEAK_1 :: "bytes list" where
  "PIC_SPEAK_1 = map ascii [
    ''.............'',
    ''..##.....##..'',
    ''..##.....##..'',
    ''..##.....##..'',
    ''.............'',
    ''....#####....'',
    ''....#####....'',
    ''.............'']"

definition PIC_SPEAK_2 :: "bytes list" where
  "PIC_SPEAK_2 = map ascii [
    ''.............'',
    ''..##.....##..'',
    ''..##.....##..'',
    ''..##.....##..'',
    ''...#######...'',
    ''...#.....#...'',
    ''...#######...'',
    ''.............'']"

definition PIC_SPEAK_3 :: "bytes list" where
  "PIC_SPEAK_3 = map ascii [
    ''.............'',
    ''..##.....##..'',
    ''..##.....##..'',
    ''..##.....##..'',
    ''....#####....'',
    ''...#.....#...'',
    ''....#####....'',
    ''.............'']"

definition face_rows :: "u8 \<Rightarrow> bytes list" where
  "face_rows face =
     (if face = FACE_HAPPY then PIC_HAPPY
      else if face = FACE_SAD then PIC_SAD
      else if face = FACE_ANGRY then PIC_ANGRY
      else if face = FACE_SURPRISED then PIC_SURPRISED
      else if face = FACE_THINKING then PIC_THINKING
      else if face = FACE_MOUTH_CLOSED then PIC_SPEAK_0
      else if face = FACE_MOUTH_SMALL then PIC_SPEAK_1
      else if face = FACE_MOUTH_WIDE then PIC_SPEAK_2
      else if face = FACE_MOUTH_ROUND then PIC_SPEAK_3
      else PIC_NEUTRAL)"

section \<open>The renderer\<close>

definition publish_matrix_markers :: "u32 \<Rightarrow> 'h m33 \<Rightarrow> 'h m33" where
  "publish_matrix_markers bits s =
     (let p = lr_packed (renderer s);
          word0 = of_le_bytes32 (p ! 0) (p ! 1) (p ! 2) (p ! 3) in
      marker_store M33_MATRIX_BITS bits (marker_store M33_MATRIX_WORD0 word0 s))"

definition write_cell :: "bytes list \<Rightarrow> nat \<Rightarrow> nat \<Rightarrow> bytes \<times> u32 \<Rightarrow> bytes \<times> u32" where
  "write_cell rows row col = (\<lambda>(packed, bits).
     if rows ! row ! col = 35
     then let b = row * 13 + col in (packed[b div 8 := packed ! (b div 8) OR push_bit (b mod 8) 1], bits + 1)
     else (packed, bits))"

definition write_face :: "bytes list \<Rightarrow> 'h m33 \<Rightarrow> 'h m33" where
  "write_face rows s =
     (let (packed, bits) =
        fold (\<lambda>row. fold (\<lambda>col. write_cell rows row col) [0..<13]) [0..<8] (replicate MATRIX_BYTES 0, 0) in
      publish_matrix_markers bits (s\<lparr>renderer := (renderer s)\<lparr>lr_packed := packed\<rparr>\<rparr>))"

definition show_face :: "u8 \<Rightarrow> 'h m33 \<Rightarrow> 'h m33" where
  "show_face face = write_face (face_rows face)"

definition uno_q_m33_board_show_face :: "u8 \<Rightarrow> 'h m33 \<Rightarrow> 'h m33" where
  "uno_q_m33_board_show_face face s =
     show_face face (mark_stage (0x500 OR ucast face)
       (marker_add M33_FACE_UPDATES 1 (marker_store M33_LAST_FACE (ucast face) s)))"

section \<open>The pins\<close>

definition GPIOF :: nat where "GPIOF = 0x42021400"
definition GPIO_MODER :: nat where "GPIO_MODER = 0x00"
definition GPIO_OTYPER :: nat where "GPIO_OTYPER = 0x04"
definition GPIO_OSPEEDR :: nat where "GPIO_OSPEEDR = 0x08"
definition GPIO_PUPDR :: nat where "GPIO_PUPDR = 0x0c"
definition GPIO_BSRR :: nat where "GPIO_BSRR = 0x18"
definition RCC :: nat where "RCC = 0x46020c00"
definition RCC_AHB2ENR1 :: nat where "RCC_AHB2ENR1 = RCC + 0x8c"

definition gpiof_all_input :: "'h bus \<Rightarrow> 'h m33 \<Rightarrow> 'h m33" where
  "gpiof_all_input bus = modify_reg bus (GPIOF + GPIO_MODER) (\<lambda>v. v AND 0xff000000)"

definition turn_led :: "'h bus \<Rightarrow> nat \<Rightarrow> 'h m33 \<Rightarrow> 'h m33" where
  "turn_led bus index s =
     (let s = gpiof_all_input bus s;
          (high, low) = CHARLIE_PAIRS ! index;
          s = marker_add M33_LIT_TICKS 1 s;
          s = marker_store M33_LAST_LIT_LED
                (push_bit 16 (of_nat index) OR push_bit 8 (ucast high) OR push_bit 1 (ucast low) OR 1) s;
          s = write_reg bus (GPIOF + GPIO_BSRR) (push_bit (unat high) 1 OR push_bit (unat (low + 16)) 1) s in
      modify_reg bus (GPIOF + GPIO_MODER)
        (\<lambda>v. v OR push_bit (unat (high * 2)) 1 OR push_bit (unat (low * 2)) 1) s)"

definition refresh_matrix :: "'h bus \<Rightarrow> 'h m33 \<Rightarrow> 'h m33" where
  "refresh_matrix bus s =
     (let s = marker_add M33_SCAN_TICKS 1 s;
          start = unat (lr_scan_index (renderer s));
          start = (if start < NUM_MATRIX_LEDS then start else 0) in
      case next_lit_index (lr_packed (renderer s)) start of
        None \<Rightarrow> (let s = gpiof_all_input bus s; s = s\<lparr>renderer := (renderer s)\<lparr>lr_scan_index := 0\<rparr>\<rparr> in
                 marker_store M33_SCAN_INDEX 0 s)
      | Some index \<Rightarrow>
          (let s = turn_led bus index s;
               next = (index + 1) mod NUM_MATRIX_LEDS;
               s = s\<lparr>renderer := (renderer s)\<lparr>lr_scan_index := of_nat next\<rparr>\<rparr> in
           marker_store M33_SCAN_INDEX (of_nat next) s))"

definition systick_handler :: "'h bus \<Rightarrow> 'h m33 \<Rightarrow> 'h m33" where
  "systick_handler bus s = refresh_matrix bus (marker_add M33_TIMER_TICKS 1 s)"

definition init_matrix :: "'h bus \<Rightarrow> 'h m33 \<Rightarrow> 'h m33" where
  "init_matrix bus s =
     (let s = modify_reg bus RCC_AHB2ENR1 (\<lambda>v. v OR push_bit 5 1) s;
          s = modify_reg bus (GPIOF + GPIO_OTYPER) (\<lambda>v. v AND NOT 0x07ff) s;
          s = modify_reg bus (GPIOF + GPIO_OSPEEDR) (\<lambda>v. v OR 0x003fffff) s;
          s = modify_reg bus (GPIOF + GPIO_PUPDR) (\<lambda>v. v AND NOT 0x003fffff) s in
      gpiof_all_input bus s)"

section \<open>Scanning\<close>

definition lit_leds :: "bytes \<Rightarrow> nat list" where
  "lit_leds bs = filter (matrix_bit bs) [0..<NUM_MATRIX_LEDS]"

lemma next_lit_from_find:
  assumes "offset \<le> NUM_MATRIX_LEDS"
  shows "next_lit_from bs start offset
    = List.find (matrix_bit bs) (map (\<lambda>k. (start + k) mod NUM_MATRIX_LEDS) [offset..<NUM_MATRIX_LEDS])"
  using assms
proof (induction "NUM_MATRIX_LEDS - offset" arbitrary: offset)
  case 0
  then show ?case by (simp add: next_lit_from.simps)
next
  case (Suc n)
  then have "offset < NUM_MATRIX_LEDS" by simp
  with Suc show ?case by (subst next_lit_from.simps) (simp add: upt_conv_Cons Let_def)
qed

lemma scan_order:
  assumes "start \<le> NUM_MATRIX_LEDS"
  shows "map (\<lambda>k. (start + k) mod NUM_MATRIX_LEDS) [0..<NUM_MATRIX_LEDS] = [start..<NUM_MATRIX_LEDS] @ [0..<start]"
  using assms by (auto simp: list_eq_iff_nth_eq nth_append le_mod_geq)

lemma find_filter: "List.find P xs = (case filter P xs of [] \<Rightarrow> None | x # _ \<Rightarrow> Some x)"
  by (induction xs) auto

text \<open>The scan finds the next lit LED, and the first one when there is none behind it.\<close>

lemma next_lit_index_nth:
  assumes "start \<le> NUM_MATRIX_LEDS"
  shows "next_lit_index bs start = (if lit_leds bs = [] then None
     else Some (lit_leds bs ! (length (filter (matrix_bit bs) [0..<start]) mod length (lit_leds bs))))"
proof -
  let ?P = "matrix_bit bs"
  let ?b = "filter ?P [0..<start]" and ?a = "filter ?P [start..<NUM_MATRIX_LEDS]"
  have split: "lit_leds bs = ?b @ ?a"
    using assms upt_add_eq_append [of 0 start "NUM_MATRIX_LEDS - start"] by (simp add: lit_leds_def)
  have "next_lit_index bs start = (case ?a @ ?b of [] \<Rightarrow> None | x # _ \<Rightarrow> Some x)"
    by (simp add: next_lit_index_def next_lit_from_find scan_order [OF assms] find_filter)
  then show ?thesis by (cases ?a; cases ?b) (auto simp: split nth_append)
qed

text \<open>How many lit LEDs the scan has behind it, and how that moves on.\<close>

definition lit_before :: "bytes \<Rightarrow> nat \<Rightarrow> nat" where
  "lit_before bs start = length (filter (matrix_bit bs) [0..<start])"

lemma lit_leds_sorted: "sorted (lit_leds bs)" "distinct (lit_leds bs)"
  by (simp_all add: lit_leds_def sorted_wrt_filter)

lemma lit_before_nth:
  assumes "i < length (lit_leds bs)"
  shows "lit_before bs (lit_leds bs ! i) = i" "lit_leds bs ! i < NUM_MATRIX_LEDS" "matrix_bit bs (lit_leds bs ! i)"
proof -
  let ?x = "lit_leds bs ! i"
  have "?x \<in> List.set (lit_leds bs)" using assms by simp
  then show x: "?x < NUM_MATRIX_LEDS" "matrix_bit bs ?x" by (auto simp: lit_leds_def)
  have "filter (matrix_bit bs) [0..<?x] = filter (\<lambda>k. k < ?x) (lit_leds bs)"
  proof -
    have "[0..<?x] = filter (\<lambda>k. k < ?x) [0..<NUM_MATRIX_LEDS]"
      using x(1) upt_add_eq_append [of 0 ?x "NUM_MATRIX_LEDS - ?x"] by simp
    then show ?thesis by (simp add: lit_leds_def conj_commute)
  qed
  also have "\<dots> = take i (lit_leds bs)"
  proof -
    have lt: "lit_leds bs ! k < ?x \<longleftrightarrow> k < i" if "k < length (lit_leds bs)" for k
      using that assms lit_leds_sorted [of bs]
      by (metis linorder_neqE_nat nat_less_le not_less nth_eq_iff_index_eq sorted_nth_mono)
    have "filter (\<lambda>k. k < ?x) (take i (lit_leds bs)) = take i (lit_leds bs)"
      using lt assms by (auto simp: filter_id_conv in_set_conv_nth)
    moreover have "filter (\<lambda>k. k < ?x) (drop i (lit_leds bs)) = []"
      using lt assms by (auto simp: filter_empty_conv in_set_conv_nth)
    ultimately show ?thesis by (metis append_Nil2 append_take_drop_id filter_append)
  qed
  finally show "lit_before bs ?x = i" using assms by (simp add: lit_before_def)
qed

lemma lit_before_after:
  assumes "i < length (lit_leds bs)"
  shows "lit_before bs ((lit_leds bs ! i + 1) mod NUM_MATRIX_LEDS) mod length (lit_leds bs)
    = (i + 1) mod length (lit_leds bs)"
proof -
  note x = lit_before_nth [OF assms]
  have up: "lit_before bs (Suc (lit_leds bs ! i)) = Suc i"
    using x by (simp add: lit_before_def)
  show ?thesis
  proof (cases "Suc (lit_leds bs ! i) = NUM_MATRIX_LEDS")
    case True
    then have "lit_before bs NUM_MATRIX_LEDS = Suc i" using up by simp
    then have "length (lit_leds bs) = Suc i" by (simp add: lit_before_def lit_leds_def)
    with True show ?thesis by (simp add: lit_before_def)
  next
    case False
    with x(2) up show ?thesis by simp
  qed
qed

section \<open>Driving one LED\<close>

text \<open>What the pins do is read off the writes to the registers of port F (\<open>wtap\<close> of M33_Board): a pin is an output when its
  two mode bits are 01, and a write of \<open>BSRR\<close> raises the pins of its low half and lowers those of
  its high half. An LED is lit when its first pin is driven high and its second one low.\<close>

definition last_write :: "nat \<Rightarrow> (nat \<times> u32) list \<Rightarrow> u32 option" where
  "last_write addr log = map_of (rev log) addr"

definition led_lit :: "u32 \<Rightarrow> u32 \<Rightarrow> nat \<Rightarrow> bool" where
  "led_lit moder bsrr i =
     (let (high, low) = CHARLIE_PAIRS ! i; output = (\<lambda>p. drop_bit (2 * unat p) moder AND 3 = 1) in
      output high \<and> output low \<and> bit bsrr (unat high) \<and> bit bsrr (unat low + 16))"

definition leds_on :: "(nat \<times> u32) list \<Rightarrow> nat list" where
  "leds_on log = (case (last_write (GPIOF + GPIO_MODER) log, last_write (GPIOF + GPIO_BSRR) log) of
       (Some moder, Some bsrr) \<Rightarrow> filter (led_lit moder bsrr) [0..<NUM_MATRIX_LEDS] | _ \<Rightarrow> [])"

lemma charlie_pairs:
  "length CHARLIE_PAIRS = NUM_MATRIX_LEDS" "distinct CHARLIE_PAIRS"
  "(high, low) \<in> List.set CHARLIE_PAIRS \<Longrightarrow> high \<noteq> low \<and> high \<le> 10 \<and> low \<le> 10"
proof -
  have "list_all (\<lambda>(high, low). high \<noteq> low \<and> high \<le> 10 \<and> low \<le> 10) CHARLIE_PAIRS" by code_simp
  then show "(high, low) \<in> List.set CHARLIE_PAIRS \<Longrightarrow> high \<noteq> low \<and> high \<le> 10 \<and> low \<le> 10"
    by (auto simp: list_all_iff)
qed (code_simp+)

lemma mode_bits: "(x :: u32) AND 3 = 1 \<longleftrightarrow> bit x 0 \<and> \<not> bit x 1"
proof
  assume eq: "x AND 3 = 1"
  show "bit x 0 \<and> \<not> bit x 1"
    using arg_cong [OF eq, of "\<lambda>w. bit w 0"] arg_cong [OF eq, of "\<lambda>w. bit w 1"] by (simp add: bit_and_iff bit_1_iff)
next
  assume b: "bit x 0 \<and> \<not> bit x 1"
  have "bit (3 :: u32) n \<longleftrightarrow> n < 2" for n
    using bit_mask_iff [where 'a = u32, of 2 n] by (auto simp: mask_eq_exp_minus_1)
  then show "x AND 3 = 1" using b
    by (intro bit_word_eqI) (auto simp: bit_and_iff bit_1_iff less_2_cases_iff)
qed

lemma bit_all_input: "bit (0xff000000 :: int) n \<longleftrightarrow> 24 \<le> n \<and> n < 32"
proof -
  have "(push_bit 24 (mask 8) :: int) = 0xff000000" by (simp add: mask_eq_exp_minus_1 push_bit_eq_mult)
  moreover have "bit (push_bit 24 (mask 8) :: int) n \<longleftrightarrow> 24 \<le> n \<and> n < 32"
    by (auto simp: bit_push_bit_iff bit_mask_iff)
  ultimately show ?thesis by (simp only:)
qed

definition pair_mode :: "u32 \<Rightarrow> nat \<Rightarrow> u32" where
  "pair_mode m i = (let (high, low) = CHARLIE_PAIRS ! i in
     (m AND 0xff000000) OR push_bit (unat (high * 2)) 1 OR push_bit (unat (low * 2)) 1)"

definition pair_level :: "nat \<Rightarrow> u32" where
  "pair_level i = (let (high, low) = CHARLIE_PAIRS ! i in push_bit (unat high) 1 OR push_bit (unat (low + 16)) 1)"

text \<open>No two LEDs share both pins the same way round, so driving one pair lights one LED.\<close>

lemma only_one_lit:
  assumes "i < NUM_MATRIX_LEDS" "k < NUM_MATRIX_LEDS"
  shows "led_lit (pair_mode m i) (pair_level i) k \<longleftrightarrow> k = i"
proof -
  obtain h l where i: "CHARLIE_PAIRS ! i = (h, l)" by (cases "CHARLIE_PAIRS ! i")
  obtain h' l' where k: "CHARLIE_PAIRS ! k = (h', l')" by (cases "CHARLIE_PAIRS ! k")
  have mem: "(h, l) \<in> List.set CHARLIE_PAIRS" "(h', l') \<in> List.set CHARLIE_PAIRS"
    using assms i k charlie_pairs(1) by (metis nth_mem)+
  have b: "h \<noteq> l" "unat h \<le> 10" "unat l \<le> 10" "h' \<noteq> l'" "unat h' \<le> 10" "unat l' \<le> 10"
    using charlie_pairs(3) [OF mem(1)] charlie_pairs(3) [OF mem(2)] by (simp_all add: word_le_nat_alt)
  have two: "unat (h * 2) = 2 * unat h" "unat (l * 2) = 2 * unat l" "unat (l + 16) = unat l + 16"
    using b by (simp_all add: unat_word_ariths)
  have out: "drop_bit (2 * unat p) (pair_mode m i) AND 3 = 1 \<longleftrightarrow> p = h \<or> p = l" if "unat p \<le> 10" for p :: u8
  proof -
    have odd: "Suc (2 * unat p) \<noteq> 2 * unat h" "Suc (2 * unat p) \<noteq> 2 * unat l" by presburger+
    have "bit (pair_mode m i) (2 * unat p) \<longleftrightarrow> unat p = unat h \<or> unat p = unat l"
      using that b by (auto simp: pair_mode_def i two bit_or_iff bit_and_iff bit_all_input bit_exp_iff)
    moreover have "\<not> bit (pair_mode m i) (Suc (2 * unat p))"
      using that b odd bit_all_input [of "Suc (2 * unat p)"]
      by (auto simp: pair_mode_def i two bit_or_iff bit_and_iff bit_exp_iff)
    ultimately show ?thesis unfolding mode_bits by (simp add: bit_drop_bit_eq word_unat_eq_iff)
  qed
  have high: "bit (pair_level i) (unat p) \<longleftrightarrow> p = h" if "unat p \<le> 10" for p :: u8
    using that b by (auto simp: pair_level_def i two bit_or_iff bit_exp_iff word_unat_eq_iff)
  have low: "bit (pair_level i) (unat p + 16) \<longleftrightarrow> p = l" if "unat p \<le> 10" for p :: u8
    using that b by (auto simp: pair_level_def i two bit_or_iff bit_exp_iff word_unat_eq_iff)
  have "led_lit (pair_mode m i) (pair_level i) k \<longleftrightarrow> (h', l') = (h, l)"
    using b by (auto simp: led_lit_def Let_def k out high low)
  also have "\<dots> \<longleftrightarrow> k = i"
    using assms i k charlie_pairs(1,2) by (metis nth_eq_iff_index_eq)
  finally show ?thesis .
qed

lemma wtap_simps:
  "hw (write_reg (wtap bus) a v s) = (bus_write bus a v (fst (hw s)), snd (hw s) @ [(a, v)])"
  "snd (hw (snd (read_reg (wtap bus) a s))) = snd (hw s)"
  "snd (hw (modify_reg (wtap bus) a f s)) = snd (hw s) @ [(a, f (fst (read_reg (wtap bus) a s)))]"
  by (simp_all add: write_reg_def read_reg_def modify_reg_def wtap_def split_beta)

lemma plain_wtap: "plain_register bus a cell \<Longrightarrow> plain_register (wtap bus) a (cell \<circ> fst)"
  by (simp add: plain_register_def wtap_def split_beta)

lemma gpiof_addresses [simp]:
  "GPIO_BSRR \<noteq> GPIO_MODER" "GPIO_MODER \<noteq> GPIO_BSRR"
  by (simp_all add: GPIO_BSRR_def GPIO_MODER_def)

lemma leds_on_pair:
  assumes "i < NUM_MATRIX_LEDS"
  shows "leds_on (log @ [(GPIOF + GPIO_MODER, m'), (GPIOF + GPIO_BSRR, pair_level i), (GPIOF + GPIO_MODER, pair_mode m i)]) = [i]"
proof -
  have "filter (led_lit (pair_mode m i) (pair_level i)) [0..<NUM_MATRIX_LEDS] = filter (\<lambda>k. k = i) [0..<NUM_MATRIX_LEDS]"
    using only_one_lit [OF assms] by (intro filter_cong) auto
  also have "filter (\<lambda>k. k = i) [0..<n] = (if i < n then [i] else [])" for n by (induction n) auto
  finally show ?thesis using assms by (simp add: leds_on_def last_write_def)
qed

lemma turn_led_writes:
  assumes "plain_register bus (GPIOF + GPIO_MODER) moder"
  shows "\<exists>m. snd (hw (turn_led (wtap bus) i s)) = snd (hw s) @ [(GPIOF + GPIO_MODER, m AND 0xff000000),
      (GPIOF + GPIO_BSRR, pair_level i), (GPIOF + GPIO_MODER, pair_mode m i)]"
proof (intro exI [of _ "moder (fst (hw s))"])
  note cell = plain_register_simps [OF plain_wtap [OF assms]]
  have raw: "moder (bus_write bus a v h) = (if a = GPIOF + GPIO_MODER then v else moder h)"
    "moder (fst (hw (modify_reg (wtap bus) a f s))) = (if a = GPIOF + GPIO_MODER then f (moder (fst (hw s))) else moder (fst (hw s)))"
    for a v h f using assms cell(4) [of a f s] by (simp_all add: plain_register_def)
  show "snd (hw (turn_led (wtap bus) i s)) = snd (hw s) @ [(GPIOF + GPIO_MODER, moder (fst (hw s)) AND 0xff000000),
      (GPIOF + GPIO_BSRR, pair_level i), (GPIOF + GPIO_MODER, pair_mode (moder (fst (hw s))) i)]"
    by (cases "CHARLIE_PAIRS ! i")
      (simp add: turn_led_def gpiof_all_input_def Let_def wtap_simps cell raw pair_level_def pair_mode_def)
qed

lemma turn_led_fields [simp]:
  "renderer (turn_led bus i s) = renderer s" "ring (turn_led bus i s) = ring s"
  "marks (turn_led bus i s) m = (if m = M33_LIT_TICKS then marks s m + 1
     else if m = M33_LAST_LIT_LED then (let (high, low) = CHARLIE_PAIRS ! i in
       push_bit 16 (of_nat i) OR push_bit 8 (ucast high) OR push_bit 1 (ucast low) OR 1)
     else marks s m)"
  by (cases "CHARLIE_PAIRS ! i"; simp add: turn_led_def gpiof_all_input_def Let_def)+

section \<open>Ticks\<close>

definition scan_start :: "'h m33 \<Rightarrow> nat" where
  "scan_start s = (let start = unat (lr_scan_index (renderer s)) in if start < NUM_MATRIX_LEDS then start else 0)"

lemma scan_start_less: "scan_start s < NUM_MATRIX_LEDS"
  by (simp add: scan_start_def Let_def NUM_MATRIX_LEDS_def)

lemma refresh_matrix_lit:
  assumes "next_lit_index (lr_packed (renderer s)) (scan_start s) = Some i"
  shows "refresh_matrix bus s = (let next = (i + 1) mod NUM_MATRIX_LEDS in
    marker_store M33_SCAN_INDEX (of_nat next)
      (turn_led bus i (marker_add M33_SCAN_TICKS 1 s)\<lparr>renderer := (renderer s)\<lparr>lr_scan_index := of_nat next\<rparr>\<rparr>))"
proof -
  define start where "start = (let start = unat (lr_scan_index (renderer s)) in if start < NUM_MATRIX_LEDS then start else 0)"
  have "next_lit_index (lr_packed (renderer s)) start = Some i"
    using assms by (simp add: scan_start_def start_def)
  then show ?thesis
    unfolding refresh_matrix_def Let_def marker_add_fields start_def [unfolded Let_def, symmetric] by simp
qed

lemma systick_lit:
  assumes bus: "plain_register bus (GPIOF + GPIO_MODER) moder"
    and lit: "lit_leds (lr_packed (renderer s)) = leds" "leds \<noteq> []"
    and j: "lit_before (lr_packed (renderer s)) (scan_start s) mod length leds = j"
  defines "t \<equiv> systick_handler (wtap bus) s"
  shows "leds_on (snd (hw t)) = [leds ! j]" "lr_packed (renderer t) = lr_packed (renderer s)"
    "lit_before (lr_packed (renderer t)) (scan_start t) mod length leds = Suc j mod length leds"
    "marks t M33_TIMER_TICKS = marks s M33_TIMER_TICKS + 1" "marks t M33_LIT_TICKS = marks s M33_LIT_TICKS + 1"
proof -
  let ?p = "lr_packed (renderer s)" and ?i = "leds ! j"
  let ?s = "marker_add M33_SCAN_TICKS 1 (marker_add M33_TIMER_TICKS 1 s)"
  have jl: "j < length leds" using lit j by auto
  have i: "?i < NUM_MATRIX_LEDS" using lit_before_nth(2) [of j ?p] jl lit by simp
  have "next_lit_index ?p (scan_start s) = Some ?i"
    using next_lit_index_nth [of "scan_start s" ?p] scan_start_less [of s] lit j by (simp add: lit_before_def)
  then have t: "t = marker_store M33_SCAN_INDEX (of_nat ((?i + 1) mod NUM_MATRIX_LEDS))
      (turn_led (wtap bus) ?i ?s \<lparr>renderer := (renderer s)\<lparr>lr_scan_index := of_nat ((?i + 1) mod NUM_MATRIX_LEDS)\<rparr>\<rparr>)"
    using refresh_matrix_lit [of "marker_add M33_TIMER_TICKS 1 s" ?i "wtap bus"]
    by (simp add: t_def systick_handler_def Let_def scan_start_def)
  obtain m where "snd (hw (turn_led (wtap bus) ?i ?s)) = snd (hw ?s) @ [(GPIOF + GPIO_MODER, m AND 0xff000000),
      (GPIOF + GPIO_BSRR, pair_level ?i), (GPIOF + GPIO_MODER, pair_mode m ?i)]"
    using turn_led_writes [OF bus] by blast
  then show "leds_on (snd (hw t)) = [?i]" using leds_on_pair [OF i] by (simp add: t)
  show "lr_packed (renderer t) = ?p" by (simp add: t)
  have "scan_start t = (?i + 1) mod NUM_MATRIX_LEDS"
  proof -
    have "(?i + 1) mod NUM_MATRIX_LEDS < 104" by (simp add: NUM_MATRIX_LEDS_def)
    then show ?thesis by (simp add: scan_start_def t Let_def) (simp add: NUM_MATRIX_LEDS_def)
  qed
  with lit_before_after [of j ?p] jl lit
  show "lit_before (lr_packed (renderer t)) (scan_start t) mod length leds = Suc j mod length leds"
    by (simp add: t)
  show "marks t M33_TIMER_TICKS = marks s M33_TIMER_TICKS + 1" "marks t M33_LIT_TICKS = marks s M33_LIT_TICKS + 1"
    by (simp_all add: t)
qed

definition ticks :: "'h bus \<Rightarrow> nat \<Rightarrow> 'h m33 \<Rightarrow> 'h m33" where
  "ticks bus n = systick_handler bus ^^ n"

lemma ticks_Suc [simp]: "ticks bus 0 s = s" "ticks bus (Suc n) s = systick_handler bus (ticks bus n s)"
  by (simp_all add: ticks_def)

lemma ticks_scan:
  assumes bus: "plain_register bus (GPIOF + GPIO_MODER) moder"
    and lit: "lit_leds (lr_packed (renderer s)) = leds" "leds \<noteq> []"
  defines "j \<equiv> lit_before (lr_packed (renderer s)) (scan_start s)"
  shows "lr_packed (renderer (ticks (wtap bus) n s)) = lr_packed (renderer s)
    \<and> lit_before (lr_packed (renderer s)) (scan_start (ticks (wtap bus) n s)) mod length leds = (j + n) mod length leds
    \<and> marks (ticks (wtap bus) n s) M33_LIT_TICKS = marks s M33_LIT_TICKS + of_nat n"
proof (induction n)
  case (Suc n)
  let ?t = "ticks (wtap bus) n s"
  have "lit_leds (lr_packed (renderer ?t)) = leds" using Suc lit by simp
  note step = systick_lit [OF bus this lit(2) refl]
  have "Suc ((j + n) mod length leds) mod length leds = (j + Suc n) mod length leds" by (simp add: mod_Suc_eq)
  with step(2,3,5) Suc show ?case by simp
qed (simp add: j_def)

section \<open>Pictures\<close>

definition lit_cells :: "bytes list \<Rightarrow> nat list" where
  "lit_cells rows = filter (\<lambda>i. rows ! (i div 13) ! (i mod 13) = 35) [0..<NUM_MATRIX_LEDS]"

definition set_bit_at :: "nat \<Rightarrow> bytes \<Rightarrow> bytes" where
  "set_bit_at b p = p[b div 8 := p ! (b div 8) OR push_bit (b mod 8) 1]"

lemma matrix_bit_iff:
  "matrix_bit bs i \<longleftrightarrow> i < NUM_MATRIX_LEDS \<and> bit (bs ! (i div 8)) (i mod 8)"
  by (simp add: matrix_bit_def bit_iff_and_drop_bit_eq_1 and_one_eq mod_2_eq_odd)

lemma matrix_bit_set:
  assumes "length p = MATRIX_BYTES" "b < NUM_MATRIX_LEDS"
  shows "matrix_bit (set_bit_at b p) i \<longleftrightarrow> i = b \<or> matrix_bit p i"
proof (cases "i < NUM_MATRIX_LEDS")
  case True
  have len: "b div 8 < length p" using assms by (simp add: MATRIX_BYTES_def NUM_MATRIX_LEDS_def)
  show ?thesis
  proof (cases "i div 8 = b div 8")
    case True
    have "i mod 8 = b mod 8 \<longleftrightarrow> i = b" using True by (metis div_mult_mod_eq)
    then show ?thesis using True len assms(2) \<open>i < NUM_MATRIX_LEDS\<close>
      by (auto simp: matrix_bit_iff set_bit_at_def bit_or_iff bit_exp_iff)
  next
    case False
    then show ?thesis by (auto simp: matrix_bit_iff set_bit_at_def nth_list_update)
  qed
qed (use assms in \<open>auto simp: matrix_bit_iff\<close>)

lemma length_set_bit_at [simp]: "length (set_bit_at b p) = length p"
  by (simp add: set_bit_at_def)

lemma fold_set_bits:
  assumes "length p = MATRIX_BYTES" "\<forall>b \<in> List.set bs. b < NUM_MATRIX_LEDS"
  shows "matrix_bit (fold set_bit_at bs p) i \<longleftrightarrow> i \<in> List.set bs \<or> matrix_bit p i"
  using assms by (induction bs arbitrary: p) (auto simp: matrix_bit_set)

lemma fold_write_cells:
  "fold (\<lambda>i. write_cell rows (i div 13) (i mod 13)) ks (p, bits)
    = (fold set_bit_at (filter (\<lambda>i. rows ! (i div 13) ! (i mod 13) = 35) ks) p,
       bits + of_nat (length (filter (\<lambda>i. rows ! (i div 13) ! (i mod 13) = 35) ks)))"
  by (induction ks arbitrary: p bits) (auto simp: write_cell_def set_bit_at_def Let_def algebra_simps)

lemma write_face_loops:
  "fold (\<lambda>row. fold (\<lambda>col. write_cell rows row col) [0..<13]) [0..<8] st
    = fold (\<lambda>i. write_cell rows (i div 13) (i mod 13)) [0..<NUM_MATRIX_LEDS] st"
proof -
  have row: "fold (\<lambda>col. write_cell rows row col) [0..<13] st
      = fold (\<lambda>i. write_cell rows (i div 13) (i mod 13)) [row * 13..<row * 13 + 13] st" for row st
  proof -
    have "[row * 13..<row * 13 + 13] = map (\<lambda>col. col + row * 13) [0..<13]"
      by (simp add: map_add_upt add.commute)
    then show ?thesis by (auto simp: fold_map intro!: fold_cong)
  qed
  have "fold (\<lambda>row. fold (\<lambda>col. write_cell rows row col) [0..<13]) [0..<n] st
      = fold (\<lambda>i. write_cell rows (i div 13) (i mod 13)) [0..<n * 13] st" for n
  proof (induction n)
    case (Suc n)
    have "[0..<Suc n * 13] = [0..<n * 13] @ [n * 13..<n * 13 + 13]"
      using upt_add_eq_append [of 0 "n * 13" 13] by (simp add: add.commute)
    with Suc row show ?case by simp
  qed simp
  from this [of 8] show ?thesis by (simp add: NUM_MATRIX_LEDS_def)
qed

lemma face_lit:
  "lit_leds (lr_packed (renderer (show_face face s))) = lit_cells (face_rows face)"
  "marks (show_face face s) M33_MATRIX_BITS = of_nat (length (lit_cells (face_rows face)))"
  "lr_scan_index (renderer (show_face face s)) = lr_scan_index (renderer s)"
  "hw (show_face face s) = hw s"
  "marks (show_face face s) M33_LIT_TICKS = marks s M33_LIT_TICKS"
proof -
  let ?c = "lit_cells (face_rows face)" and ?p = "replicate MATRIX_BYTES 0 :: bytes"
  have dark: "\<not> matrix_bit ?p i" for i
    by (simp add: matrix_bit_iff MATRIX_BYTES_def NUM_MATRIX_LEDS_def)
  have cells: "\<forall>b \<in> List.set ?c. b < NUM_MATRIX_LEDS" by (simp add: lit_cells_def)
  have "matrix_bit (fold set_bit_at ?c ?p) i \<longleftrightarrow> i \<in> List.set ?c" for i
    by (simp add: fold_set_bits [OF _ cells] dark)
  then have "lit_leds (fold set_bit_at ?c ?p) = filter (\<lambda>i. i \<in> List.set ?c) [0..<NUM_MATRIX_LEDS]"
    by (simp add: lit_leds_def cong: filter_cong)
  also have "\<dots> = ?c" unfolding lit_cells_def by (rule filter_cong) auto
  finally have lit: "lit_leds (fold set_bit_at ?c ?p) = ?c" .
  have f: "show_face face s = publish_matrix_markers (of_nat (length ?c))
      (s\<lparr>renderer := (renderer s)\<lparr>lr_packed := fold set_bit_at ?c ?p\<rparr>\<rparr>)"
    unfolding show_face_def write_face_def Let_def write_face_loops fold_write_cells by (simp add: lit_cells_def)
  show "lit_leds (lr_packed (renderer (show_face face s))) = ?c"
    "marks (show_face face s) M33_MATRIX_BITS = of_nat (length ?c)"
    "lr_scan_index (renderer (show_face face s)) = lr_scan_index (renderer s)"
    "hw (show_face face s) = hw s"
    "marks (show_face face s) M33_LIT_TICKS = marks s M33_LIT_TICKS"
    using lit by (simp_all add: f publish_matrix_markers_def Let_def)
qed

lemma face_rows_cases:
  "face_rows face \<in> List.set [PIC_NEUTRAL, PIC_HAPPY, PIC_SAD, PIC_ANGRY, PIC_SURPRISED, PIC_THINKING, PIC_SPEAK_0,
     PIC_SPEAK_1, PIC_SPEAK_2, PIC_SPEAK_3]"
  by (simp add: face_rows_def)

lemma face_never_dark: "lit_cells (face_rows face) \<noteq> []" "length (lit_cells (face_rows face)) \<le> 28"
proof -
  have "list_all (\<lambda>rows. lit_cells rows \<noteq> [] \<and> length (lit_cells rows) \<le> 28)
      [PIC_NEUTRAL, PIC_HAPPY, PIC_SAD, PIC_ANGRY, PIC_SURPRISED, PIC_THINKING, PIC_SPEAK_0,
       PIC_SPEAK_1, PIC_SPEAK_2, PIC_SPEAK_3]" by code_simp
  with face_rows_cases [of face] show "lit_cells (face_rows face) \<noteq> []" "length (lit_cells (face_rows face)) \<le> 28"
    by (auto simp: list_all_iff)
qed

lemma faces_differ:
  "distinct (map lit_cells [PIC_NEUTRAL, PIC_HAPPY, PIC_SAD, PIC_ANGRY, PIC_SURPRISED, PIC_THINKING,
     PIC_SPEAK_1, PIC_SPEAK_2, PIC_SPEAK_3])"
  by code_simp

text \<open>The picture of a face in that list.\<close>

definition picture_index :: "u8 \<Rightarrow> nat" where
  "picture_index f = (if f = 1 then 1 else if f = 2 then 2 else if f = 3 then 3 else if f = 4 then 4
     else if f = 5 then 5 else if f = 17 then 6 else if f = 18 then 7 else if f = 19 then 8 else 0)"

lemma face_rows_eq_iff: "lit_cells (face_rows f) = lit_cells (face_rows g) \<longleftrightarrow> picture_index f = picture_index g"
proof -
  let ?ps = "map lit_cells [PIC_NEUTRAL, PIC_HAPPY, PIC_SAD, PIC_ANGRY, PIC_SURPRISED, PIC_THINKING,
     PIC_SPEAK_1, PIC_SPEAK_2, PIC_SPEAK_3]"
  have "lit_cells (face_rows f) = ?ps ! picture_index f" for f
    by (simp add: face_rows_def picture_index_def PIC_SPEAK_0_def)
  moreover have "picture_index f < length ?ps" for f by (simp add: picture_index_def)
  ultimately show ?thesis using nth_eq_iff_index_eq [OF faces_differ] by presburger
qed

section \<open>Properties\<close>

text \<open>C13: A face on the matrix: from the moment it is set, whatever was on the pins and wherever the scan
  stood, every tick drives exactly one LED, one that is set in the picture of the face; as many
  ticks in a row as the picture has LEDs, at most 28, light each of them once.\<close>

theorem face_on_matrix:
  fixes bus :: "'h bus" and s :: "('h \<times> (nat \<times> u32) list) m33" and face :: u8
  assumes "plain_register bus (GPIOF + GPIO_MODER) moder"
  defines "leds \<equiv> lit_cells (face_rows face)"
    and "lit \<equiv> \<lambda>n. leds_on (snd (hw (ticks (wtap bus) (Suc n) (show_face face s))))"
  shows "\<exists>j. (\<forall>n. lit n = [leds ! ((j + n) mod length leds)])
    \<and> (\<forall>n. concat (map (\<lambda>k. lit (n + k)) [0..<length leds]) = rotate (j + n) leds)
    \<and> 0 < length leds \<and> length leds \<le> 28"
proof -
  let ?s = "show_face face s"
  define j where "j = lit_before (lr_packed (renderer ?s)) (scan_start ?s)"
  note leds = face_lit(1) [of face s, folded leds_def] and ne = face_never_dark [of face, folded leds_def]
  note scan = ticks_scan [OF assms(1) leds ne(1), folded j_def]
  have one: "lit n = [leds ! ((j + n) mod length leds)]" for n
  proof -
    let ?t = "ticks (wtap bus) n ?s"
    have "lit_leds (lr_packed (renderer ?t)) = leds" using scan [of n] leds by simp
    from systick_lit(1) [OF assms(1) this ne(1) refl] show ?thesis using scan [of n] by (simp add: lit_def)
  qed
  have "map (\<lambda>k. leds ! ((j + (n + k)) mod length leds)) [0..<length leds] = rotate (j + n) leds" for n
    by (rule nth_equalityI) (simp_all add: nth_rotate add.assoc)
  then have "concat (map (\<lambda>k. lit (n + k)) [0..<length leds]) = rotate (j + n) leds" for n
    by (simp add: one)
  with one ne show ?thesis by blast
qed

text \<open>A port register for the witnesses.\<close>

definition moder_bus :: "u32 bus" where
  "moder_bus = \<lparr>bus_read = (\<lambda>_ h. (h, h)), bus_write = (\<lambda>addr v h. if addr = GPIOF + GPIO_MODER then v else h)\<rparr>"

theorem face_on_matrix_witness:
  "\<exists>j. (\<forall>n. leds_on (snd (hw (ticks (wtap moder_bus) (Suc n) (show_face FACE_SAD (m33_start (0xffffffff, []))))))
      = [lit_cells PIC_SAD ! ((j + n) mod length (lit_cells PIC_SAD))])"
proof -
  have "plain_register moder_bus (GPIOF + GPIO_MODER) (\<lambda>h. h)" by (simp add: plain_register_def moder_bus_def)
  from face_on_matrix [OF this, of FACE_SAD "m33_start (0xffffffff, [])"] show ?thesis
    by (auto simp: face_rows_def)
qed

text \<open>C34: Different faces look different: two display faces light the same LEDs only if they are the
  same, or both among neutral, closed mouth and speaking, which share one picture.\<close>

theorem faces_distinguishable:
  assumes "validate_display_face f = Inr ()" "validate_display_face g = Inr ()"
  shows "lit_leds (lr_packed (renderer (show_face f s))) = lit_leds (lr_packed (renderer (show_face g t)))
    \<longleftrightarrow> f = g \<or> {f, g} \<subseteq> {FACE_NEUTRAL, FACE_SPEAKING, FACE_MOUTH_CLOSED}"
proof -
  have shape: "f \<in> {0, 1, 2, 3, 4, 5, 6, 16, 17, 18, 19}" "g \<in> {0, 1, 2, 3, 4, 5, 6, 16, 17, 18, 19}"
    using assms by (auto simp: validate_display_face_def split: if_splits)
  from shape show ?thesis unfolding face_lit face_rows_eq_iff by (elim insertE emptyE) (simp_all add: picture_index_def)
qed

theorem faces_distinguishable_witness:
  "lit_leds (lr_packed (renderer (show_face 1 (m33_start ())))) \<noteq> lit_leds (lr_packed (renderer (show_face 2 (m33_start ()))))"
  using faces_distinguishable [of 1 2 "m33_start ()" "m33_start ()"] by (simp add: validate_display_face_def)

end
