(* ===== verification/M33_Setup.thy ===== *)
theory M33_Setup
  imports Led_Matrix
begin

text \<open>
  The start of the M33 kernel and the functions through which the carrier and the role report to
  it (\<open>examples/uno-q-heterogeneous/src/bin/uno_q_m33_native_kernel.rs\<close>): clocks, pins, UARTs and
  the tick timer over the register bus of M33_Board. \<open>delay\<close> only spends time and has no effect
  here; copying the data segment before \<open>main\<close> is left out.
\<close>

section \<open>What is reported to the kernel\<close>

definition uno_q_m33_carrier_observe_frame :: "u8 \<Rightarrow> u8 \<Rightarrow> u8 \<Rightarrow> u8 \<Rightarrow> 'h m33 \<Rightarrow> 'h m33" where
  "uno_q_m33_carrier_observe_frame source peer label len s =
     marker_store M33_LAST_RX
       (push_bit 24 (ucast source) OR push_bit 16 (ucast peer) OR push_bit 8 (ucast label) OR ucast len)
       (marker_add M33_RX_FRAMES 1 s)"

definition uno_q_m33_carrier_observe_open :: "u8 \<Rightarrow> u8 \<Rightarrow> u32 \<Rightarrow> 'h m33 \<Rightarrow> 'h m33" where
  "uno_q_m33_carrier_observe_open role lane session_id s =
     marker_store M33_OPEN_PORT (push_bit 16 (ucast role) OR push_bit 8 (ucast lane))
       (marker_store M33_OPEN_SESSION session_id s)"

definition uno_q_m33_carrier_observe_parsed :: "u32 \<Rightarrow> u8 \<Rightarrow> u8 \<Rightarrow> u8 \<Rightarrow> u8 \<Rightarrow> 'h m33 \<Rightarrow> 'h m33" where
  "uno_q_m33_carrier_observe_parsed session_id source peer label len s =
     marker_store M33_REJECT_META
       (push_bit 24 (ucast source) OR push_bit 16 (ucast peer) OR push_bit 8 (ucast label) OR ucast len)
       (marker_store M33_REJECT_FRAME_SESSION session_id (marker_add M33_PARSED_FRAMES 1 s))"

definition uno_q_m33_carrier_observe_reject ::
    "u8 \<Rightarrow> u32 \<Rightarrow> u32 \<Rightarrow> u8 \<Rightarrow> u8 \<Rightarrow> u8 \<Rightarrow> u8 \<Rightarrow> 'h m33 \<Rightarrow> 'h m33" where
  "uno_q_m33_carrier_observe_reject reason expected_session_id frame_session_id source peer label len s =
     marker_store M33_REJECT_META
       (push_bit 24 (ucast source) OR push_bit 16 (ucast peer) OR push_bit 8 (ucast label) OR ucast len)
       (marker_store M33_REJECT_FRAME_SESSION frame_session_id
         (marker_store M33_REJECT_EXPECT_SESSION expected_session_id
           (marker_store M33_REJECT_REASON (ucast reason) s)))"

definition uno_q_m33_carrier_observe_payload :: "u8 \<Rightarrow> u8 \<Rightarrow> u8 \<Rightarrow> u8 \<Rightarrow> 'h m33 \<Rightarrow> 'h m33" where
  "uno_q_m33_carrier_observe_payload label len byte0 byte1 s =
     marker_store M33_LAST_RX_PAYLOAD01
       (push_bit 24 (ucast label) OR push_bit 16 (ucast len) OR push_bit 8 (ucast byte0) OR ucast byte1) s"

definition uno_q_m33_carrier_observe_tx :: "u8 \<Rightarrow> u8 \<Rightarrow> u8 \<Rightarrow> 'h m33 \<Rightarrow> 'h m33" where
  "uno_q_m33_carrier_observe_tx peer label len s =
     marker_store M33_LAST_TX (push_bit 16 (ucast peer) OR push_bit 8 (ucast label) OR ucast len)
       (marker_add M33_TX_FRAMES 1 s)"

definition uno_q_m33_carrier_observe_hint :: "u8 \<Rightarrow> 'h m33 \<Rightarrow> 'h m33" where
  "uno_q_m33_carrier_observe_hint lane s =
     marker_store M33_LAST_HINT_LANE (ucast lane) (marker_add M33_HINT_POLLS 1 s)"

definition uno_q_m33_carrier_observe_deadline :: "u8 \<Rightarrow> u8 \<Rightarrow> u8 \<Rightarrow> u32 \<Rightarrow> 'h m33 \<Rightarrow> 'h m33" where
  "uno_q_m33_carrier_observe_deadline operation role lane elapsed s =
     mark_stage 0xffff0002
       (marker_store M33_TRANSPORT_DEADLINE_TICKS elapsed
         (marker_store M33_TRANSPORT_DEADLINE
           (push_bit 24 (ucast operation) OR push_bit 16 (ucast role) OR push_bit 8 (ucast lane)) s))"

definition uno_q_m33_timer_ticks :: "'h m33 \<Rightarrow> u32" where
  "uno_q_m33_timer_ticks s = marks s M33_TIMER_TICKS"

definition uno_q_m33_board_poll :: "'h m33 \<Rightarrow> 'h m33" where
  "uno_q_m33_board_poll = marker_add M33_BOARD_POLLS 1"

definition uno_q_m33_role_step :: "u32 \<Rightarrow> 'h m33 \<Rightarrow> 'h m33" where
  "uno_q_m33_role_step step = marker_store M33_ROLE_STEP step"

section \<open>Clocks and pins\<close>

definition PWR_SVMCR :: nat where "PWR_SVMCR = 0x46020800 + 0x10"
definition RCC_CR :: nat where "RCC_CR = RCC"
definition RCC_CFGR1 :: nat where "RCC_CFGR1 = RCC + 0x1c"
definition RCC_AHB3ENR :: nat where "RCC_AHB3ENR = RCC + 0x94"
definition RCC_APB2ENR :: nat where "RCC_APB2ENR = RCC + 0xa4"
definition RCC_APB3ENR :: nat where "RCC_APB3ENR = RCC + 0xa8"
definition RCC_CCIPR3 :: nat where "RCC_CCIPR3 = RCC + 0xe0"
definition GPIOB :: nat where "GPIOB = 0x42020400"
definition GPIOG :: nat where "GPIOG = 0x42021800"
definition GPIO_AFRL :: nat where "GPIO_AFRL = 0x20"
definition GPIO_AFRH :: nat where "GPIO_AFRH = 0x24"
definition SYST_CSR :: nat where "SYST_CSR = 0xe000e010"
definition SYST_RVR :: nat where "SYST_RVR = 0xe000e014"
definition SYST_CVR :: nat where "SYST_CVR = 0xe000e018"
definition UNO_Q_M33_SYSTICK_RELOAD :: u32 where "UNO_Q_M33_SYSTICK_RELOAD = 800 - 1"

text \<open>\<open>while read_reg(addr) & bits != expected && guard < 1_000_000\<close>, by the rounds that are left.\<close>

fun reg_wait :: "'h bus \<Rightarrow> nat \<Rightarrow> u32 \<Rightarrow> u32 \<Rightarrow> nat \<Rightarrow> 'h m33 \<Rightarrow> 'h m33" where
  "reg_wait bus addr bits stop 0 s = snd (read_reg bus addr s)"
| "reg_wait bus addr bits stop (Suc n) s =
     (let (v, s) = read_reg bus addr s in if v AND bits = stop then s else reg_wait bus addr bits stop n s)"

definition select_hsi16_sysclk :: "'h bus \<Rightarrow> 'h m33 \<Rightarrow> 'h m33" where
  "select_hsi16_sysclk bus s =
     (let s = modify_reg bus RCC_CR (\<lambda>v. v OR push_bit 8 1) s;
          s = reg_wait bus RCC_CR (push_bit 10 1) (push_bit 10 1) TXE_GUARD s;
          s = modify_reg bus RCC_CFGR1 (\<lambda>v. (v AND NOT 3) OR 1) s in
      reg_wait bus RCC_CFGR1 12 4 TXE_GUARD s)"

definition enable_vddio2 :: "'h bus \<Rightarrow> 'h m33 \<Rightarrow> 'h m33" where
  "enable_vddio2 bus = modify_reg bus PWR_SVMCR (\<lambda>v. v OR push_bit 29 1)"

definition select_lpuart1_hsi16 :: "'h bus \<Rightarrow> 'h m33 \<Rightarrow> 'h m33" where
  "select_lpuart1_hsi16 bus = modify_reg bus RCC_CCIPR3 (\<lambda>v. (v AND NOT 7) OR 2)"

definition configure_af :: "'h bus \<Rightarrow> nat \<Rightarrow> u8 \<Rightarrow> u8 \<Rightarrow> 'h m33 \<Rightarrow> 'h m33" where
  "configure_af bus port pin af s =
     (let shift = unat (pin * 2);
          s = modify_reg bus (port + GPIO_MODER) (\<lambda>v. (v AND NOT (push_bit shift 3)) OR push_bit shift 2) s;
          s = modify_reg bus (port + GPIO_OTYPER) (\<lambda>v. v AND NOT (push_bit (unat pin) 1)) s;
          s = modify_reg bus (port + GPIO_OSPEEDR) (\<lambda>v. v OR push_bit shift 3) s;
          s = modify_reg bus (port + GPIO_PUPDR) (\<lambda>v. (v AND NOT (push_bit shift 3)) OR push_bit shift 1) s;
          afr = (if pin < 8 then GPIO_AFRL else GPIO_AFRH);
          afr_shift = unat ((pin mod 8) * 4) in
      modify_reg bus (port + afr) (\<lambda>v. (v AND NOT (push_bit afr_shift 15)) OR push_bit afr_shift (ucast af)) s)"

definition init_clocks_and_pins :: "'h bus \<Rightarrow> 'h m33 \<Rightarrow> 'h m33" where
  "init_clocks_and_pins bus s =
     (let s = select_hsi16_sysclk bus s;
          s = modify_reg bus RCC_AHB3ENR (\<lambda>v. v OR push_bit 2 1) s;
          s = enable_vddio2 bus s;
          s = select_lpuart1_hsi16 bus s;
          s = modify_reg bus RCC_AHB2ENR1 (\<lambda>v. v OR push_bit 1 1 OR push_bit 5 1 OR push_bit 6 1) s;
          s = modify_reg bus RCC_APB2ENR (\<lambda>v. v OR push_bit 14 1) s;
          s = modify_reg bus RCC_APB3ENR (\<lambda>v. v OR push_bit 6 1) s;
          s = configure_af bus GPIOB 6 7 s;
          s = configure_af bus GPIOB 7 7 s;
          s = configure_af bus GPIOG 5 8 s;
          s = configure_af bus GPIOG 6 8 s;
          s = configure_af bus GPIOG 7 8 s in
      configure_af bus GPIOG 8 8 s)"

definition init_usart :: "'h bus \<Rightarrow> nat \<Rightarrow> u32 \<Rightarrow> 'h m33 \<Rightarrow> 'h m33" where
  "init_usart bus base brr s =
     (let s = write_reg bus (base + USART_CR1) 0 s;
          s = write_reg bus (base + USART_CR3) (if base = LPUART1 then USART_CR3_RTSE else 0) s;
          s = write_reg bus (base + USART_BRR) brr s in
      write_reg bus (base + USART_CR1) (USART_CR1_UE OR USART_CR1_TE OR USART_CR1_RE) s)"

definition init_uarts :: "'h bus \<Rightarrow> 'h m33 \<Rightarrow> 'h m33" where
  "init_uarts bus s = init_usart bus LPUART1 35556 (init_usart bus USART1 139 s)"

definition init_systick :: "'h bus \<Rightarrow> 'h m33 \<Rightarrow> 'h m33" where
  "init_systick bus s =
     write_reg bus SYST_CSR 7 (write_reg bus SYST_CVR 0 (write_reg bus SYST_RVR UNO_Q_M33_SYSTICK_RELOAD s))"

text \<open>\<open>reset_handler\<close> and \<open>main\<close> up to the start of the role.\<close>

definition m33_boot :: "'h bus \<Rightarrow> 'h m33 \<Rightarrow> 'h m33" where
  "m33_boot bus s =
     (let s = mark_stage 1 s;
          s = mark_stage 2 s;
          s = init_clocks_and_pins bus s;
          s = mark_stage 3 s;
          s = init_uarts bus s;
          s = mark_stage 4 s;
          s = init_matrix bus s;
          s = mark_stage 5 s;
          s = init_systick bus s;
          s = mark_stage 6 s;
          s = show_face FACE_NEUTRAL s;
          s = mark_stage 7 s in
      mark_stage 8 s)"

section \<open>Fields of registers\<close>

definition get_field :: "nat \<Rightarrow> nat \<Rightarrow> u32 \<Rightarrow> u32" where
  "get_field w shift x = take_bit w (drop_bit shift x)"

definition set_field :: "nat \<Rightarrow> nat \<Rightarrow> u32 \<Rightarrow> u32 \<Rightarrow> u32" where
  "set_field w shift v x = (x AND NOT (push_bit shift (mask w))) OR push_bit shift v"

lemma get_set_field:
  assumes "take_bit w v = v" "shift + w \<le> 32"
  shows "get_field w shift (set_field w shift v x) = v"
proof -
  have "\<not> bit v n" if "w \<le> n" for n
    using assms(1) that by (metis bit_take_bit_iff not_le)
  then show ?thesis using assms(2)
    by (intro bit_word_eqI) (auto simp: get_field_def set_field_def bit_simps not_less)
qed

lemma get_other_field:
  assumes "take_bit w v = v" "shift + w \<le> k \<or> k + w \<le> shift"
  shows "get_field w k (set_field w shift v x) = get_field w k x"
proof -
  have v: "\<not> bit v n" if "w \<le> n" for n
    using assms(1) that by (metis bit_take_bit_iff not_le)
  have "bit (get_field w k (set_field w shift v x)) n \<longleftrightarrow> bit (get_field w k x) n" for n
  proof -
    have above: "\<not> bit v (k + n - shift)" if "shift + w \<le> k" by (rule v) (use that in arith)
    have "bit (set_field w shift v x) (k + n) \<longleftrightarrow> bit x (k + n)" if "n < w"
      using assms(2) that above bit_imp_le_length [of x "k + n"]
      by (auto simp: set_field_def bit_simps not_less)
    then show ?thesis by (auto simp: get_field_def bit_take_bit_iff bit_drop_bit_eq)
  qed
  then show ?thesis by (intro bit_word_eqI) simp
qed

definition pin_mode :: "u32 \<Rightarrow> nat \<Rightarrow> u32" where
  "pin_mode moder pin = get_field 2 (2 * pin) moder"

definition pin_function :: "u32 \<Rightarrow> nat \<Rightarrow> u32" where
  "pin_function afr k = get_field 4 (4 * k) afr"

lemma pin_mode_set: "n < 16 \<Longrightarrow> pin_mode (set_field 2 (2 * n) 2 m) k = (if k = n then 2 else pin_mode m k)"
proof (cases "k = n")
  case False
  then have "2 * n + 2 \<le> 2 * k \<or> 2 * k + 2 \<le> 2 * n" by arith
  with False get_other_field [of 2 2 "2 * n" "2 * k" m] show ?thesis by (simp add: pin_mode_def)
qed (use get_set_field [of 2 2 "2 * n" m] in \<open>simp add: pin_mode_def\<close>)

lemma pin_function_set:
  "n < 8 \<Longrightarrow> take_bit 4 f = f \<Longrightarrow> pin_function (set_field 4 (4 * n) f m) k = (if k = n then f else pin_function m k)"
proof (cases "k = n")
  case False
  assume f: "take_bit 4 f = f"
  from False have "4 * n + 4 \<le> 4 * k \<or> 4 * k + 4 \<le> 4 * n" by arith
  with False f get_other_field [of 4 f "4 * n" "4 * k" m] show ?thesis by (simp add: pin_function_def)
qed (use get_set_field [of 4 f "4 * n" m] in \<open>simp add: pin_function_def\<close>)

lemma field_masks:
  "(v AND NOT (push_bit n 3)) OR x = (v AND NOT (push_bit n (mask 2))) OR x"
  "(v AND NOT (push_bit n 15)) OR x = (v AND NOT (push_bit n (mask 4))) OR (x :: u32)"
  by (simp_all add: mask_eq_exp_minus_1)

lemma cell_reg_wait:
  assumes "plain_register bus a cell"
  shows "cell (hw (reg_wait bus addr bits stop n s)) = cell (hw s)"
  using plain_register_simps(2) [OF assms] by (induction n arbitrary: s) (auto simp: split_beta)

text \<open>What setting one pin up does to a register of a port.\<close>

lemma cell_configure_af:
  assumes "plain_register bus a cell" "pin < 16"
  shows "a = port + GPIO_MODER \<Longrightarrow> cell (hw (configure_af bus port pin af s)) = set_field 2 (2 * unat pin) 2 (cell (hw s))"
    "a = port + (if pin < 8 then GPIO_AFRL else GPIO_AFRH) \<Longrightarrow>
      cell (hw (configure_af bus port pin af s)) = set_field 4 (4 * (unat pin mod 8)) (ucast af) (cell (hw s))"
    "a \<notin> {port + GPIO_MODER, port + GPIO_OTYPER, port + GPIO_OSPEEDR, port + GPIO_PUPDR,
        port + (if pin < 8 then GPIO_AFRL else GPIO_AFRH)} \<Longrightarrow>
      cell (hw (configure_af bus port pin af s)) = cell (hw s)"
proof -
  note cell = plain_register_simps [OF assms(1)]
  have u: "unat pin < 16" using assms(2) by (simp add: word_less_nat_alt)
  have shifts: "unat (pin * 2) = 2 * unat pin" "unat ((pin mod 8) * 4) = 4 * (unat pin mod 8)"
    using u by (simp_all add: unat_word_ariths unat_mod)
  show "a = port + GPIO_MODER \<Longrightarrow> cell (hw (configure_af bus port pin af s)) = set_field 2 (2 * unat pin) 2 (cell (hw s))"
    by (simp add: configure_af_def Let_def cell shifts set_field_def GPIO_MODER_def GPIO_OTYPER_def GPIO_OSPEEDR_def
        GPIO_PUPDR_def GPIO_AFRL_def GPIO_AFRH_def mask_eq_exp_minus_1)
  show "a = port + (if pin < 8 then GPIO_AFRL else GPIO_AFRH) \<Longrightarrow>
      cell (hw (configure_af bus port pin af s)) = set_field 4 (4 * (unat pin mod 8)) (ucast af) (cell (hw s))"
    by (simp add: configure_af_def Let_def cell shifts set_field_def GPIO_MODER_def GPIO_OTYPER_def GPIO_OSPEEDR_def
        GPIO_PUPDR_def GPIO_AFRL_def GPIO_AFRH_def mask_eq_exp_minus_1)
  show "a \<notin> {port + GPIO_MODER, port + GPIO_OTYPER, port + GPIO_OSPEEDR, port + GPIO_PUPDR,
        port + (if pin < 8 then GPIO_AFRL else GPIO_AFRH)} \<Longrightarrow>
      cell (hw (configure_af bus port pin af s)) = cell (hw s)"
    by (simp add: configure_af_def Let_def cell)
qed

section \<open>The start\<close>

text \<open>The registers of the two ports, apart from each other and from every other register that is written.\<close>

definition port_registers :: "'h bus \<Rightarrow> nat \<Rightarrow> ('h \<Rightarrow> u32) \<Rightarrow> ('h \<Rightarrow> u32) \<Rightarrow> ('h \<Rightarrow> u32) \<Rightarrow> bool" where
  "port_registers bus port moder afrl afrh \<longleftrightarrow> plain_register bus (port + GPIO_MODER) moder
     \<and> plain_register bus (port + GPIO_AFRL) afrl \<and> plain_register bus (port + GPIO_AFRH) afrh"

lemmas setup_addresses = PWR_SVMCR_def RCC_CR_def RCC_CFGR1_def RCC_AHB3ENR_def RCC_APB2ENR_def RCC_APB3ENR_def
  RCC_CCIPR3_def RCC_AHB2ENR1_def RCC_def GPIOB_def GPIOG_def GPIOF_def GPIO_AFRL_def GPIO_AFRH_def GPIO_MODER_def
  GPIO_OTYPER_def GPIO_OSPEEDR_def GPIO_PUPDR_def SYST_CSR_def SYST_RVR_def SYST_CVR_def USART1_def LPUART1_def
  USART_CR1_def USART_CR3_def USART_BRR_def

lemmas boot_steps = m33_boot_def init_clocks_and_pins_def select_hsi16_sysclk_def enable_vddio2_def
  select_lpuart1_hsi16_def init_uarts_def init_usart_def init_matrix_def gpiof_all_input_def init_systick_def

definition port_cells :: "nat set" where
  "port_cells = {GPIOB + GPIO_MODER, GPIOB + GPIO_AFRL, GPIOB + GPIO_AFRH, GPIOG + GPIO_MODER, GPIOG + GPIO_AFRL, GPIOG + GPIO_AFRH}"

lemma cell_af:
  assumes p: "plain_register bus a cell" and a: "a \<in> port_cells" and port: "port = GPIOB \<or> port = GPIOG" and pin: "pin < 16"
  shows "cell (hw (configure_af bus port pin af s)) =
    (if a = port + GPIO_MODER then set_field 2 (2 * unat pin) 2 (cell (hw s))
     else if a = port + (if pin < 8 then GPIO_AFRL else GPIO_AFRH) then set_field 4 (4 * (unat pin mod 8)) (ucast af) (cell (hw s))
     else cell (hw s))"
proof -
  have "a \<notin> {port + GPIO_OTYPER, port + GPIO_OSPEEDR, port + GPIO_PUPDR}"
    using a port by (auto simp: port_cells_def setup_addresses)
  then show ?thesis using cell_configure_af [OF p pin, of port af s] by auto
qed

lemma cell_before_pins:
  assumes p: "plain_register bus a cell" and a: "a \<in> port_cells"
  shows "cell (hw (select_hsi16_sysclk bus s)) = cell (hw s)" "cell (hw (enable_vddio2 bus s)) = cell (hw s)"
    "cell (hw (select_lpuart1_hsi16 bus s)) = cell (hw s)"
    "b \<in> {RCC_AHB3ENR, RCC_AHB2ENR1, RCC_APB2ENR, RCC_APB3ENR} \<Longrightarrow> cell (hw (modify_reg bus b f s)) = cell (hw s)"
proof -
  note cell = plain_register_simps [OF p] cell_reg_wait [OF p]
  have "a \<notin> {RCC_CR, RCC_CFGR1, PWR_SVMCR, RCC_CCIPR3, RCC_AHB3ENR, RCC_AHB2ENR1, RCC_APB2ENR, RCC_APB3ENR}"
    using a by (auto simp: port_cells_def setup_addresses)
  then show "cell (hw (select_hsi16_sysclk bus s)) = cell (hw s)" "cell (hw (enable_vddio2 bus s)) = cell (hw s)"
    "cell (hw (select_lpuart1_hsi16 bus s)) = cell (hw s)"
    "b \<in> {RCC_AHB3ENR, RCC_AHB2ENR1, RCC_APB2ENR, RCC_APB3ENR} \<Longrightarrow> cell (hw (modify_reg bus b f s)) = cell (hw s)"
    by (auto simp: select_hsi16_sysclk_def enable_vddio2_def select_lpuart1_hsi16_def Let_def cell)
qed

lemma cell_after_pins:
  assumes p: "plain_register bus a cell" and a: "a \<in> port_cells"
  shows "base \<in> {USART1, LPUART1} \<Longrightarrow> cell (hw (init_usart bus base brr s)) = cell (hw s)"
    "cell (hw (init_systick bus s)) = cell (hw s)" "cell (hw (init_matrix bus s)) = cell (hw s)"
proof -
  note cell = plain_register_simps [OF p]
  have "a \<notin> {USART1 + USART_CR1, USART1 + USART_CR3, USART1 + USART_BRR, LPUART1 + USART_CR1, LPUART1 + USART_CR3, LPUART1 + USART_BRR}"
    using a by (auto simp: port_cells_def setup_addresses)
  then show "base \<in> {USART1, LPUART1} \<Longrightarrow> cell (hw (init_usart bus base brr s)) = cell (hw s)"
    by (auto simp: init_usart_def Let_def cell)
  have "a \<notin> {SYST_CSR, SYST_CVR, SYST_RVR}" using a by (auto simp: port_cells_def setup_addresses)
  then show "cell (hw (init_systick bus s)) = cell (hw s)" by (auto simp: init_systick_def cell)
  have "a \<notin> {RCC_AHB2ENR1, GPIOF + GPIO_OTYPER, GPIOF + GPIO_OSPEEDR, GPIOF + GPIO_PUPDR, GPIOF + GPIO_MODER}"
    using a by (auto simp: port_cells_def setup_addresses)
  then show "cell (hw (init_matrix bus s)) = cell (hw s)" by (auto simp: init_matrix_def gpiof_all_input_def Let_def cell)
qed

lemma cell_boot:
  assumes p: "plain_register bus a cell" and a: "a \<in> port_cells"
  shows "cell (hw (m33_boot bus s)) =
     (let x = cell (hw s) in
      if a = GPIOB + GPIO_MODER then set_field 2 14 2 (set_field 2 12 2 x)
      else if a = GPIOB + GPIO_AFRL then set_field 4 28 7 (set_field 4 24 7 x)
      else if a = GPIOB + GPIO_AFRH then x
      else if a = GPIOG + GPIO_MODER then set_field 2 16 2 (set_field 2 14 2 (set_field 2 12 2 (set_field 2 10 2 x)))
      else if a = GPIOG + GPIO_AFRL then set_field 4 28 8 (set_field 4 24 8 (set_field 4 20 8 x))
      else set_field 4 0 8 x)"
proof -
  have "cell (hw (m33_boot bus s)) = cell (hw (init_clocks_and_pins bus (mark_stage 2 (mark_stage 1 s))))"
    by (simp add: m33_boot_def Let_def face_lit(4) init_uarts_def cell_after_pins [OF p a])
  also have "\<dots> = (let x = cell (hw s) in
      if a = GPIOB + GPIO_MODER then set_field 2 14 2 (set_field 2 12 2 x)
      else if a = GPIOB + GPIO_AFRL then set_field 4 28 7 (set_field 4 24 7 x)
      else if a = GPIOB + GPIO_AFRH then x
      else if a = GPIOG + GPIO_MODER then set_field 2 16 2 (set_field 2 14 2 (set_field 2 12 2 (set_field 2 10 2 x)))
      else if a = GPIOG + GPIO_AFRL then set_field 4 28 8 (set_field 4 24 8 (set_field 4 20 8 x))
      else set_field 4 0 8 x)"
    using a unfolding init_clocks_and_pins_def Let_def
    by (simp add: cell_af [OF p a] cell_before_pins [OF p a]) (auto simp: port_cells_def setup_addresses)
  finally show ?thesis .
qed

section \<open>Properties\<close>

text \<open>C29: After the start exactly the six pins of the two UARTs, PB6, PB7 and PG5 to PG8, are in
  alternate-function mode with function 7 on port B and 8 on port G; every other pin of the two
  ports keeps its mode and its function, whatever the wait loops for the clocks read.\<close>

theorem boot_configures_pins:
  fixes bus :: "'h bus" and s :: "'h m33" and k :: nat
  assumes "port_registers bus GPIOB b_moder b_afrl b_afrh" "port_registers bus GPIOG g_moder g_afrl g_afrh"
  defines "t \<equiv> m33_boot bus s"
  shows "pin_mode (b_moder (hw t)) k = (if k \<in> {6, 7} then 2 else pin_mode (b_moder (hw s)) k)
    \<and> pin_function (b_afrl (hw t)) k = (if k \<in> {6, 7} then 7 else pin_function (b_afrl (hw s)) k)
    \<and> b_afrh (hw t) = b_afrh (hw s)
    \<and> pin_mode (g_moder (hw t)) k = (if k \<in> {5, 6, 7, 8} then 2 else pin_mode (g_moder (hw s)) k)
    \<and> pin_function (g_afrl (hw t)) k = (if k \<in> {5, 6, 7} then 8 else pin_function (g_afrl (hw s)) k)
    \<and> pin_function (g_afrh (hw t)) k = (if k = 0 then 8 else pin_function (g_afrh (hw s)) k)"
proof (intro conjI)
  note p = assms(1,2) [unfolded port_registers_def]
  have m: "pin_mode (set_field 2 10 2 m) j = (if j = 5 then 2 else pin_mode m j)"
    "pin_mode (set_field 2 12 2 m) j = (if j = 6 then 2 else pin_mode m j)"
    "pin_mode (set_field 2 14 2 m) j = (if j = 7 then 2 else pin_mode m j)"
    "pin_mode (set_field 2 16 2 m) j = (if j = 8 then 2 else pin_mode m j)" for m j
    using pin_mode_set [of 5 m j] pin_mode_set [of 6 m j] pin_mode_set [of 7 m j] pin_mode_set [of 8 m j] by simp_all
  have f: "pin_function (set_field 4 20 f r) j = (if j = 5 then f else pin_function r j)"
    "pin_function (set_field 4 24 f r) j = (if j = 6 then f else pin_function r j)"
    "pin_function (set_field 4 28 f r) j = (if j = 7 then f else pin_function r j)"
    "pin_function (set_field 4 0 f r) j = (if j = 0 then f else pin_function r j)" if "take_bit 4 f = f" for f r j
    using that pin_function_set [of 5 f r j] pin_function_set [of 6 f r j] pin_function_set [of 7 f r j]
      pin_function_set [of 0 f r j] by simp_all
  show "pin_mode (b_moder (hw t)) k = (if k \<in> {6, 7} then 2 else pin_mode (b_moder (hw s)) k)"
    using p cell_boot [of bus "GPIOB + GPIO_MODER" b_moder s] by (simp add: t_def port_cells_def m)
  show "pin_function (b_afrl (hw t)) k = (if k \<in> {6, 7} then 7 else pin_function (b_afrl (hw s)) k)"
    using p cell_boot [of bus "GPIOB + GPIO_AFRL" b_afrl s] by (simp add: t_def port_cells_def f setup_addresses)
  show "b_afrh (hw t) = b_afrh (hw s)"
    using p cell_boot [of bus "GPIOB + GPIO_AFRH" b_afrh s] by (simp add: t_def port_cells_def setup_addresses)
  show "pin_mode (g_moder (hw t)) k = (if k \<in> {5, 6, 7, 8} then 2 else pin_mode (g_moder (hw s)) k)"
    using p cell_boot [of bus "GPIOG + GPIO_MODER" g_moder s] by (simp add: t_def port_cells_def m setup_addresses)
  show "pin_function (g_afrl (hw t)) k = (if k \<in> {5, 6, 7} then 8 else pin_function (g_afrl (hw s)) k)"
    using p cell_boot [of bus "GPIOG + GPIO_AFRL" g_afrl s] by (simp add: t_def port_cells_def f setup_addresses)
  show "pin_function (g_afrh (hw t)) k = (if k = 0 then 8 else pin_function (g_afrh (hw s)) k)"
    using p cell_boot [of bus "GPIOG + GPIO_AFRH" g_afrh s] by (simp add: t_def port_cells_def f setup_addresses)
qed

text \<open>Registers that are plain memory, for the witness.\<close>

definition ram_bus :: "(nat \<Rightarrow> u32) bus" where
  "ram_bus = \<lparr>bus_read = (\<lambda>addr h. (h addr, h)), bus_write = (\<lambda>addr v h. h(addr := v))\<rparr>"

theorem boot_configures_pins_witness:
  "pin_mode (hw (m33_boot ram_bus (m33_start (\<lambda>_. 0xffffffff))) (GPIOB + GPIO_MODER)) 6 = 2
    \<and> pin_function (hw (m33_boot ram_bus (m33_start (\<lambda>_. 0xffffffff))) (GPIOG + GPIO_AFRH)) 0 = 8"
proof -
  have "port_registers ram_bus port (\<lambda>h. h (port + GPIO_MODER)) (\<lambda>h. h (port + GPIO_AFRL)) (\<lambda>h. h (port + GPIO_AFRH))" for port
    by (simp add: port_registers_def plain_register_def ram_bus_def)
  note pins = boot_configures_pins [OF this this, of "m33_start (\<lambda>_. 0xffffffff)"]
  show ?thesis using pins [of 6] pins [of 0] by simp
qed

end
