(* ===== verification/Baker_Board.thy ===== *)
theory Baker_Board
  imports M33_Board Wasi_Metrics
begin

text \<open>
  What the RP2040 firmware keeps beside its transport
  (\<open>examples/baker-firmware/src/lib.rs\<close>): the markers and duration metrics of the
  \<open>choreofs\<close> demonstrations, the alarm they wait on, and the pins of the LEDs. The registers are
  a bus as in M33_Board. A busy wait on a register appears as the reading that ends it, since the
  state of the bus may change with every reading; a wait for the alarm appears as the interrupt
  that ends it.
\<close>

section \<open>Static cells\<close>

text \<open>A duration metric is four cells with one prefix; some prefixes have fewer.\<close>

datatype metric_group =
    SIO_RX_WAIT | SIO_RX_WAIT_ROLE0 | SIO_RX_WAIT_ROLE1 | SIO_TX_WAIT | SIO_TX_WAIT_ROLE0 | SIO_TX_WAIT_ROLE1
  | SIO_TX_POLL | SIO_TX_POLL_ROLE0 | SIO_TX_POLL_ROLE1 | ENGINE_GAP | DRIVER_IMPORT | POLL_DELAY | REQUEST_RECV
  | REPLY_SEND | REPLY_SEND_FD_WRITE_OBJECT | REPLY_SEND_POLL_ONEOFF | REPLY_SEND_FUTURE_POLL | REPLY_ENCODE
  | WASI_RESUME | WASI_REQUEST_SEND | WASI_COMPLETION_RECV | WASI_COMPLETE

datatype baker_marker =
    ENGINE_STATUS | ENGINE_ERROR_CODE | DRIVER_TRACE | SIO_TRACE_CORE0_COUNT | SIO_TRACE_CORE1_COUNT
  | SIO_CORE0_TO_CORE1_TX_COUNT | SIO_CORE0_TO_CORE1_RX_COUNT | SIO_CORE1_TO_CORE0_TX_COUNT
  | SIO_CORE1_TO_CORE0_RX_COUNT | SIO_ROLE1_PENDING_SEEN_CORE0_TX | SIO_ROLE1_POLL_SEEN_CORE0_TX
  | SIO_ROLE1_READY_SEEN_CORE0_TX | PATH_OPEN_COUNT | FD_WRITE_COUNT | POLL_COUNT | LAST_POLL_TICKS_LO
  | LAST_POLL_TICKS_HI | LAST_OBJECT | LED_MASK | SEEN_LED_MASK | MEASUREMENTS_FROZEN | IMPORT_START_US
  | IMPORT_EXIT_US | IMPORT_EXIT_ARMED | WASI_METRIC_ENABLED | DEMO_CORE0_STAGE | DEMO_RESULT
  | TIMER_ALARM0_READY | TIMER_ROUTE_ARMED | REPLY_SEND_FUTURE_READY_COUNT

record 'h baker =
  bhw :: 'h
  bmarks :: "baker_marker \<Rightarrow> u32"
  bmetrics :: "metric_group \<Rightarrow> wasi_metric"
  btrace0 :: "u32 list"
  btrace1 :: "u32 list"

definition write_marker :: "baker_marker \<Rightarrow> u32 \<Rightarrow> 'h baker \<Rightarrow> 'h baker" where
  "write_marker m v s = s\<lparr>bmarks := (bmarks s)(m := v)\<rparr>"

definition increment_marker :: "baker_marker \<Rightarrow> 'h baker \<Rightarrow> 'h baker" where
  "increment_marker m s = write_marker m (saturating_add_u32 (bmarks s m) 1) s"

definition choreofs_measurements_frozen :: "'h baker \<Rightarrow> bool" where
  "choreofs_measurements_frozen s \<longleftrightarrow> bmarks s MEASUREMENTS_FROZEN \<noteq> 0"

definition record_marker_duration :: "metric_group \<Rightarrow> u32 \<Rightarrow> 'h baker \<Rightarrow> 'h baker" where
  "record_marker_duration g us s =
     (if choreofs_measurements_frozen s then s
      else let m = bmetrics s g;
               m = m\<lparr>wm_count := saturating_add_u32 (wm_count m) 1\<rparr>;
               m = m\<lparr>wm_last := us\<rparr>;
               m = m\<lparr>wm_total := saturating_add_u32 (wm_total m) us\<rparr>;
               m = (if us > wm_max m then m\<lparr>wm_max := us\<rparr> else m) in
           s\<lparr>bmetrics := (bmetrics s)(g := m)\<rparr>)"

section \<open>Registers\<close>

definition bread :: "'h bus \<Rightarrow> nat \<Rightarrow> 'h baker \<Rightarrow> u32 \<times> 'h baker" where
  "bread bus addr s = (let (v, h) = bus_read bus addr (bhw s) in (v, s\<lparr>bhw := h\<rparr>))"

definition bwrite :: "'h bus \<Rightarrow> nat \<Rightarrow> u32 \<Rightarrow> 'h baker \<Rightarrow> 'h baker" where
  "bwrite bus addr v s = s\<lparr>bhw := bus_write bus addr v (bhw s)\<rparr>"

definition SIO_BASE :: nat where "SIO_BASE = 0xd0000000"
definition IO_BANK0_BASE :: nat where "IO_BANK0_BASE = 0x40014000"
definition PADS_BANK0_BASE :: nat where "PADS_BANK0_BASE = 0x4001c000"
definition RESETS_BASE :: nat where "RESETS_BASE = 0x4000c000"
definition RESETS_RESET_CLR :: nat where "RESETS_RESET_CLR = RESETS_BASE + 0x3000"
definition RESETS_RESET_DONE :: nat where "RESETS_RESET_DONE = RESETS_BASE + 0x08"
definition RESETS_IO_BANK0 :: u32 where "RESETS_IO_BANK0 = push_bit 5 1"
definition RESETS_PADS_BANK0 :: u32 where "RESETS_PADS_BANK0 = push_bit 8 1"
definition GPIO_OUT_SET :: nat where "GPIO_OUT_SET = SIO_BASE + 0x14"
definition GPIO_OUT_CLR :: nat where "GPIO_OUT_CLR = SIO_BASE + 0x18"
definition GPIO_OE_SET :: nat where "GPIO_OE_SET = SIO_BASE + 0x24"
definition GPIO_FUNC_SIO :: u32 where "GPIO_FUNC_SIO = 5"
definition GPIO_PAD_DEFAULT :: u32 where "GPIO_PAD_DEFAULT = 0x56"
definition TIMER_BASE :: nat where "TIMER_BASE = 0x40054000"
definition TIMER_ALARM0 :: nat where "TIMER_ALARM0 = TIMER_BASE + 0x10"
definition TIMER_TIMERAWL :: nat where "TIMER_TIMERAWL = TIMER_BASE + 0x28"
definition TIMER_DBGPAUSE :: nat where "TIMER_DBGPAUSE = TIMER_BASE + 0x2c"
definition TIMER_INTR :: nat where "TIMER_INTR = TIMER_BASE + 0x34"
definition TIMER_INTE :: nat where "TIMER_INTE = TIMER_BASE + 0x38"
definition TIMER_ALARM0_BIT :: u32 where "TIMER_ALARM0_BIT = push_bit 0 1"
definition NVIC_ISER_BASE :: nat where "NVIC_ISER_BASE = 0xe000e100"
definition NVIC_ICPR_BASE :: nat where "NVIC_ICPR_BASE = 0xe000e280"
definition NVIC_TIMER_IRQ0 :: u8 where "NVIC_TIMER_IRQ0 = 0"
definition BAKER_TIMER_TICKS_PER_MS :: u64 where "BAKER_TIMER_TICKS_PER_MS = 1000"
definition STAGE_RUNTIME_READY :: u32 where "STAGE_RUNTIME_READY = 0x4849000a"

definition nvic_register :: "nat \<Rightarrow> u8 \<Rightarrow> nat" where
  "nvic_register base irq = base + (unat irq div 32) * 4"

definition nvic_bit :: "u8 \<Rightarrow> u32" where
  "nvic_bit irq = push_bit (unat (ucast irq AND (31 :: u32))) 1"

definition nvic_clear_pending :: "'h bus \<Rightarrow> u8 \<Rightarrow> 'h baker \<Rightarrow> 'h baker" where
  "nvic_clear_pending bus irq = bwrite bus (nvic_register NVIC_ICPR_BASE irq) (nvic_bit irq)"

definition nvic_enable_irq :: "'h bus \<Rightarrow> u8 \<Rightarrow> 'h baker \<Rightarrow> 'h baker" where
  "nvic_enable_irq bus irq = bwrite bus (nvic_register NVIC_ISER_BASE irq) (nvic_bit irq)"

section \<open>The metrics\<close>

definition choreofs_measurement_start :: "'h bus \<Rightarrow> 'h baker \<Rightarrow> u32 \<times> 'h baker" where
  "choreofs_measurement_start bus = bread bus TIMER_TIMERAWL"

definition set_appkit_wasi_metrics_enabled :: "bool \<Rightarrow> 'h baker \<Rightarrow> 'h baker" where
  "set_appkit_wasi_metrics_enabled enabled = write_marker WASI_METRIC_ENABLED (if enabled then 1 else 0)"

definition reset_appkit_wasi_metric :: "metric_group \<Rightarrow> 'h baker \<Rightarrow> 'h baker" where
  "reset_appkit_wasi_metric g s = s\<lparr>bmetrics := (bmetrics s)(g := wasi_metric_zero)\<rparr>"

definition reset_appkit_wasi_metrics :: "'h baker \<Rightarrow> 'h baker" where
  "reset_appkit_wasi_metrics s =
     set_appkit_wasi_metrics_enabled True
       (fold reset_appkit_wasi_metric [WASI_RESUME, WASI_REQUEST_SEND, WASI_COMPLETION_RECV, WASI_COMPLETE]
         (set_appkit_wasi_metrics_enabled False s))"

definition reset_choreofs_markers :: "'h baker \<Rightarrow> 'h baker" where
  "reset_choreofs_markers s =
     (let s = fold (\<lambda>m. write_marker m 0) [ENGINE_STATUS, ENGINE_ERROR_CODE, DRIVER_TRACE, SIO_TRACE_CORE0_COUNT,
                SIO_TRACE_CORE1_COUNT, SIO_CORE0_TO_CORE1_TX_COUNT, SIO_CORE0_TO_CORE1_RX_COUNT,
                SIO_CORE1_TO_CORE0_TX_COUNT, SIO_CORE1_TO_CORE0_RX_COUNT, SIO_ROLE1_PENDING_SEEN_CORE0_TX,
                SIO_ROLE1_POLL_SEEN_CORE0_TX, SIO_ROLE1_READY_SEEN_CORE0_TX] s;
          s = fold reset_appkit_wasi_metric [SIO_RX_WAIT, SIO_RX_WAIT_ROLE0, SIO_RX_WAIT_ROLE1, SIO_TX_WAIT,
                SIO_TX_WAIT_ROLE0, SIO_TX_WAIT_ROLE1, SIO_TX_POLL, SIO_TX_POLL_ROLE0, SIO_TX_POLL_ROLE1] s;
          s = s\<lparr>btrace0 := replicate 16 0, btrace1 := replicate 16 0\<rparr>;
          s = fold (\<lambda>m. write_marker m 0) [PATH_OPEN_COUNT, FD_WRITE_COUNT, POLL_COUNT, LAST_POLL_TICKS_LO,
                LAST_POLL_TICKS_HI, LAST_OBJECT, LED_MASK, SEEN_LED_MASK] s;
          s = fold reset_appkit_wasi_metric [ENGINE_GAP, DRIVER_IMPORT, POLL_DELAY, REQUEST_RECV, REPLY_SEND,
                REPLY_SEND_FD_WRITE_OBJECT, REPLY_SEND_POLL_ONEOFF] s;
          s = fold (\<lambda>m. write_marker m 0) [MEASUREMENTS_FROZEN, IMPORT_START_US, IMPORT_EXIT_US, IMPORT_EXIT_ARMED] s in
      reset_appkit_wasi_metrics s)"

definition record_choreofs_engine_status :: "u32 \<Rightarrow> 'h baker \<Rightarrow> 'h baker" where
  "record_choreofs_engine_status = write_marker ENGINE_STATUS"

definition record_choreofs_engine_error_code :: "u32 \<Rightarrow> 'h baker \<Rightarrow> 'h baker" where
  "record_choreofs_engine_error_code = write_marker ENGINE_ERROR_CODE"

definition record_choreofs_driver_trace :: "u32 \<Rightarrow> 'h baker \<Rightarrow> 'h baker" where
  "record_choreofs_driver_trace = write_marker DRIVER_TRACE"

text \<open>The waits and polls of the transport, by role.\<close>

definition record_choreofs_sio_rx_wait :: "u8 \<Rightarrow> u32 \<Rightarrow> 'h baker \<Rightarrow> 'h baker outcome" where
  "record_choreofs_sio_rx_wait local_role us s =
     (let s = record_marker_duration SIO_RX_WAIT us s in
      if local_role = 0 then Done (record_marker_duration SIO_RX_WAIT_ROLE0 us s)
      else if local_role = 1 then Done (record_marker_duration SIO_RX_WAIT_ROLE1 us s)
      else if local_role = 2 then Done s else Panic)"

definition record_choreofs_sio_tx_wait :: "u8 \<Rightarrow> u32 \<Rightarrow> 'h baker \<Rightarrow> 'h baker outcome" where
  "record_choreofs_sio_tx_wait local_role us s =
     (let s = record_marker_duration SIO_TX_WAIT us s in
      if local_role = 0 then Done (record_marker_duration SIO_TX_WAIT_ROLE0 us s)
      else if local_role = 1 then Done (record_marker_duration SIO_TX_WAIT_ROLE1 us s)
      else if local_role = 2 then Done s else Panic)"

definition count_and_total :: "metric_group \<Rightarrow> u32 \<Rightarrow> 'h baker \<Rightarrow> 'h baker" where
  "count_and_total g us s =
     (let m = bmetrics s g;
          m = m\<lparr>wm_count := saturating_add_u32 (wm_count m) 1\<rparr>;
          m = m\<lparr>wm_total := saturating_add_u32 (wm_total m) us\<rparr> in
      s\<lparr>bmetrics := (bmetrics s)(g := m)\<rparr>)"

definition record_choreofs_sio_tx_poll :: "u8 \<Rightarrow> u32 \<Rightarrow> 'h baker \<Rightarrow> 'h baker outcome" where
  "record_choreofs_sio_tx_poll local_role us s =
     (if choreofs_measurements_frozen s then Done s
      else let s = count_and_total SIO_TX_POLL us s;
               m = bmetrics s SIO_TX_POLL;
               s = (if us > wm_max m then s\<lparr>bmetrics := (bmetrics s)(SIO_TX_POLL := m\<lparr>wm_max := us\<rparr>)\<rparr> else s) in
      if local_role = 0 then Done (count_and_total SIO_TX_POLL_ROLE0 us s)
      else if local_role = 1 then Done (count_and_total SIO_TX_POLL_ROLE1 us s)
      else if local_role = 2 then Done s else Panic)"

definition record_choreofs_path_open :: "u32 \<Rightarrow> 'h baker \<Rightarrow> 'h baker" where
  "record_choreofs_path_open object s = write_marker LAST_OBJECT object (increment_marker PATH_OPEN_COUNT s)"

definition record_choreofs_fd_write :: "u32 \<Rightarrow> 'h baker \<Rightarrow> 'h baker" where
  "record_choreofs_fd_write object s = write_marker LAST_OBJECT object (increment_marker FD_WRITE_COUNT s)"

definition record_choreofs_poll :: "'h baker \<Rightarrow> 'h baker" where
  "record_choreofs_poll = increment_marker POLL_COUNT"

definition record_choreofs_poll_timeout :: "u64 \<Rightarrow> 'h baker \<Rightarrow> 'h baker" where
  "record_choreofs_poll_timeout timeout_ticks s =
     write_marker LAST_POLL_TICKS_HI (ucast (drop_bit 32 timeout_ticks))
       (write_marker LAST_POLL_TICKS_LO (ucast timeout_ticks) s)"

definition record_choreofs_driver_import_enter :: "'h bus \<Rightarrow> 'h baker \<Rightarrow> 'h baker" where
  "record_choreofs_driver_import_enter bus s =
     (if choreofs_measurements_frozen s then s
      else let (now, s) = bread bus TIMER_TIMERAWL s;
               s = (if bmarks s IMPORT_EXIT_ARMED \<noteq> 0
                    then record_marker_duration ENGINE_GAP (now - bmarks s IMPORT_EXIT_US) s else s) in
           write_marker IMPORT_START_US now s)"

definition record_choreofs_driver_import_exit :: "'h bus \<Rightarrow> 'h baker \<Rightarrow> 'h baker" where
  "record_choreofs_driver_import_exit bus s =
     (if choreofs_measurements_frozen s then s
      else let (now, s) = bread bus TIMER_TIMERAWL s;
               s = record_marker_duration DRIVER_IMPORT (now - bmarks s IMPORT_START_US) s;
               s = write_marker IMPORT_EXIT_US now s in
           write_marker IMPORT_EXIT_ARMED 1 s)"

definition record_choreofs_poll_delay :: "u32 \<Rightarrow> 'h baker \<Rightarrow> 'h baker" where
  "record_choreofs_poll_delay us s =
     (if choreofs_measurements_frozen s then s else record_marker_duration POLL_DELAY us s)"

definition record_choreofs_request_recv_elapsed :: "'h bus \<Rightarrow> u32 \<Rightarrow> 'h baker \<Rightarrow> 'h baker" where
  "record_choreofs_request_recv_elapsed bus start_us s =
     (if choreofs_measurements_frozen s then s
      else let (now, s) = choreofs_measurement_start bus s in record_marker_duration REQUEST_RECV (now - start_us) s)"

text \<open>The labels of the WASI imports are constants of the guest runtime; here an import stands for its
  label; where its number is used, it is a parameter.\<close>

datatype traffic_import = Fd_Prestat_Get | Fd_Prestat_Dir_Name | Fd_Fdstat_Get | Path_Open_Import | Fd_Write_Object
  | Poll_Oneoff | Fd_Close

definition record_choreofs_reply_send_hot_label :: "traffic_import \<Rightarrow> u32 \<Rightarrow> 'h baker \<Rightarrow> 'h baker" where
  "record_choreofs_reply_send_hot_label label elapsed s =
     (case label of
        Fd_Write_Object \<Rightarrow> count_and_total REPLY_SEND_FD_WRITE_OBJECT elapsed s
      | Poll_Oneoff \<Rightarrow> count_and_total REPLY_SEND_POLL_ONEOFF elapsed s
      | _ \<Rightarrow> s)"

definition record_choreofs_reply_send_elapsed :: "'h bus \<Rightarrow> u32 \<Rightarrow> traffic_import \<Rightarrow> 'h baker \<Rightarrow> 'h baker" where
  "record_choreofs_reply_send_elapsed bus start_us label s =
     (if choreofs_measurements_frozen s then s
      else let (now, s) = choreofs_measurement_start bus s;
               s = record_choreofs_reply_send_hot_label label (now - start_us) s in
           record_marker_duration REPLY_SEND (now - start_us) s)"

definition freeze_choreofs_measurements :: "'h baker \<Rightarrow> 'h baker" where
  "freeze_choreofs_measurements s = set_appkit_wasi_metrics_enabled False (write_marker MEASUREMENTS_FROZEN 1 s)"

definition record_choreofs_led_mask :: "u32 \<Rightarrow> bool \<Rightarrow> 'h baker \<Rightarrow> 'h baker" where
  "record_choreofs_led_mask led_mask high s =
     (let current = bmarks s LED_MASK;
          s = write_marker LED_MASK (if high then current OR led_mask else current AND NOT led_mask) s in
      if high then write_marker SEEN_LED_MASK (bmarks s SEEN_LED_MASK OR led_mask) s else s)"

text \<open>On core 0; the high-water mark of the stack is left out.\<close>

definition mark_runtime_ready :: "'h baker \<Rightarrow> 'h baker" where
  "mark_runtime_ready = write_marker DEMO_CORE0_STAGE STAGE_RUNTIME_READY"

definition mark_success :: "u32 \<Rightarrow> 'h baker \<Rightarrow> 'h baker" where
  "mark_success result s = write_marker DEMO_RESULT result (write_marker DEMO_CORE0_STAGE STAGE_RUNTIME_READY s)"

definition assert_choreofs_markers :: "u32 \<Rightarrow> u32 \<Rightarrow> u32 \<Rightarrow> u32 \<Rightarrow> u32 \<Rightarrow> 'h baker \<Rightarrow> 'h baker outcome" where
  "assert_choreofs_markers path_opens writes polls final_led_mask seen_led_mask s =
     (if bmarks s PATH_OPEN_COUNT = path_opens \<and> bmarks s FD_WRITE_COUNT = writes \<and> bmarks s POLL_COUNT = polls
        \<and> bmarks s LED_MASK = final_led_mask \<and> bmarks s SEEN_LED_MASK = seen_led_mask
      then Done s else Panic)"

section \<open>Pins and the alarm\<close>

definition gpio_ctrl :: "u8 \<Rightarrow> nat" where "gpio_ctrl pin = IO_BANK0_BASE + 0x04 + unat pin * 8"
definition gpio_pad :: "u8 \<Rightarrow> nat" where "gpio_pad pin = PADS_BANK0_BASE + 0x04 + unat pin * 4"

definition baker_gpio_bank_init :: "'h bus \<Rightarrow> 'h baker \<Rightarrow> 'h baker" where
  "baker_gpio_bank_init bus s =
     snd (bread bus RESETS_RESET_DONE (bwrite bus RESETS_RESET_CLR (RESETS_IO_BANK0 OR RESETS_PADS_BANK0) s))"

definition baker_gpio_init_output :: "'h bus \<Rightarrow> u8 \<Rightarrow> 'h baker \<Rightarrow> 'h baker" where
  "baker_gpio_init_output bus pin s =
     (let s = baker_gpio_bank_init bus s;
          s = bwrite bus (gpio_pad pin) GPIO_PAD_DEFAULT s;
          s = bwrite bus (gpio_ctrl pin) GPIO_FUNC_SIO s;
          s = bwrite bus GPIO_OE_SET (push_bit (unat pin) 1) s in
      bwrite bus GPIO_OUT_CLR (push_bit (unat pin) 1) s)"

definition baker_gpio_write :: "'h bus \<Rightarrow> u8 \<Rightarrow> bool \<Rightarrow> 'h baker \<Rightarrow> 'h baker" where
  "baker_gpio_write bus pin high =
     (let b = push_bit (unat pin) 1 in if high then bwrite bus GPIO_OUT_SET b else bwrite bus GPIO_OUT_CLR b)"

definition BAKER_SAFE_STATE_LED_PINS :: "u8 list" where "BAKER_SAFE_STATE_LED_PINS = [22, 21, 20]"

definition init_baker_safe_state_outputs :: "'h bus \<Rightarrow> 'h baker \<Rightarrow> 'h baker" where
  "init_baker_safe_state_outputs bus = fold (baker_gpio_init_output bus) BAKER_SAFE_STATE_LED_PINS"

definition write_baker_safe_state_leds :: "'h bus \<Rightarrow> 'h baker \<Rightarrow> 'h baker" where
  "write_baker_safe_state_leds bus = fold (\<lambda>pin. baker_gpio_write bus pin False) BAKER_SAFE_STATE_LED_PINS"

definition mark_safe_state :: "'h bus \<Rightarrow> 'h baker \<Rightarrow> 'h baker" where
  "mark_safe_state bus s = write_baker_safe_state_leds bus (init_baker_safe_state_outputs bus s)"

text \<open>\<open>timeout_ms\<close> in timer ticks, stuck at the largest 32-bit value.\<close>

definition delay_ticks :: "u64 \<Rightarrow> u32" where
  "delay_ticks timeout_ms = of_nat (min (min (unat timeout_ms * unat BAKER_TIMER_TICKS_PER_MS) (2 ^ 64 - 1)) (2 ^ 32 - 1))"

definition baker_timer_route_arm :: "'h bus \<Rightarrow> u64 \<Rightarrow> 'h baker \<Rightarrow> 'h baker" where
  "baker_timer_route_arm bus timeout_ms s =
     (let (now, s) = bread bus TIMER_TIMERAWL s;
          alarm = now + max (delay_ticks timeout_ms) 1;
          s = bwrite bus TIMER_DBGPAUSE 0 s;
          s = write_marker TIMER_ALARM0_READY 0 s;
          s = bwrite bus TIMER_INTR TIMER_ALARM0_BIT s;
          s = nvic_clear_pending bus NVIC_TIMER_IRQ0 s;
          (inte, s) = bread bus TIMER_INTE s;
          s = bwrite bus TIMER_INTE (inte OR TIMER_ALARM0_BIT) s;
          s = nvic_enable_irq bus NVIC_TIMER_IRQ0 s in
      bwrite bus TIMER_ALARM0 alarm s)"

definition baker_timer_route_ready :: "'h baker \<Rightarrow> bool" where
  "baker_timer_route_ready s \<longleftrightarrow> bmarks s TIMER_ALARM0_READY \<noteq> 0"

definition baker_timer_route_finish :: "'h bus \<Rightarrow> 'h baker \<Rightarrow> 'h baker" where
  "baker_timer_route_finish bus s =
     (let (inte, s) = bread bus TIMER_INTE s;
          s = bwrite bus TIMER_INTE (inte AND NOT TIMER_ALARM0_BIT) s in
      bwrite bus TIMER_INTR TIMER_ALARM0_BIT s)"

definition timer_alarm0_irq_handler :: "'h bus \<Rightarrow> 'h baker \<Rightarrow> 'h baker" where
  "timer_alarm0_irq_handler bus s = write_marker TIMER_ALARM0_READY 1 (bwrite bus TIMER_INTR TIMER_ALARM0_BIT s)"

definition baker_poll_delay :: "'h bus \<Rightarrow> u64 \<Rightarrow> 'h baker \<Rightarrow> 'h baker" where
  "baker_poll_delay bus timeout_ms s =
     (let (start, s) = bread bus TIMER_TIMERAWL s;
          s = baker_timer_route_arm bus timeout_ms s;
          s = timer_alarm0_irq_handler bus s;
          s = baker_timer_route_finish bus s;
          (now, s) = bread bus TIMER_TIMERAWL s in
      record_choreofs_poll_delay (now - start) s)"

text \<open>The alarm as the resolver of a route: a first question arms it, later ones ask for the interrupt.\<close>

definition baker_timer_route_resolver_ready :: "'h bus \<Rightarrow> u64 \<Rightarrow> 'h baker \<Rightarrow> bool \<times> 'h baker" where
  "baker_timer_route_resolver_ready bus timeout_ms s =
     (if bmarks s TIMER_ROUTE_ARMED = 0
      then (False, baker_timer_route_arm bus timeout_ms (write_marker TIMER_ROUTE_ARMED 1 s))
      else if \<not> baker_timer_route_ready s then (False, s)
      else (True, write_marker TIMER_ROUTE_ARMED 0 (baker_timer_route_finish bus s)))"

section \<open>Waiting for the alarm\<close>

text \<open>
  The loop of \<open>baker_poll_delay\<close> at the grain of its instructions, with the interrupt anywhere in
  between: the loop reads the flag, then executes \<open>wfi\<close>, which sleeps until an interrupt arrives
  and is not ended by one that was taken before. The alarm is set once, so its interrupt comes once.
\<close>

datatype wait_pc = Wait_Check | Wait_Wfi | Wait_Asleep | Wait_Over

record 'h alarm_wait =
  aw_pc :: wait_pc
  aw_fired :: bool
  aw_board :: "'h baker"

inductive wait_step :: "'h bus \<Rightarrow> 'h alarm_wait \<Rightarrow> 'h alarm_wait \<Rightarrow> bool" for bus where
  wait_check: "aw_pc s = Wait_Check \<Longrightarrow>
     wait_step bus s (s\<lparr>aw_pc := if baker_timer_route_ready (aw_board s) then Wait_Over else Wait_Wfi\<rparr>)"
| wait_wfi: "aw_pc s = Wait_Wfi \<Longrightarrow> wait_step bus s (s\<lparr>aw_pc := Wait_Asleep\<rparr>)"
| alarm_fires: "\<not> aw_fired s \<Longrightarrow> aw_pc s \<noteq> Wait_Over \<Longrightarrow>
     wait_step bus s (s\<lparr>aw_pc := if aw_pc s = Wait_Asleep then Wait_Check else aw_pc s,
                       aw_fired := True, aw_board := timer_alarm0_irq_handler bus (aw_board s)\<rparr>)"

inductive wait_reach :: "'h bus \<Rightarrow> 'h alarm_wait \<Rightarrow> 'h alarm_wait \<Rightarrow> bool" for bus s where
  wait_here: "wait_reach bus s s"
| wait_next: "wait_reach bus s t \<Longrightarrow> wait_step bus t u \<Longrightarrow> wait_reach bus s u"

inductive_cases wait_step_elim: "wait_step bus s t"

definition wait_start :: "'h baker \<Rightarrow> 'h alarm_wait" where
  "wait_start s = \<lparr>aw_pc = Wait_Check, aw_fired = False, aw_board = s\<rparr>"

text \<open>The flag is set by the interrupt alone; the sleep of a wait that has gone wrong is entered with the
  flag set.\<close>

lemma handler_ready [simp]: "baker_timer_route_ready (timer_alarm0_irq_handler bus s)"
  by (simp add: baker_timer_route_ready_def timer_alarm0_irq_handler_def write_marker_def)

definition wait_inv :: "'h alarm_wait \<Rightarrow> bool" where
  "wait_inv s \<longleftrightarrow> (baker_timer_route_ready (aw_board s) \<longleftrightarrow> aw_fired s) \<and> (aw_pc s = Wait_Over \<longrightarrow> aw_fired s)"

lemma wait_step_inv: "wait_step bus s t \<Longrightarrow> wait_inv s \<Longrightarrow> wait_inv t"
  by (erule wait_step_elim) (auto simp: wait_inv_def)

lemma wait_reach_inv: "wait_reach bus s t \<Longrightarrow> wait_inv s \<Longrightarrow> wait_inv t"
  by (induction rule: wait_reach.induct) (auto intro: wait_step_inv)

lemma wait_stuck:
  "(\<nexists>t. wait_step bus s t) \<longleftrightarrow> aw_pc s = Wait_Over \<or> aw_pc s = Wait_Asleep \<and> aw_fired s"
proof (cases "aw_pc s")
  case Wait_Check
  then show ?thesis using wait_check [of s bus] by auto
next
  case Wait_Wfi
  then show ?thesis using wait_wfi [of s bus] by auto
next
  case Wait_Asleep
  show ?thesis
  proof (cases "aw_fired s")
    case True
    with Wait_Asleep show ?thesis by (auto elim!: wait_step_elim)
  next
    case False
    with Wait_Asleep show ?thesis using alarm_fires [of s bus] by auto
  qed
next
  case Wait_Over
  then show ?thesis by (auto elim!: wait_step_elim)
qed

text \<open>C24: The wait for the alarm never ends before the interrupt, and it is stuck only when it is over or
  asleep after the only interrupt it can get; that second end is reached when the interrupt comes between
  the look at the flag and the \<open>wfi\<close>, because the event its handler sends does not end a \<open>wfi\<close>.\<close>

theorem alarm_wait_outcomes:
  assumes "\<not> baker_timer_route_ready b"
  shows "(\<forall>s. wait_reach bus (wait_start b) s \<longrightarrow>
      (aw_pc s = Wait_Over \<longrightarrow> aw_fired s) \<and> (aw_pc s = Wait_Over \<or> aw_pc s = Wait_Asleep \<and> aw_fired s \<or> (\<exists>t. wait_step bus s t)))
    \<and> (\<exists>s. wait_reach bus (wait_start b) s \<and> aw_pc s = Wait_Over)
    \<and> (\<exists>s. wait_reach bus (wait_start b) s \<and> aw_pc s = Wait_Asleep \<and> aw_fired s \<and> (\<nexists>t. wait_step bus s t))"
proof -
  let ?h = "timer_alarm0_irq_handler bus b"
  let ?s = "\<lambda>pc f b. \<lparr>aw_pc = pc, aw_fired = f, aw_board = b\<rparr>"
  have look: "wait_step bus (?s Wait_Check f b) (?s (if baker_timer_route_ready b then Wait_Over else Wait_Wfi) f b)" for f b
    using wait_check [of "?s Wait_Check f b" bus] by simp
  have wfi: "wait_step bus (?s Wait_Wfi f b) (?s Wait_Asleep f b)" for f b
    using wait_wfi [of "?s Wait_Wfi f b" bus] by simp
  have fires: "wait_step bus (?s pc False b) (?s (if pc = Wait_Asleep then Wait_Check else pc) True ?h)" if "pc \<noteq> Wait_Over" for pc
    using alarm_fires [of "?s pc False b" bus] that by (cases pc) simp_all
  have wfi_at: "wait_reach bus (wait_start b) (?s Wait_Wfi False b)"
    using wait_next [OF wait_here, of bus "wait_start b"] look [of False b] assms by (simp add: wait_start_def)
  have over: "wait_reach bus (wait_start b) (?s Wait_Over True ?h)"
  proof -
    have "wait_reach bus (wait_start b) (?s Wait_Check True ?h)"
      using wait_next [OF wait_next [OF wfi_at wfi] fires [of Wait_Asleep]] by simp
    from wait_next [OF this look] show ?thesis by simp
  qed
  have lost: "wait_reach bus (wait_start b) (?s Wait_Asleep True ?h)"
    using wait_next [OF wait_next [OF wfi_at fires [of Wait_Wfi]]] wfi [of True ?h] by simp
  have "wait_inv (wait_start b)" using assms by (simp add: wait_inv_def wait_start_def)
  then have inv: "wait_inv s" if "wait_reach bus (wait_start b) s" for s using wait_reach_inv that by blast
  have stuck: "\<nexists>t. wait_step bus (?s Wait_Asleep True ?h) t" using wait_stuck [of bus "?s Wait_Asleep True ?h"] by simp
  show ?thesis
  proof (intro conjI allI impI)
    show "aw_fired s" if "wait_reach bus (wait_start b) s" "aw_pc s = Wait_Over" for s
      using inv [OF that(1)] that(2) by (simp add: wait_inv_def)
    show "aw_pc s = Wait_Over \<or> aw_pc s = Wait_Asleep \<and> aw_fired s \<or> (\<exists>t. wait_step bus s t)" for s
      using wait_stuck [of bus s] by blast
    show "\<exists>s. wait_reach bus (wait_start b) s \<and> aw_pc s = Wait_Over" using over by force
    show "\<exists>s. wait_reach bus (wait_start b) s \<and> aw_pc s = Wait_Asleep \<and> aw_fired s \<and> (\<nexists>t. wait_step bus s t)"
      using lost stuck by force
  qed
qed

theorem alarm_wait_outcomes_witness:
  "\<exists>s. wait_reach \<lparr>bus_read = (\<lambda>_ h. (0, h)), bus_write = (\<lambda>_ _ h. h)\<rparr>
      (wait_start \<lparr>bhw = (), bmarks = (\<lambda>_. 0), bmetrics = (\<lambda>_. wasi_metric_zero), btrace0 = [], btrace1 = []\<rparr>) s
    \<and> aw_pc s = Wait_Asleep \<and> aw_fired s"
proof -
  let ?b = "\<lparr>bhw = (), bmarks = (\<lambda>_. 0), bmetrics = (\<lambda>_. wasi_metric_zero), btrace0 = [], btrace1 = []\<rparr>"
  have "\<not> baker_timer_route_ready ?b" by (simp add: baker_timer_route_ready_def)
  from alarm_wait_outcomes [OF this, of "\<lparr>bus_read = (\<lambda>_ h. (0, h)), bus_write = (\<lambda>_ _ h. h)\<rparr>"]
  show ?thesis by blast
qed

end
