(* ===== verification/Baker_Traffic.thy ===== *)
theory Baker_Traffic
  imports Baker_Board
begin

text \<open>
  The traffic light: the driver of \<open>examples/baker-firmware/src/bin/choreofs_traffic_loop.rs\<close> and
  the WASI guest \<open>wasip1-led-choreofs-traffic-cycle.rs\<close> it serves. The endpoint, the ledger of
  the \<open>choreofs\<close> module, the encoders of the runtime's messages and the numbers of its labels are
  parameters; a driver that awaits a request is a list of the handlers it still has to run.
\<close>

section \<open>The light\<close>

definition GREEN_LED_PIN :: u8 where "GREEN_LED_PIN = 22"
definition YELLOW_LED_PIN :: u8 where "YELLOW_LED_PIN = 21"
definition RED_LED_PIN :: u8 where "RED_LED_PIN = 20"
definition GREEN_LED_MASK :: u32 where "GREEN_LED_MASK = push_bit 0 1"
definition YELLOW_LED_MASK :: u32 where "YELLOW_LED_MASK = push_bit 1 1"
definition RED_LED_MASK :: u32 where "RED_LED_MASK = push_bit 2 1"
definition ROOT_PREOPEN_FD :: u8 where "ROOT_PREOPEN_FD = 3"
definition TRAFFIC_STATE_FD :: u8 where "TRAFFIC_STATE_FD = 4"
definition ROOT_PREOPEN_NAME :: bytes where "ROOT_PREOPEN_NAME = ascii ''/''"
definition COLOR_STEP_MS :: u64 where "COLOR_STEP_MS = 40"
definition YELLOW_BLINK_STEP_MS :: u64 where "YELLOW_BLINK_STEP_MS = 20"
definition FD_WRITE_COUNT_PER_CYCLE :: u32 where "FD_WRITE_COUNT_PER_CYCLE = 7"
definition POLL_COUNT_PER_CYCLE :: u32 where "POLL_COUNT_PER_CYCLE = 7"
definition ERRNO_BADF :: u16 where "ERRNO_BADF = 8"
definition CHOREOFS_DRIVER_STARTED :: u32 where "CHOREOFS_DRIVER_STARTED = 0x57410010"
definition CHOREOFS_GPIO_READY :: u32 where "CHOREOFS_GPIO_READY = 0x57410020"
definition REPLY_SEND_SAMPLE_REPLIES :: u32 where
  "REPLY_SEND_SAMPLE_REPLIES = 5 + FD_WRITE_COUNT_PER_CYCLE + POLL_COUNT_PER_CYCLE"
definition REPLY_ENCODE_SCRATCH_BYTES :: nat where "REPLY_ENCODE_SCRATCH_BYTES = 128"
definition RESULT_SUCCESS :: u32 where "RESULT_SUCCESS = 0x48494f4b"
definition TRAFFIC_OBJECT :: u32 where "TRAFFIC_OBJECT = 1"

record led_object =
  led_pin :: u8
  led_mask_of :: u32

datatype traffic_state = Green | Yellow | Dark | Red

fun state_payload :: "traffic_state \<Rightarrow> bytes" where
  "state_payload Green = ascii ''G''"
| "state_payload Yellow = ascii ''Y''"
| "state_payload Dark = ascii ''0''"
| "state_payload Red = ascii ''R''"

fun state_led_mask :: "traffic_state \<Rightarrow> u32" where
  "state_led_mask Green = GREEN_LED_MASK"
| "state_led_mask Yellow = YELLOW_LED_MASK"
| "state_led_mask Dark = 0"
| "state_led_mask Red = RED_LED_MASK"

definition LED_OBJECTS :: "led_object list" where
  "LED_OBJECTS = [\<lparr>led_pin = GREEN_LED_PIN, led_mask_of = GREEN_LED_MASK\<rparr>,
     \<lparr>led_pin = YELLOW_LED_PIN, led_mask_of = YELLOW_LED_MASK\<rparr>, \<lparr>led_pin = RED_LED_PIN, led_mask_of = RED_LED_MASK\<rparr>]"

definition init_led_outputs :: "'h bus \<Rightarrow> 'h baker \<Rightarrow> 'h baker" where
  "init_led_outputs bus = fold (\<lambda>led. baker_gpio_init_output bus (led_pin led)) LED_OBJECTS"

definition write_traffic_state :: "'h bus \<Rightarrow> traffic_state \<Rightarrow> 'h baker \<Rightarrow> 'h baker" where
  "write_traffic_state bus st =
     fold (\<lambda>led s. let high = state_led_mask st AND led_mask_of led \<noteq> 0;
                       s = baker_gpio_write bus (led_pin led) high s in
                   record_choreofs_led_mask (led_mask_of led) high s) LED_OBJECTS"

section \<open>Requests, replies and what is outside\<close>

datatype mem_rights = RightsRead | RightsWrite

datatype traffic_request = Req_Prestat_Get u8 | Req_Prestat_Dir_Name u8 | Req_Fdstat_Get u8 | Req_Path_Open u8 u64 bytes
  | Req_Fd_Write u8 bytes | Req_Poll_Oneoff u64

datatype traffic_reply = Ret_Prestat u8 u8 u16 | Ret_Dir_Name u8 bytes u16 | Ret_Fdstat u8 mem_rights
  | Ret_Ledger_Fdstat u8 | Ret_Opened u8 | Ret_Written nat | Ret_Ready u32

datatype traffic_error = EndpointFault | Runtime_Violation

text \<open>The ledger answers an open with a descriptor and an object, a write with whether it may, on which
  object, and how much it takes.\<close>

record 'h traffic_env =
  te_bus :: "'h bus"
  te_label :: "traffic_import \<Rightarrow> u8"
  te_path_open :: "u8 \<Rightarrow> u64 \<Rightarrow> bytes \<Rightarrow> u8 option \<times> u32 option"
  te_fd_write :: "u8 \<Rightarrow> bytes \<Rightarrow> bool \<times> u32 option \<times> nat"
  te_dir_name_fits :: "bytes \<Rightarrow> bool"
  te_path_fits :: "bytes \<Rightarrow> bool"
  te_encoded_len :: "traffic_reply \<Rightarrow> nat option"
  te_pending_polls :: "nat \<Rightarrow> nat"
  te_send_ok :: "nat \<Rightarrow> bool"

record 'h traffic_local =
  tb :: "'h baker"
  t_replies :: "traffic_reply list"

section \<open>Measured replies\<close>

definition reply_send_future_sample_active :: "'h baker \<Rightarrow> bool" where
  "reply_send_future_sample_active s \<longleftrightarrow> bmarks s REPLY_SEND_FUTURE_READY_COUNT < REPLY_SEND_SAMPLE_REPLIES"

definition record_reply_send_future_ready :: "'h baker \<Rightarrow> 'h baker" where
  "record_reply_send_future_ready = increment_marker REPLY_SEND_FUTURE_READY_COUNT"

definition record_reply_payload_encode_elapsed :: "'h bus \<Rightarrow> u32 \<Rightarrow> 'h baker \<Rightarrow> 'h baker" where
  "record_reply_payload_encode_elapsed bus start_us s =
     (let (now, s) = choreofs_measurement_start bus s; elapsed = now - start_us;
          m = bmetrics s REPLY_ENCODE;
          m = m\<lparr>wm_count := saturating_add_u32 (wm_count m) 1\<rparr>;
          m = m\<lparr>wm_last := elapsed\<rparr>;
          m = m\<lparr>wm_total := saturating_add_u32 (wm_total m) elapsed\<rparr>;
          m = (if elapsed > wm_max m then m\<lparr>wm_max := elapsed\<rparr> else m) in
      s\<lparr>bmetrics := (bmetrics s)(REPLY_ENCODE := m)\<rparr>)"

definition record_reply_send_future_poll_elapsed :: "'h bus \<Rightarrow> u32 \<Rightarrow> 'h baker \<Rightarrow> 'h baker" where
  "record_reply_send_future_poll_elapsed bus start_us s =
     (let (now, s) = choreofs_measurement_start bus s; elapsed = now - start_us;
          m = bmetrics s REPLY_SEND_FUTURE_POLL;
          m = m\<lparr>wm_count := saturating_add_u32 (wm_count m) 1\<rparr>;
          m = m\<lparr>wm_last := elapsed\<rparr>;
          m = m\<lparr>wm_total := saturating_add_u32 (wm_total m) elapsed\<rparr>;
          m = (if elapsed > wm_max m then m\<lparr>wm_max := elapsed\<rparr> else m) in
      s\<lparr>bmetrics := (bmetrics s)(REPLY_SEND_FUTURE_POLL := m)\<rparr>)"

text \<open>One poll of a measured reply, whose future is ready or not.\<close>

definition measured_poll :: "'h bus \<Rightarrow> bool \<Rightarrow> 'h baker \<Rightarrow> 'h baker" where
  "measured_poll bus ready s =
     (let sample = reply_send_future_sample_active s;
          (poll_start, s) = (if sample then choreofs_measurement_start bus s else (0, s)) in
      if sample
      then let s = record_reply_send_future_poll_elapsed bus poll_start s in
           if ready then record_reply_send_future_ready s else s
      else s)"

definition measured_reply_send :: "'h bus \<Rightarrow> nat \<Rightarrow> 'h baker \<Rightarrow> 'h baker" where
  "measured_reply_send bus pending s = measured_poll bus True ((measured_poll bus False ^^ pending) s)"

definition measure_reply_payload_encode :: "'h traffic_env \<Rightarrow> traffic_reply \<Rightarrow> 'h baker \<Rightarrow> traffic_error + 'h baker" where
  "measure_reply_payload_encode env reply s =
     (if \<not> reply_send_future_sample_active s then Inr s
      else let (encode_start, s) = choreofs_measurement_start (te_bus env) s in
        case te_encoded_len env reply of
          None \<Rightarrow> Inl Runtime_Violation
        | Some n \<Rightarrow> if n \<le> REPLY_ENCODE_SCRATCH_BYTES
                    then Inr (record_reply_payload_encode_elapsed (te_bus env) encode_start s)
                    else Inl Runtime_Violation)"

section \<open>Handlers\<close>

definition enter_import :: "'h traffic_env \<Rightarrow> traffic_import \<Rightarrow> 'h baker \<Rightarrow> 'h baker" where
  "enter_import env label s =
     record_choreofs_driver_trace (0x57540000 OR ucast (te_label env label))
       (record_choreofs_driver_import_enter (te_bus env) s)"

definition exit_import :: "'h traffic_env \<Rightarrow> 'h baker \<Rightarrow> 'h baker" where
  "exit_import env = record_choreofs_driver_import_exit (te_bus env)"

text \<open>What every handler does around the receive of its request.\<close>

definition observe_request_recv :: "'h traffic_env \<Rightarrow> traffic_import \<Rightarrow> 'h traffic_local \<Rightarrow> 'h traffic_local" where
  "observe_request_recv env label t =
     (let (recv_start, s) = choreofs_measurement_start (te_bus env) (tb t);
          s = enter_import env label s in
      t\<lparr>tb := record_choreofs_request_recv_elapsed (te_bus env) recv_start s\<rparr>)"

text \<open>And around the reply; the endpoint may refuse it.\<close>

definition observe_reply_send :: "'h traffic_env \<Rightarrow> traffic_import \<Rightarrow> traffic_reply \<Rightarrow> 'h traffic_local \<Rightarrow> traffic_error + 'h traffic_local" where
  "observe_reply_send env label reply t =
     (case measure_reply_payload_encode env reply (tb t) of
        Inl e \<Rightarrow> Inl e
      | Inr s \<Rightarrow>
          (let (send_start, s) = choreofs_measurement_start (te_bus env) s;
               k = length (t_replies t);
               s = measured_reply_send (te_bus env) (te_pending_polls env k) s;
               s = record_choreofs_reply_send_elapsed (te_bus env) send_start label s in
           if \<not> te_send_ok env k then Inl EndpointFault
           else Inr (t\<lparr>tb := exit_import env s, t_replies := t_replies t @ [reply]\<rparr>)))"

definition handle_fd_prestat_get :: "'h traffic_env \<Rightarrow> traffic_request \<Rightarrow> 'h traffic_local \<Rightarrow> traffic_error + 'h traffic_local" where
  "handle_fd_prestat_get env req t =
     (let t = observe_request_recv env Fd_Prestat_Get t in
      case req of
        Req_Prestat_Get fd \<Rightarrow>
          observe_reply_send env Fd_Prestat_Get
            (if fd = ROOT_PREOPEN_FD then Ret_Prestat fd (of_nat (length ROOT_PREOPEN_NAME)) 0
             else Ret_Prestat fd 0 ERRNO_BADF) t
      | _ \<Rightarrow> Inl EndpointFault)"

definition handle_fd_prestat_dir_name :: "'h traffic_env \<Rightarrow> traffic_request \<Rightarrow> 'h traffic_local \<Rightarrow> traffic_error + 'h traffic_local" where
  "handle_fd_prestat_dir_name env req t =
     (let t = observe_request_recv env Fd_Prestat_Dir_Name t in
      case req of
        Req_Prestat_Dir_Name fd \<Rightarrow>
          (let (name, errno) = (if fd = ROOT_PREOPEN_FD then (ROOT_PREOPEN_NAME, 0) else ([], ERRNO_BADF)) in
           if \<not> te_dir_name_fits env name then Inl Runtime_Violation
           else observe_reply_send env Fd_Prestat_Dir_Name (Ret_Dir_Name fd name errno) t)
      | _ \<Rightarrow> Inl EndpointFault)"

text \<open>The trace marker of a refusal is written before the error ends the role; the state after an error is
  not looked at any more.\<close>

definition fd_stat_response :: "u8 \<Rightarrow> traffic_error + traffic_reply" where
  "fd_stat_response fd =
     (if fd = 0 \<or> fd = ROOT_PREOPEN_FD then Inr (Ret_Fdstat fd RightsRead)
      else if fd = 1 \<or> fd = 2 then Inr (Ret_Fdstat fd RightsWrite)
      else if fd = TRAFFIC_STATE_FD then Inr (Ret_Ledger_Fdstat fd)
      else Inl Runtime_Violation)"

definition handle_fd_fdstat_get :: "'h traffic_env \<Rightarrow> traffic_request \<Rightarrow> 'h traffic_local \<Rightarrow> traffic_error + 'h traffic_local" where
  "handle_fd_fdstat_get env req t =
     (let t = observe_request_recv env Fd_Fdstat_Get t in
      case req of
        Req_Fdstat_Get fd \<Rightarrow>
          (case fd_stat_response fd of
             Inl e \<Rightarrow> Inl e
           | Inr response \<Rightarrow> observe_reply_send env Fd_Fdstat_Get response t)
      | _ \<Rightarrow> Inl EndpointFault)"

definition normalize_path :: "bytes \<Rightarrow> bytes" where
  "normalize_path path = (case path of [] \<Rightarrow> [] | c # rest \<Rightarrow> if c = 47 then rest else path)"

definition handle_path_open :: "'h traffic_env \<Rightarrow> u8 \<Rightarrow> u32 \<Rightarrow> traffic_request \<Rightarrow> 'h traffic_local \<Rightarrow> traffic_error + 'h traffic_local" where
  "handle_path_open env expected_fd expected_object req t =
     (let t = observe_request_recv env Path_Open_Import t in
      case req of
        Req_Path_Open preopen_fd rights path \<Rightarrow>
          if preopen_fd \<noteq> ROOT_PREOPEN_FD then Inl Runtime_Violation
          else if \<not> te_path_fits env (normalize_path path) then Inl Runtime_Violation
          else let (fd, object) = te_path_open env preopen_fd rights (normalize_path path) in
            if fd \<noteq> Some expected_fd \<or> object \<noteq> Some expected_object then Inl Runtime_Violation
            else observe_reply_send env Path_Open_Import (Ret_Opened expected_fd)
                   (t\<lparr>tb := record_choreofs_path_open expected_object (tb t)\<rparr>)
      | _ \<Rightarrow> Inl EndpointFault)"

definition handle_fd_write :: "'h traffic_env \<Rightarrow> traffic_state \<Rightarrow> traffic_request \<Rightarrow> 'h traffic_local \<Rightarrow> traffic_error + 'h traffic_local" where
  "handle_fd_write env expected_state req t =
     (let t = observe_request_recv env Fd_Write_Object t in
      case req of
        Req_Fd_Write fd bs \<Rightarrow>
          if fd \<noteq> TRAFFIC_STATE_FD \<or> bs \<noteq> state_payload expected_state then Inl Runtime_Violation
          else let (writable, object, written) = te_fd_write env fd bs in
            if \<not> writable then Inl Runtime_Violation
            else (case object of
                    None \<Rightarrow> Inl Runtime_Violation
                  | Some obj \<Rightarrow>
                      if obj \<noteq> TRAFFIC_OBJECT then Inl Runtime_Violation
                      else observe_reply_send env Fd_Write_Object (Ret_Written written)
                             (t\<lparr>tb := record_choreofs_fd_write obj (write_traffic_state (te_bus env) expected_state (tb t))\<rparr>))
      | _ \<Rightarrow> Inl EndpointFault)"

definition handle_poll_oneoff :: "'h traffic_env \<Rightarrow> u64 \<Rightarrow> traffic_request \<Rightarrow> 'h traffic_local \<Rightarrow> traffic_error + 'h traffic_local" where
  "handle_poll_oneoff env expected_timeout_ms req t =
     (let t = observe_request_recv env Poll_Oneoff t in
      case req of
        Req_Poll_Oneoff timeout_tick \<Rightarrow>
          (let s = record_choreofs_poll_timeout timeout_tick (tb t) in
           if timeout_tick \<noteq> expected_timeout_ms then Inl Runtime_Violation
           else observe_reply_send env Poll_Oneoff (Ret_Ready 1)
                  (t\<lparr>tb := record_choreofs_poll (baker_poll_delay (te_bus env) timeout_tick s)\<rparr>))
      | _ \<Rightarrow> Inl EndpointFault)"

section \<open>The driver\<close>

datatype handler = H_Prestat_Get | H_Prestat_Dir_Name | H_Fdstat_Get | H_Path_Open | H_Write traffic_state | H_Poll u64

definition handle :: "'h traffic_env \<Rightarrow> handler \<Rightarrow> traffic_request \<Rightarrow> 'h traffic_local \<Rightarrow> traffic_error + 'h traffic_local" where
  "handle env h = (case h of
       H_Prestat_Get \<Rightarrow> handle_fd_prestat_get env
     | H_Prestat_Dir_Name \<Rightarrow> handle_fd_prestat_dir_name env
     | H_Fdstat_Get \<Rightarrow> handle_fd_fdstat_get env
     | H_Path_Open \<Rightarrow> handle_path_open env TRAFFIC_STATE_FD TRAFFIC_OBJECT
     | H_Write st \<Rightarrow> handle_fd_write env st
     | H_Poll ms \<Rightarrow> handle_poll_oneoff env ms)"

definition drive_wasi_startup :: "handler list" where
  "drive_wasi_startup = [H_Prestat_Get, H_Prestat_Dir_Name, H_Prestat_Get, H_Fdstat_Get, H_Path_Open]"

definition handle_next_state :: "traffic_state \<Rightarrow> u64 \<Rightarrow> handler list" where
  "handle_next_state st timeout_ms = [H_Write st, H_Poll timeout_ms]"

definition drive_traffic_cycle :: "handler list" where
  "drive_traffic_cycle =
     handle_next_state Green COLOR_STEP_MS @ handle_next_state Yellow COLOR_STEP_MS
     @ handle_next_state Dark YELLOW_BLINK_STEP_MS @ handle_next_state Yellow YELLOW_BLINK_STEP_MS
     @ handle_next_state Dark YELLOW_BLINK_STEP_MS @ handle_next_state Yellow YELLOW_BLINK_STEP_MS
     @ handle_next_state Red COLOR_STEP_MS"

record 'h traffic_driver =
  td :: "'h traffic_local"
  td_todo :: "handler list"
  td_started :: bool
  td_completed_cycles :: u32

definition driver_start :: "'h traffic_env \<Rightarrow> 'h baker \<Rightarrow> 'h traffic_driver" where
  "driver_start env s =
     (let s = reset_choreofs_markers s;
          s = record_choreofs_engine_status CHOREOFS_DRIVER_STARTED s;
          s = init_led_outputs (te_bus env) s;
          s = record_choreofs_engine_status CHOREOFS_GPIO_READY s in
      \<lparr>td = \<lparr>tb = s, t_replies = []\<rparr>, td_todo = drive_wasi_startup, td_started = False, td_completed_cycles = 0\<rparr>)"

text \<open>What the loop does between two cycles.\<close>

definition cycle_done :: "'h traffic_driver \<Rightarrow> 'h traffic_driver outcome" where
  "cycle_done d =
     (let completed = saturating_add_u32 (td_completed_cycles d) 1 in
      if completed = 1
      then bind_outcome (assert_choreofs_markers 1 FD_WRITE_COUNT_PER_CYCLE POLL_COUNT_PER_CYCLE RED_LED_MASK
             (GREEN_LED_MASK OR YELLOW_LED_MASK OR RED_LED_MASK) (tb (td d)))
           (\<lambda>s. let s = freeze_choreofs_measurements s;
                    s = mark_runtime_ready s;
                    s = mark_success RESULT_SUCCESS s in
             Done (d\<lparr>td := (td d)\<lparr>tb := s\<rparr>, td_completed_cycles := saturating_add_u32 completed 1\<rparr>))
      else Done (d\<lparr>td_completed_cycles := completed\<rparr>))"

text \<open>The driver from one awaited request to the next.\<close>

definition serve :: "'h traffic_env \<Rightarrow> traffic_request \<Rightarrow> 'h traffic_driver \<Rightarrow> (traffic_error + 'h traffic_driver) outcome" where
  "serve env req d =
     (case td_todo d of
        [] \<Rightarrow> Done (Inr d)
      | h # rest \<Rightarrow>
          (case handle env h req (td d) of
             Inl e \<Rightarrow> Done (Inl e)
           | Inr t \<Rightarrow>
               (let d = d\<lparr>td := t, td_todo := rest\<rparr> in
                if rest \<noteq> [] then Done (Inr d)
                else let d' = d\<lparr>td_todo := drive_traffic_cycle, td_started := True\<rparr> in
                     if td_started d then bind_outcome (cycle_done d') (\<lambda>d. Done (Inr d)) else Done (Inr d'))))"

section \<open>The guest\<close>

text \<open>\<open>set_state\<close> over a file and a clock: a write says how much it took, a sleep may fail too.\<close>

record 's guest_world =
  gw_write :: "bytes \<Rightarrow> 's \<Rightarrow> (nat \<times> 's) option"
  gw_sleep :: "u64 \<Rightarrow> 's \<Rightarrow> 's option"

definition set_state :: "'s guest_world \<Rightarrow> bytes \<Rightarrow> u64 \<Rightarrow> 's \<Rightarrow> 's option" where
  "set_state w state delay s =
     (case gw_write w state s of
        None \<Rightarrow> None
      | Some (written, s) \<Rightarrow> if written \<noteq> length state then None else gw_sleep w delay s)"

definition guest_cycle :: "(bytes \<times> u64) list" where
  "guest_cycle = [(ascii ''G'', 40), (ascii ''Y'', 40), (ascii ''0'', 20), (ascii ''Y'', 20), (ascii ''0'', 20),
     (ascii ''Y'', 20), (ascii ''R'', 40)]"

fun set_states :: "'s guest_world \<Rightarrow> (bytes \<times> u64) list \<Rightarrow> 's \<Rightarrow> 's option" where
  "set_states w [] s = Some s"
| "set_states w ((state, delay) # rest) s =
     (case set_state w state delay s of None \<Rightarrow> None | Some s \<Rightarrow> set_states w rest s)"

fun guest_cycles :: "'s guest_world \<Rightarrow> nat \<Rightarrow> 's \<Rightarrow> 's option" where
  "guest_cycles w 0 s = Some s"
| "guest_cycles w (Suc n) s = (case set_states w guest_cycle s of None \<Rightarrow> None | Some s \<Rightarrow> guest_cycles w n s)"

text \<open>The file and the sleep of the guest are the imports the driver serves.\<close>

definition served :: "'h traffic_env \<Rightarrow> traffic_request \<Rightarrow> 'h traffic_driver \<Rightarrow> 'h traffic_driver option" where
  "served env req d = (case serve env req d of Done (Inr d) \<Rightarrow> Some d | _ \<Rightarrow> None)"

definition driver_world :: "'h traffic_env \<Rightarrow> 'h traffic_driver guest_world" where
  "driver_world env =
     \<lparr>gw_write = (\<lambda>bs d. case served env (Req_Fd_Write TRAFFIC_STATE_FD bs) d of
          None \<Rightarrow> None
        | Some d \<Rightarrow> (case last (t_replies (td d)) of Ret_Written n \<Rightarrow> Some (n, d) | _ \<Rightarrow> None)),
      gw_sleep = (\<lambda>ms. served env (Req_Poll_Oneoff ms))\<rparr>"

fun serve_all :: "'h traffic_env \<Rightarrow> traffic_request list \<Rightarrow> 'h traffic_driver \<Rightarrow> 'h traffic_driver option" where
  "serve_all env [] d = Some d"
| "serve_all env (req # reqs) d = (case served env req d of None \<Rightarrow> None | Some d \<Rightarrow> serve_all env reqs d)"

section \<open>What measuring leaves alone\<close>

text \<open>The writes to the output registers, and the markers the loop checks.\<close>

definition led_log :: "('h \<times> (nat \<times> u32) list) baker \<Rightarrow> (nat \<times> u32) list" where
  "led_log s = filter (\<lambda>w. fst w = GPIO_OUT_SET \<or> fst w = GPIO_OUT_CLR) (snd (bhw s))"

definition control_markers :: "baker_marker set" where
  "control_markers = {PATH_OPEN_COUNT, FD_WRITE_COUNT, POLL_COUNT, LED_MASK, SEEN_LED_MASK, MEASUREMENTS_FROZEN, DEMO_RESULT}"

definition same_markers :: "('h \<times> (nat \<times> u32) list) baker \<Rightarrow> ('h \<times> (nat \<times> u32) list) baker \<Rightarrow> bool" where
  "same_markers s t \<longleftrightarrow> led_log s = led_log t \<and> (\<forall>m \<in> control_markers. bmarks s m = bmarks t m)"

lemma same_markers_refl [simp]: "same_markers s s" by (simp add: same_markers_def)

lemma same_markers_trans [trans]: "same_markers s t \<Longrightarrow> same_markers t u \<Longrightarrow> same_markers s u"
  by (simp add: same_markers_def)

lemma bread_fields [simp]:
  "bmarks (snd (bread bus a s)) = bmarks s" "bmetrics (snd (bread bus a s)) = bmetrics s"
  by (simp_all add: bread_def split_beta)

lemma bread_led_log [simp]: "led_log (snd (bread (wtap bus) a s)) = led_log s"
  by (simp add: bread_def led_log_def wtap_def split_beta)

lemma bwrite_fields [simp]:
  "bmarks (bwrite bus a v s) = bmarks s" "bmetrics (bwrite bus a v s) = bmetrics s"
  by (simp_all add: bwrite_def)

lemma bwrite_led_log [simp]:
  "led_log (bwrite (wtap bus) a v s) = led_log s @ (if a = GPIO_OUT_SET \<or> a = GPIO_OUT_CLR then [(a, v)] else [])"
  by (simp add: bwrite_def led_log_def wtap_def split_beta)

lemma write_marker_fields [simp]:
  "bmarks (write_marker m v s) = (bmarks s)(m := v)" "bmetrics (write_marker m v s) = bmetrics s"
  "bhw (write_marker m v s) = bhw s"
  by (simp_all add: write_marker_def)

lemma same_writes: "bhw s = bhw t \<Longrightarrow> led_log s = led_log t"
  by (simp add: led_log_def)

lemma write_marker_led_log [simp]: "led_log (write_marker m v s) = led_log s"
  by (rule same_writes) simp

lemma increment_marker_fields [simp]:
  "bmarks (increment_marker m s) = (bmarks s)(m := saturating_add_u32 (bmarks s m) 1)"
  "bmetrics (increment_marker m s) = bmetrics s" "bhw (increment_marker m s) = bhw s"
  by (simp_all add: increment_marker_def)

lemma increment_marker_led_log [simp]: "led_log (increment_marker m s) = led_log s"
  by (rule same_writes) simp

lemma bmetrics_update_fields [simp]:
  "led_log (bmetrics_update f s) = led_log s"
  by (simp add: led_log_def)

lemma record_marker_duration_fields [simp]:
  "bmarks (record_marker_duration g us s) = bmarks s" "bhw (record_marker_duration g us s) = bhw s"
  "bmetrics (record_marker_duration g us s) =
     (if choreofs_measurements_frozen s then bmetrics s else (bmetrics s)(g := add_sample us (bmetrics s g)))"
  by (simp_all add: record_marker_duration_def Let_def add_sample_def)

lemma record_marker_duration_led_log [simp]: "led_log (record_marker_duration g us s) = led_log s"
  by (rule same_writes) simp

lemma count_and_total_fields [simp]:
  "bmarks (count_and_total g us s) = bmarks s" "bhw (count_and_total g us s) = bhw s"
  "wm_count (bmetrics (count_and_total g us s) g') =
     (if g' = g then saturating_add_u32 (wm_count (bmetrics s g)) 1 else wm_count (bmetrics s g'))"
  by (simp_all add: count_and_total_def Let_def)

lemma count_and_total_led_log [simp]: "led_log (count_and_total g us s) = led_log s"
  by (rule same_writes) simp

lemma frozen_marks: "bmarks s MEASUREMENTS_FROZEN = bmarks t MEASUREMENTS_FROZEN \<Longrightarrow>
    choreofs_measurements_frozen s = choreofs_measurements_frozen t"
  by (simp add: choreofs_measurements_frozen_def)

lemma control_marker_neq [simp]:
  "m \<in> control_markers \<Longrightarrow> m \<noteq> DRIVER_TRACE" "m \<in> control_markers \<Longrightarrow> m \<noteq> IMPORT_START_US"
  "m \<in> control_markers \<Longrightarrow> m \<noteq> IMPORT_EXIT_US" "m \<in> control_markers \<Longrightarrow> m \<noteq> IMPORT_EXIT_ARMED"
  "m \<in> control_markers \<Longrightarrow> m \<noteq> REPLY_SEND_FUTURE_READY_COUNT" "m \<in> control_markers \<Longrightarrow> m \<noteq> LAST_OBJECT"
  "m \<in> control_markers \<Longrightarrow> m \<noteq> LAST_POLL_TICKS_LO" "m \<in> control_markers \<Longrightarrow> m \<noteq> LAST_POLL_TICKS_HI"
  "m \<in> control_markers \<Longrightarrow> m \<noteq> TIMER_ALARM0_READY" "m \<in> control_markers \<Longrightarrow> m \<noteq> WASI_METRIC_ENABLED"
  "m \<in> control_markers \<Longrightarrow> m \<noteq> DEMO_CORE0_STAGE" "m \<in> control_markers \<Longrightarrow> m \<noteq> ENGINE_STATUS"
  by (auto simp: control_markers_def)

lemma same_markers_import:
  "same_markers (record_choreofs_driver_import_enter (wtap bus) s) s"
  "same_markers (record_choreofs_driver_import_exit (wtap bus) s) s"
  by (auto simp: same_markers_def record_choreofs_driver_import_enter_def record_choreofs_driver_import_exit_def Let_def split_beta)

lemma same_markers_measurement:
  "same_markers (snd (choreofs_measurement_start (wtap bus) s)) s"
  "same_markers (record_choreofs_driver_trace v s) s"
  "same_markers (record_choreofs_request_recv_elapsed (wtap bus) start s) s"
  "same_markers (record_choreofs_reply_send_elapsed (wtap bus) start l s) s"
  "same_markers (record_reply_payload_encode_elapsed (wtap bus) start s) s"
  "same_markers (measured_poll (wtap bus) ready s) s"
  by (auto simp: same_markers_def choreofs_measurement_start_def record_choreofs_driver_trace_def
      record_choreofs_request_recv_elapsed_def record_choreofs_reply_send_elapsed_def
      record_choreofs_reply_send_hot_label_def record_reply_payload_encode_elapsed_def measured_poll_def
      record_reply_send_future_poll_elapsed_def record_reply_send_future_ready_def Let_def split_beta
      split: traffic_import.split)

lemma same_markers_send: "same_markers (measured_reply_send (wtap bus) n s) s"
proof -
  have "same_markers ((measured_poll (wtap bus) False ^^ n) s) s" for n
    by (induction n) (auto intro: same_markers_trans same_markers_measurement(6))
  then show ?thesis unfolding measured_reply_send_def
    by (rule same_markers_trans [OF same_markers_measurement(6)])
qed

lemma same_markers_enter: "te_bus env = wtap bus \<Longrightarrow> same_markers (enter_import env l s) s"
  unfolding enter_import_def by (simp add: same_markers_trans [OF same_markers_measurement(2) same_markers_import(1)])

lemma same_markers_recv:
  assumes "te_bus env = wtap bus"
  shows "same_markers (tb (observe_request_recv env l t)) (tb t)"
proof -
  let ?s = "snd (choreofs_measurement_start (wtap bus) (tb t))"
  have "same_markers (enter_import env l ?s) (tb t)"
    using same_markers_trans [OF same_markers_enter [OF assms] same_markers_measurement(1)] .
  then show ?thesis
    by (simp add: observe_request_recv_def Let_def split_beta assms same_markers_trans [OF same_markers_measurement(3)])
qed

lemma replies_recv [simp]: "t_replies (observe_request_recv env l t) = t_replies t"
  by (simp add: observe_request_recv_def Let_def split_beta)

section \<open>What is measured\<close>

definition samples :: "metric_group \<Rightarrow> 'h baker \<Rightarrow> nat" where
  "samples g s = unat (wm_count (bmetrics s g))"

text \<open>The first replies are sampled: \<open>r\<close> requests were received, \<open>e\<close> replies encoded, \<open>k\<close> were ready, \<open>n\<close>
  were sent and \<open>i\<close> imports left.\<close>

definition sampling :: "nat \<Rightarrow> nat \<Rightarrow> nat \<Rightarrow> nat \<Rightarrow> nat \<Rightarrow> 'h baker \<Rightarrow> bool" where
  "sampling r e k n i s \<longleftrightarrow> \<not> choreofs_measurements_frozen s \<and> samples REQUEST_RECV s = r \<and> samples REPLY_ENCODE s = e
     \<and> unat (bmarks s REPLY_SEND_FUTURE_READY_COUNT) = k \<and> samples REPLY_SEND s = n \<and> samples DRIVER_IMPORT s = i
     \<and> samples ENGINE_GAP s = r - 1 \<and> (bmarks s IMPORT_EXIT_ARMED \<noteq> 0 \<longleftrightarrow> 0 < i)"

text \<open>After the freeze nothing is recorded any more.\<close>

definition settled :: "(metric_group \<Rightarrow> wasi_metric) \<Rightarrow> 'h baker \<Rightarrow> bool" where
  "settled ms s \<longleftrightarrow> choreofs_measurements_frozen s \<and> 19 \<le> unat (bmarks s REPLY_SEND_FUTURE_READY_COUNT) \<and> bmetrics s = ms"

lemma samples_add: "unat c < 1000 \<Longrightarrow> unat (saturating_add_u32 c 1) = Suc (unat c)"
  by (simp add: unat_saturating_add)

lemma add_sample_count [simp]: "wm_count (add_sample e m) = saturating_add_u32 (wm_count m) 1"
  by (simp add: add_sample_def Let_def)

lemma sample_limit: "unat REPLY_SEND_SAMPLE_REPLIES = 19"
  by (simp add: REPLY_SEND_SAMPLE_REPLIES_def FD_WRITE_COUNT_PER_CYCLE_def POLL_COUNT_PER_CYCLE_def)

lemma sample_active_iff: "reply_send_future_sample_active s \<longleftrightarrow> unat (bmarks s REPLY_SEND_FUTURE_READY_COUNT) < 19"
  by (simp add: reply_send_future_sample_active_def word_less_nat_alt sample_limit)

lemma frozen_fields [simp]:
  "choreofs_measurements_frozen (snd (bread bus a s)) = choreofs_measurements_frozen s"
  "m \<noteq> MEASUREMENTS_FROZEN \<Longrightarrow> choreofs_measurements_frozen (write_marker m v s) = choreofs_measurements_frozen s"
  "choreofs_measurements_frozen (record_marker_duration g us s) = choreofs_measurements_frozen s"
  "choreofs_measurements_frozen (count_and_total g us s) = choreofs_measurements_frozen s"
  by (simp_all add: choreofs_measurements_frozen_def)

lemma sampling_recv:
  assumes "sampling k k k k k (tb t)" "k < 19"
  shows "sampling (Suc k) k k k k (tb (observe_request_recv env l t))"
  using assms samples_add
  by (cases "k = 0") (auto simp: sampling_def samples_def observe_request_recv_def enter_import_def
      record_choreofs_driver_import_enter_def record_choreofs_driver_trace_def choreofs_measurement_start_def
      record_choreofs_request_recv_elapsed_def Let_def split_beta)

lemma settled_recv:
  assumes "settled ms (tb t)"
  shows "settled ms (tb (observe_request_recv env l t))"
  using assms
  by (auto simp: settled_def observe_request_recv_def enter_import_def
      record_choreofs_driver_import_enter_def record_choreofs_driver_trace_def choreofs_measurement_start_def
      record_choreofs_request_recv_elapsed_def Let_def split_beta)

lemma sampling_poll:
  assumes "sampling r e k n i s" "k < 19"
  shows "sampling r e (if ready then Suc k else k) n i (measured_poll bus ready s)"
  using assms samples_add [of "bmarks s REPLY_SEND_FUTURE_READY_COUNT"]
  by (auto simp: sampling_def samples_def measured_poll_def sample_active_iff choreofs_measurement_start_def
      record_reply_send_future_poll_elapsed_def record_reply_send_future_ready_def Let_def split_beta
      choreofs_measurements_frozen_def)

lemma settled_poll: "settled ms s \<Longrightarrow> settled ms (measured_poll bus ready s)"
  by (simp add: settled_def measured_poll_def sample_active_iff)

lemma sampling_send:
  assumes "sampling r e k n i s" "k < 19"
  shows "sampling r e (Suc k) n i (measured_reply_send bus p s)"
proof -
  have "sampling r e k n i ((measured_poll bus False ^^ p) s)"
    by (induction p) (use assms sampling_poll [where ready = False] in \<open>auto split: if_splits\<close>)
  from sampling_poll [OF this assms(2), of True] show ?thesis by (simp add: measured_reply_send_def)
qed

lemma settled_send: "settled ms s \<Longrightarrow> settled ms (measured_reply_send bus p s)"
proof -
  assume "settled ms s"
  then have "settled ms ((measured_poll bus False ^^ p) s)" by (induction p) (auto intro: settled_poll)
  then show ?thesis by (simp add: measured_reply_send_def settled_poll)
qed

lemma sampling_sent:
  assumes "sampling r e k n i s" "n < 100"
  shows "sampling r e k (Suc n) i (record_choreofs_reply_send_elapsed bus start l s)"
  using assms samples_add
  by (auto simp: sampling_def samples_def record_choreofs_reply_send_elapsed_def choreofs_measurement_start_def
      record_choreofs_reply_send_hot_label_def Let_def split_beta split: traffic_import.split)

lemma settled_sent: "settled ms s \<Longrightarrow> settled ms (record_choreofs_reply_send_elapsed bus start l s)"
  by (simp add: settled_def record_choreofs_reply_send_elapsed_def)

lemma sampling_exit:
  assumes "sampling r e k n i s" "i < 100"
  shows "sampling r e k n (Suc i) (exit_import env s)"
  using assms samples_add
  by (auto simp: sampling_def samples_def exit_import_def record_choreofs_driver_import_exit_def Let_def split_beta)

lemma settled_exit: "settled ms s \<Longrightarrow> settled ms (exit_import env s)"
  by (simp add: settled_def exit_import_def record_choreofs_driver_import_exit_def)

lemma sampling_bread [simp]: "sampling r e k n i (snd (bread bus a s)) = sampling r e k n i s"
  by (simp add: sampling_def samples_def)

lemma settled_bread [simp]: "settled ms (snd (bread bus a s)) = settled ms s"
  by (simp add: settled_def)

lemma sampling_encode:
  assumes "sampling r e k n i s" "e < 100"
  shows "sampling r (Suc e) k n i (record_reply_payload_encode_elapsed bus start s)"
  using assms samples_add
  by (auto simp: sampling_def samples_def record_reply_payload_encode_elapsed_def choreofs_measurement_start_def
      Let_def split_beta choreofs_measurements_frozen_def)

text \<open>An environment in which nothing outside the driver fails.\<close>

definition env_ok :: "'h bus \<Rightarrow> ('h \<times> (nat \<times> u32) list) traffic_env \<Rightarrow> bool" where
  "env_ok bus env \<longleftrightarrow> te_bus env = wtap bus \<and> (\<forall>k. te_send_ok env k)
     \<and> (\<forall>r. \<exists>n. te_encoded_len env r = Some n \<and> n \<le> REPLY_ENCODE_SCRATCH_BYTES)"

lemma reply_ok:
  assumes env: "env_ok bus env"
  obtains s where "observe_reply_send env l r t = Inr \<lparr>tb = s, t_replies = t_replies t @ [r]\<rparr>"
    "same_markers s (tb t)"
    "\<And>k. sampling (Suc k) k k k k (tb t) \<Longrightarrow> k < 19 \<Longrightarrow> sampling (Suc k) (Suc k) (Suc k) (Suc k) (Suc k) s"
    "\<And>ms. settled ms (tb t) \<Longrightarrow> settled ms s"
proof -
  let ?b = "wtap bus" and ?k = "length (t_replies t)"
  have b: "te_bus env = ?b" and ok: "te_send_ok env ?k" using env by (auto simp: env_ok_def)
  obtain n where n: "te_encoded_len env r = Some n" "n \<le> REPLY_ENCODE_SCRATCH_BYTES" using env by (auto simp: env_ok_def)
  define s1 where "s1 = (if reply_send_future_sample_active (tb t)
      then record_reply_payload_encode_elapsed ?b (fst (choreofs_measurement_start ?b (tb t)))
             (snd (choreofs_measurement_start ?b (tb t))) else tb t)"
  have e: "measure_reply_payload_encode env r (tb t) = Inr s1"
    using n by (simp add: measure_reply_payload_encode_def s1_def b split_beta)
  define s2 where "s2 = measured_reply_send ?b (te_pending_polls env ?k) (snd (choreofs_measurement_start ?b s1))"
  define s3 where "s3 = record_choreofs_reply_send_elapsed ?b (fst (choreofs_measurement_start ?b s1)) l s2"
  define s4 where "s4 = exit_import env s3"
  have "observe_reply_send env l r t = Inr \<lparr>tb = s4, t_replies = t_replies t @ [r]\<rparr>"
    using e ok by (cases t) (simp add: observe_reply_send_def b split_beta Let_def s2_def s3_def s4_def)
  moreover have "same_markers s4 (tb t)"
  proof -
    have "same_markers s1 (tb t)"
      by (auto simp: s1_def intro: same_markers_trans [OF same_markers_measurement(5) same_markers_measurement(1)])
    then have "same_markers s2 (tb t)"
      unfolding s2_def by (rule same_markers_trans [OF same_markers_send same_markers_trans [OF same_markers_measurement(1)]])
    then have "same_markers s3 (tb t)"
      unfolding s3_def by (rule same_markers_trans [OF same_markers_measurement(4)])
    then show ?thesis
      unfolding s4_def exit_import_def b by (rule same_markers_trans [OF same_markers_import(2)])
  qed
  moreover have "sampling (Suc k) (Suc k) (Suc k) (Suc k) (Suc k) s4" if "sampling (Suc k) k k k k (tb t)" "k < 19" for k
  proof -
    have "sampling (Suc k) (Suc k) k k k s1"
      using that sampling_encode [of "Suc k" k k k k "snd (choreofs_measurement_start ?b (tb t))"]
      by (auto simp: s1_def sample_active_iff sampling_def choreofs_measurement_start_def samples_def)
    then have "sampling (Suc k) (Suc k) (Suc k) k k s2"
      unfolding s2_def by (intro sampling_send) (simp_all add: choreofs_measurement_start_def that)
    then show ?thesis unfolding s4_def s3_def by (intro sampling_exit sampling_sent) (use that in auto)
  qed
  moreover have "settled ms s4" if "settled ms (tb t)" for ms
  proof -
    have "s1 = tb t" using that by (simp add: s1_def sample_active_iff settled_def)
    with that show ?thesis unfolding s4_def s3_def s2_def
      by (intro settled_exit settled_sent settled_send) (simp add: choreofs_measurement_start_def)
  qed
  ultimately show thesis by (rule that)
qed

section \<open>One import\<close>

fun meas :: "(metric_group \<Rightarrow> wasi_metric) option \<Rightarrow> nat \<Rightarrow> 'h baker \<Rightarrow> bool" where
  "meas None k s \<longleftrightarrow> sampling k k k k k s"
| "meas (Some ms) k s \<longleftrightarrow> settled ms s"

fun meas_mid :: "(metric_group \<Rightarrow> wasi_metric) option \<Rightarrow> nat \<Rightarrow> 'h baker \<Rightarrow> bool" where
  "meas_mid None k s \<longleftrightarrow> sampling (Suc k) k k k k s"
| "meas_mid (Some ms) k s \<longleftrightarrow> settled ms s"

lemma import_ok:
  assumes env: "env_ok bus env" and m: "meas ms k (tb t)" "ms = None \<longrightarrow> k < 19"
  obtains u where "same_markers u (tb t)" "observe_request_recv env l t = t\<lparr>tb := u\<rparr>"
    "\<And>r v l'. meas_mid ms k v \<Longrightarrow> \<exists>s. observe_reply_send env l' r (t\<lparr>tb := v\<rparr>) = Inr \<lparr>tb = s, t_replies = t_replies t @ [r]\<rparr>
       \<and> same_markers s v \<and> meas ms (Suc k) s"
    "meas_mid ms k u"
proof (rule that [of "tb (observe_request_recv env l t)"])
  have b: "te_bus env = wtap bus" using env by (simp add: env_ok_def)
  show "same_markers (tb (observe_request_recv env l t)) (tb t)" by (rule same_markers_recv [OF b])
  show "observe_request_recv env l t = t\<lparr>tb := tb (observe_request_recv env l t)\<rparr>"
    by (simp add: observe_request_recv_def Let_def split_beta)
  show "meas_mid ms k (tb (observe_request_recv env l t))"
    using m sampling_recv settled_recv by (cases ms) auto
  show "\<exists>s. observe_reply_send env l' r (t\<lparr>tb := v\<rparr>) = Inr \<lparr>tb = s, t_replies = t_replies t @ [r]\<rparr>
       \<and> same_markers s v \<and> meas ms (Suc k) s" if v: "meas_mid ms k v" for r v l'
  proof (rule reply_ok [OF env, of l' r "t\<lparr>tb := v\<rparr>"])
    fix s
    assume "observe_reply_send env l' r (t\<lparr>tb := v\<rparr>) = Inr \<lparr>tb = s, t_replies = t_replies (t\<lparr>tb := v\<rparr>) @ [r]\<rparr>"
      "same_markers s (tb (t\<lparr>tb := v\<rparr>))"
      "\<And>k. sampling (Suc k) k k k k (tb (t\<lparr>tb := v\<rparr>)) \<Longrightarrow> k < 19 \<Longrightarrow> sampling (Suc k) (Suc k) (Suc k) (Suc k) (Suc k) s"
      "\<And>ms. settled ms (tb (t\<lparr>tb := v\<rparr>)) \<Longrightarrow> settled ms s"
    with v m(2) show ?thesis by (cases ms) auto
  qed
qed

text \<open>What a handler does between its request and its reply touches at most the metric of the delay.\<close>

lemma meas_mid_keeps:
  assumes "meas_mid ms k s" "bmarks t MEASUREMENTS_FROZEN = bmarks s MEASUREMENTS_FROZEN"
    "bmarks t REPLY_SEND_FUTURE_READY_COUNT = bmarks s REPLY_SEND_FUTURE_READY_COUNT"
    "bmarks t IMPORT_EXIT_ARMED = bmarks s IMPORT_EXIT_ARMED"
    "\<forall>g. g \<noteq> POLL_DELAY \<or> choreofs_measurements_frozen s \<longrightarrow> bmetrics t g = bmetrics s g"
  shows "meas_mid ms k t"
  using assms by (cases ms) (auto simp: sampling_def settled_def samples_def choreofs_measurements_frozen_def)

section \<open>The light\<close>

definition state_writes :: "traffic_state \<Rightarrow> (nat \<times> u32) list" where
  "state_writes st = map (\<lambda>led. (if state_led_mask st AND led_mask_of led \<noteq> 0 then GPIO_OUT_SET else GPIO_OUT_CLR,
     push_bit (unat (led_pin led)) 1)) LED_OBJECTS"

text \<open>The markers of a board and the writes to its output pins.\<close>

definition control :: "('h \<times> (nat \<times> u32) list) baker \<Rightarrow> (nat \<times> u32) list \<Rightarrow> u32 \<Rightarrow> u32 \<Rightarrow> u32 \<Rightarrow> u32 \<Rightarrow> u32 \<Rightarrow> bool" where
  "control s log opens writes polls led_mask seen \<longleftrightarrow> led_log s = log \<and> bmarks s PATH_OPEN_COUNT = opens
     \<and> bmarks s FD_WRITE_COUNT = writes \<and> bmarks s POLL_COUNT = polls \<and> bmarks s LED_MASK = led_mask
     \<and> bmarks s SEEN_LED_MASK = seen"

lemma control_same: "same_markers s t \<Longrightarrow> control t log p w q m sn \<Longrightarrow> control s log p w q m sn"
  by (simp add: same_markers_def control_def control_markers_def)

lemma led_objects_simps: "LED_OBJECTS = [\<lparr>led_pin = 22, led_mask_of = 1\<rparr>, \<lparr>led_pin = 21, led_mask_of = 2\<rparr>, \<lparr>led_pin = 20, led_mask_of = 4\<rparr>]"
  by (simp add: LED_OBJECTS_def GREEN_LED_PIN_def YELLOW_LED_PIN_def RED_LED_PIN_def GREEN_LED_MASK_def
      YELLOW_LED_MASK_def RED_LED_MASK_def)

lemma state_led_mask_simps: "state_led_mask st = (case st of Green \<Rightarrow> 1 | Yellow \<Rightarrow> 2 | Dark \<Rightarrow> 0 | Red \<Rightarrow> 4)"
  by (cases st) (simp_all add: GREEN_LED_MASK_def YELLOW_LED_MASK_def RED_LED_MASK_def)

lemma write_led_frame:
  "bmarks (record_choreofs_led_mask v high (baker_gpio_write bus pin high s)) m =
     (if m = LED_MASK then (if high then bmarks s LED_MASK OR v else bmarks s LED_MASK AND NOT v)
      else if m = SEEN_LED_MASK \<and> high then bmarks s SEEN_LED_MASK OR v else bmarks s m)"
  "bmetrics (record_choreofs_led_mask v high (baker_gpio_write bus pin high s)) = bmetrics s"
  by (simp_all add: record_choreofs_led_mask_def baker_gpio_write_def Let_def)

lemma write_led_log:
  "led_log (record_choreofs_led_mask v high (baker_gpio_write (wtap bus) pin high s)) =
     led_log s @ [(if high then GPIO_OUT_SET else GPIO_OUT_CLR, push_bit (unat pin) 1)]"
  by (simp add: record_choreofs_led_mask_def baker_gpio_write_def Let_def)

lemma write_traffic_state_control:
  assumes "control s log p w q m sn" "m \<in> {0, 1, 2, 4}"
  shows "control (write_traffic_state (wtap bus) st s) (log @ state_writes st) p w q (state_led_mask st) (sn OR state_led_mask st)"
    "bmetrics (write_traffic_state (wtap bus) st s) = bmetrics s"
    "m' \<noteq> LED_MASK \<Longrightarrow> m' \<noteq> SEEN_LED_MASK \<Longrightarrow> bmarks (write_traffic_state (wtap bus) st s) m' = bmarks s m'"
  using assms
  by (cases st; auto simp: control_def write_traffic_state_def led_objects_simps state_led_mask_simps state_writes_def
      write_led_frame write_led_log Let_def)+

lemma delay_fields:
  "led_log (baker_poll_delay (wtap bus) ms s) = led_log s"
proof -
  have a: "TIMER_DBGPAUSE \<notin> {GPIO_OUT_SET, GPIO_OUT_CLR}" "TIMER_INTR \<notin> {GPIO_OUT_SET, GPIO_OUT_CLR}"
    "TIMER_INTE \<notin> {GPIO_OUT_SET, GPIO_OUT_CLR}" "TIMER_ALARM0 \<notin> {GPIO_OUT_SET, GPIO_OUT_CLR}"
    "nvic_register NVIC_ICPR_BASE NVIC_TIMER_IRQ0 \<notin> {GPIO_OUT_SET, GPIO_OUT_CLR}"
    "nvic_register NVIC_ISER_BASE NVIC_TIMER_IRQ0 \<notin> {GPIO_OUT_SET, GPIO_OUT_CLR}"
    by (simp_all add: TIMER_DBGPAUSE_def TIMER_INTR_def TIMER_INTE_def TIMER_ALARM0_def TIMER_BASE_def nvic_register_def
        NVIC_ICPR_BASE_def NVIC_ISER_BASE_def NVIC_TIMER_IRQ0_def GPIO_OUT_SET_def GPIO_OUT_CLR_def SIO_BASE_def)
  then show ?thesis
    by (simp add: baker_poll_delay_def baker_timer_route_arm_def timer_alarm0_irq_handler_def baker_timer_route_finish_def
        record_choreofs_poll_delay_def nvic_clear_pending_def nvic_enable_irq_def Let_def split_beta)
qed

lemma delay_frame:
  "bmarks (baker_poll_delay bus ms s) = (bmarks s)(TIMER_ALARM0_READY := 1)"
  "g \<noteq> POLL_DELAY \<or> choreofs_measurements_frozen s \<Longrightarrow> bmetrics (baker_poll_delay bus ms s) g = bmetrics s g"
  by (auto simp: baker_poll_delay_def baker_timer_route_arm_def timer_alarm0_irq_handler_def baker_timer_route_finish_def
      record_choreofs_poll_delay_def nvic_clear_pending_def nvic_enable_irq_def Let_def split_beta
      choreofs_measurements_frozen_def)

section \<open>Handlers that serve\<close>

definition ledger_grants :: "'h traffic_env \<Rightarrow> bool" where
  "ledger_grants env \<longleftrightarrow> (\<forall>st. te_fd_write env TRAFFIC_STATE_FD (state_payload st) = (True, Some TRAFFIC_OBJECT, length (state_payload st)))"

lemma handle_write_ok:
  assumes env: "env_ok bus env" "ledger_grants env" and m: "meas ms k (tb t)" "ms = None \<longrightarrow> k < 19"
    and c: "control (tb t) log p w q led sn" "led \<in> {0, 1, 2, 4}"
  obtains s where "handle env (H_Write st) (Req_Fd_Write TRAFFIC_STATE_FD (state_payload st)) t
      = Inr \<lparr>tb = s, t_replies = t_replies t @ [Ret_Written (length (state_payload st))]\<rparr>"
    "control s (log @ state_writes st) p (saturating_add_u32 w 1) q (state_led_mask st) (sn OR state_led_mask st)"
    "meas ms (Suc k) s" "bmarks s DEMO_RESULT = bmarks (tb t) DEMO_RESULT"
proof -
  have b: "te_bus env = wtap bus" using env by (simp add: env_ok_def)
  obtain u where u: "same_markers u (tb t)" "observe_request_recv env Fd_Write_Object t = t\<lparr>tb := u\<rparr>"
    "\<And>r v l'. meas_mid ms k v \<Longrightarrow> \<exists>s. observe_reply_send env l' r (t\<lparr>tb := v\<rparr>) = Inr \<lparr>tb = s, t_replies = t_replies t @ [r]\<rparr>
       \<and> same_markers s v \<and> meas ms (Suc k) s" "meas_mid ms k u"
    using import_ok [OF env(1) m] by blast
  define x where "x = write_traffic_state (wtap bus) st u"
  define v where "v = record_choreofs_fd_write TRAFFIC_OBJECT x"
  have uc: "control u log p w q led sn" using control_same [OF u(1) c(1)] .
  note x = write_traffic_state_control [OF uc c(2), where bus = bus and st = st, folded x_def]
  have v: "control v (log @ state_writes st) p (saturating_add_u32 w 1) q (state_led_mask st) (sn OR state_led_mask st)"
    using x(1) by (simp add: v_def record_choreofs_fd_write_def control_def)
  have "meas_mid ms k v"
    by (rule meas_mid_keeps [OF u(4)]) (simp_all add: v_def record_choreofs_fd_write_def x(2,3))
  from u(3) [OF this, of Fd_Write_Object "Ret_Written (length (state_payload st))"]
  obtain s where s: "observe_reply_send env Fd_Write_Object (Ret_Written (length (state_payload st))) (t\<lparr>tb := v\<rparr>)
      = Inr \<lparr>tb = s, t_replies = t_replies t @ [Ret_Written (length (state_payload st))]\<rparr>" "same_markers s v" "meas ms (Suc k) s"
    by blast
  have "bmarks s DEMO_RESULT = bmarks (tb t) DEMO_RESULT"
    using s(2) u(1) x(3) [of DEMO_RESULT] by (simp add: same_markers_def control_markers_def v_def record_choreofs_fd_write_def)
  moreover have "handle env (H_Write st) (Req_Fd_Write TRAFFIC_STATE_FD (state_payload st)) t
      = Inr \<lparr>tb = s, t_replies = t_replies t @ [Ret_Written (length (state_payload st))]\<rparr>"
    using s(1) env(2) by (simp add: handle_def handle_fd_write_def u(2) ledger_grants_def b x_def v_def)
  ultimately show thesis using that s(3) control_same [OF s(2) v] by blast
qed

lemma handle_poll_ok:
  assumes env: "env_ok bus env" and m: "meas ms k (tb t)" "ms = None \<longrightarrow> k < 19"
    and c: "control (tb t) log p w q led sn"
  obtains s where "handle env (H_Poll d) (Req_Poll_Oneoff d) t = Inr \<lparr>tb = s, t_replies = t_replies t @ [Ret_Ready 1]\<rparr>"
    "control s log p w (saturating_add_u32 q 1) led sn"
    "meas ms (Suc k) s" "bmarks s DEMO_RESULT = bmarks (tb t) DEMO_RESULT"
proof -
  have b: "te_bus env = wtap bus" using env by (simp add: env_ok_def)
  obtain u where u: "same_markers u (tb t)" "observe_request_recv env Poll_Oneoff t = t\<lparr>tb := u\<rparr>"
    "\<And>r v l'. meas_mid ms k v \<Longrightarrow> \<exists>s. observe_reply_send env l' r (t\<lparr>tb := v\<rparr>) = Inr \<lparr>tb = s, t_replies = t_replies t @ [r]\<rparr>
       \<and> same_markers s v \<and> meas ms (Suc k) s" "meas_mid ms k u"
    using import_ok [OF env(1) m] by blast
  define v where "v = record_choreofs_poll (baker_poll_delay (wtap bus) d (record_choreofs_poll_timeout d u))"
  have uc: "control u log p w q led sn" using control_same [OF u(1) c(1)] .
  have v: "control v log p w (saturating_add_u32 q 1) led sn"
    using uc by (simp add: v_def record_choreofs_poll_def record_choreofs_poll_timeout_def control_def delay_fields delay_frame)
  have "meas_mid ms k v"
    by (rule meas_mid_keeps [OF u(4)])
      (auto simp: v_def record_choreofs_poll_def record_choreofs_poll_timeout_def delay_frame)
  from u(3) [OF this, of Poll_Oneoff "Ret_Ready 1"]
  obtain s where s: "observe_reply_send env Poll_Oneoff (Ret_Ready 1) (t\<lparr>tb := v\<rparr>)
      = Inr \<lparr>tb = s, t_replies = t_replies t @ [Ret_Ready 1]\<rparr>" "same_markers s v" "meas ms (Suc k) s"
    by blast
  have "bmarks s DEMO_RESULT = bmarks (tb t) DEMO_RESULT"
    using s(2) u(1) by (simp add: same_markers_def control_markers_def v_def record_choreofs_poll_def
        record_choreofs_poll_timeout_def delay_frame)
  moreover have "handle env (H_Poll d) (Req_Poll_Oneoff d) t = Inr \<lparr>tb = s, t_replies = t_replies t @ [Ret_Ready 1]\<rparr>"
    using s(1) by (simp add: handle_def handle_poll_oneoff_def u(2) b v_def)
  ultimately show thesis using that s(3) control_same [OF s(2) v] by blast
qed

text \<open>The imports with which a guest opens the file; which descriptors its runtime asks about does not
  matter to the driver.\<close>

definition startup_fits :: "'h traffic_env \<Rightarrow> handler \<Rightarrow> traffic_request \<Rightarrow> bool" where
  "startup_fits env h req \<longleftrightarrow> (case (h, req) of
       (H_Prestat_Get, Req_Prestat_Get fd) \<Rightarrow> True
     | (H_Prestat_Dir_Name, Req_Prestat_Dir_Name fd) \<Rightarrow> te_dir_name_fits env (if fd = ROOT_PREOPEN_FD then ROOT_PREOPEN_NAME else [])
     | (H_Fdstat_Get, Req_Fdstat_Get fd) \<Rightarrow> fd \<le> TRAFFIC_STATE_FD
     | (H_Path_Open, Req_Path_Open fd rights path) \<Rightarrow> fd = ROOT_PREOPEN_FD \<and> te_path_fits env (normalize_path path)
         \<and> te_path_open env fd rights (normalize_path path) = (Some TRAFFIC_STATE_FD, Some TRAFFIC_OBJECT)
     | _ \<Rightarrow> False)"

lemma fd_stat_small: "fd \<le> TRAFFIC_STATE_FD \<Longrightarrow> \<exists>r. fd_stat_response fd = Inr r"
proof -
  assume "fd \<le> TRAFFIC_STATE_FD"
  then have "unat fd \<le> 4" by (simp add: TRAFFIC_STATE_FD_def word_le_nat_alt)
  then have "unat fd \<in> {0, 1, 2, 3, 4}" by auto
  then have "fd \<in> {0, 1, 2, 3, 4}" by (auto simp: word_unat_eq_iff)
  then show ?thesis by (auto simp: fd_stat_response_def ROOT_PREOPEN_FD_def TRAFFIC_STATE_FD_def)
qed

lemma handle_startup_ok:
  assumes env: "env_ok bus env" and m: "meas ms k (tb t)" "ms = None \<longrightarrow> k < 19"
    and c: "control (tb t) log p w q led sn" and fits: "startup_fits env h req"
  obtains s r where "handle env h req t = Inr \<lparr>tb = s, t_replies = t_replies t @ [r]\<rparr>"
    "control s log (if h = H_Path_Open then saturating_add_u32 p 1 else p) w q led sn"
    "meas ms (Suc k) s" "bmarks s DEMO_RESULT = bmarks (tb t) DEMO_RESULT"
proof -
  define l where "l = (case h of H_Prestat_Get \<Rightarrow> Fd_Prestat_Get | H_Prestat_Dir_Name \<Rightarrow> Fd_Prestat_Dir_Name
      | H_Fdstat_Get \<Rightarrow> Fd_Fdstat_Get | H_Path_Open \<Rightarrow> Path_Open_Import | H_Write st \<Rightarrow> Fd_Write_Object | H_Poll d \<Rightarrow> Poll_Oneoff)"
  obtain u where u: "same_markers u (tb t)" "observe_request_recv env l t = t\<lparr>tb := u\<rparr>"
    "\<And>r v l'. meas_mid ms k v \<Longrightarrow> \<exists>s. observe_reply_send env l' r (t\<lparr>tb := v\<rparr>) = Inr \<lparr>tb = s, t_replies = t_replies t @ [r]\<rparr>
       \<and> same_markers s v \<and> meas ms (Suc k) s" "meas_mid ms k u"
    using import_ok [OF env m] by blast
  define v where "v = (if h = H_Path_Open then record_choreofs_path_open TRAFFIC_OBJECT u else u)"
  have uc: "control u log p w q led sn" using control_same [OF u(1) c] .
  have v: "control v log (if h = H_Path_Open then saturating_add_u32 p 1 else p) w q led sn"
    using uc by (simp add: v_def record_choreofs_path_open_def control_def)
  have mid: "meas_mid ms k v"
    by (rule meas_mid_keeps [OF u(4)]) (simp_all add: v_def record_choreofs_path_open_def)
  have "\<exists>r. handle env h req t = observe_reply_send env l r (t\<lparr>tb := v\<rparr>)"
  proof (cases h)
    case H_Fdstat_Get
    with fits obtain fd where fd: "req = Req_Fdstat_Get fd" "fd \<le> TRAFFIC_STATE_FD"
      by (auto simp: startup_fits_def split: traffic_request.splits)
    with fd_stat_small [OF fd(2)] H_Fdstat_Get u(2) show ?thesis
      by (auto simp: handle_def handle_fd_fdstat_get_def l_def v_def)
  qed (use fits u(2) in \<open>auto simp: startup_fits_def handle_def handle_fd_prestat_get_def handle_fd_prestat_dir_name_def
      handle_path_open_def l_def v_def split: traffic_request.splits\<close>)
  then obtain r where r: "handle env h req t = observe_reply_send env l r (t\<lparr>tb := v\<rparr>)" by blast
  from u(3) [OF mid, of l r] obtain s where s: "observe_reply_send env l r (t\<lparr>tb := v\<rparr>)
      = Inr \<lparr>tb = s, t_replies = t_replies t @ [r]\<rparr>" "same_markers s v" "meas ms (Suc k) s" by blast
  have "bmarks s DEMO_RESULT = bmarks (tb t) DEMO_RESULT"
    using s(2) u(1) by (simp add: same_markers_def control_markers_def v_def record_choreofs_path_open_def)
  with that r s(1,3) control_same [OF s(2) v] show thesis by simp
qed

section \<open>The driver at work\<close>

lemma serve_next:
  assumes "td_todo d = h # rest" "rest \<noteq> []" "handle env h req (td d) = Inr t"
  shows "served env req d = Some (d\<lparr>td := t, td_todo := rest\<rparr>)"
  using assms by (simp add: served_def serve_def Let_def)

lemma serve_last:
  assumes "td_todo d = [h]" "handle env h req (td d) = Inr t"
  shows "served env req d = (let d' = d\<lparr>td := t, td_todo := drive_traffic_cycle, td_started := True\<rparr> in
    if td_started d then (case cycle_done d' of Done e \<Rightarrow> Some e | Panic \<Rightarrow> None) else Some d')"
  using assms by (auto simp: served_def serve_def Let_def bind_outcome_def split: outcome.split)

lemma startup_runs:
  assumes env: "env_ok bus env" and fits: "list_all2 (startup_fits env) hs reqs" "hs \<noteq> []" "\<not> td_started d"
    and d: "td_todo d = hs" and m: "meas None k (tb (td d))" "k + length hs < 20"
    and c: "control (tb (td d)) log p w q led sn"
  obtains e where "serve_all env reqs d = Some e" "td_todo e = drive_traffic_cycle" "td_started e"
    "td_completed_cycles e = td_completed_cycles d" "meas None (k + length hs) (tb (td e))"
    "control (tb (td e)) log (fold (\<lambda>h p. if h = H_Path_Open then saturating_add_u32 p 1 else p) hs p) w q led sn"
proof -
  have "\<exists>e. serve_all env reqs d = Some e \<and> td_todo e = drive_traffic_cycle \<and> td_started e
      \<and> td_completed_cycles e = td_completed_cycles d \<and> meas None (k + length hs) (tb (td e))
      \<and> control (tb (td e)) log (fold (\<lambda>h p. if h = H_Path_Open then saturating_add_u32 p 1 else p) hs p) w q led sn"
    using fits d m c
  proof (induction hs arbitrary: reqs d k p)
    case (Cons h hs)
    then obtain req rest where reqs: "reqs = req # rest" "startup_fits env h req" "list_all2 (startup_fits env) hs rest"
      by (auto simp: list_all2_Cons1)
    have k: "None = None \<longrightarrow> k < 19" using Cons.prems by simp
    obtain s r where h: "handle env h req (td d) = Inr \<lparr>tb = s, t_replies = t_replies (td d) @ [r]\<rparr>"
      "control s log (if h = H_Path_Open then saturating_add_u32 p 1 else p) w q led sn" "meas None (Suc k) s"
      using handle_startup_ok [OF env Cons.prems(5) k Cons.prems(7) reqs(2)] by blast
    show ?case
    proof (cases "hs = []")
      case True
      then have "served env req d = Some (d\<lparr>td := \<lparr>tb = s, t_replies = t_replies (td d) @ [r]\<rparr>,
          td_todo := drive_traffic_cycle, td_started := True\<rparr>)"
        using serve_last [OF _ h(1)] Cons.prems(3,4) by (simp add: Let_def)
      with True reqs h show ?thesis by simp
    next
      case False
      define d' where "d' = d\<lparr>td := \<lparr>tb = s, t_replies = t_replies (td d) @ [r]\<rparr>, td_todo := hs\<rparr>"
      have "served env req d = Some d'"
        using serve_next [OF _ False h(1)] Cons.prems(4) by (simp add: d'_def)
      moreover obtain e where "serve_all env rest d' = Some e" "td_todo e = drive_traffic_cycle" "td_started e"
        "td_completed_cycles e = td_completed_cycles d'" "meas None (Suc k + length hs) (tb (td e))"
        "control (tb (td e)) log (fold (\<lambda>h p. if h = H_Path_Open then saturating_add_u32 p 1 else p) hs
           (if h = H_Path_Open then saturating_add_u32 p 1 else p)) w q led sn"
        using Cons.IH [OF reqs(3) False, of d' "Suc k"] h Cons.prems(3,6) by (auto simp: d'_def)
      ultimately show ?thesis using reqs(1) by (simp add: d'_def)
    qed
  qed simp
  then show thesis using that by blast
qed

text \<open>One state of the light: the guest's write and its sleep.\<close>

lemma set_state_serves:
  assumes env: "env_ok bus env" "ledger_grants env"
    and d: "td_todo d = H_Write st # H_Poll ms # rest" "td_started d"
    and m: "meas M k (tb (td d))" "M = None \<longrightarrow> Suc k < 19"
    and c: "control (tb (td d)) log p w q led sn" "led \<in> {0, 1, 2, 4}"
  obtains t where
    "control (tb t) (log @ state_writes st) p (saturating_add_u32 w 1) (saturating_add_u32 q 1) (state_led_mask st) (sn OR state_led_mask st)"
    "meas M (Suc (Suc k)) (tb t)" "bmarks (tb t) DEMO_RESULT = bmarks (tb (td d)) DEMO_RESULT"
    "rest \<noteq> [] \<Longrightarrow> set_state (driver_world env) (state_payload st) ms d = Some (d\<lparr>td := t, td_todo := rest\<rparr>)"
    "rest = [] \<Longrightarrow> set_state (driver_world env) (state_payload st) ms d =
       (case cycle_done (d\<lparr>td := t, td_todo := drive_traffic_cycle\<rparr>) of Done e \<Rightarrow> Some e | Panic \<Rightarrow> None)"
proof -
  have k: "M = None \<longrightarrow> k < 19" using m(2) by auto
  obtain s where s: "handle env (H_Write st) (Req_Fd_Write TRAFFIC_STATE_FD (state_payload st)) (td d)
      = Inr \<lparr>tb = s, t_replies = t_replies (td d) @ [Ret_Written (length (state_payload st))]\<rparr>"
    "control s (log @ state_writes st) p (saturating_add_u32 w 1) q (state_led_mask st) (sn OR state_led_mask st)"
    "meas M (Suc k) s" "bmarks s DEMO_RESULT = bmarks (tb (td d)) DEMO_RESULT"
    using handle_write_ok [OF env m(1) k c] by blast
  define t where "t = \<lparr>tb = s, t_replies = t_replies (td d) @ [Ret_Written (length (state_payload st))]\<rparr>"
  have tm: "meas M (Suc k) (tb t)" using s(3) by (simp add: t_def)
  have tc: "control (tb t) (log @ state_writes st) p (saturating_add_u32 w 1) q (state_led_mask st) (sn OR state_led_mask st)"
    using s(2) by (simp add: t_def)
  define e where "e = d\<lparr>td := t, td_todo := H_Poll ms # rest\<rparr>"
  have w: "gw_write (driver_world env) (state_payload st) d = Some (length (state_payload st), e)"
    using serve_next [OF d(1) _ s(1)] by (simp add: driver_world_def e_def t_def)
  obtain u where u: "handle env (H_Poll ms) (Req_Poll_Oneoff ms) t = Inr \<lparr>tb = u, t_replies = t_replies t @ [Ret_Ready 1]\<rparr>"
    "control u (log @ state_writes st) p (saturating_add_u32 w 1) (saturating_add_u32 q 1) (state_led_mask st) (sn OR state_led_mask st)"
    "meas M (Suc (Suc k)) u" "bmarks u DEMO_RESULT = bmarks (tb t) DEMO_RESULT"
    using handle_poll_ok [OF env(1) tm m(2) tc] by blast
  define v where "v = \<lparr>tb = u, t_replies = t_replies t @ [Ret_Ready 1]\<rparr>"
  have "set_state (driver_world env) (state_payload st) ms d = served env (Req_Poll_Oneoff ms) e"
    using w by (simp add: set_state_def driver_world_def)
  moreover have "served env (Req_Poll_Oneoff ms) e = Some (d\<lparr>td := v, td_todo := rest\<rparr>)" if "rest \<noteq> []"
    using serve_next [of e "H_Poll ms" rest env "Req_Poll_Oneoff ms" v] that u(1) by (simp add: e_def v_def)
  moreover have "served env (Req_Poll_Oneoff ms) e =
       (case cycle_done (d\<lparr>td := v, td_todo := drive_traffic_cycle\<rparr>) of Done e \<Rightarrow> Some e | Panic \<Rightarrow> None)" if "rest = []"
  proof -
    have same: "d\<lparr>td := x, td_todo := drive_traffic_cycle, td_started := True\<rparr> = d\<lparr>td := x, td_todo := drive_traffic_cycle\<rparr>" for x
      using d(2) by (cases d) simp
    show ?thesis
      using serve_last [of e "H_Poll ms" env "Req_Poll_Oneoff ms" v] that u(1) d(2) same by (simp add: e_def v_def Let_def)
  qed
  ultimately show thesis using u s(4) by (intro that [of v]) (simp_all add: v_def t_def)
qed

section \<open>Cycles\<close>

definition cycle_states :: "traffic_state list" where
  "cycle_states = [Green, Yellow, Dark, Yellow, Dark, Yellow, Red]"

text \<open>The last state of a cycle, and the states before it.\<close>

lemma set_states_run:
  assumes env: "env_ok bus env" "ledger_grants env"
    and d: "td_todo d = concat (map (\<lambda>(st, ms). handle_next_state st ms) steps) @ [H_Write st, H_Poll ms]" "td_started d"
    and m: "meas M k (tb (td d))" "M = None \<longrightarrow> k + 2 * length steps + 1 < 19"
    and c: "control (tb (td d)) log p w q led sn" "led \<in> {0, 1, 2, 4}"
  obtains t where
    "control (tb t) (log @ concat (map (state_writes \<circ> fst) steps) @ state_writes st) p
       (((\<lambda>x. saturating_add_u32 x 1) ^^ Suc (length steps)) w) (((\<lambda>x. saturating_add_u32 x 1) ^^ Suc (length steps)) q)
       (state_led_mask st) (fold (\<lambda>(st, _) sn. sn OR state_led_mask st) steps sn OR state_led_mask st)"
    "meas M (k + 2 * length steps + 2) (tb t)" "bmarks (tb t) DEMO_RESULT = bmarks (tb (td d)) DEMO_RESULT"
    "set_states (driver_world env) (map (\<lambda>(st, ms). (state_payload st, ms)) steps @ [(state_payload st, ms)]) d =
       (case cycle_done (d\<lparr>td := t, td_todo := drive_traffic_cycle\<rparr>) of Done e \<Rightarrow> Some e | Panic \<Rightarrow> None)"
proof -
  have "\<exists>t. control (tb t) (log @ concat (map (state_writes \<circ> fst) steps) @ state_writes st) p
       (((\<lambda>x. saturating_add_u32 x 1) ^^ Suc (length steps)) w) (((\<lambda>x. saturating_add_u32 x 1) ^^ Suc (length steps)) q)
       (state_led_mask st) (fold (\<lambda>(st, _) sn. sn OR state_led_mask st) steps sn OR state_led_mask st)
    \<and> meas M (k + 2 * length steps + 2) (tb t) \<and> bmarks (tb t) DEMO_RESULT = bmarks (tb (td d)) DEMO_RESULT
    \<and> set_states (driver_world env) (map (\<lambda>(st, ms). (state_payload st, ms)) steps @ [(state_payload st, ms)]) d =
       (case cycle_done (d\<lparr>td := t, td_todo := drive_traffic_cycle\<rparr>) of Done e \<Rightarrow> Some e | Panic \<Rightarrow> None)"
    using d m c
  proof (induction steps arbitrary: d k log w q led sn)
    case Nil
    then have todo: "td_todo d = H_Write st # H_Poll ms # []" and k: "M = None \<longrightarrow> Suc k < 19" by auto
    obtain t where t: "control (tb t) (log @ state_writes st) p (saturating_add_u32 w 1) (saturating_add_u32 q 1) (state_led_mask st) (sn OR state_led_mask st)"
      "meas M (Suc (Suc k)) (tb t)" "bmarks (tb t) DEMO_RESULT = bmarks (tb (td d)) DEMO_RESULT"
      "set_state (driver_world env) (state_payload st) ms d =
         (case cycle_done (d\<lparr>td := t, td_todo := drive_traffic_cycle\<rparr>) of Done e \<Rightarrow> Some e | Panic \<Rightarrow> None)"
      using set_state_serves [OF env todo Nil.prems(2,3) k Nil.prems(5,6)] by blast
    then show ?case by (intro exI [of _ t]) (simp split: outcome.split)
  next
    case (Cons x steps)
    obtain st1 ms1 where x: "x = (st1, ms1)" by (cases x)
    define rest where "rest = concat (map (\<lambda>(st, ms). handle_next_state st ms) steps) @ [H_Write st, H_Poll ms]"
    have todo: "td_todo d = H_Write st1 # H_Poll ms1 # rest" and ne: "rest \<noteq> []" and k: "M = None \<longrightarrow> Suc k < 19"
      using Cons.prems by (auto simp: x handle_next_state_def rest_def)
    obtain t where t: "control (tb t) (log @ state_writes st1) p (saturating_add_u32 w 1) (saturating_add_u32 q 1) (state_led_mask st1) (sn OR state_led_mask st1)"
      "meas M (Suc (Suc k)) (tb t)" "bmarks (tb t) DEMO_RESULT = bmarks (tb (td d)) DEMO_RESULT"
      "set_state (driver_world env) (state_payload st1) ms1 d = Some (d\<lparr>td := t, td_todo := rest\<rparr>)"
      using set_state_serves [OF env todo Cons.prems(2,3) k Cons.prems(5,6)] ne by blast
    have led: "state_led_mask st1 \<in> {0, 1, 2, 4}" by (cases st1) (simp_all add: state_led_mask_simps)
    let ?d = "d\<lparr>td := t, td_todo := rest\<rparr>"
    have pre: "td_todo ?d = concat (map (\<lambda>(st, ms). handle_next_state st ms) steps) @ [H_Write st, H_Poll ms]"
      "td_started ?d" "meas M (Suc (Suc k)) (tb (td ?d))" "M = None \<longrightarrow> Suc (Suc k) + 2 * length steps + 1 < 19"
      "control (tb (td ?d)) (log @ state_writes st1) p (saturating_add_u32 w 1) (saturating_add_u32 q 1) (state_led_mask st1) (sn OR state_led_mask st1)"
      using Cons.prems t by (auto simp: rest_def)
    from Cons.IH [OF pre led] obtain u where u:
      "control (tb u) ((log @ state_writes st1) @ concat (map (state_writes \<circ> fst) steps) @ state_writes st) p
         (((\<lambda>x. saturating_add_u32 x 1) ^^ Suc (length steps)) (saturating_add_u32 w 1))
         (((\<lambda>x. saturating_add_u32 x 1) ^^ Suc (length steps)) (saturating_add_u32 q 1))
         (state_led_mask st) (fold (\<lambda>(st, _) sn. sn OR state_led_mask st) steps (sn OR state_led_mask st1) OR state_led_mask st)"
      "meas M (Suc (Suc k) + 2 * length steps + 2) (tb u)" "bmarks (tb u) DEMO_RESULT = bmarks (tb (td ?d)) DEMO_RESULT"
      "set_states (driver_world env) (map (\<lambda>(st, ms). (state_payload st, ms)) steps @ [(state_payload st, ms)]) ?d =
         (case cycle_done (?d\<lparr>td := u, td_todo := drive_traffic_cycle\<rparr>) of Done e \<Rightarrow> Some e | Panic \<Rightarrow> None)"
      by blast
    have swap: "((\<lambda>x. saturating_add_u32 x 1) ^^ n) (saturating_add_u32 x 1) = saturating_add_u32 (((\<lambda>x. saturating_add_u32 x 1) ^^ n) x) 1" for n x
      using funpow_swap1 [of "\<lambda>x. saturating_add_u32 x 1" n x] by simp
    have same: "?d\<lparr>td := u, td_todo := drive_traffic_cycle\<rparr> = d\<lparr>td := u, td_todo := drive_traffic_cycle\<rparr>" by simp
    from u t(3,4) show ?case unfolding same
      by (intro exI [of _ u]) (simp add: x swap comp_def)
  qed
  then show thesis using that by blast
qed

lemma cycle_handlers:
  "drive_traffic_cycle = concat (map (\<lambda>(st, ms). handle_next_state st ms)
     [(Green, 40), (Yellow, 40), (Dark, 20), (Yellow, 20), (Dark, 20), (Yellow, 20)]) @ [H_Write Red, H_Poll 40]"
  "guest_cycle = map (\<lambda>(st, ms). (state_payload st, ms))
     [(Green, 40), (Yellow, 40), (Dark, 20), (Yellow, 20), (Dark, 20), (Yellow, 20)] @ [(state_payload Red, 40)]"
  by (simp_all add: drive_traffic_cycle_def handle_next_state_def COLOR_STEP_MS_def YELLOW_BLINK_STEP_MS_def guest_cycle_def)

definition cycle_writes :: "(nat \<times> u32) list" where
  "cycle_writes = concat (map state_writes cycle_states)"

lemma guest_cycle_run:
  assumes env: "env_ok bus env" "ledger_grants env"
    and d: "td_todo d = drive_traffic_cycle" "td_started d"
    and m: "meas M k (tb (td d))" "M = None \<longrightarrow> k + 13 < 19"
    and c: "control (tb (td d)) log p w q led sn" "led \<in> {0, 1, 2, 4}"
  obtains t where
    "control (tb t) (log @ cycle_writes) p (((\<lambda>x. saturating_add_u32 x 1) ^^ 7) w) (((\<lambda>x. saturating_add_u32 x 1) ^^ 7) q)
       RED_LED_MASK (sn OR 7)"
    "meas M (k + 14) (tb t)" "bmarks (tb t) DEMO_RESULT = bmarks (tb (td d)) DEMO_RESULT"
    "set_states (driver_world env) guest_cycle d =
       (case cycle_done (d\<lparr>td := t, td_todo := drive_traffic_cycle\<rparr>) of Done e \<Rightarrow> Some e | Panic \<Rightarrow> None)"
proof -
  define steps :: "(traffic_state \<times> u64) list" where
    "steps = [(Green, 40), (Yellow, 40), (Dark, 20), (Yellow, 20), (Dark, 20), (Yellow, 20)]"
  have n: "length steps = 6" "Suc 6 = (7::nat)" by (simp_all add: steps_def)
  have todo: "td_todo d = concat (map (\<lambda>(st, ms). handle_next_state st ms) steps) @ [H_Write Red, H_Poll 40]"
    using d(1) cycle_handlers(1) by (simp add: steps_def)
  have guest: "guest_cycle = map (\<lambda>(st, ms). (state_payload st, ms)) steps @ [(state_payload Red, 40)]"
    using cycle_handlers(2) by (simp add: steps_def)
  have writes: "concat (map (state_writes \<circ> fst) steps) @ state_writes Red = cycle_writes"
    by (simp add: steps_def cycle_writes_def cycle_states_def)
  have "fold (\<lambda>(st, _) sn. sn OR state_led_mask st) steps sn OR state_led_mask Red = sn OR ((1 OR 2) OR 4)"
    by (simp add: steps_def state_led_mask_simps or.assoc)
  then have seen: "fold (\<lambda>(st, _) sn. sn OR state_led_mask st) steps sn OR state_led_mask Red = sn OR 7" by simp
  have k: "M = None \<longrightarrow> k + 2 * length steps + 1 < 19" using m(2) n by simp
  show thesis
  proof (rule set_states_run [OF env todo d(2) m(1) k c], unfold guest [symmetric] writes seen n)
    fix t
    assume "control (tb t) (log @ cycle_writes) p (((\<lambda>x. saturating_add_u32 x 1) ^^ 7) w) (((\<lambda>x. saturating_add_u32 x 1) ^^ 7) q)
        (state_led_mask Red) (sn OR 7)"
      "meas M (k + 2 * 6 + 2) (tb t)" "bmarks (tb t) DEMO_RESULT = bmarks (tb (td d)) DEMO_RESULT"
      "set_states (driver_world env) guest_cycle d =
         (case cycle_done (d\<lparr>td := t, td_todo := drive_traffic_cycle\<rparr>) of Done e \<Rightarrow> Some e | Panic \<Rightarrow> None)"
    then show thesis by (intro that [of t]) (simp_all add: add.commute [of k 14])
  qed
qed

text \<open>The driver between two cycles.\<close>

definition between_cycles ::
    "('h \<times> (nat \<times> u32) list) traffic_driver \<Rightarrow> (nat \<times> u32) list \<Rightarrow> (metric_group \<Rightarrow> wasi_metric) \<Rightarrow> bool" where
  "between_cycles d log ms \<longleftrightarrow> td_todo d = drive_traffic_cycle \<and> td_started d \<and> 2 \<le> unat (td_completed_cycles d)
     \<and> settled ms (tb (td d)) \<and> bmarks (tb (td d)) DEMO_RESULT = RESULT_SUCCESS
     \<and> (\<exists>p w q sn. control (tb (td d)) log p w q RED_LED_MASK sn)"

lemma later_cycle:
  assumes env: "env_ok bus env" "ledger_grants env" and d: "between_cycles d log ms"
  obtains e where "set_states (driver_world env) guest_cycle d = Some e" "between_cycles e (log @ cycle_writes) ms"
proof -
  obtain p w q sn where c: "control (tb (td d)) log p w q RED_LED_MASK sn" using d by (auto simp: between_cycles_def)
  have led: "RED_LED_MASK \<in> {0, 1, 2, 4}" by (simp add: RED_LED_MASK_def)
  obtain t where t: "\<exists>p w q sn. control (tb t) (log @ cycle_writes) p w q RED_LED_MASK sn" "settled ms (tb t)"
    "bmarks (tb t) DEMO_RESULT = RESULT_SUCCESS"
    "set_states (driver_world env) guest_cycle d =
       (case cycle_done (d\<lparr>td := t, td_todo := drive_traffic_cycle\<rparr>) of Done e \<Rightarrow> Some e | Panic \<Rightarrow> None)"
  proof (rule guest_cycle_run [OF env, of d "Some ms" 0, OF _ _ _ _ c led])
    fix t
    assume "control (tb t) (log @ cycle_writes) p (((\<lambda>x. saturating_add_u32 x 1) ^^ 7) w) (((\<lambda>x. saturating_add_u32 x 1) ^^ 7) q)
        RED_LED_MASK (sn OR 7)"
      "meas (Some ms) (0 + 14) (tb t)" "bmarks (tb t) DEMO_RESULT = bmarks (tb (td d)) DEMO_RESULT"
      "set_states (driver_world env) guest_cycle d =
         (case cycle_done (d\<lparr>td := t, td_todo := drive_traffic_cycle\<rparr>) of Done e \<Rightarrow> Some e | Panic \<Rightarrow> None)"
    then show thesis using d by (intro that [of t]) (auto simp: between_cycles_def)
  qed (use d in \<open>auto simp: between_cycles_def\<close>)
  let ?c = "saturating_add_u32 (td_completed_cycles d) 1"
  have c2: "2 \<le> unat ?c" using d by (simp add: between_cycles_def unat_saturating_add)
  then have "?c \<noteq> 1" by auto
  then have "cycle_done (d\<lparr>td := t, td_todo := drive_traffic_cycle\<rparr>)
      = Done (d\<lparr>td := t, td_todo := drive_traffic_cycle, td_completed_cycles := ?c\<rparr>)"
    by (simp add: cycle_done_def)
  then show thesis using that t d c2 by (simp add: between_cycles_def)
qed

lemma first_cycle:
  assumes env: "env_ok bus env" "ledger_grants env"
    and d: "td_todo d = drive_traffic_cycle" "td_started d" "td_completed_cycles d = 0" "meas None 5 (tb (td d))"
    "control (tb (td d)) log 1 0 0 0 0"
  obtains e where "set_states (driver_world env) guest_cycle d = Some e"
    "between_cycles e (log @ cycle_writes) (bmetrics (tb (td e)))"
    "\<forall>g \<in> {REQUEST_RECV, REPLY_SEND, REPLY_ENCODE, DRIVER_IMPORT}. samples g (tb (td e)) = 19"
    "samples ENGINE_GAP (tb (td e)) = 18"
proof -
  obtain t where t: "control (tb t) (log @ cycle_writes) 1 7 7 RED_LED_MASK 7" "sampling 19 19 19 19 19 (tb t)"
    "set_states (driver_world env) guest_cycle d =
       (case cycle_done (d\<lparr>td := t, td_todo := drive_traffic_cycle\<rparr>) of Done e \<Rightarrow> Some e | Panic \<Rightarrow> None)"
  proof (rule guest_cycle_run [OF env d(1,2), of None 5 log 1 0 0 0 0])
    fix t
    assume a: "control (tb t) (log @ cycle_writes) 1 (((\<lambda>x. saturating_add_u32 x 1) ^^ 7) 0) (((\<lambda>x. saturating_add_u32 x 1) ^^ 7) 0)
        RED_LED_MASK (0 OR 7)"
      "meas None (5 + 14) (tb t)"
      "set_states (driver_world env) guest_cycle d =
         (case cycle_done (d\<lparr>td := t, td_todo := drive_traffic_cycle\<rparr>) of Done e \<Rightarrow> Some e | Panic \<Rightarrow> None)"
    have "((\<lambda>x. saturating_add_u32 x 1) ^^ 7) 0 = 7"
      by (simp add: eval_nat_numeral) (simp add: saturating_add_u32_def)
    with a show thesis by (intro that [of t]) simp_all
  qed (use d in auto)
  define s where "s = mark_success RESULT_SUCCESS (mark_runtime_ready (freeze_choreofs_measurements (tb t)))"
  define e where "e = d\<lparr>td := t\<lparr>tb := s\<rparr>, td_completed_cycles := 2\<rparr>"
  have one: "saturating_add_u32 0 1 = 1" "saturating_add_u32 1 1 = 2" by (simp_all add: saturating_add_u32_def)
  have "cycle_done (d\<lparr>td := t, td_todo := drive_traffic_cycle\<rparr>) = Done e"
    using t(1) d by (simp add: cycle_done_def one assert_choreofs_markers_def control_def e_def s_def
        FD_WRITE_COUNT_PER_CYCLE_def POLL_COUNT_PER_CYCLE_def GREEN_LED_MASK_def YELLOW_LED_MASK_def RED_LED_MASK_def Let_def)
  moreover have "settled (bmetrics s) s"
    using t(2) by (simp add: settled_def sampling_def s_def mark_success_def mark_runtime_ready_def
        freeze_choreofs_measurements_def set_appkit_wasi_metrics_enabled_def choreofs_measurements_frozen_def)
  moreover have "control s (log @ cycle_writes) 1 7 7 RED_LED_MASK 7" "bmarks s DEMO_RESULT = RESULT_SUCCESS"
    using t(1) by (simp_all add: control_def s_def mark_success_def mark_runtime_ready_def
        freeze_choreofs_measurements_def set_appkit_wasi_metrics_enabled_def)
  moreover have "bmetrics s = bmetrics (tb t)"
    by (simp add: s_def mark_success_def mark_runtime_ready_def freeze_choreofs_measurements_def set_appkit_wasi_metrics_enabled_def)
  ultimately show thesis
    using t(2,3) d by (intro that [of e]) (auto simp: e_def between_cycles_def sampling_def samples_def)
qed

lemma cycles_run:
  assumes env: "env_ok bus env" "ledger_grants env" and d: "between_cycles d log ms"
  shows "\<exists>e. guest_cycles (driver_world env) n d = Some e \<and> between_cycles e (log @ concat (replicate n cycle_writes)) ms"
  using d
proof (induction n arbitrary: d log)
  case (Suc n)
  obtain e where e: "set_states (driver_world env) guest_cycle d = Some e" "between_cycles e (log @ cycle_writes) ms"
    using later_cycle [OF env Suc.prems] by blast
  from Suc.IH [OF e(2)] e(1) show ?case by simp
qed simp

section \<open>The start\<close>

text \<open>A board after its reset.\<close>

definition baker_start :: "'h \<Rightarrow> 'h baker" where
  "baker_start h = \<lparr>bhw = h, bmarks = (\<lambda>_. 0), bmetrics = (\<lambda>_. wasi_metric_zero), btrace0 = replicate 16 0, btrace1 = replicate 16 0\<rparr>"

definition init_writes :: "(nat \<times> u32) list" where
  "init_writes = map (\<lambda>led. (GPIO_OUT_CLR, push_bit (unat (led_pin led)) 1)) LED_OBJECTS"

lemma init_output_fields:
  "bmarks (baker_gpio_init_output bus pin s) = bmarks s" "bmetrics (baker_gpio_init_output bus pin s) = bmetrics s"
  by (simp_all add: baker_gpio_init_output_def baker_gpio_bank_init_def Let_def)

lemma init_output_log:
  assumes "pin < 30"
  shows "led_log (baker_gpio_init_output (wtap bus) pin s) = led_log s @ [(GPIO_OUT_CLR, push_bit (unat pin) 1)]"
proof -
  have "unat pin < 30" using assms by (simp add: word_less_nat_alt)
  then have "gpio_pad pin \<notin> {GPIO_OUT_SET, GPIO_OUT_CLR}" "gpio_ctrl pin \<notin> {GPIO_OUT_SET, GPIO_OUT_CLR}"
    "GPIO_OE_SET \<notin> {GPIO_OUT_SET, GPIO_OUT_CLR}" "RESETS_RESET_CLR \<notin> {GPIO_OUT_SET, GPIO_OUT_CLR}"
    by (auto simp: gpio_pad_def gpio_ctrl_def GPIO_OE_SET_def RESETS_RESET_CLR_def RESETS_BASE_def PADS_BANK0_BASE_def
        IO_BANK0_BASE_def GPIO_OUT_SET_def GPIO_OUT_CLR_def SIO_BASE_def)
  then show ?thesis by (simp add: baker_gpio_init_output_def baker_gpio_bank_init_def Let_def)
qed

lemma driver_start_ok:
  fixes h :: 'h
  assumes "te_bus env = wtap bus"
  defines "d \<equiv> driver_start env (baker_start (h, []))"
  shows "td_todo d = drive_wasi_startup" "\<not> td_started d" "td_completed_cycles d = 0" "meas None 0 (tb (td d))"
    "control (tb (td d)) init_writes 0 0 0 0 0"
proof -
  let ?s = "reset_choreofs_markers (baker_start (h, [])) :: ('h \<times> (nat \<times> u32) list) baker"
  have r: "bmarks ?s m = (if m = WASI_METRIC_ENABLED then 1 else 0)" "bmetrics ?s g = wasi_metric_zero" "led_log ?s = []" for m g
    by (simp_all add: reset_choreofs_markers_def reset_appkit_wasi_metrics_def reset_appkit_wasi_metric_def
        set_appkit_wasi_metrics_enabled_def baker_start_def led_log_def Let_def)
  have led: "led_log (init_led_outputs (wtap bus) s) = led_log s @ init_writes" for s :: "('h \<times> (nat \<times> u32) list) baker"
    by (simp add: init_led_outputs_def led_objects_simps init_output_log init_writes_def)
  have keep: "bmarks (init_led_outputs (wtap bus) s) = bmarks s" "bmetrics (init_led_outputs (wtap bus) s) = bmetrics s"
    for s :: "('h \<times> (nat \<times> u32) list) baker"
    by (simp_all add: init_led_outputs_def led_objects_simps init_output_fields)
  show "td_todo d = drive_wasi_startup" "\<not> td_started d" "td_completed_cycles d = 0"
    by (simp_all add: d_def driver_start_def Let_def)
  show "meas None 0 (tb (td d))" "control (tb (td d)) init_writes 0 0 0 0 0"
    using r led keep
    by (simp_all add: d_def driver_start_def Let_def sampling_def samples_def control_def record_choreofs_engine_status_def
        choreofs_measurements_frozen_def wasi_metric_zero_def assms(1))
qed


text \<open>The driver is started and the guest opens the file.\<close>

lemma traffic_started:
  fixes h :: 'h
  assumes env: "env_ok bus env" "list_all2 (startup_fits env) drive_wasi_startup reqs"
  obtains d0 where "serve_all env reqs (driver_start env (baker_start (h, []))) = Some d0"
    "td_todo d0 = drive_traffic_cycle" "td_started d0" "td_completed_cycles d0 = 0" "meas None 5 (tb (td d0))"
    "control (tb (td d0)) init_writes 1 0 0 0 0"
proof -
  have b: "te_bus env = wtap bus" using env(1) by (simp add: env_ok_def)
  note start = driver_start_ok [OF b, of h]
  have opens: "fold (\<lambda>h p. if h = H_Path_Open then saturating_add_u32 p 1 else p) drive_wasi_startup 0 = (1 :: u32)"
    by (simp add: drive_wasi_startup_def saturating_add_u32_def)
  have n: "drive_wasi_startup \<noteq> []" "0 + length drive_wasi_startup < 20" "0 + length drive_wasi_startup = 5"
    by (simp_all add: drive_wasi_startup_def)
  show thesis
    using startup_runs [OF env(1,2) n(1) start(2,1,4) n(2) start(5)] that start(3) unfolding opens n(3) by metis
qed

section \<open>The light from the street\<close>

text \<open>The level of the pins after a list of writes to the set and clear registers.\<close>

definition lit_pins :: "u32 \<Rightarrow> (nat \<times> u32) list \<Rightarrow> u32" where
  "lit_pins pins log = fold (\<lambda>(a, v) p. if a = GPIO_OUT_SET then p OR v else if a = GPIO_OUT_CLR then p AND NOT v else p) log pins"

fun state_pins :: "traffic_state \<Rightarrow> u32" where
  "state_pins Green = push_bit 22 1"
| "state_pins Yellow = push_bit 21 1"
| "state_pins Dark = 0"
| "state_pins Red = push_bit 20 1"

definition light_pins :: u32 where "light_pins = push_bit 20 1 OR push_bit 21 1 OR push_bit 22 1"

lemma lit_pins_append [simp]: "lit_pins p (xs @ ys) = lit_pins (lit_pins p xs) ys"
  by (simp add: lit_pins_def)

lemma set_is_not_clr [simp]: "GPIO_OUT_SET \<noteq> GPIO_OUT_CLR" "GPIO_OUT_CLR \<noteq> GPIO_OUT_SET"
  by (simp_all add: GPIO_OUT_SET_def GPIO_OUT_CLR_def SIO_BASE_def)

lemma pins_algebra:
  fixes p g y r :: u32
  assumes "g AND y = 0" "g AND r = 0" "y AND r = 0"
  shows "((p OR g) AND NOT y) AND NOT r = (p AND NOT (r OR y OR g)) OR g"
    "((p AND NOT g) OR y) AND NOT r = (p AND NOT (r OR y OR g)) OR y"
    "((p AND NOT g) AND NOT y) AND NOT r = p AND NOT (r OR y OR g)"
    "((p AND NOT g) AND NOT y) OR r = (p AND NOT (r OR y OR g)) OR r"
proof -
  have "\<not> (bit g n \<and> bit y n)" "\<not> (bit g n \<and> bit r n)" "\<not> (bit y n \<and> bit r n)" for n
    using assms by (metis bit_and_iff bit_0_eq bot_apply bot_bool_def)+
  then show "((p OR g) AND NOT y) AND NOT r = (p AND NOT (r OR y OR g)) OR g"
    "((p AND NOT g) OR y) AND NOT r = (p AND NOT (r OR y OR g)) OR y"
    "((p AND NOT g) AND NOT y) AND NOT r = p AND NOT (r OR y OR g)"
    "((p AND NOT g) AND NOT y) OR r = (p AND NOT (r OR y OR g)) OR r"
    by (auto intro!: bit_word_eqI simp: bit_and_iff bit_or_iff bit_not_iff)
qed

lemma state_writes_simps:
  "state_writes Green = [(GPIO_OUT_SET, push_bit 22 1), (GPIO_OUT_CLR, push_bit 21 1), (GPIO_OUT_CLR, push_bit 20 1)]"
  "state_writes Yellow = [(GPIO_OUT_CLR, push_bit 22 1), (GPIO_OUT_SET, push_bit 21 1), (GPIO_OUT_CLR, push_bit 20 1)]"
  "state_writes Dark = [(GPIO_OUT_CLR, push_bit 22 1), (GPIO_OUT_CLR, push_bit 21 1), (GPIO_OUT_CLR, push_bit 20 1)]"
  "state_writes Red = [(GPIO_OUT_CLR, push_bit 22 1), (GPIO_OUT_CLR, push_bit 21 1), (GPIO_OUT_SET, push_bit 20 1)]"
  by (simp_all add: state_writes_def led_objects_simps state_led_mask_simps)

lemma pins_apart:
  "push_bit 22 1 AND push_bit 21 1 = (0 :: u32)" "push_bit 22 1 AND push_bit 20 1 = (0 :: u32)"
  "push_bit 21 1 AND push_bit 20 1 = (0 :: u32)"
  by simp_all

lemma state_lights: "lit_pins p (state_writes st) = (p AND NOT light_pins) OR state_pins st"
  unfolding light_pins_def lit_pins_def
  by (cases st) (simp_all only: state_writes_simps fold.simps comp_apply prod.case id_apply state_pins.simps
      if_True if_False set_is_not_clr simp_thms or.right_neutral pins_algebra [OF pins_apart])

lemma state_masked: "lit_pins p (state_writes st) AND light_pins = state_pins st"
proof -
  have "state_pins st AND light_pins = state_pins st" by (cases st) (simp_all add: light_pins_def)
  moreover have "(p AND NOT light_pins) AND light_pins = 0" by (simp add: and.assoc)
  ultimately show ?thesis by (simp add: state_lights bit.conj_disj_distrib2)
qed

lemma cycle_red: "lit_pins p (log @ concat (replicate n cycle_writes) @ cycle_writes) AND light_pins = state_pins Red"
  by (simp add: cycle_writes_def cycle_states_def state_masked)

lemma concat_replicate_end: "xs @ concat (replicate n xs) = concat (replicate n xs) @ xs"
  by (induction n) simp_all

text \<open>A board with a register file that answers zero, a ledger that knows the file, and replies of which every
  other one is pending at first.\<close>

definition traffic_path :: bytes where "traffic_path = ascii ''device/traffic/state''"

definition sample_bus :: "unit bus" where "sample_bus = \<lparr>bus_read = (\<lambda>_ h. (0, h)), bus_write = (\<lambda>_ _ h. h)\<rparr>"

definition sample_env :: "(unit \<times> (nat \<times> u32) list) traffic_env" where
  "sample_env = \<lparr>te_bus = wtap sample_bus, te_label = (\<lambda>_. 0),
     te_path_open = (\<lambda>fd rights path. if fd = ROOT_PREOPEN_FD \<and> path = traffic_path
        then (Some TRAFFIC_STATE_FD, Some TRAFFIC_OBJECT) else (None, None)),
     te_fd_write = (\<lambda>fd bs. if fd = TRAFFIC_STATE_FD then (True, Some TRAFFIC_OBJECT, length bs) else (False, None, 0)),
     te_dir_name_fits = (\<lambda>bs. length bs \<le> 32), te_path_fits = (\<lambda>bs. length bs \<le> 64),
     te_encoded_len = (\<lambda>_. Some 8), te_pending_polls = (\<lambda>k. k mod 2), te_send_ok = (\<lambda>_. True)\<rparr>"

definition sample_startup :: "traffic_request list" where
  "sample_startup = [Req_Prestat_Get 3, Req_Prestat_Dir_Name 3, Req_Prestat_Get 4, Req_Fdstat_Get 3,
     Req_Path_Open 3 64 (47 # traffic_path)]"

lemma sample_ok: "env_ok sample_bus sample_env" "ledger_grants sample_env"
  "list_all2 (startup_fits sample_env) drive_wasi_startup sample_startup"
proof -
  have "ascii ''/'' = [47]" by (simp add: ascii_def)
  moreover have "length traffic_path = 20" by (simp add: traffic_path_def ascii_def)
  ultimately show "env_ok sample_bus sample_env" "ledger_grants sample_env"
    "list_all2 (startup_fits sample_env) drive_wasi_startup sample_startup"
    by (simp_all add: env_ok_def sample_env_def ledger_grants_def REPLY_ENCODE_SCRATCH_BYTES_def drive_wasi_startup_def
        sample_startup_def startup_fits_def normalize_path_def ROOT_PREOPEN_FD_def TRAFFIC_STATE_FD_def ROOT_PREOPEN_NAME_def)
qed

section \<open>Properties\<close>

text \<open>C6: With a ledger that knows the file, an endpoint that sends and any sequence of startup requests the
  driver's handlers fit, a guest runs any number of cycles without an error: each of its cycles writes exactly
  the pin levels of green, yellow, dark, yellow, dark, yellow, red to the board, after the pins were cleared
  once; and from the first cycle on the success marker stands, the LED marker shows red and the red pin alone
  is high.\<close>

theorem traffic_light_runs:
  fixes h :: 'h
  assumes "env_ok bus env" "ledger_grants env" "list_all2 (startup_fits env) drive_wasi_startup reqs"
  shows "\<exists>d0. serve_all env reqs (driver_start env (baker_start (h, []))) = Some d0
    \<and> (\<forall>n. \<exists>d. guest_cycles (driver_world env) n d0 = Some d
        \<and> led_log (tb (td d)) = init_writes @ concat (replicate n (concat (map state_writes [Green, Yellow, Dark, Yellow, Dark, Yellow, Red])))
        \<and> (n = 0 \<or> bmarks (tb (td d)) DEMO_RESULT = RESULT_SUCCESS \<and> bmarks (tb (td d)) LED_MASK = RED_LED_MASK
             \<and> lit_pins 0 (led_log (tb (td d))) AND light_pins = state_pins Red))"
proof -
  obtain d0 where d0: "serve_all env reqs (driver_start env (baker_start (h, []))) = Some d0"
    "td_todo d0 = drive_traffic_cycle" "td_started d0" "td_completed_cycles d0 = 0" "meas None 5 (tb (td d0))"
    "control (tb (td d0)) init_writes 1 0 0 0 0"
    using traffic_started [OF assms(1,3)] by blast
  obtain e where e: "set_states (driver_world env) guest_cycle d0 = Some e"
    "between_cycles e (init_writes @ cycle_writes) (bmetrics (tb (td e)))"
    using first_cycle [OF assms(1,2) d0(2-6)] by blast
  have some: "\<exists>d. guest_cycles (driver_world env) (Suc n) d0 = Some d
      \<and> between_cycles d (init_writes @ concat (replicate n cycle_writes) @ cycle_writes) (bmetrics (tb (td e)))" for n
    using cycles_run [OF assms(1,2) e(2), of n] e(1) by (simp add: concat_replicate_end)
  have "\<exists>d. guest_cycles (driver_world env) n d0 = Some d
      \<and> led_log (tb (td d)) = init_writes @ concat (replicate n cycle_writes)
      \<and> (n = 0 \<or> bmarks (tb (td d)) DEMO_RESULT = RESULT_SUCCESS \<and> bmarks (tb (td d)) LED_MASK = RED_LED_MASK
             \<and> lit_pins 0 (led_log (tb (td d))) AND light_pins = state_pins Red)" for n
  proof (cases n)
    case 0
    then show ?thesis using d0(6) by (simp add: control_def)
  next
    case (Suc k)
    from some [of k] obtain d where d: "guest_cycles (driver_world env) n d0 = Some d"
      "led_log (tb (td d)) = init_writes @ concat (replicate k cycle_writes) @ cycle_writes"
      "bmarks (tb (td d)) DEMO_RESULT = RESULT_SUCCESS" "bmarks (tb (td d)) LED_MASK = RED_LED_MASK"
      by (auto simp: Suc between_cycles_def control_def)
    show ?thesis
      by (intro exI [of _ d] conjI disjI2 d) (simp_all only: d Suc cycle_red replicate_Suc concat.simps concat_replicate_end)
  qed
  with d0(1) show ?thesis unfolding cycle_writes_def cycle_states_def by blast
qed

theorem traffic_light_runs_witness:
  "\<exists>d0. serve_all sample_env sample_startup (driver_start sample_env (baker_start ((), []))) = Some d0
    \<and> (\<exists>d. guest_cycles (driver_world sample_env) 2 d0 = Some d \<and> bmarks (tb (td d)) DEMO_RESULT = RESULT_SUCCESS
        \<and> length (led_log (tb (td d))) = 45)"
proof -
  obtain d0 where d0: "serve_all sample_env sample_startup (driver_start sample_env (baker_start ((), []))) = Some d0"
    "\<forall>n. \<exists>d. guest_cycles (driver_world sample_env) n d0 = Some d
        \<and> led_log (tb (td d)) = init_writes @ concat (replicate n (concat (map state_writes [Green, Yellow, Dark, Yellow, Dark, Yellow, Red])))
        \<and> (n = 0 \<or> bmarks (tb (td d)) DEMO_RESULT = RESULT_SUCCESS \<and> bmarks (tb (td d)) LED_MASK = RED_LED_MASK
             \<and> lit_pins 0 (led_log (tb (td d))) AND light_pins = state_pins Red)"
    using traffic_light_runs [OF sample_ok, of "()"] by blast
  from d0(2) [rule_format, of 2] obtain d where d: "guest_cycles (driver_world sample_env) 2 d0 = Some d"
    "led_log (tb (td d)) = init_writes @ concat (replicate 2 (concat (map state_writes [Green, Yellow, Dark, Yellow, Dark, Yellow, Red])))"
    "bmarks (tb (td d)) DEMO_RESULT = RESULT_SUCCESS" by auto
  moreover have "length (led_log (tb (td d))) = 45"
    unfolding d(2) by (simp add: init_writes_def state_writes_simps led_objects_simps numeral_2_eq_2)
  ultimately show ?thesis using d0(1) by blast
qed

text \<open>C31: The metrics stop at the end of the first cycle: with such an environment there are values that the
  metrics have after each cycle, whichever it is. Among them the counts are nineteen for the received requests,
  the encoded replies, the sent replies and the imports, one for each of the startup and the first cycle, and
  eighteen for the gaps between imports; for the other metrics no count is stated.\<close>

theorem traffic_metrics_settle:
  fixes h :: 'h
  assumes "env_ok bus env" "ledger_grants env" "list_all2 (startup_fits env) drive_wasi_startup reqs"
  shows "\<exists>d0 ms. serve_all env reqs (driver_start env (baker_start (h, []))) = Some d0
    \<and> (\<forall>n. \<exists>d. guest_cycles (driver_world env) (Suc n) d0 = Some d \<and> bmetrics (tb (td d)) = ms)
    \<and> wm_count (ms REQUEST_RECV) = 19 \<and> wm_count (ms REPLY_SEND) = 19 \<and> wm_count (ms REPLY_ENCODE) = 19
    \<and> wm_count (ms DRIVER_IMPORT) = 19 \<and> wm_count (ms ENGINE_GAP) = 18"
proof -
  obtain d0 where d0: "serve_all env reqs (driver_start env (baker_start (h, []))) = Some d0"
    "td_todo d0 = drive_traffic_cycle" "td_started d0" "td_completed_cycles d0 = 0" "meas None 5 (tb (td d0))"
    "control (tb (td d0)) init_writes 1 0 0 0 0"
    using traffic_started [OF assms(1,3)] by blast
  obtain e where e: "set_states (driver_world env) guest_cycle d0 = Some e"
    "between_cycles e (init_writes @ cycle_writes) (bmetrics (tb (td e)))"
    "\<forall>g \<in> {REQUEST_RECV, REPLY_SEND, REPLY_ENCODE, DRIVER_IMPORT}. samples g (tb (td e)) = 19" "samples ENGINE_GAP (tb (td e)) = 18"
    using first_cycle [OF assms(1,2) d0(2-6)] by blast
  have "\<exists>d. guest_cycles (driver_world env) (Suc n) d0 = Some d \<and> bmetrics (tb (td d)) = bmetrics (tb (td e))" for n
    using cycles_run [OF assms(1,2) e(2), of n] e(1) by (auto simp: between_cycles_def settled_def)
  with d0(1) e(3,4) show ?thesis
    by (intro exI [of _ d0] exI [of _ "bmetrics (tb (td e))"]) (simp add: samples_def word_unat_eq_iff)
qed

theorem traffic_metrics_settle_witness:
  "\<exists>d0 d ms. serve_all sample_env sample_startup (driver_start sample_env (baker_start ((), []))) = Some d0
    \<and> guest_cycles (driver_world sample_env) 3 d0 = Some d \<and> bmetrics (tb (td d)) = ms \<and> wm_count (ms REPLY_SEND) = 19"
proof -
  have "(3::nat) = Suc 2" by simp
  then show ?thesis using traffic_metrics_settle [OF sample_ok, of "()"] by metis
qed

text \<open>C30: Writing a state of the light leaves the other pins as they were and, of the three lamps, exactly the
  one of the state lit; but the pins are written one after the other, green first, so that from red to green
  both lamps are lit after the first of the three writes.\<close>

theorem traffic_state_lights:
  "led_log (write_traffic_state (wtap bus) st s) = led_log s @ state_writes st \<and> length (state_writes st) = 3
   \<and> lit_pins p (state_writes st) = (p AND NOT light_pins) OR state_pins st
   \<and> lit_pins (lit_pins p (state_writes Red)) (take 1 (state_writes Green)) AND light_pins = state_pins Red OR state_pins Green"
proof -
  have "led_log (write_traffic_state (wtap bus) st s) = led_log s @ state_writes st" "length (state_writes st) = 3"
    by (cases st; simp add: write_traffic_state_def led_objects_simps state_led_mask_simps state_writes_simps write_led_log Let_def)+
  moreover have "state_pins Green AND light_pins = state_pins Green" by (simp add: light_pins_def)
  then have "lit_pins (lit_pins p (state_writes Red)) (take 1 (state_writes Green)) AND light_pins = state_pins Red OR state_pins Green"
    using state_masked [of p Red]
    by (simp add: state_writes_simps(1) lit_pins_def [of _ "[_]"] bit.conj_disj_distrib2)
  ultimately show ?thesis using state_lights by simp
qed

end
