(* ===== verification/Epf_Image.thy ===== *)
theory Epf_Image
  imports M33_Board Wasi_Metrics
begin

text \<open>
  Policy images on the Pico 2 W (\<open>examples/rp2w-firmware/src/lib.rs\<close>): how an image reaches the
  board (a mailbox in memory, the UART, or a message of the choreography), how the two cores load
  it, and how they run it over events. The virtual machine, the parser of the serial format and
  the hash are the \<open>hibana_epf\<close> crate and parameters here. As in Baker_Board a busy wait for the
  transmitter appears as the reading that ends it.
\<close>

section \<open>Static cells\<close>

datatype epf_core = Core_0 | Core_1

datatype epf_marker =
    EPF_EPOCH epf_core | EPF_KIND epf_core | EPF_REASON epf_core | EPF_ARG0 epf_core | EPF_ARG1 epf_core
  | EPF_ARG2 epf_core | EPF_FUEL_USED epf_core | EPF_LOAD_EPOCH | EPF_IMAGE_DIGEST | EPF_LOAD_REASON
  | EPF_ACTIVE_TARGET_KIND | EPF_ACTIVE_POLICY_ID | EPF_POLICY_TIMER_IRQ_READY | EPF_POLICY_TIMER_FACT_KIND
  | EPF_POLICY_TIMER_FACT_ARG0 | EPF_POLICY_TIMER_FACT_FUEL | EPF_UART0_READY | EPF_UART_RX_BYTES
  | EPF_UART_RX_READY | EPF_UART_RX_REJECTS | EPF_UART_RX_LAST_BYTE | EPF_UART_RX_LAST_REJECT
  | EPF_UART_RX_PARSER_POS | EPF_UART_FR | EPF_UART_CR | EPF_UART_IMSC | EPF_UART_RIS | EPF_UART_MIS
  | EPF_UART_IMAGE_LEN | EPF_UART_IMAGE_HASH | EPF_UART_TX_RECORDS | EPF_UART_TX_HEARTBEATS | EPF_UART_RX_POS
  | EPF_UART_RX_LEN | EPF_UART_RX_HASH | EPF_UART_RX_RUNNING_HASH | EPF_IMAGE_INGRESS | EPF_BYTECODE_STATE
  | EPF_BYTECODE_LEN | EPF_BYTECODE_HASH | EPF_ACTIVE_LEN | EPF_TAP_SPOOL_LEN epf_core
  | EPF_TAP_SPOOL_READ epf_core | EPF_CORE_IMAGE_DIGEST epf_core | RP2W_TIMER_ALARM0_READY

definition EPF_BYTECODE_BYTES :: nat where "EPF_BYTECODE_BYTES = 64"
definition EPF_TAP_SPOOL_EVENTS :: nat where "EPF_TAP_SPOOL_EVENTS = 16"
definition EPF_BYTECODE_STATE_COMMIT :: u32 where "EPF_BYTECODE_STATE_COMMIT = 0x434f4d54"
definition EPF_BYTECODE_STATE_LOADED :: u32 where "EPF_BYTECODE_STATE_LOADED = 0x4c4f4144"
definition EPF_BYTECODE_STATE_REJECTED :: u32 where "EPF_BYTECODE_STATE_REJECTED = 0x52454a54"
definition EPF_LOAD_REASON_NONE :: u32 where "EPF_LOAD_REASON_NONE = 0"
definition EPF_LOAD_REASON_BAD_LEN :: u32 where "EPF_LOAD_REASON_BAD_LEN = 1"
definition EPF_LOAD_REASON_BAD_HASH :: u32 where "EPF_LOAD_REASON_BAD_HASH = 2"
definition EPF_LOAD_REASON_VM_TRAP :: u32 where "EPF_LOAD_REASON_VM_TRAP = 3"
definition EPF_LOAD_REASON_LOAD_ERROR :: u32 where "EPF_LOAD_REASON_LOAD_ERROR = 4"
definition EPF_TARGET_POLICY :: u32 where "EPF_TARGET_POLICY = 1"
definition EPF_INGRESS_MAILBOX :: u32 where "EPF_INGRESS_MAILBOX = 0x4d41494c"
definition EPF_INGRESS_CHOREOGRAPHY :: u32 where "EPF_INGRESS_CHOREOGRAPHY = 0x43484f52"
definition EPF_INGRESS_UART_CHOREOGRAPHY :: u32 where "EPF_INGRESS_UART_CHOREOGRAPHY = 0x55434852"
definition EPF_TIMER_IRQ_FACT_ID :: u16 where "EPF_TIMER_IRQ_FACT_ID = 0x0057"
definition EPF_TIMER_IRQ_FACT_TAG :: u32 where "EPF_TIMER_IRQ_FACT_TAG = 0x54494d52"

record ('h, 'v, 'e, 'i) epf =
  e_hw :: 'h
  e_marks :: "epf_marker \<Rightarrow> u32"
  e_bytecode :: bytes
  e_active :: bytes
  e_uart_image :: bytes
  e_view :: "epf_core \<Rightarrow> 'v option"
  e_spool :: "epf_core \<Rightarrow> 'e option list"
  e_ingress :: 'i

section \<open>What is outside\<close>

record epf_loaded =
  el_epoch :: u32
  el_target_kind :: u8
  el_policy :: u16

record epf_out =
  eo_emitted :: bool
  eo_kind :: u32
  eo_reason :: u32
  eo_arg0 :: u32
  eo_arg1 :: u32
  eo_arg2 :: u32
  eo_fuel_used :: u16
  eo_trap :: bool

datatype ingress_reject = BadMagic u8 | EmptyImage | ImageTooLarge | HashMismatch | Overrun

datatype ingress_status = Ing_Pending | Ing_Rejected ingress_reject | Ing_Ready nat u32

record ('v, 'e, 'i) epf_env =
  ev_fresh :: 'v
  ev_load :: "bytes \<Rightarrow> 'v \<Rightarrow> epf_loaded option \<times> 'v"
  ev_run :: "'e \<Rightarrow> 'v \<Rightarrow> epf_out \<times> 'v"
  ev_evidence :: "u16 \<Rightarrow> u8 \<Rightarrow> u32 list \<Rightarrow> 'v \<Rightarrow> epf_out \<times> 'v"
  ev_hash :: "bytes \<Rightarrow> u32"
  ev_record :: "u8 \<Rightarrow> epf_out \<Rightarrow> bytes"
  ig_push :: "u8 \<Rightarrow> 'i \<Rightarrow> ingress_status \<times> 'i"
  ig_position :: "'i \<Rightarrow> nat"
  ig_staged_len :: "'i \<Rightarrow> nat"
  ig_expected_hash :: "'i \<Rightarrow> u32"
  ig_running_hash :: "'i \<Rightarrow> u32"
  ig_image :: "'i \<Rightarrow> bytes option"
  ig_clear_ready :: "'i \<Rightarrow> 'i"

section \<open>Cells and registers\<close>

definition emark :: "epf_marker \<Rightarrow> u32 \<Rightarrow> ('h, 'v, 'e, 'i) epf \<Rightarrow> ('h, 'v, 'e, 'i) epf" where
  "emark m v s = s\<lparr>e_marks := (e_marks s)(m := v)\<rparr>"

definition eincrement :: "epf_marker \<Rightarrow> ('h, 'v, 'e, 'i) epf \<Rightarrow> ('h, 'v, 'e, 'i) epf" where
  "eincrement m s = emark m (saturating_add_u32 (e_marks s m) 1) s"

definition eread :: "'h bus \<Rightarrow> nat \<Rightarrow> ('h, 'v, 'e, 'i) epf \<Rightarrow> u32 \<times> ('h, 'v, 'e, 'i) epf" where
  "eread bus addr s = (let (v, h) = bus_read bus addr (e_hw s) in (v, s\<lparr>e_hw := h\<rparr>))"

definition ewrite :: "'h bus \<Rightarrow> nat \<Rightarrow> u32 \<Rightarrow> ('h, 'v, 'e, 'i) epf \<Rightarrow> ('h, 'v, 'e, 'i) epf" where
  "ewrite bus addr v s = s\<lparr>e_hw := bus_write bus addr v (e_hw s)\<rparr>"

definition core_number :: "epf_core \<Rightarrow> u32" where
  "core_number c = (case c of Core_0 \<Rightarrow> 0 | Core_1 \<Rightarrow> 1)"

section \<open>Loading an image\<close>

text \<open>The view of a core on its machine is made at the first use.\<close>

definition epf_view :: "('v, 'e, 'i) epf_env \<Rightarrow> epf_core \<Rightarrow> ('h, 'v, 'e, 'i) epf \<Rightarrow> 'v" where
  "epf_view env c s = (case e_view s c of None \<Rightarrow> ev_fresh env | Some v \<Rightarrow> v)"

definition put_view :: "epf_core \<Rightarrow> 'v \<Rightarrow> ('h, 'v, 'e, 'i) epf \<Rightarrow> ('h, 'v, 'e, 'i) epf" where
  "put_view c v s = s\<lparr>e_view := (e_view s)(c := Some v)\<rparr>"

definition epf_hash_image :: "('v, 'e, 'i) epf_env \<Rightarrow> bytes \<Rightarrow> nat \<Rightarrow> u32" where
  "epf_hash_image env img n = (if n > EPF_BYTECODE_BYTES then 0 else ev_hash env (take n img))"

definition epf_loaded_for_core :: "epf_core \<Rightarrow> ('h, 'v, 'e, 'i) epf \<Rightarrow> bool" where
  "epf_loaded_for_core c s \<longleftrightarrow> e_marks s EPF_ACTIVE_LEN \<noteq> 0 \<and> e_marks s EPF_IMAGE_DIGEST \<noteq> 0
     \<and> e_marks s (EPF_CORE_IMAGE_DIGEST c) = e_marks s EPF_IMAGE_DIGEST"

definition epf_policy_loaded :: "epf_core \<Rightarrow> u16 \<Rightarrow> ('h, 'v, 'e, 'i) epf \<Rightarrow> bool" where
  "epf_policy_loaded c policy_id s \<longleftrightarrow> epf_loaded_for_core c s \<and> e_marks s EPF_ACTIVE_TARGET_KIND = EPF_TARGET_POLICY
     \<and> e_marks s EPF_ACTIVE_POLICY_ID = ucast policy_id"

definition epf_reject_load :: "u32 \<Rightarrow> ('h, 'v, 'e, 'i) epf \<Rightarrow> ('h, 'v, 'e, 'i) epf" where
  "epf_reject_load reason s =
     emark EPF_BYTECODE_STATE EPF_BYTECODE_STATE_REJECTED (emark EPF_LOAD_REASON reason s)"

definition epf_load_image ::
    "('v, 'e, 'i) epf_env \<Rightarrow> epf_core \<Rightarrow> bytes \<Rightarrow> u32 \<Rightarrow> u32 \<Rightarrow> ('h, 'v, 'e, 'i) epf \<Rightarrow> bool \<times> ('h, 'v, 'e, 'i) epf" where
  "epf_load_image env c img digest ingress s =
     (if img = [] \<or> length img > EPF_BYTECODE_BYTES then (False, epf_reject_load EPF_LOAD_REASON_BAD_LEN s)
      else case ev_load env img (epf_view env c s) of
        (None, v) \<Rightarrow> (False, epf_reject_load EPF_LOAD_REASON_LOAD_ERROR (put_view c v s))
      | (Some loaded, v) \<Rightarrow>
          (let s = put_view c v s;
               s = s\<lparr>e_active := blit 0 img (e_active s)\<rparr>;
               s = emark EPF_ACTIVE_LEN (of_nat (length img)) s;
               s = emark EPF_IMAGE_DIGEST digest s;
               s = emark (EPF_CORE_IMAGE_DIGEST c) digest s;
               s = emark EPF_LOAD_EPOCH (el_epoch loaded) s;
               s = emark EPF_ACTIVE_TARGET_KIND (ucast (el_target_kind loaded)) s;
               s = emark EPF_ACTIVE_POLICY_ID (ucast (el_policy loaded)) s;
               s = emark EPF_LOAD_REASON EPF_LOAD_REASON_NONE s;
               s = emark EPF_IMAGE_INGRESS ingress s in
           (True, emark EPF_BYTECODE_STATE EPF_BYTECODE_STATE_LOADED s)))"

definition load_epf_choreography_image ::
    "('v, 'e, 'i) epf_env \<Rightarrow> epf_core \<Rightarrow> bytes \<Rightarrow> ('h, 'v, 'e, 'i) epf \<Rightarrow> bool \<times> ('h, 'v, 'e, 'i) epf" where
  "load_epf_choreography_image env c img =
     epf_load_image env c img (epf_hash_image env img (length img)) EPF_INGRESS_CHOREOGRAPHY"

definition load_epf_uart_choreography_image ::
    "('v, 'e, 'i) epf_env \<Rightarrow> epf_core \<Rightarrow> bytes \<Rightarrow> ('h, 'v, 'e, 'i) epf \<Rightarrow> bool \<times> ('h, 'v, 'e, 'i) epf" where
  "load_epf_uart_choreography_image env c img =
     epf_load_image env c img (epf_hash_image env img (length img)) EPF_INGRESS_UART_CHOREOGRAPHY"

definition epf_prepare_committed_image ::
    "('v, 'e, 'i) epf_env \<Rightarrow> epf_core \<Rightarrow> ('h, 'v, 'e, 'i) epf \<Rightarrow> ('h, 'v, 'e, 'i) epf" where
  "epf_prepare_committed_image env c s =
     (if e_marks s EPF_BYTECODE_STATE \<noteq> EPF_BYTECODE_STATE_COMMIT then s
      else let n = unat (e_marks s EPF_BYTECODE_LEN) in
        if n = 0 \<or> n > EPF_BYTECODE_BYTES then epf_reject_load EPF_LOAD_REASON_BAD_LEN s
        else let digest = epf_hash_image env (e_bytecode s) n in
          if digest \<noteq> e_marks s EPF_BYTECODE_HASH then epf_reject_load EPF_LOAD_REASON_BAD_HASH s
          else snd (epf_load_image env c (take n (e_bytecode s)) digest EPF_INGRESS_MAILBOX s))"

definition epf_load_active_image_for_core ::
    "('v, 'e, 'i) epf_env \<Rightarrow> epf_core \<Rightarrow> ('h, 'v, 'e, 'i) epf \<Rightarrow> ('h, 'v, 'e, 'i) epf" where
  "epf_load_active_image_for_core env c s =
     (let n = unat (e_marks s EPF_ACTIVE_LEN); digest = e_marks s EPF_IMAGE_DIGEST in
      if n = 0 \<or> n > EPF_BYTECODE_BYTES then s
      else if digest = 0 then s
      else if e_marks s (EPF_CORE_IMAGE_DIGEST c) = digest then s
      else case ev_load env (take n (e_active s)) (epf_view env c s) of
        (None, v) \<Rightarrow> epf_reject_load EPF_LOAD_REASON_LOAD_ERROR (put_view c v s)
      | (Some loaded, v) \<Rightarrow>
          emark EPF_LOAD_EPOCH (el_epoch loaded) (emark (EPF_CORE_IMAGE_DIGEST c) digest (put_view c v s)))"

definition epf_try_load_committed_image ::
    "('v, 'e, 'i) epf_env \<Rightarrow> epf_core \<Rightarrow> ('h, 'v, 'e, 'i) epf \<Rightarrow> ('h, 'v, 'e, 'i) epf" where
  "epf_try_load_committed_image env c s = epf_load_active_image_for_core env c (epf_prepare_committed_image env c s)"

definition poll_epf_image_load where "poll_epf_image_load = epf_try_load_committed_image"

definition rp2w_epf_policy_image_ready :: "('h, 'v, 'e, 'i) epf \<Rightarrow> bool" where
  "rp2w_epf_policy_image_ready s \<longleftrightarrow>
     (e_marks s EPF_BYTECODE_STATE = EPF_BYTECODE_STATE_COMMIT \<and> unat (e_marks s EPF_BYTECODE_LEN) = EPF_BYTECODE_BYTES)
     \<or> unat (e_marks s EPF_ACTIVE_LEN) = EPF_BYTECODE_BYTES"

text \<open>Reading an image into an array of \<open>n\<close> bytes.\<close>

definition read_epf_policy_image :: "nat \<Rightarrow> ('h, 'v, 'e, 'i) epf \<Rightarrow> bytes option" where
  "read_epf_policy_image n s =
     (if n > EPF_BYTECODE_BYTES then None
      else if e_marks s EPF_BYTECODE_STATE = EPF_BYTECODE_STATE_COMMIT \<and> unat (e_marks s EPF_BYTECODE_LEN) = n
      then Some (take n (e_bytecode s))
      else if unat (e_marks s EPF_ACTIVE_LEN) = n then Some (take n (e_active s))
      else None)"

definition read_epf_uart_image :: "nat \<Rightarrow> ('h, 'v, 'e, 'i) epf \<Rightarrow> bytes option" where
  "read_epf_uart_image n s =
     (let len = unat (e_marks s EPF_UART_IMAGE_LEN) in
      if len \<noteq> n \<or> len > EPF_BYTECODE_BYTES then None else Some (take n (e_uart_image s)))"

section \<open>The serial line\<close>

definition UART0_BASE :: nat where "UART0_BASE = 0x40070000"
definition UART0_DR :: nat where "UART0_DR = UART0_BASE"
definition UART0_FR :: nat where "UART0_FR = UART0_BASE + 0x18"
definition UART0_CR :: nat where "UART0_CR = UART0_BASE + 0x30"
definition UART0_IMSC :: nat where "UART0_IMSC = UART0_BASE + 0x38"
definition UART0_RIS :: nat where "UART0_RIS = UART0_BASE + 0x3c"
definition UART0_MIS :: nat where "UART0_MIS = UART0_BASE + 0x40"
definition UART0_ICR :: nat where "UART0_ICR = UART0_BASE + 0x44"
definition UARTFR_RXFE :: u32 where "UARTFR_RXFE = push_bit 4 1"
definition UARTICR_ALL :: u32 where "UARTICR_ALL = 0x07ff"

definition rp2w_uart0_write_byte :: "'h bus \<Rightarrow> u8 \<Rightarrow> ('h, 'v, 'e, 'i) epf \<Rightarrow> ('h, 'v, 'e, 'i) epf" where
  "rp2w_uart0_write_byte bus b s = ewrite bus UART0_DR (ucast b) (snd (eread bus UART0_FR s))"

definition rp2w_uart0_write_epf_out ::
    "('v, 'e, 'i) epf_env \<Rightarrow> 'h bus \<Rightarrow> epf_core \<Rightarrow> epf_out \<Rightarrow> ('h, 'v, 'e, 'i) epf \<Rightarrow> ('h, 'v, 'e, 'i) epf" where
  "rp2w_uart0_write_epf_out env bus c out s =
     (if e_marks s EPF_UART0_READY = 0 then s
      else eincrement EPF_UART_TX_RECORDS
             (fold (rp2w_uart0_write_byte bus) (ev_record env (ucast (core_number c)) out) s))"

definition rp2w_uart0_write_heartbeat :: "'h bus \<Rightarrow> ('h, 'v, 'e, 'i) epf \<Rightarrow> ('h, 'v, 'e, 'i) epf" where
  "rp2w_uart0_write_heartbeat bus s =
     (if e_marks s EPF_UART0_READY = 0 then s
      else eincrement EPF_UART_TX_HEARTBEATS (fold (rp2w_uart0_write_byte bus) (ascii ''HEPR'') s))"

fun epf_uart_reject_code :: "ingress_reject \<Rightarrow> u8 \<Rightarrow> u32" where
  "epf_uart_reject_code (BadMagic position) byte = (0x01000000 OR ucast position) OR ucast byte"
| "epf_uart_reject_code EmptyImage byte = 0x02000000 OR ucast byte"
| "epf_uart_reject_code ImageTooLarge byte = 0x03000000 OR ucast byte"
| "epf_uart_reject_code HashMismatch byte = 0x04000000 OR ucast byte"
| "epf_uart_reject_code Overrun byte = 0x05000000 OR ucast byte"

definition rp2w_uart_rx_reject :: "ingress_reject \<Rightarrow> u8 \<Rightarrow> ('h, 'v, 'e, 'i) epf \<Rightarrow> ('h, 'v, 'e, 'i) epf" where
  "rp2w_uart_rx_reject reason byte s =
     emark EPF_UART_RX_LAST_REJECT (epf_uart_reject_code reason byte) (eincrement EPF_UART_RX_REJECTS s)"

definition record_parser :: "('v, 'e, 'i) epf_env \<Rightarrow> ('h, 'v, 'e, 'i) epf \<Rightarrow> ('h, 'v, 'e, 'i) epf" where
  "record_parser env s =
     (let i = e_ingress s;
          s = emark EPF_UART_RX_POS (of_nat (ig_position env i)) s;
          s = emark EPF_UART_RX_LEN (of_nat (ig_staged_len env i)) s;
          s = emark EPF_UART_RX_HASH (ig_expected_hash env i) s in
      emark EPF_UART_RX_RUNNING_HASH (ig_running_hash env i) s)"

text \<open>A read of the image past its end panics, a write past the end of the static array is undefined.\<close>

definition rp2w_uart_rx_byte ::
    "('v, 'e, 'i) epf_env \<Rightarrow> u8 \<Rightarrow> ('h, 'v, 'e, 'i) epf \<Rightarrow> ('h, 'v, 'e, 'i) epf outcome" where
  "rp2w_uart_rx_byte env byte s =
     (let s = eincrement EPF_UART_RX_BYTES s;
          s = emark EPF_UART_RX_LAST_BYTE (ucast byte) s;
          (status, i) = ig_push env byte (e_ingress s);
          s = s\<lparr>e_ingress := i\<rparr>;
          s = emark EPF_UART_RX_PARSER_POS (of_nat (ig_position env i)) s;
          s = record_parser env s in
      case status of
        Ing_Pending \<Rightarrow> Done s
      | Ing_Rejected reason \<Rightarrow> Done (record_parser env (rp2w_uart_rx_reject reason byte s))
      | Ing_Ready len hash \<Rightarrow>
          (case ig_image env i of
             None \<Rightarrow> Done s
           | Some img \<Rightarrow>
               if len > length img \<or> len > length (e_uart_image s) then Panic
               else let s = s\<lparr>e_uart_image := blit 0 (take len img) (e_uart_image s)\<rparr>;
                        s = emark EPF_UART_IMAGE_LEN (of_nat len) s;
                        s = emark EPF_UART_IMAGE_HASH hash s;
                        s = emark EPF_UART_RX_READY 1 s;
                        s = emark EPF_UART_RX_POS 0 s in
                    Done (s\<lparr>e_ingress := ig_clear_ready env (e_ingress s)\<rparr>)))"

definition rp2w_epf_uart_image_ready :: "('h, 'v, 'e, 'i) epf \<Rightarrow> bool" where
  "rp2w_epf_uart_image_ready s \<longleftrightarrow> e_marks s EPF_UART_RX_READY \<noteq> 0"

definition rp2w_epf_uart_clear_image_ready :: "('h, 'v, 'e, 'i) epf \<Rightarrow> ('h, 'v, 'e, 'i) epf" where
  "rp2w_epf_uart_clear_image_ready = emark EPF_UART_RX_READY 0"

definition record_register :: "'h bus \<Rightarrow> epf_marker \<times> nat \<Rightarrow> ('h, 'v, 'e, 'i) epf \<Rightarrow> ('h, 'v, 'e, 'i) epf" where
  "record_register bus r s = (let (v, s) = eread bus (snd r) s in emark (fst r) v s)"

definition record_uart0_register_markers :: "'h bus \<Rightarrow> ('h, 'v, 'e, 'i) epf \<Rightarrow> ('h, 'v, 'e, 'i) epf" where
  "record_uart0_register_markers bus =
     fold (record_register bus) [(EPF_UART_FR, UART0_FR), (EPF_UART_CR, UART0_CR), (EPF_UART_IMSC, UART0_IMSC),
       (EPF_UART_RIS, UART0_RIS), (EPF_UART_MIS, UART0_MIS)]"

text \<open>The loop over the receive FIFO ends when the FIFO is seen empty; a device that never is keeps it
  going, and then there is no result.\<close>

partial_function (option) rp2w_uart0_drain_rx ::
    "('v, 'e, 'i) epf_env \<Rightarrow> 'h bus \<Rightarrow> ('h, 'v, 'e, 'i) epf \<Rightarrow> ('h, 'v, 'e, 'i) epf outcome option" where
  "rp2w_uart0_drain_rx env bus s =
     (let (fr, s) = eread bus UART0_FR s in
      if fr AND UARTFR_RXFE = 0
      then let (dr, s) = eread bus UART0_DR s in
           (case rp2w_uart_rx_byte env (ucast (dr AND 0xff)) s of
              Panic \<Rightarrow> Some Panic
            | Done s \<Rightarrow> rp2w_uart0_drain_rx env bus s)
      else Some (Done (record_uart0_register_markers bus s)))"

definition uart0_irq_handler ::
    "('v, 'e, 'i) epf_env \<Rightarrow> 'h bus \<Rightarrow> ('h, 'v, 'e, 'i) epf \<Rightarrow> ('h, 'v, 'e, 'i) epf outcome option" where
  "uart0_irq_handler env bus s =
     (case rp2w_uart0_drain_rx env bus s of
        None \<Rightarrow> None
      | Some Panic \<Rightarrow> Some Panic
      | Some (Done s) \<Rightarrow> Some (Done (ewrite bus UART0_ICR UARTICR_ALL s)))"

section \<open>Running an image over events\<close>

definition epf_spool_tap_event :: "epf_core \<Rightarrow> 'e \<Rightarrow> ('h, 'v, 'e, 'i) epf \<Rightarrow> ('h, 'v, 'e, 'i) epf" where
  "epf_spool_tap_event c event s =
     (let n = unat (e_marks s (EPF_TAP_SPOOL_LEN c)) in
      if n \<ge> EPF_TAP_SPOOL_EVENTS then s
      else emark (EPF_TAP_SPOOL_LEN c) (of_nat (n + 1))
             (s\<lparr>e_spool := (e_spool s)(c := (e_spool s c)[n := Some event])\<rparr>))"

definition record_epf_compact_out ::
    "('v, 'e, 'i) epf_env \<Rightarrow> 'h bus \<Rightarrow> epf_core \<Rightarrow> epf_out \<Rightarrow> ('h, 'v, 'e, 'i) epf \<Rightarrow> ('h, 'v, 'e, 'i) epf" where
  "record_epf_compact_out env bus c out s =
     (let s = emark (EPF_EPOCH c) (e_marks s (EPF_EPOCH c) + 1) s;
          s = emark (EPF_KIND c) (eo_kind out) s;
          s = emark (EPF_REASON c) (eo_reason out) s;
          s = emark (EPF_ARG0 c) (eo_arg0 out) s;
          s = emark (EPF_ARG1 c) (eo_arg1 out) s;
          s = emark (EPF_ARG2 c) (eo_arg2 out) s;
          s = emark (EPF_FUEL_USED c) (ucast (eo_fuel_used out)) s in
      rp2w_uart0_write_epf_out env bus c out s)"

definition run_epf_tap_event ::
    "('v, 'e, 'i) epf_env \<Rightarrow> 'h bus \<Rightarrow> epf_core \<Rightarrow> 'e \<Rightarrow> ('h, 'v, 'e, 'i) epf \<Rightarrow> bool \<times> ('h, 'v, 'e, 'i) epf" where
  "run_epf_tap_event env bus c event s =
     (if \<not> epf_loaded_for_core c s then (False, s)
      else let (out, v) = ev_run env event (epf_view env c s); s = put_view c v s in
        if eo_emitted out
        then let s = record_epf_compact_out env bus c out s in
             (True, if eo_trap out then emark EPF_LOAD_REASON EPF_LOAD_REASON_VM_TRAP s else s)
        else (False, s))"

text \<open>An event that was never written to the spool is uninitialised memory.\<close>

fun spool_rounds ::
    "nat \<Rightarrow> ('v, 'e, 'i) epf_env \<Rightarrow> 'h bus \<Rightarrow> epf_core \<Rightarrow> nat \<Rightarrow> nat \<Rightarrow> ('h, 'v, 'e, 'i) epf \<Rightarrow> (bool \<times> ('h, 'v, 'e, 'i) epf) outcome" where
  "spool_rounds 0 env bus c n read s = Done (False, s)"
| "spool_rounds (Suc k) env bus c n read s =
     (if read < n \<and> read < EPF_TAP_SPOOL_EVENTS
      then case e_spool s c ! read of
             None \<Rightarrow> Panic
           | Some event \<Rightarrow>
               (let s = emark (EPF_TAP_SPOOL_READ c) (of_nat (read + 1)) s;
                    (stop, s) = run_epf_tap_event env bus c event s in
                if stop then Done (True, s) else spool_rounds k env bus c n (read + 1) s)
      else Done (False, s))"

definition poll_epf_spool_diagnostic ::
    "('v, 'e, 'i) epf_env \<Rightarrow> 'h bus \<Rightarrow> epf_core \<Rightarrow> ('h, 'v, 'e, 'i) epf \<Rightarrow> (bool \<times> ('h, 'v, 'e, 'i) epf) outcome" where
  "poll_epf_spool_diagnostic env bus c s =
     (if \<not> epf_loaded_for_core c s then Done (False, s)
      else spool_rounds EPF_TAP_SPOOL_EVENTS env bus c (unat (e_marks s (EPF_TAP_SPOOL_LEN c)))
             (unat (e_marks s (EPF_TAP_SPOOL_READ c))) s)"

text \<open>The tap is the list of the events it still holds.\<close>

fun tap_rounds ::
    "nat \<Rightarrow> ('v, 'e, 'i) epf_env \<Rightarrow> 'h bus \<Rightarrow> epf_core \<Rightarrow> 'e list \<Rightarrow> ('h, 'v, 'e, 'i) epf \<Rightarrow> 'e list \<times> ('h, 'v, 'e, 'i) epf" where
  "tap_rounds 0 env bus c events s = (events, s)"
| "tap_rounds (Suc k) env bus c [] s = ([], s)"
| "tap_rounds (Suc k) env bus c (event # events) s =
     (let s = epf_spool_tap_event c event s; (stop, s) = run_epf_tap_event env bus c event s in
      if stop then (events, s) else tap_rounds k env bus c events s)"

definition poll_epf_diagnostic ::
    "('v, 'e, 'i) epf_env \<Rightarrow> 'h bus \<Rightarrow> epf_core \<Rightarrow> 'e list \<Rightarrow> ('h, 'v, 'e, 'i) epf
      \<Rightarrow> ('e list \<times> ('h, 'v, 'e, 'i) epf) outcome" where
  "poll_epf_diagnostic env bus c events s =
     bind_outcome (poll_epf_spool_diagnostic env bus c (epf_try_load_committed_image env c s))
       (\<lambda>(stop, s). Done (if stop then (events, s) else tap_rounds EPF_TAP_SPOOL_EVENTS env bus c events s))"

definition poll_epf_panic_diagnostic ::
    "('v, 'e, 'i) epf_env \<Rightarrow> 'h bus \<Rightarrow> epf_core \<Rightarrow> ('h, 'v, 'e, 'i) epf \<Rightarrow> ('h, 'v, 'e, 'i) epf outcome" where
  "poll_epf_panic_diagnostic env bus c s =
     bind_outcome (poll_epf_spool_diagnostic env bus c (epf_try_load_committed_image env c s)) (\<lambda>(_, s). Done s)"

section \<open>The timer as evidence\<close>

definition rp2w_timer_route_irq_observed :: "('h, 'v, 'e, 'i) epf \<Rightarrow> bool" where
  "rp2w_timer_route_irq_observed s \<longleftrightarrow> e_marks s RP2W_TIMER_ALARM0_READY \<noteq> 0"

definition record_epf_policy_timer_irq_ready :: "('h, 'v, 'e, 'i) epf \<Rightarrow> ('h, 'v, 'e, 'i) epf" where
  "record_epf_policy_timer_irq_ready s =
     emark EPF_POLICY_TIMER_IRQ_READY (if rp2w_timer_route_irq_observed s then 1 else 0) s"

definition run_epf_timer_irq_fact ::
    "('v, 'e, 'i) epf_env \<Rightarrow> 'h bus \<Rightarrow> epf_core \<Rightarrow> ('h, 'v, 'e, 'i) epf \<Rightarrow> bool \<times> ('h, 'v, 'e, 'i) epf" where
  "run_epf_timer_irq_fact env bus c s =
     (if \<not> epf_loaded_for_core c s then (False, s)
      else let s = record_epf_policy_timer_irq_ready s;
               ready = (if rp2w_timer_route_irq_observed s then 1 else 0 :: u32);
               (out, v) = ev_evidence env EPF_TIMER_IRQ_FACT_ID (ucast ready)
                 [ready, EPF_TIMER_IRQ_FACT_TAG, 0,
                  (push_bit 16 (ucast EPF_TIMER_IRQ_FACT_ID) OR push_bit 8 (core_number c)) OR ready] (epf_view env c s);
               s = put_view c v s in
        if \<not> eo_emitted out \<or> eo_trap out then (False, s)
        else let s = record_epf_compact_out env bus c out s;
                 s = emark EPF_POLICY_TIMER_FACT_KIND (eo_kind out) s;
                 s = emark EPF_POLICY_TIMER_FACT_ARG0 (eo_arg0 out) s in
             (True, emark EPF_POLICY_TIMER_FACT_FUEL (ucast (eo_fuel_used out)) s))"

section \<open>What the pieces leave alone\<close>

lemma emark_fields [simp]:
  "e_hw (emark m v s) = e_hw s" "e_marks (emark m v s) = (e_marks s)(m := v)" "e_bytecode (emark m v s) = e_bytecode s"
  "e_active (emark m v s) = e_active s" "e_uart_image (emark m v s) = e_uart_image s" "e_view (emark m v s) = e_view s"
  "e_spool (emark m v s) = e_spool s" "e_ingress (emark m v s) = e_ingress s"
  by (simp_all add: emark_def)

lemma put_view_fields [simp]:
  "e_hw (put_view c v s) = e_hw s" "e_marks (put_view c v s) = e_marks s" "e_bytecode (put_view c v s) = e_bytecode s"
  "e_active (put_view c v s) = e_active s" "e_uart_image (put_view c v s) = e_uart_image s"
  "e_view (put_view c v s) = (e_view s)(c := Some v)" "e_spool (put_view c v s) = e_spool s"
  "e_ingress (put_view c v s) = e_ingress s"
  by (simp_all add: put_view_def)

lemma eincrement_fields [simp]:
  "e_hw (eincrement m s) = e_hw s" "e_bytecode (eincrement m s) = e_bytecode s"
  "e_marks (eincrement m s) = (e_marks s)(m := saturating_add_u32 (e_marks s m) 1)"
  "e_active (eincrement m s) = e_active s" "e_uart_image (eincrement m s) = e_uart_image s" "e_view (eincrement m s) = e_view s"
  "e_spool (eincrement m s) = e_spool s" "e_ingress (eincrement m s) = e_ingress s"
  by (simp_all add: eincrement_def)

lemma write_byte_fields:
  "e_marks (rp2w_uart0_write_byte bus b s) = e_marks s" "e_bytecode (rp2w_uart0_write_byte bus b s) = e_bytecode s"
  "e_active (rp2w_uart0_write_byte bus b s) = e_active s" "e_uart_image (rp2w_uart0_write_byte bus b s) = e_uart_image s"
  "e_view (rp2w_uart0_write_byte bus b s) = e_view s" "e_spool (rp2w_uart0_write_byte bus b s) = e_spool s"
  "e_ingress (rp2w_uart0_write_byte bus b s) = e_ingress s"
  by (simp_all add: rp2w_uart0_write_byte_def ewrite_def eread_def split_beta)

lemma write_bytes_fields [simp]:
  "e_marks (fold (rp2w_uart0_write_byte bus) bs s) = e_marks s" "e_bytecode (fold (rp2w_uart0_write_byte bus) bs s) = e_bytecode s"
  "e_active (fold (rp2w_uart0_write_byte bus) bs s) = e_active s"
  "e_uart_image (fold (rp2w_uart0_write_byte bus) bs s) = e_uart_image s"
  "e_view (fold (rp2w_uart0_write_byte bus) bs s) = e_view s" "e_spool (fold (rp2w_uart0_write_byte bus) bs s) = e_spool s"
  "e_ingress (fold (rp2w_uart0_write_byte bus) bs s) = e_ingress s"
  by (induction bs arbitrary: s) (simp_all add: write_byte_fields)

text \<open>The cells an image lives in, and the spools; reports of the machine and of the serial line touch
  none of them.\<close>

definition image_markers :: "epf_marker set" where
  "image_markers = {EPF_ACTIVE_LEN, EPF_IMAGE_DIGEST, EPF_BYTECODE_STATE} \<union> range EPF_CORE_IMAGE_DIGEST
     \<union> range EPF_TAP_SPOOL_LEN \<union> range EPF_TAP_SPOOL_READ"

definition same_image :: "('h, 'v, 'e, 'i) epf \<Rightarrow> ('h, 'v, 'e, 'i) epf \<Rightarrow> bool" where
  "same_image s t \<longleftrightarrow> e_active t = e_active s \<and> e_view t = e_view s \<and> e_spool t = e_spool s
     \<and> length (e_uart_image t) = length (e_uart_image s) \<and> (\<forall>m \<in> image_markers. e_marks t m = e_marks s m)"

lemma same_image_refl [simp]: "same_image s s" by (simp add: same_image_def)

lemma same_image_trans: "same_image s t \<Longrightarrow> same_image t u \<Longrightarrow> same_image s u"
  by (simp add: same_image_def)

lemma same_image_emark: "m \<notin> image_markers \<Longrightarrow> same_image s (emark m v s)"
  by (auto simp: same_image_def)

lemma same_image_marks:
  assumes "same_image s t"
  shows "e_marks t EPF_ACTIVE_LEN = e_marks s EPF_ACTIVE_LEN" "e_marks t EPF_IMAGE_DIGEST = e_marks s EPF_IMAGE_DIGEST"
    "e_marks t EPF_BYTECODE_STATE = e_marks s EPF_BYTECODE_STATE"
    "e_marks t (EPF_CORE_IMAGE_DIGEST c) = e_marks s (EPF_CORE_IMAGE_DIGEST c)"
    "e_marks t (EPF_TAP_SPOOL_LEN c) = e_marks s (EPF_TAP_SPOOL_LEN c)"
    "e_marks t (EPF_TAP_SPOOL_READ c) = e_marks s (EPF_TAP_SPOOL_READ c)"
  using assms by (simp_all add: same_image_def image_markers_def)

lemma same_image_record: "same_image s (record_epf_compact_out env bus c out s)"
  by (auto simp: same_image_def record_epf_compact_out_def rp2w_uart0_write_epf_out_def image_markers_def Let_def)

lemma same_image_rx:
  assumes "rp2w_uart_rx_byte env b s = Done t"
  shows "same_image s t"
  using assms
  by (auto simp: same_image_def rp2w_uart_rx_byte_def record_parser_def rp2w_uart_rx_reject_def image_markers_def Let_def
      split: ingress_status.splits option.splits prod.splits if_splits)

section \<open>A machine that remembers\<close>

text \<open>The machine together with the images it has loaded and the events it has run.\<close>

definition watched :: "('v, 'e, 'i) epf_env \<Rightarrow> ('v \<times> bytes list \<times> 'e list, 'e, 'i) epf_env" where
  "watched env = \<lparr>ev_fresh = (ev_fresh env, [], []),
     ev_load = (\<lambda>img (v, ls, es). let (r, v) = ev_load env img v in (r, v, if r = None then ls else ls @ [img], es)),
     ev_run = (\<lambda>e (v, ls, es). let (out, v) = ev_run env e v in (out, v, ls, es @ [e])),
     ev_evidence = (\<lambda>i b args (v, ls, es). let (out, v) = ev_evidence env i b args v in (out, v, ls, es)),
     ev_hash = ev_hash env, ev_record = ev_record env, ig_push = ig_push env, ig_position = ig_position env,
     ig_staged_len = ig_staged_len env, ig_expected_hash = ig_expected_hash env, ig_running_hash = ig_running_hash env,
     ig_image = ig_image env, ig_clear_ready = ig_clear_ready env\<rparr>"

definition loads :: "('h, 'v \<times> bytes list \<times> 'e list, 'e, 'i) epf \<Rightarrow> epf_core \<Rightarrow> bytes list" where
  "loads s c = (case e_view s c of None \<Rightarrow> [] | Some (v, ls, es) \<Rightarrow> ls)"

definition runs :: "('h, 'v \<times> bytes list \<times> 'e list, 'e, 'i) epf \<Rightarrow> epf_core \<Rightarrow> 'e list" where
  "runs s c = (case e_view s c of None \<Rightarrow> [] | Some (v, ls, es) \<Rightarrow> es)"

lemma same_image_logs: "same_image s t \<Longrightarrow> loads t = loads s \<and> runs t = runs s"
  by (auto simp: same_image_def loads_def runs_def)

lemma watched_view: "epf_view (watched env) c s = (v, ls, es) \<Longrightarrow> ls = loads s c \<and> es = runs s c"
  by (auto simp: epf_view_def loads_def runs_def watched_def split: option.splits)

lemma watched_load:
  "ev_load (watched env) img (epf_view (watched env) c s) = (r, w) \<Longrightarrow>
     \<exists>v. w = (v, if r = None then loads s c else loads s c @ [img], runs s c)"
  using watched_view [of env c s]
  by (cases "epf_view (watched env) c s") (auto simp: watched_def split_beta)

lemma watched_run:
  "ev_run (watched env) e (epf_view (watched env) c s) = (out, w) \<Longrightarrow> \<exists>v. w = (v, loads s c, runs s c @ [e])"
  using watched_view [of env c s]
  by (cases "epf_view (watched env) c s") (auto simp: watched_def split_beta)

lemma watched_evidence:
  "ev_evidence (watched env) i b args (epf_view (watched env) c s) = (out, w) \<Longrightarrow> \<exists>v. w = (v, loads s c, runs s c)"
  using watched_view [of env c s]
  by (cases "epf_view (watched env) c s") (auto simp: watched_def split_beta)

lemma watched_simps [simp]: "ev_hash (watched env) = ev_hash env" "ig_push (watched env) = ig_push env"
  "ig_image (watched env) = ig_image env"
  by (simp_all add: watched_def)

section \<open>The invariant of the images\<close>

definition spool_ok :: "('h, 'v, 'e, 'i) epf \<Rightarrow> epf_core \<Rightarrow> bool" where
  "spool_ok s c \<longleftrightarrow> length (e_spool s c) = EPF_TAP_SPOOL_EVENTS \<and> unat (e_marks s (EPF_TAP_SPOOL_LEN c)) \<le> EPF_TAP_SPOOL_EVENTS
     \<and> unat (e_marks s (EPF_TAP_SPOOL_READ c)) \<le> unat (e_marks s (EPF_TAP_SPOOL_LEN c))
     \<and> (\<forall>i < unat (e_marks s (EPF_TAP_SPOOL_LEN c)). e_spool s c ! i \<noteq> None)"

definition image_ok :: "('v, 'e, 'i) epf_env \<Rightarrow> ('h, 'v \<times> bytes list \<times> 'e list, 'e, 'i) epf \<Rightarrow> bool" where
  "image_ok env s \<longleftrightarrow> length (e_active s) = EPF_BYTECODE_BYTES \<and> unat (e_marks s EPF_ACTIVE_LEN) \<le> EPF_BYTECODE_BYTES
     \<and> (e_marks s EPF_ACTIVE_LEN \<noteq> 0 \<longrightarrow>
          ev_hash env (take (unat (e_marks s EPF_ACTIVE_LEN)) (e_active s)) = e_marks s EPF_IMAGE_DIGEST)
     \<and> (\<forall>c. e_marks s (EPF_CORE_IMAGE_DIGEST c) \<noteq> 0 \<longrightarrow>
          loads s c \<noteq> [] \<and> ev_hash env (last (loads s c)) = e_marks s (EPF_CORE_IMAGE_DIGEST c))"

definition epf_inv :: "('v, 'e, 'i) epf_env \<Rightarrow> ('h, 'v \<times> bytes list \<times> 'e list, 'e, 'i) epf \<Rightarrow> bool" where
  "epf_inv env s \<longleftrightarrow> image_ok env s \<and> (\<forall>c. spool_ok s c) \<and> length (e_uart_image s) = EPF_BYTECODE_BYTES"

lemma same_image_spool: "same_image s t \<Longrightarrow> spool_ok s c \<Longrightarrow> spool_ok t c"
  using same_image_marks [of s t] by (simp add: spool_ok_def same_image_def)

lemma same_image_inv: "same_image s t \<Longrightarrow> epf_inv env s \<Longrightarrow> epf_inv env t"
  using same_image_marks [of s t] same_image_logs [of s t]
  by (simp add: epf_inv_def image_ok_def spool_ok_def same_image_def)

text \<open>What only the loads change.\<close>

lemma image_ok_cong:
  assumes "image_ok env s" "e_active t = e_active s" "e_marks t EPF_ACTIVE_LEN = e_marks s EPF_ACTIVE_LEN"
    "e_marks t EPF_IMAGE_DIGEST = e_marks s EPF_IMAGE_DIGEST"
    "\<And>c. e_marks t (EPF_CORE_IMAGE_DIGEST c) = e_marks s (EPF_CORE_IMAGE_DIGEST c)" "loads t = loads s"
  shows "image_ok env t"
  using assms by (simp add: image_ok_def)

lemma spool_ok_cong:
  assumes "spool_ok s c" "e_spool t = e_spool s" "e_marks t (EPF_TAP_SPOOL_LEN c) = e_marks s (EPF_TAP_SPOOL_LEN c)"
    "e_marks t (EPF_TAP_SPOOL_READ c) = e_marks s (EPF_TAP_SPOOL_READ c)"
  shows "spool_ok t c"
  using assms by (simp add: spool_ok_def)

lemma reject_inv: "epf_inv env s \<Longrightarrow> epf_inv env (epf_reject_load reason s)"
  by (auto simp: epf_inv_def epf_reject_load_def intro: image_ok_cong spool_ok_cong elim!: image_ok_cong spool_ok_cong simp: loads_def)

lemma put_view_logs:
  "loads (put_view c (v, ls, es) s) = (loads s)(c := ls)" "runs (put_view c (v, ls, es) s) = (runs s)(c := es)"
  by (auto simp: loads_def runs_def)

lemma emark_logs [simp]: "loads (emark m v s) = loads s" "runs (emark m v s) = runs s"
  by (auto simp: loads_def runs_def)

lemma epf_load_image_inv:
  assumes "epf_inv env s" "digest = ev_hash env img"
  shows "epf_inv env (snd (epf_load_image (watched env) c img digest ingress s))"
    "runs (snd (epf_load_image (watched env) c img digest ingress s)) = runs s"
proof -
  obtain r w where l: "ev_load (watched env) img (epf_view (watched env) c s) = (r, w)" by (metis surj_pair)
  obtain v where w: "w = (v, if r = None then loads s c else loads s c @ [img], runs s c)"
    using watched_load [OF l] by blast
  have put: "epf_inv env (put_view c (v, loads s c, runs s c) s)"
    using assms(1) by (auto simp: epf_inv_def put_view_logs intro: image_ok_cong spool_ok_cong)
  have "epf_inv env (snd (epf_load_image (watched env) c img digest ingress s))
      \<and> runs (snd (epf_load_image (watched env) c img digest ingress s)) = runs s"
  proof (cases "img = [] \<or> length img > EPF_BYTECODE_BYTES")
    case True
    then show ?thesis using assms(1) reject_inv by (auto simp: epf_load_image_def epf_reject_load_def)
  next
    case False
    show ?thesis
    proof (cases r)
      case None
      then show ?thesis using False l w put reject_inv [OF put]
        by (auto simp: epf_load_image_def epf_reject_load_def put_view_logs)
    next
      case (Some loaded)
      have n: "length img \<le> 64" "img \<noteq> []" "unat (of_nat (length img) :: u32) = length img"
        using False by (auto simp: EPF_BYTECODE_BYTES_def unat_of_nat take_bit_nat_eq_self)
      then have "(of_nat (length img) :: u32) \<noteq> 0" by (metis length_0_conv unat_0)
      moreover have "length (blit 0 img (e_active s)) = 64" "take (length img) (blit 0 img (e_active s)) = img"
        using assms(1) n(1) by (simp_all add: epf_inv_def image_ok_def EPF_BYTECODE_BYTES_def blit_def)
      ultimately show ?thesis
        using False l w Some n assms
        by (auto simp: epf_load_image_def epf_inv_def image_ok_def spool_ok_def loads_def runs_def EPF_BYTECODE_BYTES_def)
    qed
  qed
  then show "epf_inv env (snd (epf_load_image (watched env) c img digest ingress s))"
    "runs (snd (epf_load_image (watched env) c img digest ingress s)) = runs s" by auto
qed

lemma epf_prepare_inv:
  assumes "epf_inv env s"
  shows "epf_inv env (epf_prepare_committed_image (watched env) c s)"
    "runs (epf_prepare_committed_image (watched env) c s) = runs s"
proof -
  let ?n = "unat (e_marks s EPF_BYTECODE_LEN)"
  have "epf_inv env (epf_prepare_committed_image (watched env) c s) \<and> runs (epf_prepare_committed_image (watched env) c s) = runs s"
  proof (cases "?n \<le> EPF_BYTECODE_BYTES")
    case True
    then have "epf_hash_image (watched env) (e_bytecode s) ?n = ev_hash env (take ?n (e_bytecode s))"
      by (simp add: epf_hash_image_def)
    then show ?thesis
      using assms reject_inv [OF assms] epf_load_image_inv [OF assms refl, of c "take ?n (e_bytecode s)" EPF_INGRESS_MAILBOX]
      by (auto simp: epf_prepare_committed_image_def Let_def epf_reject_load_def simp del: watched_simps)
  next
    case False
    then show ?thesis using assms reject_inv by (auto simp: epf_prepare_committed_image_def Let_def epf_reject_load_def)
  qed
  then show "epf_inv env (epf_prepare_committed_image (watched env) c s)"
    "runs (epf_prepare_committed_image (watched env) c s) = runs s" by auto
qed

lemma epf_load_active_inv:
  assumes "epf_inv env s"
  shows "epf_inv env (epf_load_active_image_for_core (watched env) c s)"
    "runs (epf_load_active_image_for_core (watched env) c s) = runs s"
proof -
  let ?n = "unat (e_marks s EPF_ACTIVE_LEN)" and ?digest = "e_marks s EPF_IMAGE_DIGEST"
  obtain r w where l: "ev_load (watched env) (take ?n (e_active s)) (epf_view (watched env) c s) = (r, w)" by (metis surj_pair)
  obtain v where w: "w = (v, if r = None then loads s c else loads s c @ [take ?n (e_active s)], runs s c)"
    using watched_load [OF l] by blast
  have put: "epf_inv env (put_view c (v, loads s c, runs s c) s)"
    using assms by (auto simp: epf_inv_def put_view_logs intro: image_ok_cong spool_ok_cong)
  have "epf_inv env (epf_load_active_image_for_core (watched env) c s) \<and> runs (epf_load_active_image_for_core (watched env) c s) = runs s"
  proof (cases "?n = 0 \<or> ?n > EPF_BYTECODE_BYTES \<or> ?digest = 0 \<or> e_marks s (EPF_CORE_IMAGE_DIGEST c) = ?digest")
    case True
    then show ?thesis using assms by (auto simp: epf_load_active_image_for_core_def Let_def)
  next
    case False
    show ?thesis
    proof (cases r)
      case None
      then show ?thesis using False l w put reject_inv [OF put]
        by (auto simp: epf_load_active_image_for_core_def epf_reject_load_def put_view_logs Let_def)
    next
      case (Some loaded)
      have "e_marks s EPF_ACTIVE_LEN \<noteq> 0" using False by (auto simp: unat_eq_0)
      then show ?thesis using False l w Some assms
        by (auto simp: epf_load_active_image_for_core_def epf_inv_def image_ok_def spool_ok_def loads_def runs_def Let_def)
    qed
  qed
  then show "epf_inv env (epf_load_active_image_for_core (watched env) c s)"
    "runs (epf_load_active_image_for_core (watched env) c s) = runs s" by auto
qed

lemma epf_try_load_inv:
  assumes "epf_inv env s"
  shows "epf_inv env (epf_try_load_committed_image (watched env) c s)"
    "runs (epf_try_load_committed_image (watched env) c s) = runs s"
  using epf_load_active_inv [OF epf_prepare_inv(1) [OF assms]] epf_prepare_inv(2) [OF assms]
  by (simp_all add: epf_try_load_committed_image_def)

lemma spool_len_next:
  assumes "n = unat (w :: u32)" "n < EPF_TAP_SPOOL_EVENTS"
  shows "unat (of_nat (n + 1) :: u32) = Suc n"
  using assms(2) by (subst unat_of_nat) (simp add: EPF_TAP_SPOOL_EVENTS_def take_bit_nat_eq_self)

lemma spool_event_inv:
  assumes "epf_inv env s"
  shows "epf_inv env (epf_spool_tap_event c e s)"
proof -
  let ?n = "unat (e_marks s (EPF_TAP_SPOOL_LEN c))" and ?t = "epf_spool_tap_event c e s"
  have "image_ok env ?t"
    by (rule image_ok_cong [of env s]) (use assms in \<open>auto simp: epf_inv_def epf_spool_tap_event_def Let_def loads_def\<close>)
  moreover have "spool_ok ?t d" for d
  proof (cases "d = c \<and> ?n < EPF_TAP_SPOOL_EVENTS")
    case True
    have "spool_ok s c" using assms by (simp add: epf_inv_def)
    with True spool_len_next [OF refl, of "e_marks s (EPF_TAP_SPOOL_LEN c)"] show ?thesis
      by (simp add: spool_ok_def epf_spool_tap_event_def Let_def nth_list_update less_Suc_eq del: of_nat_add of_nat_Suc)
  next
    case False
    have "spool_ok s d" using assms by (simp add: epf_inv_def)
    with False show ?thesis by (auto simp: spool_ok_def epf_spool_tap_event_def Let_def)
  qed
  moreover have "length (e_uart_image ?t) = EPF_BYTECODE_BYTES" using assms by (simp add: epf_inv_def epf_spool_tap_event_def Let_def)
  ultimately show ?thesis by (simp add: epf_inv_def)
qed

lemma run_event_marks:
  "m \<in> image_markers \<Longrightarrow> e_marks (snd (run_epf_tap_event env bus c e s)) m = e_marks s m"
  "e_spool (snd (run_epf_tap_event env bus c e s)) = e_spool s"
proof -
  have a: "e_marks (record_epf_compact_out env bus c out (put_view c v s)) m = e_marks s m" if "m \<in> image_markers" for out v
    using same_image_record [of "put_view c v s" env bus c out] that by (simp add: same_image_def)
  have b: "e_spool (record_epf_compact_out env bus c out (put_view c v s)) = e_spool s" for out v
    using same_image_record [of "put_view c v s" env bus c out] by (simp add: same_image_def)
  have "EPF_LOAD_REASON \<notin> image_markers" by (auto simp: image_markers_def)
  then show "m \<in> image_markers \<Longrightarrow> e_marks (snd (run_epf_tap_event env bus c e s)) m = e_marks s m"
    using a by (auto simp: run_epf_tap_event_def split_beta Let_def)
  show "e_spool (snd (run_epf_tap_event env bus c e s)) = e_spool s"
    using b by (auto simp: run_epf_tap_event_def split_beta Let_def)
qed

lemma run_event_inv:
  assumes "epf_inv env s"
  shows "epf_inv env (snd (run_epf_tap_event (watched env) bus c e s))"
proof -
  obtain out w where r: "ev_run (watched env) e (epf_view (watched env) c s) = (out, w)" by (metis surj_pair)
  obtain v where w: "w = (v, loads s c, runs s c @ [e])" using watched_run [OF r] by blast
  have put: "epf_inv env (put_view c w s)"
    using assms by (auto simp: epf_inv_def put_view_logs w intro: image_ok_cong spool_ok_cong)
  note rec = same_image_inv [OF same_image_record put]
  have "epf_inv env (emark EPF_LOAD_REASON r (record_epf_compact_out (watched env) bus c out (put_view c w s)))" for r
    by (rule same_image_inv [OF same_image_emark rec]) (auto simp: image_markers_def)
  with rec put assms r show ?thesis by (auto simp: run_epf_tap_event_def Let_def)
qed

lemma spool_rounds_inv:
  assumes "epf_inv env s" "n = unat (e_marks s (EPF_TAP_SPOOL_LEN c))" "read \<le> n"
  obtains stop t where "spool_rounds k (watched env) bus c n read s = Done (stop, t)" "epf_inv env t"
proof -
  have "\<exists>stop t. spool_rounds k (watched env) bus c n read s = Done (stop, t) \<and> epf_inv env t"
    using assms
  proof (induction k arbitrary: read s)
    case (Suc k)
    show ?case
    proof (cases "read < n \<and> read < EPF_TAP_SPOOL_EVENTS")
      case True
      with Suc.prems obtain e where e: "e_spool s c ! read = Some e" by (auto simp: epf_inv_def spool_ok_def)
      let ?s = "emark (EPF_TAP_SPOOL_READ c) (of_nat (read + 1)) s"
      have "unat (of_nat (read + 1) :: u32) = read + 1"
        using True by (subst unat_of_nat) (simp add: EPF_TAP_SPOOL_EVENTS_def take_bit_nat_eq_self)
      then have inv: "epf_inv env ?s"
        using Suc.prems True by (auto simp: epf_inv_def image_ok_def spool_ok_def)
      obtain stop t where t: "run_epf_tap_event (watched env) bus c e ?s = (stop, t)" by (metis surj_pair)
      have ti: "epf_inv env t" using run_event_inv [OF inv, of bus c e] t by simp
      have "e_marks t (EPF_TAP_SPOOL_LEN c) = e_marks s (EPF_TAP_SPOOL_LEN c)"
        using run_event_marks(1) [of "EPF_TAP_SPOOL_LEN c" "watched env" bus c e ?s] t by (simp add: image_markers_def)
      with Suc.IH [OF ti, of "read + 1"] Suc.prems True t e ti show ?thesis by (cases stop) auto
    qed (use Suc.prems in auto)
  qed auto
  then show thesis using that by blast
qed

lemma tap_rounds_inv: "epf_inv env s \<Longrightarrow> epf_inv env (snd (tap_rounds k (watched env) bus c es s))"
proof (induction k arbitrary: es s)
  case (Suc k)
  then show ?case
  proof (cases es)
    case (Cons e rest)
    have "epf_inv env (snd (run_epf_tap_event (watched env) bus c e (epf_spool_tap_event c e s)))"
      using run_event_inv [OF spool_event_inv [OF Suc.prems]] .
    with Suc.IH Cons show ?thesis by (auto simp: split_beta Let_def)
  qed simp
qed simp

lemma poll_spool_inv:
  assumes "epf_inv env s"
  obtains stop t where "poll_epf_spool_diagnostic (watched env) bus c s = Done (stop, t)" "epf_inv env t"
proof (cases "epf_loaded_for_core c s")
  case True
  have "unat (e_marks s (EPF_TAP_SPOOL_READ c)) \<le> unat (e_marks s (EPF_TAP_SPOOL_LEN c))"
    using assms by (simp add: epf_inv_def spool_ok_def)
  from spool_rounds_inv [OF assms refl this, of EPF_TAP_SPOOL_EVENTS bus] that True show thesis
    by (auto simp: poll_epf_spool_diagnostic_def)
qed (use assms that in \<open>simp add: poll_epf_spool_diagnostic_def\<close>)

lemma poll_diagnostic_inv:
  assumes "epf_inv env s"
  obtains rest t where "poll_epf_diagnostic (watched env) bus c es s = Done (rest, t)" "epf_inv env t"
proof -
  obtain stop t where "poll_epf_spool_diagnostic (watched env) bus c (epf_try_load_committed_image (watched env) c s) = Done (stop, t)"
    "epf_inv env t" using poll_spool_inv [OF epf_try_load_inv(1) [OF assms]] by blast
  with that tap_rounds_inv [of env t EPF_TAP_SPOOL_EVENTS bus c es] show thesis
    by (cases stop; cases "tap_rounds EPF_TAP_SPOOL_EVENTS (watched env) bus c es t") (simp_all add: poll_epf_diagnostic_def)
qed

lemma panic_poll_inv:
  assumes "epf_inv env s"
  obtains t where "poll_epf_panic_diagnostic (watched env) bus c s = Done t" "epf_inv env t"
proof -
  obtain stop t where "poll_epf_spool_diagnostic (watched env) bus c (epf_try_load_committed_image (watched env) c s) = Done (stop, t)"
    "epf_inv env t" using poll_spool_inv [OF epf_try_load_inv(1) [OF assms]] by blast
  with that show thesis by (auto simp: poll_epf_panic_diagnostic_def)
qed

lemma same_image_fact:
  "same_image t (emark EPF_POLICY_TIMER_FACT_FUEL x (emark EPF_POLICY_TIMER_FACT_ARG0 y (emark EPF_POLICY_TIMER_FACT_KIND z t)))"
  by (auto simp: same_image_def image_markers_def)

lemma timer_fact_inv:
  assumes "epf_inv env s"
  shows "epf_inv env (snd (run_epf_timer_irq_fact (watched env) bus c s))"
proof (cases "epf_loaded_for_core c s")
  case True
  let ?s = "record_epf_policy_timer_irq_ready s"
  let ?ready = "if rp2w_timer_route_irq_observed ?s then 1 else 0 :: u32"
  obtain out w where r: "ev_evidence (watched env) EPF_TIMER_IRQ_FACT_ID (ucast ?ready)
      [?ready, EPF_TIMER_IRQ_FACT_TAG, 0,
       (push_bit 16 (ucast EPF_TIMER_IRQ_FACT_ID) OR push_bit 8 (core_number c)) OR ?ready] (epf_view (watched env) c ?s) = (out, w)"
    by (metis surj_pair)
  obtain v where w: "w = (v, loads ?s c, runs ?s c)" using watched_evidence [OF r] by blast
  have s: "epf_inv env ?s"
    unfolding record_epf_policy_timer_irq_ready_def
    by (rule same_image_inv [OF same_image_emark assms]) (auto simp: image_markers_def)
  have put: "epf_inv env (put_view c w ?s)"
    using s by (auto simp: epf_inv_def put_view_logs w intro: image_ok_cong spool_ok_cong)
  show ?thesis
    using True r put same_image_inv [OF same_image_fact same_image_inv [OF same_image_record put]]
    by (simp add: run_epf_timer_irq_fact_def Let_def)
qed (use assms in \<open>simp add: run_epf_timer_irq_fact_def\<close>)

section \<open>Everything that happens to the images\<close>

text \<open>Each operation by a core; a host that fills the mailbox; a byte from the serial line.\<close>

datatype 'e epf_op =
    Op_Poll_Load epf_core | Op_Load epf_core bytes | Op_Load_Uart epf_core bytes | Op_Poll epf_core "'e list"
  | Op_Panic_Poll epf_core | Op_Fact epf_core | Op_Clear_Ready | Op_Mailbox bytes u32 u32 | Op_Byte u8

definition host_commits :: "bytes \<Rightarrow> u32 \<Rightarrow> u32 \<Rightarrow> ('h, 'v, 'e, 'i) epf \<Rightarrow> ('h, 'v, 'e, 'i) epf" where
  "host_commits img n hash s =
     emark EPF_BYTECODE_STATE EPF_BYTECODE_STATE_COMMIT
       (emark EPF_BYTECODE_HASH hash (emark EPF_BYTECODE_LEN n (s\<lparr>e_bytecode := img\<rparr>)))"

fun epf_do :: "('v, 'e, 'i) epf_env \<Rightarrow> 'h bus \<Rightarrow> 'e epf_op \<Rightarrow> ('h, 'v, 'e, 'i) epf \<Rightarrow> ('h, 'v, 'e, 'i) epf outcome" where
  "epf_do env bus (Op_Poll_Load c) s = Done (poll_epf_image_load env c s)"
| "epf_do env bus (Op_Load c img) s = Done (snd (load_epf_choreography_image env c img s))"
| "epf_do env bus (Op_Load_Uart c img) s = Done (snd (load_epf_uart_choreography_image env c img s))"
| "epf_do env bus (Op_Poll c es) s = bind_outcome (poll_epf_diagnostic env bus c es s) (\<lambda>(_, s). Done s)"
| "epf_do env bus (Op_Panic_Poll c) s = poll_epf_panic_diagnostic env bus c s"
| "epf_do env bus (Op_Fact c) s = Done (snd (run_epf_timer_irq_fact env bus c s))"
| "epf_do env bus Op_Clear_Ready s = Done (rp2w_epf_uart_clear_image_ready s)"
| "epf_do env bus (Op_Mailbox img n hash) s = Done (host_commits img n hash s)"
| "epf_do env bus (Op_Byte b) s = rp2w_uart_rx_byte env b s"

fun epf_run :: "('v, 'e, 'i) epf_env \<Rightarrow> 'h bus \<Rightarrow> 'e epf_op list \<Rightarrow> ('h, 'v, 'e, 'i) epf \<Rightarrow> ('h, 'v, 'e, 'i) epf outcome" where
  "epf_run env bus [] s = Done s"
| "epf_run env bus (x # xs) s = bind_outcome (epf_do env bus x s) (epf_run env bus xs)"

text \<open>The parser never announces more bytes than its image has, nor more than fit the buffer it was made for.\<close>

definition ingress_fits :: "('v, 'e, 'i) epf_env \<Rightarrow> bool" where
  "ingress_fits env \<longleftrightarrow> (\<forall>b i i' n hash img. ig_push env b i = (Ing_Ready n hash, i') \<and> ig_image env i' = Some img
     \<longrightarrow> n \<le> length img \<and> n \<le> EPF_BYTECODE_BYTES)"

lemma rx_byte_inv:
  assumes "epf_inv env s" "ingress_fits env"
  obtains t where "rp2w_uart_rx_byte (watched env) b s = Done t" "epf_inv env t"
proof -
  obtain status i where p: "ig_push env b (e_ingress s) = (status, i)" by (metis surj_pair)
  have fits: "n \<le> length img \<and> n \<le> EPF_BYTECODE_BYTES" if "status = Ing_Ready n hash" "ig_image env i = Some img" for n hash img
    using assms(2) p that unfolding ingress_fits_def by blast
  have "length (e_uart_image s) = EPF_BYTECODE_BYTES" using assms(1) by (simp add: epf_inv_def)
  then have "rp2w_uart_rx_byte (watched env) b s \<noteq> Panic"
  proof (cases status)
    case (Ing_Ready n hash)
    with p fits [OF Ing_Ready] \<open>length (e_uart_image s) = EPF_BYTECODE_BYTES\<close> show ?thesis
      by (cases "ig_image env i") (auto simp: rp2w_uart_rx_byte_def record_parser_def Let_def)
  qed (use p in \<open>simp_all add: rp2w_uart_rx_byte_def Let_def\<close>)
  then obtain t where t: "rp2w_uart_rx_byte (watched env) b s = Done t" by (cases "rp2w_uart_rx_byte (watched env) b s") auto
  with that same_image_inv [OF same_image_rx [OF t] assms(1)] show thesis by blast
qed

lemma load_any_inv:
  assumes "epf_inv env s"
  shows "epf_inv env (snd (epf_load_image (watched env) c img (epf_hash_image (watched env) img (length img)) ingress s))"
proof (cases "length img > EPF_BYTECODE_BYTES")
  case True
  then show ?thesis using reject_inv [OF assms] by (simp add: epf_load_image_def)
next
  case False
  then have "epf_hash_image (watched env) img (length img) = ev_hash env img" by (simp add: epf_hash_image_def)
  then show ?thesis using epf_load_image_inv(1) [OF assms refl] by simp
qed

lemma epf_do_inv:
  assumes "epf_inv env s" "ingress_fits env"
  obtains t where "epf_do (watched env) bus x s = Done t" "epf_inv env t"
proof (cases x)
  case (Op_Poll_Load c)
  with that epf_try_load_inv(1) [OF assms(1)] show thesis by (simp add: poll_epf_image_load_def)
next
  case (Op_Load c img)
  have "epf_inv env (snd (load_epf_choreography_image (watched env) c img s))"
    unfolding load_epf_choreography_image_def by (rule load_any_inv [OF assms(1)])
  with that Op_Load show thesis by simp
next
  case (Op_Load_Uart c img)
  have "epf_inv env (snd (load_epf_uart_choreography_image (watched env) c img s))"
    unfolding load_epf_uart_choreography_image_def by (rule load_any_inv [OF assms(1)])
  with that Op_Load_Uart show thesis by simp
next
  case (Op_Poll c es)
  with that poll_diagnostic_inv [OF assms(1), of bus c es] show thesis by (metis bind_outcome_simps(1) case_prod_conv epf_do.simps(4))
next
  case (Op_Panic_Poll c)
  with that panic_poll_inv [OF assms(1), of bus c] show thesis by (metis epf_do.simps(5))
next
  case (Op_Fact c)
  with that timer_fact_inv [OF assms(1)] show thesis by simp
next
  case Op_Clear_Ready
  have "same_image s (emark EPF_UART_RX_READY 0 s)" by (rule same_image_emark) (auto simp: image_markers_def)
  with that Op_Clear_Ready same_image_inv [OF _ assms(1)] show thesis by (simp add: rp2w_epf_uart_clear_image_ready_def)
next
  case (Op_Mailbox img n hash)
  have "epf_inv env (host_commits img n hash s)"
    using assms(1) by (simp add: epf_inv_def image_ok_def spool_ok_def host_commits_def loads_def)
  with that Op_Mailbox show thesis by simp
next
  case (Op_Byte b)
  with that rx_byte_inv [OF assms, of b] show thesis by (metis epf_do.simps(9))
qed

lemma epf_run_inv:
  assumes "epf_inv env s" "ingress_fits env"
  obtains t where "epf_run (watched env) bus xs s = Done t" "epf_inv env t"
proof -
  have "\<exists>t. epf_run (watched env) bus xs s = Done t \<and> epf_inv env t"
    using assms(1)
  proof (induction xs arbitrary: s)
    case (Cons x xs)
    obtain t where "epf_do (watched env) bus x s = Done t" "epf_inv env t" using epf_do_inv [OF Cons.prems assms(2)] by blast
    with Cons.IH show ?case by simp
  qed simp
  then show thesis using that by blast
qed

text \<open>The board after its reset.\<close>

definition epf_start :: "'h \<Rightarrow> 'i \<Rightarrow> ('h, 'v, 'e, 'i) epf" where
  "epf_start h i = \<lparr>e_hw = h, e_marks = (\<lambda>_. 0), e_bytecode = replicate 64 0, e_active = replicate 64 0,
     e_uart_image = replicate 64 0, e_view = (\<lambda>_. None), e_spool = (\<lambda>_. replicate 16 None), e_ingress = i\<rparr>"

lemma epf_start_inv: "epf_inv env (epf_start h i)"
  by (simp add: epf_inv_def image_ok_def spool_ok_def epf_start_def EPF_BYTECODE_BYTES_def EPF_TAP_SPOOL_EVENTS_def)

section \<open>Events of a quiet machine\<close>

text \<open>A machine with nothing to report; and the events in a spool, of which the first ones are done.\<close>

definition reports_nothing :: "('v, 'e, 'i) epf_env \<Rightarrow> bool" where
  "reports_nothing env \<longleftrightarrow> (\<forall>e v. \<not> eo_emitted (fst (ev_run env e v)))"

definition spooled :: "('h, 'v, 'e, 'i) epf \<Rightarrow> epf_core \<Rightarrow> 'e list" where
  "spooled s c = map the (take (unat (e_marks s (EPF_TAP_SPOOL_LEN c))) (e_spool s c))"

definition spool_done :: "('h, 'v, 'e, 'i) epf \<Rightarrow> epf_core \<Rightarrow> nat" where
  "spool_done s c = unat (e_marks s (EPF_TAP_SPOOL_READ c))"

lemma spool_okD:
  assumes "epf_inv env s"
  shows "length (e_spool s c) = 16" "unat (e_marks s (EPF_TAP_SPOOL_LEN c)) \<le> 16" "spool_done s c \<le> length (spooled s c)"
    "length (spooled s c) = unat (e_marks s (EPF_TAP_SPOOL_LEN c))"
    "i < length (spooled s c) \<Longrightarrow> e_spool s c ! i = Some (spooled s c ! i)"
  using assms by (auto simp: epf_inv_def spool_ok_def spooled_def spool_done_def EPF_TAP_SPOOL_EVENTS_def)

lemma quiet_run:
  assumes "reports_nothing env" "epf_loaded_for_core c s"
  obtains v where "run_epf_tap_event (watched env) bus c e s = (False, put_view c (v, loads s c, runs s c @ [e]) s)"
proof -
  obtain out w where r: "ev_run (watched env) e (epf_view (watched env) c s) = (out, w)" by (metis surj_pair)
  obtain v where w: "w = (v, loads s c, runs s c @ [e])" using watched_run [OF r] by blast
  have "\<not> eo_emitted out"
    using assms(1) r by (cases "epf_view (watched env) c s") (auto simp: reports_nothing_def watched_def split_beta)
  with that r w assms(2) show thesis by (simp add: run_epf_tap_event_def Let_def)
qed

lemma quiet_event:
  assumes "reports_nothing env"
  obtains t where "run_epf_tap_event (watched env) bus c e s = (False, t)"
    "runs t c = runs s c @ (if epf_loaded_for_core c s then [e] else [])" "e_marks t = e_marks s" "e_spool t = e_spool s"
proof (cases "epf_loaded_for_core c s")
  case True
  obtain v where "run_epf_tap_event (watched env) bus c e s = (False, put_view c (v, loads s c, runs s c @ [e]) s)"
    using quiet_run [OF assms True] by blast
  from that [OF this] True show thesis by (simp add: put_view_logs)
next
  case False
  with that show thesis by (simp add: run_epf_tap_event_def)
qed

lemma loaded_put_view [simp]: "epf_loaded_for_core c (put_view d v s) = epf_loaded_for_core c s"
  by (simp add: epf_loaded_for_core_def)

lemma spool_event_spooled:
  assumes "epf_inv env s"
  shows "spooled (epf_spool_tap_event c e s) c = spooled s c @ take (16 - length (spooled s c)) [e]"
    "m \<noteq> EPF_TAP_SPOOL_LEN c \<Longrightarrow> e_marks (epf_spool_tap_event c e s) m = e_marks s m"
    "runs (epf_spool_tap_event c e s) = runs s"
proof -
  let ?n = "unat (e_marks s (EPF_TAP_SPOOL_LEN c))"
  show "m \<noteq> EPF_TAP_SPOOL_LEN c \<Longrightarrow> e_marks (epf_spool_tap_event c e s) m = e_marks s m"
    "runs (epf_spool_tap_event c e s) = runs s"
    by (simp_all add: epf_spool_tap_event_def Let_def runs_def fun_eq_iff)
  show "spooled (epf_spool_tap_event c e s) c = spooled s c @ take (16 - length (spooled s c)) [e]"
  proof (cases "?n < 16")
    case True
    have "length (e_spool s c) = 16" using spool_okD [OF assms] by simp
    moreover have "unat (of_nat (?n + 1) :: u32) = Suc ?n"
      using spool_len_next [OF refl, of "e_marks s (EPF_TAP_SPOOL_LEN c)"] True by (simp add: EPF_TAP_SPOOL_EVENTS_def)
    ultimately show ?thesis
      using True by (simp add: spooled_def epf_spool_tap_event_def Let_def EPF_TAP_SPOOL_EVENTS_def take_Suc_conv_app_nth
          del: of_nat_add of_nat_Suc)
  next
    case False
    with spool_okD(1,2) [OF assms, of c] show ?thesis
      by (simp add: spooled_def epf_spool_tap_event_def EPF_TAP_SPOOL_EVENTS_def)
  qed
qed

text \<open>The tap: every event is run if an image is loaded, and kept in the spool while that has room.\<close>

lemma tap_rounds_quiet:
  assumes "reports_nothing env" "epf_inv env s"
  obtains t where "tap_rounds k (watched env) bus c es s = (drop k es, t)" "epf_inv env t"
    "runs t c = runs s c @ (if epf_loaded_for_core c s then take k es else [])"
    "spooled t c = spooled s c @ take (16 - length (spooled s c)) (take k es)"
    "\<And>m. m \<noteq> EPF_TAP_SPOOL_LEN c \<Longrightarrow> e_marks t m = e_marks s m"
proof -
  have "\<exists>t. tap_rounds k (watched env) bus c es s = (drop k es, t)
      \<and> runs t c = runs s c @ (if epf_loaded_for_core c s then take k es else [])
      \<and> spooled t c = spooled s c @ take (16 - length (spooled s c)) (take k es)
      \<and> (\<forall>m. m \<noteq> EPF_TAP_SPOOL_LEN c \<longrightarrow> e_marks t m = e_marks s m)"
    using assms(2)
  proof (induction k arbitrary: es s)
    case (Suc k)
    show ?case
    proof (cases es)
      case (Cons e rest)
      let ?s = "epf_spool_tap_event c e s"
      note sp = spool_event_spooled [OF Suc.prems, where c = c and e = e]
      have l: "epf_loaded_for_core c ?s = epf_loaded_for_core c s" using sp(2) by (simp add: epf_loaded_for_core_def)
      obtain t where t: "run_epf_tap_event (watched env) bus c e ?s = (False, t)"
        "runs t c = runs s c @ (if epf_loaded_for_core c s then [e] else [])" "e_marks t = e_marks ?s" "e_spool t = e_spool ?s"
        by (rule quiet_event [OF assms(1), of bus c e ?s]) (use that l sp(3) in simp)
      have "epf_inv env t" using run_event_inv [OF spool_event_inv [OF Suc.prems], of bus c e c e] t(1) by simp
      from Suc.IH [OF this, of rest] obtain u where u: "tap_rounds k (watched env) bus c rest t = (drop k rest, u)"
        "runs u c = runs t c @ (if epf_loaded_for_core c t then take k rest else [])"
        "spooled u c = spooled t c @ take (16 - length (spooled t c)) (take k rest)"
        "\<forall>m. m \<noteq> EPF_TAP_SPOOL_LEN c \<longrightarrow> e_marks u m = e_marks t m" by blast
      have lt: "epf_loaded_for_core c t = epf_loaded_for_core c s" using l t(3) by (simp add: epf_loaded_for_core_def)
      have st: "spooled t c = spooled s c @ take (16 - length (spooled s c)) [e]"
        using sp(1) t(3,4) by (simp add: spooled_def)
      have "spooled u c = spooled s c @ take (16 - length (spooled s c)) (take (Suc k) es)"
      proof (cases "length (spooled s c) < 16")
        case True
        then have "16 - length (spooled s c) = Suc (15 - length (spooled s c))" by simp
        with u(3) st Cons show ?thesis by simp
      qed (use u(3) st in simp)
      then show ?thesis
        using t(1,2,3) u(1,2,4) lt sp(2) Cons by (intro exI [of _ u]) (auto simp: Let_def)
    qed auto
  qed auto
  then obtain t where "tap_rounds k (watched env) bus c es s = (drop k es, t)"
    "runs t c = runs s c @ (if epf_loaded_for_core c s then take k es else [])"
    "spooled t c = spooled s c @ take (16 - length (spooled s c)) (take k es)"
    "\<forall>m. m \<noteq> EPF_TAP_SPOOL_LEN c \<longrightarrow> e_marks t m = e_marks s m" by blast
  with that tap_rounds_inv [OF assms(2), of k bus c es] show thesis by simp
qed

text \<open>The spool: the events not yet done are run.\<close>

lemma spool_rounds_quiet:
  assumes "reports_nothing env" "epf_loaded_for_core c s" "length es \<le> k" "read + length es \<le> EPF_TAP_SPOOL_EVENTS"
    "\<And>i. i < length es \<Longrightarrow> e_spool s c ! (read + i) = Some (es ! i)"
    "e_marks s (EPF_TAP_SPOOL_READ c) = of_nat read"
  obtains t where "spool_rounds k (watched env) bus c (read + length es) read s = Done (False, t)" "runs t c = runs s c @ es"
    "e_marks t = (e_marks s)(EPF_TAP_SPOOL_READ c := of_nat (read + length es))" "e_spool t = e_spool s"
proof -
  have "\<exists>t. spool_rounds k (watched env) bus c (read + length es) read s = Done (False, t) \<and> runs t c = runs s c @ es
      \<and> e_marks t = (e_marks s)(EPF_TAP_SPOOL_READ c := of_nat (read + length es)) \<and> e_spool t = e_spool s"
    using assms(2-)
  proof (induction es arbitrary: k read s)
    case Nil
    then show ?case by (cases k) auto
  next
    case (Cons e es)
    then obtain j where k: "k = Suc j" "length es \<le> j" by (cases k) auto
    let ?s = "emark (EPF_TAP_SPOOL_READ c) (of_nat (read + 1)) s"
    have l: "epf_loaded_for_core c ?s" using Cons.prems(1) by (simp add: epf_loaded_for_core_def)
    obtain v where v: "run_epf_tap_event (watched env) bus c e ?s = (False, put_view c (v, loads ?s c, runs ?s c @ [e]) ?s)"
      using quiet_run [OF assms(1) l] by blast
    let ?t = "put_view c (v, loads ?s c, runs ?s c @ [e]) ?s"
    have e: "e_spool s c ! read = Some e" using Cons.prems(4) [of 0] by simp
    have "e_spool ?t c ! (Suc read + i) = Some (es ! i)" if "i < length es" for i
      using Cons.prems(4) [of "Suc i"] that by simp
    moreover have "epf_loaded_for_core c ?t" "Suc read + length es \<le> EPF_TAP_SPOOL_EVENTS"
      "e_marks ?t (EPF_TAP_SPOOL_READ c) = of_nat (Suc read)"
      using l Cons.prems(3) by simp_all
    ultimately obtain u where u: "spool_rounds j (watched env) bus c (Suc read + length es) (Suc read) ?t = Done (False, u)"
      "runs u c = runs ?t c @ es" "e_marks u = (e_marks ?t)(EPF_TAP_SPOOL_READ c := of_nat (Suc read + length es))"
      "e_spool u = e_spool ?t" using Cons.IH [OF _ k(2), of ?t "Suc read"] by blast
    then show ?case using v e k Cons.prems(3) by (intro exI [of _ u]) (simp add: put_view_logs Let_def)
  qed
  then show thesis using that by blast
qed

lemma poll_spool_quiet:
  assumes "reports_nothing env" "epf_inv env s"
  obtains t where "poll_epf_spool_diagnostic (watched env) bus c s = Done (False, t)" "epf_inv env t"
    "runs t c = runs s c @ (if epf_loaded_for_core c s then drop (spool_done s c) (spooled s c) else [])"
    "spooled t c = spooled s c" "epf_loaded_for_core c s \<Longrightarrow> spool_done t c = length (spooled s c)"
    "\<And>m. m \<noteq> EPF_TAP_SPOOL_READ c \<Longrightarrow> e_marks t m = e_marks s m"
proof (cases "epf_loaded_for_core c s")
  case True
  let ?es = "drop (spool_done s c) (spooled s c)"
  have n: "spool_done s c + length ?es = length (spooled s c)" using spool_okD(3) [OF assms(2), of c] by simp
  have e: "e_spool s c ! (spool_done s c + i) = Some (?es ! i)" if "i < length ?es" for i
    using that spool_okD(5) [OF assms(2), of "spool_done s c + i" c] by simp
  have b: "length ?es \<le> EPF_TAP_SPOOL_EVENTS" "spool_done s c + length ?es \<le> EPF_TAP_SPOOL_EVENTS"
    using spool_okD(2,4) [OF assms(2), of c] n by (simp_all add: EPF_TAP_SPOOL_EVENTS_def)
  have r: "e_marks s (EPF_TAP_SPOOL_READ c) = of_nat (spool_done s c)" by (simp add: spool_done_def)
  obtain t where t: "spool_rounds EPF_TAP_SPOOL_EVENTS (watched env) bus c (length (spooled s c)) (spool_done s c) s = Done (False, t)"
    "runs t c = runs s c @ ?es" "e_marks t = (e_marks s)(EPF_TAP_SPOOL_READ c := of_nat (length (spooled s c)))" "e_spool t = e_spool s"
    by (rule spool_rounds_quiet [OF assms(1) True b e r, of bus]) (use that in \<open>unfold n\<close>)
  have p: "poll_epf_spool_diagnostic (watched env) bus c s = Done (False, t)"
    using True t(1) spool_okD(4) [OF assms(2), of c] by (simp add: poll_epf_spool_diagnostic_def spool_done_def)
  obtain stop t' where "poll_epf_spool_diagnostic (watched env) bus c s = Done (stop, t')" "epf_inv env t'"
    by (rule poll_spool_inv [OF assms(2), of bus c])
  with p have i: "epf_inv env t" by simp
  have d: "spool_done t c = length (spooled s c)" using spool_okD(4) [OF assms(2), of c] by (simp add: spool_done_def t(3))
  have sd: "spooled t c = spooled s c" by (simp add: spooled_def t(3,4))
  show thesis
  proof (rule that [OF p i _ sd d])
    show "runs t c = runs s c @ (if epf_loaded_for_core c s then drop (spool_done s c) (spooled s c) else [])"
      using True t(2) by simp
    show "e_marks t m = e_marks s m" if "m \<noteq> EPF_TAP_SPOOL_READ c" for m using that by (simp add: t(3))
  qed
next
  case False
  show thesis by (rule that [of s]) (use False assms(2) in \<open>simp_all add: poll_epf_spool_diagnostic_def\<close>)
qed

lemma try_load_idle:
  assumes "e_marks s EPF_BYTECODE_STATE \<noteq> EPF_BYTECODE_STATE_COMMIT" "epf_loaded_for_core c s \<or> e_marks s EPF_ACTIVE_LEN = 0"
  shows "epf_try_load_committed_image env c s = s"
  using assms by (auto simp: epf_try_load_committed_image_def epf_prepare_committed_image_def epf_load_active_image_for_core_def
      epf_loaded_for_core_def Let_def)

text \<open>One poll.\<close>

lemma poll_quiet:
  assumes "reports_nothing env" "epf_inv env s" "e_marks s EPF_BYTECODE_STATE \<noteq> EPF_BYTECODE_STATE_COMMIT"
    "epf_loaded_for_core c s \<or> e_marks s EPF_ACTIVE_LEN = 0"
  obtains t where "poll_epf_diagnostic (watched env) bus c es s = Done (drop 16 es, t)" "epf_inv env t"
    "runs t c = runs s c @ (if epf_loaded_for_core c s then drop (spool_done s c) (spooled s c) @ take 16 es else [])"
    "spooled t c = spooled s c @ take (16 - length (spooled s c)) es"
    "epf_loaded_for_core c s \<Longrightarrow> spool_done t c = length (spooled s c)"
    "\<And>m. m \<noteq> EPF_TAP_SPOOL_READ c \<Longrightarrow> m \<noteq> EPF_TAP_SPOOL_LEN c \<Longrightarrow> e_marks t m = e_marks s m"
proof -
  obtain t where t: "poll_epf_spool_diagnostic (watched env) bus c s = Done (False, t)" "epf_inv env t"
    "runs t c = runs s c @ (if epf_loaded_for_core c s then drop (spool_done s c) (spooled s c) else [])"
    "spooled t c = spooled s c" "epf_loaded_for_core c s \<Longrightarrow> spool_done t c = length (spooled s c)"
    "\<And>m. m \<noteq> EPF_TAP_SPOOL_READ c \<Longrightarrow> e_marks t m = e_marks s m"
    using poll_spool_quiet [OF assms(1,2), of bus c] by blast
  obtain u where u: "tap_rounds EPF_TAP_SPOOL_EVENTS (watched env) bus c es t = (drop EPF_TAP_SPOOL_EVENTS es, u)" "epf_inv env u"
    "runs u c = runs t c @ (if epf_loaded_for_core c t then take EPF_TAP_SPOOL_EVENTS es else [])"
    "spooled u c = spooled t c @ take (16 - length (spooled t c)) (take EPF_TAP_SPOOL_EVENTS es)"
    "\<And>m. m \<noteq> EPF_TAP_SPOOL_LEN c \<Longrightarrow> e_marks u m = e_marks t m"
    using tap_rounds_quiet [OF assms(1) t(2), of EPF_TAP_SPOOL_EVENTS bus c es] by blast
  have l: "epf_loaded_for_core c t = epf_loaded_for_core c s" using t(6) by (simp add: epf_loaded_for_core_def)
  have "poll_epf_diagnostic (watched env) bus c es s = Done (drop 16 es, u)"
    using t(1) u(1) try_load_idle [OF assms(3,4)] by (simp add: poll_epf_diagnostic_def EPF_TAP_SPOOL_EVENTS_def)
  moreover have "spooled u c = spooled s c @ take (16 - length (spooled s c)) es"
    using u(4) t(4) by (simp add: EPF_TAP_SPOOL_EVENTS_def min_def)
  moreover have "runs u c = runs s c @ (if epf_loaded_for_core c s then drop (spool_done s c) (spooled s c) @ take 16 es else [])"
    using u(3) t(3) l by (simp add: EPF_TAP_SPOOL_EVENTS_def)
  moreover have "spool_done u c = length (spooled s c)" if "epf_loaded_for_core c s"
    using u(5) [of "EPF_TAP_SPOOL_READ c"] t(5) [OF that] by (simp add: spool_done_def)
  ultimately show thesis using u(2) u(5) t(6) by (intro that [of u]) simp_all
qed

section \<open>Properties\<close>

text \<open>Whatever the cores, the host and the serial line do after the reset, no operation panics or reads
  an event that was never written; and a core that counts as loaded has loaded an image itself, the
  last of which has the digest of the active image, as has the active image in memory.\<close>

theorem epf_images_agree:
  assumes "ingress_fits env"
  shows "\<exists>s. epf_run (watched env) bus xs (epf_start h i) = Done s
    \<and> (\<forall>c. epf_loaded_for_core c s \<longrightarrow> loads s c \<noteq> []
        \<and> ev_hash env (last (loads s c)) = e_marks s EPF_IMAGE_DIGEST
        \<and> ev_hash env (take (unat (e_marks s EPF_ACTIVE_LEN)) (e_active s)) = e_marks s EPF_IMAGE_DIGEST)"
proof -
  obtain s where s: "epf_run (watched env) bus xs (epf_start h i) = Done s" "epf_inv env s"
    by (rule epf_run_inv [OF epf_start_inv assms])
  then show ?thesis by (auto simp: epf_inv_def image_ok_def epf_loaded_for_core_def)
qed

text \<open>A machine that loads everything and reports nothing, and a serial line that yields no image.\<close>

definition tiny_env :: "(unit, nat, unit) epf_env" where
  "tiny_env = \<lparr>ev_fresh = (), ev_load = (\<lambda>img v. (Some \<lparr>el_epoch = 1, el_target_kind = 1, el_policy = 7\<rparr>, v)),
     ev_run = (\<lambda>e v. (\<lparr>eo_emitted = False, eo_kind = 0, eo_reason = 0, eo_arg0 = 0, eo_arg1 = 0, eo_arg2 = 0,
       eo_fuel_used = 0, eo_trap = False\<rparr>, v)),
     ev_evidence = (\<lambda>i b args v. (\<lparr>eo_emitted = False, eo_kind = 0, eo_reason = 0, eo_arg0 = 0, eo_arg1 = 0, eo_arg2 = 0,
       eo_fuel_used = 0, eo_trap = False\<rparr>, v)),
     ev_hash = (\<lambda>bs. of_nat (length bs)), ev_record = (\<lambda>c out. []), ig_push = (\<lambda>b i. (Ing_Pending, i)),
     ig_position = (\<lambda>_. 0), ig_staged_len = (\<lambda>_. 0), ig_expected_hash = (\<lambda>_. 0), ig_running_hash = (\<lambda>_. 0),
     ig_image = (\<lambda>_. None), ig_clear_ready = id\<rparr>"

lemma tiny_env_ok: "ingress_fits tiny_env" "reports_nothing tiny_env"
  by (simp_all add: tiny_env_def ingress_fits_def reports_nothing_def)

definition tiny_bus :: "unit bus" where
  "tiny_bus = \<lparr>bus_read = (\<lambda>a h. (0, h)), bus_write = (\<lambda>a v h. h)\<rparr>"

definition tiny_start :: "(unit, unit \<times> bytes list \<times> nat list, nat, unit) epf" where
  "tiny_start = epf_start () ()"

definition tiny_image :: "nat epf_op" where "tiny_image = Op_Mailbox (replicate 64 9) 2 2"

lemmas tiny_simps = tiny_start_def epf_start_def tiny_image_def tiny_env_def watched_def host_commits_def
  poll_epf_image_load_def epf_try_load_committed_image_def epf_prepare_committed_image_def epf_load_image_def
  epf_load_active_image_for_core_def epf_hash_image_def EPF_BYTECODE_BYTES_def EPF_BYTECODE_STATE_COMMIT_def
  EPF_BYTECODE_STATE_LOADED_def epf_view_def put_view_def emark_def

theorem epf_images_agree_witness:
  "\<exists>s. epf_run (watched tiny_env) tiny_bus [tiny_image, Op_Poll_Load Core_0, Op_Poll_Load Core_1] tiny_start = Done s
    \<and> epf_loaded_for_core Core_1 s \<and> ev_hash tiny_env (last (loads s Core_1)) = 2"
proof -
  let ?xs = "[tiny_image, Op_Poll_Load Core_0, Op_Poll_Load Core_1]"
  obtain s where s: "epf_run (watched tiny_env) tiny_bus ?xs tiny_start = Done s"
    "epf_loaded_for_core Core_1 s \<longrightarrow> ev_hash tiny_env (last (loads s Core_1)) = e_marks s EPF_IMAGE_DIGEST"
    using epf_images_agree [OF tiny_env_ok(1), of tiny_bus ?xs "()" "()"] by (auto simp: tiny_start_def)
  moreover have "epf_loaded_for_core Core_1 s \<and> e_marks s EPF_IMAGE_DIGEST = 2"
    using s(1) by (auto simp: tiny_simps epf_loaded_for_core_def Let_def)
  ultimately show ?thesis by auto
qed

text \<open>C36: What a poll of the diagnostics does, exactly, when the machine has nothing to report. In any
  state that a run after the reset can reach, with no image waiting in the mailbox, a core takes up
  to sixteen events from its tap. If its image is loaded it first runs the events that its spool
  still holds, then each event from the tap; and it keeps the events from the tap in the spool as far
  as there is room, of sixteen places that are never freed. So the next poll runs the events it has
  just run a second time, until the spool has been filled once.\<close>

theorem epf_events_twice:
  assumes "ingress_fits env" "reports_nothing env" "epf_run (watched env) bus xs (epf_start h i) = Done s"
    and "e_marks s EPF_BYTECODE_STATE \<noteq> EPF_BYTECODE_STATE_COMMIT"
    and "epf_loaded_for_core c s \<or> e_marks s EPF_ACTIVE_LEN = 0"
  shows "\<exists>t u. poll_epf_diagnostic (watched env) bus c es s = Done (drop 16 es, t)
    \<and> runs t c = runs s c @ (if epf_loaded_for_core c s then drop (spool_done s c) (spooled s c) @ take 16 es else [])
    \<and> spooled t c = spooled s c @ take (16 - length (spooled s c)) es
    \<and> poll_epf_diagnostic (watched env) bus c [] t = Done ([], u)
    \<and> runs u c = runs t c @ (if epf_loaded_for_core c s then take (16 - length (spooled s c)) es else [])"
proof -
  have inv: "epf_inv env s"
    using assms(3) epf_run_inv [OF epf_start_inv assms(1), of bus xs] by (metis outcome.inject)
  obtain t where t: "poll_epf_diagnostic (watched env) bus c es s = Done (drop 16 es, t)" "epf_inv env t"
    "runs t c = runs s c @ (if epf_loaded_for_core c s then drop (spool_done s c) (spooled s c) @ take 16 es else [])"
    "spooled t c = spooled s c @ take (16 - length (spooled s c)) es"
    "epf_loaded_for_core c s \<Longrightarrow> spool_done t c = length (spooled s c)"
    "\<And>m. m \<noteq> EPF_TAP_SPOOL_READ c \<Longrightarrow> m \<noteq> EPF_TAP_SPOOL_LEN c \<Longrightarrow> e_marks t m = e_marks s m"
    using poll_quiet [OF assms(2) inv assms(4,5)] by blast
  have l: "epf_loaded_for_core c t = epf_loaded_for_core c s" using t(6) by (simp add: epf_loaded_for_core_def)
  have a: "e_marks t EPF_BYTECODE_STATE \<noteq> EPF_BYTECODE_STATE_COMMIT" "epf_loaded_for_core c t \<or> e_marks t EPF_ACTIVE_LEN = 0"
    using assms(4,5) t(6) l by simp_all
  obtain u where u: "poll_epf_diagnostic (watched env) bus c [] t = Done (drop 16 [], u)"
    "runs u c = runs t c @ (if epf_loaded_for_core c t then drop (spool_done t c) (spooled t c) @ take 16 [] else [])"
    using poll_quiet [OF assms(2) t(2) a] by blast
  show ?thesis
    by (intro exI [of _ t] exI [of _ u]) (use t(1,3,4,5) u l in simp)
qed

theorem epf_events_twice_witness:
  "\<exists>s t u. epf_run (watched tiny_env) tiny_bus [tiny_image, Op_Poll_Load Core_0] tiny_start = Done s
    \<and> poll_epf_diagnostic (watched tiny_env) tiny_bus Core_0 [1, 2, 3] s = Done ([], t) \<and> runs t Core_0 = [1, 2, 3]
    \<and> poll_epf_diagnostic (watched tiny_env) tiny_bus Core_0 [] t = Done ([], u) \<and> runs u Core_0 = [1, 2, 3, 1, 2, 3]"
proof -
  let ?xs = "[tiny_image, Op_Poll_Load Core_0]"
  obtain s where s: "epf_run (watched tiny_env) tiny_bus ?xs tiny_start = Done s"
    using epf_run_inv [OF epf_start_inv tiny_env_ok(1), of tiny_bus ?xs] by (metis tiny_start_def)
  have f: "e_marks s EPF_BYTECODE_STATE \<noteq> EPF_BYTECODE_STATE_COMMIT" "epf_loaded_for_core Core_0 s"
    "runs s Core_0 = []" "spooled s Core_0 = []"
    using s by (auto simp: tiny_simps epf_loaded_for_core_def Let_def runs_def spooled_def)
  obtain t u where "poll_epf_diagnostic (watched tiny_env) tiny_bus Core_0 [1, 2, 3] s = Done ([], t)" "runs t Core_0 = [1, 2, 3]"
    "poll_epf_diagnostic (watched tiny_env) tiny_bus Core_0 [] t = Done ([], u)" "runs u Core_0 = [1, 2, 3, 1, 2, 3]"
    using epf_events_twice [OF tiny_env_ok s [unfolded tiny_start_def] f(1) disjI1 [OF f(2)], of "[1, 2, 3]"]
    by (auto simp: f)
  with s show ?thesis by blast
qed

end
