(* ===== verification/Spec2Isabelle.thy ===== *)
theory Spec2Isabelle
  imports Wire_Protocol Uno_Carrier Sio_Rp2w Mailbox_Race Appkit_Roles Split_Carrier Sensor_Panel Face_Conformance Uno_Inputs M33_Setup Baker_Traffic Epf_Image
begin

text \<open>
  Hibana-pico runs the roles of one choreography on several small machines: a Linux host and an
  STM32 M33 joined by a UART (Uno Q), the two cores of an RP2040 (Baker) and of an RP2350
  (Pico 2 W). The roles themselves are async functions over endpoints of the \<open>hibana\<close> crate;
  what this repository adds, and what is verified here, is everything below and around them: the
  transports that carry frames between roles, the executor that attaches roles and polls them,
  the engine that runs a WASI guest and turns its imports into messages, the payload codecs, and
  the drivers of the sensor panel.

  \<^bold>\<open>Theories.\<close> Files are relative to the repository root.

  \<^item> \<open>Pico_Prelude\<close>: machine words, poll results, panics as a value (\<open>outcome\<close>), the values that
    cross the boundary to \<open>hibana\<close> (ports, outgoing messages, received frames), byte images of
    integers, \<open>copy_from_slice\<close>.
  \<^item> \<open>Wire_Protocol\<close>: \<open>examples/uno-q-heterogeneous/src/protocol.rs\<close>. Locale \<open>wire_codec\<close>, one
    interpretation per payload type; round trips and canonicity.
  \<^item> \<open>Lane_Queue\<close>, \<open>Proof_Queue\<close>, \<open>Proof_Carrier\<close>, \<open>Stream_Codec\<close>, \<open>Uart_Frame\<close>, \<open>Uno_Carrier\<close>: the
    three transports of \<open>examples/uno-q-heterogeneous/src/lib.rs\<close>: the bounded ring, the
    in-memory carrier, the framing of the serial line and its resynchronising parser, the M33
    side with its deadlines and the host side with its chunked reads. Locales \<open>role_carrier\<close> and
    the stream parser contract; the ring refines a list per lane.
  \<^item> \<open>Sio_Words\<close>, \<open>Frame_Stash\<close>, \<open>Sio_Rp2w\<close>: module \<open>rp2350_sio\<close> of
    \<open>examples/rp2w-firmware/src/lib.rs\<close>: frames as words of the inter-core FIFO, the receive
    accumulator, resumable sends and the receive loop.
  \<^item> \<open>Sio_Baker\<close>, \<open>Mailbox_Race\<close>: module \<open>rp2040_sio\<close> of \<open>examples/baker-firmware/src/lib.rs\<close>: the
    one-frame mailbox per direction, the registry of local roles, send and receive; and the
    mailbox once more with both cores interleaved at every volatile load and store, as an
    inductive step relation.
  \<^item> \<open>Split_Carrier\<close>: the ring of one-place slots of \<open>examples/heterogeneous-split-example/src/lib.rs\<close>.
  \<^item> \<open>Appkit_Scheduler\<close>, \<open>Wasi_Imports\<close>, \<open>Wasi_Metrics\<close>, \<open>Wasi_Engine\<close>, \<open>Wasi_Board\<close>, \<open>Appkit_Roles\<close>:
    \<open>src/appkit/internal.rs\<close>: the hosted and the embedded task tables (locale \<open>task_scheduler\<close>),
    the import and message tables, the time metrics, the guest arena with its lease and the
    hosted driver as a phase machine, the blocking driver of the boards, and role sets, visits,
    attach and run.
  \<^item> \<open>I2c_Bus\<close>, \<open>Sensor_Panel\<close>: \<open>examples/rp2w-firmware/src/bin/sensor_panel.rs\<close>: the polled I2C
    master over any register device, the DHT20 thermometer and its checksum, the sensor sample,
    its decimal text and the two-line display.

  \<^item> \<open>Json_Text\<close>, \<open>Utf8_Text\<close>, \<open>Shell_Command\<close>, \<open>Shell_Prompt\<close>, \<open>Shell_Source\<close>: the language model client
    of \<open>examples/uno-q-heterogeneous/src/lib.rs\<close>: JSON and the command line, UTF-8 and lines of
    text, commands and their admission, prompts and HTTP texts, the retry loop and the transcript.
  \<^item> \<open>Shell_Guest\<close>: the shell guests under \<open>examples/uno-q-heterogeneous/wasip1/guest/src/bin\<close>.
  \<^item> \<open>Face_Session\<close>, \<open>Face_Conformance\<close>: the choreography of the Uno Q, the display driver, and the
    guest, client and driver running together, scripted or with any server.
  \<^item> \<open>Uno_Inputs\<close>: the roles for typed text and for the sensor, and the thread that answers its
    datagrams.

  \<^item> \<open>M33_Board\<close>, \<open>Led_Matrix\<close>, \<open>M33_Setup\<close>: the M33 kernel,
    \<open>examples/uno-q-heterogeneous/src/bin/uno_q_m33_native_kernel.rs\<close> and its \<open>matrix.rs\<close>: markers,
    UARTs and their ring of bytes, pictures and the scan of the LED matrix, clocks and pins.
  \<^item> \<open>Baker_Board\<close>, \<open>Baker_Traffic\<close>: the markers, metrics, pins and alarm of
    \<open>examples/baker-firmware/src/lib.rs\<close>, and on them the traffic light of
    \<open>src/bin/choreofs_traffic_loop.rs\<close> with its guest \<open>wasip1-led-choreofs-traffic-cycle.rs\<close>.
  \<^item> \<open>Epf_Image\<close>: the policy images in \<open>examples/rp2w-firmware/src/lib.rs\<close>: how the two cores load
    them from the mailbox, the serial line or a message, and run them over events.

  \<^bold>\<open>How the model reads.\<close> A struct is a record, an enum a datatype, a fixed-width integer a word;
  \<open>usize\<close> is \<open>nat\<close>. A function that mutates returns the changed state; static cells and statics
  behind raw pointers are fields of the state record of their component. A panic, an assertion
  included, is \<open>Panic\<close>; a \<open>Result\<close> is a sum with the error on the left; \<open>Poll\<close> is \<open>poll\<close>. A wake-up is
  a boolean in the result. Code under a \<open>cfg\<close> for the board is modelled for the board.

  \<^bold>\<open>Loops.\<close> Loops over data recurse on it, loops with a spin limit carry the counter and stop where
  the code stops, so these functions are total and their results unconditional. The
  endless loops (the hosted scheduler, the guest driver) are \<open>partial_function (option)\<close>: \<open>None\<close> is not
  returning, and \<open>hosted_run_terminates\<close> and \<open>wasi_poll_returns\<close> give conditions under which they
  return. The board loop, which never returns, and the blocking engine are run for a
  number of rounds that the theorems quantify over, so they hold of every prefix of the run.

  \<^bold>\<open>Parameters.\<close> Code outside the repository is a parameter of the definitions: the \<open>hibana\<close>
  rendezvous and endpoints, the guest runtime, the polls of role futures, timers and deadlines,
  FIFO, I2C, GPIO, timer and UART registers (a bus with any behaviour), serial devices, sockets, board
  calls, the inherited \<open>decode_payload\<close>. What a
  theorem needs of them is a named hypothesis: \<open>leases_raw\<close> (a lease is handed out
  uninitialised), \<open>guest_bounded\<close> (resuming brings the guest closer to its end), \<open>tasks_calm\<close> (the
  other tasks do not panic), \<open>decodes_validated\<close> (decoding a valid payload is the codec's decoder).
  Each such theorem has a witness with concrete functions.

  \<^bold>\<open>What is shown.\<close> For the transports: delivery of exactly the accepted frames, in order and
  with their header, per role and lane (\<open>proof_carrier_delivery\<close>, \<open>host_carrier_delivery\<close>,
  \<open>split_carrier_delivery\<close>, \<open>sio_end_to_end\<close>, \<open>bk_end_to_end\<close>, \<open>host_message_reaches_m33\<close> and
  \<open>m33_message_reaches_host\<close>), refinement of the ring by a list, round trips and containment of
  corruption on the serial line, resumable sends, the outcomes of every refused operation, and
  delivery by the mailbox under every interleaving (\<open>race_delivery\<close>), within 135 accesses of the
  publishing and 136 of the taking core (\<open>race_progress\<close>). The race
  assumes that volatile accesses of one core reach the shared memory in program order.
  For appkit: the task tables run like plain loops over lists, a hosted run of an image is the
  list of its requested roles, the arena has one owner, the engine answers each import with its
  own message type, and the board driver takes the steps of the hosted one. For the
  sensor panel: bus traffic of every I2C transaction, checksum, scaling and display. For the face
  shell: the scripted session runs for ever without an error and shows what the script asks for
  (\<open>face_session_runs\<close>); with a server that may answer anything, each completed round keeps the order
  of the choreography, one label excepted (\<open>server_round_conforms\<close>, \<open>label_v_leaves_order\<close>); and the
  texts in between are read back as they were written. The operations of the session take the
  outcome of each endpoint call; the session itself is over endpoints whose calls succeed. What is typed or
  spoken reaches it line by line (\<open>human_lines_delivered\<close>), and a sensor sample only with its
  acknowledgement (\<open>udp_sample_acknowledged\<close>). The choreography is a term whose
  constructors are the combinators of \<open>hibana\<close>; only the order in which it names the messages of
  one role is used.
  For the boards: every tick of the M33 lights one LED of the picture and all of them in turn
  (\<open>face_on_matrix\<close>), bytes from the UARTs are kept, handed on or counted as lost
  (\<open>uart_bytes_accounted\<close>), the traffic light guest and its driver run any number of cycles with the
  pins as the cycle says (\<open>traffic_light_runs\<close>), and the wait for the alarm has one way to hang
  (\<open>alarm_wait_outcomes\<close>, over the architecture's \<open>wfi\<close>). A core runs events only with an image
  whose digest is the active one (\<open>epf_images_agree\<close>), but runs them twice (\<open>epf_events_twice\<close>).

  \<^bold>\<open>Not modelled.\<close> The choreographies and async role bodies of the other examples (they are programs
  of the \<open>hibana\<close> crate), core launch, memory initialisation, vector
  tables and hard faults, pin and clock set-up of the RP2040 and RP2350 beside the LED pins, linker
  scripts and assembly, the QEMU models, the radio driver over PIO and the \<open>hibana_wifi\<close> crate, the
  processes, threads and sockets of the host binary, the machine of the \<open>hibana_epf\<close> crate and the
  set-up of its serial line, the other guests, and the repository's tests and scripts.
\<close>

end
